(* ===== verification/Prelude.thy ===== *)
theory Prelude
  imports Main "HOL-Library.Word"
begin

text \<open>
  Shared vocabulary of the development: the machine integers of
  \<^verbatim>\<open>common/common_types.h\<close>, the bit-field and byte-order helpers the components use,
  the text formatting of \<^verbatim>\<open>fmt\<close> that the logs use, and generic lemmas on lists and words
  that carry the component proofs.
\<close>

unbundle bit_operations_syntax

section \<open>Machine integers\<close>

type_synonym u8 = "8 word"
type_synonym u16 = "16 word"
type_synonym u32 = "32 word"
type_synonym u64 = "64 word"
type_synonym s32 = "32 word"

text \<open>
  Collections: \<open>wf_intros\<close> gathers the preservation lemmas of the component invariants,
  \<open>frame_simps\<close> the equations saying which fields an operation leaves alone.
\<close>

named_theorems wf_intros
named_theorems frame_simps

section \<open>Bit fields of an instruction word\<close>

text \<open>\<open>nibble_at s w\<close> is the C++ expression \<^verbatim>\<open>(w >> s) & 0xF\<close>.\<close>

definition nibble_at :: "nat \<Rightarrow> u32 \<Rightarrow> u32" where
  "nibble_at s w = drop_bit s w AND 0xF"

text \<open>The 32-bit word whose eight hexadecimal digits are given, most significant first.\<close>

definition hex_word :: "u32 \<Rightarrow> u32 \<Rightarrow> u32 \<Rightarrow> u32 \<Rightarrow> u32 \<Rightarrow> u32 \<Rightarrow> u32 \<Rightarrow> u32 \<Rightarrow> u32" where
  "hex_word n7 n6 n5 n4 n3 n2 n1 n0 =
     push_bit 28 n7 OR push_bit 24 n6 OR push_bit 20 n5 OR push_bit 16 n4 OR
     push_bit 12 n3 OR push_bit 8 n2 OR push_bit 4 n1 OR n0"

definition is_nibble :: "u32 \<Rightarrow> bool" where
  "is_nibble n \<longleftrightarrow> n < 16"

lemma is_nibble_iff_take_bit: "is_nibble n \<longleftrightarrow> take_bit 4 n = n"
proof -
  have "is_nibble n \<longleftrightarrow> uint n < 16"
    by (simp add: is_nibble_def word_less_alt)
  also have "\<dots> \<longleftrightarrow> take_bit 4 (uint n) = uint n"
    by (simp add: take_bit_int_eq_self_iff)
  also have "\<dots> \<longleftrightarrow> take_bit 4 n = n"
    by (simp only: word_uint_eq_iff unsigned_take_bit_eq)
  finally show ?thesis .
qed

lemma nibble_bit: "is_nibble n \<Longrightarrow> bit n i \<Longrightarrow> i < 4"
  by (metis is_nibble_iff_take_bit bit_take_bit_iff)

lemma mask4: "(0xF :: u32) = mask 4"
  by (simp add: mask_eq_exp_minus_1)

lemma bit_nibble_at: "bit (nibble_at s w) i \<longleftrightarrow> i < 4 \<and> bit w (s + i)"
  by (auto simp: nibble_at_def mask4 bit_and_iff bit_mask_iff bit_drop_bit_eq)

lemma is_nibble_nibble_at [simp]: "is_nibble (nibble_at s w)"
  by (simp add: is_nibble_iff_take_bit bit_eq_iff bit_take_bit_iff bit_nibble_at)

lemma nibble_high_bit [simp]: "is_nibble n \<Longrightarrow> 4 \<le> i \<Longrightarrow> \<not> bit n i"
  using nibble_bit by fastforce

lemma nibble_eqI:
  assumes "is_nibble a" "is_nibble b"
    and "bit a 0 = bit b 0" "bit a 1 = bit b 1" "bit a 2 = bit b 2" "bit a 3 = bit b 3"
  shows "a = b"
proof (rule bit_eqI)
  fix i :: nat
  consider "i = 0" | "i = 1" | "i = 2" | "i = 3" | "4 \<le> i" by linarith
  then show "bit a i = bit b i"
    using assms by cases simp_all
qed

text \<open>Each digit of \<open>hex_word\<close> is read back by the matching \<open>nibble_at\<close>.\<close>

lemma nibble_at_hex_word [simp]:
  assumes n: "is_nibble n7" "is_nibble n6" "is_nibble n5" "is_nibble n4"
    "is_nibble n3" "is_nibble n2" "is_nibble n1" "is_nibble n0"
  shows "nibble_at 28 (hex_word n7 n6 n5 n4 n3 n2 n1 n0) = n7"
    and "nibble_at 24 (hex_word n7 n6 n5 n4 n3 n2 n1 n0) = n6"
    and "nibble_at 20 (hex_word n7 n6 n5 n4 n3 n2 n1 n0) = n5"
    and "nibble_at 16 (hex_word n7 n6 n5 n4 n3 n2 n1 n0) = n4"
    and "nibble_at 12 (hex_word n7 n6 n5 n4 n3 n2 n1 n0) = n3"
    and "nibble_at 8 (hex_word n7 n6 n5 n4 n3 n2 n1 n0) = n2"
    and "nibble_at 4 (hex_word n7 n6 n5 n4 n3 n2 n1 n0) = n1"
    and "nibble_at 0 (hex_word n7 n6 n5 n4 n3 n2 n1 n0) = n0"
  by (rule nibble_eqI;
      simp add: n bit_nibble_at hex_word_def bit_or_iff bit_push_bit_iff numeral_2_eq_2)+

text \<open>The low byte, and the low digit, which extend an address operand.\<close>

lemma low_byte_hex_word:
  assumes n: "is_nibble n7" "is_nibble n6" "is_nibble n5" "is_nibble n4"
    "is_nibble n3" "is_nibble n2" "is_nibble n1" "is_nibble n0"
  shows "hex_word n7 n6 n5 n4 n3 n2 n1 n0 AND 0xFF = push_bit 4 n1 OR n0"
proof (rule bit_eqI)
  fix i
  have m: "(0xFF :: u32) = mask 8"
    by (simp add: mask_eq_exp_minus_1)
  show "bit (hex_word n7 n6 n5 n4 n3 n2 n1 n0 AND 0xFF) i = bit (push_bit 4 n1 OR n0) i"
  proof (cases "i < 8")
    case True
    then show ?thesis
      unfolding m by (simp add: n hex_word_def bit_or_iff bit_and_iff bit_mask_iff bit_push_bit_iff)
  next
    case False
    then show ?thesis
      unfolding m by (simp add: n bit_or_iff bit_and_iff bit_mask_iff bit_push_bit_iff)
  qed
qed

lemma and_15_eq_nibble_at: "w AND 0xF = nibble_at 0 w"
  by (simp add: nibble_at_def)

section \<open>Little-endian bytes\<close>

text \<open>
  \<open>le_bytes n v\<close>: the first \<open>n\<close> bytes of the object representation of a little-endian
  64-bit integer; \<open>store_le old bs\<close>: the integer after its first \<open>length bs\<close> bytes were
  overwritten by \<open>bs\<close> (a \<^verbatim>\<open>memcpy\<close> into \<^verbatim>\<open>&v\<close>).
\<close>

fun le_bytes :: "nat \<Rightarrow> u64 \<Rightarrow> u8 list" where
  "le_bytes 0 v = []"
| "le_bytes (Suc n) v = ucast v # le_bytes n (drop_bit 8 v)"

fun store_le :: "u64 \<Rightarrow> u8 list \<Rightarrow> u64" where
  "store_le old [] = old"
| "store_le old (b # bs) = push_bit 8 (store_le (drop_bit 8 old) bs) OR ucast b"

lemma length_le_bytes [simp]: "length (le_bytes n v) = n"
  by (induction n arbitrary: v) auto

lemma bit_store_le:
  "bit (store_le old bs) i \<longleftrightarrow>
     i < 64 \<and> (if i < 8 * length bs then bit (bs ! (i div 8)) (i mod 8) else bit old i)"
proof (induction bs arbitrary: old i)
  case Nil
  then show ?case by (auto dest: bit_imp_le_length)
next
  case (Cons b bs)
  have low: "bit (store_le old (b # bs)) i \<longleftrightarrow> i < 64 \<and> bit b i" if "i < 8"
    using that by (auto simp: bit_or_iff bit_push_bit_iff bit_ucast_iff)
  have high: "bit (store_le old (b # bs)) i \<longleftrightarrow> i < 64 \<and> bit (store_le (drop_bit 8 old) bs) (i - 8)"
    if "8 \<le> i"
    using that by (auto simp: bit_or_iff bit_push_bit_iff bit_ucast_iff dest: bit_imp_le_length)
  show ?case
  proof (cases "i < 8")
    case True
    then show ?thesis using low by auto
  next
    case False
    then have d: "i div 8 = Suc ((i - 8) div 8)" "i mod 8 = (i - 8) mod 8"
      by (simp_all add: le_div_geq le_mod_geq)
    show ?thesis
      using False high Cons.IH [of "drop_bit 8 old" "i - 8"] d
      by (auto simp: bit_drop_bit_eq)
  qed
qed

lemma nth_le_bytes_bit:
  "k < n \<Longrightarrow> bit (le_bytes n v ! k) j \<longleftrightarrow> j < 8 \<and> bit v (8 * k + j)"
proof (induction n arbitrary: v k)
  case 0
  then show ?case by simp
next
  case (Suc n)
  show ?case
  proof (cases k)
    case 0
    then show ?thesis by (auto simp: bit_ucast_iff)
  next
    case (Suc k')
    with Suc.prems have "k' < n" by simp
    from Suc.IH [OF this] show ?thesis
      by (auto simp: Suc bit_drop_bit_eq ac_simps)
  qed
qed

text \<open>Overwriting the first \<open>n\<close> bytes keeps the rest and takes the low bits of the source.\<close>

lemma store_le_le_bytes_bit:
  "bit (store_le old (le_bytes n v)) i \<longleftrightarrow> i < 64 \<and> bit (if i < 8 * n then v else old) i"
  by (auto simp: bit_store_le nth_le_bytes_bit less_mult_imp_div_less mult.commute)

lemma store_le_le_bytes:
  "store_le old (le_bytes n v) = (old AND NOT (mask (8 * n))) OR take_bit (8 * n) v"
  by (rule bit_eqI) (auto simp: store_le_le_bytes_bit bit_or_iff bit_and_iff bit_not_iff
      bit_mask_iff bit_take_bit_iff)

lemma store_le_zero_le_bytes: "store_le 0 (le_bytes n v) = take_bit (8 * n) v"
  by (simp add: store_le_le_bytes)

lemma store_le_all: "store_le old (le_bytes 8 v) = v"
  by (rule bit_eqI) (auto simp: store_le_le_bytes_bit)

section \<open>Text formatting\<close>

text \<open>The conversions \<^verbatim>\<open>{:X}\<close>, \<^verbatim>\<open>{:0nX}\<close> and \<^verbatim>\<open>{:d}\<close> of \<^verbatim>\<open>fmt::format\<close>.\<close>

definition digit_char :: "nat \<Rightarrow> char" where
  "digit_char d = char_of (if d < 10 then 48 + d else 55 + d)"

fun digits_in :: "nat \<Rightarrow> nat \<Rightarrow> nat \<Rightarrow> string" where
  "digits_in 0 b n = []"
| "digits_in (Suc k) b n =
     (if n < b then [digit_char n] else digits_in k b (n div b) @ [digit_char (n mod b)])"

text \<open>A 64-bit value has at most 16 hexadecimal and 20 decimal digits, so 20 rounds suffice.\<close>

definition fmt_X :: "nat \<Rightarrow> string" where
  "fmt_X n = digits_in 20 16 n"

definition fmt_d :: "nat \<Rightarrow> string" where
  "fmt_d n = digits_in 20 10 n"

definition fmt_0X :: "nat \<Rightarrow> nat \<Rightarrow> string" where
  "fmt_0X w n = replicate (w - length (fmt_X n)) (CHR ''0'') @ fmt_X n"

definition fmt_bool :: "bool \<Rightarrow> string" where
  "fmt_bool b = (if b then ''1'' else ''0'')"

section \<open>The lowest set bit\<close>

text \<open>\<^verbatim>\<open>std::countr_zero\<close> of a \<^verbatim>\<open>u64\<close>.\<close>

definition countr_zero :: "u64 \<Rightarrow> nat" where
  "countr_zero w = length (takeWhile (\<lambda>i. \<not> bit w i) [0..<64])"

lemma nonzero_word_bit:
  assumes "(w :: u64) \<noteq> 0"
  obtains n where "bit w n" "n < 64"
proof -
  from assms obtain n where n: "bit w n"
    by (metis bit_eq_iff bit_0_eq bot_apply bot_bool_def)
  moreover from n have "n < 64"
    using bit_imp_le_length by fastforce
  ultimately show ?thesis ..
qed

lemma bit_countr_zero:
  assumes "w \<noteq> 0"
  shows "countr_zero w < 64" "bit w (countr_zero w)"
proof -
  let ?z = "length (takeWhile (\<lambda>i. \<not> bit w i) [0..<64])"
  from assms obtain n where n: "bit w n" "n < 64"
    by (rule nonzero_word_bit)
  show *: "countr_zero w < 64"
  proof (rule ccontr)
    assume "\<not> countr_zero w < 64"
    then have "n < ?z"
      using n by (simp add: countr_zero_def)
    then have "\<not> bit w (takeWhile (\<lambda>i. \<not> bit w i) [0..<64] ! n)"
      using set_takeWhileD nth_mem by metis
    then show False
      using n \<open>n < ?z\<close> by (simp add: takeWhile_nth)
  qed
  then show "bit w (countr_zero w)"
    unfolding countr_zero_def using nth_length_takeWhile [of "\<lambda>i. \<not> bit w i" "[0..<64]"] by simp
qed

section \<open>Lists as fixed-size arrays\<close>

text \<open>\<open>fill_array n x\<close> is a \<^verbatim>\<open>std::array\<close> of \<open>n\<close> elements filled with \<open>x\<close>.\<close>

definition fill_array :: "nat \<Rightarrow> 'a \<Rightarrow> 'a list" where
  "fill_array n x = replicate n x"

lemma length_fill_array [simp]: "length (fill_array n x) = n"
  by (simp add: fill_array_def)

lemma nth_fill_array [simp]: "i < n \<Longrightarrow> fill_array n x ! i = x"
  by (simp add: fill_array_def)

lemma nth_list_update_if:
  "i < length xs \<Longrightarrow> xs[i := v] ! j = (if i = j then v else xs ! j)"
  by (auto simp: nth_list_update)

end
