(* ===== verification/CheatVm_Types.thy ===== *)
theory CheatVm_Types
  imports Prelude
begin

text \<open>
  The data of the cheat virtual machine: \<^verbatim>\<open>core/memory/dmnt_cheat_types.h\<close> and the
  enumerations, opcode structures and VM state of \<^verbatim>\<open>core/memory/dmnt_cheat_vm.h\<close>.

  The decoder obtains every enumeration by \<^verbatim>\<open>static_cast\<close> from a hexadecimal digit, so a
  value of the C++ type need not be one of its enumerators. Each datatype therefore has one
  constructor per enumerator and a last one for the remaining raw values; \<open>to_T\<close> is the cast
  from the raw value and \<open>T_val\<close> the cast back.
\<close>

section \<open>Process metadata and cheat entries\<close>

record MemoryRegionExtents =
  base :: u64
  size_of :: u64

record CheatProcessMetadata =
  process_id :: u64
  title_id :: u64
  main_nso_extents :: MemoryRegionExtents
  heap_extents :: MemoryRegionExtents
  alias_extents :: MemoryRegionExtents
  aslr_extents :: MemoryRegionExtents
  main_nso_build_id :: "u8 list"

record CheatDefinition =
  readable_name :: "u8 list"
  num_opcodes_def :: u32
  opcodes :: "u32 list"

record CheatEntry =
  enabled :: bool
  cheat_id :: u32
  definition_of :: CheatDefinition

text \<open>A value-initialised entry: a 0x40-byte name and room for 0x100 opcodes, all zero.\<close>

definition empty_definition :: CheatDefinition where
  "empty_definition =
     \<lparr>readable_name = fill_array 0x40 0, num_opcodes_def = 0, opcodes = fill_array 0x100 0\<rparr>"

definition empty_entry :: CheatEntry where
  "empty_entry = \<lparr>enabled = False, cheat_id = 0, definition_of = empty_definition\<rparr>"

section \<open>Enumerations\<close>

datatype CheatVmOpcodeType =
    StoreStatic | BeginConditionalBlock | EndConditionalBlock | ControlLoop
  | LoadRegisterStatic | LoadRegisterMemory | StoreStaticToAddress
  | PerformArithmeticStatic | BeginKeypressConditionalBlock
  | PerformArithmeticRegister | StoreRegisterToAddress | Reserved11
  | ExtendedWidth
  | BeginRegisterConditionalBlock | SaveRestoreRegister | SaveRestoreRegisterMask
  | ReadWriteStaticRegister
  | DoubleExtendedWidth
  | PauseProcess_type | ResumeProcess_type | DebugLog_type
  | UnknownOpcodeType u32

definition to_CheatVmOpcodeType :: "u32 \<Rightarrow> CheatVmOpcodeType" where
  "to_CheatVmOpcodeType v =
     (if v = 0 then StoreStatic
      else if v = 1 then BeginConditionalBlock
      else if v = 2 then EndConditionalBlock
      else if v = 3 then ControlLoop
      else if v = 4 then LoadRegisterStatic
      else if v = 5 then LoadRegisterMemory
      else if v = 6 then StoreStaticToAddress
      else if v = 7 then PerformArithmeticStatic
      else if v = 8 then BeginKeypressConditionalBlock
      else if v = 9 then PerformArithmeticRegister
      else if v = 10 then StoreRegisterToAddress
      else if v = 11 then Reserved11
      else if v = 12 then ExtendedWidth
      else if v = 0xC0 then BeginRegisterConditionalBlock
      else if v = 0xC1 then SaveRestoreRegister
      else if v = 0xC2 then SaveRestoreRegisterMask
      else if v = 0xC3 then ReadWriteStaticRegister
      else if v = 0xF0 then DoubleExtendedWidth
      else if v = 0xFF0 then PauseProcess_type
      else if v = 0xFF1 then ResumeProcess_type
      else if v = 0xFFF then DebugLog_type
      else UnknownOpcodeType v)"

datatype MemoryAccessType = MainNso | Heap | Alias | Aslr | MemoryAccessType_raw u32

definition to_MemoryAccessType :: "u32 \<Rightarrow> MemoryAccessType" where
  "to_MemoryAccessType v =
     (if v = 0 then MainNso else if v = 1 then Heap else if v = 2 then Alias
      else if v = 3 then Aslr else MemoryAccessType_raw v)"

fun MemoryAccessType_val :: "MemoryAccessType \<Rightarrow> u32" where
  "MemoryAccessType_val MainNso = 0"
| "MemoryAccessType_val Heap = 1"
| "MemoryAccessType_val Alias = 2"
| "MemoryAccessType_val Aslr = 3"
| "MemoryAccessType_val (MemoryAccessType_raw v) = v"

datatype ConditionalComparisonType =
  GT | GE | LT | LE | EQ | NE | ConditionalComparisonType_raw u32

definition to_ConditionalComparisonType :: "u32 \<Rightarrow> ConditionalComparisonType" where
  "to_ConditionalComparisonType v =
     (if v = 1 then GT else if v = 2 then GE else if v = 3 then LT else if v = 4 then LE
      else if v = 5 then EQ else if v = 6 then NE else ConditionalComparisonType_raw v)"

fun ConditionalComparisonType_val :: "ConditionalComparisonType \<Rightarrow> u32" where
  "ConditionalComparisonType_val GT = 1"
| "ConditionalComparisonType_val GE = 2"
| "ConditionalComparisonType_val LT = 3"
| "ConditionalComparisonType_val LE = 4"
| "ConditionalComparisonType_val EQ = 5"
| "ConditionalComparisonType_val NE = 6"
| "ConditionalComparisonType_val (ConditionalComparisonType_raw v) = v"

datatype RegisterArithmeticType =
    Addition | Subtraction | Multiplication | LeftShift | RightShift
  | LogicalAnd | LogicalOr | LogicalNot | LogicalXor | NoArithmetic
  | RegisterArithmeticType_raw u32

definition to_RegisterArithmeticType :: "u32 \<Rightarrow> RegisterArithmeticType" where
  "to_RegisterArithmeticType v =
     (if v = 0 then Addition else if v = 1 then Subtraction else if v = 2 then Multiplication
      else if v = 3 then LeftShift else if v = 4 then RightShift else if v = 5 then LogicalAnd
      else if v = 6 then LogicalOr else if v = 7 then LogicalNot else if v = 8 then LogicalXor
      else if v = 9 then NoArithmetic else RegisterArithmeticType_raw v)"

fun RegisterArithmeticType_val :: "RegisterArithmeticType \<Rightarrow> u32" where
  "RegisterArithmeticType_val Addition = 0"
| "RegisterArithmeticType_val Subtraction = 1"
| "RegisterArithmeticType_val Multiplication = 2"
| "RegisterArithmeticType_val LeftShift = 3"
| "RegisterArithmeticType_val RightShift = 4"
| "RegisterArithmeticType_val LogicalAnd = 5"
| "RegisterArithmeticType_val LogicalOr = 6"
| "RegisterArithmeticType_val LogicalNot = 7"
| "RegisterArithmeticType_val LogicalXor = 8"
| "RegisterArithmeticType_val NoArithmetic = 9"
| "RegisterArithmeticType_val (RegisterArithmeticType_raw v) = v"

datatype StoreRegisterOffsetType =
  OfsNone | OfsReg | OfsImm | OfsMemReg | OfsMemImm | OfsMemImmReg | StoreRegisterOffsetType_raw u32

definition to_StoreRegisterOffsetType :: "u32 \<Rightarrow> StoreRegisterOffsetType" where
  "to_StoreRegisterOffsetType v =
     (if v = 0 then OfsNone else if v = 1 then OfsReg else if v = 2 then OfsImm
      else if v = 3 then OfsMemReg else if v = 4 then OfsMemImm
      else if v = 5 then OfsMemImmReg else StoreRegisterOffsetType_raw v)"

fun StoreRegisterOffsetType_val :: "StoreRegisterOffsetType \<Rightarrow> u32" where
  "StoreRegisterOffsetType_val OfsNone = 0"
| "StoreRegisterOffsetType_val OfsReg = 1"
| "StoreRegisterOffsetType_val OfsImm = 2"
| "StoreRegisterOffsetType_val OfsMemReg = 3"
| "StoreRegisterOffsetType_val OfsMemImm = 4"
| "StoreRegisterOffsetType_val OfsMemImmReg = 5"
| "StoreRegisterOffsetType_val (StoreRegisterOffsetType_raw v) = v"

datatype CompareRegisterValueType =
    MemoryRelAddr | MemoryOfsReg | RegisterRelAddr | RegisterOfsReg | StaticValue | OtherRegister
  | CompareRegisterValueType_raw u32

definition to_CompareRegisterValueType :: "u32 \<Rightarrow> CompareRegisterValueType" where
  "to_CompareRegisterValueType v =
     (if v = 0 then MemoryRelAddr else if v = 1 then MemoryOfsReg else if v = 2 then RegisterRelAddr
      else if v = 3 then RegisterOfsReg else if v = 4 then StaticValue
      else if v = 5 then OtherRegister else CompareRegisterValueType_raw v)"

fun CompareRegisterValueType_val :: "CompareRegisterValueType \<Rightarrow> u32" where
  "CompareRegisterValueType_val MemoryRelAddr = 0"
| "CompareRegisterValueType_val MemoryOfsReg = 1"
| "CompareRegisterValueType_val RegisterRelAddr = 2"
| "CompareRegisterValueType_val RegisterOfsReg = 3"
| "CompareRegisterValueType_val StaticValue = 4"
| "CompareRegisterValueType_val OtherRegister = 5"
| "CompareRegisterValueType_val (CompareRegisterValueType_raw v) = v"

datatype SaveRestoreRegisterOpType =
  Restore | Save | ClearSaved | ClearRegs | SaveRestoreRegisterOpType_raw u32

definition to_SaveRestoreRegisterOpType :: "u32 \<Rightarrow> SaveRestoreRegisterOpType" where
  "to_SaveRestoreRegisterOpType v =
     (if v = 0 then Restore else if v = 1 then Save else if v = 2 then ClearSaved
      else if v = 3 then ClearRegs else SaveRestoreRegisterOpType_raw v)"

fun SaveRestoreRegisterOpType_val :: "SaveRestoreRegisterOpType \<Rightarrow> u32" where
  "SaveRestoreRegisterOpType_val Restore = 0"
| "SaveRestoreRegisterOpType_val Save = 1"
| "SaveRestoreRegisterOpType_val ClearSaved = 2"
| "SaveRestoreRegisterOpType_val ClearRegs = 3"
| "SaveRestoreRegisterOpType_val (SaveRestoreRegisterOpType_raw v) = v"

datatype DebugLogValueType =
    LogMemoryRelAddr | LogMemoryOfsReg | LogRegisterRelAddr | LogRegisterOfsReg | LogRegisterValue
  | DebugLogValueType_raw u32

definition to_DebugLogValueType :: "u32 \<Rightarrow> DebugLogValueType" where
  "to_DebugLogValueType v =
     (if v = 0 then LogMemoryRelAddr else if v = 1 then LogMemoryOfsReg
      else if v = 2 then LogRegisterRelAddr else if v = 3 then LogRegisterOfsReg
      else if v = 4 then LogRegisterValue else DebugLogValueType_raw v)"

fun DebugLogValueType_val :: "DebugLogValueType \<Rightarrow> u32" where
  "DebugLogValueType_val LogMemoryRelAddr = 0"
| "DebugLogValueType_val LogMemoryOfsReg = 1"
| "DebugLogValueType_val LogRegisterRelAddr = 2"
| "DebugLogValueType_val LogRegisterOfsReg = 3"
| "DebugLogValueType_val LogRegisterValue = 4"
| "DebugLogValueType_val (DebugLogValueType_raw v) = v"

text \<open>Casting a raw value to an enumeration and back loses nothing.\<close>

lemma enum_val_cast [simp]:
  "MemoryAccessType_val (to_MemoryAccessType v) = v"
  "ConditionalComparisonType_val (to_ConditionalComparisonType v) = v"
  "RegisterArithmeticType_val (to_RegisterArithmeticType v) = v"
  "StoreRegisterOffsetType_val (to_StoreRegisterOffsetType v) = v"
  "CompareRegisterValueType_val (to_CompareRegisterValueType v) = v"
  "SaveRestoreRegisterOpType_val (to_SaveRestoreRegisterOpType v) = v"
  "DebugLogValueType_val (to_DebugLogValueType v) = v"
  by (simp_all add: to_MemoryAccessType_def to_ConditionalComparisonType_def
      to_RegisterArithmeticType_def to_StoreRegisterOffsetType_def
      to_CompareRegisterValueType_def to_SaveRestoreRegisterOpType_def to_DebugLogValueType_def)

section \<open>The union VmInt\<close>

text \<open>
  \<^verbatim>\<open>union VmInt\<close> is a zero-initialised eight-byte cell on a little-endian host: writing the
  member \<^verbatim>\<open>bitN\<close> sets the low \<open>N\<close> bits of a zero cell, reading it takes the low \<open>N\<close> bits.
\<close>

type_synonym VmInt = u64

definition bit8_of :: "u32 \<Rightarrow> VmInt" where
  "bit8_of d = ucast (ucast d :: u8)"

definition bit16_of :: "u32 \<Rightarrow> VmInt" where
  "bit16_of d = ucast (ucast d :: u16)"

definition bit32_of :: "u32 \<Rightarrow> VmInt" where
  "bit32_of d = ucast d"

section \<open>Opcode structures\<close>

datatype CheatOp =
    StoreStaticOpcode (ss_bit_width: u32) (ss_mem_type: MemoryAccessType)
      (ss_offset_register: u32) (ss_rel_address: u64) (ss_value: VmInt)
  | BeginConditionalOpcode (bc_bit_width: u32) (bc_mem_type: MemoryAccessType)
      (bc_cond_type: ConditionalComparisonType) (bc_rel_address: u64) (bc_value: VmInt)
  | EndConditionalOpcode (is_else: bool)
  | ControlLoopOpcode (start_loop: bool) (cl_reg_index: u32) (num_iters: u32)
  | LoadRegisterStaticOpcode (ls_reg_index: u32) (ls_value: u64)
  | LoadRegisterMemoryOpcode (lm_bit_width: u32) (lm_mem_type: MemoryAccessType)
      (lm_reg_index: u32) (load_from_reg: bool) (lm_rel_address: u64)
  | StoreStaticToAddressOpcode (sa_bit_width: u32) (sa_reg_index: u32) (sa_increment_reg: bool)
      (add_offset_reg: bool) (offset_reg_index: u32) (sa_value: u64)
  | PerformArithmeticStaticOpcode (as_bit_width: u32) (as_reg_index: u32)
      (as_math_type: RegisterArithmeticType) (as_value: u32)
  | BeginKeypressConditionalOpcode (key_mask: u32)
  | PerformArithmeticRegisterOpcode (ar_bit_width: u32) (ar_math_type: RegisterArithmeticType)
      (dst_reg_index: u32) (src_reg_1_index: u32) (src_reg_2_index: u32) (has_immediate: bool)
      (ar_value: VmInt)
  | StoreRegisterToAddressOpcode (sr_bit_width: u32) (str_reg_index: u32) (sr_addr_reg_index: u32)
      (sr_increment_reg: bool) (ofs_type: StoreRegisterOffsetType) (sr_mem_type: MemoryAccessType)
      (sr_ofs_reg_index: u32) (sr_rel_address: u64)
  | BeginRegisterConditionalOpcode (br_bit_width: u32) (br_cond_type: ConditionalComparisonType)
      (br_val_reg_index: u32) (comp_type: CompareRegisterValueType) (br_mem_type: MemoryAccessType)
      (br_addr_reg_index: u32) (other_reg_index: u32) (br_ofs_reg_index: u32)
      (br_rel_address: u64) (br_value: VmInt)
  | SaveRestoreRegisterOpcode (dst_index: u32) (src_index: u32) (srr_op_type: SaveRestoreRegisterOpType)
  | SaveRestoreRegisterMaskOpcode (srm_op_type: SaveRestoreRegisterOpType)
      (should_operate: "bool list")
  | ReadWriteStaticRegisterOpcode (static_idx: u32) (rw_idx: u32)
  | PauseProcessOpcode
  | ResumeProcessOpcode
  | DebugLogOpcode (dl_bit_width: u32) (log_id: u32) (val_type: DebugLogValueType)
      (dl_mem_type: MemoryAccessType) (dl_addr_reg_index: u32) (dl_val_reg_index: u32)
      (dl_ofs_reg_index: u32) (dl_rel_address: u64)
  | UnrecognizedInstruction (ui_opcode: CheatVmOpcodeType)

record CheatVmOpcode =
  begin_conditional_block :: bool
  opcode :: CheatOp

section \<open>The state of the machine\<close>

definition MaximumProgramOpcodeCount :: nat where "MaximumProgramOpcodeCount = 0x400"
definition NumRegisters :: nat where "NumRegisters = 0x10"
definition NumReadableStaticRegisters :: nat where "NumReadableStaticRegisters = 0x80"
definition NumWritableStaticRegisters :: nat where "NumWritableStaticRegisters = 0x80"
definition NumStaticRegisters :: nat where
  "NumStaticRegisters = NumReadableStaticRegisters + NumWritableStaticRegisters"

lemmas cheat_vm_sizes = MaximumProgramOpcodeCount_def NumRegisters_def
  NumReadableStaticRegisters_def NumWritableStaticRegisters_def NumStaticRegisters_def

record DmntCheatVm =
  num_opcodes :: nat
  instruction_ptr :: nat
  condition_depth :: nat
  decode_success :: bool
  program :: "u32 list"
  registers :: "u64 list"
  saved_values :: "u64 list"
  static_registers :: "u64 list"
  loop_tops :: "nat list"

text \<open>The member initialisers of the class.\<close>

definition initial_vm :: DmntCheatVm where
  "initial_vm =
     \<lparr>num_opcodes = 0, instruction_ptr = 0, condition_depth = 0, decode_success = False,
      program = fill_array MaximumProgramOpcodeCount 0,
      registers = fill_array NumRegisters 0, saved_values = fill_array NumRegisters 0,
      static_registers = fill_array NumStaticRegisters 0,
      loop_tops = fill_array NumRegisters 0\<rparr>"

text \<open>
  The type invariant of the machine: its arrays keep their declared sizes, the program fits in
  its buffer, and the instruction pointer and every recorded loop top stay within the program.
\<close>

definition vm_wf :: "DmntCheatVm \<Rightarrow> bool" where
  "vm_wf vm \<longleftrightarrow>
     length (program vm) = MaximumProgramOpcodeCount \<and>
     length (registers vm) = NumRegisters \<and>
     length (saved_values vm) = NumRegisters \<and>
     length (static_registers vm) = NumStaticRegisters \<and>
     length (loop_tops vm) = NumRegisters \<and>
     num_opcodes vm \<le> MaximumProgramOpcodeCount \<and>
     instruction_ptr vm \<le> num_opcodes vm \<and>
     list_all (\<lambda>t. t \<le> num_opcodes vm) (loop_tops vm)"

section \<open>The callback interface\<close>

text \<open>
  \<^verbatim>\<open>DmntCheatVm::Callbacks\<close>: what the machine asks of its host. The host's state is the type
  variable; a read returns the bytes it stored through the \<^verbatim>\<open>void*\<close> argument, a write takes the
  bytes it was handed.
\<close>

record 'w Callbacks =
  MemoryReadUnsafe :: "u64 \<Rightarrow> nat \<Rightarrow> 'w \<Rightarrow> u8 list \<times> 'w"
  MemoryWriteUnsafe :: "u64 \<Rightarrow> u8 list \<Rightarrow> 'w \<Rightarrow> 'w"
  HidKeysDown :: "'w \<Rightarrow> u64 \<times> 'w"
  PauseProcess :: "'w \<Rightarrow> 'w"
  ResumeProcess :: "'w \<Rightarrow> 'w"
  DebugLog :: "u8 \<Rightarrow> u64 \<Rightarrow> 'w \<Rightarrow> 'w"
  CommandLog :: "string \<Rightarrow> 'w \<Rightarrow> 'w"

lemma initial_vm_wf [wf_intros]: "vm_wf initial_vm"
  by (simp add: vm_wf_def initial_vm_def cheat_vm_sizes list_all_length)

end
