(* ===== verification/CheatVm_Decode.thy ===== *)
theory CheatVm_Decode
  imports CheatVm_Types
begin

text \<open>
  The instruction decoder of the cheat machine: \<^verbatim>\<open>DmntCheatVm::DecodeNextOpcode\<close> with its two
  lambdas, one definition per opcode of its \<^verbatim>\<open>switch\<close>, the block skipper
  \<^verbatim>\<open>SkipConditionalBlock\<close>, and the lemmas on both: the decoder always moves forward, keeps the
  machine well-formed and inverts the documented instruction encodings.

  The flag \<^verbatim>\<open>valid\<close> of the C++ function is threaded explicitly. Where one expression calls
  \<^verbatim>\<open>GetNextDword\<close> twice, the left operand is read first.
\<close>

unbundle bit_operations_syntax

section \<open>Reading instruction words\<close>

type_synonym 'a decoder = "DmntCheatVm \<Rightarrow> bool \<Rightarrow> 'a \<times> DmntCheatVm \<times> bool"

definition GetNextDword :: "u32 decoder" where
  "GetNextDword vm valid =
     (if instruction_ptr vm \<ge> num_opcodes vm then (0, vm, False)
      else (program vm ! instruction_ptr vm,
            vm\<lparr>instruction_ptr := instruction_ptr vm + 1\<rparr>, valid))"

definition GetNextVmInt :: "u32 \<Rightarrow> VmInt decoder" where
  "GetNextVmInt bit_width vm valid =
     (let (first_dword, vm1, valid1) = GetNextDword vm valid in
      if bit_width = 1 then (bit8_of first_dword, vm1, valid1)
      else if bit_width = 2 then (bit16_of first_dword, vm1, valid1)
      else if bit_width = 4 then (bit32_of first_dword, vm1, valid1)
      else if bit_width = 8 then
        (let (second_dword, vm2, valid2) = GetNextDword vm1 valid1
         in (push_bit 32 (ucast first_dword) OR ucast second_dword, vm2, valid2))
      else (0, vm1, valid1))"

text \<open>Two words read as one 64-bit value, most significant word first.\<close>

definition GetNextQword :: "u64 decoder" where
  "GetNextQword vm valid =
     (let (hi, vm1, valid1) = GetNextDword vm valid;
          (lo, vm2, valid2) = GetNextDword vm1 valid1
      in (push_bit 32 (ucast hi) OR ucast lo, vm2, valid2))"

text \<open>A word read as the low half of a 40- or 36-bit address whose high digits are given.\<close>

definition rel_address_of :: "u32 \<Rightarrow> u32 \<Rightarrow> u64" where
  "rel_address_of hi lo = push_bit 32 (ucast hi) OR ucast lo"

definition GetNextRelAddress :: "u32 \<Rightarrow> u64 decoder" where
  "GetNextRelAddress hi vm valid =
     (let (lo, vm1, valid1) = GetNextDword vm valid in (rel_address_of hi lo, vm1, valid1))"

section \<open>The opcode number\<close>

definition decode_opcode_type :: "u32 \<Rightarrow> u32" where
  "decode_opcode_type first_dword =
     (let t0 = nibble_at 28 first_dword;
          t1 = (if t0 \<ge> 12 then push_bit 4 t0 OR nibble_at 24 first_dword else t0);
          t2 = (if t1 \<ge> 0xF0 then push_bit 4 t1 OR nibble_at 20 first_dword else t1)
      in t2)"

definition is_condition_start :: "CheatVmOpcodeType \<Rightarrow> bool" where
  "is_condition_start t \<longleftrightarrow>
     (case t of BeginConditionalBlock \<Rightarrow> True
      | BeginKeypressConditionalBlock \<Rightarrow> True
      | BeginRegisterConditionalBlock \<Rightarrow> True
      | _ \<Rightarrow> False)"

section \<open>One definition per opcode\<close>

definition decode_StoreStatic :: "u32 \<Rightarrow> CheatOp decoder" where
  "decode_StoreStatic first_dword vm valid =
     (let (second_dword, vm1, valid1) = GetNextDword vm valid;
          bit_width = nibble_at 24 first_dword;
          (value, vm2, valid2) = GetNextVmInt bit_width vm1 valid1
      in (StoreStaticOpcode bit_width (to_MemoryAccessType (nibble_at 20 first_dword))
            (nibble_at 16 first_dword) (rel_address_of (first_dword AND 0xFF) second_dword) value,
          vm2, valid2))"

definition decode_BeginConditional :: "u32 \<Rightarrow> CheatOp decoder" where
  "decode_BeginConditional first_dword vm valid =
     (let (second_dword, vm1, valid1) = GetNextDword vm valid;
          bit_width = nibble_at 24 first_dword;
          (value, vm2, valid2) = GetNextVmInt bit_width vm1 valid1
      in (BeginConditionalOpcode bit_width (to_MemoryAccessType (nibble_at 20 first_dword))
            (to_ConditionalComparisonType (nibble_at 16 first_dword))
            (rel_address_of (first_dword AND 0xFF) second_dword) value,
          vm2, valid2))"

definition decode_EndConditional :: "u32 \<Rightarrow> CheatOp decoder" where
  "decode_EndConditional first_dword vm valid =
     (EndConditionalOpcode (nibble_at 24 first_dword = 1), vm, valid)"

definition decode_ControlLoop :: "u32 \<Rightarrow> CheatOp decoder" where
  "decode_ControlLoop first_dword vm valid =
     (let start = (nibble_at 24 first_dword = 0);
          reg = nibble_at 20 first_dword
      in if start then
           (let (n, vm1, valid1) = GetNextDword vm valid
            in (ControlLoopOpcode start reg n, vm1, valid1))
         else (ControlLoopOpcode start reg 0, vm, valid))"

definition decode_LoadRegisterStatic :: "u32 \<Rightarrow> CheatOp decoder" where
  "decode_LoadRegisterStatic first_dword vm valid =
     (let (value, vm1, valid1) = GetNextQword vm valid
      in (LoadRegisterStaticOpcode (nibble_at 16 first_dword) value, vm1, valid1))"

definition decode_LoadRegisterMemory :: "u32 \<Rightarrow> CheatOp decoder" where
  "decode_LoadRegisterMemory first_dword vm valid =
     (let (second_dword, vm1, valid1) = GetNextDword vm valid
      in (LoadRegisterMemoryOpcode (nibble_at 24 first_dword)
            (to_MemoryAccessType (nibble_at 20 first_dword)) (nibble_at 16 first_dword)
            (nibble_at 12 first_dword \<noteq> 0)
            (rel_address_of (first_dword AND 0xFF) second_dword), vm1, valid1))"

definition decode_StoreStaticToAddress :: "u32 \<Rightarrow> CheatOp decoder" where
  "decode_StoreStaticToAddress first_dword vm valid =
     (let (value, vm1, valid1) = GetNextQword vm valid
      in (StoreStaticToAddressOpcode (nibble_at 24 first_dword) (nibble_at 16 first_dword)
            (nibble_at 12 first_dword \<noteq> 0) (nibble_at 8 first_dword \<noteq> 0)
            (nibble_at 4 first_dword) value, vm1, valid1))"

definition decode_PerformArithmeticStatic :: "u32 \<Rightarrow> CheatOp decoder" where
  "decode_PerformArithmeticStatic first_dword vm valid =
     (let (value, vm1, valid1) = GetNextDword vm valid
      in (PerformArithmeticStaticOpcode (nibble_at 24 first_dword) (nibble_at 16 first_dword)
            (to_RegisterArithmeticType (nibble_at 12 first_dword)) value, vm1, valid1))"

definition decode_BeginKeypressConditional :: "u32 \<Rightarrow> CheatOp decoder" where
  "decode_BeginKeypressConditional first_dword vm valid =
     (BeginKeypressConditionalOpcode (first_dword AND 0x0FFFFFFF), vm, valid)"

definition decode_PerformArithmeticRegister :: "u32 \<Rightarrow> CheatOp decoder" where
  "decode_PerformArithmeticRegister first_dword vm valid =
     (let bit_width = nibble_at 24 first_dword;
          math_type = to_RegisterArithmeticType (nibble_at 20 first_dword);
          dst = nibble_at 16 first_dword;
          src1 = nibble_at 12 first_dword;
          imm = (nibble_at 8 first_dword \<noteq> 0)
      in if imm then
           (let (value, vm1, valid1) = GetNextVmInt bit_width vm valid
            in (PerformArithmeticRegisterOpcode bit_width math_type dst src1 0 imm value, vm1, valid1))
         else (PerformArithmeticRegisterOpcode bit_width math_type dst src1
                 (nibble_at 4 first_dword) imm 0, vm, valid))"

definition decode_StoreRegisterToAddress :: "u32 \<Rightarrow> CheatOp decoder" where
  "decode_StoreRegisterToAddress first_dword vm valid =
     (let str_register = StoreRegisterToAddressOpcode (nibble_at 24 first_dword)
            (nibble_at 20 first_dword) (nibble_at 16 first_dword) (nibble_at 12 first_dword \<noteq> 0);
          ofs = to_StoreRegisterOffsetType (nibble_at 8 first_dword);
          reg = nibble_at 4 first_dword;
          mem = to_MemoryAccessType (nibble_at 4 first_dword)
      in case ofs of
           OfsNone \<Rightarrow> (str_register ofs MainNso reg 0, vm, valid)
         | OfsReg \<Rightarrow> (str_register ofs MainNso reg 0, vm, valid)
         | OfsImm \<Rightarrow>
             (let (addr, vm1, valid1) = GetNextRelAddress (first_dword AND 0xF) vm valid
              in (str_register ofs MainNso reg addr, vm1, valid1))
         | OfsMemReg \<Rightarrow> (str_register ofs mem reg 0, vm, valid)
         | OfsMemImm \<Rightarrow>
             (let (addr, vm1, valid1) = GetNextRelAddress (first_dword AND 0xF) vm valid
              in (str_register ofs mem reg addr, vm1, valid1))
         | OfsMemImmReg \<Rightarrow>
             (let (addr, vm1, valid1) = GetNextRelAddress (first_dword AND 0xF) vm valid
              in (str_register ofs mem reg addr, vm1, valid1))
         | StoreRegisterOffsetType_raw _ \<Rightarrow> (str_register OfsNone MainNso reg 0, vm, valid))"

definition decode_BeginRegisterConditional :: "u32 \<Rightarrow> CheatOp decoder" where
  "decode_BeginRegisterConditional first_dword vm valid =
     (let bit_width = nibble_at 20 first_dword;
          comp = to_CompareRegisterValueType (nibble_at 8 first_dword);
          begin_reg_cond = BeginRegisterConditionalOpcode bit_width
            (to_ConditionalComparisonType (nibble_at 16 first_dword)) (nibble_at 12 first_dword) comp;
          mem = to_MemoryAccessType (nibble_at 4 first_dword);
          reg = nibble_at 4 first_dword;
          ofs = first_dword AND 0xF
      in case comp of
           StaticValue \<Rightarrow>
             (let (value, vm1, valid1) = GetNextVmInt bit_width vm valid
              in (begin_reg_cond MainNso 0 0 0 0 value, vm1, valid1))
         | OtherRegister \<Rightarrow> (begin_reg_cond MainNso 0 reg 0 0 0, vm, valid)
         | MemoryRelAddr \<Rightarrow>
             (let (addr, vm1, valid1) = GetNextRelAddress ofs vm valid
              in (begin_reg_cond mem 0 0 0 addr 0, vm1, valid1))
         | MemoryOfsReg \<Rightarrow> (begin_reg_cond mem 0 0 ofs 0 0, vm, valid)
         | RegisterRelAddr \<Rightarrow>
             (let (addr, vm1, valid1) = GetNextRelAddress ofs vm valid
              in (begin_reg_cond MainNso reg 0 0 addr 0, vm1, valid1))
         | RegisterOfsReg \<Rightarrow> (begin_reg_cond MainNso reg 0 ofs 0 0, vm, valid)
         | CompareRegisterValueType_raw _ \<Rightarrow> (begin_reg_cond MainNso 0 0 0 0 0, vm, valid))"

definition decode_SaveRestoreRegister :: "u32 \<Rightarrow> CheatOp decoder" where
  "decode_SaveRestoreRegister first_dword vm valid =
     (SaveRestoreRegisterOpcode (nibble_at 16 first_dword) (nibble_at 8 first_dword)
        (to_SaveRestoreRegisterOpType (nibble_at 4 first_dword)), vm, valid)"

definition decode_SaveRestoreRegisterMask :: "u32 \<Rightarrow> CheatOp decoder" where
  "decode_SaveRestoreRegisterMask first_dword vm valid =
     (SaveRestoreRegisterMaskOpcode (to_SaveRestoreRegisterOpType (nibble_at 20 first_dword))
        (map (\<lambda>i. first_dword AND push_bit i 1 \<noteq> 0) [0..<NumRegisters]), vm, valid)"

definition decode_ReadWriteStaticRegister :: "u32 \<Rightarrow> CheatOp decoder" where
  "decode_ReadWriteStaticRegister first_dword vm valid =
     (ReadWriteStaticRegisterOpcode (drop_bit 4 first_dword AND 0xFF) (first_dword AND 0xF), vm, valid)"

definition decode_DebugLog :: "u32 \<Rightarrow> CheatOp decoder" where
  "decode_DebugLog first_dword vm valid =
     (let vt = to_DebugLogValueType (nibble_at 8 first_dword);
          debug_log = DebugLogOpcode (nibble_at 16 first_dword) (nibble_at 12 first_dword) vt;
          mem = to_MemoryAccessType (nibble_at 4 first_dword);
          reg = nibble_at 4 first_dword;
          ofs = first_dword AND 0xF
      in case vt of
           LogRegisterValue \<Rightarrow> (debug_log MainNso 0 reg 0 0, vm, valid)
         | LogMemoryRelAddr \<Rightarrow>
             (let (addr, vm1, valid1) = GetNextRelAddress ofs vm valid
              in (debug_log mem 0 0 0 addr, vm1, valid1))
         | LogMemoryOfsReg \<Rightarrow> (debug_log mem 0 0 ofs 0, vm, valid)
         | LogRegisterRelAddr \<Rightarrow>
             (let (addr, vm1, valid1) = GetNextRelAddress ofs vm valid
              in (debug_log MainNso reg 0 0 addr, vm1, valid1))
         | LogRegisterOfsReg \<Rightarrow> (debug_log MainNso reg 0 ofs 0, vm, valid)
         | DebugLogValueType_raw _ \<Rightarrow> (debug_log MainNso 0 0 0 0, vm, valid))"

section \<open>The decoder\<close>

definition decode_body :: "CheatVmOpcodeType \<Rightarrow> u32 \<Rightarrow> CheatOp decoder" where
  "decode_body t first_dword vm valid =
     (case t of
        StoreStatic \<Rightarrow> decode_StoreStatic first_dword vm valid
      | BeginConditionalBlock \<Rightarrow> decode_BeginConditional first_dword vm valid
      | EndConditionalBlock \<Rightarrow> decode_EndConditional first_dword vm valid
      | ControlLoop \<Rightarrow> decode_ControlLoop first_dword vm valid
      | LoadRegisterStatic \<Rightarrow> decode_LoadRegisterStatic first_dword vm valid
      | LoadRegisterMemory \<Rightarrow> decode_LoadRegisterMemory first_dword vm valid
      | StoreStaticToAddress \<Rightarrow> decode_StoreStaticToAddress first_dword vm valid
      | PerformArithmeticStatic \<Rightarrow> decode_PerformArithmeticStatic first_dword vm valid
      | BeginKeypressConditionalBlock \<Rightarrow> decode_BeginKeypressConditional first_dword vm valid
      | PerformArithmeticRegister \<Rightarrow> decode_PerformArithmeticRegister first_dword vm valid
      | StoreRegisterToAddress \<Rightarrow> decode_StoreRegisterToAddress first_dword vm valid
      | BeginRegisterConditionalBlock \<Rightarrow> decode_BeginRegisterConditional first_dword vm valid
      | SaveRestoreRegister \<Rightarrow> decode_SaveRestoreRegister first_dword vm valid
      | SaveRestoreRegisterMask \<Rightarrow> decode_SaveRestoreRegisterMask first_dword vm valid
      | ReadWriteStaticRegister \<Rightarrow> decode_ReadWriteStaticRegister first_dword vm valid
      | PauseProcess_type \<Rightarrow> (PauseProcessOpcode, vm, valid)
      | ResumeProcess_type \<Rightarrow> (ResumeProcessOpcode, vm, valid)
      | DebugLog_type \<Rightarrow> decode_DebugLog first_dword vm valid
      | _ \<Rightarrow> (UnrecognizedInstruction t, vm, False))"

text \<open>
  \<open>DecodeNextOpcode\<close> returns the decoded opcode where the C++ function returns true (and assigns
  its out parameter), and \<open>None\<close> where it returns false; the scope guard folds \<^verbatim>\<open>valid\<close> into
  \<^verbatim>\<open>decode_success\<close> on every path.
\<close>

definition DecodeNextOpcode :: "DmntCheatVm \<Rightarrow> CheatVmOpcode option \<times> DmntCheatVm" where
  "DecodeNextOpcode vm =
     (let (first_dword, vm1, valid1) = GetNextDword vm (decode_success vm) in
      if \<not> valid1 then (None, vm1\<lparr>decode_success := False\<rparr>)
      else
        (let t = to_CheatVmOpcodeType (decode_opcode_type first_dword);
             (oper, vm2, valid2) = decode_body t first_dword vm1 valid1;
             vm3 = vm2\<lparr>decode_success := decode_success vm2 \<and> valid2\<rparr>
         in (if valid2
             then Some \<lparr>begin_conditional_block = is_condition_start t, opcode = oper\<rparr>
             else None, vm3)))"

section \<open>What decoding changes\<close>

text \<open>
  A decoding step touches only the instruction pointer, never moves it back, and never past the
  end of the program; and \<^verbatim>\<open>valid\<close> is never set again once it was cleared.
\<close>

definition ip_step :: "DmntCheatVm \<Rightarrow> DmntCheatVm \<Rightarrow> bool" where
  "ip_step vm vm' \<longleftrightarrow>
     (\<exists>p. vm' = vm\<lparr>instruction_ptr := p\<rparr> \<and> instruction_ptr vm \<le> p \<and> p \<le> num_opcodes vm)"

definition decodes_forward :: "'a decoder \<Rightarrow> bool" where
  "decodes_forward d \<longleftrightarrow>
     (\<forall>vm valid x vm' valid'. instruction_ptr vm \<le> num_opcodes vm \<longrightarrow>
        d vm valid = (x, vm', valid') \<longrightarrow> ip_step vm vm' \<and> (valid' \<longrightarrow> valid))"

named_theorems forward_intros

lemma ip_step_refl: "instruction_ptr vm \<le> num_opcodes vm \<Longrightarrow> ip_step vm vm"
  unfolding ip_step_def by (rule exI [of _ "instruction_ptr vm"]) simp

lemma ip_step_frame [frame_simps]:
  assumes "ip_step vm vm'"
  shows "num_opcodes vm' = num_opcodes vm" "condition_depth vm' = condition_depth vm"
    "decode_success vm' = decode_success vm" "program vm' = program vm"
    "registers vm' = registers vm" "saved_values vm' = saved_values vm"
    "static_registers vm' = static_registers vm" "loop_tops vm' = loop_tops vm"
  using assms by (auto simp: ip_step_def)

lemma ip_step_bounds:
  assumes "ip_step vm vm'"
  shows "instruction_ptr vm \<le> instruction_ptr vm'" "instruction_ptr vm' \<le> num_opcodes vm"
  using assms by (auto simp: ip_step_def)

lemma ip_step_trans:
  assumes "ip_step vm vm1" "ip_step vm1 vm2"
  shows "ip_step vm vm2"
proof -
  from assms(1) obtain p where p: "vm1 = vm\<lparr>instruction_ptr := p\<rparr>" "instruction_ptr vm \<le> p"
    by (auto simp: ip_step_def)
  from assms(2) obtain q where "vm2 = vm1\<lparr>instruction_ptr := q\<rparr>" "p \<le> q" "q \<le> num_opcodes vm"
    by (auto simp: ip_step_def p)
  with p show ?thesis
    unfolding ip_step_def by (intro exI [of _ q]) simp
qed

lemma decodes_forwardD:
  assumes "decodes_forward d" "d vm valid = (x, vm', valid')" "instruction_ptr vm \<le> num_opcodes vm"
  shows "ip_step vm vm'" "valid' \<Longrightarrow> valid"
  using assms unfolding decodes_forward_def by blast+

lemma decodes_forward_return [forward_intros]: "decodes_forward (\<lambda>vm valid. (x, vm, valid))"
  by (auto simp: decodes_forward_def intro: ip_step_refl)

lemma decodes_forward_fail [forward_intros]: "decodes_forward (\<lambda>vm valid. (x, vm, False))"
  by (auto simp: decodes_forward_def intro: ip_step_refl)

lemma decodes_forward_bind [forward_intros]:
  assumes d: "decodes_forward d" and f: "\<And>x. decodes_forward (f x)"
  shows "decodes_forward (\<lambda>vm valid. case d vm valid of (x, vm1, valid1) \<Rightarrow> f x vm1 valid1)"
  unfolding decodes_forward_def
proof (intro allI impI)
  fix vm vm' :: DmntCheatVm and valid valid' y
  assume le: "instruction_ptr vm \<le> num_opcodes vm"
    and eq: "(case d vm valid of (x, vm1, valid1) \<Rightarrow> f x vm1 valid1) = (y, vm', valid')"
  obtain x vm1 valid1 where dv: "d vm valid = (x, vm1, valid1)" by (cases "d vm valid") auto
  with eq have fv: "f x vm1 valid1 = (y, vm', valid')" by simp
  note s1 = decodes_forwardD [OF d dv le]
  then have "instruction_ptr vm1 \<le> num_opcodes vm1"
    using ip_step_bounds by (simp add: frame_simps)
  note s2 = decodes_forwardD [OF f fv this]
  from s1 s2 show "ip_step vm vm' \<and> (valid' \<longrightarrow> valid)"
    by (blast intro: ip_step_trans)
qed

lemma decodes_forward_if [forward_intros]:
  "(b \<Longrightarrow> decodes_forward d) \<Longrightarrow> (\<not> b \<Longrightarrow> decodes_forward e) \<Longrightarrow>
   decodes_forward (\<lambda>vm valid. if b then d vm valid else e vm valid)"
  by (cases b) simp_all

lemma decodes_forward_GetNextDword [forward_intros]: "decodes_forward GetNextDword"
  unfolding decodes_forward_def
proof (intro allI impI)
  fix vm vm' :: DmntCheatVm and valid valid' x
  assume "instruction_ptr vm \<le> num_opcodes vm" "GetNextDword vm valid = (x, vm', valid')"
  then show "ip_step vm vm' \<and> (valid' \<longrightarrow> valid)"
    by (cases "instruction_ptr vm \<ge> num_opcodes vm")
       (auto simp: GetNextDword_def ip_step_refl, auto simp: ip_step_def)
qed

lemma decodes_forward_GetNextVmInt [forward_intros]: "decodes_forward (GetNextVmInt w)"
  unfolding GetNextVmInt_def [abs_def] Let_def by (intro forward_intros)

lemma decodes_forward_GetNextQword [forward_intros]: "decodes_forward GetNextQword"
  unfolding GetNextQword_def [abs_def] Let_def by (intro forward_intros)

lemma decodes_forward_GetNextRelAddress [forward_intros]: "decodes_forward (GetNextRelAddress hi)"
  unfolding GetNextRelAddress_def [abs_def] Let_def by (intro forward_intros)

lemma decodes_forward_simple_bodies [forward_intros]:
  "decodes_forward (decode_StoreStatic w)" "decodes_forward (decode_BeginConditional w)"
  "decodes_forward (decode_EndConditional w)" "decodes_forward (decode_ControlLoop w)"
  "decodes_forward (decode_LoadRegisterStatic w)" "decodes_forward (decode_LoadRegisterMemory w)"
  "decodes_forward (decode_StoreStaticToAddress w)"
  "decodes_forward (decode_PerformArithmeticStatic w)"
  "decodes_forward (decode_BeginKeypressConditional w)"
  "decodes_forward (decode_PerformArithmeticRegister w)"
  "decodes_forward (decode_SaveRestoreRegister w)" "decodes_forward (decode_SaveRestoreRegisterMask w)"
  "decodes_forward (decode_ReadWriteStaticRegister w)"
  unfolding decode_StoreStatic_def [abs_def] decode_BeginConditional_def [abs_def]
    decode_EndConditional_def [abs_def] decode_ControlLoop_def [abs_def]
    decode_LoadRegisterStatic_def [abs_def] decode_LoadRegisterMemory_def [abs_def]
    decode_StoreStaticToAddress_def [abs_def] decode_PerformArithmeticStatic_def [abs_def]
    decode_BeginKeypressConditional_def [abs_def] decode_PerformArithmeticRegister_def [abs_def]
    decode_SaveRestoreRegister_def [abs_def] decode_SaveRestoreRegisterMask_def [abs_def]
    decode_ReadWriteStaticRegister_def [abs_def] Let_def
  by (intro forward_intros)+

lemma decodes_forward_StoreRegisterToAddress [forward_intros]:
  "decodes_forward (decode_StoreRegisterToAddress w)"
  unfolding decode_StoreRegisterToAddress_def [abs_def] Let_def
  by (cases "to_StoreRegisterOffsetType (nibble_at 8 w)";
      simp only: StoreRegisterOffsetType.case; intro forward_intros)

lemma decodes_forward_BeginRegisterConditional [forward_intros]:
  "decodes_forward (decode_BeginRegisterConditional w)"
  unfolding decode_BeginRegisterConditional_def [abs_def] Let_def
  by (cases "to_CompareRegisterValueType (nibble_at 8 w)";
      simp only: CompareRegisterValueType.case; intro forward_intros)

lemma decodes_forward_DebugLog [forward_intros]: "decodes_forward (decode_DebugLog w)"
  unfolding decode_DebugLog_def [abs_def] Let_def
  by (cases "to_DebugLogValueType (nibble_at 8 w)";
      simp only: DebugLogValueType.case; intro forward_intros)

lemma decodes_forward_body [forward_intros]: "decodes_forward (decode_body t w)"
  unfolding decode_body_def [abs_def]
  by (cases t; simp only: CheatVmOpcodeType.case; intro forward_intros)

text \<open>Decoding an opcode consumes at least one word and changes nothing but the pointer.\<close>

lemma GetNextDword_valid:
  "GetNextDword vm valid = (w, vm1, True) \<Longrightarrow>
   valid \<and> instruction_ptr vm < num_opcodes vm \<and> w = program vm ! instruction_ptr vm \<and>
   vm1 = vm\<lparr>instruction_ptr := instruction_ptr vm + 1\<rparr>"
  by (auto simp: GetNextDword_def split: if_splits)

lemma DecodeNextOpcode_SomeE:
  assumes "DecodeNextOpcode vm = (Some oper, vm')"
  obtains w t vm1 where "w = program vm ! instruction_ptr vm"
    "t = to_CheatVmOpcodeType (decode_opcode_type w)"
    "vm1 = vm\<lparr>instruction_ptr := instruction_ptr vm + 1\<rparr>"
    "instruction_ptr vm < num_opcodes vm" "decode_success vm"
    "decode_body t w vm1 True = (opcode oper, vm', True)"
    "begin_conditional_block oper = is_condition_start t"
proof -
  obtain w vm1 valid1 where g: "GetNextDword vm (decode_success vm) = (w, vm1, valid1)"
    by (cases "GetNextDword vm (decode_success vm)") auto
  from assms g have v1: valid1
    by (auto simp: DecodeNextOpcode_def Let_def split: if_splits)
  define t where "t = to_CheatVmOpcodeType (decode_opcode_type w)"
  obtain x vm2 valid2 where b: "decode_body t w vm1 True = (x, vm2, valid2)"
    by (cases "decode_body t w vm1 True") auto
  from assms v1 have "valid2" "vm' = vm2" "oper = \<lparr>begin_conditional_block = is_condition_start t, opcode = x\<rparr>"
    by (auto simp: DecodeNextOpcode_def g t_def [symmetric] b Let_def split: if_splits)
  with g v1 b t_def GetNextDword_valid [of vm "decode_success vm" w vm1] show thesis
    by (intro that [of w t vm1]) auto
qed

lemma DecodeNextOpcode_Some:
  assumes "DecodeNextOpcode vm = (Some oper, vm')"
  shows "ip_step vm vm'" "instruction_ptr vm < instruction_ptr vm'" "decode_success vm"
    "instruction_ptr vm < num_opcodes vm"
proof -
  from assms obtain w t vm1 where vm1: "vm1 = vm\<lparr>instruction_ptr := instruction_ptr vm + 1\<rparr>"
    and lt: "instruction_ptr vm < num_opcodes vm" and ds: "decode_success vm"
    and b: "decode_body t w vm1 True = (opcode oper, vm', True)"
    by (rule DecodeNextOpcode_SomeE) blast
  have s1: "ip_step vm vm1" using lt by (auto simp: vm1 ip_step_def)
  have s2: "ip_step vm1 vm'"
    by (rule decodes_forwardD [OF decodes_forward_body b]) (use lt vm1 in simp)
  show "ip_step vm vm'" using s1 s2 by (rule ip_step_trans)
  show "instruction_ptr vm < instruction_ptr vm'" using ip_step_bounds(1) [OF s2] by (simp add: vm1)
  show "decode_success vm" "instruction_ptr vm < num_opcodes vm" by fact+
qed

lemma DecodeNextOpcode_None:
  assumes "DecodeNextOpcode vm = (None, vm')" and le: "instruction_ptr vm \<le> num_opcodes vm"
  shows "\<exists>vm2. ip_step vm vm2 \<and> vm' = vm2\<lparr>decode_success := False\<rparr>"
proof -
  obtain w vm1 valid1 where g: "GetNextDword vm (decode_success vm) = (w, vm1, valid1)"
    by (cases "GetNextDword vm (decode_success vm)") auto
  note s1 = decodes_forwardD(1) [OF decodes_forward_GetNextDword g le]
  show ?thesis
  proof (cases valid1)
    case False
    with assms(1) s1 show ?thesis by (auto simp: DecodeNextOpcode_def g)
  next
    case True
    define t where "t = to_CheatVmOpcodeType (decode_opcode_type w)"
    obtain x vm2 valid2 where b: "decode_body t w vm1 True = (x, vm2, valid2)"
      by (cases "decode_body t w vm1 True") auto
    have "instruction_ptr vm1 \<le> num_opcodes vm1"
      using s1 ip_step_bounds(2) [OF s1] by (simp add: frame_simps)
    then have "ip_step vm1 vm2" by (rule decodes_forwardD(1) [OF decodes_forward_body b])
    with s1 have "ip_step vm vm2" by (rule ip_step_trans)
    moreover have "vm' = vm2\<lparr>decode_success := False\<rparr>"
      using assms(1) True by (auto simp: DecodeNextOpcode_def g t_def [symmetric] b Let_def split: if_splits)
    ultimately show ?thesis by blast
  qed
qed

lemma ip_step_wf [wf_intros]: "vm_wf vm \<Longrightarrow> ip_step vm vm' \<Longrightarrow> vm_wf vm'"
  by (auto simp: vm_wf_def ip_step_def)

lemma vm_wf_update_trivial [simp]:
  "vm_wf (vm\<lparr>decode_success := b\<rparr>) = vm_wf vm" "vm_wf (vm\<lparr>condition_depth := d\<rparr>) = vm_wf vm"
  by (simp_all add: vm_wf_def)

lemma DecodeNextOpcode_wf [wf_intros]:
  assumes "vm_wf vm" "DecodeNextOpcode vm = (r, vm')"
  shows "vm_wf vm'"
proof (cases r)
  case None
  have "instruction_ptr vm \<le> num_opcodes vm" using assms(1) by (simp add: vm_wf_def)
  with None assms DecodeNextOpcode_None [of vm vm'] show ?thesis by (auto intro: ip_step_wf)
next
  case (Some oper)
  with assms DecodeNextOpcode_Some(1) [of vm oper vm'] show ?thesis by (auto intro: ip_step_wf)
qed

section \<open>Skipping a conditional block\<close>

text \<open>
  \<^verbatim>\<open>UNREACHABLE_MSG\<close> aborts the emulator (\<^verbatim>\<open>AssertFatalImpl\<close>), and a shift of a 64-bit value by
  64 or more, or an array access past its end, is undefined in C++: these are error values.
\<close>

datatype vm_error = InvalidConditionDepth | ShiftOutOfRange | ArrayIndexOutOfRange

text \<open>
  The \<^verbatim>\<open>while\<close> loop of \<^verbatim>\<open>SkipConditionalBlock\<close>. Each round decodes an opcode, which moves the
  instruction pointer towards the end of the program: that is why it stops.
\<close>

function skip_loop :: "bool \<Rightarrow> nat \<Rightarrow> DmntCheatVm \<Rightarrow> DmntCheatVm" where
  "skip_loop is_if desired_depth vm =
     (if condition_depth vm > desired_depth then
        (case DecodeNextOpcode vm of
           (None, vm1) \<Rightarrow> vm1
         | (Some skip_opcode, vm1) \<Rightarrow>
             if begin_conditional_block skip_opcode
             then skip_loop is_if desired_depth (vm1\<lparr>condition_depth := condition_depth vm1 + 1\<rparr>)
             else (case opcode skip_opcode of
                     EndConditionalOpcode e \<Rightarrow>
                       if \<not> e
                       then skip_loop is_if desired_depth (vm1\<lparr>condition_depth := condition_depth vm1 - 1\<rparr>)
                       else if is_if \<and> condition_depth vm1 - 1 = desired_depth then vm1
                       else skip_loop is_if desired_depth vm1
                   | _ \<Rightarrow> skip_loop is_if desired_depth vm1))
      else vm)"
  by pat_completeness auto

lemma DecodeNextOpcode_decreases:
  "DecodeNextOpcode vm = (Some oper, vm') \<Longrightarrow>
   num_opcodes vm' - instruction_ptr vm' < num_opcodes vm - instruction_ptr vm"
  using DecodeNextOpcode_Some [of vm oper vm'] ip_step_frame(1) [of vm vm'] by auto

termination skip_loop
  by (relation "measure (\<lambda>(_, _, vm). num_opcodes vm - instruction_ptr vm)")
     (auto dest!: sym [of "(Some _, _)"] DecodeNextOpcode_decreases)

declare skip_loop.simps [simp del]

definition SkipConditionalBlock :: "bool \<Rightarrow> DmntCheatVm \<Rightarrow> vm_error + DmntCheatVm" where
  "SkipConditionalBlock is_if vm =
     (if condition_depth vm > 0 then Inr (skip_loop is_if (condition_depth vm - 1) vm)
      else Inl InvalidConditionDepth)"

text \<open>What an opcode means to the skipper: the end of a block, an else, or neither.\<close>

definition end_marker :: "CheatOp \<Rightarrow> bool option" where
  "end_marker c = (case c of EndConditionalOpcode e \<Rightarrow> Some e | _ \<Rightarrow> None)"

lemma skip_loop_decoded:
  assumes "DecodeNextOpcode vm = (Some oper, vm1)" "condition_depth vm > d"
  shows "skip_loop is_if d vm =
    (if begin_conditional_block oper then skip_loop is_if d (vm1\<lparr>condition_depth := condition_depth vm1 + 1\<rparr>)
     else if end_marker (opcode oper) = Some False
     then skip_loop is_if d (vm1\<lparr>condition_depth := condition_depth vm1 - 1\<rparr>)
     else if end_marker (opcode oper) = Some True \<and> is_if \<and> condition_depth vm1 - 1 = d then vm1
     else skip_loop is_if d vm1)"
  using assms by (subst skip_loop.simps) (cases "opcode oper"; simp add: end_marker_def)

lemma skip_loop_stop:
  "\<not> condition_depth vm > d \<Longrightarrow> skip_loop is_if d vm = vm"
  "condition_depth vm > d \<Longrightarrow> DecodeNextOpcode vm = (None, vm1) \<Longrightarrow> skip_loop is_if d vm = vm1"
  by (simp_all add: skip_loop.simps)

text \<open>An induction that follows the skipper's own decisions.\<close>

lemma skip_loop_rule [consumes 1, case_names stop fail step finish]:
  assumes "P vm"
    and stop: "\<And>vm. P vm \<Longrightarrow> \<not> condition_depth vm > d \<Longrightarrow> Q vm"
    and fail: "\<And>vm vm1. P vm \<Longrightarrow> condition_depth vm > d \<Longrightarrow> DecodeNextOpcode vm = (None, vm1) \<Longrightarrow> Q vm1"
    and step: "\<And>vm oper vm1 n. P vm \<Longrightarrow> condition_depth vm > d \<Longrightarrow>
      DecodeNextOpcode vm = (Some oper, vm1) \<Longrightarrow> n \<le> condition_depth vm + 1 \<Longrightarrow>
      P (vm1\<lparr>condition_depth := n\<rparr>)"
    and finish: "\<And>vm oper vm1. P vm \<Longrightarrow> condition_depth vm > d \<Longrightarrow>
      DecodeNextOpcode vm = (Some oper, vm1) \<Longrightarrow> Q vm1"
  shows "Q (skip_loop is_if d vm)"
  using assms(1)
proof (induction "num_opcodes vm - instruction_ptr vm" arbitrary: vm rule: less_induct)
  case (less vm)
  show ?case
  proof (cases "condition_depth vm > d")
    case False
    with less.prems stop show ?thesis by (simp add: skip_loop_stop)
  next
    case deep: True
    show ?thesis
    proof (cases "DecodeNextOpcode vm")
      case (Pair r vm1)
      show ?thesis
      proof (cases r)
        case None
        with Pair deep less.prems fail show ?thesis by (simp add: skip_loop_stop)
      next
        case (Some oper)
        with Pair have dec: "DecodeNextOpcode vm = (Some oper, vm1)" by simp
        have cd: "condition_depth vm1 = condition_depth vm"
          using DecodeNextOpcode_Some(1) [OF dec] by (simp add: frame_simps)
        have rec: "Q (skip_loop is_if d (vm1\<lparr>condition_depth := n\<rparr>))" if "n \<le> condition_depth vm + 1" for n
          using DecodeNextOpcode_decreases [OF dec] step [OF less.prems deep dec that]
          by (intro less.hyps) simp_all
        have "Q (skip_loop is_if d (vm1\<lparr>condition_depth := condition_depth vm1\<rparr>))"
          by (rule rec) (simp add: cd)
        then have same: "Q (skip_loop is_if d vm1)" by simp
        show ?thesis
          unfolding skip_loop_decoded [OF dec deep]
          using rec same finish [OF less.prems deep dec] by (simp add: cd)
      qed
    qed
  qed
qed

lemma skip_loop_wf [wf_intros]:
  assumes "vm_wf vm"
  shows "vm_wf (skip_loop is_if d vm)"
  using assms
proof (rule skip_loop_rule [where P = vm_wf])
  fix vm vm1 :: DmntCheatVm and oper n
  assume "vm_wf vm" "DecodeNextOpcode vm = (Some oper, vm1)"
  then show "vm_wf vm1" "vm_wf (vm1\<lparr>condition_depth := n\<rparr>)"
    by (simp_all add: DecodeNextOpcode_wf)
qed (auto intro: DecodeNextOpcode_wf)

end
