(* ===== verification/CheatVm_Encoding.thy ===== *)
theory CheatVm_Encoding
  imports CheatVm_Decode
begin

text \<open>
  Instruction formats. \<open>encode\<close> writes every opcode in the layout that the field extractions of
  \<^verbatim>\<open>DecodeNextOpcode\<close> read, and the decoder inverts it. \<open>documented\<close> writes the layouts that the
  comments of the same function give (\<^verbatim>\<open>0TMR00AA AAAAAAAA YYYYYYYY (YYYYYYYY)\<close> and so on). The two
  differ in two places: the comments put the register of a loop at bits 16-19 where the code reads
  bits 20-23, and they give the word of a pause for a resume.
\<close>

unbundle bit_operations_syntax

section \<open>Words at the instruction pointer\<close>

definition reads :: "DmntCheatVm \<Rightarrow> u32 list \<Rightarrow> bool" where
  "reads vm ws \<longleftrightarrow> instruction_ptr vm + length ws \<le> num_opcodes vm \<and>
     (\<forall>i < length ws. program vm ! (instruction_ptr vm + i) = ws ! i)"

abbreviation advance :: "nat \<Rightarrow> DmntCheatVm \<Rightarrow> DmntCheatVm" where
  "advance n vm \<equiv> vm\<lparr>instruction_ptr := instruction_ptr vm + n\<rparr>"

lemma reads_Cons [simp]:
  "reads vm (w # ws) \<longleftrightarrow>
     instruction_ptr vm < num_opcodes vm \<and> program vm ! instruction_ptr vm = w \<and>
     reads (advance 1 vm) ws"
proof
  assume r: "reads vm (w # ws)"
  then have "program vm ! (instruction_ptr vm + 0) = (w # ws) ! 0"
    unfolding reads_def by (metis length_greater_0_conv list.discI)
  moreover have "program vm ! (instruction_ptr vm + 1 + i) = ws ! i" if "i < length ws" for i
    using r that unfolding reads_def
    by (metis Suc_less_eq add.assoc length_Cons nth_Cons_Suc plus_1_eq_Suc)
  ultimately show "instruction_ptr vm < num_opcodes vm \<and> program vm ! instruction_ptr vm = w \<and>
     reads (advance 1 vm) ws"
    using r by (auto simp: reads_def)
next
  assume r: "instruction_ptr vm < num_opcodes vm \<and> program vm ! instruction_ptr vm = w \<and>
     reads (advance 1 vm) ws"
  have "program vm ! (instruction_ptr vm + i) = (w # ws) ! i" if "i < Suc (length ws)" for i
    using r that by (cases i) (auto simp: reads_def)
  with r show "reads vm (w # ws)" by (auto simp: reads_def)
qed

lemma GetNextDword_reads:
  "reads vm (w # ws) \<Longrightarrow> GetNextDword vm valid = (w, advance 1 vm, valid)"
  by (simp add: GetNextDword_def)

section \<open>The layouts the decoder reads\<close>

definition lo32 :: "u64 \<Rightarrow> u32" where "lo32 v = ucast v"
definition hi32 :: "u64 \<Rightarrow> u32" where "hi32 v = ucast (drop_bit 32 v)"

definition vmint_words :: "u32 \<Rightarrow> VmInt \<Rightarrow> u32 list" where
  "vmint_words w v = (if w = 8 then [hi32 v, lo32 v] else [lo32 v])"

definition vmint_fits :: "u32 \<Rightarrow> VmInt \<Rightarrow> bool" where
  "vmint_fits w v \<longleftrightarrow>
     (if w = 1 then v < 0x100 else if w = 2 then v < 0x10000
      else if w = 4 then v < 0x100000000 else if w = 8 then True else v = 0)"

abbreviation flag :: "bool \<Rightarrow> u32" where
  "flag b \<equiv> (if b then 1 else 0)"

definition mask_word :: "bool list \<Rightarrow> u32" where
  "mask_word bs = horner_sum of_bool 2 bs"

fun encode :: "CheatOp \<Rightarrow> u32 list" where
  "encode (StoreStaticOpcode w m r a v) =
     [hex_word 0 w (MemoryAccessType_val m) r 0 0 (nibble_at 4 (hi32 a)) (nibble_at 0 (hi32 a)), lo32 a]
     @ vmint_words w v"
| "encode (BeginConditionalOpcode w m c a v) =
     [hex_word 1 w (MemoryAccessType_val m) (ConditionalComparisonType_val c) 0 0
        (nibble_at 4 (hi32 a)) (nibble_at 0 (hi32 a)), lo32 a]
     @ vmint_words w v"
| "encode (EndConditionalOpcode e) = [hex_word 2 (flag e) 0 0 0 0 0 0]"
| "encode (ControlLoopOpcode s r n) =
     (if s then [hex_word 3 0 r 0 0 0 0 0, n] else [hex_word 3 1 r 0 0 0 0 0])"
| "encode (LoadRegisterStaticOpcode r v) = [hex_word 4 0 0 r 0 0 0 0, hi32 v, lo32 v]"
| "encode (LoadRegisterMemoryOpcode w m r f a) =
     [hex_word 5 w (MemoryAccessType_val m) r (flag f) 0 (nibble_at 4 (hi32 a)) (nibble_at 0 (hi32 a)),
      lo32 a]"
| "encode (StoreStaticToAddressOpcode w r i ao o_r v) =
     [hex_word 6 w 0 r (flag i) (flag ao) o_r 0, hi32 v, lo32 v]"
| "encode (PerformArithmeticStaticOpcode w r t v) =
     [hex_word 7 w 0 r (RegisterArithmeticType_val t) 0 0 0, v]"
| "encode (BeginKeypressConditionalOpcode k) = [0x80000000 OR k]"
| "encode (PerformArithmeticRegisterOpcode w t d s1 s2 imm v) =
     (if imm then hex_word 9 w (RegisterArithmeticType_val t) d s1 1 0 0 # vmint_words w v
      else [hex_word 9 w (RegisterArithmeticType_val t) d s1 0 s2 0])"
| "encode (StoreRegisterToAddressOpcode w s r i t m ofs a) =
     (let first = (\<lambda>lo. hex_word 10 w s r (flag i) (StoreRegisterOffsetType_val t) ofs lo)
      in if t = OfsImm \<or> t = OfsMemImm \<or> t = OfsMemImmReg then [first (hi32 a), lo32 a]
         else [first 0])"
| "encode (BeginRegisterConditionalOpcode w c s t m ar x o_r a v) =
     (let first = hex_word 12 0 w (ConditionalComparisonType_val c) s (CompareRegisterValueType_val t)
      in case t of
           MemoryRelAddr \<Rightarrow> [first (MemoryAccessType_val m) (hi32 a), lo32 a]
         | MemoryOfsReg \<Rightarrow> [first (MemoryAccessType_val m) o_r]
         | RegisterRelAddr \<Rightarrow> [first ar (hi32 a), lo32 a]
         | RegisterOfsReg \<Rightarrow> [first ar o_r]
         | StaticValue \<Rightarrow> first 0 0 # vmint_words w v
         | OtherRegister \<Rightarrow> [first x 0]
         | CompareRegisterValueType_raw _ \<Rightarrow> [first 0 0])"
| "encode (SaveRestoreRegisterOpcode d s t) =
     [hex_word 12 1 0 d 0 s (SaveRestoreRegisterOpType_val t) 0]"
| "encode (SaveRestoreRegisterMaskOpcode t bs) =
     [hex_word 12 2 (SaveRestoreRegisterOpType_val t) 0 0 0 0 0 OR mask_word bs]"
| "encode (ReadWriteStaticRegisterOpcode s i) =
     [hex_word 12 3 0 0 0 (nibble_at 4 s) (nibble_at 0 s) i]"
| "encode PauseProcessOpcode = [hex_word 15 15 0 0 0 0 0 0]"
| "encode ResumeProcessOpcode = [hex_word 15 15 1 0 0 0 0 0]"
| "encode (DebugLogOpcode w i t m ar x o_r a) =
     (let first = hex_word 15 15 15 w i (DebugLogValueType_val t)
      in case t of
           LogMemoryRelAddr \<Rightarrow> [first (MemoryAccessType_val m) (hi32 a), lo32 a]
         | LogMemoryOfsReg \<Rightarrow> [first (MemoryAccessType_val m) o_r]
         | LogRegisterRelAddr \<Rightarrow> [first ar (hi32 a), lo32 a]
         | LogRegisterOfsReg \<Rightarrow> [first ar o_r]
         | LogRegisterValue \<Rightarrow> [first x 0]
         | DebugLogValueType_raw _ \<Rightarrow> [first 0 0])"
| "encode (UnrecognizedInstruction t) = []"

text \<open>
  The layouts as the comments of \<^verbatim>\<open>DecodeNextOpcode\<close> write them: \<^verbatim>\<open>300R0000 VVVVVVVV\<close> and
  \<^verbatim>\<open>310R0000\<close> for the loops, \<^verbatim>\<open>FF0\<close> for a resume, and the decoder's layout for all the others.
  (The comments give no word of their own for an else and for the value types above the listed
  ones; there the decoder's layout is taken.)
\<close>

fun documented :: "CheatOp \<Rightarrow> u32 list" where
  "documented (ControlLoopOpcode s r n) =
     (if s then [hex_word 3 0 0 r 0 0 0 0, n] else [hex_word 3 1 0 r 0 0 0 0])"
| "documented ResumeProcessOpcode = [hex_word 15 15 0 0 0 0 0 0]"
| "documented c = encode c"

text \<open>What the decoder makes of the documented words.\<close>

fun documented_as :: "CheatOp \<Rightarrow> CheatOp" where
  "documented_as (ControlLoopOpcode s r n) = ControlLoopOpcode s 0 n"
| "documented_as ResumeProcessOpcode = PauseProcessOpcode"
| "documented_as c = c"

text \<open>
  What an opcode must satisfy to have an encoding: registers, widths and enumerations are single
  digits, addresses have 40 bits (36 in the two-digit formats), immediates fit their width, and
  the fields a format leaves out hold the value the decoder gives them.
\<close>

definition canon_mem :: "MemoryAccessType \<Rightarrow> bool" where
  "canon_mem m \<longleftrightarrow> is_nibble (MemoryAccessType_val m) \<and> to_MemoryAccessType (MemoryAccessType_val m) = m"

definition canon_cond :: "ConditionalComparisonType \<Rightarrow> bool" where
  "canon_cond c \<longleftrightarrow> is_nibble (ConditionalComparisonType_val c) \<and>
     to_ConditionalComparisonType (ConditionalComparisonType_val c) = c"

definition canon_math :: "RegisterArithmeticType \<Rightarrow> bool" where
  "canon_math t \<longleftrightarrow> is_nibble (RegisterArithmeticType_val t) \<and>
     to_RegisterArithmeticType (RegisterArithmeticType_val t) = t"

definition canon_save :: "SaveRestoreRegisterOpType \<Rightarrow> bool" where
  "canon_save t \<longleftrightarrow> is_nibble (SaveRestoreRegisterOpType_val t) \<and>
     to_SaveRestoreRegisterOpType (SaveRestoreRegisterOpType_val t) = t"

fun encodable :: "CheatOp \<Rightarrow> bool" where
  "encodable (StoreStaticOpcode w m r a v) \<longleftrightarrow>
     is_nibble w \<and> canon_mem m \<and> is_nibble r \<and> a < 0x10000000000 \<and> vmint_fits w v"
| "encodable (BeginConditionalOpcode w m c a v) \<longleftrightarrow>
     is_nibble w \<and> canon_mem m \<and> canon_cond c \<and> a < 0x10000000000 \<and> vmint_fits w v"
| "encodable (EndConditionalOpcode e) \<longleftrightarrow> True"
| "encodable (ControlLoopOpcode s r n) \<longleftrightarrow> is_nibble r \<and> (\<not> s \<longrightarrow> n = 0)"
| "encodable (LoadRegisterStaticOpcode r v) \<longleftrightarrow> is_nibble r"
| "encodable (LoadRegisterMemoryOpcode w m r f a) \<longleftrightarrow>
     is_nibble w \<and> canon_mem m \<and> is_nibble r \<and> a < 0x10000000000"
| "encodable (StoreStaticToAddressOpcode w r i ao o_r v) \<longleftrightarrow>
     is_nibble w \<and> is_nibble r \<and> is_nibble o_r"
| "encodable (PerformArithmeticStaticOpcode w r t v) \<longleftrightarrow> is_nibble w \<and> is_nibble r \<and> canon_math t"
| "encodable (BeginKeypressConditionalOpcode k) \<longleftrightarrow> k < 0x10000000"
| "encodable (PerformArithmeticRegisterOpcode w t d s1 s2 imm v) \<longleftrightarrow>
     is_nibble w \<and> canon_math t \<and> is_nibble d \<and> is_nibble s1 \<and> is_nibble s2 \<and>
     (if imm then s2 = 0 \<and> vmint_fits w v else v = 0)"
| "encodable (StoreRegisterToAddressOpcode w s r i t m ofs a) \<longleftrightarrow>
     is_nibble w \<and> is_nibble s \<and> is_nibble r \<and> is_nibble ofs \<and> a < 0x1000000000 \<and>
     (case t of
        OfsNone \<Rightarrow> m = MainNso \<and> a = 0
      | OfsReg \<Rightarrow> m = MainNso \<and> a = 0
      | OfsImm \<Rightarrow> m = MainNso
      | OfsMemReg \<Rightarrow> m = to_MemoryAccessType ofs \<and> a = 0
      | OfsMemImm \<Rightarrow> m = to_MemoryAccessType ofs
      | OfsMemImmReg \<Rightarrow> m = to_MemoryAccessType ofs
      | StoreRegisterOffsetType_raw _ \<Rightarrow> False)"
| "encodable (BeginRegisterConditionalOpcode w c s t m ar x o_r a v) \<longleftrightarrow>
     is_nibble w \<and> canon_cond c \<and> is_nibble s \<and> canon_mem m \<and> is_nibble ar \<and> is_nibble x \<and>
     is_nibble o_r \<and> a < 0x1000000000 \<and>
     (case t of
        MemoryRelAddr \<Rightarrow> ar = 0 \<and> x = 0 \<and> o_r = 0 \<and> v = 0
      | MemoryOfsReg \<Rightarrow> ar = 0 \<and> x = 0 \<and> a = 0 \<and> v = 0
      | RegisterRelAddr \<Rightarrow> m = MainNso \<and> x = 0 \<and> o_r = 0 \<and> v = 0
      | RegisterOfsReg \<Rightarrow> m = MainNso \<and> x = 0 \<and> a = 0 \<and> v = 0
      | StaticValue \<Rightarrow> m = MainNso \<and> ar = 0 \<and> x = 0 \<and> o_r = 0 \<and> a = 0 \<and> vmint_fits w v
      | OtherRegister \<Rightarrow> m = MainNso \<and> ar = 0 \<and> o_r = 0 \<and> a = 0 \<and> v = 0
      | CompareRegisterValueType_raw n \<Rightarrow> 5 < n \<and> n < 16 \<and> m = MainNso \<and> ar = 0 \<and> x = 0 \<and>
          o_r = 0 \<and> a = 0 \<and> v = 0)"
| "encodable (SaveRestoreRegisterOpcode d s t) \<longleftrightarrow> is_nibble d \<and> is_nibble s \<and> canon_save t"
| "encodable (SaveRestoreRegisterMaskOpcode t bs) \<longleftrightarrow> canon_save t \<and> length bs = NumRegisters"
| "encodable (ReadWriteStaticRegisterOpcode s i) \<longleftrightarrow> s < 0x100 \<and> is_nibble i"
| "encodable PauseProcessOpcode \<longleftrightarrow> True"
| "encodable ResumeProcessOpcode \<longleftrightarrow> True"
| "encodable (DebugLogOpcode w i t m ar x o_r a) \<longleftrightarrow>
     is_nibble w \<and> is_nibble i \<and> canon_mem m \<and> is_nibble ar \<and> is_nibble x \<and> is_nibble o_r \<and>
     a < 0x1000000000 \<and>
     (case t of
        LogMemoryRelAddr \<Rightarrow> ar = 0 \<and> x = 0 \<and> o_r = 0
      | LogMemoryOfsReg \<Rightarrow> ar = 0 \<and> x = 0 \<and> a = 0
      | LogRegisterRelAddr \<Rightarrow> m = MainNso \<and> x = 0 \<and> o_r = 0
      | LogRegisterOfsReg \<Rightarrow> m = MainNso \<and> x = 0 \<and> a = 0
      | LogRegisterValue \<Rightarrow> m = MainNso \<and> ar = 0 \<and> o_r = 0 \<and> a = 0
      | DebugLogValueType_raw n \<Rightarrow> 4 < n \<and> n < 16 \<and> m = MainNso \<and> ar = 0 \<and> x = 0 \<and>
          o_r = 0 \<and> a = 0)"
| "encodable (UnrecognizedInstruction t) \<longleftrightarrow> False"

section \<open>Recombining split values\<close>

lemma bit_hi32: "bit (hi32 v) i \<longleftrightarrow> i < 32 \<and> bit v (32 + i)"
  by (auto simp: hi32_def bit_ucast_iff bit_drop_bit_eq)

lemma bit_lo32: "bit (lo32 v) i \<longleftrightarrow> i < 32 \<and> bit v i"
  by (auto simp: lo32_def bit_ucast_iff)

lemma join_hi_lo [simp]: "push_bit 32 (ucast (hi32 v)) OR ucast (lo32 v) = (v :: u64)"
  by (rule bit_eqI) (auto simp: bit_or_iff bit_push_bit_iff bit_ucast_iff bit_hi32 bit_lo32)

lemma less_exp_bit:
  assumes "v < 2 ^ n" "n < 64" "bit (v :: u64) i"
  shows "i < n"
proof -
  have "uint v < 2 ^ n"
    using assms(1,2) by (simp add: word_2p_lem [symmetric] word_size)
  then have "take_bit n (uint v) = uint v"
    by (simp add: take_bit_int_eq_self_iff)
  then have "take_bit n v = v"
    by (simp only: word_uint_eq_iff unsigned_take_bit_eq)
  with assms(3) show ?thesis by (metis bit_take_bit_iff)
qed

lemma is_nibble_hi32: "a < 0x1000000000 \<Longrightarrow> is_nibble (hi32 a)"
  unfolding is_nibble_iff_take_bit
  by (rule bit_eqI) (auto simp: bit_take_bit_iff bit_hi32 dest!: less_exp_bit [of a 36, simplified])

lemma byte_hi32: "a < 0x10000000000 \<Longrightarrow> push_bit 4 (nibble_at 4 (hi32 a)) OR nibble_at 0 (hi32 a) = hi32 a"
  by (rule bit_eqI)
     (auto simp: bit_or_iff bit_push_bit_iff bit_nibble_at bit_hi32 dest!: less_exp_bit [of a 40, simplified])

lemma rel_address_join [simp]: "rel_address_of (hi32 a) (lo32 a) = a"
  by (simp add: rel_address_of_def)

section \<open>Decoding an encoded opcode\<close>

lemma is_nibble_numerals [simp]:
  "is_nibble 0" "is_nibble 1" "is_nibble 2" "is_nibble 3" "is_nibble 4" "is_nibble 5"
  "is_nibble 6" "is_nibble 7" "is_nibble 8" "is_nibble 9" "is_nibble 10" "is_nibble 11"
  "is_nibble 12" "is_nibble 13" "is_nibble 14" "is_nibble 15"
  by (simp_all add: is_nibble_def)

lemma low_digit_hex_word:
  assumes "is_nibble n7" "is_nibble n6" "is_nibble n5" "is_nibble n4"
    "is_nibble n3" "is_nibble n2" "is_nibble n1" "is_nibble n0"
  shows "hex_word n7 n6 n5 n4 n3 n2 n1 n0 AND 0xF = n0"
  using assms by (simp only: and_15_eq_nibble_at nibble_at_hex_word)

lemmas digit_simps = nibble_at_hex_word low_byte_hex_word low_digit_hex_word

lemma GetNextVmInt_reads:
  assumes "reads vm (vmint_words w v)" "vmint_fits w v"
  shows "GetNextVmInt w vm valid = (v, advance (length (vmint_words w v)) vm, valid)"
proof -
  have u: "ucast (ucast (lo32 v) :: u8) = v" if "v < 0x100"
    using that by (intro bit_eqI)
      (auto simp: bit_ucast_iff bit_lo32 dest!: less_exp_bit [of v 8, simplified])
  moreover have "ucast (ucast (lo32 v) :: u16) = v" if "v < 0x10000"
    using that by (intro bit_eqI)
      (auto simp: bit_ucast_iff bit_lo32 dest!: less_exp_bit [of v 16, simplified])
  moreover have "ucast (lo32 v) = v" if "v < 0x100000000"
    using that by (intro bit_eqI)
      (auto simp: bit_ucast_iff bit_lo32 dest!: less_exp_bit [of v 32, simplified])
  ultimately show ?thesis
    using assms
    by (auto simp: GetNextVmInt_def vmint_words_def vmint_fits_def GetNextDword_def Let_def
        bit8_of_def bit16_of_def bit32_of_def split: if_splits)
qed

lemma decode_opcode_type_hex_word:
  assumes "is_nibble n7" "is_nibble n6" "is_nibble n5" "is_nibble n4"
    "is_nibble n3" "is_nibble n2" "is_nibble n1" "is_nibble n0"
  shows "n7 < 12 \<Longrightarrow> decode_opcode_type (hex_word n7 n6 n5 n4 n3 n2 n1 n0) = n7"
    and "n6 < 4 \<Longrightarrow> n7 = 12 \<Longrightarrow> push_bit 4 n7 OR n6 < 0xF0 \<Longrightarrow>
      decode_opcode_type (hex_word n7 n6 n5 n4 n3 n2 n1 n0) = push_bit 4 n7 OR n6"
    and "n7 = 15 \<Longrightarrow> n6 = 15 \<Longrightarrow>
      decode_opcode_type (hex_word n7 n6 n5 n4 n3 n2 n1 n0) = 0xFF0 OR n5"
proof -
  assume h: "n7 < 12"
  then have "\<not> 12 \<le> n7" "\<not> 0xF0 \<le> n7"
    by (auto simp: not_le intro: less_trans [of n7 12])
  with assms show "decode_opcode_type (hex_word n7 n6 n5 n4 n3 n2 n1 n0) = n7"
    by (simp add: decode_opcode_type_def)
qed (use assms in \<open>simp_all add: decode_opcode_type_def Let_def not_le [symmetric]\<close>)

text \<open>One instance of the round trip per group of opcodes, over the body decoder.\<close>

definition starts_block :: "CheatOp \<Rightarrow> bool" where
  "starts_block c \<longleftrightarrow>
     is_BeginConditionalOpcode c \<or> is_BeginKeypressConditionalOpcode c \<or>
     is_BeginRegisterConditionalOpcode c"

definition decodes_to :: "CheatOp \<Rightarrow> bool" where
  "decodes_to c \<longleftrightarrow>
     (\<forall>vm. reads vm (encode c) \<longrightarrow>
        (\<exists>w ws. encode c = w # ws \<and>
           is_condition_start (to_CheatVmOpcodeType (decode_opcode_type w)) = starts_block c \<and>
           decode_body (to_CheatVmOpcodeType (decode_opcode_type w)) w (advance 1 vm) True =
             (c, advance (length (encode c)) vm, True)))"

lemmas decode_defs = decode_body_def decode_StoreStatic_def decode_BeginConditional_def
  decode_EndConditional_def decode_ControlLoop_def decode_LoadRegisterStatic_def
  decode_LoadRegisterMemory_def decode_StoreStaticToAddress_def decode_PerformArithmeticStatic_def
  decode_BeginKeypressConditional_def decode_PerformArithmeticRegister_def
  decode_StoreRegisterToAddress_def decode_BeginRegisterConditional_def
  decode_SaveRestoreRegister_def decode_SaveRestoreRegisterMask_def
  decode_ReadWriteStaticRegister_def decode_DebugLog_def

lemmas canon_defs = canon_mem_def canon_cond_def canon_math_def canon_save_def

lemmas decode_simps = decode_defs canon_defs decode_opcode_type_hex_word to_CheatVmOpcodeType_def
  GetNextDword_def Let_def low_byte_hex_word low_digit_hex_word byte_hi32 GetNextVmInt_reads
  GetNextQword_def GetNextRelAddress_def is_nibble_hi32 starts_block_def is_condition_start_def

lemma decodes_to_StoreStatic:
  "encodable (StoreStaticOpcode w m r a v) \<Longrightarrow> decodes_to (StoreStaticOpcode w m r a v)"
  unfolding decodes_to_def by (auto simp: decode_simps split: if_splits)

lemma decodes_to_BeginConditional:
  "encodable (BeginConditionalOpcode w m c a v) \<Longrightarrow> decodes_to (BeginConditionalOpcode w m c a v)"
  unfolding decodes_to_def by (auto simp: decode_simps split: if_splits)

lemma decodes_to_block_and_loop:
  "decodes_to (EndConditionalOpcode e)"
  "encodable (ControlLoopOpcode s r n) \<Longrightarrow> decodes_to (ControlLoopOpcode s r n)"
  unfolding decodes_to_def by (auto simp: decode_simps split: if_splits)

lemma decodes_to_loads:
  "encodable (LoadRegisterStaticOpcode r v) \<Longrightarrow> decodes_to (LoadRegisterStaticOpcode r v)"
  "encodable (LoadRegisterMemoryOpcode w m r f a) \<Longrightarrow> decodes_to (LoadRegisterMemoryOpcode w m r f a)"
  "encodable (StoreStaticToAddressOpcode w r i ao o_r v) \<Longrightarrow>
   decodes_to (StoreStaticToAddressOpcode w r i ao o_r v)"
  unfolding decodes_to_def by (auto simp: decode_simps split: if_splits)

lemma decodes_to_arithmetic:
  "encodable (PerformArithmeticStaticOpcode w r t k) \<Longrightarrow>
   decodes_to (PerformArithmeticStaticOpcode w r t k)"
  "encodable (PerformArithmeticRegisterOpcode w t d s1 s2 imm v) \<Longrightarrow>
   decodes_to (PerformArithmeticRegisterOpcode w t d s1 s2 imm v)"
  unfolding decodes_to_def by (auto simp: decode_simps split: if_splits)

lemma decodes_to_StoreRegisterToAddress:
  "encodable (StoreRegisterToAddressOpcode w s r i t m ofs a) \<Longrightarrow>
   decodes_to (StoreRegisterToAddressOpcode w s r i t m ofs a)"
  unfolding decodes_to_def
  by (cases t) (auto simp: decode_simps to_StoreRegisterOffsetType_def split: if_splits)

lemma enum_casts:
  "to_CompareRegisterValueType 0 = MemoryRelAddr" "to_CompareRegisterValueType 1 = MemoryOfsReg"
  "to_CompareRegisterValueType 2 = RegisterRelAddr" "to_CompareRegisterValueType 3 = RegisterOfsReg"
  "to_CompareRegisterValueType 4 = StaticValue" "to_CompareRegisterValueType 5 = OtherRegister"
  "5 < n \<Longrightarrow> to_CompareRegisterValueType n = CompareRegisterValueType_raw n"
  "to_DebugLogValueType 0 = LogMemoryRelAddr" "to_DebugLogValueType 1 = LogMemoryOfsReg"
  "to_DebugLogValueType 2 = LogRegisterRelAddr" "to_DebugLogValueType 3 = LogRegisterOfsReg"
  "to_DebugLogValueType 4 = LogRegisterValue"
  "4 < n \<Longrightarrow> to_DebugLogValueType n = DebugLogValueType_raw n"
  by (auto simp: to_CompareRegisterValueType_def to_DebugLogValueType_def)

lemma decodes_to_BeginRegisterConditional:
  "encodable (BeginRegisterConditionalOpcode w c s t m ar x o_r a v) \<Longrightarrow>
   decodes_to (BeginRegisterConditionalOpcode w c s t m ar x o_r a v)"
  unfolding decodes_to_def
  by (cases t) (auto simp: decode_simps enum_casts is_nibble_def [symmetric])

lemma decodes_to_DebugLog:
  "encodable (DebugLogOpcode w i t m ar x o_r a) \<Longrightarrow> decodes_to (DebugLogOpcode w i t m ar x o_r a)"
  unfolding decodes_to_def
  by (cases t) (auto simp: decode_simps enum_casts is_nibble_def [symmetric])

lemma decodes_to_SaveRestoreRegister:
  "encodable (SaveRestoreRegisterOpcode d s t) \<Longrightarrow> decodes_to (SaveRestoreRegisterOpcode d s t)"
  unfolding decodes_to_def by (auto simp: decode_simps)

lemma decodes_to_process:
  "decodes_to PauseProcessOpcode" "decodes_to ResumeProcessOpcode"
  unfolding decodes_to_def by (auto simp: decode_simps)

lemma less_exp_bit32:
  assumes "v < 2 ^ n" "n < 32" "bit (v :: u32) i"
  shows "i < n"
proof -
  have "uint v < 2 ^ n"
    using assms(1,2) by (simp add: word_2p_lem [symmetric] word_size)
  then have "take_bit n (uint v) = uint v"
    by (simp add: take_bit_int_eq_self_iff)
  then have "take_bit n v = v"
    by (simp only: word_uint_eq_iff unsigned_take_bit_eq)
  with assms(3) show ?thesis by (metis bit_take_bit_iff)
qed

lemma keypress_word:
  assumes "k < 0x10000000"
  shows "decode_opcode_type (0x80000000 OR k) = 8" "(0x80000000 OR k) AND 0x0FFFFFFF = k"
proof -
  have kb: "bit k i \<Longrightarrow> i < 28" for i using less_exp_bit32 [of k 28 i] assms by simp
  have "(0x80000000 :: u32) = 2 ^ 31" by simp
  then have e: "bit (0x80000000 :: u32) i \<longleftrightarrow> i = 31" for i
    by (simp only: bit_exp_iff) auto
  have m: "(0x0FFFFFFF :: u32) = mask 28" by (simp add: mask_eq_exp_minus_1)
  have "nibble_at 28 (0x80000000 OR k) = 8"
    by (rule nibble_eqI; simp add: bit_nibble_at bit_or_iff)
       (use kb in \<open>force+\<close>)
  then show "decode_opcode_type (0x80000000 OR k) = 8" by (simp add: decode_opcode_type_def)
  show "(0x80000000 OR k) AND 0x0FFFFFFF = k"
  proof (rule bit_eqI)
    fix i :: nat
    show "bit ((0x80000000 OR k) AND 0x0FFFFFFF) i = bit k i"
      unfolding m using kb [of i] e [of i] by (auto simp: bit_and_iff bit_or_iff bit_mask_iff)
  qed
qed

lemma decodes_to_BeginKeypressConditional:
  "encodable (BeginKeypressConditionalOpcode k) \<Longrightarrow> decodes_to (BeginKeypressConditionalOpcode k)"
  unfolding decodes_to_def by (auto simp: decode_simps keypress_word)

lemma bit_hex_word:
  "bit (hex_word n7 n6 n5 n4 n3 n2 n1 n0) i \<longleftrightarrow> i < 32 \<and>
     (28 \<le> i \<and> bit n7 (i - 28) \<or> 24 \<le> i \<and> bit n6 (i - 24) \<or> 20 \<le> i \<and> bit n5 (i - 20) \<or>
      16 \<le> i \<and> bit n4 (i - 16) \<or> 12 \<le> i \<and> bit n3 (i - 12) \<or> 8 \<le> i \<and> bit n2 (i - 8) \<or>
      4 \<le> i \<and> bit n1 (i - 4) \<or> bit n0 i)"
  by (auto simp: hex_word_def bit_or_iff bit_push_bit_iff dest: bit_imp_le_length)

lemma decodes_to_ReadWriteStaticRegister:
  assumes "encodable (ReadWriteStaticRegisterOpcode s i)"
  shows "decodes_to (ReadWriteStaticRegisterOpcode s i)"
proof -
  let ?w = "hex_word 12 3 0 0 0 (nibble_at 4 s) (nibble_at 0 s) i"
  have sb: "bit s j \<Longrightarrow> j < 8" for j using less_exp_bit32 [of s 8 j] assms by simp
  have m: "(0xFF :: u32) = mask 8" by (simp add: mask_eq_exp_minus_1)
  have "drop_bit 4 ?w AND 0xFF = s"
  proof (rule bit_eqI)
    fix j :: nat
    have ni: "is_nibble i" using assms by simp
    consider "j < 4" | "4 \<le> j" "j < 8" | "8 \<le> j" by linarith
    then show "bit (drop_bit 4 ?w AND 0xFF) j = bit s j"
      unfolding m using sb [of j] ni
      by cases (auto simp: bit_hex_word bit_and_iff bit_mask_iff bit_drop_bit_eq bit_nibble_at)
  qed
  with assms show ?thesis unfolding decodes_to_def by (auto simp: decode_simps)
qed

lemma bit_mask_word: "length bs \<le> 32 \<Longrightarrow> bit (mask_word bs) i \<longleftrightarrow> i < length bs \<and> bs ! i"
  by (auto simp: mask_word_def bit_horner_sum_bit_iff)

lemma regmask_word:
  assumes "length bs = 16" "is_nibble t" and w: "w = hex_word 12 2 t 0 0 0 0 0 OR mask_word bs"
  shows "decode_opcode_type w = 0xC2" "nibble_at 20 w = t" "i < 16 \<Longrightarrow> (w AND push_bit i 1 \<noteq> 0) = bs ! i"
proof -
  have high: "nibble_at s w = nibble_at s (hex_word 12 2 t 0 0 0 0 0)" if "16 \<le> s" for s
    by (rule bit_eqI) (use that assms(1) in \<open>auto simp: w bit_nibble_at bit_or_iff bit_mask_word\<close>)
  show "nibble_at 20 w = t" using assms(2) by (simp add: high)
  show "decode_opcode_type w = 0xC2" using assms(2) by (simp add: high decode_opcode_type_def)
  assume i: "i < 16"
  have "(w AND push_bit i 1 \<noteq> 0) = bit w i"
    by (simp only: push_bit_eq_mult mult_1 and_exp_eq_0_iff_not_bit not_not)
  also have "\<dots> = bs ! i"
    using i assms(1,2) by (auto simp: w bit_or_iff bit_mask_word bit_hex_word)
  finally show "(w AND push_bit i 1 \<noteq> 0) = bs ! i" .
qed

lemma decodes_to_SaveRestoreRegisterMask:
  assumes "encodable (SaveRestoreRegisterMaskOpcode t bs)"
  shows "decodes_to (SaveRestoreRegisterMaskOpcode t bs)"
proof -
  from assms have l: "length bs = 16" and n: "is_nibble (SaveRestoreRegisterOpType_val t)"
    and c: "to_SaveRestoreRegisterOpType (SaveRestoreRegisterOpType_val t) = t"
    by (auto simp: canon_save_def NumRegisters_def)
  note r = regmask_word [OF l n refl]
  have "map (\<lambda>i. (hex_word 12 2 (SaveRestoreRegisterOpType_val t) 0 0 0 0 0 OR mask_word bs) AND
      push_bit i 1 \<noteq> 0) [0..<NumRegisters] = bs"
    by (rule nth_equalityI) (use l r(3) in \<open>simp_all add: NumRegisters_def\<close>)
  with r(1,2) c show ?thesis
    unfolding decodes_to_def
    by (auto simp: decode_body_def decode_SaveRestoreRegisterMask_def to_CheatVmOpcodeType_def
        is_condition_start_def starts_block_def)
qed

lemma decodes_to_encodable: "encodable c \<Longrightarrow> decodes_to c"
  by (cases c)
     (simp_all only: decodes_to_StoreStatic decodes_to_BeginConditional decodes_to_block_and_loop
      decodes_to_loads decodes_to_arithmetic decodes_to_StoreRegisterToAddress
      decodes_to_BeginRegisterConditional decodes_to_DebugLog decodes_to_SaveRestoreRegister
      decodes_to_process decodes_to_BeginKeypressConditional decodes_to_ReadWriteStaticRegister
      decodes_to_SaveRestoreRegisterMask encodable.simps(19))

lemma DecodeNextOpcode_encoded:
  assumes "encodable c" "reads vm (encode c)" "decode_success vm"
  shows "DecodeNextOpcode vm =
    (Some \<lparr>begin_conditional_block = starts_block c, opcode = c\<rparr>, advance (length (encode c)) vm)"
proof -
  from decodes_to_encodable [OF assms(1)] assms(2) obtain w ws where e: "encode c = w # ws"
    and b: "is_condition_start (to_CheatVmOpcodeType (decode_opcode_type w)) = starts_block c"
    and d: "decode_body (to_CheatVmOpcodeType (decode_opcode_type w)) w (advance 1 vm) True =
      (c, advance (length (encode c)) vm, True)"
    unfolding decodes_to_def by blast
  have "GetNextDword vm (decode_success vm) = (w, advance 1 vm, True)"
    using GetNextDword_reads [of vm w ws] assms(2,3) e by simp
  with b d assms(3) show ?thesis
    by (simp add: DecodeNextOpcode_def Let_def del: One_nat_def)
qed

lemma documented_loop_word:
  assumes "is_nibble r" "s \<in> {0, 1}"
  defines "w \<equiv> hex_word 3 s 0 r 0 0 0 0"
  shows "decode_opcode_type w = 3" "nibble_at 24 w = s" "nibble_at 20 w = 0"
  using assms by (auto simp: decode_opcode_type_hex_word)

lemma DecodeNextOpcode_documented_loop:
  assumes "is_nibble r" "reads vm (documented (ControlLoopOpcode s r n))" "decode_success vm" "\<not> s \<longrightarrow> n = 0"
  shows "DecodeNextOpcode vm =
    (Some \<lparr>begin_conditional_block = False, opcode = ControlLoopOpcode s 0 n\<rparr>,
     advance (length (documented (ControlLoopOpcode s r n))) vm)"
proof -
  define w ws where "w = hex_word 3 (flag (\<not> s)) 0 r 0 0 0 0" and "ws = (if s then [n] else [])"
  have d: "documented (ControlLoopOpcode s r n) = w # ws" by (simp add: w_def ws_def)
  have g: "GetNextDword vm True = (w, advance 1 vm, True)" "reads (advance 1 vm) ws"
    using assms(2) GetNextDword_reads [of vm w ws True] unfolding d by simp_all
  have w: "to_CheatVmOpcodeType (decode_opcode_type w) = ControlLoop" "nibble_at 24 w = flag (\<not> s)" "nibble_at 20 w = 0"
    using documented_loop_word [OF assms(1), of "flag (\<not> s)"] by (simp_all add: w_def to_CheatVmOpcodeType_def)
  have b: "decode_body ControlLoop w (advance 1 vm) True =
      (ControlLoopOpcode s 0 n, advance (length (w # ws)) vm, True)"
    using g(2) w(2,3) assms(4)
    by (auto simp: decode_body_def decode_ControlLoop_def ws_def GetNextDword_def Let_def)
  show ?thesis
    unfolding d DecodeNextOpcode_def Let_def
    using assms(3) by (simp add: g w b is_condition_start_def del: One_nat_def)
qed

text \<open>The decoder on the documented layouts: exact but for the loops and the resume.\<close>

lemma DecodeNextOpcode_documented:
  assumes "encodable c" "reads vm (documented c)" "decode_success vm"
  shows "DecodeNextOpcode vm =
    (Some \<lparr>begin_conditional_block = starts_block c, opcode = documented_as c\<rparr>,
     advance (length (documented c)) vm)"
proof (cases c)
  case (ControlLoopOpcode s r n)
  with assms show ?thesis
    using DecodeNextOpcode_documented_loop [of r vm s n] by (simp add: starts_block_def del: documented.simps)
next
  case ResumeProcessOpcode
  have "reads vm (encode PauseProcessOpcode)" using assms(2) ResumeProcessOpcode by simp
  from DecodeNextOpcode_encoded [OF _ this assms(3)] show ?thesis
    by (simp add: ResumeProcessOpcode starts_block_def)
qed (use assms DecodeNextOpcode_encoded [of c vm] in \<open>simp_all del: encode.simps encodable.simps\<close>)

end
