(* ===== verification/CheatVm_Log.thy ===== *)
theory CheatVm_Log
  imports CheatVm_Decode
begin

text \<open>
  The trace the cheat machine writes through \<^verbatim>\<open>Callbacks::CommandLog\<close>:
  \<^verbatim>\<open>DmntCheatVm::LogOpcode\<close> and the register dump of the main loop. Each branch gives the lines
  in the order the code emits them.
\<close>

definition hex_line :: "string \<Rightarrow> u32 \<Rightarrow> string" where
  "hex_line label v = label @ fmt_X (unat v)"

definition hex_line64 :: "string \<Rightarrow> u64 \<Rightarrow> string" where
  "hex_line64 label v = label @ fmt_X (unat v)"

definition flag_line :: "string \<Rightarrow> bool \<Rightarrow> string" where
  "flag_line label b = label @ fmt_bool b"

definition store_offset_lines :: "StoreRegisterOffsetType \<Rightarrow> MemoryAccessType \<Rightarrow> u32 \<Rightarrow> u64 \<Rightarrow> string list" where
  "store_offset_lines t m ofs a =
     (case t of
        OfsNone \<Rightarrow> []
      | OfsReg \<Rightarrow> [hex_line ''O Reg Idx: '' ofs]
      | OfsImm \<Rightarrow> [hex_line64 ''Rel Addr:  '' a]
      | OfsMemReg \<Rightarrow> [hex_line ''Mem Type:  '' (MemoryAccessType_val m)]
      | OfsMemImm \<Rightarrow> [hex_line ''Mem Type:  '' (MemoryAccessType_val m), hex_line64 ''Rel Addr:  '' a]
      | OfsMemImmReg \<Rightarrow> [hex_line ''Mem Type:  '' (MemoryAccessType_val m), hex_line64 ''Rel Addr:  '' a]
      | StoreRegisterOffsetType_raw _ \<Rightarrow> [])"

definition compare_lines ::
  "CompareRegisterValueType \<Rightarrow> MemoryAccessType \<Rightarrow> u32 \<Rightarrow> u32 \<Rightarrow> u32 \<Rightarrow> u64 \<Rightarrow> VmInt \<Rightarrow> string list" where
  "compare_lines t m ar x o_r a v =
     (case t of
        StaticValue \<Rightarrow> [''Comp Type: Static Value'', hex_line64 ''Value:     '' v]
      | OtherRegister \<Rightarrow> [''Comp Type: Other Register'', hex_line ''X Reg Idx: '' x]
      | MemoryRelAddr \<Rightarrow> [''Comp Type: Memory Relative Address'',
          hex_line ''Mem Type:  '' (MemoryAccessType_val m), hex_line64 ''Rel Addr:  '' a]
      | MemoryOfsReg \<Rightarrow> [''Comp Type: Memory Offset Register'',
          hex_line ''Mem Type:  '' (MemoryAccessType_val m), hex_line ''O Reg Idx: '' o_r]
      | RegisterRelAddr \<Rightarrow> [''Comp Type: Register Relative Address'',
          hex_line ''A Reg Idx: '' ar, hex_line64 ''Rel Addr:  '' a]
      | RegisterOfsReg \<Rightarrow> [''Comp Type: Register Offset Register'',
          hex_line ''A Reg Idx: '' ar, hex_line ''O Reg Idx: '' o_r]
      | CompareRegisterValueType_raw _ \<Rightarrow> [])"

definition debug_value_lines ::
  "DebugLogValueType \<Rightarrow> MemoryAccessType \<Rightarrow> u32 \<Rightarrow> u32 \<Rightarrow> u32 \<Rightarrow> u64 \<Rightarrow> string list" where
  "debug_value_lines t m ar x o_r a =
     (case t of
        LogRegisterValue \<Rightarrow> [''Val Type:  Register Value'', hex_line ''X Reg Idx: '' x]
      | LogMemoryRelAddr \<Rightarrow> [''Val Type:  Memory Relative Address'',
          hex_line ''Mem Type:  '' (MemoryAccessType_val m), hex_line64 ''Rel Addr:  '' a]
      | LogMemoryOfsReg \<Rightarrow> [''Val Type:  Memory Offset Register'',
          hex_line ''Mem Type:  '' (MemoryAccessType_val m), hex_line ''O Reg Idx: '' o_r]
      | LogRegisterRelAddr \<Rightarrow> [''Val Type:  Register Relative Address'',
          hex_line ''A Reg Idx: '' ar, hex_line64 ''Rel Addr:  '' a]
      | LogRegisterOfsReg \<Rightarrow> [''Val Type:  Register Offset Register'',
          hex_line ''A Reg Idx: '' ar, hex_line ''O Reg Idx: '' o_r]
      | DebugLogValueType_raw _ \<Rightarrow> [])"

text \<open>
  \<open>opcode_type_number\<close> is the \<^verbatim>\<open>static_cast<u32>\<close> of the opcode type that the last branch of
  \<^verbatim>\<open>LogOpcode\<close> prints.
\<close>

fun opcode_type_number :: "CheatVmOpcodeType \<Rightarrow> u32" where
  "opcode_type_number StoreStatic = 0"
| "opcode_type_number BeginConditionalBlock = 1"
| "opcode_type_number EndConditionalBlock = 2"
| "opcode_type_number ControlLoop = 3"
| "opcode_type_number LoadRegisterStatic = 4"
| "opcode_type_number LoadRegisterMemory = 5"
| "opcode_type_number StoreStaticToAddress = 6"
| "opcode_type_number PerformArithmeticStatic = 7"
| "opcode_type_number BeginKeypressConditionalBlock = 8"
| "opcode_type_number PerformArithmeticRegister = 9"
| "opcode_type_number StoreRegisterToAddress = 10"
| "opcode_type_number Reserved11 = 11"
| "opcode_type_number ExtendedWidth = 12"
| "opcode_type_number BeginRegisterConditionalBlock = 0xC0"
| "opcode_type_number SaveRestoreRegister = 0xC1"
| "opcode_type_number SaveRestoreRegisterMask = 0xC2"
| "opcode_type_number ReadWriteStaticRegister = 0xC3"
| "opcode_type_number DoubleExtendedWidth = 0xF0"
| "opcode_type_number PauseProcess_type = 0xFF0"
| "opcode_type_number ResumeProcess_type = 0xFF1"
| "opcode_type_number DebugLog_type = 0xFFF"
| "opcode_type_number (UnknownOpcodeType v) = v"

lemma opcode_type_number_cast [simp]: "opcode_type_number (to_CheatVmOpcodeType v) = v"
  by (simp add: to_CheatVmOpcodeType_def)

fun LogOpcode_lines :: "CheatOp \<Rightarrow> string list" where
  "LogOpcode_lines (StoreStaticOpcode w m r a v) =
     [''Opcode: Store Static'', hex_line ''Bit Width: '' w,
      hex_line ''Mem Type:  '' (MemoryAccessType_val m), hex_line ''Reg Idx:   '' r,
      hex_line64 ''Rel Addr:  '' a, hex_line64 ''Value:     '' v]"
| "LogOpcode_lines (BeginConditionalOpcode w m c a v) =
     [''Opcode: Begin Conditional'', hex_line ''Bit Width: '' w,
      hex_line ''Mem Type:  '' (MemoryAccessType_val m),
      hex_line ''Cond Type: '' (ConditionalComparisonType_val c),
      hex_line64 ''Rel Addr:  '' a, hex_line64 ''Value:     '' v]"
| "LogOpcode_lines (EndConditionalOpcode e) = [''Opcode: End Conditional'']"
| "LogOpcode_lines (ControlLoopOpcode s r n) =
     (if s then [''Opcode: Start Loop'', hex_line ''Reg Idx:   '' r, hex_line ''Num Iters: '' n]
      else [''Opcode: End Loop'', hex_line ''Reg Idx:   '' r])"
| "LogOpcode_lines (LoadRegisterStaticOpcode r v) =
     [''Opcode: Load Register Static'', hex_line ''Reg Idx:   '' r, hex_line64 ''Value:     '' v]"
| "LogOpcode_lines (LoadRegisterMemoryOpcode w m r f a) =
     [''Opcode: Load Register Memory'', hex_line ''Bit Width: '' w, hex_line ''Reg Idx:   '' r,
      hex_line ''Mem Type:  '' (MemoryAccessType_val m), flag_line ''From Reg:  '' f,
      hex_line64 ''Rel Addr:  '' a]"
| "LogOpcode_lines (StoreStaticToAddressOpcode w r i ao o_r v) =
     [''Opcode: Store Static to Address'', hex_line ''Bit Width: '' w, hex_line ''Reg Idx:   '' r]
     @ (if ao then [hex_line ''O Reg Idx: '' o_r] else [])
     @ [flag_line ''Incr Reg:  '' i, hex_line64 ''Value:     '' v]"
| "LogOpcode_lines (PerformArithmeticStaticOpcode w r t v) =
     [''Opcode: Perform Static Arithmetic'', hex_line ''Bit Width: '' w, hex_line ''Reg Idx:   '' r,
      hex_line ''Math Type: '' (RegisterArithmeticType_val t), hex_line ''Value:     '' v]"
| "LogOpcode_lines (BeginKeypressConditionalOpcode k) =
     [''Opcode: Begin Keypress Conditional'', hex_line ''Key Mask:  '' k]"
| "LogOpcode_lines (PerformArithmeticRegisterOpcode w t d s1 s2 imm v) =
     [''Opcode: Perform Register Arithmetic'', hex_line ''Bit Width: '' w, hex_line ''Dst Idx:   '' d,
      hex_line ''Src1 Idx:  '' s1]
     @ (if imm then [hex_line64 ''Value:     '' v] else [hex_line ''Src2 Idx:  '' s2])"
| "LogOpcode_lines (StoreRegisterToAddressOpcode w s r i t m ofs a) =
     [''Opcode: Store Register to Address'', hex_line ''Bit Width: '' w, hex_line ''S Reg Idx: '' s,
      hex_line ''A Reg Idx: '' r, flag_line ''Incr Reg:  '' i]
     @ store_offset_lines t m ofs a"
| "LogOpcode_lines (BeginRegisterConditionalOpcode w c s t m ar x o_r a v) =
     [''Opcode: Begin Register Conditional'', hex_line ''Bit Width: '' w,
      hex_line ''Cond Type: '' (ConditionalComparisonType_val c), hex_line ''V Reg Idx: '' s]
     @ compare_lines t m ar x o_r a v"
| "LogOpcode_lines (SaveRestoreRegisterOpcode d s t) =
     [''Opcode: Save or Restore Register'', hex_line ''Dst Idx:   '' d, hex_line ''Src Idx:   '' s,
      ''Op Type:   '' @ fmt_d (unat (SaveRestoreRegisterOpType_val t))]"
| "LogOpcode_lines (SaveRestoreRegisterMaskOpcode t bs) =
     [''Opcode: Save or Restore Register Mask'',
      ''Op Type:   '' @ fmt_d (unat (SaveRestoreRegisterOpType_val t))]
     @ map (\<lambda>i. ''Act['' @ fmt_0X 2 i @ '']:   '' @ fmt_bool (bs ! i)) [0..<NumRegisters]"
| "LogOpcode_lines (ReadWriteStaticRegisterOpcode s i) =
     [''Opcode: Read/Write Static Register'',
      if unat s < NumReadableStaticRegisters then ''Op Type: ReadStaticRegister''
      else ''Op Type: WriteStaticRegister'',
      hex_line ''Reg Idx   '' i, hex_line ''Stc Idx   '' s]"
| "LogOpcode_lines PauseProcessOpcode = []"
| "LogOpcode_lines ResumeProcessOpcode = []"
| "LogOpcode_lines (DebugLogOpcode w i t m ar x o_r a) =
     [''Opcode: Debug Log'', hex_line ''Bit Width: '' w, hex_line ''Log ID:    '' i,
      hex_line ''Val Type:  '' (DebugLogValueType_val t)]
     @ debug_value_lines t m ar x o_r a"
| "LogOpcode_lines (UnrecognizedInstruction t) = [hex_line ''Unknown opcode: '' (opcode_type_number t)]"

definition log_lines :: "'w Callbacks \<Rightarrow> string list \<Rightarrow> 'w \<Rightarrow> 'w" where
  "log_lines cb lines w = fold (CommandLog cb) lines w"

definition LogOpcode :: "'w Callbacks \<Rightarrow> CheatVmOpcode \<Rightarrow> 'w \<Rightarrow> 'w" where
  "LogOpcode cb oper w = log_lines cb (LogOpcode_lines (opcode oper)) w"

text \<open>The dump of the instruction pointer and both register files before each instruction.\<close>

definition register_lines :: "DmntCheatVm \<Rightarrow> string list" where
  "register_lines vm =
     [''Instruction Ptr: '' @ fmt_0X 4 (instruction_ptr vm)]
     @ map (\<lambda>i. ''Registers['' @ fmt_0X 2 i @ '']: '' @ fmt_0X 16 (unat (registers vm ! i))) [0..<NumRegisters]
     @ map (\<lambda>i. ''SavedRegs['' @ fmt_0X 2 i @ '']: '' @ fmt_0X 16 (unat (saved_values vm ! i))) [0..<NumRegisters]"

definition start_lines :: "CheatProcessMetadata \<Rightarrow> u64 \<Rightarrow> string list" where
  "start_lines md kDown =
     [''Started VM execution.'',
      ''Main NSO:  '' @ fmt_0X 12 (unat (base (main_nso_extents md))),
      ''Heap:      '' @ fmt_0X 12 (unat (base (main_nso_extents md))),
      ''Keys Down: '' @ fmt_0X 8 (unat (kDown AND 0x0FFFFFFF))]"

lemma log_lines_Nil [simp]: "log_lines cb [] w = w"
  by (simp add: log_lines_def)

lemma log_lines_Cons [simp]: "log_lines cb (l # ls) w = log_lines cb ls (CommandLog cb l w)"
  by (simp add: log_lines_def)

lemma log_lines_append [simp]: "log_lines cb (ls @ ms) w = log_lines cb ms (log_lines cb ls w)"
  by (simp add: log_lines_def)

text \<open>Whatever the log callback leaves alone, a whole trace leaves alone.\<close>

lemma log_lines_invariant:
  "(\<And>l w. I w \<Longrightarrow> I (CommandLog cb l w)) \<Longrightarrow> I w \<Longrightarrow> I (log_lines cb ls w)"
  by (induction ls arbitrary: w) auto

end
