(* ===== verification/CheatVm_Exec.thy ===== *)
theory CheatVm_Exec
  imports CheatVm_Log
begin

text \<open>
  Execution of the cheat machine: \<^verbatim>\<open>GetVmInt\<close>, \<^verbatim>\<open>GetCheatProcessAddress\<close>, \<^verbatim>\<open>ResetState\<close>,
  \<^verbatim>\<open>LoadProgram\<close> and \<^verbatim>\<open>Execute\<close> of \<^verbatim>\<open>core/memory/dmnt_cheat_vm.cpp\<close>, with one definition per
  branch of the big \<^verbatim>\<open>if\<close> chain. The main loop takes fuel (a cheat may loop forever); running
  out is \<open>None\<close>. \<open>Execute_upto\<close> is the same loop observed after any number of rounds, with the state it
  has then: still running, finished, or stopped by a fault.
\<close>

section \<open>Helpers of the class\<close>

definition GetVmInt :: "VmInt \<Rightarrow> u32 \<Rightarrow> u64" where
  "GetVmInt value bit_width =
     (if bit_width = 1 then take_bit 8 value
      else if bit_width = 2 then take_bit 16 value
      else if bit_width = 4 then take_bit 32 value
      else if bit_width = 8 then value
      else 0)"

definition GetCheatProcessAddress :: "CheatProcessMetadata \<Rightarrow> MemoryAccessType \<Rightarrow> u64 \<Rightarrow> u64" where
  "GetCheatProcessAddress md mem_type rel_address =
     (case mem_type of
        MainNso \<Rightarrow> base (main_nso_extents md) + rel_address
      | MemoryAccessType_raw _ \<Rightarrow> base (main_nso_extents md) + rel_address
      | Heap \<Rightarrow> base (heap_extents md) + rel_address
      | Alias \<Rightarrow> base (alias_extents md) + rel_address
      | Aslr \<Rightarrow> base (aslr_extents md) + rel_address)"

definition ResetState :: "DmntCheatVm \<Rightarrow> DmntCheatVm" where
  "ResetState vm =
     vm\<lparr>registers := fill_array NumRegisters 0, saved_values := fill_array NumRegisters 0,
        loop_tops := fill_array NumRegisters 0, instruction_ptr := 0, condition_depth := 0,
        decode_success := True\<rparr>"

section \<open>Loading a program\<close>

fun copy_opcodes :: "u32 list \<Rightarrow> nat \<Rightarrow> nat \<Rightarrow> DmntCheatVm \<Rightarrow> vm_error + DmntCheatVm" where
  "copy_opcodes src n 0 vm = Inr vm"
| "copy_opcodes src n (Suc k) vm =
     (if n < length src \<and> num_opcodes vm < length (program vm) then
        copy_opcodes src (n + 1) k
          (vm\<lparr>program := (program vm)[num_opcodes vm := src ! n], num_opcodes := num_opcodes vm + 1\<rparr>)
      else Inl ArrayIndexOutOfRange)"

fun load_entries :: "CheatEntry list \<Rightarrow> DmntCheatVm \<Rightarrow> vm_error + bool \<times> DmntCheatVm" where
  "load_entries [] vm = Inr (True, vm)"
| "load_entries (e # es) vm =
     (if enabled e then
        (let count = unat (num_opcodes_def (definition_of e)) in
         if count + num_opcodes vm > MaximumProgramOpcodeCount
         then Inr (False, vm\<lparr>num_opcodes := 0\<rparr>)
         else (case copy_opcodes (opcodes (definition_of e)) 0 count vm of
                 Inl err \<Rightarrow> Inl err
               | Inr vm1 \<Rightarrow> load_entries es vm1))
      else load_entries es vm)"

definition LoadProgram :: "CheatEntry list \<Rightarrow> DmntCheatVm \<Rightarrow> vm_error + bool \<times> DmntCheatVm" where
  "LoadProgram entries vm = load_entries entries (vm\<lparr>num_opcodes := 0\<rparr>)"

section \<open>Registers, widths, memory\<close>

abbreviation reg :: "DmntCheatVm \<Rightarrow> u32 \<Rightarrow> u64" where
  "reg vm i \<equiv> registers vm ! unat i"

abbreviation set_reg :: "u32 \<Rightarrow> u64 \<Rightarrow> DmntCheatVm \<Rightarrow> DmntCheatVm" where
  "set_reg i v vm \<equiv> vm\<lparr>registers := (registers vm)[unat i := v]\<rparr>"

definition valid_width :: "u32 \<Rightarrow> bool" where
  "valid_width w \<longleftrightarrow> w = 1 \<or> w = 2 \<or> w = 4 \<or> w = 8"

text \<open>A register read through the mask of an access width, zero for an invalid width.\<close>

definition masked :: "u32 \<Rightarrow> u64 \<Rightarrow> u64" where
  "masked bit_width v =
     (if bit_width = 1 then v AND 0xFF
      else if bit_width = 2 then v AND 0xFFFF
      else if bit_width = 4 then v AND 0xFFFFFFFF
      else if bit_width = 8 then v AND 0xFFFFFFFFFFFFFFFF
      else 0)"

text \<open>\<^verbatim>\<open>Apply bit width\<close>: truncation on a valid width, nothing otherwise.\<close>

definition apply_bit_width :: "u32 \<Rightarrow> u64 \<Rightarrow> u64" where
  "apply_bit_width bit_width v =
     (if bit_width = 1 then ucast (ucast v :: u8)
      else if bit_width = 2 then ucast (ucast v :: u16)
      else if bit_width = 4 then ucast (ucast v :: u32)
      else v)"

definition vm_write :: "'w Callbacks \<Rightarrow> u64 \<Rightarrow> u64 \<Rightarrow> u32 \<Rightarrow> 'w \<Rightarrow> 'w" where
  "vm_write cb address value bit_width w =
     (if valid_width bit_width
      then MemoryWriteUnsafe cb address (le_bytes (unat bit_width) value) w else w)"

text \<open>A read into a 64-bit variable that held \<open>old\<close>: only the first bytes are replaced.\<close>

definition vm_read :: "'w Callbacks \<Rightarrow> u64 \<Rightarrow> u64 \<Rightarrow> u32 \<Rightarrow> 'w \<Rightarrow> u64 \<times> 'w" where
  "vm_read cb address old bit_width w =
     (if valid_width bit_width
      then (let (bytes, w1) = MemoryReadUnsafe cb address (unat bit_width) w in (store_le old bytes, w1))
      else (old, w))"

definition compare :: "ConditionalComparisonType \<Rightarrow> u64 \<Rightarrow> u64 \<Rightarrow> bool" where
  "compare cond_type src_value cond_value =
     (case cond_type of
        GT \<Rightarrow> src_value > cond_value
      | GE \<Rightarrow> src_value \<ge> cond_value
      | LT \<Rightarrow> src_value < cond_value
      | LE \<Rightarrow> src_value \<le> cond_value
      | EQ \<Rightarrow> src_value = cond_value
      | NE \<Rightarrow> src_value \<noteq> cond_value
      | ConditionalComparisonType_raw _ \<Rightarrow> False)"

section \<open>One definition per opcode\<close>

type_synonym 'w exec_result = "vm_error + DmntCheatVm \<times> 'w"

definition skip_unless :: "bool \<Rightarrow> DmntCheatVm \<Rightarrow> 'w \<Rightarrow> 'w exec_result" where
  "skip_unless cond_met vm w =
     (if cond_met then Inr (vm, w)
      else case SkipConditionalBlock True vm of Inl e \<Rightarrow> Inl e | Inr vm1 \<Rightarrow> Inr (vm1, w))"

definition exec_StoreStatic ::
  "'w Callbacks \<Rightarrow> CheatProcessMetadata \<Rightarrow> u32 \<Rightarrow> MemoryAccessType \<Rightarrow> u32 \<Rightarrow> u64 \<Rightarrow> VmInt \<Rightarrow>
   DmntCheatVm \<Rightarrow> 'w \<Rightarrow> 'w exec_result" where
  "exec_StoreStatic cb md bit_width mem_type offset_register rel_address value vm w =
     (let dst_address = GetCheatProcessAddress md mem_type (rel_address + reg vm offset_register);
          dst_value = GetVmInt value bit_width
      in Inr (vm, vm_write cb dst_address dst_value bit_width w))"

definition exec_BeginConditional ::
  "'w Callbacks \<Rightarrow> CheatProcessMetadata \<Rightarrow> u32 \<Rightarrow> MemoryAccessType \<Rightarrow> ConditionalComparisonType \<Rightarrow>
   u64 \<Rightarrow> VmInt \<Rightarrow> DmntCheatVm \<Rightarrow> 'w \<Rightarrow> 'w exec_result" where
  "exec_BeginConditional cb md bit_width mem_type cond_type rel_address value vm w =
     (let src_address = GetCheatProcessAddress md mem_type rel_address;
          (src_value, w1) = vm_read cb src_address 0 bit_width w;
          cond_value = GetVmInt value bit_width
      in skip_unless (compare cond_type src_value cond_value) vm w1)"

definition exec_EndConditional :: "bool \<Rightarrow> DmntCheatVm \<Rightarrow> 'w \<Rightarrow> 'w exec_result" where
  "exec_EndConditional e vm w =
     (if e then (case SkipConditionalBlock False vm of Inl er \<Rightarrow> Inl er | Inr vm1 \<Rightarrow> Inr (vm1, w))
      else Inr (if condition_depth vm > 0 then vm\<lparr>condition_depth := condition_depth vm - 1\<rparr> else vm, w))"

definition exec_ControlLoop :: "bool \<Rightarrow> u32 \<Rightarrow> u32 \<Rightarrow> DmntCheatVm \<Rightarrow> 'w \<Rightarrow> 'w exec_result" where
  "exec_ControlLoop start reg_index iters vm w =
     (if start then
        Inr ((set_reg reg_index (ucast iters) vm)
               \<lparr>loop_tops := (loop_tops vm)[unat reg_index := instruction_ptr vm]\<rparr>, w)
      else
        (let vm1 = set_reg reg_index (reg vm reg_index - 1) vm
         in Inr (if reg vm1 reg_index \<noteq> 0
                 then vm1\<lparr>instruction_ptr := loop_tops vm ! unat reg_index\<rparr> else vm1, w)))"

definition exec_LoadRegisterMemory ::
  "'w Callbacks \<Rightarrow> CheatProcessMetadata \<Rightarrow> u32 \<Rightarrow> MemoryAccessType \<Rightarrow> u32 \<Rightarrow> bool \<Rightarrow> u64 \<Rightarrow>
   DmntCheatVm \<Rightarrow> 'w \<Rightarrow> 'w exec_result" where
  "exec_LoadRegisterMemory cb md bit_width mem_type reg_index from_reg rel_address vm w =
     (let src_address = (if from_reg then reg vm reg_index + rel_address
                         else GetCheatProcessAddress md mem_type rel_address);
          (v, w1) = vm_read cb src_address (reg vm reg_index) bit_width w
      in Inr (set_reg reg_index v vm, w1))"

definition exec_StoreStaticToAddress ::
  "'w Callbacks \<Rightarrow> u32 \<Rightarrow> u32 \<Rightarrow> bool \<Rightarrow> bool \<Rightarrow> u32 \<Rightarrow> u64 \<Rightarrow> DmntCheatVm \<Rightarrow> 'w \<Rightarrow> 'w exec_result" where
  "exec_StoreStaticToAddress cb bit_width reg_index increment add_ofs ofs_index value vm w =
     (let dst_address = reg vm reg_index + (if add_ofs then reg vm ofs_index else 0);
          w1 = vm_write cb dst_address value bit_width w
      in Inr (if increment then set_reg reg_index (reg vm reg_index + ucast bit_width) vm else vm, w1))"

definition static_math :: "RegisterArithmeticType \<Rightarrow> u64 \<Rightarrow> u64 \<Rightarrow> vm_error + u64" where
  "static_math math_type old value =
     (case math_type of
        Addition \<Rightarrow> Inr (old + value)
      | Subtraction \<Rightarrow> Inr (old - value)
      | Multiplication \<Rightarrow> Inr (old * value)
      | LeftShift \<Rightarrow> if value < 64 then Inr (push_bit (unat value) old) else Inl ShiftOutOfRange
      | RightShift \<Rightarrow> if value < 64 then Inr (drop_bit (unat value) old) else Inl ShiftOutOfRange
      | _ \<Rightarrow> Inr old)"

definition exec_PerformArithmeticStatic ::
  "u32 \<Rightarrow> u32 \<Rightarrow> RegisterArithmeticType \<Rightarrow> u32 \<Rightarrow> DmntCheatVm \<Rightarrow> 'w \<Rightarrow> 'w exec_result" where
  "exec_PerformArithmeticStatic bit_width reg_index math_type value vm w =
     (case static_math math_type (reg vm reg_index) (ucast value) of
        Inl e \<Rightarrow> Inl e
      | Inr v \<Rightarrow> Inr (set_reg reg_index (apply_bit_width bit_width v) vm, w))"

definition exec_BeginKeypressConditional :: "u64 \<Rightarrow> u32 \<Rightarrow> DmntCheatVm \<Rightarrow> 'w \<Rightarrow> 'w exec_result" where
  "exec_BeginKeypressConditional kDown mask_of_keys vm w =
     skip_unless (ucast mask_of_keys AND kDown = ucast mask_of_keys) vm w"

definition register_math :: "RegisterArithmeticType \<Rightarrow> u64 \<Rightarrow> u64 \<Rightarrow> vm_error + u64" where
  "register_math math_type operand_1_value operand_2_value =
     (case math_type of
        Addition \<Rightarrow> Inr (operand_1_value + operand_2_value)
      | Subtraction \<Rightarrow> Inr (operand_1_value - operand_2_value)
      | Multiplication \<Rightarrow> Inr (operand_1_value * operand_2_value)
      | LeftShift \<Rightarrow> if operand_2_value < 64 then Inr (push_bit (unat operand_2_value) operand_1_value)
                     else Inl ShiftOutOfRange
      | RightShift \<Rightarrow> if operand_2_value < 64 then Inr (drop_bit (unat operand_2_value) operand_1_value)
                      else Inl ShiftOutOfRange
      | LogicalAnd \<Rightarrow> Inr (operand_1_value AND operand_2_value)
      | LogicalOr \<Rightarrow> Inr (operand_1_value OR operand_2_value)
      | LogicalNot \<Rightarrow> Inr (NOT operand_1_value)
      | LogicalXor \<Rightarrow> Inr (operand_1_value XOR operand_2_value)
      | NoArithmetic \<Rightarrow> Inr operand_1_value
      | RegisterArithmeticType_raw _ \<Rightarrow> Inr 0)"

definition exec_PerformArithmeticRegister ::
  "u32 \<Rightarrow> RegisterArithmeticType \<Rightarrow> u32 \<Rightarrow> u32 \<Rightarrow> u32 \<Rightarrow> bool \<Rightarrow> VmInt \<Rightarrow> DmntCheatVm \<Rightarrow> 'w \<Rightarrow>
   'w exec_result" where
  "exec_PerformArithmeticRegister bit_width math_type dst src1 src2 imm value vm w =
     (case register_math math_type (reg vm src1) (if imm then GetVmInt value bit_width else reg vm src2) of
        Inl e \<Rightarrow> Inl e
      | Inr v \<Rightarrow> Inr (set_reg dst (apply_bit_width bit_width v) vm, w))"

definition store_register_address ::
  "CheatProcessMetadata \<Rightarrow> StoreRegisterOffsetType \<Rightarrow> MemoryAccessType \<Rightarrow> u64 \<Rightarrow> u64 \<Rightarrow> u64 \<Rightarrow> u64" where
  "store_register_address md t mem_type addr_value ofs_value rel_address =
     (case t of
        OfsNone \<Rightarrow> addr_value
      | OfsReg \<Rightarrow> addr_value + ofs_value
      | OfsImm \<Rightarrow> addr_value + rel_address
      | OfsMemReg \<Rightarrow> GetCheatProcessAddress md mem_type addr_value
      | OfsMemImm \<Rightarrow> GetCheatProcessAddress md mem_type rel_address
      | OfsMemImmReg \<Rightarrow> GetCheatProcessAddress md mem_type (addr_value + rel_address)
      | StoreRegisterOffsetType_raw _ \<Rightarrow> addr_value)"

definition exec_StoreRegisterToAddress ::
  "'w Callbacks \<Rightarrow> CheatProcessMetadata \<Rightarrow> u32 \<Rightarrow> u32 \<Rightarrow> u32 \<Rightarrow> bool \<Rightarrow> StoreRegisterOffsetType \<Rightarrow>
   MemoryAccessType \<Rightarrow> u32 \<Rightarrow> u64 \<Rightarrow> DmntCheatVm \<Rightarrow> 'w \<Rightarrow> 'w exec_result" where
  "exec_StoreRegisterToAddress cb md bit_width str_index addr_index increment t mem_type ofs_index
     rel_address vm w =
     (let dst_value = reg vm str_index;
          dst_address = store_register_address md t mem_type (reg vm addr_index) (reg vm ofs_index)
            rel_address;
          w1 = vm_write cb dst_address dst_value bit_width w
      in Inr (if increment then set_reg addr_index (reg vm addr_index + ucast bit_width) vm else vm, w1))"

definition exec_BeginRegisterConditional ::
  "'w Callbacks \<Rightarrow> CheatProcessMetadata \<Rightarrow> u32 \<Rightarrow> ConditionalComparisonType \<Rightarrow> u32 \<Rightarrow>
   CompareRegisterValueType \<Rightarrow> MemoryAccessType \<Rightarrow> u32 \<Rightarrow> u32 \<Rightarrow> u32 \<Rightarrow> u64 \<Rightarrow> VmInt \<Rightarrow>
   DmntCheatVm \<Rightarrow> 'w \<Rightarrow> 'w exec_result" where
  "exec_BeginRegisterConditional cb md bit_width cond_type val_index t mem_type addr_index other_index
     ofs_index rel_address value vm w =
     (let src_value = masked bit_width (reg vm val_index);
          (cond_value, w1) =
            (case t of
               StaticValue \<Rightarrow> (GetVmInt value bit_width, w)
             | OtherRegister \<Rightarrow> (masked bit_width (reg vm other_index), w)
             | MemoryRelAddr \<Rightarrow> vm_read cb (GetCheatProcessAddress md mem_type rel_address) 0 bit_width w
             | MemoryOfsReg \<Rightarrow> vm_read cb (GetCheatProcessAddress md mem_type (reg vm ofs_index)) 0 bit_width w
             | RegisterRelAddr \<Rightarrow> vm_read cb (reg vm addr_index + rel_address) 0 bit_width w
             | RegisterOfsReg \<Rightarrow> vm_read cb (reg vm addr_index + reg vm ofs_index) 0 bit_width w
             | CompareRegisterValueType_raw _ \<Rightarrow> vm_read cb 0 0 bit_width w)
      in skip_unless (compare cond_type src_value cond_value) vm w1)"

definition exec_SaveRestoreRegister ::
  "u32 \<Rightarrow> u32 \<Rightarrow> SaveRestoreRegisterOpType \<Rightarrow> DmntCheatVm \<Rightarrow> 'w \<Rightarrow> 'w exec_result" where
  "exec_SaveRestoreRegister dst src t vm w =
     (case t of
        ClearRegs \<Rightarrow> Inr (set_reg dst 0 vm, w)
      | ClearSaved \<Rightarrow> Inr (vm\<lparr>saved_values := (saved_values vm)[unat dst := 0]\<rparr>, w)
      | Save \<Rightarrow> Inr (vm\<lparr>saved_values := (saved_values vm)[unat dst := reg vm src]\<rparr>, w)
      | _ \<Rightarrow> Inr (set_reg dst (saved_values vm ! unat src) vm, w))"

text \<open>
  The mask form copies or clears, register by register. The C++ loop reads \<^verbatim>\<open>src[i]\<close> and writes
  \<^verbatim>\<open>dst[i]\<close> of two different arrays, so the order of the indices does not matter.
\<close>

definition masked_copy :: "bool list \<Rightarrow> u64 list \<Rightarrow> u64 list \<Rightarrow> u64 list" where
  "masked_copy ops src dst = map (\<lambda>i. if ops ! i then src ! i else dst ! i) [0..<NumRegisters]"

definition exec_SaveRestoreRegisterMask ::
  "SaveRestoreRegisterOpType \<Rightarrow> bool list \<Rightarrow> DmntCheatVm \<Rightarrow> 'w \<Rightarrow> 'w exec_result" where
  "exec_SaveRestoreRegisterMask t ops vm w =
     (let zeros = fill_array NumRegisters 0 in
      case t of
        ClearSaved \<Rightarrow> Inr (vm\<lparr>saved_values := masked_copy ops zeros (saved_values vm)\<rparr>, w)
      | Save \<Rightarrow> Inr (vm\<lparr>saved_values := masked_copy ops (registers vm) (saved_values vm)\<rparr>, w)
      | ClearRegs \<Rightarrow> Inr (vm\<lparr>registers := masked_copy ops zeros (registers vm)\<rparr>, w)
      | _ \<Rightarrow> Inr (vm\<lparr>registers := masked_copy ops (saved_values vm) (registers vm)\<rparr>, w))"

definition exec_ReadWriteStaticRegister :: "u32 \<Rightarrow> u32 \<Rightarrow> DmntCheatVm \<Rightarrow> 'w \<Rightarrow> 'w exec_result" where
  "exec_ReadWriteStaticRegister s i vm w =
     (if unat s < NumReadableStaticRegisters then
        Inr (set_reg i (static_registers vm ! unat s) vm, w)
      else Inr (vm\<lparr>static_registers := (static_registers vm)[unat s := reg vm i]\<rparr>, w))"

definition exec_DebugLog ::
  "'w Callbacks \<Rightarrow> CheatProcessMetadata \<Rightarrow> u32 \<Rightarrow> u32 \<Rightarrow> DebugLogValueType \<Rightarrow> MemoryAccessType \<Rightarrow>
   u32 \<Rightarrow> u32 \<Rightarrow> u32 \<Rightarrow> u64 \<Rightarrow> DmntCheatVm \<Rightarrow> 'w \<Rightarrow> 'w exec_result" where
  "exec_DebugLog cb md bit_width lid t mem_type addr_index val_index ofs_index rel_address vm w =
     (let (log_value, w1) =
            (case t of
               LogRegisterValue \<Rightarrow> (masked bit_width (reg vm val_index), w)
             | LogMemoryRelAddr \<Rightarrow> vm_read cb (GetCheatProcessAddress md mem_type rel_address) 0 bit_width w
             | LogMemoryOfsReg \<Rightarrow> vm_read cb (GetCheatProcessAddress md mem_type (reg vm ofs_index)) 0 bit_width w
             | LogRegisterRelAddr \<Rightarrow> vm_read cb (reg vm addr_index + rel_address) 0 bit_width w
             | LogRegisterOfsReg \<Rightarrow> vm_read cb (reg vm addr_index + reg vm ofs_index) 0 bit_width w
             | DebugLogValueType_raw _ \<Rightarrow> vm_read cb 0 0 bit_width w)
      in Inr (vm, DebugLog cb (ucast lid) log_value w1))"

section \<open>The main loop\<close>

definition exec_opcode ::
  "'w Callbacks \<Rightarrow> CheatProcessMetadata \<Rightarrow> u64 \<Rightarrow> CheatOp \<Rightarrow> DmntCheatVm \<Rightarrow> 'w \<Rightarrow> 'w exec_result" where
  "exec_opcode cb md kDown c vm w =
     (case c of
        StoreStaticOpcode bw m r a v \<Rightarrow> exec_StoreStatic cb md bw m r a v vm w
      | BeginConditionalOpcode bw m ct a v \<Rightarrow> exec_BeginConditional cb md bw m ct a v vm w
      | EndConditionalOpcode e \<Rightarrow> exec_EndConditional e vm w
      | ControlLoopOpcode s r n \<Rightarrow> exec_ControlLoop s r n vm w
      | LoadRegisterStaticOpcode r v \<Rightarrow> Inr (set_reg r v vm, w)
      | LoadRegisterMemoryOpcode bw m r f a \<Rightarrow> exec_LoadRegisterMemory cb md bw m r f a vm w
      | StoreStaticToAddressOpcode bw r i ao o_r v \<Rightarrow> exec_StoreStaticToAddress cb bw r i ao o_r v vm w
      | PerformArithmeticStaticOpcode bw r t v \<Rightarrow> exec_PerformArithmeticStatic bw r t v vm w
      | BeginKeypressConditionalOpcode k \<Rightarrow> exec_BeginKeypressConditional kDown k vm w
      | PerformArithmeticRegisterOpcode bw t d s1 s2 imm v \<Rightarrow>
          exec_PerformArithmeticRegister bw t d s1 s2 imm v vm w
      | StoreRegisterToAddressOpcode bw s r i t m ofs a \<Rightarrow>
          exec_StoreRegisterToAddress cb md bw s r i t m ofs a vm w
      | BeginRegisterConditionalOpcode bw ct s t m ar x o_r a v \<Rightarrow>
          exec_BeginRegisterConditional cb md bw ct s t m ar x o_r a v vm w
      | SaveRestoreRegisterOpcode d s t \<Rightarrow> exec_SaveRestoreRegister d s t vm w
      | SaveRestoreRegisterMaskOpcode t ops \<Rightarrow> exec_SaveRestoreRegisterMask t ops vm w
      | ReadWriteStaticRegisterOpcode s i \<Rightarrow> exec_ReadWriteStaticRegister s i vm w
      | PauseProcessOpcode \<Rightarrow> Inr (vm, PauseProcess cb w)
      | ResumeProcessOpcode \<Rightarrow> Inr (vm, ResumeProcess cb w)
      | DebugLogOpcode bw i t m ar x o_r a \<Rightarrow> exec_DebugLog cb md bw i t m ar x o_r a vm w
      | UnrecognizedInstruction t \<Rightarrow> Inr (vm, w))"

text \<open>One round of the loop: log, count the block, execute.\<close>

definition exec_round ::
  "'w Callbacks \<Rightarrow> CheatProcessMetadata \<Rightarrow> u64 \<Rightarrow> CheatVmOpcode \<Rightarrow> DmntCheatVm \<Rightarrow> 'w \<Rightarrow> 'w exec_result" where
  "exec_round cb md kDown cur_opcode vm w =
     (let w1 = LogOpcode cb cur_opcode (log_lines cb (register_lines vm) w);
          vm1 = (if begin_conditional_block cur_opcode
                 then vm\<lparr>condition_depth := condition_depth vm + 1\<rparr> else vm)
      in exec_opcode cb md kDown (opcode cur_opcode) vm1 w1)"

fun Execute_loop ::
  "nat \<Rightarrow> 'w Callbacks \<Rightarrow> CheatProcessMetadata \<Rightarrow> u64 \<Rightarrow> DmntCheatVm \<Rightarrow> 'w \<Rightarrow> 'w exec_result option" where
  "Execute_loop 0 cb md kDown vm w = None"
| "Execute_loop (Suc fuel) cb md kDown vm w =
     (case DecodeNextOpcode vm of
        (None, vm1) \<Rightarrow> Some (Inr (vm1, w))
      | (Some cur_opcode, vm1) \<Rightarrow>
          (case exec_round cb md kDown cur_opcode vm1 w of
             Inl e \<Rightarrow> Some (Inl e)
           | Inr (vm2, w2) \<Rightarrow> Execute_loop fuel cb md kDown vm2 w2))"

definition Execute ::
  "nat \<Rightarrow> 'w Callbacks \<Rightarrow> CheatProcessMetadata \<Rightarrow> DmntCheatVm \<Rightarrow> 'w \<Rightarrow> 'w exec_result option" where
  "Execute fuel cb md vm w =
     (let (kDown, w1) = HidKeysDown cb w;
          w2 = log_lines cb (start_lines md kDown) w1
      in Execute_loop fuel cb md kDown (ResetState vm) w2)"

text \<open>
  The run after at most \<open>n\<close> rounds, whatever becomes of it later. At a fault the machine has decoded
  the faulting opcode and the host has seen the log lines of the round: only arithmetic and an else
  fault, and neither calls the host before it does (\<open>exec_round_fault_source\<close>).
\<close>

datatype run_status = Running | Finished | Faulted vm_error

fun Execute_rounds ::
  "nat \<Rightarrow> 'w Callbacks \<Rightarrow> CheatProcessMetadata \<Rightarrow> u64 \<Rightarrow> DmntCheatVm \<Rightarrow> 'w \<Rightarrow> run_status \<times> DmntCheatVm \<times> 'w" where
  "Execute_rounds 0 cb md kDown vm w = (Running, vm, w)"
| "Execute_rounds (Suc n) cb md kDown vm w =
     (case DecodeNextOpcode vm of
        (None, vm1) \<Rightarrow> (Finished, vm1, w)
      | (Some cur_opcode, vm1) \<Rightarrow>
          (case exec_round cb md kDown cur_opcode vm1 w of
             Inl e \<Rightarrow> (Faulted e, vm1, LogOpcode cb cur_opcode (log_lines cb (register_lines vm1) w))
           | Inr (vm2, w2) \<Rightarrow> Execute_rounds n cb md kDown vm2 w2))"

definition Execute_upto ::
  "nat \<Rightarrow> 'w Callbacks \<Rightarrow> CheatProcessMetadata \<Rightarrow> DmntCheatVm \<Rightarrow> 'w \<Rightarrow> run_status \<times> DmntCheatVm \<times> 'w" where
  "Execute_upto n cb md vm w =
     (let (kDown, w1) = HidKeysDown cb w;
          w2 = log_lines cb (start_lines md kDown) w1
      in Execute_rounds n cb md kDown (ResetState vm) w2)"

text \<open>The fuelled run is the observed run without the states of unfinished and faulted ones.\<close>

lemma Execute_loop_rounds:
  "Execute_loop n cb md kDown vm w =
    (case Execute_rounds n cb md kDown vm w of
       (Running, _) \<Rightarrow> None | (Finished, v, w') \<Rightarrow> Some (Inr (v, w')) | (Faulted e, _) \<Rightarrow> Some (Inl e))"
  by (induction n arbitrary: vm w) (auto split: prod.split option.split sum.split)

lemma Execute_upto_Execute:
  assumes "Execute_upto n cb md vm w = (st, vm', w')"
  shows "Execute n cb md vm w =
    (case st of Running \<Rightarrow> None | Finished \<Rightarrow> Some (Inr (vm', w')) | Faulted e \<Rightarrow> Some (Inl e))"
  using assms by (auto simp: Execute_def Execute_upto_def Execute_loop_rounds Let_def split: prod.splits)

section \<open>Array indices stay in bounds\<close>

text \<open>Every array index an opcode carries is within the array it indexes.\<close>

fun op_wf :: "CheatOp \<Rightarrow> bool" where
  "op_wf (StoreStaticOpcode bw m r a v) = is_nibble r"
| "op_wf (ControlLoopOpcode s r n) = is_nibble r"
| "op_wf (LoadRegisterStaticOpcode r v) = is_nibble r"
| "op_wf (LoadRegisterMemoryOpcode bw m r f a) = is_nibble r"
| "op_wf (StoreStaticToAddressOpcode bw r i ao o_r v) = (is_nibble r \<and> is_nibble o_r)"
| "op_wf (PerformArithmeticStaticOpcode bw r t v) = is_nibble r"
| "op_wf (PerformArithmeticRegisterOpcode bw t d s1 s2 imm v) =
     (is_nibble d \<and> is_nibble s1 \<and> is_nibble s2)"
| "op_wf (StoreRegisterToAddressOpcode bw s r i t m ofs a) =
     (is_nibble s \<and> is_nibble r \<and> is_nibble ofs)"
| "op_wf (BeginRegisterConditionalOpcode bw ct s t m ar x o_r a v) =
     (is_nibble s \<and> is_nibble ar \<and> is_nibble x \<and> is_nibble o_r)"
| "op_wf (SaveRestoreRegisterOpcode d s t) = (is_nibble d \<and> is_nibble s)"
| "op_wf (SaveRestoreRegisterMaskOpcode t ops) = (length ops = NumRegisters)"
| "op_wf (ReadWriteStaticRegisterOpcode s i) = (unat s < NumStaticRegisters \<and> is_nibble i)"
| "op_wf (DebugLogOpcode bw i t m ar x o_r a) = (is_nibble ar \<and> is_nibble x \<and> is_nibble o_r)"
| "op_wf _ = True"

lemma nibble_index: "is_nibble i \<Longrightarrow> unat i < NumRegisters"
  by (simp add: is_nibble_def NumRegisters_def word_less_nat_alt)

lemma is_nibble_and_15 [simp]: "is_nibble (w AND 0xF)"
  by (simp add: and_15_eq_nibble_at)

lemma is_nibble_0 [simp]: "is_nibble 0"
  by (simp add: is_nibble_def)

lemma byte_index: "unat ((w :: u32) AND 0xFF) < NumStaticRegisters"
proof -
  have "w AND 0xFF \<le> 0xFF" by (rule word_and_le1)
  then show ?thesis by (simp add: cheat_vm_sizes word_le_nat_alt)
qed

lemma decode_body_op_wf: "op_wf (fst (decode_body t w vm valid))"
  by (cases t)
     (auto simp: decode_body_def decode_StoreStatic_def decode_BeginConditional_def
      decode_EndConditional_def decode_ControlLoop_def decode_LoadRegisterStatic_def
      decode_LoadRegisterMemory_def decode_StoreStaticToAddress_def decode_PerformArithmeticStatic_def
      decode_BeginKeypressConditional_def decode_PerformArithmeticRegister_def
      decode_StoreRegisterToAddress_def decode_BeginRegisterConditional_def
      decode_SaveRestoreRegister_def decode_SaveRestoreRegisterMask_def
      decode_ReadWriteStaticRegister_def decode_DebugLog_def Let_def byte_index
      split: prod.split StoreRegisterOffsetType.split CompareRegisterValueType.split
        DebugLogValueType.split)

lemma DecodeNextOpcode_op_wf: "DecodeNextOpcode vm = (Some oper, vm') \<Longrightarrow> op_wf (opcode oper)"
  by (erule DecodeNextOpcode_SomeE) (metis decode_body_op_wf fst_conv)

section \<open>Every instruction keeps the machine well-formed\<close>

lemma set_reg_wf [wf_intros]: "vm_wf vm \<Longrightarrow> vm_wf (set_reg i v vm)"
  by (simp add: vm_wf_def)

lemma SkipConditionalBlock_wf [wf_intros]:
  "vm_wf vm \<Longrightarrow> SkipConditionalBlock b vm = Inr vm' \<Longrightarrow> vm_wf vm'"
  by (auto simp: SkipConditionalBlock_def skip_loop_wf split: if_splits)

lemma skip_unless_wf [wf_intros]: "vm_wf vm \<Longrightarrow> skip_unless b vm w = Inr (vm', w') \<Longrightarrow> vm_wf vm'"
  by (auto simp: skip_unless_def intro: SkipConditionalBlock_wf split: if_splits sum.splits)

lemma vm_wf_loop_top: "vm_wf vm \<Longrightarrow> is_nibble i \<Longrightarrow> loop_tops vm ! unat i \<le> num_opcodes vm"
  using nibble_index [of i] by (simp add: vm_wf_def list_all_length)

lemma exec_ControlLoop_wf [wf_intros]:
  assumes "vm_wf vm" "is_nibble r" "exec_ControlLoop s r n vm w = Inr (vm', w')"
  shows "vm_wf vm'"
proof -
  have "list_all (\<lambda>t. t \<le> num_opcodes vm) ((loop_tops vm)[unat r := instruction_ptr vm])"
    using assms(1) by (auto simp: vm_wf_def list_all_iff dest!: set_update_subset_insert [THEN subsetD])
  with assms vm_wf_loop_top [OF assms(1,2)] show ?thesis
    by (auto simp: exec_ControlLoop_def vm_wf_def Let_def split: if_splits)
qed

lemma vm_wf_update_registers [simp]:
  "length rs = NumRegisters \<Longrightarrow> vm_wf vm \<Longrightarrow> vm_wf (vm\<lparr>registers := rs\<rparr>)"
  "length rs = NumRegisters \<Longrightarrow> vm_wf vm \<Longrightarrow> vm_wf (vm\<lparr>saved_values := rs\<rparr>)"
  "length rs = NumStaticRegisters \<Longrightarrow> vm_wf vm \<Longrightarrow> vm_wf (vm\<lparr>static_registers := rs\<rparr>)"
  by (simp_all add: vm_wf_def)

lemma vm_wf_lengths:
  "vm_wf vm \<Longrightarrow> length (registers vm) = NumRegisters"
  "vm_wf vm \<Longrightarrow> length (saved_values vm) = NumRegisters"
  "vm_wf vm \<Longrightarrow> length (static_registers vm) = NumStaticRegisters"
  by (simp_all add: vm_wf_def)

lemma exec_memory_wf:
  assumes "vm_wf vm"
  shows "exec_StoreStatic cb md bw m r a v vm w = Inr (vm', w') \<Longrightarrow> vm_wf vm'"
    "exec_LoadRegisterMemory cb md bw m r f a vm w = Inr (vm', w') \<Longrightarrow> vm_wf vm'"
    "exec_StoreStaticToAddress cb bw r i ao o_r v vm w = Inr (vm', w') \<Longrightarrow> vm_wf vm'"
    "exec_StoreRegisterToAddress cb md bw r r2 i t m o_r a vm w = Inr (vm', w') \<Longrightarrow> vm_wf vm'"
    "exec_DebugLog cb md bw lid dt m r r2 o_r a vm w = Inr (vm', w') \<Longrightarrow> vm_wf vm'"
  using assms vm_wf_lengths [OF assms]
  by (auto simp: exec_StoreStatic_def exec_LoadRegisterMemory_def exec_StoreStaticToAddress_def
      exec_StoreRegisterToAddress_def exec_DebugLog_def Let_def split: prod.splits if_splits)

lemma exec_conditional_wf:
  assumes "vm_wf vm"
  shows "exec_BeginConditional cb md bw m ct a v vm w = Inr (vm', w') \<Longrightarrow> vm_wf vm'"
    "exec_EndConditional e vm w = Inr (vm', w') \<Longrightarrow> vm_wf vm'"
    "exec_BeginKeypressConditional kDown k vm w = Inr (vm', w') \<Longrightarrow> vm_wf vm'"
    "exec_BeginRegisterConditional cb md bw ct s t m ar x o_r a v vm w = Inr (vm', w') \<Longrightarrow> vm_wf vm'"
  using assms SkipConditionalBlock_wf [OF assms] skip_unless_wf [OF assms]
  by (auto simp: exec_BeginConditional_def exec_EndConditional_def exec_BeginKeypressConditional_def
      exec_BeginRegisterConditional_def Let_def split: prod.splits if_splits sum.splits)

lemma exec_arithmetic_wf:
  assumes "vm_wf vm"
  shows "exec_PerformArithmeticStatic bw r t k vm w = Inr (vm', w') \<Longrightarrow> vm_wf vm'"
    "exec_PerformArithmeticRegister bw t d s1 s2 imm v vm w = Inr (vm', w') \<Longrightarrow> vm_wf vm'"
  using assms vm_wf_lengths [OF assms]
  by (auto simp: exec_PerformArithmeticStatic_def exec_PerformArithmeticRegister_def
      split: sum.splits)

lemma exec_save_restore_wf:
  assumes "vm_wf vm"
  shows "exec_SaveRestoreRegister d s t vm w = Inr (vm', w') \<Longrightarrow> vm_wf vm'"
    "exec_SaveRestoreRegisterMask t ops vm w = Inr (vm', w') \<Longrightarrow> vm_wf vm'"
    "exec_ReadWriteStaticRegister d s vm w = Inr (vm', w') \<Longrightarrow> vm_wf vm'"
  using assms vm_wf_lengths [OF assms]
  by (auto simp: exec_SaveRestoreRegister_def exec_SaveRestoreRegisterMask_def masked_copy_def
      exec_ReadWriteStaticRegister_def Let_def split: SaveRestoreRegisterOpType.splits if_splits)

lemma exec_opcode_wf [wf_intros]:
  assumes wf: "vm_wf vm" and c: "op_wf c" and ex: "exec_opcode cb md kDown c vm w = Inr (vm', w')"
  shows "vm_wf vm'"
  using ex c exec_memory_wf [OF wf] exec_conditional_wf [OF wf] exec_arithmetic_wf [OF wf]
    exec_save_restore_wf [OF wf] exec_ControlLoop_wf [OF wf] wf vm_wf_lengths [OF wf]
  unfolding exec_opcode_def by (cases c) (simp_all, auto)

lemma exec_round_wf [wf_intros]:
  "vm_wf vm \<Longrightarrow> op_wf (opcode oper) \<Longrightarrow> exec_round cb md kDown oper vm w = Inr (vm', w') \<Longrightarrow> vm_wf vm'"
  unfolding exec_round_def Let_def
  by (rule exec_opcode_wf [where vm = "if begin_conditional_block oper then _ else vm"]) auto

lemma Execute_rounds_wf [wf_intros]:
  "vm_wf vm \<Longrightarrow> Execute_rounds n cb md kDown vm w = (st, vm', w') \<Longrightarrow> vm_wf vm'"
proof (induction n arbitrary: vm w)
  case 0
  then show ?case by simp
next
  case (Suc n)
  obtain r vm1 where dec: "DecodeNextOpcode vm = (r, vm1)" by (cases "DecodeNextOpcode vm")
  with Suc.prems(1) have wf1: "vm_wf vm1" by (rule DecodeNextOpcode_wf)
  show ?case
  proof (cases r)
    case None
    with Suc.prems dec wf1 show ?thesis by simp
  next
    case (Some oper)
    then have op: "op_wf (opcode oper)" using dec by (simp add: DecodeNextOpcode_op_wf)
    show ?thesis
    proof (cases "exec_round cb md kDown oper vm1 w")
      case (Inl e)
      with Suc.prems dec Some wf1 show ?thesis by simp
    next
      case (Inr p)
      obtain vm2 w2 where p: "p = (vm2, w2)" by (cases p)
      have "vm_wf vm2" using wf1 op Inr p by (blast intro: exec_round_wf)
      moreover have "Execute_rounds n cb md kDown vm2 w2 = (st, vm', w')"
        using Suc.prems(2) dec Some Inr p by simp
      ultimately show ?thesis by (rule Suc.IH)
    qed
  qed
qed

lemma ResetState_wf [wf_intros]: "vm_wf vm \<Longrightarrow> vm_wf (ResetState vm)"
  by (simp add: vm_wf_def ResetState_def list_all_length)

end
