(* ===== verification/CheatVm_Blocks.thy ===== *)
theory CheatVm_Blocks
  imports CheatVm_Encoding CheatVm_Exec
begin

text \<open>
  Conditional blocks: what \<^verbatim>\<open>SkipConditionalBlock\<close> does on properly nested code. The reference is
  the grammar of nested blocks, an inductive predicate on opcode sequences; the result is that the
  skipper lands right behind the matching else or end, whatever the block contains.
\<close>

abbreviation EndBlock :: CheatOp where
  "EndBlock \<equiv> EndConditionalOpcode False"

abbreviation ElseBlock :: CheatOp where
  "ElseBlock \<equiv> EndConditionalOpcode True"

inductive balanced :: "CheatOp list \<Rightarrow> bool" where
  balanced_Nil: "balanced []"
| balanced_plain: "\<not> starts_block c \<Longrightarrow> end_marker c = None \<Longrightarrow> balanced cs \<Longrightarrow> balanced (c # cs)"
| balanced_if: "starts_block c \<Longrightarrow> balanced th \<Longrightarrow> balanced cs \<Longrightarrow>
     balanced (c # th @ EndBlock # cs)"
| balanced_if_else: "starts_block c \<Longrightarrow> balanced th \<Longrightarrow> balanced el \<Longrightarrow> balanced cs \<Longrightarrow>
     balanced (c # th @ ElseBlock # el @ EndBlock # cs)"

definition encode_all :: "CheatOp list \<Rightarrow> u32 list" where
  "encode_all cs = concat (map encode cs)"

lemma encode_all_simps [simp]:
  "encode_all [] = []" "encode_all (c # cs) = encode c @ encode_all cs"
  "encode_all (cs @ ds) = encode_all cs @ encode_all ds"
  by (simp_all add: encode_all_def)

lemma reads_append:
  "reads vm (xs @ ys) \<longleftrightarrow> reads vm xs \<and> reads (advance (length xs) vm) ys"
proof (induction xs arbitrary: vm)
  case Nil
  then show ?case by (auto simp: reads_def)
next
  case (Cons x xs)
  show ?case using Cons.IH [of "advance 1 vm"] by (simp add: add.assoc)
qed

lemma advance_advance:
  "advance n (advance m vm) = advance (m + n) vm"
  by simp

lemma end_marker_simps [simp]:
  "end_marker (EndConditionalOpcode e) = Some e" "starts_block (EndConditionalOpcode e) = False"
  by (simp_all add: end_marker_def starts_block_def)

text \<open>One decoded opcode of encoded code, as the skipper sees it.\<close>

lemma skip_loop_encoded:
  assumes "encodable c" "reads vm (encode c @ ws)" "decode_success vm" "condition_depth vm > d"
  shows "skip_loop b d vm =
    (let vm1 = advance (length (encode c)) vm in
     if starts_block c then skip_loop b d (vm1\<lparr>condition_depth := condition_depth vm + 1\<rparr>)
     else if end_marker c = Some False
     then skip_loop b d (vm1\<lparr>condition_depth := condition_depth vm - 1\<rparr>)
     else if end_marker c = Some True \<and> b \<and> condition_depth vm - 1 = d then vm1
     else skip_loop b d vm1)"
proof -
  from assms(2) have "reads vm (encode c)" by (simp add: reads_append)
  from skip_loop_decoded [OF DecodeNextOpcode_encoded [OF assms(1) this assms(3)] assms(4)]
  show ?thesis by (simp add: Let_def)
qed

abbreviation at_depth :: "nat \<Rightarrow> nat \<Rightarrow> DmntCheatVm \<Rightarrow> DmntCheatVm" where
  "at_depth n k vm \<equiv> vm\<lparr>instruction_ptr := instruction_ptr vm + n, condition_depth := k\<rparr>"

lemma ip_depth_commute [simp]:
  "(vm :: DmntCheatVm)\<lparr>condition_depth := k, instruction_ptr := p\<rparr> =
   vm\<lparr>instruction_ptr := p, condition_depth := k\<rparr>"
  by simp

lemma skip_loop_encoded_at:
  assumes "encodable c" "reads (at_depth n k vm) (encode c @ ws)" "decode_success vm" "k > d"
  shows "skip_loop b d (at_depth n k vm) =
    (if starts_block c then skip_loop b d (at_depth (n + length (encode c)) (k + 1) vm)
     else if end_marker c = Some False then skip_loop b d (at_depth (n + length (encode c)) (k - 1) vm)
     else if end_marker c = Some True \<and> b \<and> k - 1 = d then at_depth (n + length (encode c)) k vm
     else skip_loop b d (at_depth (n + length (encode c)) k vm))"
  using skip_loop_encoded [of c "at_depth n k vm" ws d b] assms by (simp add: Let_def add.assoc)

lemma reads_at_depth [simp]:
  "reads (vm\<lparr>instruction_ptr := p, condition_depth := k\<rparr>) ws = reads (vm\<lparr>instruction_ptr := p\<rparr>) ws"
  by (simp add: reads_def)

lemma skip_begin:
  assumes "encodable c" "starts_block c" "reads (advance n vm) (encode c)" "decode_success vm" "k > d"
  shows "skip_loop b d (at_depth n k vm) = skip_loop b d (at_depth (n + length (encode c)) (k + 1) vm)"
  using assms skip_loop_encoded_at [where c = c and ws = "[]" and n = n and k = k] by simp

lemma skip_end:
  assumes "reads (advance n vm) (encode EndBlock)" "decode_success vm" "k > d"
  shows "skip_loop b d (at_depth n k vm) =
    skip_loop b d (at_depth (n + length (encode EndBlock)) (k - 1) vm)"
  using assms skip_loop_encoded_at [where c = EndBlock and ws = "[]" and n = n and k = k]
  by (simp del: encode.simps)

lemma skip_else:
  assumes "reads (advance n vm) (encode ElseBlock)" "decode_success vm" "k > d"
  shows "skip_loop b d (at_depth n k vm) =
    (if b \<and> k - 1 = d then at_depth (n + length (encode ElseBlock)) k vm
     else skip_loop b d (at_depth (n + length (encode ElseBlock)) k vm))"
  using assms skip_loop_encoded_at [where c = ElseBlock and ws = "[]" and n = n and k = k]
  by (simp del: encode.simps)

text \<open>Balanced code is skipped as a whole, at any depth above the one aimed for.\<close>

lemma skip_balanced:
  assumes "balanced cs" "list_all encodable cs" "decode_success vm" "k > d"
    "reads (advance n vm) (encode_all cs)"
  shows "skip_loop b d (at_depth n k vm) = skip_loop b d (at_depth (n + length (encode_all cs)) k vm)"
  using assms
proof (induction cs arbitrary: n k rule: balanced.induct)
  case balanced_Nil
  then show ?case by simp
next
  case (balanced_plain c cs)
  then show ?case
    using skip_loop_encoded_at [where c = c and n = n and k = k and vm = vm and d = d and b = b
        and ws = "[]"] balanced_plain.IH [where k = k and n = "n + length (encode c)"]
    by (simp add: reads_append add.assoc)
next
  case (balanced_if c th cs)
  let ?n1 = "n + length (encode c)"
  let ?n2 = "?n1 + length (encode_all th)"
  let ?n3 = "?n2 + length (encode EndBlock)"
  note r = balanced_if.prems [simplified reads_append encode_all_simps advance_advance]
  have "skip_loop b d (at_depth n k vm) = skip_loop b d (at_depth ?n1 (k + 1) vm)"
    by (rule skip_begin) (use balanced_if.hyps r in auto)
  also have "\<dots> = skip_loop b d (at_depth ?n2 (k + 1) vm)"
    by (rule balanced_if.IH(1)) (use r in \<open>auto simp: add.assoc\<close>)
  also have "\<dots> = skip_loop b d (at_depth ?n3 (k + 1 - 1) vm)"
    by (rule skip_end) (use r in \<open>auto simp: add.assoc simp del: encode.simps\<close>)
  also have "\<dots> = skip_loop b d (at_depth (?n3 + length (encode_all cs)) k vm)"
    unfolding add_diff_cancel_right' by (rule balanced_if.IH(2)) (use r in \<open>auto simp: add.assoc\<close>)
  finally show ?case by (simp add: add.assoc)
next
  case (balanced_if_else c th el cs)
  let ?n1 = "n + length (encode c)"
  let ?n2 = "?n1 + length (encode_all th)"
  let ?n3 = "?n2 + length (encode ElseBlock)"
  let ?n4 = "?n3 + length (encode_all el)"
  let ?n5 = "?n4 + length (encode EndBlock)"
  note r = balanced_if_else.prems [simplified reads_append encode_all_simps advance_advance]
  have "skip_loop b d (at_depth n k vm) = skip_loop b d (at_depth ?n1 (k + 1) vm)"
    by (rule skip_begin) (use balanced_if_else.hyps r in auto)
  also have "\<dots> = skip_loop b d (at_depth ?n2 (k + 1) vm)"
    by (rule balanced_if_else.IH(1)) (use r in \<open>auto simp: add.assoc\<close>)
  also have "\<dots> = skip_loop b d (at_depth ?n3 (k + 1) vm)"
    by (subst skip_else) (use r in \<open>auto simp: add.assoc simp del: encode.simps\<close>)
  also have "\<dots> = skip_loop b d (at_depth ?n4 (k + 1) vm)"
    by (rule balanced_if_else.IH(2)) (use r in \<open>auto simp: add.assoc\<close>)
  also have "\<dots> = skip_loop b d (at_depth ?n5 (k + 1 - 1) vm)"
    by (rule skip_end) (use r in \<open>auto simp: add.assoc simp del: encode.simps\<close>)
  also have "\<dots> = skip_loop b d (at_depth (?n5 + length (encode_all cs)) k vm)"
    unfolding add_diff_cancel_right' by (rule balanced_if_else.IH(3)) (use r in \<open>auto simp: add.assoc\<close>)
  finally show ?case by (simp add: add.assoc)
qed

section \<open>Properties of the decoder and the skipper\<close>


definition demo_vm :: "CheatOp list \<Rightarrow> nat \<Rightarrow> DmntCheatVm" where
  "demo_vm cs depth = initial_vm
     \<lparr>program := encode_all cs, num_opcodes := length (encode_all cs), decode_success := True,
      condition_depth := depth\<rparr>"

lemma reads_demo_vm: "reads (demo_vm cs d) (encode_all cs)"
  by (simp add: reads_def demo_vm_def initial_vm_def)


text \<open>
  C30. A condition that fails inside a block without an else: from the first instruction of a
  properly nested block body, \<^verbatim>\<open>SkipConditionalBlock\<close> (for a failed condition and for an else
  alike) stops right behind the matching end and closes exactly one level of nesting, however many
  blocks with or without else the body contains.
\<close>

theorem SkipConditionalBlock_to_end:
  assumes "balanced cs" "list_all encodable cs" "decode_success vm" "condition_depth vm = Suc d"
    and "reads vm (encode_all cs @ encode EndBlock)"
  shows "SkipConditionalBlock is_if vm =
    Inr (vm\<lparr>instruction_ptr := instruction_ptr vm + length (encode_all cs) + 1, condition_depth := d\<rparr>)"
proof -
  have vm0: "vm\<lparr>condition_depth := Suc d\<rparr> = vm"
    "vm\<lparr>instruction_ptr := p, condition_depth := Suc d\<rparr> = vm\<lparr>instruction_ptr := p\<rparr>" for p
    using assms(4) by (cases vm; simp)+
  let ?n = "length (encode_all cs)"
  have r: "reads (advance 0 vm) (encode_all cs)" "reads (advance ?n vm) (encode EndBlock)"
    using assms(5) by (simp_all add: reads_append del: encode.simps)
  have "skip_loop is_if d (at_depth 0 (Suc d) vm) = skip_loop is_if d (at_depth (0 + ?n) (Suc d) vm)"
    using assms(1-3) r(1) by (intro skip_balanced) simp_all
  also have "\<dots> = skip_loop is_if d (at_depth (?n + length (encode EndBlock)) (Suc d - 1) vm)"
    unfolding add_0 by (rule skip_end) (use assms(3) r(2) in \<open>simp_all del: encode.simps\<close>)
  also have "\<dots> = at_depth (?n + 1) d vm"
    by (simp add: skip_loop_stop)
  finally show ?thesis
    using assms(4) by (simp add: SkipConditionalBlock_def add.assoc vm0)
qed

text \<open>
  C31. A condition that fails in a block with an else: the skipper stops right behind the matching
  else, still inside the block, so that the else branch is executed next.
\<close>

theorem SkipConditionalBlock_to_else:
  assumes "balanced cs" "list_all encodable cs" "decode_success vm" "condition_depth vm = Suc d"
    and "reads vm (encode_all cs @ encode ElseBlock)"
  shows "SkipConditionalBlock True vm =
    Inr (vm\<lparr>instruction_ptr := instruction_ptr vm + length (encode_all cs) + 1\<rparr>)"
proof -
  have vm0: "vm\<lparr>condition_depth := Suc d\<rparr> = vm"
    "vm\<lparr>instruction_ptr := p, condition_depth := Suc d\<rparr> = vm\<lparr>instruction_ptr := p\<rparr>" for p
    using assms(4) by (cases vm; simp)+
  let ?n = "length (encode_all cs)"
  have r: "reads (advance 0 vm) (encode_all cs)" "reads (advance ?n vm) (encode ElseBlock)"
    using assms(5) by (simp_all add: reads_append del: encode.simps)
  have "skip_loop True d (at_depth 0 (Suc d) vm) = skip_loop True d (at_depth (0 + ?n) (Suc d) vm)"
    using assms(1-3) r(1) by (intro skip_balanced) simp_all
  also have "\<dots> = at_depth (?n + 1) (Suc d) vm"
    unfolding add_0 by (subst skip_else) (use assms(3) r(2) in \<open>simp_all del: encode.simps(3)\<close>, simp)
  finally show ?thesis
    using assms(4) by (simp add: SkipConditionalBlock_def add.assoc vm0)
qed

definition demo_body :: "CheatOp list" where
  "demo_body = [PauseProcessOpcode, BeginKeypressConditionalOpcode 1, PauseProcessOpcode, ElseBlock,
     ResumeProcessOpcode, EndBlock, LoadRegisterStaticOpcode 2 0x20000000]"

lemma demo_body_balanced: "balanced demo_body"
proof -
  have p: "balanced [PauseProcessOpcode]" "balanced [ResumeProcessOpcode]"
    "balanced [LoadRegisterStaticOpcode 2 0x20000000]"
    by (auto intro!: balanced.intros simp: starts_block_def end_marker_def)
  have "balanced (BeginKeypressConditionalOpcode 1 # [PauseProcessOpcode] @ ElseBlock #
      [ResumeProcessOpcode] @ EndBlock # [LoadRegisterStaticOpcode 2 0x20000000])"
    by (rule balanced_if_else) (simp_all add: p starts_block_def)
  then have "balanced (PauseProcessOpcode # BeginKeypressConditionalOpcode 1 # [PauseProcessOpcode] @
      ElseBlock # [ResumeProcessOpcode] @ EndBlock # [LoadRegisterStaticOpcode 2 0x20000000])"
    by (rule balanced_plain [rotated 2]) (simp_all add: starts_block_def end_marker_def)
  then show ?thesis by (simp add: demo_body_def)
qed

lemma demo_body_encodable: "list_all encodable demo_body"
  by (simp add: demo_body_def)

theorem SkipConditionalBlock_to_end_witness:
  "SkipConditionalBlock True (demo_vm (demo_body @ [EndBlock]) 1) =
     Inr ((demo_vm (demo_body @ [EndBlock]) 1)\<lparr>instruction_ptr := 10, condition_depth := 0\<rparr>)"
proof -
  let ?vm = "demo_vm (demo_body @ [EndBlock]) 1"
  have f: "decode_success ?vm" "condition_depth ?vm = Suc 0" "instruction_ptr ?vm = 0"
    by (simp_all add: demo_vm_def initial_vm_def)
  have r: "reads ?vm (encode_all demo_body @ encode EndBlock)"
    using reads_demo_vm [of "demo_body @ [EndBlock]" 1] by (simp del: encode.simps)
  show ?thesis
    using SkipConditionalBlock_to_end [OF demo_body_balanced demo_body_encodable f(1,2) r] f(3)
    by (simp add: demo_body_def)
qed

theorem SkipConditionalBlock_to_else_witness:
  "SkipConditionalBlock True (demo_vm (demo_body @ [ElseBlock]) 1) =
     Inr ((demo_vm (demo_body @ [ElseBlock]) 1)\<lparr>instruction_ptr := 10\<rparr>)"
proof -
  let ?vm = "demo_vm (demo_body @ [ElseBlock]) 1"
  have f: "decode_success ?vm" "condition_depth ?vm = Suc 0" "instruction_ptr ?vm = 0"
    by (simp_all add: demo_vm_def initial_vm_def)
  have r: "reads ?vm (encode_all demo_body @ encode ElseBlock)"
    using reads_demo_vm [of "demo_body @ [ElseBlock]" 1] by (simp del: encode.simps)
  show ?thesis
    using SkipConditionalBlock_to_else [OF demo_body_balanced demo_body_encodable f(1,2) r] f(3)
    by (simp add: demo_body_def)
qed

end
