(* ===== verification/CheatVm_Run.thy ===== *)
theory CheatVm_Run
  imports CheatVm_Blocks
begin

text \<open>
  Whole runs of the cheat machine: the type invariant over \<^verbatim>\<open>Execute\<close>, termination of cheats
  without loop ends, where the fatal error of the block skipper comes from, and what
  \<^verbatim>\<open>LoadProgram\<close> puts into the program buffer.
\<close>

section \<open>What an instruction leaves alone\<close>

definition same_code :: "DmntCheatVm \<Rightarrow> DmntCheatVm \<Rightarrow> bool" where
  "same_code vm vm' \<longleftrightarrow> program vm' = program vm \<and> num_opcodes vm' = num_opcodes vm"

text \<open>Straight execution: the code is untouched and the pointer does not move back.\<close>

definition onward :: "DmntCheatVm \<Rightarrow> DmntCheatVm \<Rightarrow> bool" where
  "onward vm vm' \<longleftrightarrow> same_code vm vm' \<and> instruction_ptr vm \<le> instruction_ptr vm'"

lemma onward_refl [simp]: "onward vm vm"
  by (simp add: onward_def same_code_def)

lemma onward_trans: "onward vm vm1 \<Longrightarrow> onward vm1 vm2 \<Longrightarrow> onward vm vm2"
  by (auto simp: onward_def same_code_def)

lemma onward_updates [simp]:
  "onward vm (vm'\<lparr>registers := rs\<rparr>) = onward vm vm'"
  "onward vm (vm'\<lparr>saved_values := rs\<rparr>) = onward vm vm'"
  "onward vm (vm'\<lparr>static_registers := rs\<rparr>) = onward vm vm'"
  "onward vm (vm'\<lparr>condition_depth := d\<rparr>) = onward vm vm'"
  "onward vm (vm'\<lparr>decode_success := b\<rparr>) = onward vm vm'"
  "onward vm (vm'\<lparr>loop_tops := ts\<rparr>) = onward vm vm'"
  "onward (vm\<lparr>condition_depth := d\<rparr>) vm' = onward vm vm'"
  by (simp_all add: onward_def same_code_def)

lemma ip_step_onward: "ip_step vm vm' \<Longrightarrow> onward vm vm'"
  by (auto simp: ip_step_def onward_def same_code_def)

lemma DecodeNextOpcode_onward:
  assumes "DecodeNextOpcode vm = (r, vm')" "instruction_ptr vm \<le> num_opcodes vm"
  shows "onward vm vm'"
proof (cases r)
  case None
  with assms DecodeNextOpcode_None [of vm vm'] show ?thesis by (auto intro: ip_step_onward)
next
  case (Some oper)
  with assms DecodeNextOpcode_Some(1) [of vm oper vm'] show ?thesis by (auto intro: ip_step_onward)
qed

lemma vm_wf_ip: "vm_wf vm \<Longrightarrow> instruction_ptr vm \<le> num_opcodes vm"
  by (simp add: vm_wf_def)

lemma skip_loop_onward:
  assumes "vm_wf vm"
  shows "onward vm (skip_loop b d vm)"
proof -
  have "vm_wf vm \<and> onward vm vm" using assms by simp
  then show ?thesis
  proof (rule skip_loop_rule [where P = "\<lambda>v. vm_wf v \<and> onward vm v"])
    fix v v1 :: DmntCheatVm and oper n
    assume v: "vm_wf v \<and> onward vm v" and dec: "DecodeNextOpcode v = (Some oper, v1)"
    then have "vm_wf v1" "onward v v1"
      by (auto intro: DecodeNextOpcode_wf DecodeNextOpcode_onward vm_wf_ip)
    with v show "vm_wf (v1\<lparr>condition_depth := n\<rparr>) \<and> onward vm (v1\<lparr>condition_depth := n\<rparr>)" "onward vm v1"
      by (auto intro: onward_trans)
  next
    fix v v1 :: DmntCheatVm
    assume v: "vm_wf v \<and> onward vm v" and dec: "DecodeNextOpcode v = (None, v1)"
    then have "onward v v1"
      by (auto intro: DecodeNextOpcode_onward vm_wf_ip)
    with v show "onward vm v1" by (auto intro: onward_trans)
  qed auto
qed

lemma SkipConditionalBlock_onward:
  "vm_wf vm \<Longrightarrow> SkipConditionalBlock b vm = Inr vm' \<Longrightarrow> onward vm vm'"
  by (auto simp: SkipConditionalBlock_def skip_loop_onward split: if_splits)

lemma skip_unless_onward: "vm_wf vm \<Longrightarrow> skip_unless b vm w = Inr (vm', w') \<Longrightarrow> onward vm vm'"
  by (auto simp: skip_unless_def SkipConditionalBlock_onward split: if_splits sum.splits)

lemma exec_onward_data:
  shows "exec_StoreStatic cb md bw m r a v vm w = Inr (vm', w') \<Longrightarrow> onward vm vm'"
    "exec_LoadRegisterMemory cb md bw m r f a vm w = Inr (vm', w') \<Longrightarrow> onward vm vm'"
    "exec_StoreStaticToAddress cb bw r i ao o_r v vm w = Inr (vm', w') \<Longrightarrow> onward vm vm'"
    "exec_StoreRegisterToAddress cb md bw r r2 i t m o_r a vm w = Inr (vm', w') \<Longrightarrow> onward vm vm'"
    "exec_DebugLog cb md bw lid dt m r r2 o_r a vm w = Inr (vm', w') \<Longrightarrow> onward vm vm'"
    "exec_PerformArithmeticStatic bw r mt k vm w = Inr (vm', w') \<Longrightarrow> onward vm vm'"
    "exec_PerformArithmeticRegister bw mt r r2 s2 imm v vm w = Inr (vm', w') \<Longrightarrow> onward vm vm'"
    "exec_SaveRestoreRegister r r2 st vm w = Inr (vm', w') \<Longrightarrow> onward vm vm'"
    "exec_SaveRestoreRegisterMask st ops vm w = Inr (vm', w') \<Longrightarrow> onward vm vm'"
    "exec_ReadWriteStaticRegister r r2 vm w = Inr (vm', w') \<Longrightarrow> onward vm vm'"
    "exec_ControlLoop True r k vm w = Inr (vm', w') \<Longrightarrow> onward vm vm'"
  by (auto simp: exec_StoreStatic_def exec_LoadRegisterMemory_def exec_StoreStaticToAddress_def
      exec_StoreRegisterToAddress_def exec_DebugLog_def exec_PerformArithmeticStatic_def
      exec_PerformArithmeticRegister_def exec_SaveRestoreRegister_def exec_SaveRestoreRegisterMask_def
      exec_ReadWriteStaticRegister_def exec_ControlLoop_def Let_def
      split: prod.splits if_splits sum.splits SaveRestoreRegisterOpType.splits)

lemma exec_onward_blocks:
  assumes "vm_wf vm"
  shows "exec_BeginConditional cb md bw m ct a v vm w = Inr (vm', w') \<Longrightarrow> onward vm vm'"
    "exec_EndConditional e vm w = Inr (vm', w') \<Longrightarrow> onward vm vm'"
    "exec_BeginKeypressConditional kDown k vm w = Inr (vm', w') \<Longrightarrow> onward vm vm'"
    "exec_BeginRegisterConditional cb md bw ct s t m ar x o_r a v vm w = Inr (vm', w') \<Longrightarrow> onward vm vm'"
  using SkipConditionalBlock_onward [OF assms] skip_unless_onward [OF assms]
  by (auto simp: exec_BeginConditional_def exec_EndConditional_def exec_BeginKeypressConditional_def
      exec_BeginRegisterConditional_def Let_def split: prod.splits if_splits sum.splits)

definition is_loop_end :: "CheatOp \<Rightarrow> bool" where
  "is_loop_end c = (case c of ControlLoopOpcode s r n \<Rightarrow> \<not> s | _ \<Rightarrow> False)"

lemma exec_opcode_onward:
  assumes "vm_wf vm" "\<not> is_loop_end c" "exec_opcode cb md kDown c vm w = Inr (vm', w')"
  shows "onward vm vm'"
  using assms exec_onward_data exec_onward_blocks [OF assms(1)]
  unfolding exec_opcode_def is_loop_end_def by (cases c) (simp_all, auto)

lemma exec_round_onward:
  assumes "vm_wf vm" "\<not> is_loop_end (opcode oper)" "exec_round cb md kDown oper vm w = Inr (vm', w')"
  shows "onward vm vm'"
proof -
  let ?vm1 = "if begin_conditional_block oper then vm\<lparr>condition_depth := condition_depth vm + 1\<rparr> else vm"
  have "vm_wf ?vm1" using assms(1) by simp
  with assms(2,3) have "onward ?vm1 vm'"
    unfolding exec_round_def Let_def by (blast intro: exec_opcode_onward)
  then show ?thesis by (auto intro: onward_trans split: if_splits)
qed

section \<open>Termination without loop ends\<close>

text \<open>
  A word with opcode digit 3 and a non-zero second digit is the only one the decoder turns into a
  loop end.
\<close>

definition loop_free :: "DmntCheatVm \<Rightarrow> bool" where
  "loop_free vm \<longleftrightarrow>
     list_all (\<lambda>x. nibble_at 28 x = 3 \<longrightarrow> nibble_at 24 x = 0) (take (num_opcodes vm) (program vm))"

lemma to_CheatVmOpcodeType_ControlLoop: "to_CheatVmOpcodeType v = ControlLoop \<longleftrightarrow> v = 3"
  by (simp add: to_CheatVmOpcodeType_def)

lemma shifted_ne_3: "bit t j \<Longrightarrow> j < 8 \<Longrightarrow> push_bit 4 t OR y \<noteq> (3 :: u32)"
proof
  assume a: "bit t j" "j < 8" and eq: "push_bit 4 t OR y = 3"
  have "bit (push_bit 4 t OR y) (4 + j)" using a by (simp add: bit_or_iff bit_push_bit_iff)
  then show False using eq nibble_high_bit [of 3 "4 + j"] by (simp add: is_nibble_def)
qed

lemma decode_opcode_type_3: "decode_opcode_type x = 3 \<Longrightarrow> nibble_at 28 x = 3"
proof -
  assume a: "decode_opcode_type x = 3"
  let ?t0 = "nibble_at 28 x"
  show ?thesis
  proof (cases "12 \<le> ?t0")
    case True
    have "?t0 \<noteq> 0" using True by auto
    then obtain j where j: "bit ?t0 j" by (auto simp: bit_eq_iff)
    then have j4: "j < 4" by (rule nibble_bit [rotated]) simp
    let ?t1 = "push_bit 4 ?t0 OR nibble_at 24 x"
    have "bit ?t1 (4 + j)" using j j4 by (simp add: bit_or_iff bit_push_bit_iff)
    then have "push_bit 4 ?t1 OR nibble_at 20 x \<noteq> 3" using j4 by (intro shifted_ne_3) auto
    moreover have "?t1 \<noteq> 3" using j j4 by (intro shifted_ne_3) auto
    ultimately have "decode_opcode_type x \<noteq> 3" using True unfolding decode_opcode_type_def Let_def by simp
    with a show ?thesis by simp
  next
    case False
    moreover from False have "\<not> 0xF0 \<le> ?t0" by (auto simp: not_le intro: less_trans)
    ultimately show ?thesis using a by (simp add: decode_opcode_type_def)
  qed
qed

lemma decode_body_loop_end:
  "is_loop_end (fst (decode_body t x vm valid)) \<Longrightarrow> t = ControlLoop \<and> nibble_at 24 x \<noteq> 0"
  by (cases t)
     (auto simp: is_loop_end_def decode_body_def decode_StoreStatic_def decode_BeginConditional_def
      decode_EndConditional_def decode_ControlLoop_def decode_LoadRegisterStatic_def
      decode_LoadRegisterMemory_def decode_StoreStaticToAddress_def decode_PerformArithmeticStatic_def
      decode_BeginKeypressConditional_def decode_PerformArithmeticRegister_def
      decode_StoreRegisterToAddress_def decode_BeginRegisterConditional_def
      decode_SaveRestoreRegister_def decode_SaveRestoreRegisterMask_def
      decode_ReadWriteStaticRegister_def decode_DebugLog_def Let_def
      split: prod.splits if_splits StoreRegisterOffsetType.splits CompareRegisterValueType.splits
        DebugLogValueType.splits)

lemma loop_free_decode:
  assumes "loop_free vm" "vm_wf vm" "DecodeNextOpcode vm = (Some oper, vm')"
  shows "\<not> is_loop_end (opcode oper)"
proof
  assume le: "is_loop_end (opcode oper)"
  from assms(3) obtain x t vm1 where x: "x = program vm ! instruction_ptr vm"
    and t: "t = to_CheatVmOpcodeType (decode_opcode_type x)" and lt: "instruction_ptr vm < num_opcodes vm"
    and b: "decode_body t x vm1 True = (opcode oper, vm', True)"
    by (rule DecodeNextOpcode_SomeE) blast
  from b le have t3: "t = ControlLoop" and n: "nibble_at 24 x \<noteq> 0"
    using decode_body_loop_end [of t x vm1 True] by simp_all
  have "decode_opcode_type x = 3"
    using t t3 to_CheatVmOpcodeType_ControlLoop [of "decode_opcode_type x"] by simp
  then have "nibble_at 28 x = 3" by (rule decode_opcode_type_3)
  moreover have "x \<in> set (take (num_opcodes vm) (program vm))"
    using lt assms(2) unfolding x vm_wf_def
    by (metis in_set_conv_nth length_take less_le_trans min_less_iff_conj nth_take)
  ultimately show False
    using assms(1) n by (auto simp: loop_free_def list_all_iff)
qed

lemma loop_free_same_code: "loop_free vm \<Longrightarrow> onward vm vm' \<Longrightarrow> loop_free vm'"
  by (simp add: loop_free_def onward_def same_code_def)

lemma Execute_loop_terminates:
  assumes "vm_wf vm" "loop_free vm" "num_opcodes vm - instruction_ptr vm < fuel"
  shows "\<exists>r. Execute_loop fuel cb md kDown vm w = Some r"
  using assms
proof (induction fuel arbitrary: vm w)
  case 0
  then show ?case by simp
next
  case (Suc fuel)
  obtain r vm1 where dec: "DecodeNextOpcode vm = (r, vm1)" by (cases "DecodeNextOpcode vm")
  show ?case
  proof (cases r)
    case None
    with dec show ?thesis by simp
  next
    case (Some oper)
    with dec have d: "DecodeNextOpcode vm = (Some oper, vm1)" by simp
    have wf1: "vm_wf vm1" using Suc.prems(1) d by (rule DecodeNextOpcode_wf)
    have on1: "onward vm vm1" using d Suc.prems(1) by (blast intro: DecodeNextOpcode_onward vm_wf_ip)
    have nl: "\<not> is_loop_end (opcode oper)" using Suc.prems(2,1) d by (rule loop_free_decode)
    show ?thesis
    proof (cases "exec_round cb md kDown oper vm1 w")
      case (Inl e)
      with d show ?thesis by simp
    next
      case (Inr p)
      obtain vm2 w2 where p: "p = (vm2, w2)" by (cases p)
      note ex = Inr [unfolded p]
      have wf2: "vm_wf vm2"
        using wf1 DecodeNextOpcode_op_wf [OF d] ex by (rule exec_round_wf)
      have on2: "onward vm1 vm2" using wf1 nl ex by (rule exec_round_onward)
      have "num_opcodes vm2 - instruction_ptr vm2 < fuel"
        using on1 on2 DecodeNextOpcode_Some(2,4) [OF d] Suc.prems(3)
        by (auto simp: onward_def same_code_def)
      moreover have "loop_free vm2"
        using Suc.prems(2) onward_trans [OF on1 on2] by (rule loop_free_same_code)
      ultimately show ?thesis
        using Suc.IH [OF wf2, of w2] d ex by simp
    qed
  qed
qed

section \<open>Runs from a freshly loaded program\<close>

text \<open>
  What is true of the machine between frames: the arrays have their sizes and the program fits.
  (\<^verbatim>\<open>LoadProgram\<close> may shrink the program under an old instruction pointer; \<^verbatim>\<open>ResetState\<close> repairs
  that at the start of the next run.)
\<close>

definition vm_sized :: "DmntCheatVm \<Rightarrow> bool" where
  "vm_sized vm \<longleftrightarrow>
     length (program vm) = MaximumProgramOpcodeCount \<and>
     length (static_registers vm) = NumStaticRegisters \<and>
     num_opcodes vm \<le> MaximumProgramOpcodeCount"

lemma vm_wf_sized [wf_intros]: "vm_wf vm \<Longrightarrow> vm_sized vm"
  by (simp add: vm_wf_def vm_sized_def)

lemma ResetState_establishes_wf [wf_intros]: "vm_sized vm \<Longrightarrow> vm_wf (ResetState vm)"
  by (simp add: vm_wf_def vm_sized_def ResetState_def list_all_length)

lemma Execute_upto_wf [wf_intros]:
  "vm_sized vm \<Longrightarrow> Execute_upto n cb md vm w = (st, vm', w') \<Longrightarrow> vm_wf vm'"
  by (auto simp: Execute_upto_def Let_def split: prod.splits
      intro: Execute_rounds_wf [OF ResetState_establishes_wf])

text \<open>A machine with the given words at the start of its program buffer.\<close>

definition words_vm :: "u32 list \<Rightarrow> DmntCheatVm" where
  "words_vm ws = initial_vm
     \<lparr>program := ws @ fill_array (MaximumProgramOpcodeCount - length ws) 0, num_opcodes := length ws\<rparr>"

lemma words_vm_sized: "length ws \<le> MaximumProgramOpcodeCount \<Longrightarrow> vm_sized (words_vm ws)"
  by (simp add: vm_sized_def words_vm_def initial_vm_def)

text \<open>A host that answers reads with zeros, presses no key and counts the writes.\<close>

definition counting_host :: "nat Callbacks" where
  "counting_host =
     \<lparr>MemoryReadUnsafe = (\<lambda>a n w. (fill_array n 0, w)), MemoryWriteUnsafe = (\<lambda>a bs w. w + 1),
      HidKeysDown = (\<lambda>w. (0, w)), PauseProcess = (\<lambda>w. w), ResumeProcess = (\<lambda>w. w),
      DebugLog = (\<lambda>i v w. w), CommandLog = (\<lambda>l w. w)\<rparr>"

definition no_metadata :: CheatProcessMetadata where
  "no_metadata =
     \<lparr>process_id = 0, title_id = 0,
      main_nso_extents = \<lparr>base = 0, size_of = 0\<rparr>, heap_extents = \<lparr>base = 0, size_of = 0\<rparr>,
      alias_extents = \<lparr>base = 0, size_of = 0\<rparr>, aslr_extents = \<lparr>base = 0, size_of = 0\<rparr>,
      main_nso_build_id = fill_array 0x20 0\<rparr>"

text \<open>
  C22. The type invariant: whatever program is in the buffer and whatever the host answers, after
  any number of rounds of \<^verbatim>\<open>Execute\<close>, be the run still going, finished or stopped by a fault, every
  array has its declared size, the program is within its buffer, and the instruction pointer and all
  recorded loop tops are within the program. The state observed is that of the fuelled run: out of
  fuel while running, its result when finished, its error at a fault.
\<close>

theorem Execute_keeps_vm_wf:
  assumes "vm_sized vm" "Execute_upto n cb md vm w = (st, vm', w')"
  shows "vm_wf vm' \<and>
    Execute n cb md vm w =
      (case st of Running \<Rightarrow> None | Finished \<Rightarrow> Some (Inr (vm', w')) | Faulted e \<Rightarrow> Some (Inl e))"
  using Execute_upto_wf [OF assms] Execute_upto_Execute [OF assms(2)] by blast

text \<open>
  A store followed by an else outside every block, after one and after two rounds, and a loop end
  without a start, which never finishes, after three.
\<close>

theorem Execute_keeps_vm_wf_witness:
  "(\<exists>vm'. Execute_upto 1 counting_host no_metadata (words_vm [0x04000000, 0x100, 0x7, 0x21000000]) 0 =
     (Running, vm', 1) \<and> vm_wf vm') \<and>
   (\<exists>vm'. Execute_upto 2 counting_host no_metadata (words_vm [0x04000000, 0x100, 0x7, 0x21000000]) 0 =
     (Faulted InvalidConditionDepth, vm', 1) \<and> vm_wf vm') \<and>
   (\<exists>vm'. Execute_upto 3 counting_host no_metadata (words_vm [0x31000000]) 0 = (Running, vm', 0) \<and> vm_wf vm')"
proof -
  have run: "\<exists>vm'. Execute_upto n counting_host no_metadata vm 0 = (st, vm', k) \<and> vm_wf vm'"
    if "vm_sized vm" "map_prod id snd (Execute_upto n counting_host no_metadata vm 0) = (st, k)" for n vm st k
    using that Execute_keeps_vm_wf [OF that(1), of n counting_host no_metadata 0 st _ k]
    by (cases "Execute_upto n counting_host no_metadata vm 0") auto
  have sized: "vm_sized (words_vm [0x04000000, 0x100, 0x7, 0x21000000])" "vm_sized (words_vm [0x31000000])"
    by (simp_all add: words_vm_sized cheat_vm_sizes)
  show ?thesis
  proof (intro conjI)
    show "\<exists>vm'. Execute_upto 1 counting_host no_metadata (words_vm [0x04000000, 0x100, 0x7, 0x21000000]) 0 =
        (Running, vm', 1) \<and> vm_wf vm'"
      by (rule run [OF sized(1)]) code_simp
    show "\<exists>vm'. Execute_upto 2 counting_host no_metadata (words_vm [0x04000000, 0x100, 0x7, 0x21000000]) 0 =
        (Faulted InvalidConditionDepth, vm', 1) \<and> vm_wf vm'"
      by (rule run [OF sized(1)]) code_simp
    show "\<exists>vm'. Execute_upto 3 counting_host no_metadata (words_vm [0x31000000]) 0 = (Running, vm', 0) \<and> vm_wf vm'"
      by (rule run [OF sized(2)]) code_simp
  qed
qed

text \<open>
  C23. A cheat that contains no loop end always finishes: whatever the host's callbacks do and
  however its conditions fall out, \<^verbatim>\<open>Execute\<close> returns (or stops with one of the modelled faults)
  after at most one round per program word and one more.
\<close>

theorem Execute_terminates_without_loop_ends:
  assumes "vm_sized vm" "loop_free vm"
  shows "\<exists>r. Execute (Suc (num_opcodes vm)) cb md vm w = Some r"
proof -
  have r: "vm_wf (ResetState vm)" "loop_free (ResetState vm)"
    "num_opcodes (ResetState vm) - instruction_ptr (ResetState vm) < Suc (num_opcodes vm)"
    using assms ResetState_establishes_wf [OF assms(1)] by (auto simp: loop_free_def ResetState_def)
  show ?thesis
    unfolding Execute_def Let_def
    using Execute_loop_terminates [OF r] by (auto split: prod.split)
qed

theorem Execute_terminates_without_loop_ends_witness:
  "\<exists>r. Execute 4 counting_host no_metadata (words_vm [0x80000001, 0xFF000000, 0x20000000]) 0 = Some r"
proof -
  let ?vm = "words_vm [0x80000001, 0xFF000000, 0x20000000]"
  have "vm_sized ?vm" by (rule words_vm_sized) (simp add: cheat_vm_sizes)
  moreover have "loop_free ?vm"
    by (simp add: loop_free_def words_vm_def nibble_at_def)
  ultimately show ?thesis
    using Execute_terminates_without_loop_ends [of ?vm counting_host no_metadata 0]
    by (simp add: words_vm_def numeral_eq_Suc)
qed

section \<open>The fault of the block skipper\<close>

text \<open>A decoded opcode is flagged as the start of a block exactly when it is one.\<close>

lemma decode_body_starts_block:
  "starts_block (fst (decode_body t x vm valid)) = is_condition_start t"
  by (cases t)
     (auto simp: starts_block_def is_condition_start_def decode_body_def decode_StoreStatic_def
      decode_BeginConditional_def
      decode_EndConditional_def decode_ControlLoop_def decode_LoadRegisterStatic_def
      decode_LoadRegisterMemory_def decode_StoreStaticToAddress_def decode_PerformArithmeticStatic_def
      decode_BeginKeypressConditional_def decode_PerformArithmeticRegister_def
      decode_StoreRegisterToAddress_def decode_BeginRegisterConditional_def
      decode_SaveRestoreRegister_def decode_SaveRestoreRegisterMask_def
      decode_ReadWriteStaticRegister_def decode_DebugLog_def Let_def
      split: prod.splits if_splits StoreRegisterOffsetType.splits CompareRegisterValueType.splits
        DebugLogValueType.splits)

lemma DecodeNextOpcode_starts_block:
  "DecodeNextOpcode vm = (Some oper, vm') \<Longrightarrow>
   begin_conditional_block oper = starts_block (opcode oper)"
  by (erule DecodeNextOpcode_SomeE) (metis decode_body_starts_block fst_conv)

lemma DecodeNextOpcode_depth:
  "DecodeNextOpcode vm = (Some oper, vm') \<Longrightarrow> condition_depth vm' = condition_depth vm"
  using DecodeNextOpcode_Some(1) [of vm oper vm'] by (auto simp: ip_step_def)

lemma math_fault:
  "static_math t a b = Inl e \<Longrightarrow> e = ShiftOutOfRange"
  "register_math t a b = Inl e \<Longrightarrow> e = ShiftOutOfRange"
  by (auto simp: static_math_def register_math_def split: RegisterArithmeticType.splits if_splits)

lemma exec_opcode_depth_fault:
  assumes "starts_block c \<longrightarrow> 0 < condition_depth vm"
  shows "exec_opcode cb md kDown c vm w = Inl InvalidConditionDepth \<longleftrightarrow>
    c = EndConditionalOpcode True \<and> condition_depth vm = 0"
proof (cases c)
  case (PerformArithmeticStaticOpcode bw r t v)
  then show ?thesis
    by (auto simp: exec_opcode_def exec_PerformArithmeticStatic_def split: sum.splits dest: math_fault)
next
  case (PerformArithmeticRegisterOpcode bw t d s1 s2 imm v)
  then show ?thesis
    by (auto simp: exec_opcode_def exec_PerformArithmeticRegister_def split: sum.splits dest: math_fault)
qed (use assms in \<open>auto simp: exec_opcode_def exec_StoreStatic_def exec_LoadRegisterMemory_def
      exec_StoreStaticToAddress_def exec_StoreRegisterToAddress_def exec_DebugLog_def
      exec_SaveRestoreRegister_def exec_SaveRestoreRegisterMask_def exec_ReadWriteStaticRegister_def
      exec_ControlLoop_def exec_BeginConditional_def exec_EndConditional_def
      exec_BeginKeypressConditional_def exec_BeginRegisterConditional_def skip_unless_def
      SkipConditionalBlock_def starts_block_def Let_def
      split: prod.splits if_splits sum.splits SaveRestoreRegisterOpType.splits\<close>)

lemma SkipConditionalBlock_fault: "SkipConditionalBlock b vm = Inl e \<Longrightarrow> e = InvalidConditionDepth"
  by (simp add: SkipConditionalBlock_def split: if_splits)

lemma skip_unless_fault: "skip_unless b vm w = Inl e \<Longrightarrow> e = InvalidConditionDepth"
  by (auto simp: skip_unless_def split: if_splits sum.splits dest: SkipConditionalBlock_fault)

text \<open>
  The rounds that stop with a fault: arithmetic, whose shift may be too wide, and an else outside
  every block. None of the three calls the host beyond the log lines of the round.
\<close>

lemma exec_opcode_fault_source:
  assumes "starts_block c \<longrightarrow> 0 < condition_depth vm" "exec_opcode cb md kDown c vm w = Inl e"
  shows "is_PerformArithmeticStaticOpcode c \<or> is_PerformArithmeticRegisterOpcode c \<or> c = EndConditionalOpcode True"
proof (cases "is_PerformArithmeticStaticOpcode c \<or> is_PerformArithmeticRegisterOpcode c")
  case False
  with assms(2) have "e = InvalidConditionDepth"
    by (cases c) (auto simp: exec_opcode_def exec_StoreStatic_def exec_LoadRegisterMemory_def
        exec_StoreStaticToAddress_def exec_StoreRegisterToAddress_def exec_DebugLog_def
        exec_SaveRestoreRegister_def exec_SaveRestoreRegisterMask_def exec_ReadWriteStaticRegister_def
        exec_ControlLoop_def exec_BeginConditional_def exec_EndConditional_def
        exec_BeginKeypressConditional_def exec_BeginRegisterConditional_def Let_def
        split: prod.splits if_splits sum.splits SaveRestoreRegisterOpType.splits
        dest: SkipConditionalBlock_fault skip_unless_fault)
  then show ?thesis using assms(2) exec_opcode_depth_fault [OF assms(1), of cb md kDown w] by simp
qed blast

lemma exec_round_fault_source:
  assumes "DecodeNextOpcode vm = (Some oper, vm1)" "exec_round cb md kDown oper vm1 w = Inl e"
  shows "is_PerformArithmeticStaticOpcode (opcode oper) \<or> is_PerformArithmeticRegisterOpcode (opcode oper) \<or>
    opcode oper = EndConditionalOpcode True"
  using assms(2) DecodeNextOpcode_starts_block [OF assms(1)] unfolding exec_round_def Let_def
  by (intro exec_opcode_fault_source) auto

text \<open>
  C36. Where the unreachable branch of the block skipper is reached: executing a decoded opcode
  fails on the condition depth exactly when the opcode is an else and no block is open. Conditional
  opcodes never fail there, because the loop counts their block before they run.
\<close>

theorem exec_round_depth_fault_iff:
  assumes "DecodeNextOpcode vm = (Some oper, vm1)"
  shows "exec_round cb md kDown oper vm1 w = Inl InvalidConditionDepth \<longleftrightarrow>
    opcode oper = EndConditionalOpcode True \<and> condition_depth vm = 0"
proof -
  let ?vm1 = "if begin_conditional_block oper then vm1\<lparr>condition_depth := condition_depth vm1 + 1\<rparr> else vm1"
  have sb: "begin_conditional_block oper = starts_block (opcode oper)"
    using assms by (rule DecodeNextOpcode_starts_block)
  have "exec_round cb md kDown oper vm1 w = Inl InvalidConditionDepth \<longleftrightarrow>
      opcode oper = EndConditionalOpcode True \<and> condition_depth ?vm1 = 0"
    unfolding exec_round_def Let_def by (rule exec_opcode_depth_fault) (simp add: sb)
  also have "\<dots> \<longleftrightarrow> opcode oper = EndConditionalOpcode True \<and> condition_depth vm = 0"
    using DecodeNextOpcode_depth [OF assms] sb
    by (cases "opcode oper = EndConditionalOpcode True") (simp_all add: starts_block_def)
  finally show ?thesis .
qed

lemma encode_ElseBlock: "encode ElseBlock = [0x21000000]"
  by (simp add: hex_word_def)

text \<open>
  A cheat whose first word is an else aborts the emulator: \<^verbatim>\<open>Execute\<close> reaches the branch that
  the code marks as unreachable, for every host and whatever follows in the program.
\<close>

theorem Execute_leading_else_faults:
  assumes "vm_sized vm" "0 < num_opcodes vm" "program vm ! 0 = 0x21000000"
  shows "Execute (Suc fuel) cb md vm w = Some (Inl InvalidConditionDepth)"
proof -
  let ?vm = "ResetState vm"
  have "reads ?vm (encode ElseBlock)"
    using assms unfolding encode_ElseBlock
    by (auto simp: reads_def ResetState_def vm_sized_def take_Suc_conv_app_nth hd_conv_nth)
  then have dec: "DecodeNextOpcode ?vm =
      (Some \<lparr>begin_conditional_block = False, opcode = ElseBlock\<rparr>, advance 1 ?vm)"
    using DecodeNextOpcode_encoded [of ElseBlock ?vm]
    by (simp add: encode_ElseBlock ResetState_def del: encode.simps)
  have "condition_depth ?vm = 0" by (simp add: ResetState_def)
  then show ?thesis
    unfolding Execute_def Let_def
    by (simp add: dec exec_round_def exec_opcode_def exec_EndConditional_def SkipConditionalBlock_def
        split: prod.split)
qed

theorem Execute_leading_else_faults_witness:
  "Execute 1 counting_host no_metadata (words_vm [0x21000000, 0xFF000000]) 0 =
     Some (Inl InvalidConditionDepth)"
  using Execute_leading_else_faults [of "words_vm [0x21000000, 0xFF000000]" 0 counting_host no_metadata 0]
    words_vm_sized [of "[0x21000000, 0xFF000000]"]
  by (simp add: words_vm_def cheat_vm_sizes)

theorem exec_round_depth_fault_iff_witness:
  "exec_round counting_host no_metadata 0 \<lparr>begin_conditional_block = False, opcode = ElseBlock\<rparr>
     ((demo_vm [ElseBlock] 0)\<lparr>instruction_ptr := 1\<rparr>) 0 = Inl InvalidConditionDepth"
proof -
  have "reads (demo_vm [ElseBlock] 0) (encode ElseBlock)"
    using reads_demo_vm [of "[ElseBlock]" 0] by (simp del: encode.simps)
  then have "DecodeNextOpcode (demo_vm [ElseBlock] 0) =
      (Some \<lparr>begin_conditional_block = False, opcode = ElseBlock\<rparr>, (demo_vm [ElseBlock] 0)\<lparr>instruction_ptr := 1\<rparr>)"
    using DecodeNextOpcode_encoded [of ElseBlock "demo_vm [ElseBlock] 0"]
    by (simp add: demo_vm_def initial_vm_def)
  from exec_round_depth_fault_iff [OF this, of counting_host no_metadata 0 0] show ?thesis
    by (simp add: demo_vm_def)
qed

section \<open>Array indices\<close>

text \<open>
  C35. Every array access of the executor is in bounds: the register, saved-value, loop-top and
  static-register indices and the register masks that the decoder puts into an opcode fit the
  arrays they index, for every program word.
\<close>

theorem DecodeNextOpcode_indices_in_bounds:
  assumes "DecodeNextOpcode vm = (Some oper, vm')"
  shows "op_wf (opcode oper)"
  using assms by (rule DecodeNextOpcode_op_wf)

theorem DecodeNextOpcode_indices_in_bounds_witness:
  "\<exists>oper vm'. DecodeNextOpcode (ResetState (words_vm [0x400F0000, 0x11223344, 0x55667788])) = (Some oper, vm') \<and>
     opcode oper = LoadRegisterStaticOpcode 0xF 0x1122334455667788 \<and> op_wf (opcode oper)"
proof -
  let ?vm = "ResetState (words_vm [0x400F0000, 0x11223344, 0x55667788])"
  have "map_option opcode (fst (DecodeNextOpcode ?vm)) = Some (LoadRegisterStaticOpcode 0xF 0x1122334455667788)"
    by code_simp
  then obtain oper vm' where d: "DecodeNextOpcode ?vm = (Some oper, vm')"
    "opcode oper = LoadRegisterStaticOpcode 0xF 0x1122334455667788"
    by (cases "DecodeNextOpcode ?vm") auto
  from DecodeNextOpcode_indices_in_bounds [OF d(1)] d show ?thesis by blast
qed

section \<open>Loading\<close>

text \<open>The words the enabled cheats contribute, in order.\<close>

definition entry_words :: "CheatEntry \<Rightarrow> u32 list" where
  "entry_words e = take (unat (num_opcodes_def (definition_of e))) (opcodes (definition_of e))"

definition program_text :: "CheatEntry list \<Rightarrow> u32 list" where
  "program_text es = concat (map entry_words (filter enabled es))"

definition cheat_entry_wf :: "CheatEntry \<Rightarrow> bool" where
  "cheat_entry_wf e \<longleftrightarrow> length (opcodes (definition_of e)) = 0x100 \<and>
     unat (num_opcodes_def (definition_of e)) \<le> 0x100"

lemma program_text_simps [simp]:
  "program_text [] = []"
  "program_text (e # es) = (if enabled e then entry_words e else []) @ program_text es"
  by (simp_all add: program_text_def)

definition put_words :: "u32 list \<Rightarrow> DmntCheatVm \<Rightarrow> DmntCheatVm" where
  "put_words ws vm =
     vm\<lparr>program := take (num_opcodes vm) (program vm) @ ws @ drop (num_opcodes vm + length ws) (program vm),
        num_opcodes := num_opcodes vm + length ws\<rparr>"

lemma put_words_Nil [simp]: "put_words [] vm = vm"
  by (simp add: put_words_def)

lemma put_words_append:
  "num_opcodes vm \<le> length (program vm) \<Longrightarrow>
   put_words vs (put_words ws vm) = put_words (ws @ vs) vm"
  by (simp add: put_words_def add_ac)

lemma put_words_one:
  assumes "num_opcodes vm < length (program vm)"
  shows "vm\<lparr>program := (program vm)[num_opcodes vm := x], num_opcodes := num_opcodes vm + 1\<rparr> =
    put_words [x] vm"
  using assms by (simp add: put_words_def upd_conv_take_nth_drop)

lemma put_words_fields [simp]:
  "num_opcodes (put_words ws vm) = num_opcodes vm + length ws"
  "num_opcodes vm + length ws \<le> length (program vm) \<Longrightarrow>
   length (program (put_words ws vm)) = length (program vm)"
  by (simp_all add: put_words_def)

lemma copy_opcodes_ok:
  "n + k \<le> length src \<Longrightarrow> num_opcodes vm + k \<le> length (program vm) \<Longrightarrow>
   copy_opcodes src n k vm = Inr (put_words (take k (drop n src)) vm)"
proof (induction k arbitrary: n vm)
  case 0
  then show ?case by simp
next
  case (Suc k)
  then have "copy_opcodes src n (Suc k) vm = copy_opcodes src (n + 1) k (put_words [src ! n] vm)"
    by (simp add: put_words_one [symmetric])
  also have "\<dots> = Inr (put_words (take k (drop (n + 1) src)) (put_words [src ! n] vm))"
    using Suc.prems by (intro Suc.IH) simp_all
  also have "\<dots> = Inr (put_words (take (Suc k) (drop n src)) vm)"
    using Suc.prems by (simp add: put_words_append Cons_nth_drop_Suc [symmetric, of n src])
  finally show ?case .
qed

lemma copy_entry:
  assumes "cheat_entry_wf e" "num_opcodes vm + length (entry_words e) \<le> length (program vm)"
  shows "copy_opcodes (opcodes (definition_of e)) 0 (unat (num_opcodes_def (definition_of e))) vm =
    Inr (put_words (entry_words e) vm)"
  using assms by (subst copy_opcodes_ok) (simp_all add: cheat_entry_wf_def entry_words_def)

lemma entry_words_length:
  "cheat_entry_wf e \<Longrightarrow> length (entry_words e) = unat (num_opcodes_def (definition_of e))"
  by (simp add: cheat_entry_wf_def entry_words_def)

lemma load_entries_spec:
  assumes "list_all cheat_entry_wf es" "length (program vm) = MaximumProgramOpcodeCount"
    and "num_opcodes vm \<le> MaximumProgramOpcodeCount"
  shows "num_opcodes vm + length (program_text es) \<le> MaximumProgramOpcodeCount \<Longrightarrow>
      load_entries es vm = Inr (True, put_words (program_text es) vm)"
    and "num_opcodes vm + length (program_text es) > MaximumProgramOpcodeCount \<Longrightarrow>
      \<exists>v. load_entries es vm = Inr (False, v) \<and> num_opcodes v = 0"
  using assms
proof (induction es arbitrary: vm)
  case Nil
  { case 1 then show ?case by simp }
  { case 2 then show ?case by simp }
next
  case (Cons e es)
  { case 1
    then show ?case
      using Cons.IH(1) [of "put_words (entry_words e) vm"] Cons.IH(1) [of vm] copy_entry [of e vm]
      by (simp add: entry_words_length put_words_append split: if_splits) }
  { case 2
    then show ?case
      using Cons.IH(2) [of "put_words (entry_words e) vm"] Cons.IH(2) [of vm] copy_entry [of e vm]
      by (auto simp: entry_words_length Let_def split: if_splits) }
qed

lemma LoadProgram_fits:
  assumes "list_all cheat_entry_wf es" "vm_sized vm" "length (program_text es) \<le> MaximumProgramOpcodeCount"
  shows "LoadProgram es vm =
    Inr (True, vm\<lparr>program := program_text es @ drop (length (program_text es)) (program vm),
                  num_opcodes := length (program_text es)\<rparr>)"
  using load_entries_spec(1) [of es "vm\<lparr>num_opcodes := 0\<rparr>"] assms
  by (simp add: LoadProgram_def vm_sized_def put_words_def)

lemma LoadProgram_too_long:
  assumes "list_all cheat_entry_wf es" "vm_sized vm" "length (program_text es) > MaximumProgramOpcodeCount"
  shows "\<exists>v. LoadProgram es vm = Inr (False, v) \<and> num_opcodes v = 0"
  using load_entries_spec(2) [of es "vm\<lparr>num_opcodes := 0\<rparr>"] assms
  by (simp add: LoadProgram_def vm_sized_def)

text \<open>
  \<^verbatim>\<open>LoadProgram\<close> concatenates the opcodes of the enabled cheats, in order, into the program
  buffer and reports success exactly when they fit; otherwise it reports failure and leaves an
  empty program. With at most 0x100 opcodes counted per cheat (the size of the definition's
  array) no array is ever overrun.
\<close>

theorem LoadProgram_concatenates:
  assumes "list_all cheat_entry_wf es" "vm_sized vm"
  shows "LoadProgram es vm =
      Inr (True, vm\<lparr>program := program_text es @ drop (length (program_text es)) (program vm),
                    num_opcodes := length (program_text es)\<rparr>) \<and>
      length (program_text es) \<le> MaximumProgramOpcodeCount
    \<or> (\<exists>v. LoadProgram es vm = Inr (False, v) \<and> num_opcodes v = 0) \<and>
      length (program_text es) > MaximumProgramOpcodeCount"
  using LoadProgram_fits [OF assms] LoadProgram_too_long [OF assms] by (meson not_le)

theorem LoadProgram_concatenates_witness:
  "LoadProgram
     [empty_entry\<lparr>enabled := True, definition_of := empty_definition
        \<lparr>num_opcodes_def := 2, opcodes := [0x20000000, 0xFF000000] @ fill_array 0xFE 0\<rparr>\<rparr>,
      empty_entry\<lparr>definition_of := empty_definition\<lparr>num_opcodes_def := 7\<rparr>\<rparr>] initial_vm =
   Inr (True, words_vm [0x20000000, 0xFF000000])"
proof -
  let ?es = "[empty_entry\<lparr>enabled := True, definition_of := empty_definition
        \<lparr>num_opcodes_def := 2, opcodes := [0x20000000, 0xFF000000] @ fill_array 0xFE 0\<rparr>\<rparr>,
      empty_entry\<lparr>definition_of := empty_definition\<lparr>num_opcodes_def := 7\<rparr>\<rparr>]"
  have wf: "list_all cheat_entry_wf ?es"
    by (simp add: cheat_entry_wf_def empty_entry_def empty_definition_def)
  have words: "program_text ?es = [0x20000000, 0xFF000000]"
    by (simp add: entry_words_def empty_entry_def)
  have "vm_sized initial_vm" by (intro wf_intros)
  from LoadProgram_concatenates [OF wf this] show ?thesis
    unfolding words by (simp add: words_vm_def initial_vm_def cheat_vm_sizes fill_array_def)
qed

end
