(* ===== verification/CheatVm_Host.thy ===== *)
theory CheatVm_Host
  imports CheatVm_Run
begin

text \<open>
  The contract between the cheat machine and its host, as a locale: if every callback keeps a
  property of the host's state, so does a run, after any number of rounds and at a fault. The machine reads and writes at most eight
  bytes at a time.
\<close>

locale vm_host =
  fixes cb :: "'w Callbacks" and I :: "'w \<Rightarrow> bool"
  assumes read_keeps: "I w \<Longrightarrow> n \<le> 8 \<Longrightarrow> I (snd (MemoryReadUnsafe cb a n w))"
    and write_keeps: "I w \<Longrightarrow> length bs \<le> 8 \<Longrightarrow> I (MemoryWriteUnsafe cb a bs w)"
    and keys_keep: "I w \<Longrightarrow> I (snd (HidKeysDown cb w))"
    and pause_keeps: "I w \<Longrightarrow> I (PauseProcess cb w)"
    and resume_keeps: "I w \<Longrightarrow> I (ResumeProcess cb w)"
    and debug_keeps: "I w \<Longrightarrow> I (DebugLog cb i v w)"
    and log_keeps: "I w \<Longrightarrow> I (CommandLog cb l w)"
begin

lemma log_lines_keeps: "I w \<Longrightarrow> I (log_lines cb ls w)"
  by (rule log_lines_invariant) (auto intro: log_keeps)

lemma LogOpcode_keeps: "I w \<Longrightarrow> I (LogOpcode cb oper w)"
  unfolding LogOpcode_def by (rule log_lines_keeps)

lemma valid_width_le: "valid_width bw \<Longrightarrow> unat bw \<le> 8"
  by (auto simp: valid_width_def)

lemma vm_write_keeps: "I w \<Longrightarrow> I (vm_write cb a v bw w)"
  by (simp add: vm_write_def write_keeps valid_width_le)

lemma vm_read_keeps: "I w \<Longrightarrow> vm_read cb a old bw w = (v, w') \<Longrightarrow> I w'"
  using read_keeps [of w "unat bw" a] valid_width_le [of bw]
  by (auto simp: vm_read_def split: if_splits prod.splits)

lemma skip_unless_keeps: "I w \<Longrightarrow> skip_unless b vm w = Inr (vm', w') \<Longrightarrow> I w'"
  by (auto simp: skip_unless_def split: if_splits sum.splits)

lemma exec_memory_keeps:
  shows "I w \<Longrightarrow> exec_StoreStatic cb md bw m r a v vm w = Inr (vm', w') \<Longrightarrow> I w'"
    "I w \<Longrightarrow> exec_LoadRegisterMemory cb md bw m r f a vm w = Inr (vm', w') \<Longrightarrow> I w'"
    "I w \<Longrightarrow> exec_StoreStaticToAddress cb bw r i ao o_r v64 vm w = Inr (vm', w') \<Longrightarrow> I w'"
    "I w \<Longrightarrow> exec_StoreRegisterToAddress cb md bw r r2 i t m o_r a vm w = Inr (vm', w') \<Longrightarrow> I w'"
  by (auto simp: exec_StoreStatic_def exec_LoadRegisterMemory_def exec_StoreStaticToAddress_def
      exec_StoreRegisterToAddress_def Let_def vm_write_keeps split: prod.splits dest: vm_read_keeps)

lemma exec_DebugLog_keeps:
  "I w \<Longrightarrow> exec_DebugLog cb md bw lid dt m r r2 o_r a vm w = Inr (vm', w') \<Longrightarrow> I w'"
  by (auto simp: exec_DebugLog_def Let_def split: prod.splits DebugLogValueType.splits
      dest: vm_read_keeps intro!: debug_keeps)

lemma exec_BeginConditional_keeps:
  "I w \<Longrightarrow> exec_BeginConditional cb md bw m ct a v vm w = Inr (vm', w') \<Longrightarrow> I w'"
  by (auto simp: exec_BeginConditional_def Let_def split: prod.splits
      dest: vm_read_keeps intro: skip_unless_keeps)

lemma exec_BeginRegisterConditional_keeps:
  "I w \<Longrightarrow> exec_BeginRegisterConditional cb md bw ct s t m ar x o_r a v vm w = Inr (vm', w') \<Longrightarrow> I w'"
  by (auto simp: exec_BeginRegisterConditional_def Let_def split: prod.splits CompareRegisterValueType.splits
      dest: vm_read_keeps intro: skip_unless_keeps)

lemma exec_pure_keeps:
  shows "I w \<Longrightarrow> exec_EndConditional e vm w = Inr (vm', w') \<Longrightarrow> I w'"
    "I w \<Longrightarrow> exec_ControlLoop s r n vm w = Inr (vm', w') \<Longrightarrow> I w'"
    "I w \<Longrightarrow> exec_PerformArithmeticStatic bw r t k vm w = Inr (vm', w') \<Longrightarrow> I w'"
    "I w \<Longrightarrow> exec_PerformArithmeticRegister bw t d s1 s2 imm v vm w = Inr (vm', w') \<Longrightarrow> I w'"
    "I w \<Longrightarrow> exec_SaveRestoreRegister d r t2 vm w = Inr (vm', w') \<Longrightarrow> I w'"
    "I w \<Longrightarrow> exec_SaveRestoreRegisterMask t2 ops vm w = Inr (vm', w') \<Longrightarrow> I w'"
    "I w \<Longrightarrow> exec_ReadWriteStaticRegister d r vm w = Inr (vm', w') \<Longrightarrow> I w'"
  by (auto simp: exec_EndConditional_def exec_ControlLoop_def exec_PerformArithmeticStatic_def
      exec_PerformArithmeticRegister_def exec_SaveRestoreRegister_def exec_SaveRestoreRegisterMask_def
      exec_ReadWriteStaticRegister_def Let_def
      split: sum.splits if_splits SaveRestoreRegisterOpType.splits)

lemma exec_opcode_keeps:
  assumes "I w" "exec_opcode cb md kDown c vm w = Inr (vm', w')"
  shows "I w'"
  using assms(2) exec_memory_keeps [OF assms(1)] exec_DebugLog_keeps [OF assms(1)]
    exec_BeginConditional_keeps [OF assms(1)] exec_BeginRegisterConditional_keeps [OF assms(1)]
    skip_unless_keeps [OF assms(1)] exec_pure_keeps [OF assms(1)] assms(1)
  unfolding exec_opcode_def exec_BeginKeypressConditional_def
  by (cases c) (simp_all, auto intro: pause_keeps resume_keeps)

lemma exec_round_keeps:
  "I w \<Longrightarrow> exec_round cb md kDown oper vm w = Inr (vm', w') \<Longrightarrow> I w'"
  unfolding exec_round_def Let_def
  by (rule exec_opcode_keeps [where w = "LogOpcode cb oper _"]) (auto intro: LogOpcode_keeps log_lines_keeps)

lemma Execute_rounds_keeps:
  "I w \<Longrightarrow> Execute_rounds n cb md kDown vm w = (st, vm', w') \<Longrightarrow> I w'"
proof (induction n arbitrary: vm w)
  case 0
  then show ?case by simp
next
  case (Suc n)
  then show ?case
    by (auto split: prod.splits option.splits sum.splits intro: exec_round_keeps LogOpcode_keeps log_lines_keeps)
qed

lemma Execute_upto_keeps: "I w \<Longrightarrow> Execute_upto n cb md vm w = (st, vm', w') \<Longrightarrow> I w'"
  unfolding Execute_upto_def Let_def
  by (auto split: prod.splits dest: keys_keep intro: Execute_rounds_keeps [OF log_lines_keeps])

end

end
