(* ===== verification/PageTable.thy ===== *)
theory PageTable
  imports Prelude
begin

text \<open>
  The guest page table of \<^verbatim>\<open>common/page_table.h\<close> and \<^verbatim>\<open>common/page_table.cpp\<close>: tagged page
  pointers, the table itself, its traversal and physical lookup. Host pointers are 64-bit
  integers (\<^verbatim>\<open>uintptr_t\<close>), 0 being the null pointer.
\<close>

section \<open>Constants of core/memory.h\<close>

definition YUZU_PAGEBITS :: nat where "YUZU_PAGEBITS = 12"
definition YUZU_PAGESIZE :: u64 where "YUZU_PAGESIZE = push_bit YUZU_PAGEBITS 1"
definition YUZU_PAGEMASK :: u64 where "YUZU_PAGEMASK = YUZU_PAGESIZE - 1"

lemma page_constants:
  "YUZU_PAGEBITS = 12" "YUZU_PAGESIZE = 0x1000" "YUZU_PAGEMASK = 0xFFF"
  by (simp_all add: YUZU_PAGEBITS_def YUZU_PAGESIZE_def YUZU_PAGEMASK_def)

section \<open>Page types and tagged pointers\<close>

datatype PageType = Unmapped | Memory | DebugMemory | RasterizerCachedMemory

fun PageType_val :: "PageType \<Rightarrow> u64" where
  "PageType_val Unmapped = 0"
| "PageType_val Memory = 1"
| "PageType_val DebugMemory = 2"
| "PageType_val RasterizerCachedMemory = 3"

text \<open>The cast back; only two bits are ever cast, so the four enumerators cover it.\<close>

definition to_PageType :: "u64 \<Rightarrow> PageType" where
  "to_PageType v = (if v = 0 then Unmapped else if v = 1 then Memory else if v = 2 then DebugMemory
     else RasterizerCachedMemory)"

definition ATTRIBUTE_BITS :: nat where "ATTRIBUTE_BITS = 2"

definition ExtractPointer :: "u64 \<Rightarrow> u64" where
  "ExtractPointer raw = raw AND push_bit ATTRIBUTE_BITS (NOT 0)"

definition ExtractType :: "u64 \<Rightarrow> PageType" where
  "ExtractType raw = to_PageType (raw AND (push_bit ATTRIBUTE_BITS 1 - 1))"

text \<open>The value \<^verbatim>\<open>PageInfo::Store\<close> writes.\<close>

definition PageInfo_Store :: "u64 \<Rightarrow> PageType \<Rightarrow> u64" where
  "PageInfo_Store pointer t = pointer OR PageType_val t"

definition PointerType :: "u64 \<Rightarrow> u64 \<times> PageType" where
  "PointerType raw = (ExtractPointer raw, ExtractType raw)"

section \<open>The table\<close>

record PageEntryData =
  ptr :: u64
  block :: u64
  addr :: u64

text \<open>
  \<^verbatim>\<open>entries\<close> is an array of \<open>entries_size\<close> elements; beyond it the function stands for whatever
  follows the buffer.
\<close>

record PageTable =
  entries :: "u64 \<Rightarrow> PageEntryData"
  entries_size :: u64
  fastmem_arena :: u64
  current_address_space_width_in_bits :: nat
  page_size :: u64

definition blank_entry :: PageEntryData where
  "blank_entry = \<lparr>ptr = 0, block = 0, addr = 0\<rparr>"

text \<open>
  \<^verbatim>\<open>Resize\<close>: the buffer is allocated anew (zero pages) unless it already has the size.
\<close>

definition Resize :: "nat \<Rightarrow> nat \<Rightarrow> PageTable \<Rightarrow> PageTable" where
  "Resize address_space_width_in_bits page_size_in_bits pt =
     (let num_page_table_entries = push_bit (address_space_width_in_bits - page_size_in_bits) 1
      in pt\<lparr>entries := (if num_page_table_entries \<noteq> entries_size pt then (\<lambda>_. blank_entry) else entries pt),
            entries_size := num_page_table_entries,
            current_address_space_width_in_bits := address_space_width_in_bits,
            page_size := push_bit page_size_in_bits 1\<rparr>)"

definition GetPhysicalAddress :: "PageTable \<Rightarrow> u64 \<Rightarrow> u64 option" where
  "GetPhysicalAddress pt virt_addr =
     (if virt_addr > push_bit (current_address_space_width_in_bits pt) 1 then None
      else Some (addr (entries pt (virt_addr div page_size pt)) + virt_addr))"

record TraversalEntry =
  phys_addr :: u64
  block_size :: u64

record TraversalContext =
  next_page :: u64
  next_offset :: u64

definition ContinueTraversal ::
  "PageTable \<Rightarrow> TraversalContext \<Rightarrow> bool \<times> TraversalEntry \<times> TraversalContext" where
  "ContinueTraversal pt context =
     (let context' = context\<lparr>next_page := next_page context + 1,
                             next_offset := next_offset context + page_size pt\<rparr>;
          paddr = addr (entries pt (next_page context))
      in if next_page context < entries_size pt \<and> paddr \<noteq> 0
         then (True, \<lparr>phys_addr = paddr + next_offset context, block_size = page_size pt\<rparr>, context')
         else (False, \<lparr>phys_addr = 0, block_size = page_size pt\<rparr>, context'))"

definition BeginTraversal ::
  "PageTable \<Rightarrow> u64 \<Rightarrow> bool \<times> TraversalEntry \<times> TraversalContext" where
  "BeginTraversal pt address =
     ContinueTraversal pt \<lparr>next_page = address div page_size pt, next_offset = address\<rparr>"

section \<open>Tagged pointers unpack to what was stored\<close>

definition page_aligned :: "u64 \<Rightarrow> bool" where
  "page_aligned p \<longleftrightarrow> p AND YUZU_PAGEMASK = 0"

lemma pagemask_mask: "YUZU_PAGEMASK = mask 12"
  by (simp add: page_constants mask_eq_exp_minus_1)

lemma page_aligned_bit: "page_aligned p \<Longrightarrow> i < 12 \<Longrightarrow> \<not> bit p i"
  by (auto simp: page_aligned_def pagemask_mask bit_eq_iff [of _ 0] bit_and_iff bit_mask_iff
      dest!: spec [of _ i])

lemma PageType_val_bit: "bit (PageType_val t) i \<Longrightarrow> i < 2"
proof -
  assume a: "bit (PageType_val t) i"
  have "take_bit 2 (PageType_val t) = PageType_val t" by (cases t) simp_all
  with a show "i < 2" by (metis bit_take_bit_iff)
qed

lemma to_PageType_val [simp]: "to_PageType (PageType_val t) = t"
  by (cases t) (simp_all add: to_PageType_def)

lemma ExtractPointer_bit: "bit (ExtractPointer raw) i \<longleftrightarrow> 2 \<le> i \<and> bit raw i"
  by (auto simp: ExtractPointer_def ATTRIBUTE_BITS_def bit_and_iff bit_not_iff bit_mask_iff
      dest: bit_imp_le_length)

lemma ExtractPointer_Store [simp]:
  assumes "page_aligned p" shows "ExtractPointer (PageInfo_Store p t) = p"
proof (rule bit_eqI)
  fix i
  show "bit (ExtractPointer (PageInfo_Store p t)) i = bit p i"
    using page_aligned_bit [OF assms, of i] PageType_val_bit [of t i]
    by (cases "i < 2") (auto simp: ExtractPointer_bit PageInfo_Store_def bit_or_iff)
qed

lemma ExtractType_Store [simp]:
  assumes "page_aligned p" shows "ExtractType (PageInfo_Store p t) = t"
proof -
  have m: "push_bit ATTRIBUTE_BITS (1 :: u64) - 1 = mask 2"
    by (simp add: ATTRIBUTE_BITS_def mask_eq_exp_minus_1)
  have "PageInfo_Store p t AND mask 2 = PageType_val t"
  proof (rule bit_eqI)
    fix i
    show "bit (PageInfo_Store p t AND mask 2) i = bit (PageType_val t) i"
      using page_aligned_bit [OF assms, of i] PageType_val_bit [of t i]
      by (auto simp: PageInfo_Store_def bit_or_iff bit_and_iff bit_mask_iff)
  qed
  then show ?thesis unfolding ExtractType_def m by simp
qed

lemma page_aligned_0 [simp]: "page_aligned 0"
  by (simp add: page_aligned_def)

section \<open>Pages and offsets of an address\<close>

abbreviation page_of :: "u64 \<Rightarrow> u64" where
  "page_of va \<equiv> drop_bit YUZU_PAGEBITS va"

lemma unat_page_of: "unat (page_of va) = unat va div 4096"
  by (simp only: page_constants unat_drop_bit_eq drop_bit_eq_div) (simp add: unat_div_distrib)

lemma unat_pagemask: "unat (va AND YUZU_PAGEMASK) = unat va mod 4096"
  by (simp only: pagemask_mask take_bit_eq_mask [symmetric] unsigned_take_bit_eq take_bit_eq_mod) (simp add: unat_mod_distrib)

lemma page_of_add:
  assumes "unat va mod 4096 + n < 4096" "unat va + n < 2 ^ 64"
  shows "page_of (va + of_nat n) = page_of va"
proof -
  have "unat (va + of_nat n) = unat va + n"
    using assms(2) by (simp add: unat_word_ariths unat_of_nat)
  then show ?thesis
    using assms(1) by (simp only: word_unat_eq_iff unat_page_of) (simp add: div_add1_eq [of "unat va" n])
qed

end
