(* ===== verification/GuestMemory.thy ===== *)
theory GuestMemory
  imports PageTable
begin

text \<open>
  The guest memory of \<^verbatim>\<open>core/memory.cpp\<close> (\<^verbatim>\<open>Memory::Impl\<close> and the forwarding class): mapping,
  page attributes, single accesses and block walks. The state holds the page tables of the
  processes, the host memory they point into, and two traces: the notifications to the rasterizer
  and the calls to the fastmem host buffer. What the GPU does with a notification is not part of
  the model. \<open>None\<close> stands for the dereference of a null host pointer.
\<close>

section \<open>State\<close>

datatype RasterizerOp = RasterizerDownload u64 u64 | RasterizerWrite u64 u64

datatype HostOp =
    HostMap u64 u64 u64 u32 bool
  | HostUnmap u64 u64 bool
  | HostProtect u64 u64 u32

record Impl =
  tables :: "nat \<Rightarrow> PageTable"
  current_page_table :: nat
  backing_base :: u64
  host :: "u64 \<Rightarrow> u8"
  rasterizer_ops :: "RasterizerOp list"
  host_ops :: "HostOp list"

abbreviation current :: "Impl \<Rightarrow> PageTable" where
  "current s \<equiv> tables s (current_page_table s)"

abbreviation entry_of :: "Impl \<Rightarrow> u64 \<Rightarrow> PageEntryData" where
  "entry_of s page \<equiv> entries (current s) page"

definition update_entry :: "nat \<Rightarrow> u64 \<Rightarrow> (PageEntryData \<Rightarrow> PageEntryData) \<Rightarrow> Impl \<Rightarrow> Impl" where
  "update_entry t page f s =
     s\<lparr>tables := (tables s)(t := (tables s t)\<lparr>entries := (entries (tables s t))(page := f (entries (tables s t) page))\<rparr>)\<rparr>"

definition add_host_op :: "HostOp \<Rightarrow> Impl \<Rightarrow> Impl" where
  "add_host_op h s = s\<lparr>host_ops := host_ops s @ [h]\<rparr>"

text \<open>\<^verbatim>\<open>DramMemoryMap::Base\<close> and \<^verbatim>\<open>DeviceMemory::GetPointer\<close> of \<^verbatim>\<open>core/device_memory.h\<close>.\<close>

definition DramBase :: u64 where "DramBase = 0x80000000"

definition DeviceMemory_GetPointer :: "Impl \<Rightarrow> u64 \<Rightarrow> u64" where
  "DeviceMemory_GetPointer s paddr = backing_base s + (paddr - DramBase)"

definition AddressSpaceContains :: "PageTable \<Rightarrow> u64 \<Rightarrow> u64 \<Rightarrow> bool" where
  "AddressSpaceContains table a sz \<longleftrightarrow>
     (let max_addr = push_bit (current_address_space_width_in_bits table) 1
      in a + sz \<ge> a \<and> a + sz \<le> max_addr)"

section \<open>Host memory\<close>

text \<open>\<^verbatim>\<open>memcpy\<close> and \<^verbatim>\<open>memset\<close> on host memory; \<open>None\<close> on a null pointer.\<close>

definition host_read :: "u64 \<Rightarrow> nat \<Rightarrow> (u64 \<Rightarrow> u8) \<Rightarrow> u8 list option" where
  "host_read p n m = (if p = 0 then None else Some (map (\<lambda>i. m (p + of_nat i)) [0..<n]))"

definition host_store :: "u64 \<Rightarrow> u8 list \<Rightarrow> (u64 \<Rightarrow> u8) \<Rightarrow> u64 \<Rightarrow> u8" where
  "host_store p bs m = (\<lambda>h. if unat (h - p) < length bs then bs ! unat (h - p) else m h)"

definition host_write :: "u64 \<Rightarrow> u8 list \<Rightarrow> Impl \<Rightarrow> Impl option" where
  "host_write p bs s = (if p = 0 then None else Some (s\<lparr>host := host_store p bs (host s)\<rparr>))"

section \<open>Mapping\<close>

text \<open>The two loops of \<^verbatim>\<open>MapPages\<close>, one page per round.\<close>

fun unmap_pages :: "nat \<Rightarrow> nat \<Rightarrow> u64 \<Rightarrow> PageType \<Rightarrow> Impl \<Rightarrow> Impl" where
  "unmap_pages t 0 base type s = s"
| "unmap_pages t (Suc n) base type s =
     unmap_pages t n (base + 1) type
       (update_entry t base (\<lambda>e. e\<lparr>ptr := PageInfo_Store 0 type, addr := 0, block := 0\<rparr>) s)"

fun map_pages :: "nat \<Rightarrow> nat \<Rightarrow> u64 \<Rightarrow> u64 \<Rightarrow> u64 \<Rightarrow> PageType \<Rightarrow> Impl \<Rightarrow> Impl" where
  "map_pages t 0 base orig_base target type s = s"
| "map_pages t (Suc n) base orig_base target type s =
     (let host_ptr = DeviceMemory_GetPointer s target - push_bit YUZU_PAGEBITS base;
          backing = target - push_bit YUZU_PAGEBITS base
      in map_pages t n (base + 1) orig_base (target + YUZU_PAGESIZE) type
           (update_entry t base
              (\<lambda>e. e\<lparr>ptr := PageInfo_Store host_ptr type, addr := backing,
                     block := push_bit YUZU_PAGEBITS orig_base\<rparr>) s))"

definition MapPages :: "nat \<Rightarrow> u64 \<Rightarrow> u64 \<Rightarrow> u64 \<Rightarrow> PageType \<Rightarrow> Impl \<Rightarrow> Impl" where
  "MapPages t base sz target type s =
     (if target = 0 then unmap_pages t (unat sz) base type s
      else map_pages t (unat sz) base base target type s)"

definition MapMemoryRegion :: "nat \<Rightarrow> u64 \<Rightarrow> u64 \<Rightarrow> u64 \<Rightarrow> u32 \<Rightarrow> bool \<Rightarrow> Impl \<Rightarrow> Impl" where
  "MapMemoryRegion t base sz target perms separate_heap s =
     (let s1 = MapPages t (base div YUZU_PAGESIZE) (sz div YUZU_PAGESIZE) target Memory s
      in if fastmem_arena (current s1) \<noteq> 0
         then add_host_op (HostMap base (target - DramBase) sz perms separate_heap) s1 else s1)"

definition UnmapRegion :: "nat \<Rightarrow> u64 \<Rightarrow> u64 \<Rightarrow> bool \<Rightarrow> Impl \<Rightarrow> Impl" where
  "UnmapRegion t base sz separate_heap s =
     (let s1 = MapPages t (base div YUZU_PAGESIZE) (sz div YUZU_PAGESIZE) 0 Unmapped s
      in if fastmem_arena (current s1) \<noteq> 0
         then add_host_op (HostUnmap base sz separate_heap) s1 else s1)"

text \<open>
  \<^verbatim>\<open>ProtectRegion\<close>: runs of pages that the rasterizer does not cache are protected together. The
  loop runs once per page of the region.
\<close>

fun protect_loop :: "nat \<Rightarrow> u64 \<Rightarrow> u64 \<Rightarrow> u64 \<Rightarrow> u32 \<Rightarrow> Impl \<Rightarrow> Impl" where
  "protect_loop 0 a protect_begin protect_bytes perms s =
     (if protect_bytes > 0 then add_host_op (HostProtect protect_begin protect_bytes perms) s else s)"
| "protect_loop (Suc n) a protect_begin protect_bytes perms s =
     (if ExtractType (ptr (entry_of s (page_of a))) = RasterizerCachedMemory
      then (if protect_bytes > 0
            then protect_loop n (a + YUZU_PAGESIZE) protect_begin 0 perms
                   (add_host_op (HostProtect protect_begin protect_bytes perms) s)
            else protect_loop n (a + YUZU_PAGESIZE) protect_begin protect_bytes perms s)
      else protect_loop n (a + YUZU_PAGESIZE) (if protect_bytes = 0 then a else protect_begin)
             (protect_bytes + YUZU_PAGESIZE) perms s)"

definition ProtectRegion :: "u64 \<Rightarrow> u64 \<Rightarrow> u32 \<Rightarrow> Impl \<Rightarrow> Impl" where
  "ProtectRegion vaddr sz perms s =
     (if fastmem_arena (current s) = 0 then s
      else protect_loop (if vaddr < vaddr + sz then (unat sz + 4095) div 4096 else 0) vaddr 0 0 perms s)"

section \<open>Host pointers of a guest address\<close>

definition GetPointerFromRasterizerCachedMemory :: "Impl \<Rightarrow> u64 \<Rightarrow> u64" where
  "GetPointerFromRasterizerCachedMemory s vaddr =
     (let paddr = addr (entry_of s (page_of vaddr))
      in if paddr \<noteq> 0 then DeviceMemory_GetPointer s (paddr + vaddr) else 0)"

definition GetPointerFromDebugMemory :: "Impl \<Rightarrow> u64 \<Rightarrow> u64" where
  "GetPointerFromDebugMemory s vaddr =
     (let paddr = addr (entry_of s (page_of vaddr))
      in if paddr \<noteq> 0 then DeviceMemory_GetPointer s (paddr + vaddr) else 0)"

text \<open>
  \<open>GetPointerImpl\<close> returns the pointer and whether \<^verbatim>\<open>on_rasterizer\<close> was called; \<^verbatim>\<open>on_unmapped\<close>
  only logs at every use.
\<close>

definition GetPointerImpl :: "Impl \<Rightarrow> u64 \<Rightarrow> u64 \<times> bool" where
  "GetPointerImpl s vaddr0 =
     (let vaddr = vaddr0 AND 0xffffffffffff in
      if AddressSpaceContains (current s) vaddr 1 then
        (let raw_pointer = ptr (entry_of s (page_of vaddr));
             pointer = ExtractPointer raw_pointer
         in if pointer \<noteq> 0 then (pointer + vaddr, False)
            else (case ExtractType raw_pointer of
                    Memory \<Rightarrow> (0, False)
                  | DebugMemory \<Rightarrow> (GetPointerFromDebugMemory s vaddr, False)
                  | RasterizerCachedMemory \<Rightarrow> (GetPointerFromRasterizerCachedMemory s vaddr, True)
                  | Unmapped \<Rightarrow> (0, False)))
      else (0, False))"

definition GetPointer :: "Impl \<Rightarrow> u64 \<Rightarrow> u64" where
  "GetPointer s vaddr = fst (GetPointerImpl s vaddr)"

definition GetPointerSilent :: "Impl \<Rightarrow> u64 \<Rightarrow> u64" where
  "GetPointerSilent s vaddr = fst (GetPointerImpl s vaddr)"

definition GetSpan :: "Impl \<Rightarrow> u64 \<Rightarrow> u64 \<Rightarrow> u64" where
  "GetSpan s a sz =
     (if block (entry_of s (page_of a)) = block (entry_of s (page_of (a + sz)))
      then GetPointerSilent s a else 0)"

definition IsValidVirtualAddress :: "Impl \<Rightarrow> u64 \<Rightarrow> bool" where
  "IsValidVirtualAddress s vaddr =
     (let page = page_of vaddr in
      if page \<ge> entries_size (current s) then False
      else (let (pointer, type) = PointerType (ptr (entry_of s page))
            in pointer \<noteq> 0 \<or> type = RasterizerCachedMemory \<or> type = DebugMemory))"

section \<open>Page attributes\<close>

definition num_pages_of :: "u64 \<Rightarrow> u64 \<Rightarrow> u64" where
  "num_pages_of vaddr sz = page_of (vaddr + sz - 1) - page_of vaddr + 1"

abbreviation set_ptr :: "u64 \<Rightarrow> u64 \<Rightarrow> PageType \<Rightarrow> Impl \<Rightarrow> Impl" where
  "set_ptr page p t s \<equiv>
     update_entry (current_page_table s) page (\<lambda>e. e\<lparr>ptr := PageInfo_Store p t\<rparr>) s"

definition mark_debug_page :: "bool \<Rightarrow> u64 \<Rightarrow> Impl \<Rightarrow> Impl" where
  "mark_debug_page debug vaddr s =
     (let page = page_of vaddr;
          page_type = ExtractType (ptr (entry_of s page)) in
      if debug then
        (case page_type of
           Memory \<Rightarrow> set_ptr page 0 DebugMemory s
         | _ \<Rightarrow> s)
      else
        (case page_type of
           DebugMemory \<Rightarrow>
             (let start = vaddr AND NOT YUZU_PAGEMASK
              in set_ptr page (GetPointerFromDebugMemory s start - start) Memory s)
         | _ \<Rightarrow> s))"

definition mark_cached_page :: "bool \<Rightarrow> u64 \<Rightarrow> Impl \<Rightarrow> Impl" where
  "mark_cached_page cached vaddr s =
     (let page = page_of vaddr;
          page_type = ExtractType (ptr (entry_of s page)) in
      if cached then
        (case page_type of
           DebugMemory \<Rightarrow> set_ptr page 0 RasterizerCachedMemory s
         | Memory \<Rightarrow> set_ptr page 0 RasterizerCachedMemory s
         | _ \<Rightarrow> s)
      else
        (case page_type of
           RasterizerCachedMemory \<Rightarrow>
             (let start = vaddr AND NOT YUZU_PAGEMASK;
                  pointer = GetPointerFromRasterizerCachedMemory s start
              in if pointer = 0 then set_ptr page 0 Unmapped s
                 else set_ptr page (pointer - start) Memory s)
         | _ \<Rightarrow> s))"

fun for_pages :: "(u64 \<Rightarrow> Impl \<Rightarrow> Impl) \<Rightarrow> nat \<Rightarrow> u64 \<Rightarrow> Impl \<Rightarrow> Impl" where
  "for_pages f 0 vaddr s = s"
| "for_pages f (Suc n) vaddr s = for_pages f n (vaddr + YUZU_PAGESIZE) (f vaddr s)"

definition MarkRegionDebug :: "u64 \<Rightarrow> u64 \<Rightarrow> bool \<Rightarrow> Impl \<Rightarrow> Impl" where
  "MarkRegionDebug vaddr sz debug s =
     (if vaddr = 0 \<or> \<not> AddressSpaceContains (current s) vaddr sz then s
      else
        (let s1 = (if fastmem_arena (current s) \<noteq> 0
                   then add_host_op (HostProtect vaddr sz (if debug then 0 else 3)) s else s)
         in for_pages (mark_debug_page debug) (unat (num_pages_of vaddr sz)) vaddr s1))"

definition RasterizerMarkRegionCached :: "bool \<Rightarrow> u64 \<Rightarrow> u64 \<Rightarrow> bool \<Rightarrow> Impl \<Rightarrow> Impl" where
  "RasterizerMarkRegionCached use_reactive_flushing vaddr sz cached s =
     (if vaddr = 0 \<or> \<not> AddressSpaceContains (current s) vaddr sz then s
      else
        (let perm = (if \<not> use_reactive_flushing \<or> \<not> cached then 1 else 0) OR (if \<not> cached then 2 else 0);
             s1 = (if fastmem_arena (current s) \<noteq> 0
                   then add_host_op (HostProtect vaddr sz perm) s else s)
         in for_pages (mark_cached_page cached) (unat (num_pages_of vaddr sz)) vaddr s1))"

end
