(* ===== verification/GuestMemory_Access.thy ===== *)
theory GuestMemory_Access
  imports GuestMemory
begin

text \<open>
  The accesses of \<^verbatim>\<open>Memory::Impl\<close>: single values (\<^verbatim>\<open>Read\<close>, \<^verbatim>\<open>Write\<close>, \<^verbatim>\<open>WriteExclusive\<close> and
  the width-specific wrappers with their unaligned paths) and the block walks built on
  \<^verbatim>\<open>WalkBlock\<close>.
\<close>

section \<open>Single accesses\<close>

definition HandleRasterizerDownload :: "u64 \<Rightarrow> u64 \<Rightarrow> Impl \<Rightarrow> Impl" where
  "HandleRasterizerDownload v_address sz s =
     s\<lparr>rasterizer_ops := rasterizer_ops s @ [RasterizerDownload v_address sz]\<rparr>"

definition HandleRasterizerWrite :: "u64 \<Rightarrow> u64 \<Rightarrow> Impl \<Rightarrow> Impl" where
  "HandleRasterizerWrite v_address sz s =
     s\<lparr>rasterizer_ops := rasterizer_ops s @ [RasterizerWrite v_address sz]\<rparr>"

text \<open>
  \<open>Read_T n\<close> is the template \<^verbatim>\<open>Read<T>\<close> at a type of \<open>n\<close> bytes; the result is the value of the
  bytes in little-endian order, zero-extended.
\<close>

definition Read_T :: "nat \<Rightarrow> u64 \<Rightarrow> Impl \<Rightarrow> u64 \<times> Impl" where
  "Read_T n a s =
     (let (p, rasterizer) = GetPointerImpl s a;
          s1 = (if rasterizer then HandleRasterizerDownload a (of_nat n) s else s)
      in (case host_read p n (host s1) of None \<Rightarrow> 0 | Some bs \<Rightarrow> store_le 0 bs, s1))"

definition Write_T :: "nat \<Rightarrow> u64 \<Rightarrow> u64 \<Rightarrow> Impl \<Rightarrow> Impl" where
  "Write_T n a data s =
     (let (p, rasterizer) = GetPointerImpl s a;
          s1 = (if rasterizer then HandleRasterizerWrite a (of_nat n) s else s)
      in case host_write p (le_bytes n data) s1 of None \<Rightarrow> s1 | Some s2 \<Rightarrow> s2)"

definition Read8 :: "u64 \<Rightarrow> Impl \<Rightarrow> u8 \<times> Impl" where
  "Read8 a s = (let (v, s1) = Read_T 1 a s in (ucast v, s1))"

definition Read16 :: "u64 \<Rightarrow> Impl \<Rightarrow> u16 \<times> Impl" where
  "Read16 a s =
     (if a AND 1 = 0 then (let (v, s1) = Read_T 2 a s in (ucast v, s1))
      else (let (x, s1) = Read_T 1 a s;
                (y, s2) = Read_T 1 (a + 1) s1
            in (ucast (push_bit 8 (ucast y :: u32) OR (ucast x :: u32)), s2)))"

definition Read32 :: "u64 \<Rightarrow> Impl \<Rightarrow> u32 \<times> Impl" where
  "Read32 a s =
     (if a AND 3 = 0 then (let (v, s1) = Read_T 4 a s in (ucast v, s1))
      else (let (x, s1) = Read16 a s;
                (y, s2) = Read16 (a + 2) s1
            in (push_bit 16 (ucast y) OR ucast x, s2)))"

definition Read64 :: "u64 \<Rightarrow> Impl \<Rightarrow> u64 \<times> Impl" where
  "Read64 a s =
     (if a AND 7 = 0 then Read_T 8 a s
      else (let (x, s1) = Read32 a s;
                (y, s2) = Read32 (a + 4) s1
            in (push_bit 32 (ucast y) OR ucast x, s2)))"

definition Write8 :: "u64 \<Rightarrow> u8 \<Rightarrow> Impl \<Rightarrow> Impl" where
  "Write8 a data s = Write_T 1 a (ucast data) s"

definition Write16 :: "u64 \<Rightarrow> u16 \<Rightarrow> Impl \<Rightarrow> Impl" where
  "Write16 a data s =
     (if a AND 1 = 0 then Write_T 2 a (ucast data) s
      else Write_T 1 (a + 1) (ucast (ucast (drop_bit 8 data) :: u8))
             (Write_T 1 a (ucast (ucast data :: u8)) s))"

definition Write32 :: "u64 \<Rightarrow> u32 \<Rightarrow> Impl \<Rightarrow> Impl" where
  "Write32 a data s =
     (if a AND 3 = 0 then Write_T 4 a (ucast data) s
      else Write16 (a + 2) (ucast (drop_bit 16 data)) (Write16 a (ucast data) s))"

definition Write64 :: "u64 \<Rightarrow> u64 \<Rightarrow> Impl \<Rightarrow> Impl" where
  "Write64 a data s =
     (if a AND 7 = 0 then Write_T 8 a data s
      else Write32 (a + 4) (ucast (drop_bit 32 data)) (Write32 a (ucast data) s))"

text \<open>
  \<^verbatim>\<open>WriteExclusive\<close>: an atomic compare-and-swap on the host, or success when there is no memory.
\<close>

definition WriteExclusive_T :: "nat \<Rightarrow> u64 \<Rightarrow> u64 \<Rightarrow> u64 \<Rightarrow> Impl \<Rightarrow> bool \<times> Impl" where
  "WriteExclusive_T n a data expected s =
     (let (p, rasterizer) = GetPointerImpl s a;
          s1 = (if rasterizer then HandleRasterizerWrite a (of_nat n) s else s)
      in if p \<noteq> 0
         then (if map (\<lambda>i. host s1 (p + of_nat i)) [0..<n] = le_bytes n expected
               then (True, s1\<lparr>host := host_store p (le_bytes n data) (host s1)\<rparr>)
               else (False, s1))
         else (True, s1))"

text \<open>\<^verbatim>\<open>ReadCString\<close>: at most \<open>max_length\<close> characters, up to the terminator.\<close>

fun ReadCString :: "u64 \<Rightarrow> nat \<Rightarrow> Impl \<Rightarrow> u8 list \<times> Impl" where
  "ReadCString vaddr 0 s = ([], s)"
| "ReadCString vaddr (Suc n) s =
     (let (c, s1) = Read8 vaddr s in
      if c = 0 then ([], s1)
      else (let (cs, s2) = ReadCString (vaddr + 1) n s1 in (c # cs, s2)))"

section \<open>Walking a block\<close>

text \<open>
  The callbacks of a walk act on the memory and on the variables they capture (\<open>'b\<close>); \<open>None\<close> is
  a null dereference in one of them. They receive the offset, the amount, and the guest address
  or the host pointer, as in the source.
\<close>

type_synonym 'b walk_state = "Impl \<times> 'b"
type_synonym 'b on_unmapped = "u64 \<Rightarrow> u64 \<Rightarrow> u64 \<Rightarrow> 'b walk_state \<Rightarrow> 'b walk_state option"
type_synonym 'b on_memory = "u64 \<Rightarrow> u64 \<Rightarrow> u64 \<Rightarrow> 'b walk_state \<Rightarrow> 'b walk_state option"
type_synonym 'b on_rasterizer = "u64 \<Rightarrow> u64 \<Rightarrow> u64 \<Rightarrow> u64 \<Rightarrow> 'b walk_state \<Rightarrow> 'b walk_state option"

text \<open>The switch in the loop body; the Boolean is false where \<^verbatim>\<open>user_accessible\<close> is cleared.\<close>

definition walk_page ::
  "'b on_unmapped \<Rightarrow> 'b on_memory \<Rightarrow> 'b on_rasterizer \<Rightarrow> u64 \<Rightarrow> u64 \<Rightarrow> u64 \<Rightarrow> u64 \<Rightarrow> 'b walk_state \<Rightarrow>
   (bool \<times> 'b walk_state) option" where
  "walk_page on_unmapped on_memory on_rasterizer offset copy_amount page_index page_offset st =
     (let current_vaddr = push_bit YUZU_PAGEBITS page_index + page_offset;
          (pointer, type) = PointerType (ptr (entry_of (fst st) page_index))
      in case type of
           Unmapped \<Rightarrow> map_option (Pair False) (on_unmapped offset copy_amount current_vaddr st)
         | Memory \<Rightarrow>
             map_option (Pair True)
               (on_memory offset copy_amount (pointer + page_offset + push_bit YUZU_PAGEBITS page_index) st)
         | DebugMemory \<Rightarrow>
             map_option (Pair True)
               (on_memory offset copy_amount (GetPointerFromDebugMemory (fst st) current_vaddr) st)
         | RasterizerCachedMemory \<Rightarrow>
             map_option (Pair True)
               (on_rasterizer current_vaddr offset copy_amount
                  (GetPointerFromRasterizerCachedMemory (fst st) current_vaddr) st))"

text \<open>
  The loop. An offset of a whole page or more never occurs; the guard makes the recursion
  visibly well-founded.
\<close>

function walk_loop ::
  "'b on_unmapped \<Rightarrow> 'b on_memory \<Rightarrow> 'b on_rasterizer \<Rightarrow> u64 \<Rightarrow> u64 \<Rightarrow> u64 \<Rightarrow> u64 \<Rightarrow> bool \<Rightarrow> 'b walk_state \<Rightarrow>
   (bool \<times> 'b walk_state) option" where
  "walk_loop fu fm fr offset remaining_size page_index page_offset user_accessible st =
     (if remaining_size = 0 then Some (user_accessible, st)
      else if page_offset \<ge> YUZU_PAGESIZE then None
      else
        (let copy_amount = min (YUZU_PAGESIZE - page_offset) remaining_size in
         case walk_page fu fm fr offset copy_amount page_index page_offset st of
           None \<Rightarrow> None
         | Some (accessible, st1) \<Rightarrow>
             walk_loop fu fm fr (offset + copy_amount) (remaining_size - copy_amount) (page_index + 1) 0
               (user_accessible \<and> accessible) st1))"
  by pat_completeness auto

lemma copy_amount_decreases:
  assumes "(r :: u64) \<noteq> 0" "po < YUZU_PAGESIZE"
  shows "unat (r - min (YUZU_PAGESIZE - po) r) < unat r"
proof -
  let ?c = "min (YUZU_PAGESIZE - po) r"
  have "?c \<le> r" by simp
  moreover have "?c \<noteq> 0" using assms by (auto simp: min_def)
  ultimately show ?thesis
    by (metis assms(1) diff_less unat_gt_0 unat_sub word_neq_0_conv)
qed

termination walk_loop
  by (relation "measure (\<lambda>(_, _, _, _, r, _, _, _, _). unat r)")
     (auto intro: copy_amount_decreases simp: not_le)

declare walk_loop.simps [simp del]

definition WalkBlock ::
  "u64 \<Rightarrow> u64 \<Rightarrow> 'b on_unmapped \<Rightarrow> 'b on_memory \<Rightarrow> 'b on_rasterizer \<Rightarrow> 'b walk_state \<Rightarrow>
   (bool \<times> 'b walk_state) option" where
  "WalkBlock a sz on_unmapped on_memory on_rasterizer st =
     (if \<not> AddressSpaceContains (current (fst st)) a sz
      then map_option (Pair False) (on_unmapped 0 sz a st)
      else walk_loop on_unmapped on_memory on_rasterizer 0 sz (page_of a) (a AND YUZU_PAGEMASK) True st)"

section \<open>Block operations\<close>

text \<open>\<^verbatim>\<open>memcpy\<close> into the caller's buffer at an offset.\<close>

definition put_bytes :: "nat \<Rightarrow> u8 list \<Rightarrow> u8 list \<Rightarrow> u8 list" where
  "put_bytes off bs buf = take off buf @ bs @ drop (off + length bs) buf"

definition copy_out :: "u64 \<Rightarrow> u64 \<Rightarrow> u64 \<Rightarrow> u8 list walk_state \<Rightarrow> u8 list walk_state option" where
  "copy_out offset copy_amount p st =
     map_option (\<lambda>bs. (fst st, put_bytes (unat offset) bs (snd st)))
       (host_read p (unat copy_amount) (host (fst st)))"

definition ReadBlockImpl :: "u64 \<Rightarrow> u64 \<Rightarrow> bool \<Rightarrow> u8 list walk_state \<Rightarrow> (bool \<times> u8 list walk_state) option" where
  "ReadBlockImpl a sz unsafe st =
     WalkBlock a sz
       (\<lambda>offset copy_amount current_vaddr (s, buf).
          Some (s, put_bytes (unat offset) (replicate (unat copy_amount) 0) buf))
       copy_out
       (\<lambda>current_vaddr offset copy_amount p (s, buf).
          copy_out offset copy_amount p
            (if unsafe then s else HandleRasterizerDownload current_vaddr copy_amount s, buf))
       st"

definition slice :: "u64 \<Rightarrow> u64 \<Rightarrow> u8 list \<Rightarrow> u8 list" where
  "slice offset amount bs = take (unat amount) (drop (unat offset) bs)"

definition copy_in :: "u8 list \<Rightarrow> u64 \<Rightarrow> u64 \<Rightarrow> u64 \<Rightarrow> unit walk_state \<Rightarrow> unit walk_state option" where
  "copy_in buffer offset copy_amount p st =
     map_option (\<lambda>s. (s, ())) (host_write p (slice offset copy_amount buffer) (fst st))"

definition WriteBlockImpl :: "u64 \<Rightarrow> u8 list \<Rightarrow> u64 \<Rightarrow> bool \<Rightarrow> Impl \<Rightarrow> (bool \<times> Impl) option" where
  "WriteBlockImpl a buffer sz unsafe s =
     map_option (map_prod id fst)
       (WalkBlock a sz
          (\<lambda>offset copy_amount current_vaddr st. Some st)
          (copy_in buffer)
          (\<lambda>current_vaddr offset copy_amount p (s, u).
             copy_in buffer offset copy_amount p
               (if unsafe then s else HandleRasterizerWrite current_vaddr copy_amount s, u))
          (s, ()))"

definition clear_host :: "u64 \<Rightarrow> u64 \<Rightarrow> u64 \<Rightarrow> unit walk_state \<Rightarrow> unit walk_state option" where
  "clear_host offset copy_amount p st =
     map_option (\<lambda>s. (s, ())) (host_write p (replicate (unat copy_amount) 0) (fst st))"

definition ZeroBlock :: "u64 \<Rightarrow> u64 \<Rightarrow> Impl \<Rightarrow> (bool \<times> Impl) option" where
  "ZeroBlock a sz s =
     map_option (map_prod id fst)
       (WalkBlock a sz
          (\<lambda>offset copy_amount current_vaddr st. Some st)
          clear_host
          (\<lambda>current_vaddr offset copy_amount p (s, u).
             clear_host offset copy_amount p (HandleRasterizerWrite current_vaddr copy_amount s, u))
          (s, ()))"

text \<open>
  \<^verbatim>\<open>CopyBlock\<close> as written: it walks the destination, and hands the destination's own host pointer
  to \<^verbatim>\<open>WriteBlockImpl\<close>; the source address only appears in a log message.
\<close>

definition CopyBlock :: "u64 \<Rightarrow> u64 \<Rightarrow> u64 \<Rightarrow> Impl \<Rightarrow> (bool \<times> Impl) option" where
  "CopyBlock dest_addr src_addr sz s =
     (let copy_from = (\<lambda>offset copy_amount p s.
            case host_read p (unat copy_amount) (host s) of
              None \<Rightarrow> None
            | Some bs \<Rightarrow> map_option (\<lambda>(_, s1). (s1, ())) (WriteBlockImpl (dest_addr + offset) bs copy_amount False s))
      in map_option (map_prod id fst)
           (WalkBlock dest_addr sz
              (\<lambda>offset copy_amount current_vaddr (s, u).
                 map_option (\<lambda>(_, s1). (s1, ())) (ZeroBlock (dest_addr + offset) copy_amount s))
              (\<lambda>offset copy_amount p (s, u). copy_from offset copy_amount p s)
              (\<lambda>current_vaddr offset copy_amount p (s, u).
                 copy_from offset copy_amount p (HandleRasterizerDownload current_vaddr copy_amount s))
              (s, ())))"

text \<open>
  The cache maintenance operations: the callback runs on the pages the rasterizer caches, and the
  result says whether some page was unmapped (\<^verbatim>\<open>ResultInvalidCurrentMemory\<close>).
\<close>

datatype cache_result = ResultSuccess | ResultInvalidCurrentMemory

definition PerformCacheOperation ::
  "u64 \<Rightarrow> u64 \<Rightarrow> (u64 \<Rightarrow> u64 \<Rightarrow> u64 \<Rightarrow> Impl \<Rightarrow> Impl) \<Rightarrow> Impl \<Rightarrow> (cache_result \<times> Impl) option" where
  "PerformCacheOperation dest_addr sz cb s =
     map_option (\<lambda>(_, s1, had_unmapped). (if had_unmapped then ResultInvalidCurrentMemory else ResultSuccess, s1))
       (WalkBlock dest_addr sz
          (\<lambda>offset copy_amount current_vaddr (s, had_unmapped). Some (s, True))
          (\<lambda>offset copy_amount p st. Some st)
          (\<lambda>current_vaddr offset copy_amount p (s, had_unmapped).
             Some (cb current_vaddr offset copy_amount s, had_unmapped))
          (s, False))"

definition InvalidateDataCache :: "u64 \<Rightarrow> u64 \<Rightarrow> Impl \<Rightarrow> (cache_result \<times> Impl) option" where
  "InvalidateDataCache dest_addr sz s =
     PerformCacheOperation dest_addr sz
       (\<lambda>current_vaddr offset block_size. HandleRasterizerDownload current_vaddr block_size) s"

definition StoreDataCache :: "u64 \<Rightarrow> u64 \<Rightarrow> Impl \<Rightarrow> (cache_result \<times> Impl) option" where
  "StoreDataCache dest_addr sz s =
     PerformCacheOperation dest_addr sz
       (\<lambda>current_vaddr offset block_size. HandleRasterizerWrite current_vaddr block_size) s"

definition FlushDataCache :: "u64 \<Rightarrow> u64 \<Rightarrow> Impl \<Rightarrow> (cache_result \<times> Impl) option" where
  "FlushDataCache dest_addr sz s =
     PerformCacheOperation dest_addr sz
       (\<lambda>current_vaddr offset block_size. HandleRasterizerWrite current_vaddr block_size) s"

end
