(* ===== verification/GuestMemory_Translation.thy ===== *)
theory GuestMemory_Translation
  imports GuestMemory_Access
begin

text \<open>
  What a guest address means: the abstract translation of the current page table, the invariant
  that ties the three representations of a mapped page together (tagged pointer, debug page,
  rasterizer-cached page), and that mapping establishes it while attribute changes keep the
  translation.
\<close>

section \<open>The invariant and the translation\<close>

text \<open>
  A mapped page has a backing offset; a plain page stores the matching host pointer as well, a
  debug or cached page stores none. Host pages are aligned and not null.
\<close>

definition entry_wf :: "Impl \<Rightarrow> u64 \<Rightarrow> PageEntryData \<Rightarrow> bool" where
  "entry_wf s page e =
     (let (p, t) = PointerType (ptr e);
          q = DeviceMemory_GetPointer s (addr e)
      in case t of
           Unmapped \<Rightarrow> p = 0
         | Memory \<Rightarrow> p = q \<and> p \<noteq> 0 \<and> addr e \<noteq> 0 \<and> page_aligned q \<and> q + push_bit YUZU_PAGEBITS page \<noteq> 0
         | _ \<Rightarrow> p = 0 \<and> q \<noteq> 0 \<and> addr e \<noteq> 0 \<and> page_aligned q \<and> q + push_bit YUZU_PAGEBITS page \<noteq> 0)"

text \<open>The width of a guest address space and the number of entries agree.\<close>

definition table_shape :: "PageTable \<Rightarrow> bool" where
  "table_shape pt \<longleftrightarrow>
     12 \<le> current_address_space_width_in_bits pt \<and> current_address_space_width_in_bits pt \<le> 48 \<and>
     entries_size pt = push_bit (current_address_space_width_in_bits pt - 12) 1"

definition table_wf :: "Impl \<Rightarrow> nat \<Rightarrow> bool" where
  "table_wf s t \<longleftrightarrow> table_shape (tables s t) \<and>
     (\<forall>page. page < entries_size (tables s t) \<longrightarrow> entry_wf s page (entries (tables s t) page))"

abbreviation mem_wf :: "Impl \<Rightarrow> bool" where
  "mem_wf s \<equiv> table_wf s (current_page_table s)"

definition mapped :: "PageEntryData \<Rightarrow> bool" where
  "mapped e \<longleftrightarrow> ExtractType (ptr e) \<noteq> Unmapped"

definition translate_in :: "Impl \<Rightarrow> nat \<Rightarrow> u64 \<Rightarrow> u64 option" where
  "translate_in s t va =
     (let e = entries (tables s t) (page_of va)
      in if page_of va < entries_size (tables s t) \<and> mapped e
         then Some (DeviceMemory_GetPointer s (addr e) + va) else None)"

abbreviation translate :: "Impl \<Rightarrow> u64 \<Rightarrow> u64 option" where
  "translate s \<equiv> translate_in s (current_page_table s)"

text \<open>The byte at a guest address, if there is memory.\<close>

definition byte_at :: "Impl \<Rightarrow> u64 \<Rightarrow> u8 option" where
  "byte_at s va = map_option (host s) (translate s va)"

lemma GetPointer_linear:
  "DeviceMemory_GetPointer s (a + b) = DeviceMemory_GetPointer s a + b"
  "DeviceMemory_GetPointer s (a - b) = DeviceMemory_GetPointer s a - b"
  by (simp_all add: DeviceMemory_GetPointer_def algebra_simps)

section \<open>Pages of an address\<close>

lemma split_address: "push_bit YUZU_PAGEBITS (page_of va) + (va AND YUZU_PAGEMASK) = (va :: u64)"
  by (simp add: pagemask_mask take_bit_eq_mask [symmetric] page_constants(1) bits_ident)

lemma align_down: "va AND NOT YUZU_PAGEMASK = push_bit YUZU_PAGEBITS (page_of (va :: u64))"
  by (rule bit_eqI)
     (auto simp: pagemask_mask page_constants(1) bit_and_iff bit_not_iff bit_mask_iff bit_push_bit_iff
       bit_drop_bit_eq)

lemma shifted_page: "page_aligned (push_bit YUZU_PAGEBITS (p :: u64))"
  by (auto simp: page_aligned_def bit_eq_iff pagemask_mask page_constants(1) bit_and_iff bit_mask_iff
      bit_push_bit_iff)

lemma page_aligned_iff: "page_aligned p \<longleftrightarrow> unat p mod 4096 = 0"
  unfolding page_aligned_def unat_pagemask [symmetric] by (simp add: unat_eq_zero)

lemma page_aligned_add_low:
  assumes "page_aligned p" shows "p + (va AND YUZU_PAGEMASK) = p OR (va AND YUZU_PAGEMASK)"
  by (rule disjunctive_add_eq_or)
     (use page_aligned_bit [OF assms] in \<open>auto simp: bit_eq_iff pagemask_mask bit_and_iff bit_mask_iff\<close>)

lemma page_aligned_add_low_0: "page_aligned p \<Longrightarrow> p \<noteq> 0 \<Longrightarrow> p + (va AND YUZU_PAGEMASK) \<noteq> 0"
  by (simp add: page_aligned_add_low or_eq_0_iff)

lemma page_aligned_add: "page_aligned p \<Longrightarrow> page_aligned q \<Longrightarrow> page_aligned (p + q)"
proof -
  assume "page_aligned p" "page_aligned q"
  then have "(unat p + unat q) mod 2 ^ 64 mod 4096 = 0"
    by (subst mod_mod_cancel) (auto simp: page_aligned_iff mod_eq_0_iff_dvd)
  then show ?thesis by (simp add: page_aligned_iff unat_word_ariths)
qed

section \<open>Pointer lookups agree with the translation\<close>

lemma entry_wf_host:
  assumes "entry_wf s (page_of va) e" "mapped e"
  shows "DeviceMemory_GetPointer s (addr e) + va \<noteq> 0" "addr e \<noteq> 0"
proof -
  let ?q = "DeviceMemory_GetPointer s (addr e)"
  have "page_aligned ?q" "?q + push_bit YUZU_PAGEBITS (page_of va) \<noteq> 0" and a: "addr e \<noteq> 0"
    using assms by (auto simp: entry_wf_def mapped_def PointerType_def Let_def split: PageType.splits)
  then have "?q + push_bit YUZU_PAGEBITS (page_of va) + (va AND YUZU_PAGEMASK) \<noteq> 0"
    by (intro page_aligned_add_low_0 page_aligned_add shifted_page)
  then show "?q + va \<noteq> 0" by (simp only: add.assoc split_address not_False_eq_True)
  show "addr e \<noteq> 0" by (rule a)
qed

abbreviation space_size :: "PageTable \<Rightarrow> nat" where
  "space_size pt \<equiv> 2 ^ current_address_space_width_in_bits pt"

lemma unat_push_bit_one: "n < 64 \<Longrightarrow> unat (push_bit n 1 :: u64) = 2 ^ n"
proof -
  assume n: "n < 64"
  have "push_bit n (1 :: u64) = of_nat (2 ^ n)" by simp
  moreover have "(2 :: nat) ^ n < 2 ^ 64" using n by (intro power_strict_increasing) simp_all
  ultimately show "unat (push_bit n (1 :: u64)) = 2 ^ n"
    using unat_of_nat [where 'a = 64, of "2 ^ n"] by (simp only: len_of_numeral_defs) simp
qed

lemma space_size_bound: "table_shape pt \<Longrightarrow> space_size pt \<le> 2 ^ 48"
  unfolding table_shape_def by (intro power_increasing) simp_all

lemma AddressSpaceContains_iff:
  assumes "table_shape pt"
  shows "AddressSpaceContains pt a sz \<longleftrightarrow> unat a + unat sz \<le> space_size pt"
proof -
  have "unat (push_bit (current_address_space_width_in_bits pt) 1 :: u64) = space_size pt"
    using assms by (intro unat_push_bit_one) (simp add: table_shape_def)
  then show ?thesis
    using space_size_bound [OF assms]
      unsigned_less [of sz, where 'a = nat]
    by (auto simp: AddressSpaceContains_def Let_def word_le_nat_alt unat_plus_if_size word_size)
qed

lemma page_in_table:
  assumes "table_shape pt"
  shows "page_of va < entries_size pt \<longleftrightarrow> unat va < space_size pt"
proof -
  let ?w = "current_address_space_width_in_bits pt"
  have "unat (entries_size pt) = 2 ^ (?w - 12)"
    using assms unat_push_bit_one [of "?w - 12"] by (auto simp: table_shape_def)
  moreover have "(2 :: nat) ^ ?w = 4096 * 2 ^ (?w - 12)"
    using assms power_add [of "2 :: nat" 12 "?w - 12"] by (simp add: table_shape_def)
  ultimately show ?thesis
    by (simp add: word_less_nat_alt unat_page_of div_less_iff_less_mult mult.commute)
qed

lemma table_wf_entry:
  "table_wf s t \<Longrightarrow> unat va < space_size (tables s t) \<Longrightarrow>
   entry_wf s (page_of va) (entries (tables s t) (page_of va))"
  using page_in_table [of "tables s t" va] by (simp add: table_wf_def)

lemma translate_None: "table_wf s t \<Longrightarrow> space_size (tables s t) \<le> unat va \<Longrightarrow> translate_in s t va = None"
  using page_in_table [of "tables s t" va] by (auto simp: translate_in_def table_wf_def Let_def)

lemma translate_in_space:
  "table_wf s t \<Longrightarrow> unat va < space_size (tables s t) \<Longrightarrow>
   translate_in s t va =
     (let e = entries (tables s t) (page_of va)
      in if mapped e then Some (DeviceMemory_GetPointer s (addr e) + va) else None)"
  using page_in_table [of "tables s t" va] by (auto simp: translate_in_def table_wf_def Let_def)

lemma translate_not_null: "table_wf s t \<Longrightarrow> translate_in s t va \<noteq> Some 0"
  using translate_None [of s t va] translate_in_space [of s t va] table_wf_entry [of s t va]
    entry_wf_host(1) [of s va "entries (tables s t) (page_of va)"]
  by (cases "unat va < space_size (tables s t)") (auto simp: Let_def not_less)

text \<open>
  Below the 48 bits the lookup masks, a pointer lookup is the translation, whatever the page's
  representation is.
\<close>

lemma GetPointerImpl_translate:
  assumes wf: "mem_wf s"
  shows "fst (GetPointerImpl s a) =
    (case translate s (a AND 0xffffffffffff) of None \<Rightarrow> 0 | Some h \<Rightarrow> h)"
proof -
  let ?va = "a AND 0xffffffffffff"
  have shape: "table_shape (current s)" using wf by (simp add: table_wf_def)
  have c: "AddressSpaceContains (current s) ?va 1 \<longleftrightarrow> unat ?va < space_size (current s)"
    using AddressSpaceContains_iff [OF shape, of ?va 1] by auto
  show ?thesis
  proof (cases "unat ?va < space_size (current s)")
    case False
    then show ?thesis
      using translate_None [OF wf, of ?va] c by (simp add: GetPointerImpl_def Let_def not_less)
  next
    case True
    let ?e = "entry_of s (page_of ?va)"
    have e: "entry_wf s (page_of ?va) ?e" using wf True by (rule table_wf_entry)
    have t: "translate s ?va = (if mapped ?e then Some (DeviceMemory_GetPointer s (addr ?e) + ?va) else None)"
      using translate_in_space [OF wf True] by (simp add: Let_def)
    show ?thesis
      using True e c unfolding t
      by (auto simp: GetPointerImpl_def entry_wf_def mapped_def PointerType_def Let_def
          GetPointerFromDebugMemory_def GetPointerFromRasterizerCachedMemory_def GetPointer_linear
          split: PageType.splits)
  qed
qed

lemma IsValidVirtualAddress_iff:
  assumes wf: "mem_wf s"
  shows "IsValidVirtualAddress s va \<longleftrightarrow> translate s va \<noteq> None"
proof -
  have e: "entry_wf s (page_of va) (entry_of s (page_of va))" if "page_of va < entries_size (current s)"
    using wf that by (simp add: table_wf_def)
  show ?thesis
    using e
    by (auto simp: IsValidVirtualAddress_def translate_in_def entry_wf_def mapped_def PointerType_def
        Let_def not_le split: PageType.splits)
qed

section \<open>Attribute changes keep the translation\<close>

text \<open>Two states in which every guest address of table \<open>t\<close> means the same host byte.\<close>

definition same_mapping :: "nat \<Rightarrow> Impl \<Rightarrow> Impl \<Rightarrow> bool" where
  "same_mapping t s s' \<longleftrightarrow> backing_base s' = backing_base s \<and> host s' = host s \<and>
     current_page_table s' = current_page_table s \<and>
     entries_size (tables s' t) = entries_size (tables s t) \<and>
     current_address_space_width_in_bits (tables s' t) = current_address_space_width_in_bits (tables s t) \<and>
     (\<forall>page. addr (entries (tables s' t) page) = addr (entries (tables s t) page)) \<and>
     (\<forall>page < entries_size (tables s t).
        mapped (entries (tables s' t) page) = mapped (entries (tables s t) page))"

lemma same_mapping_refl [simp]: "same_mapping t s s"
  by (simp add: same_mapping_def)

lemma same_mapping_trans: "same_mapping t s s1 \<Longrightarrow> same_mapping t s1 s2 \<Longrightarrow> same_mapping t s s2"
  by (simp add: same_mapping_def)

lemma same_mapping_translate: "same_mapping t s s' \<Longrightarrow> translate_in s' t = translate_in s t"
  by (rule ext) (auto simp: same_mapping_def translate_in_def Let_def DeviceMemory_GetPointer_def)

lemma update_entry_fields [simp]:
  "current_page_table (update_entry t page f s) = current_page_table s"
  "backing_base (update_entry t page f s) = backing_base s"
  "host (update_entry t page f s) = host s"
  "entries_size (tables (update_entry t page f s) u) = entries_size (tables s u)"
  "fastmem_arena (tables (update_entry t page f s) u) = fastmem_arena (tables s u)"
  "current_address_space_width_in_bits (tables (update_entry t page f s) u) =
   current_address_space_width_in_bits (tables s u)"
  "entries (tables (update_entry t page f s) u) q =
   (if t = u \<and> q = page then f (entries (tables s t) page) else entries (tables s u) q)"
  "DeviceMemory_GetPointer (update_entry t page f s) = DeviceMemory_GetPointer s"
  by (auto simp: update_entry_def DeviceMemory_GetPointer_def fun_eq_iff)

lemma entry_wf_cong:
  "backing_base s' = backing_base s \<Longrightarrow> entry_wf s' page e = entry_wf s page e"
  by (simp add: entry_wf_def DeviceMemory_GetPointer_def)

lemma table_shape_update_entry [simp]:
  "table_shape (tables (update_entry t page f s) u) = table_shape (tables s u)"
  by (simp add: table_shape_def)

lemma table_wf_update_entry:
  "table_wf s t \<Longrightarrow> (page < entries_size (tables s t) \<Longrightarrow> entry_wf s page (f (entries (tables s t) page))) \<Longrightarrow>
   table_wf (update_entry t page f s) t"
  by (auto simp: table_wf_def entry_wf_cong [of "update_entry t page f s" s])

lemma set_ptr_keeps:
  assumes "mem_wf s"
    and "page < entries_size (current s) \<Longrightarrow> mapped (entry_of s page)"
    and "page < entries_size (current s) \<Longrightarrow> entry_wf s page ((entry_of s page)\<lparr>ptr := PageInfo_Store p t\<rparr>)"
    and "page_aligned p" "t \<noteq> Unmapped"
  shows "mem_wf (set_ptr page p t s) \<and> same_mapping (current_page_table s) s (set_ptr page p t s)"
  using assms table_wf_update_entry [of s "current_page_table s" page "\<lambda>e. e\<lparr>ptr := PageInfo_Store p t\<rparr>"]
  by (auto simp: same_mapping_def mapped_def)

text \<open>The page in its three mapped representations.\<close>

lemma entry_wf_retag:
  assumes "entry_wf s page e" "mapped e"
  shows "entry_wf s page (e\<lparr>ptr := PageInfo_Store 0 DebugMemory\<rparr>)"
    and "entry_wf s page (e\<lparr>ptr := PageInfo_Store 0 RasterizerCachedMemory\<rparr>)"
    and "entry_wf s page (e\<lparr>ptr := PageInfo_Store (DeviceMemory_GetPointer s (addr e)) Memory\<rparr>)"
    and "page_aligned (DeviceMemory_GetPointer s (addr e))"
  using assms
  by (auto simp: entry_wf_def mapped_def PointerType_def Let_def split: PageType.splits)

lemma pointer_of_page:
  assumes "entry_wf s (page_of va) (entry_of s (page_of va))" "mapped (entry_of s (page_of va))"
  shows "GetPointerFromDebugMemory s (va AND NOT YUZU_PAGEMASK) - (va AND NOT YUZU_PAGEMASK) =
      DeviceMemory_GetPointer s (addr (entry_of s (page_of va)))"
    and "GetPointerFromRasterizerCachedMemory s (va AND NOT YUZU_PAGEMASK) - (va AND NOT YUZU_PAGEMASK) =
      DeviceMemory_GetPointer s (addr (entry_of s (page_of va)))"
    and "GetPointerFromRasterizerCachedMemory s (va AND NOT YUZU_PAGEMASK) \<noteq> 0"
proof -
  have p: "page_of (va AND NOT YUZU_PAGEMASK) = page_of va"
    by (rule bit_eqI)
       (auto simp: page_constants(1) pagemask_mask bit_drop_bit_eq bit_and_iff bit_not_iff bit_mask_iff
         dest: bit_imp_le_length)
  note h = entry_wf_host [of s "va AND NOT YUZU_PAGEMASK", unfolded p, OF assms]
  show "GetPointerFromDebugMemory s (va AND NOT YUZU_PAGEMASK) - (va AND NOT YUZU_PAGEMASK) =
      DeviceMemory_GetPointer s (addr (entry_of s (page_of va)))"
    and "GetPointerFromRasterizerCachedMemory s (va AND NOT YUZU_PAGEMASK) - (va AND NOT YUZU_PAGEMASK) =
      DeviceMemory_GetPointer s (addr (entry_of s (page_of va)))"
    and "GetPointerFromRasterizerCachedMemory s (va AND NOT YUZU_PAGEMASK) \<noteq> 0"
    using h by (simp_all add: GetPointerFromDebugMemory_def GetPointerFromRasterizerCachedMemory_def p
        Let_def GetPointer_linear
        del: drop_bit_and)
qed

text \<open>
  A page beyond the table can only be reached through an address outside the address space, which
  the callers of the page functions exclude.
\<close>

lemma mark_debug_page_keeps:
  assumes wf: "mem_wf s" and va: "page_of va < entries_size (current s)"
  shows "mem_wf (mark_debug_page d va s) \<and> same_mapping (current_page_table s) s (mark_debug_page d va s)"
proof -
  let ?e = "entry_of s (page_of va)"
  have e: "entry_wf s (page_of va) ?e" using wf va by (simp add: table_wf_def)
  note r = entry_wf_retag [OF e] and p = pointer_of_page [OF e]
  have set: "mem_wf (set_ptr (page_of va) q t s) \<and> same_mapping (current_page_table s) s (set_ptr (page_of va) q t s)"
    if "mapped ?e" "entry_wf s (page_of va) (?e\<lparr>ptr := PageInfo_Store q t\<rparr>)" "page_aligned q" "t \<noteq> Unmapped" for q t
    using set_ptr_keeps [OF wf, of "page_of va" q t] that by blast
  show ?thesis
  proof (cases "ExtractType (ptr ?e)")
    case Unmapped
    with wf show ?thesis by (simp add: mark_debug_page_def Let_def)
  next
    case RasterizerCachedMemory
    with wf show ?thesis by (simp add: mark_debug_page_def Let_def)
  next
    case Memory
    then have "mapped ?e" by (simp add: mapped_def)
    with Memory set [of 0 DebugMemory] r(1) wf show ?thesis by (simp add: mark_debug_page_def Let_def)
  next
    case DebugMemory
    then have m: "mapped ?e" by (simp add: mapped_def)
    with DebugMemory set [OF m r(3,4)] p(1) wf show ?thesis
      by (simp add: mark_debug_page_def Let_def)
  qed
qed

lemma mark_cached_page_keeps:
  assumes wf: "mem_wf s" and va: "page_of va < entries_size (current s)"
  shows "mem_wf (mark_cached_page c va s) \<and> same_mapping (current_page_table s) s (mark_cached_page c va s)"
proof -
  let ?e = "entry_of s (page_of va)"
  have e: "entry_wf s (page_of va) ?e" using wf va by (simp add: table_wf_def)
  note r = entry_wf_retag [OF e] and p = pointer_of_page [OF e]
  have set: "mem_wf (set_ptr (page_of va) q t s) \<and> same_mapping (current_page_table s) s (set_ptr (page_of va) q t s)"
    if "mapped ?e" "entry_wf s (page_of va) (?e\<lparr>ptr := PageInfo_Store q t\<rparr>)" "page_aligned q" "t \<noteq> Unmapped" for q t
    using set_ptr_keeps [OF wf, of "page_of va" q t] that by blast
  show ?thesis
  proof (cases "ExtractType (ptr ?e)")
    case Unmapped
    with wf show ?thesis by (simp add: mark_cached_page_def Let_def)
  next
    case RasterizerCachedMemory
    then have m: "mapped ?e" by (simp add: mapped_def)
    with RasterizerCachedMemory set [OF m r(3,4)] p(2,3) wf show ?thesis
      by (simp add: mark_cached_page_def Let_def)
  next
    case Memory
    then have "mapped ?e" by (simp add: mapped_def)
    with Memory set [of 0 RasterizerCachedMemory] r(2) wf show ?thesis
      by (simp add: mark_cached_page_def Let_def)
  next
    case DebugMemory
    then have "mapped ?e" by (simp add: mapped_def)
    with DebugMemory set [of 0 RasterizerCachedMemory] r(2) wf show ?thesis
      by (simp add: mark_cached_page_def Let_def)
  qed
qed

definition page_keeps :: "(u64 \<Rightarrow> Impl \<Rightarrow> Impl) \<Rightarrow> bool" where
  "page_keeps f \<longleftrightarrow>
     (\<forall>s va. mem_wf s \<longrightarrow> page_of va < entries_size (current s) \<longrightarrow>
        mem_wf (f va s) \<and> same_mapping (current_page_table s) s (f va s))"

lemma for_pages_keeps:
  assumes f: "page_keeps f"
  shows "mem_wf s \<Longrightarrow> (\<And>i. i < n \<Longrightarrow> page_of (va + of_nat i * YUZU_PAGESIZE) < entries_size (current s)) \<Longrightarrow>
    mem_wf (for_pages f n va s) \<and> same_mapping (current_page_table s) s (for_pages f n va s)"
proof (induction n arbitrary: va s)
  case 0
  then show ?case by simp
next
  case (Suc n)
  have s1: "mem_wf (f va s)" "same_mapping (current_page_table s) s (f va s)"
    using f Suc.prems(1) Suc.prems(2) [of 0] by (auto simp: page_keeps_def)
  then have c: "current_page_table (f va s) = current_page_table s"
    "entries_size (tables (f va s) (current_page_table s)) = entries_size (current s)"
    by (simp_all add: same_mapping_def)
  have "mem_wf (for_pages f n (va + YUZU_PAGESIZE) (f va s)) \<and>
      same_mapping (current_page_table (f va s)) (f va s) (for_pages f n (va + YUZU_PAGESIZE) (f va s))"
  proof (rule Suc.IH [OF s1(1)])
    fix i assume "i < n"
    then show "page_of (va + YUZU_PAGESIZE + of_nat i * YUZU_PAGESIZE) < entries_size (current (f va s))"
      using Suc.prems(2) [of "Suc i"] by (simp add: c algebra_simps)
  qed
  then show ?case using s1(2) same_mapping_trans c(1) by auto
qed

lemma region_pages:
  assumes shape: "table_shape pt" and v: "vaddr \<noteq> 0" and sp: "AddressSpaceContains pt vaddr sz"
    and i: "i < unat (num_pages_of vaddr sz)"
  shows "page_of (vaddr + of_nat i * YUZU_PAGESIZE) < entries_size pt"
proof -
  let ?V = "unat vaddr" and ?E = "unat vaddr + unat sz - 1"
  have le: "?V + unat sz \<le> space_size pt" using sp by (simp add: AddressSpaceContains_iff [OF shape])
  have b: "space_size pt \<le> 2 ^ 48" using shape by (rule space_size_bound)
  have V: "0 < ?V" using v by (simp add: unat_gt_0)
  have E: "unat (vaddr + sz - 1) = ?E"
  proof -
    have s: "unat (vaddr + sz) = ?V + unat sz" using le b by (simp add: unat_word_ariths)
    then have "1 \<le> vaddr + sz" using V by (simp add: word_le_nat_alt)
    then show ?thesis using s by (simp add: unat_sub)
  qed
  have "?V div 4096 \<le> ?E div 4096 + 1"
  proof -
    have "?V \<le> ?E + 4096" by simp
    then have "?V div 4096 \<le> (?E + 4096) div 4096" by (rule div_le_mono)
    then show ?thesis by simp
  qed
  moreover have "unat (page_of (vaddr + sz - 1) + 1) = ?E div 4096 + 1"
    using le b by (simp add: unat_word_ariths unat_page_of E)
  ultimately have "unat (num_pages_of vaddr sz) = ?E div 4096 + 1 - ?V div 4096"
    unfolding num_pages_of_def diff_add_eq
    by (subst unat_sub) (simp_all add: word_le_nat_alt unat_page_of)
  with i have ic: "?V div 4096 + i \<le> ?E div 4096" by linarith
  have "?V + i * 4096 < space_size pt"
  proof -
    define k :: nat where "k = 2 ^ (current_address_space_width_in_bits pt - 12)"
    have k: "space_size pt = k * 4096"
      using shape power_add [of "2 :: nat" 12 "current_address_space_width_in_bits pt - 12"]
      by (simp add: table_shape_def k_def)
    have "?E < k * 4096" using le V k by linarith
    then have "?E div 4096 < k" by (rule less_mult_imp_div_less)
    with ic have "(?V + i * 4096) div 4096 < k" by simp
    then show ?thesis unfolding k by (simp add: div_less_iff_less_mult)
  qed
  moreover from this b have "unat (vaddr + of_nat i * YUZU_PAGESIZE) = ?V + i * 4096"
    by (simp add: page_constants unat_word_ariths unat_of_nat)
  ultimately show ?thesis by (simp add: page_in_table [OF shape])
qed

lemma add_host_op_fields [simp]:
  "tables (add_host_op h s) = tables s" "current_page_table (add_host_op h s) = current_page_table s"
  "host (add_host_op h s) = host s" "backing_base (add_host_op h s) = backing_base s"
  by (simp_all add: add_host_op_def)

lemma table_wf_add_host_op [simp]: "table_wf (add_host_op h s) t = table_wf s t"
  by (simp add: table_wf_def entry_wf_cong [of "add_host_op h s" s])

lemma same_mapping_add_host_op [simp]: "same_mapping t (add_host_op h s) s' = same_mapping t s s'"
  by (simp add: same_mapping_def)

lemma mark_region_keeps:
  assumes "page_keeps f" "mem_wf s" "vaddr \<noteq> 0" "AddressSpaceContains (current s) vaddr sz"
  shows "mem_wf (for_pages f (unat (num_pages_of vaddr sz)) vaddr s) \<and>
    same_mapping (current_page_table s) s (for_pages f (unat (num_pages_of vaddr sz)) vaddr s)"
  using assms by (intro for_pages_keeps region_pages) (simp_all add: table_wf_def)

lemma MarkRegionDebug_keeps:
  assumes "mem_wf s"
  shows "mem_wf (MarkRegionDebug vaddr sz d s) \<and>
    same_mapping (current_page_table s) s (MarkRegionDebug vaddr sz d s)"
  using assms mark_region_keeps [of "mark_debug_page d" s vaddr sz]
    mark_region_keeps [of "mark_debug_page d" "add_host_op h s" vaddr sz for h]
  by (auto simp: MarkRegionDebug_def Let_def page_keeps_def mark_debug_page_keeps)

lemma RasterizerMarkRegionCached_keeps:
  assumes "mem_wf s"
  shows "mem_wf (RasterizerMarkRegionCached rf vaddr sz c s) \<and>
    same_mapping (current_page_table s) s (RasterizerMarkRegionCached rf vaddr sz c s)"
  using assms mark_region_keeps [of "mark_cached_page c" s vaddr sz]
    mark_region_keeps [of "mark_cached_page c" "add_host_op h s" vaddr sz for h]
  by (auto simp: RasterizerMarkRegionCached_def Let_def page_keeps_def mark_cached_page_keeps)

section \<open>Mapping and unmapping\<close>

lemma in_range_Suc:
  "n < 2 ^ 64 \<Longrightarrow> unat ((q :: u64) - b) < Suc n \<longleftrightarrow> q = b \<or> unat (q - (b + 1)) < n"
proof (cases "q = b")
  case False
  then have "1 \<le> q - b" by (simp add: word_le_nat_alt Suc_le_eq unat_gt_0)
  then have "unat (q - b - 1) = unat (q - b) - 1" by (simp add: unat_sub)
  moreover have "0 < unat (q - b)" using False by (simp add: unat_gt_0)
  ultimately show ?thesis using False by (auto simp: diff_diff_eq)
qed simp

lemma not_in_range_0: "n < 2 ^ 64 \<Longrightarrow> \<not> unat ((b :: u64) - (b + 1)) < n"
  by (simp add: unsigned_minus_1_eq_mask mask_eq_exp_minus_1)

lemma unmap_pages_fields [simp]:
  "backing_base (unmap_pages t n b ty s) = backing_base s" "host (unmap_pages t n b ty s) = host s"
  "current_page_table (unmap_pages t n b ty s) = current_page_table s"
  "entries_size (tables (unmap_pages t n b ty s) u) = entries_size (tables s u)"
  "fastmem_arena (tables (unmap_pages t n b ty s) u) = fastmem_arena (tables s u)"
  "current_address_space_width_in_bits (tables (unmap_pages t n b ty s) u) =
   current_address_space_width_in_bits (tables s u)"
  by (induction n arbitrary: b s) simp_all

lemma map_pages_fields [simp]:
  "backing_base (map_pages t n b ob tg ty s) = backing_base s"
  "host (map_pages t n b ob tg ty s) = host s"
  "current_page_table (map_pages t n b ob tg ty s) = current_page_table s"
  "entries_size (tables (map_pages t n b ob tg ty s) u) = entries_size (tables s u)"
  "fastmem_arena (tables (map_pages t n b ob tg ty s) u) = fastmem_arena (tables s u)"
  "current_address_space_width_in_bits (tables (map_pages t n b ob tg ty s) u) =
   current_address_space_width_in_bits (tables s u)"
  by (induction n arbitrary: b tg s) (simp_all add: Let_def)

lemma unmap_pages_entries:
  "n < 2 ^ 64 \<Longrightarrow>
   entries (tables (unmap_pages t n b ty s) t) q =
     (if unat (q - b) < n then \<lparr>ptr = PageInfo_Store 0 ty, block = 0, addr = 0\<rparr> else entries (tables s t) q)"
proof (induction n arbitrary: b s)
  case 0
  then show ?case by simp
next
  case (Suc n)
  then show ?case
    using in_range_Suc [of n q b] by (auto simp: not_in_range_0)
qed

lemma map_pages_entries:
  "n < 2 ^ 64 \<Longrightarrow>
   entries (tables (map_pages t n b ob tg ty s) t) q =
     (if unat (q - b) < n
      then \<lparr>ptr = PageInfo_Store (DeviceMemory_GetPointer s tg - push_bit YUZU_PAGEBITS b) ty,
            block = push_bit YUZU_PAGEBITS ob, addr = tg - push_bit YUZU_PAGEBITS b\<rparr>
      else entries (tables s t) q)"
proof (induction n arbitrary: b tg s)
  case 0
  then show ?case by simp
next
  case (Suc n)
  have push: "push_bit YUZU_PAGEBITS (b + 1) = push_bit YUZU_PAGEBITS b + YUZU_PAGESIZE"
    by (simp add: push_bit_eq_mult page_constants algebra_simps)
  let ?s1 = "update_entry t b (\<lambda>e. e\<lparr>ptr := PageInfo_Store (DeviceMemory_GetPointer s tg - push_bit YUZU_PAGEBITS b) ty,
      addr := tg - push_bit YUZU_PAGEBITS b, block := push_bit YUZU_PAGEBITS ob\<rparr>) s"
  have "entries (tables (map_pages t (Suc n) b ob tg ty s) t) q =
      entries (tables (map_pages t n (b + 1) ob (tg + YUZU_PAGESIZE) ty ?s1) t) q"
    by (simp add: Let_def)
  also have "\<dots> = (if unat (q - (b + 1)) < n
      then \<lparr>ptr = PageInfo_Store (DeviceMemory_GetPointer s tg - push_bit YUZU_PAGEBITS b) ty,
            block = push_bit YUZU_PAGEBITS ob, addr = tg - push_bit YUZU_PAGEBITS b\<rparr>
      else entries (tables ?s1 t) q)"
    using Suc.prems by (subst Suc.IH) (simp_all add: push GetPointer_linear)
  finally show ?case
    using in_range_Suc [of n q b] Suc.prems by (auto simp: not_in_range_0)
qed

text \<open>A page-aligned region inside the address space, and the pages of the addresses in it.\<close>

definition region_ok :: "PageTable \<Rightarrow> u64 \<Rightarrow> u64 \<Rightarrow> bool" where
  "region_ok pt base sz \<longleftrightarrow> page_aligned base \<and> page_aligned sz \<and> unat base + unat sz \<le> space_size pt"

lemma unat_div_page: "unat ((a :: u64) div YUZU_PAGESIZE) = unat a div 4096"
  by (simp add: page_constants unat_div_distrib)

lemma region_page_iff:
  assumes shape: "table_shape pt" and r: "region_ok pt base sz"
    and q: "q < entries_size pt"
  shows "unat (q - base div YUZU_PAGESIZE) < unat (sz div YUZU_PAGESIZE) \<longleftrightarrow>
    unat base \<le> unat q * 4096 \<and> unat q * 4096 < unat base + unat sz"
proof -
  obtain b n where b: "unat base = b * 4096" and n: "unat sz = n * 4096"
    using r by (auto simp: region_ok_def page_aligned_iff mod_eq_0_iff_dvd dvd_def mult.commute)
  have bd: "unat (base div YUZU_PAGESIZE) = b" "unat (sz div YUZU_PAGESIZE) = n"
    by (simp_all add: unat_div_page b n)
  have small: "b + n \<le> 2 ^ 48"
    using r space_size_bound [OF shape] by (simp add: region_ok_def b n)
  show ?thesis
  proof (cases "b \<le> unat q")
    case True
    then have "unat (q - base div YUZU_PAGESIZE) = unat q - b"
      by (subst unat_sub) (simp_all add: word_le_nat_alt bd)
    then show ?thesis using True by (simp add: bd b n) linarith
  next
    case False
    then have "unat (q - base div YUZU_PAGESIZE) = 2 ^ 64 + unat q - b"
      using bd(1) by (simp add: unat_sub_if_size word_size)
    then show ?thesis using False small by (simp add: bd b n)
  qed
qed

lemma push_div_page: "page_aligned a \<Longrightarrow> push_bit YUZU_PAGEBITS (a div YUZU_PAGESIZE) = a"
proof -
  assume "page_aligned a"
  moreover have "a div YUZU_PAGESIZE = page_of a"
    by (simp add: word_unat_eq_iff unat_div_page unat_page_of)
  ultimately show ?thesis
    using split_address [of a] by (simp add: page_aligned_def)
qed

lemma region_address_iff:
  assumes "table_shape pt" "region_ok pt base sz" "page_of va < entries_size pt"
  shows "unat (page_of va - base div YUZU_PAGESIZE) < unat (sz div YUZU_PAGESIZE) \<longleftrightarrow>
    unat base \<le> unat va \<and> unat va < unat base + unat sz"
proof -
  obtain b n where bn: "unat base = b * 4096" "unat sz = n * 4096"
    using assms(2) by (auto simp: region_ok_def page_aligned_iff mod_eq_0_iff_dvd dvd_def mult.commute)
  have "b \<le> unat va div 4096 \<longleftrightarrow> b * 4096 \<le> unat va"
    by (simp add: less_eq_div_iff_mult_less_eq)
  moreover have "unat va div 4096 < b + n \<longleftrightarrow> unat va < b * 4096 + n * 4096"
    by (simp add: div_less_iff_less_mult)
  ultimately show ?thesis
    using region_page_iff [OF assms] by (simp add: unat_page_of bn) linarith
qed

lemma page_aligned_diff: "page_aligned p \<Longrightarrow> page_aligned q \<Longrightarrow> page_aligned (p - q)"
  by (simp add: page_aligned_iff mod_eq_0_iff_dvd unat_sub_if_size word_size dvd_diff_nat)

text \<open>
  What the caller of \<^verbatim>\<open>MapMemoryRegion\<close> provides (the first three are asserted there): an aligned
  region inside the table, an aligned target that is not the region itself, and a host buffer that
  covers it without the null page.
\<close>

definition mappable :: "Impl \<Rightarrow> nat \<Rightarrow> u64 \<Rightarrow> u64 \<Rightarrow> u64 \<Rightarrow> bool" where
  "mappable s t base sz target \<longleftrightarrow>
     region_ok (tables s t) base sz \<and> page_aligned target \<and> page_aligned (backing_base s) \<and>
     target \<noteq> 0 \<and> target \<noteq> base \<and> DeviceMemory_GetPointer s target \<noteq> base \<and>
     (\<forall>off < unat sz. DeviceMemory_GetPointer s target + of_nat off \<noteq> 0)"

lemma mapped_entry_wf:
  assumes m: "mappable s t base sz target" and shape: "table_shape (tables s t)"
    and q: "q < entries_size (tables s t)"
    and i: "unat (q - base div YUZU_PAGESIZE) < unat (sz div YUZU_PAGESIZE)"
  shows "entry_wf s q \<lparr>ptr = PageInfo_Store (DeviceMemory_GetPointer s target - base) Memory,
    block = bl, addr = target - base\<rparr>"
proof -
  have r: "region_ok (tables s t) base sz" and al: "page_aligned base"
    using m by (simp_all add: mappable_def region_ok_def)
  let ?h = "DeviceMemory_GetPointer s target"
  have in_region: "unat base \<le> unat q * 4096" "unat q * 4096 < unat base + unat sz"
    using region_page_iff [OF shape r q] i by auto
  have qs: "unat q * 4096 < 2 ^ 48"
    using in_region(2) r space_size_bound [OF shape] by (simp add: region_ok_def)
  have uq: "unat (push_bit YUZU_PAGEBITS q) = unat q * 4096"
    using qs by (simp add: push_bit_eq_mult page_constants unat_word_ariths)
  have off: "push_bit YUZU_PAGEBITS q - base = of_nat (unat q * 4096 - unat base)"
    using in_region(1) uq by (metis of_nat_diff of_nat_unat ucast_id)
  have "?h - base + push_bit YUZU_PAGEBITS q = ?h + of_nat (unat q * 4096 - unat base)"
    unfolding off [symmetric] by simp
  moreover have "?h + of_nat (unat q * 4096 - unat base) \<noteq> 0"
    using m in_region unfolding mappable_def by (metis less_diff_conv2 add.commute)
  ultimately have nz: "?h - base + push_bit YUZU_PAGEBITS q \<noteq> 0" by metis
  have pa: "page_aligned (?h - base)"
  proof -
    have "page_aligned DramBase" by (simp add: DramBase_def page_aligned_iff)
    then show ?thesis
      using m al unfolding DeviceMemory_GetPointer_def mappable_def
      by (intro page_aligned_diff page_aligned_add) simp_all
  qed
  show ?thesis
    using m nz pa by (simp add: entry_wf_def PointerType_def GetPointer_linear mappable_def)
qed

lemma MapMemoryRegion_entries:
  assumes "mappable s t base sz target"
  shows "entries (tables (MapMemoryRegion t base sz target perms sep s) t) q =
    (if unat (q - base div YUZU_PAGESIZE) < unat (sz div YUZU_PAGESIZE)
     then \<lparr>ptr = PageInfo_Store (DeviceMemory_GetPointer s target - base) Memory, block = base,
           addr = target - base\<rparr>
     else entries (tables s t) q)"
  using assms map_pages_entries [of "unat (sz div YUZU_PAGESIZE)" t "base div YUZU_PAGESIZE"
      "base div YUZU_PAGESIZE" target Memory s q] push_div_page [of base]
    unsigned_less [of "sz div YUZU_PAGESIZE", where 'a = nat]
  by (simp add: MapMemoryRegion_def MapPages_def mappable_def region_ok_def Let_def)

lemma MapMemoryRegion_fields [simp]:
  "entries_size (tables (MapMemoryRegion t base sz target perms sep s) u) = entries_size (tables s u)"
  "current_address_space_width_in_bits (tables (MapMemoryRegion t base sz target perms sep s) u) =
   current_address_space_width_in_bits (tables s u)"
  "backing_base (MapMemoryRegion t base sz target perms sep s) = backing_base s"
  "host (MapMemoryRegion t base sz target perms sep s) = host s"
  by (simp_all add: MapMemoryRegion_def MapPages_def Let_def)

lemma GetPointer_cong: "backing_base s' = backing_base s \<Longrightarrow> DeviceMemory_GetPointer s' = DeviceMemory_GetPointer s"
  by (simp add: DeviceMemory_GetPointer_def fun_eq_iff)

lemma table_wf_MapMemoryRegion:
  assumes "table_wf s t" "mappable s t base sz target"
  shows "table_wf (MapMemoryRegion t base sz target perms sep s) t"
  using assms mapped_entry_wf [OF assms(2)]
  by (auto simp: table_wf_def table_shape_def MapMemoryRegion_entries entry_wf_cong [of "MapMemoryRegion _ _ _ _ _ _ s" s])

lemma translate_MapMemoryRegion:
  assumes "table_wf s t" "mappable s t base sz target"
  shows "translate_in (MapMemoryRegion t base sz target perms sep s) t va =
    (if unat base \<le> unat va \<and> unat va < unat base + unat sz
     then Some (DeviceMemory_GetPointer s (target + (va - base))) else translate_in s t va)"
proof -
  let ?s = "MapMemoryRegion t base sz target perms sep s"
  have shape: "table_shape (tables s t)" and r: "region_ok (tables s t) base sz"
    using assms by (simp_all add: table_wf_def mappable_def)
  have pal: "page_aligned (DeviceMemory_GetPointer s target - base)"
  proof -
    have "page_aligned DramBase" by (simp add: DramBase_def page_aligned_iff)
    then show ?thesis
      using assms(2) unfolding DeviceMemory_GetPointer_def mappable_def region_ok_def
      by (intro page_aligned_diff page_aligned_add) simp_all
  qed
  show ?thesis
  proof (cases "page_of va < entries_size (tables s t)")
    case True
    note iff = region_address_iff [OF shape r True]
    show ?thesis
      using True iff pal
      by (simp add: translate_in_def MapMemoryRegion_entries [OF assms(2)] GetPointer_cong [of ?s s]
          mapped_def GetPointer_linear Let_def algebra_simps)
  next
    case False
    then have "\<not> unat va < unat base + unat sz"
      using page_in_table [OF shape, of va] r by (simp add: region_ok_def)
    with False show ?thesis by (simp add: translate_in_def Let_def)
  qed
qed

lemma UnmapRegion_entries:
  assumes "region_ok (tables s t) base sz"
  shows "entries (tables (UnmapRegion t base sz sep s) t) q =
    (if unat (q - base div YUZU_PAGESIZE) < unat (sz div YUZU_PAGESIZE)
     then \<lparr>ptr = PageInfo_Store 0 Unmapped, block = 0, addr = 0\<rparr> else entries (tables s t) q)"
  using unmap_pages_entries [of "unat (sz div YUZU_PAGESIZE)" t "base div YUZU_PAGESIZE" Unmapped s q]
    unsigned_less [of "sz div YUZU_PAGESIZE", where 'a = nat]
  by (simp add: UnmapRegion_def MapPages_def Let_def)

lemma UnmapRegion_fields [simp]:
  "entries_size (tables (UnmapRegion t base sz sep s) u) = entries_size (tables s u)"
  "current_address_space_width_in_bits (tables (UnmapRegion t base sz sep s) u) =
   current_address_space_width_in_bits (tables s u)"
  "backing_base (UnmapRegion t base sz sep s) = backing_base s"
  "host (UnmapRegion t base sz sep s) = host s"
  by (simp_all add: UnmapRegion_def MapPages_def Let_def)

lemma entry_wf_unmapped: "entry_wf s q \<lparr>ptr = PageInfo_Store 0 Unmapped, block = b, addr = a\<rparr>"
  by (simp add: entry_wf_def PointerType_def)

lemma table_wf_UnmapRegion:
  assumes "table_wf s t" "region_ok (tables s t) base sz"
  shows "table_wf (UnmapRegion t base sz sep s) t"
  using assms
  by (auto simp: table_wf_def table_shape_def UnmapRegion_entries entry_wf_cong [of "UnmapRegion _ _ _ _ s" s]
      entry_wf_unmapped)

lemma translate_UnmapRegion:
  assumes "table_wf s t" "region_ok (tables s t) base sz"
  shows "translate_in (UnmapRegion t base sz sep s) t va =
    (if unat base \<le> unat va \<and> unat va < unat base + unat sz then None else translate_in s t va)"
  using assms region_address_iff [of "tables s t" base sz va]
  by (auto simp: translate_in_def UnmapRegion_entries GetPointer_cong [of "UnmapRegion _ _ _ _ s" s]
      mapped_def Let_def table_wf_def)

section \<open>Properties\<close>

text \<open>A memory with an empty 36-bit address space.\<close>

definition empty_memory :: Impl where
  "empty_memory =
     \<lparr>tables = (\<lambda>_. \<lparr>entries = (\<lambda>_. blank_entry), entries_size = 0x1000000, fastmem_arena = 0,
                     current_address_space_width_in_bits = 36, page_size = 0x1000\<rparr>),
      current_page_table = 0, backing_base = 0x7f0000000000, host = (\<lambda>_. 0),
      rasterizer_ops = [], host_ops = []\<rparr>"

lemma empty_memory_wf: "table_wf empty_memory t"
  by (simp add: table_wf_def table_shape_def empty_memory_def blank_entry_def entry_wf_def PointerType_def
      ExtractPointer_def ExtractType_def to_PageType_def Let_def)

lemma mappableI:
  assumes "region_ok (tables s t) base sz" "page_aligned target" "page_aligned (backing_base s)"
    "target \<noteq> 0" "target \<noteq> base" "DeviceMemory_GetPointer s target \<noteq> base"
    "DeviceMemory_GetPointer s target \<noteq> 0"
    "unat (DeviceMemory_GetPointer s target) + unat sz \<le> 2 ^ 64"
  shows "mappable s t base sz target"
proof -
  have "DeviceMemory_GetPointer s target + of_nat off \<noteq> 0" if "off < unat sz" for off
  proof -
    have "unat (DeviceMemory_GetPointer s target + of_nat off) = unat (DeviceMemory_GetPointer s target) + off"
      using that assms(8) by (simp add: unat_word_ariths unat_of_nat)
    then show ?thesis using assms(7) by (auto simp: unat_eq_zero)
  qed
  with assms show ?thesis by (simp add: mappable_def)
qed

lemma empty_memory_mappable: "mappable empty_memory 0 0x8000000 0x3000 0x80200000"
  by (rule mappableI)
     (simp_all add: region_ok_def page_aligned_iff empty_memory_def DeviceMemory_GetPointer_def DramBase_def)

text \<open>
  C26. Mapping: after \<^verbatim>\<open>MapMemoryRegion\<close> every address of the region translates to the host byte
  behind its physical target, every other address translates as before, and the table stays
  well-formed.
\<close>

theorem MapMemoryRegion_maps:
  assumes "table_wf s t" "mappable s t base sz target"
  shows "table_wf (MapMemoryRegion t base sz target perms sep s) t \<and>
    translate_in (MapMemoryRegion t base sz target perms sep s) t va =
      (if unat base \<le> unat va \<and> unat va < unat base + unat sz
       then Some (DeviceMemory_GetPointer s (target + (va - base))) else translate_in s t va)"
  using assms table_wf_MapMemoryRegion translate_MapMemoryRegion by blast

text \<open>Three pages of code mapped at the start of the address space.\<close>

definition demo_memory :: Impl where
  "demo_memory = MapMemoryRegion 0 0x8000000 0x3000 0x80200000 5 False empty_memory"

theorem MapMemoryRegion_maps_witness:
  "translate_in (MapMemoryRegion 0 0x8000000 0x3000 0x80200000 5 False empty_memory) 0 0x8001004 =
     Some 0x7f0000201004"
  using MapMemoryRegion_maps [OF empty_memory_wf empty_memory_mappable,
      where perms = 5 and sep = False and va = "0x8001004"]
  by (simp add: DeviceMemory_GetPointer_def DramBase_def empty_memory_def)

lemma demo_memory_wf: "table_wf demo_memory 0"
  unfolding demo_memory_def by (rule table_wf_MapMemoryRegion [OF empty_memory_wf empty_memory_mappable])

lemma demo_memory_fields [simp]:
  "current_page_table demo_memory = 0" "backing_base demo_memory = 0x7f0000000000"
  "host demo_memory = (\<lambda>_. 0)" "space_size (tables demo_memory 0) = 2 ^ 36"
  "entries_size (tables demo_memory 0) = 0x1000000"
  by (simp_all add: demo_memory_def empty_memory_def MapMemoryRegion_def MapPages_def Let_def)

lemma demo_memory_translate:
  "translate_in demo_memory 0 va =
     (if 0x8000000 \<le> unat va \<and> unat va < 0x8003000 then Some (0x7efff8200000 + va) else None)"
  using translate_MapMemoryRegion [OF empty_memory_wf empty_memory_mappable,
      where perms = 5 and sep = False and va = va]
  by (auto simp: demo_memory_def DeviceMemory_GetPointer_def DramBase_def empty_memory_def translate_in_def
      blank_entry_def mapped_def ExtractType_def to_PageType_def Let_def)

text \<open>
  C27. Unmapping: after \<^verbatim>\<open>UnmapRegion\<close> no address of the region translates and every other one
  translates as before.
\<close>

theorem UnmapRegion_unmaps:
  assumes "table_wf s t" "region_ok (tables s t) base sz"
  shows "table_wf (UnmapRegion t base sz sep s) t \<and>
    translate_in (UnmapRegion t base sz sep s) t va =
      (if unat base \<le> unat va \<and> unat va < unat base + unat sz then None else translate_in s t va)"
  using assms table_wf_UnmapRegion translate_UnmapRegion by blast

theorem UnmapRegion_unmaps_witness:
  "translate_in (UnmapRegion 0 0x8001000 0x1000 False demo_memory) 0 0x8001004 = None \<and>
   translate_in (UnmapRegion 0 0x8001000 0x1000 False demo_memory) 0 0x8000004 = Some 0x7f0000200004"
proof -
  have "region_ok (tables demo_memory 0) 0x8001000 0x1000"
    by (simp add: region_ok_def page_aligned_iff)
  from UnmapRegion_unmaps [OF demo_memory_wf this] show ?thesis
    by (simp add: demo_memory_translate)
qed

text \<open>
  C28. Debug marks and rasterizer marks are invisible to the guest: however regions are marked and
  unmarked, the table stays well-formed, every address keeps the host byte it stands for, and
  pointer lookups answer the same.
\<close>

theorem page_marks_keep_memory:
  assumes "mem_wf s"
    and "s' = MarkRegionDebug vaddr sz b s \<or> s' = RasterizerMarkRegionCached rf vaddr sz b s"
  shows "mem_wf s' \<and> byte_at s' va = byte_at s va \<and> GetPointer s' va = GetPointer s va"
proof -
  have wf': "mem_wf s'" and m: "same_mapping (current_page_table s) s s'"
    using assms MarkRegionDebug_keeps RasterizerMarkRegionCached_keeps by blast+
  have c: "current_page_table s' = current_page_table s" "host s' = host s"
    using m by (simp_all add: same_mapping_def)
  have t: "translate s' = translate s" using same_mapping_translate [OF m] c by simp
  have "GetPointer s' va = GetPointer s va"
    unfolding GetPointer_def GetPointerImpl_translate [OF wf'] GetPointerImpl_translate [OF assms(1)] t ..
  moreover have "byte_at s' va = byte_at s va"
    by (simp add: byte_at_def c same_mapping_translate [OF m])
  ultimately show ?thesis using wf' by blast
qed

theorem page_marks_keep_memory_witness:
  "GetPointer (RasterizerMarkRegionCached False 0x8001000 0x1000 True demo_memory) 0x8001004 =
   GetPointer demo_memory 0x8001004"
  using page_marks_keep_memory [of demo_memory
      "RasterizerMarkRegionCached False 0x8001000 0x1000 True demo_memory" "0x8001000" "0x1000" True False "0x8001004"]
    demo_memory_wf by simp

end
