(* ===== verification/GuestMemory_Blocks.thy ===== *)
theory GuestMemory_Blocks
  imports GuestMemory_Translation
begin

text \<open>
  Block operations against the translation: a rule for walks, what \<^verbatim>\<open>ReadBlockImpl\<close>,
  \<^verbatim>\<open>WriteBlockImpl\<close>, \<^verbatim>\<open>ZeroBlock\<close> and \<^verbatim>\<open>CopyBlock\<close> do byte by byte, and the interface of guest
  memory that the cheat engine relies on.
\<close>

section \<open>A rule for walks\<close>

text \<open>A chunk: the addresses from \<open>va\<close> on that a round of the walk handles lie in one page.\<close>

definition chunk :: "u64 \<Rightarrow> nat \<Rightarrow> bool" where
  "chunk va n \<longleftrightarrow> 0 < n \<and> unat va mod 4096 + n \<le> 4096 \<and> unat va + n \<le> 2 ^ 48"

text \<open>One round on the chunk at \<open>a + offset\<close>.\<close>

definition walk_at ::
  "'b on_unmapped \<Rightarrow> 'b on_memory \<Rightarrow> 'b on_rasterizer \<Rightarrow> u64 \<Rightarrow> nat \<Rightarrow> nat \<Rightarrow> 'b walk_state \<Rightarrow>
   (bool \<times> 'b walk_state) option" where
  "walk_at fu fm fr a off n st =
     walk_page fu fm fr (of_nat off) (of_nat n) (page_of (a + of_nat off)) ((a + of_nat off) AND YUZU_PAGEMASK) st"

lemma walk_loop_rule:
  assumes bound: "unat a + unat sz \<le> 2 ^ 48"
    and step: "\<And>off n acc st. P off acc st \<Longrightarrow> off + n \<le> unat sz \<Longrightarrow> chunk (a + of_nat off) n \<Longrightarrow>
      \<exists>acc1 st1. walk_at fu fm fr a off n st = Some (acc1, st1) \<and> P (off + n) (acc \<and> acc1) st1"
    and init: "P off acc st" "off + rem = unat sz"
  shows "\<exists>acc' st'. walk_loop fu fm fr (of_nat off) (of_nat rem) (page_of (a + of_nat off))
      ((a + of_nat off) AND YUZU_PAGEMASK) acc st = Some (acc', st') \<and> P (unat sz) acc' st'"
  using init
proof (induction rem arbitrary: off acc st rule: less_induct)
  case (less rem)
  have lt: "unat a + off + rem \<le> 2 ^ 48" using bound less.prems(2) by linarith
  show ?case
  proof (cases "rem = 0")
    case True
    with less.prems show ?thesis by (subst walk_loop.simps) simp
  next
    case False
    let ?va = "a + of_nat off" and ?o = "(unat a + off) mod 4096"
    have uva: "unat ?va = unat a + off" using lt by (simp add: unat_word_ariths unat_of_nat)
    define n where "n = min (4096 - ?o) rem"
    have o: "?o < 4096" by simp
    have n: "0 < n" "n \<le> rem" "?o + n \<le> 4096" using False o by (auto simp: n_def)
    have po: "unat (?va AND YUZU_PAGEMASK) = ?o" by (simp add: unat_pagemask uva)
    have copy: "min (YUZU_PAGESIZE - (?va AND YUZU_PAGEMASK)) (of_nat rem) = (of_nat n :: u64)"
    proof -
      have "unat (YUZU_PAGESIZE - (?va AND YUZU_PAGEMASK)) = 4096 - ?o"
        using o by (subst unat_sub) (simp_all add: word_le_nat_alt po page_constants(2))
      moreover have "unat (of_nat rem :: u64) = rem" "unat (of_nat n :: u64) = n"
        using lt n(2) by (simp_all add: unat_of_nat)
      ultimately show ?thesis
        by (auto simp: word_unat_eq_iff min_def word_le_nat_alt n_def)
    qed
    have ch: "chunk ?va n" using n lt by (simp add: chunk_def uva)
    have "off + n \<le> unat sz" using less.prems(2) n(2) by linarith
    from step [OF less.prems(1) this ch] obtain acc1 st1
      where w: "walk_at fu fm fr a off n st = Some (acc1, st1)" and P1: "P (off + n) (acc \<and> acc1) st1"
      by blast
    have nz: "(of_nat rem :: u64) \<noteq> 0"
      using False lt by (simp add: word_unat_eq_iff unat_of_nat)
    have in_page: "\<not> YUZU_PAGESIZE \<le> (?va AND YUZU_PAGEMASK)"
      using o by (simp add: word_le_nat_alt po page_constants(2))
    have unfold: "walk_loop fu fm fr (of_nat off) (of_nat rem) (page_of ?va) (?va AND YUZU_PAGEMASK) acc st =
        walk_loop fu fm fr (of_nat off + of_nat n) (of_nat rem - of_nat n) (page_of ?va + 1) 0 (acc \<and> acc1) st1"
      using w by (subst walk_loop.simps)
        (simp add: nz in_page copy walk_at_def Let_def del: word_of_nat_eq_0_iff)
    have r: "(of_nat rem - of_nat n :: u64) = of_nat (rem - n)" using n(2) by (simp add: of_nat_diff)
    show ?thesis
    proof (cases "rem - n = 0")
      case True
      then have "off + n = unat sz" using less.prems(2) n(2) by simp
      with P1 show ?thesis unfolding unfold r True by (subst walk_loop.simps) simp
    next
      case False
      then have full: "?o + n = 4096" using o by (auto simp: n_def min_def split: if_splits)
      let ?vb = "a + of_nat (off + n)"
      have uvb: "unat ?vb = unat a + off + n" using lt n(2) by (simp add: unat_word_ariths unat_of_nat)
      have next_page: "unat a + off + n = (unat a + off) div 4096 * 4096 + 4096"
        using full div_mult_mod_eq [of "unat a + off" 4096] by linarith
      have div: "(unat a + off + n) div 4096 = (unat a + off) div 4096 + 1"
        and md: "(unat a + off + n) mod 4096 = 0"
        unfolding next_page by simp_all
      have pg: "page_of ?vb = page_of ?va + 1"
      proof -
        have "unat (page_of ?va + 1) = unat (page_of ?va) + 1"
          using lt by (simp add: unat_page_of uva unat_word_ariths(1))
        then show ?thesis by (simp add: word_unat_eq_iff unat_page_of uvb uva div del: of_nat_add)
      qed
      have of0: "?vb AND YUZU_PAGEMASK = 0"
        by (simp add: word_unat_eq_iff unat_pagemask uvb md del: of_nat_add)
      have "rem - n < rem" using n by simp
      from less.IH [OF this P1] less.prems(2) n(2) show ?thesis
        unfolding unfold r pg of0 by simp
    qed
  qed
qed

text \<open>
  A walk over a region of the address space establishes what every round keeps; outside the
  address space only the first callback runs.
\<close>

lemma WalkBlock_rule:
  assumes wf: "mem_wf (fst st)" and sp: "AddressSpaceContains (current (fst st)) a sz"
    and init: "P 0 True st"
    and step: "\<And>off n acc st. P off acc st \<Longrightarrow> off + n \<le> unat sz \<Longrightarrow> chunk (a + of_nat off) n \<Longrightarrow>
      \<exists>acc1 st1. walk_at fu fm fr a off n st = Some (acc1, st1) \<and> P (off + n) (acc \<and> acc1) st1"
  shows "\<exists>acc' st'. WalkBlock a sz fu fm fr st = Some (acc', st') \<and> P (unat sz) acc' st'"
proof -
  have shape: "table_shape (current (fst st))" using wf by (simp add: table_wf_def)
  have b: "unat a + unat sz \<le> 2 ^ 48"
    using sp space_size_bound [OF shape] by (simp add: AddressSpaceContains_iff [OF shape])
  have "\<exists>acc' st'. walk_loop fu fm fr (of_nat 0) (of_nat (unat sz)) (page_of (a + of_nat 0))
      ((a + of_nat 0) AND YUZU_PAGEMASK) True st = Some (acc', st') \<and> P (unat sz) acc' st'"
    by (rule walk_loop_rule [OF b]) (use step init in auto)
  then show ?thesis using sp by (simp add: WalkBlock_def)
qed

lemma WalkBlock_outside:
  "\<not> AddressSpaceContains (current (fst st)) a sz \<Longrightarrow>
   WalkBlock a sz fu fm fr st = map_option (Pair False) (fu 0 sz a st)"
  by (simp add: WalkBlock_def)

text \<open>What a round does, in terms of the translation of the first address of the chunk.\<close>

lemma walk_at_cases:
  assumes wf: "mem_wf (fst st)" and sp: "unat (a + of_nat off) < space_size (current (fst st))"
  shows "case translate (fst st) (a + of_nat off) of
      None \<Rightarrow> walk_at fu fm fr a off n st =
        map_option (Pair False) (fu (of_nat off) (of_nat n) (a + of_nat off) st)
    | Some h \<Rightarrow> h \<noteq> 0 \<and>
       (walk_at fu fm fr a off n st = map_option (Pair True) (fm (of_nat off) (of_nat n) h st) \<or>
        walk_at fu fm fr a off n st =
          map_option (Pair True) (fr (a + of_nat off) (of_nat off) (of_nat n) h st))"
proof -
  let ?s = "fst st" and ?va = "a + of_nat off"
  let ?e = "entry_of ?s (page_of ?va)"
  have e: "entry_wf ?s (page_of ?va) ?e" using wf sp by (rule table_wf_entry)
  have t: "translate ?s ?va = (if mapped ?e then Some (DeviceMemory_GetPointer ?s (addr ?e) + ?va) else None)"
    using translate_in_space [OF wf sp] by (simp add: Let_def)
  have h: "mapped ?e \<Longrightarrow> DeviceMemory_GetPointer ?s (addr ?e) + ?va \<noteq> 0 \<and> addr ?e \<noteq> 0"
    using entry_wf_host [OF e] by blast
  have ptr: "ExtractPointer (ptr ?e) + (?va AND YUZU_PAGEMASK) + push_bit YUZU_PAGEBITS (page_of ?va) =
      ExtractPointer (ptr ?e) + ?va"
    using split_address [of ?va] by (simp add: algebra_simps)
  show ?thesis
    using e h unfolding t
    by (auto simp: walk_at_def walk_page_def split_address ptr entry_wf_def mapped_def PointerType_def Let_def
        GetPointerFromDebugMemory_def GetPointerFromRasterizerCachedMemory_def GetPointer_linear
        split: PageType.splits)
qed

text \<open>Within a chunk the translation is linear.\<close>

lemma chunk_translate:
  assumes "chunk va n" "i < n"
  shows "translate_in s t (va + of_nat i) = map_option (\<lambda>h. h + of_nat i) (translate_in s t va)"
proof -
  have "page_of (va + of_nat i) = page_of va"
    using assms by (intro page_of_add) (simp_all add: chunk_def)
  then show ?thesis by (simp add: translate_in_def Let_def add.assoc)
qed

section \<open>Blocks byte by byte\<close>

text \<open>Abstract reads and writes: one byte after the other, addresses without memory read as 0 and
  swallow writes.\<close>

definition read_byte :: "Impl \<Rightarrow> u64 \<Rightarrow> u8" where
  "read_byte s va = (case byte_at s va of None \<Rightarrow> 0 | Some b \<Rightarrow> b)"

definition read_bytes :: "Impl \<Rightarrow> u64 \<Rightarrow> nat \<Rightarrow> u8 list" where
  "read_bytes s a n = map (\<lambda>i. read_byte s (a + of_nat i)) [0..<n]"

definition poke :: "Impl \<Rightarrow> u64 \<Rightarrow> (nat \<Rightarrow> u8) \<Rightarrow> nat \<Rightarrow> (u64 \<Rightarrow> u8) \<Rightarrow> u64 \<Rightarrow> u8" where
  "poke s a f i m = (case translate s (a + of_nat i) of None \<Rightarrow> m | Some h \<Rightarrow> m(h := f i))"

definition write_bytes :: "Impl \<Rightarrow> u64 \<Rightarrow> (nat \<Rightarrow> u8) \<Rightarrow> nat \<Rightarrow> u64 \<Rightarrow> u8" where
  "write_bytes s a f n = fold (poke s a f) [0..<n] (host s)"

definition all_mapped :: "Impl \<Rightarrow> u64 \<Rightarrow> nat \<Rightarrow> bool" where
  "all_mapped s a n \<longleftrightarrow> list_all (\<lambda>i. translate s (a + of_nat i) \<noteq> None) [0..<n]"

text \<open>States with the same page tables over the same host buffer.\<close>

definition same_space :: "Impl \<Rightarrow> Impl \<Rightarrow> bool" where
  "same_space s s' \<longleftrightarrow> tables s' = tables s \<and> current_page_table s' = current_page_table s \<and>
     backing_base s' = backing_base s"

lemma same_space_refl [simp]: "same_space s s"
  by (simp add: same_space_def)

lemma same_space_trans: "same_space s s1 \<Longrightarrow> same_space s1 s2 \<Longrightarrow> same_space s s2"
  by (simp add: same_space_def)

lemma same_space_translate: "same_space s s' \<Longrightarrow> translate s' = translate s"
  by (simp add: same_space_def translate_in_def fun_eq_iff GetPointer_cong [of s' s] Let_def)

lemma same_space_wf: "same_space s s' \<Longrightarrow> mem_wf s' = mem_wf s"
  by (simp add: same_space_def table_wf_def entry_wf_cong [of s' s])

lemma same_space_current: "same_space s s' \<Longrightarrow> current s' = current s"
  by (simp add: same_space_def)

lemma same_space_updates [simp]:
  "same_space s (HandleRasterizerDownload v n s') = same_space s s'"
  "same_space s (HandleRasterizerWrite v n s') = same_space s s'"
  "same_space s (s'\<lparr>host := m\<rparr>) = same_space s s'"
  "host (HandleRasterizerDownload v n s') = host s'"
  "host (HandleRasterizerWrite v n s') = host s'"
  by (simp_all add: same_space_def HandleRasterizerDownload_def HandleRasterizerWrite_def)

lemma upt_add_map: "map f [0..<m + n] = map f [0..<m] @ map (\<lambda>i. f (m + i)) [0..<n]"
  by (rule nth_equalityI) (auto simp: nth_append)

lemma read_bytes_add: "read_bytes s a (m + n) = read_bytes s a m @ read_bytes s (a + of_nat m) n"
  by (simp add: read_bytes_def upt_add_map add.assoc)

lemma length_read_bytes [simp]: "length (read_bytes s a n) = n"
  by (simp add: read_bytes_def)

lemma all_mapped_add: "all_mapped s a (m + n) \<longleftrightarrow> all_mapped s a m \<and> all_mapped s (a + of_nat m) n"
proof -
  have "[0..<m + n] = [0..<m] @ map (\<lambda>i. m + i) [0..<n]"
    using upt_add_map [of "\<lambda>i. i" m n] by simp
  then show ?thesis by (simp only: all_mapped_def list_all_append list.pred_map) (simp add: comp_def add.assoc)
qed

text \<open>A chunk in terms of the translation of its first address.\<close>

lemma chunk_mapped:
  assumes "chunk va n"
  shows "all_mapped s va n \<longleftrightarrow> translate s va \<noteq> None"
    and "read_bytes s va n = (case translate s va of None \<Rightarrow> replicate n 0
      | Some h \<Rightarrow> map (\<lambda>i. host s (h + of_nat i)) [0..<n])"
proof -
  show "all_mapped s va n \<longleftrightarrow> translate s va \<noteq> None"
  proof
    assume "all_mapped s va n"
    then have "translate s (va + of_nat 0) \<noteq> None"
      using assms unfolding all_mapped_def list_all_iff chunk_def by (metis atLeastLessThan_iff le0 set_upt)
    then show "translate s va \<noteq> None" by simp
  qed (auto simp: all_mapped_def list_all_iff chunk_translate [OF assms])
  show "read_bytes s va n = (case translate s va of None \<Rightarrow> replicate n 0
      | Some h \<Rightarrow> map (\<lambda>i. host s (h + of_nat i)) [0..<n])"
    by (rule nth_equalityI)
       (auto simp: read_bytes_def read_byte_def byte_at_def chunk_translate [OF assms] split: option.splits)
qed

lemma unat_chunk: "chunk va n \<Longrightarrow> unat (of_nat n :: u64) = n"
  by (simp add: chunk_def unat_of_nat)

lemma chunk_in_space:
  assumes "table_shape pt" "AddressSpaceContains pt a sz" "off + n \<le> unat sz" "0 < n"
  shows "unat (a + of_nat off) < space_size pt" "unat (of_nat off :: u64) = off"
proof -
  have le: "unat a + unat sz \<le> space_size pt" using assms(1,2) by (simp add: AddressSpaceContains_iff)
  show off: "unat (of_nat off :: u64) = off"
    using assms(3) unsigned_less [of sz, where 'a = nat] by (simp add: unat_of_nat)
  show "unat (a + of_nat off) < space_size pt"
    using le assms(3,4) off space_size_bound [OF assms(1)] by (simp add: unat_word_ariths)
qed

lemma put_bytes_at:
  "length xs = off \<Longrightarrow> put_bytes off bs (xs @ drop off ys) = xs @ bs @ drop (off + length bs) ys"
  by (simp add: put_bytes_def add.commute)

text \<open>
  The rule in the form the block operations use: one obligation per callback, on a chunk whose
  first address is unmapped or translates to a host pointer.
\<close>

lemma WalkBlock_translate:
  assumes wf: "mem_wf s" and sp: "AddressSpaceContains (current s) a sz"
    and init: "P 0 True (s, x)" and space: "\<And>off acc st. P off acc st \<Longrightarrow> same_space s (fst st)"
    and unmapped: "\<And>off n acc st. P off acc st \<Longrightarrow> chunk (a + of_nat off) n \<Longrightarrow> off + n \<le> unat sz \<Longrightarrow>
      unat (of_nat off :: u64) = off \<Longrightarrow> unat (of_nat n :: u64) = n \<Longrightarrow>
      translate s (a + of_nat off) = None \<Longrightarrow>
      \<exists>st1. fu (of_nat off) (of_nat n) (a + of_nat off) st = Some st1 \<and> P (off + n) False st1"
    and memory: "\<And>off n acc st h. P off acc st \<Longrightarrow> chunk (a + of_nat off) n \<Longrightarrow> off + n \<le> unat sz \<Longrightarrow>
      unat (of_nat off :: u64) = off \<Longrightarrow> unat (of_nat n :: u64) = n \<Longrightarrow>
      translate s (a + of_nat off) = Some h \<Longrightarrow> h \<noteq> 0 \<Longrightarrow>
      \<exists>st1. fm (of_nat off) (of_nat n) h st = Some st1 \<and> P (off + n) acc st1"
    and rasterizer: "\<And>off n acc st h. P off acc st \<Longrightarrow> chunk (a + of_nat off) n \<Longrightarrow> off + n \<le> unat sz \<Longrightarrow>
      unat (of_nat off :: u64) = off \<Longrightarrow> unat (of_nat n :: u64) = n \<Longrightarrow>
      translate s (a + of_nat off) = Some h \<Longrightarrow> h \<noteq> 0 \<Longrightarrow>
      \<exists>st1. fr (a + of_nat off) (of_nat off) (of_nat n) h st = Some st1 \<and> P (off + n) acc st1"
  shows "\<exists>acc' st'. WalkBlock a sz fu fm fr (s, x) = Some (acc', st') \<and> P (unat sz) acc' st'"
proof (rule WalkBlock_rule)
  fix off n acc and st :: "'a walk_state"
  assume P: "P off acc st" and le: "off + n \<le> unat sz" and ch: "chunk (a + of_nat off) n"
  have ss: "same_space s (fst st)" using P by (rule space)
  have n0: "0 < n" using ch by (simp add: chunk_def)
  have shape: "table_shape (current s)" using wf by (simp add: table_wf_def)
  note cs = chunk_in_space [OF shape sp le n0] and un = unat_chunk [OF ch]
  note c = walk_at_cases [of st a off, unfolded same_space_wf [OF ss]
      same_space_current [OF ss] same_space_translate [OF ss], OF wf cs(1)]
  show "\<exists>acc1 st1. walk_at fu fm fr a off n st = Some (acc1, st1) \<and> P (off + n) (acc \<and> acc1) st1"
  proof (cases "translate s (a + of_nat off)")
    case None
    then obtain st1 where "fu (of_nat off) (of_nat n) (a + of_nat off) st = Some st1" "P (off + n) False st1"
      using unmapped [OF P ch le cs(2) un] by blast
    with None c [of fu fm fr n] show ?thesis by (intro exI [of _ False] exI [of _ st1]) simp
  next
    case (Some h)
    with c [of fu fm fr n] have h: "h \<noteq> 0"
      and w: "walk_at fu fm fr a off n st = map_option (Pair True) (fm (of_nat off) (of_nat n) h st) \<or>
        walk_at fu fm fr a off n st =
          map_option (Pair True) (fr (a + of_nat off) (of_nat off) (of_nat n) h st)" by auto
    from w memory [OF P ch le cs(2) un Some h] rasterizer [OF P ch le cs(2) un Some h]
    obtain st1 where "walk_at fu fm fr a off n st = Some (True, st1)" "P (off + n) acc st1" by auto
    then show ?thesis by (intro exI [of _ True] exI [of _ st1]) simp
  qed
qed (use wf sp init in simp_all)

section \<open>Reading\<close>

lemma ReadBlockImpl_spec:
  assumes wf: "mem_wf s" and sp: "AddressSpaceContains (current s) a sz"
  shows "\<exists>s'. ReadBlockImpl a sz unsafe (s, buf) =
      Some (all_mapped s a (unat sz), s', read_bytes s a (unat sz) @ drop (unat sz) buf) \<and>
    same_space s s' \<and> host s' = host s"
proof -
  define P where "P off acc st \<longleftrightarrow> same_space s (fst st) \<and> host (fst st) = host s \<and>
      snd st = read_bytes s a off @ drop off buf \<and> acc = all_mapped s a off"
    for off acc and st :: "u8 list walk_state"
  have "\<exists>acc' st'. ReadBlockImpl a sz unsafe (s, buf) = Some (acc', st') \<and> P (unat sz) acc' st'"
    unfolding ReadBlockImpl_def
  proof (rule WalkBlock_translate [OF wf sp])
    show "P 0 True (s, buf)" by (simp add: P_def read_bytes_def all_mapped_def)
  next
    fix off acc and st :: "u8 list walk_state"
    assume "P off acc st"
    then show "same_space s (fst st)" by (simp add: P_def)
  next
    fix off n acc and st :: "u8 list walk_state"
    assume P: "P off acc st" and ch: "chunk (a + of_nat off) n"
      and u: "unat (of_nat off :: u64) = off" "unat (of_nat n :: u64) = n"
      and t: "translate s (a + of_nat off) = None"
    from P t show "\<exists>st1. (case st of (s, buf) \<Rightarrow>
        Some (s, put_bytes (unat (of_nat off :: u64)) (replicate (unat (of_nat n :: u64)) 0) buf)) = Some st1 \<and>
        P (off + n) False st1"
      by (cases st) (simp add: P_def u put_bytes_at read_bytes_add all_mapped_add chunk_mapped [OF ch])
  next
    fix off n acc h and st :: "u8 list walk_state"
    assume P: "P off acc st" and ch: "chunk (a + of_nat off) n"
      and u: "unat (of_nat off :: u64) = off" "unat (of_nat n :: u64) = n"
      and t: "translate s (a + of_nat off) = Some h" "h \<noteq> 0"
    note b = put_bytes_at read_bytes_add all_mapped_add chunk_mapped [OF ch]
    from P t show "\<exists>st1. copy_out (of_nat off) (of_nat n) h st = Some st1 \<and> P (off + n) acc st1"
      by (cases st) (simp add: P_def copy_out_def host_read_def u b)
    from P t show "\<exists>st1. (case st of (s, buf) \<Rightarrow> copy_out (of_nat off) (of_nat n) h
        (if unsafe then s else HandleRasterizerDownload (a + of_nat off) (of_nat n) s, buf)) = Some st1 \<and>
        P (off + n) acc st1"
      by (cases st) (simp add: P_def copy_out_def host_read_def u b)
  qed
  then show ?thesis by (auto simp: P_def)
qed

section \<open>Writing\<close>

lemma host_store_snoc:
  assumes "length bs < 2 ^ 64"
  shows "host_store h (bs @ [b]) m = (host_store h bs m)(h + of_nat (length bs) := b)"
proof
  fix x
  have "unat (x - h) = length bs \<longleftrightarrow> x - h = of_nat (length bs)"
    using assms by (simp add: word_unat_eq_iff [of "x - h"] unat_of_nat)
  also have "\<dots> \<longleftrightarrow> x = h + of_nat (length bs)" by (auto simp: algebra_simps)
  finally show "host_store h (bs @ [b]) m x = ((host_store h bs m)(h + of_nat (length bs) := b)) x"
    by (auto simp: host_store_def nth_append less_Suc_eq)
qed

lemma host_store_Nil [simp]: "host_store h [] m = m"
  by (simp add: host_store_def fun_eq_iff)

lemma write_bytes_0 [simp]: "write_bytes s a f 0 = host s"
  by (simp add: write_bytes_def)

lemma write_bytes_add:
  "write_bytes s a f (off + n) = fold (poke s a f) [off..<off + n] (write_bytes s a f off)"
  by (simp add: write_bytes_def upt_add_eq_append [of 0 off n])

lemma poke_chunk:
  assumes ch: "chunk (a + of_nat off) n"
  shows "fold (poke s a f) [off..<off + n] m =
    (case translate s (a + of_nat off) of None \<Rightarrow> m
     | Some h \<Rightarrow> host_store h (map (\<lambda>i. f (off + i)) [0..<n]) m)"
proof -
  have "k \<le> n \<Longrightarrow> fold (poke s a f) [off..<off + k] m =
    (case translate s (a + of_nat off) of None \<Rightarrow> m
     | Some h \<Rightarrow> host_store h (map (\<lambda>i. f (off + i)) [0..<k]) m)" for k
  proof (induction k)
    case 0
    then show ?case by (simp split: option.split)
  next
    case (Suc k)
    have k64: "k < 2 ^ 64" using ch Suc.prems by (simp add: chunk_def)
    have t: "translate s (a + of_nat (off + k)) = map_option (\<lambda>h. h + of_nat k) (translate s (a + of_nat off))"
      using chunk_translate [OF ch, of k] Suc.prems by (simp add: add.assoc)
    have "fold (poke s a f) [off..<off + Suc k] m = poke s a f (off + k) (fold (poke s a f) [off..<off + k] m)"
      by simp
    with Suc show ?case
      using k64 by (simp add: poke_def [of s a f "off + k"] t host_store_snoc del: of_nat_add split: option.split)
  qed
  from this [of n] show ?thesis by simp
qed

lemma slice_eq:
  assumes "unat (of_nat off :: u64) = off" "unat (of_nat n :: u64) = n" "off + n \<le> length bs"
  shows "slice (of_nat off) (of_nat n) bs = map (\<lambda>i. bs ! (off + i)) [0..<n]"
  using assms by (auto simp: slice_def intro: nth_equalityI)

text \<open>Writes of a chunk, as the callbacks of the write walks do them.\<close>

lemma host_write_chunk:
  assumes "chunk (a + of_nat off) n" "translate s (a + of_nat off) = Some h" "h \<noteq> 0"
    and "host s1 = write_bytes s a f off"
  shows "host_write h (map (\<lambda>i. f (off + i)) [0..<n]) s1 = Some (s1\<lparr>host := write_bytes s a f (off + n)\<rparr>)"
  using assms by (simp add: host_write_def write_bytes_add poke_chunk)

lemma write_bytes_unmapped:
  "chunk (a + of_nat off) n \<Longrightarrow> translate s (a + of_nat off) = None \<Longrightarrow>
   write_bytes s a f (off + n) = write_bytes s a f off"
  by (simp add: write_bytes_add poke_chunk)

text \<open>The common shape of \<^verbatim>\<open>WriteBlockImpl\<close> and \<^verbatim>\<open>ZeroBlock\<close>.\<close>

definition stores :: "u64 \<Rightarrow> u64 \<Rightarrow> (nat \<Rightarrow> u8) \<Rightarrow> (u64 \<Rightarrow> u64 \<Rightarrow> u64 \<Rightarrow> unit walk_state \<Rightarrow> unit walk_state option) \<Rightarrow> bool" where
  "stores a sz f put \<longleftrightarrow>
     (\<forall>off n h st. unat (of_nat off :: u64) = off \<longrightarrow> unat (of_nat n :: u64) = n \<longrightarrow> off + n \<le> unat sz \<longrightarrow>
        put (of_nat off) (of_nat n) h st =
        map_option (\<lambda>s. (s, ())) (host_write h (map (\<lambda>i. f (off + i)) [0..<n]) (fst st)))"

lemma WalkBlock_stores:
  assumes wf: "mem_wf s" and sp: "AddressSpaceContains (current s) a sz" and put: "stores a sz f put"
    and ras: "\<And>v n s'. same_space s' (g v n s') \<and> host (g v n s') = host s'"
  shows "\<exists>s'. WalkBlock a sz (\<lambda>offset copy_amount current_vaddr st. Some st) put
      (\<lambda>current_vaddr offset copy_amount p (s, u). put offset copy_amount p (g current_vaddr copy_amount s, u))
      (s, ()) = Some (all_mapped s a (unat sz), s', ()) \<and>
    same_space s s' \<and> host s' = write_bytes s a f (unat sz)"
proof -
  define P where "P off acc st \<longleftrightarrow> same_space s (fst st) \<and> host (fst st) = write_bytes s a f off \<and>
      acc = all_mapped s a off" for off acc and st :: "unit walk_state"
  have "\<exists>acc' st'. WalkBlock a sz (\<lambda>offset copy_amount current_vaddr st. Some st) put
      (\<lambda>current_vaddr offset copy_amount p (s, u). put offset copy_amount p (g current_vaddr copy_amount s, u))
      (s, ()) = Some (acc', st') \<and> P (unat sz) acc' st'"
  proof (rule WalkBlock_translate [OF wf sp])
    show "P 0 True (s, ())" by (simp add: P_def all_mapped_def)
  next
    fix off acc and st :: "unit walk_state"
    assume "P off acc st"
    then show "same_space s (fst st)" by (simp add: P_def)
  next
    fix off n acc and st :: "unit walk_state"
    assume "P off acc st" "chunk (a + of_nat off) n" "translate s (a + of_nat off) = None"
    then show "\<exists>st1. Some st = Some st1 \<and> P (off + n) False st1"
      by (simp add: P_def write_bytes_unmapped all_mapped_add chunk_mapped)
  next
    fix off n acc h and st :: "unit walk_state"
    assume P: "P off acc st" and ch: "chunk (a + of_nat off) n" and le: "off + n \<le> unat sz"
      and u: "unat (of_nat off :: u64) = off" "unat (of_nat n :: u64) = n"
      and t: "translate s (a + of_nat off) = Some h" "h \<noteq> 0"
    have w: "\<exists>st1. put (of_nat off) (of_nat n) h (s1, ()) = Some st1 \<and> P (off + n) acc st1"
      if "same_space s s1" "host s1 = write_bytes s a f off" for s1
      using put u le that P host_write_chunk [OF ch t that(2)] t
      by (auto simp: stores_def P_def all_mapped_add chunk_mapped [OF ch])
    from P show "\<exists>st1. put (of_nat off) (of_nat n) h st = Some st1 \<and> P (off + n) acc st1"
      using w [of "fst st"] by (cases st) (simp add: P_def)
    from P show "\<exists>st1. (case st of (s, u) \<Rightarrow> put (of_nat off) (of_nat n) h (g (a + of_nat off) (of_nat n) s, u)) =
        Some st1 \<and> P (off + n) acc st1"
      using w [of "g (a + of_nat off) (of_nat n) (fst st)"] ras [of "fst st" "a + of_nat off" "of_nat n"]
        same_space_trans
      by (cases st) (auto simp: P_def)
  qed
  then show ?thesis by (auto simp: P_def)
qed

lemma WriteBlockImpl_spec:
  assumes wf: "mem_wf s" and sp: "AddressSpaceContains (current s) a sz" and len: "unat sz \<le> length bs"
  shows "\<exists>s'. WriteBlockImpl a bs sz unsafe s = Some (all_mapped s a (unat sz), s') \<and>
    same_space s s' \<and> host s' = write_bytes s a (\<lambda>i. bs ! i) (unat sz)"
proof -
  have "stores a sz (\<lambda>i. bs ! i) (copy_in bs)"
    using len by (simp add: stores_def copy_in_def slice_eq)
  from WalkBlock_stores [OF wf sp this, of "\<lambda>v n s. if unsafe then s else HandleRasterizerWrite v n s"]
  show ?thesis by (auto simp: WriteBlockImpl_def)
qed

lemma ZeroBlock_spec:
  assumes wf: "mem_wf s" and sp: "AddressSpaceContains (current s) a sz"
  shows "\<exists>s'. ZeroBlock a sz s = Some (all_mapped s a (unat sz), s') \<and>
    same_space s s' \<and> host s' = write_bytes s a (\<lambda>i. 0) (unat sz)"
proof -
  have "stores a sz (\<lambda>i. 0) clear_host"
    by (simp add: stores_def clear_host_def map_replicate_const)
  from WalkBlock_stores [OF wf sp this, of HandleRasterizerWrite]
  show ?thesis by (auto simp: ZeroBlock_def)
qed

end
