(* ===== verification/GuestMemory_Laws.thy ===== *)
theory GuestMemory_Laws
  imports GuestMemory_Blocks
begin

text \<open>
  The laws of guest memory: what a write changes and what it leaves alone, reading back what was
  written (blocks and single values, aligned or not), what \<^verbatim>\<open>CopyBlock\<close> does, and the interface
  (a locale) that the clients of guest memory rely on.
\<close>

section \<open>Where a write lands\<close>

lemma write_bytes_frame:
  "(\<And>i. i < n \<Longrightarrow> translate s (a + of_nat i) \<noteq> Some h) \<Longrightarrow> write_bytes s a f n h = host s h"
proof (induction n)
  case 0
  then show ?case by simp
next
  case (Suc n)
  then show ?case
    by (auto simp: write_bytes_def poke_def split: option.split)
qed

definition distinct_targets :: "Impl \<Rightarrow> u64 \<Rightarrow> nat \<Rightarrow> bool" where
  "distinct_targets s a n \<longleftrightarrow>
     (\<forall>i < n. \<forall>j < n. translate s (a + of_nat i) \<noteq> None \<longrightarrow>
        translate s (a + of_nat i) = translate s (a + of_nat j) \<longrightarrow> i = j)"

lemma write_bytes_value:
  assumes "distinct_targets s a n" "i < n" "translate s (a + of_nat i) = Some h"
  shows "write_bytes s a f n h = f i"
proof -
  have "k \<le> n \<Longrightarrow> i < k \<Longrightarrow> write_bytes s a f k h = f i" for k
  proof (induction k)
    case 0
    then show ?case by simp
  next
    case (Suc k)
    have step: "write_bytes s a f (Suc k) = poke s a f k (write_bytes s a f k)"
      by (simp add: write_bytes_def)
    show ?case
    proof (cases "i = k")
      case True
      then show ?thesis using assms(3) by (simp add: step poke_def)
    next
      case False
      then have "translate s (a + of_nat k) \<noteq> Some h"
        using assms Suc.prems unfolding distinct_targets_def
        by (metis Suc_le_lessD option.distinct(1))
      then show ?thesis
        using False Suc by (auto simp: step poke_def split: option.split)
    qed
  qed
  from this [of n] assms(2) show ?thesis by simp
qed

lemma translate_offset:
  assumes "table_wf s t" "translate_in s t va = Some h"
  shows "unat h mod 4096 = unat va mod 4096"
proof -
  have sp: "unat va < space_size (tables s t)"
    using assms translate_None [of s t va] by (auto simp: not_less [symmetric])
  let ?e = "entries (tables s t) (page_of va)"
  have e: "entry_wf s (page_of va) ?e" and m: "mapped ?e" and h: "h = DeviceMemory_GetPointer s (addr ?e) + va"
    using table_wf_entry [OF assms(1) sp] assms(2) translate_in_space [OF assms(1) sp]
    by (auto simp: Let_def split: if_splits)
  have "unat (DeviceMemory_GetPointer s (addr ?e)) mod 4096 = 0"
    using entry_wf_retag(4) [OF e m] by (simp add: page_aligned_iff)
  then have "(unat (DeviceMemory_GetPointer s (addr ?e)) + unat va) mod 4096 = unat va mod 4096"
    by (simp add: mod_add_left_eq [symmetric, of "unat (DeviceMemory_GetPointer s (addr ?e))"])
  then show ?thesis
    unfolding h unat_word_ariths by (simp add: mod_mod_cancel)
qed

text \<open>Up to a page the targets are always distinct: aliased pages keep their offsets.\<close>

lemma small_distinct_targets:
  assumes wf: "mem_wf s" and n: "n \<le> 4096"
  shows "distinct_targets s a n"
  unfolding distinct_targets_def
proof (intro allI impI)
  fix i j
  assume ij: "i < n" "j < n" and t: "translate s (a + of_nat i) \<noteq> None"
    and eq: "translate s (a + of_nat i) = translate s (a + of_nat j)"
  then obtain h where "translate s (a + of_nat i) = Some h" "translate s (a + of_nat j) = Some h" by auto
  then have m: "unat (a + of_nat i) mod 4096 = unat (a + of_nat j) mod 4096"
    using translate_offset [OF wf] by metis
  have "unat (a + of_nat k :: u64) mod 4096 = (unat a + k) mod 4096" if "k < n" for k
    using that n by (simp add: unat_word_ariths unat_of_nat mod_mod_cancel)
  with m ij have e: "(unat a + i) mod 4096 = (unat a + j) mod 4096" by metis
  have "4096 dvd (unat a + j) - (unat a + i)" if "i \<le> j"
    by (rule iffD1 [OF mod_eq_dvd_iff_nat]) (simp add: that, rule e [symmetric])
  moreover have "4096 dvd (unat a + i) - (unat a + j)" if "j \<le> i"
    by (rule iffD1 [OF mod_eq_dvd_iff_nat]) (simp add: that, rule e)
  ultimately have d: "i \<le> j \<Longrightarrow> 4096 dvd j - i" "j \<le> i \<Longrightarrow> 4096 dvd i - j"
    by (simp_all only: add_diff_cancel_left)
  have small: "k = 0" if "4096 dvd k" "k < 4096" for k :: nat
    using that by (auto simp: dvd_def)
  have "i \<le> j \<Longrightarrow> j - i = 0" "j \<le> i \<Longrightarrow> i - j = 0"
    using d ij n by (auto intro!: small simp del: diff_is_0_eq)
  then show "i = j" using nat_le_linear [of i j] by linarith
qed

section \<open>Copying\<close>

lemma host_store_same:
  assumes "n < 2 ^ 64" shows "host_store h (map (\<lambda>i. m (h + of_nat i)) [0..<n]) m = m"
  by (auto simp: host_store_def fun_eq_iff)

lemma subrange_in_space:
  assumes "table_shape pt" "AddressSpaceContains pt a sz" "off + n \<le> unat sz" "chunk (a + of_nat off) n"
    "unat (of_nat n :: u64) = n"
  shows "AddressSpaceContains pt (a + of_nat off) (of_nat n)"
proof -
  have "unat a + unat sz \<le> space_size pt" "space_size pt \<le> 2 ^ 48"
    using assms(1,2) space_size_bound by (simp_all add: AddressSpaceContains_iff)
  moreover have "unat (a + of_nat off) \<le> unat a + off"
    by (simp add: unat_word_ariths unat_of_nat)
  ultimately show ?thesis using assms by (simp add: AddressSpaceContains_iff)
qed

lemma write_chunk_back:
  assumes wf: "mem_wf s" and ch: "chunk va n" and t: "translate s va = Some h" "h \<noteq> 0"
    and sp: "AddressSpaceContains (current s) va (of_nat n)" and u: "unat (of_nat n :: u64) = n"
  shows "\<exists>ok s'. host_read h n (host s) = Some (map (\<lambda>i. host s (h + of_nat i)) [0..<n]) \<and>
    WriteBlockImpl va (map (\<lambda>i. host s (h + of_nat i)) [0..<n]) (of_nat n) False s = Some (ok, s') \<and>
    same_space s s' \<and> host s' = host s"
proof -
  let ?bs = "map (\<lambda>i. host s (h + of_nat i)) [0..<n]"
  have n64: "n < 2 ^ 64" using ch by (simp add: chunk_def)
  from WriteBlockImpl_spec [OF wf sp, of ?bs False] u obtain s' where
    w: "WriteBlockImpl va ?bs (of_nat n) False s = Some (all_mapped s va n, s')" and ss: "same_space s s'"
    and h: "host s' = write_bytes s va (\<lambda>i. ?bs ! i) n" by auto
  have "write_bytes s va (\<lambda>i. ?bs ! i) n = host_store h (map (\<lambda>i. ?bs ! i) [0..<n]) (host s)"
    using poke_chunk [of va 0 n s "\<lambda>i. ?bs ! i" "host s"] ch t by (simp add: write_bytes_def)
  also have "map (\<lambda>i. ?bs ! i) [0..<n] = ?bs" by (rule nth_equalityI) simp_all
  finally have "host s' = host s" using h host_store_same [OF n64] by simp
  with w ss t(2) show ?thesis by (auto simp: host_read_def)
qed

lemma CopyBlock_spec:
  assumes wf: "mem_wf s" and sp: "AddressSpaceContains (current s) dest sz"
  shows "\<exists>s'. CopyBlock dest src sz s = Some (all_mapped s dest (unat sz), s') \<and>
    same_space s s' \<and> host s' = host s"
proof -
  have shape: "table_shape (current s)" using wf by (simp add: table_wf_def)
  define P where "P off acc st \<longleftrightarrow> same_space s (fst st) \<and> host (fst st) = host s \<and>
      acc = all_mapped s dest off" for off acc and st :: "unit walk_state"
  define copy_from where "copy_from = (\<lambda>offset copy_amount p s.
      case host_read p (unat copy_amount) (host s) of
        None \<Rightarrow> None
      | Some bs \<Rightarrow> map_option (\<lambda>(_, s1). (s1, ())) (WriteBlockImpl (dest + offset) bs copy_amount False s))"
  let ?zero = "\<lambda>offset copy_amount (current_vaddr :: u64) (s, u :: unit).
      map_option (\<lambda>(_, s1). (s1, ())) (ZeroBlock (dest + offset) copy_amount s)"
  have "\<exists>acc' st'. WalkBlock dest sz ?zero
      (\<lambda>offset copy_amount p (s, u). copy_from offset copy_amount p s)
      (\<lambda>current_vaddr offset copy_amount p (s, u).
         copy_from offset copy_amount p (HandleRasterizerDownload current_vaddr copy_amount s))
      (s, ()) = Some (acc', st') \<and> P (unat sz) acc' st'"
  proof (rule WalkBlock_translate [OF wf sp])
    show "P 0 True (s, ())" by (simp add: P_def all_mapped_def)
  next
    fix off acc and st :: "unit walk_state"
    assume "P off acc st"
    then show "same_space s (fst st)" by (simp add: P_def)
  next
    fix off n acc and st :: "unit walk_state"
    assume P: "P off acc st" and ch: "chunk (dest + of_nat off) n" and le: "off + n \<le> unat sz"
      and u: "unat (of_nat n :: u64) = n" and t: "translate s (dest + of_nat off) = None"
    obtain s1 where st: "st = (s1, ())" by (cases st) simp
    have ss: "same_space s s1" using P by (simp add: P_def st)
    have wf1: "mem_wf s1" and sp1: "AddressSpaceContains (current s1) (dest + of_nat off) (of_nat n)"
      using wf subrange_in_space [OF shape sp le ch u] same_space_wf [OF ss] same_space_current [OF ss] by simp_all
    from ZeroBlock_spec [OF wf1 sp1] obtain s2 where
      z: "ZeroBlock (dest + of_nat off) (of_nat n) s1 = Some (all_mapped s1 (dest + of_nat off) n, s2)"
      and s2: "same_space s1 s2" "host s2 = write_bytes s1 (dest + of_nat off) (\<lambda>i. 0) n" by (auto simp: u)
    have "host s2 = host s1"
      using s2(2) write_bytes_unmapped [of "dest + of_nat off" 0 n s1 "\<lambda>i. 0"] ch t
      by (simp add: same_space_translate [OF ss])
    with P z s2(1) ss show "\<exists>st1. ?zero (of_nat off) (of_nat n) (dest + of_nat off) st = Some st1 \<and>
        P (off + n) False st1"
      using same_space_trans [OF ss s2(1)] t by (simp add: P_def st all_mapped_add chunk_mapped [OF ch])
  next
    fix off n acc h and st :: "unit walk_state"
    assume P: "P off acc st" and ch: "chunk (dest + of_nat off) n" and le: "off + n \<le> unat sz"
      and u: "unat (of_nat n :: u64) = n"
      and t: "translate s (dest + of_nat off) = Some h" "h \<noteq> 0"
    have c: "\<exists>st1. copy_from (of_nat off) (of_nat n) h s1 = Some st1 \<and> P (off + n) acc st1"
      if ss: "same_space s s1" and h1: "host s1 = host s" for s1
    proof -
      have wf1: "mem_wf s1" and sp1: "AddressSpaceContains (current s1) (dest + of_nat off) (of_nat n)"
        using wf subrange_in_space [OF shape sp le ch u] same_space_wf [OF ss] same_space_current [OF ss] by simp_all
      have t1: "translate s1 (dest + of_nat off) = Some h" using t same_space_translate [OF ss] by simp
      from write_chunk_back [OF wf1 ch t1 t(2) sp1 u] same_space_trans [OF ss] P t h1
      show ?thesis by (auto simp: copy_from_def P_def u all_mapped_add chunk_mapped [OF ch])
    qed
    from P show "\<exists>st1. (case st of (s, u) \<Rightarrow> copy_from (of_nat off) (of_nat n) h s) = Some st1 \<and>
        P (off + n) acc st1"
      using c [of "fst st"] by (cases st) (simp add: P_def)
    from P show "\<exists>st1. (case st of (s, u) \<Rightarrow> copy_from (of_nat off) (of_nat n) h
        (HandleRasterizerDownload (dest + of_nat off) (of_nat n) s)) = Some st1 \<and> P (off + n) acc st1"
      using c [of "HandleRasterizerDownload (dest + of_nat off) (of_nat n) (fst st)"]
      by (cases st) (simp add: P_def)
  qed
  then show ?thesis unfolding CopyBlock_def copy_from_def [symmetric] Let_def by (auto simp: P_def)
qed

end
