(* ===== verification/GuestMemory_Values.thy ===== *)
theory GuestMemory_Values
  imports GuestMemory_Laws
begin

text \<open>
  Single values: every width-specific read and write, aligned or not, is the little-endian value
  of the bytes at the consecutive guest addresses; the unaligned paths split the access until each
  part lies in one page.
\<close>

section \<open>Little-endian values\<close>

lemma bit_store_le_0: "bit (store_le 0 bs) i \<Longrightarrow> i < 8 * length bs"
  by (simp add: bit_store_le split: if_splits)

lemma store_le_append:
  assumes "length bs + length cs \<le> 8"
  shows "store_le 0 (bs @ cs) = store_le 0 bs OR push_bit (8 * length bs) (store_le 0 cs)"
proof (rule bit_eqI)
  fix i
  let ?m = "8 * length bs"
  show "bit (store_le 0 (bs @ cs)) i = bit (store_le 0 bs OR push_bit ?m (store_le 0 cs)) i"
  proof (cases "i < ?m")
    case True
    then have "i div 8 < length bs" by (simp add: less_mult_imp_div_less mult.commute)
    with True show ?thesis by (auto simp: bit_store_le bit_or_iff bit_push_bit_iff nth_append)
  next
    case False
    then obtain k where k: "i = ?m + k" using le_Suc_ex not_less by blast
    then show ?thesis
      using assms by (auto simp: bit_store_le bit_or_iff bit_push_bit_iff nth_append)
  qed
qed

lemma store_le_zeros [simp]: "store_le 0 (replicate n 0) = 0"
  by (induction n) simp_all

lemma le_bytes_append: "le_bytes (m + n) v = le_bytes m v @ le_bytes n (drop_bit (8 * m) v)"
  by (induction m arbitrary: v) (simp_all add: add.commute)

lemma le_bytes_cong:
  "(\<And>i. i < 8 * n \<Longrightarrow> bit v i = bit w i) \<Longrightarrow> le_bytes n v = le_bytes n w"
  by (rule nth_equalityI) (auto simp: nth_le_bytes_bit intro!: bit_eqI)

section \<open>Reads\<close>

definition quiet :: "Impl \<Rightarrow> Impl \<Rightarrow> bool" where
  "quiet s s' \<longleftrightarrow> same_space s s' \<and> host s' = host s"

lemma quiet_refl [simp]: "quiet s s"
  by (simp add: quiet_def)

lemma quiet_trans: "quiet s s1 \<Longrightarrow> quiet s1 s2 \<Longrightarrow> quiet s s2"
  by (auto simp: quiet_def intro: same_space_trans)

lemma quiet_read_bytes: "quiet s s' \<Longrightarrow> read_bytes s' = read_bytes s"
  by (intro ext) (auto simp: quiet_def read_bytes_def read_byte_def byte_at_def dest: same_space_translate)

lemma quiet_wf: "quiet s s' \<Longrightarrow> mem_wf s' = mem_wf s"
  by (simp add: quiet_def same_space_wf)

lemma mask48: "unat a < 2 ^ 48 \<Longrightarrow> (a :: u64) AND 0xffffffffffff = a"
proof -
  assume "unat a < 2 ^ 48"
  then have "take_bit 48 a = a"
    by (simp add: word_unat_eq_iff unsigned_take_bit_eq take_bit_nat_eq_self)
  moreover have "(0xffffffffffff :: u64) = mask 48" by (simp add: mask_eq_exp_minus_1)
  ultimately show ?thesis by (simp add: take_bit_eq_mask)
qed

lemma pointer_lookup:
  assumes "mem_wf s" "chunk a n"
  shows "fst (GetPointerImpl s a) = (case translate s a of None \<Rightarrow> 0 | Some h \<Rightarrow> h)"
  using GetPointerImpl_translate [OF assms(1), of a] mask48 [of a] assms(2) by (simp add: chunk_def)

lemma Read_T_spec:
  assumes wf: "mem_wf s" and ch: "chunk a n"
  shows "\<exists>s'. Read_T n a s = (store_le 0 (read_bytes s a n), s') \<and> quiet s s'"
proof -
  obtain p r where g: "GetPointerImpl s a = (p, r)" by (cases "GetPointerImpl s a")
  have p: "p = (case translate s a of None \<Rightarrow> 0 | Some h \<Rightarrow> h)"
    using pointer_lookup [OF wf ch] g by simp
  show ?thesis
    using translate_not_null [OF wf, of a] p chunk_mapped(2) [OF ch, of s]
    by (auto simp: Read_T_def g Let_def host_read_def quiet_def split: option.splits)
qed

lemma aligned_chunk:
  assumes "k dvd 4096" "0 < k" "unat a mod k = 0" "unat a + k \<le> 2 ^ 48"
  shows "chunk a k"
proof -
  have "(unat a mod 4096) mod k = 0" using assms(1,3) by (simp add: mod_mod_cancel)
  then have "k dvd unat a mod 4096" by auto
  then obtain q where q: "unat a mod 4096 = k * q" by (elim dvdE)
  obtain r where r: "4096 = k * r" using assms(1) by (elim dvdE)
  have "k * q < k * r" using q r mod_less_divisor [of 4096 "unat a"] by simp
  then have "q < r" by simp
  then have "k * (q + 1) \<le> k * r" by (intro mult_le_mono2) simp
  then show ?thesis using assms q r by (simp add: chunk_def algebra_simps)
qed

lemma unat_and_mask:
  "unat ((a :: u64) AND 1) = unat a mod 2" "unat (a AND 3) = unat a mod 4" "unat (a AND 7) = unat a mod 8"
proof -
  have "unat (a AND mask k) = unat a mod 2 ^ k" for k
    unfolding take_bit_eq_mask [symmetric] unsigned_take_bit_eq by (rule take_bit_eq_mod)
  from this [of 1] this [of 2] this [of 3]
  show "unat (a AND 1) = unat a mod 2" "unat (a AND 3) = unat a mod 4" "unat (a AND 7) = unat a mod 8"
    by (simp_all add: mask_eq_exp_minus_1)
qed

lemma and_mask_0:
  "(a :: u64) AND 1 = 0 \<longleftrightarrow> unat a mod 2 = 0" "a AND 3 = 0 \<longleftrightarrow> unat a mod 4 = 0" "a AND 7 = 0 \<longleftrightarrow> unat a mod 8 = 0"
  by (simp_all only: unat_and_mask [symmetric] unat_eq_zero)

lemma byte_chunk: "unat a + 1 \<le> 2 ^ 48 \<Longrightarrow> chunk a 1"
  by (rule aligned_chunk) simp_all

lemma unat_add_small: "unat (a :: u64) + k \<le> 2 ^ 48 \<Longrightarrow> unat (a + of_nat k) = unat a + k"
  by (simp add: unat_word_ariths unat_of_nat)

lemma combine16:
  "length bs = 1 \<Longrightarrow> length cs = 1 \<Longrightarrow>
   (ucast (push_bit 8 (ucast (store_le 0 cs) :: u32) OR (ucast (store_le 0 bs) :: u32)) :: u16) =
   ucast (store_le 0 (bs @ cs))"
  by (rule bit_eqI) (auto simp: store_le_append bit_simps dest: bit_store_le_0)

lemma combine32:
  "length bs = 2 \<Longrightarrow> length cs = 2 \<Longrightarrow>
   (push_bit 16 (ucast (ucast (store_le 0 cs) :: u16)) OR ucast (ucast (store_le 0 bs) :: u16) :: u32) =
   ucast (store_le 0 (bs @ cs))"
  by (rule bit_eqI) (auto simp: store_le_append bit_simps dest: bit_store_le_0)

lemma combine64:
  "length bs = 4 \<Longrightarrow> length cs = 4 \<Longrightarrow>
   (push_bit 32 (ucast (ucast (store_le 0 cs) :: u32)) OR ucast (ucast (store_le 0 bs) :: u32) :: u64) =
   store_le 0 (bs @ cs)"
  by (rule bit_eqI) (auto simp: store_le_append bit_simps dest: bit_store_le_0)

lemma Read16_spec:
  assumes wf: "mem_wf s" and b: "unat a + 2 \<le> 2 ^ 48"
  shows "\<exists>s'. Read16 a s = (ucast (store_le 0 (read_bytes s a 2)), s') \<and> quiet s s'"
proof (cases "a AND 1 = 0")
  case True
  then have "chunk a 2" using b by (intro aligned_chunk) (simp_all add: and_mask_0)
  from Read_T_spec [OF wf this] True show ?thesis by (auto simp: Read16_def)
next
  case False
  have a1: "unat (a + 1) = unat a + 1" using unat_add_small [of a 1] b by simp
  obtain s1 where r1: "Read_T 1 a s = (store_le 0 (read_bytes s a 1), s1)" and q1: "quiet s s1"
    using Read_T_spec [OF wf byte_chunk [of a]] b by auto
  obtain s2 where r2: "Read_T 1 (a + 1) s1 = (store_le 0 (read_bytes s (a + 1) 1), s2)" and q2: "quiet s1 s2"
    using Read_T_spec [of s1, OF _ byte_chunk [of "a + 1"]] wf b q1
    by (auto simp: quiet_wf quiet_read_bytes a1)
  have "read_bytes s a 2 = read_bytes s a 1 @ read_bytes s (a + 1) 1"
    using read_bytes_add [of s a 1 1] by (simp add: numeral_2_eq_2)
  with False r1 r2 quiet_trans [OF q1 q2] show ?thesis
    by (simp add: Read16_def combine16)
qed

lemma Read32_spec:
  assumes wf: "mem_wf s" and b: "unat a + 4 \<le> 2 ^ 48"
  shows "\<exists>s'. Read32 a s = (ucast (store_le 0 (read_bytes s a 4)), s') \<and> quiet s s'"
proof (cases "a AND 3 = 0")
  case True
  then have "chunk a 4" using b by (intro aligned_chunk) (simp_all add: and_mask_0)
  from Read_T_spec [OF wf this] True show ?thesis by (auto simp: Read32_def)
next
  case False
  have a2: "unat (a + 2) = unat a + 2" using unat_add_small [of a 2] b by simp
  obtain s1 where r1: "Read16 a s = (ucast (store_le 0 (read_bytes s a 2)), s1)" and q1: "quiet s s1"
    using Read16_spec [OF wf, of a] b by auto
  obtain s2 where r2: "Read16 (a + 2) s1 = (ucast (store_le 0 (read_bytes s (a + 2) 2)), s2)" and q2: "quiet s1 s2"
    using Read16_spec [of s1 "a + 2"] wf b q1 by (auto simp: quiet_wf quiet_read_bytes a2)
  have "read_bytes s a 4 = read_bytes s a 2 @ read_bytes s (a + 2) 2"
    using read_bytes_add [of s a 2 2] by simp
  with False r1 r2 quiet_trans [OF q1 q2] show ?thesis
    by (simp add: Read32_def combine32)
qed

lemma Read64_spec:
  assumes wf: "mem_wf s" and b: "unat a + 8 \<le> 2 ^ 48"
  shows "\<exists>s'. Read64 a s = (store_le 0 (read_bytes s a 8), s') \<and> quiet s s'"
proof (cases "a AND 7 = 0")
  case True
  then have "chunk a 8" using b by (intro aligned_chunk) (simp_all add: and_mask_0)
  from Read_T_spec [OF wf this] True show ?thesis by (auto simp: Read64_def)
next
  case False
  have a4: "unat (a + 4) = unat a + 4" using unat_add_small [of a 4] b by simp
  obtain s1 where r1: "Read32 a s = (ucast (store_le 0 (read_bytes s a 4)), s1)" and q1: "quiet s s1"
    using Read32_spec [OF wf, of a] b by auto
  obtain s2 where r2: "Read32 (a + 4) s1 = (ucast (store_le 0 (read_bytes s (a + 4) 4)), s2)" and q2: "quiet s1 s2"
    using Read32_spec [of s1 "a + 4"] wf b q1 by (auto simp: quiet_wf quiet_read_bytes a4)
  have "read_bytes s a 8 = read_bytes s a 4 @ read_bytes s (a + 4) 4"
    using read_bytes_add [of s a 4 4] by simp
  with False r1 r2 quiet_trans [OF q1 q2] show ?thesis
    by (simp add: Read64_def combine64)
qed

section \<open>Writes\<close>

lemma write_bytes_cong: "(\<And>i. i < n \<Longrightarrow> f i = g i) \<Longrightarrow> write_bytes s a f n = write_bytes s a g n"
  unfolding write_bytes_def by (rule fold_cong) (auto simp: poke_def fun_eq_iff split: option.split)

lemma poke_shift: "same_space s s1 \<Longrightarrow> poke s1 (a + of_nat m) g i = poke s a (\<lambda>i. g (i - m)) (m + i)"
  by (rule ext) (simp add: poke_def add.assoc same_space_translate [of s s1] split: option.split)

lemma write_bytes_seq:
  assumes "same_space s s1" "host s1 = write_bytes s a f m"
  shows "write_bytes s1 (a + of_nat m) g n = write_bytes s a (\<lambda>i. if i < m then f i else g (i - m)) (m + n)"
proof -
  let ?f = "\<lambda>i. if i < m then f i else g (i - m)"
  have "write_bytes s1 (a + of_nat m) g n = fold (poke s1 (a + of_nat m) g) [0..<n] (write_bytes s a f m)"
    by (simp add: write_bytes_def [of s1] assms(2))
  also have "write_bytes s a f m = write_bytes s a ?f m" by (rule write_bytes_cong) simp
  also have "fold (poke s1 (a + of_nat m) g) [0..<n] = fold (poke s a ?f) (map ((+) m) [0..<n])"
    unfolding fold_map comp_def
    by (intro ext fold_cong)
       (simp_all add: poke_shift [OF assms(1)] poke_def fun_eq_iff split: option.split)
  also have "map ((+) m) [0..<n] = [m..<m + n]"
    by (rule nth_equalityI) simp_all
  finally show ?thesis by (simp only: write_bytes_add)
qed

definition writes :: "Impl \<Rightarrow> u64 \<Rightarrow> nat \<Rightarrow> u64 \<Rightarrow> Impl \<Rightarrow> bool" where
  "writes s a n v s' \<longleftrightarrow> same_space s s' \<and> host s' = write_bytes s a (\<lambda>i. le_bytes n v ! i) n"

lemma Write_T_spec:
  assumes wf: "mem_wf s" and ch: "chunk a n"
  shows "writes s a n v (Write_T n a v s)"
proof -
  obtain p r where g: "GetPointerImpl s a = (p, r)" by (cases "GetPointerImpl s a")
  have p: "p = (case translate s a of None \<Rightarrow> 0 | Some h \<Rightarrow> h)"
    using pointer_lookup [OF wf ch] g by simp
  have l: "map (\<lambda>i. le_bytes n v ! i) [0..<n] = le_bytes n v" by (rule nth_equalityI) simp_all
  have w: "write_bytes s a (\<lambda>i. le_bytes n v ! i) n =
      (case translate s a of None \<Rightarrow> host s | Some h \<Rightarrow> host_store h (le_bytes n v) (host s))"
    using poke_chunk [of a 0 n s "\<lambda>i. le_bytes n v ! i" "host s"] ch l by (simp add: write_bytes_def split: option.split)
  show ?thesis
    using translate_not_null [OF wf, of a] p w
    by (auto simp: writes_def Write_T_def g Let_def host_write_def split: option.splits)
qed

text \<open>Two adjacent writes are one write of the joined value.\<close>

lemma writes_join:
  assumes "writes s a m v s1" "writes s1 (a + of_nat m) n v' s2"
    and "le_bytes m v = le_bytes m x" "le_bytes n v' = le_bytes n (drop_bit (8 * m) x)"
  shows "writes s a (m + n) x s2"
proof -
  have ss: "same_space s s2" using assms(1,2) same_space_trans by (auto simp: writes_def)
  have "host s2 = write_bytes s a (\<lambda>i. if i < m then le_bytes m v ! i else le_bytes n v' ! (i - m)) (m + n)"
    using assms(1,2) write_bytes_seq [of s s1 a "\<lambda>i. le_bytes m v ! i" m "\<lambda>i. le_bytes n v' ! i" n]
    by (simp add: writes_def)
  also have "\<dots> = write_bytes s a (\<lambda>i. le_bytes (m + n) x ! i) (m + n)"
    by (rule write_bytes_cong) (simp add: le_bytes_append nth_append assms(3,4))
  finally show ?thesis using ss by (simp add: writes_def)
qed

lemma writes_wf: "writes s a n v s' \<Longrightarrow> mem_wf s' = mem_wf s"
  by (simp add: writes_def same_space_wf)

lemma writes_value: "writes s a n v s' \<Longrightarrow> le_bytes n v = le_bytes n w \<Longrightarrow> writes s a n w s'"
  by (simp add: writes_def)

lemma Write16_spec:
  assumes wf: "mem_wf s" and b: "unat a + 2 \<le> 2 ^ 48"
  shows "writes s a 2 (ucast v) (Write16 a v s)"
proof (cases "a AND 1 = 0")
  case True
  then have "chunk a 2" using b by (intro aligned_chunk) (simp_all add: and_mask_0)
  from Write_T_spec [OF wf this] True show ?thesis by (simp add: Write16_def)
next
  case False
  have a1: "unat (a + 1) = unat a + 1" using unat_add_small [of a 1] b by simp
  let ?s1 = "Write_T 1 a (ucast (ucast v :: u8)) s"
  have w1: "writes s a 1 (ucast (ucast v :: u8)) ?s1"
    using Write_T_spec [OF wf byte_chunk [of a]] b by simp
  have w2: "writes ?s1 (a + of_nat 1) 1 (ucast (ucast (drop_bit 8 v) :: u8)) (Write16 a v s)"
    using Write_T_spec [OF _ byte_chunk [of "a + 1"], of ?s1] b writes_wf [OF w1] wf False
    by (simp add: Write16_def a1)
  have "writes s a (1 + 1) (ucast v) (Write16 a v s)"
    by (rule writes_join [OF w1 w2]) (rule le_bytes_cong, simp add: bit_simps)+
  then show ?thesis by (simp add: numeral_2_eq_2)
qed

lemma Write32_spec:
  assumes wf: "mem_wf s" and b: "unat a + 4 \<le> 2 ^ 48"
  shows "writes s a 4 (ucast v) (Write32 a v s)"
proof (cases "a AND 3 = 0")
  case True
  then have "chunk a 4" using b by (intro aligned_chunk) (simp_all add: and_mask_0)
  from Write_T_spec [OF wf this] True show ?thesis by (simp add: Write32_def)
next
  case False
  have a2: "unat (a + 2) = unat a + 2" using unat_add_small [of a 2] b by simp
  let ?s1 = "Write16 a (ucast v) s"
  have w1: "writes s a 2 (ucast (ucast v :: u16)) ?s1" using Write16_spec [OF wf, of a] b by simp
  have w2: "writes ?s1 (a + of_nat 2) 2 (ucast (ucast (drop_bit 16 v) :: u16)) (Write32 a v s)"
    using Write16_spec [of ?s1 "a + 2"] b writes_wf [OF w1] wf False by (simp add: Write32_def a2)
  have "writes s a (2 + 2) (ucast v) (Write32 a v s)"
    by (rule writes_join [OF w1 w2]) (rule le_bytes_cong, simp add: bit_simps)+
  then show ?thesis by simp
qed

lemma Write64_spec:
  assumes wf: "mem_wf s" and b: "unat a + 8 \<le> 2 ^ 48"
  shows "writes s a 8 v (Write64 a v s)"
proof (cases "a AND 7 = 0")
  case True
  then have "chunk a 8" using b by (intro aligned_chunk) (simp_all add: and_mask_0)
  from Write_T_spec [OF wf this] True show ?thesis by (simp add: Write64_def)
next
  case False
  have a4: "unat (a + 4) = unat a + 4" using unat_add_small [of a 4] b by simp
  let ?s1 = "Write32 a (ucast v) s"
  have w1: "writes s a 4 (ucast (ucast v :: u32)) ?s1" using Write32_spec [OF wf, of a] b by simp
  have w2: "writes ?s1 (a + of_nat 4) 4 (ucast (ucast (drop_bit 32 v) :: u32)) (Write64 a v s)"
    using Write32_spec [of ?s1 "a + 4"] b writes_wf [OF w1] wf False by (simp add: Write64_def a4)
  have "writes s a (4 + 4) v (Write64 a v s)"
    by (rule writes_join [OF w1 w2]) (rule le_bytes_cong, simp add: bit_simps)+
  then show ?thesis by simp
qed

section \<open>Reading back\<close>

lemma read_after_write_bytes:
  assumes wf: "mem_wf s" and ss: "same_space s s'" and h: "host s' = write_bytes s a f n"
    and d: "distinct_targets s a n" and m: "all_mapped s a n"
  shows "read_bytes s' a n = map f [0..<n]"
proof (rule nth_equalityI)
  fix i
  assume "i < length (read_bytes s' a n)"
  then have i: "i < n" by simp
  then obtain p where t: "translate s (a + of_nat i) = Some p"
    using m by (auto simp: all_mapped_def list_all_length)
  then show "read_bytes s' a n ! i = map f [0..<n] ! i"
    using i write_bytes_value [OF d i t, of f] same_space_translate [OF ss] h
    by (simp add: read_bytes_def read_byte_def byte_at_def)
qed simp

text \<open>
  C29. A 64-bit value written at any address of the guest's address space, aligned or not, within
  a page or across two, is read back unchanged, provided all eight bytes are mapped; aliased pages
  do not disturb it.
\<close>

theorem Write64_Read64:
  assumes "mem_wf s" "unat a + 8 \<le> 2 ^ 48" "all_mapped s a 8"
  shows "fst (Read64 a (Write64 a v s)) = v"
proof -
  let ?s = "Write64 a v s"
  have w: "writes s a 8 v ?s" using assms(1,2) by (rule Write64_spec)
  then have "read_bytes ?s a 8 = map (\<lambda>i. le_bytes 8 v ! i) [0..<8]"
    using assms small_distinct_targets [OF assms(1), of 8]
    by (intro read_after_write_bytes [of s]) (simp_all add: writes_def)
  also have "\<dots> = le_bytes 8 v" by (rule nth_equalityI) simp_all
  finally have b: "read_bytes ?s a 8 = le_bytes 8 v" .
  have "mem_wf ?s" using writes_wf [OF w] assms(1) by simp
  from Read64_spec [OF this assms(2)] show ?thesis by (auto simp: b store_le_all)
qed

theorem Write64_Read64_witness:
  "fst (Read64 0x8000FFD (Write64 0x8000FFD 0x1122334455667788 demo_memory)) = 0x1122334455667788"
proof -
  have "all_mapped demo_memory 0x8000FFD 8"
    by (simp add: all_mapped_def demo_memory_translate upt_rec)
  then show ?thesis
    using Write64_Read64 [of demo_memory "0x8000FFD" "0x1122334455667788"] demo_memory_wf by simp
qed

end
