(* ===== verification/GuestMemory_Interface.thy ===== *)
theory GuestMemory_Interface
  imports GuestMemory_Values
begin

text \<open>
  The public block operations of \<^verbatim>\<open>Memory\<close>, their properties, and the interface through which
  other components use guest memory: a locale with the laws a client may rely on, interpreted on
  the model of \<^verbatim>\<open>core/memory.cpp\<close>.
\<close>

section \<open>Public operations\<close>

definition ReadBlock :: "u64 \<Rightarrow> u64 \<Rightarrow> Impl \<times> u8 list \<Rightarrow> (bool \<times> Impl \<times> u8 list) option" where
  "ReadBlock src_addr sz st = ReadBlockImpl src_addr sz False st"

definition ReadBlockUnsafe :: "u64 \<Rightarrow> u64 \<Rightarrow> Impl \<times> u8 list \<Rightarrow> (bool \<times> Impl \<times> u8 list) option" where
  "ReadBlockUnsafe src_addr sz st = ReadBlockImpl src_addr sz True st"

definition WriteBlock :: "u64 \<Rightarrow> u8 list \<Rightarrow> u64 \<Rightarrow> Impl \<Rightarrow> (bool \<times> Impl) option" where
  "WriteBlock dest_addr src_buffer sz s = WriteBlockImpl dest_addr src_buffer sz False s"

definition WriteBlockUnsafe :: "u64 \<Rightarrow> u8 list \<Rightarrow> u64 \<Rightarrow> Impl \<Rightarrow> (bool \<times> Impl) option" where
  "WriteBlockUnsafe dest_addr src_buffer sz s = WriteBlockImpl dest_addr src_buffer sz True s"

section \<open>Properties of the block operations\<close>

text \<open>
  C15. \<^verbatim>\<open>ReadBlock\<close> over any region of the address space never faults, fills the buffer with the
  guest bytes at the consecutive addresses (0 where no page is mapped), leaves the rest of the
  buffer and the memory alone, and reports whether every byte was mapped.
\<close>

theorem ReadBlock_reads_bytes:
  assumes "mem_wf s" "AddressSpaceContains (current s) a sz"
  shows "\<exists>s'. ReadBlock a sz (s, buf) =
      Some (all_mapped s a (unat sz), s', read_bytes s a (unat sz) @ drop (unat sz) buf) \<and>
    host s' = host s"
  using ReadBlockImpl_spec [OF assms] unfolding ReadBlock_def by blast

theorem ReadBlock_reads_bytes_witness:
  "\<exists>s'. ReadBlock 0x8002FFE 4 (demo_memory, [1, 2, 3, 4, 5]) = Some (False, s', [0, 0, 0, 0, 5])"
proof -
  have "AddressSpaceContains (current demo_memory) 0x8002FFE 4"
    using demo_memory_wf by (simp add: AddressSpaceContains_iff table_wf_def)
  moreover have "\<not> all_mapped demo_memory 0x8002FFE 4" "read_bytes demo_memory 0x8002FFE 4 = [0, 0, 0, 0]"
    by (simp_all add: all_mapped_def read_bytes_def read_byte_def byte_at_def demo_memory_translate upt_rec)
  ultimately show ?thesis
    using ReadBlock_reads_bytes [of demo_memory "0x8002FFE" 4 "[1, 2, 3, 4, 5]"] demo_memory_wf by auto
qed

text \<open>
  C14. \<^verbatim>\<open>WriteBlock\<close> changes no host byte outside the pages of its region, and when no two
  addresses of the region are aliases a \<^verbatim>\<open>ReadBlock\<close> of a fully mapped region returns exactly the
  bytes that were written.
\<close>

theorem WriteBlock_ReadBlock:
  assumes "mem_wf s" "AddressSpaceContains (current s) a (of_nat (length bs))"
    and "length bs < 2 ^ 64" "distinct_targets s a (length bs)" "all_mapped s a (length bs)"
  shows "\<exists>s' s''. WriteBlock a bs (of_nat (length bs)) s = Some (True, s') \<and>
    (\<forall>h. host s' h \<noteq> host s h \<longrightarrow> (\<exists>i < length bs. translate s (a + of_nat i) = Some h)) \<and>
    ReadBlock a (of_nat (length bs)) (s', []) = Some (True, s'', bs)"
proof -
  have u: "unat (of_nat (length bs) :: u64) = length bs" using assms(3) by (simp add: unat_of_nat)
  from WriteBlockImpl_spec [OF assms(1,2), of bs False] assms(5) obtain s' where
    w: "WriteBlock a bs (of_nat (length bs)) s = Some (True, s')" and ss: "same_space s s'"
    and h: "host s' = write_bytes s a (\<lambda>i. bs ! i) (length bs)" by (auto simp: WriteBlock_def u)
  have "read_bytes s' a (length bs) = map (\<lambda>i. bs ! i) [0..<length bs]"
    using assms ss h by (intro read_after_write_bytes [of s]) simp_all
  moreover have "all_mapped s' a (length bs)"
    using assms(5) by (simp add: all_mapped_def same_space_translate [OF ss])
  ultimately obtain s'' where "ReadBlock a (of_nat (length bs)) (s', []) = Some (True, s'', bs)"
    using ReadBlockImpl_spec [of s' a "of_nat (length bs)" False "[]"] assms(1,2)
    by (auto simp: ReadBlock_def u map_nth same_space_wf [OF ss] same_space_current [OF ss])
  moreover have "host s' k \<noteq> host s k \<longrightarrow> (\<exists>i < length bs. translate s (a + of_nat i) = Some k)" for k
    using write_bytes_frame [of "length bs" s a k "\<lambda>i. bs ! i"] h by auto
  ultimately show ?thesis using w by blast
qed

theorem WriteBlock_ReadBlock_witness:
  "\<exists>s' s''. WriteBlock 0x8000FFE [1, 2, 3, 4] 4 demo_memory = Some (True, s') \<and>
    ReadBlock 0x8000FFE 4 (s', []) = Some (True, s'', [1, 2, 3, 4])"
proof -
  have l: "length [1, 2, 3, 4 :: u8] = 4" by simp
  have sp: "AddressSpaceContains (current demo_memory) 0x8000FFE 4"
    using demo_memory_wf by (simp add: AddressSpaceContains_iff table_wf_def)
  have "distinct_targets demo_memory 0x8000FFE 4" "all_mapped demo_memory 0x8000FFE 4"
    using demo_memory_wf
    by (simp_all add: small_distinct_targets all_mapped_def demo_memory_translate upt_rec)
  with sp WriteBlock_ReadBlock [of demo_memory "0x8000FFE" "[1, 2, 3, 4]", unfolded l] demo_memory_wf
  show ?thesis by fastforce
qed

text \<open>
  C40. \<^verbatim>\<open>CopyBlock\<close> copies nothing: it walks the destination and writes the destination's own
  bytes back, so that for every source address the memory is unchanged while the result reports
  success whenever the destination is mapped.
\<close>

theorem CopyBlock_copies_nothing:
  assumes "mem_wf s" "AddressSpaceContains (current s) dest sz"
  shows "\<exists>s'. CopyBlock dest src sz s = Some (all_mapped s dest (unat sz), s') \<and> host s' = host s"
  using CopyBlock_spec [OF assms] by blast

theorem CopyBlock_copies_nothing_witness:
  "\<exists>s'. CopyBlock 0x8001000 0x8000000 0x10 demo_memory = Some (True, s') \<and> host s' = host demo_memory"
proof -
  have "AddressSpaceContains (current demo_memory) 0x8001000 0x10"
    using demo_memory_wf by (simp add: AddressSpaceContains_iff table_wf_def)
  moreover have "all_mapped demo_memory 0x8001000 16"
    by (simp add: all_mapped_def demo_memory_translate upt_rec)
  ultimately show ?thesis
    using CopyBlock_copies_nothing [of demo_memory "0x8001000" "0x10" "0x8000000"] demo_memory_wf by auto
qed

section \<open>The interface\<close>

text \<open>
  What a client may assume of guest memory: reads and writes of a supplied buffer always return,
  keep the memory well-formed and the address translation, reads change no byte, and a write
  changes only bytes that an address of its range stands for.
\<close>

locale guest_memory =
  fixes ok :: "'s \<Rightarrow> bool"
    and location :: "'s \<Rightarrow> u64 \<Rightarrow> u64 option"
    and contents :: "'s \<Rightarrow> u64 \<Rightarrow> u8"
    and rd :: "u64 \<Rightarrow> u64 \<Rightarrow> 's \<times> u8 list \<Rightarrow> (bool \<times> 's \<times> u8 list) option"
    and wr :: "u64 \<Rightarrow> u8 list \<Rightarrow> u64 \<Rightarrow> 's \<Rightarrow> (bool \<times> 's) option"
    and valid :: "'s \<Rightarrow> u64 \<Rightarrow> bool"
  assumes rd_returns: "ok s \<Longrightarrow> unat sz \<le> length buf \<Longrightarrow>
      \<exists>b s' buf'. rd a sz (s, buf) = Some (b, s', buf') \<and> length buf' = length buf \<and>
        ok s' \<and> location s' = location s \<and> contents s' = contents s"
    and wr_returns: "ok s \<Longrightarrow> unat sz \<le> length bs \<Longrightarrow>
      \<exists>b s'. wr a bs sz s = Some (b, s') \<and> ok s' \<and> location s' = location s \<and>
        (\<forall>h. contents s' h \<noteq> contents s h \<longrightarrow> (\<exists>i < unat sz. location s (a + of_nat i) = Some h))"
    and valid_location: "ok s \<Longrightarrow> valid s a \<longleftrightarrow> location s a \<noteq> None"
begin

text \<open>The bytes within \<open>n\<close> addresses of an admissible one.\<close>

definition window :: "(u64 \<Rightarrow> bool) \<Rightarrow> nat \<Rightarrow> 's \<Rightarrow> u64 set" where
  "window R n s = {h. \<exists>a i. R a \<and> i < n \<and> location s (a + of_nat i) = Some h}"

text \<open>States that differ from \<open>s0\<close> only inside the window.\<close>

definition within :: "(u64 \<Rightarrow> bool) \<Rightarrow> nat \<Rightarrow> 's \<Rightarrow> 's \<Rightarrow> bool" where
  "within R n s0 s \<longleftrightarrow> ok s \<and> location s = location s0 \<and>
     (\<forall>h. h \<notin> window R n s0 \<longrightarrow> contents s h = contents s0 h)"

lemma within_refl: "ok s \<Longrightarrow> within R n s s"
  by (simp add: within_def)

lemma rd_within:
  assumes "within R n s0 s" "unat sz \<le> length buf"
  shows "\<exists>b s' buf'. rd a sz (s, buf) = Some (b, s', buf') \<and> length buf' = length buf \<and> within R n s0 s'"
  using rd_returns [of s sz buf a] assms by (auto simp: within_def)

lemma wr_within:
  assumes w: "within R n s0 s" and r: "R a" "unat sz \<le> n" and l: "unat sz \<le> length bs"
  shows "\<exists>b s'. wr a bs sz s = Some (b, s') \<and> within R n s0 s'"
proof -
  from wr_returns [of s sz bs a] w l obtain b s' where
    s': "wr a bs sz s = Some (b, s')" "ok s'" "location s' = location s"
      "\<And>h. contents s' h \<noteq> contents s h \<Longrightarrow> \<exists>i < unat sz. location s (a + of_nat i) = Some h"
    by (auto simp: within_def)
  have "contents s' h = contents s0 h" if "h \<notin> window R n s0" for h
  proof -
    have "contents s' h = contents s h"
    proof (rule ccontr)
      assume "contents s' h \<noteq> contents s h"
      then obtain i where "i < unat sz" "location s (a + of_nat i) = Some h" using s'(4) by blast
      then have "h \<in> window R n s0"
        using r w by (auto simp: window_def within_def intro!: exI [of _ a] exI [of _ i])
      with that show False by contradiction
    qed
    with that w show ?thesis by (simp add: within_def)
  qed
  with s' w show ?thesis by (auto simp: within_def)
qed

end

lemma ReadBlock_returns:
  assumes wf: "mem_wf s" and l: "unat sz \<le> length buf"
  shows "\<exists>b s' buf'. ReadBlock a sz (s, buf) = Some (b, s', buf') \<and> length buf' = length buf \<and>
    mem_wf s' \<and> translate s' = translate s \<and> host s' = host s"
proof (cases "AddressSpaceContains (current s) a sz")
  case True
  then show ?thesis
    using ReadBlockImpl_spec [OF wf True, of False buf] wf l same_space_wf same_space_translate
    by (fastforce simp: ReadBlock_def)
next
  case False
  then show ?thesis
    using wf l by (auto simp: ReadBlock_def ReadBlockImpl_def WalkBlock_outside put_bytes_def)
qed

lemma WriteBlock_returns:
  assumes wf: "mem_wf s" and l: "unat sz \<le> length bs"
  shows "\<exists>b s'. WriteBlock a bs sz s = Some (b, s') \<and> mem_wf s' \<and> translate s' = translate s \<and>
    (\<forall>h. host s' h \<noteq> host s h \<longrightarrow> (\<exists>i < unat sz. translate s (a + of_nat i) = Some h))"
proof (cases "AddressSpaceContains (current s) a sz")
  case True
  from WriteBlockImpl_spec [OF wf True l, of False] obtain s' where
    w: "WriteBlock a bs sz s = Some (all_mapped s a (unat sz), s')" and ss: "same_space s s'"
    and h: "host s' = write_bytes s a (\<lambda>i. bs ! i) (unat sz)" by (auto simp: WriteBlock_def)
  have "host s' k \<noteq> host s k \<longrightarrow> (\<exists>i < unat sz. translate s (a + of_nat i) = Some k)" for k
    using write_bytes_frame [of "unat sz" s a k "\<lambda>i. bs ! i"] h by auto
  with w ss wf show ?thesis
    using same_space_wf [OF ss] same_space_translate [OF ss] by simp
next
  case False
  then show ?thesis
    using wf by (auto simp: WriteBlock_def WriteBlockImpl_def WalkBlock_outside)
qed

interpretation gm: guest_memory "\<lambda>s. mem_wf s" "\<lambda>s. translate s" host ReadBlock WriteBlock
  IsValidVirtualAddress
  by unfold_locales
     (blast intro: ReadBlock_returns, blast intro: WriteBlock_returns, rule IsValidVirtualAddress_iff)

end
