(* ===== verification/CheatEngine.thy ===== *)
theory CheatEngine
  imports CheatVm_Host GuestMemory_Interface
begin

text \<open>
  The cheat engine of \<^verbatim>\<open>core/memory/cheat_engine.cpp\<close>: the host side of the cheat machine
  (\<^verbatim>\<open>StandardVmCallbacks\<close>) and the engine that loads and runs cheats once per frame. The text
  parser is in its own theory.
\<close>

section \<open>The emulated system, as far as the callbacks see it\<close>

text \<open>
  The application process: whether it is being terminated, whether it is suspended, and for each
  thread whether suspension by its process was requested.
\<close>

record KProcess =
  terminating :: bool
  is_suspended :: bool
  thread_suspended :: "bool list"

datatype ProcessActivity = Runnable | Paused

text \<open>\<^verbatim>\<open>KProcess::SetActivity\<close>; a refused request (\<^verbatim>\<open>ResultInvalidState\<close>) is \<open>None\<close>.\<close>

definition SetActivity :: "ProcessActivity \<Rightarrow> KProcess \<Rightarrow> KProcess option" where
  "SetActivity activity p =
     (if terminating p then None
      else if activity = Paused then
        (if is_suspended p then None
         else Some (p\<lparr>thread_suspended := map (\<lambda>_. True) (thread_suspended p), is_suspended := True\<rparr>))
      else
        (if \<not> is_suspended p then None
         else Some (p\<lparr>thread_suspended := map (\<lambda>_. False) (thread_suspended p), is_suspended := False\<rparr>)))"

text \<open>
  \<open>npad\<close> is \<open>None\<close> while the hid service, its resource manager or its npad is not there, and the
  accumulated press state otherwise. \<open>fault\<close> records a null dereference in the memory.
\<close>

record System =
  memory :: Impl
  fault :: bool
  npad :: "u64 option"
  application :: KProcess
  icache_invalidations :: "(u64 \<times> u64) list"
  debug_messages :: "(u8 \<times> u64) list"
  command_messages :: "string list"

section \<open>The standard callbacks\<close>

definition IsAddressInRange :: "CheatProcessMetadata \<Rightarrow> u64 \<Rightarrow> bool" where
  "IsAddressInRange md a =
     (\<not> ((a < base (main_nso_extents md) \<or> a \<ge> base (main_nso_extents md) + size_of (main_nso_extents md)) \<and>
         (a < base (heap_extents md) \<or> a \<ge> base (heap_extents md) + size_of (heap_extents md)) \<and>
         (a < base (alias_extents md) \<or> a \<ge> base (alias_extents md) + size_of (alias_extents md)) \<and>
         (a < base (aslr_extents md) \<or> a \<ge> base (aslr_extents md) + size_of (aslr_extents md))))"

definition std_MemoryReadUnsafe :: "CheatProcessMetadata \<Rightarrow> u64 \<Rightarrow> nat \<Rightarrow> System \<Rightarrow> u8 list \<times> System" where
  "std_MemoryReadUnsafe md a n w =
     (if \<not> IsAddressInRange md a \<or> \<not> IsValidVirtualAddress (memory w) a
      then (fill_array n 0, w)
      else (case ReadBlock a (of_nat n) (memory w, fill_array n 0) of
              None \<Rightarrow> (fill_array n 0, w\<lparr>fault := True\<rparr>)
            | Some (_, m, data) \<Rightarrow> (data, w\<lparr>memory := m\<rparr>)))"

definition std_MemoryWriteUnsafe :: "CheatProcessMetadata \<Rightarrow> u64 \<Rightarrow> u8 list \<Rightarrow> System \<Rightarrow> System" where
  "std_MemoryWriteUnsafe md a data w =
     (if \<not> IsAddressInRange md a \<or> \<not> IsValidVirtualAddress (memory w) a then w
      else (case WriteBlock a data (of_nat (length data)) (memory w) of
              None \<Rightarrow> w\<lparr>fault := True\<rparr>
            | Some (b, m) \<Rightarrow>
                (let w1 = w\<lparr>memory := m\<rparr> in
                 if b then w1\<lparr>icache_invalidations := icache_invalidations w1 @ [(a, of_nat (length data))]\<rparr>
                 else w1)))"

definition NpadButton_All :: u64 where "NpadButton_All = 0xFFFFFFFFFFFFFFFF"

definition std_HidKeysDown :: "System \<Rightarrow> u64 \<times> System" where
  "std_HidKeysDown w =
     (case npad w of
        None \<Rightarrow> (0, w)
      | Some press_state \<Rightarrow> (press_state AND NpadButton_All, w\<lparr>npad := Some 0\<rparr>))"

definition std_PauseProcess :: "System \<Rightarrow> System" where
  "std_PauseProcess w =
     (if is_suspended (application w) then w
      else (case SetActivity Paused (application w) of None \<Rightarrow> w | Some p \<Rightarrow> w\<lparr>application := p\<rparr>))"

definition std_ResumeProcess :: "System \<Rightarrow> System" where
  "std_ResumeProcess w =
     (if \<not> is_suspended (application w) then w
      else (case SetActivity Runnable (application w) of None \<Rightarrow> w | Some p \<Rightarrow> w\<lparr>application := p\<rparr>))"

definition std_DebugLog :: "u8 \<Rightarrow> u64 \<Rightarrow> System \<Rightarrow> System" where
  "std_DebugLog i value w = w\<lparr>debug_messages := debug_messages w @ [(i, value)]\<rparr>"

text \<open>
  The message without its trailing newline. The machine's messages are never empty, so
  \<^verbatim>\<open>data.back()\<close> is defined.
\<close>

definition std_CommandLog :: "string \<Rightarrow> System \<Rightarrow> System" where
  "std_CommandLog data w =
     w\<lparr>command_messages := command_messages w @ [if last data = CHR 0x0A then butlast data else data]\<rparr>"

definition standard_callbacks :: "CheatProcessMetadata \<Rightarrow> System Callbacks" where
  "standard_callbacks md =
     \<lparr>MemoryReadUnsafe = std_MemoryReadUnsafe md, MemoryWriteUnsafe = std_MemoryWriteUnsafe md,
      HidKeysDown = std_HidKeysDown, PauseProcess = std_PauseProcess, ResumeProcess = std_ResumeProcess,
      DebugLog = std_DebugLog, CommandLog = std_CommandLog\<rparr>"

section \<open>The engine\<close>

record CheatEngine =
  vm :: DmntCheatVm
  metadata :: CheatProcessMetadata
  cheats :: "CheatEntry list"
  is_pending_reload :: bool
  event_registered :: bool

text \<open>The constructor.\<close>

definition new_CheatEngine :: "CheatEntry list \<Rightarrow> u8 list \<Rightarrow> CheatEngine" where
  "new_CheatEngine initial_cheats build_id =
     \<lparr>vm = initial_vm, metadata = no_metadata\<lparr>main_nso_build_id := build_id\<rparr>, cheats = initial_cheats,
      is_pending_reload = False, event_registered = False\<rparr>"

text \<open>What \<^verbatim>\<open>Initialize\<close> asks of the process and its page table.\<close>

record ProcessLayout =
  layout_process_id :: u64
  layout_program_id :: u64
  heap_region :: MemoryRegionExtents
  alias_code_region :: MemoryRegionExtents
  alias_region :: MemoryRegionExtents

definition CheatEngine_Initialize :: "ProcessLayout \<Rightarrow> CheatEngine \<Rightarrow> CheatEngine" where
  "CheatEngine_Initialize l e =
     e\<lparr>event_registered := True,
       metadata := (metadata e)
         \<lparr>process_id := layout_process_id l, title_id := layout_program_id l,
          heap_extents := heap_region l, aslr_extents := alias_code_region l,
          alias_extents := alias_region l\<rparr>,
       is_pending_reload := True\<rparr>"

definition SetMainMemoryParameters :: "u64 \<Rightarrow> u64 \<Rightarrow> CheatEngine \<Rightarrow> CheatEngine" where
  "SetMainMemoryParameters main_region_begin main_region_size e =
     e\<lparr>metadata := (metadata e)\<lparr>main_nso_extents := \<lparr>base = main_region_begin, size_of = main_region_size\<rparr>\<rparr>\<rparr>"

definition CheatEngine_Reload :: "CheatEntry list \<Rightarrow> CheatEngine \<Rightarrow> CheatEngine" where
  "CheatEngine_Reload reload_cheats e = e\<lparr>cheats := reload_cheats, is_pending_reload := True\<rparr>"

text \<open>
  One frame. The result of \<^verbatim>\<open>LoadProgram\<close> is ignored, as in the source; \<open>None\<close> is a cheat that
  ran out of fuel, \<open>Inl\<close> a fault of the machine.
\<close>

definition FrameCallback ::
  "nat \<Rightarrow> CheatEngine \<Rightarrow> System \<Rightarrow> (vm_error + CheatEngine \<times> System) option" where
  "FrameCallback fuel e w =
     (let loaded = (if is_pending_reload e then map_sum id snd (LoadProgram (cheats e) (vm e)) else Inr (vm e))
      in case loaded of
           Inl err \<Rightarrow> Some (Inl err)
         | Inr v \<Rightarrow>
             (let e1 = e\<lparr>is_pending_reload := False, vm := v\<rparr> in
              if num_opcodes v = 0 then Some (Inr (e1, w))
              else map_option (map_sum id (\<lambda>(v2, w2). (e1\<lparr>vm := v2\<rparr>, w2)))
                     (Execute fuel (standard_callbacks (metadata e)) (metadata e) v w)))"

section \<open>Cheats stay inside their windows\<close>

text \<open>
  The states reachable from \<open>w0\<close>: no null dereference, and host memory differs only where an
  address at most seven bytes behind an admissible one points.
\<close>

definition contained :: "CheatProcessMetadata \<Rightarrow> System \<Rightarrow> System \<Rightarrow> bool" where
  "contained md w0 w \<longleftrightarrow> \<not> fault w \<and> gm.within (IsAddressInRange md) 8 (memory w0) (memory w)"

lemma std_read_contained:
  assumes c: "contained md w0 w" and n: "n \<le> 8"
  shows "contained md w0 (snd (std_MemoryReadUnsafe md a n w))"
proof -
  have u: "unat (of_nat n :: u64) = n" using n by (simp add: unat_of_nat)
  from gm.rd_within [of "IsAddressInRange md" 8 "memory w0" "memory w" "of_nat n" "fill_array n 0" a] c u
  obtain b m data where "ReadBlock a (of_nat n) (memory w, fill_array n 0) = Some (b, m, data)"
    "gm.within (IsAddressInRange md) 8 (memory w0) m"
    by (auto simp: contained_def)
  with c show ?thesis by (simp add: std_MemoryReadUnsafe_def contained_def)
qed

lemma std_write_contained:
  assumes c: "contained md w0 w" and n: "length bs \<le> 8"
  shows "contained md w0 (std_MemoryWriteUnsafe md a bs w)"
proof (cases "IsAddressInRange md a")
  case True
  have u: "unat (of_nat (length bs) :: u64) = length bs" using n by (simp add: unat_of_nat)
  from gm.wr_within [of "IsAddressInRange md" 8 "memory w0" "memory w" a "of_nat (length bs)" bs] c u True n
  obtain b m where "WriteBlock a bs (of_nat (length bs)) (memory w) = Some (b, m)"
    "gm.within (IsAddressInRange md) 8 (memory w0) m"
    by (auto simp: contained_def)
  with c show ?thesis by (auto simp: std_MemoryWriteUnsafe_def contained_def Let_def)
next
  case False
  with c show ?thesis by (simp add: std_MemoryWriteUnsafe_def)
qed

interpretation std: vm_host "standard_callbacks md" "contained md w0" for md w0
proof unfold_locales
  fix w :: System and n :: nat and a :: u64 assume "contained md w0 w" "n \<le> 8"
  then show "contained md w0 (snd (MemoryReadUnsafe (standard_callbacks md) a n w))"
    by (simp add: standard_callbacks_def std_read_contained)
next
  fix w :: System and bs :: "u8 list" and a :: u64 assume "contained md w0 w" "length bs \<le> 8"
  then show "contained md w0 (MemoryWriteUnsafe (standard_callbacks md) a bs w)"
    by (simp add: standard_callbacks_def std_write_contained)
qed (auto simp: standard_callbacks_def contained_def std_HidKeysDown_def std_PauseProcess_def
    std_ResumeProcess_def std_DebugLog_def std_CommandLog_def split: option.splits)

text \<open>
  C6. Memory safety of cheats: whatever a cheat's opcodes are, after any number of rounds of a run
  with the standard callbacks, be it still going (for ever, if it loops), finished or stopped by a
  fault of the machine, no null pointer has been dereferenced, and a host byte it changed is one that
  some address stands for that lies at most seven bytes after an address of the main, heap, alias or
  code extents. (Guest memory is well-formed at the start and no access has faulted before.)
\<close>

theorem cheat_runs_stay_in_extents:
  assumes "mem_wf (memory w)" "\<not> fault w"
    and "Execute_upto n (standard_callbacks md) md v w = (st, v', w')"
  shows "\<not> fault w' \<and>
    (\<forall>h. host (memory w') h \<noteq> host (memory w) h \<longrightarrow>
       (\<exists>a i. IsAddressInRange md a \<and> i < 8 \<and> translate (memory w) (a + of_nat i) = Some h))"
proof -
  have "contained md w w" using assms(1,2) by (simp add: contained_def gm.within_refl)
  from std.Execute_upto_keeps [OF this assms(3)] have c: "contained md w w'" .
  then have "host (memory w') h = host (memory w) h"
    if "h \<notin> gm.window (IsAddressInRange md) 8 (memory w)" for h
    using that by (auto simp: contained_def gm.within_def)
  moreover have "\<not> fault w'" using c by (simp add: contained_def)
  ultimately show ?thesis unfolding gm.window_def by blast
qed

definition demo_system :: System where
  "demo_system =
     \<lparr>memory = demo_memory, fault = False, npad = None,
      application = \<lparr>terminating = False, is_suspended = False, thread_suspended = [False]\<rparr>,
      icache_invalidations = [], debug_messages = [], command_messages = []\<rparr>"

definition demo_metadata :: CheatProcessMetadata where
  "demo_metadata = no_metadata\<lparr>main_nso_extents := \<lparr>base = 0x8000000, size_of = 0x3000\<rparr>\<rparr>"

text \<open>
  A cheat that stores the word 7 at offset 0x100 of the main region and then runs into an else
  outside every block.
\<close>

definition demo_cheat :: DmntCheatVm where
  "demo_cheat = words_vm [0x04000000, 0x100, 7, 0x21000000]"

lemma demo_cheat_decodes:
  "DecodeNextOpcode (ResetState demo_cheat) =
     (Some \<lparr>begin_conditional_block = False, opcode = StoreStaticOpcode 4 MainNso 0 0x100 7\<rparr>,
      (ResetState demo_cheat)\<lparr>instruction_ptr := 3\<rparr>)"
  "DecodeNextOpcode ((ResetState demo_cheat)\<lparr>instruction_ptr := 3\<rparr>) =
     (Some \<lparr>begin_conditional_block = False, opcode = EndConditionalOpcode True\<rparr>,
      (ResetState demo_cheat)\<lparr>instruction_ptr := 4\<rparr>)"
proof -
  let ?c = "StoreStaticOpcode 4 MainNso 0 0x100 7" and ?d = "EndConditionalOpcode True"
  let ?v = "ResetState demo_cheat"
  have w: "encode ?c @ encode ?d = [0x04000000, 0x100, 7, 0x21000000]"
    by (simp add: hex_word_def vmint_words_def hi32_def lo32_def nibble_at_def)
  have "reads ?v (encode ?c @ encode ?d)" "decode_success ?v" "instruction_ptr ?v = 0"
    unfolding w by (auto simp: reads_def demo_cheat_def words_vm_def ResetState_def less_Suc_eq)
  moreover have "length (encode ?c) = 3" "length (encode ?d) = 1" by (simp_all add: vmint_words_def)
  ultimately show "DecodeNextOpcode ?v = (Some \<lparr>begin_conditional_block = False, opcode = ?c\<rparr>,
      ?v\<lparr>instruction_ptr := 3\<rparr>)"
    "DecodeNextOpcode (?v\<lparr>instruction_ptr := 3\<rparr>) = (Some \<lparr>begin_conditional_block = False, opcode = ?d\<rparr>,
      ?v\<lparr>instruction_ptr := 4\<rparr>)"
    using DecodeNextOpcode_encoded [of ?c ?v] DecodeNextOpcode_encoded [of ?d "?v\<lparr>instruction_ptr := 3\<rparr>"]
    by (simp_all add: reads_append canon_mem_def to_MemoryAccessType_def is_nibble_def vmint_fits_def
        starts_block_def del: encode.simps)
qed

lemma demo_cheat_faults:
  "\<exists>v' w'. Execute_upto 2 cb md demo_cheat w = (Faulted InvalidConditionDepth, v', w')"
proof -
  have "condition_depth (ResetState demo_cheat) = 0" by (simp add: ResetState_def)
  then show ?thesis
    unfolding Execute_upto_def numeral_2_eq_2
    by (simp add: demo_cheat_decodes exec_round_def exec_opcode_def exec_StoreStatic_def
        exec_EndConditional_def SkipConditionalBlock_def Let_def split: prod.split)
qed

theorem cheat_runs_stay_in_extents_witness:
  "\<exists>v' w'. Execute_upto 2 (standard_callbacks demo_metadata) demo_metadata demo_cheat demo_system =
      (Faulted InvalidConditionDepth, v', w') \<and> \<not> fault w' \<and>
    (\<forall>h. host (memory w') h \<noteq> host demo_memory h \<longrightarrow>
       (\<exists>a i. IsAddressInRange demo_metadata a \<and> i < 8 \<and> translate demo_memory (a + of_nat i) = Some h))"
proof -
  obtain v' w' where ex: "Execute_upto 2 (standard_callbacks demo_metadata) demo_metadata demo_cheat demo_system =
      (Faulted InvalidConditionDepth, v', w')"
    using demo_cheat_faults [of "standard_callbacks demo_metadata" demo_metadata demo_system] by blast
  have m: "memory demo_system = demo_memory" "\<not> fault demo_system" by (simp_all add: demo_system_def)
  have wf: "mem_wf (memory demo_system)" using demo_memory_wf by (simp add: m)
  show ?thesis
    by (rule exI [of _ v'], rule exI [of _ w'], rule conjI [OF ex])
       (rule cheat_runs_stay_in_extents [OF wf m(2) ex, unfolded m])
qed

section \<open>Frames\<close>

text \<open>
  C25. A reload takes effect at the next frame: the frame clears the pending flag, loads exactly
  the opcodes of the enabled new cheats and runs them; when there is nothing to run, or too much
  for the program buffer, the frame runs nothing and touches nothing.
\<close>

theorem FrameCallback_after_Reload:
  assumes "vm_sized (vm e)" "list_all cheat_entry_wf cs"
  defines "text \<equiv> program_text cs"
    and "e1 \<equiv> e\<lparr>cheats := cs, is_pending_reload := False\<rparr>"
  shows "if text \<noteq> [] \<and> length text \<le> MaximumProgramOpcodeCount
    then FrameCallback fuel (CheatEngine_Reload cs e) w =
      map_option (map_sum id (\<lambda>(v, w1). (e1\<lparr>vm := v\<rparr>, w1)))
        (Execute fuel (standard_callbacks (metadata e)) (metadata e)
           ((vm e)\<lparr>program := text @ drop (length text) (program (vm e)), num_opcodes := length text\<rparr>) w)
    else \<exists>v. FrameCallback fuel (CheatEngine_Reload cs e) w = Some (Inr (e1\<lparr>vm := v\<rparr>, w)) \<and>
      num_opcodes v = 0"
proof (cases "length text \<le> MaximumProgramOpcodeCount")
  case True
  then have "LoadProgram cs (vm e) =
      Inr (True, (vm e)\<lparr>program := text @ drop (length text) (program (vm e)), num_opcodes := length text\<rparr>)"
    using LoadProgram_fits [OF assms(2,1)] by (simp add: text_def)
  then show ?thesis
    using True by (auto simp: FrameCallback_def CheatEngine_Reload_def e1_def Let_def)
next
  case False
  then obtain v where "LoadProgram cs (vm e) = Inr (False, v)" "num_opcodes v = 0"
    using LoadProgram_too_long [OF assms(2,1)] by (auto simp: text_def)
  then show ?thesis
    using False by (auto simp: FrameCallback_def CheatEngine_Reload_def e1_def Let_def)
qed

theorem FrameCallback_after_Reload_witness:
  "\<exists>v. FrameCallback 1 (CheatEngine_Reload [empty_entry] (new_CheatEngine [] [])) demo_system =
     Some (Inr ((new_CheatEngine [] [])\<lparr>cheats := [empty_entry], is_pending_reload := False, vm := v\<rparr>, demo_system)) \<and>
     num_opcodes v = 0"
proof -
  have "vm_sized (vm (new_CheatEngine [] []))" by (simp add: new_CheatEngine_def wf_intros)
  moreover have "list_all cheat_entry_wf [empty_entry]" "program_text [empty_entry] = []"
    by (simp_all add: cheat_entry_wf_def empty_entry_def empty_definition_def)
  ultimately show ?thesis
    using FrameCallback_after_Reload [of "new_CheatEngine [] []" "[empty_entry]" 1 demo_system] by simp
qed

end
