(* ===== verification/CheatParser.thy ===== *)
theory CheatParser
  imports CheatEngine
begin

text \<open>
  The text parser of \<^verbatim>\<open>core/memory/cheat_engine.cpp\<close> (\<^verbatim>\<open>ExtractName\<close>, \<^verbatim>\<open>TextCheatParser::Parse\<close>):
  a master section \<^verbatim>\<open>{name}\<close>, cheats \<^verbatim>\<open>[name]\<close>, and opcodes of up to eight hexadecimal digits,
  each followed by one separator character. A malformed text gives the empty list of entries.
\<close>

section \<open>Characters\<close>

text \<open>The classification of \<^verbatim>\<open><cctype>\<close> in the C locale.\<close>

definition isspace :: "char \<Rightarrow> bool" where
  "isspace c = (let n = of_char c :: nat in n = 0x20 \<or> 9 \<le> n \<and> n \<le> 0x0D)"

definition hex_value :: "char \<Rightarrow> nat option" where
  "hex_value c =
     (let n = of_char c :: nat in
      if 0x30 \<le> n \<and> n \<le> 0x39 then Some (n - 0x30)
      else if 0x41 \<le> n \<and> n \<le> 0x46 then Some (n - 0x41 + 10)
      else if 0x61 \<le> n \<and> n \<le> 0x66 then Some (n - 0x61 + 10)
      else None)"

definition isxdigit :: "char \<Rightarrow> bool" where
  "isxdigit c \<longleftrightarrow> hex_value c \<noteq> None"

text \<open>\<^verbatim>\<open>std::strtoul(s, nullptr, 16)\<close> on a string of hexadecimal digits.\<close>

definition strtoul16 :: "string \<Rightarrow> nat" where
  "strtoul16 s = foldl (\<lambda>v c. v * 16 + (case hex_value c of None \<Rightarrow> 0 | Some d \<Rightarrow> d)) 0 s"

section \<open>Names\<close>

text \<open>
  Reading \<^verbatim>\<open>data[i]\<close> with \<open>i\<close> beyond the last character is undefined; the search for the closing
  bracket does it before it compares its index with the size.
\<close>

datatype parse_error = OutOfBoundsRead

function find_end :: "string \<Rightarrow> nat \<Rightarrow> char \<Rightarrow> parse_error + nat option" where
  "find_end data end_index match =
     (if length data \<le> end_index then Inl OutOfBoundsRead
      else if data ! end_index \<noteq> match then
        (if end_index + 1 > length data then Inr None else find_end data (end_index + 1) match)
      else Inr (Some end_index))"
  by pat_completeness auto

termination find_end
  by (relation "measure (\<lambda>(data, i, _). length data - i)") auto

declare find_end.simps [simp del]

definition ReadableNameSize :: nat where "ReadableNameSize = 0x40"

text \<open>\<open>ExtractName\<close> returns the size it stores through its out parameter and the name itself.\<close>

definition ExtractName :: "string \<Rightarrow> nat \<Rightarrow> char \<Rightarrow> parse_error + nat \<times> string" where
  "ExtractName data start_index match =
     (case find_end data start_index match of
        Inl e \<Rightarrow> Inl e
      | Inr None \<Rightarrow> Inr (0, [])
      | Inr (Some end_index) \<Rightarrow>
          (let out_name_size = end_index - start_index;
               end_index' = (if out_name_size > ReadableNameSize then start_index + ReadableNameSize
                             else end_index)
           in Inr (out_name_size, take (end_index' - start_index) (drop start_index data))))"

definition char_byte :: "char \<Rightarrow> u8" where
  "char_byte c = of_nat (of_char c)"

text \<open>The \<^verbatim>\<open>memcpy\<close> of the name, and the terminator in the last byte.\<close>

definition set_name :: "string \<Rightarrow> CheatDefinition \<Rightarrow> CheatDefinition" where
  "set_name name d =
     (let n = min ReadableNameSize (length name);
          bytes = map char_byte (take n name) @ drop n (readable_name d)
      in d\<lparr>readable_name := bytes[ReadableNameSize - 1 := 0]\<rparr>)"

abbreviation update_def :: "nat \<Rightarrow> (CheatDefinition \<Rightarrow> CheatDefinition) \<Rightarrow> CheatEntry list \<Rightarrow> CheatEntry list" where
  "update_def k f out \<equiv> out[k := (out ! k)\<lparr>definition_of := f (definition_of (out ! k))\<rparr>]"

definition push_opcode :: "u32 \<Rightarrow> CheatDefinition \<Rightarrow> CheatDefinition" where
  "push_opcode v d =
     d\<lparr>opcodes := (opcodes d)[unat (num_opcodes_def d) := v], num_opcodes_def := num_opcodes_def d + 1\<rparr>"

section \<open>The parser\<close>

text \<open>
  The loop over the text; \<open>Inr None\<close> is the early \<^verbatim>\<open>return {}\<close>. Every branch consumes at least one
  character.
\<close>

function parse_loop ::
  "string \<Rightarrow> nat \<Rightarrow> CheatEntry list \<Rightarrow> nat option \<Rightarrow> parse_error + CheatEntry list option" where
  "parse_loop data i out current_entry =
     (if length data \<le> i then Inr (Some out)
      else if isspace (data ! i) then parse_loop data (i + 1) out current_entry
      else if data ! i = CHR ''{'' then
        (if num_opcodes_def (definition_of (out ! 0)) > 0 then Inr None
         else
           (case ExtractName data (i + 1) (CHR ''}'') of
              Inl e \<Rightarrow> Inl e
            | Inr (name_size, name) \<Rightarrow>
                if name = [] then Inr None
                else parse_loop data (i + name_size + 1 + 1) (update_def 0 (set_name name) out) (Some 0)))
      else if data ! i = CHR ''['' then
        (let k = length out; out1 = out @ [empty_entry] in
         case ExtractName data (i + 1) (CHR '']'') of
           Inl e \<Rightarrow> Inl e
         | Inr (name_size, name) \<Rightarrow>
             if name = [] then Inr None
             else parse_loop data (i + name_size + 1 + 1) (update_def k (set_name name) out1) (Some k))
      else if isxdigit (data ! i) then
        (case current_entry of
           None \<Rightarrow> Inr None
         | Some k \<Rightarrow>
             if unat (num_opcodes_def (definition_of (out ! k))) \<ge> length (opcodes (definition_of (out ! k)))
             then Inr None
             else
               (let hex = take 8 (drop i data) in
                if \<not> list_all isxdigit hex then Inr None
                else parse_loop data (i + 8 + 1) (update_def k (push_opcode (of_nat (strtoul16 hex))) out)
                       current_entry))
      else Inr None)"
  by pat_completeness auto

termination parse_loop
  by (relation "measure (\<lambda>(data, i, _, _). length data - i)") auto

declare parse_loop.simps [simp del]

text \<open>The closing pass: identifiers, and a cheat is enabled when it has opcodes.\<close>

definition finish_entries :: "CheatEntry list \<Rightarrow> CheatEntry list" where
  "finish_entries out =
     map (\<lambda>(i, e). e\<lparr>enabled := num_opcodes_def (definition_of e) > 0, cheat_id := of_nat i\<rparr>)
       (enumerate 0 out)"

definition Parse :: "string \<Rightarrow> parse_error + CheatEntry list" where
  "Parse data =
     (case parse_loop data 0 [empty_entry] None of
        Inl e \<Rightarrow> Inl e
      | Inr None \<Rightarrow> Inr []
      | Inr (Some out) \<Rightarrow> Inr (finish_entries out))"

section \<open>Parsed cheats are well-formed\<close>

lemma empty_entry_wf: "cheat_entry_wf empty_entry"
  by (simp add: cheat_entry_wf_def empty_entry_def empty_definition_def)

lemma set_name_opcodes [simp]:
  "opcodes (set_name n d) = opcodes d" "num_opcodes_def (set_name n d) = num_opcodes_def d"
  by (simp_all add: set_name_def Let_def)

lemma update_name_wf:
  "list_all cheat_entry_wf out \<Longrightarrow> k < length out \<Longrightarrow> list_all cheat_entry_wf (update_def k (set_name n) out)"
  by (auto simp: list_all_length nth_list_update cheat_entry_wf_def)

lemma push_opcode_wf:
  assumes "list_all cheat_entry_wf out" "k < length out"
    and "unat (num_opcodes_def (definition_of (out ! k))) < length (opcodes (definition_of (out ! k)))"
  shows "list_all cheat_entry_wf (update_def k (push_opcode v) out)"
proof -
  let ?n = "num_opcodes_def (definition_of (out ! k))"
  have "length (opcodes (definition_of (out ! k))) = 0x100"
    using assms(1,2) by (auto simp: list_all_length cheat_entry_wf_def)
  then have "unat (?n + 1) = unat ?n + 1" using assms(3) by (simp add: unat_word_ariths)
  with assms show ?thesis
    by (auto simp: list_all_length nth_list_update cheat_entry_wf_def push_opcode_def)
qed

definition open_ok :: "CheatEntry list \<Rightarrow> nat option \<Rightarrow> bool" where
  "open_ok out cur \<longleftrightarrow> list_all cheat_entry_wf out \<and> out \<noteq> [] \<and> (\<forall>k. cur = Some k \<longrightarrow> k < length out)"

lemma parse_loop_wf:
  "open_ok out cur \<Longrightarrow> parse_loop data i out cur = Inr (Some out') \<Longrightarrow> list_all cheat_entry_wf out'"
proof (induction data i out cur rule: parse_loop.induct)
  case (1 data i out cur)
  note wf = 1(5) and res = 1(6) [unfolded parse_loop.simps [of data i out cur]]
  consider (fin) "length data \<le> i" | (space) "i < length data" "isspace (data ! i)"
    | (master) "i < length data" "\<not> isspace (data ! i)" "data ! i = CHR ''{''"
    | (cheat) "i < length data" "\<not> isspace (data ! i)" "data ! i = CHR ''[''"
    | (hex) "i < length data" "\<not> isspace (data ! i)" "data ! i \<noteq> CHR ''{''" "data ! i \<noteq> CHR ''[''"
    by fastforce
  then show ?case
  proof cases
    case fin
    with wf res show ?thesis by (simp add: open_ok_def)
  next
    case space
    with res 1(1) wf show ?thesis by simp
  next
    case master
    with res obtain name_size name where
      ex: "\<not> 0 < num_opcodes_def (definition_of (out ! 0))" "ExtractName data (i + 1) (CHR ''}'') = Inr (name_size, name)" "name \<noteq> []"
        "parse_loop data (i + name_size + 1 + 1) (update_def 0 (set_name name) out) (Some 0) = Inr (Some out')"
      by (auto split: if_splits sum.splits)
    have "open_ok (update_def 0 (set_name name) out) (Some 0)"
      using wf update_name_wf [of out 0 name] by (auto simp: open_ok_def)
    with 1(2) master ex show ?thesis by simp
  next
    case cheat
    with res obtain name_size name where
      ex: "ExtractName data (i + 1) (CHR '']'') = Inr (name_size, name)" "name \<noteq> []"
        "parse_loop data (i + name_size + 1 + 1) (update_def (length out) (set_name name) (out @ [empty_entry]))
           (Some (length out)) = Inr (Some out')"
      by (auto simp: Let_def split: if_splits sum.splits)
    have "open_ok (update_def (length out) (set_name name) (out @ [empty_entry])) (Some (length out))"
      using wf update_name_wf [of "out @ [empty_entry]" "length out" name] by (auto simp: open_ok_def empty_entry_wf)
    with 1(3) cheat ex show ?thesis by simp
  next
    case hex
    with res obtain k where
      ex: "isxdigit (data ! i)" "cur = Some k"
        "unat (num_opcodes_def (definition_of (out ! k))) < length (opcodes (definition_of (out ! k)))"
        "list_all isxdigit (take 8 (drop i data))"
        "parse_loop data (i + 8 + 1) (update_def k (push_opcode (of_nat (strtoul16 (take 8 (drop i data))))) out) (Some k) =
         Inr (Some out')"
      by (auto simp: Let_def split: if_splits option.splits)
    have "open_ok (update_def k (push_opcode (of_nat (strtoul16 (take 8 (drop i data))))) out) (Some k)"
      using wf push_opcode_wf [of out k] ex by (auto simp: open_ok_def)
    with 1(4) hex ex show ?thesis by (simp add: not_le)
  qed
qed

lemma finish_entries_wf: "list_all cheat_entry_wf out \<Longrightarrow> list_all cheat_entry_wf (finish_entries out)"
  by (auto simp: finish_entries_def list_all_length nth_enumerate_eq cheat_entry_wf_def)

lemma Parse_wf: "Parse data = Inr es \<Longrightarrow> list_all cheat_entry_wf es"
  using parse_loop_wf [of "[empty_entry]" None data 0]
  by (auto simp: Parse_def open_ok_def empty_entry_wf finish_entries_wf split: sum.splits option.splits)

text \<open>
  C24. The parser bounds what the machine loads: no text makes it produce a cheat with more than
  0x100 opcodes, so loading a parsed list into the machine never runs past an array.
\<close>

theorem parsed_cheats_load_safely:
  assumes "Parse data = Inr es" "vm_sized v"
  shows "list_all cheat_entry_wf es \<and> (\<exists>r. LoadProgram es v = Inr r)"
  using Parse_wf [OF assms(1)] assms(2) LoadProgram_fits LoadProgram_too_long
  by (metis not_le)

section \<open>Printing and parsing\<close>

text \<open>The canonical text of a cheat: its name in brackets, then one opcode per line.\<close>

definition hex8 :: "u32 \<Rightarrow> string" where
  "hex8 v = map (\<lambda>k. digit_char (unat v div 16 ^ k mod 16)) (rev [0..<8])"

definition print_opcode :: "u32 \<Rightarrow> string" where
  "print_opcode v = hex8 v @ [CHR 0x0A]"

definition print_cheat :: "string \<times> u32 list \<Rightarrow> string" where
  "print_cheat c = CHR ''['' # fst c @ [CHR '']'', CHR 0x0A] @ concat (map print_opcode (snd c))"

definition print_cheats :: "(string \<times> u32 list) list \<Rightarrow> string" where
  "print_cheats cs = concat (map print_cheat cs)"

definition cheat_ok :: "string \<times> u32 list \<Rightarrow> bool" where
  "cheat_ok c \<longleftrightarrow> fst c \<noteq> [] \<and> CHR '']'' \<notin> set (fst c) \<and> length (snd c) \<le> 0x100"

text \<open>The entry a printed cheat stands for.\<close>

definition entry_of_cheat :: "string \<times> u32 list \<Rightarrow> CheatEntry" where
  "entry_of_cheat c =
     empty_entry\<lparr>definition_of := (set_name (fst c) empty_definition)
       \<lparr>num_opcodes_def := of_nat (length (snd c)),
        opcodes := snd c @ drop (length (snd c)) (opcodes empty_definition)\<rparr>\<rparr>"

lemma digit_char_props:
  assumes "d < 16"
  shows "hex_value (digit_char d) = Some d" "isxdigit (digit_char d)" "\<not> isspace (digit_char d)"
    "digit_char d \<noteq> CHR ''{''" "digit_char d \<noteq> CHR ''[''"
proof -
  have n: "of_char (digit_char d) = (if d < 10 then 48 + d else 55 + d)"
    using assms by (simp add: digit_char_def)
  show v: "hex_value (digit_char d) = Some d"
    unfolding hex_value_def n Let_def using assms by auto
  then show "isxdigit (digit_char d)" by (simp add: isxdigit_def)
  show "\<not> isspace (digit_char d)" unfolding isspace_def n Let_def using assms by auto
  show "digit_char d \<noteq> CHR ''{''" "digit_char d \<noteq> CHR ''[''"
    using v by (auto simp: hex_value_def)
qed

lemma length_hex8 [simp]: "length (hex8 v) = 8"
  by (simp add: hex8_def)

lemma nth_hex8: "k < 8 \<Longrightarrow> \<exists>d < 16. hex8 v ! k = digit_char d"
  by (rule exI [of _ "unat v div 16 ^ (7 - k) mod 16"]) (simp add: hex8_def rev_nth)

lemma hex8_xdigits: "list_all isxdigit (hex8 v)"
  by (auto simp: hex8_def list_all_iff digit_char_props)

lemma strtoul16_digits:
  "foldl (\<lambda>v c. v * 16 + (case hex_value c of None \<Rightarrow> 0 | Some d \<Rightarrow> d)) (n div 16 ^ k)
     (map (\<lambda>k. digit_char (n div 16 ^ k mod 16)) (rev [0..<k])) = n"
proof (induction k)
  case 0
  then show ?case by simp
next
  case (Suc k)
  have "n div 16 ^ Suc k * 16 + n div 16 ^ k mod 16 = n div 16 ^ k"
    by (simp add: power_Suc2 div_mult2_eq del: power_Suc)
  with Suc show ?case by (simp add: digit_char_props)
qed

lemma strtoul16_hex8 [simp]: "strtoul16 (hex8 v) = unat v"
proof -
  have "unat v div 16 ^ 8 = 0" using unsigned_less [of v, where 'a = nat] by simp
  then show ?thesis using strtoul16_digits [of "unat v" 8] by (simp add: strtoul16_def hex8_def)
qed

lemma parse_step:
  assumes "data = pre @ c # rest"
  shows "\<not> length data \<le> length pre" "data ! length pre = c" "drop (length pre) data = c # rest"
  using assms by simp_all

lemma find_end_found:
  "m \<notin> set name \<Longrightarrow> find_end (pre @ name @ m # rest) (length pre) m = Inr (Some (length pre + length name))"
proof (induction name arbitrary: pre)
  case Nil
  then show ?case by (simp add: find_end.simps)
next
  case (Cons x name)
  then show ?case
    using Cons.IH [of "pre @ [x]"] by (auto simp: find_end.simps [of _ "length pre"] nth_append)
qed

lemma ExtractName_found:
  assumes "m \<notin> set name"
  shows "ExtractName (pre @ name @ m # rest) (length pre) m = Inr (length name, take ReadableNameSize name)"
  using find_end_found [OF assms, of pre rest] by (simp add: ExtractName_def Let_def)

lemma set_name_clamped: "set_name (take ReadableNameSize name) d = set_name name d"
  by (simp add: set_name_def Let_def min_def)

lemma parse_newline:
  "parse_loop (pre @ CHR 0x0A # rest) (length pre) out cur =
   parse_loop (pre @ CHR 0x0A # rest) (length pre + 1) out cur"
  by (subst parse_loop.simps) (simp add: isspace_def)

lemma parse_cheat_header:
  assumes "name \<noteq> []" "CHR '']'' \<notin> set name"
    and data_def: "data = pre @ CHR ''['' # name @ [CHR '']'', CHR 0x0A] @ rest"
  shows "parse_loop data (length pre) out cur =
    parse_loop data (length pre + length name + 3)
      (out @ [empty_entry\<lparr>definition_of := set_name name (definition_of empty_entry)\<rparr>]) (Some (length out))"
proof -
  have ex: "ExtractName data (length pre + 1) (CHR '']'') = Inr (length name, take ReadableNameSize name)"
    using ExtractName_found [OF assms(2), of "pre @ [CHR ''['']" "CHR 0x0A # rest"] by (simp add: data_def)
  have ne: "take ReadableNameSize name \<noteq> []" using assms(1) by (simp add: ReadableNameSize_def)
  have d: "data ! length pre = CHR ''[''" "\<not> length data \<le> length pre" by (simp_all add: data_def)
  let ?out = "out @ [empty_entry\<lparr>definition_of := set_name name (definition_of empty_entry)\<rparr>]"
  have "parse_loop data (length pre) out cur =
      parse_loop data (length pre + length name + 1 + 1) ?out (Some (length out))"
    using ex ne d by (subst parse_loop.simps) (simp add: isspace_def Let_def set_name_clamped)
  also have "\<dots> = parse_loop data (length pre + length name + 3) ?out (Some (length out))"
    using parse_newline [of "pre @ CHR ''['' # name @ [CHR '']'']" rest ?out "Some (length out)"]
    by (simp add: data_def numeral_3_eq_3)
  finally show ?thesis .
qed

definition room_for :: "nat \<Rightarrow> CheatEntry list \<Rightarrow> nat \<Rightarrow> bool" where
  "room_for k out n \<longleftrightarrow> k < length out \<and> length (opcodes (definition_of (out ! k))) = 0x100 \<and>
     unat (num_opcodes_def (definition_of (out ! k))) + n \<le> 0x100"

lemma room_for_push:
  assumes "room_for k out (Suc n)"
  shows "room_for k (update_def k (push_opcode v) out) n"
proof -
  have "unat (num_opcodes_def (definition_of (out ! k)) + 1) = unat (num_opcodes_def (definition_of (out ! k))) + 1"
    using assms by (simp add: room_for_def unat_word_ariths)
  with assms show ?thesis by (simp add: room_for_def push_opcode_def)
qed

lemma parse_opcode_line:
  assumes "room_for k out (Suc n)"
    and data_def: "data = pre @ print_opcode v @ rest"
  shows "parse_loop data (length pre) out (Some k) =
    parse_loop data (length pre + 9) (update_def k (push_opcode v) out) (Some k)"
proof -
  obtain d where d: "d < 16" "hex8 v ! 0 = digit_char d" using nth_hex8 [of 0 v] by auto
  have c: "data ! length pre = digit_char d" "\<not> length data \<le> length pre"
    "take 8 (drop (length pre) data) = hex8 v"
    using d by (simp_all add: data_def print_opcode_def nth_append)
  have "\<not> unat (num_opcodes_def (definition_of (out ! k))) \<ge> length (opcodes (definition_of (out ! k)))"
    using assms(1) by (simp add: room_for_def)
  then show ?thesis
    using c d(1) by (subst parse_loop.simps)
      (simp add: digit_char_props hex8_xdigits Let_def add.commute [of 9])
qed

lemma parse_opcode_lines:
  "room_for k out (length ops) \<Longrightarrow>
   parse_loop (pre @ concat (map print_opcode ops) @ rest) (length pre) out (Some k) =
   parse_loop (pre @ concat (map print_opcode ops) @ rest) (length (pre @ concat (map print_opcode ops)))
     (update_def k (fold push_opcode ops) out) (Some k)"
proof (induction ops arbitrary: pre out)
  case Nil
  then show ?case by simp
next
  case (Cons v ops)
  have k: "k < length out" using Cons.prems by (simp add: room_for_def)
  have l: "length (print_opcode v) = 9" by (simp add: print_opcode_def)
  have "parse_loop (pre @ concat (map print_opcode (v # ops)) @ rest) (length pre) out (Some k) =
      parse_loop ((pre @ print_opcode v) @ concat (map print_opcode ops) @ rest) (length (pre @ print_opcode v))
        (update_def k (push_opcode v) out) (Some k)"
    using parse_opcode_line [of k out "length ops" _ pre v "concat (map print_opcode ops) @ rest", OF _ refl]
      Cons.prems l by simp
  also have "\<dots> = parse_loop ((pre @ print_opcode v) @ concat (map print_opcode ops) @ rest)
      (length ((pre @ print_opcode v) @ concat (map print_opcode ops)))
      (update_def k (fold push_opcode ops) (update_def k (push_opcode v) out)) (Some k)"
    using Cons.prems by (intro Cons.IH room_for_push) simp
  finally show ?case using k by simp
qed

lemma fold_push_opcode:
  "length (opcodes d) = 0x100 \<Longrightarrow> unat (num_opcodes_def d) + length ops \<le> 0x100 \<Longrightarrow>
   fold push_opcode ops d =
     d\<lparr>opcodes := take (unat (num_opcodes_def d)) (opcodes d) @ ops @ drop (unat (num_opcodes_def d) + length ops) (opcodes d),
       num_opcodes_def := num_opcodes_def d + of_nat (length ops)\<rparr>"
proof (induction ops arbitrary: d)
  case Nil
  then show ?case by simp
next
  case (Cons v ops)
  let ?n = "unat (num_opcodes_def d)"
  have n: "?n < length (opcodes d)" using Cons.prems by simp
  have u: "unat (num_opcodes_def d + 1) = ?n + 1" using Cons.prems by (simp add: unat_word_ariths)
  have "fold push_opcode ops (push_opcode v d) = (push_opcode v d)
      \<lparr>opcodes := take (?n + 1) ((opcodes d)[?n := v]) @ ops @ drop (?n + 1 + length ops) ((opcodes d)[?n := v]),
       num_opcodes_def := num_opcodes_def d + 1 + of_nat (length ops)\<rparr>"
    using Cons.prems u by (subst Cons.IH) (simp_all add: push_opcode_def)
  moreover have "take (?n + 1) ((opcodes d)[?n := v]) = take ?n (opcodes d) @ [v]"
    using n by (simp add: take_Suc_conv_app_nth)
  ultimately show ?case by (simp add: push_opcode_def [of v d] add.assoc)
qed

lemma parse_printed_cheat:
  assumes "cheat_ok c"
  shows "parse_loop (pre @ print_cheat c @ rest) (length pre) out cur =
    parse_loop (pre @ print_cheat c @ rest) (length (pre @ print_cheat c)) (out @ [entry_of_cheat c])
      (Some (length out))"
proof -
  let ?ops = "concat (map print_opcode (snd c))"
  let ?e = "empty_entry\<lparr>definition_of := set_name (fst c) (definition_of empty_entry)\<rparr>"
  let ?hd = "CHR ''['' # fst c @ [CHR '']'', CHR 0x0A]"
  have "parse_loop (pre @ print_cheat c @ rest) (length pre) out cur =
      parse_loop (pre @ print_cheat c @ rest) (length pre + length (fst c) + 3) (out @ [?e]) (Some (length out))"
    using assms by (intro parse_cheat_header [where rest = "?ops @ rest"]) (auto simp: cheat_ok_def print_cheat_def)
  also have "\<dots> = parse_loop ((pre @ ?hd) @ ?ops @ rest) (length (pre @ ?hd)) (out @ [?e]) (Some (length out))"
    by (simp add: print_cheat_def numeral_3_eq_3)
  also have "\<dots> = parse_loop ((pre @ ?hd) @ ?ops @ rest) (length ((pre @ ?hd) @ ?ops))
      (update_def (length out) (fold push_opcode (snd c)) (out @ [?e])) (Some (length out))"
    using assms by (intro parse_opcode_lines)
      (simp add: room_for_def cheat_ok_def empty_entry_def empty_definition_def)
  also have "update_def (length out) (fold push_opcode (snd c)) (out @ [?e]) = out @ [entry_of_cheat c]"
    using assms fold_push_opcode [of "set_name (fst c) empty_definition" "snd c"]
    by (simp add: entry_of_cheat_def cheat_ok_def empty_entry_def empty_definition_def)
  finally show ?thesis by (simp add: print_cheat_def)
qed

lemma parse_printed_cheats:
  "list_all cheat_ok cs \<Longrightarrow>
   parse_loop (pre @ print_cheats cs) (length pre) out cur = Inr (Some (out @ map entry_of_cheat cs))"
proof (induction cs arbitrary: pre out cur)
  case Nil
  then show ?case by (simp add: print_cheats_def parse_loop.simps)
next
  case (Cons c cs)
  then show ?case
    using parse_printed_cheat [of c pre "print_cheats cs" out cur]
      Cons.IH [of "pre @ print_cheat c" "out @ [entry_of_cheat c]" "Some (length out)"]
    by (simp add: print_cheats_def)
qed

lemma Parse_printed:
  "list_all cheat_ok cs \<Longrightarrow> Parse (print_cheats cs) = Inr (finish_entries (empty_entry # map entry_of_cheat cs))"
  using parse_printed_cheats [of cs "[]" "[empty_entry]" None] by (simp add: Parse_def)

lemma print_demo_cheat:
  "print_cheats [(''hp'', [0x04000000])] = ''[hp]'' @ [CHR 0x0A] @ ''04000000'' @ [CHR 0x0A]"
  by (simp add: print_cheats_def print_cheat_def print_opcode_def hex8_def digit_char_def char_of_def upt_rec bit_0)

theorem parsed_cheats_load_safely_witness:
  "\<exists>es. Parse (''[hp]'' @ [CHR 0x0A] @ ''04000000'' @ [CHR 0x0A]) = Inr es \<and>
     list_all cheat_entry_wf es \<and> map enabled es = [False, True] \<and> program_text es = [0x04000000] \<and>
     (\<exists>r. LoadProgram es initial_vm = Inr r)"
proof -
  let ?es = "finish_entries [empty_entry, entry_of_cheat (''hp'', [0x04000000])]"
  have p: "Parse (''[hp]'' @ [CHR 0x0A] @ ''04000000'' @ [CHR 0x0A]) = Inr ?es"
    using Parse_printed [of "[(''hp'', [0x04000000])]"] unfolding print_demo_cheat list.map
    by (simp add: cheat_ok_def)
  let ?d = "definition_of (entry_of_cheat (''hp'', [0x04000000]))"
  have d: "num_opcodes_def ?d = 1" "take (Suc 0) (opcodes ?d) = [0x04000000]"
    by (simp_all add: entry_of_cheat_def)
  have es: "map enabled ?es = [False, True]" "program_text ?es = [0x04000000]"
    unfolding finish_entries_def program_text_def entry_words_def using d
    by (simp_all add: empty_entry_def empty_definition_def)
  have "vm_sized initial_vm" by (intro wf_intros)
  note safe = parsed_cheats_load_safely [OF p this]
  show ?thesis
    by (rule exI [of _ ?es], intro conjI) (rule p es safe [THEN conjunct1] safe [THEN conjunct2])+
qed

text \<open>
  C16. Printing and parsing: the canonical text of any list of cheats (names without a closing
  bracket, at most 0x100 opcodes each) parses to a disabled master entry followed by exactly those
  cheats, in order, numbered and enabled when they have opcodes.
\<close>

theorem Parse_print_cheats:
  assumes "list_all cheat_ok cs"
  shows "Parse (print_cheats cs) = Inr (finish_entries (empty_entry # map entry_of_cheat cs))"
  using assms by (rule Parse_printed)

theorem Parse_print_cheats_witness:
  "Parse (''[hp]'' @ [CHR 0x0A] @ ''04000000'' @ [CHR 0x0A]) =
     Inr (finish_entries [empty_entry, entry_of_cheat (''hp'', [0x04000000])])"
proof -
  have ok: "list_all cheat_ok [(''hp'', [0x04000000])]"
    by (simp add: cheat_ok_def)
  show ?thesis
    using Parse_print_cheats [OF ok] by (simp only: print_demo_cheat list.map)
qed

lemma find_end_missing:
  "m \<notin> set (drop i data) \<Longrightarrow> find_end data i m = Inl OutOfBoundsRead"
proof (induction data i m rule: find_end.induct)
  case (1 data i m)
  show ?case
  proof (cases "length data \<le> i")
    case True
    then show ?thesis by (simp add: find_end.simps)
  next
    case False
    then have "data ! i \<noteq> m" "m \<notin> set (drop (i + 1) data)"
      using 1(2) by (auto simp: Cons_nth_drop_Suc [symmetric, of i data])
    with False 1(1) show ?thesis by (subst find_end.simps) simp
  qed
qed

text \<open>
  C39. An unterminated name: when the closing bracket is missing, the search reads the character
  behind the end of the text before it notices; the early return for this case is never reached.
\<close>

theorem ExtractName_unterminated_reads_past_end:
  assumes "match \<notin> set (drop start_index data)"
  shows "ExtractName data start_index match = Inl OutOfBoundsRead"
  using find_end_missing [OF assms] by (simp add: ExtractName_def)

theorem ExtractName_unterminated_reads_past_end_witness:
  "ExtractName ''[cheat'' 1 (CHR '']'') = Inl OutOfBoundsRead"
  by (rule ExtractName_unterminated_reads_past_end) simp

end
