(* ===== verification/Lifecycle.thy ===== *)
theory Lifecycle
  imports Prelude
begin

text \<open>
  The applet lifecycle manager of \<^verbatim>\<open>core/hle/service/am/lifecycle_manager.{h,cpp}\<close>: pending
  applet messages and their priorities, the system event that tells an applet about them, focus
  and suspension. Events are modelled by whether they are signalled.
\<close>

section \<open>Enumerations\<close>

text \<open>A value-initialised \<^verbatim>\<open>FocusState\<close> is 0, which is no enumerator.\<close>

datatype FocusState = FocusState_zero | InFocus | NotInFocus | Background

datatype ActivityState = ForegroundVisible | ForegroundObscured | BackgroundVisible | BackgroundObscured

datatype FocusHandlingMode = AlwaysSuspend | SuspendHomeSleep | NoSuspend

datatype SuspendMode = NoOverride | ForceResume | ForceSuspend

datatype AppletMessage =
    NoMessage | ChangeIntoForeground | ChangeIntoBackground | Exit | ApplicationExited
  | FocusStateChanged | Resume | DetectShortPressingHomeButton | DetectLongPressingHomeButton
  | DetectShortPressingPowerButton | DetectMiddlePressingPowerButton | DetectLongPressingPowerButton
  | RequestToPrepareSleep | FinishedSleepSequence | SleepRequiredByHighTemperature
  | SleepRequiredByLowBattery | AutoPowerDown | OperationModeChanged | PerformanceModeChanged
  | DetectReceivingCecSystemStandby | SdCardRemoved | LaunchApplicationRequested | RequestToDisplay
  | ShowApplicationLogo | HideApplicationLogo | ForceHideApplicationLogo | FloatingApplicationDetected
  | DetectShortPressingCaptureButton | DetectLongPressingCaptureButton | AlbumScreenShotTaken
  | AlbumRecordingSaved

section \<open>State\<close>

record LifecycleManager =
  m_system_event :: bool
  m_operation_mode_changed_system_event :: bool
  m_hdcp_state_changed_event :: bool
  m_unordered_messages :: "AppletMessage list"
  m_is_application :: bool
  m_focus_state_changed_notification_enabled :: bool
  m_operation_mode_changed_notification_enabled :: bool
  m_hdcp_state_changed_notification_enabled :: bool
  m_performance_mode_changed_notification_enabled :: bool
  m_resume_notification_enabled :: bool
  m_requested_request_to_display_state :: bool
  m_acknowledged_request_to_display_state :: bool
  m_has_resume :: bool
  m_has_focus_state_changed :: bool
  m_has_album_recording_saved :: bool
  m_has_album_screen_shot_taken :: bool
  m_has_auto_power_down :: bool
  m_has_sleep_required_by_low_battery :: bool
  m_has_sleep_required_by_high_temperature :: bool
  m_has_sd_card_removed :: bool
  m_has_performance_mode_changed :: bool
  m_has_operation_mode_changed :: bool
  m_has_requested_request_to_prepare_sleep :: bool
  m_has_acknowledged_request_to_prepare_sleep :: bool
  m_has_requested_exit :: bool
  m_has_acknowledged_exit :: bool
  m_applet_message_available :: bool
  m_forced_suspend :: bool
  m_focus_handling_mode :: FocusHandlingMode
  m_activity_state :: ActivityState
  m_suspend_mode :: SuspendMode
  m_requested_focus_state :: FocusState
  m_acknowledged_focus_state :: FocusState

text \<open>The constructor with the member initialisers.\<close>

definition new_LifecycleManager :: "bool \<Rightarrow> LifecycleManager" where
  "new_LifecycleManager is_application =
     \<lparr>m_system_event = False, m_operation_mode_changed_system_event = False,
      m_hdcp_state_changed_event = False, m_unordered_messages = [],
      m_is_application = is_application,
      m_focus_state_changed_notification_enabled = True,
      m_operation_mode_changed_notification_enabled = True,
      m_hdcp_state_changed_notification_enabled = True,
      m_performance_mode_changed_notification_enabled = True,
      m_resume_notification_enabled = False,
      m_requested_request_to_display_state = False,
      m_acknowledged_request_to_display_state = False,
      m_has_resume = False, m_has_focus_state_changed = True,
      m_has_album_recording_saved = False, m_has_album_screen_shot_taken = False,
      m_has_auto_power_down = False, m_has_sleep_required_by_low_battery = False,
      m_has_sleep_required_by_high_temperature = False, m_has_sd_card_removed = False,
      m_has_performance_mode_changed = False, m_has_operation_mode_changed = False,
      m_has_requested_request_to_prepare_sleep = False,
      m_has_acknowledged_request_to_prepare_sleep = False,
      m_has_requested_exit = False, m_has_acknowledged_exit = False,
      m_applet_message_available = False, m_forced_suspend = False,
      m_focus_handling_mode = SuspendHomeSleep, m_activity_state = ForegroundVisible,
      m_suspend_mode = NoOverride, m_requested_focus_state = FocusState_zero,
      m_acknowledged_focus_state = FocusState_zero\<rparr>"

section \<open>Messages\<close>

text \<open>
  The tail of \<^verbatim>\<open>PopMessageInOrderOfPriority\<close>, behind the focus messages.
\<close>

definition pop_after_focus :: "LifecycleManager \<Rightarrow> AppletMessage \<times> LifecycleManager" where
  "pop_after_focus s =
     (if m_has_requested_request_to_prepare_sleep s \<noteq> m_has_acknowledged_request_to_prepare_sleep s
      then (RequestToPrepareSleep, s\<lparr>m_has_acknowledged_request_to_prepare_sleep := True\<rparr>)
      else if m_requested_request_to_display_state s \<noteq> m_acknowledged_request_to_display_state s
      then (RequestToDisplay,
            s\<lparr>m_acknowledged_request_to_display_state := m_requested_request_to_display_state s\<rparr>)
      else if m_has_operation_mode_changed s
      then (OperationModeChanged, s\<lparr>m_has_operation_mode_changed := False\<rparr>)
      else if m_has_performance_mode_changed s
      then (PerformanceModeChanged, s\<lparr>m_has_performance_mode_changed := False\<rparr>)
      else if m_has_sd_card_removed s
      then (SdCardRemoved, s\<lparr>m_has_sd_card_removed := False\<rparr>)
      else if m_has_sleep_required_by_high_temperature s
      then (SleepRequiredByHighTemperature, s\<lparr>m_has_sleep_required_by_high_temperature := False\<rparr>)
      else if m_has_sleep_required_by_low_battery s
      then (SleepRequiredByLowBattery, s\<lparr>m_has_sleep_required_by_low_battery := False\<rparr>)
      else if m_has_auto_power_down s
      then (AutoPowerDown, s\<lparr>m_has_auto_power_down := False\<rparr>)
      else if m_has_album_screen_shot_taken s
      then (AlbumScreenShotTaken, s\<lparr>m_has_album_screen_shot_taken := False\<rparr>)
      else if m_has_album_recording_saved s
      then (AlbumRecordingSaved, s\<lparr>m_has_album_recording_saved := False\<rparr>)
      else (case m_unordered_messages s of
              message # rest \<Rightarrow> (message, s\<lparr>m_unordered_messages := rest\<rparr>)
            | [] \<Rightarrow> (NoMessage, s)))"

text \<open>The whole function; the failed assertion on an odd focus state falls through.\<close>

definition PopMessageInOrderOfPriority :: "LifecycleManager \<Rightarrow> AppletMessage \<times> LifecycleManager" where
  "PopMessageInOrderOfPriority s =
     (if m_has_resume s then (Resume, s\<lparr>m_has_resume := False\<rparr>)
      else if m_has_acknowledged_exit s \<noteq> m_has_requested_exit s
      then (Exit, s\<lparr>m_has_acknowledged_exit := m_has_requested_exit s\<rparr>)
      else if m_focus_state_changed_notification_enabled s then
        (if \<not> m_is_application s then
           (if m_requested_focus_state s \<noteq> m_acknowledged_focus_state s then
              (let s1 = s\<lparr>m_acknowledged_focus_state := m_requested_focus_state s\<rparr> in
               case m_requested_focus_state s of
                 InFocus \<Rightarrow> (ChangeIntoForeground, s1)
               | NotInFocus \<Rightarrow> (ChangeIntoBackground, s1)
               | _ \<Rightarrow> pop_after_focus s1)
            else pop_after_focus s)
         else if m_has_focus_state_changed s
         then (FocusStateChanged, s\<lparr>m_has_focus_state_changed := False\<rparr>)
         else pop_after_focus s)
      else pop_after_focus s)"

definition ShouldSignalSystemEvent :: "LifecycleManager \<Rightarrow> bool" where
  "ShouldSignalSystemEvent s =
     (if m_focus_state_changed_notification_enabled s \<and>
         (if \<not> m_is_application s then m_requested_focus_state s \<noteq> m_acknowledged_focus_state s
          else m_has_focus_state_changed s)
      then True
      else m_unordered_messages s \<noteq> [] \<or> m_has_resume s \<or>
           m_has_requested_exit s \<noteq> m_has_acknowledged_exit s \<or>
           m_has_requested_request_to_prepare_sleep s \<noteq> m_has_acknowledged_request_to_prepare_sleep s \<or>
           m_has_operation_mode_changed s \<or> m_has_performance_mode_changed s \<or>
           m_has_sd_card_removed s \<or> m_has_sleep_required_by_high_temperature s \<or>
           m_has_sleep_required_by_low_battery s \<or> m_has_auto_power_down s \<or>
           m_requested_request_to_display_state s \<noteq> m_acknowledged_request_to_display_state s \<or>
           m_has_album_screen_shot_taken s \<or> m_has_album_recording_saved s)"

definition SignalSystemEventIfNeeded :: "LifecycleManager \<Rightarrow> LifecycleManager" where
  "SignalSystemEventIfNeeded s =
     (let applet_message_available = m_applet_message_available s in
      if applet_message_available \<noteq> ShouldSignalSystemEvent s then
        (if \<not> applet_message_available
         then s\<lparr>m_system_event := True, m_applet_message_available := True\<rparr>
         else s\<lparr>m_system_event := False, m_applet_message_available := False\<rparr>)
      else s)"

definition PushUnorderedMessage :: "AppletMessage \<Rightarrow> LifecycleManager \<Rightarrow> LifecycleManager" where
  "PushUnorderedMessage message s =
     SignalSystemEventIfNeeded (s\<lparr>m_unordered_messages := m_unordered_messages s @ [message]\<rparr>)"

text \<open>\<open>PopMessage\<close> returns the Boolean result and the message stored through the pointer.\<close>

definition PopMessage :: "LifecycleManager \<Rightarrow> (bool \<times> AppletMessage) \<times> LifecycleManager" where
  "PopMessage s =
     (let (message, s1) = PopMessageInOrderOfPriority s
      in ((message \<noteq> NoMessage, message), SignalSystemEventIfNeeded s1))"

definition OnOperationAndPerformanceModeChanged :: "LifecycleManager \<Rightarrow> LifecycleManager" where
  "OnOperationAndPerformanceModeChanged s =
     (let s1 = (if m_operation_mode_changed_notification_enabled s
                then s\<lparr>m_has_operation_mode_changed := True\<rparr> else s);
          s2 = (if m_performance_mode_changed_notification_enabled s1
                then s1\<lparr>m_has_performance_mode_changed := True\<rparr> else s1)
      in SignalSystemEventIfNeeded (s2\<lparr>m_operation_mode_changed_system_event := True\<rparr>))"

section \<open>Requests and settings\<close>

definition GetAndClearFocusState :: "LifecycleManager \<Rightarrow> FocusState \<times> LifecycleManager" where
  "GetAndClearFocusState s =
     (m_requested_focus_state s, s\<lparr>m_acknowledged_focus_state := m_requested_focus_state s\<rparr>)"

definition SetFocusState :: "FocusState \<Rightarrow> LifecycleManager \<Rightarrow> LifecycleManager" where
  "SetFocusState state s =
     (let s1 = (if m_requested_focus_state s \<noteq> state then s\<lparr>m_has_focus_state_changed := True\<rparr> else s)
      in SignalSystemEventIfNeeded (s1\<lparr>m_requested_focus_state := state\<rparr>))"

definition RequestExit :: "LifecycleManager \<Rightarrow> LifecycleManager" where
  "RequestExit s = SignalSystemEventIfNeeded (s\<lparr>m_has_requested_exit := True\<rparr>)"

definition RequestResumeNotification :: "LifecycleManager \<Rightarrow> LifecycleManager" where
  "RequestResumeNotification s =
     (if m_resume_notification_enabled s then s\<lparr>m_has_resume := True\<rparr> else s)"

definition SetFocusStateChangedNotificationEnabled :: "bool \<Rightarrow> LifecycleManager \<Rightarrow> LifecycleManager" where
  "SetFocusStateChangedNotificationEnabled enable s =
     SignalSystemEventIfNeeded (s\<lparr>m_focus_state_changed_notification_enabled := enable\<rparr>)"

definition SetOperationModeChangedNotificationEnabled :: "bool \<Rightarrow> LifecycleManager \<Rightarrow> LifecycleManager" where
  "SetOperationModeChangedNotificationEnabled enable s =
     SignalSystemEventIfNeeded (s\<lparr>m_operation_mode_changed_notification_enabled := enable\<rparr>)"

definition SetPerformanceModeChangedNotificationEnabled :: "bool \<Rightarrow> LifecycleManager \<Rightarrow> LifecycleManager" where
  "SetPerformanceModeChangedNotificationEnabled enable s =
     SignalSystemEventIfNeeded (s\<lparr>m_performance_mode_changed_notification_enabled := enable\<rparr>)"

definition SetResumeNotificationEnabled :: "bool \<Rightarrow> LifecycleManager \<Rightarrow> LifecycleManager" where
  "SetResumeNotificationEnabled enable s = s\<lparr>m_resume_notification_enabled := enable\<rparr>"

definition SetActivityState :: "ActivityState \<Rightarrow> LifecycleManager \<Rightarrow> LifecycleManager" where
  "SetActivityState state s = s\<lparr>m_activity_state := state\<rparr>"

definition SetSuspendMode :: "SuspendMode \<Rightarrow> LifecycleManager \<Rightarrow> LifecycleManager" where
  "SetSuspendMode mode s = s\<lparr>m_suspend_mode := mode\<rparr>"

definition SetForcedSuspend :: "bool \<Rightarrow> LifecycleManager \<Rightarrow> LifecycleManager" where
  "SetForcedSuspend enable s = s\<lparr>m_forced_suspend := enable\<rparr>"

definition SetFocusHandlingMode :: "bool \<Rightarrow> LifecycleManager \<Rightarrow> LifecycleManager" where
  "SetFocusHandlingMode suspend s =
     (case m_focus_handling_mode s of
        NoSuspend \<Rightarrow> if suspend then s\<lparr>m_focus_handling_mode := SuspendHomeSleep\<rparr> else s
      | _ \<Rightarrow> if \<not> suspend then s\<lparr>m_focus_handling_mode := NoSuspend\<rparr> else s)"

definition SetOutOfFocusSuspendingEnabled :: "bool \<Rightarrow> LifecycleManager \<Rightarrow> LifecycleManager" where
  "SetOutOfFocusSuspendingEnabled enable s =
     (case m_focus_handling_mode s of
        AlwaysSuspend \<Rightarrow> if \<not> enable then s\<lparr>m_focus_handling_mode := SuspendHomeSleep\<rparr> else s
      | _ \<Rightarrow> if enable then s\<lparr>m_focus_handling_mode := AlwaysSuspend\<rparr> else s)"

definition RemoveForceResumeIfPossible :: "LifecycleManager \<Rightarrow> LifecycleManager" where
  "RemoveForceResumeIfPossible s =
     (if m_suspend_mode s \<noteq> ForceResume then s
      else if m_activity_state s = ForegroundVisible \<or> m_activity_state s = ForegroundObscured
      then s\<lparr>m_suspend_mode := NoOverride\<rparr>
      else (case m_focus_handling_mode s of
              NoSuspend \<Rightarrow> if \<not> m_is_application s then s\<lparr>m_suspend_mode := NoOverride\<rparr> else s
            | _ \<Rightarrow> s\<lparr>m_suspend_mode := NoOverride\<rparr>))"

section \<open>Running and focus\<close>

definition IsRunnable :: "LifecycleManager \<Rightarrow> bool" where
  "IsRunnable s =
     (if m_forced_suspend s then False
      else
        (case m_suspend_mode s of
           ForceResume \<Rightarrow> m_has_requested_exit s
         | ForceSuspend \<Rightarrow> False
         | NoOverride \<Rightarrow>
             if m_has_requested_exit s then True
             else if m_activity_state s = ForegroundVisible then True
             else if m_activity_state s = ForegroundObscured then
               (case m_focus_handling_mode s of
                  AlwaysSuspend \<Rightarrow> False
                | SuspendHomeSleep \<Rightarrow> True
                | NoSuspend \<Rightarrow> True)
             else m_focus_handling_mode s = NoSuspend))"

definition GetFocusStateWhileForegroundObscured :: "LifecycleManager \<Rightarrow> FocusState" where
  "GetFocusStateWhileForegroundObscured s =
     (case m_focus_handling_mode s of
        AlwaysSuspend \<Rightarrow> InFocus
      | SuspendHomeSleep \<Rightarrow> NotInFocus
      | NoSuspend \<Rightarrow> NotInFocus)"

definition GetFocusStateWhileBackground :: "bool \<Rightarrow> LifecycleManager \<Rightarrow> FocusState" where
  "GetFocusStateWhileBackground is_obscured s =
     (case m_focus_handling_mode s of
        AlwaysSuspend \<Rightarrow> InFocus
      | SuspendHomeSleep \<Rightarrow> (if is_obscured then NotInFocus else InFocus)
      | NoSuspend \<Rightarrow> (if m_is_application s then Background else NotInFocus))"

definition UpdateRequestedFocusState :: "LifecycleManager \<Rightarrow> bool \<times> LifecycleManager" where
  "UpdateRequestedFocusState s =
     (let new_state =
            (if m_suspend_mode s = NoOverride then
               (case m_activity_state s of
                  ForegroundVisible \<Rightarrow> InFocus
                | ForegroundObscured \<Rightarrow> GetFocusStateWhileForegroundObscured s
                | BackgroundVisible \<Rightarrow> GetFocusStateWhileBackground False s
                | BackgroundObscured \<Rightarrow> GetFocusStateWhileBackground True s)
             else GetFocusStateWhileBackground False s)
      in if new_state \<noteq> m_requested_focus_state s then
           (let s1 = s\<lparr>m_requested_focus_state := new_state\<rparr>
            in (True, if m_is_application s1 then s1\<lparr>m_has_focus_state_changed := True\<rparr> else s1))
         else (False, s))"

end
