(* ===== verification/Lifecycle_Queue.thy ===== *)
theory Lifecycle_Queue
  imports Lifecycle
begin

text \<open>
  The lifecycle manager as a priority queue of messages with a level-triggered event: the pending
  messages in the order in which they are delivered, a locale for such queues with the lemma that
  draining delivers everything, and the invariants of the manager over all its operations.
\<close>

section \<open>Queues of messages\<close>

fun drain :: "nat \<Rightarrow> ('s \<Rightarrow> 'm \<times> 's) \<Rightarrow> 's \<Rightarrow> 'm list \<times> 's" where
  "drain 0 pop s = ([], s)"
| "drain (Suc n) pop s =
     (let (m, s1) = pop s; (ms, s2) = drain n pop s1 in (m # ms, s2))"

locale message_queue =
  fixes inv :: "'s \<Rightarrow> bool"
    and pending :: "'s \<Rightarrow> 'm list"
    and pop :: "'s \<Rightarrow> 'm \<times> 's"
    and push :: "'m \<Rightarrow> 's \<Rightarrow> 's"
    and none :: "'m"
  assumes pop_next: "inv s \<Longrightarrow> pending s = m # ms \<Longrightarrow>
      \<exists>s'. pop s = (m, s') \<and> pending s' = ms \<and> inv s'"
    and pop_empty: "inv s \<Longrightarrow> pending s = [] \<Longrightarrow>
      \<exists>s'. pop s = (none, s') \<and> pending s' = [] \<and> inv s'"
    and push_last: "inv s \<Longrightarrow> m \<noteq> none \<Longrightarrow> pending (push m s) = pending s @ [m] \<and> inv (push m s)"
begin

lemma drain_prefix:
  "inv s \<Longrightarrow> n \<le> length (pending s) \<Longrightarrow>
   \<exists>s'. drain n pop s = (take n (pending s), s') \<and> pending s' = drop n (pending s) \<and> inv s'"
proof (induction n arbitrary: s)
  case 0
  then show ?case by simp
next
  case (Suc n)
  then obtain m ms where p: "pending s = m # ms" by (cases "pending s") simp_all
  from pop_next [OF Suc.prems(1) p] obtain s1 where
    s1: "pop s = (m, s1)" "pending s1 = ms" "inv s1" by blast
  then have "n \<le> length (pending s1)" using Suc.prems(2) p by simp
  from Suc.IH [OF s1(3) this] show ?case using s1 p by auto
qed

lemma drain_all:
  assumes "inv s"
  shows "\<exists>s'. drain (length (pending s)) pop s = (pending s, s') \<and> pending s' = [] \<and> inv s'"
  using drain_prefix [OF assms, of "length (pending s)"] by simp

lemma pushed_is_delivered:
  assumes "inv s" "m \<noteq> none"
  shows "\<exists>s'. drain (length (pending s) + 1) pop (push m s) = (pending s @ [m], s') \<and> pending s' = []"
  using drain_all [of "push m s"] push_last [OF assms] by auto

end

section \<open>Pending messages\<close>

text \<open>The focus message, then the others, in the order of delivery.\<close>

definition focus_pending :: "LifecycleManager \<Rightarrow> AppletMessage list" where
  "focus_pending s =
     (if m_focus_state_changed_notification_enabled s then
        (if \<not> m_is_application s then
           (if m_requested_focus_state s \<noteq> m_acknowledged_focus_state s then
              (case m_requested_focus_state s of
                 InFocus \<Rightarrow> [ChangeIntoForeground]
               | NotInFocus \<Rightarrow> [ChangeIntoBackground]
               | _ \<Rightarrow> [])
            else [])
         else if m_has_focus_state_changed s then [FocusStateChanged] else [])
      else [])"

definition flag :: "bool \<Rightarrow> 'a \<Rightarrow> 'a list" where
  "flag b m = (if b then [m] else [])"

lemma flag_simps [simp]: "flag True m = [m]" "flag False m = []" "flag b m = [] \<longleftrightarrow> \<not> b"
  by (simp_all add: flag_def)

definition other_pending :: "LifecycleManager \<Rightarrow> AppletMessage list" where
  "other_pending s =
     flag (m_has_requested_request_to_prepare_sleep s \<noteq> m_has_acknowledged_request_to_prepare_sleep s)
       RequestToPrepareSleep @
     flag (m_requested_request_to_display_state s \<noteq> m_acknowledged_request_to_display_state s) RequestToDisplay @
     flag (m_has_operation_mode_changed s) OperationModeChanged @
     flag (m_has_performance_mode_changed s) PerformanceModeChanged @
     flag (m_has_sd_card_removed s) SdCardRemoved @
     flag (m_has_sleep_required_by_high_temperature s) SleepRequiredByHighTemperature @
     flag (m_has_sleep_required_by_low_battery s) SleepRequiredByLowBattery @
     flag (m_has_auto_power_down s) AutoPowerDown @
     flag (m_has_album_screen_shot_taken s) AlbumScreenShotTaken @
     flag (m_has_album_recording_saved s) AlbumRecordingSaved @
     m_unordered_messages s"

definition pending_messages :: "LifecycleManager \<Rightarrow> AppletMessage list" where
  "pending_messages s =
     flag (m_has_resume s) Resume @
     flag (m_has_acknowledged_exit s \<noteq> m_has_requested_exit s) Exit @
     focus_pending s @ other_pending s"

text \<open>
  The invariant: sleep preparation is never acknowledged without a request, and nobody queued the
  \<^verbatim>\<open>None\<close> message.
\<close>

definition lifecycle_inv :: "LifecycleManager \<Rightarrow> bool" where
  "lifecycle_inv s \<longleftrightarrow>
     (m_has_acknowledged_request_to_prepare_sleep s \<longrightarrow> m_has_requested_request_to_prepare_sleep s) \<and>
     NoMessage \<notin> set (m_unordered_messages s)"

text \<open>The cached flag and the event do not influence what is pending.\<close>

lemma event_update_frame [simp]:
  "pending_messages (s\<lparr>m_system_event := a, m_applet_message_available := b\<rparr>) = pending_messages s"
  "ShouldSignalSystemEvent (s\<lparr>m_system_event := a, m_applet_message_available := b\<rparr>) = ShouldSignalSystemEvent s"
  by (simp_all add: pending_messages_def focus_pending_def other_pending_def ShouldSignalSystemEvent_def)

lemma SignalSystemEventIfNeeded_eq:
  "SignalSystemEventIfNeeded s =
     s\<lparr>m_system_event := (if m_applet_message_available s = ShouldSignalSystemEvent s then m_system_event s
                          else ShouldSignalSystemEvent s),
       m_applet_message_available := ShouldSignalSystemEvent s\<rparr>"
  by (cases "m_applet_message_available s"; cases "ShouldSignalSystemEvent s")
     (simp_all add: SignalSystemEventIfNeeded_def)

lemma SignalSystemEventIfNeeded_frame [simp]:
  "pending_messages (SignalSystemEventIfNeeded s) = pending_messages s"
  "ShouldSignalSystemEvent (SignalSystemEventIfNeeded s) = ShouldSignalSystemEvent s"
  "m_applet_message_available (SignalSystemEventIfNeeded s) = ShouldSignalSystemEvent s"
  "lifecycle_inv s \<Longrightarrow> lifecycle_inv (SignalSystemEventIfNeeded s)"
  by (simp_all add: SignalSystemEventIfNeeded_eq lifecycle_inv_def)

lemma pop_after_focus_next:
  assumes "lifecycle_inv s"
  shows "fst (pop_after_focus s) = (case other_pending s of [] \<Rightarrow> NoMessage | m # _ \<Rightarrow> m)"
    and "other_pending (snd (pop_after_focus s)) = tl (other_pending s)"
    and "focus_pending (snd (pop_after_focus s)) = focus_pending s"
    and "lifecycle_inv (snd (pop_after_focus s))"
    and "m_has_resume (snd (pop_after_focus s)) = m_has_resume s"
    and "m_has_requested_exit (snd (pop_after_focus s)) = m_has_requested_exit s"
    and "m_has_acknowledged_exit (snd (pop_after_focus s)) = m_has_acknowledged_exit s"
  using assms
  by (auto simp: pop_after_focus_def other_pending_def focus_pending_def lifecycle_inv_def
      split: list.split)

lemma acknowledge_focus_frame [simp]:
  "other_pending (s\<lparr>m_acknowledged_focus_state := x\<rparr>) = other_pending s"
  "lifecycle_inv (s\<lparr>m_acknowledged_focus_state := x\<rparr>) = lifecycle_inv s"
  by (simp_all add: other_pending_def lifecycle_inv_def)

lemma flags_frame [simp]:
  "other_pending (s\<lparr>m_has_resume := b\<rparr>) = other_pending s"
  "focus_pending (s\<lparr>m_has_resume := b\<rparr>) = focus_pending s"
  "other_pending (s\<lparr>m_has_acknowledged_exit := b\<rparr>) = other_pending s"
  "focus_pending (s\<lparr>m_has_acknowledged_exit := b\<rparr>) = focus_pending s"
  "other_pending (s\<lparr>m_has_focus_state_changed := b\<rparr>) = other_pending s"
  "lifecycle_inv (s\<lparr>m_has_resume := b\<rparr>) = lifecycle_inv s"
  "lifecycle_inv (s\<lparr>m_has_acknowledged_exit := b\<rparr>) = lifecycle_inv s"
  "lifecycle_inv (s\<lparr>m_has_focus_state_changed := b\<rparr>) = lifecycle_inv s"
  by (simp_all add: other_pending_def focus_pending_def lifecycle_inv_def)

lemma pop_pending_quiet:
  assumes "lifecycle_inv s" "\<not> m_has_resume s" "m_has_acknowledged_exit s = m_has_requested_exit s"
    and "focus_pending s = []"
  shows "fst (pop_after_focus s) = (case pending_messages s of [] \<Rightarrow> NoMessage | m # _ \<Rightarrow> m) \<and>
    pending_messages (snd (pop_after_focus s)) = tl (pending_messages s) \<and>
    lifecycle_inv (snd (pop_after_focus s))"
  using assms pop_after_focus_next [OF assms(1)] by (simp add: pending_messages_def)

lemma PopMessageInOrderOfPriority_next:
  assumes inv: "lifecycle_inv s"
  shows "fst (PopMessageInOrderOfPriority s) = (case pending_messages s of [] \<Rightarrow> NoMessage | m # _ \<Rightarrow> m) \<and>
    pending_messages (snd (PopMessageInOrderOfPriority s)) = tl (pending_messages s) \<and>
    lifecycle_inv (snd (PopMessageInOrderOfPriority s))"
proof -
  let ?s1 = "s\<lparr>m_acknowledged_focus_state := m_requested_focus_state s\<rparr>"
  consider (res) "m_has_resume s"
    | (exit) "\<not> m_has_resume s" "m_has_acknowledged_exit s \<noteq> m_has_requested_exit s"
    | (rest) "\<not> m_has_resume s" "m_has_acknowledged_exit s = m_has_requested_exit s" by blast
  then show ?thesis
  proof cases
    case res
    with inv show ?thesis by (simp add: PopMessageInOrderOfPriority_def pending_messages_def)
  next
    case exit
    with inv show ?thesis by (simp add: PopMessageInOrderOfPriority_def pending_messages_def)
  next
    case rest
    note q = pop_pending_quiet [OF inv rest]
    have q1: "focus_pending ?s1 = [] \<Longrightarrow> pending_messages ?s1 = pending_messages s \<Longrightarrow>
        fst (pop_after_focus ?s1) = (case pending_messages s of [] \<Rightarrow> NoMessage | m # _ \<Rightarrow> m) \<and>
        pending_messages (snd (pop_after_focus ?s1)) = tl (pending_messages s) \<and>
        lifecycle_inv (snd (pop_after_focus ?s1))"
      using pop_pending_quiet [of ?s1] inv rest by simp
    show ?thesis
    proof (cases "m_focus_state_changed_notification_enabled s")
      case False
      then show ?thesis using q rest by (simp add: PopMessageInOrderOfPriority_def focus_pending_def)
    next
      case True
      note en = True
      consider (changed) "m_is_application s" "m_has_focus_state_changed s"
        | (quiet) "m_is_application s \<and> \<not> m_has_focus_state_changed s \<or>
            \<not> m_is_application s \<and> m_requested_focus_state s = m_acknowledged_focus_state s"
        | (fore) "\<not> m_is_application s" "m_requested_focus_state s \<noteq> m_acknowledged_focus_state s"
            "m_requested_focus_state s = InFocus"
        | (behind) "\<not> m_is_application s" "m_requested_focus_state s \<noteq> m_acknowledged_focus_state s"
            "m_requested_focus_state s = NotInFocus"
        | (odd) "\<not> m_is_application s" "m_requested_focus_state s \<noteq> m_acknowledged_focus_state s"
            "m_requested_focus_state s = FocusState_zero \<or> m_requested_focus_state s = Background"
        by (cases "m_requested_focus_state s") blast+
      then show ?thesis
      proof cases
        case quiet
        then have "focus_pending s = []" "PopMessageInOrderOfPriority s = pop_after_focus s"
          using rest en by (auto simp: focus_pending_def PopMessageInOrderOfPriority_def)
        with q show ?thesis by simp
      next
        case odd
        then have f: "focus_pending s = []" "focus_pending ?s1 = []"
          and p: "PopMessageInOrderOfPriority s = pop_after_focus ?s1"
          using rest en by (auto simp: focus_pending_def PopMessageInOrderOfPriority_def)
        then have "pending_messages ?s1 = pending_messages s" by (simp add: pending_messages_def)
        with q1 f p show ?thesis by simp
      qed (use rest en inv in \<open>simp_all add: PopMessageInOrderOfPriority_def pending_messages_def
          focus_pending_def Let_def\<close>)
    qed
  qed
qed

lemma pop_after_focus_event:
  "m_applet_message_available (snd (pop_after_focus s)) = m_applet_message_available s"
  "m_system_event (snd (pop_after_focus s)) = m_system_event s"
  by (auto simp: pop_after_focus_def split: list.split)

lemma PopMessageInOrderOfPriority_event:
  "m_applet_message_available (snd (PopMessageInOrderOfPriority s)) = m_applet_message_available s \<and>
   m_system_event (snd (PopMessageInOrderOfPriority s)) = m_system_event s"
  by (auto simp: PopMessageInOrderOfPriority_def Let_def pop_after_focus_event split: FocusState.splits)

text \<open>The event is wanted exactly while something is pending, unless the focus state is odd.\<close>

definition focus_regular :: "LifecycleManager \<Rightarrow> bool" where
  "focus_regular s \<longleftrightarrow> m_is_application s \<or>
     m_requested_focus_state s = m_acknowledged_focus_state s \<or>
     m_requested_focus_state s = InFocus \<or> m_requested_focus_state s = NotInFocus"

lemma ShouldSignal_iff_pending:
  assumes "focus_regular s"
  shows "ShouldSignalSystemEvent s \<longleftrightarrow> pending_messages s \<noteq> []"
proof -
  have f: "focus_pending s \<noteq> [] \<longleftrightarrow> m_focus_state_changed_notification_enabled s \<and>
      (if \<not> m_is_application s then m_requested_focus_state s \<noteq> m_acknowledged_focus_state s
       else m_has_focus_state_changed s)"
    using assms by (auto simp: focus_pending_def focus_regular_def)
  have o: "other_pending s \<noteq> [] \<longleftrightarrow>
      m_has_requested_request_to_prepare_sleep s \<noteq> m_has_acknowledged_request_to_prepare_sleep s \<or>
      m_requested_request_to_display_state s \<noteq> m_acknowledged_request_to_display_state s \<or>
      m_has_operation_mode_changed s \<or> m_has_performance_mode_changed s \<or> m_has_sd_card_removed s \<or>
      m_has_sleep_required_by_high_temperature s \<or> m_has_sleep_required_by_low_battery s \<or>
      m_has_auto_power_down s \<or> m_has_album_screen_shot_taken s \<or> m_has_album_recording_saved s \<or>
      m_unordered_messages s \<noteq> []"
    unfolding other_pending_def append_is_Nil_conv flag_simps by blast
  have "pending_messages s \<noteq> [] \<longleftrightarrow> m_has_resume s \<or> m_has_acknowledged_exit s \<noteq> m_has_requested_exit s \<or>
      focus_pending s \<noteq> [] \<or> other_pending s \<noteq> []"
    unfolding pending_messages_def append_is_Nil_conv flag_simps by blast
  then show ?thesis unfolding f o ShouldSignalSystemEvent_def by argo
qed

section \<open>The operations as steps\<close>

text \<open>
  Every public operation of the manager; clients never queue the \<^verbatim>\<open>None\<close> message. \<^verbatim>\<open>GetSystemEvent\<close>
  hands out the event itself, so a client may signal and clear it behind the manager's cached flag:
  \<^verbatim>\<open>ILibraryAppletAccessor::PopOutData\<close> does both, on the applet that called the library applet.
\<close>

definition SystemEvent_Signal :: "LifecycleManager \<Rightarrow> LifecycleManager" where
  "SystemEvent_Signal s = s\<lparr>m_system_event := True\<rparr>"

definition SystemEvent_Clear :: "LifecycleManager \<Rightarrow> LifecycleManager" where
  "SystemEvent_Clear s = s\<lparr>m_system_event := False\<rparr>"

definition PopOutData_caller :: "LifecycleManager \<Rightarrow> LifecycleManager" where
  "PopOutData_caller s =
     snd (UpdateRequestedFocusState
       (SystemEvent_Clear (RequestResumeNotification (SystemEvent_Signal s))))"

inductive lifecycle_step :: "LifecycleManager \<Rightarrow> LifecycleManager \<Rightarrow> bool" where
  step_push: "m \<noteq> NoMessage \<Longrightarrow> lifecycle_step s (PushUnorderedMessage m s)"
| step_pop: "lifecycle_step s (snd (PopMessage s))"
| step_mode_changed: "lifecycle_step s (OnOperationAndPerformanceModeChanged s)"
| step_get_focus: "lifecycle_step s (snd (GetAndClearFocusState s))"
| step_set_focus: "lifecycle_step s (SetFocusState f s)"
| step_exit: "lifecycle_step s (RequestExit s)"
| step_resume: "lifecycle_step s (RequestResumeNotification s)"
| step_notify_focus: "lifecycle_step s (SetFocusStateChangedNotificationEnabled b s)"
| step_notify_operation: "lifecycle_step s (SetOperationModeChangedNotificationEnabled b s)"
| step_notify_performance: "lifecycle_step s (SetPerformanceModeChangedNotificationEnabled b s)"
| step_notify_resume: "lifecycle_step s (SetResumeNotificationEnabled b s)"
| step_activity: "lifecycle_step s (SetActivityState a s)"
| step_suspend_mode: "lifecycle_step s (SetSuspendMode sm s)"
| step_forced: "lifecycle_step s (SetForcedSuspend b s)"
| step_handling: "lifecycle_step s (SetFocusHandlingMode b s)"
| step_out_of_focus: "lifecycle_step s (SetOutOfFocusSuspendingEnabled b s)"
| step_remove_force: "lifecycle_step s (RemoveForceResumeIfPossible s)"
| step_update_focus: "lifecycle_step s (snd (UpdateRequestedFocusState s))"
| step_signal: "lifecycle_step s (SignalSystemEventIfNeeded s)"
| step_event_signal: "lifecycle_step s (SystemEvent_Signal s)"
| step_event_clear: "lifecycle_step s (SystemEvent_Clear s)"

inductive lifecycle_reachable :: "bool \<Rightarrow> LifecycleManager \<Rightarrow> bool" for app where
  reach_new: "lifecycle_reachable app (new_LifecycleManager app)"
| reach_step: "lifecycle_reachable app s \<Longrightarrow> lifecycle_step s s' \<Longrightarrow> lifecycle_reachable app s'"

lemma lifecycle_inv_new: "lifecycle_inv (new_LifecycleManager app)"
  by (simp add: lifecycle_inv_def new_LifecycleManager_def)

lemma lifecycle_step_inv: "lifecycle_step s s' \<Longrightarrow> lifecycle_inv s \<Longrightarrow> lifecycle_inv s'"
proof (induction rule: lifecycle_step.induct)
  case (step_pop s)
  then show ?case
    using PopMessageInOrderOfPriority_next [of s]
    by (auto simp: PopMessage_def split: prod.splits)
next
  case (step_push m s)
  then have "lifecycle_inv (s\<lparr>m_unordered_messages := m_unordered_messages s @ [m]\<rparr>)"
    by (auto simp: lifecycle_inv_def)
  then show ?case by (simp add: PushUnorderedMessage_def)
next
  case (step_mode_changed s)
  then show ?case
    unfolding OnOperationAndPerformanceModeChanged_def Let_def
    by (intro SignalSystemEventIfNeeded_frame(4)) (simp add: lifecycle_inv_def)
next
  case (step_set_focus s f)
  then show ?case
    unfolding SetFocusState_def Let_def
    by (intro SignalSystemEventIfNeeded_frame(4)) (simp add: lifecycle_inv_def)
next
  case (step_exit s)
  then show ?case
    unfolding RequestExit_def by (intro SignalSystemEventIfNeeded_frame(4)) (simp add: lifecycle_inv_def)
next
  case (step_notify_focus s b)
  then show ?case
    unfolding SetFocusStateChangedNotificationEnabled_def
    by (intro SignalSystemEventIfNeeded_frame(4)) (simp add: lifecycle_inv_def)
next
  case (step_notify_operation s b)
  then show ?case
    unfolding SetOperationModeChangedNotificationEnabled_def
    by (intro SignalSystemEventIfNeeded_frame(4)) (simp add: lifecycle_inv_def)
next
  case (step_notify_performance s b)
  then show ?case
    unfolding SetPerformanceModeChangedNotificationEnabled_def
    by (intro SignalSystemEventIfNeeded_frame(4)) (simp add: lifecycle_inv_def)
next
  case (step_remove_force s)
  then show ?case
    by (simp add: lifecycle_inv_def RemoveForceResumeIfPossible_def split: FocusHandlingMode.splits)
qed (simp_all add: lifecycle_inv_def GetAndClearFocusState_def RequestResumeNotification_def
    SetResumeNotificationEnabled_def SetActivityState_def SetSuspendMode_def SetForcedSuspend_def
    SetFocusHandlingMode_def SetOutOfFocusSuspendingEnabled_def UpdateRequestedFocusState_def Let_def
    SignalSystemEventIfNeeded_eq SystemEvent_Signal_def SystemEvent_Clear_def split: FocusHandlingMode.splits)

lemma PopOutData_reachable: "lifecycle_reachable app s \<Longrightarrow> lifecycle_reachable app (PopOutData_caller s)"
  unfolding PopOutData_caller_def
  by (intro reach_step [OF _ step_update_focus] reach_step [OF _ step_event_clear]
      reach_step [OF _ step_resume] reach_step [OF _ step_event_signal])

lemma lifecycle_reachable_inv: "lifecycle_reachable app s \<Longrightarrow> lifecycle_inv s"
  by (induction rule: lifecycle_reachable.induct) (auto intro: lifecycle_inv_new lifecycle_step_inv)

section \<open>The queue interface\<close>

definition pop_message :: "LifecycleManager \<Rightarrow> AppletMessage \<times> LifecycleManager" where
  "pop_message s = (snd (fst (PopMessage s)), snd (PopMessage s))"

lemma pop_message_next:
  assumes "lifecycle_inv s"
  shows "fst (pop_message s) = (case pending_messages s of [] \<Rightarrow> NoMessage | m # _ \<Rightarrow> m)"
    and "pending_messages (snd (pop_message s)) = tl (pending_messages s)"
    and "lifecycle_inv (snd (pop_message s))"
  using PopMessageInOrderOfPriority_next [OF assms]
  by (auto simp: pop_message_def PopMessage_def split: prod.splits)

lemma push_pending:
  "pending_messages (PushUnorderedMessage m s) = pending_messages s @ [m]"
  unfolding PushUnorderedMessage_def SignalSystemEventIfNeeded_frame
  by (simp add: pending_messages_def focus_pending_def other_pending_def)

interpretation lq: message_queue lifecycle_inv pending_messages pop_message PushUnorderedMessage NoMessage
proof unfold_locales
  fix s m ms
  assume i: "lifecycle_inv s" and p: "pending_messages s = m # ms"
  show "\<exists>s'. pop_message s = (m, s') \<and> pending_messages s' = ms \<and> lifecycle_inv s'"
    by (rule exI [of _ "snd (pop_message s)"]) (use pop_message_next [OF i] p in \<open>auto simp: prod_eq_iff\<close>)
next
  fix s
  assume i: "lifecycle_inv s" and p: "pending_messages s = []"
  show "\<exists>s'. pop_message s = (NoMessage, s') \<and> pending_messages s' = [] \<and> lifecycle_inv s'"
    by (rule exI [of _ "snd (pop_message s)"]) (use pop_message_next [OF i] p in \<open>auto simp: prod_eq_iff\<close>)
next
  fix s m
  assume "lifecycle_inv s" "m \<noteq> NoMessage"
  then show "pending_messages (PushUnorderedMessage m s) = pending_messages s @ [m] \<and>
      lifecycle_inv (PushUnorderedMessage m s)"
    by (simp add: push_pending lifecycle_step_inv [OF step_push])
qed

section \<open>Properties\<close>

text \<open>
  C13. The manager refines a queue: in every reachable state, popping as often as there are pending
  messages delivers exactly the pending messages in their order of priority and leaves nothing
  pending; a message queued behind them is delivered last. The steps include signalling and clearing
  the event from outside, which the order of delivery does not depend on.
\<close>

theorem lifecycle_delivers_in_priority_order:
  assumes "lifecycle_reachable app s" "m \<noteq> NoMessage"
  shows "(\<exists>s'. drain (length (pending_messages s)) pop_message s = (pending_messages s, s') \<and>
            pending_messages s' = []) \<and>
    (\<exists>s'. drain (length (pending_messages s) + 1) pop_message (PushUnorderedMessage m s) =
            (pending_messages s @ [m], s') \<and> pending_messages s' = [])"
  using lq.drain_all [OF lifecycle_reachable_inv [OF assms(1)]]
    lq.pushed_is_delivered [OF lifecycle_reachable_inv [OF assms(1)] assms(2)] by blast

theorem lifecycle_delivers_in_priority_order_witness:
  "\<exists>s'. drain 2 pop_message (PushUnorderedMessage AutoPowerDown (new_LifecycleManager True)) =
     ([FocusStateChanged, AutoPowerDown], s') \<and> pending_messages s' = []"
proof -
  have "pending_messages (new_LifecycleManager True) = [FocusStateChanged]"
    by (simp add: pending_messages_def focus_pending_def other_pending_def new_LifecycleManager_def)
  then show ?thesis
    using lifecycle_delivers_in_priority_order [OF reach_new [of True], of AutoPowerDown]
    by (simp add: numeral_2_eq_2)
qed

text \<open>
  C37. The wake-up event and the pending messages. In every reachable state, also when clients signal
  and clear the event themselves, a pop leaves the manager's cached flag set exactly when another
  message is still pending (for applications, and for applets whose requested focus state is a
  regular one), and it touches the event only when the flag changes, setting it to the new flag. So
  where the event agreed with the flag, it is signalled afterwards exactly when a message is
  pending; where a client cleared it under a set flag, as \<^verbatim>\<open>PopOutData\<close> does, it stays clear as long
  as messages are pending.
\<close>

theorem PopMessage_event_follows_flag:
  assumes "lifecycle_reachable app s" "focus_regular (snd (PopMessage s))"
  defines "s' \<equiv> snd (PopMessage s)"
  shows "(m_applet_message_available s' \<longleftrightarrow> pending_messages s' \<noteq> []) \<and>
    m_system_event s' =
      (if m_applet_message_available s' = m_applet_message_available s then m_system_event s
       else m_applet_message_available s')"
proof -
  let ?s1 = "snd (PopMessageInOrderOfPriority s)"
  have s1: "s' = SignalSystemEventIfNeeded ?s1"
    unfolding s'_def by (cases "PopMessageInOrderOfPriority s") (simp add: PopMessage_def)
  show ?thesis
    using ShouldSignal_iff_pending [OF assms(2)] PopMessageInOrderOfPriority_event [of s]
    unfolding s'_def [symmetric] s1 by (simp add: SignalSystemEventIfNeeded_eq)
qed

text \<open>
  The lost wake-up: a caller with a message pending and the event signalled, after \<^verbatim>\<open>PopOutData\<close> and
  one more message.
\<close>

lemma PopOutData_clears_pending_event:
  assumes "m_applet_message_available s" "m \<noteq> NoMessage"
  shows "\<not> m_system_event (PushUnorderedMessage m (PopOutData_caller s)) \<and>
    pending_messages (PushUnorderedMessage m (PopOutData_caller s)) \<noteq> []"
proof -
  let ?c = "PopOutData_caller s"
  have "m_applet_message_available ?c = m_applet_message_available s" "\<not> m_system_event ?c"
    by (simp_all add: PopOutData_caller_def UpdateRequestedFocusState_def RequestResumeNotification_def
        SystemEvent_Signal_def SystemEvent_Clear_def Let_def)
  then show ?thesis
    using assms(1) unfolding push_pending
    by (simp add: PushUnorderedMessage_def SignalSystemEventIfNeeded_eq ShouldSignalSystemEvent_def)
qed

theorem PopMessage_event_follows_flag_witness:
  "\<not> m_system_event (snd (PopMessage (RequestExit (new_LifecycleManager False)))) \<and>
   m_applet_message_available (snd (PopMessage (PushUnorderedMessage AutoPowerDown
     (SystemEvent_Clear (RequestExit (new_LifecycleManager False)))))) \<and>
   \<not> m_system_event (snd (PopMessage (PushUnorderedMessage AutoPowerDown
     (SystemEvent_Clear (RequestExit (new_LifecycleManager False))))))"
proof -
  let ?s = "RequestExit (new_LifecycleManager False)"
  let ?t = "PushUnorderedMessage AutoPowerDown (SystemEvent_Clear ?s)"
  have r: "lifecycle_reachable False ?s" "lifecycle_reachable False ?t"
    by (auto intro!: reach_step [OF reach_new step_exit] reach_step [OF _ step_push]
        reach_step [OF _ step_event_clear])
  have f: "focus_regular (snd (PopMessage ?s))" "focus_regular (snd (PopMessage ?t))"
    by (simp_all add: focus_regular_def PopMessage_def PopMessageInOrderOfPriority_def RequestExit_def
        PushUnorderedMessage_def SystemEvent_Clear_def SignalSystemEventIfNeeded_eq new_LifecycleManager_def)
  have e: "m_system_event ?s" "m_applet_message_available ?s" "\<not> m_system_event ?t" "m_applet_message_available ?t"
    by (simp_all add: RequestExit_def PushUnorderedMessage_def SystemEvent_Clear_def
        SignalSystemEventIfNeeded_eq ShouldSignalSystemEvent_def new_LifecycleManager_def)
  have p: "pending_messages (snd (PopMessage ?s)) = []" "pending_messages (snd (PopMessage ?t)) = [AutoPowerDown]"
    using pop_message_next(2) [OF lifecycle_reachable_inv [OF r(1)]]
      pop_message_next(2) [OF lifecycle_reachable_inv [OF r(2)]]
    by (simp_all add: pop_message_def push_pending) 
       (simp_all add: pending_messages_def focus_pending_def other_pending_def RequestExit_def
        SystemEvent_Clear_def SignalSystemEventIfNeeded_eq new_LifecycleManager_def)
  show ?thesis
    using PopMessage_event_follows_flag [OF r(1) f(1)] PopMessage_event_follows_flag [OF r(2) f(2)] e p
    by simp
qed

text \<open>
  Focus: after \<^verbatim>\<open>UpdateRequestedFocusState\<close> the requested state is a proper one; an applet that
  is always suspended never learns that it lost focus, only applications that refuse suspension
  are told they are in the background, and the result says whether the state changed, which for an
  application is also flagged for delivery.
\<close>

theorem UpdateRequestedFocusState_correct:
  assumes "UpdateRequestedFocusState s = (changed, s')"
  shows "m_requested_focus_state s' \<noteq> FocusState_zero \<and>
    (m_focus_handling_mode s = AlwaysSuspend \<longrightarrow> m_requested_focus_state s' = InFocus) \<and>
    (m_requested_focus_state s' = Background \<longrightarrow> m_is_application s \<and> m_focus_handling_mode s = NoSuspend) \<and>
    (changed \<longleftrightarrow> m_requested_focus_state s' \<noteq> m_requested_focus_state s) \<and>
    (changed \<and> m_is_application s \<longrightarrow> m_has_focus_state_changed s')"
  using assms
  by (cases "m_suspend_mode s = NoOverride"; cases "m_activity_state s"; cases "m_focus_handling_mode s")
     (auto simp: UpdateRequestedFocusState_def GetFocusStateWhileForegroundObscured_def
      GetFocusStateWhileBackground_def Let_def split: if_splits)

theorem UpdateRequestedFocusState_correct_witness:
  "m_requested_focus_state (snd (UpdateRequestedFocusState (new_LifecycleManager True))) \<noteq> FocusState_zero"
  using UpdateRequestedFocusState_correct [of "new_LifecycleManager True"
      "fst (UpdateRequestedFocusState (new_LifecycleManager True))"
      "snd (UpdateRequestedFocusState (new_LifecycleManager True))"] by simp

text \<open>
  An exit request wakes an applet: afterwards it is runnable unless it is suspended by force,
  whatever its activity, focus handling or forced resumption.
\<close>

theorem RequestExit_makes_runnable:
  "IsRunnable (RequestExit s) \<longleftrightarrow> \<not> m_forced_suspend s \<and> m_suspend_mode s \<noteq> ForceSuspend"
  by (cases "m_suspend_mode s") (simp_all add: IsRunnable_def RequestExit_def SignalSystemEventIfNeeded_eq)

end
