(* ===== verification/KernelObjects.thy ===== *)
theory KernelObjects
  imports Prelude
begin

text \<open>
  The reference-counted kernel objects of \<^verbatim>\<open>core/hle/kernel/k_auto_object.h\<close> and the bit fields of
  \<^verbatim>\<open>common/bit_field.h\<close> that the handle table packs its handles with. An object is named by a
  number; a null pointer is \<open>None\<close>. The virtual \<^verbatim>\<open>Destroy\<close> of an object is recorded, in order.
\<close>

section \<open>Bit fields\<close>

text \<open>\<^verbatim>\<open>BitField<Position, Bits, u32>\<close>.\<close>

definition BitField_mask :: "nat \<Rightarrow> nat \<Rightarrow> u32" where
  "BitField_mask position bits = push_bit position (drop_bit (32 - bits) (NOT 0))"

definition BitField_FormatValue :: "nat \<Rightarrow> nat \<Rightarrow> u32 \<Rightarrow> u32" where
  "BitField_FormatValue position bits value = push_bit position value AND BitField_mask position bits"

definition BitField_ExtractValue :: "nat \<Rightarrow> nat \<Rightarrow> u32 \<Rightarrow> u32" where
  "BitField_ExtractValue position bits storage = drop_bit position (storage AND BitField_mask position bits)"

definition BitField_Assign :: "nat \<Rightarrow> nat \<Rightarrow> u32 \<Rightarrow> u32 \<Rightarrow> u32" where
  "BitField_Assign position bits value storage =
     (storage AND NOT (BitField_mask position bits)) OR BitField_FormatValue position bits value"

section \<open>Objects\<close>

type_synonym KAutoObject = nat

record KernelCore =
  m_ref_count :: "KAutoObject \<Rightarrow> u32"
  m_class_token :: "KAutoObject \<Rightarrow> u16"
  registered_objects :: "KAutoObject set"
  registered_in_use_objects :: "KAutoObject set"
  destroyed :: "KAutoObject list"

definition KAutoObject_Create :: "u16 \<Rightarrow> KAutoObject \<Rightarrow> KernelCore \<Rightarrow> KernelCore" where
  "KAutoObject_Create token obj k =
     k\<lparr>m_ref_count := (m_ref_count k)(obj := 1), m_class_token := (m_class_token k)(obj := token)\<rparr>"

definition IsClassTokenDerivedFrom :: "u16 \<Rightarrow> u16 \<Rightarrow> bool" where
  "IsClassTokenDerivedFrom self base = (self OR base = self)"

definition DynamicCast :: "u16 \<Rightarrow> KernelCore \<Rightarrow> KAutoObject \<Rightarrow> KAutoObject option" where
  "DynamicCast token k obj =
     (if IsClassTokenDerivedFrom (m_class_token k obj) token then Some obj else None)"

definition Open :: "KAutoObject \<Rightarrow> KernelCore \<Rightarrow> bool \<times> KernelCore" where
  "Open obj k =
     (let cur_ref_count = m_ref_count k obj in
      if cur_ref_count = 0 then (False, k)
      else (True, k\<lparr>m_ref_count := (m_ref_count k)(obj := cur_ref_count + 1)\<rparr>))"

definition Close :: "KAutoObject \<Rightarrow> KernelCore \<Rightarrow> KernelCore" where
  "Close obj k =
     (let cur_ref_count = m_ref_count k obj in
      if cur_ref_count = 0 then k
      else
        (let k1 = k\<lparr>m_ref_count := (m_ref_count k)(obj := cur_ref_count - 1)\<rparr> in
         if cur_ref_count = 1
         then k1\<lparr>destroyed := destroyed k1 @ [obj], registered_objects := registered_objects k1 - {obj}\<rparr>
         else k1))"

definition UnregisterInUseObject :: "KAutoObject \<Rightarrow> KernelCore \<Rightarrow> KernelCore" where
  "UnregisterInUseObject obj k = k\<lparr>registered_in_use_objects := registered_in_use_objects k - {obj}\<rparr>"

text \<open>A scoped object opens what it holds, unless it is null.\<close>

definition KScopedAutoObject :: "KAutoObject option \<Rightarrow> KernelCore \<Rightarrow> KAutoObject option \<times> KernelCore" where
  "KScopedAutoObject held k = (case held of None \<Rightarrow> (None, k) | Some obj \<Rightarrow> (Some obj, snd (Open obj k)))"

section \<open>Facts about fields and counts\<close>

lemma bit_BitField_mask:
  "position + bits \<le> 32 \<Longrightarrow> bit (BitField_mask position bits) n \<longleftrightarrow> position \<le> n \<and> n < position + bits"
  by (auto simp: BitField_mask_def bit_simps)

lemma bit_BitField_ExtractValue:
  "position + bits \<le> 32 \<Longrightarrow>
   bit (BitField_ExtractValue position bits w) n \<longleftrightarrow> n < bits \<and> bit w (position + n)"
  by (auto simp: BitField_ExtractValue_def bit_simps bit_BitField_mask)

lemma bit_BitField_Assign:
  "position + bits \<le> 32 \<Longrightarrow> bit (BitField_Assign position bits v w) n \<longleftrightarrow>
     (if position \<le> n \<and> n < position + bits then bit v (n - position) else bit w n)"
  by (auto simp: BitField_Assign_def BitField_FormatValue_def bit_simps bit_BitField_mask
      dest: bit_imp_le_length)

lemma BitField_ExtractValue_bound:
  assumes "position + bits \<le> 32" "bits < 32"
  shows "unat (BitField_ExtractValue position bits w) < 2 ^ bits"
proof -
  have "take_bit bits (BitField_ExtractValue position bits w) = BitField_ExtractValue position bits w"
    using assms by (intro bit_word_eqI) (auto simp: bit_simps bit_BitField_ExtractValue)
  then have "take_bit bits (unat (BitField_ExtractValue position bits w)) =
      unat (BitField_ExtractValue position bits w)"
    by (metis unsigned_take_bit_eq)
  then show ?thesis
    by (simp add: take_bit_nat_eq_self_iff)
qed

lemma Open_positive:
  "m_ref_count k obj \<noteq> 0 \<Longrightarrow>
   snd (Open obj k) = k\<lparr>m_ref_count := (m_ref_count k)(obj := m_ref_count k obj + 1)\<rparr>"
  by (simp add: Open_def Let_def)

lemma Close_Open:
  assumes "m_ref_count k obj \<noteq> 0" "m_ref_count k obj \<noteq> - 1"
  shows "Close obj (snd (Open obj k)) = k"
proof -
  have "m_ref_count k obj + 1 \<noteq> 0"
    using assms(2) by (metis add.commute add_eq_0_iff)
  moreover have "m_ref_count k obj + 1 \<noteq> 1"
    using assms(1) by simp
  ultimately show ?thesis
    using assms(1) by (simp add: Open_def Close_def Let_def)
qed

lemma Open_class_token [frame_simps]: "m_class_token (snd (Open obj k)) = m_class_token k"
  by (simp add: Open_def Let_def)

lemma Close_class_token [frame_simps]: "m_class_token (Close obj k) = m_class_token k"
  by (simp add: Close_def Let_def)

end
