(* ===== verification/HandleTable.thy ===== *)
theory HandleTable
  imports KernelObjects
begin

text \<open>
  The handle table of a process, \<^verbatim>\<open>core/hle/kernel/k_handle_table.{h,cpp}\<close>. Each of the 1024 entries
  is either on the free list, reserved, or holds an object; the 16 bits of an entry are the next
  free index (signed) while the entry is free and the linear id of its handle while it is used.
  Failed assertions are soft in the code (they log and continue) and have no effect here. An access
  outside an array is \<open>OutOfBoundsAccess\<close>.
\<close>

section \<open>State\<close>

definition MaxTableSize :: nat where "MaxTableSize = 1024"
definition MinLinearId :: u16 where "MinLinearId = 1"
definition MaxLinearId :: u16 where "MaxLinearId = 0x7FFF"

record KHandleTable =
  m_entry_infos :: "u16 list"
  m_objects :: "KAutoObject option list"
  m_free_head_index :: int
  m_table_size :: u16
  m_max_count :: u16
  m_next_linear_id :: u16
  m_count :: u16

definition new_KHandleTable :: KHandleTable where
  "new_KHandleTable =
     \<lparr>m_entry_infos = fill_array MaxTableSize 0, m_objects = fill_array MaxTableSize None,
      m_free_head_index = 0, m_table_size = 0, m_max_count = 0, m_next_linear_id = 0, m_count = 0\<rparr>"

text \<open>The two readings of an entry's 16 bits.\<close>

definition GetLinearId :: "u16 \<Rightarrow> u16" where
  "GetLinearId info = info"

definition GetNextFreeIndex :: "u16 \<Rightarrow> int" where
  "GetNextFreeIndex info = sint info"

datatype handle_error = ResultOutOfMemory | ResultOutOfHandles | OutOfBoundsAccess

section \<open>Handles\<close>

definition handle_index :: "u32 \<Rightarrow> u32" where
  "handle_index handle = BitField_ExtractValue 0 15 handle"

definition handle_linear_id :: "u32 \<Rightarrow> u32" where
  "handle_linear_id handle = BitField_ExtractValue 15 15 handle"

definition handle_reserved :: "u32 \<Rightarrow> u32" where
  "handle_reserved handle = BitField_ExtractValue 30 2 handle"

definition EncodeHandle :: "u16 \<Rightarrow> u16 \<Rightarrow> u32" where
  "EncodeHandle index linear_id =
     BitField_Assign 30 2 0 (BitField_Assign 15 15 (ucast linear_id) (BitField_Assign 0 15 (ucast index) 0))"

definition CurrentThread :: u32 where "CurrentThread = 0xFFFF8000"
definition CurrentProcess :: u32 where "CurrentProcess = 0xFFFF8001"

definition IsPseudoHandle :: "u32 \<Rightarrow> bool" where
  "IsPseudoHandle handle = (handle = CurrentProcess \<or> handle = CurrentThread)"

section \<open>Entries\<close>

definition init_entry :: "nat \<Rightarrow> KHandleTable \<Rightarrow> KHandleTable" where
  "init_entry i t =
     t\<lparr>m_objects := (m_objects t)[i := None],
       m_entry_infos := (m_entry_infos t)[i := word_of_int (int i - 1)],
       m_free_head_index := int i\<rparr>"

definition Initialize :: "int \<Rightarrow> KHandleTable \<Rightarrow> handle_error + KHandleTable" where
  "Initialize sz t =
     (if sz > int MaxTableSize then Inl ResultOutOfMemory
      else
        (let n = (if sz \<le> 0 then MaxTableSize else nat sz);
             t1 = t\<lparr>m_max_count := 0, m_table_size := of_nat n, m_next_linear_id := MinLinearId,
                    m_count := 0, m_free_head_index := -1\<rparr>
         in Inr (fold init_entry [0 ..< unat (m_table_size t1)] t1)))"

definition AllocateEntry :: "KHandleTable \<Rightarrow> handle_error + int \<times> KHandleTable" where
  "AllocateEntry t =
     (let index = m_free_head_index t in
      if index < 0 \<or> int (length (m_entry_infos t)) \<le> index then Inl OutOfBoundsAccess
      else
        (let t1 = t\<lparr>m_free_head_index := GetNextFreeIndex (m_entry_infos t ! nat index)\<rparr>;
             t2 = t1\<lparr>m_count := m_count t1 + 1\<rparr>
         in Inr (index, t2\<lparr>m_max_count := max (m_max_count t2) (m_count t2)\<rparr>)))"

definition FreeEntry :: "nat \<Rightarrow> KHandleTable \<Rightarrow> KHandleTable" where
  "FreeEntry index t =
     t\<lparr>m_objects := (m_objects t)[index := None],
       m_entry_infos := (m_entry_infos t)[index := word_of_int (m_free_head_index t)],
       m_free_head_index := int index,
       m_count := m_count t - 1\<rparr>"

definition AllocateLinearId :: "KHandleTable \<Rightarrow> u16 \<times> KHandleTable" where
  "AllocateLinearId t =
     (let ident = m_next_linear_id t; following = ident + 1
      in (ident, t\<lparr>m_next_linear_id := (if following > MaxLinearId then MinLinearId else following)\<rparr>))"

section \<open>Lookup\<close>

definition IsValidHandle :: "KHandleTable \<Rightarrow> u32 \<Rightarrow> bool" where
  "IsValidHandle t handle =
     (let index = unat (handle_index handle); linear_id = handle_linear_id handle in
      if handle = 0 then False
      else if linear_id = 0 then False
      else if index \<ge> unat (m_table_size t) then False
      else if m_objects t ! index = None then False
      else ucast (GetLinearId (m_entry_infos t ! index)) = linear_id)"

definition GetObjectImpl :: "KHandleTable \<Rightarrow> u32 \<Rightarrow> KAutoObject option" where
  "GetObjectImpl t handle =
     (if handle_reserved handle \<noteq> 0 then None
      else if IsValidHandle t handle then m_objects t ! unat (handle_index handle)
      else None)"

definition GetObjectByIndexImpl :: "KHandleTable \<Rightarrow> nat \<Rightarrow> (u32 \<times> KAutoObject) option" where
  "GetObjectByIndexImpl t index =
     (if index \<ge> unat (m_table_size t) then None
      else (case m_objects t ! index of
              None \<Rightarrow> None
            | Some obj \<Rightarrow> Some (EncodeHandle (of_nat index) (GetLinearId (m_entry_infos t ! index)), obj)))"

text \<open>
  Lookups with a type: \<open>None\<close> for the token stands for \<^verbatim>\<open>KAutoObject\<close> itself, where the template
  takes the branch without a cast. The flags of \<open>GetObject\<close> are the compile-time conditions
  \<^verbatim>\<open>derived_from<KProcess, T>\<close> and \<^verbatim>\<open>derived_from<KThread, T>\<close>.
\<close>

definition GetObjectWithoutPseudoHandle ::
  "u16 option \<Rightarrow> KHandleTable \<Rightarrow> u32 \<Rightarrow> KernelCore \<Rightarrow> KAutoObject option \<times> KernelCore" where
  "GetObjectWithoutPseudoHandle token t handle k =
     (case token of
        None \<Rightarrow> KScopedAutoObject (GetObjectImpl t handle) k
      | Some c \<Rightarrow>
          (case GetObjectImpl t handle of
             Some obj \<Rightarrow> KScopedAutoObject (DynamicCast c k obj) k
           | None \<Rightarrow> KScopedAutoObject None k))"

definition GetObject ::
  "bool \<Rightarrow> bool \<Rightarrow> u16 option \<Rightarrow> KAutoObject \<Rightarrow> KAutoObject \<Rightarrow> KHandleTable \<Rightarrow> u32 \<Rightarrow> KernelCore \<Rightarrow>
   KAutoObject option \<times> KernelCore" where
  "GetObject process_derived thread_derived token cur_process cur_thread t handle k =
     (if process_derived \<and> handle = CurrentProcess then KScopedAutoObject (Some cur_process) k
      else if \<not> process_derived \<and> thread_derived \<and> handle = CurrentThread
      then KScopedAutoObject (Some cur_thread) k
      else GetObjectWithoutPseudoHandle token t handle k)"

definition GetObjectForIpc ::
  "KAutoObject \<Rightarrow> KAutoObject \<Rightarrow> KHandleTable \<Rightarrow> u32 \<Rightarrow> KernelCore \<Rightarrow> KAutoObject option \<times> KernelCore" where
  "GetObjectForIpc owner_process cur_thread t handle k =
     (if handle = CurrentProcess then KScopedAutoObject (Some owner_process) k
      else if handle = CurrentThread then KScopedAutoObject (Some cur_thread) k
      else KScopedAutoObject (GetObjectImpl t handle) k)"

text \<open>
  \<^verbatim>\<open>GetMultipleObjects<T>\<close>: the first loop returns the objects it opened and whether it converted
  every handle; the second closes what was opened when one failed.
\<close>

fun open_objects ::
  "u16 \<Rightarrow> KHandleTable \<Rightarrow> u32 list \<Rightarrow> KAutoObject list \<Rightarrow> KernelCore \<Rightarrow> bool \<times> KAutoObject list \<times> KernelCore" where
  "open_objects token t [] out k = (True, out, k)"
| "open_objects token t (handle # handles) out k =
     (case GetObjectImpl t handle of
        None \<Rightarrow> (False, out, k)
      | Some cur_object \<Rightarrow>
          (case DynamicCast token k cur_object of
             None \<Rightarrow> (False, out, k)
           | Some cur_t \<Rightarrow> open_objects token t handles (out @ [cur_t]) (snd (Open cur_t k))))"

definition GetMultipleObjects ::
  "u16 \<Rightarrow> KHandleTable \<Rightarrow> u32 list \<Rightarrow> KernelCore \<Rightarrow> KAutoObject list option \<times> KernelCore" where
  "GetMultipleObjects token t handles k =
     (let (all_opened, out, k1) = open_objects token t handles [] k in
      if all_opened then (Some out, k1) else (None, fold Close out k1))"

section \<open>Changes\<close>

definition Add :: "KAutoObject \<Rightarrow> KHandleTable \<times> KernelCore \<Rightarrow> handle_error + u32 \<times> KHandleTable \<times> KernelCore" where
  "Add obj tk =
     (let (t, k) = tk in
      if \<not> m_count t < m_table_size t then Inl ResultOutOfHandles
      else
        (let (linear_id, t1) = AllocateLinearId t in
         case AllocateEntry t1 of
           Inl e \<Rightarrow> Inl e
         | Inr (index, t2) \<Rightarrow>
             (let t3 = t2\<lparr>m_entry_infos := (m_entry_infos t2)[nat index := linear_id],
                          m_objects := (m_objects t2)[nat index := Some obj]\<rparr>
              in Inr (EncodeHandle (word_of_int index) linear_id, t3, snd (Open obj k)))))"

text \<open>
  The arguments of \<^verbatim>\<open>EncodeHandle\<close> in \<^verbatim>\<open>Reserve\<close> may be evaluated in either order; the two
  allocations touch different fields, so the order makes no difference.
\<close>

definition Reserve :: "KHandleTable \<Rightarrow> handle_error + u32 \<times> KHandleTable" where
  "Reserve t =
     (if \<not> m_count t < m_table_size t then Inl ResultOutOfHandles
      else
        (case AllocateEntry t of
           Inl e \<Rightarrow> Inl e
         | Inr (index, t1) \<Rightarrow>
             (let (linear_id, t2) = AllocateLinearId t1
              in Inr (EncodeHandle (word_of_int index) linear_id, t2))))"

definition Unreserve :: "u32 \<Rightarrow> KHandleTable \<Rightarrow> KHandleTable" where
  "Unreserve handle t =
     (if handle_index handle < ucast (m_table_size t) then FreeEntry (unat (handle_index handle)) t else t)"

definition Register :: "u32 \<Rightarrow> KAutoObject \<Rightarrow> KHandleTable \<times> KernelCore \<Rightarrow> KHandleTable \<times> KernelCore" where
  "Register handle obj tk =
     (let (t, k) = tk; index = unat (handle_index handle) in
      if handle_index handle < ucast (m_table_size t) then
        (t\<lparr>m_entry_infos := (m_entry_infos t)[index := ucast (handle_linear_id handle)],
           m_objects := (m_objects t)[index := Some obj]\<rparr>, snd (Open obj k))
      else (t, k))"

definition Remove :: "u32 \<Rightarrow> KHandleTable \<times> KernelCore \<Rightarrow> bool \<times> KHandleTable \<times> KernelCore" where
  "Remove handle tk =
     (let (t, k) = tk in
      if IsPseudoHandle handle then (False, t, k)
      else if handle_reserved handle \<noteq> 0 then (False, t, k)
      else if IsValidHandle t handle then
        (let index = unat (handle_index handle) in
         case m_objects t ! index of
           None \<Rightarrow> (False, t, k)
         | Some obj \<Rightarrow> (True, FreeEntry index t, Close obj (UnregisterInUseObject obj k)))
      else (False, t, k))"

definition Finalize :: "KHandleTable \<times> KernelCore \<Rightarrow> KHandleTable \<times> KernelCore" where
  "Finalize tk =
     (let (t, k) = tk; saved_table_size = unat (m_table_size t)
      in (t\<lparr>m_table_size := 0\<rparr>,
          fold (\<lambda>i k. case m_objects t ! i of None \<Rightarrow> k | Some obj \<Rightarrow> Close obj k) [0 ..< saved_table_size] k))"

end
