(* ===== verification/HandleTable_Laws.thy ===== *)
theory HandleTable_Laws
  imports HandleTable
begin

text \<open>
  The handle table implements a partial map from handles to objects: its free list is a linked
  list through the free entries, a handle is valid for exactly one entry, and its operations are
  the operations of a map. The interface is the locale \<open>handle_space\<close>; its clients learn that a
  handle does not come to denote another object for as long as the serial numbers do not wrap.
\<close>

section \<open>Handles\<close>

lemma option_eq_iff_Some: "(\<And>x. a = Some x \<longleftrightarrow> b = Some x) \<Longrightarrow> a = b"
  by (cases a; cases b) auto

lemma handle_bounds:
  "unat (handle_index h) < 2 ^ 15" "unat (handle_linear_id h) < 2 ^ 15"
  unfolding handle_index_def handle_linear_id_def by (rule BitField_ExtractValue_bound; simp)+

lemma unat_u16_bound: "unat (w :: u16) < 65536"
  using unsigned_less [of w] by simp

lemma unat_ucast_u16 [simp]: "unat (ucast (w :: u16) :: u32) = unat w"
proof -
  have "unat w < 2 ^ 32" using unat_u16_bound [of w] by simp
  then show ?thesis by (simp add: unsigned_ucast_eq take_bit_nat_eq_self)
qed

lemma small_bits:
  fixes w :: u16
  assumes "unat w < 2 ^ 15"
  shows "bit w n \<Longrightarrow> n < 15"
proof (rule ccontr)
  assume n: "bit w n" "\<not> n < 15"
  moreover have "n < 16" using bit_imp_le_length [OF n(1)] by simp
  ultimately have "bit (unat w) 15" by (auto simp: bit_simps less_Suc_eq numeral_eq_Suc)
  moreover have "take_bit 15 (unat w) = unat w" using assms by (simp add: take_bit_nat_eq_self_iff)
  ultimately show False by (metis bit_take_bit_iff less_irrefl)
qed

lemma EncodeHandle_fields:
  assumes "unat i < 2 ^ 15" "unat l < 2 ^ 15"
  shows "handle_index (EncodeHandle i l) = ucast i" "handle_linear_id (EncodeHandle i l) = ucast l"
    "handle_reserved (EncodeHandle i l) = 0"
  by (rule bit_word_eqI;
      auto simp: handle_index_def handle_linear_id_def handle_reserved_def EncodeHandle_def
        bit_BitField_ExtractValue bit_BitField_Assign bit_simps
        dest: small_bits [OF assms(1)] small_bits [OF assms(2)])+

lemma EncodeHandle_inverse:
  assumes "handle_reserved h = 0"
  shows "EncodeHandle (ucast (handle_index h)) (ucast (handle_linear_id h)) = h"
proof (rule bit_word_eqI)
  fix n assume n: "n < LENGTH(32)"
  have high: "\<not> bit h m" if "30 \<le> m" for m
  proof
    assume m: "bit h m"
    have "bit (handle_reserved h) (m - 30)"
      using m that bit_imp_le_length [OF m] by (simp add: handle_reserved_def bit_BitField_ExtractValue)
    then show False using assms by simp
  qed
  show "bit (EncodeHandle (ucast (handle_index h)) (ucast (handle_linear_id h))) n \<longleftrightarrow> bit h n"
    using n high [of n]
    by (auto simp: EncodeHandle_def bit_BitField_Assign handle_index_def handle_linear_id_def
        bit_simps bit_BitField_ExtractValue)
qed

section \<open>The free list and the invariant\<close>

fun chain :: "u16 list \<Rightarrow> int \<Rightarrow> nat list \<Rightarrow> bool" where
  "chain infos h [] \<longleftrightarrow> h = -1"
| "chain infos h (i # is) \<longleftrightarrow> h = int i \<and> i < length infos \<and> chain infos (sint (infos ! i)) is"

lemma chain_update [simp]: "i \<notin> set is \<Longrightarrow> chain (infos[i := v]) h is = chain infos h is"
  by (induction infos h "is" rule: chain.induct) auto

lemma sint_small_index: "-1 \<le> z \<Longrightarrow> z < 1024 \<Longrightarrow> sint (word_of_int z :: u16) = z"
  by (simp add: signed_of_int signed_take_bit_int_eq_self)

lemma chain_push:
  "i < length infos \<Longrightarrow> i \<notin> set is \<Longrightarrow> -1 \<le> h \<Longrightarrow> h < 1024 \<Longrightarrow> chain infos h is \<Longrightarrow>
   chain (infos[i := word_of_int h]) (int i) (i # is)"
  by (simp add: sint_small_index)

lemma chain_head: "chain infos h is \<Longrightarrow> length infos \<le> 1024 \<Longrightarrow> -1 \<le> h \<and> h < 1024"
  by (cases "is") auto

definition table_inv :: "KHandleTable \<Rightarrow> nat list \<Rightarrow> bool" where
  "table_inv t fl \<longleftrightarrow>
     length (m_entry_infos t) = MaxTableSize \<and> length (m_objects t) = MaxTableSize \<and>
     unat (m_table_size t) \<le> MaxTableSize \<and>
     chain (m_entry_infos t) (m_free_head_index t) fl \<and> distinct fl \<and>
     (\<forall>i \<in> set fl. i < unat (m_table_size t) \<and> m_objects t ! i = None) \<and>
     unat (m_count t) + length fl = unat (m_table_size t) \<and>
     MinLinearId \<le> m_next_linear_id t \<and> m_next_linear_id t \<le> MaxLinearId \<and>
     (\<forall>i < unat (m_table_size t). m_objects t ! i \<noteq> None \<longrightarrow>
        MinLinearId \<le> m_entry_infos t ! i \<and> m_entry_infos t ! i \<le> MaxLinearId) \<and>
     m_count t \<le> m_max_count t \<and> m_max_count t \<le> m_table_size t"

definition handle_table_wf :: "KHandleTable \<Rightarrow> bool" where
  "handle_table_wf t \<longleftrightarrow> (\<exists>fl. table_inv t fl)"

lemma linear_id_small: "l \<le> MaxLinearId \<Longrightarrow> unat l < 2 ^ 15"
  by (simp add: MaxLinearId_def word_le_nat_alt)

lemma valid_handle_entry:
  assumes "GetObjectImpl t h = Some obj"
  defines "i \<equiv> unat (handle_index h)"
  shows "handle_reserved h = 0" "IsValidHandle t h" "i < unat (m_table_size t)" "m_objects t ! i = Some obj"
    "h = EncodeHandle (of_nat i) (m_entry_infos t ! i)"
proof -
  show h: "handle_reserved h = 0" "IsValidHandle t h" "i < unat (m_table_size t)" "m_objects t ! i = Some obj"
    using assms(1) by (auto simp: GetObjectImpl_def IsValidHandle_def Let_def i_def split: if_splits)
  have l: "handle_linear_id h = ucast (m_entry_infos t ! i)"
    using h(2) by (auto simp: IsValidHandle_def Let_def GetLinearId_def i_def split: if_splits)
  have "m_entry_infos t ! i = ucast (handle_linear_id h)"
    unfolding l by (rule bit_word_eqI) (auto simp: bit_simps)
  moreover have "of_nat i = (ucast (handle_index h) :: u16)"
    by (simp add: i_def)
  ultimately show "h = EncodeHandle (of_nat i) (m_entry_infos t ! i)"
    using EncodeHandle_inverse [OF h(1)] by simp
qed

lemma table_inv_lookup:
  assumes "table_inv t fl"
  shows "GetObjectImpl t h = Some obj \<longleftrightarrow>
    (\<exists>i < unat (m_table_size t). m_objects t ! i = Some obj \<and> h = EncodeHandle (of_nat i) (m_entry_infos t ! i))"
    (is "?L \<longleftrightarrow> ?R")
proof
  assume ?L
  then show ?R using valid_handle_entry by blast
next
  assume ?R
  then obtain i where i: "i < unat (m_table_size t)" "m_objects t ! i = Some obj"
    "h = EncodeHandle (of_nat i) (m_entry_infos t ! i)" by blast
  have le: "MinLinearId \<le> m_entry_infos t ! i" "m_entry_infos t ! i \<le> MaxLinearId" "i < 1024"
    using assms i by (auto simp: table_inv_def MaxTableSize_def)
  have u: "unat (of_nat i :: u16) = i"
    using le by (simp add: unat_of_nat)
  have f: "handle_index h = of_nat i" "handle_linear_id h = ucast (m_entry_infos t ! i)" "handle_reserved h = 0"
    using EncodeHandle_fields [of "of_nat i" "m_entry_infos t ! i"] u le linear_id_small [OF le(2)]
    by (auto simp: i(3) intro!: word_unat_eq_iff [THEN iffD2] simp: unat_of_nat)
  have nz: "handle_linear_id h \<noteq> 0"
  proof
    assume "handle_linear_id h = 0"
    then have "unat (ucast (m_entry_infos t ! i) :: u32) = 0" by (simp add: f)
    then have "unat (m_entry_infos t ! i) = 0" by simp
    then show False using le(1) by (simp add: MinLinearId_def word_le_nat_alt)
  qed
  then have "h \<noteq> 0" by (auto simp: handle_linear_id_def BitField_ExtractValue_def)
  moreover have "unat (handle_index h) = i" using le(3) by (simp add: f unat_of_nat)
  ultimately show ?L
    using nz i(1,2) by (simp add: GetObjectImpl_def IsValidHandle_def Let_def f(2,3) GetLinearId_def)
qed

lemma table_inv_handle_inj:
  assumes "table_inv t fl" "i < unat (m_table_size t)" "j < unat (m_table_size t)"
    and "a \<le> MaxLinearId" "b \<le> MaxLinearId"
    and "EncodeHandle (of_nat i) a = EncodeHandle (of_nat j) b"
  shows "i = j \<and> a = b"
proof -
  have ij: "i < 1024" "j < 1024"
    using assms by (auto simp: table_inv_def MaxTableSize_def)
  have u: "unat (of_nat i :: u16) < 2 ^ 15" "unat (of_nat j :: u16) < 2 ^ 15"
    using ij by (simp_all add: unat_of_nat)
  have "unat (ucast (of_nat i :: u16) :: u32) = unat (ucast (of_nat j :: u16) :: u32)"
    and "unat (ucast a :: u32) = unat (ucast b :: u32)"
    using EncodeHandle_fields [OF u(1) linear_id_small [OF assms(4)]]
      EncodeHandle_fields [OF u(2) linear_id_small [OF assms(5)]] assms(6) by metis+
  then have "unat (of_nat i :: u16) = unat (of_nat j :: u16)" "unat a = unat b"
    by simp_all
  then show ?thesis
    using ij by (simp add: unat_of_nat word_unat_eq_iff)
qed

section \<open>What the operations do to the invariant\<close>

lemma AllocateLinearId_range:
  assumes "MinLinearId \<le> m_next_linear_id t" "m_next_linear_id t \<le> MaxLinearId"
  shows "MinLinearId \<le> m_next_linear_id (snd (AllocateLinearId t))"
    "m_next_linear_id (snd (AllocateLinearId t)) \<le> MaxLinearId"
    "unat (m_next_linear_id (snd (AllocateLinearId t))) =
       (if unat (m_next_linear_id t) = 0x7FFF then 1 else unat (m_next_linear_id t) + 1)"
proof -
  have "unat (m_next_linear_id t) \<le> 0x7FFF"
    using assms(2) by (simp add: MaxLinearId_def word_le_nat_alt)
  then have "unat (m_next_linear_id t + 1) = unat (m_next_linear_id t) + 1"
    by (simp add: unat_word_ariths)
  then show "MinLinearId \<le> m_next_linear_id (snd (AllocateLinearId t))"
    "m_next_linear_id (snd (AllocateLinearId t)) \<le> MaxLinearId"
    "unat (m_next_linear_id (snd (AllocateLinearId t))) =
       (if unat (m_next_linear_id t) = 0x7FFF then 1 else unat (m_next_linear_id t) + 1)"
    using assms by (auto simp: AllocateLinearId_def Let_def MinLinearId_def MaxLinearId_def word_le_nat_alt
        word_less_nat_alt)
qed

lemma AllocateLinearId_inv:
  "table_inv t fl \<Longrightarrow> table_inv (snd (AllocateLinearId t)) fl"
  using AllocateLinearId_range [of t]
  by (simp add: table_inv_def AllocateLinearId_def Let_def)

lemma AllocateEntry_inv:
  assumes "table_inv t fl" "m_count t < m_table_size t"
  obtains i fl' t' where "fl = i # fl'" "i < unat (m_table_size t)" "AllocateEntry t = Inr (int i, t')"
    "table_inv t' fl'" "m_entry_infos t' = m_entry_infos t" "m_objects t' = m_objects t"
    "m_table_size t' = m_table_size t" "m_next_linear_id t' = m_next_linear_id t"
proof -
  have "fl \<noteq> []"
    using assms by (auto simp: table_inv_def word_less_nat_alt)
  then obtain i fl' where fl: "fl = i # fl'" by (cases fl) auto
  have i: "m_free_head_index t = int i" "i < length (m_entry_infos t)" "i < unat (m_table_size t)"
    using assms(1) by (auto simp: table_inv_def fl)
  define t' where "t' = snd (the (case AllocateEntry t of Inr r \<Rightarrow> Some r | _ \<Rightarrow> None))"
  have A: "AllocateEntry t = Inr (int i, t')"
    using i by (simp add: t'_def AllocateEntry_def Let_def)
  have t': "t' = t\<lparr>m_free_head_index := sint (m_entry_infos t ! i), m_count := m_count t + 1,
      m_max_count := max (m_max_count t) (m_count t + 1)\<rparr>"
    using i by (simp add: t'_def AllocateEntry_def Let_def GetNextFreeIndex_def)
  have c: "unat (m_count t + 1) = unat (m_count t) + 1"
    using assms(2) unat_u16_bound [of "m_table_size t"]
    by (simp add: unat_word_ariths word_less_nat_alt)
  have "table_inv t' fl'"
    using assms by (auto simp: table_inv_def fl t' c word_le_nat_alt word_less_nat_alt max_def)
  then show ?thesis
    using that [OF fl i(3) A] by (simp add: t')
qed

lemma FreeEntry_inv:
  assumes "table_inv t fl" "i < unat (m_table_size t)" "i \<notin> set fl"
  shows "table_inv (FreeEntry i t) (i # fl)"
proof -
  have i: "i < length (m_entry_infos t)" "i < length (m_objects t)"
    using assms by (auto simp: table_inv_def)
  have "-1 \<le> m_free_head_index t \<and> m_free_head_index t < 1024"
    using assms(1) by (intro chain_head [of "m_entry_infos t" _ fl]) (auto simp: table_inv_def MaxTableSize_def)
  then have ch: "chain ((m_entry_infos t)[i := word_of_int (m_free_head_index t)]) (int i) (i # fl)"
    using assms i(1) by (intro chain_push) (auto simp: table_inv_def)
  have "set (i # fl) \<subseteq> {..< unat (m_table_size t)}" "distinct (i # fl)"
    using assms by (auto simp: table_inv_def)
  then have "length (i # fl) \<le> unat (m_table_size t)"
    by (metis card_lessThan card_mono distinct_card finite_lessThan)
  then have pos: "unat (m_count t) > 0"
    using assms(1) by (auto simp: table_inv_def)
  then have c: "unat (m_count t - 1) = unat (m_count t) - 1"
    by (metis unat_minus_one unat_eq_0 not_gr_zero)
  show ?thesis
    using assms i ch pos c
    by (auto simp: table_inv_def FreeEntry_def nth_list_update word_le_nat_alt)
qed

lemma FreeEntry_lookup:
  assumes "table_inv t fl" "i < unat (m_table_size t)" "i \<notin> set fl" "m_objects t ! i \<noteq> None"
  shows "GetObjectImpl (FreeEntry i t) h = Some obj \<longleftrightarrow>
    GetObjectImpl t h = Some obj \<and> h \<noteq> EncodeHandle (of_nat i) (m_entry_infos t ! i)"
proof -
  have len: "i < length (m_objects t)" "i < length (m_entry_infos t)"
    using assms by (auto simp: table_inv_def)
  have ids: "m_entry_infos t ! j \<le> MaxLinearId" if "j < unat (m_table_size t)" "m_objects t ! j \<noteq> None" for j
    using assms(1) that by (auto simp: table_inv_def)
  have other: "(j \<noteq> i \<and> h = EncodeHandle (of_nat j) (m_entry_infos t ! j)) \<longleftrightarrow>
      h = EncodeHandle (of_nat j) (m_entry_infos t ! j) \<and> h \<noteq> EncodeHandle (of_nat i) (m_entry_infos t ! i)"
    if "j < unat (m_table_size t)" "m_objects t ! j = Some obj" for j
    using table_inv_handle_inj [OF assms(1) that(1) assms(2) ids ids, of j i] that assms(2,4) by auto
  have "m_objects (FreeEntry i t) ! j = Some obj \<and> h = EncodeHandle (of_nat j) (m_entry_infos (FreeEntry i t) ! j) \<longleftrightarrow>
      m_objects t ! j = Some obj \<and> j \<noteq> i \<and> h = EncodeHandle (of_nat j) (m_entry_infos t ! j)" for j
    using len by (cases "j = i") (auto simp: FreeEntry_def)
  moreover have "m_table_size (FreeEntry i t) = m_table_size t"
    by (simp add: FreeEntry_def)
  ultimately show ?thesis
    using other by (auto simp: table_inv_lookup [OF assms(1)] table_inv_lookup [OF FreeEntry_inv [OF assms(1-3)]])
qed

section \<open>Adding and removing\<close>

lemma used_entry_inv:
  assumes "table_inv t fl" "i < unat (m_table_size t)" "i \<notin> set fl" "MinLinearId \<le> l" "l \<le> MaxLinearId"
  shows "table_inv (t\<lparr>m_entry_infos := (m_entry_infos t)[i := l], m_objects := (m_objects t)[i := Some obj]\<rparr>) fl"
proof -
  have "m_objects t ! j = None" if "j \<in> set fl" for j
    using assms(1) that by (simp add: table_inv_def)
  then show ?thesis
    using assms by (auto simp: table_inv_def nth_list_update)
qed

lemma used_entry_lookup:
  fixes obj :: KAutoObject
  assumes "table_inv t fl" "i < unat (m_table_size t)" "i \<notin> set fl" "MinLinearId \<le> l" "l \<le> MaxLinearId"
    and "m_objects t ! i = None"
  defines "t' \<equiv> t\<lparr>m_entry_infos := (m_entry_infos t)[i := l], m_objects := (m_objects t)[i := Some obj]\<rparr>"
  shows "GetObjectImpl t' h = (if h = EncodeHandle (of_nat i) l then Some obj else GetObjectImpl t h)"
    "GetObjectImpl t (EncodeHandle (of_nat i) l) = None"
proof -
  have len: "i < length (m_objects t)" "i < length (m_entry_infos t)"
    using assms by (auto simp: table_inv_def)
  note inv' = used_entry_inv [OF assms(1-5), of obj, folded t'_def]
  have fresh: False if "j < unat (m_table_size t)" "m_objects t ! j \<noteq> None"
      "EncodeHandle (of_nat i) l = EncodeHandle (of_nat j) (m_entry_infos t ! j)" for j
  proof -
    have "m_entry_infos t ! j \<le> MaxLinearId"
      using assms(1) that by (auto simp: table_inv_def)
    then have "i = j"
      using table_inv_handle_inj [OF assms(1,2) that(1) assms(5) _ that(3)] by simp
    then show False using that(2) assms(6) by simp
  qed
  then show none: "GetObjectImpl t (EncodeHandle (of_nat i) l) = None"
    by (metis table_inv_lookup [OF assms(1)] not_None_eq)
  have at: "m_objects t' ! j = Some ob \<and> g = EncodeHandle (of_nat j) (m_entry_infos t' ! j) \<longleftrightarrow>
      (if j = i then ob = obj \<and> g = EncodeHandle (of_nat i) l
       else m_objects t ! j = Some ob \<and> g = EncodeHandle (of_nat j) (m_entry_infos t ! j))" for j ob g
    using len by (auto simp: t'_def)
  have sz: "m_table_size t' = m_table_size t" by (simp add: t'_def)
  have "GetObjectImpl t' h = Some ob \<longleftrightarrow>
      (if h = EncodeHandle (of_nat i) l then Some obj else GetObjectImpl t h) = Some ob" for ob
    unfolding table_inv_lookup [OF inv'] at sz
    using fresh assms(2,6) by (auto simp: table_inv_lookup [OF assms(1)] split: if_splits) (metis option.distinct(1))
  then show "GetObjectImpl t' h = (if h = EncodeHandle (of_nat i) l then Some obj else GetObjectImpl t h)"
    by (rule option_eq_iff_Some)
qed

lemma AllocateLinearId_frame [frame_simps]:
  "m_entry_infos (snd (AllocateLinearId t)) = m_entry_infos t"
  "m_objects (snd (AllocateLinearId t)) = m_objects t"
  "m_table_size (snd (AllocateLinearId t)) = m_table_size t"
  "m_count (snd (AllocateLinearId t)) = m_count t"
  "fst (AllocateLinearId t) = m_next_linear_id t"
  by (simp_all add: AllocateLinearId_def Let_def)

lemma GetObjectImpl_cong:
  "m_entry_infos t' = m_entry_infos t \<Longrightarrow> m_objects t' = m_objects t \<Longrightarrow> m_table_size t' = m_table_size t \<Longrightarrow>
   GetObjectImpl t' h = GetObjectImpl t h"
  by (simp add: GetObjectImpl_def IsValidHandle_def)

lemma Add_spec:
  assumes "handle_table_wf t" "m_count t < m_table_size t"
  obtains h t' where "Add obj (t, k) = Inr (h, t', snd (Open obj k))" "handle_table_wf t'"
    "GetObjectImpl t h = None" "\<And>g. GetObjectImpl t' g = (if g = h then Some obj else GetObjectImpl t g)"
    "handle_linear_id h = ucast (m_next_linear_id t)"
    "m_next_linear_id t' = m_next_linear_id (snd (AllocateLinearId t))"
proof -
  obtain fl where fl: "table_inv t fl" using assms(1) by (auto simp: handle_table_wf_def)
  define t1 where "t1 = snd (AllocateLinearId t)"
  have t1: "table_inv t1 fl" "m_count t1 < m_table_size t1"
    using AllocateLinearId_inv [OF fl] assms(2) by (simp_all add: t1_def frame_simps)
  obtain i fl' t2 where a: "fl = i # fl'" "i < unat (m_table_size t1)" "AllocateEntry t1 = Inr (int i, t2)"
    "table_inv t2 fl'" "m_entry_infos t2 = m_entry_infos t1" "m_objects t2 = m_objects t1"
    "m_table_size t2 = m_table_size t1" "m_next_linear_id t2 = m_next_linear_id t1"
    using AllocateEntry_inv [OF t1] by metis
  have i: "i \<notin> set fl'" "m_objects t ! i = None" "i < unat (m_table_size t2)"
    using fl a by (auto simp: table_inv_def)
  have l: "MinLinearId \<le> m_next_linear_id t" "m_next_linear_id t \<le> MaxLinearId"
    using fl by (auto simp: table_inv_def)
  have o2: "m_objects t2 ! i = None" using i(2) a(6) by (simp add: t1_def frame_simps)
  define t3 where "t3 = t2\<lparr>m_entry_infos := (m_entry_infos t2)[i := m_next_linear_id t],
      m_objects := (m_objects t2)[i := Some obj]\<rparr>"
  define h where "h = EncodeHandle (of_nat i) (m_next_linear_id t)"
  have A: "Add obj (t, k) = Inr (h, t3, snd (Open obj k))"
    using a(3) assms(2) AllocateLinearId_frame(5) [of t]
    by (cases "AllocateLinearId t") (simp add: Add_def t3_def h_def t1_def)
  note lk = used_entry_lookup(1) [OF a(4) i(3,1) l o2, of obj, folded t3_def h_def]
    used_entry_lookup(2) [OF a(4) i(3,1) l o2, folded h_def]
  have same: "GetObjectImpl t2 g = GetObjectImpl t g" for g
    by (rule GetObjectImpl_cong) (simp_all add: a t1_def frame_simps)
  have "unat (of_nat i :: u16) < 2 ^ 15"
    using i(3) a(4) by (simp add: table_inv_def MaxTableSize_def unat_of_nat)
  then have "handle_linear_id h = ucast (m_next_linear_id t)"
    unfolding h_def using EncodeHandle_fields(2) linear_id_small [OF l(2)] by blast
  moreover have "handle_table_wf t3"
    using used_entry_inv [OF a(4) i(3,1) l, of obj] by (auto simp: handle_table_wf_def t3_def)
  ultimately show ?thesis
    using that [OF A] lk same by (simp add: t3_def a(8) t1_def)
qed

lemma pseudo_handle_reserved:
  assumes "IsPseudoHandle h"
  shows "handle_reserved h \<noteq> 0"
proof -
  have "bit h 30"
    using assms by (auto simp: IsPseudoHandle_def CurrentProcess_def CurrentThread_def)
  then have "bit (handle_reserved h) 0"
    by (simp add: handle_reserved_def bit_BitField_ExtractValue)
  then show ?thesis by (auto simp del: bit_0)
qed

lemma valid_handle_not_pseudo: "GetObjectImpl t h \<noteq> None \<Longrightarrow> \<not> IsPseudoHandle h"
  using pseudo_handle_reserved by (auto simp: GetObjectImpl_def)

lemma Remove_spec:
  assumes "handle_table_wf t"
  shows "case GetObjectImpl t h of
      None \<Rightarrow> Remove h (t, k) = (False, t, k)
    | Some obj \<Rightarrow> \<exists>t'. Remove h (t, k) = (True, t', Close obj (UnregisterInUseObject obj k)) \<and>
        handle_table_wf t' \<and> (\<forall>g. GetObjectImpl t' g = (if g = h then None else GetObjectImpl t g)) \<and>
        m_next_linear_id t' = m_next_linear_id t"
proof (cases "GetObjectImpl t h")
  case None
  then show ?thesis
    by (auto simp: Remove_def GetObjectImpl_def Let_def IsValidHandle_def split: if_splits)
next
  case (Some obj)
  obtain fl where fl: "table_inv t fl" using assms by (auto simp: handle_table_wf_def)
  define i where "i = unat (handle_index h)"
  note i = valid_handle_entry [OF Some, folded i_def]
  have nf: "i \<notin> set fl" using fl i(4) by (auto simp: table_inv_def)
  have R: "Remove h (t, k) = (True, FreeEntry i t, Close obj (UnregisterInUseObject obj k))"
    using i(1,2,4) valid_handle_not_pseudo [of t h] Some by (simp add: Remove_def i_def Let_def)
  have "GetObjectImpl (FreeEntry i t) g = (if g = h then None else GetObjectImpl t g)" for g
    using FreeEntry_lookup [OF fl i(3) nf, of g, folded i(5)] i(4) by (intro option_eq_iff_Some) simp
  moreover have "handle_table_wf (FreeEntry i t)"
    using FreeEntry_inv [OF fl i(3) nf] by (auto simp: handle_table_wf_def)
  ultimately show ?thesis using R Some by (simp add: FreeEntry_def)
qed

section \<open>Initialization\<close>

definition initialized :: "nat \<Rightarrow> KHandleTable \<Rightarrow> KHandleTable \<Rightarrow> bool" where
  "initialized n t s \<longleftrightarrow> length (m_entry_infos s) = 1024 \<and> length (m_objects s) = 1024 \<and>
     chain (m_entry_infos s) (m_free_head_index s) (rev [0 ..< n]) \<and> (\<forall>i < n. m_objects s ! i = None) \<and>
     m_free_head_index s = int n - 1 \<and> m_table_size s = m_table_size t \<and> m_count s = m_count t \<and>
     m_max_count s = m_max_count t \<and> m_next_linear_id s = m_next_linear_id t"

lemma init_entry_fold:
  assumes "length (m_entry_infos t) = 1024" "length (m_objects t) = 1024" "m_free_head_index t = -1"
  shows "n \<le> 1024 \<Longrightarrow> initialized n t (fold init_entry [0 ..< n] t)"
proof (induction n)
  case (Suc n)
  define s where "s = fold init_entry [0 ..< n] t"
  have IH: "initialized n t s" using Suc by (simp add: s_def)
  have "chain ((m_entry_infos s)[n := word_of_int (int n - 1)]) (int n) (n # rev [0 ..< n])"
    using IH Suc.prems by (intro chain_push) (auto simp: initialized_def)
  then have "initialized (Suc n) t (init_entry n s)"
    using IH Suc.prems by (auto simp: initialized_def init_entry_def nth_list_update less_Suc_eq)
  then show ?case by (simp add: s_def)
qed (use assms in \<open>simp add: initialized_def\<close>)

lemma Initialize_wf:
  assumes "length (m_entry_infos t) = 1024" "length (m_objects t) = 1024" "sz \<le> 1024"
  obtains t' where "Initialize sz t = Inr t'" "handle_table_wf t'" "\<And>h. GetObjectImpl t' h = None" "m_count t' = 0"
    "m_table_size t' = (if sz \<le> 0 then 1024 else word_of_int sz)" "m_next_linear_id t' = 1"
proof -
  define n where "n = (if sz \<le> 0 then 1024 else nat sz)"
  have n: "n \<le> 1024" "n > 0" using assms(3) by (auto simp: n_def)
  define t1 where "t1 = t\<lparr>m_max_count := 0, m_table_size := of_nat n, m_next_linear_id := MinLinearId,
                    m_count := 0, m_free_head_index := -1\<rparr>"
  define t' where "t' = fold init_entry [0 ..< n] t1"
  have u: "unat (of_nat n :: u16) = n" using n by (simp add: unat_of_nat)
  have I: "Initialize sz t = Inr t'"
    using assms(3) u unfolding n_def by (auto simp: Initialize_def MaxTableSize_def t'_def t1_def n_def Let_def)
  have t1: "length (m_entry_infos t1) = 1024" "length (m_objects t1) = 1024" "m_free_head_index t1 = -1"
    using assms by (simp_all add: t1_def)
  have f: "initialized n t1 t'"
    unfolding t'_def by (rule init_entry_fold [OF t1 n(1)])
  have inv: "table_inv t' (rev [0 ..< n])"
    using f u n by (auto simp: initialized_def table_inv_def MaxTableSize_def t1_def MinLinearId_def MaxLinearId_def)
  have "GetObjectImpl t' h = None" for h
    using f u by (cases "GetObjectImpl t' h") (auto simp: initialized_def table_inv_lookup [OF inv] t1_def)
  moreover have "handle_table_wf t'" using inv by (auto simp: handle_table_wf_def)
  moreover have "m_count t' = 0" "m_next_linear_id t' = 1" "m_table_size t' = (if sz \<le> 0 then 1024 else word_of_int sz)"
    using f by (auto simp: initialized_def t1_def MinLinearId_def n_def)
  ultimately show ?thesis using that [OF I] by blast
qed

section \<open>The interface\<close>

text \<open>
  A handle space: handles come from \<open>add\<close> with consecutive serial numbers modulo a period.
\<close>

locale handle_space =
  fixes wf :: "'s \<Rightarrow> bool"
    and lookup :: "'s \<Rightarrow> 'h \<Rightarrow> 'o option"
    and add :: "'o \<Rightarrow> 's \<Rightarrow> ('h \<times> 's) option"
    and remove :: "'h \<Rightarrow> 's \<Rightarrow> 's"
    and serial :: "'s \<Rightarrow> nat"
    and serial_of :: "'h \<Rightarrow> nat"
    and period :: nat
  assumes period_pos: "0 < period"
    and add_wf: "wf s \<Longrightarrow> add x s = Some (h, s') \<Longrightarrow> wf s'"
    and add_lookup: "wf s \<Longrightarrow> add x s = Some (h, s') \<Longrightarrow> lookup s' g = (if g = h then Some x else lookup s g)"
    and add_fresh: "wf s \<Longrightarrow> add x s = Some (h, s') \<Longrightarrow> lookup s h = None"
    and add_serial: "wf s \<Longrightarrow> add x s = Some (h, s') \<Longrightarrow> serial_of h = serial s \<and> serial s' = Suc (serial s) mod period"
    and remove_wf: "wf s \<Longrightarrow> wf (remove h s)"
    and remove_lookup: "wf s \<Longrightarrow> lookup (remove h s) g = (if g = h then None else lookup s g)"
    and remove_serial: "wf s \<Longrightarrow> serial (remove h s) = serial s"
begin

text \<open>Runs of additions and removals, counting the additions.\<close>

inductive run :: "nat \<Rightarrow> 's \<Rightarrow> 's \<Rightarrow> bool" where
  run_refl: "run 0 s s"
| run_add: "run n s s1 \<Longrightarrow> add x s1 = Some (h, s2) \<Longrightarrow> run (Suc n) s s2"
| run_remove: "run n s s1 \<Longrightarrow> run n s (remove h s1)"

lemma run_wf_serial:
  assumes "run n s s'" "wf s" "serial s < period"
  shows "wf s' \<and> serial s' = (serial s + n) mod period"
  using assms
proof (induction rule: run.induct)
  case (run_add n s s1 x h s2)
  then show ?case
    using add_wf add_serial by (metis add_Suc_right mod_Suc_eq)
qed (auto simp: remove_wf remove_serial)

lemma no_reuse:
  assumes "wf s0" "serial s0 < period" "add x s0 = Some (h, s)" "run n s s'" "n < period"
  shows "lookup s' h = None \<or> lookup s' h = Some x"
proof -
  have s: "wf s" "serial s = Suc (serial s0) mod period" "serial_of h = serial s0" "lookup s h = Some x"
    using add_wf add_serial add_lookup assms(1,3) by auto
  have "n < period \<longrightarrow> lookup s' h = None \<or> lookup s' h = Some x"
    using assms(4) s(1,2,4)
  proof (induction rule: run.induct)
    case (run_add n s s1 y h' s2)
    have s1: "wf s1" "serial s1 = (Suc (serial s0) + n) mod period"
      using run_wf_serial [OF run_add.hyps(1)] run_add.prems period_pos by (auto simp: mod_simps)
    have "h' \<noteq> h" if "Suc n < period"
    proof
      assume "h' = h"
      then have "serial s0 mod period = (serial s0 + Suc n) mod period"
        using add_serial [OF s1(1) run_add.hyps(2)] s(3) s1(2) assms(2) by simp
      then have "period dvd Suc n"
        by (metis add_diff_cancel_left' mod_eq_dvd_iff_nat le_add1)
      then show False using that by (auto dest: dvd_imp_le)
    qed
    then show ?case
      using run_add add_lookup [OF s1(1) run_add.hyps(2)] by auto
  next
    case (run_remove n s s1 g)
    then have "wf s1" using run_wf_serial period_pos by auto
    then show ?case using run_remove remove_lookup by auto
  qed simp
  then show ?thesis using assms(5) by blast
qed

end

definition table_lookup :: "KHandleTable \<times> KernelCore \<Rightarrow> u32 \<Rightarrow> KAutoObject option" where
  "table_lookup s h = GetObjectImpl (fst s) h"

definition table_add :: "KAutoObject \<Rightarrow> KHandleTable \<times> KernelCore \<Rightarrow> (u32 \<times> KHandleTable \<times> KernelCore) option" where
  "table_add obj s = (case Add obj s of Inl _ \<Rightarrow> None | Inr r \<Rightarrow> Some r)"

definition next_serial :: "KHandleTable \<times> KernelCore \<Rightarrow> nat" where
  "next_serial s = unat (m_next_linear_id (fst s)) - 1"

definition handle_serial :: "u32 \<Rightarrow> nat" where
  "handle_serial h = unat (handle_linear_id h) - 1"

lemma table_add_Some:
  assumes "handle_table_wf (fst s)" "table_add obj s = Some (h, s')"
  shows "handle_table_wf (fst s') \<and> GetObjectImpl (fst s) h = None \<and>
    (\<forall>g. GetObjectImpl (fst s') g = (if g = h then Some obj else GetObjectImpl (fst s) g)) \<and>
    handle_serial h = next_serial s \<and> next_serial s' = Suc (next_serial s) mod 0x7FFF"
proof -
  obtain t k where s: "s = (t, k)" by (cases s)
  have full: "m_count t < m_table_size t"
    using assms(2) by (auto simp: s table_add_def Add_def split: if_splits)
  obtain h1 t1 where a: "Add obj (t, k) = Inr (h1, t1, snd (Open obj k))" "handle_table_wf t1"
    "GetObjectImpl t h1 = None" "\<And>g. GetObjectImpl t1 g = (if g = h1 then Some obj else GetObjectImpl t g)"
    "handle_linear_id h1 = ucast (m_next_linear_id t)"
    "m_next_linear_id t1 = m_next_linear_id (snd (AllocateLinearId t))"
    using Add_spec [of t] assms(1) full by (metis s fst_conv)
  have "h = h1" "fst s' = t1" using assms(2) a(1) by (auto simp: s table_add_def)
  moreover have "1 \<le> unat (m_next_linear_id t)" "unat (m_next_linear_id t) \<le> 0x7FFF"
    using assms(1) by (auto simp: s handle_table_wf_def table_inv_def MinLinearId_def MaxLinearId_def word_le_nat_alt)
  moreover have "unat (m_next_linear_id t1) = (if unat (m_next_linear_id t) = 0x7FFF then 1 else unat (m_next_linear_id t) + 1)"
    unfolding a(6) using assms(1)
    by (intro AllocateLinearId_range(3)) (auto simp: s handle_table_wf_def table_inv_def)
  ultimately show ?thesis
    using a by (auto simp: s handle_serial_def next_serial_def)
qed

lemma table_remove:
  assumes "handle_table_wf (fst s)"
  shows "handle_table_wf (fst (snd (Remove h s))) \<and>
    GetObjectImpl (fst (snd (Remove h s))) g = (if g = h then None else GetObjectImpl (fst s) g) \<and>
    next_serial (snd (Remove h s)) = next_serial s"
  using Remove_spec [OF assms, of h "snd s"] assms
  by (auto simp: next_serial_def split: option.splits)

interpretation hs: handle_space "\<lambda>s. handle_table_wf (fst s)" table_lookup table_add "\<lambda>h s. snd (Remove h s)"
  next_serial handle_serial "0x7FFF"
  by unfold_locales (auto simp: table_lookup_def dest: table_add_Some simp: table_remove)

end
