(* ===== verification/HandleTable_Use.thy ===== *)
theory HandleTable_Use
  imports HandleTable_Laws
begin

text \<open>
  What the users of a handle table rely on: additions and removals act like updates of a map,
  handles are not reused within a period of serial numbers, and looking up several objects at once
  is all or nothing.
\<close>

section \<open>Reference counts\<close>

definition raised :: "KAutoObject list \<Rightarrow> KernelCore \<Rightarrow> KernelCore" where
  "raised objs k = k\<lparr>m_ref_count := \<lambda>obj. m_ref_count k obj + of_nat (count_list objs obj)\<rparr>"

definition room :: "nat \<Rightarrow> KernelCore \<Rightarrow> KAutoObject \<Rightarrow> bool" where
  "room n k obj \<longleftrightarrow> m_ref_count k obj \<noteq> 0 \<and> unat (m_ref_count k obj) + n < 2 ^ 32"

lemma raised_Nil [simp]: "raised [] k = k"
  by (simp add: raised_def)

lemma unat_raised_count:
  assumes "room n k obj" "c \<le> n"
  shows "unat (m_ref_count k obj + of_nat c) = unat (m_ref_count k obj) + c"
  using assms by (simp add: room_def unat_word_ariths unat_of_nat)

lemma raised_count_nonzero:
  assumes "room n k obj" "c \<le> n"
  shows "m_ref_count k obj + of_nat c \<noteq> 0"
proof
  assume "m_ref_count k obj + of_nat c = 0"
  then have "unat (m_ref_count k obj) + c = 0"
    using unat_raised_count [OF assms] by (metis unat_0)
  then show False using assms(1) by (auto simp: room_def unat_eq_zero)
qed

lemma Open_raised:
  assumes "room n k obj" "length objs \<le> n"
  shows "snd (Open obj (raised objs k)) = raised (objs @ [obj]) k"
proof -
  have "count_list objs obj \<le> n" using assms(2) count_le_length [of objs obj] by simp
  then have "m_ref_count (raised objs k) obj \<noteq> 0"
    using raised_count_nonzero [OF assms(1)] by (simp add: raised_def)
  then show ?thesis
    by (simp add: Open_positive) (auto simp: raised_def fun_eq_iff)
qed

lemma Close_raised:
  assumes "room n k obj" "length objs < n"
  shows "Close obj (raised (obj # objs) k) = raised objs k"
proof -
  have c: "Suc (count_list objs obj) \<le> n" using assms(2) count_le_length [of objs obj] by simp
  let ?r = "m_ref_count (raised (obj # objs) k) obj"
  have "?r = m_ref_count k obj + of_nat (Suc (count_list objs obj))"
    by (simp add: raised_def)
  moreover have "\<dots> \<noteq> 0"
    by (rule raised_count_nonzero [OF assms(1) c])
  moreover have "?r - 1 = m_ref_count k obj + of_nat (count_list objs obj)"
    by (simp add: raised_def)
  moreover have "m_ref_count k obj + of_nat (count_list objs obj) \<noteq> 0"
    using raised_count_nonzero [OF assms(1)] c by simp
  ultimately have "?r \<noteq> 0" "?r \<noteq> 1" "?r - 1 = m_ref_count k obj + of_nat (count_list objs obj)"
    by auto
  then show ?thesis
    by (simp add: Close_def Let_def) (auto simp: raised_def fun_eq_iff)
qed

lemma fold_Close_raised:
  "\<forall>obj \<in> set objs. room n k obj \<Longrightarrow> length objs \<le> n \<Longrightarrow> fold Close objs (raised objs k) = k"
  by (induction objs) (auto simp: Close_raised)

section \<open>Several objects at once\<close>

definition resolve :: "u16 \<Rightarrow> KHandleTable \<Rightarrow> KernelCore \<Rightarrow> u32 \<Rightarrow> KAutoObject option" where
  "resolve token t k h = Option.bind (GetObjectImpl t h) (DynamicCast token k)"

lemma resolve_raised [simp]: "resolve token t (raised objs k) h = resolve token t k h"
  by (cases "GetObjectImpl t h") (simp_all add: resolve_def raised_def DynamicCast_def)

lemma open_objects_spec:
  assumes "\<forall>h \<in> set handles. \<forall>obj. GetObjectImpl t h = Some obj \<longrightarrow> room n k obj"
    and "length out + length handles \<le> n"
  shows "\<exists>objs. open_objects token t handles out (raised out k) =
      (list_all (\<lambda>h. resolve token t k h \<noteq> None) handles, out @ objs, raised (out @ objs) k) \<and>
    map Some objs = takeWhile (\<lambda>r. r \<noteq> None) (map (resolve token t k) handles) \<and>
    (\<forall>obj \<in> set objs. room n k obj) \<and> length objs \<le> length handles"
  using assms
proof (induction handles arbitrary: out)
  case (Cons h handles)
  show ?case
  proof (cases "resolve token t k h")
    case None
    then have "resolve token t (raised out k) h = None" by simp
    then have "open_objects token t (h # handles) out (raised out k) = (False, out, raised out k)"
      by (auto simp: resolve_def split: option.splits bind_splits)
    then show ?thesis using None by (intro exI [of _ "[]"]) simp
  next
    case (Some obj)
    then have "resolve token t (raised out k) h = Some obj" by simp
    then obtain ob where ob: "GetObjectImpl t h = Some ob" "DynamicCast token (raised out k) ob = Some obj"
      by (auto simp: resolve_def split: bind_splits)
    have "ob = obj" using ob(2) by (simp add: DynamicCast_def split: if_splits)
    then have room: "room n k obj" using Cons.prems(1) ob(1) by auto
    have step: "open_objects token t (h # handles) out (raised out k) =
        open_objects token t handles (out @ [obj]) (raised (out @ [obj]) k)"
      using ob Open_raised [OF room, of out] Cons.prems(2) by simp
    obtain objs where o: "open_objects token t handles (out @ [obj]) (raised (out @ [obj]) k) =
        (list_all (\<lambda>h. resolve token t k h \<noteq> None) handles, (out @ [obj]) @ objs, raised ((out @ [obj]) @ objs) k)"
      "map Some objs = takeWhile (\<lambda>r. r \<noteq> None) (map (resolve token t k) handles)"
      "\<forall>obj \<in> set objs. room n k obj" "length objs \<le> length handles"
      using Cons.IH [of "out @ [obj]"] Cons.prems by auto
    show ?thesis
      unfolding step o(1) using Some o(2-4) room by (intro exI [of _ "obj # objs"]) simp
  qed
qed simp

section \<open>Properties\<close>

text \<open>
  C33. Adding an object: on a well-formed table with a free entry \<^verbatim>\<open>Add\<close> opens the object and returns a
  handle that was not valid before; afterwards this handle denotes the object, every other handle
  denotes what it did, and the table is well-formed. On a full table it reports that there are no
  handles left, and it never accesses an entry outside the table.
\<close>

theorem Add_extends_table:
  assumes "handle_table_wf t"
  shows "if m_count t < m_table_size t
    then \<exists>h t'. Add obj (t, k) = Inr (h, t', snd (Open obj k)) \<and> handle_table_wf t' \<and> GetObjectImpl t h = None \<and>
      (\<forall>g. GetObjectImpl t' g = (if g = h then Some obj else GetObjectImpl t g))
    else Add obj (t, k) = Inl ResultOutOfHandles"
proof (cases "m_count t < m_table_size t")
  case True
  then show ?thesis using Add_spec [OF assms True, of obj k] by metis
next
  case False
  then show ?thesis by (simp add: Add_def)
qed

text \<open>
  C34. Removing a handle: \<^verbatim>\<open>Remove\<close> succeeds exactly on the valid handles; it then closes the object
  once, makes this handle and no other invalid, and keeps the table well-formed. On any other
  handle, pseudo-handles and handles with reserved bits included, it changes nothing.
\<close>

theorem Remove_shrinks_table:
  assumes "handle_table_wf t"
  shows "case GetObjectImpl t h of
      None \<Rightarrow> Remove h (t, k) = (False, t, k)
    | Some obj \<Rightarrow> \<exists>t'. Remove h (t, k) = (True, t', Close obj (UnregisterInUseObject obj k)) \<and>
        handle_table_wf t' \<and> (\<forall>g. GetObjectImpl t' g = (if g = h then None else GetObjectImpl t g))"
  using Remove_spec [OF assms, of h k] by (auto split: option.splits)

lemma table_inv_nonempty: "table_inv t fl \<Longrightarrow> fl \<noteq> [] \<Longrightarrow> m_count t < m_table_size t"
  by (cases fl) (simp_all add: table_inv_def word_less_nat_alt)

definition demo_table :: KHandleTable where
  "demo_table = (case Initialize 4 new_KHandleTable of Inl _ \<Rightarrow> new_KHandleTable | Inr t \<Rightarrow> t)"

definition demo_kernel :: KernelCore where
  "demo_kernel = \<lparr>m_ref_count = (\<lambda>_. 1), m_class_token = (\<lambda>_. 3), registered_objects = {7, 8},
     registered_in_use_objects = {}, destroyed = []\<rparr>"

lemma demo_table_facts:
  "handle_table_wf demo_table" "m_count demo_table < m_table_size demo_table" "GetObjectImpl demo_table h = None"
proof -
  have "length (m_entry_infos new_KHandleTable) = 1024" "length (m_objects new_KHandleTable) = 1024"
    by (simp_all add: new_KHandleTable_def MaxTableSize_def)
  then obtain t' where t': "Initialize 4 new_KHandleTable = Inr t'" "handle_table_wf t'"
      "\<And>h. GetObjectImpl t' h = None" "m_count t' = 0" "m_table_size t' = 4"
    using Initialize_wf [of new_KHandleTable 4] by auto
  then have "demo_table = t'" by (simp add: demo_table_def)
  then show "handle_table_wf demo_table" "m_count demo_table < m_table_size demo_table"
    "GetObjectImpl demo_table h = None" using t'(2-5) by auto
qed

lemma demo_add:
  obtains h t where "Add 7 (demo_table, demo_kernel) = Inr (h, t, snd (Open 7 demo_kernel))" "handle_table_wf t"
    "GetObjectImpl t h = Some 7"
  using Add_spec [OF demo_table_facts(1,2), of 7 demo_kernel] by metis

theorem Add_extends_table_witness:
  "handle_table_wf demo_table \<and> m_count demo_table < m_table_size demo_table \<and>
   (\<exists>h t'. Add 7 (demo_table, demo_kernel) = Inr (h, t', snd (Open 7 demo_kernel)) \<and> GetObjectImpl t' h = Some 7)"
  using Add_extends_table [OF demo_table_facts(1), of 7 demo_kernel] demo_table_facts(1,2) by auto

theorem Remove_shrinks_table_witness:
  "\<exists>h t k t'. handle_table_wf t \<and> GetObjectImpl t h = Some 7 \<and>
     Remove h (t, k) = (True, t', Close 7 (UnregisterInUseObject 7 k)) \<and> GetObjectImpl t' h = None"
proof -
  obtain h t where a: "handle_table_wf t" "GetObjectImpl t h = Some 7" using demo_add by metis
  then obtain t' where "Remove h (t, demo_kernel) = (True, t', Close 7 (UnregisterInUseObject 7 demo_kernel))"
      "\<forall>g. GetObjectImpl t' g = (if g = h then None else GetObjectImpl t g)"
    using Remove_shrinks_table [OF a(1), of h demo_kernel] by auto
  then show ?thesis using a by metis
qed

inductive handle_run :: "nat \<Rightarrow> KHandleTable \<times> KernelCore \<Rightarrow> KHandleTable \<times> KernelCore \<Rightarrow> bool" where
  handle_run_refl: "handle_run 0 s s"
| handle_run_add: "handle_run n s s1 \<Longrightarrow> Add obj s1 = Inr (h, s2) \<Longrightarrow> handle_run (Suc n) s s2"
| handle_run_remove: "handle_run n s s1 \<Longrightarrow> handle_run n s (snd (Remove h s1))"

lemma handle_run_is_run: "handle_run n s s' \<Longrightarrow> hs.run n s s'"
proof (induction rule: handle_run.induct)
  case (handle_run_add n s s1 obj h s2)
  then have "table_add obj s1 = Some (h, s2)" by (simp add: table_add_def)
  then show ?case using handle_run_add.IH hs.run_add by blast
qed (auto intro: hs.run.intros)

text \<open>
  C17. A handle is not recycled: from the moment it is handed out, through any sequence of further
  additions and removals with at most 0x7FFE additions, it denotes the object it was made for or
  nothing at all. The linear ids make stale handles detectable until they wrap around.
\<close>

theorem handle_not_recycled:
  assumes "handle_table_wf t" "Add obj (t, k) = Inr (h, s)" "handle_run n s s'" "n \<le> 0x7FFE"
  shows "GetObjectImpl (fst s') h = None \<or> GetObjectImpl (fst s') h = Some obj"
proof -
  have "next_serial (t, k) < 0x7FFF"
    using assms(1) by (auto simp: next_serial_def handle_table_wf_def table_inv_def MinLinearId_def MaxLinearId_def
        word_le_nat_alt)
  moreover have "table_add obj (t, k) = Some (h, s)"
    using assms(2) by (simp add: table_add_def)
  ultimately show ?thesis
    using hs.no_reuse [of "(t, k)" obj h s n s'] handle_run_is_run [OF assms(3)] assms(1,4)
    by (simp add: table_lookup_def)
qed

theorem handle_not_recycled_witness:
  "\<exists>h s s'. Add 7 (demo_table, demo_kernel) = Inr (h, s) \<and> handle_run 1 s s' \<and> GetObjectImpl (fst s') h \<noteq> Some 8"
proof -
  obtain h t where a: "Add 7 (demo_table, demo_kernel) = Inr (h, t, snd (Open 7 demo_kernel))" "handle_table_wf t"
    "GetObjectImpl t h = Some 7" by (rule demo_add)
  define s where "s = (t, snd (Open 7 demo_kernel))"
  have "handle_run 0 s (snd (Remove h s))"
    by (intro handle_run.intros)
  moreover have "\<exists>h' s'. Add 8 (snd (Remove h s)) = Inr (h', s')"
  proof -
    obtain fl where fl: "table_inv t fl" using a(2) by (auto simp: handle_table_wf_def)
    note e = valid_handle_entry [OF a(3)]
    have nf: "unat (handle_index h) \<notin> set fl" using fl e(4) by (auto simp: table_inv_def)
    have r: "fst (snd (Remove h s)) = FreeEntry (unat (handle_index h)) t"
      using valid_handle_not_pseudo [of t h] a(3) e(1,2,4) by (simp add: Remove_def s_def Let_def)
    have "table_inv (fst (snd (Remove h s))) (unat (handle_index h) # fl)"
      unfolding r by (rule FreeEntry_inv [OF fl e(3) nf])
    then show ?thesis
      using Add_spec [of "fst (snd (Remove h s))" 8 "snd (snd (Remove h s))"]
      by (metis handle_table_wf_def table_inv_nonempty prod.collapse list.distinct(1))
  qed
  ultimately obtain s' where run: "handle_run 1 s s'"
    by (metis One_nat_def handle_run_add)
  then show ?thesis
    using handle_not_recycled [OF demo_table_facts(1) a(1) [folded s_def] run] a(1) [folded s_def]
    by (intro exI [of _ h] exI [of _ s] exI [of _ s']) auto
qed

text \<open>
  C18. Looking up several objects is all or nothing: \<^verbatim>\<open>GetMultipleObjects\<close> either resolves every handle
  to an object of the wanted class, in order, and raises the reference count of each object by the
  number of its handles, or it finds a handle that does not resolve and leaves the kernel exactly
  as it was, provided the objects in the table are alive and their counts do not overflow.
\<close>

theorem GetMultipleObjects_all_or_nothing:
  assumes "\<forall>h \<in> set handles. \<forall>obj. GetObjectImpl t h = Some obj \<longrightarrow> room (length handles) k obj"
  shows "case GetMultipleObjects token t handles k of
      (Some objs, k') \<Rightarrow> map (resolve token t k) handles = map Some objs \<and> k' = raised objs k
    | (None, k') \<Rightarrow> (\<exists>h \<in> set handles. resolve token t k h = None) \<and> k' = k"
proof -
  obtain objs where o: "open_objects token t handles [] k =
      (list_all (\<lambda>h. resolve token t k h \<noteq> None) handles, objs, raised objs k)"
    "map Some objs = takeWhile (\<lambda>r. r \<noteq> None) (map (resolve token t k) handles)"
    "\<forall>obj \<in> set objs. room (length handles) k obj" "length objs \<le> length handles"
    using open_objects_spec [OF assms, of "[]" token] by auto
  show ?thesis
  proof (cases "list_all (\<lambda>h. resolve token t k h \<noteq> None) handles")
    case True
    then have "map Some objs = map (resolve token t k) handles"
      unfolding o(2) by (auto simp: list_all_iff takeWhile_eq_all_conv)
    then show ?thesis using o(1) True by (simp add: GetMultipleObjects_def)
  next
    case False
    then show ?thesis
      using o fold_Close_raised [OF o(3,4)] by (auto simp: GetMultipleObjects_def list_all_iff)
  qed
qed

theorem GetMultipleObjects_all_or_nothing_witness:
  "\<exists>h t k. Add 7 (demo_table, demo_kernel) = Inr (h, t, k) \<and>
     GetMultipleObjects 1 t [h, h] k = (Some [7, 7], raised [7, 7] k) \<and>
     GetMultipleObjects 4 t [h, h] k = (None, k)"
proof -
  obtain h t where a: "Add 7 (demo_table, demo_kernel) = Inr (h, t, snd (Open 7 demo_kernel))" "handle_table_wf t"
    "GetObjectImpl t h = Some 7" by (rule demo_add)
  define k where "k = snd (Open 7 demo_kernel)"
  have room: "\<forall>h' \<in> set [h, h]. \<forall>obj. GetObjectImpl t h' = Some obj \<longrightarrow> room (length [h, h]) k obj"
    using a(3) by (simp add: k_def room_def Open_def demo_kernel_def)
  have r: "resolve 1 t k h = Some 7" "resolve 4 t k h = None"
    using a(3) by (simp_all add: resolve_def DynamicCast_def IsClassTokenDerivedFrom_def k_def Open_def demo_kernel_def)
  have "GetMultipleObjects 1 t [h, h] k = (Some [7, 7], raised [7, 7] k)"
    using GetMultipleObjects_all_or_nothing [OF room, of 1] r(1) by (auto split: prod.splits option.splits)
  moreover have "GetMultipleObjects 4 t [h, h] k = (None, k)"
    using GetMultipleObjects_all_or_nothing [OF room, of 4] r(2) by (auto split: prod.splits option.splits)
  ultimately show ?thesis using a(1) k_def by blast
qed

end
