(* ===== verification/MemoryBlock.thy ===== *)
theory MemoryBlock
  imports Prelude
begin

text \<open>
  The memory blocks of a process address space, \<^verbatim>\<open>core/hle/kernel/k_memory_block.h\<close>: states,
  permissions and attributes as the 32-bit and 8-bit flag words of the code, a block with its lock
  and merge counters, and the operations on one block. Assertions are soft in the code and have no
  effect here.
\<close>

section \<open>States\<close>

datatype KMemoryState_name =
    State_Free | State_IoMemory | State_IoRegister | State_Static | State_Code | State_CodeData | State_Normal
  | State_Shared | State_AliasCode | State_AliasCodeData | State_Ipc | State_Stack | State_ThreadLocal
  | State_Transferred | State_SharedTransferred | State_SharedCode | State_Inaccessible | State_NonSecureIpc
  | State_NonDeviceIpc | State_Kernel | State_GeneratedCode | State_CodeOut | State_Coverage | State_Insecure

definition FlagCanReprotect :: u32 where "FlagCanReprotect = push_bit 8 1"
definition FlagCanDebug :: u32 where "FlagCanDebug = push_bit 9 1"
definition FlagCanUseIpc :: u32 where "FlagCanUseIpc = push_bit 10 1"
definition FlagCanUseNonDeviceIpc :: u32 where "FlagCanUseNonDeviceIpc = push_bit 11 1"
definition FlagCanUseNonSecureIpc :: u32 where "FlagCanUseNonSecureIpc = push_bit 12 1"
definition FlagMapped :: u32 where "FlagMapped = push_bit 13 1"
definition FlagCode :: u32 where "FlagCode = push_bit 14 1"
definition FlagCanAlias :: u32 where "FlagCanAlias = push_bit 15 1"
definition FlagCanCodeAlias :: u32 where "FlagCanCodeAlias = push_bit 16 1"
definition FlagCanTransfer :: u32 where "FlagCanTransfer = push_bit 17 1"
definition FlagCanQueryPhysical :: u32 where "FlagCanQueryPhysical = push_bit 18 1"
definition FlagCanDeviceMap :: u32 where "FlagCanDeviceMap = push_bit 19 1"
definition FlagCanAlignedDeviceMap :: u32 where "FlagCanAlignedDeviceMap = push_bit 20 1"
definition FlagCanIpcUserBuffer :: u32 where "FlagCanIpcUserBuffer = push_bit 21 1"
definition FlagReferenceCounted :: u32 where "FlagReferenceCounted = push_bit 22 1"
definition FlagCanMapProcess :: u32 where "FlagCanMapProcess = push_bit 23 1"
definition FlagCanChangeAttribute :: u32 where "FlagCanChangeAttribute = push_bit 24 1"
definition FlagCanCodeMemory :: u32 where "FlagCanCodeMemory = push_bit 25 1"
definition FlagLinearMapped :: u32 where "FlagLinearMapped = push_bit 26 1"
definition FlagCanPermissionLock :: u32 where "FlagCanPermissionLock = push_bit 27 1"

definition FlagsData :: u32 where
  "FlagsData = FlagCanReprotect OR FlagCanUseIpc OR FlagCanUseNonDeviceIpc OR FlagCanUseNonSecureIpc OR
     FlagMapped OR FlagCanAlias OR FlagCanTransfer OR FlagCanQueryPhysical OR FlagCanDeviceMap OR
     FlagCanAlignedDeviceMap OR FlagCanIpcUserBuffer OR FlagReferenceCounted OR FlagCanChangeAttribute OR
     FlagLinearMapped"

definition FlagsCode :: u32 where
  "FlagsCode = FlagCanDebug OR FlagCanUseIpc OR FlagCanUseNonDeviceIpc OR FlagCanUseNonSecureIpc OR FlagMapped OR
     FlagCode OR FlagCanQueryPhysical OR FlagCanDeviceMap OR FlagCanAlignedDeviceMap OR FlagReferenceCounted OR
     FlagLinearMapped"

definition FlagsMisc :: u32 where
  "FlagsMisc = FlagMapped OR FlagReferenceCounted OR FlagCanQueryPhysical OR FlagCanDeviceMap OR FlagLinearMapped"

fun KMemoryState :: "KMemoryState_name \<Rightarrow> u32" where
  "KMemoryState State_Free = 0x00"
| "KMemoryState State_IoMemory = 0x01 OR FlagMapped OR FlagCanDeviceMap OR FlagCanAlignedDeviceMap"
| "KMemoryState State_IoRegister = 0x01 OR FlagCanDeviceMap OR FlagCanAlignedDeviceMap"
| "KMemoryState State_Static = 0x02 OR FlagMapped OR FlagCanQueryPhysical"
| "KMemoryState State_Code = 0x03 OR FlagsCode OR FlagCanMapProcess"
| "KMemoryState State_CodeData =
     0x04 OR FlagsData OR FlagCanMapProcess OR FlagCanCodeMemory OR FlagCanPermissionLock"
| "KMemoryState State_Normal = 0x05 OR FlagsData OR FlagCanCodeMemory"
| "KMemoryState State_Shared = 0x06 OR FlagMapped OR FlagReferenceCounted OR FlagLinearMapped"
| "KMemoryState State_AliasCode = 0x08 OR FlagsCode OR FlagCanMapProcess OR FlagCanCodeAlias"
| "KMemoryState State_AliasCodeData =
     0x09 OR FlagsData OR FlagCanMapProcess OR FlagCanCodeAlias OR FlagCanCodeMemory OR FlagCanPermissionLock"
| "KMemoryState State_Ipc =
     0x0A OR FlagsMisc OR FlagCanAlignedDeviceMap OR FlagCanUseIpc OR FlagCanUseNonSecureIpc OR FlagCanUseNonDeviceIpc"
| "KMemoryState State_Stack =
     0x0B OR FlagsMisc OR FlagCanAlignedDeviceMap OR FlagCanUseIpc OR FlagCanUseNonSecureIpc OR FlagCanUseNonDeviceIpc"
| "KMemoryState State_ThreadLocal = 0x0C OR FlagLinearMapped"
| "KMemoryState State_Transferred =
     0x0D OR FlagsMisc OR FlagCanAlignedDeviceMap OR FlagCanChangeAttribute OR FlagCanUseIpc OR
     FlagCanUseNonSecureIpc OR FlagCanUseNonDeviceIpc"
| "KMemoryState State_SharedTransferred =
     0x0E OR FlagsMisc OR FlagCanAlignedDeviceMap OR FlagCanUseNonSecureIpc OR FlagCanUseNonDeviceIpc"
| "KMemoryState State_SharedCode =
     0x0F OR FlagMapped OR FlagReferenceCounted OR FlagLinearMapped OR FlagCanUseNonSecureIpc OR FlagCanUseNonDeviceIpc"
| "KMemoryState State_Inaccessible = 0x10"
| "KMemoryState State_NonSecureIpc =
     0x11 OR FlagsMisc OR FlagCanAlignedDeviceMap OR FlagCanUseNonSecureIpc OR FlagCanUseNonDeviceIpc"
| "KMemoryState State_NonDeviceIpc = 0x12 OR FlagsMisc OR FlagCanUseNonDeviceIpc"
| "KMemoryState State_Kernel = 0x13"
| "KMemoryState State_GeneratedCode =
     0x14 OR FlagMapped OR FlagReferenceCounted OR FlagCanDebug OR FlagLinearMapped"
| "KMemoryState State_CodeOut = 0x15 OR FlagMapped OR FlagReferenceCounted OR FlagLinearMapped"
| "KMemoryState State_Coverage = 0x16 OR FlagMapped"
| "KMemoryState State_Insecure =
     0x17 OR FlagMapped OR FlagReferenceCounted OR FlagLinearMapped OR FlagCanChangeAttribute OR FlagCanDeviceMap OR
     FlagCanAlignedDeviceMap OR FlagCanQueryPhysical OR FlagCanUseNonSecureIpc OR FlagCanUseNonDeviceIpc"

lemmas flag_defs =
  FlagCanReprotect_def FlagCanDebug_def FlagCanUseIpc_def FlagCanUseNonDeviceIpc_def FlagCanUseNonSecureIpc_def
  FlagMapped_def FlagCode_def FlagCanAlias_def FlagCanCodeAlias_def FlagCanTransfer_def FlagCanQueryPhysical_def
  FlagCanDeviceMap_def FlagCanAlignedDeviceMap_def FlagCanIpcUserBuffer_def FlagReferenceCounted_def
  FlagCanMapProcess_def FlagCanChangeAttribute_def FlagCanCodeMemory_def FlagLinearMapped_def
  FlagCanPermissionLock_def FlagsData_def FlagsCode_def FlagsMisc_def

text \<open>The static assertions of the header.\<close>

lemma KMemoryState_values:
  "map KMemoryState [State_Free, State_IoMemory, State_IoRegister, State_Static, State_Code, State_CodeData,
     State_Normal, State_Shared] =
   [0x00000000, 0x00182001, 0x00180001, 0x00042002, 0x04DC7E03, 0x0FFEBD04, 0x077EBD05, 0x04402006]"
  "map KMemoryState [State_AliasCode, State_AliasCodeData, State_Ipc, State_Stack, State_ThreadLocal,
     State_Transferred, State_SharedTransferred, State_SharedCode] =
   [0x04DD7E08, 0x0FFFBD09, 0x045C3C0A, 0x045C3C0B, 0x0400000C, 0x055C3C0D, 0x045C380E, 0x0440380F]"
  "map KMemoryState [State_Inaccessible, State_NonSecureIpc, State_NonDeviceIpc, State_Kernel,
     State_GeneratedCode, State_CodeOut, State_Coverage, State_Insecure] =
   [0x00000010, 0x045C3811, 0x044C2812, 0x00000013, 0x04402214, 0x04402015, 0x00002016, 0x055C3817]"
  by (simp_all add: flag_defs)

section \<open>Permissions and attributes\<close>

definition SvcPermission_Read :: u8 where "SvcPermission_Read = 1"
definition SvcPermission_Write :: u8 where "SvcPermission_Write = 2"
definition SvcPermission_Execute :: u8 where "SvcPermission_Execute = 4"

definition Permission_KernelShift :: nat where "Permission_KernelShift = 3"
definition Permission_KernelRead :: u8 where "Permission_KernelRead = push_bit Permission_KernelShift SvcPermission_Read"
definition Permission_KernelWrite :: u8 where "Permission_KernelWrite = push_bit Permission_KernelShift SvcPermission_Write"
definition Permission_NotMapped :: u8 where "Permission_NotMapped = push_bit (2 * Permission_KernelShift) 1"
definition Permission_UserRead :: u8 where "Permission_UserRead = SvcPermission_Read OR Permission_KernelRead"
definition Permission_UserWrite :: u8 where "Permission_UserWrite = SvcPermission_Write OR Permission_KernelWrite"
definition Permission_UserExecute :: u8 where "Permission_UserExecute = SvcPermission_Execute"
definition Permission_UserReadWrite :: u8 where "Permission_UserReadWrite = Permission_UserRead OR Permission_UserWrite"
definition Permission_UserMask :: u8 where
  "Permission_UserMask = SvcPermission_Read OR SvcPermission_Write OR SvcPermission_Execute"
definition IpcLockChangeMask :: u8 where "IpcLockChangeMask = Permission_NotMapped OR Permission_UserReadWrite"

lemmas permission_defs =
  SvcPermission_Read_def SvcPermission_Write_def SvcPermission_Execute_def Permission_KernelShift_def
  Permission_KernelRead_def Permission_KernelWrite_def Permission_NotMapped_def Permission_UserRead_def
  Permission_UserWrite_def Permission_UserExecute_def Permission_UserReadWrite_def Permission_UserMask_def IpcLockChangeMask_def

definition ConvertToKMemoryPermission :: "u32 \<Rightarrow> u8" where
  "ConvertToKMemoryPermission perm =
     (ucast perm AND Permission_UserMask) OR Permission_KernelRead OR
     push_bit Permission_KernelShift (ucast perm AND Permission_UserWrite) OR
     (if perm = 0 then Permission_NotMapped else 0)"

definition Attribute_Locked :: u8 where "Attribute_Locked = 1"
definition Attribute_IpcLocked :: u8 where "Attribute_IpcLocked = 2"
definition Attribute_DeviceShared :: u8 where "Attribute_DeviceShared = 4"
definition Attribute_Uncached :: u8 where "Attribute_Uncached = 8"
definition Attribute_PermissionLocked :: u8 where "Attribute_PermissionLocked = 16"

definition Merge_Normal :: u8 where "Merge_Normal = 1"
definition Merge_DeviceLeft :: u8 where "Merge_DeviceLeft = 2"
definition Merge_IpcLeft :: u8 where "Merge_IpcLeft = 4"
definition Merge_Locked :: u8 where "Merge_Locked = 8"
definition Merge_DeviceRight :: u8 where "Merge_DeviceRight = 16"
definition Merge_AllLeft :: u8 where
  "Merge_AllLeft = Merge_Normal OR Merge_DeviceLeft OR Merge_IpcLeft OR Merge_Locked"
definition Merge_AllRight :: u8 where "Merge_AllRight = Merge_DeviceRight"

lemmas merge_defs =
  Merge_Normal_def Merge_DeviceLeft_def Merge_IpcLeft_def Merge_Locked_def Merge_DeviceRight_def
  Merge_AllLeft_def Merge_AllRight_def

section \<open>A block\<close>

definition PageSize :: u64 where "PageSize = push_bit 12 1"

record KMemoryBlock =
  m_device_disable_merge_left_count :: u16
  m_device_disable_merge_right_count :: u16
  m_address :: u64
  m_num_pages :: u64
  m_memory_state :: u32
  m_ipc_lock_count :: u16
  m_device_use_count :: u16
  m_ipc_disable_merge_count :: u16
  m_permission :: u8
  m_original_permission :: u8
  m_attribute :: u8
  m_disable_merge_attribute :: u8

definition new_KMemoryBlock :: "u64 \<Rightarrow> u64 \<Rightarrow> u32 \<Rightarrow> u8 \<Rightarrow> u8 \<Rightarrow> KMemoryBlock" where
  "new_KMemoryBlock addr np ms p attr =
     \<lparr>m_device_disable_merge_left_count = 0, m_device_disable_merge_right_count = 0, m_address = addr,
      m_num_pages = np, m_memory_state = ms, m_ipc_lock_count = 0, m_device_use_count = 0,
      m_ipc_disable_merge_count = 0, m_permission = p, m_original_permission = 0, m_attribute = attr,
      m_disable_merge_attribute = 0\<rparr>"

definition Initialize :: "u64 \<Rightarrow> u64 \<Rightarrow> u32 \<Rightarrow> u8 \<Rightarrow> u8 \<Rightarrow> KMemoryBlock \<Rightarrow> KMemoryBlock" where
  "Initialize addr np ms p attr b =
     b\<lparr>m_device_disable_merge_left_count := 0, m_device_disable_merge_right_count := 0, m_address := addr,
       m_num_pages := np, m_memory_state := ms, m_ipc_lock_count := 0, m_device_use_count := 0,
       m_permission := p, m_original_permission := 0, m_attribute := attr, m_disable_merge_attribute := 0\<rparr>"

definition GetSize :: "KMemoryBlock \<Rightarrow> u64" where "GetSize b = m_num_pages b * PageSize"
definition GetEndAddress :: "KMemoryBlock \<Rightarrow> u64" where "GetEndAddress b = m_address b + GetSize b"
definition GetLastAddress :: "KMemoryBlock \<Rightarrow> u64" where "GetLastAddress b = GetEndAddress b - 1"

text \<open>The tree's three-way comparison of a search key with a block.\<close>

definition Compare :: "KMemoryBlock \<Rightarrow> KMemoryBlock \<Rightarrow> int" where
  "Compare lhs rhs =
     (if m_address lhs < m_address rhs then -1
      else if m_address lhs \<le> GetLastAddress rhs then 0 else 1)"

record KMemoryInfo =
  info_address :: u64
  info_size :: u64
  info_state :: u32
  info_device_disable_merge_left_count :: u16
  info_device_disable_merge_right_count :: u16
  info_ipc_lock_count :: u16
  info_device_use_count :: u16
  info_ipc_disable_merge_count :: u16
  info_permission :: u8
  info_attribute :: u8
  info_original_permission :: u8
  info_disable_merge_attribute :: u8

definition GetMemoryInfo :: "KMemoryBlock \<Rightarrow> KMemoryInfo" where
  "GetMemoryInfo b =
     \<lparr>info_address = m_address b, info_size = GetSize b, info_state = m_memory_state b,
      info_device_disable_merge_left_count = m_device_disable_merge_left_count b,
      info_device_disable_merge_right_count = m_device_disable_merge_right_count b,
      info_ipc_lock_count = m_ipc_lock_count b, info_device_use_count = m_device_use_count b,
      info_ipc_disable_merge_count = m_ipc_disable_merge_count b,
      info_permission = m_permission b, info_attribute = m_attribute b,
      info_original_permission = m_original_permission b,
      info_disable_merge_attribute = m_disable_merge_attribute b\<rparr>"

text \<open>What a query reports to the guest.\<close>

record SvcMemoryInfo =
  base_address :: u64
  region_size :: u64
  svc_state :: u32
  svc_attribute :: u32
  svc_permission :: u32
  ipc_count :: u32
  device_count :: u32

definition GetSvcMemoryInfo :: "KMemoryInfo \<Rightarrow> SvcMemoryInfo" where
  "GetSvcMemoryInfo i =
     \<lparr>base_address = info_address i, region_size = info_size i, svc_state = info_state i AND 0xFF,
      svc_attribute = ucast (info_attribute i AND 0xFF),
      svc_permission = ucast (info_permission i AND Permission_UserMask),
      ipc_count = ucast (info_ipc_lock_count i), device_count = ucast (info_device_use_count i)\<rparr>"

definition info_num_pages :: "KMemoryInfo \<Rightarrow> u64" where "info_num_pages i = info_size i div PageSize"
definition info_end_address :: "KMemoryInfo \<Rightarrow> u64" where "info_end_address i = info_address i + info_size i"
definition info_last_address :: "KMemoryInfo \<Rightarrow> u64" where "info_last_address i = info_end_address i - 1"

definition HasProperties :: "u32 \<Rightarrow> u8 \<Rightarrow> u8 \<Rightarrow> KMemoryBlock \<Rightarrow> bool" where
  "HasProperties s p a b =
     (let ignore = Attribute_IpcLocked OR Attribute_DeviceShared
      in m_memory_state b = s \<and> m_permission b = p \<and> m_attribute b OR ignore = a OR ignore)"

definition HasSameProperties :: "KMemoryBlock \<Rightarrow> KMemoryBlock \<Rightarrow> bool" where
  "HasSameProperties b rhs =
     (m_memory_state b = m_memory_state rhs \<and> m_permission b = m_permission rhs \<and>
      m_original_permission b = m_original_permission rhs \<and> m_attribute b = m_attribute rhs \<and>
      m_ipc_lock_count b = m_ipc_lock_count rhs \<and> m_device_use_count b = m_device_use_count rhs)"

definition CanMergeWith :: "KMemoryBlock \<Rightarrow> KMemoryBlock \<Rightarrow> bool" where
  "CanMergeWith b rhs =
     (HasSameProperties b rhs \<and> m_disable_merge_attribute b AND Merge_AllRight = 0 \<and>
      m_disable_merge_attribute rhs AND Merge_AllLeft = 0)"

definition Contains :: "KMemoryBlock \<Rightarrow> u64 \<Rightarrow> bool" where
  "Contains b addr = (m_address b \<le> addr \<and> addr \<le> GetEndAddress b)"

definition Block_Add :: "KMemoryBlock \<Rightarrow> KMemoryBlock \<Rightarrow> KMemoryBlock" where
  "Block_Add added_block b =
     b\<lparr>m_num_pages := m_num_pages b + m_num_pages added_block,
       m_disable_merge_attribute := m_disable_merge_attribute b OR m_disable_merge_attribute added_block,
       m_device_disable_merge_right_count := m_device_disable_merge_right_count added_block\<rparr>"

definition Block_Update :: "u32 \<Rightarrow> u8 \<Rightarrow> u8 \<Rightarrow> bool \<Rightarrow> u8 \<Rightarrow> u8 \<Rightarrow> KMemoryBlock \<Rightarrow> KMemoryBlock" where
  "Block_Update s p a set_disable_merge_attr set_mask clear_mask b =
     (let b1 = b\<lparr>m_memory_state := s, m_permission := p,
                 m_attribute := a OR (m_attribute b AND (Attribute_IpcLocked OR Attribute_DeviceShared))\<rparr>;
          b2 = (if set_disable_merge_attr \<and> set_mask \<noteq> 0
                then b1\<lparr>m_disable_merge_attribute := m_disable_merge_attribute b1 OR set_mask\<rparr> else b1)
      in if clear_mask \<noteq> 0
         then b2\<lparr>m_disable_merge_attribute := m_disable_merge_attribute b2 AND NOT clear_mask\<rparr> else b2)"

definition Block_UpdateAttribute :: "u8 \<Rightarrow> u8 \<Rightarrow> KMemoryBlock \<Rightarrow> KMemoryBlock" where
  "Block_UpdateAttribute msk attr b = b\<lparr>m_attribute := (m_attribute b AND NOT msk) OR attr\<rparr>"

text \<open>\<^verbatim>\<open>Split\<close> returns the new block, which is the part before the address, and what is left of the old.\<close>

definition Split :: "u64 \<Rightarrow> KMemoryBlock \<Rightarrow> KMemoryBlock \<times> KMemoryBlock" where
  "Split addr b =
     (let block =
        \<lparr>m_device_disable_merge_left_count = m_device_disable_merge_left_count b,
         m_device_disable_merge_right_count = 0,
         m_address = m_address b,
         m_num_pages = (addr - m_address b) div PageSize,
         m_memory_state = m_memory_state b,
         m_ipc_lock_count = m_ipc_lock_count b,
         m_device_use_count = m_device_use_count b,
         m_ipc_disable_merge_count = m_ipc_disable_merge_count b,
         m_permission = m_permission b,
         m_original_permission = m_original_permission b,
         m_attribute = m_attribute b,
         m_disable_merge_attribute = m_disable_merge_attribute b AND Merge_AllLeft\<rparr>
      in (block,
          b\<lparr>m_address := addr, m_num_pages := m_num_pages b - m_num_pages block,
            m_ipc_disable_merge_count := 0, m_device_disable_merge_left_count := 0,
            m_disable_merge_attribute := m_disable_merge_attribute b AND Merge_AllRight\<rparr>))"

section \<open>Sharing and locking\<close>

definition UpdateDeviceDisableMergeStateForShareLeft :: "bool \<Rightarrow> KMemoryBlock \<Rightarrow> KMemoryBlock" where
  "UpdateDeviceDisableMergeStateForShareLeft left b =
     (if left then b\<lparr>m_disable_merge_attribute := m_disable_merge_attribute b OR Merge_DeviceLeft,
                     m_device_disable_merge_left_count := m_device_disable_merge_left_count b + 1\<rparr>
      else b)"

definition UpdateDeviceDisableMergeStateForShareRight :: "bool \<Rightarrow> KMemoryBlock \<Rightarrow> KMemoryBlock" where
  "UpdateDeviceDisableMergeStateForShareRight right b =
     (if right then b\<lparr>m_disable_merge_attribute := m_disable_merge_attribute b OR Merge_DeviceRight,
                      m_device_disable_merge_right_count := m_device_disable_merge_right_count b + 1\<rparr>
      else b)"

definition ShareToDevice :: "u8 \<Rightarrow> bool \<Rightarrow> bool \<Rightarrow> KMemoryBlock \<Rightarrow> KMemoryBlock" where
  "ShareToDevice new_perm left right b =
     UpdateDeviceDisableMergeStateForShareRight right (UpdateDeviceDisableMergeStateForShareLeft left
       (b\<lparr>m_device_use_count := m_device_use_count b + 1, m_attribute := m_attribute b OR Attribute_DeviceShared\<rparr>))"

definition UpdateDeviceDisableMergeStateForUnshareLeft :: "bool \<Rightarrow> KMemoryBlock \<Rightarrow> KMemoryBlock" where
  "UpdateDeviceDisableMergeStateForUnshareLeft left b =
     (if left \<and> m_device_disable_merge_left_count b = 0 then b
      else
        (let b1 = (if left then b\<lparr>m_device_disable_merge_left_count := m_device_disable_merge_left_count b - 1\<rparr> else b);
             b2 = b1\<lparr>m_device_disable_merge_left_count :=
                      min (m_device_disable_merge_left_count b1) (m_device_use_count b1)\<rparr>
         in if m_device_disable_merge_left_count b2 = 0
            then b2\<lparr>m_disable_merge_attribute := m_disable_merge_attribute b2 AND NOT Merge_DeviceLeft\<rparr>
            else b2))"

definition UpdateDeviceDisableMergeStateForUnshareRight :: "bool \<Rightarrow> KMemoryBlock \<Rightarrow> KMemoryBlock" where
  "UpdateDeviceDisableMergeStateForUnshareRight right b =
     (if right then
        (let old = m_device_disable_merge_right_count b;
             b1 = b\<lparr>m_device_disable_merge_right_count := old - 1\<rparr>
         in if old = 1
            then b1\<lparr>m_disable_merge_attribute := m_disable_merge_attribute b1 AND NOT Merge_DeviceRight\<rparr>
            else b1)
      else b)"

definition drop_device_use :: "KMemoryBlock \<Rightarrow> KMemoryBlock" where
  "drop_device_use b =
     (let old_count = m_device_use_count b; b1 = b\<lparr>m_device_use_count := old_count - 1\<rparr>
      in if old_count = 1 then b1\<lparr>m_attribute := m_attribute b1 AND NOT Attribute_DeviceShared\<rparr> else b1)"

definition UnshareToDevice :: "u8 \<Rightarrow> bool \<Rightarrow> bool \<Rightarrow> KMemoryBlock \<Rightarrow> KMemoryBlock" where
  "UnshareToDevice new_perm left right b =
     UpdateDeviceDisableMergeStateForUnshareRight right
       (UpdateDeviceDisableMergeStateForUnshareLeft left (drop_device_use b))"

definition UnshareToDeviceRight :: "u8 \<Rightarrow> bool \<Rightarrow> bool \<Rightarrow> KMemoryBlock \<Rightarrow> KMemoryBlock" where
  "UnshareToDeviceRight new_perm left right b =
     UpdateDeviceDisableMergeStateForUnshareRight right (drop_device_use b)"

definition LockForIpc :: "u8 \<Rightarrow> bool \<Rightarrow> bool \<Rightarrow> KMemoryBlock \<Rightarrow> KMemoryBlock" where
  "LockForIpc new_perm left right b =
     (let new_lock_count = m_ipc_lock_count b + 1;
          b1 = b\<lparr>m_ipc_lock_count := new_lock_count\<rparr>;
          b2 = (if new_lock_count = 1
                then b1\<lparr>m_original_permission := m_permission b1,
                        m_permission := (new_perm AND IpcLockChangeMask) OR (m_permission b1 AND NOT IpcLockChangeMask)\<rparr>
                else b1);
          b3 = b2\<lparr>m_attribute := m_attribute b2 OR Attribute_IpcLocked\<rparr>
      in if left
         then b3\<lparr>m_disable_merge_attribute := m_disable_merge_attribute b3 OR Merge_IpcLeft,
                 m_ipc_disable_merge_count := m_ipc_disable_merge_count b3 + 1\<rparr>
         else b3)"

definition UnlockForIpc :: "u8 \<Rightarrow> bool \<Rightarrow> bool \<Rightarrow> KMemoryBlock \<Rightarrow> KMemoryBlock" where
  "UnlockForIpc new_perm left right b =
     (let old_lock_count = m_ipc_lock_count b;
          b1 = b\<lparr>m_ipc_lock_count := old_lock_count - 1\<rparr>;
          b2 = (if old_lock_count = 1
                then b1\<lparr>m_permission := m_original_permission b1, m_original_permission := 0,
                        m_attribute := m_attribute b1 AND NOT Attribute_IpcLocked\<rparr>
                else b1)
      in if left then
           (let old_merge_count = m_ipc_disable_merge_count b2;
                b3 = b2\<lparr>m_ipc_disable_merge_count := old_merge_count - 1\<rparr>
            in if old_merge_count = 1
               then b3\<lparr>m_disable_merge_attribute := m_disable_merge_attribute b3 AND NOT Merge_IpcLeft\<rparr>
               else b3)
         else b2)"

end
