(* ===== verification/BlockManager.thy ===== *)
theory BlockManager
  imports MemoryBlock
begin

text \<open>
  The manager of the memory blocks of an address space,
  \<^verbatim>\<open>core/hle/kernel/k_memory_block_manager.{h,cpp}\<close>. The red-black tree of blocks is the list of its
  blocks in order; an iterator is an index into it, with the length as the end. The slab that the
  blocks come from is the number of blocks it can still give.
\<close>

section \<open>The tree as an ordered list\<close>

fun find_from :: "KMemoryBlock \<Rightarrow> KMemoryBlock list \<Rightarrow> nat" where
  "find_from key [] = 0"
| "find_from key (b # bs) = (if Compare key b = 0 then 0 else Suc (find_from key bs))"

fun tree_insert :: "KMemoryBlock \<Rightarrow> KMemoryBlock list \<Rightarrow> nat \<times> KMemoryBlock list" where
  "tree_insert x [] = (0, [x])"
| "tree_insert x (b # bs) =
     (if Compare x b < 0 then (0, x # b # bs)
      else if Compare x b = 0 then (0, b # bs)
      else (let (i, bs') = tree_insert x bs in (Suc i, b # bs')))"

definition tree_erase :: "nat \<Rightarrow> KMemoryBlock list \<Rightarrow> KMemoryBlock list" where
  "tree_erase i bs = take i bs @ drop (Suc i) bs"

record KMemoryBlockManager =
  m_memory_block_tree :: "KMemoryBlock list"
  m_start_address :: u64
  m_end_address :: u64

definition FindIterator :: "KMemoryBlock list \<Rightarrow> u64 \<Rightarrow> nat" where
  "FindIterator blocks address = find_from (new_KMemoryBlock address 1 (KMemoryState State_Free) 0 0) blocks"

definition FindBlock :: "KMemoryBlockManager \<Rightarrow> u64 \<Rightarrow> KMemoryBlock option" where
  "FindBlock m address =
     (let it = FindIterator (m_memory_block_tree m) address
      in if it < length (m_memory_block_tree m) then Some (m_memory_block_tree m ! it) else None)"

datatype block_error = ResultOutOfResource | EndDereferenced | NullIterator | BlocksExhausted | OutOfFuel

section \<open>The update allocator\<close>

definition MaxBlocks :: nat where "MaxBlocks = 2"

text \<open>\<open>m_blocks\<close> says which of the two slots hold a block.\<close>

record UpdateAllocator =
  m_blocks :: "bool list"
  m_index :: nat
  m_slab :: nat

fun fill_blocks :: "nat \<Rightarrow> nat \<Rightarrow> UpdateAllocator \<Rightarrow> bool \<times> UpdateAllocator" where
  "fill_blocks 0 i al = (True, al)"
| "fill_blocks (Suc n) i al =
     (if m_slab al = 0 then (False, al)
      else fill_blocks n (Suc i) (al\<lparr>m_blocks := (m_blocks al)[m_index al + i := True], m_slab := m_slab al - 1\<rparr>))"

definition new_UpdateAllocator :: "nat \<Rightarrow> nat \<Rightarrow> bool \<times> UpdateAllocator" where
  "new_UpdateAllocator slab num_blocks =
     fill_blocks (min num_blocks MaxBlocks) 0
       \<lparr>m_blocks = fill_array MaxBlocks False, m_index = MaxBlocks - num_blocks, m_slab = slab\<rparr>"

definition delete_UpdateAllocator :: "UpdateAllocator \<Rightarrow> nat" where
  "delete_UpdateAllocator al = m_slab al + length (filter id (m_blocks al))"

definition allocator_Allocate :: "UpdateAllocator \<Rightarrow> block_error + UpdateAllocator" where
  "allocator_Allocate al =
     (if MaxBlocks \<le> m_index al then Inl BlocksExhausted
      else if \<not> m_blocks al ! m_index al then Inl BlocksExhausted
      else Inr (al\<lparr>m_blocks := (m_blocks al)[m_index al := False], m_index := Suc (m_index al)\<rparr>))"

definition allocator_Free :: "UpdateAllocator \<Rightarrow> UpdateAllocator" where
  "allocator_Free al =
     (if m_index al = 0 then al\<lparr>m_slab := Suc (m_slab al)\<rparr>
      else al\<lparr>m_index := m_index al - 1, m_blocks := (m_blocks al)[m_index al - 1 := True]\<rparr>)"

section \<open>Initialization and finalization\<close>

text \<open>The block that the slab hands out may hold anything; it is a parameter.\<close>

definition Manager_Initialize ::
  "u64 \<Rightarrow> u64 \<Rightarrow> KMemoryBlock \<Rightarrow> nat \<Rightarrow> KMemoryBlockManager \<Rightarrow> block_error + KMemoryBlockManager \<times> nat" where
  "Manager_Initialize st nd raw slab m =
     (if slab = 0 then Inl ResultOutOfResource
      else
        (let start_block = Initialize st ((nd - st) div PageSize) (KMemoryState State_Free) 0 0 raw
         in Inr (m\<lparr>m_start_address := st, m_end_address := nd,
                   m_memory_block_tree := snd (tree_insert start_block (m_memory_block_tree m))\<rparr>, slab - 1)))"

text \<open>\<^verbatim>\<open>Finalize\<close> returns the calls of the callback and the slab.\<close>

definition Manager_Finalize :: "nat \<Rightarrow> KMemoryBlockManager \<Rightarrow> (u64 \<times> u64) list \<times> nat \<times> KMemoryBlockManager" where
  "Manager_Finalize slab m =
     (map (\<lambda>b. (m_address b, GetSize b)) (m_memory_block_tree m), slab + length (m_memory_block_tree m),
      m\<lparr>m_memory_block_tree := []\<rparr>)"

section \<open>Searching a free area\<close>

definition AlignDown :: "u64 \<Rightarrow> u64 \<Rightarrow> u64" where
  "AlignDown value sz = value - value mod sz"

definition candidate_area :: "u64 \<Rightarrow> u64 \<Rightarrow> u64 \<Rightarrow> u64 \<Rightarrow> KMemoryInfo \<Rightarrow> u64" where
  "candidate_area region_start alignment offset guard_pages info =
     (let area = (if info_address info \<le> region_start then region_start else info_address info) + guard_pages * PageSize;
          offset_area = AlignDown area alignment + offset
      in if area \<le> offset_area then offset_area else offset_area + alignment)"

fun find_free_loop :: "u64 \<Rightarrow> u64 \<Rightarrow> u64 \<Rightarrow> u64 \<Rightarrow> u64 \<Rightarrow> u64 \<Rightarrow> KMemoryBlock list \<Rightarrow> u64" where
  "find_free_loop region_start region_last num_pages alignment offset guard_pages [] = 0"
| "find_free_loop region_start region_last num_pages alignment offset guard_pages (b # bs) =
     (let info = GetMemoryInfo b in
      if region_last < info_address info then 0
      else if info_state info \<noteq> KMemoryState State_Free
      then find_free_loop region_start region_last num_pages alignment offset guard_pages bs
      else
        (let area = candidate_area region_start alignment offset guard_pages info;
             area_last = area + num_pages * PageSize + guard_pages * PageSize - 1
         in if info_address info \<le> area \<and> area < area_last \<and> area_last \<le> region_last \<and>
               area_last \<le> info_last_address info
            then area
            else find_free_loop region_start region_last num_pages alignment offset guard_pages bs))"

definition FindFreeArea :: "KMemoryBlockManager \<Rightarrow> u64 \<Rightarrow> u64 \<Rightarrow> u64 \<Rightarrow> u64 \<Rightarrow> u64 \<Rightarrow> u64 \<Rightarrow> u64" where
  "FindFreeArea m region_start region_num_pages num_pages alignment offset guard_pages =
     (if num_pages > 0
      then find_free_loop region_start (region_start + region_num_pages * PageSize - 1) num_pages alignment offset
             guard_pages (drop (FindIterator (m_memory_block_tree m) region_start) (m_memory_block_tree m))
      else 0)"

section \<open>Coalescing\<close>

text \<open>One unit of fuel per turn; every turn merges a block or moves on.\<close>

fun coalesce_loop ::
  "nat \<Rightarrow> u64 \<Rightarrow> nat \<Rightarrow> KMemoryBlock list \<times> UpdateAllocator \<Rightarrow> block_error + KMemoryBlock list \<times> UpdateAllocator" where
  "coalesce_loop 0 end_address it st = Inl OutOfFuel"
| "coalesce_loop (Suc fuel) end_address it st =
     (let (blocks, al) = st; prev = it; it1 = Suc it in
      if it1 \<ge> length blocks then Inr st
      else
        (let (it2, st2) =
           (if CanMergeWith (blocks ! prev) (blocks ! it1)
            then (prev, (tree_erase it1 blocks)[prev := Block_Add (blocks ! it1) (blocks ! prev)], allocator_Free al)
            else (it1, blocks, al))
         in if end_address < info_end_address (GetMemoryInfo (fst st2 ! it2)) then Inr st2
            else coalesce_loop fuel end_address it2 st2))"

text \<open>
  An iterator in the code is a pointer to a node, with null as the end; stepping back from the first
  block gives null as well, and stepping from null dereferences it.
\<close>

definition CoalesceForUpdate ::
  "u64 \<Rightarrow> u64 \<Rightarrow> u64 \<Rightarrow> KMemoryBlock list \<times> UpdateAllocator \<Rightarrow> block_error + KMemoryBlock list \<times> UpdateAllocator" where
  "CoalesceForUpdate start_address address num_pages st =
     (let it = FindIterator (fst st) address in
      if it \<ge> length (fst st) then Inl EndDereferenced
      else if address \<noteq> start_address \<and> it = 0 then Inl NullIterator
      else coalesce_loop (Suc (length (fst st))) (address + num_pages * PageSize)
             (if address \<noteq> start_address then it - 1 else it) st)"

section \<open>Updating a range\<close>

text \<open>
  Splitting the block at an iterator: the new block is the part before the address and is inserted
  into the tree; the result is the iterator to it.
\<close>

definition split_at ::
  "nat \<Rightarrow> u64 \<Rightarrow> KMemoryBlock list \<times> UpdateAllocator \<Rightarrow> block_error + nat \<times> KMemoryBlock list \<times> UpdateAllocator" where
  "split_at it addr st =
     (let (blocks, al) = st in
      case allocator_Allocate al of
        Inl e \<Rightarrow> Inl e
      | Inr al1 \<Rightarrow>
          (let (new_block, old_block) = Split addr (blocks ! it);
               (pos, blocks1) = tree_insert new_block (blocks[it := old_block])
           in Inr (pos, blocks1, al1)))"

definition split_before ::
  "nat \<Rightarrow> u64 \<Rightarrow> KMemoryBlock list \<times> UpdateAllocator \<Rightarrow> block_error + nat \<times> u64 \<times> KMemoryBlock list \<times> UpdateAllocator" where
  "split_before it cur_address st =
     (if info_address (GetMemoryInfo (fst st ! it)) \<noteq> cur_address then
        (case split_at it cur_address st of
           Inl e \<Rightarrow> Inl e
         | Inr (pos, st1) \<Rightarrow> Inr (Suc pos, info_address (GetMemoryInfo (fst st1 ! Suc pos)), st1))
      else Inr (it, cur_address, st))"

definition split_after ::
  "nat \<Rightarrow> u64 \<Rightarrow> u64 \<Rightarrow> KMemoryBlock list \<times> UpdateAllocator \<Rightarrow> block_error + nat \<times> KMemoryBlock list \<times> UpdateAllocator" where
  "split_after it cur_address remaining_size st =
     (if info_size (GetMemoryInfo (fst st ! it)) > remaining_size
      then split_at it (cur_address + remaining_size) st
      else Inr (it, st))"

text \<open>
  The loop that \<^verbatim>\<open>Update\<close>, \<^verbatim>\<open>UpdateIfMatch\<close>, \<^verbatim>\<open>UpdateLock\<close> and \<^verbatim>\<open>UpdateAttribute\<close> share: \<open>needs\<close> decides
  whether a block is to be changed and \<open>change\<close> changes it, told whether the block starts at the
  first address of the range and whether it ends where the range ends. One unit of fuel per block.
\<close>

fun update_loop ::
  "nat \<Rightarrow> (KMemoryBlock \<Rightarrow> bool) \<Rightarrow> (bool \<Rightarrow> bool \<Rightarrow> KMemoryBlock \<Rightarrow> KMemoryBlock) \<Rightarrow> u64 \<Rightarrow> u64 \<Rightarrow> u64 \<Rightarrow> u64 \<Rightarrow> nat \<Rightarrow>
   KMemoryBlock list \<times> UpdateAllocator \<Rightarrow> block_error + KMemoryBlock list \<times> UpdateAllocator" where
  "update_loop 0 needs change address end_address cur_address remaining_pages it st = Inl OutOfFuel"
| "update_loop (Suc fuel) needs change address end_address cur_address remaining_pages it st =
     (if remaining_pages = 0 then Inr st
      else if it \<ge> length (fst st) then Inl EndDereferenced
      else
        (let remaining_size = remaining_pages * PageSize; cur_info = GetMemoryInfo (fst st ! it) in
         if needs (fst st ! it) then
           (case split_before it cur_address st of
              Inl e \<Rightarrow> Inl e
            | Inr (it1, cur_address1, st1) \<Rightarrow>
                (case split_after it1 cur_address1 remaining_size st1 of
                   Inl e \<Rightarrow> Inl e
                 | Inr (it2, blocks2, al2) \<Rightarrow>
                     (let info2 = GetMemoryInfo (blocks2 ! it2);
                          left = (info_address info2 = address);
                          right = (info_end_address info2 = end_address)
                      in update_loop fuel needs change address end_address
                           (cur_address1 + info_size info2) (remaining_pages - info_num_pages info2) (Suc it2)
                           (blocks2[it2 := change left right (blocks2 ! it2)], al2))))
         else if cur_address + remaining_size < info_end_address cur_info
         then update_loop fuel needs change address end_address (cur_address + remaining_size) 0 (Suc it) st
         else update_loop fuel needs change address end_address (info_end_address cur_info)
                ((cur_address + remaining_size - info_end_address cur_info) div PageSize) (Suc it) st))"

definition update_range ::
  "(KMemoryBlock \<Rightarrow> bool) \<Rightarrow> (bool \<Rightarrow> bool \<Rightarrow> KMemoryBlock \<Rightarrow> KMemoryBlock) \<Rightarrow> u64 \<Rightarrow> u64 \<Rightarrow>
   KMemoryBlockManager \<times> UpdateAllocator \<Rightarrow> block_error + KMemoryBlockManager \<times> UpdateAllocator" where
  "update_range needs change address num_pages ma =
     (let (m, al) = ma; blocks = m_memory_block_tree m in
      case update_loop (length blocks + 3) needs change address (address + num_pages * PageSize) address num_pages
             (FindIterator blocks address) (blocks, al) of
        Inl e \<Rightarrow> Inl e
      | Inr st \<Rightarrow>
          (case CoalesceForUpdate (m_start_address m) address num_pages st of
             Inl e \<Rightarrow> Inl e
           | Inr (blocks1, al1) \<Rightarrow> Inr (m\<lparr>m_memory_block_tree := blocks1\<rparr>, al1)))"

definition Update ::
  "u64 \<Rightarrow> u64 \<Rightarrow> u32 \<Rightarrow> u8 \<Rightarrow> u8 \<Rightarrow> u8 \<Rightarrow> u8 \<Rightarrow>
   KMemoryBlockManager \<times> UpdateAllocator \<Rightarrow> block_error + KMemoryBlockManager \<times> UpdateAllocator" where
  "Update address num_pages state perm attr set_disable_attr clear_disable_attr =
     update_range (\<lambda>b. \<not> HasProperties state perm attr b)
       (\<lambda>left right. Block_Update state perm attr left set_disable_attr clear_disable_attr) address num_pages"

definition UpdateIfMatch ::
  "u64 \<Rightarrow> u64 \<Rightarrow> u32 \<Rightarrow> u8 \<Rightarrow> u8 \<Rightarrow> u32 \<Rightarrow> u8 \<Rightarrow> u8 \<Rightarrow> u8 \<Rightarrow> u8 \<Rightarrow>
   KMemoryBlockManager \<times> UpdateAllocator \<Rightarrow> block_error + KMemoryBlockManager \<times> UpdateAllocator" where
  "UpdateIfMatch address num_pages test_state test_perm test_attr state perm attr set_disable_attr clear_disable_attr =
     update_range (\<lambda>b. HasProperties test_state test_perm test_attr b \<and> \<not> HasProperties state perm attr b)
       (\<lambda>left right. Block_Update state perm attr False set_disable_attr clear_disable_attr) address num_pages"

definition UpdateLock ::
  "u64 \<Rightarrow> u64 \<Rightarrow> (u8 \<Rightarrow> bool \<Rightarrow> bool \<Rightarrow> KMemoryBlock \<Rightarrow> KMemoryBlock) \<Rightarrow> u8 \<Rightarrow>
   KMemoryBlockManager \<times> UpdateAllocator \<Rightarrow> block_error + KMemoryBlockManager \<times> UpdateAllocator" where
  "UpdateLock address num_pages lock_func perm =
     update_range (\<lambda>b. True) (lock_func perm) address num_pages"

definition UpdateAttribute ::
  "u64 \<Rightarrow> u64 \<Rightarrow> u8 \<Rightarrow> u8 \<Rightarrow>
   KMemoryBlockManager \<times> UpdateAllocator \<Rightarrow> block_error + KMemoryBlockManager \<times> UpdateAllocator" where
  "UpdateAttribute address num_pages msk attr =
     update_range (\<lambda>b. m_attribute b AND msk \<noteq> attr) (\<lambda>left right. Block_UpdateAttribute msk attr) address num_pages"

section \<open>The audit\<close>

definition counts_ok :: "KMemoryBlock \<Rightarrow> bool" where
  "counts_ok b =
     (\<not> (m_attribute b AND Attribute_IpcLocked \<noteq> 0 \<and> m_ipc_lock_count b = 0) \<and>
      \<not> (m_attribute b AND Attribute_DeviceShared \<noteq> 0 \<and> m_device_use_count b = 0))"

fun check_from :: "KMemoryBlock \<Rightarrow> KMemoryBlock list \<Rightarrow> bool" where
  "check_from prev [] = counts_ok prev"
| "check_from prev (b # bs) =
     (if CanMergeWith prev b then False
      else if GetEndAddress prev \<noteq> m_address b then False
      else if \<not> counts_ok b then False
      else check_from b bs)"

text \<open>
  An empty tree, on which the code increments the end iterator, is not accepted. (A manager holds
  at least one block from \<^verbatim>\<open>Initialize\<close> to \<^verbatim>\<open>Finalize\<close>.)
\<close>

definition CheckState :: "KMemoryBlockManager \<Rightarrow> bool" where
  "CheckState m = (case m_memory_block_tree m of [] \<Rightarrow> False | b # bs \<Rightarrow> check_from b bs)"

end
