(* ===== verification/BlockManager_Laws.thy ===== *)
theory BlockManager_Laws
  imports BlockManager
begin

text \<open>
  The list of blocks as a partition of the address space into pages: page numbers, the layout
  invariant, the properties of every page as a list, and what splitting, inserting, updating and
  merging do to them.
\<close>

section \<open>Page addresses\<close>

definition pa :: "nat \<Rightarrow> u64" where
  "pa n = of_nat (n * 4096)"

abbreviation np :: "KMemoryBlock \<Rightarrow> nat" where
  "np b \<equiv> unat (m_num_pages b)"

definition page :: "KMemoryBlock \<Rightarrow> nat" where
  "page b = unat (m_address b) div 4096"

lemma PageSize_4096: "PageSize = 4096"
  by (simp add: PageSize_def)

lemma unat_pa: "n < 2 ^ 52 \<Longrightarrow> unat (pa n) = n * 4096"
  unfolding pa_def by (subst unat_of_nat) simp

lemma pa_less: "m < 2 ^ 52 \<Longrightarrow> n < 2 ^ 52 \<Longrightarrow> pa m < pa n \<longleftrightarrow> m < n"
  by (simp add: word_less_nat_alt unat_pa)

lemma pa_le: "m < 2 ^ 52 \<Longrightarrow> n < 2 ^ 52 \<Longrightarrow> pa m \<le> pa n \<longleftrightarrow> m \<le> n"
  by (simp add: word_le_nat_alt unat_pa)

lemma pa_eq: "m < 2 ^ 52 \<Longrightarrow> n < 2 ^ 52 \<Longrightarrow> pa m = pa n \<longleftrightarrow> m = n"
  by (metis unat_pa mult_cancel2 zero_neq_numeral)

lemma pa_add: "pa m + pa n = pa (m + n)"
  by (simp add: pa_def distrib_right)

lemma pa_diff: "n \<le> m \<Longrightarrow> pa m - pa n = pa (m - n)"
  by (metis pa_add add_diff_cancel_left' le_add_diff_inverse)

lemma times_PageSize: "of_nat n * PageSize = pa n"
  by (simp add: pa_def PageSize_4096)

lemma pa_div: "n < 2 ^ 52 \<Longrightarrow> pa n div PageSize = of_nat n"
  by (simp add: word_unat_eq_iff unat_div_distrib unat_pa PageSize_4096 unat_of_nat)

lemma of_nat_pages_zero: "n < 2 ^ 52 \<Longrightarrow> (of_nat n :: u64) = 0 \<longleftrightarrow> n = 0"
  by (simp add: word_unat_eq_iff unat_of_nat)

lemma pa_le_last: "m < 2 ^ 52 \<Longrightarrow> 0 < n \<Longrightarrow> n < 2 ^ 52 \<Longrightarrow> pa m \<le> pa n - 1 \<longleftrightarrow> m < n"
proof -
  assume mn: "m < 2 ^ 52" "0 < n" "n < 2 ^ 52"
  then have "pa n \<noteq> 0"
    by (metis unat_pa unat_0 mult_is_0 less_irrefl zero_neq_numeral)
  then have "unat (pa n - 1) = n * 4096 - 1"
    by (metis unat_minus_one unat_pa mn(3))
  then show ?thesis
    using mn by (auto simp: word_le_nat_alt unat_pa)
qed

section \<open>Layout\<close>

fun layout :: "nat \<Rightarrow> KMemoryBlock list \<Rightarrow> nat \<Rightarrow> bool" where
  "layout p [] q \<longleftrightarrow> p = q"
| "layout p (b # bs) q \<longleftrightarrow> m_address b = pa p \<and> 0 < np b \<and> layout (p + np b) bs q"

lemma layout_le: "layout p bs q \<Longrightarrow> p \<le> q"
  by (induction p bs q rule: layout.induct) auto

lemma layout_same: "layout p bs p \<Longrightarrow> bs = []"
  by (cases bs) (auto dest: layout_le)

lemma layout_append: "layout p (xs @ ys) q \<longleftrightarrow> (\<exists>r. layout p xs r \<and> layout r ys q)"
  by (induction xs arbitrary: p) auto

lemma layout_positive: "layout p bs q \<Longrightarrow> b \<in> set bs \<Longrightarrow> 0 < np b"
  by (induction p bs q rule: layout.induct) auto

lemma layout_page_bound:
  "layout p bs q \<Longrightarrow> q < 2 ^ 51 \<Longrightarrow> b \<in> set bs \<Longrightarrow> p \<le> page b \<and> page b + np b \<le> q \<and> m_address b = pa (page b)"
proof (induction p bs q rule: layout.induct)
  case (2 p c bs q)
  have le: "p + np c \<le> q" using "2.prems"(1) layout_le by auto
  then have "page c = p" using 2 by (simp add: page_def unat_pa)
  then show ?case using 2 le by fastforce
qed simp

text \<open>What one block of a layout looks like.\<close>

lemma block_at:
  assumes "m_address b = pa p" "p + np b < 2 ^ 51"
  shows "GetSize b = pa (np b)" "GetEndAddress b = pa (p + np b)"
    "info_size (GetMemoryInfo b) = pa (np b)" "info_end_address (GetMemoryInfo b) = pa (p + np b)"
    "info_num_pages (GetMemoryInfo b) = of_nat (np b)" "info_address (GetMemoryInfo b) = pa p" "page b = p"
proof -
  show sz: "GetSize b = pa (np b)"
    using times_PageSize [of "np b"] by (simp add: GetSize_def)
  then show "GetEndAddress b = pa (p + np b)" "info_size (GetMemoryInfo b) = pa (np b)"
    "info_end_address (GetMemoryInfo b) = pa (p + np b)"
    using assms by (simp_all add: GetEndAddress_def GetMemoryInfo_def info_end_address_def pa_add)
  show "info_num_pages (GetMemoryInfo b) = of_nat (np b)"
    using assms sz by (simp add: info_num_pages_def GetMemoryInfo_def pa_div)
  show "info_address (GetMemoryInfo b) = pa p" "page b = p"
    using assms by (simp_all add: GetMemoryInfo_def page_def unat_pa)
qed

lemma Compare_at:
  assumes "m_address k = pa x" "x < 2 ^ 51" "m_address b = pa p" "0 < np b" "p + np b < 2 ^ 51"
  shows "Compare k b = (if x < p then -1 else if x < p + np b then 0 else 1)"
  using assms by (simp add: Compare_def GetLastAddress_def block_at(2) [OF assms(3,5)] pa_less pa_le_last)

lemma find_from_at:
  assumes "layout p (xs @ b # ys) q" "q < 2 ^ 51" "page b \<le> x" "x < page b + np b" "m_address k = pa x"
  shows "find_from k (xs @ b # ys) = length xs"
  using assms(1)
proof (induction xs arbitrary: p)
  case Nil
  have "p + np b \<le> q" using Nil layout_le by fastforce
  then show ?case
    using Nil assms(2-5) Compare_at [of k x b p] block_at(7) [of b p] by simp
next
  case (Cons c xs)
  have c: "m_address c = pa p" "0 < np c" "layout (p + np c) (xs @ b # ys) q" using Cons.prems by auto
  have b: "p + np c \<le> page b" "page b + np b \<le> q"
    using layout_page_bound [OF c(3) assms(2), of b] by auto
  have "p + np c \<le> q" using c(3) layout_le by blast
  then have "Compare k c = 1"
    using Compare_at [OF assms(5) _ c(1,2)] assms(2-4) b by simp
  then show ?case using Cons.IH [OF c(3)] by simp
qed

lemma FindIterator_at:
  assumes "layout p (xs @ b # ys) q" "q < 2 ^ 51" "page b \<le> x" "x < page b + np b"
  shows "FindIterator (xs @ b # ys) (pa x) = length xs"
  unfolding FindIterator_def
  by (rule find_from_at [OF assms]) (simp add: new_KMemoryBlock_def)

lemma layout_find:
  assumes "layout p bs q" "p \<le> x" "x < q"
  obtains xs b ys r where "bs = xs @ b # ys" "layout p xs r" "layout r (b # ys) q" "r \<le> x" "x < r + np b"
  using assms
proof (induction p bs q arbitrary: thesis rule: layout.induct)
  case (2 p b bs q)
  show ?case
  proof (cases "x < p + np b")
    case True
    then show ?thesis using "2.prems"(1) [of "[]" b bs p] "2.prems"(2-) by simp
  next
    case False
    have l: "layout (p + np b) bs q" "p + np b \<le> x" using "2.prems" False by auto
    obtain xs c ys r where "bs = xs @ c # ys" "layout (p + np b) xs r" "layout r (c # ys) q" "r \<le> x" "x < r + np c"
      using "2.IH" [OF _ l "2.prems"(4)] by blast
    then show ?thesis using "2.prems"(1) [of "b # xs" c ys r] "2.prems"(2) by simp
  qed
qed simp

section \<open>Properties of pages\<close>

type_synonym page_props = "u32 \<times> u8 \<times> u8 \<times> u8 \<times> u16 \<times> u16"

definition props :: "KMemoryBlock \<Rightarrow> page_props" where
  "props b = (m_memory_state b, m_permission b, m_original_permission b, m_attribute b,
     m_ipc_lock_count b, m_device_use_count b)"

definition pages_of :: "KMemoryBlock list \<Rightarrow> page_props list" where
  "pages_of bs = concat (map (\<lambda>b. replicate (np b) (props b)) bs)"

lemma pages_of_simps [simp]:
  "pages_of [] = []" "pages_of (b # bs) = replicate (np b) (props b) @ pages_of bs"
  "pages_of (xs @ ys) = pages_of xs @ pages_of ys"
  by (simp_all add: pages_of_def)

lemma length_pages_of: "layout p bs q \<Longrightarrow> length (pages_of bs) + p = q"
  by (induction p bs q rule: layout.induct) auto

lemma HasSameProperties_props: "HasSameProperties b c \<longleftrightarrow> props b = props c"
  by (auto simp: HasSameProperties_def props_def)

definition left_marks :: "KMemoryBlock \<Rightarrow> u8" where
  "left_marks b = m_disable_merge_attribute b AND Merge_AllLeft"

definition right_marks :: "KMemoryBlock \<Rightarrow> u8" where
  "right_marks b = m_disable_merge_attribute b AND Merge_AllRight"

lemma CanMergeWith_props:
  "CanMergeWith b c \<longleftrightarrow> props b = props c \<and> right_marks b = 0 \<and> left_marks c = 0"
  by (simp add: CanMergeWith_def HasSameProperties_props left_marks_def right_marks_def)

lemma Split_at:
  assumes "m_address b = pa p" "p < c" "c < p + np b" "p + np b < 2 ^ 51" "Split (pa c) b = (l, r)"
  shows "m_address l = pa p" "np l = c - p" "m_address r = pa c" "np r = p + np b - c"
    "props l = props b" "props r = props b" "left_marks l = left_marks b" "right_marks r = right_marks b"
proof -
  have n: "m_num_pages l = of_nat (c - p)"
    using assms by (auto simp: Split_def Let_def pa_diff pa_div)
  then show nl: "np l = c - p"
    using assms(3,4) by (simp add: unat_of_nat)
  have "m_num_pages r = m_num_pages b - m_num_pages l"
    using assms(5) by (auto simp: Split_def Let_def)
  then have "np r = np b - (c - p)"
    using assms(3) nl by (simp add: unat_sub word_le_nat_alt)
  then show "np r = p + np b - c" using assms(2) by simp
  show "m_address l = pa p" "m_address r = pa c" "props l = props b" "props r = props b"
    using assms(1,5) by (auto simp: Split_def Let_def props_def)
  show "left_marks l = left_marks b" "right_marks r = right_marks b"
    using assms(5) by (auto simp: Split_def Let_def left_marks_def right_marks_def and.assoc)
qed

section \<open>Inserting the split-off block\<close>

lemma tree_insert_at:
  assumes "layout p0 xs p" "m_address l = pa p" "p < c" "m_address r = pa c" "c < 2 ^ 51"
  shows "tree_insert l (xs @ r # ys) = (length xs, xs @ l # r # ys)"
  using assms(1)
proof (induction xs arbitrary: p0)
  case Nil
  then show ?case using assms by (simp add: Compare_def pa_less)
next
  case (Cons x xs)
  have x: "m_address x = pa p0" "0 < np x" "layout (p0 + np x) xs p" using Cons.prems by auto
  have le: "p0 + np x \<le> p" using x(3) layout_le by blast
  then have "Compare l x = 1"
    using Compare_at [OF assms(2) _ x(1,2)] assms(3,5) by simp
  then show ?case using Cons.IH [OF x(3)] by simp
qed

section \<open>The allocator\<close>

definition alloc_ok :: "UpdateAllocator \<Rightarrow> bool" where
  "alloc_ok al \<longleftrightarrow> m_index al \<le> 2 \<and> m_blocks al = replicate (m_index al) False @ replicate (2 - m_index al) True"

definition owned :: "UpdateAllocator \<Rightarrow> nat" where
  "owned al = (2 - m_index al) + m_slab al"

lemma alloc_cases: "m_index al \<le> 2 \<Longrightarrow> m_index al = 0 \<or> m_index al = 1 \<or> m_index al = 2" for al :: UpdateAllocator
  by arith

lemma Allocate_ok:
  assumes "alloc_ok al" "m_index al < 2"
  obtains al' where "allocator_Allocate al = Inr al'" "alloc_ok al'" "m_index al' = Suc (m_index al)"
    "owned al = Suc (owned al')"
proof -
  have i: "m_index al = 0 \<or> m_index al = 1" using assms(2) by arith
  define al' where "al' = al\<lparr>m_blocks := (m_blocks al)[m_index al := False], m_index := Suc (m_index al)\<rparr>"
  have "allocator_Allocate al = Inr al'" "alloc_ok al'"
    using i assms(1) by (auto simp: allocator_Allocate_def alloc_ok_def MaxBlocks_def al'_def numeral_2_eq_2)
  moreover have "m_index al' = Suc (m_index al)" "owned al = Suc (owned al')"
    using assms(2) by (auto simp: owned_def al'_def)
  ultimately show ?thesis by (rule that)
qed

lemma Free_ok:
  assumes "alloc_ok al"
  shows "alloc_ok (allocator_Free al)" "owned (allocator_Free al) = Suc (owned al)"
proof -
  have "m_index al = 0 \<or> m_index al = 1 \<or> m_index al = 2"
    using assms alloc_cases by (simp add: alloc_ok_def)
  then show "alloc_ok (allocator_Free al)" "owned (allocator_Free al) = Suc (owned al)"
    using assms by (auto simp: allocator_Free_def alloc_ok_def owned_def numeral_2_eq_2)
qed

lemma split_at_ok:
  assumes "layout p0 xs p" "layout p (b # ys) q" "q < 2 ^ 51" "p < c" "c < p + np b" "alloc_ok al" "m_index al < 2"
    and "Split (pa c) b = (l, r)"
  obtains al' where "split_at (length xs) (pa c) (xs @ b # ys, al) = Inr (length xs, xs @ l # r # ys, al')"
    "alloc_ok al'" "m_index al' = Suc (m_index al)" "owned al = Suc (owned al')"
proof -
  have b: "m_address b = pa p" "p + np b < 2 ^ 51"
    using assms(2,3) layout_le [of "p + np b" ys q] by auto
  note s = Split_at [OF b(1) assms(4,5) b(2) assms(8)]
  obtain al' where a: "allocator_Allocate al = Inr al'" "alloc_ok al'" "m_index al' = Suc (m_index al)"
    "owned al = Suc (owned al')"
    using Allocate_ok [OF assms(6,7)] .
  have "tree_insert l (xs @ r # ys) = (length xs, xs @ l # r # ys)"
    using tree_insert_at [OF assms(1) s(1) assms(4) s(3)] assms(5) b(2) by simp
  then have "split_at (length xs) (pa c) (xs @ b # ys, al) = Inr (length xs, xs @ l # r # ys, al')"
    using a(1) assms(8) by (simp add: split_at_def)
  then show ?thesis using a(2-4) by (rule that)
qed

end
