(* ===== verification/BlockManager_Update.thy ===== *)
theory BlockManager_Update
  imports BlockManager_Laws
begin

text \<open>
  The update loop and the coalescing pass. The interface is the locale \<open>block_update\<close>: a change of
  blocks that depends on their properties only. For every such change the range update succeeds,
  applies the change to exactly the pages of the range, keeps the layout, loses no block, and
  leaves no two neighbours that could be merged.
\<close>

section \<open>Mapping over a range of pages\<close>

definition map_range :: "nat \<Rightarrow> nat \<Rightarrow> ('a \<Rightarrow> 'a) \<Rightarrow> 'a list \<Rightarrow> 'a list" where
  "map_range k n g xs = map (\<lambda>(i, x). if k \<le> i \<and> i < k + n then g x else x) (enumerate 0 xs)"

lemma length_map_range [simp]: "length (map_range k n g xs) = length xs"
  by (simp add: map_range_def)

lemma nth_map_range:
  "i < length xs \<Longrightarrow> map_range k n g xs ! i = (if k \<le> i \<and> i < k + n then g (xs ! i) else xs ! i)"
  by (simp add: map_range_def nth_enumerate_eq)

lemma map_range_0 [simp]: "map_range k 0 g xs = xs"
  by (rule nth_equalityI) (auto simp: nth_map_range)

lemma map_range_compose: "map_range (k + m) n g (map_range k m g xs) = map_range k (m + n) g xs"
  by (rule nth_equalityI) (auto simp: nth_map_range)

lemma map_range_middle:
  assumes "i + n \<le> m"
  shows "map_range (length xs + i) n g (xs @ replicate m x @ ys) =
    xs @ replicate i x @ replicate n (g x) @ replicate (m - i - n) x @ ys"
  using assms by (intro nth_equalityI) (auto simp: nth_map_range nth_append)

section \<open>Neighbours\<close>

text \<open>Neighbours whose common border is one of the pages in \<open>P\<close> cannot be merged.\<close>

definition apart :: "(nat \<Rightarrow> bool) \<Rightarrow> KMemoryBlock \<Rightarrow> KMemoryBlock \<Rightarrow> bool" where
  "apart P b c \<longleftrightarrow> (P (page c) \<longrightarrow> \<not> CanMergeWith b c)"

lemma apart_left_cong:
  "props b = props b' \<Longrightarrow> right_marks b = right_marks b' \<Longrightarrow> apart P b c = apart P b' c"
  by (simp add: apart_def CanMergeWith_props)

lemma apart_right_cong:
  "props c = props c' \<Longrightarrow> left_marks c = left_marks c' \<Longrightarrow> page c = page c' \<Longrightarrow> apart P b c = apart P b c'"
  by (simp add: apart_def CanMergeWith_props)

text \<open>Replacing one block by several that agree with it at its two ends, where the borders count.\<close>

lemma successively_replace:
  assumes "successively Q (xs @ b # ys)" "ms \<noteq> []" "successively Q ms"
    and "\<And>x. Q x b \<Longrightarrow> Q x (hd ms)" "\<And>y. y \<in> set ys \<Longrightarrow> y = hd ys \<Longrightarrow> Q b y \<Longrightarrow> Q (last ms) y"
  shows "successively Q (xs @ ms @ ys)"
proof -
  have "ys = [] \<or> Q (last ms) (hd ys)"
    using assms(1,5) by (cases ys) (auto simp: successively_append_iff)
  moreover have "xs = [] \<or> Q (last xs) (hd ms)"
    using assms(1,4) by (auto simp: successively_append_iff)
  ultimately show ?thesis
    using assms(1-3) by (auto simp: successively_append_iff successively_Cons)
qed

section \<open>Updating\<close>

text \<open>Splitting before and after brings the part to be changed into a block of its own.\<close>

lemma split_before_ok:
  assumes "layout p0 xs p" "layout p (b # ys) q" "q < 2 ^ 51" "p \<le> c" "c < p + np b"
    and "alloc_ok al" "m_index al + (if c = p then 0 else 1) \<le> 2"
  obtains L b1 al1 where
    "split_before (length xs) (pa c) (xs @ b # ys, al) = Inr (length (xs @ L), pa c, (xs @ L @ b1 # ys, al1))"
    "layout p L c" "m_address b1 = pa c" "np b1 = p + np b - c" "pages_of L = replicate (c - p) (props b)"
    "props b1 = props b" "right_marks b1 = right_marks b" "alloc_ok al1"
    "m_index al1 = m_index al + (if c = p then 0 else 1)" "length L + owned al1 = owned al"
    "L \<noteq> [] \<longrightarrow> props (hd L) = props b \<and> left_marks (hd L) = left_marks b \<and> page (hd L) = page b" "length L \<le> 1"
    "L = [] \<longrightarrow> b1 = b"
proof (cases "c = p")
  case True
  then show ?thesis
    using that [of "[]" b al] assms(2,6) by (simp add: split_before_def GetMemoryInfo_def)
next
  case False
  have b: "m_address b = pa p" "p + np b < 2 ^ 51"
    using assms(2,3) layout_le [of "p + np b" ys q] by auto
  obtain l r where lr: "Split (pa c) b = (l, r)" by fastforce
  have c: "p < c" using False assms(4) by auto
  have i: "m_index al < 2" using False assms(7) by auto
  obtain al' where a: "split_at (length xs) (pa c) (xs @ b # ys, al) = Inr (length xs, xs @ l # r # ys, al')"
    "alloc_ok al'" "m_index al' = Suc (m_index al)" "owned al = Suc (owned al')"
    using split_at_ok [OF assms(1-3) c assms(5,6) i lr] .
  note s = Split_at [OF b(1) c assms(5) b(2) lr]
  have "pa p \<noteq> pa c" using pa_eq [of p c] c assms(5) b(2) by auto
  then show ?thesis
    using that [of "[l]" r al'] a s False b c assms(5)
    by (auto simp: split_before_def GetMemoryInfo_def page_def nth_append)
qed

lemma split_after_ok:
  assumes "layout p0 xs c" "layout c (b # ys) q" "q < 2 ^ 51" "0 < n" "c + n \<le> q"
    and "alloc_ok al" "m_index al + (if np b \<le> n then 0 else 1) \<le> 2"
  obtains m R al2 where
    "split_after (length xs) (pa c) (pa n) (xs @ b # ys, al) = Inr (length xs, xs @ m # R @ ys, al2)"
    "m_address m = pa c" "np m = min (np b) n" "layout (c + min (np b) n) R (c + np b)" "props m = props b"
    "pages_of R = replicate (np b - n) (props b)" "left_marks m = left_marks b" "alloc_ok al2"
    "m_index al2 = m_index al + (if np b \<le> n then 0 else 1)" "length R + owned al2 = owned al"
    "R \<noteq> [] \<longrightarrow> props (last R) = props b \<and> right_marks (last R) = right_marks b" "length R \<le> 1"
    "R = [] \<longrightarrow> m = b"
proof -
  have b: "m_address b = pa c" "0 < np b" "c + np b < 2 ^ 51"
    using assms(2,3) layout_le [of "c + np b" ys q] by auto
  have sz: "info_size (GetMemoryInfo ((xs @ b # ys) ! length xs)) = pa (np b)"
    using block_at(3) [OF b(1,3)] by simp
  have less: "pa n < pa (np b) \<longleftrightarrow> n < np b"
    using pa_less [of n "np b"] assms(3,5) b(3) by simp
  show ?thesis
  proof (cases "np b \<le> n")
    case True
    then have "split_after (length xs) (pa c) (pa n) (xs @ b # ys, al) = Inr (length xs, xs @ b # ys, al)"
      using sz less by (simp add: split_after_def)
    then show ?thesis
      using that [of b "[]" al] True b assms(6) by simp
  next
    case False
    obtain l r where lr: "Split (pa (c + n)) b = (l, r)" by fastforce
    have n: "c < c + n" "c + n < c + np b" using assms(4) False by auto
    have i: "m_index al < 2" using False assms(7) by auto
    obtain al' where a: "split_at (length xs) (pa (c + n)) (xs @ b # ys, al) = Inr (length xs, xs @ l # r # ys, al')"
      "alloc_ok al'" "m_index al' = Suc (m_index al)" "owned al = Suc (owned al')"
      using split_at_ok [OF assms(1-3) n assms(6) i lr] .
    note s = Split_at [OF b(1) n b(3) lr]
    have "split_after (length xs) (pa c) (pa n) (xs @ b # ys, al) = Inr (length xs, xs @ l # [r] @ ys, al')"
      using sz a(1) False less by (simp add: split_after_def pa_add)
    then show ?thesis
      using that [of l "[r]" al'] a s False n by (simp add: min_def)
  qed
qed

text \<open>What a step or a whole run of the loop on the pages \<open>c\<close> to \<open>c + n\<close> achieves.\<close>

definition updated ::
  "nat \<Rightarrow> nat \<Rightarrow> nat \<Rightarrow> nat \<Rightarrow> (page_props \<Rightarrow> page_props) \<Rightarrow> KMemoryBlock list \<times> UpdateAllocator \<Rightarrow> KMemoryBlock list \<times> UpdateAllocator \<Rightarrow> bool" where
  "updated p0 q c n g st st' \<longleftrightarrow>
     layout p0 (fst st') q \<and>
     pages_of (fst st') = map_range (c - p0) n g (pages_of (fst st)) \<and>
     alloc_ok (snd st') \<and>
     length (fst st') + owned (snd st') = length (fst st) + owned (snd st) \<and>
     (\<forall>P. (\<forall>x. c \<le> x \<and> x \<le> c + n \<longrightarrow> \<not> P x) \<longrightarrow> successively (apart P) (fst st) \<longrightarrow> successively (apart P) (fst st'))"

lemma updated_trans:
  assumes "updated p0 q c n g st1 st2" "updated p0 q (c + n) m g st2 st3" "p0 \<le> c"
  shows "updated p0 q c (n + m) g st1 st3"
  using assms map_range_compose [of "c - p0" n m g] by (auto simp: updated_def add.assoc)

text \<open>Carving a changed block \<open>m'\<close> out of \<open>b\<close>, with \<open>L\<close> before and \<open>R\<close> behind it.\<close>

lemma updated_carve:
  assumes "layout p0 xs p" "layout p (b # ys) q" "q < 2 ^ 51" "p \<le> c" "layout p L c"
    and "m_address m' = pa c" "np m' = e - c" "c < e" "layout e R (p + np b)"
    and "pages_of L = replicate (c - p) (props b)" "props m' = g (props b)" "pages_of R = replicate (p + np b - e) (props b)"
    and "L \<noteq> [] \<longrightarrow> props (hd L) = props b \<and> left_marks (hd L) = left_marks b \<and> page (hd L) = page b"
    and "R \<noteq> [] \<longrightarrow> props (last R) = props b \<and> right_marks (last R) = right_marks b"
    and "alloc_ok al2" "length L + length R + owned al2 = owned al" "length L \<le> 1" "length R \<le> 1"
  shows "updated p0 q c (e - c) g (xs @ b # ys, al) (xs @ (L @ m' # R) @ ys, al2)"
proof -
  have eb: "e \<le> p + np b" using layout_le [OF assms(9)] .
  have k: "c - p0 = length (pages_of xs) + (c - p)" "c - p + (e - c) \<le> np b" "p + np b - e = np b - (c - p) - (e - c)"
    using length_pages_of [OF assms(1)] assms(4,8) eb by auto
  have pages: "pages_of (xs @ (L @ m' # R) @ ys) = map_range (c - p0) (e - c) g (pages_of (xs @ b # ys))"
    unfolding k(1) using assms(7,10-12) by (simp add: map_range_middle [OF k(2)] k(3))
  have "layout e (R @ ys) q" using assms(2,9) by (auto simp: layout_append)
  then have "layout c (m' # R @ ys) q" using assms(6-8) by simp
  then have "layout p0 (xs @ (L @ m' # R) @ ys) q"
    using assms(1,5) layout_append by (metis append.assoc append_Cons)
  moreover have "successively (apart P) (xs @ (L @ m' # R) @ ys)"
    if P: "\<forall>x. c \<le> x \<and> x \<le> c + (e - c) \<longrightarrow> \<not> P x" and succ: "successively (apart P) (xs @ b # ys)" for P
  proof (rule successively_replace [OF succ])
    have bound: "p + np b \<le> q" using assms(2) layout_le by auto
    have notP: "\<not> P c" "\<not> P e" using P assms(8) by auto
    have pm: "page m' = c" using block_at(7) [OF assms(6)] assms(3,7,8) eb bound by simp
    have pR: "page (hd R) = e" if "R \<noteq> []"
      using that assms(9) block_at(7) [of "hd R" e] assms(3) bound layout_le [of "e + np (hd R)" "tl R" "p + np b"]
      by (cases R) auto
    show "successively (apart P) (L @ m' # R)"
      using assms(17,18) pm pR notP by (cases L; cases R) (auto simp: apart_def)
    show "apart P x (hd (L @ m' # R))" if "apart P x b" for x
      using that assms(13) pm notP apart_right_cong [of "hd L" b P x] by (cases L) (auto simp: apart_def)
    show "apart P (last (L @ m' # R)) y" if "y \<in> set ys" "y = hd ys" "apart P b y" for y
    proof (cases "R = []")
      case True
      have "p + np b = e" using True assms(9) by simp
      then have "page y = e"
        using that assms(2,3) block_at(7) [of y e] layout_le [of "e + np y" "tl ys" q] by (cases ys) auto
      then show ?thesis using notP by (simp add: apart_def)
    next
      case False
      then show ?thesis using that(3) assms(14) apart_left_cong [of "last R" b P y] by simp
    qed
  qed simp
  ultimately show ?thesis
    using pages assms(15,16) by (simp add: updated_def)
qed

locale block_update =
  fixes needs :: "KMemoryBlock \<Rightarrow> bool"
    and change :: "bool \<Rightarrow> bool \<Rightarrow> KMemoryBlock \<Rightarrow> KMemoryBlock"
    and N :: "page_props \<Rightarrow> bool"
    and g :: "page_props \<Rightarrow> page_props"
  assumes needs_props: "needs b \<longleftrightarrow> N (props b)"
    and change_address: "m_address (change left right b) = m_address b"
    and change_pages: "m_num_pages (change left right b) = m_num_pages b"
    and change_props: "N (props b) \<Longrightarrow> props (change left right b) = g (props b)"
    and skip_props: "\<not> N x \<Longrightarrow> g x = x"
begin

text \<open>One turn of the loop on a block that needs the change.\<close>

lemma change_turn:
  assumes "layout p0 xs p" "layout p (b # ys) q" "q < 2 ^ 51" "p \<le> c" "c < p + np b" "0 < n" "c + n \<le> q"
    and "alloc_ok al" "m_index al + (if c = p then 1 else 2) \<le> 2" "needs b"
  defines "e \<equiv> min (p + np b) (c + n)"
  obtains xs' ys' al' where
    "update_loop (Suc fuel) needs change A E (pa c) (of_nat n) (length xs) (xs @ b # ys, al) =
       update_loop fuel needs change A E (pa e) (of_nat (c + n - e)) (length xs') (xs' @ ys', al')"
    "layout p0 xs' e" "layout e ys' q" "updated p0 q c (e - c) g (xs @ b # ys, al) (xs' @ ys', al')"
    "e < c + n \<Longrightarrow> ys' = ys \<and> m_index al' \<le> 1"
    "\<exists>zs. xs' = xs @ zs \<and> (p < c \<longrightarrow> zs \<noteq> [] \<and> p + np (hd zs) \<le> c)"
proof -
  have i1: "m_index al + (if c = p then 0 else 1) \<le> 2" using assms(9) by (auto split: if_splits)
  obtain L b1 al1 where L: "split_before (length xs) (pa c) (xs @ b # ys, al) = Inr (length (xs @ L), pa c, (xs @ L @ b1 # ys, al1))"
    "layout p L c" "m_address b1 = pa c" "np b1 = p + np b - c" "pages_of L = replicate (c - p) (props b)"
    "props b1 = props b" "right_marks b1 = right_marks b" "alloc_ok al1"
    "m_index al1 = m_index al + (if c = p then 0 else 1)" "length L + owned al1 = owned al"
    "L \<noteq> [] \<longrightarrow> props (hd L) = props b \<and> left_marks (hd L) = left_marks b \<and> page (hd L) = page b" "length L \<le> 1"
    "L = [] \<longrightarrow> b1 = b"
    using split_before_ok [OF assms(1-5,8) i1] .
  have l1: "layout p0 (xs @ L) c" "layout c (b1 # ys) q"
    using L(2-4) assms(1,2,4,5) by (auto simp: layout_append)
  have i2: "m_index al1 + (if np b1 \<le> n then 0 else 1) \<le> 2" using assms(9) L(9) by (auto split: if_splits)
  obtain m R al2 where R: "split_after (length (xs @ L)) (pa c) (pa n) ((xs @ L) @ b1 # ys, al1) = Inr (length (xs @ L), (xs @ L) @ m # R @ ys, al2)"
    "m_address m = pa c" "np m = min (np b1) n" "layout (c + min (np b1) n) R (c + np b1)" "props m = props b1"
    "pages_of R = replicate (np b1 - n) (props b1)" "left_marks m = left_marks b1" "alloc_ok al2"
    "m_index al2 = m_index al1 + (if np b1 \<le> n then 0 else 1)" "length R + owned al2 = owned al1"
    "R \<noteq> [] \<longrightarrow> props (last R) = props b1 \<and> right_marks (last R) = right_marks b1" "length R \<le> 1"
    "R = [] \<longrightarrow> m = b1"
    using split_after_ok [OF l1 assms(3,6,7) L(8) i2] .
  have e: "c + np m = e" "c < e" "e \<le> c + n" "e \<le> q"
    using R(3) L(4) assms(5-7) by (auto simp: e_def min_def)
  define m' where "m' = change (pa c = A) (pa e = E) m"
  define xs' where "xs' = xs @ L @ [m']"
  define ys' where "ys' = R @ ys"
  have m': "m_address m' = pa c" "np m' = np m" "props m' = g (props b)"
    using R(2,5) L(6) assms(10) by (auto simp: m'_def change_address change_pages change_props needs_props)
  have layout: "layout p0 xs' e" "layout e ys' q"
    using l1 m' e R(3,4) L(4) by (auto simp: xs'_def ys'_def layout_append)
  have R': "np m' = e - c" "layout e R (p + np b)" "pages_of R = replicate (p + np b - e) (props b)"
    "R \<noteq> [] \<longrightarrow> props (last R) = props b \<and> right_marks (last R) = right_marks b"
    "length L + length R + owned al2 = owned al"
    using R(3,4,6,10,11) L(4,6,7,10) e(1) m'(2) assms(4,5) by (auto simp: e_def min_def split: if_splits)
  note carved = updated_carve [where g = g, OF assms(1-4) L(2) m'(1) R'(1) e(2) R'(2) L(5) m'(3) R'(3) L(11) R'(4) R(8) R'(5) L(12) R(12)]
  have cont: "ys' = ys \<and> m_index al2 \<le> 1" if "e < c + n"
  proof -
    have "e = p + np b" using that by (simp add: e_def min_def split: if_splits)
    then have "R = []" "np b1 \<le> n" using R'(2) layout_same L(4) that assms(4,5) by auto
    then show ?thesis using R(9) L(9) assms(9) by (auto simp: ys'_def split: if_splits)
  qed
  have pre: "\<exists>zs. xs' = xs @ zs \<and> (p < c \<longrightarrow> zs \<noteq> [] \<and> p + np (hd zs) \<le> c)"
    using L(2) layout_le by (intro exI [of _ "L @ [m']"]) (cases L, auto simp: xs'_def)
  show ?thesis
  proof (rule that [of xs' ys' al2])
    have info: "info_address (GetMemoryInfo m) = pa c" "info_end_address (GetMemoryInfo m) = pa e"
      "info_size (GetMemoryInfo m) = pa (np m)" "info_num_pages (GetMemoryInfo m) = of_nat (np m)"
      using block_at [OF R(2)] e assms(3) by auto
    have "of_nat n - of_nat (np m) = (of_nat (c + n - e) :: u64)"
      using e by (simp add: of_nat_diff flip: e(1))
    moreover have "of_nat n \<noteq> (0 :: u64)"
      using of_nat_pages_zero [of n] assms(3,6,7) by simp
    ultimately show "update_loop (Suc fuel) needs change A E (pa c) (of_nat n) (length xs) (xs @ b # ys, al) =
       update_loop fuel needs change A E (pa e) (of_nat (c + n - e)) (length xs') (xs' @ ys', al2)"
      using L(1) R(1) assms(10) info e(1)
      by (simp add: times_PageSize pa_add xs'_def ys'_def m'_def Let_def nth_append list_update_append)
    show "updated p0 q c (e - c) g (xs @ b # ys, al) (xs' @ ys', al2)"
      using carved by (simp add: xs'_def ys'_def)
  qed (use layout cont pre in auto)
qed

text \<open>One turn on a block that is left alone.\<close>

lemma skip_turn:
  assumes "layout p0 xs p" "layout p (b # ys) q" "q < 2 ^ 51" "p \<le> c" "c < p + np b" "0 < n" "c + n \<le> q"
    and "alloc_ok al" "\<not> needs b"
  defines "e \<equiv> min (p + np b) (c + n)"
  shows "update_loop (Suc fuel) needs change A E (pa c) (of_nat n) (length xs) (xs @ b # ys, al) =
       update_loop fuel needs change A E (pa e) (of_nat (c + n - e)) (Suc (length xs)) (xs @ b # ys, al)"
    "updated p0 q c (e - c) g (xs @ b # ys, al) (xs @ b # ys, al)"
proof -
  have b: "m_address b = pa p" "p + np b \<le> q" "p + np b < 2 ^ 51"
    using assms(2,3) layout_le [of "p + np b" ys q] by auto
  have info: "info_end_address (GetMemoryInfo ((xs @ b # ys) ! length xs)) = pa (p + np b)"
    using block_at(4) [OF b(1,3)] by simp
  have less: "pa (c + n) < pa (p + np b) \<longleftrightarrow> c + n < p + np b"
    using pa_less [of "c + n" "p + np b"] assms(3,7) b(3) by simp
  have rest: "(pa (c + n) - pa (p + np b)) div PageSize = of_nat (c + n - (p + np b))" if "\<not> c + n < p + np b"
    using that assms(3,7) by (simp add: pa_diff pa_div)
  have "of_nat n \<noteq> (0 :: u64)" using of_nat_pages_zero [of n] assms(3,6,7) by simp
  then show "update_loop (Suc fuel) needs change A E (pa c) (of_nat n) (length xs) (xs @ b # ys, al) =
       update_loop fuel needs change A E (pa e) (of_nat (c + n - e)) (Suc (length xs)) (xs @ b # ys, al)"
    using assms(9) info less rest by (auto simp: times_PageSize pa_add Let_def e_def min_def)
  have k: "c - p0 = length (pages_of xs) + (c - p)" "c - p + (e - c) \<le> np b"
    using length_pages_of [OF assms(1)] assms(4,5) by (auto simp: e_def min_def)
  have "g (props b) = props b" using assms(9) skip_props needs_props by blast
  then have "map_range (c - p0) (e - c) g (pages_of (xs @ b # ys)) =
      pages_of xs @ replicate (c - p + ((e - c) + (np b - (c - p) - (e - c)))) (props b) @ pages_of ys"
    unfolding k(1) pages_of_simps map_range_middle [OF k(2)] by (simp add: replicate_add)
  also have "c - p + ((e - c) + (np b - (c - p) - (e - c))) = np b" using k(2) by simp
  finally show "updated p0 q c (e - c) g (xs @ b # ys, al) (xs @ b # ys, al)"
    using assms(1,2,8) by (auto simp: updated_def layout_append)
qed

lemma updated_none: "layout p0 bs q \<Longrightarrow> alloc_ok al \<Longrightarrow> updated p0 q c 0 g (bs, al) (bs, al)"
  by (simp add: updated_def)

lemma update_loop_ok:
  assumes "layout p0 xs p" "layout p (b # ys) q" "q < 2 ^ 51" "p \<le> c" "c < p + np b" "0 < n" "c + n \<le> q"
    and "alloc_ok al" "m_index al + (if c = p then 1 else 2) \<le> 2" "length ys + 2 \<le> fuel"
  shows "\<exists>st'. update_loop fuel needs change A E (pa c) (of_nat n) (length xs) (xs @ b # ys, al) = Inr st' \<and>
    updated p0 q c n g (xs @ b # ys, al) st' \<and>
    (\<exists>zs. fst st' = xs @ zs \<and> (needs b \<and> p < c \<longrightarrow> zs \<noteq> [] \<and> p + np (hd zs) \<le> c) \<and>
       (\<not> needs b \<longrightarrow> zs \<noteq> [] \<and> hd zs = b))"
  using assms
proof (induction ys arbitrary: xs b p c n al fuel)
  case Nil
  define e where "e = min (p + np b) (c + n)"
  obtain f where f: "fuel = Suc (Suc f)"
    using Nil.prems(10) by (metis add_2_eq_Suc' le_Suc_ex add_Suc list.size(3) add_0)
  have e: "e = c + n" using Nil.prems(2,7) by (simp add: e_def)
  show ?case
  proof (cases "needs b")
    case True
    show ?thesis
      by (rule change_turn [OF Nil.prems(1-9) True, folded e_def, of "Suc f" A E]) (use e f True in auto)
  next
    case False
    show ?thesis
      using skip_turn(1) [OF Nil.prems(1-8) False, folded e_def, of "Suc f" A E]
        skip_turn(2) [OF Nil.prems(1-8) False, folded e_def] e f False by simp
  qed
next
  case (Cons b2 ys)
  define e where "e = min (p + np b) (c + n)"
  obtain f where f: "fuel = Suc f" "length ys + 2 \<le> f" using Cons.prems(10) by (cases fuel) auto
  have ec: "c < e" "e \<le> c + n" using Cons.prems(5,6) by (auto simp: e_def)
  obtain xs' ys' al' where turn:
    "update_loop fuel needs change A E (pa c) (of_nat n) (length xs) (xs @ b # b2 # ys, al) =
       update_loop f needs change A E (pa e) (of_nat (c + n - e)) (length xs') (xs' @ ys', al')"
    "updated p0 q c (e - c) g (xs @ b # b2 # ys, al) (xs' @ ys', al')"
    "e < c + n \<Longrightarrow> layout p0 xs' e \<and> layout e ys' q \<and> ys' = b2 # ys \<and> m_index al' \<le> 1"
    "\<exists>zs. xs' = xs @ zs \<and> (needs b \<and> p < c \<longrightarrow> zs \<noteq> [] \<and> p + np (hd zs) \<le> c) \<and>
       (\<not> needs b \<longrightarrow> zs \<noteq> [] \<and> hd zs = b)"
  proof (cases "needs b")
    case True
    show ?thesis
    proof (rule change_turn [OF Cons.prems(1-9) True, folded e_def, of f A E])
      fix xs' ys' al'
      assume t: "update_loop (Suc f) needs change A E (pa c) (of_nat n) (length xs) (xs @ b # b2 # ys, al) =
          update_loop f needs change A E (pa e) (of_nat (c + n - e)) (length xs') (xs' @ ys', al')"
        "layout p0 xs' e" "layout e ys' q" "updated p0 q c (e - c) g (xs @ b # b2 # ys, al) (xs' @ ys', al')"
        "e < c + n \<Longrightarrow> ys' = b2 # ys \<and> m_index al' \<le> 1"
        "\<exists>zs. xs' = xs @ zs \<and> (p < c \<longrightarrow> zs \<noteq> [] \<and> p + np (hd zs) \<le> c)"
      show ?thesis
        by (rule that [of xs' ys' al']) (use t f(1) True in \<open>simp_all del: update_loop.simps\<close>)
    qed
  next
    case False
    note sk = skip_turn(1) [OF Cons.prems(1-8) False, folded e_def, of f A E]
      skip_turn(2) [OF Cons.prems(1-8) False, folded e_def]
    have "layout p0 (xs @ [b]) e \<and> layout e (b2 # ys) q \<and> m_index al \<le> 1" if "e < c + n"
    proof -
      have "e = p + np b" using that by (simp add: e_def min_def split: if_splits)
      then show ?thesis
        using Cons.prems(1,2,9) by (auto simp: layout_append split: if_splits)
    qed
    then show ?thesis using that [of "xs @ [b]" "b2 # ys" al] sk f(1) False by simp
  qed
  show ?case
  proof (cases "e = c + n")
    case True
    then show ?thesis using turn(1,2,4) f(2) ec by (cases f) auto
  next
    case False
    then have y: "ys' = b2 # ys" "m_index al' \<le> 1" and l: "layout p0 xs' e" "layout e (b2 # ys) q" using turn(3) ec by auto
    have al': "alloc_ok al'" using turn(2) by (simp add: updated_def)
    have "0 < np b2" using Cons.prems(2) by simp
    then obtain st' where st': "update_loop f needs change A E (pa e) (of_nat (c + n - e)) (length xs') (xs' @ b2 # ys, al') = Inr st'"
      "updated p0 q e (c + n - e) g (xs' @ b2 # ys, al') st'" "\<exists>zs. fst st' = xs' @ zs"
      using Cons.IH [OF l Cons.prems(3), of e "c + n - e" al' f] False ec Cons.prems(7) al' y(2) f(2)
      by auto
    have "p0 \<le> c" using Cons.prems(1,4) layout_le by fastforce
    moreover have "updated p0 q (c + (e - c)) (c + n - e) g (xs' @ b2 # ys, al') st'" using st'(2) ec by simp
    ultimately have "updated p0 q c (e - c + (c + n - e)) g (xs @ b # b2 # ys, al) st'"
      using updated_trans [OF turn(2) [unfolded y]] by blast
    moreover have "\<exists>zs. fst st' = xs @ zs \<and> (needs b \<and> p < c \<longrightarrow> zs \<noteq> [] \<and> p + np (hd zs) \<le> c) \<and>
       (\<not> needs b \<longrightarrow> zs \<noteq> [] \<and> hd zs = b)"
      using turn(4) st'(3) by force
    ultimately show ?thesis using turn(1) st'(1) ec y by auto
  qed
qed

end

section \<open>Coalescing\<close>

abbreviation settled :: "KMemoryBlock list \<Rightarrow> bool" where
  "settled \<equiv> successively (\<lambda>b c. \<not> CanMergeWith b c)"

lemma merge_facts:
  assumes "m_address b = pa p" "p + np b + np c < 2 ^ 51" "CanMergeWith b c"
  defines "m \<equiv> Block_Add c b"
  shows "m_address m = pa p" "np m = np b + np c" "props m = props b" "props b = props c"
    "left_marks m = left_marks b" "right_marks m = right_marks c" "page m = page b"
proof -
  have c: "props b = props c" "right_marks b = 0" "left_marks c = 0"
    using assms(3) by (auto simp: CanMergeWith_props)
  show "m_address m = pa p" "props m = props b" "props b = props c" "page m = page b"
    using assms(1) c(1) by (simp_all add: m_def Block_Add_def props_def page_def)
  show "np m = np b + np c"
    using assms(2) by (simp add: m_def Block_Add_def unat_word_ariths)
  show "left_marks m = left_marks b" "right_marks m = right_marks c"
    using c(2,3) by (simp_all add: m_def Block_Add_def left_marks_def right_marks_def bit.conj_disj_distrib2)
qed

text \<open>Behind the end of the range the borders were never disturbed.\<close>

lemma settled_beyond:
  assumes "layout r (x # zs) q" "q < 2 ^ 51" "e < r + np x" "successively (apart (\<lambda>x. e < x)) (x # zs)"
  shows "settled (x # zs)"
  using assms
proof (induction zs arbitrary: r x)
  case (Cons z zs)
  have "page z = r + np x"
    using Cons.prems(1,2) block_at(7) [of z "r + np x"] layout_le [of "r + np x + np z" zs q] by auto
  then show ?case using Cons.IH [of "r + np x" z] Cons.prems by (auto simp: apart_def)
qed simp

lemma settled_append: "settled (xs @ [b]) \<Longrightarrow> settled (b # ys) \<Longrightarrow> settled (xs @ b # ys)"
  by (auto simp: successively_append_iff)

lemma coalesce_turn:
  assumes "layout p (b # c # ys) q" "q < 2 ^ 51" "e \<le> q"
  shows "coalesce_loop (Suc f) (pa e) (length xs) (xs @ b # c # ys, al) =
    (if CanMergeWith b c
     then if e < p + np b + np c then Inr (xs @ Block_Add c b # ys, allocator_Free al)
          else coalesce_loop f (pa e) (length xs) (xs @ Block_Add c b # ys, allocator_Free al)
     else if e < p + np b + np c then Inr (xs @ b # c # ys, al)
          else coalesce_loop f (pa e) (length (xs @ [b])) ((xs @ [b]) @ c # ys, al))"
proof -
  have bound: "p + np b + np c \<le> q" and bc: "m_address b = pa p" "m_address c = pa (p + np b)"
    using assms(1) layout_le [of "p + np b + np c" ys q] by auto
  have less: "pa e < pa (p + np b + np c) \<longleftrightarrow> e < p + np b + np c"
    using pa_less [of e "p + np b + np c"] assms(2,3) bound by simp
  have ec: "info_end_address (GetMemoryInfo c) = pa (p + np b + np c)"
    using block_at(4) [OF bc(2)] bound assms(2) by simp
  have em: "info_end_address (GetMemoryInfo (Block_Add c b)) = pa (p + np b + np c)" if "CanMergeWith b c"
    using merge_facts(1,2) [OF bc(1) _ that] block_at(4) [of "Block_Add c b" p] bound assms(2) by (simp add: add.assoc)
  have at: "(xs @ b # c # ys) ! length xs = b" "(xs @ b # c # ys) ! Suc (length xs) = c"
    by (simp_all add: nth_append)
  have er: "(tree_erase (Suc (length xs)) (xs @ b # c # ys))[length xs := Block_Add c b] = xs @ Block_Add c b # ys"
    by (simp add: tree_erase_def)
  show ?thesis
    using ec em by (simp add: Let_def at er less)
qed

lemma coalesce_loop_ok:
  assumes "layout p0 xs p" "layout p (b # ys) q" "q < 2 ^ 51" "e \<le> q" "alloc_ok al" "length ys < fuel"
    and "settled (xs @ [b])" "successively (apart (\<lambda>x. e < x)) (b # ys)"
  shows "\<exists>bs' al'. coalesce_loop fuel (pa e) (length xs) (xs @ b # ys, al) = Inr (bs', al') \<and>
    layout p0 bs' q \<and> pages_of bs' = pages_of (xs @ b # ys) \<and> alloc_ok al' \<and>
    length bs' + owned al' = length (xs @ b # ys) + owned al \<and> settled bs'"
  using assms
proof (induction ys arbitrary: xs p b al fuel)
  case Nil
  then show ?case by (cases fuel) (auto simp: layout_append)
next
  case (Cons c ys)
  obtain f where f: "fuel = Suc f" "length ys < f" using Cons.prems(6) by (cases fuel) auto
  have b: "m_address b = pa p" "layout (p + np b) (c # ys) q" using Cons.prems(2) by auto
  have bound: "p + np b + np c \<le> q" using b(2) layout_le by auto
  note turn = coalesce_turn [OF Cons.prems(2-4), of f xs al]
  show ?case
  proof (cases "CanMergeWith b c")
    case True
    define m where "m = Block_Add c b"
    note mf = merge_facts [OF b(1) _ True, folded m_def]
    have m: "m_address m = pa p" "np m = np b + np c" "props m = props b" "props m = props c"
      "left_marks m = left_marks b" "right_marks m = right_marks c"
      using mf bound Cons.prems(3) by auto
    have l: "layout p (m # ys) q" using m(1,2) Cons.prems(2) by (simp add: add.assoc)
    have st: "settled (xs @ [m])"
      using Cons.prems(7) m(3,5) by (auto simp: successively_append_iff CanMergeWith_props)
    have ap: "successively (apart (\<lambda>x. e < x)) (m # ys)"
      using Cons.prems(8) apart_left_cong [OF m(4,6)] by (cases ys) auto
    have pages: "pages_of (xs @ m # ys) = pages_of (xs @ b # c # ys)"
      using m(2-4) by (simp add: replicate_add)
    note al = Free_ok [OF Cons.prems(5)]
    show ?thesis
    proof (cases "e < p + np b + np c")
      case True
      have "settled (xs @ m # ys)"
        using settled_append [OF st settled_beyond [OF l Cons.prems(3) _ ap]] True m(2) by (simp add: add.assoc)
      then show ?thesis
        using turn \<open>CanMergeWith b c\<close> True pages al l Cons.prems(1) unfolding f m_def [symmetric]
        by (auto simp: layout_append)
    next
      case False
      then show ?thesis
        using turn \<open>CanMergeWith b c\<close> pages al Cons.IH [OF Cons.prems(1) l Cons.prems(3,4) al(1) f(2) st ap]
        unfolding f m_def [symmetric] by auto
    qed
  next
    case False
    have st: "settled ((xs @ [b]) @ [c])" using Cons.prems(7) False by (auto simp: successively_append_iff)
    have l: "layout p0 (xs @ [b]) (p + np b)" using Cons.prems(1,2) by (auto simp: layout_append)
    have ap: "successively (apart (\<lambda>x. e < x)) (c # ys)" using Cons.prems(8) by simp
    show ?thesis
    proof (cases "e < p + np b + np c")
      case True
      have "settled ((xs @ [b]) @ c # ys)"
        using settled_append [OF st settled_beyond [OF b(2) Cons.prems(3) True ap]] .
      then show ?thesis
        using turn False True Cons.prems(1,2,5) unfolding f by (auto simp: layout_append)
    next
      case e: False
      show ?thesis
        using turn False e Cons.IH [OF l b(2) Cons.prems(3-5) f(2) st ap] unfolding f by auto
    qed
  qed
qed

end
