(* ===== verification/BlockManager_Spec.thy ===== *)
theory BlockManager_Spec
  imports BlockManager_Update
begin

text \<open>
  The contract of the block manager: an address space is a list of pages with their properties,
  and each update of a range is the map of one function over the pages of the range.
\<close>

section \<open>The invariant\<close>

definition first_page :: "KMemoryBlockManager \<Rightarrow> nat" where
  "first_page m = unat (m_start_address m) div 4096"

definition end_page :: "KMemoryBlockManager \<Rightarrow> nat" where
  "end_page m = unat (m_end_address m) div 4096"

definition manager_wf :: "KMemoryBlockManager \<Rightarrow> bool" where
  "manager_wf m \<longleftrightarrow>
     m_start_address m = pa (first_page m) \<and> m_end_address m = pa (end_page m) \<and> end_page m < 2 ^ 51 \<and>
     layout (first_page m) (m_memory_block_tree m) (end_page m) \<and> settled (m_memory_block_tree m)"

definition manager_pages :: "KMemoryBlockManager \<Rightarrow> page_props list" where
  "manager_pages m = pages_of (m_memory_block_tree m)"

definition in_range :: "KMemoryBlockManager \<Rightarrow> nat \<Rightarrow> nat \<Rightarrow> bool" where
  "in_range m a n \<longleftrightarrow> first_page m \<le> a \<and> 0 < n \<and> a + n \<le> end_page m"

text \<open>
  The range does not start inside the first block, or the first block is to be changed; otherwise
  the coalescing pass steps back from the first block.
\<close>

definition start_clear :: "(KMemoryBlock \<Rightarrow> bool) \<Rightarrow> KMemoryBlockManager \<Rightarrow> nat \<Rightarrow> bool" where
  "start_clear needs m a \<longleftrightarrow>
     (case m_memory_block_tree m of
        [] \<Rightarrow> True
      | b # _ \<Rightarrow> a = first_page m \<or> first_page m + np b \<le> a \<or> needs b)"

lemma settled_apart: "settled bs \<Longrightarrow> successively (apart P) bs"
  by (erule successively_mono) (simp add: apart_def)

text \<open>Borders before the range were settled all along.\<close>

lemma settled_before:
  assumes "layout p0 (xs @ [b]) r" "r < 2 ^ 51" "successively (apart P) (xs @ [b])"
    and "\<And>x. x < a \<Longrightarrow> P x" "xs \<noteq> [] \<Longrightarrow> page b < a"
  shows "settled (xs @ [b])"
  using assms(1,3,5)
proof (induction xs arbitrary: p0)
  case (Cons x xs)
  obtain d ds where d: "xs @ [b] = d # ds" by (cases xs) auto
  have l: "layout (p0 + np x) (xs @ [b]) r" using Cons.prems(1) by simp
  have "page d = p0 + np x"
    using l block_at(7) [of d "p0 + np x"] layout_le [of "p0 + np x + np d" ds r] assms(2) by (simp add: d)
  moreover have "p0 + np x \<le> page b" using layout_page_bound [OF l assms(2), of b] by simp
  ultimately have "\<not> CanMergeWith x d"
    using Cons.prems(2,3) assms(4) by (simp add: d apart_def)
  moreover have "settled (xs @ [b])" using Cons.IH [OF l] Cons.prems(2,3) by (auto simp: d)
  ultimately show ?case by (simp add: d)
qed simp

text \<open>The coalescing pass after the range \<open>a\<close> to \<open>a + n\<close> was updated.\<close>

lemma CoalesceForUpdate_ok:
  assumes "layout p0 bs q" "q < 2 ^ 51" "p0 \<le> a" "0 < n" "a + n \<le> q" "alloc_ok al"
    and "successively (apart (\<lambda>x. x < a \<or> a + n < x)) bs"
    and "a = p0 \<or> FindIterator bs (pa a) \<noteq> 0"
  shows "\<exists>bs' al'. CoalesceForUpdate (pa p0) (pa a) (of_nat n) (bs, al) = Inr (bs', al') \<and>
    layout p0 bs' q \<and> pages_of bs' = pages_of bs \<and> alloc_ok al' \<and>
    length bs' + owned al' = length bs + owned al \<and> settled bs'"
proof -
  have aq: "a < q" using assms(4,5) by simp
  obtain xs b ys p where f: "bs = xs @ b # ys" "layout p0 xs p" "layout p (b # ys) q" "p \<le> a" "a < p + np b"
    using layout_find [OF assms(1,3) aq] .
  have pb: "page b = p" using f(3) block_at(7) [of b p] layout_le [of "p + np b" ys q] assms(2) by auto
  have it: "FindIterator bs (pa a) = length xs"
    using FindIterator_at [of p0 xs b ys q a] assms(1,2) f pb by simp
  have len: "length xs < length bs" by (simp add: f(1))
  have ne: "pa a \<noteq> pa p0 \<longleftrightarrow> a \<noteq> p0" using pa_eq [of a p0] assms(2-5) by auto
  obtain xs1 b1 ys1 p1 where s: "bs = xs1 @ b1 # ys1" "layout p0 xs1 p1" "layout p1 (b1 # ys1) q"
    "length xs1 = (if pa a \<noteq> pa p0 then length xs - 1 else length xs)" "xs1 \<noteq> [] \<Longrightarrow> page b1 < a" "pa a \<noteq> pa p0 \<Longrightarrow> xs \<noteq> []"
  proof (cases "a = p0")
    case True
    then have "xs = []" using f(2,4) layout_le [OF f(2)] layout_same [of p0 xs] by simp
    then show ?thesis using that [of "[]" b ys p] f True by simp
  next
    case False
    then have "xs \<noteq> []" using assms(8) it by auto
    then obtain xs1 b1 where x: "xs = xs1 @ [b1]" by (metis rev_exhaust)
    obtain p1 where l: "layout p0 xs1 p1" "layout p1 [b1] p" using f(2) by (auto simp: x layout_append)
    have "layout p1 (b1 # b # ys) q" using l(2) f(3) by simp
    moreover have "page b1 < a"
      using l(2) f(4) block_at(7) [of b1 p1] layout_le [OF f(3)] assms(2) by auto
    ultimately show ?thesis
      using that [of xs1 b1 "b # ys" p1] f(1) l(1) False ne by (simp add: x)
  qed
  have l1: "layout p0 (xs1 @ [b1]) (p1 + np b1)" using s(2,3) by (auto simp: layout_append)
  have r1: "p1 + np b1 < 2 ^ 51" using s(3) assms(2) layout_le [of "p1 + np b1" ys1 q] by auto
  have ap: "successively (apart (\<lambda>x. x < a \<or> a + n < x)) (xs1 @ [b1])"
    using assms(7) by (auto simp: s(1) successively_append_iff)
  have st: "settled (xs1 @ [b1])"
    by (rule settled_before [OF l1 r1 ap, of a]) (use s(5) in auto)
  have "successively (apart (\<lambda>x. x < a \<or> a + n < x)) (b1 # ys1)"
    using assms(7) by (auto simp: s(1) successively_append_iff)
  then have ap2: "successively (apart (\<lambda>x. a + n < x)) (b1 # ys1)"
    by (rule successively_mono) (simp add: apart_def)
  have "CoalesceForUpdate (pa p0) (pa a) (of_nat n) (bs, al) =
      coalesce_loop (Suc (length bs)) (pa (a + n)) (length xs1) (xs1 @ b1 # ys1, al)"
    using it len s(4,6) s(1) [symmetric] ne
    by (cases "a = p0") (simp_all add: CoalesceForUpdate_def times_PageSize pa_add del: coalesce_loop.simps)
  then show ?thesis
    using coalesce_loop_ok [OF s(2,3) assms(2,5,6) _ st ap2, of "Suc (length bs)"] s(1)
    by (simp del: coalesce_loop.simps)
qed

section \<open>Range updates\<close>

text \<open>The search skips a first block that ends before the page.\<close>

lemma FindIterator_nonzero:
  assumes "layout p0 (b # bs) q" "q < 2 ^ 51" "p0 + np b \<le> a" "a < q"
  shows "FindIterator (b # bs) (pa a) \<noteq> 0"
  using assms Compare_at [of "new_KMemoryBlock (pa a) 1 (KMemoryState State_Free) 0 0" a b p0]
  by (simp add: FindIterator_def new_KMemoryBlock_def)

definition range_updated ::
  "(page_props \<Rightarrow> page_props) \<Rightarrow> nat \<Rightarrow> nat \<Rightarrow> KMemoryBlockManager \<times> UpdateAllocator \<Rightarrow> KMemoryBlockManager \<times> UpdateAllocator \<Rightarrow> bool" where
  "range_updated g a n ma ma' \<longleftrightarrow>
     (let (m, al) = ma; (m', al') = ma' in
      manager_wf m' \<and> m_start_address m' = m_start_address m \<and> m_end_address m' = m_end_address m \<and>
      manager_pages m' = map_range (a - first_page m) n g (manager_pages m) \<and>
      alloc_ok al' \<and>
      length (m_memory_block_tree m') + owned al' = length (m_memory_block_tree m) + owned al)"

context block_update
begin

lemma update_range_ok:
  assumes "manager_wf m" "alloc_ok al" "m_index al = 0" "in_range m a n" "start_clear needs m a"
  shows "\<exists>ma'. update_range needs change (pa a) (of_nat n) (m, al) = Inr ma' \<and> range_updated g a n (m, al) ma'"
proof -
  define p0 where "p0 = first_page m"
  define q where "q = end_page m"
  define bs where "bs = m_memory_block_tree m"
  have wf: "m_start_address m = pa p0" "m_end_address m = pa q" "q < 2 ^ 51" "layout p0 bs q" "settled bs"
    and r: "p0 \<le> a" "0 < n" "a + n \<le> q" "a < q"
    using assms(1,4) by (auto simp: manager_wf_def in_range_def p0_def q_def bs_def)
  obtain xs b ys p where f: "bs = xs @ b # ys" "layout p0 xs p" "layout p (b # ys) q" "p \<le> a" "a < p + np b"
    using layout_find [OF wf(4) r(1,4)] .
  have pb: "page b = p" using f(3) block_at(7) [of b p] layout_le [of "p + np b" ys q] wf(3) by auto
  have it: "FindIterator bs (pa a) = length xs"
    using FindIterator_at [of p0 xs b ys q a] wf(3,4) f pb by simp
  have al: "m_index al + (if a = p then 1 else 2) \<le> 2" "length ys + 2 \<le> length bs + 3"
    using assms(3) by (auto simp: f(1))
  obtain bs1 al1 zs where loop:
    "update_loop (length bs + 3) needs change (pa a) (pa a + of_nat n * PageSize) (pa a) (of_nat n) (length xs) (bs, al) = Inr (bs1, al1)"
    "updated p0 q a n g (bs, al) (bs1, al1)" "bs1 = xs @ zs" "needs b \<and> p < a \<longrightarrow> zs \<noteq> [] \<and> p + np (hd zs) \<le> a"
    using update_loop_ok [OF f(2,3) wf(3) f(4,5) r(2,3) assms(2) al] f(1) by fastforce
  have l1: "layout p0 bs1 q" "alloc_ok al1" "pages_of bs1 = map_range (a - p0) n g (pages_of bs)"
    "length bs1 + owned al1 = length bs + owned al"
    using loop(2) by (auto simp: updated_def)
  have ap: "successively (apart (\<lambda>x. x < a \<or> a + n < x)) bs1"
    using loop(2) settled_apart [OF wf(5)] by (auto simp: updated_def)
  have nz: "a = p0 \<or> FindIterator bs1 (pa a) \<noteq> 0"
  proof (cases xs)
    case (Cons x xs2)
    have "p0 + np x \<le> a" using f(2,4) layout_le [of "p0 + np x" xs2 p] by (simp add: Cons)
    then show ?thesis using FindIterator_nonzero [of p0 x "xs2 @ zs" q a] l1(1) wf(3) r(4) by (simp add: loop(3) Cons)
  next
    case Nil
    then have "a = p0 \<or> zs \<noteq> [] \<and> p0 + np (hd zs) \<le> a"
      using assms(5) f(1,2,4,5) loop(4) by (auto simp: start_clear_def bs_def p0_def)
    then show ?thesis
      using FindIterator_nonzero [of p0 "hd zs" "tl zs" q a] l1(1) wf(3) r(4) unfolding loop(3) Nil by (cases zs) auto
  qed
  obtain bs2 al2 where co: "CoalesceForUpdate (pa p0) (pa a) (of_nat n) (bs1, al1) = Inr (bs2, al2)"
    "layout p0 bs2 q" "pages_of bs2 = pages_of bs1" "alloc_ok al2" "length bs2 + owned al2 = length bs1 + owned al1" "settled bs2"
    using CoalesceForUpdate_ok [OF l1(1) wf(3) r(1-3) l1(2) ap nz] by blast
  have "update_range needs change (pa a) (of_nat n) (m, al) = Inr (m\<lparr>m_memory_block_tree := bs2\<rparr>, al2)"
    using loop(1) co(1) it wf(1) by (simp add: update_range_def Let_def bs_def)
  moreover have "range_updated g a n (m, al) (m\<lparr>m_memory_block_tree := bs2\<rparr>, al2)"
    using wf co(2-6) l1(3,4)
    by (simp add: range_updated_def manager_wf_def manager_pages_def first_page_def end_page_def p0_def q_def bs_def)
  ultimately show ?thesis by blast
qed

text \<open>
  The other case: the range starts strictly inside a first block that is left alone. The loop may
  still change later blocks, but the coalescing pass steps back from the first one.
\<close>

lemma update_range_faults:
  assumes "manager_wf m" "alloc_ok al" "m_index al = 0" "in_range m a n" "\<not> start_clear needs m a"
  shows "update_range needs change (pa a) (of_nat n) (m, al) = Inl NullIterator"
proof -
  define p0 where "p0 = first_page m"
  define q where "q = end_page m"
  obtain b ys where t: "m_memory_block_tree m = b # ys" and c: "a \<noteq> p0" "a < p0 + np b" "\<not> needs b"
    using assms(5) by (auto simp: start_clear_def p0_def split: list.splits)
  have wf: "m_start_address m = pa p0" "q < 2 ^ 51" "layout p0 ([] @ b # ys) q"
    and r: "p0 \<le> a" "0 < n" "a + n \<le> q"
    using assms(1,4) by (auto simp: manager_wf_def in_range_def p0_def q_def t)
  have pb: "page b = p0" using wf(3) block_at(7) [of b p0] layout_le [of "p0 + np b" ys q] wf(2) by auto
  have it: "FindIterator (b # zs) (pa a) = 0" if "layout p0 ([] @ b # zs) q" for zs
    using FindIterator_at [OF that wf(2), of a] pb r c by simp
  have al: "m_index al + (if a = p0 then 1 else 2) \<le> 2" "length ys + 2 \<le> length (b # ys) + 3"
    using assms(3) by auto
  obtain bs1 al1 where loop:
    "update_loop (length (b # ys) + 3) needs change (pa a) (pa a + of_nat n * PageSize) (pa a) (of_nat n) 0 (b # ys, al) = Inr (bs1, al1)"
    "updated p0 q a n g (b # ys, al) (bs1, al1)" "bs1 \<noteq> []" "hd bs1 = b"
  proof -
    have "layout p0 [] p0" "layout p0 (b # ys) q" using wf(3) by simp_all
    from update_loop_ok [OF this wf(2) r(1) c(2) r(2,3) assms(2) al, of "pa a" "pa a + of_nat n * PageSize"] c(3)
    obtain st' zs where "update_loop (length (b # ys) + 3) needs change (pa a) (pa a + of_nat n * PageSize) (pa a) (of_nat n) 0 (b # ys, al) = Inr st'"
      "updated p0 q a n g (b # ys, al) st'" "fst st' = zs" "zs \<noteq> [] \<and> hd zs = b"
      unfolding append_Nil list.size(3) by blast
    then show thesis by (intro that [of zs "snd st'"]) (cases st'; simp)+
  qed
  obtain zs where zs: "bs1 = b # zs" using loop(3,4) by (cases bs1) auto
  have "layout p0 ([] @ b # zs) q" using loop(2) by (simp add: updated_def zs)
  then have "FindIterator bs1 (pa a) = 0" using it by (simp only: zs)
  moreover have "pa a \<noteq> pa p0" using pa_eq [of a p0] r c wf(2) by auto
  ultimately have "CoalesceForUpdate (pa p0) (pa a) (of_nat n) (bs1, al1) = Inl NullIterator"
    by (simp add: CoalesceForUpdate_def Let_def zs)
  then show ?thesis
    using loop(1) it wf(1,3) by (simp add: update_range_def Let_def t)
qed

end

section \<open>The updates of the manager\<close>

definition marks_free :: "u8 \<Rightarrow> bool" where
  "marks_free attr \<longleftrightarrow> attr AND (Attribute_IpcLocked OR Attribute_DeviceShared) = 0"

text \<open>What each update does to the properties of a page.\<close>

definition set_props :: "u32 \<Rightarrow> u8 \<Rightarrow> u8 \<Rightarrow> page_props \<Rightarrow> page_props" where
  "set_props state perm attr = (\<lambda>(s, p, orig, a, ipc, dev).
     (state, perm, orig, attr OR (a AND (Attribute_IpcLocked OR Attribute_DeviceShared)), ipc, dev))"

definition have_props :: "u32 \<Rightarrow> u8 \<Rightarrow> u8 \<Rightarrow> page_props \<Rightarrow> bool" where
  "have_props state perm attr = (\<lambda>(s, p, orig, a, ipc, dev).
     s = state \<and> p = perm \<and>
     a OR (Attribute_IpcLocked OR Attribute_DeviceShared) = attr OR (Attribute_IpcLocked OR Attribute_DeviceShared))"

definition set_attribute :: "u8 \<Rightarrow> u8 \<Rightarrow> page_props \<Rightarrow> page_props" where
  "set_attribute msk attr = (\<lambda>(s, p, orig, a, ipc, dev).
     (s, p, orig, if a AND msk \<noteq> attr then (a AND NOT msk) OR attr else a, ipc, dev))"

definition lock_props :: "u8 \<Rightarrow> page_props \<Rightarrow> page_props" where
  "lock_props perm = (\<lambda>(s, p, orig, a, ipc, dev).
     if ipc + 1 = 1
     then (s, (perm AND IpcLockChangeMask) OR (p AND NOT IpcLockChangeMask), p, a OR Attribute_IpcLocked, ipc + 1, dev)
     else (s, p, orig, a OR Attribute_IpcLocked, ipc + 1, dev))"

definition unlock_props :: "page_props \<Rightarrow> page_props" where
  "unlock_props = (\<lambda>(s, p, orig, a, ipc, dev).
     if ipc = 1 then (s, orig, 0, a AND NOT Attribute_IpcLocked, ipc - 1, dev) else (s, p, orig, a, ipc - 1, dev))"

lemma HasProperties_props: "HasProperties s p a b = have_props s p a (props b)"
  by (simp add: HasProperties_def have_props_def props_def Let_def)

lemma same_attribute:
  fixes a attr i :: u8
  assumes "a OR i = attr OR i" "attr AND i = 0"
  shows "attr OR (a AND i) = a"
proof (rule bit_word_eqI)
  fix n assume "n < LENGTH(8)"
  have "bit (a OR i) n \<longleftrightarrow> bit (attr OR i) n" "\<not> bit (attr AND i) n"
    using assms by simp_all
  then show "bit (attr OR (a AND i)) n \<longleftrightarrow> bit a n" by (auto simp: bit_simps)
qed

lemma set_props_already:
  assumes "have_props state perm attr x" "marks_free attr"
  shows "set_props state perm attr x = x"
  using assms same_attribute [of _ "Attribute_IpcLocked OR Attribute_DeviceShared" attr]
  by (cases x) (auto simp: have_props_def set_props_def marks_free_def)

lemma Block_Update_frame:
  "m_address (Block_Update s p a f sm cm b) = m_address b"
  "m_num_pages (Block_Update s p a f sm cm b) = m_num_pages b"
  "props (Block_Update s p a f sm cm b) = set_props s p a (props b)"
  by (simp_all add: Block_Update_def Let_def set_props_def props_def)

lemma update_is_block_update:
  assumes "marks_free attr"
  shows "block_update (\<lambda>b. \<not> HasProperties state perm attr b)
    (\<lambda>left right. Block_Update state perm attr left set_attr clear_attr) (\<lambda>x. \<not> have_props state perm attr x)
    (set_props state perm attr)"
  by unfold_locales (simp_all add: HasProperties_props Block_Update_frame set_props_already [OF _ assms])

definition set_matching ::
  "u32 \<Rightarrow> u8 \<Rightarrow> u8 \<Rightarrow> u32 \<Rightarrow> u8 \<Rightarrow> u8 \<Rightarrow> page_props \<Rightarrow> page_props" where
  "set_matching ts tp ta state perm attr x =
     (if have_props ts tp ta x \<and> \<not> have_props state perm attr x then set_props state perm attr x else x)"

interpretation match: block_update
  "\<lambda>b. HasProperties ts tp ta b \<and> \<not> HasProperties state perm attr b"
  "\<lambda>left right. Block_Update state perm attr False set_attr clear_attr"
  "\<lambda>x. have_props ts tp ta x \<and> \<not> have_props state perm attr x" "set_matching ts tp ta state perm attr"
  for ts tp ta state perm attr set_attr clear_attr
  by unfold_locales (auto simp: HasProperties_props Block_Update_frame set_matching_def)

interpretation attribute: block_update
  "\<lambda>b. m_attribute b AND msk \<noteq> attr" "\<lambda>left right. Block_UpdateAttribute msk attr"
  "\<lambda>(s, p, orig, a, ipc, dev). a AND msk \<noteq> attr" "set_attribute msk attr"
  for msk attr
  by unfold_locales (auto simp: Block_UpdateAttribute_def props_def set_attribute_def)

interpretation lock: block_update "\<lambda>b. True" "LockForIpc perm" "\<lambda>x. True" "lock_props perm" for perm
  by unfold_locales (auto simp: LockForIpc_def Let_def props_def lock_props_def)

interpretation unlock: block_update "\<lambda>b. True" "UnlockForIpc perm" "\<lambda>x. True" unlock_props for perm
  by unfold_locales (auto simp: UnlockForIpc_def Let_def props_def unlock_props_def)

definition share_props :: "page_props \<Rightarrow> page_props" where
  "share_props = (\<lambda>(s, p, orig, a, ipc, dev). (s, p, orig, a OR Attribute_DeviceShared, ipc, dev + 1))"

definition unshare_props :: "page_props \<Rightarrow> page_props" where
  "unshare_props = (\<lambda>(s, p, orig, a, ipc, dev).
     (s, p, orig, if dev = 1 then a AND NOT Attribute_DeviceShared else a, ipc, dev - 1))"

lemmas share_defs =
  ShareToDevice_def UnshareToDevice_def UnshareToDeviceRight_def drop_device_use_def
  UpdateDeviceDisableMergeStateForShareLeft_def UpdateDeviceDisableMergeStateForShareRight_def
  UpdateDeviceDisableMergeStateForUnshareLeft_def UpdateDeviceDisableMergeStateForUnshareRight_def

interpretation share: block_update "\<lambda>b. True" "ShareToDevice perm" "\<lambda>x. True" share_props for perm
  by unfold_locales (auto simp: share_defs props_def share_props_def)

interpretation unshare: block_update "\<lambda>b. True" "UnshareToDevice perm" "\<lambda>x. True" unshare_props for perm
  by unfold_locales (auto simp: share_defs Let_def props_def unshare_props_def)

interpretation unshare_right: block_update "\<lambda>b. True" "UnshareToDeviceRight perm" "\<lambda>x. True" unshare_props for perm
  by unfold_locales (auto simp: share_defs Let_def props_def unshare_props_def)

section \<open>The audit\<close>

definition props_counts_ok :: "page_props \<Rightarrow> bool" where
  "props_counts_ok = (\<lambda>(s, p, orig, a, ipc, dev).
     \<not> (a AND Attribute_IpcLocked \<noteq> 0 \<and> ipc = 0) \<and> \<not> (a AND Attribute_DeviceShared \<noteq> 0 \<and> dev = 0))"

lemma counts_ok_props: "counts_ok b = props_counts_ok (props b)"
  by (simp add: counts_ok_def props_counts_ok_def props_def)

lemma check_from_settled:
  "layout p (b # bs) q \<Longrightarrow> q < 2 ^ 51 \<Longrightarrow> settled (b # bs) \<Longrightarrow> list_all counts_ok (b # bs) \<Longrightarrow> check_from b bs"
proof (induction bs arbitrary: p b)
  case (Cons c bs)
  have "p + np b < 2 ^ 51" using Cons.prems(1,2) layout_le [of "p + np b + np c" bs q] by auto
  then have "GetEndAddress b = m_address c"
    using Cons.prems(1) block_at(2) [of b p] by simp
  then show ?case using Cons.prems Cons.IH [of "p + np b" c] by simp
qed simp

lemma pages_counts_ok:
  assumes "layout p bs q" "list_all props_counts_ok (pages_of bs)"
  shows "list_all counts_ok bs"
  using assms by (induction p bs q rule: layout.induct) (auto simp: counts_ok_props list_all_iff)

lemma CheckState_wf:
  assumes "manager_wf m" "list_all props_counts_ok (manager_pages m)" "first_page m < end_page m"
  shows "CheckState m"
proof -
  have "m_memory_block_tree m \<noteq> []" using assms(1,3) by (auto simp: manager_wf_def)
  moreover
  have "list_all counts_ok (m_memory_block_tree m)"
    using assms pages_counts_ok by (auto simp: manager_wf_def manager_pages_def)
  ultimately show ?thesis
    using assms(1) check_from_settled by (auto simp: CheckState_def manager_wf_def split: list.split)
qed

lemma map_range_list_all:
  "list_all Q xs \<Longrightarrow> (\<And>x. x \<in> set xs \<Longrightarrow> Q x \<Longrightarrow> Q (g x)) \<Longrightarrow> list_all Q (map_range k n g xs)"
  by (auto simp: list_all_length nth_map_range)

lemma set_props_counts:
  assumes "marks_free attr" "props_counts_ok x"
  shows "props_counts_ok (set_props state perm attr x)"
proof -
  have "attr AND Attribute_IpcLocked = 0" "attr AND Attribute_DeviceShared = 0"
    using assms(1) by (simp_all add: marks_free_def bit.conj_disj_distrib or_eq_0_iff)
  then show ?thesis
    using assms(2)
    by (cases x) (auto simp: props_counts_ok_def set_props_def bit.conj_disj_distrib2 and.assoc
        Attribute_IpcLocked_def Attribute_DeviceShared_def)
qed

end
