(* ===== verification/BlockManager_Properties.thy ===== *)
theory BlockManager_Properties
  imports BlockManager_Spec
begin

text \<open>
  The properties of the block manager: updates refine a map over pages and keep the audit, locking
  and unlocking cancel, no block leaks, the failing corner case, and the search for free areas.
\<close>

section \<open>The allocator from start to end\<close>

lemma new_allocator_ok:
  assumes "2 \<le> slab"
  obtains al where "new_UpdateAllocator slab 2 = (True, al)" "alloc_ok al" "m_index al = 0" "owned al = slab"
proof -
  obtain k where k: "slab = Suc (Suc k)" using assms by (metis add_2_eq_Suc le_Suc_ex)
  have "new_UpdateAllocator slab 2 = (True, \<lparr>m_blocks = [True, True], m_index = 0, m_slab = k\<rparr>)"
    by (simp add: new_UpdateAllocator_def MaxBlocks_def k numeral_2_eq_2 fill_array_def)
  then show ?thesis
    by (rule that) (simp_all add: alloc_ok_def owned_def k numeral_2_eq_2)
qed

lemma delete_allocator_owned: "alloc_ok al \<Longrightarrow> delete_UpdateAllocator al = owned al"
  by (simp add: alloc_ok_def delete_UpdateAllocator_def owned_def)

section \<open>A concrete address space\<close>

text \<open>Four free pages, then four pages of code.\<close>

definition demo_manager :: KMemoryBlockManager where
  "demo_manager =
     \<lparr>m_memory_block_tree = [new_KMemoryBlock 0x10000 4 (KMemoryState State_Free) 0 0,
                             new_KMemoryBlock 0x14000 4 (KMemoryState State_Code) Permission_UserRead 0],
      m_start_address = 0x10000, m_end_address = 0x18000\<rparr>"

definition demo_allocator :: UpdateAllocator where
  "demo_allocator = \<lparr>m_blocks = [True, True], m_index = 0, m_slab = 5\<rparr>"

lemma demo_manager_facts:
  "manager_wf demo_manager" "first_page demo_manager = 0x10" "end_page demo_manager = 0x18"
  by (simp_all add: manager_wf_def demo_manager_def first_page_def end_page_def pa_def new_KMemoryBlock_def
      CanMergeWith_def HasSameProperties_def flag_defs)

lemma demo_allocator_facts: "alloc_ok demo_allocator" "m_index demo_allocator = 0"
  by (simp_all add: alloc_ok_def demo_allocator_def numeral_2_eq_2)

lemma demo_pages:
  "manager_pages demo_manager =
     replicate 4 (0, 0, 0, 0, 0, 0) @ replicate 4 (0x04DC7E03, Permission_UserRead, 0, 0, 0, 0)"
  by (simp add: manager_pages_def demo_manager_def new_KMemoryBlock_def props_def flag_defs)

lemma lock_counts:
  assumes "props_counts_ok (s, p, orig, a, ipc, dev)" "ipc \<noteq> - 1"
  shows "props_counts_ok (lock_props perm (s, p, orig, a, ipc, dev))"
proof -
  have "ipc + 1 \<noteq> 0" using assms(2) by (metis add.commute add_eq_0_iff)
  moreover have "(a OR Attribute_IpcLocked) AND Attribute_DeviceShared = a AND Attribute_DeviceShared"
    by (simp add: bit.conj_disj_distrib2 Attribute_IpcLocked_def Attribute_DeviceShared_def)
  ultimately show ?thesis
    using assms(1) by (auto simp: props_counts_ok_def lock_props_def)
qed

text \<open>The pages of a range, and what the assertions of \<^verbatim>\<open>KMemoryBlock\<close> ask of them.\<close>

definition range_pages :: "KMemoryBlockManager \<Rightarrow> nat \<Rightarrow> nat \<Rightarrow> page_props list" where
  "range_pages m a n = take n (drop (a - first_page m) (manager_pages m))"

text \<open>\<^verbatim>\<open>Update\<close> changes only pages that are not locked for ipc and have no original permission.\<close>

definition may_update :: "u32 \<Rightarrow> u8 \<Rightarrow> u8 \<Rightarrow> page_props \<Rightarrow> bool" where
  "may_update state perm attr = (\<lambda>(s, p, orig, at, ipc, dev).
     have_props state perm attr (s, p, orig, at, ipc, dev) \<or> orig = 0 \<and> at AND Attribute_IpcLocked = 0)"

text \<open>
  A first lock: nothing is locked, the new permission adds nothing but \<^verbatim>\<open>NotMapped\<close> to the old one,
  executable pages are locked for reading only, and there is a permission to come back to.
\<close>

definition may_lock :: "u8 \<Rightarrow> page_props \<Rightarrow> bool" where
  "may_lock perm = (\<lambda>(s, p, orig, at, ipc, dev).
     ipc = 0 \<and> orig = 0 \<and> at AND Attribute_IpcLocked = 0 \<and>
     p OR perm OR Permission_NotMapped = p OR Permission_NotMapped \<and>
     (p AND Permission_UserExecute \<noteq> Permission_UserExecute \<or> perm = Permission_UserRead) \<and> p \<noteq> 0)"

lemma map_range_cancel:
  "(\<And>x. x \<in> set (take n (drop k xs)) \<Longrightarrow> h (g x) = x) \<Longrightarrow> map_range k n h (map_range k n g xs) = xs"
proof (rule nth_equalityI)
  fix i
  assume h: "\<And>x. x \<in> set (take n (drop k xs)) \<Longrightarrow> h (g x) = x"
    and i: "i < length (map_range k n h (map_range k n g xs))"
  have "xs ! i \<in> set (take n (drop k xs))" if "k \<le> i" "i < k + n"
    using that i in_set_conv_nth [of "xs ! i" "take n (drop k xs)"]
    by (auto intro!: exI [of _ "i - k"])
  with h i show "map_range k n h (map_range k n g xs) ! i = xs ! i"
    by (simp add: nth_map_range)
qed simp

lemma unlock_lock:
  fixes ipc :: u16 and at :: u8
  assumes "ipc = 0" "orig = 0" "at AND Attribute_IpcLocked = 0"
  shows "unlock_props (lock_props perm (s, p, orig, at, ipc, dev)) = (s, p, orig, at, ipc, dev)"
proof -
  have "(at OR Attribute_IpcLocked) AND NOT Attribute_IpcLocked = at"
  proof (rule bit_word_eqI)
    fix n
    have "\<not> bit (at AND Attribute_IpcLocked) n" using assms(3) by simp
    then show "bit ((at OR Attribute_IpcLocked) AND NOT Attribute_IpcLocked) n \<longleftrightarrow> bit at n"
      by (auto simp: bit_simps dest: bit_imp_le_length)
  qed
  then show ?thesis using assms(1,2) by (simp add: lock_props_def unlock_props_def)
qed

section \<open>Properties\<close>

text \<open>
  C3. \<^verbatim>\<open>Update\<close> refines a map over pages. On a well-formed manager, with the two blocks of a fresh update
  allocator, for a non-empty range of its pages and under the assertions of the code (the new
  attribute has no ipc-locked or device-shared mark, and no page that is changed is locked for ipc
  or has an original permission), exactly two things can happen. If the range starts strictly
  inside the first block and that block already has the wanted properties, the update runs into a
  null iterator. Otherwise it succeeds: exactly the pages of the range have the new state,
  permission and attribute (keeping their device-shared marks), all other pages have what they had,
  the blocks still tile the address space, and no two neighbours can be merged.
\<close>

theorem Update_sets_range:
  assumes "manager_wf m" "alloc_ok al" "m_index al = 0" "in_range m a n" "marks_free attr"
    and "list_all (may_update state perm attr) (range_pages m a n)"
  shows "if (\<exists>b bs. m_memory_block_tree m = b # bs \<and> first_page m < a \<and> a < first_page m + np b \<and>
        HasProperties state perm attr b)
    then Update (pa a) (of_nat n) state perm attr set_attr clear_attr (m, al) = Inl NullIterator
    else \<exists>m' al'. Update (pa a) (of_nat n) state perm attr set_attr clear_attr (m, al) = Inr (m', al') \<and>
      manager_wf m' \<and>
      manager_pages m' = map_range (a - first_page m) n (set_props state perm attr) (manager_pages m)"
proof -
  note u = update_is_block_update [OF assms(5), of state perm set_attr clear_attr]
  have "(\<exists>b bs. m_memory_block_tree m = b # bs \<and> first_page m < a \<and> a < first_page m + np b \<and>
      HasProperties state perm attr b) \<longleftrightarrow> \<not> start_clear (\<lambda>b. \<not> HasProperties state perm attr b) m a"
    using assms(4) by (auto simp: start_clear_def in_range_def split: list.split)
  then show ?thesis
    using block_update.update_range_ok [OF u assms(1-4)] block_update.update_range_faults [OF u assms(1-4)]
    by (auto simp: Update_def range_updated_def)
qed

theorem Update_sets_range_witness:
  "(\<exists>m' al'. Update (pa 0x12) (of_nat 4) (KMemoryState State_Normal) 0x1B 0 0 0 (demo_manager, demo_allocator) = Inr (m', al') \<and>
    manager_wf m' \<and> map fst (manager_pages m') =
      [0, 0, 0x077EBD05, 0x077EBD05, 0x077EBD05, 0x077EBD05, 0x04DC7E03, 0x04DC7E03]) \<and>
   Update (pa 0x12) (of_nat 4) (KMemoryState State_Free) 0 0 0 0 (demo_manager, demo_allocator) = Inl NullIterator"
proof -
  have r: "in_range demo_manager 0x12 4" by (simp add: in_range_def demo_manager_facts)
  have f: "marks_free 0" by (simp add: marks_free_def)
  have ok: "list_all (may_update state perm attr) (range_pages demo_manager 0x12 4)" for state perm attr
    by (simp add: range_pages_def demo_pages demo_manager_facts may_update_def list_all_iff)
  have pages: "map fst (map_range 2 4 (set_props (KMemoryState State_Normal) 0x1B 0) (manager_pages demo_manager)) =
      [0, 0, 0x077EBD05, 0x077EBD05, 0x077EBD05, 0x077EBD05, 0x04DC7E03, 0x04DC7E03]"
    unfolding demo_pages by code_simp
  have inside: "(\<exists>b bs. m_memory_block_tree demo_manager = b # bs \<and> first_page demo_manager < 0x12 \<and>
      0x12 < first_page demo_manager + np b \<and> HasProperties s p 0 b) \<longleftrightarrow> s = KMemoryState State_Free \<and> p = 0" for s p
    by (auto simp: demo_manager_facts) (auto simp: demo_manager_def HasProperties_def new_KMemoryBlock_def)
  have other: "KMemoryState State_Normal \<noteq> KMemoryState State_Free" by (simp add: flag_defs)
  show ?thesis
    using Update_sets_range [OF demo_manager_facts(1) demo_allocator_facts r f ok, of "KMemoryState State_Normal" "0x1B" 0 0]
      Update_sets_range [OF demo_manager_facts(1) demo_allocator_facts r f ok, of "KMemoryState State_Free" 0 0 0]
      pages other
    unfolding inside by (auto simp: demo_manager_facts)
qed

text \<open>
  C19. The audit holds after every update: if every page's lock and share marks are backed by counts,
  then after \<^verbatim>\<open>Update\<close> and after \<^verbatim>\<open>UpdateLock\<close> for an ipc lock (while no count overflows) \<^verbatim>\<open>CheckState\<close>
  accepts the manager: neighbours are coalesced, blocks are contiguous, marks are backed by counts.
  (The range of \<^verbatim>\<open>Update\<close> does not start strictly inside a first block that already has the wanted
  properties, where the update faults.)
\<close>

theorem updates_pass_audit:
  assumes "manager_wf m" "alloc_ok al" "m_index al = 0" "in_range m a n" "list_all props_counts_ok (manager_pages m)"
    and "marks_free attr" "start_clear (\<lambda>b. \<not> HasProperties state perm attr b) m a"
    and "\<forall>(s, p, orig, at, ipc, dev) \<in> set (manager_pages m). ipc \<noteq> - 1"
  shows "(\<exists>m' al'. Update (pa a) (of_nat n) state perm attr set_attr clear_attr (m, al) = Inr (m', al') \<and> CheckState m') \<and>
    (\<exists>m' al'. UpdateLock (pa a) (of_nat n) LockForIpc perm (m, al) = Inr (m', al') \<and> CheckState m')"
proof
  have ne: "first_page m < end_page m" using assms(4) by (auto simp: in_range_def)
  obtain m' al' where u: "Update (pa a) (of_nat n) state perm attr set_attr clear_attr (m, al) = Inr (m', al')"
    "range_updated (set_props state perm attr) a n (m, al) (m', al')"
    using block_update.update_range_ok [OF update_is_block_update [OF assms(6)] assms(1-4,7), of set_attr clear_attr]
    by (auto simp: Update_def)
  have "list_all props_counts_ok (manager_pages m')"
    using u(2) map_range_list_all [OF assms(5)] set_props_counts [OF assms(6)] by (simp add: range_updated_def)
  then show "\<exists>m' al'. Update (pa a) (of_nat n) state perm attr set_attr clear_attr (m, al) = Inr (m', al') \<and> CheckState m'"
    using u CheckState_wf [of m'] ne by (auto simp: range_updated_def first_page_def end_page_def)
next
  have ne: "first_page m < end_page m" using assms(4) by (auto simp: in_range_def)
  have c: "start_clear (\<lambda>b. True) m a" by (simp add: start_clear_def split: list.split)
  obtain m' al' where u: "UpdateLock (pa a) (of_nat n) LockForIpc perm (m, al) = Inr (m', al')"
    "range_updated (lock_props perm) a n (m, al) (m', al')"
    using lock.update_range_ok [OF assms(1-4) c, of perm] by (auto simp: UpdateLock_def)
  have "props_counts_ok (lock_props perm x)" if "x \<in> set (manager_pages m)" "props_counts_ok x" for x
    using that assms(8) lock_counts by (cases x) auto
  then have "list_all props_counts_ok (map_range (a - first_page m) n (lock_props perm) (manager_pages m))"
    by (rule map_range_list_all [OF assms(5)])
  then show "\<exists>m' al'. UpdateLock (pa a) (of_nat n) LockForIpc perm (m, al) = Inr (m', al') \<and> CheckState m'"
    using u CheckState_wf [of m'] ne by (auto simp: range_updated_def first_page_def end_page_def)
qed

theorem updates_pass_audit_witness:
  "(\<exists>m' al'. Update (pa 0x12) (of_nat 4) (KMemoryState State_Normal) 0x1B 0 0 0 (demo_manager, demo_allocator) = Inr (m', al') \<and>
     CheckState m') \<and>
   (\<exists>m' al'. UpdateLock (pa 0x12) (of_nat 4) LockForIpc 0x1B (demo_manager, demo_allocator) = Inr (m', al') \<and> CheckState m')"
proof -
  have r: "in_range demo_manager 0x12 4" by (simp add: in_range_def demo_manager_facts)
  have c: "start_clear (\<lambda>b. \<not> HasProperties (KMemoryState State_Normal) 0x1B 0 b) demo_manager 0x12"
    by (simp add: start_clear_def demo_manager_def HasProperties_def new_KMemoryBlock_def flag_defs)
  have f: "marks_free 0" by (simp add: marks_free_def)
  have k: "list_all props_counts_ok (manager_pages demo_manager)"
    by (simp add: demo_pages list_all_iff props_counts_ok_def)
  have i: "\<forall>(s, p, orig, at, ipc, dev) \<in> set (manager_pages demo_manager). ipc \<noteq> - 1"
    by (simp add: demo_pages)
  show ?thesis
    by (rule updates_pass_audit [OF demo_manager_facts(1) demo_allocator_facts r k f c i])
qed

text \<open>
  C20. Locking and unlocking cancel, and no block leaks: locking a range for ipc, where the assertions
  of \<^verbatim>\<open>LockForIpc\<close> hold on its pages (none is locked, the new permission adds nothing to the old one
  but \<^verbatim>\<open>NotMapped\<close>, executable pages are locked for reading only, and each page has a permission to
  come back to), and then unlocking it gives every page of the address space its old properties
  back, whatever locks there are outside of the range; each call works with the two blocks of its
  own update allocator, and after the allocators return what they hold, blocks in the tree and in
  the slab add up as before.
\<close>

theorem lock_unlock_roundtrip:
  assumes "manager_wf m" "in_range m a n" "2 \<le> slab" "new_UpdateAllocator slab 2 = (ok, al)"
    and "list_all (may_lock perm) (range_pages m a n)"
  shows "\<exists>m1 al1. UpdateLock (pa a) (of_nat n) LockForIpc perm (m, al) = Inr (m1, al1) \<and>
    length (m_memory_block_tree m1) + delete_UpdateAllocator al1 = length (m_memory_block_tree m) + slab \<and>
    (\<forall>slab2 ok2 al2. 2 \<le> slab2 \<longrightarrow> new_UpdateAllocator slab2 2 = (ok2, al2) \<longrightarrow>
      (\<exists>m2 al3. UpdateLock (pa a) (of_nat n) UnlockForIpc perm2 (m1, al2) = Inr (m2, al3) \<and>
        manager_wf m2 \<and> manager_pages m2 = manager_pages m \<and>
        length (m_memory_block_tree m2) + delete_UpdateAllocator al3 = length (m_memory_block_tree m1) + slab2))"
proof -
  have c: "start_clear (\<lambda>b. True) m' a" for m' by (simp add: start_clear_def split: list.split)
  have al: "alloc_ok al" "m_index al = 0" "owned al = slab"
    using new_allocator_ok [OF assms(3)] assms(4) by auto
  obtain m1 al1 where u: "UpdateLock (pa a) (of_nat n) LockForIpc perm (m, al) = Inr (m1, al1)"
    "range_updated (lock_props perm) a n (m, al) (m1, al1)"
    using lock.update_range_ok [OF assms(1) al(1,2) assms(2) c, of perm] by (auto simp: UpdateLock_def)
  have m1: "manager_wf m1" "first_page m1 = first_page m" "end_page m1 = end_page m" "alloc_ok al1"
    "length (m_memory_block_tree m1) + owned al1 = length (m_memory_block_tree m) + slab"
    "manager_pages m1 = map_range (a - first_page m) n (lock_props perm) (manager_pages m)"
    using u(2) al(3) by (auto simp: range_updated_def first_page_def end_page_def)
  have r1: "in_range m1 a n" using assms(2) m1(2,3) by (simp add: in_range_def)
  have second: "\<exists>m2 al3. UpdateLock (pa a) (of_nat n) UnlockForIpc perm2 (m1, al2) = Inr (m2, al3) \<and>
        manager_wf m2 \<and> manager_pages m2 = manager_pages m \<and>
        length (m_memory_block_tree m2) + delete_UpdateAllocator al3 = length (m_memory_block_tree m1) + slab2"
    if slab2: "2 \<le> slab2" "new_UpdateAllocator slab2 2 = (ok2, al2)" for slab2 ok2 al2
  proof -
    have al2: "alloc_ok al2" "m_index al2 = 0" "owned al2 = slab2"
      using new_allocator_ok [OF slab2(1)] slab2(2) by auto
    obtain m2 al3 where v: "UpdateLock (pa a) (of_nat n) UnlockForIpc perm2 (m1, al2) = Inr (m2, al3)"
      "range_updated unlock_props a n (m1, al2) (m2, al3)"
      using unlock.update_range_ok [OF m1(1) al2(1,2) r1 c, of perm2] by (auto simp: UpdateLock_def)
    have "manager_pages m2 = map_range (a - first_page m) n unlock_props (manager_pages m1)"
      using v(2) m1(2) by (simp add: range_updated_def)
    also have "\<dots> = manager_pages m"
      unfolding m1(6)
      by (rule map_range_cancel) (use assms(5) unlock_lock in \<open>fastforce simp: may_lock_def range_pages_def list_all_iff\<close>)
    finally show ?thesis
      using v al2(3) by (auto simp: range_updated_def delete_allocator_owned)
  qed
  then show ?thesis using u(1) m1(4,5) delete_allocator_owned by auto
qed

theorem lock_unlock_roundtrip_witness:
  "\<exists>ok al m1 al1 m2 al2. new_UpdateAllocator 7 2 = (ok, al) \<and>
     UpdateLock (pa 0x15) (of_nat 2) LockForIpc Permission_UserRead (demo_manager, al) = Inr (m1, al1) \<and>
     length (m_memory_block_tree m1) + delete_UpdateAllocator al1 = 9 \<and>
     UpdateLock (pa 0x15) (of_nat 2) UnlockForIpc Permission_UserRead (m1, al) = Inr (m2, al2) \<and>
     manager_wf m2 \<and> manager_pages m2 = manager_pages demo_manager"
proof -
  obtain ok al where al: "new_UpdateAllocator 7 2 = (ok, al)" by fastforce
  have r: "in_range demo_manager 0x15 2" by (simp add: in_range_def demo_manager_facts)
  have i: "list_all (may_lock Permission_UserRead) (range_pages demo_manager 0x15 2)"
    by (simp add: range_pages_def demo_pages demo_manager_facts may_lock_def list_all_iff permission_defs)
  have t: "length (m_memory_block_tree demo_manager) = 2" by (simp add: demo_manager_def)
  have "(2 :: nat) \<le> 7" by simp
  from lock_unlock_roundtrip [OF demo_manager_facts(1) r this al i, of Permission_UserRead]
  obtain m1 al1 where m1: "UpdateLock (pa 0x15) (of_nat 2) LockForIpc Permission_UserRead (demo_manager, al) = Inr (m1, al1)"
    "length (m_memory_block_tree m1) + delete_UpdateAllocator al1 = 2 + 7"
    and rest: "\<forall>slab2 ok2 al2. 2 \<le> slab2 \<longrightarrow> new_UpdateAllocator slab2 2 = (ok2, al2) \<longrightarrow>
      (\<exists>m2 al3. UpdateLock (pa 0x15) (of_nat 2) UnlockForIpc Permission_UserRead (m1, al2) = Inr (m2, al3) \<and>
        manager_wf m2 \<and> manager_pages m2 = manager_pages demo_manager \<and>
        length (m_memory_block_tree m2) + delete_UpdateAllocator al3 = length (m_memory_block_tree m1) + slab2)"
    unfolding t by blast
  from rest [rule_format, OF \<open>2 \<le> 7\<close> al] obtain m2 al2 where
    "UpdateLock (pa 0x15) (of_nat 2) UnlockForIpc Permission_UserRead (m1, al) = Inr (m2, al2)"
    "manager_wf m2" "manager_pages m2 = manager_pages demo_manager" by blast
  with al m1 show ?thesis by auto
qed

text \<open>
  C38. A no-op update inside the first block fails: when the range lies strictly inside the first
  block and that block already has the wanted properties, the coalescing pass steps back from the
  first block to a null iterator and dereferences it.
\<close>

theorem Update_inside_first_block_faults:
  assumes "manager_wf m" "m_memory_block_tree m = b # bs" "first_page m < a" "0 < n" "a + n \<le> first_page m + np b"
    and "HasProperties state perm attr b"
  shows "Update (pa a) (of_nat n) state perm attr set_attr clear_attr (m, al) = Inl NullIterator"
proof -
  have l: "layout (first_page m) ([] @ b # bs) (end_page m)" "end_page m < 2 ^ 51" "m_address b = pa (first_page m)"
    "first_page m + np b \<le> end_page m"
    using assms(1,2) layout_le [of "first_page m + np b" bs "end_page m"] by (auto simp: manager_wf_def)
  have pb: "page b = first_page m" using block_at(7) [OF l(3)] l(2,4) by simp
  have it: "FindIterator (b # bs) (pa a) = 0"
    using FindIterator_at [OF l(1,2), of a] pb assms(3,4,5) by simp
  have e: "info_end_address (GetMemoryInfo b) = pa (first_page m + np b)"
    using block_at(4) [OF l(3)] l(2,4) by simp
  have nz: "of_nat n \<noteq> (0 :: u64)" using of_nat_pages_zero [of n] assms(4,5) l(2,4) by simp
  have "a + n < first_page m + np b \<or> a + n = first_page m + np b" using assms(5) by auto
  then have loop: "update_loop (length (b # bs) + 3) (\<lambda>b. \<not> HasProperties state perm attr b) ch A E (pa a) (of_nat n) 0 (b # bs, al) =
      Inr (b # bs, al)" for ch A E
    using assms(6) nz e pa_less [of "a + n" "first_page m + np b"] l(2,4) assms(5)
    by (auto simp: numeral_3_eq_3 times_PageSize pa_add Let_def)
  have "pa a \<noteq> pa (first_page m)" using pa_eq [of a "first_page m"] assms(3,5) l(2,4) by auto
  then show ?thesis
    using assms(1,2) it loop by (simp add: Update_def update_range_def Let_def CoalesceForUpdate_def manager_wf_def)
qed

theorem Update_inside_first_block_faults_witness:
  "manager_wf demo_manager \<and>
   Update (pa 0x11) (of_nat 2) (KMemoryState State_Free) 0 0 0 0 (demo_manager, demo_allocator) = Inl NullIterator"
proof -
  obtain b bs where b: "m_memory_block_tree demo_manager = b # bs" by (simp add: demo_manager_def)
  have "HasProperties (KMemoryState State_Free) 0 0 b" "np b = 4"
    using b by (auto simp: demo_manager_def HasProperties_def new_KMemoryBlock_def)
  then show ?thesis
    using Update_inside_first_block_faults [OF demo_manager_facts(1) b, of "0x11" 2 _ 0 0 0 0] demo_manager_facts
    by simp
qed

section \<open>Free areas\<close>

lemma candidate_area_ok:
  assumes "unat bse + g * 4096 < 2 ^ 63 + 2 ^ 60" "0 < unat al" "unat al < 2 ^ 61" "unat off < unat al"
    and "info_address info \<le> bse" "rs \<le> bse" "bse = rs \<or> bse = info_address info"
  defines "area \<equiv> candidate_area rs al off (of_nat g) info"
  shows "unat bse + g * 4096 \<le> unat area" "unat area < 2 ^ 63 + 2 ^ 62 + 2 ^ 60" "(unat area - unat off) mod unat al = 0" "unat off \<le> unat area"
proof -
  define x where "x = bse + of_nat g * PageSize"
  have x: "unat x = unat bse + g * 4096"
    using assms(1) by (simp add: x_def PageSize_4096 unat_word_ariths unat_of_nat)
  have "(if info_address info \<le> rs then rs else info_address info) = bse"
    using assms(5-7) by (auto dest: antisym)
  then have area: "area = (if x \<le> AlignDown x al + off then AlignDown x al + off else AlignDown x al + off + al)"
    by (simp add: area_def candidate_area_def Let_def x_def)
  define D where "D = unat x div unat al * unat al"
  have d: "unat (AlignDown x al) = D"
  proof -
    have "x mod al \<le> x" by (simp add: word_le_nat_alt unat_mod_distrib)
    then have "unat (x - x mod al) = unat x - unat x mod unat al" by (simp only: unat_sub unat_mod_distrib)
    then show ?thesis by (simp only: AlignDown_def minus_mod_eq_div_mult D_def)
  qed
  have le: "D \<le> unat x" "unat x < 2 ^ 63 + 2 ^ 60" using x assms(1) by (simp_all add: D_def)
  have m: "unat x < D + unat al"
    unfolding D_def using assms(2) by (metis div_mult_mod_eq mod_less_divisor nat_add_left_cancel_less)
  have o: "unat (AlignDown x al + off) = D + unat off"
    using d le assms(3,4) by (simp add: unat_word_ariths)
  then have oa: "unat (AlignDown x al + off + al) = D + unat off + unat al"
    using le assms(3,4) by (simp add: unat_word_ariths)
  show "unat bse + g * 4096 \<le> unat area" "unat area < 2 ^ 63 + 2 ^ 62 + 2 ^ 60" "unat off \<le> unat area"
    using o oa m le assms(3,4) by (auto simp: area word_le_nat_alt x [symmetric])
  show "(unat area - unat off) mod unat al = 0"
    using o oa by (auto simp: area D_def)
qed

lemma find_free_loop_found:
  assumes "find_free_loop rs rl n al off g bs \<noteq> 0"
  defines "area \<equiv> find_free_loop rs rl n al off g bs"
  obtains b where "b \<in> set bs" "m_memory_state b = KMemoryState State_Free" "area = candidate_area rs al off g (GetMemoryInfo b)"
    "area + n * PageSize + g * PageSize - 1 \<le> rl" "area + n * PageSize + g * PageSize - 1 \<le> GetLastAddress b"
  using assms
  by (induction bs) (auto simp: Let_def GetMemoryInfo_def info_last_address_def info_end_address_def
      GetLastAddress_def GetEndAddress_def split: if_splits)

lemma unat_pa_last: "0 < n \<Longrightarrow> n < 2 ^ 52 \<Longrightarrow> unat (pa n - 1) = n * 4096 - 1"
  by (metis unat_minus_one unat_pa unat_0 mult_is_0 less_irrefl zero_neq_numeral)

text \<open>
  C21. A found area is usable: an area that \<^verbatim>\<open>FindFreeArea\<close> returns lies, together with the guard pages
  before and behind it, inside the given region and inside one free block, and it has the requested
  offset from a multiple of the alignment.
\<close>

theorem FindFreeArea_is_free:
  assumes "manager_wf m" "0 < rn" "r + rn < 2 ^ 51" "n < 2 ^ 48" "g < 2 ^ 48" "0 < unat al" "unat al < 2 ^ 61" "unat off < unat al"
    and "FindFreeArea m (pa r) (of_nat rn) (of_nat n) al off (of_nat g) = area" "area \<noteq> 0"
  shows "\<exists>b \<in> set (m_memory_block_tree m). m_memory_state b = KMemoryState State_Free \<and>
    max (r * 4096) (unat (m_address b)) + g * 4096 \<le> unat area \<and>
    unat area + (n + g) * 4096 \<le> min ((r + rn) * 4096) (unat (m_address b) + np b * 4096) \<and>
    (unat area - unat off) mod unat al = 0"
proof -
  define rest where "rest = drop (FindIterator (m_memory_block_tree m) (pa r)) (m_memory_block_tree m)"
  have n0: "(of_nat n :: u64) > 0" and
    f: "find_free_loop (pa r) (pa (r + rn) - 1) (of_nat n) al off (of_nat g) rest = area"
    using assms(9,10) by (auto simp: FindFreeArea_def rest_def times_PageSize pa_add split: if_splits)
  obtain b where b: "b \<in> set rest" "m_memory_state b = KMemoryState State_Free"
    "area = candidate_area (pa r) al off (of_nat g) (GetMemoryInfo b)"
    "area + of_nat n * PageSize + of_nat g * PageSize - 1 \<le> pa (r + rn) - 1"
    "area + of_nat n * PageSize + of_nat g * PageSize - 1 \<le> GetLastAddress b"
    using find_free_loop_found [of "pa r" "pa (r + rn) - 1" "of_nat n" al off "of_nat g" rest] assms(10) unfolding f by metis
  have bt: "b \<in> set (m_memory_block_tree m)" using b(1) by (auto simp: rest_def dest: in_set_dropD)
  have p: "m_address b = pa (page b)" "page b + np b \<le> end_page m" "end_page m < 2 ^ 51" "0 < np b"
    using layout_page_bound [of "first_page m" "m_memory_block_tree m" "end_page m" b] assms(1) bt layout_positive
    by (auto simp: manager_wf_def)
  define bse where "bse = (if m_address b \<le> pa r then pa r else m_address b)"
  have ub: "unat (pa r) = r * 4096" "unat (m_address b) = page b * 4096"
    using p assms(3) by (simp_all add: unat_pa)
  have bse: "unat bse = max (r * 4096) (unat (m_address b))"
    using ub by (auto simp: bse_def word_le_nat_alt max_def)
  have small: "unat bse + g * 4096 < 2 ^ 63 + 2 ^ 60"
    using assms(3,5) p(2,3) ub unfolding bse by (simp add: max_def)
  have sel: "info_address (GetMemoryInfo b) \<le> bse" "pa r \<le> bse" "bse = pa r \<or> bse = info_address (GetMemoryInfo b)"
    by (auto simp: GetMemoryInfo_def bse_def)
  note c = candidate_area_ok [OF small assms(6-8) sel, folded b(3)]
  have n: "0 < n" using n0 by (cases n) auto
  have "unat (area + of_nat n * PageSize + of_nat g * PageSize) = unat area + (n + g) * 4096"
    using c(2) assms(4,5) by (simp add: PageSize_4096 unat_word_ariths unat_of_nat)
  then have last: "unat (area + of_nat n * PageSize + of_nat g * PageSize - 1) = unat area + (n + g) * 4096 - 1"
    using n by (metis unat_minus_one unat_0 add_is_0 mult_is_0 less_irrefl zero_neq_numeral)
  have "unat (GetLastAddress b) = (page b + np b) * 4096 - 1"
    using block_at(2) [OF p(1)] p unat_pa_last [of "page b + np b"] by (simp add: GetLastAddress_def)
  then show ?thesis
    using b(2,4,5) bt c(1,3) bse last ub unat_pa_last [of "r + rn"] assms(2,3) n
    by (intro bexI [OF _ bt]) (auto simp: word_le_nat_alt)
qed

theorem FindFreeArea_is_free_witness:
  "FindFreeArea demo_manager (pa 0x10) (of_nat 8) (of_nat 1) 0x2000 0 (of_nat 1) = 0x12000 \<and>
   (\<exists>b \<in> set (m_memory_block_tree demo_manager). m_memory_state b = KMemoryState State_Free \<and>
      max 0x10000 (unat (m_address b)) + 0x1000 \<le> 0x12000 \<and> 0x14000 \<le> unat (m_address b) + np b * 4096)"
proof -
  have f: "FindFreeArea demo_manager (pa 0x10) (of_nat 8) (of_nat 1) 0x2000 0 (of_nat 1) = 0x12000"
    by (simp add: FindFreeArea_def FindIterator_def demo_manager_def new_KMemoryBlock_def Compare_def pa_def
        GetLastAddress_def GetEndAddress_def GetSize_def PageSize_4096 GetMemoryInfo_def candidate_area_def AlignDown_def
        info_last_address_def info_end_address_def Let_def)
  show ?thesis
    using FindFreeArea_is_free [OF demo_manager_facts(1) _ _ _ _ _ _ _ f] f by auto
qed

end
