(* ===== verification/PriorityQueue.thy ===== *)
theory PriorityQueue
  imports Prelude "HOL-Library.Monad_Syntax"
begin

text \<open>
  The scheduler's ready queue: \<^verbatim>\<open>core/hle/kernel/k_priority_queue.h\<close>, with the parts of
  \<^verbatim>\<open>KThread\<close> (\<^verbatim>\<open>k_thread.h\<close>) and \<^verbatim>\<open>KAffinityMask\<close> (\<^verbatim>\<open>k_affinity_mask.h\<close>) it works on, at the
  instance \<^verbatim>\<open>KPriorityQueue<KThread, 4, 63, 0>\<close> of \<^verbatim>\<open>global_scheduler_context.h\<close>.

  A \<^verbatim>\<open>KThread*\<close> is a number, a null pointer is \<open>None\<close>, and the threads live in a heap. The queue is
  intrusive: per priority and core it is a doubly linked list through the \<^verbatim>\<open>QueueEntry\<close> that every
  thread has for that core, closed over a root entry, and the scheduled and the suggested
  queue share those entries. The integers are the \<^verbatim>\<open>s32\<close> values, which no operation computes with.
  An index out of the range of a \<^verbatim>\<open>std::array\<close> is undefined in C++; the operations then
  return \<open>None\<close>. A failing \<^verbatim>\<open>ASSERT\<close> is only logged, so it changes nothing here.
\<close>

section \<open>Threads\<close>

type_synonym thread_ptr = nat
type_synonym process_ptr = nat

record QueueEntry =
  m_prev :: "thread_ptr option"
  m_next :: "thread_ptr option"

definition QueueEntry_Initialize :: "QueueEntry \<Rightarrow> QueueEntry" where
  "QueueEntry_Initialize e = e\<lparr>m_prev := None, m_next := None\<rparr>"

datatype ThreadType = ThreadType_Main | ThreadType_Kernel | ThreadType_HighPriority
  | ThreadType_User | ThreadType_Dummy

record KThread =
  m_per_core_priority_queue_entry :: "QueueEntry list"
  m_physical_affinity_mask :: u64
  m_core_id :: int
  m_priority :: int
  m_thread_type :: ThreadType
  m_thread_state :: u16
  m_schedule_count :: "64 word"
  m_last_scheduled_tick :: int
  m_num_kernel_waiters :: int
  m_parent :: "process_ptr option"
  m_dummy_thread_runnable :: bool

type_synonym heap = "thread_ptr \<Rightarrow> KThread"

definition IsDummyThread :: "KThread \<Rightarrow> bool" where
  "IsDummyThread t \<longleftrightarrow> m_thread_type t = ThreadType_Dummy"

section \<open>Affinity masks\<close>

definition NUM_CPU_CORES :: nat where
  "NUM_CPU_CORES = 4"

definition AllowedAffinityMask :: u64 where
  "AllowedAffinityMask = push_bit NUM_CPU_CORES 1 - 1"

definition GetCoreBit :: "int \<Rightarrow> u64" where
  "GetCoreBit core = push_bit (nat core) 1"

definition GetAffinity :: "u64 \<Rightarrow> int \<Rightarrow> bool" where
  "GetAffinity m core \<longleftrightarrow> m AND GetCoreBit core \<noteq> 0"

definition SetAffinity :: "u64 \<Rightarrow> int \<Rightarrow> bool \<Rightarrow> u64" where
  "SetAffinity m core on =
     (if on then m OR GetCoreBit core else m AND NOT (GetCoreBit core))"

section \<open>Arrays\<close>

text \<open>\<^verbatim>\<open>a[i]\<close> and \<^verbatim>\<open>a[i] = v\<close> for a \<^verbatim>\<open>std::array\<close>, \<open>None\<close> out of range.\<close>

definition array_get :: "'a list \<Rightarrow> int \<Rightarrow> 'a option" where
  "array_get xs i = (if 0 \<le> i \<and> i < int (length xs) then Some (xs ! nat i) else None)"

definition array_set :: "'a list \<Rightarrow> int \<Rightarrow> 'a \<Rightarrow> 'a list option" where
  "array_set xs i v = (if 0 \<le> i \<and> i < int (length xs) then Some (xs[nat i := v]) else None)"

section \<open>The lists of one priority\<close>

definition LowestPriority :: int where
  "LowestPriority = 63"

definition HighestPriority :: int where
  "HighestPriority = 0"

definition NumPriority :: nat where
  "NumPriority = nat (LowestPriority - HighestPriority + 1)"

definition IsValidCore :: "int \<Rightarrow> bool" where
  "IsValidCore core \<longleftrightarrow> 0 \<le> core \<and> core < int NUM_CPU_CORES"

definition IsValidPriority :: "int \<Rightarrow> bool" where
  "IsValidPriority priority \<longleftrightarrow> HighestPriority \<le> priority \<and> priority \<le> LowestPriority + 1"

record KPerCoreQueue =
  m_root :: "QueueEntry list"

definition null_entry :: QueueEntry where
  "null_entry = \<lparr>m_prev = None, m_next = None\<rparr>"

definition new_KPerCoreQueue :: KPerCoreQueue where
  "new_KPerCoreQueue =
     \<lparr>m_root = map QueueEntry_Initialize (replicate NUM_CPU_CORES null_entry)\<rparr>"

text \<open>
  The reference \<^verbatim>\<open>(p != nullptr) ? p->GetPriorityQueueEntry(core) : m_root[core]\<close>, read and
  written through.
\<close>

definition read_entry :: "int \<Rightarrow> thread_ptr option \<Rightarrow> heap \<times> KPerCoreQueue \<Rightarrow> QueueEntry option" where
  "read_entry core p s =
     (case p of None \<Rightarrow> array_get (m_root (snd s)) core
      | Some t \<Rightarrow> array_get (m_per_core_priority_queue_entry (fst s t)) core)"

definition write_entry ::
  "int \<Rightarrow> thread_ptr option \<Rightarrow> (QueueEntry \<Rightarrow> QueueEntry) \<Rightarrow> heap \<times> KPerCoreQueue
     \<Rightarrow> (heap \<times> KPerCoreQueue) option" where
  "write_entry core p f s =
     do {
       e \<leftarrow> read_entry core p s;
       case p of
         None \<Rightarrow> do {
           root \<leftarrow> array_set (m_root (snd s)) core (f e);
           Some (fst s, (snd s)\<lparr>m_root := root\<rparr>) }
       | Some t \<Rightarrow> do {
           es \<leftarrow> array_set (m_per_core_priority_queue_entry (fst s t)) core (f e);
           Some ((fst s)(t := (fst s t)\<lparr>m_per_core_priority_queue_entry := es\<rparr>), snd s) }
     }"

definition SetPrev :: "thread_ptr option \<Rightarrow> QueueEntry \<Rightarrow> QueueEntry" where
  "SetPrev p e = e\<lparr>m_prev := p\<rparr>"

definition SetNext :: "thread_ptr option \<Rightarrow> QueueEntry \<Rightarrow> QueueEntry" where
  "SetNext p e = e\<lparr>m_next := p\<rparr>"

definition KPerCoreQueue_GetFront :: "int \<Rightarrow> KPerCoreQueue \<Rightarrow> thread_ptr option option" where
  "KPerCoreQueue_GetFront core q = map_option m_next (array_get (m_root q) core)"

definition KPerCoreQueue_PushBack ::
  "int \<Rightarrow> thread_ptr \<Rightarrow> heap \<times> KPerCoreQueue \<Rightarrow> (bool \<times> heap \<times> KPerCoreQueue) option" where
  "KPerCoreQueue_PushBack core member s =
     do {
       root \<leftarrow> read_entry core None s;
       let tail = m_prev root;
       s \<leftarrow> write_entry core (Some member) (SetPrev tail) s;
       s \<leftarrow> write_entry core (Some member) (SetNext None) s;
       s \<leftarrow> write_entry core tail (SetNext (Some member)) s;
       s \<leftarrow> write_entry core None (SetPrev (Some member)) s;
       Some (tail = None, s)
     }"

definition KPerCoreQueue_PushFront ::
  "int \<Rightarrow> thread_ptr \<Rightarrow> heap \<times> KPerCoreQueue \<Rightarrow> (bool \<times> heap \<times> KPerCoreQueue) option" where
  "KPerCoreQueue_PushFront core member s =
     do {
       root \<leftarrow> read_entry core None s;
       let head = m_next root;
       s \<leftarrow> write_entry core (Some member) (SetPrev None) s;
       s \<leftarrow> write_entry core (Some member) (SetNext head) s;
       s \<leftarrow> write_entry core head (SetPrev (Some member)) s;
       s \<leftarrow> write_entry core None (SetNext (Some member)) s;
       Some (head = None, s)
     }"

definition KPerCoreQueue_Remove ::
  "int \<Rightarrow> thread_ptr \<Rightarrow> heap \<times> KPerCoreQueue \<Rightarrow> (bool \<times> heap \<times> KPerCoreQueue) option" where
  "KPerCoreQueue_Remove core member s =
     do {
       member_entry \<leftarrow> read_entry core (Some member) s;
       let prev = m_prev member_entry;
       let next = m_next member_entry;
       s \<leftarrow> write_entry core prev (SetNext next) s;
       s \<leftarrow> write_entry core next (SetPrev prev) s;
       front \<leftarrow> KPerCoreQueue_GetFront core (snd s);
       Some (front = None, s)
     }"

section \<open>All priorities of one queue\<close>

record KPriorityQueueImpl =
  m_queues :: "KPerCoreQueue list"
  m_available_priorities :: "bool list list"

definition new_KPriorityQueueImpl :: KPriorityQueueImpl where
  "new_KPriorityQueueImpl =
     \<lparr>m_queues = replicate NumPriority new_KPerCoreQueue,
      m_available_priorities = replicate NUM_CPU_CORES (replicate NumPriority False)\<rparr>"

text \<open>
  A per-core operation on \<^verbatim>\<open>m_queues[priority]\<close>, and \<^verbatim>\<open>m_available_priorities[core].set(priority)\<close> or
  \<^verbatim>\<open>.reset(priority)\<close>, which throw out of range.
\<close>

definition on_queue ::
  "int \<Rightarrow> (heap \<times> KPerCoreQueue \<Rightarrow> ('r \<times> heap \<times> KPerCoreQueue) option)
     \<Rightarrow> heap \<times> KPriorityQueueImpl \<Rightarrow> ('r \<times> heap \<times> KPriorityQueueImpl) option" where
  "on_queue priority f s =
     do {
       pc \<leftarrow> array_get (m_queues (snd s)) priority;
       (r, h, pc') \<leftarrow> f (fst s, pc);
       qs \<leftarrow> array_set (m_queues (snd s)) priority pc';
       Some (r, h, (snd s)\<lparr>m_queues := qs\<rparr>)
     }"

definition set_available ::
  "int \<Rightarrow> int \<Rightarrow> bool \<Rightarrow> heap \<times> KPriorityQueueImpl \<Rightarrow> (heap \<times> KPriorityQueueImpl) option" where
  "set_available core priority v s =
     do {
       bits \<leftarrow> array_get (m_available_priorities (snd s)) core;
       bits' \<leftarrow> array_set bits priority v;
       av \<leftarrow> array_set (m_available_priorities (snd s)) core bits';
       Some (fst s, (snd s)\<lparr>m_available_priorities := av\<rparr>)
     }"

definition KPriorityQueueImpl_PushBack ::
  "int \<Rightarrow> int \<Rightarrow> thread_ptr \<Rightarrow> heap \<times> KPriorityQueueImpl \<Rightarrow> (heap \<times> KPriorityQueueImpl) option" where
  "KPriorityQueueImpl_PushBack priority core member s =
     (if priority > LowestPriority then Some s
      else do {
        (was_empty, s) \<leftarrow> on_queue priority (KPerCoreQueue_PushBack core member) s;
        if was_empty then set_available core priority True s else Some s
      })"

definition KPriorityQueueImpl_PushFront ::
  "int \<Rightarrow> int \<Rightarrow> thread_ptr \<Rightarrow> heap \<times> KPriorityQueueImpl \<Rightarrow> (heap \<times> KPriorityQueueImpl) option" where
  "KPriorityQueueImpl_PushFront priority core member s =
     (if priority > LowestPriority then Some s
      else do {
        (was_empty, s) \<leftarrow> on_queue priority (KPerCoreQueue_PushFront core member) s;
        if was_empty then set_available core priority True s else Some s
      })"

definition KPriorityQueueImpl_Remove ::
  "int \<Rightarrow> int \<Rightarrow> thread_ptr \<Rightarrow> heap \<times> KPriorityQueueImpl \<Rightarrow> (heap \<times> KPriorityQueueImpl) option" where
  "KPriorityQueueImpl_Remove priority core member s =
     (if priority > LowestPriority then Some s
      else do {
        (now_empty, s) \<leftarrow> on_queue priority (KPerCoreQueue_Remove core member) s;
        if now_empty then set_available core priority False s else Some s
      })"

text \<open>The loop \<^verbatim>\<open>for (; i < bits.size(); i++) if (bits[i]) return i; return bits.size();\<close>.\<close>

function first_set :: "bool list \<Rightarrow> nat \<Rightarrow> nat" where
  "first_set bits i =
     (if i < length bits then if bits ! i then i else first_set bits (i + 1) else length bits)"
  by pat_completeness auto

termination first_set
  by (relation "measure (\<lambda>(bits, i). length bits - i)") auto

text \<open>\<^verbatim>\<open>m_queues[priority].GetFront(core)\<close> if the priority is one of the queue's.\<close>

definition front_at :: "int \<Rightarrow> int \<Rightarrow> KPriorityQueueImpl \<Rightarrow> thread_ptr option option" where
  "front_at priority core q =
     (if priority \<le> LowestPriority
      then do { pc \<leftarrow> array_get (m_queues q) priority; KPerCoreQueue_GetFront core pc }
      else Some None)"

definition KPriorityQueueImpl_GetFront :: "int \<Rightarrow> KPriorityQueueImpl \<Rightarrow> thread_ptr option option" where
  "KPriorityQueueImpl_GetFront core q =
     do {
       bits \<leftarrow> array_get (m_available_priorities q) core;
       let priority = int (first_set bits 0);
       front_at priority core q
     }"

text \<open>\<^verbatim>\<open>GetNextSet(bits, n)\<close>; the priority is converted to \<^verbatim>\<open>size_t\<close>, so \<open>n + 1\<close> is taken modulo \<open>2 ^ 64\<close>.\<close>

definition GetNextSet :: "bool list \<Rightarrow> int \<Rightarrow> nat" where
  "GetNextSet bits n = first_set bits (nat ((n + 1) mod 2 ^ 64))"

definition KPriorityQueueImpl_GetNext ::
  "int \<Rightarrow> thread_ptr \<Rightarrow> heap \<times> KPriorityQueueImpl \<Rightarrow> thread_ptr option option" where
  "KPriorityQueueImpl_GetNext core member s =
     do {
       member_entry \<leftarrow> array_get (m_per_core_priority_queue_entry (fst s member)) core;
       case m_next member_entry of
         Some next \<Rightarrow> Some (Some next)
       | None \<Rightarrow> do {
           bits \<leftarrow> array_get (m_available_priorities (snd s)) core;
           let priority = int (GetNextSet bits (m_priority (fst s member)));
           front_at priority core (snd s)
         }
     }"

definition KPriorityQueueImpl_MoveToFront ::
  "int \<Rightarrow> int \<Rightarrow> thread_ptr \<Rightarrow> heap \<times> KPriorityQueueImpl \<Rightarrow> (heap \<times> KPriorityQueueImpl) option" where
  "KPriorityQueueImpl_MoveToFront priority core member s =
     (if priority \<le> LowestPriority
      then do {
        (_, s) \<leftarrow> on_queue priority (KPerCoreQueue_Remove core member) s;
        (_, s) \<leftarrow> on_queue priority (KPerCoreQueue_PushFront core member) s;
        Some s
      }
      else Some s)"

definition KPriorityQueueImpl_MoveToBack ::
  "int \<Rightarrow> int \<Rightarrow> thread_ptr \<Rightarrow> heap \<times> KPriorityQueueImpl
     \<Rightarrow> (thread_ptr option \<times> heap \<times> KPriorityQueueImpl) option" where
  "KPriorityQueueImpl_MoveToBack priority core member s =
     (if priority \<le> LowestPriority
      then do {
        (_, s) \<leftarrow> on_queue priority (KPerCoreQueue_Remove core member) s;
        (_, s) \<leftarrow> on_queue priority (KPerCoreQueue_PushBack core member) s;
        front \<leftarrow> front_at priority core (snd s);
        Some (front, s)
      }
      else Some (None, s))"

section \<open>The scheduled and the suggested queue\<close>

record KPriorityQueue =
  m_scheduled_queue :: KPriorityQueueImpl
  m_suggested_queue :: KPriorityQueueImpl

definition new_KPriorityQueue :: KPriorityQueue where
  "new_KPriorityQueue =
     \<lparr>m_scheduled_queue = new_KPriorityQueueImpl, m_suggested_queue = new_KPriorityQueueImpl\<rparr>"

text \<open>An operation of one of the two queues, run on the whole.\<close>

definition on_scheduled ::
  "(heap \<times> KPriorityQueueImpl \<Rightarrow> (heap \<times> KPriorityQueueImpl) option)
     \<Rightarrow> heap \<times> KPriorityQueue \<Rightarrow> (heap \<times> KPriorityQueue) option" where
  "on_scheduled f s =
     do { (h, i) \<leftarrow> f (fst s, m_scheduled_queue (snd s)); Some (h, (snd s)\<lparr>m_scheduled_queue := i\<rparr>) }"

definition on_suggested ::
  "(heap \<times> KPriorityQueueImpl \<Rightarrow> (heap \<times> KPriorityQueueImpl) option)
     \<Rightarrow> heap \<times> KPriorityQueue \<Rightarrow> (heap \<times> KPriorityQueue) option" where
  "on_suggested f s =
     do { (h, i) \<leftarrow> f (fst s, m_suggested_queue (snd s)); Some (h, (snd s)\<lparr>m_suggested_queue := i\<rparr>) }"

text \<open>\<^verbatim>\<open>affinity &= ~(UINT64_C(1) << core)\<close>; a shift by 64 or more, or by less than 0, is undefined.\<close>

definition ClearAffinityBit :: "u64 \<Rightarrow> int \<Rightarrow> u64 option" where
  "ClearAffinityBit affinity core =
     (if 0 \<le> core \<and> core < 64 then Some (affinity AND NOT (push_bit (nat core) 1)) else None)"

definition GetNextCore :: "u64 \<Rightarrow> int \<times> u64" where
  "GetNextCore affinity =
     (int (countr_zero affinity), affinity AND NOT (push_bit (countr_zero affinity) 1))"

lemma bit_u64_less: "bit (w :: u64) i \<Longrightarrow> i < 64"
  using bit_imp_le_length [of w i] by simp

lemma bit_clear: "bit ((w :: u64) AND NOT (2 ^ n)) i \<longleftrightarrow> bit w i \<and> i \<noteq> n"
proof (cases "i < 64")
  case True
  then show ?thesis
    by (simp add: bit_and_iff bit_not_iff bit_exp_iff)
next
  case False
  then show ?thesis
    using bit_u64_less by blast
qed

lemma GetNextCore_decreases:
  assumes "w \<noteq> (0 :: u64)"
  shows "card {i. i < 64 \<and> bit (snd (GetNextCore w)) i} < card {i. i < 64 \<and> bit w i}"
proof (rule psubset_card_mono)
  have "{i. i < 64 \<and> bit (snd (GetNextCore w)) i} = {i. i < 64 \<and> bit w i} - {countr_zero w}"
    by (auto simp: GetNextCore_def bit_clear)
  then show "{i. i < 64 \<and> bit (snd (GetNextCore w)) i} \<subset> {i. i < 64 \<and> bit w i}"
    using bit_countr_zero [OF assms] by blast
qed simp

text \<open>The loop \<^verbatim>\<open>while (affinity) body(GetNextCore(affinity))\<close>.\<close>

function while_affinity :: "(int \<Rightarrow> 's \<Rightarrow> 's option) \<Rightarrow> u64 \<Rightarrow> 's \<Rightarrow> 's option" where
  "while_affinity body affinity s =
     (if affinity = 0 then Some s
      else do {
        s \<leftarrow> body (fst (GetNextCore affinity)) s;
        while_affinity body (snd (GetNextCore affinity)) s
      })"
  by pat_completeness auto

termination while_affinity
  by (relation "measure (\<lambda>(body, affinity, s). card {i. i < 64 \<and> bit affinity i})")
     (auto simp: GetNextCore_decreases simp del: Suc_less_eq)

declare while_affinity.simps [simp del]

definition KPriorityQueue_PushBack_at ::
  "int \<Rightarrow> thread_ptr \<Rightarrow> heap \<times> KPriorityQueue \<Rightarrow> (heap \<times> KPriorityQueue) option" where
  "KPriorityQueue_PushBack_at priority member s =
     do {
       let affinity = m_physical_affinity_mask (fst s member);
       let core = m_core_id (fst s member);
       (affinity, s) \<leftarrow>
         (if core \<ge> 0 then do {
            s \<leftarrow> on_scheduled (KPriorityQueueImpl_PushBack priority core member) s;
            affinity \<leftarrow> ClearAffinityBit affinity core;
            Some (affinity, s) }
          else Some (affinity, s));
       while_affinity (\<lambda>c. on_suggested (KPriorityQueueImpl_PushBack priority c member)) affinity s
     }"

definition KPriorityQueue_PushFront_at ::
  "int \<Rightarrow> thread_ptr \<Rightarrow> heap \<times> KPriorityQueue \<Rightarrow> (heap \<times> KPriorityQueue) option" where
  "KPriorityQueue_PushFront_at priority member s =
     do {
       let affinity = m_physical_affinity_mask (fst s member);
       let core = m_core_id (fst s member);
       (affinity, s) \<leftarrow>
         (if core \<ge> 0 then do {
            s \<leftarrow> on_scheduled (KPriorityQueueImpl_PushFront priority core member) s;
            affinity \<leftarrow> ClearAffinityBit affinity core;
            Some (affinity, s) }
          else Some (affinity, s));
       while_affinity (\<lambda>c. on_suggested (KPriorityQueueImpl_PushBack priority c member)) affinity s
     }"

definition KPriorityQueue_Remove_at ::
  "int \<Rightarrow> thread_ptr \<Rightarrow> heap \<times> KPriorityQueue \<Rightarrow> (heap \<times> KPriorityQueue) option" where
  "KPriorityQueue_Remove_at priority member s =
     do {
       let affinity = m_physical_affinity_mask (fst s member);
       let core = m_core_id (fst s member);
       (affinity, s) \<leftarrow>
         (if core \<ge> 0 then do {
            s \<leftarrow> on_scheduled (KPriorityQueueImpl_Remove priority core member) s;
            affinity \<leftarrow> ClearAffinityBit affinity core;
            Some (affinity, s) }
          else Some (affinity, s));
       while_affinity (\<lambda>c. on_suggested (KPriorityQueueImpl_Remove priority c member)) affinity s
     }"

section \<open>The public operations\<close>

definition GetScheduledFront :: "int \<Rightarrow> KPriorityQueue \<Rightarrow> thread_ptr option option" where
  "GetScheduledFront core q = KPriorityQueueImpl_GetFront core (m_scheduled_queue q)"

definition GetScheduledFront_at :: "int \<Rightarrow> int \<Rightarrow> KPriorityQueue \<Rightarrow> thread_ptr option option" where
  "GetScheduledFront_at core priority q = front_at priority core (m_scheduled_queue q)"

definition GetSuggestedFront :: "int \<Rightarrow> KPriorityQueue \<Rightarrow> thread_ptr option option" where
  "GetSuggestedFront core q = KPriorityQueueImpl_GetFront core (m_suggested_queue q)"

definition GetSuggestedFront_at :: "int \<Rightarrow> int \<Rightarrow> KPriorityQueue \<Rightarrow> thread_ptr option option" where
  "GetSuggestedFront_at core priority q = front_at priority core (m_suggested_queue q)"

definition GetScheduledNext ::
  "int \<Rightarrow> thread_ptr \<Rightarrow> heap \<times> KPriorityQueue \<Rightarrow> thread_ptr option option" where
  "GetScheduledNext core member s =
     KPriorityQueueImpl_GetNext core member (fst s, m_scheduled_queue (snd s))"

definition GetSuggestedNext ::
  "int \<Rightarrow> thread_ptr \<Rightarrow> heap \<times> KPriorityQueue \<Rightarrow> thread_ptr option option" where
  "GetSuggestedNext core member s =
     KPriorityQueueImpl_GetNext core member (fst s, m_suggested_queue (snd s))"

definition GetSamePriorityNext :: "int \<Rightarrow> thread_ptr \<Rightarrow> heap \<Rightarrow> thread_ptr option option" where
  "GetSamePriorityNext core member h =
     map_option m_next (array_get (m_per_core_priority_queue_entry (h member)) core)"

definition KPriorityQueue_PushBack ::
  "thread_ptr \<Rightarrow> heap \<times> KPriorityQueue \<Rightarrow> (heap \<times> KPriorityQueue) option" where
  "KPriorityQueue_PushBack member s =
     (if IsDummyThread (fst s member) then Some s
      else KPriorityQueue_PushBack_at (m_priority (fst s member)) member s)"

definition KPriorityQueue_Remove ::
  "thread_ptr \<Rightarrow> heap \<times> KPriorityQueue \<Rightarrow> (heap \<times> KPriorityQueue) option" where
  "KPriorityQueue_Remove member s =
     (if IsDummyThread (fst s member) then Some s
      else KPriorityQueue_Remove_at (m_priority (fst s member)) member s)"

definition MoveToScheduledFront ::
  "thread_ptr \<Rightarrow> heap \<times> KPriorityQueue \<Rightarrow> (heap \<times> KPriorityQueue) option" where
  "MoveToScheduledFront member s =
     (if IsDummyThread (fst s member) then Some s
      else on_scheduled
        (KPriorityQueueImpl_MoveToFront (m_priority (fst s member)) (m_core_id (fst s member)) member) s)"

definition MoveToScheduledBack ::
  "thread_ptr \<Rightarrow> heap \<times> KPriorityQueue \<Rightarrow> (thread_ptr option \<times> heap \<times> KPriorityQueue) option" where
  "MoveToScheduledBack member s =
     (if IsDummyThread (fst s member) then Some (None, s)
      else do {
        (front, h, i) \<leftarrow> KPriorityQueueImpl_MoveToBack (m_priority (fst s member))
                           (m_core_id (fst s member)) member (fst s, m_scheduled_queue (snd s));
        Some (front, h, (snd s)\<lparr>m_scheduled_queue := i\<rparr>)
      })"

definition ChangePriority ::
  "int \<Rightarrow> bool \<Rightarrow> thread_ptr \<Rightarrow> heap \<times> KPriorityQueue \<Rightarrow> (heap \<times> KPriorityQueue) option" where
  "ChangePriority prev_priority is_running member s =
     (if IsDummyThread (fst s member) then Some s
      else do {
        let new_priority = m_priority (fst s member);
        s \<leftarrow> KPriorityQueue_Remove_at prev_priority member s;
        if is_running then KPriorityQueue_PushFront_at new_priority member s
        else KPriorityQueue_PushBack_at new_priority member s
      })"

text \<open>The loop \<^verbatim>\<open>for (s32 core = 0; core < NumCores; core++)\<close>.\<close>

fun for_cores :: "(int \<Rightarrow> 's \<Rightarrow> 's option) \<Rightarrow> int list \<Rightarrow> 's \<Rightarrow> 's option" where
  "for_cores body [] s = Some s"
| "for_cores body (core # cores) s = do { s \<leftarrow> body core s; for_cores body cores s }"

definition cores :: "int list" where
  "cores = map int [0..<NUM_CPU_CORES]"

text \<open>
  The body of the two loops of \<^verbatim>\<open>ChangeAffinityMask\<close>: an operation on the scheduled queue for one
  core of a mask and on the suggested queue for the others.
\<close>

definition for_affinity ::
  "(int \<Rightarrow> heap \<times> KPriorityQueueImpl \<Rightarrow> (heap \<times> KPriorityQueueImpl) option) \<Rightarrow> int \<Rightarrow> u64
     \<Rightarrow> heap \<times> KPriorityQueue \<Rightarrow> (heap \<times> KPriorityQueue) option" where
  "for_affinity queue_op scheduled_core affinity =
     for_cores (\<lambda>core s.
       if GetAffinity affinity core
       then if core = scheduled_core then on_scheduled (queue_op core) s else on_suggested (queue_op core) s
       else Some s) cores"

definition ChangeAffinityMask ::
  "int \<Rightarrow> u64 \<Rightarrow> thread_ptr \<Rightarrow> heap \<times> KPriorityQueue \<Rightarrow> (heap \<times> KPriorityQueue) option" where
  "ChangeAffinityMask prev_core prev_affinity member s =
     (if IsDummyThread (fst s member) then Some s
      else do {
        let priority = m_priority (fst s member);
        let new_affinity = m_physical_affinity_mask (fst s member);
        let new_core = m_core_id (fst s member);
        s \<leftarrow> for_affinity (\<lambda>core. KPriorityQueueImpl_Remove priority core member) prev_core prev_affinity s;
        for_affinity (\<lambda>core. KPriorityQueueImpl_PushBack priority core member) new_core new_affinity s
      })"

definition ChangeCore ::
  "int \<Rightarrow> thread_ptr \<Rightarrow> bool \<Rightarrow> heap \<times> KPriorityQueue \<Rightarrow> (heap \<times> KPriorityQueue) option" where
  "ChangeCore prev_core member to_front s =
     (if IsDummyThread (fst s member) then Some s
      else do {
        let new_core = m_core_id (fst s member);
        let priority = m_priority (fst s member);
        if prev_core = new_core then Some s
        else do {
          s \<leftarrow> (if prev_core \<ge> 0
                then on_scheduled (KPriorityQueueImpl_Remove priority prev_core member) s
                else Some s);
          s \<leftarrow> (if new_core \<ge> 0
                then do {
                  s \<leftarrow> on_suggested (KPriorityQueueImpl_Remove priority new_core member) s;
                  if to_front
                  then on_scheduled (KPriorityQueueImpl_PushFront priority new_core member) s
                  else on_scheduled (KPriorityQueueImpl_PushBack priority new_core member) s
                }
                else Some s);
          if prev_core \<ge> 0
          then on_suggested (KPriorityQueueImpl_PushBack priority prev_core member) s
          else Some s
        }
      })"

end
