(* ===== verification/Scheduler.thy ===== *)
theory Scheduler
  imports PriorityQueue
begin

text \<open>
  The thread scheduler: \<^verbatim>\<open>core/hle/kernel/k_scheduler.cpp\<close> with \<^verbatim>\<open>global_scheduler_context.cpp\<close> and the
  scheduler lock of \<^verbatim>\<open>k_scheduler_lock.h\<close>, as far as they decide which thread runs where. All of it
  runs under the scheduler lock, so it is sequential.

  The loops that follow the links of the ready queue are \<open>partial_function (option)\<close>: \<open>None\<close> is an
  undefined access or a loop that does not end. The clock of \<^verbatim>\<open>CoreTiming\<close> is a field of the
  state. The context switch itself, fibers and interrupts, is not modelled: a release of the lock
  records the mask of cores it would have rescheduled.
\<close>

section \<open>State\<close>

record KProcess =
  p_schedule_count :: "64 word"
  m_pinned_threads :: "thread_ptr option list"
  m_running_threads :: "thread_ptr option list"
  m_running_thread_idle_counts :: "u64 list"
  m_running_thread_switch_counts :: "u64 list"

record KScheduler =
  s_core_id :: nat
  needs_scheduling :: bool
  interrupt_task_runnable :: bool
  should_count_idle :: bool
  idle_count :: u64
  highest_priority_thread :: "thread_ptr option"
  prev_thread :: "thread_ptr option"

record kernel =
  threads :: heap
  processes :: "process_ptr \<Rightarrow> KProcess"
  m_priority_queue :: KPriorityQueue
  m_scheduler_update_needed :: bool
  m_woken_dummy_threads :: "thread_ptr list"
  m_thread_list :: "thread_ptr list"
  schedulers :: "KScheduler list"
  current_thread :: thread_ptr
  current_process :: process_ptr
  clock_ticks :: int
  m_lock_count :: int
  m_owner_thread :: "thread_ptr option"
  rescheduled :: "u64 list"

definition ThreadState_Waiting :: u16 where
  "ThreadState_Waiting = 1"

definition ThreadState_Runnable :: u16 where
  "ThreadState_Runnable = 2"

definition ThreadState_Mask :: u16 where
  "ThreadState_Mask = 0xF"

definition HighestCoreMigrationAllowedPriority :: int where
  "HighestCoreMigrationAllowedPriority = 2"

text \<open>Access to one thread, and an operation of the ready queue on the whole state.\<close>

abbreviation thr :: "kernel \<Rightarrow> thread_ptr \<Rightarrow> KThread" where
  "thr k t \<equiv> threads k t"

definition upd_thread :: "thread_ptr \<Rightarrow> (KThread \<Rightarrow> KThread) \<Rightarrow> kernel \<Rightarrow> kernel" where
  "upd_thread t f k = k\<lparr>threads := (threads k)(t := f (thr k t))\<rparr>"

definition SetActiveCore :: "thread_ptr \<Rightarrow> int \<Rightarrow> kernel \<Rightarrow> kernel" where
  "SetActiveCore t core = upd_thread t (\<lambda>th. th\<lparr>m_core_id := core\<rparr>)"

definition ready_queue :: "kernel \<Rightarrow> heap \<times> KPriorityQueue" where
  "ready_queue k = (threads k, m_priority_queue k)"

definition with_ready_queue :: "heap \<times> KPriorityQueue \<Rightarrow> kernel \<Rightarrow> kernel" where
  "with_ready_queue s k = k\<lparr>threads := fst s, m_priority_queue := snd s\<rparr>"

definition on_pq :: "(heap \<times> KPriorityQueue \<Rightarrow> (heap \<times> KPriorityQueue) option) \<Rightarrow> kernel \<Rightarrow> kernel option" where
  "on_pq f k = do { s \<leftarrow> f (ready_queue k); Some (with_ready_queue s k) }"

definition IncrementScheduledCount :: "thread_ptr \<Rightarrow> kernel \<Rightarrow> kernel" where
  "IncrementScheduledCount t k =
     (case m_parent (thr k t) of
        None \<Rightarrow> k
      | Some p \<Rightarrow> k\<lparr>processes := (processes k)(p := (processes k p)
                     \<lparr>p_schedule_count := p_schedule_count (processes k p) + 1\<rparr>)\<rparr>)"

definition SetSchedulerUpdateNeeded :: "kernel \<Rightarrow> kernel" where
  "SetSchedulerUpdateNeeded k = k\<lparr>m_scheduler_update_needed := True\<rparr>"

definition ClearSchedulerUpdateNeeded :: "kernel \<Rightarrow> kernel" where
  "ClearSchedulerUpdateNeeded k = k\<lparr>m_scheduler_update_needed := False\<rparr>"

section \<open>The global scheduler context\<close>

definition AddThread :: "thread_ptr \<Rightarrow> kernel \<Rightarrow> kernel" where
  "AddThread t k = k\<lparr>m_thread_list := m_thread_list k @ [t]\<rparr>"

text \<open>Erasing the end iterator is undefined: \<open>None\<close> if the thread is not listed.\<close>

definition RemoveThread :: "thread_ptr \<Rightarrow> kernel \<Rightarrow> kernel option" where
  "RemoveThread t k =
     (if t \<in> set (m_thread_list k) then Some (k\<lparr>m_thread_list := remove1 t (m_thread_list k)\<rparr>) else None)"

definition RegisterDummyThreadForWakeup :: "thread_ptr \<Rightarrow> kernel \<Rightarrow> kernel" where
  "RegisterDummyThreadForWakeup t k = k\<lparr>m_woken_dummy_threads := m_woken_dummy_threads k @ [t]\<rparr>"

text \<open>The first occurrence is overwritten by the last element, which is then popped.\<close>

definition swap_erase :: "'a \<Rightarrow> 'a list \<Rightarrow> 'a list" where
  "swap_erase x xs =
     (let i = length (takeWhile (\<lambda>y. y \<noteq> x) xs) in
      if i < length xs then butlast (xs[i := last xs]) else xs)"

definition UnregisterDummyThreadForWakeup :: "thread_ptr \<Rightarrow> kernel \<Rightarrow> kernel" where
  "UnregisterDummyThreadForWakeup t k =
     k\<lparr>m_woken_dummy_threads := swap_erase t (m_woken_dummy_threads k)\<rparr>"

definition DummyThreadEndWait :: "thread_ptr \<Rightarrow> kernel \<Rightarrow> kernel" where
  "DummyThreadEndWait t = upd_thread t (\<lambda>th. th\<lparr>m_dummy_thread_runnable := True\<rparr>)"

definition RequestDummyThreadWait :: "thread_ptr \<Rightarrow> kernel \<Rightarrow> kernel" where
  "RequestDummyThreadWait t = upd_thread t (\<lambda>th. th\<lparr>m_dummy_thread_runnable := False\<rparr>)"

definition WakeupWaitingDummyThreads :: "kernel \<Rightarrow> kernel" where
  "WakeupWaitingDummyThreads k =
     (if length (m_woken_dummy_threads k) > 0
      then (fold DummyThreadEndWait (m_woken_dummy_threads k) k)\<lparr>m_woken_dummy_threads := []\<rparr>
      else k)"

section \<open>The schedulers of the cores\<close>

definition SetRunningThread :: "int \<Rightarrow> thread_ptr \<Rightarrow> u64 \<Rightarrow> u64 \<Rightarrow> KProcess \<Rightarrow> KProcess option" where
  "SetRunningThread core t idle switches p =
     do {
       ts \<leftarrow> array_set (m_running_threads p) core (Some t);
       is \<leftarrow> array_set (m_running_thread_idle_counts p) core idle;
       ss \<leftarrow> array_set (m_running_thread_switch_counts p) core switches;
       Some (p\<lparr>m_running_threads := ts, m_running_thread_idle_counts := is,
               m_running_thread_switch_counts := ss\<rparr>)
     }"

text \<open>The two blocks inside \<^verbatim>\<open>UpdateHighestPriorityThread\<close>: the thread that stops being highest, and the idle count.\<close>

definition note_descheduled :: "thread_ptr option \<Rightarrow> kernel \<Rightarrow> kernel" where
  "note_descheduled prev k =
     (case prev of
        None \<Rightarrow> k
      | Some t \<Rightarrow> upd_thread t (\<lambda>th. th\<lparr>m_last_scheduled_tick := clock_ticks k\<rparr>) (IncrementScheduledCount t k))"

definition count_idle :: "thread_ptr option \<Rightarrow> KScheduler \<Rightarrow> kernel \<Rightarrow> (KScheduler \<times> kernel) option" where
  "count_idle highest sched k =
     (if should_count_idle sched
      then case highest of
        Some t \<Rightarrow>
          (case m_parent (thr k t) of
             Some p \<Rightarrow> do {
               proc \<leftarrow> SetRunningThread (int (s_core_id sched)) t (idle_count sched) 0 (processes k p);
               Some (sched, k\<lparr>processes := (processes k)(p := proc)\<rparr>) }
           | None \<Rightarrow> Some (sched, k))
      | None \<Rightarrow> Some (sched\<lparr>idle_count := idle_count sched + 1\<rparr>, k)
      else Some (sched, k))"

definition UpdateHighestPriorityThread :: "int \<Rightarrow> thread_ptr option \<Rightarrow> kernel \<Rightarrow> (u64 \<times> kernel) option" where
  "UpdateHighestPriorityThread core highest k =
     do {
       sched \<leftarrow> array_get (schedulers k) core;
       let prev = highest_priority_thread sched;
       if prev \<noteq> highest
       then do {
         let k = note_descheduled prev k;
         (sched, k) \<leftarrow> count_idle highest sched k;
         let sched = sched\<lparr>highest_priority_thread := highest, needs_scheduling := True\<rparr>;
         ss \<leftarrow> array_set (schedulers k) core sched;
         Some (push_bit (s_core_id sched) 1, k\<lparr>schedulers := ss\<rparr>)
       }
       else Some (0, k)
     }"

definition SetInterruptTaskRunnable :: "KScheduler \<Rightarrow> KScheduler" where
  "SetInterruptTaskRunnable sched = sched\<lparr>interrupt_task_runnable := True, needs_scheduling := True\<rparr>"

definition ClearPreviousThread :: "thread_ptr \<Rightarrow> kernel \<Rightarrow> kernel" where
  "ClearPreviousThread t k =
     k\<lparr>schedulers := map (\<lambda>sched. if prev_thread sched = Some t then sched\<lparr>prev_thread := None\<rparr> else sched)
        (schedulers k)\<rparr>"

section \<open>Choosing the threads to run\<close>

text \<open>The replacement of a core's top thread by the thread its process has pinned to the core.\<close>

definition prefer_pinned :: "int \<Rightarrow> thread_ptr \<Rightarrow> kernel \<Rightarrow> thread_ptr option option" where
  "prefer_pinned core top_thread k =
     (case m_parent (thr k top_thread) of
        None \<Rightarrow> Some (Some top_thread)
      | Some parent \<Rightarrow> do {
          pinned \<leftarrow> array_get (m_pinned_threads (processes k parent)) core;
          Some (case pinned of
            None \<Rightarrow> Some top_thread
          | Some pin \<Rightarrow>
              if pin \<noteq> top_thread \<and> m_num_kernel_waiters (thr k top_thread) = 0
              then if m_thread_state (thr k pin) = ThreadState_Runnable then Some pin else None
              else Some top_thread)
        })"

text \<open>
  The first loop of \<^verbatim>\<open>UpdateHighestPriorityThreadsImpl\<close>, over the cores; its locals are the mask of cores
  needing scheduling, the mask of idle cores and the array of top threads.
\<close>

record locals =
  l_cores :: u64
  l_idle :: u64
  l_top :: "thread_ptr option list"

definition choose_top :: "int \<Rightarrow> locals \<times> kernel \<Rightarrow> (locals \<times> kernel) option" where
  "choose_top core s =
     do {
       let (l, k) = s;
       front \<leftarrow> GetScheduledFront core (m_priority_queue k);
       (top_thread, l) \<leftarrow> (case front of
           Some t \<Rightarrow> do { top_thread \<leftarrow> prefer_pinned core t k; Some (top_thread, l) }
         | None \<Rightarrow> Some (None, l\<lparr>l_idle := l_idle l OR push_bit (nat core) 1\<rparr>));
       tops \<leftarrow> array_set (l_top l) core top_thread;
       (mask, k) \<leftarrow> UpdateHighestPriorityThread core top_thread k;
       Some (l\<lparr>l_top := tops, l_cores := l_cores l OR mask\<rparr>, k)
     }"

text \<open>Making a thread the top thread of a core.\<close>

definition set_top :: "int \<Rightarrow> thread_ptr option \<Rightarrow> locals \<times> kernel \<Rightarrow> (locals \<times> kernel) option" where
  "set_top core t s =
     do {
       let (l, k) = s;
       tops \<leftarrow> array_set (l_top l) core t;
       (mask, k) \<leftarrow> UpdateHighestPriorityThread core t k;
       Some (l\<lparr>l_top := tops, l_cores := l_cores l OR mask\<rparr>, k)
     }"

text \<open>\<^verbatim>\<open>suggested->SetActiveCore(core_id); priority_queue.ChangeCore(old_core, suggested, to_front);\<close>\<close>

definition migrate :: "int \<Rightarrow> int \<Rightarrow> thread_ptr \<Rightarrow> bool \<Rightarrow> kernel \<Rightarrow> kernel option" where
  "migrate core_id old_core suggested to_front k =
     on_pq (ChangeCore old_core suggested to_front) (SetActiveCore suggested core_id k)"

definition top_of :: "int \<Rightarrow> thread_ptr option list \<Rightarrow> thread_ptr option option" where
  "top_of core tops = (if core \<ge> 0 then array_get tops core else Some None)"

text \<open>
  The loop over the suggested threads of an idle core. It ends with the last value of \<^verbatim>\<open>suggested\<close> and
  the migration candidates.
\<close>

partial_function (option) try_suggested ::
  "int \<Rightarrow> thread_ptr option \<Rightarrow> int list \<Rightarrow> locals \<times> kernel
     \<Rightarrow> (thread_ptr option \<times> int list \<times> locals \<times> kernel) option" where
  [code]: "try_suggested core_id suggested candidates s =
     (case suggested of
        None \<Rightarrow> Some (None, candidates, s)
      | Some sg \<Rightarrow> do {
          let suggested_core = m_core_id (thr (snd s) sg);
          top_thread \<leftarrow> top_of suggested_core (l_top (fst s));
          if top_thread \<noteq> Some sg
          then if (case top_thread of None \<Rightarrow> False
                   | Some t \<Rightarrow> m_priority (thr (snd s) t) < HighestCoreMigrationAllowedPriority)
            then Some (Some sg, candidates, s)
            else do {
              k \<leftarrow> migrate core_id suggested_core sg False (snd s);
              s \<leftarrow> set_top core_id (Some sg) (fst s, k);
              Some (Some sg, candidates, s)
            }
          else if length candidates < NUM_CPU_CORES
          then do {
            nxt \<leftarrow> GetSuggestedNext core_id sg (ready_queue (snd s));
            try_suggested core_id nxt (candidates @ [suggested_core]) s
          }
          else None
        })"

text \<open>The loop over the candidate cores whose top thread could move to the idle core.\<close>

fun try_candidates :: "int \<Rightarrow> int list \<Rightarrow> locals \<times> kernel \<Rightarrow> (locals \<times> kernel) option" where
  "try_candidates core_id [] s = Some s"
| "try_candidates core_id (candidate_core # rest) s =
     do {
       suggested \<leftarrow> array_get (l_top (fst s)) candidate_core;
       sg \<leftarrow> suggested;
       next_on \<leftarrow> GetScheduledNext candidate_core sg (ready_queue (snd s));
       case next_on of
         None \<Rightarrow> try_candidates core_id rest s
       | Some nxt \<Rightarrow> do {
           s \<leftarrow> set_top candidate_core (Some nxt) s;
           k \<leftarrow> migrate core_id candidate_core sg False (snd s);
           set_top core_id (Some sg) (fst s, k)
         }
     }"

definition fill_idle_core :: "int \<Rightarrow> locals \<times> kernel \<Rightarrow> (locals \<times> kernel) option" where
  "fill_idle_core core_id s =
     do {
       front \<leftarrow> GetSuggestedFront core_id (m_priority_queue (snd s));
       case front of
         None \<Rightarrow> Some s
       | Some _ \<Rightarrow> do {
           (suggested, candidates, s) \<leftarrow> try_suggested core_id front [] s;
           if suggested = None then try_candidates core_id candidates s else Some s
         }
     }"

definition UpdateHighestPriorityThreadsImpl :: "kernel \<Rightarrow> (u64 \<times> kernel) option" where
  "UpdateHighestPriorityThreadsImpl k =
     do {
       let k = ClearSchedulerUpdateNeeded k;
       (l, k) \<leftarrow> for_cores choose_top cores
          (\<lparr>l_cores = 0, l_idle = 0, l_top = replicate NUM_CPU_CORES None\<rparr>, k);
       (l, k) \<leftarrow> while_affinity fill_idle_core (l_idle l) (l, k);
       let k = WakeupWaitingDummyThreads k;
       let cur = current_thread k;
       let k = (if IsDummyThread (thr k cur) \<and> m_thread_state (thr k cur) AND ThreadState_Mask \<noteq> ThreadState_Runnable
                then RequestDummyThreadWait cur k else k);
       Some (l_cores l, k)
     }"

definition UpdateHighestPriorityThreads :: "kernel \<Rightarrow> (u64 \<times> kernel) option" where
  "UpdateHighestPriorityThreads k =
     (if m_scheduler_update_needed k then UpdateHighestPriorityThreadsImpl k else Some (0, k))"

section \<open>The scheduler lock\<close>

definition IsLockedByCurrentThread :: "kernel \<Rightarrow> bool" where
  "IsLockedByCurrentThread k \<longleftrightarrow> m_owner_thread k = Some (current_thread k)"

definition Lock :: "kernel \<Rightarrow> kernel" where
  "Lock k =
     (let k = (if IsLockedByCurrentThread k then k else k\<lparr>m_owner_thread := Some (current_thread k)\<rparr>) in
      k\<lparr>m_lock_count := m_lock_count k + 1\<rparr>)"

definition Unlock :: "kernel \<Rightarrow> kernel option" where
  "Unlock k =
     (let k = k\<lparr>m_lock_count := m_lock_count k - 1\<rparr> in
      if m_lock_count k = 0
      then do {
        (cores_needing_scheduling, k) \<leftarrow> UpdateHighestPriorityThreads k;
        Some (k\<lparr>m_owner_thread := None, rescheduled := rescheduled k @ [cores_needing_scheduling]\<rparr>)
      }
      else Some k)"

section \<open>Events of a thread\<close>

definition OnThreadStateChanged :: "thread_ptr \<Rightarrow> u16 \<Rightarrow> kernel \<Rightarrow> kernel option" where
  "OnThreadStateChanged thread old_state k =
     (let cur_state = m_thread_state (thr k thread) in
      if cur_state \<noteq> old_state
      then if old_state = ThreadState_Runnable
        then do {
          k \<leftarrow> on_pq (KPriorityQueue_Remove thread) k;
          let k = SetSchedulerUpdateNeeded (IncrementScheduledCount thread k);
          Some (if IsDummyThread (thr k thread) then UnregisterDummyThreadForWakeup thread k else k)
        }
        else if cur_state = ThreadState_Runnable
        then do {
          k \<leftarrow> on_pq (KPriorityQueue_PushBack thread) k;
          let k = SetSchedulerUpdateNeeded (IncrementScheduledCount thread k);
          Some (if IsDummyThread (thr k thread) then RegisterDummyThreadForWakeup thread k else k)
        }
        else Some k
      else Some k)"

definition OnThreadPriorityChanged :: "thread_ptr \<Rightarrow> int \<Rightarrow> kernel \<Rightarrow> kernel option" where
  "OnThreadPriorityChanged thread old_priority k =
     (if m_thread_state (thr k thread) = ThreadState_Runnable
      then do {
        k \<leftarrow> on_pq (ChangePriority old_priority (thread = current_thread k) thread) k;
        Some (SetSchedulerUpdateNeeded (IncrementScheduledCount thread k))
      }
      else Some k)"

definition OnThreadAffinityMaskChanged :: "thread_ptr \<Rightarrow> u64 \<Rightarrow> int \<Rightarrow> kernel \<Rightarrow> kernel option" where
  "OnThreadAffinityMaskChanged thread old_affinity old_core k =
     (if m_thread_state (thr k thread) = ThreadState_Runnable
      then do {
        k \<leftarrow> on_pq (ChangeAffinityMask old_core old_affinity thread) k;
        Some (SetSchedulerUpdateNeeded (IncrementScheduledCount thread k))
      }
      else Some k)"

text \<open>\<^verbatim>\<open>KThread::SetState\<close>.\<close>

definition SetState :: "thread_ptr \<Rightarrow> u16 \<Rightarrow> kernel \<Rightarrow> kernel option" where
  "SetState thread state k =
     do {
       let k = Lock k;
       let old_state = m_thread_state (thr k thread);
       let k = upd_thread thread (\<lambda>th. th\<lparr>m_thread_state :=
                 (old_state AND NOT ThreadState_Mask) OR (state AND ThreadState_Mask)\<rparr>) k;
       k \<leftarrow> (if m_thread_state (thr k thread) \<noteq> old_state then OnThreadStateChanged thread old_state k else Some k);
       Unlock k
     }"

text \<open>
  The change of a priority in \<^verbatim>\<open>KThread::RestorePriority\<close>, and the change of affinity in
  \<^verbatim>\<open>KThread::SetCoreMask\<close> when migration is not disabled, for the physical core and mask.
\<close>

definition UpdatePriority :: "thread_ptr \<Rightarrow> int \<Rightarrow> kernel \<Rightarrow> kernel option" where
  "UpdatePriority thread new_priority k =
     (let old_priority = m_priority (thr k thread) in
      OnThreadPriorityChanged thread old_priority (upd_thread thread (\<lambda>th. th\<lparr>m_priority := new_priority\<rparr>) k))"

text \<open>\<^verbatim>\<open>BitSize<u64>() - 1 - std::countl_zero(mask)\<close>.\<close>

definition highest_core :: "u64 \<Rightarrow> int" where
  "highest_core w = 63 - int (length (takeWhile (\<lambda>i. \<not> bit w i) (rev [0..<64])))"

definition UpdateAffinity :: "thread_ptr \<Rightarrow> int \<Rightarrow> u64 \<Rightarrow> kernel \<Rightarrow> kernel option" where
  "UpdateAffinity thread ideal_core p_affinity_mask k =
     (let old_mask = m_physical_affinity_mask (thr k thread);
          k = upd_thread thread (\<lambda>th. th\<lparr>m_physical_affinity_mask := p_affinity_mask\<rparr>) k in
      if p_affinity_mask \<noteq> old_mask
      then let active_core = m_core_id (thr k thread);
               k = (if active_core \<ge> 0 \<and> \<not> GetAffinity p_affinity_mask active_core
                    then SetActiveCore thread (if ideal_core \<ge> 0 then ideal_core else highest_core p_affinity_mask) k
                    else k) in
           OnThreadAffinityMaskChanged thread old_mask active_core k
      else Some k)"

section \<open>Rotation\<close>

definition scheduled_top :: "int \<Rightarrow> kernel \<Rightarrow> thread_ptr option option" where
  "scheduled_top core k = (if core \<ge> 0 then GetScheduledFront core (m_priority_queue k) else Some None)"

definition migration_allowed :: "thread_ptr option \<Rightarrow> kernel \<Rightarrow> bool" where
  "migration_allowed running k \<longleftrightarrow>
     (case running of None \<Rightarrow> True | Some t \<Rightarrow> m_priority (thr k t) \<ge> HighestCoreMigrationAllowedPriority)"

definition migrate_to_front :: "int \<Rightarrow> int \<Rightarrow> thread_ptr \<Rightarrow> kernel \<Rightarrow> kernel option" where
  "migrate_to_front core_id old_core suggested k =
     map_option (IncrementScheduledCount suggested) (migrate core_id old_core suggested True k)"

partial_function (option) rotate_suggested ::
  "int \<Rightarrow> thread_ptr option \<Rightarrow> thread_ptr option \<Rightarrow> thread_ptr option \<Rightarrow> kernel \<Rightarrow> kernel option" where
  [code]: "rotate_suggested core_id top_thread next_thread suggested k =
     (case suggested of
        None \<Rightarrow> Some k
      | Some sg \<Rightarrow> do {
          let suggested_core = m_core_id (thr k sg);
          top_on \<leftarrow> scheduled_top suggested_core k;
          if top_on \<noteq> Some sg \<and> top_thread \<noteq> next_thread \<and>
             (case next_thread of None \<Rightarrow> False
              | Some n \<Rightarrow> m_last_scheduled_tick (thr k n) < m_last_scheduled_tick (thr k sg))
          then Some k
          else if top_on \<noteq> Some sg \<and> migration_allowed top_on k
          then migrate_to_front core_id suggested_core sg k
          else do {
            nxt \<leftarrow> GetSamePriorityNext core_id sg (threads k);
            rotate_suggested core_id top_thread next_thread nxt k
          }
        })"

partial_function (option) improve_suggested ::
  "int \<Rightarrow> thread_ptr \<Rightarrow> thread_ptr option \<Rightarrow> kernel \<Rightarrow> kernel option" where
  [code]: "improve_suggested core_id best_thread suggested k =
     (case suggested of
        None \<Rightarrow> Some k
      | Some sg \<Rightarrow>
          if m_priority (thr k sg) \<ge> m_priority (thr k best_thread) then Some k
          else do {
            let suggested_core = m_core_id (thr k sg);
            top_on \<leftarrow> scheduled_top suggested_core k;
            if top_on \<noteq> Some sg \<and> migration_allowed top_on k
            then migrate_to_front core_id suggested_core sg k
            else do {
              nxt \<leftarrow> GetSuggestedNext core_id sg (ready_queue k);
              improve_suggested core_id best_thread nxt k
            }
          })"

text \<open>The three blocks of \<^verbatim>\<open>RotateScheduledQueue\<close>: the rotation, the first migration, the better thread.\<close>

definition rotate_front :: "thread_ptr option \<Rightarrow> kernel \<Rightarrow> (thread_ptr option \<times> kernel) option" where
  "rotate_front top_thread k =
     (case top_thread of
        None \<Rightarrow> Some (None, k)
      | Some t \<Rightarrow> do {
          (nxt, s) \<leftarrow> MoveToScheduledBack t (ready_queue k);
          let k = with_ready_queue s k;
          if nxt \<noteq> Some t
          then do { n \<leftarrow> nxt; Some (nxt, IncrementScheduledCount n (IncrementScheduledCount t k)) }
          else Some (nxt, k)
        })"

definition improve_best :: "int \<Rightarrow> int \<Rightarrow> kernel \<Rightarrow> kernel option" where
  "improve_best core_id priority k =
     do {
       best_thread \<leftarrow> GetScheduledFront core_id (m_priority_queue k);
       best_thread \<leftarrow> (if best_thread = Some (current_thread k)
                      then GetScheduledNext core_id (current_thread k) (ready_queue k) else Some best_thread);
       case best_thread of
         None \<Rightarrow> Some k
       | Some best \<Rightarrow>
           if m_priority (thr k best) \<ge> priority
           then do {
             suggested \<leftarrow> GetSuggestedFront core_id (m_priority_queue k);
             improve_suggested core_id best suggested k
           }
           else Some k
     }"

definition RotateScheduledQueue :: "int \<Rightarrow> int \<Rightarrow> kernel \<Rightarrow> kernel option" where
  "RotateScheduledQueue core_id priority k =
     do {
       top_thread \<leftarrow> GetScheduledFront_at core_id priority (m_priority_queue k);
       (next_thread, k) \<leftarrow> rotate_front top_thread k;
       suggested \<leftarrow> GetSuggestedFront_at core_id priority (m_priority_queue k);
       k \<leftarrow> rotate_suggested core_id top_thread next_thread suggested k;
       k \<leftarrow> improve_best core_id priority k;
       Some (SetSchedulerUpdateNeeded k)
     }"

text \<open>\<^verbatim>\<open>GlobalSchedulerContext::PreemptThreads\<close>: every 10 ms, priority 59 on cores 0 to 2 and 63 on core 3.\<close>

definition PreemptThreads :: "kernel \<Rightarrow> kernel option" where
  "PreemptThreads =
     for_cores (\<lambda>core_id. RotateScheduledQueue core_id ([59, 59, 59, 63] ! nat core_id)) cores"

section \<open>Yielding\<close>

text \<open>Nothing to do, if the process was not scheduled since the thread last found no one to yield to.\<close>

definition yield_settled :: "kernel \<Rightarrow> bool" where
  "yield_settled k \<longleftrightarrow>
     m_schedule_count (thr k (current_thread k)) = p_schedule_count (processes k (current_process k))"

definition SetYieldScheduleCount :: "kernel \<Rightarrow> kernel" where
  "SetYieldScheduleCount k =
     upd_thread (current_thread k)
       (\<lambda>th. th\<lparr>m_schedule_count := p_schedule_count (processes k (current_process k))\<rparr>) k"

definition YieldWithoutCoreMigration :: "kernel \<Rightarrow> kernel option" where
  "YieldWithoutCoreMigration k =
     (if yield_settled k then Some k
      else do {
        let k = Lock k;
        let cur = current_thread k;
        k \<leftarrow> (if m_thread_state (thr k cur) = ThreadState_Runnable
              then do {
                (next_thread, s) \<leftarrow> MoveToScheduledBack cur (ready_queue k);
                let k = IncrementScheduledCount cur (with_ready_queue s k);
                Some (if next_thread \<noteq> Some cur then SetSchedulerUpdateNeeded k else SetYieldScheduleCount k)
              }
              else Some k);
        Unlock k
      })"

text \<open>
  The loop of \<^verbatim>\<open>YieldWithCoreMigration\<close>; it ends with the last value of \<^verbatim>\<open>suggested\<close> and of \<^verbatim>\<open>recheck\<close>. A
  null \<^verbatim>\<open>next_thread\<close> is not dereferenced safely there: \<open>None\<close>.
\<close>

definition running_on :: "int \<Rightarrow> kernel \<Rightarrow> thread_ptr option option" where
  "running_on core k = (if core \<ge> 0 then map_option highest_priority_thread (array_get (schedulers k) core) else Some None)"

partial_function (option) yield_suggested ::
  "int \<Rightarrow> thread_ptr \<Rightarrow> thread_ptr option \<Rightarrow> bool \<Rightarrow> thread_ptr option \<Rightarrow> kernel
     \<Rightarrow> (thread_ptr option \<times> bool \<times> kernel) option" where
  [code]: "yield_suggested core_id cur next_thread recheck suggested k =
     (case suggested of
        None \<Rightarrow> Some (None, recheck, k)
      | Some sg \<Rightarrow> do {
          let suggested_core = m_core_id (thr k sg);
          running \<leftarrow> running_on suggested_core k;
          if running \<noteq> Some sg
          then do {
            waited_longer \<leftarrow>
              (if m_priority (thr k sg) = m_priority (thr k cur) \<and> next_thread \<noteq> Some cur
               then map_option (\<lambda>n. m_last_scheduled_tick (thr k n) < m_last_scheduled_tick (thr k sg)) next_thread
               else Some False);
            if m_priority (thr k sg) > m_priority (thr k cur) \<or> waited_longer
            then Some (None, recheck, k)
            else if migration_allowed running k
            then do { k \<leftarrow> migrate_to_front core_id suggested_core sg k; Some (Some sg, recheck, k) }
            else do {
              nxt \<leftarrow> GetSuggestedNext core_id sg (ready_queue k);
              yield_suggested core_id cur next_thread True nxt k
            }
          }
          else do {
            nxt \<leftarrow> GetSuggestedNext core_id sg (ready_queue k);
            yield_suggested core_id cur next_thread recheck nxt k
          }
        })"

definition YieldWithCoreMigration :: "kernel \<Rightarrow> kernel option" where
  "YieldWithCoreMigration k =
     (if yield_settled k then Some k
      else do {
        let k = Lock k;
        let cur = current_thread k;
        k \<leftarrow> (if m_thread_state (thr k cur) = ThreadState_Runnable
              then do {
                let core_id = m_core_id (thr k cur);
                (next_thread, s) \<leftarrow> MoveToScheduledBack cur (ready_queue k);
                let k = IncrementScheduledCount cur (with_ready_queue s k);
                suggested \<leftarrow> GetSuggestedFront core_id (m_priority_queue k);
                (suggested, recheck, k) \<leftarrow> yield_suggested core_id cur next_thread False suggested k;
                Some (if suggested \<noteq> None \<or> next_thread \<noteq> Some cur then SetSchedulerUpdateNeeded k
                      else if \<not> recheck then SetYieldScheduleCount k else k)
              }
              else Some k);
        Unlock k
      })"

text \<open>The loop of \<^verbatim>\<open>YieldToAnyThread\<close>; it ends with the last value of \<^verbatim>\<open>suggested\<close>.\<close>

partial_function (option) yield_any_suggested ::
  "int \<Rightarrow> thread_ptr option \<Rightarrow> kernel \<Rightarrow> (thread_ptr option \<times> kernel) option" where
  [code]: "yield_any_suggested core_id suggested k =
     (case suggested of
        None \<Rightarrow> Some (None, k)
      | Some sg \<Rightarrow> do {
          let suggested_core = m_core_id (thr k sg);
          top_on \<leftarrow> scheduled_top suggested_core k;
          if top_on \<noteq> Some sg
          then if migration_allowed top_on k
            then do {
              k \<leftarrow> migrate core_id suggested_core sg False k;
              Some (Some sg, IncrementScheduledCount sg k)
            }
            else Some (Some sg, k)
          else do {
            nxt \<leftarrow> GetSuggestedNext core_id sg (ready_queue k);
            yield_any_suggested core_id nxt k
          }
        })"

definition YieldToAnyThread :: "kernel \<Rightarrow> kernel option" where
  "YieldToAnyThread k =
     (if yield_settled k then Some k
      else do {
        let k = Lock k;
        let cur = current_thread k;
        k \<leftarrow> (if m_thread_state (thr k cur) = ThreadState_Runnable
              then do {
                let core_id = m_core_id (thr k cur);
                k \<leftarrow> migrate (- 1) core_id cur False k;
                let k = IncrementScheduledCount cur k;
                front \<leftarrow> GetScheduledFront core_id (m_priority_queue k);
                if front = None
                then do {
                  suggested \<leftarrow> GetSuggestedFront core_id (m_priority_queue k);
                  (suggested, k) \<leftarrow> yield_any_suggested core_id suggested k;
                  Some (if suggested \<noteq> Some cur then SetSchedulerUpdateNeeded k else SetYieldScheduleCount k)
                }
                else Some (SetSchedulerUpdateNeeded k)
              }
              else Some k);
        Unlock k
      })"

section \<open>Rescheduling\<close>

text \<open>\<^verbatim>\<open>RescheduleCores\<close> interrupts the cores of a mask; here, their numbers.\<close>

definition RescheduleCores :: "u64 \<Rightarrow> nat list" where
  "RescheduleCores core_mask = filter (\<lambda>i. core_mask AND push_bit i 1 \<noteq> 0) [0..<NUM_CPU_CORES]"

definition RescheduleOtherCores :: "nat \<Rightarrow> u64 \<Rightarrow> nat list" where
  "RescheduleOtherCores core_id cores_needing_scheduling =
     (let core_mask = cores_needing_scheduling AND NOT (push_bit core_id 1) in
      if core_mask \<noteq> 0 then RescheduleCores core_mask else [])"

end
