(* ===== verification/PriorityQueue_Laws.thy ===== *)
theory PriorityQueue_Laws
  imports PriorityQueue
begin

text \<open>
  What the intrusive lists of the ready queue hold. A list of one priority and core is a ring of
  entries through the root; \<open>ring\<close> relates its forward and backward pointers to a list of
  threads, and the three list operations are instances of \<open>ring_edit\<close>, whose lemmas lift them
  to a queue with all its priorities.
\<close>

section \<open>Rings\<close>

definition ring ::
  "(thread_ptr option \<Rightarrow> thread_ptr option) \<Rightarrow> (thread_ptr option \<Rightarrow> thread_ptr option)
     \<Rightarrow> thread_ptr list \<Rightarrow> bool" where
  "ring nx pv ts \<longleftrightarrow> successively (\<lambda>a b. nx a = b \<and> pv b = a) (None # map Some ts @ [None])"

definition head_ptr :: "thread_ptr list \<Rightarrow> thread_ptr option" where
  "head_ptr ts = hd (map Some ts @ [None])"

definition last_ptr :: "thread_ptr list \<Rightarrow> thread_ptr option" where
  "last_ptr ts = last (None # map Some ts)"

lemma head_ptr_simps [simp]: "head_ptr [] = None" "head_ptr (t # ts) = Some t"
  by (simp_all add: head_ptr_def)

lemma last_ptr_simps [simp]: "last_ptr [] = None" "last_ptr (ts @ [t]) = Some t"
  by (simp_all add: last_ptr_def)

lemma head_ptr_eq_None [simp]: "head_ptr ts = None \<longleftrightarrow> ts = []"
  by (cases ts) auto

lemma last_ptr_eq_None [simp]: "last_ptr ts = None \<longleftrightarrow> ts = []"
  by (cases ts rule: rev_cases) auto

lemma head_ptr_in: "head_ptr ts = Some t \<Longrightarrow> t \<in> set ts"
  by (cases ts) auto

lemma last_ptr_in: "last_ptr ts = Some t \<Longrightarrow> t \<in> set ts"
  by (cases ts rule: rev_cases) auto

text \<open>A ring cut in two: the part up to a point, the part from it, and the link between.\<close>

lemma ring_append:
  "ring nx pv (us @ vs) \<longleftrightarrow>
     successively (\<lambda>a b. nx a = b \<and> pv b = a) (None # map Some us) \<and>
     successively (\<lambda>a b. nx a = b \<and> pv b = a) (map Some vs @ [None]) \<and>
     nx (last_ptr us) = head_ptr vs \<and> pv (head_ptr vs) = last_ptr us"
  using successively_append_iff [of "\<lambda>a b. nx a = b \<and> pv b = a" "None # map Some us" "map Some vs @ [None]"]
  by (auto simp: ring_def head_ptr_def last_ptr_def)

lemma ring_Cons:
  "ring nx pv (us @ m # vs) \<longleftrightarrow>
     successively (\<lambda>a b. nx a = b \<and> pv b = a) (None # map Some us) \<and>
     successively (\<lambda>a b. nx a = b \<and> pv b = a) (map Some vs @ [None]) \<and>
     nx (last_ptr us) = Some m \<and> pv (Some m) = last_ptr us \<and>
     nx (Some m) = head_ptr vs \<and> pv (head_ptr vs) = Some m"
  unfolding ring_append by (auto simp: successively_Cons head_ptr_def)

lemma ring_ends:
  assumes "ring nx pv ts"
  shows "nx None = head_ptr ts" "pv None = last_ptr ts"
  using assms ring_append [of nx pv "[]" ts] ring_append [of nx pv ts "[]"] by simp_all

lemma successively_change:
  assumes "successively P xs"
    and "\<And>x y. x \<in> set (butlast xs) \<Longrightarrow> y \<in> set (tl xs) \<Longrightarrow> P x y \<Longrightarrow> Q x y"
  shows "successively Q xs"
  using assms
proof (induction xs rule: induct_list012)
  case (3 x y zs)
  have "successively Q (y # zs)"
    by (rule "3.IH"(2)) (use "3.prems" in auto)
  then show ?case
    using "3.prems" by simp
qed simp_all

text \<open>The two halves of a ring do not look at the pointers a change across the cut writes.\<close>

lemma ring_left_half:
  assumes "successively (\<lambda>a b. nx a = b \<and> pv b = a) (None # map Some us)" "distinct us"
    and "\<And>t. t \<in> set us \<Longrightarrow> pv' (Some t) = pv (Some t)"
    and "\<And>p. p \<in> insert None (Some ` set us) \<Longrightarrow> p \<noteq> last_ptr us \<Longrightarrow> nx' p = nx p"
  shows "successively (\<lambda>a b. nx' a = b \<and> pv' b = a) (None # map Some us)"
  using assms(1)
proof (rule successively_change)
  fix x y
  assume x: "x \<in> set (butlast (None # map Some us))" and y: "y \<in> set (tl (None # map Some us))"
    and xy: "nx x = y \<and> pv y = x"
  have "distinct (None # map Some us)"
    using assms(2) by (auto simp: distinct_map)
  then have "x \<noteq> last_ptr us"
    using x unfolding last_ptr_def by (metis append_butlast_last_id distinct_butlast
        list.discI not_distinct_conv_prefix)
  moreover have "x \<in> insert None (Some ` set us)"
    using in_set_butlastD [OF x] by simp
  ultimately show "nx' x = y \<and> pv' y = x"
    using xy y assms(3,4) by auto
qed

lemma ring_right_half:
  assumes "successively (\<lambda>a b. nx a = b \<and> pv b = a) (map Some vs @ [None])" "distinct vs"
    and "\<And>t. t \<in> set vs \<Longrightarrow> nx' (Some t) = nx (Some t)"
    and "\<And>p. p \<in> insert None (Some ` set vs) \<Longrightarrow> p \<noteq> head_ptr vs \<Longrightarrow> pv' p = pv p"
  shows "successively (\<lambda>a b. nx' a = b \<and> pv' b = a) (map Some vs @ [None])"
  using assms(1)
proof (rule successively_change)
  fix x y
  assume x: "x \<in> set (butlast (map Some vs @ [None]))" and y: "y \<in> set (tl (map Some vs @ [None]))"
    and xy: "nx x = y \<and> pv y = x"
  have "y \<noteq> head_ptr vs" "y \<in> insert None (Some ` set vs)"
    using y assms(2) by (cases vs; auto)+
  moreover have "x \<in> Some ` set vs"
    using x by (simp add: butlast_append)
  ultimately show "nx' x = y \<and> pv' y = x"
    using xy assms(3,4) by auto
qed

lemma ring_insert:
  assumes "ring nx pv (us @ vs)" "distinct (us @ vs)" "m \<notin> set (us @ vs)"
  shows "ring (nx(Some m := head_ptr vs, last_ptr us := Some m))
              (pv(Some m := last_ptr us, head_ptr vs := Some m)) (us @ m # vs)"
proof -
  let ?nx = "nx(Some m := head_ptr vs, last_ptr us := Some m)"
  let ?pv = "pv(Some m := last_ptr us, head_ptr vs := Some m)"
  have m: "last_ptr us \<noteq> Some m" "head_ptr vs \<noteq> Some m"
    using assms(3) last_ptr_in head_ptr_in by fastforce+
  have apart: "\<And>t. t \<in> set us \<Longrightarrow> Some t \<noteq> head_ptr vs" "\<And>t. t \<in> set vs \<Longrightarrow> Some t \<noteq> last_ptr us"
    using assms(2) by (metis disjoint_iff distinct_append head_ptr_in last_ptr_in)+
  have "successively (\<lambda>a b. ?nx a = b \<and> ?pv b = a) (None # map Some us)"
    by (rule ring_left_half [of nx pv]) (use assms apart in \<open>auto simp: ring_append\<close>)
  moreover have "successively (\<lambda>a b. ?nx a = b \<and> ?pv b = a) (map Some vs @ [None])"
    by (rule ring_right_half [of nx pv]) (use assms apart in \<open>auto simp: ring_append\<close>)
  ultimately show ?thesis
    using m by (auto simp: ring_Cons)
qed

lemma ring_remove:
  assumes "ring nx pv (us @ m # vs)" "distinct (us @ m # vs)"
  shows "ring (nx(last_ptr us := head_ptr vs)) (pv(head_ptr vs := last_ptr us)) (us @ vs)"
proof -
  let ?nx = "nx(last_ptr us := head_ptr vs)"
  let ?pv = "pv(head_ptr vs := last_ptr us)"
  have apart: "\<And>t. t \<in> set us \<Longrightarrow> Some t \<noteq> head_ptr vs" "\<And>t. t \<in> set vs \<Longrightarrow> Some t \<noteq> last_ptr us"
    using assms(2) by (metis disjoint_iff distinct_append head_ptr_in last_ptr_in set_subset_Cons subsetD)+
  have "successively (\<lambda>a b. ?nx a = b \<and> ?pv b = a) (None # map Some us)"
    by (rule ring_left_half [of nx pv]) (use assms apart in \<open>auto simp: ring_Cons\<close>)
  moreover have "successively (\<lambda>a b. ?nx a = b \<and> ?pv b = a) (map Some vs @ [None])"
    by (rule ring_right_half [of nx pv]) (use assms apart in \<open>auto simp: ring_Cons\<close>)
  ultimately show ?thesis
    by (auto simp: ring_append)
qed

lemma ring_cong:
  assumes "ring nx pv ts" "\<And>p. p \<in> insert None (Some ` set ts) \<Longrightarrow> nx' p = nx p \<and> pv' p = pv p"
  shows "ring nx' pv' ts"
  using assms(1) unfolding ring_def
  by (rule successively_change) (use assms(2) in \<open>auto dest!: in_set_butlastD\<close>)

section \<open>Entries\<close>

text \<open>The arrays have their sizes, and the entry a pointer leads to on a core, null leading to the root.\<close>

definition sized :: "heap \<times> KPerCoreQueue \<Rightarrow> bool" where
  "sized s \<longleftrightarrow> length (m_root (snd s)) = NUM_CPU_CORES
     \<and> (\<forall>t. length (m_per_core_priority_queue_entry (fst s t)) = NUM_CPU_CORES)"

definition node :: "int \<Rightarrow> heap \<times> KPerCoreQueue \<Rightarrow> thread_ptr option \<Rightarrow> QueueEntry" where
  "node core s p =
     (case p of None \<Rightarrow> m_root (snd s) ! nat core
      | Some t \<Rightarrow> m_per_core_priority_queue_entry (fst s t) ! nat core)"

definition put ::
  "int \<Rightarrow> thread_ptr option \<Rightarrow> (QueueEntry \<Rightarrow> QueueEntry) \<Rightarrow> heap \<times> KPerCoreQueue \<Rightarrow> heap \<times> KPerCoreQueue" where
  "put core p f s =
     (case p of
        None \<Rightarrow> (fst s, (snd s)\<lparr>m_root := (m_root (snd s))[nat core := f (node core s p)]\<rparr>)
      | Some t \<Rightarrow>
          ((fst s)(t := (fst s t)\<lparr>m_per_core_priority_queue_entry :=
              (m_per_core_priority_queue_entry (fst s t))[nat core := f (node core s p)]\<rparr>), snd s))"

lemma valid_core_index [simp]: "IsValidCore c \<Longrightarrow> 0 \<le> c \<and> c < int NUM_CPU_CORES \<and> nat c < NUM_CPU_CORES"
  by (auto simp: IsValidCore_def)

lemma read_entry_eq:
  "IsValidCore c \<Longrightarrow> sized s \<Longrightarrow> read_entry c p s = Some (node c s p)"
  by (simp add: read_entry_def array_get_def sized_def node_def split: option.splits)

lemma write_entry_eq:
  "IsValidCore c \<Longrightarrow> sized s \<Longrightarrow> write_entry c p f s = Some (put c p f s)"
  by (simp add: write_entry_def read_entry_eq array_set_def sized_def put_def split: option.splits)

lemma sized_put: "sized s \<Longrightarrow> sized (put c p f s)"
  by (auto simp: sized_def put_def split: option.splits)

lemma node_put:
  "IsValidCore c \<Longrightarrow> sized s \<Longrightarrow> node c (put c p f s) = (node c s)(p := f (node c s p))"
  by (auto simp: fun_eq_iff sized_def put_def node_def split: option.splits)

lemmas entry_simps = read_entry_eq write_entry_eq sized_put node_put

text \<open>The forward and the backward pointers on a core, and their change by a store.\<close>

definition nx :: "int \<Rightarrow> heap \<times> KPerCoreQueue \<Rightarrow> thread_ptr option \<Rightarrow> thread_ptr option" where
  "nx core s p = m_next (node core s p)"

definition pv :: "int \<Rightarrow> heap \<times> KPerCoreQueue \<Rightarrow> thread_ptr option \<Rightarrow> thread_ptr option" where
  "pv core s p = m_prev (node core s p)"

lemma pointers_put:
  assumes "IsValidCore c" "sized s"
  shows "nx c (put c p (SetNext v) s) = (nx c s)(p := v)" "pv c (put c p (SetNext v) s) = pv c s"
    "nx c (put c p (SetPrev v) s) = nx c s" "pv c (put c p (SetPrev v) s) = (pv c s)(p := v)"
  by (auto simp: fun_eq_iff nx_def pv_def node_put [OF assms] SetNext_def SetPrev_def)

text \<open>What a change of one list leaves alone: every other core, every other thread, all other fields.\<close>

definition relinked :: "int \<Rightarrow> thread_ptr set \<Rightarrow> heap \<Rightarrow> heap \<Rightarrow> bool" where
  "relinked core A h h' \<longleftrightarrow>
     (\<forall>t. h' t = (h t)\<lparr>m_per_core_priority_queue_entry := m_per_core_priority_queue_entry (h' t)\<rparr>) \<and>
     (\<forall>t i. i \<noteq> nat core \<longrightarrow>
        m_per_core_priority_queue_entry (h' t) ! i = m_per_core_priority_queue_entry (h t) ! i) \<and>
     (\<forall>t. t \<notin> A \<longrightarrow> h' t = h t)"

definition rerooted :: "int \<Rightarrow> KPerCoreQueue \<Rightarrow> KPerCoreQueue \<Rightarrow> bool" where
  "rerooted core q q' \<longleftrightarrow> (\<forall>i. i \<noteq> nat core \<longrightarrow> m_root q' ! i = m_root q ! i)"

definition touches :: "int \<Rightarrow> thread_ptr set \<Rightarrow> heap \<times> KPerCoreQueue \<Rightarrow> heap \<times> KPerCoreQueue \<Rightarrow> bool" where
  "touches core A s s' \<longleftrightarrow> relinked core A (fst s) (fst s') \<and> rerooted core (snd s) (snd s')"

lemma relinked_refl: "relinked c A h h"
  by (simp add: relinked_def)

lemma touches_refl: "touches c A s s"
  by (simp add: touches_def relinked_refl rerooted_def)

lemma relinked_trans:
  assumes "relinked c A h h'" "relinked c A h' h''"
  shows "relinked c A h h''"
  unfolding relinked_def
proof (intro conjI allI impI)
  fix t i
  have "h' t = (h t)\<lparr>m_per_core_priority_queue_entry := m_per_core_priority_queue_entry (h' t)\<rparr>"
    and h'': "h'' t = (h' t)\<lparr>m_per_core_priority_queue_entry := m_per_core_priority_queue_entry (h'' t)\<rparr>"
    using assms unfolding relinked_def by blast+
  then show "h'' t = (h t)\<lparr>m_per_core_priority_queue_entry := m_per_core_priority_queue_entry (h'' t)\<rparr>"
    by (metis KThread.surjective KThread.update_convs(1))
qed (use assms in \<open>auto simp: relinked_def\<close>)

lemma touches_put:
  assumes "touches c A s s'" "\<And>t. p = Some t \<Longrightarrow> t \<in> A"
  shows "touches c A s (put c p f s')"
proof -
  have "relinked c A (fst s') (fst (put c p f s'))" "rerooted c (snd s') (snd (put c p f s'))"
    using assms(2) by (auto simp: relinked_def rerooted_def put_def split: option.splits)
  then show ?thesis
    using assms(1) relinked_trans unfolding touches_def rerooted_def by metis
qed

section \<open>The three operations on one list\<close>

definition core_list :: "int \<Rightarrow> heap \<times> KPerCoreQueue \<Rightarrow> thread_ptr list \<Rightarrow> bool" where
  "core_list core s ts \<longleftrightarrow> ring (nx core s) (pv core s) ts \<and> distinct ts"

lemma core_list_root:
  assumes "core_list c s ts"
  shows "m_next (node c s None) = head_ptr ts" "m_prev (node c s None) = last_ptr ts"
  using assms ring_ends [of "nx c s" "pv c s" ts] by (simp_all add: core_list_def nx_def pv_def)

lemma GetFront_root:
  "IsValidCore c \<Longrightarrow> sized s \<Longrightarrow> KPerCoreQueue_GetFront c (snd s) = Some (m_next (node c s None))"
  by (simp add: KPerCoreQueue_GetFront_def array_get_def sized_def node_def)

lemma KPerCoreQueue_PushBack_edits:
  assumes c: "IsValidCore c" and s: "sized s" and ts: "core_list c s ts" and m: "m \<notin> set ts"
  shows "\<exists>s'. KPerCoreQueue_PushBack c m s = Some (ts = [], s') \<and> core_list c s' (ts @ [m])
    \<and> touches c (insert m (set ts)) s s' \<and> sized s'"
proof -
  let ?s = "put c None (SetPrev (Some m)) (put c (last_ptr ts) (SetNext (Some m))
              (put c (Some m) (SetNext None) (put c (Some m) (SetPrev (last_ptr ts)) s)))"
  have "KPerCoreQueue_PushBack c m s = Some (ts = [], ?s)"
    by (simp add: KPerCoreQueue_PushBack_def Let_def entry_simps c s core_list_root [OF ts])
  moreover have "ring (nx c ?s) (pv c ?s) (ts @ m # [])"
    using ring_insert [of "nx c s" "pv c s" ts "[]" m] ts m
    by (simp add: pointers_put sized_put c s core_list_def)
  moreover have "touches c (insert m (set ts)) s ?s"
    by (intro touches_put touches_refl) (auto dest: last_ptr_in)
  ultimately show ?thesis
    using ts m s by (auto simp: core_list_def sized_put)
qed

lemma KPerCoreQueue_PushFront_edits:
  assumes c: "IsValidCore c" and s: "sized s" and ts: "core_list c s ts" and m: "m \<notin> set ts"
  shows "\<exists>s'. KPerCoreQueue_PushFront c m s = Some (ts = [], s') \<and> core_list c s' (m # ts)
    \<and> touches c (insert m (set ts)) s s' \<and> sized s'"
proof -
  let ?s = "put c None (SetNext (Some m)) (put c (head_ptr ts) (SetPrev (Some m))
              (put c (Some m) (SetNext (head_ptr ts)) (put c (Some m) (SetPrev None) s)))"
  have "KPerCoreQueue_PushFront c m s = Some (ts = [], ?s)"
    by (simp add: KPerCoreQueue_PushFront_def Let_def entry_simps c s core_list_root [OF ts])
  moreover have "ring (nx c ?s) (pv c ?s) ([] @ m # ts)"
    using ring_insert [of "nx c s" "pv c s" "[]" ts m] ts m
    by (simp add: pointers_put sized_put c s core_list_def)
  moreover have "touches c (insert m (set ts)) s ?s"
    by (intro touches_put touches_refl) (auto dest: head_ptr_in)
  ultimately show ?thesis
    using ts m s by (auto simp: core_list_def sized_put)
qed

lemma KPerCoreQueue_Remove_edits:
  assumes c: "IsValidCore c" and s: "sized s" and ts: "core_list c s ts" and m: "m \<in> set ts"
  shows "\<exists>s'. KPerCoreQueue_Remove c m s = Some (removeAll m ts = [], s') \<and> core_list c s' (removeAll m ts)
    \<and> touches c (insert m (set ts)) s s' \<and> sized s'"
proof -
  obtain us vs where split: "ts = us @ m # vs"
    using m by (auto simp: in_set_conv_decomp)
  have rest: "removeAll m ts = us @ vs"
    using ts by (simp add: split core_list_def)
  let ?s = "put c (head_ptr vs) (SetPrev (last_ptr us)) (put c (last_ptr us) (SetNext (head_ptr vs)) s)"
  have "m_prev (node c s (Some m)) = last_ptr us" "m_next (node c s (Some m)) = head_ptr vs"
    using ts unfolding split core_list_def ring_Cons nx_def pv_def by blast+
  moreover have "ring (nx c ?s) (pv c ?s) (us @ vs)"
    using ring_remove [of "nx c s" "pv c s" us m vs] ts
    by (simp add: pointers_put sized_put c s core_list_def split)
  then have list: "core_list c ?s (us @ vs)"
    using ts by (simp add: core_list_def split)
  ultimately have "KPerCoreQueue_Remove c m s = Some (us @ vs = [], ?s)"
    using core_list_root(1) [OF list] GetFront_root [of c ?s]
    by (simp add: KPerCoreQueue_Remove_def Let_def entry_simps c s)
  moreover have "touches c (insert m (set ts)) s ?s"
    by (intro touches_put touches_refl) (auto simp: split dest: head_ptr_in last_ptr_in)
  ultimately show ?thesis
    using list s by (auto simp: rest sized_put)
qed

end
