(* ===== verification/PriorityQueue_Rep.thy ===== *)
theory PriorityQueue_Rep
  imports PriorityQueue_Laws
begin

text \<open>
  The whole ready queue as a table of thread lists, one for each queue (scheduled or suggested),
  priority and core. \<open>ready_rep\<close> says that the intrusive lists and the availability bits of a
  \<^verbatim>\<open>KPriorityQueue\<close> represent such a table; the operations of \<^verbatim>\<open>KPriorityQueueImpl\<close> change one list
  of it.
\<close>

section \<open>The table\<close>

datatype side = Scheduled | Suggested

type_synonym ready = "side \<Rightarrow> int \<Rightarrow> int \<Rightarrow> thread_ptr list"

fun queue_of :: "side \<Rightarrow> KPriorityQueue \<Rightarrow> KPriorityQueueImpl" where
  "queue_of Scheduled q = m_scheduled_queue q"
| "queue_of Suggested q = m_suggested_queue q"

fun with_queue :: "side \<Rightarrow> KPriorityQueueImpl \<Rightarrow> KPriorityQueue \<Rightarrow> KPriorityQueue" where
  "with_queue Scheduled i q = q\<lparr>m_scheduled_queue := i\<rparr>"
| "with_queue Suggested i q = q\<lparr>m_suggested_queue := i\<rparr>"

lemma queue_of_with_queue [simp]:
  "queue_of sd (with_queue sd' i q) = (if sd = sd' then i else queue_of sd q)"
  by (cases sd; cases sd') auto

definition listed :: "int \<Rightarrow> bool" where
  "listed p \<longleftrightarrow> HighestPriority \<le> p \<and> p \<le> LowestPriority"

lemma listed_index [simp]: "listed p \<Longrightarrow> 0 \<le> p \<and> p < int NumPriority \<and> nat p < NumPriority \<and> p \<le> LowestPriority"
  by (auto simp: listed_def HighestPriority_def LowestPriority_def NumPriority_def)

definition edit_at :: "side \<Rightarrow> int \<Rightarrow> int \<Rightarrow> (thread_ptr list \<Rightarrow> thread_ptr list) \<Rightarrow> ready \<Rightarrow> ready" where
  "edit_at sd p c f Q = (\<lambda>sd' p' c'. if sd' = sd \<and> p' = p \<and> c' = c then f (Q sd' p' c') else Q sd' p' c')"

text \<open>No thread is twice in the lists of a core: the lists share its entry for the core.\<close>

definition exclusive :: "ready \<Rightarrow> bool" where
  "exclusive Q \<longleftrightarrow> (\<forall>c sd p sd' p' t. t \<in> set (Q sd p c) \<longrightarrow> t \<in> set (Q sd' p' c) \<longrightarrow> sd' = sd \<and> p' = p)"

lemma exclusiveD:
  "exclusive Q \<Longrightarrow> t \<in> set (Q sd p c) \<Longrightarrow> t \<in> set (Q sd' p' c) \<Longrightarrow> sd' = sd \<and> p' = p"
  unfolding exclusive_def by blast

definition links :: "heap \<Rightarrow> KPriorityQueue \<Rightarrow> ready \<Rightarrow> bool" where
  "links h q Q \<longleftrightarrow>
     (\<forall>t. length (m_per_core_priority_queue_entry (h t)) = NUM_CPU_CORES) \<and>
     (\<forall>sd. length (m_queues (queue_of sd q)) = NumPriority) \<and>
     (\<forall>sd p. listed p \<longrightarrow> length (m_root (m_queues (queue_of sd q) ! nat p)) = NUM_CPU_CORES) \<and>
     (\<forall>sd p c. listed p \<longrightarrow> IsValidCore c \<longrightarrow>
        core_list c (h, m_queues (queue_of sd q) ! nat p) (Q sd p c)) \<and>
     (\<forall>sd p c. \<not> (listed p \<and> IsValidCore c) \<longrightarrow> Q sd p c = []) \<and>
     exclusive Q"

definition available :: "KPriorityQueue \<Rightarrow> ready \<Rightarrow> bool" where
  "available q Q \<longleftrightarrow>
     (\<forall>sd. length (m_available_priorities (queue_of sd q)) = NUM_CPU_CORES) \<and>
     (\<forall>sd c. IsValidCore c \<longrightarrow> length (m_available_priorities (queue_of sd q) ! nat c) = NumPriority) \<and>
     (\<forall>sd p c. listed p \<longrightarrow> IsValidCore c \<longrightarrow>
        m_available_priorities (queue_of sd q) ! nat c ! nat p = (Q sd p c \<noteq> []))"

definition ready_rep :: "heap \<times> KPriorityQueue \<Rightarrow> ready \<Rightarrow> bool" where
  "ready_rep s Q \<longleftrightarrow> links (fst s) (snd s) Q \<and> available (snd s) Q"

text \<open>Threads that differ in their queue entries only.\<close>

definition same_threads :: "heap \<Rightarrow> heap \<Rightarrow> bool" where
  "same_threads h h' \<longleftrightarrow>
     (\<forall>t. h' t = (h t)\<lparr>m_per_core_priority_queue_entry := m_per_core_priority_queue_entry (h' t)\<rparr>)"

lemma same_threads_refl [simp]: "same_threads h h"
  by (simp add: same_threads_def)

lemma same_threads_trans: "same_threads h h' \<Longrightarrow> same_threads h' h'' \<Longrightarrow> same_threads h h''"
  unfolding same_threads_def by (metis KThread.surjective KThread.update_convs(1))

lemma same_threads_fields:
  assumes "same_threads h h'"
  shows "m_physical_affinity_mask (h' t) = m_physical_affinity_mask (h t)" "m_core_id (h' t) = m_core_id (h t)"
    "m_priority (h' t) = m_priority (h t)" "m_thread_type (h' t) = m_thread_type (h t)"
    "m_thread_state (h' t) = m_thread_state (h t)" "m_parent (h' t) = m_parent (h t)"
    "m_schedule_count (h' t) = m_schedule_count (h t)"
    "m_last_scheduled_tick (h' t) = m_last_scheduled_tick (h t)"
    "m_num_kernel_waiters (h' t) = m_num_kernel_waiters (h t)"
    "m_dummy_thread_runnable (h' t) = m_dummy_thread_runnable (h t)"
    "IsDummyThread (h' t) = IsDummyThread (h t)"
  using assms [unfolded same_threads_def, rule_format, of t]
  by (metis KThread.select_convs KThread.surjective KThread.update_convs(1) IsDummyThread_def)+

lemma core_list_cong:
  assumes "core_list c s ts" "\<And>p. p \<in> insert None (Some ` set ts) \<Longrightarrow> node c s' p = node c s p"
  shows "core_list c s' ts"
  using assms(1) ring_cong [of "nx c s" "pv c s" ts "nx c s'" "pv c s'"] assms(2)
  by (auto simp: core_list_def nx_def pv_def)

lemma links_sized: "links h q Q \<Longrightarrow> listed p \<Longrightarrow> sized (h, m_queues (queue_of sd q) ! nat p)"
  by (simp add: links_def sized_def)

lemma links_core_list:
  "links h q Q \<Longrightarrow> listed p \<Longrightarrow> IsValidCore c \<Longrightarrow> core_list c (h, m_queues (queue_of sd q) ! nat p) (Q sd p c)"
  by (simp add: links_def)

lemma links_cong:
  "links h q Q \<Longrightarrow> (\<And>sd. m_queues (queue_of sd q') = m_queues (queue_of sd q)) \<Longrightarrow> links h q' Q"
  by (simp add: links_def)

lemma links_distinct: "links h q Q \<Longrightarrow> distinct (Q sd p c)"
  unfolding links_def core_list_def by (cases "listed p \<and> IsValidCore c") auto

lemma exclusive_edit_at:
  assumes "exclusive Q" "set (f (Q sd p c)) \<subseteq> insert m (set (Q sd p c))"
    and "\<And>sd' p'. (sd', p') \<noteq> (sd, p) \<Longrightarrow> m \<notin> set (Q sd' p' c)"
  shows "exclusive (edit_at sd p c f Q)"
  unfolding exclusive_def edit_at_def
proof (intro allI impI)
  fix c' sd1 p1 sd2 p2 t
  assume t: "t \<in> set (if sd1 = sd \<and> p1 = p \<and> c' = c then f (Q sd1 p1 c') else Q sd1 p1 c')"
    "t \<in> set (if sd2 = sd \<and> p2 = p \<and> c' = c then f (Q sd2 p2 c') else Q sd2 p2 c')"
  then have "t \<in> set (Q sd1 p1 c') \<or> t = m \<and> sd1 = sd \<and> p1 = p \<and> c' = c"
    "t \<in> set (Q sd2 p2 c') \<or> t = m \<and> sd2 = sd \<and> p2 = p \<and> c' = c"
    using assms(2) by (auto split: if_splits)
  then show "sd2 = sd1 \<and> p2 = p1"
    using assms(1) assms(3) [of sd1 p1] assms(3) [of sd2 p2] unfolding exclusive_def by blast
qed

text \<open>A change of one list through the entries of its core leaves every other list as it was.\<close>

lemma links_edit_at:
  assumes l: "links h q Q" and p: "listed p" and c: "IsValidCore c"
    and other: "\<And>sd' p'. (sd', p') \<noteq> (sd, p) \<Longrightarrow> m \<notin> set (Q sd' p' c)"
    and sub: "set (f (Q sd p c)) \<subseteq> insert m (set (Q sd p c))"
    and new: "core_list c (h', pc') (f (Q sd p c))"
    and touch: "touches c (insert m (set (Q sd p c))) (h, m_queues (queue_of sd q) ! nat p) (h', pc')"
    and size: "sized (h', pc')"
    and i': "m_queues i' = (m_queues (queue_of sd q))[nat p := pc']"
  shows "links h' (with_queue sd i' q) (edit_at sd p c f Q)"
proof -
  let ?q = "with_queue sd i' q" and ?Q = "edit_at sd p c f Q"
  have ex: "exclusive Q"
    using l by (simp add: links_def)
  have roots: "m_queues (queue_of sd' ?q) ! nat p' =
      (if sd' = sd \<and> p' = p then pc' else m_queues (queue_of sd' q) ! nat p')" if "listed p'" for sd' p'
  proof -
    have "nat p < length (m_queues (queue_of sd q))" "0 \<le> p" "0 \<le> p'"
      using l p that listed_index [OF p] listed_index [OF that] by (auto simp: links_def)
    then show ?thesis
      by (auto simp: i' nth_list_update eq_nat_nat_iff)
  qed
  have "core_list c' (h', m_queues (queue_of sd' ?q) ! nat p') (?Q sd' p' c')"
    if p': "listed p'" and c': "IsValidCore c'" for sd' p' c'
  proof (cases "sd' = sd \<and> p' = p \<and> c' = c")
    case True
    then show ?thesis
      using new roots [OF p', of sd'] by (auto simp: edit_at_def)
  next
    case False
    have apart: "t \<notin> insert m (set (Q sd p c))" if "t \<in> set (Q sd' p' c)" "c' = c" for t
      using False that other [of sd' p'] exclusiveD [OF ex, of t sd p c sd' p'] by auto
    have index: "nat c' \<noteq> nat c" if "c' \<noteq> c"
      using that c c' by (simp add: eq_nat_nat_iff)
    have "node c' (h', m_queues (queue_of sd' ?q) ! nat p') x
        = node c' (h, m_queues (queue_of sd' q) ! nat p') x"
      if x: "x \<in> insert None (Some ` set (Q sd' p' c'))" for x
    proof (cases "c' = c")
      case True
      then show ?thesis
        using x False apart touch
        by (cases x) (auto simp: node_def roots [OF p'] touches_def relinked_def simp del: queue_of_with_queue)
    next
      case False
      then show ?thesis
        using index touch
        by (cases x) (auto simp: node_def roots [OF p'] touches_def relinked_def rerooted_def simp del: queue_of_with_queue)
    qed
    then have "core_list c' (h', m_queues (queue_of sd' ?q) ! nat p') (Q sd' p' c')"
      by (rule core_list_cong [OF links_core_list [OF l p' c']])
    then show ?thesis
      using False by (auto simp: edit_at_def)
  qed
  moreover have "exclusive ?Q"
    using exclusive_edit_at [of Q f sd p c m] sub other ex by auto
  moreover have "?Q sd' p' c' = []" if "\<not> (listed p' \<and> IsValidCore c')" for sd' p' c'
    using that l p c by (auto simp: links_def edit_at_def)
  moreover have "length (m_root (m_queues (queue_of sd' ?q) ! nat p')) = NUM_CPU_CORES" if "listed p'" for sd' p'
    using roots [OF that] l size that by (simp add: links_def sized_def)
  moreover have "length (m_queues (queue_of sd' ?q)) = NumPriority" for sd'
    using l i' by (simp add: links_def)
  ultimately show ?thesis
    using size unfolding links_def sized_def by simp
qed

section \<open>Changing one list\<close>

text \<open>
  The contract the three list operations share: on a well-formed list they return, the list is
  edited, only entries of its members and of the new one are written, and the boolean result
  together with the bit written for it keeps the availability bit right.
\<close>

locale ring_edit =
  fixes list_op :: "int \<Rightarrow> thread_ptr \<Rightarrow> heap \<times> KPerCoreQueue \<Rightarrow> (bool \<times> heap \<times> KPerCoreQueue) option"
    and edit :: "thread_ptr \<Rightarrow> thread_ptr list \<Rightarrow> thread_ptr list"
    and ok :: "thread_ptr \<Rightarrow> thread_ptr list \<Rightarrow> bool"
    and flag :: "thread_ptr \<Rightarrow> thread_ptr list \<Rightarrow> bool"
    and bit_value :: bool
  assumes edits: "IsValidCore c \<Longrightarrow> sized s \<Longrightarrow> core_list c s ts \<Longrightarrow> ok m ts \<Longrightarrow>
      \<exists>s'. list_op c m s = Some (flag m ts, s') \<and> core_list c s' (edit m ts)
        \<and> touches c (insert m (set ts)) s s' \<and> sized s'"
    and members: "set (edit m ts) \<subseteq> insert m (set ts)"
    and bit_right: "ok m ts \<Longrightarrow> (edit m ts \<noteq> []) = (if flag m ts then bit_value else ts \<noteq> [])"
begin

lemma on_queue_links:
  assumes l: "links h q Q" and p: "listed p" and c: "IsValidCore c" and "ok m (Q sd p c)"
    and other: "\<And>sd' p'. (sd', p') \<noteq> (sd, p) \<Longrightarrow> m \<notin> set (Q sd' p' c)"
  shows "\<exists>h' i'. on_queue p (list_op c m) (h, queue_of sd q) = Some (flag m (Q sd p c), h', i')
    \<and> links h' (with_queue sd i' q) (edit_at sd p c (edit m) Q) \<and> same_threads h h'
    \<and> m_available_priorities i' = m_available_priorities (queue_of sd q)"
proof -
  let ?pc = "m_queues (queue_of sd q) ! nat p"
  obtain h' pc' where op: "list_op c m (h, ?pc) = Some (flag m (Q sd p c), h', pc')"
    and new: "core_list c (h', pc') (edit m (Q sd p c))"
    and touch: "touches c (insert m (set (Q sd p c))) (h, ?pc) (h', pc')" and size: "sized (h', pc')"
    using edits [OF c links_sized [OF l p] links_core_list [OF l p c]] assms(4) by (metis surj_pair)
  let ?i = "(queue_of sd q)\<lparr>m_queues := (m_queues (queue_of sd q))[nat p := pc']\<rparr>"
  have "on_queue p (list_op c m) (h, queue_of sd q) = Some (flag m (Q sd p c), h', ?i)"
    using l listed_index [OF p] op by (simp add: on_queue_def array_get_def array_set_def links_def)
  moreover have "links h' (with_queue sd ?i q) (edit_at sd p c (edit m) Q)"
    using links_edit_at [of h q Q p c sd m "edit m" h' pc' ?i] l p c other members new touch size by simp
  moreover have "same_threads h h'"
    using touch by (simp add: touches_def relinked_def same_threads_def)
  ultimately show ?thesis
    by auto
qed

lemma impl_op_rep:
  assumes r: "ready_rep (h, q) Q" and p: "listed p" and c: "IsValidCore c" and ok: "ok m (Q sd p c)"
    and other: "\<And>sd' p'. (sd', p') \<noteq> (sd, p) \<Longrightarrow> m \<notin> set (Q sd' p' c)"
  shows "\<exists>h' i'.
    do { (b, s) \<leftarrow> on_queue p (list_op c m) (h, queue_of sd q);
         if b then set_available c p bit_value s else Some s } = Some (h', i')
    \<and> ready_rep (h', with_queue sd i' q) (edit_at sd p c (edit m) Q) \<and> same_threads h h'"
proof -
  have l: "links h q Q" and a: "available q Q"
    using r by (simp_all add: ready_rep_def)
  obtain h' i' where op: "on_queue p (list_op c m) (h, queue_of sd q) = Some (flag m (Q sd p c), h', i')"
    and l': "links h' (with_queue sd i' q) (edit_at sd p c (edit m) Q)" and h': "same_threads h h'"
    and bits: "m_available_priorities i' = m_available_priorities (queue_of sd q)"
    using on_queue_links [OF l p c ok other] by blast
  let ?av = "m_available_priorities (queue_of sd q)"
  define i'' where "i'' = (if flag m (Q sd p c)
    then i'\<lparr>m_available_priorities := ?av[nat c := (?av ! nat c)[nat p := bit_value]]\<rparr> else i')"
  have len: "length ?av = NUM_CPU_CORES" "length (?av ! nat c) = NumPriority"
    using a c unfolding available_def by blast+
  have "set_available c p bit_value (h', i')
      = Some (h', i'\<lparr>m_available_priorities := ?av[nat c := (?av ! nat c)[nat p := bit_value]]\<rparr>)"
    using len listed_index [OF p] valid_core_index [OF c]
    by (simp add: set_available_def array_get_def array_set_def bits)
  then have "do { (b, s) \<leftarrow> on_queue p (list_op c m) (h, queue_of sd q);
         if b then set_available c p bit_value s else Some s } = Some (h', i'')"
    by (simp add: op i''_def)
  moreover have "links h' (with_queue sd i'' q) (edit_at sd p c (edit m) Q)"
    using l' by (rule links_cong) (simp add: i''_def)
  moreover have "available (with_queue sd i'' q) (edit_at sd p c (edit m) Q)"
    unfolding available_def
  proof (intro conjI allI impI)
    fix sd' p' c' assume p': "listed p'" and c': "IsValidCore c'"
    have "0 \<le> p'" "0 \<le> p" "0 \<le> c'" "0 \<le> c" "nat c < length ?av" "nat p < length (?av ! nat c)"
      using p p' c c' len listed_index valid_core_index by auto
    moreover have "m_available_priorities (queue_of sd' q) ! nat c' ! nat p' = (Q sd' p' c' \<noteq> [])"
      using a p' c' by (simp add: available_def)
    ultimately show "m_available_priorities (queue_of sd' (with_queue sd i'' q)) ! nat c' ! nat p'
        = (edit_at sd p c (edit m) Q sd' p' c' \<noteq> [])"
      using bit_right [OF ok]
      by (auto simp: edit_at_def i''_def bits nth_list_update eq_nat_nat_iff split: if_splits)
  next
    fix sd' c' assume c': "IsValidCore c'"
    have "length (m_available_priorities (queue_of sd' q) ! nat c') = NumPriority"
      using a c' unfolding available_def by blast
    then show "length (m_available_priorities (queue_of sd' (with_queue sd i'' q)) ! nat c') = NumPriority"
      using len c by (cases "nat c' = nat c") (auto simp: i''_def bits nth_list_update)
  qed (use a in \<open>auto simp: available_def i''_def bits\<close>)
  ultimately show ?thesis
    using h' by (auto simp: ready_rep_def)
qed

end

interpretation push_back: ring_edit KPerCoreQueue_PushBack "\<lambda>m ts. ts @ [m]" "\<lambda>m ts. m \<notin> set ts"
  "\<lambda>m ts. ts = []" True
  by unfold_locales (use KPerCoreQueue_PushBack_edits in \<open>auto\<close>)

interpretation push_front: ring_edit KPerCoreQueue_PushFront "\<lambda>m ts. m # ts" "\<lambda>m ts. m \<notin> set ts"
  "\<lambda>m ts. ts = []" True
  by unfold_locales (use KPerCoreQueue_PushFront_edits in \<open>auto\<close>)

interpretation unlink: ring_edit KPerCoreQueue_Remove removeAll "\<lambda>m ts. m \<in> set ts"
  "\<lambda>m ts. removeAll m ts = []" False
  by unfold_locales (use KPerCoreQueue_Remove_edits in \<open>auto\<close>)

end
