(* ===== verification/PriorityQueue_Spec.thy ===== *)
theory PriorityQueue_Spec
  imports PriorityQueue_Rep
begin

text \<open>
  The public operations of the ready queue on the table they represent: which lists of the table a
  thread has a seat in, and that each operation edits exactly those lists.
\<close>

section \<open>Editing several lists\<close>

definition edits :: "(side \<times> int \<times> int) set \<Rightarrow> (thread_ptr list \<Rightarrow> thread_ptr list) \<Rightarrow> ready \<Rightarrow> ready" where
  "edits S f Q = (\<lambda>sd p c. if (sd, p, c) \<in> S then f (Q sd p c) else Q sd p c)"

lemma edit_at_edits: "edit_at sd p c f Q = edits {(sd, p, c)} f Q"
  by (auto simp: fun_eq_iff edit_at_def edits_def)

lemma edits_empty [simp]: "edits {} f Q = Q"
  by (simp add: edits_def)

lemma edits_edits: "S \<inter> T = {} \<Longrightarrow> edits S f (edits T f Q) = edits (S \<union> T) f Q"
  by (auto simp: fun_eq_iff edits_def)

lemma edits_other: "(sd, p, c) \<notin> S \<Longrightarrow> edits S f Q sd p c = Q sd p c"
  by (simp add: edits_def)

text \<open>The positions on some cores of one queue, none if the priority has no list.\<close>

definition places :: "side \<Rightarrow> int \<Rightarrow> int set \<Rightarrow> (side \<times> int \<times> int) set" where
  "places sd p C = (if listed p then {(sd, p, c) |c. c \<in> C} else {})"

lemma places_empty [simp]: "places sd p {} = {}"
  by (simp add: places_def)

lemma in_places [simp]: "(sd, p, c) \<in> places sd' p' C \<longleftrightarrow> sd = sd' \<and> p = p' \<and> listed p \<and> c \<in> C"
  by (auto simp: places_def)

lemma edits_places:
  "C \<inter> D = {} \<Longrightarrow> edits (places sd p C) f (edits (places sd p D) f Q) = edits (places sd p (C \<union> D)) f Q"
  by (auto simp: fun_eq_iff edits_def)

section \<open>Operations on one list of the table\<close>

lemma listed_not_above [simp]: "listed p \<Longrightarrow> \<not> LowestPriority < p"
  by (simp add: not_less)

definition on_side ::
  "side \<Rightarrow> (heap \<times> KPriorityQueueImpl \<Rightarrow> (heap \<times> KPriorityQueueImpl) option)
     \<Rightarrow> heap \<times> KPriorityQueue \<Rightarrow> (heap \<times> KPriorityQueue) option" where
  "on_side sd f s = do { (h, i) \<leftarrow> f (fst s, queue_of sd (snd s)); Some (h, with_queue sd i (snd s)) }"

lemma on_side_eq: "on_scheduled = on_side Scheduled" "on_suggested = on_side Suggested"
  by (simp_all add: fun_eq_iff on_side_def on_scheduled_def on_suggested_def)

definition core_bits :: "u64 \<Rightarrow> int set" where
  "core_bits affinity = {c. 0 \<le> c \<and> bit affinity (nat c)}"

definition allowed :: "u64 \<Rightarrow> bool" where
  "allowed affinity \<longleftrightarrow> (\<forall>c \<in> core_bits affinity. IsValidCore c)"

lemma core_bits_next:
  assumes "w \<noteq> 0"
  shows "fst (GetNextCore w) \<in> core_bits w" "core_bits (snd (GetNextCore w)) = core_bits w - {fst (GetNextCore w)}"
proof -
  show "fst (GetNextCore w) \<in> core_bits w"
    using bit_countr_zero [OF assms] by (simp add: GetNextCore_def core_bits_def)
  show "core_bits (snd (GetNextCore w)) = core_bits w - {fst (GetNextCore w)}"
    by (auto simp: core_bits_def GetNextCore_def bit_clear)
qed

lemma core_bits_0 [simp]: "core_bits 0 = {}"
  by (simp add: core_bits_def)

lemma core_bits_clear:
  assumes "0 \<le> c" "c < 64"
  shows "\<exists>w'. ClearAffinityBit w c = Some w' \<and> core_bits w' = core_bits w - {c}"
proof -
  have "core_bits (w AND NOT (push_bit (nat c) 1)) = core_bits w - {c}"
    using assms by (auto simp: core_bits_def bit_clear)
  then show ?thesis
    using assms by (auto simp: ClearAffinityBit_def)
qed

lemma allowed_subset: "allowed w \<Longrightarrow> core_bits w' \<subseteq> core_bits w \<Longrightarrow> allowed w'"
  by (auto simp: allowed_def)

lemma GetAffinity_core_bits: "IsValidCore c \<Longrightarrow> GetAffinity w c \<longleftrightarrow> c \<in> core_bits w"
  by (simp add: GetAffinity_def GetCoreBit_def core_bits_def and_exp_eq_0_iff_not_bit push_bit_eq_mult)

text \<open>
  An operation of \<^verbatim>\<open>KPriorityQueueImpl\<close> that edits one list of the table; the condition on the table
  concerns the lists of the core only.
\<close>

locale table_edit =
  fixes impl_op :: "int \<Rightarrow> int \<Rightarrow> thread_ptr \<Rightarrow> heap \<times> KPriorityQueueImpl \<Rightarrow> (heap \<times> KPriorityQueueImpl) option"
    and edit :: "thread_ptr \<Rightarrow> thread_ptr list \<Rightarrow> thread_ptr list"
    and ok :: "thread_ptr \<Rightarrow> side \<Rightarrow> int \<Rightarrow> int \<Rightarrow> ready \<Rightarrow> bool"
  assumes edits_one: "ready_rep (h, q) Q \<Longrightarrow> listed p \<Longrightarrow> IsValidCore c \<Longrightarrow> ok m sd p c Q \<Longrightarrow>
      \<exists>h' i'. impl_op p c m (h, queue_of sd q) = Some (h', i')
        \<and> ready_rep (h', with_queue sd i' q) (edit_at sd p c (edit m) Q) \<and> same_threads h h'"
    and unlisted: "LowestPriority < p \<Longrightarrow> impl_op p c m s = Some s"
    and local: "(\<And>sd p. Q' sd p c = Q sd p c) \<Longrightarrow> ok m sd p c Q \<Longrightarrow> ok m sd p c Q'"
begin

lemma on_side_rep:
  assumes "ready_rep s Q" "IsValidPriority p" "IsValidCore c" "listed p \<longrightarrow> ok m sd p c Q"
  shows "\<exists>s'. on_side sd (impl_op p c m) s = Some s'
    \<and> ready_rep s' (edits (places sd p {c}) (edit m) Q) \<and> same_threads (fst s) (fst s')"
proof (cases "listed p")
  case True
  have "places sd p {c} = {(sd, p, c)}"
    using True by (auto simp: places_def)
  then show ?thesis
    using edits_one [of "fst s" "snd s" Q p c m sd] True assms
    by (auto simp: on_side_def edit_at_edits)
next
  case False
  then have "LowestPriority < p"
    using assms(2) by (auto simp: listed_def IsValidPriority_def)
  moreover have "with_queue sd (queue_of sd (snd s)) (snd s) = snd s"
    by (cases sd) auto
  ultimately show ?thesis
    using False assms(1) by (simp add: on_side_def unlisted places_def)
qed

lemma while_affinity_rep:
  assumes "ready_rep s Q" "IsValidPriority p" "allowed w"
    and "listed p \<longrightarrow> (\<forall>c \<in> core_bits w. ok m sd p c Q)"
  shows "\<exists>s'. while_affinity (\<lambda>c. on_side sd (impl_op p c m)) w s = Some s'
    \<and> ready_rep s' (edits (places sd p (core_bits w)) (edit m) Q) \<and> same_threads (fst s) (fst s')"
  using assms
proof (induction "\<lambda>c. on_side sd (impl_op p c m)" w s arbitrary: Q rule: while_affinity.induct)
  case (1 w s)
  show ?case
  proof (cases "w = 0")
    case True
    then show ?thesis
      using 1 by (simp add: while_affinity.simps)
  next
    case False
    let ?c = "fst (GetNextCore w)" and ?w = "snd (GetNextCore w)"
    note bits = core_bits_next [OF False]
    have "IsValidCore ?c"
      using bits(1) "1.prems"(3) by (simp add: allowed_def)
    then obtain s' where s': "on_side sd (impl_op p ?c m) s = Some s'"
      and r: "ready_rep s' (edits (places sd p {?c}) (edit m) Q)" and h: "same_threads (fst s) (fst s')"
      using on_side_rep [OF "1.prems"(1,2), of ?c m sd] bits(1) "1.prems"(4) by blast
    have "ok m sd p c (edits (places sd p {?c}) (edit m) Q)" if "listed p" "c \<in> core_bits ?w" for c
      by (rule local [where Q = Q]) (use that bits "1.prems"(4) in \<open>auto simp: edits_def\<close>)
    moreover have "allowed ?w"
      using "1.prems"(3) bits(2) by (auto simp: allowed_def)
    ultimately obtain s'' where
      "while_affinity (\<lambda>c. on_side sd (impl_op p c m)) ?w s' = Some s''"
      "ready_rep s'' (edits (places sd p (core_bits ?w)) (edit m) (edits (places sd p {?c}) (edit m) Q))"
      "same_threads (fst s') (fst s'')"
      using "1.hyps" [OF False s' r "1.prems"(2)] by blast
    moreover have "core_bits ?w \<union> {?c} = core_bits w"
      using bits by auto
    then have "edits (places sd p (core_bits ?w)) (edit m) (edits (places sd p {?c}) (edit m) Q)
        = edits (places sd p (core_bits w)) (edit m) Q"
      using bits(2) edits_places [of "core_bits ?w" "{?c}"] by simp
    ultimately show ?thesis
      using False s' h same_threads_trans by (auto simp: while_affinity.simps [of _ w])
  qed
qed

end

definition absent :: "thread_ptr \<Rightarrow> int \<Rightarrow> ready \<Rightarrow> bool" where
  "absent m c Q \<longleftrightarrow> (\<forall>sd p. m \<notin> set (Q sd p c))"

interpretation to_back: table_edit KPriorityQueueImpl_PushBack "\<lambda>m ts. ts @ [m]" "\<lambda>m sd p c. absent m c"
proof
  fix h q Q p c m sd
  assume "ready_rep (h, q) Q" "listed p" "IsValidCore c" "absent m c Q"
  then show "\<exists>h' i'. KPriorityQueueImpl_PushBack p c m (h, queue_of sd q) = Some (h', i')
      \<and> ready_rep (h', with_queue sd i' q) (edit_at sd p c (\<lambda>ts. ts @ [m]) Q) \<and> same_threads h h'"
    using push_back.impl_op_rep [of h q Q p c m sd]
    by (simp add: KPriorityQueueImpl_PushBack_def absent_def)
qed (simp_all add: KPriorityQueueImpl_PushBack_def absent_def)

interpretation to_front: table_edit KPriorityQueueImpl_PushFront "\<lambda>m ts. m # ts" "\<lambda>m sd p c. absent m c"
proof
  fix h q Q p c m sd
  assume "ready_rep (h, q) Q" "listed p" "IsValidCore c" "absent m c Q"
  then show "\<exists>h' i'. KPriorityQueueImpl_PushFront p c m (h, queue_of sd q) = Some (h', i')
      \<and> ready_rep (h', with_queue sd i' q) (edit_at sd p c (\<lambda>ts. m # ts) Q) \<and> same_threads h h'"
    using push_front.impl_op_rep [of h q Q p c m sd]
    by (simp add: KPriorityQueueImpl_PushFront_def absent_def)
qed (simp_all add: KPriorityQueueImpl_PushFront_def absent_def)

interpretation removal: table_edit KPriorityQueueImpl_Remove removeAll "\<lambda>m sd p c Q. m \<in> set (Q sd p c)"
proof
  fix h q and Q :: ready and p c m sd
  assume r: "ready_rep (h, q) Q" "listed p" "IsValidCore c" and m: "m \<in> set (Q sd p c)"
  have "m \<notin> set (Q sd' p' c)" if "(sd', p') \<noteq> (sd, p)" for sd' p'
    using that m exclusiveD [of Q m sd p c sd' p'] r(1) by (auto simp: ready_rep_def links_def)
  then show "\<exists>h' i'. KPriorityQueueImpl_Remove p c m (h, queue_of sd q) = Some (h', i')
      \<and> ready_rep (h', with_queue sd i' q) (edit_at sd p c (removeAll m) Q) \<and> same_threads h h'"
    using unlink.impl_op_rep [of h q Q p c m sd] r m
    by (simp add: KPriorityQueueImpl_Remove_def)
qed (simp_all add: KPriorityQueueImpl_Remove_def)

section \<open>Seats\<close>

text \<open>
  A thread of a priority, active on a core (a negative number for none) and with an affinity mask
  belongs in the scheduled list of its active core and in the suggested lists of the other cores
  of its mask.
\<close>

definition seats :: "int \<Rightarrow> int \<Rightarrow> u64 \<Rightarrow> (side \<times> int \<times> int) set" where
  "seats p core affinity =
     places Scheduled p (if 0 \<le> core then {core} else {}) \<union> places Suggested p (core_bits affinity - {core})"

definition placed :: "int \<Rightarrow> u64 \<Rightarrow> bool" where
  "placed core affinity \<longleftrightarrow> allowed affinity \<and> (0 \<le> core \<longrightarrow> IsValidCore core)"

lemma seats_valid: "placed core w \<Longrightarrow> (sd, p', c) \<in> seats p core w \<Longrightarrow> IsValidCore c"
  by (auto simp: seats_def placed_def allowed_def split: if_splits)

lemma suggested_part:
  assumes "placed core w"
  shows "\<exists>w'. (if 0 \<le> core then ClearAffinityBit w core else Some w) = Some w'
    \<and> core_bits w' = core_bits w - {core} \<and> allowed w'"
proof (cases "0 \<le> core")
  case True
  then have "core < 64"
    using assms by (auto simp: placed_def IsValidCore_def NUM_CPU_CORES_def)
  then obtain w' where "ClearAffinityBit w core = Some w'" "core_bits w' = core_bits w - {core}"
    using core_bits_clear [of core w] True by blast
  then show ?thesis
    using True assms allowed_subset [of w w'] by (auto simp: placed_def)
qed (use assms in \<open>auto simp: placed_def core_bits_def\<close>)

lemma edits_seats:
  "edits (places Suggested p (core_bits w - {core})) f
     (edits (places Scheduled p (if 0 \<le> core then {core} else {})) f Q) = edits (seats p core w) f Q"
  unfolding seats_def by (subst edits_edits) (auto simp: places_def Un_commute)

text \<open>
  The three operations that go through the seats of a thread: one change of the scheduled list, then
  a loop over the suggested lists.
\<close>

locale seats_edit =
  sched: table_edit sched_op sched_edit ok + sugg: table_edit sugg_op sugg_edit ok
  for sched_op sched_edit sugg_op sugg_edit ok
begin

lemma seats_rep:
  assumes r: "ready_rep s Q" and p: "IsValidPriority p" and pl: "placed core w"
    and oks: "\<And>sd c. (sd, p, c) \<in> seats p core w \<Longrightarrow> ok m sd p c Q"
  shows "\<exists>s'.
    do {
      (affinity, s) \<leftarrow>
        (if core \<ge> 0 then do {
           s \<leftarrow> on_scheduled (sched_op p core m) s;
           affinity \<leftarrow> ClearAffinityBit w core;
           Some (affinity, s) }
         else Some (w, s));
      while_affinity (\<lambda>c. on_suggested (sugg_op p c m)) affinity s
    } = Some s' \<and> same_threads (fst s) (fst s')
    \<and> ready_rep s' (edits (places Suggested p (core_bits w - {core})) (sugg_edit m)
        (edits (places Scheduled p (if 0 \<le> core then {core} else {})) (sched_edit m) Q))"
proof -
  obtain w' where w': "(if 0 \<le> core then ClearAffinityBit w core else Some w) = Some w'"
    and bits: "core_bits w' = core_bits w - {core}" and al: "allowed w'"
    using suggested_part [OF pl] by blast
  let ?Q = "edits (places Scheduled p (if 0 \<le> core then {core} else {})) (sched_edit m) Q"
  have "\<exists>s1. (if 0 \<le> core then on_scheduled (sched_op p core m) s else Some s) = Some s1
      \<and> ready_rep s1 ?Q \<and> same_threads (fst s) (fst s1)"
  proof (cases "0 \<le> core")
    case True
    then have "IsValidCore core" "listed p \<longrightarrow> ok m Scheduled p core Q"
      using pl oks [of Scheduled core] by (auto simp: placed_def seats_def)
    then show ?thesis
      using True sched.on_side_rep [OF r p, of core m Scheduled] by (simp add: on_side_eq)
  qed (use r in simp)
  then obtain s1 where s1: "(if 0 \<le> core then on_scheduled (sched_op p core m) s else Some s) = Some s1"
    and r1: "ready_rep s1 ?Q" and h1: "same_threads (fst s) (fst s1)"
    by blast
  have "ok m Suggested p c ?Q" if "c \<in> core_bits w'" "listed p" for c
  proof (rule sugg.local [of ?Q c Q])
    show "ok m Suggested p c Q"
      using that bits by (intro oks) (auto simp: seats_def)
  qed (use that bits in \<open>auto simp: edits_def split: if_splits\<close>)
  then obtain s2 where
    "while_affinity (\<lambda>c. on_suggested (sugg_op p c m)) w' s1 = Some s2"
    "ready_rep s2 (edits (places Suggested p (core_bits w - {core})) (sugg_edit m) ?Q)"
    "same_threads (fst s1) (fst s2)"
    using sugg.while_affinity_rep [OF r1 p al, of m Suggested] unfolding bits on_side_eq by blast
  then show ?thesis
    using s1 w' h1 same_threads_trans by (cases "0 \<le> core") auto
qed

end

interpretation push_seats: seats_edit KPriorityQueueImpl_PushBack "\<lambda>m ts. ts @ [m]"
  KPriorityQueueImpl_PushBack "\<lambda>m ts. ts @ [m]" "\<lambda>m sd p c. absent m c"
  by unfold_locales

interpretation run_seats: seats_edit KPriorityQueueImpl_PushFront "\<lambda>m ts. m # ts"
  KPriorityQueueImpl_PushBack "\<lambda>m ts. ts @ [m]" "\<lambda>m sd p c. absent m c"
  by unfold_locales

interpretation leave_seats: seats_edit KPriorityQueueImpl_Remove removeAll
  KPriorityQueueImpl_Remove removeAll "\<lambda>m sd p c Q. m \<in> set (Q sd p c)"
  by unfold_locales

text \<open>The seats of a thread in a heap.\<close>

abbreviation seats_of :: "heap \<Rightarrow> int \<Rightarrow> thread_ptr \<Rightarrow> (side \<times> int \<times> int) set" where
  "seats_of h p m \<equiv> seats p (m_core_id (h m)) (m_physical_affinity_mask (h m))"

abbreviation placed_in :: "heap \<Rightarrow> thread_ptr \<Rightarrow> bool" where
  "placed_in h m \<equiv> placed (m_core_id (h m)) (m_physical_affinity_mask (h m))"

lemma KPriorityQueue_PushBack_at_rep:
  assumes "ready_rep s Q" "IsValidPriority p" "placed_in (fst s) m" "\<And>c. absent m c Q"
  shows "\<exists>s'. KPriorityQueue_PushBack_at p m s = Some s' \<and> same_threads (fst s) (fst s')
    \<and> ready_rep s' (edits (seats_of (fst s) p m) (\<lambda>ts. ts @ [m]) Q)"
  using push_seats.seats_rep [OF assms(1-3), of m] assms(4)
  unfolding edits_seats KPriorityQueue_PushBack_at_def Let_def by blast

lemma KPriorityQueue_Remove_at_rep:
  assumes "ready_rep s Q" "IsValidPriority p" "placed_in (fst s) m"
    "\<And>sd c. (sd, p, c) \<in> seats_of (fst s) p m \<Longrightarrow> m \<in> set (Q sd p c)"
  shows "\<exists>s'. KPriorityQueue_Remove_at p m s = Some s' \<and> same_threads (fst s) (fst s')
    \<and> ready_rep s' (edits (seats_of (fst s) p m) (removeAll m) Q)"
  using leave_seats.seats_rep [OF assms(1-3), of m] assms(4)
  unfolding edits_seats KPriorityQueue_Remove_at_def Let_def by blast

definition run_edit :: "thread_ptr \<Rightarrow> (side \<times> int \<times> int) set \<Rightarrow> ready \<Rightarrow> ready" where
  "run_edit m S Q = (\<lambda>sd p c. if (sd, p, c) \<in> S
     then case sd of Scheduled \<Rightarrow> m # Q sd p c | Suggested \<Rightarrow> Q sd p c @ [m] else Q sd p c)"

lemma KPriorityQueue_PushFront_at_rep:
  assumes "ready_rep s Q" "IsValidPriority p" "placed_in (fst s) m" "\<And>c. absent m c Q"
  shows "\<exists>s'. KPriorityQueue_PushFront_at p m s = Some s' \<and> same_threads (fst s) (fst s')
    \<and> ready_rep s' (run_edit m (seats_of (fst s) p m) Q)"
proof -
  have "run_edit m (seats p core w) Q = edits (places Suggested p (core_bits w - {core})) (\<lambda>ts. ts @ [m])
      (edits (places Scheduled p (if 0 \<le> core then {core} else {})) (\<lambda>ts. m # ts) Q)" for core w
    by (auto simp: fun_eq_iff run_edit_def edits_def seats_def split: side.splits)
  then show ?thesis
    using run_seats.seats_rep [OF assms(1-3), of m] assms(4)
    unfolding KPriorityQueue_PushFront_at_def Let_def by simp
qed

end
