(* ===== verification/PriorityQueue_Use.thy ===== *)
theory PriorityQueue_Use
  imports PriorityQueue_Spec
begin

text \<open>
  The ready queue as its clients see it: the fronts and successors the getters return, in the order
  of priorities, and for every public operation where it seats the thread it is called for, the
  order of all the other threads being kept.
\<close>

section \<open>The order of a core's threads\<close>

definition from_priority :: "side \<Rightarrow> int \<Rightarrow> nat \<Rightarrow> ready \<Rightarrow> thread_ptr list" where
  "from_priority sd c n Q = concat (map (\<lambda>p. Q sd (int p) c) [n..<NumPriority])"

text \<open>All the threads in the lists of a core, from the highest priority, that is the least number, on.\<close>

definition in_order :: "side \<Rightarrow> int \<Rightarrow> ready \<Rightarrow> thread_ptr list" where
  "in_order sd c Q = from_priority sd c 0 Q"

lemma from_priority_step:
  "n < NumPriority \<Longrightarrow> from_priority sd c n Q = Q sd (int n) c @ from_priority sd c (n + 1) Q"
  by (simp add: from_priority_def upt_rec [of n])

lemma from_priority_end: "NumPriority \<le> n \<Longrightarrow> from_priority sd c n Q = []"
  by (simp add: from_priority_def)

lemma listed_int: "n < NumPriority \<Longrightarrow> listed (int n)"
  by (simp add: listed_def HighestPriority_def LowestPriority_def NumPriority_def)

lemma front_at_rep:
  assumes "ready_rep (h, q) Q" "IsValidCore c" "listed p"
  shows "front_at p c (queue_of sd q) = Some (head_ptr (Q sd p c))"
proof -
  have l: "links h q Q"
    using assms(1) by (simp add: ready_rep_def)
  then show ?thesis
    using assms(2) listed_index [OF assms(3)] core_list_root(1) [OF links_core_list [OF l assms(3,2)]]
      GetFront_root [OF assms(2) links_sized [OF l assms(3)]]
    by (simp add: front_at_def array_get_def links_def)
qed

lemma front_at_above: "LowestPriority < p \<Longrightarrow> front_at p c i = Some None"
  by (simp add: front_at_def)

lemma head_ptr_append: "head_ptr (us @ vs) = (if us = [] then head_ptr vs else head_ptr us)"
  by (cases us) auto

lemma front_from:
  assumes r: "ready_rep (h, q) Q" and c: "IsValidCore c"
    and bits: "bits = m_available_priorities (queue_of sd q) ! nat c" and "n \<le> NumPriority"
  shows "front_at (int (first_set bits n)) c (queue_of sd q) = Some (head_ptr (from_priority sd c n Q))"
  using bits \<open>n \<le> NumPriority\<close>
proof (induction bits n rule: first_set.induct)
  case (1 bits n)
  have len: "length bits = NumPriority"
    using r c "1.prems"(1) by (simp add: ready_rep_def available_def)
  show ?case
  proof (cases "n < NumPriority")
    case True
    have bit: "bits ! n = (Q sd (int n) c \<noteq> [])"
      using r c listed_int [OF True] "1.prems"(1)
      unfolding ready_rep_def available_def by (metis nat_int snd_conv)
    show ?thesis
    proof (cases "bits ! n")
      case True
      then have "first_set bits n = n"
        using len \<open>n < NumPriority\<close> by (simp add: first_set.simps [of bits n])
      then show ?thesis
        using True bit front_at_rep [OF r c listed_int [OF \<open>n < NumPriority\<close>]]
        by (simp add: from_priority_step [OF \<open>n < NumPriority\<close>] head_ptr_append)
    next
      case False
      then have "first_set bits n = first_set bits (n + 1)"
        using len \<open>n < NumPriority\<close> by (simp add: first_set.simps [of bits n])
      then show ?thesis
        using 1 False bit True len by (simp add: from_priority_step)
    qed
  next
    case False
    then have "first_set bits n = NumPriority"
      using len by (simp add: first_set.simps [of bits n])
    then show ?thesis
      using False by (simp add: from_priority_end front_at_above NumPriority_def LowestPriority_def
          HighestPriority_def)
  qed
qed

lemma GetFront_rep:
  assumes "ready_rep (h, q) Q" "IsValidCore c"
  shows "KPriorityQueueImpl_GetFront c (queue_of sd q) = Some (head_ptr (in_order sd c Q))"
proof -
  have "length (m_available_priorities (queue_of sd q)) = NUM_CPU_CORES"
    using assms by (simp add: ready_rep_def available_def)
  then show ?thesis
    using assms front_from [OF assms refl, of 0 sd]
    by (simp add: KPriorityQueueImpl_GetFront_def array_get_def Let_def in_order_def)
qed

lemma ring_next:
  assumes "core_list c s (us @ m # vs)"
  shows "m_next (node c s (Some m)) = head_ptr vs"
  using assms unfolding core_list_def ring_Cons nx_def by blast

lemma links_next:
  assumes r: "ready_rep (h, q) Q" and c: "IsValidCore c" and p: "listed p" and Q: "Q sd p c = us @ m # vs"
  shows "array_get (m_per_core_priority_queue_entry (h m)) c =
      Some (m_per_core_priority_queue_entry (h m) ! nat c)"
    "m_next (m_per_core_priority_queue_entry (h m) ! nat c) = head_ptr vs"
proof -
  have l: "links h q Q"
    using r by (simp add: ready_rep_def)
  then have "length (m_per_core_priority_queue_entry (h m)) = NUM_CPU_CORES"
    by (simp add: links_def)
  then show "array_get (m_per_core_priority_queue_entry (h m)) c =
      Some (m_per_core_priority_queue_entry (h m) ! nat c)"
    using c by (simp add: array_get_def)
  show "m_next (m_per_core_priority_queue_entry (h m) ! nat c) = head_ptr vs"
    using ring_next [of c "(h, m_queues (queue_of sd q) ! nat p)" us m vs] links_core_list [OF l p c, of sd] Q
    by (simp add: node_def)
qed

lemma GetNext_rep:
  assumes r: "ready_rep (h, q) Q" and c: "IsValidCore c" and p: "listed p" and Q: "Q sd p c = us @ m # vs"
    and prio: "m_priority (h m) = p"
  shows "KPriorityQueueImpl_GetNext c m (h, queue_of sd q)
    = Some (head_ptr (vs @ from_priority sd c (nat p + 1) Q))"
proof (cases vs)
  case Nil
  have "nat ((p + 1) mod 2 ^ 64) = nat p + 1" "nat p + 1 \<le> NumPriority"
    using p unfolding listed_def NumPriority_def LowestPriority_def HighestPriority_def by auto
  moreover have "length (m_available_priorities (queue_of sd q)) = NUM_CPU_CORES"
    using r by (simp add: ready_rep_def available_def)
  ultimately show ?thesis
    using links_next [OF r c p Q] Nil front_from [OF r c refl, of "nat p + 1" sd] c prio
    by (simp add: KPriorityQueueImpl_GetNext_def GetNextSet_def array_get_def Let_def)
next
  case (Cons v vs')
  then show ?thesis
    using links_next [OF r c p Q] by (simp add: KPriorityQueueImpl_GetNext_def)
qed

lemma in_order_split:
  assumes "listed p"
  shows "in_order sd c Q =
    concat (map (\<lambda>p. Q sd (int p) c) [0..<nat p]) @ Q sd p c @ from_priority sd c (nat p + 1) Q"
proof -
  obtain k where "NumPriority = nat p + Suc k"
    using listed_index [OF assms] less_imp_Suc_add by (metis add_Suc_right)
  then have "[0..<NumPriority] = [0..<nat p] @ nat p # [nat p + 1..<NumPriority]"
    using upt_add_eq_append [of 0 "nat p" "Suc k"] upt_conv_Cons [of "nat p" "nat p + Suc k"] by simp
  then show ?thesis
    using listed_index [OF assms] by (simp add: in_order_def from_priority_def)
qed

section \<open>Relocating one thread\<close>

text \<open>\<open>m\<close> is exactly in the lists at the positions \<open>S\<close>.\<close>

definition sits :: "thread_ptr \<Rightarrow> (side \<times> int \<times> int) set \<Rightarrow> ready \<Rightarrow> bool" where
  "sits m S Q \<longleftrightarrow> (\<forall>sd p c. m \<in> set (Q sd p c) \<longleftrightarrow> (sd, p, c) \<in> S)"

text \<open>The queue was changed so that \<open>m\<close> now sits at \<open>S\<close>; all other threads keep their lists and order.\<close>

definition relocated ::
  "thread_ptr \<Rightarrow> (side \<times> int \<times> int) set \<Rightarrow> heap \<times> KPriorityQueue \<Rightarrow> ready
     \<Rightarrow> heap \<times> KPriorityQueue \<Rightarrow> ready \<Rightarrow> bool" where
  "relocated m S s Q s' Q' \<longleftrightarrow>
     ready_rep s' Q' \<and> same_threads (fst s) (fst s') \<and> sits m S Q' \<and>
     (\<forall>sd p c. removeAll m (Q' sd p c) = removeAll m (Q sd p c))"

lemma relocated_refl: "ready_rep s Q \<Longrightarrow> sits m S Q \<Longrightarrow> relocated m S s Q s Q"
  by (simp add: relocated_def)

lemma relocated_trans:
  "relocated m S s Q s1 Q1 \<Longrightarrow> relocated m S' s1 Q1 s2 Q2 \<Longrightarrow> relocated m S' s Q s2 Q2"
  unfolding relocated_def using same_threads_trans by auto

lemma sits_absent: "sits m S Q \<Longrightarrow> (\<And>sd p. (sd, p, c) \<notin> S) \<Longrightarrow> absent m c Q"
  by (simp add: sits_def absent_def)

text \<open>Edits that add the thread where it is not, or take it away where it is.\<close>

lemma relocated_add:
  assumes "ready_rep s' (edits T f Q)" "same_threads (fst s) (fst s')" "sits m S Q"
    and "\<And>ts. set (f ts) = insert m (set ts) \<and> removeAll m (f ts) = removeAll m ts"
  shows "relocated m (S \<union> T) s Q s' (edits T f Q)"
  using assms by (auto simp: relocated_def sits_def edits_def)

lemma relocated_remove:
  assumes "ready_rep s' (edits T (removeAll m) Q)" "same_threads (fst s) (fst s')" "sits m S Q"
  shows "relocated m (S - T) s Q s' (edits T (removeAll m) Q)"
  using assms by (auto simp: relocated_def sits_def edits_def)

lemma PushBack_relocates:
  assumes "ready_rep s Q" "IsValidPriority p" "IsValidCore c" "sits m S Q" "\<And>sd p. (sd, p, c) \<notin> S"
  shows "\<exists>s' Q'. on_side sd (KPriorityQueueImpl_PushBack p c m) s = Some s'
    \<and> relocated m (S \<union> places sd p {c}) s Q s' Q'"
  using to_back.on_side_rep [OF assms(1-3), of m sd] sits_absent [OF assms(4,5)]
    relocated_add [where f = "\<lambda>ts. ts @ [m]" and S = S and m = m and Q = Q and s = s] assms(4) by fastforce

lemma PushFront_relocates:
  assumes "ready_rep s Q" "IsValidPriority p" "IsValidCore c" "sits m S Q" "\<And>sd p. (sd, p, c) \<notin> S"
  shows "\<exists>s' Q'. on_side sd (KPriorityQueueImpl_PushFront p c m) s = Some s'
    \<and> relocated m (S \<union> places sd p {c}) s Q s' Q'"
  using to_front.on_side_rep [OF assms(1-3), of m sd] sits_absent [OF assms(4,5)]
    relocated_add [where f = "\<lambda>ts. m # ts" and S = S and m = m and Q = Q and s = s] assms(4) by fastforce

lemma Remove_relocates:
  assumes "ready_rep s Q" "IsValidPriority p" "IsValidCore c" "sits m S Q" "places sd p {c} \<subseteq> S"
  shows "\<exists>s' Q'. on_side sd (KPriorityQueueImpl_Remove p c m) s = Some s'
    \<and> relocated m (S - places sd p {c}) s Q s' Q'"
proof -
  have "listed p \<longrightarrow> m \<in> set (Q sd p c)"
    using assms(4,5) by (auto simp: sits_def places_def)
  then show ?thesis
    using removal.on_side_rep [OF assms(1-3), of m sd] relocated_remove [OF _ _ assms(4)] by blast
qed

section \<open>The public operations\<close>

text \<open>A thread's place is sound if its mask is, and its active core, if any, is in the mask.\<close>

definition homed :: "int \<Rightarrow> u64 \<Rightarrow> bool" where
  "homed core affinity \<longleftrightarrow> allowed affinity \<and> (0 \<le> core \<longrightarrow> core \<in> core_bits affinity)"

abbreviation homed_in :: "heap \<Rightarrow> thread_ptr \<Rightarrow> bool" where
  "homed_in h m \<equiv> homed (m_core_id (h m)) (m_physical_affinity_mask (h m))"

lemma homed_placed: "homed core w \<Longrightarrow> placed core w"
  by (simp add: homed_def placed_def allowed_def)

lemma seats_homed:
  assumes "homed core w"
  shows "seats p core w =
    {(sd, p', c). p' = p \<and> listed p \<and> c \<in> core_bits w \<and> sd = (if c = core then Scheduled else Suggested)}"
  using assms by (auto simp: seats_def homed_def places_def core_bits_def split: if_splits)

lemma PushBack_at_relocates:
  assumes "ready_rep s Q" "IsValidPriority p" "placed_in (fst s) m" "sits m {} Q"
  shows "\<exists>s'. KPriorityQueue_PushBack_at p m s = Some s'
    \<and> relocated m (seats_of (fst s) p m) s Q s' (edits (seats_of (fst s) p m) (\<lambda>ts. ts @ [m]) Q)"
  using KPriorityQueue_PushBack_at_rep [OF assms(1-3)] sits_absent [OF assms(4)]
    relocated_add [where f = "\<lambda>ts. ts @ [m]" and S = "{}" and m = m and Q = Q and s = s] assms(4) by fastforce

lemma Remove_at_relocates:
  assumes "ready_rep s Q" "IsValidPriority p" "placed_in (fst s) m" "sits m (seats_of (fst s) p m) Q"
  shows "\<exists>s'. KPriorityQueue_Remove_at p m s = Some s'
    \<and> relocated m {} s Q s' (edits (seats_of (fst s) p m) (removeAll m) Q)"
  using KPriorityQueue_Remove_at_rep [OF assms(1-3)] relocated_remove [OF _ _ assms(4), of _ _ s] assms(4)
  by (fastforce simp: sits_def)

lemma PushFront_at_relocates:
  assumes "ready_rep s Q" "IsValidPriority p" "placed_in (fst s) m" "sits m {} Q"
  shows "\<exists>s'. KPriorityQueue_PushFront_at p m s = Some s'
    \<and> relocated m (seats_of (fst s) p m) s Q s' (run_edit m (seats_of (fst s) p m) Q)"
proof -
  have "relocated m T s Q s' (run_edit m T Q)"
    if "ready_rep s' (run_edit m T Q)" "same_threads (fst s) (fst s')" for s' T
    using that assms(4) by (auto simp: relocated_def sits_def run_edit_def split: side.splits)
  then show ?thesis
    using KPriorityQueue_PushFront_at_rep [OF assms(1-3)] sits_absent [OF assms(4)] by fastforce
qed

lemma relocated_rep: "relocated m S s Q s' Q' \<Longrightarrow> ready_rep s' Q' \<and> sits m S Q' \<and> same_threads (fst s) (fst s')"
  by (simp add: relocated_def)

lemma ChangePriority_relocates:
  assumes "ready_rep s Q" "IsValidPriority prev" "IsValidPriority (m_priority (fst s m))"
    and "placed_in (fst s) m" "sits m (seats_of (fst s) prev m) Q" "\<not> IsDummyThread (fst s m)"
  shows "\<exists>s' Q'. ChangePriority prev running m s = Some s'
    \<and> relocated m (seats_of (fst s) (m_priority (fst s m)) m) s Q s' Q'"
proof -
  obtain s1 where s1: "KPriorityQueue_Remove_at prev m s = Some s1"
    and r1: "relocated m {} s Q s1 (edits (seats_of (fst s) prev m) (removeAll m) Q)"
    using Remove_at_relocates [OF assms(1,2,4,5)] by blast
  note facts = relocated_rep [OF r1]
  then have fields: "m_core_id (fst s1 m) = m_core_id (fst s m)"
    "m_physical_affinity_mask (fst s1 m) = m_physical_affinity_mask (fst s m)"
    by (simp_all add: same_threads_fields)
  show ?thesis
  proof (cases running)
    case True
    then show ?thesis
      using PushFront_at_relocates [of s1 _ "m_priority (fst s m)" m] facts fields assms(3,4,6) s1
        relocated_trans [OF r1] by (fastforce simp: ChangePriority_def Let_def)
  next
    case False
    then show ?thesis
      using PushBack_at_relocates [of s1 _ "m_priority (fst s m)" m] facts fields assms(3,4,6) s1
        relocated_trans [OF r1] by (fastforce simp: ChangePriority_def Let_def)
  qed
qed

text \<open>A loop over the cores, with a property of what is left to do.\<close>

lemma for_cores_rule:
  assumes "P cs s" and step: "\<And>c cs s. P (c # cs) s \<Longrightarrow> \<exists>s'. body c s = Some s' \<and> P cs s'"
  shows "\<exists>s'. for_cores body cs s = Some s' \<and> P [] s'"
  using assms(1)
proof (induction cs arbitrary: s)
  case (Cons c cs)
  then show ?case
    using step [OF Cons.prems] by fastforce
qed simp

lemma cores_facts: "distinct cores" "set cores = {c. IsValidCore c}"
  unfolding cores_def IsValidCore_def by (auto simp: distinct_map image_int_atLeastLessThan)

lemma for_affinity_rule:
  assumes start: "I {} s"
    and step: "\<And>c C s. IsValidCore c \<Longrightarrow> c \<notin> C \<Longrightarrow> c \<in> core_bits w \<Longrightarrow> I C s \<Longrightarrow>
      \<exists>s'. on_side (if c = core then Scheduled else Suggested) (queue_op c) s = Some s' \<and> I (insert c C) s'"
    and skip: "\<And>c C s. c \<notin> core_bits w \<Longrightarrow> I C s \<Longrightarrow> I (insert c C) s"
  shows "\<exists>s'. for_affinity queue_op core w s = Some s' \<and> I {c. IsValidCore c} s'"
proof -
  let ?P = "\<lambda>cs s. I (set cores - set cs) s \<and> distinct cs \<and> set cs \<subseteq> set cores"
  have "\<exists>s'. for_affinity queue_op core w s = Some s' \<and> ?P [] s'"
    unfolding for_affinity_def
  proof (rule for_cores_rule)
    show "?P cores s"
      using start cores_facts(1) by simp
  next
    fix c cs s assume P: "?P (c # cs) s"
    let ?C = "set cores - set (c # cs)"
    have c: "IsValidCore c" and C: "set cores - set cs = insert c ?C" "c \<notin> ?C" and I: "I ?C s"
      using P cores_facts(2) by auto
    have rest: "distinct cs" "set cs \<subseteq> set cores"
      using P by simp_all
    show "\<exists>s'. (if GetAffinity w c then if c = core then on_scheduled (queue_op c) s
        else on_suggested (queue_op c) s else Some s) = Some s' \<and> ?P cs s'"
    proof (cases "c \<in> core_bits w")
      case True
      then show ?thesis
        using step [OF c C(2) True I] rest GetAffinity_core_bits [OF c, of w] unfolding C(1)
        by (cases "c = core") (auto simp: on_side_eq)
    next
      case False
      then show ?thesis
        using skip [OF False I] rest GetAffinity_core_bits [OF c, of w] unfolding C(1) by simp
    qed
  qed
  then show ?thesis
    by (simp add: cores_facts(2))
qed

definition seats_on :: "int set \<Rightarrow> (side \<times> int \<times> int) set \<Rightarrow> (side \<times> int \<times> int) set" where
  "seats_on C S = {(sd, p, c). (sd, p, c) \<in> S \<and> c \<in> C}"

lemma seats_on_empty [simp]: "seats_on {} S = {}"
  by (simp add: seats_on_def)

lemma seats_on_all: "homed core w \<Longrightarrow> seats_on {c. IsValidCore c} (seats p core w) = seats p core w"
  using seats_valid [OF homed_placed] by (fastforce simp: seats_on_def)

lemma seats_on_insert:
  assumes "homed core w"
  shows "seats_on (insert c C) (seats p core w) = seats_on C (seats p core w) \<union>
    (if c \<in> core_bits w then places (if c = core then Scheduled else Suggested) p {c} else {})"
  unfolding seats_homed [OF assms] by (auto simp: seats_on_def places_def)

lemma clear_seats_relocates:
  assumes r: "ready_rep s Q" and p: "IsValidPriority p" and h: "homed core w" and "sits m (seats p core w) Q"
  shows "\<exists>s' Q'. for_affinity (\<lambda>c. KPriorityQueueImpl_Remove p c m) core w s = Some s'
    \<and> relocated m {} s Q s' Q'"
proof -
  let ?S = "seats p core w"
  let ?I = "\<lambda>C s'. \<exists>Q'. relocated m (?S - seats_on C ?S) s Q s' Q'"
  have "\<exists>s'. for_affinity (\<lambda>c. KPriorityQueueImpl_Remove p c m) core w s = Some s' \<and> ?I {c. IsValidCore c} s'"
  proof (rule for_affinity_rule)
    show "?I {} s"
      using relocated_refl [OF r assms(4)] by auto
  next
    fix c C s1 assume c: "IsValidCore c" "c \<notin> C" "c \<in> core_bits w" and "?I C s1"
    then obtain Q1 where r1: "relocated m (?S - seats_on C ?S) s Q s1 Q1" by blast
    let ?sd = "if c = core then Scheduled else Suggested"
    have "?S - seats_on C ?S - places ?sd p {c} = ?S - seats_on (insert c C) ?S"
      "places ?sd p {c} \<subseteq> ?S - seats_on C ?S"
      using seats_on_insert [OF h, of c C p] c unfolding seats_homed [OF h]
      by (auto simp: seats_on_def places_def split: if_splits)
    then show "\<exists>s'. on_side ?sd (KPriorityQueueImpl_Remove p c m) s1 = Some s' \<and> ?I (insert c C) s'"
      using Remove_relocates [OF _ p c(1), of s1 Q1 m _ ?sd] relocated_rep [OF r1] relocated_trans [OF r1]
      by metis
  qed (use seats_on_insert [OF h] in auto)
  then show ?thesis
    using seats_on_all [OF h, of p] by auto
qed

lemma fill_seats_relocates:
  assumes r: "ready_rep s Q" and p: "IsValidPriority p" and h: "homed core w" and "sits m {} Q"
  shows "\<exists>s' Q'. for_affinity (\<lambda>c. KPriorityQueueImpl_PushBack p c m) core w s = Some s'
    \<and> relocated m (seats p core w) s Q s' Q'"
proof -
  let ?S = "seats p core w"
  let ?I = "\<lambda>C s'. \<exists>Q'. relocated m (seats_on C ?S) s Q s' Q'"
  have "\<exists>s'. for_affinity (\<lambda>c. KPriorityQueueImpl_PushBack p c m) core w s = Some s' \<and> ?I {c. IsValidCore c} s'"
  proof (rule for_affinity_rule)
    show "?I {} s"
      using relocated_refl [OF r assms(4)] by auto
  next
    fix c C s1 assume c: "IsValidCore c" "c \<notin> C" "c \<in> core_bits w" and "?I C s1"
    then obtain Q1 where r1: "relocated m (seats_on C ?S) s Q s1 Q1" by blast
    let ?sd = "if c = core then Scheduled else Suggested"
    have "seats_on C ?S \<union> places ?sd p {c} = seats_on (insert c C) ?S" "(sd, p', c) \<notin> seats_on C ?S" for sd p'
      using seats_on_insert [OF h, of c C p] c by (auto simp: seats_on_def)
    then show "\<exists>s'. on_side ?sd (KPriorityQueueImpl_PushBack p c m) s1 = Some s' \<and> ?I (insert c C) s'"
      using PushBack_relocates [OF _ p c(1), of s1 Q1 m _ ?sd] relocated_rep [OF r1] relocated_trans [OF r1]
      by metis
  qed (use seats_on_insert [OF h] in auto)
  then show ?thesis
    using seats_on_all [OF h, of p] by auto
qed

lemma ChangeAffinityMask_relocates:
  assumes "ready_rep s Q" "IsValidPriority (m_priority (fst s m))" "homed prev_core prev_w"
    and "homed_in (fst s) m" "sits m (seats (m_priority (fst s m)) prev_core prev_w) Q"
    and "\<not> IsDummyThread (fst s m)"
  shows "\<exists>s' Q'. ChangeAffinityMask prev_core prev_w m s = Some s'
    \<and> relocated m (seats_of (fst s) (m_priority (fst s m)) m) s Q s' Q'"
proof -
  obtain s1 Q1 where s1: "for_affinity (\<lambda>c. KPriorityQueueImpl_Remove (m_priority (fst s m)) c m)
      prev_core prev_w s = Some s1" and r1: "relocated m {} s Q s1 Q1"
    using clear_seats_relocates [OF assms(1,2,3,5)] by blast
  then show ?thesis
    using fill_seats_relocates [OF _ assms(2,4), of s1 Q1 m] relocated_rep [OF r1] relocated_trans [OF r1]
      assms(6) by (fastforce simp: ChangeAffinityMask_def Let_def)
qed

text \<open>A step that is taken only for a core, not for a negative number standing for none.\<close>

definition only_core :: "int \<Rightarrow> int set" where
  "only_core c = (if 0 \<le> c then {c} else {})"

lemma leave_core_relocates:
  assumes "relocated m S s Q s1 Q1" "IsValidPriority p" "0 \<le> c \<longrightarrow> IsValidCore c"
    and "places sd p (only_core c) \<subseteq> S"
  shows "\<exists>s' Q'. (if 0 \<le> c then on_side sd (KPriorityQueueImpl_Remove p c m) s1 else Some s1) = Some s'
    \<and> relocated m (S - places sd p (only_core c)) s Q s' Q'"
  using Remove_relocates [OF _ assms(2), of s1 Q1 c m S sd] relocated_rep [OF assms(1)]
    relocated_trans [OF assms(1)] assms
  by (cases "0 \<le> c") (fastforce simp: only_core_def)+

lemma join_core_relocates:
  assumes "relocated m S s Q s1 Q1" "IsValidPriority p" "0 \<le> c \<longrightarrow> IsValidCore c"
    and "\<And>sd p. 0 \<le> c \<Longrightarrow> (sd, p, c) \<notin> S"
  shows "\<exists>s' Q'. (if 0 \<le> c then
        if to_front then on_side sd (KPriorityQueueImpl_PushFront p c m) s1
        else on_side sd (KPriorityQueueImpl_PushBack p c m) s1 else Some s1) = Some s'
    \<and> relocated m (S \<union> places sd p (only_core c)) s Q s' Q'"
proof (cases "0 \<le> c")
  case True
  then show ?thesis
    using PushBack_relocates [OF _ assms(2), of s1 Q1 c m S sd] PushFront_relocates [OF _ assms(2), of s1 Q1 c m S sd]
      relocated_rep [OF assms(1)] relocated_trans [OF assms(1)] assms(3,4)
    by (cases to_front) (fastforce simp: only_core_def)+
qed (use assms(1) in \<open>auto simp: only_core_def\<close>)

lemma ChangeCore_steps:
  assumes "prev_core \<noteq> m_core_id (fst s m)" "\<not> IsDummyThread (fst s m)"
  shows "ChangeCore prev_core m to_front s = do {
    let core = m_core_id (fst s m);
    let p = m_priority (fst s m);
    s \<leftarrow> (if 0 \<le> prev_core then on_side Scheduled (KPriorityQueueImpl_Remove p prev_core m) s else Some s);
    s \<leftarrow> (if 0 \<le> core then on_side Suggested (KPriorityQueueImpl_Remove p core m) s else Some s);
    s \<leftarrow> (if 0 \<le> core then
        if to_front then on_side Scheduled (KPriorityQueueImpl_PushFront p core m) s
        else on_side Scheduled (KPriorityQueueImpl_PushBack p core m) s else Some s);
    (if 0 \<le> prev_core then
        if False then on_side Suggested (KPriorityQueueImpl_PushFront p prev_core m) s
        else on_side Suggested (KPriorityQueueImpl_PushBack p prev_core m) s else Some s) }"
  using assms unfolding ChangeCore_def Let_def on_side_eq by (cases "0 \<le> m_core_id (fst s m)") simp_all

lemma ChangeCore_relocates:
  assumes r: "ready_rep s Q" and p: "IsValidPriority p" "p = m_priority (fst s m)"
    and prev: "homed prev_core w" and new: "homed core w" "core = m_core_id (fst s m)"
    and sit: "sits m (seats p prev_core w) Q" and dummy: "\<not> IsDummyThread (fst s m)"
  shows "\<exists>s' Q'. ChangeCore prev_core m to_front s = Some s' \<and> relocated m (seats p core w) s Q s' Q'"
proof (cases "prev_core = core")
  case True
  then show ?thesis
    using relocated_refl [OF r sit] dummy new(2) by (auto simp: ChangeCore_def Let_def)
next
  case False
  let ?S1 = "seats p prev_core w - places Scheduled p (only_core prev_core)"
  let ?S2 = "?S1 - places Suggested p (only_core core)"
  let ?S3 = "?S2 \<union> places Scheduled p (only_core core)"
  let ?S4 = "?S3 \<union> places Suggested p (only_core prev_core)"
  have valid: "0 \<le> prev_core \<longrightarrow> IsValidCore prev_core" "0 \<le> core \<longrightarrow> IsValidCore core"
    using prev new(1) by (auto simp: homed_def allowed_def)
  have sub: "places Scheduled p (only_core prev_core) \<subseteq> seats p prev_core w"
    "places Suggested p (only_core core) \<subseteq> ?S1"
    and free: "\<And>sd p'. (sd, p', core) \<notin> ?S2" "\<And>sd p'. 0 \<le> prev_core \<Longrightarrow> (sd, p', prev_core) \<notin> ?S3"
    and final: "?S4 = seats p core w"
    using False prev new(1) unfolding seats_homed [OF prev] seats_homed [OF new(1)]
    by (auto simp: homed_def places_def only_core_def core_bits_def split: if_splits)
  from leave_core_relocates [OF relocated_refl [OF r sit] p(1) valid(1) sub(1)] obtain s1 Q1 where
    s1: "(if 0 \<le> prev_core then on_side Scheduled (KPriorityQueueImpl_Remove p prev_core m) s else Some s) = Some s1"
    and r1: "relocated m ?S1 s Q s1 Q1" by blast
  from leave_core_relocates [OF r1 p(1) valid(2) sub(2)] obtain s2 Q2 where
    s2: "(if 0 \<le> core then on_side Suggested (KPriorityQueueImpl_Remove p core m) s1 else Some s1) = Some s2"
    and r2: "relocated m ?S2 s Q s2 Q2" by blast
  from join_core_relocates [OF r2 p(1) valid(2) free(1), of to_front Scheduled] obtain s3 Q3 where
    s3: "(if 0 \<le> core then if to_front then on_side Scheduled (KPriorityQueueImpl_PushFront p core m) s2
        else on_side Scheduled (KPriorityQueueImpl_PushBack p core m) s2 else Some s2) = Some s3"
    and r3: "relocated m ?S3 s Q s3 Q3" by blast
  from join_core_relocates [OF r3 p(1) valid(1) free(2), of False Suggested] final show ?thesis
    using ChangeCore_steps [of prev_core s m to_front] False dummy new(2) p(2) s1 s2 s3
    by (auto simp: Let_def)
qed

section \<open>Rotating a list\<close>

lemma available_cong:
  assumes "available q Q" "\<And>sd. m_available_priorities (queue_of sd q') = m_available_priorities (queue_of sd q)"
    and "\<And>sd p c. (Q' sd p c = []) = (Q sd p c = [])"
  shows "available q' Q'"
  using assms by (simp add: available_def)

text \<open>Taking a thread out of its list and putting it back at an end, without touching the bits.\<close>

lemma requeue_rep:
  assumes edit: "ring_edit push edit (\<lambda>m ts. m \<notin> set ts) flag v"
    and r: "ready_rep (h, q) Q" and p: "listed p" and c: "IsValidCore c" and m: "m \<in> set (Q sd p c)"
    and some: "\<And>ts. edit m ts \<noteq> []"
  shows "\<exists>b1 b2 h1 i1 h2 i2. on_queue p (KPerCoreQueue_Remove c m) (h, queue_of sd q) = Some (b1, h1, i1)
    \<and> on_queue p (push c m) (h1, i1) = Some (b2, h2, i2)
    \<and> ready_rep (h2, with_queue sd i2 q) (edits {(sd, p, c)} (\<lambda>ts. edit m (removeAll m ts)) Q)
    \<and> same_threads h h2"
proof -
  have l: "links h q Q" and a: "available q Q" and ex: "exclusive Q"
    using r by (simp_all add: ready_rep_def links_def)
  have alone: "m \<notin> set (Q sd' p' c)" if "(sd', p') \<noteq> (sd, p)" for sd' p'
    using that exclusiveD [OF ex m, of sd' p'] by auto
  from unlink.on_queue_links [where sd = sd, OF l p c m alone] obtain b1 h1 i1 where
    q1: "on_queue p (KPerCoreQueue_Remove c m) (h, queue_of sd q) = Some (b1, h1, i1)"
    and l1: "links h1 (with_queue sd i1 q) (edit_at sd p c (removeAll m) Q)" and h1: "same_threads h h1"
    and av1: "m_available_priorities i1 = m_available_priorities (queue_of sd q)"
    by blast
  have "m \<notin> set (edit_at sd p c (removeAll m) Q sd' p' c)" for sd' p'
    using alone [of sd' p'] by (auto simp: edit_at_def)
  then obtain b2 h2 i2 where q2: "on_queue p (push c m) (h1, i1) = Some (b2, h2, i2)"
    and l2: "links h2 (with_queue sd i2 (with_queue sd i1 q)) (edit_at sd p c (edit m) (edit_at sd p c (removeAll m) Q))"
    and h2: "same_threads h1 h2" and av2: "m_available_priorities i2 = m_available_priorities i1"
    using ring_edit.on_queue_links [OF edit l1 p c, of m sd] by auto
  have "edit_at sd p c (edit m) (edit_at sd p c (removeAll m) Q) = edits {(sd, p, c)} (\<lambda>ts. edit m (removeAll m ts)) Q"
    by (auto simp: fun_eq_iff edit_at_def edits_def)
  moreover have "available (with_queue sd i2 q) (edits {(sd, p, c)} (\<lambda>ts. edit m (removeAll m ts)) Q)"
    by (rule available_cong [OF a]) (use av1 av2 m some in \<open>auto simp: edits_def\<close>)
  ultimately have "ready_rep (h2, with_queue sd i2 q) (edits {(sd, p, c)} (\<lambda>ts. edit m (removeAll m ts)) Q)"
    using links_cong [OF l2, of "with_queue sd i2 q"] by (simp add: ready_rep_def)
  then show ?thesis
    using q1 q2 same_threads_trans [OF h1 h2] by blast
qed

lemma MoveToScheduledBack_rep:
  assumes r: "ready_rep s Q" and c: "IsValidCore (m_core_id (fst s m))" and p: "listed (m_priority (fst s m))"
    and m: "m \<in> set (Q Scheduled (m_priority (fst s m)) (m_core_id (fst s m)))" and "\<not> IsDummyThread (fst s m)"
  shows "\<exists>s'. MoveToScheduledBack m s = Some
      (head_ptr (removeAll m (Q Scheduled (m_priority (fst s m)) (m_core_id (fst s m))) @ [m]), s')
    \<and> ready_rep s' (edits {(Scheduled, m_priority (fst s m), m_core_id (fst s m))} (\<lambda>ts. removeAll m ts @ [m]) Q)
    \<and> same_threads (fst s) (fst s')"
proof -
  define p' c' where "p' = m_priority (fst s m)" and "c' = m_core_id (fst s m)"
  obtain h q where s: "s = (h, q)" by force
  obtain b1 b2 h1 i1 h2 i2 where
    q1: "on_queue p' (KPerCoreQueue_Remove c' m) (h, queue_of Scheduled q) = Some (b1, h1, i1)"
    and q2: "on_queue p' (KPerCoreQueue_PushBack c' m) (h1, i1) = Some (b2, h2, i2)"
    and r2: "ready_rep (h2, with_queue Scheduled i2 q) (edits {(Scheduled, p', c')} (\<lambda>ts. removeAll m ts @ [m]) Q)"
    and h2: "same_threads h h2"
    using requeue_rep [OF push_back.ring_edit_axioms, of h q Q p' c' m Scheduled] assms
    unfolding s p'_def c'_def by auto
  have "front_at p' c' i2 = Some (head_ptr (removeAll m (Q Scheduled p' c') @ [m]))"
    using front_at_rep [OF r2, of c' p' Scheduled] c p by (simp add: p'_def c'_def edits_def)
  then have "MoveToScheduledBack m s
      = Some (head_ptr (removeAll m (Q Scheduled p' c') @ [m]), h2, with_queue Scheduled i2 q)"
    using q1 q2 p assms(5) unfolding MoveToScheduledBack_def KPriorityQueueImpl_MoveToBack_def
    by (simp add: s p'_def c'_def)
  then show ?thesis
    using r2 h2 unfolding p'_def c'_def s by auto
qed

lemma MoveToScheduledFront_rep:
  assumes r: "ready_rep s Q" and c: "IsValidCore (m_core_id (fst s m))" and p: "listed (m_priority (fst s m))"
    and m: "m \<in> set (Q Scheduled (m_priority (fst s m)) (m_core_id (fst s m)))" and "\<not> IsDummyThread (fst s m)"
  shows "\<exists>s'. MoveToScheduledFront m s = Some s'
    \<and> ready_rep s' (edits {(Scheduled, m_priority (fst s m), m_core_id (fst s m))} (\<lambda>ts. m # removeAll m ts) Q)
    \<and> same_threads (fst s) (fst s')"
proof -
  define p' c' where "p' = m_priority (fst s m)" and "c' = m_core_id (fst s m)"
  obtain h q where s: "s = (h, q)" by force
  obtain b1 b2 h1 i1 h2 i2 where
    "on_queue p' (KPerCoreQueue_Remove c' m) (h, queue_of Scheduled q) = Some (b1, h1, i1)"
    "on_queue p' (KPerCoreQueue_PushFront c' m) (h1, i1) = Some (b2, h2, i2)"
    "ready_rep (h2, with_queue Scheduled i2 q) (edits {(Scheduled, p', c')} (\<lambda>ts. m # removeAll m ts) Q)"
    "same_threads h h2"
    using requeue_rep [OF push_front.ring_edit_axioms, of h q Q p' c' m Scheduled] assms
    unfolding s p'_def c'_def by auto
  then show ?thesis
    using p assms(5) unfolding MoveToScheduledFront_def on_scheduled_def KPriorityQueueImpl_MoveToFront_def
    by (simp add: s p'_def c'_def)
qed

text \<open>The getters of the public interface.\<close>

lemma public_fronts:
  assumes "ready_rep s Q" "IsValidCore c"
  shows "GetScheduledFront c (snd s) = Some (head_ptr (in_order Scheduled c Q))"
    "GetSuggestedFront c (snd s) = Some (head_ptr (in_order Suggested c Q))"
    "listed p \<Longrightarrow> GetScheduledFront_at c p (snd s) = Some (head_ptr (Q Scheduled p c))"
    "listed p \<Longrightarrow> GetSuggestedFront_at c p (snd s) = Some (head_ptr (Q Suggested p c))"
  using GetFront_rep [of "fst s" "snd s" Q c Scheduled] GetFront_rep [of "fst s" "snd s" Q c Suggested]
    front_at_rep [of "fst s" "snd s" Q c p Scheduled] front_at_rep [of "fst s" "snd s" Q c p Suggested] assms
  by (simp_all add: GetScheduledFront_def GetSuggestedFront_def GetScheduledFront_at_def GetSuggestedFront_at_def)

end
