(* ===== verification/Scheduler_Laws.thy ===== *)
theory Scheduler_Laws
  imports Scheduler PriorityQueue_Use
begin

text \<open>
  The ready queue in step with the threads: every runnable thread has exactly its seats, every other
  thread none. The lemmas show what a change of one thread, followed by the queue operation the
  scheduler runs for it, keeps of that.
\<close>

section \<open>In step\<close>

definition queued :: "heap \<Rightarrow> thread_ptr \<Rightarrow> bool" where
  "queued h t \<longleftrightarrow> m_thread_state (h t) = ThreadState_Runnable \<and> \<not> IsDummyThread (h t)"

definition home :: "heap \<Rightarrow> thread_ptr \<Rightarrow> (side \<times> int \<times> int) set" where
  "home h t = (if queued h t then seats_of h (m_priority (h t)) t else {})"

definition in_step :: "heap \<times> KPriorityQueue \<Rightarrow> ready \<Rightarrow> bool" where
  "in_step s Q \<longleftrightarrow> ready_rep s Q \<and> (\<forall>t. sits t (home (fst s) t) Q)"

text \<open>The same for all threads but one, which sits at \<open>S\<close>.\<close>

definition but_for :: "thread_ptr \<Rightarrow> (side \<times> int \<times> int) set \<Rightarrow> heap \<times> KPriorityQueue \<Rightarrow> ready \<Rightarrow> bool" where
  "but_for t S s Q \<longleftrightarrow> ready_rep s Q \<and> sits t S Q \<and> (\<forall>u. u \<noteq> t \<longrightarrow> sits u (home (fst s) u) Q)"

lemma in_step_but_for: "in_step s Q \<Longrightarrow> but_for t (home (fst s) t) s Q"
  by (simp add: in_step_def but_for_def)

lemma but_for_in_step: "but_for t (home (fst s) t) s Q \<Longrightarrow> in_step s Q"
  unfolding in_step_def but_for_def by metis

lemma home_same_threads: "same_threads h h' \<Longrightarrow> home h' t = home h t"
  by (simp add: home_def queued_def same_threads_fields)

lemma relocated_in_step:
  assumes "but_for t S s Q" "relocated t (home (fst s) t) s Q s' Q'"
  shows "in_step s' Q'"
proof -
  have "sits u (home (fst s') u) Q'" for u
  proof (cases "u = t")
    case True
    then show ?thesis
      using assms(2) home_same_threads [of "fst s" "fst s'"] by (simp add: relocated_def)
  next
    case False
    then have "u \<in> set (Q' sd p c) \<longleftrightarrow> u \<in> set (Q sd p c)" for sd p c
      using assms(2) set_removeAll [of t "Q' sd p c"] set_removeAll [of t "Q sd p c"]
      unfolding relocated_def by (metis Diff_iff singletonD)
    then show ?thesis
      using assms False home_same_threads [of "fst s" "fst s'"]
      by (simp add: but_for_def sits_def relocated_def)
  qed
  then show ?thesis
    using assms(2) by (simp add: in_step_def relocated_def)
qed

text \<open>The representation depends on the queue entries of the threads only.\<close>

lemma ready_rep_entries:
  assumes "ready_rep (h, q) Q"
    and "\<And>t. m_per_core_priority_queue_entry (h' t) = m_per_core_priority_queue_entry (h t)"
  shows "ready_rep (h', q) Q"
proof -
  have "node c (h', pc) p = node c (h, pc) p" for c pc p
    using assms(2) by (simp add: node_def split: option.splits)
  then have "core_list c (h', pc) ts \<longleftrightarrow> core_list c (h, pc) ts" for c pc ts
    by (simp add: core_list_def nx_def [abs_def] pv_def [abs_def])
  then show ?thesis
    using assms by (simp add: ready_rep_def links_def)
qed

text \<open>A change of one thread leaves the others in step.\<close>

lemma in_step_change:
  assumes "in_step (h, q) Q"
    and "m_per_core_priority_queue_entry (f (h t)) = m_per_core_priority_queue_entry (h t)"
  shows "but_for t (home h t) (h(t := f (h t)), q) Q"
proof -
  have "ready_rep (h(t := f (h t)), q) Q"
    by (rule ready_rep_entries [of h]) (use assms in \<open>auto simp: in_step_def\<close>)
  moreover have "home (h(t := f (h t))) u = home h u" if "u \<noteq> t" for u
    using that by (simp add: home_def queued_def)
  ultimately show ?thesis
    using assms(1) by (simp add: but_for_def in_step_def)
qed

section \<open>Sound threads and kernels\<close>

definition thread_ok :: "KThread \<Rightarrow> bool" where
  "thread_ok th \<longleftrightarrow> \<not> IsDummyThread th \<longrightarrow>
     homed (m_core_id th) (m_physical_affinity_mask th) \<and> IsValidPriority (m_priority th)"

definition arrays_ok :: "kernel \<Rightarrow> bool" where
  "arrays_ok k \<longleftrightarrow>
     length (schedulers k) = NUM_CPU_CORES \<and> (\<forall>i < NUM_CPU_CORES. s_core_id (schedulers k ! i) = i) \<and>
     (\<forall>p. length (m_pinned_threads (processes k p)) = NUM_CPU_CORES \<and>
          length (m_running_threads (processes k p)) = NUM_CPU_CORES \<and>
          length (m_running_thread_idle_counts (processes k p)) = NUM_CPU_CORES \<and>
          length (m_running_thread_switch_counts (processes k p)) = NUM_CPU_CORES)"

definition kernel_ok :: "kernel \<Rightarrow> bool" where
  "kernel_ok k \<longleftrightarrow> (\<forall>t. thread_ok (thr k t)) \<and> arrays_ok k \<and> (\<exists>Q. in_step (ready_queue k) Q)"

lemma thread_ok_same_threads: "same_threads h h' \<Longrightarrow> thread_ok (h' t) = thread_ok (h t)"
  by (simp add: thread_ok_def same_threads_fields)

lemma ready_queue_with [simp]: "ready_queue (with_ready_queue s k) = s"
  by (simp add: ready_queue_def with_ready_queue_def)

lemma ready_queue_simps [simp]: "fst (ready_queue k) = threads k" "snd (ready_queue k) = m_priority_queue k"
  by (simp_all add: ready_queue_def)

lemma with_ready_queue_simps [simp]:
  "threads (with_ready_queue s k) = fst s" "m_priority_queue (with_ready_queue s k) = snd s"
  "schedulers (with_ready_queue s k) = schedulers k" "processes (with_ready_queue s k) = processes k"
  "current_thread (with_ready_queue s k) = current_thread k"
  "current_process (with_ready_queue s k) = current_process k"
  "m_scheduler_update_needed (with_ready_queue s k) = m_scheduler_update_needed k"
  "m_lock_count (with_ready_queue s k) = m_lock_count k" "m_owner_thread (with_ready_queue s k) = m_owner_thread k"
  by (simp_all add: with_ready_queue_def)

lemma arrays_ok_cong: "schedulers k' = schedulers k \<Longrightarrow> processes k' = processes k \<Longrightarrow> arrays_ok k' = arrays_ok k"
  by (simp add: arrays_ok_def)

text \<open>Steps that do not concern the queue: only marks, counters and ticks of the threads change.\<close>

definition unqueued_step :: "kernel \<Rightarrow> kernel \<Rightarrow> bool" where
  "unqueued_step k k' \<longleftrightarrow>
     m_priority_queue k' = m_priority_queue k \<and> arrays_ok k' = arrays_ok k \<and>
     (\<forall>t. m_per_core_priority_queue_entry (thr k' t) = m_per_core_priority_queue_entry (thr k t) \<and>
          m_physical_affinity_mask (thr k' t) = m_physical_affinity_mask (thr k t) \<and>
          m_core_id (thr k' t) = m_core_id (thr k t) \<and> m_priority (thr k' t) = m_priority (thr k t) \<and>
          m_thread_type (thr k' t) = m_thread_type (thr k t) \<and> m_thread_state (thr k' t) = m_thread_state (thr k t))"

lemma unqueued_step_refl [simp]: "unqueued_step k k"
  by (simp add: unqueued_step_def)

lemma unqueued_step_trans: "unqueued_step k k1 \<Longrightarrow> unqueued_step k1 k2 \<Longrightarrow> unqueued_step k k2"
  by (simp add: unqueued_step_def)

lemma unqueued_step_in_step:
  assumes "unqueued_step k k'" "in_step (ready_queue k) Q"
  shows "in_step (ready_queue k') Q"
proof -
  have "home (threads k') t = home (threads k) t" for t
    using assms(1) by (simp add: home_def queued_def IsDummyThread_def unqueued_step_def)
  moreover have "ready_rep (ready_queue k') Q"
    using assms ready_rep_entries [of "threads k" "m_priority_queue k" Q "threads k'"]
    by (simp add: in_step_def ready_queue_def unqueued_step_def)
  ultimately show ?thesis
    using assms(2) by (simp add: in_step_def)
qed

lemma unqueued_step_ok: "unqueued_step k k' \<Longrightarrow> kernel_ok k \<Longrightarrow> kernel_ok k'"
  using unqueued_step_in_step [of k k']
  by (auto simp: kernel_ok_def thread_ok_def IsDummyThread_def unqueued_step_def)

lemma unqueued_marks:
  "unqueued_step k (IncrementScheduledCount t k)" "unqueued_step k (SetSchedulerUpdateNeeded k)"
  "unqueued_step k (ClearSchedulerUpdateNeeded k)" "unqueued_step k (RegisterDummyThreadForWakeup t k)"
  "unqueued_step k (UnregisterDummyThreadForWakeup t k)" "unqueued_step k (SetYieldScheduleCount k)"
  "unqueued_step k (note_descheduled prev k)" "unqueued_step k (DummyThreadEndWait t k)"
  "unqueued_step k (RequestDummyThreadWait t k)" "unqueued_step k (Lock k)"
  by (auto simp: unqueued_step_def IncrementScheduledCount_def SetSchedulerUpdateNeeded_def
      ClearSchedulerUpdateNeeded_def RegisterDummyThreadForWakeup_def UnregisterDummyThreadForWakeup_def
      SetYieldScheduleCount_def note_descheduled_def DummyThreadEndWait_def RequestDummyThreadWait_def
      Lock_def Let_def upd_thread_def arrays_ok_def split: option.splits)

section \<open>Migrations\<close>

lemma migrate_in_step:
  assumes i: "in_step (ready_queue k) Q" and ok: "thread_ok (thr k t)" and q: "queued (threads k) t"
    and new: "homed core (m_physical_affinity_mask (thr k t))"
  shows "\<exists>s' Q'. migrate core (m_core_id (thr k t)) t b k = Some (with_ready_queue s' (SetActiveCore t core k))
    \<and> in_step s' Q' \<and> same_threads (threads (SetActiveCore t core k)) (fst s')
    \<and> (\<forall>sd p c. removeAll t (Q' sd p c) = removeAll t (Q sd p c))"
proof -
  let ?k = "SetActiveCore t core k"
  let ?p = "m_priority (thr k t)" and ?w = "m_physical_affinity_mask (thr k t)"
  have bf: "but_for t (home (threads k) t) (ready_queue ?k) Q"
    using in_step_change [of "threads k" "m_priority_queue k" Q "\<lambda>th. th\<lparr>m_core_id := core\<rparr>" t] i
    by (simp add: ready_queue_def SetActiveCore_def upd_thread_def)
  have old: "homed (m_core_id (thr k t)) ?w" and p: "IsValidPriority ?p" and d: "\<not> IsDummyThread (thr k t)"
    using ok q by (auto simp: thread_ok_def queued_def)
  have fields: "m_priority (thr ?k t) = ?p" "m_core_id (thr ?k t) = core"
    "m_physical_affinity_mask (thr ?k t) = ?w" "\<not> IsDummyThread (thr ?k t)" "queued (threads ?k) t"
    using q d by (auto simp: SetActiveCore_def upd_thread_def IsDummyThread_def queued_def)
  have st: "sits t (seats ?p (m_core_id (thr k t)) ?w) Q" and rr: "ready_rep (ready_queue ?k) Q"
    using bf q by (simp_all add: but_for_def home_def)
  obtain s' Q' where cc: "ChangeCore (m_core_id (thr k t)) t b (ready_queue ?k) = Some s'"
    and rel: "relocated t (seats ?p core ?w) (ready_queue ?k) Q s' Q'"
    using ChangeCore_relocates [OF rr p _ old new _ st, of b] fields(1,2,4) by auto
  have "home (threads ?k) t = seats ?p core ?w"
    using fields by (simp add: home_def)
  then have "in_step s' Q'"
    using relocated_in_step [OF bf, of s' Q'] rel by simp
  moreover have "migrate core (m_core_id (thr k t)) t b k = Some (with_ready_queue s' ?k)"
    using cc by (simp add: migrate_def on_pq_def)
  ultimately show ?thesis
    using rel unfolding relocated_def by (metis ready_queue_simps(1))
qed

lemma migrate_ok:
  assumes "kernel_ok k" "queued (threads k) t" "homed core (m_physical_affinity_mask (thr k t))"
  shows "\<exists>k'. migrate core (m_core_id (thr k t)) t b k = Some k' \<and> kernel_ok k'"
proof -
  obtain Q where "in_step (ready_queue k) Q"
    using assms(1) by (auto simp: kernel_ok_def)
  then obtain s' Q' where m: "migrate core (m_core_id (thr k t)) t b k = Some (with_ready_queue s' (SetActiveCore t core k))"
    and i: "in_step s' Q'" and s: "same_threads (threads (SetActiveCore t core k)) (fst s')"
    using migrate_in_step [of k Q t core b] assms by (auto simp: kernel_ok_def)
  have "thread_ok (threads (SetActiveCore t core k) u)" for u
    using assms by (auto simp: kernel_ok_def SetActiveCore_def upd_thread_def thread_ok_def IsDummyThread_def)
  then have "thread_ok (fst s' u)" for u
    using thread_ok_same_threads [OF s] by simp
  moreover have "arrays_ok (with_ready_queue s' (SetActiveCore t core k))"
    using assms(1) by (simp add: kernel_ok_def arrays_ok_def SetActiveCore_def upd_thread_def with_ready_queue_def)
  ultimately show ?thesis
    using m i by (auto simp: kernel_ok_def)
qed

section \<open>Walking the lists\<close>

lemma in_step_member:
  assumes "in_step s Q" "t \<in> set (Q sd p c)" "\<And>t. thread_ok (fst s t)"
  shows "queued (fst s) t" "p = m_priority (fst s t)" "listed p" "IsValidCore c"
    "c \<in> core_bits (m_physical_affinity_mask (fst s t))"
    "sd = (if c = m_core_id (fst s t) then Scheduled else Suggested)" "homed_in (fst s) t"
proof -
  have home: "(sd, p, c) \<in> home (fst s) t"
    using assms(1,2) by (auto simp: in_step_def sits_def)
  then show q: "queued (fst s) t"
    by (simp add: home_def split: if_splits)
  then show h: "homed_in (fst s) t"
    using assms(3) [of t] by (simp add: thread_ok_def queued_def)
  show "p = m_priority (fst s t)" "listed p" "c \<in> core_bits (m_physical_affinity_mask (fst s t))"
    "sd = (if c = m_core_id (fst s t) then Scheduled else Suggested)"
    using home q unfolding home_def seats_homed [OF h] by auto
  then show "IsValidCore c"
    using h by (simp add: homed_def allowed_def)
qed

lemma in_order_member:
  assumes "ready_rep s Q"
  shows "t \<in> set (in_order sd c Q) \<longleftrightarrow> (\<exists>p. t \<in> set (Q sd p c))"
proof -
  have "\<exists>n \<in> {0..<NumPriority}. p = int n" if "t \<in> set (Q sd p c)" for p
  proof -
    have "listed p"
      using that assms unfolding ready_rep_def links_def by (metis empty_iff list.set(1))
    then show ?thesis
      using listed_index [of p] by (intro bexI [of _ "nat p"]) auto
  qed
  then show ?thesis
    by (auto simp: in_order_def from_priority_def)
qed

lemma distinct_concat_lists:
  assumes "\<And>n. distinct (f n)" "\<And>n m t. t \<in> set (f n) \<Longrightarrow> t \<in> set (f m) \<Longrightarrow> n = m" "distinct ns"
  shows "distinct (concat (map f ns))"
  using assms(3)
proof (induction ns)
  case (Cons n ns)
  have "t \<notin> set (f m)" if "t \<in> set (f n)" "m \<in> set ns" for t m
    using assms(2) [OF that(1), of m] that(2) Cons.prems by auto
  then show ?case
    using Cons assms(1) by auto
qed simp

lemma distinct_in_order:
  assumes "ready_rep s Q"
  shows "distinct (in_order sd c Q)"
  unfolding in_order_def from_priority_def
proof (rule distinct_concat_lists)
  have l: "links (fst s) (snd s) Q"
    using assms by (simp add: ready_rep_def)
  show "distinct (Q sd (int n) c)" for n
    by (rule links_distinct [OF l])
  show "n = m" if "t \<in> set (Q sd (int n) c)" "t \<in> set (Q sd (int m) c)" for n m t
    using exclusiveD [of Q t sd "int n" c sd "int m"] that l by (simp add: links_def)
qed simp

lemma append_Cons_unique:
  "us @ t # vs = us' @ t # vs' \<Longrightarrow> distinct (us @ t # vs) \<Longrightarrow> vs = vs'"
proof (induction us arbitrary: us')
  case Nil
  then show ?case by (cases us') auto
next
  case (Cons u us)
  then show ?case by (cases us') auto
qed

lemma GetNext_in_order:
  assumes i: "in_step (h, q) Q" and ok: "\<And>t. thread_ok (h t)" and split: "in_order sd c Q = us @ t # vs"
  shows "KPriorityQueueImpl_GetNext c t (h, queue_of sd q) = Some (head_ptr vs)"
proof -
  have r: "ready_rep (h, q) Q"
    using i by (simp add: in_step_def)
  have "t \<in> set (in_order sd c Q)"
    by (simp add: split)
  then obtain p where t: "t \<in> set (Q sd p c)"
    using in_order_member [OF r, of t sd c] by blast
  note facts = in_step_member [OF i t, simplified, OF ok]
  obtain xs ys where Q: "Q sd p c = xs @ t # ys"
    using t by (auto simp: in_set_conv_decomp)
  have "in_order sd c Q = (concat (map (\<lambda>p. Q sd (int p) c) [0..<nat p]) @ xs) @ t # ys @ from_priority sd c (nat p + 1) Q"
    using in_order_split [OF facts(3), of sd c Q] Q by simp
  then have "vs = ys @ from_priority sd c (nat p + 1) Q"
    using append_Cons_unique [of us t vs] split distinct_in_order [OF r, of sd c] by metis
  then show ?thesis
    using GetNext_rep [OF r facts(4,3) Q facts(2) [symmetric]] by simp
qed

lemma next_in_order:
  assumes "in_step (ready_queue k) Q" "\<And>t. thread_ok (thr k t)"
  shows "in_order Suggested c Q = us @ t # vs \<Longrightarrow> GetSuggestedNext c t (ready_queue k) = Some (head_ptr vs)"
    "in_order Scheduled c Q = us @ t # vs \<Longrightarrow> GetScheduledNext c t (ready_queue k) = Some (head_ptr vs)"
  using GetNext_in_order [of "threads k" "m_priority_queue k" Q Suggested c us t vs]
    GetNext_in_order [of "threads k" "m_priority_queue k" Q Scheduled c us t vs] assms
  by (auto simp: GetSuggestedNext_def GetScheduledNext_def ready_queue_def)

lemma same_priority_next:
  assumes "in_step (ready_queue k) Q" "\<And>t. thread_ok (thr k t)" "Q sd p c = us @ t # vs"
  shows "GetSamePriorityNext c t (threads k) = Some (head_ptr vs)"
proof -
  have t: "t \<in> set (Q sd p c)"
    by (simp add: assms(3))
  note facts = in_step_member [OF assms(1) t, simplified, OF assms(2)]
  have r: "ready_rep (threads k, m_priority_queue k) Q"
    using assms(1) by (simp add: in_step_def ready_queue_def)
  show ?thesis
    using links_next [where Q = Q, OF r facts(4,3) assms(3)] by (simp add: GetSamePriorityNext_def)
qed

lemma scheduled_top_ok:
  assumes "in_step (ready_queue k) Q" "0 \<le> c \<longrightarrow> IsValidCore c"
  shows "scheduled_top c k = Some (if 0 \<le> c then head_ptr (in_order Scheduled c Q) else None)"
  using public_fronts(1) [of "ready_queue k" Q c] assms by (simp add: scheduled_top_def in_step_def)

text \<open>A suggested thread can be migrated to the core it is suggested for.\<close>

lemma migrate_suggested_ok:
  assumes "kernel_ok k" "in_step (ready_queue k) Q" "t \<in> set (Q Suggested p c)"
  shows "\<exists>k'. migrate c (m_core_id (thr k t)) t b k = Some k' \<and> kernel_ok k'"
    "0 \<le> m_core_id (thr k t) \<longrightarrow> IsValidCore (m_core_id (thr k t))"
proof -
  have ok: "thread_ok (threads k u)" for u
    using assms(1) by (simp add: kernel_ok_def)
  note facts = in_step_member [OF assms(2,3), simplified, OF ok]
  then have "homed c (m_physical_affinity_mask (thr k t))"
    by (simp add: homed_def)
  then show "\<exists>k'. migrate c (m_core_id (thr k t)) t b k = Some k' \<and> kernel_ok k'"
    using migrate_ok [OF assms(1) facts(1)] by blast
  show "0 \<le> m_core_id (thr k t) \<longrightarrow> IsValidCore (m_core_id (thr k t))"
    using facts(7) by (simp add: homed_def allowed_def)
qed

lemma migrate_to_front_ok:
  assumes "kernel_ok k" "in_step (ready_queue k) Q" "t \<in> set (Q Suggested p c)"
  shows "\<exists>k'. migrate_to_front c (m_core_id (thr k t)) t k = Some k' \<and> kernel_ok k'"
  using migrate_suggested_ok(1) [OF assms, of True] unqueued_step_ok [OF unqueued_marks(1)]
  by (auto simp: migrate_to_front_def)

end
