(* ===== verification/Scheduler_Steps.thy ===== *)
theory Scheduler_Steps
  imports Scheduler_Laws
begin

text \<open>
  Every entry point of the scheduler, from a sound kernel: it returns, that is none of its loops runs
  on and no array is left, and the kernel is sound again.
\<close>

section \<open>The loops over suggested threads\<close>

lemma kernel_ok_threads: "kernel_ok k \<Longrightarrow> thread_ok (thr k t)"
  by (simp add: kernel_ok_def)

text \<open>The suggested thread at hand is in the list being walked.\<close>

lemma suggested_at:
  assumes "in_step (ready_queue k) Q" "in_order sd c Q = us @ t # vs"
  obtains p where "t \<in> set (Q sd p c)"
  using assms in_order_member [of "ready_queue k" Q t sd c] by (auto simp: in_step_def)

lemma rotate_suggested_ok:
  assumes k: "kernel_ok k" and i: "in_step (ready_queue k) Q"
  shows "Q Suggested p c = us @ vs \<Longrightarrow> \<exists>k'. rotate_suggested c t n (head_ptr vs) k = Some k' \<and> kernel_ok k'"
proof (induction vs arbitrary: us)
  case Nil
  then show ?case
    using k by (simp add: rotate_suggested.simps)
next
  case (Cons v vs)
  have v: "v \<in> set (Q Suggested p c)"
    by (simp add: Cons.prems)
  note next_v = same_priority_next [OF i kernel_ok_threads [OF k] Cons.prems]
  from migrate_to_front_ok [OF k i v] scheduled_top_ok [OF i migrate_suggested_ok(2) [OF k i v]]
  show ?case
    using next_v Cons.IH [of "us @ [v]"] Cons.prems k
    by (subst rotate_suggested.simps) (auto simp: Let_def)
qed

lemma improve_suggested_ok:
  assumes k: "kernel_ok k" and i: "in_step (ready_queue k) Q"
  shows "in_order Suggested c Q = us @ vs \<Longrightarrow> \<exists>k'. improve_suggested c b (head_ptr vs) k = Some k' \<and> kernel_ok k'"
proof (induction vs arbitrary: us)
  case Nil
  then show ?case
    using k by (simp add: improve_suggested.simps)
next
  case (Cons v vs)
  obtain p where v: "v \<in> set (Q Suggested p c)"
    using suggested_at [OF i Cons.prems] by blast
  note next_v = next_in_order(1) [OF i kernel_ok_threads [OF k] Cons.prems]
  from migrate_to_front_ok [OF k i v] scheduled_top_ok [OF i migrate_suggested_ok(2) [OF k i v]]
  show ?case
    using next_v Cons.IH [of "us @ [v]"] Cons.prems k
    by (subst improve_suggested.simps) (auto simp: Let_def)
qed

lemma running_on_ok:
  assumes "kernel_ok k" "0 \<le> c \<longrightarrow> IsValidCore c"
  shows "\<exists>r. running_on c k = Some r"
  using assms by (auto simp: running_on_def kernel_ok_def arrays_ok_def array_get_def)

lemma yield_suggested_ok:
  assumes k: "kernel_ok k" and i: "in_step (ready_queue k) Q" and n: "n \<noteq> None"
  shows "in_order Suggested c Q = us @ vs \<Longrightarrow>
    \<exists>r k'. yield_suggested c cur n re (head_ptr vs) k = Some (fst r, snd r, k') \<and> kernel_ok k'"
proof (induction vs arbitrary: us re)
  case Nil
  then show ?case
    using k by (simp add: yield_suggested.simps)
next
  case (Cons v vs)
  obtain p where v: "v \<in> set (Q Suggested p c)"
    using suggested_at [OF i Cons.prems] by blast
  note next_v = next_in_order(1) [OF i kernel_ok_threads [OF k] Cons.prems]
  have rest: "\<exists>r k'. yield_suggested c cur n re' (head_ptr vs) k = Some (fst r, snd r, k') \<and> kernel_ok k'" for re'
    using Cons.IH [of "us @ [v]"] Cons.prems by simp
  obtain r where r: "running_on (m_core_id (thr k v)) k = Some r"
    using running_on_ok [OF k migrate_suggested_ok(2) [OF k i v]] by blast
  obtain k1 where k1: "migrate_to_front c (m_core_id (thr k v)) v k = Some k1" "kernel_ok k1"
    using migrate_to_front_ok [OF k i v] by blast
  have "\<exists>w. (if m_priority (thr k v) = m_priority (thr k cur) \<and> n \<noteq> Some cur
      then map_option (\<lambda>n. m_last_scheduled_tick (thr k n) < m_last_scheduled_tick (thr k v)) n
      else Some False) = Some w"
    using n by auto
  then obtain w where "(if m_priority (thr k v) = m_priority (thr k cur) \<and> n \<noteq> Some cur
      then map_option (\<lambda>n. m_last_scheduled_tick (thr k n) < m_last_scheduled_tick (thr k v)) n
      else Some False) = Some w" ..
  then show ?case
    using next_v rest k r k1 by (subst yield_suggested.simps) (simp add: Let_def)
qed

lemma yield_any_suggested_ok:
  assumes k: "kernel_ok k" and i: "in_step (ready_queue k) Q"
  shows "in_order Suggested c Q = us @ vs \<Longrightarrow>
    \<exists>t k'. yield_any_suggested c (head_ptr vs) k = Some (t, k') \<and> kernel_ok k'"
proof (induction vs arbitrary: us)
  case Nil
  then show ?case
    using k by (simp add: yield_any_suggested.simps)
next
  case (Cons v vs)
  obtain p where v: "v \<in> set (Q Suggested p c)"
    using suggested_at [OF i Cons.prems] by blast
  note next_v = next_in_order(1) [OF i kernel_ok_threads [OF k] Cons.prems]
  obtain k1 where "migrate c (m_core_id (thr k v)) v False k = Some k1" "kernel_ok k1"
    using migrate_suggested_ok(1) [OF k i v, of False] by blast
  then show ?case
    using next_v Cons.IH [of "us @ [v]"] Cons.prems k
      scheduled_top_ok [OF i migrate_suggested_ok(2) [OF k i v]] unqueued_step_ok [OF unqueued_marks(1)]
    by (subst yield_any_suggested.simps) (auto simp: Let_def)
qed

section \<open>Events\<close>

lemma relocated_ok:
  assumes "\<And>t. thread_ok (thr k t)" "arrays_ok k" "but_for t S (ready_queue k) Q"
    and "relocated t (home (threads k) t) (ready_queue k) Q s' Q'"
  shows "kernel_ok (with_ready_queue s' k)"
proof -
  have "same_threads (threads k) (fst s')"
    using assms(4) by (simp add: relocated_def)
  then have "thread_ok (fst s' u)" for u
    using assms(1) thread_ok_same_threads by simp
  moreover have "in_step s' Q'"
    using relocated_in_step [of t S "ready_queue k" Q s' Q'] assms(3,4) by simp
  ultimately show ?thesis
    using assms(2) arrays_ok_cong [of "with_ready_queue s' k" k] by (auto simp: kernel_ok_def)
qed

lemma marks_ok:
  assumes "kernel_ok k"
  shows "kernel_ok (SetSchedulerUpdateNeeded (IncrementScheduledCount t k))"
    "kernel_ok (RegisterDummyThreadForWakeup t k)" "kernel_ok (UnregisterDummyThreadForWakeup t k)"
    "kernel_ok (SetSchedulerUpdateNeeded k)" "kernel_ok (SetYieldScheduleCount k)"
    "kernel_ok (IncrementScheduledCount t k)" "kernel_ok (Lock k)" "kernel_ok (ClearSchedulerUpdateNeeded k)"
  using assms unqueued_step_ok unqueued_marks by blast+

text \<open>The seats a thread had in another state.\<close>

definition home_in_state :: "u16 \<Rightarrow> KThread \<Rightarrow> (side \<times> int \<times> int) set" where
  "home_in_state state th =
     (if state = ThreadState_Runnable \<and> \<not> IsDummyThread th
      then seats (m_priority th) (m_core_id th) (m_physical_affinity_mask th) else {})"

lemma OnThreadStateChanged_ok:
  assumes ok: "\<And>t. thread_ok (thr k t)" "arrays_ok k"
    and b: "but_for t (home_in_state old (thr k t)) (ready_queue k) Q"
  shows "\<exists>k'. OnThreadStateChanged t old k = Some k' \<and> kernel_ok k'"
proof -
  have r: "ready_rep (ready_queue k) Q" and st: "sits t (home_in_state old (thr k t)) Q"
    using b by (simp_all add: but_for_def)
  have same: "kernel_ok k" if "home_in_state old (thr k t) = home (threads k) t"
    using that b ok but_for_in_step [of t "ready_queue k" Q] by (auto simp: kernel_ok_def)
  have sound: "IsValidPriority (m_priority (thr k t))" "placed_in (threads k) t" if "\<not> IsDummyThread (thr k t)"
    using ok(1) [of t] that homed_placed by (auto simp: thread_ok_def)
  have "\<exists>s'. KPriorityQueue_Remove t (ready_queue k) = Some s' \<and> kernel_ok (with_ready_queue s' k)"
    if "old = ThreadState_Runnable" "m_thread_state (thr k t) \<noteq> old"
  proof (cases "IsDummyThread (thr k t)")
    case True
    then show ?thesis
      using that same by (simp add: KPriorityQueue_Remove_def home_in_state_def home_def queued_def with_ready_queue_def)
  next
    case False
    then show ?thesis
      using Remove_at_relocates [OF r, of "m_priority (thr k t)" t] sound st that relocated_ok [OF ok b]
      by (auto simp: KPriorityQueue_Remove_def home_in_state_def home_def queued_def)
  qed
  moreover have "\<exists>s'. KPriorityQueue_PushBack t (ready_queue k) = Some s' \<and> kernel_ok (with_ready_queue s' k)"
    if "old \<noteq> ThreadState_Runnable" "m_thread_state (thr k t) = ThreadState_Runnable"
  proof (cases "IsDummyThread (thr k t)")
    case True
    then show ?thesis
      using that same by (simp add: KPriorityQueue_PushBack_def home_in_state_def home_def queued_def with_ready_queue_def)
  next
    case False
    then show ?thesis
      using PushBack_at_relocates [OF r, of "m_priority (thr k t)" t] sound st that relocated_ok [OF ok b]
      by (auto simp: KPriorityQueue_PushBack_def home_in_state_def home_def queued_def)
  qed
  ultimately show ?thesis
    using same marks_ok
    by (cases "m_thread_state (thr k t) = old"; cases "old = ThreadState_Runnable";
        cases "m_thread_state (thr k t) = ThreadState_Runnable")
      (auto simp: OnThreadStateChanged_def on_pq_def Let_def home_in_state_def home_def queued_def)
qed

lemma OnThreadPriorityChanged_ok:
  assumes ok: "\<And>t. thread_ok (thr k t)" "arrays_ok k" and old: "queued (threads k) t \<longrightarrow> IsValidPriority old"
    and b: "but_for t (home ((threads k)(t := (thr k t)\<lparr>m_priority := old\<rparr>)) t) (ready_queue k) Q"
  shows "\<exists>k'. OnThreadPriorityChanged t old k = Some k' \<and> kernel_ok k'"
proof (cases "queued (threads k) t")
  case True
  have r: "ready_rep (ready_queue k) Q" and st: "sits t (seats_of (threads k) old t) Q"
    using b True by (simp_all add: but_for_def home_def queued_def IsDummyThread_def)
  have d: "\<not> IsDummyThread (thr k t)" "m_thread_state (thr k t) = ThreadState_Runnable"
    and p: "IsValidPriority (m_priority (thr k t))" "placed_in (threads k) t"
    using ok(1) [of t] True homed_placed by (auto simp: thread_ok_def queued_def)
  obtain s' Q' where c: "ChangePriority old (t = current_thread k) t (ready_queue k) = Some s'"
    and rel: "relocated t (home (threads k) t) (ready_queue k) Q s' Q'"
    using ChangePriority_relocates [of "ready_queue k" Q old t "t = current_thread k"] r st d p old True
    by (auto simp: home_def)
  show ?thesis
    using marks_ok(1) [OF relocated_ok [OF ok b rel]] c d by (auto simp: OnThreadPriorityChanged_def on_pq_def)
next
  case False
  then have "but_for t (home (threads k) t) (ready_queue k) Q"
    using b by (auto simp: home_def queued_def IsDummyThread_def split: if_splits)
  then have "kernel_ok k"
    using ok but_for_in_step [of t "ready_queue k" Q] by (auto simp: kernel_ok_def)
  moreover have "with_ready_queue (ready_queue k) k = k"
    by (simp add: with_ready_queue_def)
  ultimately show ?thesis
    using False marks_ok(1) by (auto simp: OnThreadPriorityChanged_def on_pq_def ChangePriority_def queued_def)
qed

lemma OnThreadAffinityMaskChanged_ok:
  assumes ok: "\<And>t. thread_ok (thr k t)" "arrays_ok k" and old: "queued (threads k) t \<longrightarrow> homed old_core old_mask"
    and b: "but_for t (home ((threads k)(t := (thr k t)\<lparr>m_core_id := old_core, m_physical_affinity_mask := old_mask\<rparr>)) t)
      (ready_queue k) Q"
  shows "\<exists>k'. OnThreadAffinityMaskChanged t old_mask old_core k = Some k' \<and> kernel_ok k'"
proof (cases "queued (threads k) t")
  case True
  have r: "ready_rep (ready_queue k) Q" and st: "sits t (seats (m_priority (thr k t)) old_core old_mask) Q"
    using b True by (simp_all add: but_for_def home_def queued_def IsDummyThread_def)
  have d: "\<not> IsDummyThread (thr k t)" "m_thread_state (thr k t) = ThreadState_Runnable"
    and p: "IsValidPriority (m_priority (thr k t))" "homed_in (threads k) t"
    using ok(1) [of t] True by (auto simp: thread_ok_def queued_def)
  obtain s' Q' where c: "ChangeAffinityMask old_core old_mask t (ready_queue k) = Some s'"
    and rel: "relocated t (home (threads k) t) (ready_queue k) Q s' Q'"
    using ChangeAffinityMask_relocates [of "ready_queue k" Q t old_core old_mask] r st d p old True
    by (auto simp: home_def)
  show ?thesis
    using marks_ok(1) [OF relocated_ok [OF ok b rel]] c d by (auto simp: OnThreadAffinityMaskChanged_def on_pq_def)
next
  case False
  then have "but_for t (home (threads k) t) (ready_queue k) Q"
    using b by (auto simp: home_def queued_def IsDummyThread_def split: if_splits)
  then have "kernel_ok k"
    using ok but_for_in_step [of t "ready_queue k" Q] by (auto simp: kernel_ok_def)
  moreover have "with_ready_queue (ready_queue k) k = k"
    by (simp add: with_ready_queue_def)
  ultimately show ?thesis
    using False marks_ok(1) by (auto simp: OnThreadAffinityMaskChanged_def on_pq_def ChangeAffinityMask_def queued_def)
qed

end
