(* ===== verification/Scheduler_Update.thy ===== *)
theory Scheduler_Update
  imports Scheduler_Steps
begin

text \<open>
  \<^verbatim>\<open>UpdateHighestPriorityThreadsImpl\<close>: the choice of a top thread for every core and the migration of
  threads to idle cores. The invariant of its two loops says that the kernel stays sound, that the
  schedulers hold the chosen top threads, and, when no thread is pinned, that the top
  thread of a core is the front of its scheduled queue.
\<close>

section \<open>One core's scheduler\<close>

definition unpinned :: "kernel \<Rightarrow> bool" where
  "unpinned k \<longleftrightarrow> (\<forall>p c. IsValidCore c \<longrightarrow> m_pinned_threads (processes k p) ! nat c = None)"

lemma unpinned_IncrementScheduledCount [simp]: "unpinned (IncrementScheduledCount t k) = unpinned k"
  by (auto simp: unpinned_def IncrementScheduledCount_def split: option.splits)

lemma count_idle_ok:
  assumes "arrays_ok k" "s_core_id sched < NUM_CPU_CORES"
  shows "\<exists>sched' k'. count_idle t sched k = Some (sched', k') \<and> s_core_id sched' = s_core_id sched
    \<and> threads k' = threads k \<and> schedulers k' = schedulers k \<and> m_priority_queue k' = m_priority_queue k
    \<and> arrays_ok k' \<and> unpinned k' = unpinned k"
proof -
  have proc: "\<exists>proc'. SetRunningThread (int (s_core_id sched)) u (idle_count sched) 0 (processes k p) = Some proc'
      \<and> m_pinned_threads proc' = m_pinned_threads (processes k p)
      \<and> arrays_ok (k\<lparr>processes := (processes k)(p := proc')\<rparr>)" for u p
    using assms by (simp add: SetRunningThread_def array_set_def arrays_ok_def)
  show ?thesis
  proof (cases "should_count_idle sched \<and> t \<noteq> None \<and> m_parent (thr k (the t)) \<noteq> None")
    case True
    then obtain u p where t: "t = Some u" "m_parent (thr k u) = Some p" by auto
    from proc [of u p] obtain proc' where
      "SetRunningThread (int (s_core_id sched)) u (idle_count sched) 0 (processes k p) = Some proc'"
      "m_pinned_threads proc' = m_pinned_threads (processes k p)"
      "arrays_ok (k\<lparr>processes := (processes k)(p := proc')\<rparr>)" by blast
    then show ?thesis
      using True t by (auto simp: count_idle_def unpinned_def)
  next
    case False
    then show ?thesis
      using assms(1) by (auto simp: count_idle_def split: option.splits)
  qed
qed

lemma UpdateHighestPriorityThread_ok:
  assumes a: "arrays_ok k" and c: "IsValidCore c"
  shows "\<exists>mask k'. UpdateHighestPriorityThread c t k = Some (mask, k') \<and> unqueued_step k k' \<and> unpinned k' = unpinned k
    \<and> (\<forall>d. IsValidCore d \<longrightarrow> highest_priority_thread (schedulers k' ! nat d) =
         (if d = c then t else highest_priority_thread (schedulers k ! nat d)))"
proof -
  let ?sched = "schedulers k ! nat c"
  have get: "array_get (schedulers k) c = Some ?sched" and id: "s_core_id ?sched < NUM_CPU_CORES"
    using a c by (auto simp: arrays_ok_def array_get_def)
  show ?thesis
  proof (cases "highest_priority_thread ?sched = t")
    case True
    then show ?thesis
      using get by (auto simp: UpdateHighestPriorityThread_def)
  next
    case False
    let ?k = "note_descheduled (highest_priority_thread ?sched) k"
    have step: "unqueued_step k ?k" and same: "schedulers ?k = schedulers k" "unpinned ?k = unpinned k"
      using unqueued_marks(7) by (auto simp: note_descheduled_def upd_thread_def unpinned_def
          IncrementScheduledCount_def split: option.splits)
    obtain sched' k' where ci: "count_idle t ?sched ?k = Some (sched', k')" "s_core_id sched' = s_core_id ?sched"
      and k': "threads k' = threads ?k" "schedulers k' = schedulers k" "m_priority_queue k' = m_priority_queue ?k"
        "arrays_ok k'" "unpinned k' = unpinned k"
      using count_idle_ok [of ?k ?sched t] a step id same by (auto simp: unqueued_step_def)
    let ?s = "sched'\<lparr>highest_priority_thread := t, needs_scheduling := True\<rparr>"
    let ?k' = "k'\<lparr>schedulers := (schedulers k)[nat c := ?s]\<rparr>"
    have "UpdateHighestPriorityThread c t k = Some (push_bit (s_core_id ?s) 1, ?k')"
      using False get ci(1) k'(2) a c
      by (simp add: UpdateHighestPriorityThread_def Let_def array_set_def arrays_ok_def)
    moreover have "arrays_ok ?k'"
      using k'(2,4) ci(2) a c by (auto simp: arrays_ok_def nth_list_update)
    then have "unqueued_step k ?k'"
      using step k' a by (simp add: unqueued_step_def)
    moreover have "highest_priority_thread ((schedulers k)[nat c := ?s] ! nat d) =
        (if d = c then t else highest_priority_thread (schedulers k ! nat d))" if "IsValidCore d" for d
      using that c a by (auto simp: arrays_ok_def nth_list_update eq_nat_nat_iff)
    ultimately show ?thesis
      using k'(5) by (auto simp: unpinned_def)
  qed
qed

section \<open>The loops' invariant\<close>

lemma core_bits_set:
  assumes "IsValidCore c"
  shows "core_bits (w OR push_bit (nat c) 1) = insert c (core_bits w)"
proof -
  have c: "0 \<le> c" "nat c < 64"
    using assms unfolding IsValidCore_def NUM_CPU_CORES_def by auto
  then have "bit (w OR push_bit (nat c) 1) i \<longleftrightarrow> bit w i \<or> i = nat c" for i
    by (auto simp: bit_or_iff bit_exp_iff)
  then show ?thesis
    using c by (auto simp: core_bits_def)
qed

text \<open>
  The table of the queue, the top threads on the cores \<open>C\<close> and the fronts on the cores \<open>D\<close>; \<open>unp\<close> is
  whether the kernel had no pinned thread at the start.
\<close>

definition tops_ok :: "bool \<Rightarrow> int set \<Rightarrow> int set \<Rightarrow> locals \<Rightarrow> kernel \<Rightarrow> ready \<Rightarrow> bool" where
  "tops_ok unp C D l k Q \<longleftrightarrow>
     kernel_ok k \<and> in_step (ready_queue k) Q \<and> unpinned k = unp \<and> length (l_top l) = NUM_CPU_CORES \<and>
     (\<forall>c \<in> C. IsValidCore c \<longrightarrow> highest_priority_thread (schedulers k ! nat c) = l_top l ! nat c) \<and>
     (\<forall>c \<in> D. IsValidCore c \<longrightarrow> unp \<longrightarrow> l_top l ! nat c = head_ptr (in_order Scheduled c Q))"

lemma set_top_ok:
  assumes t: "tops_ok unp C D l k Q" and c: "IsValidCore c" and D': "D' \<subseteq> insert c D"
    and front: "c \<in> D' \<longrightarrow> unp \<longrightarrow> top_t = head_ptr (in_order Scheduled c Q)"
  shows "\<exists>l' k'. set_top c top_t (l, k) = Some (l', k') \<and> tops_ok unp (insert c C) D' l' k' Q
    \<and> l_top l' = (l_top l)[nat c := top_t] \<and> l_idle l' = l_idle l \<and> unqueued_step k k'"
proof -
  have k: "kernel_ok k" and len: "length (l_top l) = NUM_CPU_CORES"
    using t by (simp_all add: tops_ok_def)
  obtain mask k' where u: "UpdateHighestPriorityThread c top_t k = Some (mask, k')" and step: "unqueued_step k k'"
    and pin: "unpinned k' = unpinned k"
    and high: "\<And>d. IsValidCore d \<Longrightarrow> highest_priority_thread (schedulers k' ! nat d) =
         (if d = c then top_t else highest_priority_thread (schedulers k ! nat d))"
    using UpdateHighestPriorityThread_ok [of k c top_t] k c by (auto simp: kernel_ok_def)
  let ?l = "l\<lparr>l_top := (l_top l)[nat c := top_t], l_cores := l_cores l OR mask\<rparr>"
  have "set_top c top_t (l, k) = Some (?l, k')"
    using u len c by (simp add: set_top_def array_set_def)
  moreover have "(l_top l)[nat c := top_t] ! nat d = (if d = c then top_t else l_top l ! nat d)" if "IsValidCore d" for d
    using that c len by (simp add: nth_list_update eq_nat_nat_iff)
  then have "tops_ok unp (insert c C) D' ?l k' Q"
    using t front D' high pin step unqueued_step_ok [OF step k] unqueued_step_in_step [OF step]
    by (auto simp: tops_ok_def)
  ultimately show ?thesis
    using step by auto
qed

lemma choose_top_set_top:
  assumes "GetScheduledFront c (m_priority_queue k) = Some front"
    and "(case front of None \<Rightarrow> Some None | Some t \<Rightarrow> prefer_pinned c t k) = Some top_t"
    and "l' = (if front = None then l\<lparr>l_idle := l_idle l OR push_bit (nat c) 1\<rparr> else l)"
  shows "choose_top c (l, k) = set_top c top_t (l', k)"
  using assms by (cases front) (auto simp: choose_top_def set_top_def Let_def)

lemma prefer_pinned_ok:
  assumes "arrays_ok k" "IsValidCore c"
  shows "\<exists>r. prefer_pinned c t k = Some r \<and> (unpinned k \<longrightarrow> r = Some t)"
  using assms by (auto simp: prefer_pinned_def arrays_ok_def unpinned_def array_get_def split: option.splits)

text \<open>The first loop: afterwards all cores have their top thread and the idle mask has the cores with no scheduled thread.\<close>

lemma choose_tops_ok:
  assumes k: "kernel_ok k" and i: "in_step (ready_queue k) Q"
  shows "\<exists>l k'. for_cores choose_top cores (\<lparr>l_cores = 0, l_idle = 0, l_top = replicate NUM_CPU_CORES None\<rparr>, k)
      = Some (l, k')
    \<and> tops_ok (unpinned k) {c. IsValidCore c} {c. IsValidCore c} l k' Q
    \<and> core_bits (l_idle l) = {c. IsValidCore c \<and> in_order Scheduled c Q = []}"
proof -
  let ?I = "\<lambda>C s. tops_ok (unpinned k) C C (fst s) (snd s) Q
    \<and> core_bits (l_idle (fst s)) = {c. c \<in> C \<and> in_order Scheduled c Q = []}"
  let ?P = "\<lambda>cs s. ?I (set cores - set cs) s \<and> distinct cs \<and> set cs \<subseteq> set cores"
  let ?s = "(\<lparr>l_cores = 0, l_idle = 0, l_top = replicate NUM_CPU_CORES None\<rparr>, k)"
  have "\<exists>s'. for_cores choose_top cores ?s = Some s' \<and> ?P [] s'"
  proof (rule for_cores_rule)
    show "?P cores ?s"
      using k i cores_facts(1) by (simp add: tops_ok_def)
  next
    fix c cs s assume P: "?P (c # cs) s"
    obtain l k1 where s: "s = (l, k1)" by force
    let ?C = "set cores - set (c # cs)"
    have c: "IsValidCore c" and C: "set cores - set cs = insert c ?C" "c \<notin> ?C"
      and t: "tops_ok (unpinned k) ?C ?C l k1 Q" and idle: "core_bits (l_idle l) = {d. d \<in> ?C \<and> in_order Scheduled d Q = []}"
      using P cores_facts(2) by (auto simp: s)
    have "ready_rep (ready_queue k1) Q" and a1: "arrays_ok k1" and u1: "unpinned k1 = unpinned k"
      using t by (simp_all add: tops_ok_def in_step_def kernel_ok_def)
    then have front: "GetScheduledFront c (m_priority_queue k1) = Some (head_ptr (in_order Scheduled c Q))"
      using public_fronts(1) [of "ready_queue k1" Q c] c by simp
    have "\<exists>top_t. (case head_ptr (in_order Scheduled c Q) of None \<Rightarrow> Some None | Some t \<Rightarrow> prefer_pinned c t k1) = Some top_t
        \<and> (unpinned k \<longrightarrow> top_t = head_ptr (in_order Scheduled c Q))"
      using prefer_pinned_ok [OF a1 c] u1 by (cases "head_ptr (in_order Scheduled c Q)") auto
    then obtain top_t where top_t:
      "(case head_ptr (in_order Scheduled c Q) of None \<Rightarrow> Some None | Some t \<Rightarrow> prefer_pinned c t k1) = Some top_t"
      "unpinned k \<longrightarrow> top_t = head_ptr (in_order Scheduled c Q)" by blast
    let ?l = "if head_ptr (in_order Scheduled c Q) = None then l\<lparr>l_idle := l_idle l OR push_bit (nat c) 1\<rparr> else l"
    have "tops_ok (unpinned k) ?C ?C ?l k1 Q"
      using t by (simp add: tops_ok_def)
    then obtain l' k' where "choose_top c s = Some (l', k')" "tops_ok (unpinned k) (insert c ?C) (insert c ?C) l' k' Q"
      "l_idle l' = l_idle ?l"
      using set_top_ok [of "unpinned k" ?C ?C ?l k1 Q c "insert c ?C" top_t] c top_t(2)
        choose_top_set_top [OF front top_t(1) refl, of l] unfolding s by auto
    moreover have "core_bits (l_idle ?l) = {d. d \<in> insert c ?C \<and> in_order Scheduled d Q = []}"
      using idle core_bits_set [OF c, of "l_idle l"] by auto
    ultimately show "\<exists>s'. choose_top c s = Some s' \<and> ?P cs s'"
      using P unfolding C(1) by auto
  qed
  then show ?thesis
    by (auto simp: cores_facts(2))
qed

section \<open>Filling an idle core\<close>

lemma removeAll_in_order:
  "removeAll t (in_order sd c Q) = in_order sd c (\<lambda>sd p c. removeAll t (Q sd p c))"
  by (simp add: in_order_def from_priority_def removeAll_filter_not_eq filter_concat comp_def)

lemma head_ptr_removeAll: "head_ptr xs \<noteq> Some t \<Longrightarrow> head_ptr (removeAll t xs) = head_ptr xs"
  by (cases xs) auto

lemma removeAll_singleton:
  assumes "removeAll t xs = []" "t \<in> set xs" "distinct xs"
  shows "xs = [t]"
proof -
  obtain us vs where xs: "xs = us @ t # vs"
    using assms(2) by (auto simp: in_set_conv_decomp)
  then show ?thesis
    using assms(1,3) by simp
qed

lemma migrate_fronts:
  assumes k: "kernel_ok k" and i: "in_step (ready_queue k) Q" and t: "t \<in> set (Q Suggested p core)"
  shows "\<exists>k' Q'. migrate core (m_core_id (thr k t)) t b k = Some k' \<and> kernel_ok k' \<and> in_step (ready_queue k') Q'
    \<and> schedulers k' = schedulers k \<and> unpinned k' = unpinned k
    \<and> (\<forall>c. c \<noteq> core \<longrightarrow> in_order Scheduled c Q' = removeAll t (in_order Scheduled c Q))
    \<and> (in_order Scheduled core Q = [] \<longrightarrow> in_order Scheduled core Q' = [t])"
proof -
  note facts = in_step_member [OF i t, simplified, OF kernel_ok_threads [OF k]]
  then have new: "homed core (m_physical_affinity_mask (thr k t))"
    by (simp add: homed_def)
  obtain s' Q' where m: "migrate core (m_core_id (thr k t)) t b k = Some (with_ready_queue s' (SetActiveCore t core k))"
    and i': "in_step s' Q'" and same: "same_threads (threads (SetActiveCore t core k)) (fst s')"
    and others: "\<And>sd p c. removeAll t (Q' sd p c) = removeAll t (Q sd p c)"
    using migrate_in_step [OF i kernel_ok_threads [OF k] facts(1) new, of b] by blast
  have ok: "kernel_ok (with_ready_queue s' (SetActiveCore t core k))"
    using migrate_ok [OF k facts(1) new, of b] m by simp
  then have ok': "thread_ok (fst s' u)" for u
    using kernel_ok_threads by fastforce
  have core: "m_core_id (fst s' t) = core" "m_priority (fst s' t) = m_priority (thr k t)" "queued (fst s') t"
    "m_physical_affinity_mask (fst s' t) = m_physical_affinity_mask (thr k t)"
    using same facts(1) by (auto simp: same_threads_fields SetActiveCore_def upd_thread_def queued_def IsDummyThread_def)
  have r': "ready_rep s' Q'"
    using i' by (simp add: in_step_def)
  have orders: "removeAll t (in_order sd c Q') = removeAll t (in_order sd c Q)" for sd c
    by (simp add: removeAll_in_order others)
  have "in_order Scheduled c Q' = removeAll t (in_order Scheduled c Q)" if "c \<noteq> core" for c
  proof -
    have "t \<notin> set (in_order Scheduled c Q')"
      using that in_step_member(6) [OF i', of t Scheduled _ c] ok' core in_order_member [OF r', of t Scheduled c]
      by auto
    then show ?thesis
      using orders [of Scheduled c] by (simp add: removeAll_id)
  qed
  moreover have "in_order Scheduled core Q' = [t]" if "in_order Scheduled core Q = []"
  proof (rule removeAll_singleton)
    have "(Scheduled, m_priority (fst s' t), core) \<in> home (fst s') t"
      using facts(2,3,5) core new by (simp add: home_def seats_homed)
    then show "t \<in> set (in_order Scheduled core Q')"
      using i' in_order_member [OF r', of t Scheduled core] by (auto simp: in_step_def sits_def)
  qed (use that orders [of Scheduled core] distinct_in_order [OF r'] in auto)
  moreover have "unpinned (with_ready_queue s' (SetActiveCore t core k)) = unpinned k"
    by (simp add: unpinned_def SetActiveCore_def upd_thread_def)
  ultimately show ?thesis
    using m ok i' by (auto simp: SetActiveCore_def upd_thread_def)
qed

abbreviation all_cores :: "int set" where
  "all_cores \<equiv> {c. IsValidCore c}"

text \<open>What filling the idle core \<open>core\<close> keeps: the loops' invariant, and that other idle cores have nothing scheduled.\<close>

definition filled :: "bool \<Rightarrow> int \<Rightarrow> ready \<Rightarrow> locals \<times> kernel \<Rightarrow> bool" where
  "filled unp core Q s \<longleftrightarrow> (\<exists>Q'. tops_ok unp all_cores all_cores (fst s) (snd s) Q'
     \<and> (\<forall>c. c \<noteq> core \<longrightarrow> in_order Scheduled c Q = [] \<longrightarrow> in_order Scheduled c Q' = []))"

lemma filled_refl: "tops_ok unp all_cores all_cores l k Q \<Longrightarrow> filled unp core Q (l, k)"
  by (auto simp: filled_def)

text \<open>Moving a suggested thread to the idle core, when the fronts of the other cores survive that.\<close>

lemma move_to_idle_ok:
  assumes t: "tops_ok unp all_cores D l k Q" and core: "IsValidCore core" and idle: "in_order Scheduled core Q = []"
    and sg: "sg \<in> set (Q Suggested p core)"
    and fronts: "\<And>c. IsValidCore c \<Longrightarrow> c \<noteq> core \<Longrightarrow> unp \<Longrightarrow>
      l_top l ! nat c = head_ptr (removeAll sg (in_order Scheduled c Q))"
  shows "\<exists>k1 l' k'. migrate core (m_core_id (thr k sg)) sg b k = Some k1
    \<and> set_top core (Some sg) (l, k1) = Some (l', k') \<and> filled unp core Q (l', k')"
proof -
  have k: "kernel_ok k" and i: "in_step (ready_queue k) Q"
    using t by (simp_all add: tops_ok_def)
  obtain k1 Q1 where m: "migrate core (m_core_id (thr k sg)) sg b k = Some k1" and k1: "kernel_ok k1"
    and i1: "in_step (ready_queue k1) Q1" and same: "schedulers k1 = schedulers k" "unpinned k1 = unpinned k"
    and rest: "\<And>c. c \<noteq> core \<Longrightarrow> in_order Scheduled c Q1 = removeAll sg (in_order Scheduled c Q)"
    and now: "in_order Scheduled core Q1 = [sg]"
    using migrate_fronts [OF k i sg, of b] idle by blast
  have "tops_ok unp all_cores (all_cores - {core}) l k1 Q1"
    using t k1 i1 same rest fronts by (auto simp: tops_ok_def)
  then obtain l' k' where "set_top core (Some sg) (l, k1) = Some (l', k')"
    "tops_ok unp (insert core all_cores) all_cores l' k' Q1"
    using set_top_ok [of unp all_cores "all_cores - {core}" l k1 Q1 core all_cores "Some sg"] core now by auto
  moreover have "insert core all_cores = all_cores"
    using core by auto
  ultimately show ?thesis
    using m rest by (auto simp: filled_def intro!: exI [of _ Q1])
qed

text \<open>The threads found to be the top threads of their own cores.\<close>

definition tops_at_home :: "locals \<Rightarrow> kernel \<Rightarrow> thread_ptr list \<Rightarrow> bool" where
  "tops_at_home l k us \<longleftrightarrow>
     (\<forall>u \<in> set us. IsValidCore (m_core_id (thr k u)) \<and> l_top l ! nat (m_core_id (thr k u)) = Some u)"

lemma tops_at_home_few:
  assumes "tops_at_home l k (us @ [v])" "distinct (us @ [v])"
  shows "length us < NUM_CPU_CORES"
proof -
  let ?core = "\<lambda>u. m_core_id (thr k u)"
  have "inj_on ?core (set (us @ [v]))"
    using assms(1) unfolding tops_at_home_def inj_on_def by (metis option.inject)
  then have "card (set (us @ [v])) \<le> card (set cores)"
  proof (rule card_inj_on_le)
    show "?core ` set (us @ [v]) \<subseteq> set cores"
      using assms(1) cores_facts(2) by (auto simp: tops_at_home_def)
  qed simp
  then show ?thesis
    using assms(2) distinct_card [of "us @ [v]"] distinct_card [OF cores_facts(1)] by (simp add: cores_def)
qed

lemma try_suggested_ok:
  assumes t: "tops_ok unp all_cores all_cores l k Q" and core: "IsValidCore core" and idle: "in_order Scheduled core Q = []"
  shows "in_order Suggested core Q = us @ vs \<Longrightarrow> tops_at_home l k us \<Longrightarrow>
    (try_suggested core (head_ptr vs) (map (\<lambda>u. m_core_id (thr k u)) us) (l, k)
        = Some (None, map (\<lambda>u. m_core_id (thr k u)) (us @ vs), l, k) \<and> tops_at_home l k (us @ vs))
    \<or> (\<exists>sg cs s'. try_suggested core (head_ptr vs) (map (\<lambda>u. m_core_id (thr k u)) us) (l, k) = Some (Some sg, cs, s')
        \<and> filled unp core Q s')"
proof (induction vs arbitrary: us)
  case Nil
  then show ?case
    by (simp add: try_suggested.simps)
next
  case (Cons v vs)
  have k: "kernel_ok k" and i: "in_step (ready_queue k) Q" and len: "length (l_top l) = NUM_CPU_CORES"
    using t by (simp_all add: tops_ok_def)
  obtain p where v: "v \<in> set (Q Suggested p core)"
    using suggested_at [OF i Cons.prems(1)] by blast
  note valid = migrate_suggested_ok(2) [OF k i v]
  note next_v = next_in_order(1) [OF i kernel_ok_threads [OF k] Cons.prems(1)]
  let ?c = "m_core_id (thr k v)"
  define top_v where "top_v = (if 0 \<le> ?c then l_top l ! nat ?c else None)"
  have top_v: "top_of ?c (l_top l) = Some top_v"
    using valid len by (auto simp: top_of_def array_get_def top_v_def)
  show ?case
  proof (cases "top_v = Some v")
    case True
    have "distinct (us @ v # vs)"
      using distinct_in_order [of "ready_queue k" Q Suggested core] i Cons.prems(1) by (simp add: in_step_def)
    then have home: "tops_at_home l k (us @ [v])" and few: "length us < NUM_CPU_CORES"
      using True Cons.prems(2) valid tops_at_home_few [of l k us v]
      by (auto simp: tops_at_home_def top_v_def split: if_splits)
    then show ?thesis
      using Cons.IH [of "us @ [v]"] Cons.prems(1) next_v True top_v
      by (simp add: try_suggested.simps [of core "Some v"] Let_def)
  next
    case False
    have "l_top l ! nat c = head_ptr (removeAll v (in_order Scheduled c Q))" if c: "IsValidCore c" and "unp" for c
    proof -
      have front: "l_top l ! nat c = head_ptr (in_order Scheduled c Q)"
        using t that by (simp add: tops_ok_def)
      have "head_ptr (in_order Scheduled c Q) \<noteq> Some v"
      proof
        assume h: "head_ptr (in_order Scheduled c Q) = Some v"
        then obtain p' where "v \<in> set (Q Scheduled p' c)"
          using head_ptr_in in_order_member [of "ready_queue k" Q v Scheduled c] i by (auto simp: in_step_def)
        then have "c = ?c"
          using in_step_member(6) [OF i, of v Scheduled p' c] kernel_ok_threads [OF k] by (auto split: if_splits)
        then show False
          using False h front c by (auto simp: top_v_def)
      qed
      then show ?thesis
        using front head_ptr_removeAll by simp
    qed
    then have "\<exists>k1 l' k'. migrate core ?c v False k = Some k1 \<and> set_top core (Some v) (l, k1) = Some (l', k')
        \<and> filled unp core Q (l', k')"
      using move_to_idle_ok [OF t core idle v] by blast
    then show ?thesis
      using False top_v filled_refl [OF t] by (auto simp: try_suggested.simps [of core "Some v"] Let_def)
  qed
qed

lemma suggested_is_scheduled:
  assumes k: "kernel_ok k" and i: "in_step (ready_queue k) Q" and v: "v \<in> set (Q Suggested p core)"
    and "0 \<le> m_core_id (thr k v)"
  shows "v \<in> set (in_order Scheduled c Q) \<longleftrightarrow> c = m_core_id (thr k v)"
proof -
  note facts = in_step_member [OF i v, simplified, OF kernel_ok_threads [OF k]]
  have r: "ready_rep (ready_queue k) Q" and s: "sits v (home (threads k) v) Q"
    using i by (simp_all add: in_step_def)
  have "(\<exists>p. (Scheduled, p, c) \<in> home (threads k) v) \<longleftrightarrow> c = m_core_id (thr k v)"
    using facts assms(4) by (auto simp: home_def seats_homed homed_def)
  then show ?thesis
    using s in_order_member [OF r, of v Scheduled c] by (simp add: sits_def)
qed

lemma try_candidates_ok:
  assumes t: "tops_ok unp all_cores all_cores l k Q" and core: "IsValidCore core" and idle: "in_order Scheduled core Q = []"
  shows "set us \<subseteq> set (in_order Suggested core Q) \<Longrightarrow> tops_at_home l k us \<Longrightarrow>
    \<exists>s'. try_candidates core (map (\<lambda>u. m_core_id (thr k u)) us) (l, k) = Some s' \<and> filled unp core Q s'"
proof (induction us)
  case Nil
  then show ?case
    using filled_refl [OF t] by simp
next
  case (Cons u us)
  have k: "kernel_ok k" and i: "in_step (ready_queue k) Q" and len: "length (l_top l) = NUM_CPU_CORES"
    and r: "ready_rep (ready_queue k) Q"
    using t by (simp_all add: tops_ok_def in_step_def)
  let ?c = "m_core_id (thr k u)"
  have c: "IsValidCore ?c" "l_top l ! nat ?c = Some u"
    using Cons.prems(2) by (simp_all add: tops_at_home_def)
  obtain p where u: "u \<in> set (Q Suggested p core)"
    using Cons.prems(1) in_order_member [OF r, of u Suggested core] by auto
  note at = suggested_is_scheduled [OF k i u]
  obtain xs ys where split: "in_order Scheduled ?c Q = xs @ u # ys"
    using at [of ?c] c(1) by (auto simp: in_set_conv_decomp)
  have get: "array_get (l_top l) ?c = Some (Some u)"
    using c len by (simp add: array_get_def)
  note next_u = next_in_order(2) [OF i kernel_ok_threads [OF k] split]
  show ?case
  proof (cases "head_ptr ys")
    case None
    then show ?thesis
      using Cons get next_u by (simp add: tops_at_home_def)
  next
    case (Some nxt)
    obtain l1 k1 where s1: "set_top ?c (Some nxt) (l, k) = Some (l1, k1)"
      and t1: "tops_ok unp (insert ?c all_cores) (all_cores - {?c}) l1 k1 Q"
      and l1: "l_top l1 = (l_top l)[nat ?c := Some nxt]" and step: "unqueued_step k k1"
      using set_top_ok [OF t c(1), of "all_cores - {?c}" "Some nxt"] by auto
    have all: "insert ?c all_cores = all_cores"
      using c(1) by auto
    have "l_top l1 ! nat d = head_ptr (removeAll u (in_order Scheduled d Q))" if d: "IsValidCore d" and "unp" for d
    proof (cases "d = ?c")
      case True
      have "distinct (xs @ u # ys)"
        using distinct_in_order [OF r, of Scheduled ?c] by (simp add: split)
      moreover have "head_ptr (xs @ u # ys) = Some u"
        using t c split \<open>unp\<close> by (simp add: tops_ok_def)
      ultimately have "xs = []" "u \<notin> set ys"
        by (cases xs; auto)+
      then show ?thesis
        using True Some l1 len c(1) by (simp add: split)
    next
      case False
      then show ?thesis
        using at [of d] c d \<open>unp\<close> t l1 by (simp add: tops_ok_def removeAll_id eq_nat_nat_iff)
    qed
    moreover have "m_core_id (thr k1 u) = ?c"
      using step by (simp add: unqueued_step_def)
    ultimately obtain k2 l3 k3 where "migrate core ?c u False k1 = Some k2" "set_top core (Some u) (l1, k2) = Some (l3, k3)"
      "filled unp core Q (l3, k3)"
      using move_to_idle_ok [OF t1 [unfolded all] core idle u] by metis
    then show ?thesis
      using get next_u Some s1 by simp
  qed
qed

lemma fill_idle_core_ok:
  assumes t: "tops_ok unp all_cores all_cores l k Q" and core: "IsValidCore core" and idle: "in_order Scheduled core Q = []"
  shows "\<exists>s'. fill_idle_core core (l, k) = Some s' \<and> filled unp core Q s'"
proof -
  have r: "ready_rep (ready_queue k) Q"
    using t by (simp add: tops_ok_def in_step_def)
  note front = public_fronts(2) [OF r core, simplified]
  show ?thesis
  proof (cases "in_order Suggested core Q")
    case Nil
    then show ?thesis
      using front filled_refl [OF t] by (simp add: fill_idle_core_def)
  next
    case (Cons v vs)
    then show ?thesis
      using front try_suggested_ok [OF t core idle, of "[]" "v # vs"] try_candidates_ok [OF t core idle, of "v # vs"]
      by (fastforce simp: fill_idle_core_def tops_at_home_def)
  qed
qed

lemma fill_idle_cores_ok:
  "tops_ok unp all_cores all_cores (fst s) (snd s) Q \<Longrightarrow> allowed w \<Longrightarrow>
   (\<forall>c \<in> core_bits w. in_order Scheduled c Q = []) \<Longrightarrow>
   \<exists>l' k' Q'. while_affinity fill_idle_core w s = Some (l', k') \<and> tops_ok unp all_cores all_cores l' k' Q'"
proof (induction "fill_idle_core" w s arbitrary: Q rule: while_affinity.induct)
  case (1 w s)
  show ?case
  proof (cases "w = 0")
    case True
    then show ?thesis
      using "1.prems"(1) by (cases s) (auto simp: while_affinity.simps)
  next
    case False
    let ?c = "fst (GetNextCore w)" and ?w = "snd (GetNextCore w)"
    note bits = core_bits_next [OF False]
    have "IsValidCore ?c" "in_order Scheduled ?c Q = []"
      using bits(1) "1.prems"(2,3) by (simp_all add: allowed_def)
    then obtain s' where s': "fill_idle_core ?c s = Some s'" and f: "filled unp ?c Q s'"
      using fill_idle_core_ok [of unp "fst s" "snd s" Q ?c] "1.prems"(1) by auto
    from f obtain Q' where "tops_ok unp all_cores all_cores (fst s') (snd s') Q'"
      "\<And>c. c \<noteq> ?c \<Longrightarrow> in_order Scheduled c Q = [] \<Longrightarrow> in_order Scheduled c Q' = []"
      by (auto simp: filled_def)
    moreover have "allowed ?w"
      using "1.prems"(2) bits(2) by (auto simp: allowed_def)
    ultimately have "\<exists>l' k' Q''. while_affinity fill_idle_core ?w s' = Some (l', k') \<and> tops_ok unp all_cores all_cores l' k' Q''"
      using "1.hyps" [OF False s'] "1.prems"(3) bits(2) by auto
    then show ?thesis
      using False s' by (simp add: while_affinity.simps [of _ w])
  qed
qed

section \<open>The whole update\<close>

text \<open>Every core's scheduler holds the front of the core's scheduled queue.\<close>

definition runs_fronts :: "kernel \<Rightarrow> bool" where
  "runs_fronts k \<longleftrightarrow> (\<forall>c. IsValidCore c \<longrightarrow>
     GetScheduledFront c (m_priority_queue k) = Some (highest_priority_thread (schedulers k ! nat c)))"

lemma WakeupWaitingDummyThreads_step:
  "unqueued_step k (WakeupWaitingDummyThreads k)" "schedulers (WakeupWaitingDummyThreads k) = schedulers k"
proof -
  have "unqueued_step k (fold DummyThreadEndWait ts k) \<and> schedulers (fold DummyThreadEndWait ts k) = schedulers k" for ts
  proof (induction ts arbitrary: k)
    case (Cons t ts)
    have "schedulers (DummyThreadEndWait t k) = schedulers k"
      by (simp add: DummyThreadEndWait_def upd_thread_def)
    then show ?case
      using Cons.IH [of "DummyThreadEndWait t k"] unqueued_step_trans [OF unqueued_marks(8), of t k]
      by simp
  qed simp
  moreover have "unqueued_step k' (k'\<lparr>m_woken_dummy_threads := []\<rparr>)" for k'
    by (simp add: unqueued_step_def arrays_ok_def)
  ultimately show "unqueued_step k (WakeupWaitingDummyThreads k)" "schedulers (WakeupWaitingDummyThreads k) = schedulers k"
    using unqueued_step_trans by (simp_all add: WakeupWaitingDummyThreads_def) blast
qed

lemma UpdateHighestPriorityThreadsImpl_ok:
  assumes "kernel_ok k"
  shows "\<exists>mask k'. UpdateHighestPriorityThreadsImpl k = Some (mask, k') \<and> kernel_ok k' \<and> (unpinned k \<longrightarrow> runs_fronts k')"
proof -
  let ?k = "ClearSchedulerUpdateNeeded k"
  have k: "kernel_ok ?k" and pin: "unpinned ?k = unpinned k"
    using marks_ok(8) [OF assms] by (simp_all add: ClearSchedulerUpdateNeeded_def unpinned_def)
  then obtain Q where i: "in_step (ready_queue ?k) Q"
    by (auto simp: kernel_ok_def)
  obtain l1 k1 where loop1: "for_cores choose_top cores
      (\<lparr>l_cores = 0, l_idle = 0, l_top = replicate NUM_CPU_CORES None\<rparr>, ?k) = Some (l1, k1)"
    and t1: "tops_ok (unpinned k) all_cores all_cores l1 k1 Q"
    and idle: "core_bits (l_idle l1) = {c. IsValidCore c \<and> in_order Scheduled c Q = []}"
    using choose_tops_ok [OF k i] unfolding pin by blast
  have al: "allowed (l_idle l1)" and emp: "\<forall>c \<in> core_bits (l_idle l1). in_order Scheduled c Q = []"
    by (simp_all add: allowed_def idle)
  obtain l2 k2 Q2 where loop2: "while_affinity fill_idle_core (l_idle l1) (l1, k1) = Some (l2, k2)"
    and t2: "tops_ok (unpinned k) all_cores all_cores l2 k2 Q2"
    using fill_idle_cores_ok [of "unpinned k" "(l1, k1)", unfolded fst_conv snd_conv, OF t1 al emp] by blast
  let ?k3 = "WakeupWaitingDummyThreads k2"
  let ?k4 = "if IsDummyThread (thr ?k3 (current_thread ?k3)) \<and>
      m_thread_state (thr ?k3 (current_thread ?k3)) AND ThreadState_Mask \<noteq> ThreadState_Runnable
    then RequestDummyThreadWait (current_thread ?k3) ?k3 else ?k3"
  have "unqueued_step ?k3 (RequestDummyThreadWait (current_thread ?k3) ?k3)"
    by (rule unqueued_marks(9))
  then have step: "unqueued_step k2 ?k4"
    using WakeupWaitingDummyThreads_step(1) [of k2] unqueued_step_trans by (simp split: if_split)
  have same: "schedulers ?k4 = schedulers k2"
    using WakeupWaitingDummyThreads_step(2) [of k2] by (simp add: RequestDummyThreadWait_def upd_thread_def)
  have "UpdateHighestPriorityThreadsImpl k = Some (l_cores l2, ?k4)"
    by (simp add: UpdateHighestPriorityThreadsImpl_def Let_def loop1 loop2)
  moreover have "kernel_ok ?k4"
    using unqueued_step_ok [OF step] t2 by (simp add: tops_ok_def)
  moreover have "runs_fronts ?k4" if "unpinned k"
    unfolding runs_fronts_def
  proof (intro allI impI)
    fix c assume c: "IsValidCore c"
    have "ready_rep (ready_queue ?k4) Q2"
      using unqueued_step_in_step [OF step, of Q2] t2 by (simp add: tops_ok_def in_step_def)
    then show "GetScheduledFront c (m_priority_queue ?k4) = Some (highest_priority_thread (schedulers ?k4 ! nat c))"
      using public_fronts(1) [of "ready_queue ?k4" Q2 c] c that t2 unfolding same by (simp add: tops_ok_def)
  qed
  ultimately show ?thesis
    by blast
qed

lemma UpdateHighestPriorityThreads_ok:
  "kernel_ok k \<Longrightarrow> \<exists>mask k'. UpdateHighestPriorityThreads k = Some (mask, k') \<and> kernel_ok k'"
  using UpdateHighestPriorityThreadsImpl_ok [of k] by (auto simp: UpdateHighestPriorityThreads_def)

lemma kernel_ok_cong:
  assumes "kernel_ok k" "threads k' = threads k" "m_priority_queue k' = m_priority_queue k"
    "schedulers k' = schedulers k" "processes k' = processes k"
  shows "kernel_ok k'"
  using assms by (simp add: kernel_ok_def arrays_ok_def ready_queue_def)

lemma Unlock_ok:
  assumes "kernel_ok k"
  shows "\<exists>k'. Unlock k = Some k' \<and> kernel_ok k'"
proof -
  let ?k = "k\<lparr>m_lock_count := m_lock_count k - 1\<rparr>"
  have k: "kernel_ok ?k"
    using assms by (rule kernel_ok_cong) simp_all
  obtain mask k' where u: "UpdateHighestPriorityThreads ?k = Some (mask, k')" "kernel_ok k'"
    using UpdateHighestPriorityThreads_ok [OF k] by blast
  have "kernel_ok (k'\<lparr>m_owner_thread := None, rescheduled := rescheduled k' @ [mask]\<rparr>)"
    using u(2) by (rule kernel_ok_cong) simp_all
  then show ?thesis
    using u k by (cases "m_lock_count k = 1") (auto simp: Unlock_def Let_def)
qed

end
