(* ===== verification/Scheduler_Entry.thy ===== *)
theory Scheduler_Entry
  imports Scheduler_Update
begin

text \<open>
  The entry points of the scheduler, from a sound kernel: state, priority and affinity changes of a
  thread, rotation and preemption, the three yields.
\<close>

section \<open>Changes of a thread\<close>

lemma SetState_ok:
  assumes "kernel_ok k"
  shows "\<exists>k'. SetState t state k = Some k' \<and> kernel_ok k'"
proof -
  let ?old = "m_thread_state (thr (Lock k) t)"
  let ?f = "\<lambda>th. th\<lparr>m_thread_state := (?old AND NOT ThreadState_Mask) OR (state AND ThreadState_Mask)\<rparr>"
  let ?k = "upd_thread t ?f (Lock k)"
  have k: "kernel_ok (Lock k)"
    by (rule marks_ok(7) [OF assms])
  then obtain Q where "in_step (ready_queue (Lock k)) Q"
    by (auto simp: kernel_ok_def)
  then have "but_for t (home (threads (Lock k)) t) (ready_queue ?k) Q"
    using in_step_change [of "threads (Lock k)" "m_priority_queue (Lock k)" Q ?f t]
    by (simp add: ready_queue_def upd_thread_def)
  moreover have "home (threads (Lock k)) t = home_in_state ?old (thr ?k t)"
    by (simp add: home_def home_in_state_def queued_def upd_thread_def IsDummyThread_def)
  moreover have ok: "\<And>t. thread_ok (thr ?k t)" "arrays_ok ?k"
    using k by (auto simp: kernel_ok_def upd_thread_def thread_ok_def IsDummyThread_def arrays_ok_def)
  ultimately have b: "but_for t (home_in_state ?old (thr ?k t)) (ready_queue ?k) Q"
    by simp
  from OnThreadStateChanged_ok [OF ok b]
  have "\<exists>k1. (if m_thread_state (thr ?k t) \<noteq> ?old then OnThreadStateChanged t ?old ?k else Some ?k) = Some k1 \<and> kernel_ok k1"
    by (auto simp: OnThreadStateChanged_def)
  then show ?thesis
    using Unlock_ok by (auto simp: SetState_def Let_def)
qed

text \<open>A change of one thread's fields that is followed by the scheduler's event for it.\<close>

lemma changed_thread:
  assumes "kernel_ok k" and "\<And>th. m_per_core_priority_queue_entry (f th) = m_per_core_priority_queue_entry th"
    and "thread_ok (f (thr k t))"
  obtains Q where "\<And>t'. thread_ok (thr (upd_thread t f k) t')" "arrays_ok (upd_thread t f k)"
    "but_for t (home (threads k) t) (ready_queue (upd_thread t f k)) Q"
proof -
  obtain Q where i: "in_step (ready_queue k) Q"
    using assms(1) by (auto simp: kernel_ok_def)
  have "but_for t (home (threads k) t) (ready_queue (upd_thread t f k)) Q"
    using in_step_change [of "threads k" "m_priority_queue k" Q f t] i assms(2)
    by (simp add: ready_queue_def upd_thread_def)
  moreover have "thread_ok (thr (upd_thread t f k) t')" for t'
    using assms(1,3) by (simp add: kernel_ok_def upd_thread_def)
  moreover have "arrays_ok (upd_thread t f k)"
    using assms(1) by (simp add: kernel_ok_def arrays_ok_def upd_thread_def)
  ultimately show ?thesis
    using that by blast
qed

lemma UpdatePriority_ok:
  assumes k: "kernel_ok k" and p: "IsValidPriority p"
  shows "\<exists>k'. UpdatePriority t p k = Some k' \<and> kernel_ok k'"
proof -
  let ?f = "\<lambda>th. th\<lparr>m_priority := p\<rparr>"
  have old: "queued (threads (upd_thread t ?f k)) t \<longrightarrow> IsValidPriority (m_priority (thr k t))"
    using kernel_ok_threads [OF k, of t] by (simp add: thread_ok_def queued_def upd_thread_def IsDummyThread_def)
  have ok: "thread_ok (?f (thr k t))"
    using kernel_ok_threads [OF k, of t] p by (simp add: thread_ok_def IsDummyThread_def)
  obtain Q where th: "\<And>t'. thread_ok (thr (upd_thread t ?f k) t')" "arrays_ok (upd_thread t ?f k)"
    and b: "but_for t (home (threads k) t) (ready_queue (upd_thread t ?f k)) Q"
    using changed_thread [OF k, of ?f t] ok by auto
  have "home (threads k) t = home ((threads (upd_thread t ?f k))(t := (thr (upd_thread t ?f k) t)\<lparr>m_priority := m_priority (thr k t)\<rparr>)) t"
    by (simp add: home_def queued_def upd_thread_def)
  then show ?thesis
    using OnThreadPriorityChanged_ok [OF th old] b by (simp add: UpdatePriority_def)
qed

lemma highest_core_in:
  assumes "w \<noteq> 0"
  shows "highest_core w \<in> core_bits w"
proof -
  have some: "\<exists>i \<in> set (rev [0..<64]). bit w i"
    using bit_countr_zero [OF assms] by auto
  let ?n = "length (takeWhile (\<lambda>i. \<not> bit w i) (rev [0..<64]))"
  have "?n < length (rev [0..<64])"
    using some by (metis length_takeWhile_le le_neq_implies_less takeWhile_eq_take take_all takeWhile_eq_all_conv order_refl)
  then have "bit w (rev [0..<64] ! ?n)" "?n < 64"
    using nth_length_takeWhile [of "\<lambda>i. \<not> bit w i" "rev [0..<64]"] by auto
  moreover from this have "rev [0..<64] ! ?n = 63 - ?n"
    by (subst rev_nth) auto
  ultimately show ?thesis
    by (simp add: highest_core_def core_bits_def nat_diff_distrib)
qed

lemma UpdateAffinity_ok:
  assumes k: "kernel_ok k" and w: "allowed w" "w \<noteq> 0" "0 \<le> ideal \<longrightarrow> ideal \<in> core_bits w"
  shows "\<exists>k'. UpdateAffinity t ideal w k = Some k' \<and> kernel_ok k'"
proof (cases "w = m_physical_affinity_mask (thr k t)")
  case True
  then have "kernel_ok (upd_thread t (\<lambda>th. th\<lparr>m_physical_affinity_mask := w\<rparr>) k)"
    using k by (simp add: upd_thread_def)
  then show ?thesis
    using True by (simp add: UpdateAffinity_def Let_def)
next
  case False
  let ?old = "m_core_id (thr k t)"
  let ?new = "if 0 \<le> ?old \<and> \<not> GetAffinity w ?old then if 0 \<le> ideal then ideal else highest_core w else ?old"
  let ?f = "\<lambda>th. th\<lparr>m_physical_affinity_mask := w, m_core_id := ?new\<rparr>"
  have sound: "homed ?old (m_physical_affinity_mask (thr k t))" "IsValidPriority (m_priority (thr k t))"
    if "\<not> IsDummyThread (thr k t)"
    using kernel_ok_threads [OF k, of t] that by (simp_all add: thread_ok_def)
  have "homed ?new w" if "\<not> IsDummyThread (thr k t)"
  proof -
    have "0 \<le> ?old \<Longrightarrow> GetAffinity w ?old \<Longrightarrow> ?old \<in> core_bits w"
      using sound(1) [OF that] GetAffinity_core_bits [of ?old w] unfolding homed_def allowed_def by blast
    then have "0 \<le> ?new \<longrightarrow> ?new \<in> core_bits w"
      using w(3) highest_core_in [OF w(2)] by simp
    then show ?thesis
      using w(1) by (simp add: homed_def)
  qed
  then have ok: "thread_ok (?f (thr k t))"
    using sound(2) by (simp add: thread_ok_def IsDummyThread_def)
  have old: "queued (threads (upd_thread t ?f k)) t \<longrightarrow> homed ?old (m_physical_affinity_mask (thr k t))"
    using sound(1) by (simp add: queued_def upd_thread_def IsDummyThread_def)
  obtain Q where th: "\<And>t'. thread_ok (thr (upd_thread t ?f k) t')" "arrays_ok (upd_thread t ?f k)"
    and b: "but_for t (home (threads k) t) (ready_queue (upd_thread t ?f k)) Q"
    using changed_thread [OF k, of ?f t] ok by auto
  have "home (threads k) t = home ((threads (upd_thread t ?f k))(t := (thr (upd_thread t ?f k) t)
      \<lparr>m_core_id := ?old, m_physical_affinity_mask := m_physical_affinity_mask (thr k t)\<rparr>)) t"
    by (simp add: home_def queued_def upd_thread_def IsDummyThread_def)
  moreover have "UpdateAffinity t ideal w k
      = OnThreadAffinityMaskChanged t (m_physical_affinity_mask (thr k t)) ?old (upd_thread t ?f k)"
    using False by (simp add: UpdateAffinity_def Let_def upd_thread_def SetActiveCore_def)
  ultimately show ?thesis
    using OnThreadAffinityMaskChanged_ok [OF th old] b by simp
qed

section \<open>Rotation and preemption\<close>

lemma rotate_front_ok:
  assumes k: "kernel_ok k" and i: "in_step (ready_queue k) Q" and t: "t \<in> set (Q Scheduled p c)"
  shows "\<exists>n s'. MoveToScheduledBack t (ready_queue k) = Some (Some n, s') \<and> kernel_ok (with_ready_queue s' k)"
proof -
  note facts = in_step_member [OF i t, simplified, OF kernel_ok_threads [OF k]]
  have core: "m_core_id (thr k t) = c" and p: "m_priority (thr k t) = p" and d: "\<not> IsDummyThread (thr k t)"
    using facts(1,2,6) by (auto simp: queued_def split: if_splits)
  have r: "ready_rep (ready_queue k) Q"
    using i by (simp add: in_step_def)
  let ?Q = "edits {(Scheduled, p, c)} (\<lambda>ts. removeAll t ts @ [t]) Q"
  obtain s' where m: "MoveToScheduledBack t (ready_queue k) = Some (head_ptr (removeAll t (Q Scheduled p c) @ [t]), s')"
    and r': "ready_rep s' ?Q" and same: "same_threads (threads k) (fst s')"
    using MoveToScheduledBack_rep [OF r, of t] facts(3,4) core p d t by auto
  have "relocated t (home (threads k) t) (ready_queue k) Q s' ?Q"
    using r' same i t unfolding relocated_def sits_def edits_def in_step_def by auto
  then have "kernel_ok (with_ready_queue s' k)"
    using relocated_ok [OF _ _ in_step_but_for [OF i], of t s' ?Q] k by (simp add: kernel_ok_def)
  moreover obtain n where "head_ptr (removeAll t (Q Scheduled p c) @ [t]) = Some n"
    by (cases "removeAll t (Q Scheduled p c)") auto
  ultimately show ?thesis
    using m by auto
qed

lemma improve_best_ok:
  assumes k: "kernel_ok k" and c: "IsValidCore c"
  shows "\<exists>k'. improve_best c p k = Some k' \<and> kernel_ok k'"
proof -
  obtain Q where i: "in_step (ready_queue k) Q"
    using k by (auto simp: kernel_ok_def)
  then have r: "ready_rep (ready_queue k) Q"
    by (simp add: in_step_def)
  note fronts = public_fronts(1,2) [OF r c, simplified]
  have "\<exists>b. (if head_ptr (in_order Scheduled c Q) = Some (current_thread k)
      then GetScheduledNext c (current_thread k) (ready_queue k) else Some (head_ptr (in_order Scheduled c Q))) = Some b"
    using next_in_order(2) [OF i kernel_ok_threads [OF k], of c "[]"] by (cases "in_order Scheduled c Q") auto
  then obtain b where b: "(if head_ptr (in_order Scheduled c Q) = Some (current_thread k)
      then GetScheduledNext c (current_thread k) (ready_queue k) else Some (head_ptr (in_order Scheduled c Q))) = Some b" ..
  obtain k' where "\<forall>t. b = Some t \<longrightarrow> improve_suggested c t (head_ptr (in_order Suggested c Q)) k = Some k' \<and> kernel_ok k'"
    using improve_suggested_ok [OF k i, of c "[]"] by (cases b) auto
  then show ?thesis
    using fronts b k by (cases b) (auto simp: improve_best_def)
qed

lemma RotateScheduledQueue_ok:
  assumes k: "kernel_ok k" and c: "IsValidCore c" and p: "listed p"
  shows "\<exists>k'. RotateScheduledQueue c p k = Some k' \<and> kernel_ok k'"
proof -
  obtain Q where i: "in_step (ready_queue k) Q"
    using k by (auto simp: kernel_ok_def)
  have r: "ready_rep (ready_queue k) Q"
    using i by (simp add: in_step_def)
  let ?top = "head_ptr (Q Scheduled p c)"
  have top: "GetScheduledFront_at c p (m_priority_queue k) = Some ?top"
    using public_fronts(3) [OF r c p] by simp
  have "\<exists>n k1. rotate_front ?top k = Some (n, k1) \<and> kernel_ok k1"
  proof (cases ?top)
    case (Some t)
    obtain n s' where "MoveToScheduledBack t (ready_queue k) = Some (Some n, s')"
      "kernel_ok (with_ready_queue s' k)"
      using rotate_front_ok [OF k i head_ptr_in [OF Some]] by blast
    then show ?thesis
      using Some marks_ok(6) by (cases "n = t") (auto simp: rotate_front_def Let_def)
  qed (use k in \<open>auto simp: rotate_front_def\<close>)
  then obtain n k1 Q1 where s1: "rotate_front ?top k = Some (n, k1)" and k1: "kernel_ok k1"
    and i1: "in_step (ready_queue k1) Q1"
    unfolding kernel_ok_def by blast
  have sg: "GetSuggestedFront_at c p (m_priority_queue k1) = Some (head_ptr (Q1 Suggested p c))"
    using public_fronts(4) [of "ready_queue k1" Q1 c p] i1 c p by (simp add: in_step_def)
  obtain k2 where k2: "rotate_suggested c ?top n (head_ptr (Q1 Suggested p c)) k1 = Some k2" "kernel_ok k2"
    using rotate_suggested_ok [OF k1 i1, of p c "[]" "Q1 Suggested p c" ?top n] by auto
  obtain k3 where k3: "improve_best c p k2 = Some k3" "kernel_ok k3"
    using improve_best_ok [OF k2(2) c] by blast
  have "RotateScheduledQueue c p k = Some (SetSchedulerUpdateNeeded k3)"
    using top s1 sg k2(1) k3(1) by (simp add: RotateScheduledQueue_def)
  then show ?thesis
    using marks_ok(4) [OF k3(2)] by blast
qed

lemma PreemptThreads_ok:
  assumes "kernel_ok k"
  shows "\<exists>k'. PreemptThreads k = Some k' \<and> kernel_ok k'"
proof -
  let ?P = "\<lambda>cs k. kernel_ok k \<and> set cs \<subseteq> set cores"
  have "\<exists>k'. PreemptThreads k = Some k' \<and> ?P [] k'"
    unfolding PreemptThreads_def
  proof (rule for_cores_rule)
    fix c cs k assume P: "?P (c # cs) k"
    then have c: "IsValidCore c"
      using cores_facts(2) by auto
    then have "c \<in> {0, 1, 2, 3}"
      unfolding IsValidCore_def NUM_CPU_CORES_def by auto
    then have "listed ([59, 59, 59, 63] ! nat c)"
      by (auto simp: listed_def HighestPriority_def LowestPriority_def)
    then show "\<exists>k'. RotateScheduledQueue c ([59, 59, 59, 63] ! nat c) k = Some k' \<and> ?P cs k'"
      using RotateScheduledQueue_ok [OF _ c] P by auto
  qed (use assms in simp)
  then show ?thesis
    by simp
qed

section \<open>Yielding\<close>

text \<open>A runnable current thread that is scheduled on a core, as the thread that calls a yield is.\<close>

definition yielding :: "kernel \<Rightarrow> bool" where
  "yielding k \<longleftrightarrow>
     (m_thread_state (thr k (current_thread k)) = ThreadState_Runnable \<longrightarrow>
        \<not> IsDummyThread (thr k (current_thread k)) \<and> 0 \<le> m_core_id (thr k (current_thread k)) \<and>
        m_priority (thr k (current_thread k)) \<le> LowestPriority)"

lemma yielding_member:
  assumes k: "kernel_ok k" and i: "in_step (ready_queue k) Q" and "yielding k"
    and "m_thread_state (thr k (current_thread k)) = ThreadState_Runnable"
  shows "current_thread k \<in> set (Q Scheduled (m_priority (thr k (current_thread k))) (m_core_id (thr k (current_thread k))))"
    "IsValidCore (m_core_id (thr k (current_thread k)))" "queued (threads k) (current_thread k)"
proof -
  let ?t = "thr k (current_thread k)"
  show q: "queued (threads k) (current_thread k)"
    using assms(3,4) by (simp add: yielding_def queued_def)
  have h: "homed (m_core_id ?t) (m_physical_affinity_mask ?t)" and p: "IsValidPriority (m_priority ?t)"
    using kernel_ok_threads [OF k, of "current_thread k"] assms(3,4) by (simp_all add: thread_ok_def yielding_def)
  then show "IsValidCore (m_core_id ?t)"
    using assms(3,4) by (simp add: yielding_def homed_def allowed_def)
  have "listed (m_priority ?t)" "0 \<le> m_core_id ?t"
    using p assms(3,4) by (simp_all add: yielding_def listed_def IsValidPriority_def)
  then have "(Scheduled, m_priority ?t, m_core_id ?t) \<in> home (threads k) (current_thread k)"
    using q h unfolding home_def by (simp add: seats_homed homed_def)
  then show "current_thread k \<in> set (Q Scheduled (m_priority ?t) (m_core_id ?t))"
    using i by (simp add: in_step_def sits_def)
qed

lemma Lock_frame:
  "current_thread (Lock k) = current_thread k" "threads (Lock k) = threads k" "yielding (Lock k) = yielding k"
  by (simp_all add: Lock_def Let_def yielding_def)

lemma YieldWithoutCoreMigration_ok:
  assumes "kernel_ok k" "yielding k"
  shows "\<exists>k'. YieldWithoutCoreMigration k = Some k' \<and> kernel_ok k'"
proof -
  let ?k = "Lock k" and ?t = "current_thread k"
  have k: "kernel_ok ?k"
    by (rule marks_ok(7) [OF assms(1)])
  then obtain Q where i: "in_step (ready_queue ?k) Q"
    by (auto simp: kernel_ok_def)
  show ?thesis
  proof (cases "m_thread_state (thr k ?t) = ThreadState_Runnable")
    case True
    obtain n s' where m: "MoveToScheduledBack ?t (ready_queue ?k) = Some (Some n, s')"
      and k': "kernel_ok (with_ready_queue s' ?k)"
      using rotate_front_ok [OF k i yielding_member(1) [OF k i, unfolded Lock_frame, OF assms(2) True]] by auto
    let ?k' = "IncrementScheduledCount ?t (with_ready_queue s' ?k)"
    have "kernel_ok (if Some n \<noteq> Some ?t then SetSchedulerUpdateNeeded ?k' else SetYieldScheduleCount ?k')"
      using marks_ok(4,5) [OF marks_ok(6) [OF k']] by simp
    then show ?thesis
      using Unlock_ok m True assms(1) by (auto simp: YieldWithoutCoreMigration_def Let_def Lock_frame)
  next
    case False
    then show ?thesis
      using Unlock_ok [OF k] assms(1) by (auto simp: YieldWithoutCoreMigration_def Let_def Lock_frame)
  qed
qed

lemma YieldWithCoreMigration_ok:
  assumes "kernel_ok k" "yielding k"
  shows "\<exists>k'. YieldWithCoreMigration k = Some k' \<and> kernel_ok k'"
proof -
  let ?k = "Lock k" and ?t = "current_thread k"
  have k: "kernel_ok ?k"
    by (rule marks_ok(7) [OF assms(1)])
  then obtain Q where i: "in_step (ready_queue ?k) Q"
    by (auto simp: kernel_ok_def)
  show ?thesis
  proof (cases "m_thread_state (thr k ?t) = ThreadState_Runnable")
    case True
    note cur = yielding_member [OF k i, unfolded Lock_frame, OF assms(2) True]
    obtain n s' where m: "MoveToScheduledBack ?t (ready_queue ?k) = Some (Some n, s')"
      and k': "kernel_ok (with_ready_queue s' ?k)"
      using rotate_front_ok [OF k i cur(1)] by auto
    let ?k' = "IncrementScheduledCount ?t (with_ready_queue s' ?k)" and ?c = "m_core_id (thr k ?t)"
    have ok: "kernel_ok ?k'"
      by (rule marks_ok(6) [OF k'])
    then obtain Q' where i': "in_step (ready_queue ?k') Q'"
      by (auto simp: kernel_ok_def)
    have front: "GetSuggestedFront ?c (m_priority_queue ?k') = Some (head_ptr (in_order Suggested ?c Q'))"
      using public_fronts(2) [of "ready_queue ?k'" Q' ?c] i' cur(2) by (simp add: in_step_def)
    obtain sg re k2 where y: "yield_suggested ?c ?t (Some n) False (head_ptr (in_order Suggested ?c Q')) ?k' = Some (sg, re, k2)"
      and k2: "kernel_ok k2"
      using yield_suggested_ok [OF ok i', of "Some n" ?c "[]"] by force
    have "kernel_ok (if sg \<noteq> None \<or> Some n \<noteq> Some ?t then SetSchedulerUpdateNeeded k2
        else if \<not> re then SetYieldScheduleCount k2 else k2)"
      using marks_ok(4,5) [OF k2] k2 by simp
    then show ?thesis
      using Unlock_ok m front y True assms(1) by (auto simp: YieldWithCoreMigration_def Let_def Lock_frame)
  next
    case False
    then show ?thesis
      using Unlock_ok [OF k] assms(1) by (auto simp: YieldWithCoreMigration_def Let_def Lock_frame)
  qed
qed

lemma YieldToAnyThread_ok:
  assumes "kernel_ok k" "yielding k"
  shows "\<exists>k'. YieldToAnyThread k = Some k' \<and> kernel_ok k'"
proof -
  let ?k = "Lock k" and ?t = "current_thread k"
  have k: "kernel_ok ?k"
    by (rule marks_ok(7) [OF assms(1)])
  then obtain Q where i: "in_step (ready_queue ?k) Q"
    by (auto simp: kernel_ok_def)
  show ?thesis
  proof (cases "m_thread_state (thr k ?t) = ThreadState_Runnable")
    case True
    note cur = yielding_member [OF k i, unfolded Lock_frame, OF assms(2) True]
    have "homed (- 1) (m_physical_affinity_mask (thr ?k ?t))"
      using kernel_ok_threads [OF k, of ?t] cur(3) by (simp add: thread_ok_def homed_def queued_def Lock_frame)
    then obtain k1 where m: "migrate (- 1) (m_core_id (thr k ?t)) ?t False ?k = Some k1" and k1: "kernel_ok k1"
      using migrate_ok [OF k, of ?t "- 1" False] cur(3) by (auto simp: Lock_frame)
    let ?k' = "IncrementScheduledCount ?t k1" and ?c = "m_core_id (thr k ?t)"
    have ok: "kernel_ok ?k'"
      by (rule marks_ok(6) [OF k1])
    then obtain Q' where i': "in_step (ready_queue ?k') Q'"
      by (auto simp: kernel_ok_def)
    then have r': "ready_rep (ready_queue ?k') Q'"
      by (simp add: in_step_def)
    note fronts = public_fronts(1,2) [OF r' cur(2), simplified]
    obtain sg k2 where y: "yield_any_suggested ?c (head_ptr (in_order Suggested ?c Q')) ?k' = Some (sg, k2)"
      and k2: "kernel_ok k2"
      using yield_any_suggested_ok [OF ok i', of ?c "[]"] by auto
    have "kernel_ok (if sg \<noteq> Some ?t then SetSchedulerUpdateNeeded k2 else SetYieldScheduleCount k2)"
      "kernel_ok (SetSchedulerUpdateNeeded ?k')"
      using marks_ok(4,5) [OF k2] marks_ok(4) [OF ok] by simp_all
    then show ?thesis
      using Unlock_ok m fronts y True assms(1)
      by (cases "in_order Scheduled ?c Q'") (auto simp: YieldToAnyThread_def Let_def Lock_frame)
  next
    case False
    then show ?thesis
      using Unlock_ok [OF k] assms(1) by (auto simp: YieldToAnyThread_def Let_def Lock_frame)
  qed
qed

end
