(* ===== verification/Scheduler_Properties.thy ===== *)
theory Scheduler_Properties
  imports Scheduler_Entry
begin

text \<open>
  The scheduler as a state machine: from a kernel with nothing queued, by the entry points in any
  order. The properties say that the ready queue is always in step with the threads and no step
  faults or runs forever, that the front of a core's queue is its most important thread, that the
  schedulers of the cores are given these fronts, and how a list is rotated.
\<close>

section \<open>The state machine\<close>

definition fresh :: "kernel \<Rightarrow> bool" where
  "fresh k \<longleftrightarrow>
     m_priority_queue k = new_KPriorityQueue \<and> arrays_ok k \<and>
     (\<forall>t. m_per_core_priority_queue_entry (thr k t) = replicate NUM_CPU_CORES null_entry \<and>
          thread_ok (thr k t) \<and> m_thread_state (thr k t) \<noteq> ThreadState_Runnable)"

inductive sched_step :: "kernel \<Rightarrow> kernel option \<Rightarrow> bool" where
  state: "sched_step k (SetState t st k)"
| priority: "IsValidPriority p \<Longrightarrow> sched_step k (UpdatePriority t p k)"
| affinity: "allowed w \<Longrightarrow> w \<noteq> 0 \<Longrightarrow> 0 \<le> ideal \<longrightarrow> ideal \<in> core_bits w \<Longrightarrow> sched_step k (UpdateAffinity t ideal w k)"
| rotate: "IsValidCore c \<Longrightarrow> listed p \<Longrightarrow> sched_step k (RotateScheduledQueue c p k)"
| preempt: "sched_step k (PreemptThreads k)"
| yield: "yielding k \<Longrightarrow> sched_step k (YieldWithoutCoreMigration k)"
| yield_migrate: "yielding k \<Longrightarrow> sched_step k (YieldWithCoreMigration k)"
| yield_any: "yielding k \<Longrightarrow> sched_step k (YieldToAnyThread k)"
| lock: "sched_step k (Some (Lock k))"
| unlock: "sched_step k (Unlock k)"
| switch: "sched_step k (Some (k\<lparr>current_thread := t, current_process := p, clock_ticks := n\<rparr>))"

inductive_cases sched_stepE: "sched_step k r"

inductive sched_reachable :: "kernel \<Rightarrow> bool" where
  start: "fresh k \<Longrightarrow> sched_reachable k"
| step: "sched_reachable k \<Longrightarrow> sched_step k (Some k') \<Longrightarrow> sched_reachable k'"

lemma new_ready_rep:
  assumes "\<And>t. m_per_core_priority_queue_entry (h t) = replicate NUM_CPU_CORES null_entry"
  shows "ready_rep (h, new_KPriorityQueue) (\<lambda>_ _ _. [])"
proof -
  have impl: "queue_of sd new_KPriorityQueue = new_KPriorityQueueImpl" for sd
    by (cases sd) (simp_all add: new_KPriorityQueue_def)
  have root: "m_root new_KPerCoreQueue = replicate NUM_CPU_CORES null_entry"
    by (simp add: new_KPerCoreQueue_def QueueEntry_Initialize_def null_entry_def)
  have "core_list c (h, new_KPerCoreQueue) []" if "IsValidCore c" for c
    using that by (simp add: core_list_def ring_def nx_def pv_def node_def root null_entry_def)
  then show ?thesis
    using assms
    by (simp add: ready_rep_def links_def available_def impl new_KPriorityQueueImpl_def root exclusive_def)
qed

lemma fresh_ok:
  assumes "fresh k"
  shows "kernel_ok k"
proof -
  have "ready_rep (ready_queue k) (\<lambda>_ _ _. [])"
    using assms new_ready_rep [of "threads k"] by (simp add: fresh_def ready_queue_def)
  then have "in_step (ready_queue k) (\<lambda>_ _ _. [])"
    using assms by (simp add: in_step_def sits_def home_def queued_def fresh_def)
  then show ?thesis
    using assms by (auto simp: kernel_ok_def fresh_def)
qed

lemma sched_step_ok:
  assumes "sched_step k r" "kernel_ok k"
  shows "\<exists>k'. r = Some k' \<and> kernel_ok k'"
  using assms(1)
proof cases
  case switch
  then show ?thesis
    using kernel_ok_cong [OF assms(2)] by simp
qed (use assms(2) SetState_ok UpdatePriority_ok UpdateAffinity_ok RotateScheduledQueue_ok PreemptThreads_ok
  YieldWithoutCoreMigration_ok YieldWithCoreMigration_ok YieldToAnyThread_ok marks_ok(7) Unlock_ok in auto)

lemma sched_reachable_ok: "sched_reachable k \<Longrightarrow> kernel_ok k"
  by (induction rule: sched_reachable.induct) (use fresh_ok sched_step_ok in fastforce)+

section \<open>Fronts\<close>

lemma front_least:
  assumes i: "in_step s Q" and ok: "\<And>t. thread_ok (fst s t)"
    and t: "head_ptr (in_order sd c Q) = Some t" and u: "u \<in> set (Q sd p c)"
  shows "m_priority (fst s t) \<le> p"
proof -
  have r: "ready_rep s Q"
    using i by (simp add: in_step_def)
  have p: "listed p"
    by (rule in_step_member(3) [OF i u ok])
  let ?A = "concat (map (\<lambda>p. Q sd (int p) c) [0..<nat p]) @ Q sd p c"
  have "in_order sd c Q = ?A @ from_priority sd c (nat p + 1) Q" "?A \<noteq> []"
    using in_order_split [OF p, of sd c Q] u by auto
  then have "t \<in> set ?A"
    using t head_ptr_append head_ptr_in by metis
  then obtain p' where "t \<in> set (Q sd p' c)" "p' \<le> p"
    using listed_index [OF p] by auto
  then show ?thesis
    using in_step_member(2) [OF i _ ok] by blast
qed

lemma active_member:
  assumes i: "in_step s Q" and ok: "\<And>t. thread_ok (fst s t)" and "IsValidCore c"
  shows "t \<in> set (in_order Scheduled c Q) \<longleftrightarrow>
    queued (fst s) t \<and> m_core_id (fst s t) = c \<and> m_priority (fst s t) \<le> LowestPriority"
proof -
  have r: "ready_rep s Q" and st: "sits t (home (fst s) t) Q"
    using i by (simp_all add: in_step_def)
  have "(\<exists>p. (Scheduled, p, c) \<in> home (fst s) t) \<longleftrightarrow>
      queued (fst s) t \<and> m_core_id (fst s t) = c \<and> m_priority (fst s t) \<le> LowestPriority"
  proof (cases "queued (fst s) t")
    case True
    then have h: "homed_in (fst s) t" and "IsValidPriority (m_priority (fst s t))"
      using ok [of t] by (simp_all add: thread_ok_def queued_def)
    then have "listed (m_priority (fst s t)) \<longleftrightarrow> m_priority (fst s t) \<le> LowestPriority"
      by (auto simp: listed_def IsValidPriority_def)
    then show ?thesis
      using True h assms(3) unfolding home_def by (auto simp: seats_homed homed_def split: if_splits)
  qed (simp add: home_def)
  then show ?thesis
    using st in_order_member [OF r, of t Scheduled c] by (simp add: sits_def)
qed

section \<open>An example\<close>

definition demo_thread :: KThread where
  "demo_thread = \<lparr>m_per_core_priority_queue_entry = replicate NUM_CPU_CORES null_entry,
     m_physical_affinity_mask = 0xF, m_core_id = 0, m_priority = 44, m_thread_type = ThreadType_User,
     m_thread_state = 0, m_schedule_count = 0, m_last_scheduled_tick = 0, m_num_kernel_waiters = 0,
     m_parent = Some 0, m_dummy_thread_runnable = True\<rparr>"

definition demo_process :: KProcess where
  "demo_process = \<lparr>p_schedule_count = 1, m_pinned_threads = [None, None, None, None],
     m_running_threads = [None, None, None, None], m_running_thread_idle_counts = [0, 0, 0, 0],
     m_running_thread_switch_counts = [0, 0, 0, 0]\<rparr>"

definition demo_scheduler :: "nat \<Rightarrow> KScheduler" where
  "demo_scheduler i = \<lparr>s_core_id = i, needs_scheduling = True, interrupt_task_runnable = False,
     should_count_idle = False, idle_count = 0, highest_priority_thread = None, prev_thread = None\<rparr>"

definition demo_kernel :: kernel where
  "demo_kernel = \<lparr>threads = (\<lambda>_. demo_thread), processes = (\<lambda>_. demo_process), m_priority_queue = new_KPriorityQueue,
     m_scheduler_update_needed = True, m_woken_dummy_threads = [], m_thread_list = [],
     schedulers = map demo_scheduler [0..<4], current_thread = 0, current_process = 0, clock_ticks = 0,
     m_lock_count = 0, m_owner_thread = None, rescheduled = []\<rparr>"

lemma demo_homed: "homed 0 (0xF :: u64)"
proof -
  have "bit (0xF :: u64) (nat c) \<longleftrightarrow> nat c < 4" for c
    using bit_mask_iff [of 4 "nat c", where 'a = u64] by (auto simp: mask_eq_exp_minus_1)
  then show ?thesis
    unfolding homed_def allowed_def core_bits_def IsValidCore_def NUM_CPU_CORES_def by auto
qed

lemma demo_fresh: "fresh demo_kernel"
  using demo_homed
  by (auto simp: fresh_def demo_kernel_def demo_thread_def demo_process_def demo_scheduler_def arrays_ok_def
      NUM_CPU_CORES_def thread_ok_def IsDummyThread_def IsValidPriority_def HighestPriority_def LowestPriority_def
      ThreadState_Runnable_def)

text \<open>The same kernel's queue with thread 7 made runnable and pushed.\<close>

definition demo_busy_heap :: heap where
  "demo_busy_heap = (\<lambda>_. demo_thread)(7 := demo_thread\<lparr>m_thread_state := ThreadState_Runnable\<rparr>)"

definition demo_busy :: "heap \<times> KPriorityQueue" where
  "demo_busy = the (KPriorityQueue_PushBack 7 (demo_busy_heap, new_KPriorityQueue))"

lemma demo_busy_facts:
  obtains Q where "in_step demo_busy Q" "\<And>t. thread_ok (fst demo_busy t)" "Q Scheduled 44 0 = [7]"
proof -
  have ok: "thread_ok (demo_busy_heap t)" for t
    using demo_homed by (simp add: demo_busy_heap_def demo_thread_def thread_ok_def IsDummyThread_def
        IsValidPriority_def HighestPriority_def LowestPriority_def)
  have seven: "m_core_id (demo_busy_heap 7) = 0" "m_physical_affinity_mask (demo_busy_heap 7) = 0xF"
    "m_priority (demo_busy_heap 7) = 44" "\<not> IsDummyThread (demo_busy_heap 7)" "queued demo_busy_heap 7"
    by (simp_all add: demo_busy_heap_def demo_thread_def queued_def IsDummyThread_def)
  have r: "ready_rep (demo_busy_heap, new_KPriorityQueue) (\<lambda>_ _ _. [])"
    by (rule new_ready_rep) (simp add: demo_busy_heap_def demo_thread_def)
  have "sits u (home demo_busy_heap u) (\<lambda>_ _ _. [])" if "u \<noteq> 7" for u
    using that by (simp add: sits_def home_def queued_def demo_busy_heap_def demo_thread_def ThreadState_Runnable_def)
  then have bf: "but_for 7 {} (demo_busy_heap, new_KPriorityQueue) (\<lambda>_ _ _. [])"
    using r by (simp add: but_for_def sits_def)
  let ?Q = "edits (seats 44 0 0xF) (\<lambda>ts. ts @ [7]) (\<lambda>_ _ _. [])"
  have p: "IsValidPriority 44"
    by (simp add: IsValidPriority_def HighestPriority_def LowestPriority_def)
  obtain s' where s': "KPriorityQueue_PushBack_at 44 7 (demo_busy_heap, new_KPriorityQueue) = Some s'"
    and rel: "relocated 7 (seats 44 0 0xF) (demo_busy_heap, new_KPriorityQueue) (\<lambda>_ _ _. []) s' ?Q"
    using PushBack_at_relocates [OF r p, of 7] homed_placed [OF demo_homed] seven by (auto simp: sits_def)
  then have busy: "demo_busy = s'"
    using seven by (simp add: demo_busy_def KPriorityQueue_PushBack_def)
  have "home demo_busy_heap 7 = seats 44 0 0xF"
    using seven by (simp add: home_def)
  then have "in_step demo_busy ?Q"
    using relocated_in_step [OF bf, of s' ?Q] rel busy by simp
  moreover have "thread_ok (fst demo_busy t)" for t
    using thread_ok_same_threads [of demo_busy_heap "fst s'"] rel ok busy by (simp add: relocated_def)
  moreover have "?Q Scheduled 44 0 = [7]"
    by (simp add: edits_def seats_def places_def listed_def HighestPriority_def LowestPriority_def)
  ultimately show ?thesis
    using that by blast
qed

section \<open>Properties\<close>

text \<open>
  The choice for a core: a runnable thread active on it that no other one there precedes in priority,
  or null, if all that are runnable and active there are idle threads, below the queue's lowest priority.
\<close>

definition best_on :: "heap \<Rightarrow> int \<Rightarrow> thread_ptr option \<Rightarrow> bool" where
  "best_on h c front \<longleftrightarrow>
     (case front of
        None \<Rightarrow> \<forall>u. queued h u \<and> m_core_id (h u) = c \<longrightarrow> LowestPriority < m_priority (h u)
      | Some t \<Rightarrow> queued h t \<and> m_core_id (h t) = c \<and>
          (\<forall>u. queued h u \<and> m_core_id (h u) = c \<longrightarrow> m_priority (h t) \<le> m_priority (h u)))"

lemma front_best:
  assumes i: "in_step s Q" and ok: "\<And>t. thread_ok (fst s t)" and c: "IsValidCore c"
  shows "best_on (fst s) c (head_ptr (in_order Scheduled c Q))"
proof (cases "head_ptr (in_order Scheduled c Q)")
  case None
  then have "\<not> (queued (fst s) u \<and> m_core_id (fst s u) = c \<and> m_priority (fst s u) \<le> LowestPriority)" for u
    using active_member [OF i ok c, of u] by simp
  then show ?thesis
    using None by (auto simp: best_on_def not_le)
next
  case (Some t)
  have t: "queued (fst s) t" "m_core_id (fst s t) = c" "m_priority (fst s t) \<le> LowestPriority"
    using active_member [OF i ok c, of t] head_ptr_in [OF Some] by simp_all
  have "m_priority (fst s t) \<le> m_priority (fst s u)" if u: "queued (fst s) u" "m_core_id (fst s u) = c" for u
  proof (cases "m_priority (fst s u) \<le> LowestPriority")
    case True
    then obtain p where "u \<in> set (Q Scheduled p c)"
      using active_member [OF i ok c, of u] u in_order_member [of s Q u Scheduled c] i by (auto simp: in_step_def)
    then show ?thesis
      using front_least [OF i ok Some] in_step_member(2) [OF i _ ok] by blast
  qed (use t(3) in simp)
  then show ?thesis
    using Some t by (simp add: best_on_def)
qed

text \<open>
  C5. in every state the scheduler can reach, the intrusive lists of the ready queue hold exactly the
  seats of the runnable threads, and whatever entry point runs next, it returns: no loop over the
  links runs forever and no array is accessed out of its range. The entry points are those of
  \<open>sched_step\<close>; the thread that yields, if runnable, is on a core and not a dummy thread. The other callers of the state and affinity events in \<^verbatim>\<open>KThread\<close> (\<^verbatim>\<open>UpdateState\<close>,
  \<^verbatim>\<open>Continue\<close>, \<^verbatim>\<open>Pin\<close>, \<^verbatim>\<open>Unpin\<close>) are not among them.
\<close>

theorem scheduler_in_step:
  assumes "sched_reachable k"
  shows "(\<exists>Q. ready_rep (ready_queue k) Q \<and>
      (\<forall>t sd p c. t \<in> set (Q sd p c) \<longleftrightarrow>
        queued (threads k) t \<and> (sd, p, c) \<in> seats_of (threads k) (m_priority (thr k t)) t))
    \<and> (\<forall>r. sched_step k r \<longrightarrow> r \<noteq> None)"
proof -
  have k: "kernel_ok k"
    by (rule sched_reachable_ok [OF assms])
  then obtain Q where "in_step (ready_queue k) Q"
    by (auto simp: kernel_ok_def)
  then have "ready_rep (ready_queue k) Q \<and> (\<forall>t sd p c. t \<in> set (Q sd p c) \<longleftrightarrow>
        queued (threads k) t \<and> (sd, p, c) \<in> seats_of (threads k) (m_priority (thr k t)) t)"
    by (auto simp: in_step_def sits_def home_def)
  then show ?thesis
    using sched_step_ok [OF _ k] by blast
qed

theorem scheduler_in_step_witness:
  "sched_reachable demo_kernel \<and> SetState 7 ThreadState_Runnable demo_kernel \<noteq> None"
  using scheduler_in_step [OF start [OF demo_fresh]] start [OF demo_fresh] sched_step.state by blast

text \<open>
  The thread \<^verbatim>\<open>GetScheduledFront\<close> returns for a core is runnable and active on that core and no
  runnable thread active there has a smaller priority number; it returns null only if every
  runnable thread active there is an idle thread, below the lowest priority of the queue.
\<close>

theorem GetScheduledFront_most_important:
  assumes "kernel_ok k" "IsValidCore c"
  shows "\<exists>front. GetScheduledFront c (m_priority_queue k) = Some front \<and> best_on (threads k) c front"
proof -
  obtain Q where i: "in_step (ready_queue k) Q"
    using assms(1) by (auto simp: kernel_ok_def)
  then have "GetScheduledFront c (m_priority_queue k) = Some (head_ptr (in_order Scheduled c Q))"
    using public_fronts(1) [of "ready_queue k" Q c] assms(2) by (simp add: in_step_def)
  then show ?thesis
    using front_best [OF i _ assms(2)] kernel_ok_threads [OF assms(1)] by auto
qed

theorem GetScheduledFront_most_important_witness:
  "GetScheduledFront 0 (m_priority_queue demo_kernel) = Some None"
proof -
  have "IsValidCore 0"
    by (simp add: IsValidCore_def NUM_CPU_CORES_def)
  from GetScheduledFront_most_important [OF fresh_ok [OF demo_fresh] this]
  obtain front where "GetScheduledFront 0 (m_priority_queue demo_kernel) = Some front"
    "\<forall>t. front = Some t \<longrightarrow> queued (threads demo_kernel) t"
    by (auto simp: best_on_def split: option.splits)
  moreover have "\<not> queued (threads demo_kernel) t" for t
    using demo_fresh by (simp add: fresh_def queued_def)
  ultimately show ?thesis
    by (cases front) auto
qed

text \<open>
  C7. \<^verbatim>\<open>UpdateHighestPriorityThreadsImpl\<close> always returns, and, when no process has a pinned thread, it leaves
  every core's scheduler with a runnable thread active on that core that no other one there
  precedes in priority, or with none if there is none; that includes the cores it moved threads to.
\<close>

theorem UpdateHighestPriorityThreads_selects:
  assumes "kernel_ok k" "unpinned k"
  shows "\<exists>cores_mask k'. UpdateHighestPriorityThreadsImpl k = Some (cores_mask, k') \<and>
    (\<forall>c. IsValidCore c \<longrightarrow> best_on (threads k') c (highest_priority_thread (schedulers k' ! nat c)))"
proof -
  obtain w k' where u: "UpdateHighestPriorityThreadsImpl k = Some (w, k')" and k': "kernel_ok k'" and f: "runs_fronts k'"
    using UpdateHighestPriorityThreadsImpl_ok [OF assms(1)] assms(2) by blast
  obtain Q where i: "in_step (ready_queue k') Q"
    using k' by (auto simp: kernel_ok_def)
  have "highest_priority_thread (schedulers k' ! nat c) = head_ptr (in_order Scheduled c Q)" if "IsValidCore c" for c
    using public_fronts(1) [of "ready_queue k'" Q c] i that f by (simp add: in_step_def runs_fronts_def)
  then show ?thesis
    using u front_best [OF i] kernel_ok_threads [OF k'] by auto
qed

theorem UpdateHighestPriorityThreads_selects_witness:
  "\<exists>cores_mask k'. UpdateHighestPriorityThreadsImpl demo_kernel = Some (cores_mask, k')"
proof -
  have "unpinned demo_kernel"
    unfolding unpinned_def IsValidCore_def NUM_CPU_CORES_def
    by (auto simp: demo_kernel_def demo_process_def nth_Cons split: nat.splits)
  from UpdateHighestPriorityThreads_selects [OF fresh_ok [OF demo_fresh] this] show ?thesis
    by blast
qed

text \<open>The front thread of a list moved to the back, \<open>n\<close> times, as a periodic rotation does.\<close>

fun spin :: "nat \<Rightarrow> int \<Rightarrow> int \<Rightarrow> heap \<times> KPriorityQueue \<Rightarrow> (heap \<times> KPriorityQueue) option" where
  "spin 0 c p s = Some s"
| "spin (Suc n) c p s =
     do {
       front \<leftarrow> GetScheduledFront_at c p (snd s);
       case front of
         None \<Rightarrow> Some s
       | Some t \<Rightarrow> do { (_, s) \<leftarrow> MoveToScheduledBack t s; spin n c p s }
     }"

lemma spin_ok:
  assumes "in_step s Q" "\<And>t. thread_ok (fst s t)" "Q Scheduled p c \<noteq> []"
  shows "\<exists>s' Q'. spin n c p s = Some s' \<and> in_step s' Q' \<and> Q' Scheduled p c = rotate n (Q Scheduled p c)"
  using assms
proof (induction n arbitrary: s Q)
  case (Suc n)
  obtain t ts where Q: "Q Scheduled p c = t # ts"
    using Suc.prems(3) by (cases "Q Scheduled p c") auto
  then have t: "t \<in> set (Q Scheduled p c)"
    by simp
  note facts = in_step_member [OF Suc.prems(1) t Suc.prems(2)]
  have r: "ready_rep s Q"
    using Suc.prems(1) by (simp add: in_step_def)
  have th: "m_core_id (fst s t) = c" "m_priority (fst s t) = p" "\<not> IsDummyThread (fst s t)"
    using facts(1,2,6) by (auto simp: queued_def split: if_splits)
  let ?Q = "edits {(Scheduled, p, c)} (\<lambda>ts. removeAll t ts @ [t]) Q"
  obtain s' where m: "\<exists>f. MoveToScheduledBack t s = Some (f, s')" and r': "ready_rep s' ?Q"
    and same: "same_threads (fst s) (fst s')"
    using MoveToScheduledBack_rep [OF r, of t] facts(3,4) th t by auto
  have "relocated t (home (fst s) t) s Q s' ?Q"
    using r' same Suc.prems(1) t unfolding relocated_def sits_def edits_def in_step_def by auto
  then have i': "in_step s' ?Q"
    by (rule relocated_in_step [OF in_step_but_for [OF Suc.prems(1)]])
  have "distinct (t # ts)"
    using links_distinct [of "fst s" "snd s" Q Scheduled p c] r Q by (simp add: ready_rep_def)
  then have list: "?Q Scheduled p c = rotate1 (Q Scheduled p c)"
    by (simp add: edits_def Q)
  have "thread_ok (fst s' u)" for u
    using thread_ok_same_threads [OF same] Suc.prems(2) by simp
  from Suc.IH [OF i' this] obtain s'' Q'' where
    sp: "spin n c p s' = Some s''" and "in_step s'' Q''" "Q'' Scheduled p c = rotate n (rotate1 (Q Scheduled p c))"
    unfolding list using Suc.prems(3) by auto
  moreover have "spin (Suc n) c p s = Some s''"
    using m sp public_fronts(3) [OF r facts(4,3)] Q by auto
  ultimately show ?case
    by (metis rotate1_rotate_swap rotate_Suc)
qed auto

text \<open>
  C32. the rotation is fair. Moving the front thread of a priority's list to the back \<open>n\<close> times always
  succeeds, and the front is then the thread that was at position \<open>n\<close>, counted around the
  list: within as many rotations as there are threads, every one of them has been in front.
\<close>

theorem rotation_is_fair:
  assumes "in_step s Q" "\<And>t. thread_ok (fst s t)" "Q Scheduled p c \<noteq> []"
  shows "\<exists>s'. spin n c p s = Some s' \<and>
    GetScheduledFront_at c p (snd s') = Some (Some (Q Scheduled p c ! (n mod length (Q Scheduled p c))))"
proof -
  obtain s' Q' where s: "spin n c p s = Some s'" and i: "in_step s' Q'"
    and rot: "Q' Scheduled p c = rotate n (Q Scheduled p c)"
    using spin_ok [OF assms] by blast
  have "hd (Q Scheduled p c) \<in> set (Q Scheduled p c)"
    using assms(3) by simp
  note facts = in_step_member(3,4) [OF assms(1) this assms(2)]
  have "head_ptr (rotate n (Q Scheduled p c)) = Some (Q Scheduled p c ! (n mod length (Q Scheduled p c)))"
    using assms(3) hd_rotate_conv_nth [of "Q Scheduled p c" n] by (cases "rotate n (Q Scheduled p c)") auto
  then show ?thesis
    using s public_fronts(3) [of s' Q' c p] i facts rot by (simp add: in_step_def)
qed

theorem rotation_is_fair_witness: "\<exists>s'. spin 3 0 44 demo_busy = Some s' \<and> GetScheduledFront_at 0 44 (snd s') = Some (Some 7)"
proof -
  obtain Q where "in_step demo_busy Q" "\<And>t. thread_ok (fst demo_busy t)" "Q Scheduled 44 0 = [7]"
    using demo_busy_facts by blast
  then show ?thesis
    using rotation_is_fair [of demo_busy Q 44 0 3] by simp
qed

end
