(* ===== verification/RandomBits.thy ===== *)
theory RandomBits
  imports Prelude
begin

text \<open>
  The random numbers of the kernel's allocators: \<^verbatim>\<open>TinyMT\<close> (\<^verbatim>\<open>common/tiny_mt.h\<close>) and
  \<^verbatim>\<open>KPageBitmap::RandomBitGenerator\<close> (\<^verbatim>\<open>core/hle/kernel/k_page_bitmap.h\<close>). The seed comes from the
  random device of the host and is an argument. The generator of floating point numbers and the
  filling of byte buffers are left out.
\<close>

section \<open>TinyMT\<close>

definition NumStateWords :: nat where "NumStateWords = 4"
definition ParamMat1 :: u32 where "ParamMat1 = 0x8F7011EE"
definition ParamMat2 :: u32 where "ParamMat2 = 0xFC78FF1F"
definition ParamTmat :: u32 where "ParamTmat = 0x3793FDFF"
definition ParamMult :: u32 where "ParamMult = 0x6C078965"
definition ParamPlus :: u32 where "ParamPlus = 0x0019660D"
definition ParamXor :: u32 where "ParamXor = 0x5D588B65"
definition TopBitmask :: u32 where "TopBitmask = 0x7FFFFFFF"
definition MinimumInitIterations :: nat where "MinimumInitIterations = 8"
definition NumDiscardedInitOutputs :: nat where "NumDiscardedInitOutputs = 8"

lemmas tinymt_params = ParamMat1_def ParamMat2_def ParamTmat_def ParamMult_def ParamPlus_def ParamXor_def
  TopBitmask_def

type_synonym TinyMT = "u32 list"

definition XorByShifted27 :: "u32 \<Rightarrow> u32" where
  "XorByShifted27 value = value XOR drop_bit 27 value"

definition XorByShifted30 :: "u32 \<Rightarrow> u32" where
  "XorByShifted30 value = value XOR drop_bit 30 value"

definition GenerateRandomU32 :: "TinyMT \<Rightarrow> u32 \<times> TinyMT" where
  "GenerateRandomU32 s =
     (let x0 = (s ! 0 AND TopBitmask) XOR s ! 1 XOR s ! 2;
          y0 = s ! 3;
          x1 = x0 XOR push_bit 1 x0;
          y1 = y0 XOR drop_bit 1 y0 XOR x1;
          state0 = s ! 1;
          odd1 = (y1 AND 1 \<noteq> 0);
          state1 = (if odd1 then s ! 2 XOR ParamMat1 else s ! 2);
          state2 = (if odd1 then x1 XOR push_bit 10 y1 XOR ParamMat2 else x1 XOR push_bit 10 y1);
          state3 = y1;
          t1 = state0 + drop_bit 8 state2;
          t0 = state3 XOR t1
      in (if t1 AND 1 \<noteq> 0 then t0 XOR ParamTmat else t0, [state0, state1, state2, state3]))"

definition GenerateRandomU24 :: "TinyMT \<Rightarrow> u32 \<times> TinyMT" where
  "GenerateRandomU24 s = (let (r, s1) = GenerateRandomU32 s in (drop_bit 8 r, s1))"

definition FinalizeInitialization :: "TinyMT \<Rightarrow> TinyMT" where
  "FinalizeInitialization s =
     (let s1 = (if s ! 0 AND TopBitmask = 0 \<and> s ! 1 = 0 \<and> s ! 2 = 0 \<and> s ! 3 = 0
                then [0x54, 0x49, 0x4E, 0x59] else s)
      in ((\<lambda>s. snd (GenerateRandomU32 s)) ^^ NumDiscardedInitOutputs) s1)"

definition init_step :: "nat \<Rightarrow> TinyMT \<Rightarrow> TinyMT" where
  "init_step i s =
     (let mixed = XorByShifted30 (s ! ((i - 1) mod NumStateWords));
          k = i mod NumStateWords
      in s[k := s ! k XOR (mixed * ParamMult + of_nat i)])"

definition TinyMT_Initialize :: "u32 \<Rightarrow> TinyMT" where
  "TinyMT_Initialize seed =
     FinalizeInitialization (fold init_step [1..<MinimumInitIterations] [seed, ParamMat1, ParamMat2, ParamTmat])"

definition GenerateInitialValuePlus :: "nat \<Rightarrow> u32 \<Rightarrow> TinyMT \<Rightarrow> TinyMT" where
  "GenerateInitialValuePlus index value s =
     (let i0 = (index + 0) mod NumStateWords; i1 = (index + 1) mod NumStateWords;
          i2 = (index + 2) mod NumStateWords; i3 = (index + 3) mod NumStateWords;
          x = XorByShifted27 (s ! i0 XOR s ! i1 XOR s ! i3) * ParamPlus;
          y = x + of_nat index + value
      in s[i0 := y, i1 := s ! i1 + x, i2 := s ! i2 + y])"

definition GenerateInitialValueXor :: "nat \<Rightarrow> TinyMT \<Rightarrow> TinyMT" where
  "GenerateInitialValueXor index s =
     (let i0 = (index + 0) mod NumStateWords; i1 = (index + 1) mod NumStateWords;
          i2 = (index + 2) mod NumStateWords; i3 = (index + 3) mod NumStateWords;
          x = XorByShifted27 (s ! i0 + s ! i1 + s ! i3) * ParamXor;
          y = x - of_nat index
      in s[i0 := y, i1 := s ! i1 XOR x, i2 := s ! i2 XOR y])"

definition TinyMT_Initialize_seeds :: "u32 list \<Rightarrow> TinyMT" where
  "TinyMT_Initialize_seeds seed =
     (let seed_count = length seed;
          num_init_iterations = max (seed_count + 1) MinimumInitIterations - 1;
          s0 = GenerateInitialValuePlus 0 (of_nat seed_count) [0, ParamMat1, ParamMat2, ParamTmat];
          s1 = fold (\<lambda>i. GenerateInitialValuePlus ((i + 1) mod NumStateWords) (if i < seed_count then seed ! i else 0))
                 [0..<num_init_iterations] s0;
          s2 = fold (\<lambda>i. GenerateInitialValueXor ((i + 1 + num_init_iterations) mod NumStateWords))
                 [0..<NumStateWords] s1
      in FinalizeInitialization s2)"

section \<open>Random bits\<close>

record RandomBitGenerator =
  m_rng :: TinyMT
  m_entropy :: u32
  m_bits_available :: nat

definition new_RandomBitGenerator :: "u64 \<Rightarrow> RandomBitGenerator" where
  "new_RandomBitGenerator random64 =
     \<lparr>m_rng = TinyMT_Initialize (ucast random64), m_entropy = 0, m_bits_available = 0\<rparr>"

definition RefreshEntropy :: "RandomBitGenerator \<Rightarrow> RandomBitGenerator" where
  "RefreshEntropy g =
     (let (r, s) = GenerateRandomU32 (m_rng g) in \<lparr>m_rng = s, m_entropy = r, m_bits_available = 32\<rparr>)"

definition ensure_entropy :: "RandomBitGenerator \<Rightarrow> RandomBitGenerator" where
  "ensure_entropy g = (if m_bits_available g = 0 then RefreshEntropy g else g)"

definition GenerateRandomBit :: "RandomBitGenerator \<Rightarrow> bool \<times> RandomBitGenerator" where
  "GenerateRandomBit g =
     (let g = ensure_entropy g
      in (m_entropy g AND 1 \<noteq> 0,
          g\<lparr>m_entropy := drop_bit 1 (m_entropy g), m_bits_available := m_bits_available g - 1\<rparr>))"

lemma ensure_entropy_available [simp]: "0 < m_bits_available (ensure_entropy g)"
  by (simp add: ensure_entropy_def RefreshEntropy_def split: prod.splits)

text \<open>
  The loop of \<^verbatim>\<open>GenerateRandomBits\<close>. When all 32 bits are taken at once, C++ leaves the value of
  \<^verbatim>\<open>m_entropy >>= 32\<close> undefined; no bit of it is read, because no bit of it is available.
\<close>

function random_bits_loop :: "nat \<Rightarrow> u64 \<Rightarrow> RandomBitGenerator \<Rightarrow> u64 \<times> RandomBitGenerator" where
  "random_bits_loop num_bits result g =
     (if num_bits = 0 then (result, g)
      else
        (let g = ensure_entropy g;
             cur_bits = min num_bits (m_bits_available g);
             low_bits = push_bit cur_bits 1 - 1
         in random_bits_loop (num_bits - cur_bits)
              (push_bit cur_bits result OR (ucast (m_entropy g) AND low_bits))
              (g\<lparr>m_entropy := drop_bit cur_bits (m_entropy g),
                 m_bits_available := m_bits_available g - cur_bits\<rparr>)))"
  by pat_completeness auto

termination
  by (relation "measure fst") (auto simp: Let_def min_def)

declare random_bits_loop.simps [simp del]

definition GenerateRandomBits :: "nat \<Rightarrow> RandomBitGenerator \<Rightarrow> u64 \<times> RandomBitGenerator" where
  "GenerateRandomBits num_bits g = random_bits_loop num_bits 0 g"

text \<open>\<^verbatim>\<open>std::countl_zero\<close> of a \<^verbatim>\<open>u64\<close>.\<close>

definition countl_zero :: "u64 \<Rightarrow> nat" where
  "countl_zero w = length (takeWhile (\<lambda>i. \<not> bit w i) (rev [0..<64]))"

text \<open>\<^verbatim>\<open>rnd / max\<close> is undefined for a zero \<^verbatim>\<open>max\<close>: every caller passes a positive one.\<close>

definition GenerateRandom :: "u64 \<Rightarrow> RandomBitGenerator \<Rightarrow> u64 \<times> RandomBitGenerator" where
  "GenerateRandom mx g =
     (let bits_needed = 1 + (64 - countl_zero mx);
          (rnd, g) = GenerateRandomBits bits_needed g
      in (rnd - (rnd div mx) * mx, g))"

text \<open>The loop of \<^verbatim>\<open>SelectRandomBit\<close>, over \<^verbatim>\<open>cur_num_bits\<close> = 32, 16, 8, 4, 2, 1.\<close>

fun select_loop :: "nat \<Rightarrow> u64 \<Rightarrow> nat \<Rightarrow> RandomBitGenerator \<Rightarrow> nat \<times> RandomBitGenerator" where
  "select_loop cur_num_bits bitmap selected g =
     (if cur_num_bits = 0 then (selected, g)
      else
        (let high = drop_bit cur_num_bits bitmap;
             low = bitmap AND NOT (push_bit cur_num_bits 0xFFFFFFFFFFFFFFFF);
             (take_high, g) = (if high \<noteq> 0 then if low = 0 then (True, g) else GenerateRandomBit g else (False, g))
         in if take_high then select_loop (cur_num_bits div 2) high (selected + cur_num_bits) g
            else select_loop (cur_num_bits div 2) low (selected + 0) g))"

declare select_loop.simps [simp del]

definition SelectRandomBit :: "u64 \<Rightarrow> RandomBitGenerator \<Rightarrow> nat \<times> RandomBitGenerator" where
  "SelectRandomBit bitmap g = select_loop (64 div 2) bitmap 0 g"


section \<open>What the generators give\<close>

lemma GenerateRandom_less:
  assumes "0 < mx"
  shows "fst (GenerateRandom mx g) < mx"
proof -
  obtain rnd g' where "GenerateRandomBits (1 + (64 - countl_zero mx)) g = (rnd, g')"
    by (meson surj_pair)
  then have "fst (GenerateRandom mx g) = rnd mod mx"
    by (simp add: GenerateRandom_def minus_div_mult_eq_mod)
  moreover have "rnd mod mx < mx"
    using assms by (simp add: word_mod_less_divisor)
  ultimately show ?thesis by simp
qed

text \<open>Halving: the chosen half is not empty, and its bits are bits of the bitmap.\<close>

lemma bit_low_half: "bit (v AND NOT (push_bit n 0xFFFFFFFFFFFFFFFF) :: u64) j \<longleftrightarrow> bit v j \<and> j < n"
proof -
  have "bit (0xFFFFFFFFFFFFFFFF :: u64) i" if "i < 64" for i
  proof -
    have "(0xFFFFFFFFFFFFFFFF :: u64) = Bit_Operations.mask 64"
      by (simp add: mask_eq_exp_minus_1)
    with that show ?thesis by (simp only: bit_mask_iff) simp
  qed
  then show ?thesis
    using bit_imp_le_length [of v j]
    by (auto simp: bit_and_iff bit_not_iff bit_push_bit_iff simp del: push_bit_numeral)
qed

lemma select_loop_selects:
  assumes "v \<noteq> 0" "\<And>j. bit v j \<Longrightarrow> j < max 1 (2 * n)" "n = 0 \<or> (\<exists>k. n = 2 ^ k)"
    and "\<And>j. bit v j \<Longrightarrow> bit w (sel + j)"
  shows "bit w (fst (select_loop n v sel g))"
  using assms
proof (induction n arbitrary: v sel g rule: less_induct)
  case (less n)
  from less.prems(1) obtain j where j: "bit v j" "j < 64"
    by (rule nonzero_word_bit)
  show ?case
  proof (cases "n = 0")
    case True
    with j less.prems(2) [of j] less.prems(4) [of j] show ?thesis
      by (subst select_loop.simps) simp
  next
    case False
    let ?high = "drop_bit n v" and ?low = "v AND NOT (push_bit n 0xFFFFFFFFFFFFFFFF)"
    have half: "n div 2 < n" "n div 2 = 0 \<or> (\<exists>k. n div 2 = 2 ^ k)" "max 1 (2 * (n div 2)) = n"
    proof -
      obtain k where k: "n = 2 ^ k"
        using less.prems(3) False by blast
      show "n div 2 < n" using False by simp
      show "n div 2 = 0 \<or> (\<exists>k. n div 2 = 2 ^ k)" "max 1 (2 * (n div 2)) = n"
        using k by (cases k; auto)+
    qed
    have high: "bit w (fst (select_loop (n div 2) ?high (sel + n) g'))" if "?high \<noteq> 0" for g'
    proof (rule less.IH [OF half(1) that _ half(2)])
      show "j < max 1 (2 * (n div 2))" if "bit ?high j" for j
        using that less.prems(2) [of "n + j"] False half(3) by (simp add: bit_drop_bit_eq)
      show "bit w (sel + n + j)" if "bit ?high j" for j
        using that less.prems(4) [of "n + j"] by (simp add: bit_drop_bit_eq add.assoc)
    qed
    have low: "bit w (fst (select_loop (n div 2) ?low sel g'))" if "?low \<noteq> 0" for g'
    proof (rule less.IH [OF half(1) that _ half(2)])
      show "j < max 1 (2 * (n div 2))" if "bit ?low j" for j
        using that half(3) unfolding bit_low_half by simp
      show "bit w (sel + j)" if "bit ?low j" for j
        using that less.prems(4) [of j] unfolding bit_low_half by simp
    qed
    have "?high \<noteq> 0 \<or> ?low \<noteq> 0"
    proof (cases "j < n")
      case True
      with j have "bit ?low j" unfolding bit_low_half by simp
      then show ?thesis by (metis bit_0_eq bot_apply bot_bool_def)
    next
      case False
      with j have "bit ?high (j - n)" by (simp add: bit_drop_bit_eq)
      then show ?thesis by (metis bit_0_eq bot_apply bot_bool_def)
    qed
    with high low show ?thesis
      using False by (subst select_loop.simps) (auto simp: Let_def split: prod.splits)
  qed
qed

lemma SelectRandomBit_selects:
  assumes "v \<noteq> 0"
  shows "bit v (fst (SelectRandomBit v g))" "fst (SelectRandomBit v g) < 64"
proof -
  have "\<exists>k. (32 :: nat) = 2 ^ k"
    by (rule exI [of _ 5]) simp
  then show *: "bit v (fst (SelectRandomBit v g))"
    unfolding SelectRandomBit_def using assms bit_imp_le_length [of v]
    by (intro select_loop_selects) auto
  show "fst (SelectRandomBit v g) < 64"
    using bit_imp_le_length [OF *] by simp
qed

section \<open>The state of the generator\<close>

text \<open>
  The state is dead when the 127 bits that the recurrence reads are zero: it would then yield zeros
  for ever. The recurrence is invertible, so a live state stays alive.
\<close>

definition live :: "TinyMT \<Rightarrow> bool" where
  "live s \<longleftrightarrow> length s = 4 \<and> \<not> (s ! 0 AND TopBitmask = 0 \<and> s ! 1 = 0 \<and> s ! 2 = 0 \<and> s ! 3 = 0)"

lemma xor_zero_eq: "(x :: u32) XOR y = 0 \<Longrightarrow> x = y"
  by (metis xor.assoc xor.right_neutral xor_self_eq)

lemma xor_push_bit_zero:
  assumes "(x :: u32) XOR push_bit 1 x = 0"
  shows "x = 0"
proof -
  have step: "bit x m \<longleftrightarrow> m < 32 \<and> 1 \<le> m \<and> bit x (m - 1)" for m
    using arg_cong [OF xor_zero_eq [OF assms], of "\<lambda>y. bit y m"] by (simp only: bit_push_bit_iff) auto
  have "\<not> bit x n" for n
    by (induction n) (simp_all only: step [of 0] step [of "Suc _"], simp_all)
  then show ?thesis by (simp add: bit_eq_iff)
qed

lemma xor_drop_bit_zero:
  assumes "(x :: u32) XOR drop_bit 1 x = 0"
  shows "x = 0"
proof -
  have "\<not> bit x (32 - n)" for n
  proof (induction n)
    case 0
    show ?case using bit_imp_le_length [of x 32] by auto
  next
    case (Suc n)
    show ?case
    proof (cases "n < 32")
      case True
      from assms have "\<not> bit (x XOR drop_bit 1 x) (32 - Suc n)" by simp
      moreover from True have "Suc (32 - Suc n) = 32 - n" by simp
      ultimately show ?thesis using Suc by (simp add: bit_xor_iff bit_drop_bit_eq)
    qed (use Suc in simp)
  qed
  then have "\<not> bit x m" if "m \<le> 32" for m
    using that by (metis diff_diff_cancel)
  then have "\<not> bit x m" for m
    using bit_imp_le_length [of x m] by (cases "m \<le> 32") auto
  then show ?thesis by (simp add: bit_eq_iff)
qed


lemma and_TopBitmask_eq: "x AND TopBitmask = y \<Longrightarrow> y AND TopBitmask = 0 \<Longrightarrow> y = (0 :: u32)"
  by (metis and.assoc and.idem)

lemma GenerateRandomU32_live:
  assumes "live s"
  shows "live (snd (GenerateRandomU32 s))"
proof (rule ccontr)
  define x0 where "x0 = (s ! 0 AND TopBitmask) XOR s ! 1 XOR s ! 2"
  define x1 where "x1 = x0 XOR push_bit 1 x0"
  define y1 where "y1 = s ! 3 XOR drop_bit 1 (s ! 3) XOR x1"
  have next_state: "snd (GenerateRandomU32 s) =
      [s ! 1, if y1 AND 1 \<noteq> 0 then s ! 2 XOR ParamMat1 else s ! 2,
       if y1 AND 1 \<noteq> 0 then x1 XOR push_bit 10 y1 XOR ParamMat2 else x1 XOR push_bit 10 y1, y1]"
    unfolding GenerateRandomU32_def Let_def x0_def [symmetric] x1_def [symmetric] y1_def [symmetric] by simp
  assume "\<not> live (snd (GenerateRandomU32 s))"
  then have y1: "y1 = 0" and one: "s ! 1 AND TopBitmask = 0"
    unfolding live_def next_state by simp_all
  then have "snd (GenerateRandomU32 s) = [s ! 1, s ! 2, x1, 0]"
    unfolding next_state by simp
  with \<open>\<not> live (snd (GenerateRandomU32 s))\<close> have zero: "y1 = 0" "s ! 1 AND TopBitmask = 0" "s ! 2 = 0" "x1 = 0"
    using y1 one by (simp_all add: live_def)
  from \<open>x1 = 0\<close> have "x0 = 0"
    unfolding x1_def by (rule xor_push_bit_zero)
  then have top: "s ! 0 AND TopBitmask = s ! 1"
    using zero(3) by - (rule xor_zero_eq, simp add: x0_def)
  then have "s ! 1 = 0"
    using zero(2) by (rule and_TopBitmask_eq)
  moreover have "s ! 3 = 0"
    using zero(1,4) by - (rule xor_drop_bit_zero, simp add: y1_def)
  ultimately show False
    using assms top zero(3) by (simp add: live_def)
qed

lemma GenerateRandomU32_iterate_live: "live s \<Longrightarrow> live (((\<lambda>s. snd (GenerateRandomU32 s)) ^^ n) s)"
  by (induction n) (simp_all add: GenerateRandomU32_live)

lemma FinalizeInitialization_live: "length s = 4 \<Longrightarrow> live (FinalizeInitialization s)"
  unfolding FinalizeInitialization_def Let_def
  by (rule GenerateRandomU32_iterate_live) (auto simp: live_def TopBitmask_def)

lemma length_fold_update:
  assumes "\<And>i s. length (f i s) = length s"
  shows "length (fold f xs s) = length s"
  by (induction xs arbitrary: s) (simp_all add: assms)

lemma TinyMT_Initialize_live: "live (TinyMT_Initialize seed)"
  unfolding TinyMT_Initialize_def
  by (rule FinalizeInitialization_live) (simp add: length_fold_update init_step_def Let_def)

lemma TinyMT_Initialize_seeds_live: "live (TinyMT_Initialize_seeds seeds)"
  unfolding TinyMT_Initialize_seeds_def Let_def
  by (rule FinalizeInitialization_live)
    (simp add: length_fold_update GenerateInitialValuePlus_def GenerateInitialValueXor_def Let_def)

end
