(* ===== verification/PageBitmap.thy ===== *)
theory PageBitmap
  imports RandomBits "HOL-Library.Monad_Syntax"
begin

text \<open>
  The page bitmap of the kernel's allocators: \<^verbatim>\<open>core/hle/kernel/k_page_bitmap.h\<close>. A bitmap has up to
  four levels; a bit of one level tells whether a word of the level below is not zero.

  The words of all bitmaps of a heap lie in one vector of management data; a \<^verbatim>\<open>u64*\<close> into it is
  an index, and the operations take and return the vector. An access out of the range of the vector
  or of an array, a shift by the width of a word and a division by zero are undefined
  in C++; the operations then return \<open>None\<close>. A failing \<^verbatim>\<open>ASSERT\<close> is only logged. A \<^verbatim>\<open>size_t\<close> is a
  natural number, with the wrap-around written out where the code adds and subtracts counters and
  addresses.
\<close>

section \<open>Sizes and arrays\<close>

definition wrap64 :: "nat \<Rightarrow> nat" where
  "wrap64 n = n mod 2 ^ 64"

definition sub64 :: "nat \<Rightarrow> nat \<Rightarrow> nat" where
  "sub64 a b = (a + (2 ^ 64 - b mod 2 ^ 64)) mod 2 ^ 64"

text \<open>\<^verbatim>\<open>Common::AlignUp\<close> and \<^verbatim>\<open>Common::AlignDown\<close> at \<^verbatim>\<open>size_t\<close>.\<close>

definition AlignUp_size :: "nat \<Rightarrow> nat \<Rightarrow> nat" where
  "AlignUp_size value sz =
     (let md = value mod sz; value = value - md in if md = 0 then value else wrap64 (value + sz))"

definition AlignDown_size :: "nat \<Rightarrow> nat \<Rightarrow> nat" where
  "AlignDown_size value sz = value - value mod sz"

definition fetch :: "'a list \<Rightarrow> nat \<Rightarrow> 'a option" where
  "fetch xs i = (if i < length xs then Some (xs ! i) else None)"

definition store :: "'a list \<Rightarrow> nat \<Rightarrow> 'a \<Rightarrow> 'a list option" where
  "store xs i v = (if i < length xs then Some (xs[i := v]) else None)"

type_synonym storage = "u64 list"

section \<open>The bitmap\<close>

definition MaxDepth :: nat where
  "MaxDepth = 4"

record KPageBitmap =
  m_bit_storages :: "nat list"
  m_end_storages :: "nat list"
  bitmap_rng :: RandomBitGenerator
  m_num_bits :: nat
  m_used_depths :: nat

definition new_KPageBitmap :: "u64 \<Rightarrow> KPageBitmap" where
  "new_KPageBitmap random64 =
     \<lparr>m_bit_storages = replicate MaxDepth 0, m_end_storages = replicate MaxDepth 0,
      bitmap_rng = new_RandomBitGenerator random64, m_num_bits = 0, m_used_depths = 0\<rparr>"

fun required_depth_loop :: "nat \<Rightarrow> nat \<Rightarrow> nat" where
  "required_depth_loop region_size depth =
     (let region_size' = region_size div 64
      in if region_size' = 0 then depth + 1 else required_depth_loop region_size' (depth + 1))"

declare required_depth_loop.simps [simp del]

definition GetRequiredDepth :: "nat \<Rightarrow> nat" where
  "GetRequiredDepth region_size = required_depth_loop region_size 0"

fun overhead_loop :: "nat \<Rightarrow> nat \<Rightarrow> nat \<Rightarrow> nat" where
  "overhead_loop 0 region_size overhead_bits = overhead_bits"
| "overhead_loop (Suc depth) region_size overhead_bits =
     (let region_size' = AlignUp_size region_size 64 div 64
      in overhead_loop depth region_size' (overhead_bits + region_size'))"

definition KPageBitmap_CalculateManagementOverheadSize :: "nat \<Rightarrow> nat" where
  "KPageBitmap_CalculateManagementOverheadSize region_size =
     overhead_loop (GetRequiredDepth region_size) region_size 0 * 8"

text \<open>The loop \<^verbatim>\<open>for (s32 depth = GetHighestDepthIndex(); depth >= 0; depth--)\<close> of \<^verbatim>\<open>Initialize\<close>.\<close>

fun initialize_loop :: "nat \<Rightarrow> nat \<Rightarrow> nat \<Rightarrow> KPageBitmap \<Rightarrow> (nat \<times> KPageBitmap) option" where
  "initialize_loop 0 storage sz bm = Some (storage, bm)"
| "initialize_loop (Suc depth) storage sz bm =
     do {
       starts \<leftarrow> store (m_bit_storages bm) depth storage;
       let sz' = AlignUp_size sz 64 div 64;
       let storage' = storage + sz';
       ends \<leftarrow> store (m_end_storages bm) depth storage';
       initialize_loop depth storage' sz' (bm\<lparr>m_bit_storages := starts, m_end_storages := ends\<rparr>)
     }"

definition KPageBitmap_Initialize :: "nat \<Rightarrow> nat \<Rightarrow> KPageBitmap \<Rightarrow> (nat \<times> KPageBitmap) option" where
  "KPageBitmap_Initialize storage sz bm =
     (let depths = GetRequiredDepth sz
      in initialize_loop depths storage sz (bm\<lparr>m_num_bits := 0, m_used_depths := depths\<rparr>))"

section \<open>Searching\<close>

text \<open>
  The two loops of \<^verbatim>\<open>FindFreeBlock\<close> differ in the bit they take from a word: \<open>pick\<close> is
  \<^verbatim>\<open>m_rng.SelectRandomBit\<close> or \<^verbatim>\<open>std::countr_zero\<close>. The result -1 is \<open>None\<close>.
\<close>

function find_free_block_loop ::
  "(u64 \<Rightarrow> RandomBitGenerator \<Rightarrow> nat \<times> RandomBitGenerator) \<Rightarrow> storage \<Rightarrow> nat \<Rightarrow> nat \<Rightarrow> KPageBitmap
     \<Rightarrow> (nat option \<times> KPageBitmap) option" where
  "find_free_block_loop pick mem depth offset bm =
     do {
       start \<leftarrow> fetch (m_bit_storages bm) depth;
       v \<leftarrow> fetch mem (start + offset);
       if v = 0 then Some (None, bm)
       else do {
         let (b, g) = pick v (bitmap_rng bm);
         let bm' = bm\<lparr>bitmap_rng := g\<rparr>;
         let offset' = offset * 64 + b;
         if depth + 1 < m_used_depths bm then find_free_block_loop pick mem (depth + 1) offset' bm'
         else Some (Some offset', bm')
       }
     }"
  by pat_completeness auto

termination
  by (relation "measure (\<lambda>(pick, mem, depth, offset, bm). m_used_depths bm - depth)") auto

declare find_free_block_loop.simps [simp del]

definition FindFreeBlock :: "bool \<Rightarrow> storage \<Rightarrow> KPageBitmap \<Rightarrow> (nat option \<times> KPageBitmap) option" where
  "FindFreeBlock random mem bm =
     find_free_block_loop (if random then SelectRandomBit else (\<lambda>v g. (countr_zero v, g))) mem 0 0 bm"

record range_search =
  num_valid_options :: nat
  chosen_offset :: "nat option"
  search_rng :: RandomBitGenerator

definition try_option :: "nat \<Rightarrow> u64 \<Rightarrow> nat \<Rightarrow> u64 \<Rightarrow> nat \<Rightarrow> range_search \<Rightarrow> range_search" where
  "try_option count free_mask storage_index storage_word opt s =
     (if storage_word AND free_mask = free_mask
      then
        (let n = num_valid_options s + 1;
             s1 = s\<lparr>num_valid_options := n\<rparr>;
             (take_it, g) = (if n = 1 then (True, search_rng s)
                             else (let (r, g) = GenerateRandom (of_nat n) (search_rng s) in (r = 0, g)));
             s2 = s1\<lparr>search_rng := g\<rparr>
         in if take_it then s2\<lparr>chosen_offset := Some (storage_index * 64 + opt * count)\<rparr> else s2)
      else s)"

text \<open>The inner loop over the options of one word, which is shifted to the right in each round.\<close>

fun try_options :: "nat \<Rightarrow> u64 \<Rightarrow> nat \<Rightarrow> nat list \<Rightarrow> u64 \<Rightarrow> range_search \<Rightarrow> range_search" where
  "try_options count free_mask storage_index [] storage_word s = s"
| "try_options count free_mask storage_index (opt # opts) storage_word s =
     try_options count free_mask storage_index opts (drop_bit count storage_word)
       (try_option count free_mask storage_index storage_word opt s)"

fun try_words :: "storage \<Rightarrow> nat \<Rightarrow> u64 \<Rightarrow> nat \<Rightarrow> nat \<Rightarrow> nat list \<Rightarrow> range_search \<Rightarrow> range_search option" where
  "try_words mem count free_mask options_per_storage storage_start [] s = Some s"
| "try_words mem count free_mask options_per_storage storage_start (storage_index # indices) s =
     do {
       storage_word \<leftarrow> fetch mem (storage_start + storage_index);
       try_words mem count free_mask options_per_storage storage_start indices
         (try_options count free_mask storage_index [0..<options_per_storage] storage_word s)
     }"

definition FindFreeRange :: "nat \<Rightarrow> storage \<Rightarrow> KPageBitmap \<Rightarrow> (nat option \<times> KPageBitmap) option" where
  "FindFreeRange count mem bm =
     (if m_used_depths bm = 0 then None
      else do {
        storage_start \<leftarrow> fetch (m_bit_storages bm) (m_used_depths bm - 1);
        storage_end \<leftarrow> fetch (m_end_storages bm) (m_used_depths bm - 1);
        if \<not> (storage_start < storage_end \<and> count \<le> 64) then Some (None, bm)
        else if count = 0 \<or> count = 64 then None
        else do {
          let options_per_storage = max (64 div count) 1;
          let num_entries = max (storage_end - storage_start) 1;
          let free_mask = push_bit count 1 - 1;
          s \<leftarrow> try_words mem count free_mask options_per_storage storage_start [0..<num_entries]
                 \<lparr>num_valid_options = 0, chosen_offset = None, search_rng = bitmap_rng bm\<rparr>;
          Some (chosen_offset s, bm\<lparr>bitmap_rng := search_rng s\<rparr>)
        }
      })"

section \<open>Changing bits\<close>

text \<open>
  The private \<^verbatim>\<open>SetBit(s32 depth, size_t offset)\<close> and \<^verbatim>\<open>ClearBit\<close>: the first argument is
  \<^verbatim>\<open>depth + 1\<close>, so that zero is the end of the loop.
\<close>

fun SetBit_from :: "nat \<Rightarrow> nat \<Rightarrow> KPageBitmap \<Rightarrow> storage \<Rightarrow> storage option" where
  "SetBit_from 0 offset bm mem = Some mem"
| "SetBit_from (Suc depth) offset bm mem =
     do {
       let ind = offset div 64;
       let which = offset mod 64;
       start \<leftarrow> fetch (m_bit_storages bm) depth;
       v \<leftarrow> fetch mem (start + ind);
       mem' \<leftarrow> store mem (start + ind) (v OR push_bit which 1);
       if v \<noteq> 0 then Some mem' else SetBit_from depth ind bm mem'
     }"

fun ClearBit_from :: "nat \<Rightarrow> nat \<Rightarrow> KPageBitmap \<Rightarrow> storage \<Rightarrow> storage option" where
  "ClearBit_from 0 offset bm mem = Some mem"
| "ClearBit_from (Suc depth) offset bm mem =
     do {
       let ind = offset div 64;
       let which = offset mod 64;
       start \<leftarrow> fetch (m_bit_storages bm) depth;
       v \<leftarrow> fetch mem (start + ind);
       let v' = v AND NOT (push_bit which 1);
       mem' \<leftarrow> store mem (start + ind) v';
       if v' \<noteq> 0 then Some mem' else ClearBit_from depth ind bm mem'
     }"

definition SetBit :: "nat \<Rightarrow> storage \<times> KPageBitmap \<Rightarrow> (storage \<times> KPageBitmap) option" where
  "SetBit offset s =
     do {
       mem \<leftarrow> SetBit_from (m_used_depths (snd s)) offset (snd s) (fst s);
       Some (mem, (snd s)\<lparr>m_num_bits := wrap64 (m_num_bits (snd s) + 1)\<rparr>)
     }"

definition ClearBit :: "nat \<Rightarrow> storage \<times> KPageBitmap \<Rightarrow> (storage \<times> KPageBitmap) option" where
  "ClearBit offset s =
     do {
       mem \<leftarrow> ClearBit_from (m_used_depths (snd s)) offset (snd s) (fst s);
       Some (mem, (snd s)\<lparr>m_num_bits := sub64 (m_num_bits (snd s)) 1\<rparr>)
     }"

text \<open>
  The loops over whole words of \<^verbatim>\<open>ClearRange\<close>. The \<^verbatim>\<open>do\<close> loops run once for every 64 bits
  of a positive multiple of 64; any other count never makes \<^verbatim>\<open>remaining\<close> zero, so that the first loop
  ends at a word that is not full or runs out of the storage.
\<close>

fun words_full :: "nat \<Rightarrow> nat \<Rightarrow> storage \<Rightarrow> bool option" where
  "words_full at 0 mem = Some True"
| "words_full at (Suc n) mem =
     do {
       v \<leftarrow> fetch mem at;
       if v \<noteq> NOT 0 then Some False else words_full (at + 1) n mem
     }"

fun clear_words :: "nat \<Rightarrow> nat \<Rightarrow> nat \<Rightarrow> nat \<Rightarrow> KPageBitmap \<Rightarrow> storage \<Rightarrow> storage option" where
  "clear_words depth start bit_ind 0 bm mem = Some mem"
| "clear_words depth start bit_ind (Suc n) bm mem =
     do {
       mem1 \<leftarrow> store mem (start + bit_ind) 0;
       mem2 \<leftarrow> ClearBit_from depth bit_ind bm mem1;
       clear_words depth start (bit_ind + 1) n bm mem2
     }"

definition ClearRange :: "nat \<Rightarrow> nat \<Rightarrow> storage \<times> KPageBitmap \<Rightarrow> (bool \<times> storage \<times> KPageBitmap) option" where
  "ClearRange offset count s =
     (if m_used_depths (snd s) = 0 then None
      else do {
        let (mem, bm) = s;
        let depth = m_used_depths bm - 1;
        start \<leftarrow> fetch (m_bit_storages bm) depth;
        let bit_ind = offset div 64;
        let cleared = bm\<lparr>m_num_bits := sub64 (m_num_bits bm) count\<rparr>;
        if count < 64
        then do {
          let range_mask = push_bit (offset mod 64) (push_bit count 1 - 1);
          v \<leftarrow> fetch mem (start + bit_ind);
          if v AND range_mask \<noteq> range_mask then Some (False, mem, bm)
          else do {
            let v' = v AND NOT range_mask;
            mem1 \<leftarrow> store mem (start + bit_ind) v';
            mem2 \<leftarrow> (if v' = 0 then ClearBit_from depth bit_ind bm mem1 else Some mem1);
            Some (True, mem2, cleared)
          }
        }
        else do {
          full \<leftarrow> words_full (start + bit_ind) (if count mod 64 = 0 then count div 64 else Suc (length mem)) mem;
          if \<not> full then Some (False, mem, bm)
          else do {
            mem1 \<leftarrow> clear_words depth start bit_ind (count div 64) bm mem;
            Some (True, mem1, cleared)
          }
        }
      })"

end
