(* ===== verification/PageHeap.thy ===== *)
theory PageHeap
  imports PageBitmap
begin

text \<open>
  The page heap of the kernel's memory manager: \<^verbatim>\<open>core/hle/kernel/k_page_heap.{h,cpp}\<close>. Memory is kept as
  free blocks of seven sizes, one page bitmap per size; freeing a block joins it with its neighbours
  into a larger one. Physical addresses and sizes are natural numbers with the wrap-around of 64 bits
  written out; the address 0 means that there is no block, as in the code. The bitmaps of all
  sizes lie in \<open>m_management_data\<close>.
\<close>

section \<open>Blocks of one size\<close>

definition PageBytes :: nat where
  "PageBytes = 0x1000"

record Block =
  m_bitmap :: KPageBitmap
  block_heap_address :: nat
  m_end_offset :: nat
  m_block_shift :: nat
  m_next_block_shift :: nat

definition new_Block :: "u64 \<Rightarrow> Block" where
  "new_Block random64 =
     \<lparr>m_bitmap = new_KPageBitmap random64, block_heap_address = 0, m_end_offset = 0,
      m_block_shift = 0, m_next_block_shift = 0\<rparr>"

definition Block_GetSize :: "Block \<Rightarrow> nat" where
  "Block_GetSize b = 2 ^ m_block_shift b"

definition Block_GetNumPages :: "Block \<Rightarrow> nat" where
  "Block_GetNumPages b = Block_GetSize b div PageBytes"

definition GetNumFreeBlocks :: "Block \<Rightarrow> nat" where
  "GetNumFreeBlocks b = m_num_bits (m_bitmap b)"

definition Block_GetNumFreePages :: "Block \<Rightarrow> nat" where
  "Block_GetNumFreePages b = wrap64 (GetNumFreeBlocks b * Block_GetNumPages b)"

definition Block_Initialize ::
  "nat \<Rightarrow> nat \<Rightarrow> nat \<Rightarrow> nat \<Rightarrow> nat \<Rightarrow> Block \<Rightarrow> (nat \<times> Block) option" where
  "Block_Initialize addr sz bs nbs bit_storage b =
     do {
       let end_addr = wrap64 (addr + sz);
       let align = (if nbs \<noteq> 0 then 2 ^ nbs else 2 ^ bs);
       let addr = AlignDown_size addr align;
       let end_addr = AlignUp_size end_addr align;
       let end_offset = sub64 end_addr addr div 2 ^ bs;
       (bit_storage, bm) \<leftarrow> KPageBitmap_Initialize bit_storage end_offset (m_bitmap b);
       Some (bit_storage,
         b\<lparr>m_block_shift := bs, m_next_block_shift := nbs, block_heap_address := addr,
           m_end_offset := end_offset, m_bitmap := bm\<rparr>)
     }"

definition PushBlock :: "nat \<Rightarrow> storage \<times> Block \<Rightarrow> (nat \<times> storage \<times> Block) option" where
  "PushBlock address s =
     do {
       let (mem, b) = s;
       let offset = sub64 address (block_heap_address b) div 2 ^ m_block_shift b;
       (mem, bm) \<leftarrow> SetBit offset (mem, m_bitmap b);
       if m_next_block_shift b \<noteq> 0
       then do {
         let diff = 2 ^ (m_next_block_shift b - m_block_shift b);
         let offset = AlignDown_size offset diff;
         (cleared, mem, bm) \<leftarrow> ClearRange offset diff (mem, bm);
         Some (if cleared then wrap64 (block_heap_address b + wrap64 (offset * 2 ^ m_block_shift b)) else 0,
               mem, b\<lparr>m_bitmap := bm\<rparr>)
       }
       else Some (0, mem, b\<lparr>m_bitmap := bm\<rparr>)
     }"

definition PopBlock :: "bool \<Rightarrow> storage \<times> Block \<Rightarrow> (nat \<times> storage \<times> Block) option" where
  "PopBlock random s =
     do {
       let (mem, b) = s;
       (soffset, bm) \<leftarrow> FindFreeBlock random mem (m_bitmap b);
       case soffset of
         None \<Rightarrow> Some (0, mem, b\<lparr>m_bitmap := bm\<rparr>)
       | Some offset \<Rightarrow> do {
           (mem, bm) \<leftarrow> ClearBit offset (mem, bm);
           Some (wrap64 (block_heap_address b + wrap64 (offset * 2 ^ m_block_shift b)), mem, b\<lparr>m_bitmap := bm\<rparr>)
         }
     }"

definition Block_CalculateManagementOverheadSize :: "nat \<Rightarrow> nat \<Rightarrow> nat \<Rightarrow> nat" where
  "Block_CalculateManagementOverheadSize region_size cur_block_shift next_block_shift =
     (let cur_block_size = 2 ^ cur_block_shift;
          next_block_size = 2 ^ next_block_shift;
          align = (if next_block_shift \<noteq> 0 then next_block_size else cur_block_size)
      in KPageBitmap_CalculateManagementOverheadSize
           (wrap64 (align * 2 + AlignUp_size region_size align) div cur_block_size))"

section \<open>The heap\<close>

definition MemoryBlockPageShifts :: "nat list" where
  "MemoryBlockPageShifts = [0xC, 0x10, 0x15, 0x16, 0x19, 0x1D, 0x1E]"

definition NumMemoryBlockPageShifts :: nat where
  "NumMemoryBlockPageShifts = 7"

record KPageHeap =
  m_heap_address :: nat
  m_heap_size :: nat
  m_initial_used_size :: nat
  m_num_blocks :: nat
  m_blocks :: "Block list"
  heap_rng :: RandomBitGenerator
  m_management_data :: storage

text \<open>The random device seeds the generator of every bitmap and the one of the heap.\<close>

definition new_KPageHeap :: "u64 list \<Rightarrow> u64 \<Rightarrow> KPageHeap" where
  "new_KPageHeap seeds seed =
     \<lparr>m_heap_address = 0, m_heap_size = 0, m_initial_used_size = 0, m_num_blocks = 0,
      m_blocks = map new_Block seeds, heap_rng = new_RandomBitGenerator seed, m_management_data = []\<rparr>"

definition heap_GetEndAddress :: "KPageHeap \<Rightarrow> nat" where
  "heap_GetEndAddress h = wrap64 (m_heap_address h + m_heap_size h)"

definition GetPageOffset :: "KPageHeap \<Rightarrow> nat \<Rightarrow> nat" where
  "GetPageOffset h block = sub64 block (m_heap_address h) div PageBytes"

definition GetPageOffsetToEnd :: "KPageHeap \<Rightarrow> nat \<Rightarrow> nat" where
  "GetPageOffsetToEnd h block = sub64 (heap_GetEndAddress h) block div PageBytes"

definition GetAlignedBlockIndex :: "nat \<Rightarrow> nat \<Rightarrow> int" where
  "GetAlignedBlockIndex num_pages align_pages =
     (let target_pages = max num_pages align_pages
      in case find (\<lambda>i. target_pages \<le> 2 ^ (MemoryBlockPageShifts ! i) div PageBytes) [0..<NumMemoryBlockPageShifts] of
           None \<Rightarrow> -1
         | Some i \<Rightarrow> int i)"

definition GetBlockIndex :: "nat \<Rightarrow> int" where
  "GetBlockIndex num_pages =
     (case find (\<lambda>i. num_pages \<ge> 2 ^ (MemoryBlockPageShifts ! i) div PageBytes) (rev [0..<NumMemoryBlockPageShifts]) of
        None \<Rightarrow> -1
      | Some i \<Rightarrow> int i)"

definition GetBlockSize :: "nat \<Rightarrow> nat option" where
  "GetBlockSize index = map_option (\<lambda>s. 2 ^ s) (fetch MemoryBlockPageShifts index)"

definition GetBlockNumPages :: "nat \<Rightarrow> nat option" where
  "GetBlockNumPages index = map_option (\<lambda>s. s div PageBytes) (GetBlockSize index)"

definition KPageHeap_GetNumFreePages :: "KPageHeap \<Rightarrow> nat option" where
  "KPageHeap_GetNumFreePages h =
     fold (\<lambda>i acc. do { num_free \<leftarrow> acc; b \<leftarrow> fetch (m_blocks h) i; Some (wrap64 (num_free + Block_GetNumFreePages b)) })
       [0..<m_num_blocks h] (Some 0)"

definition heap_GetFreeSize :: "KPageHeap \<Rightarrow> nat option" where
  "heap_GetFreeSize h = map_option (\<lambda>n. wrap64 (n * PageBytes)) (KPageHeap_GetNumFreePages h)"

definition SetInitialUsedSize :: "nat \<Rightarrow> KPageHeap \<Rightarrow> KPageHeap option" where
  "SetInitialUsedSize reserved_size h =
     do {
       free_size \<leftarrow> heap_GetFreeSize h;
       Some (h\<lparr>m_initial_used_size := sub64 (sub64 (m_heap_size h) free_size) reserved_size\<rparr>)
     }"

text \<open>\<^verbatim>\<open>std::vector::resize\<close>: new elements are zero, old ones stay.\<close>

definition resize :: "nat \<Rightarrow> storage \<Rightarrow> storage" where
  "resize n xs = take n xs @ replicate (n - length xs) 0"

fun setup_bitmaps :: "nat list \<Rightarrow> nat list \<Rightarrow> nat \<Rightarrow> KPageHeap \<Rightarrow> (nat \<times> KPageHeap) option" where
  "setup_bitmaps block_shifts [] cur_bitmap_storage h = Some (cur_bitmap_storage, h)"
| "setup_bitmaps block_shifts (i # is) cur_bitmap_storage h =
     do {
       cur_block_shift \<leftarrow> fetch block_shifts i;
       next_block_shift \<leftarrow> (if i \<noteq> length block_shifts - 1 then fetch block_shifts (i + 1) else Some 0);
       b \<leftarrow> fetch (m_blocks h) i;
       (cur_bitmap_storage, b) \<leftarrow>
         Block_Initialize (m_heap_address h) (m_heap_size h) cur_block_shift next_block_shift cur_bitmap_storage b;
       blocks \<leftarrow> store (m_blocks h) i b;
       setup_bitmaps block_shifts is cur_bitmap_storage (h\<lparr>m_blocks := blocks\<rparr>)
     }"

definition KPageHeap_Initialize_with :: "nat \<Rightarrow> nat \<Rightarrow> nat \<Rightarrow> nat list \<Rightarrow> KPageHeap \<Rightarrow> KPageHeap option" where
  "KPageHeap_Initialize_with address sz management_size block_shifts h =
     do {
       let h = h\<lparr>m_heap_address := address, m_heap_size := sz, m_num_blocks := length block_shifts,
                 m_management_data := resize (management_size div 8) (m_management_data h)\<rparr>;
       (_, h) \<leftarrow> setup_bitmaps block_shifts [0..<length block_shifts] 0 h;
       Some h
     }"

definition KPageHeap_Initialize :: "nat \<Rightarrow> nat \<Rightarrow> nat \<Rightarrow> KPageHeap \<Rightarrow> KPageHeap option" where
  "KPageHeap_Initialize heap_address heap_size management_size h =
     KPageHeap_Initialize_with heap_address heap_size management_size MemoryBlockPageShifts h"

definition KPageHeap_CalculateManagementOverheadSize :: "nat \<Rightarrow> nat" where
  "KPageHeap_CalculateManagementOverheadSize region_size =
     (let shifts = MemoryBlockPageShifts;
          overhead_size = sum_list (map (\<lambda>i. Block_CalculateManagementOverheadSize region_size (shifts ! i)
             (if i \<noteq> length shifts - 1 then shifts ! (i + 1) else 0)) [0..<length shifts])
      in AlignUp_size overhead_size PageBytes)"

section \<open>Freeing\<close>

text \<open>A member function of \<^verbatim>\<open>m_blocks[i]\<close> called on the heap.\<close>

definition on_block ::
  "nat \<Rightarrow> (storage \<times> Block \<Rightarrow> (nat \<times> storage \<times> Block) option) \<Rightarrow> KPageHeap \<Rightarrow> (nat \<times> KPageHeap) option" where
  "on_block i f h =
     do {
       b \<leftarrow> fetch (m_blocks h) i;
       (r, mem, b) \<leftarrow> f (m_management_data h, b);
       blocks \<leftarrow> store (m_blocks h) i b;
       Some (r, h\<lparr>m_blocks := blocks, m_management_data := mem\<rparr>)
     }"

lemma on_block_length: "on_block i f h = Some (r, h') \<Longrightarrow> length (m_blocks h') = length (m_blocks h) \<and> i < length (m_blocks h)"
  by (auto simp: on_block_def fetch_def store_def bind_eq_Some_conv split: if_splits)

function FreeBlock :: "nat \<Rightarrow> nat \<Rightarrow> KPageHeap \<Rightarrow> KPageHeap option" where
  "FreeBlock block index h =
     do {
       (block', h') \<leftarrow> on_block index (PushBlock block) h;
       if block' \<noteq> 0 then FreeBlock block' (index + 1) h' else Some h'
     }"
  by pat_completeness auto

termination
  by (relation "measure (\<lambda>(block, index, h). length (m_blocks h) - index)") (auto dest!: on_block_length)

declare FreeBlock.simps [simp del]

text \<open>The search for the largest block size that fits; the first argument is \<^verbatim>\<open>big_index + 1\<close>.\<close>

fun find_big :: "nat \<Rightarrow> nat \<Rightarrow> nat \<Rightarrow> KPageHeap \<Rightarrow> (nat \<times> nat \<times> nat) option option" where
  "find_big 0 start_addr end_addr h = Some None"
| "find_big (Suc big_index) start_addr end_addr h =
     do {
       b \<leftarrow> fetch (m_blocks h) big_index;
       let block_size = Block_GetSize b;
       let big_start = AlignUp_size start_addr block_size;
       let big_end = AlignDown_size end_addr block_size;
       if big_start < big_end then Some (Some (big_index, big_start, big_end))
       else find_big big_index start_addr end_addr h
     }"

partial_function (option) free_big_blocks :: "nat \<Rightarrow> nat \<Rightarrow> nat \<Rightarrow> nat \<Rightarrow> KPageHeap \<Rightarrow> KPageHeap option" where
  "free_big_blocks block big_end block_size index h =
     (if block < big_end
      then do {
        h \<leftarrow> FreeBlock block index h;
        free_big_blocks (wrap64 (block + block_size)) big_end block_size index h
      }
      else Some h)"

partial_function (option) free_before_level ::
  "nat \<Rightarrow> nat \<Rightarrow> nat \<Rightarrow> nat \<Rightarrow> KPageHeap \<Rightarrow> (nat \<times> KPageHeap) option" where
  "free_before_level before_start before_end block_size i h =
     (if wrap64 (before_start + block_size) \<le> before_end
      then do {
        h \<leftarrow> FreeBlock (sub64 before_end block_size) i h;
        free_before_level before_start (sub64 before_end block_size) block_size i h
      }
      else Some (before_end, h))"

partial_function (option) free_after_level ::
  "nat \<Rightarrow> nat \<Rightarrow> nat \<Rightarrow> nat \<Rightarrow> KPageHeap \<Rightarrow> (nat \<times> KPageHeap) option" where
  "free_after_level after_start after_end block_size i h =
     (if wrap64 (after_start + block_size) \<le> after_end
      then do {
        h \<leftarrow> FreeBlock after_start i h;
        free_after_level (wrap64 (after_start + block_size)) after_end block_size i h
      }
      else Some (after_start, h))"

declare free_big_blocks.simps [code] free_before_level.simps [code] free_after_level.simps [code]

text \<open>The loops \<^verbatim>\<open>for (s32 i = big_index - 1; i >= 0; i--)\<close>; the first argument is \<^verbatim>\<open>i + 1\<close>.\<close>

fun free_before :: "nat \<Rightarrow> nat \<Rightarrow> nat \<Rightarrow> KPageHeap \<Rightarrow> KPageHeap option" where
  "free_before 0 before_start before_end h = Some h"
| "free_before (Suc i) before_start before_end h =
     do {
       b \<leftarrow> fetch (m_blocks h) i;
       (before_end, h) \<leftarrow> free_before_level before_start before_end (Block_GetSize b) i h;
       free_before i before_start before_end h
     }"

fun free_after :: "nat \<Rightarrow> nat \<Rightarrow> nat \<Rightarrow> KPageHeap \<Rightarrow> KPageHeap option" where
  "free_after 0 after_start after_end h = Some h"
| "free_after (Suc i) after_start after_end h =
     do {
       b \<leftarrow> fetch (m_blocks h) i;
       (after_start, h) \<leftarrow> free_after_level after_start after_end (Block_GetSize b) i h;
       free_after i after_start after_end h
     }"

definition Free :: "nat \<Rightarrow> nat \<Rightarrow> KPageHeap \<Rightarrow> KPageHeap option" where
  "Free addr num_pages h =
     (if num_pages = 0 then Some h
      else do {
        let start_addr = addr;
        let end_addr = wrap64 (addr + wrap64 (num_pages * PageBytes));
        big \<leftarrow> find_big (m_num_blocks h) start_addr end_addr h;
        case big of
          None \<Rightarrow> Some h
        | Some (big_index, big_start, big_end) \<Rightarrow> do {
            b \<leftarrow> fetch (m_blocks h) big_index;
            h \<leftarrow> free_big_blocks big_start big_end (Block_GetSize b) big_index h;
            h \<leftarrow> free_before big_index start_addr big_start h;
            free_after big_index big_end end_addr h
          }
      })"

section \<open>Allocating\<close>

fun linear_search :: "nat \<Rightarrow> nat list \<Rightarrow> KPageHeap \<Rightarrow> (nat \<times> KPageHeap) option" where
  "linear_search needed_size [] h = Some (0, h)"
| "linear_search needed_size (i # is) h =
     do {
       (addr, h) \<leftarrow> on_block i (PopBlock False) h;
       if addr \<noteq> 0
       then do {
         b \<leftarrow> fetch (m_blocks h) i;
         let allocated_size = Block_GetSize b;
         h \<leftarrow> (if allocated_size > needed_size
               then Free (wrap64 (addr + needed_size)) ((allocated_size - needed_size) div PageBytes) h
               else Some h);
         Some (addr, h)
       }
       else linear_search needed_size is h
     }"

definition AllocateByLinearSearch :: "nat \<Rightarrow> KPageHeap \<Rightarrow> (nat \<times> KPageHeap) option" where
  "AllocateByLinearSearch index h =
     do {
       b \<leftarrow> fetch (m_blocks h) index;
       linear_search (Block_GetSize b) [index..<m_num_blocks h] h
     }"

definition MinimumPossibleAlignmentsForRandomAllocation :: nat where
  "MinimumPossibleAlignmentsForRandomAllocation = 4"

text \<open>\<^verbatim>\<open>(1 + ((m_blocks[i].GetSize() - needed_size) >> align_shift)) * m_blocks[i].GetNumFreeBlocks()\<close>\<close>

definition alignments_of :: "nat \<Rightarrow> nat \<Rightarrow> Block \<Rightarrow> nat" where
  "alignments_of needed_size align_shift b =
     wrap64 (wrap64 (1 + sub64 (Block_GetSize b) needed_size div 2 ^ align_shift) * GetNumFreeBlocks b)"

text \<open>The possible alignments and \<^verbatim>\<open>max_blocks\<close>.\<close>

fun count_alignments :: "nat \<Rightarrow> nat \<Rightarrow> nat list \<Rightarrow> nat \<Rightarrow> KPageHeap \<Rightarrow> (nat \<times> nat) option" where
  "count_alignments needed_size align_shift [] possible h = Some (possible, m_num_blocks h)"
| "count_alignments needed_size align_shift (i # is) possible h =
     do {
       b \<leftarrow> fetch (m_blocks h) i;
       let possible = wrap64 (possible + alignments_of needed_size align_shift b);
       if possible \<ge> MinimumPossibleAlignmentsForRandomAllocation then Some (possible, i + 1)
       else count_alignments needed_size align_shift is possible h
     }"

text \<open>The block that the random choice falls on; \<open>index\<close> when there is none.\<close>

fun choose_block :: "nat \<Rightarrow> nat \<Rightarrow> nat \<Rightarrow> nat \<Rightarrow> nat list \<Rightarrow> nat \<Rightarrow> KPageHeap \<Rightarrow> nat option" where
  "choose_block rnd needed_size align_shift index [] possible h = Some index"
| "choose_block rnd needed_size align_shift index (i # is) possible h =
     do {
       b \<leftarrow> fetch (m_blocks h) i;
       let possible = wrap64 (possible + alignments_of needed_size align_shift b);
       if rnd < possible then Some i
       else choose_block rnd needed_size align_shift index is possible h
     }"

definition random_below :: "nat \<Rightarrow> KPageHeap \<Rightarrow> nat \<times> KPageHeap" where
  "random_below mx h = (let (r, g) = GenerateRandom (of_nat mx) (heap_rng h) in (unat r, h\<lparr>heap_rng := g\<rparr>))"

definition select_index :: "nat \<Rightarrow> nat \<Rightarrow> nat \<Rightarrow> KPageHeap \<Rightarrow> (nat \<times> KPageHeap) option" where
  "select_index index needed_size align_shift h =
     do {
       (possible, max_blocks) \<leftarrow> count_alignments needed_size align_shift [index..<m_num_blocks h] 0 h;
       if possible > 0 \<and> index + 1 < max_blocks
       then do {
         let (rnd, h) = random_below possible h;
         i \<leftarrow> choose_block rnd needed_size align_shift index [index..<max_blocks] 0 h;
         Some (i, h)
       }
       else Some (index, h)
     }"

text \<open>Giving back what is left over before and after a random place within the popped block.\<close>

definition trim_block :: "nat \<Rightarrow> nat \<Rightarrow> nat \<Rightarrow> nat \<Rightarrow> KPageHeap \<Rightarrow> (nat \<times> KPageHeap) option" where
  "trim_block addr leftover_size needed_size align_shift h =
     do {
       let possible_alignments = wrap64 (1 + leftover_size div 2 ^ align_shift);
       let (rnd, h) = random_below possible_alignments h;
       let random_offset = wrap64 (rnd * 2 ^ align_shift);
       h \<leftarrow> (if random_offset \<noteq> 0 then Free addr (random_offset div PageBytes) h else Some h);
       let addr = wrap64 (addr + random_offset);
       h \<leftarrow> (if random_offset \<noteq> leftover_size
             then Free (wrap64 (addr + needed_size)) (sub64 leftover_size random_offset div PageBytes) h
             else Some h);
       Some (addr, h)
     }"

definition AllocateByRandom :: "nat \<Rightarrow> nat \<Rightarrow> nat \<Rightarrow> KPageHeap \<Rightarrow> (nat \<times> KPageHeap) option" where
  "AllocateByRandom index num_pages align_pages h =
     do {
       let needed_size = wrap64 (num_pages * PageBytes);
       let align_size = wrap64 (align_pages * PageBytes);
       let align_shift = countr_zero (of_nat align_size);
       if align_shift \<ge> 64 then None
       else do {
         (index, h) \<leftarrow> select_index index needed_size align_shift h;
         (addr, h) \<leftarrow> on_block index (PopBlock True) h;
         if addr \<noteq> 0
         then do {
           b \<leftarrow> fetch (m_blocks h) index;
           let leftover_size = sub64 (Block_GetSize b) needed_size;
           if leftover_size > 0 then trim_block addr leftover_size needed_size align_shift h
           else Some (addr, h)
         }
         else Some (0, h)
       }
     }"

text \<open>A negative index is out of the range of \<^verbatim>\<open>m_blocks\<close>.\<close>

definition AllocateBlock :: "int \<Rightarrow> bool \<Rightarrow> KPageHeap \<Rightarrow> (nat \<times> KPageHeap) option" where
  "AllocateBlock index random h =
     (if index < 0 then None
      else if random then do {
        b \<leftarrow> fetch (m_blocks h) (nat index);
        let block_pages = Block_GetNumPages b;
        AllocateByRandom (nat index) block_pages block_pages h
      }
      else AllocateByLinearSearch (nat index) h)"

definition AllocateAligned :: "int \<Rightarrow> nat \<Rightarrow> nat \<Rightarrow> KPageHeap \<Rightarrow> (nat \<times> KPageHeap) option" where
  "AllocateAligned index num_pages align_pages h =
     (if index < 0 then None else AllocateByRandom (nat index) num_pages align_pages h)"

end
