(* ===== verification/PageBitmap_Laws.thy ===== *)
theory PageBitmap_Laws
  imports PageBitmap
begin

text \<open>
  The levels of a page bitmap as sets of bit numbers: the shape of a bitmap in the management data,
  the invariant that a level is the set of parents of the level below, and that setting and clearing
  bits (locale \<open>bit_walk\<close>, interpreted on both loops) and clearing ranges keep it. A bitmap refines
  the set of the bits of its lowest level.
\<close>

section \<open>Shape\<close>

fun words_at :: "nat \<Rightarrow> nat \<Rightarrow> nat" where
  "words_at sz 0 = sz"
| "words_at sz (Suc k) = (words_at sz k + 63) div 64"

abbreviation start_of :: "KPageBitmap \<Rightarrow> nat \<Rightarrow> nat" where
  "start_of bm d \<equiv> m_bit_storages bm ! d"

definition width :: "KPageBitmap \<Rightarrow> nat \<Rightarrow> nat" where
  "width bm d = m_end_storages bm ! d - m_bit_storages bm ! d"

definition shape :: "nat \<Rightarrow> nat \<Rightarrow> nat \<Rightarrow> KPageBitmap \<Rightarrow> bool" where
  "shape sz lo hi bm \<longleftrightarrow>
     0 < m_used_depths bm \<and> m_used_depths bm \<le> MaxDepth \<and>
     length (m_bit_storages bm) = MaxDepth \<and> length (m_end_storages bm) = MaxDepth \<and>
     (\<forall>d < m_used_depths bm. m_end_storages bm ! d = start_of bm d + words_at sz (m_used_depths bm - d)) \<and>
     (\<forall>d. Suc d < m_used_depths bm \<longrightarrow> start_of bm d = m_end_storages bm ! Suc d) \<and>
     start_of bm (m_used_depths bm - 1) = lo \<and> m_end_storages bm ! 0 = hi \<and>
     words_at sz (m_used_depths bm) = 1"

lemma shapeD:
  assumes "shape sz lo hi bm"
  shows "0 < m_used_depths bm" "m_used_depths bm \<le> MaxDepth" "length (m_bit_storages bm) = MaxDepth"
    "length (m_end_storages bm) = MaxDepth"
    "\<And>d. d < m_used_depths bm \<Longrightarrow> width bm d = words_at sz (m_used_depths bm - d)"
    "start_of bm (m_used_depths bm - 1) = lo" "width bm 0 = 1"
proof -
  show "width bm 0 = 1"
    using assms by (auto simp: shape_def width_def)
qed (use assms in \<open>simp_all add: shape_def width_def\<close>)

lemma shape_next:
  assumes "shape sz lo hi bm" "Suc d < m_used_depths bm"
  shows "start_of bm d = start_of bm (Suc d) + width bm (Suc d)" "width bm d = (width bm (Suc d) + 63) div 64"
proof -
  show "start_of bm d = start_of bm (Suc d) + width bm (Suc d)"
    using assms by (simp add: shape_def width_def)
  have "m_used_depths bm - d = Suc (m_used_depths bm - Suc d)"
    using assms(2) by simp
  then show "width bm d = (width bm (Suc d) + 63) div 64"
    using shapeD(5) [OF assms(1), of d] shapeD(5) [OF assms(1), of "Suc d"] assms(2) by simp
qed

lemma shape_before:
  assumes "shape sz lo hi bm" "d < e" "e < m_used_depths bm"
  shows "start_of bm e + width bm e \<le> start_of bm d"
  using assms(2,3)
proof (induction e rule: less_induct)
  case (less e)
  then obtain k where k: "e = Suc k" by (cases e) auto
  with less.prems shape_next(1) [OF assms(1), of k] have "start_of bm k = start_of bm e + width bm e"
    by simp
  moreover have "start_of bm k \<le> start_of bm d"
    using less.IH [of k] less.prems k by (cases "d = k") auto
  ultimately show ?case by simp
qed

lemma shape_cell:
  assumes "shape sz lo hi bm" "d < m_used_depths bm" "i < width bm d"
  shows "lo \<le> start_of bm d + i" "start_of bm d + i < hi"
proof -
  from assms(2) consider "d < m_used_depths bm - 1" | "d = m_used_depths bm - 1"
    by linarith
  then show "lo \<le> start_of bm d + i"
    using shape_before [OF assms(1), of d "m_used_depths bm - 1"] shapeD(6) [OF assms(1)]
    by cases auto
  have "hi = start_of bm 0 + width bm 0"
    using assms(1) by (auto simp: shape_def width_def)
  then show "start_of bm d + i < hi"
    using shape_before [OF assms(1), of 0 d] assms(2,3) by (cases "d = 0") auto
qed

lemma shape_cell_inj:
  assumes "shape sz lo hi bm" "d < m_used_depths bm" "e < m_used_depths bm"
    and "i < width bm d" "j < width bm e" "start_of bm d + i = start_of bm e + j"
  shows "d = e \<and> i = j"
  using shape_before [OF assms(1), of d e] shape_before [OF assms(1), of e d] assms(2-)
  by (cases d e rule: linorder_cases) auto

lemma parent_width:
  assumes "shape sz lo hi bm" "Suc d < m_used_depths bm" "i < width bm (Suc d)"
  shows "i div 64 < width bm d"
  using shape_next(2) [OF assms(1,2)] assms(3) by simp

lemma fetch_start [simp]:
  "shape sz lo hi bm \<Longrightarrow> d < m_used_depths bm \<Longrightarrow> fetch (m_bit_storages bm) d = Some (start_of bm d)"
  by (simp add: fetch_def shape_def)

section \<open>Levels\<close>

definition level :: "KPageBitmap \<Rightarrow> storage \<Rightarrow> nat \<Rightarrow> nat set" where
  "level bm mem d = {x. x div 64 < width bm d \<and> bit (mem ! (start_of bm d + x div 64)) (x mod 64)}"

definition parents :: "nat set \<Rightarrow> nat set" where
  "parents X = (\<lambda>x. x div 64) ` X"

definition in_sync :: "KPageBitmap \<Rightarrow> storage \<Rightarrow> nat \<Rightarrow> bool" where
  "in_sync bm mem n \<longleftrightarrow> (\<forall>d < n. level bm mem d = parents (level bm mem (Suc d)))"

lemma in_syncD: "in_sync bm mem n \<Longrightarrow> d < n \<Longrightarrow> level bm mem d = parents (level bm mem (Suc d))"
  by (simp add: in_sync_def)

lemma mem_level: "x \<in> level bm mem d \<longleftrightarrow> x div 64 < width bm d \<and> bit (mem ! (start_of bm d + x div 64)) (x mod 64)"
  by (simp add: level_def)

lemma mem_parents: "i \<in> parents X \<longleftrightarrow> (\<exists>x \<in> X. x div 64 = i)"
  by (auto simp: parents_def)

lemma finite_level: "finite (level bm mem d)"
proof (rule finite_subset)
  show "level bm mem d \<subseteq> {..< 64 * width bm d}"
    by (auto simp: level_def div_less_iff_less_mult mult.commute)
qed simp

lemma level_bit:
  assumes "i < width bm d" "b < 64"
  shows "bit (mem ! (start_of bm d + i)) b \<longleftrightarrow> 64 * i + b \<in> level bm mem d"
  using assms by (simp add: mem_level)

lemma word_zero_iff:
  assumes "i < width bm d"
  shows "mem ! (start_of bm d + i) = 0 \<longleftrightarrow> (\<forall>x \<in> level bm mem d. x div 64 \<noteq> i)"
proof
  assume "mem ! (start_of bm d + i) = 0"
  then show "\<forall>x \<in> level bm mem d. x div 64 \<noteq> i"
    by (auto simp: mem_level)
next
  assume none: "\<forall>x \<in> level bm mem d. x div 64 \<noteq> i"
  have False if nz: "mem ! (start_of bm d + i) \<noteq> 0"
  proof -
    from nz obtain b where "bit (mem ! (start_of bm d + i)) b" "b < 64"
      by (rule nonzero_word_bit)
    then have "64 * i + b \<in> level bm mem d" "(64 * i + b) div 64 = i"
      using assms by (simp_all add: level_bit)
    with none show False by blast
  qed
  then show "mem ! (start_of bm d + i) = 0" by blast
qed

lemma level_store:
  assumes "shape sz lo hi bm" "hi \<le> length mem" "d < m_used_depths bm" "i < width bm d" "e < m_used_depths bm"
  shows "level bm (mem[start_of bm d + i := v]) e =
     (if e = d then {x \<in> level bm mem d. x div 64 \<noteq> i} \<union> {x. x div 64 = i \<and> bit v (x mod 64)} else level bm mem e)"
proof -
  have bound: "start_of bm d + i < length mem"
    using shape_cell(2) [OF assms(1,3,4)] assms(2) by simp
  have change: "x \<in> level bm (mem[start_of bm d + i := v]) e \<longleftrightarrow>
      (if e = d \<and> x div 64 = i then bit v (x mod 64) else x \<in> level bm mem e)" for x
  proof (cases "x div 64 < width bm e")
    case True
    then have "start_of bm d + i = start_of bm e + x div 64 \<longleftrightarrow> e = d \<and> x div 64 = i"
      using shape_cell_inj [OF assms(1,3,5,4) True] by metis
    then have "(mem[start_of bm d + i := v]) ! (start_of bm e + x div 64) =
        (if e = d \<and> x div 64 = i then v else mem ! (start_of bm e + x div 64))"
      using bound by (simp add: nth_list_update)
    with True show ?thesis
      by (simp add: mem_level)
  next
    case False
    then show ?thesis
      using assms(4) by (auto simp: mem_level)
  qed
  show ?thesis
    by (rule set_eqI, subst change) simp
qed

lemma level_cong:
  assumes "shape sz lo hi bm" "d < m_used_depths bm" "\<And>i. lo \<le> i \<Longrightarrow> i < hi \<Longrightarrow> mem' ! i = mem ! i"
  shows "level bm mem' d = level bm mem d"
  using assms(3) shape_cell [OF assms(1,2)] by (auto simp: level_def)


section \<open>Setting and clearing a bit\<close>

definition edit :: "bool \<Rightarrow> nat \<Rightarrow> nat set \<Rightarrow> nat set" where
  "edit on x X = (if on then insert x X else X - {x})"

lemma mem_edit: "y \<in> edit on x X \<longleftrightarrow> (if y = x then on else y \<in> X)"
  by (simp add: edit_def)

lemma parents_edit_other:
  assumes "y \<in> X" "y \<noteq> x" "y div 64 = x div 64"
  shows "parents (edit on x X) = parents X"
proof (rule set_eqI)
  fix i
  show "i \<in> parents (edit on x X) \<longleftrightarrow> i \<in> parents X"
    unfolding mem_parents Bex_def mem_edit using assms by metis
qed

lemma parents_edit_last:
  assumes "\<forall>y \<in> X. y \<noteq> x \<longrightarrow> y div 64 \<noteq> x div 64"
  shows "parents (edit on x X) = edit on (x div 64) (parents X)"
proof (rule set_eqI)
  fix i
  show "i \<in> parents (edit on x X) \<longleftrightarrow> i \<in> edit on (x div 64) (parents X)"
    unfolding mem_parents Bex_def mem_edit using assms by metis
qed

text \<open>
  What a change of one bit and the walk up the levels leave: the change at its own level, the levels
  above in step again, all else as it was.
\<close>

definition walked :: "nat \<Rightarrow> nat \<Rightarrow> KPageBitmap \<Rightarrow> nat \<Rightarrow> nat set \<Rightarrow> storage \<Rightarrow> storage \<Rightarrow> bool" where
  "walked lo hi bm d X mem mem' \<longleftrightarrow>
     length mem' = length mem \<and> level bm mem' d = X \<and>
     (\<forall>e. d < e \<longrightarrow> e < m_used_depths bm \<longrightarrow> level bm mem' e = level bm mem e) \<and>
     in_sync bm mem' d \<and> (\<forall>i. i < lo \<or> hi \<le> i \<longrightarrow> mem' ! i = mem ! i)"

lemma walkedD:
  assumes "walked lo hi bm d X mem mem'"
  shows "length mem' = length mem" "level bm mem' d = X"
    "\<And>e. d < e \<Longrightarrow> e < m_used_depths bm \<Longrightarrow> level bm mem' e = level bm mem e" "in_sync bm mem' d"
    "\<And>i. i < lo \<or> hi \<le> i \<Longrightarrow> mem' ! i = mem ! i"
  using assms unfolding walked_def by blast+

locale bit_walk =
  fixes walk :: "nat \<Rightarrow> nat \<Rightarrow> KPageBitmap \<Rightarrow> storage \<Rightarrow> storage option"
    and change :: "nat \<Rightarrow> u64 \<Rightarrow> u64"
    and stop :: "u64 \<Rightarrow> u64 \<Rightarrow> bool"
    and on :: bool
  assumes walk_end: "walk 0 x bm mem = Some mem"
    and walk_step: "walk (Suc d) x bm mem =
      do {
        start \<leftarrow> fetch (m_bit_storages bm) d;
        v \<leftarrow> fetch mem (start + x div 64);
        mem' \<leftarrow> store mem (start + x div 64) (change (x mod 64) v);
        if stop v (change (x mod 64) v) then Some mem' else walk d (x div 64) bm mem'
      }"
    and bit_change: "w < 64 \<Longrightarrow> bit (change w v) b \<longleftrightarrow> (if b = w then on else bit v b)"
    and stop_iff: "w < 64 \<Longrightarrow> bit v w \<longleftrightarrow> \<not> on \<Longrightarrow> stop v (change w v) \<longleftrightarrow> (\<exists>b. b \<noteq> w \<and> bit v b)"
begin

lemma level_change:
  assumes "shape sz lo hi bm" "hi \<le> length mem" "d < m_used_depths bm" "x div 64 < width bm d"
    "e < m_used_depths bm"
  shows "level bm (mem[start_of bm d + x div 64 := change (x mod 64) (mem ! (start_of bm d + x div 64))]) e =
    (if e = d then edit on x (level bm mem d) else level bm mem e)"
proof (cases "e = d")
  case True
  have eq: "y = x \<longleftrightarrow> y div 64 = x div 64 \<and> y mod 64 = x mod 64" for y
    by (metis div_mult_mod_eq)
  show ?thesis
  proof (subst level_store [OF assms], unfold True simp_thms if_True, rule set_eqI)
    fix y
    show "y \<in> {y \<in> level bm mem d. y div 64 \<noteq> x div 64} \<union>
        {y. y div 64 = x div 64 \<and> bit (change (x mod 64) (mem ! (start_of bm d + x div 64))) (y mod 64)} \<longleftrightarrow>
      y \<in> edit on x (level bm mem d)"
      using assms(4) by (cases "y div 64 = x div 64") (simp_all add: mem_edit mem_level bit_change eq)
  qed
next
  case False
  then show ?thesis by (simp add: level_store [OF assms])
qed

lemma stop_other:
  assumes "x div 64 < width bm d" "x \<in> level bm mem d \<longleftrightarrow> \<not> on"
  shows "stop (mem ! (start_of bm d + x div 64)) (change (x mod 64) (mem ! (start_of bm d + x div 64))) \<longleftrightarrow>
    (\<exists>y \<in> level bm mem d. y \<noteq> x \<and> y div 64 = x div 64)"
proof -
  have "bit (mem ! (start_of bm d + x div 64)) (x mod 64) \<longleftrightarrow> \<not> on"
    using assms by (simp add: mem_level)
  then have "stop (mem ! (start_of bm d + x div 64)) (change (x mod 64) (mem ! (start_of bm d + x div 64))) \<longleftrightarrow>
      (\<exists>b. b \<noteq> x mod 64 \<and> bit (mem ! (start_of bm d + x div 64)) b)"
    by (simp add: stop_iff)
  also have "\<dots> \<longleftrightarrow> (\<exists>y \<in> level bm mem d. y \<noteq> x \<and> y div 64 = x div 64)"
  proof
    assume "\<exists>b. b \<noteq> x mod 64 \<and> bit (mem ! (start_of bm d + x div 64)) b"
    then obtain b where b: "b \<noteq> x mod 64" "bit (mem ! (start_of bm d + x div 64)) b"
      by blast
    then have "b < 64"
      using bit_imp_le_length by fastforce
    with b assms(1) have "64 * (x div 64) + b \<in> level bm mem d"
      by (simp add: level_bit)
    moreover have "(64 * (x div 64) + b) mod 64 = b" "(64 * (x div 64) + b) div 64 = x div 64"
      using \<open>b < 64\<close> by simp_all
    moreover from this b(1) have "64 * (x div 64) + b \<noteq> x" by metis
    ultimately show "\<exists>y \<in> level bm mem d. y \<noteq> x \<and> y div 64 = x div 64" by blast
  next
    assume "\<exists>y \<in> level bm mem d. y \<noteq> x \<and> y div 64 = x div 64"
    then obtain y where "y \<in> level bm mem d" "y \<noteq> x" "y div 64 = x div 64" by blast
    then show "\<exists>b. b \<noteq> x mod 64 \<and> bit (mem ! (start_of bm d + x div 64)) b"
      by (intro exI [of _ "y mod 64"]) (auto simp: mem_level, metis div_mult_mod_eq)
  qed
  finally show ?thesis .
qed

lemma walk_ok:
  assumes sh: "shape sz lo hi bm" and len: "hi \<le> length mem" and "d < m_used_depths bm"
    and "x div 64 < width bm d" "x \<in> level bm mem d \<longleftrightarrow> \<not> on" "in_sync bm mem d"
  shows "\<exists>mem'. walk (Suc d) x bm mem = Some mem' \<and> walked lo hi bm d (edit on x (level bm mem d)) mem mem'"
  using assms(2-)
proof (induction d arbitrary: x mem)
  let ?put = "\<lambda>mem d x. mem[start_of bm d + x div 64 := change (x mod 64) (mem ! (start_of bm d + x div 64))]"
  have put: "walk (Suc d) x bm mem =
      (if stop (mem ! (start_of bm d + x div 64)) (change (x mod 64) (mem ! (start_of bm d + x div 64)))
       then Some (?put mem d x) else walk d (x div 64) bm (?put mem d x))"
    "\<And>i. i < lo \<or> hi \<le> i \<Longrightarrow> ?put mem d x ! i = mem ! i"
    if "hi \<le> length mem" "d < m_used_depths bm" "x div 64 < width bm d" for mem d x
    using that shape_cell [OF sh that(2,3)] sh by (auto simp: walk_step fetch_def [of mem] store_def)
  {
    case 0
    note lv = level_change [OF sh 0(1-3)]
    have "walk (Suc 0) x bm mem = Some (?put mem 0 x)"
      using put(1) [OF 0(1-3)] by (simp add: walk_end)
    moreover have "walked lo hi bm 0 (edit on x (level bm mem 0)) mem (?put mem 0 x)"
      using put(2) [OF 0(1-3)] 0(2) lv by (simp add: walked_def in_sync_def)
    ultimately show ?case by blast
  next
    case (Suc d)
    note lv = level_change [OF sh Suc.prems(1-3)]
    let ?L = "level bm mem (Suc d)" and ?m = "?put mem (Suc d) x"
    have sync: "level bm ?m d = parents ?L"
      using Suc.prems(2,5) lv [of d] by (simp add: in_sync_def)
    have below: "in_sync bm ?m d"
      using Suc.prems(2,5) lv by (simp add: in_sync_def)
    show ?case
    proof (cases "\<exists>y \<in> ?L. y \<noteq> x \<and> y div 64 = x div 64")
      case True
      then have "parents (edit on x ?L) = parents ?L"
        using parents_edit_other by blast
      then have "walked lo hi bm (Suc d) (edit on x ?L) mem ?m"
        using put(2) [OF Suc.prems(1-3)] sync below Suc.prems(2) lv
        by (auto simp: walked_def in_sync_def less_Suc_eq)
      moreover have "walk (Suc (Suc d)) x bm mem = Some ?m"
        using put(1) [OF Suc.prems(1-3)] stop_other [OF Suc.prems(3,4)] True by simp
      ultimately show ?thesis by blast
    next
      case False
      have par: "parents (edit on x ?L) = edit on (x div 64) (parents ?L)"
        using False by (intro parents_edit_last) blast
      have "x div 64 \<in> level bm ?m d \<longleftrightarrow> \<not> on"
        unfolding sync mem_parents Bex_def using False Suc.prems(4) by metis
      then obtain mem' where mem': "walk (Suc d) (x div 64) bm ?m = Some mem'"
        "walked lo hi bm d (edit on (x div 64) (level bm ?m d)) ?m mem'"
        using Suc.IH [of ?m "x div 64"] parent_width [OF sh, of d] Suc.prems below by auto
      moreover have "walk (Suc (Suc d)) x bm mem = walk (Suc d) (x div 64) bm ?m"
        using put(1) [OF Suc.prems(1-3)] stop_other [OF Suc.prems(3,4)] False by simp
      moreover have "walked lo hi bm (Suc d) (edit on x ?L) mem mem'"
        using walkedD [OF mem'(2)] lv put(2) [OF Suc.prems(1-3)] Suc.prems(2) par sync
        by (auto simp: walked_def in_sync_def less_Suc_eq)
      ultimately show ?thesis by auto
    qed
  }
qed

end

interpretation set_walk: bit_walk SetBit_from "\<lambda>w v. v OR push_bit w 1" "\<lambda>v v'. v \<noteq> 0" True
proof
  fix v :: u64 and w b :: nat
  assume w: "w < 64"
  then show b: "bit (v OR push_bit w 1) b \<longleftrightarrow> (if b = w then True else bit v b)" for b
    by (auto simp: bit_or_iff bit_exp_iff)
  assume "bit v w \<longleftrightarrow> \<not> True"
  then show "v \<noteq> 0 \<longleftrightarrow> (\<exists>b. b \<noteq> w \<and> bit v b)"
    using nonzero_word_bit [of v] by (metis bit_0_eq bot_apply bot_bool_def)
qed (simp_all add: Let_def)

interpretation clear_walk: bit_walk ClearBit_from "\<lambda>w v. v AND NOT (push_bit w 1)" "\<lambda>v v'. v' \<noteq> 0" False
proof
  fix v :: u64 and w b :: nat
  assume w: "w < 64"
  then show b: "bit (v AND NOT (push_bit w 1)) b \<longleftrightarrow> (if b = w then False else bit v b)" for b
    using bit_imp_le_length [of v b] by (auto simp: bit_and_iff bit_not_iff bit_exp_iff)
  assume "bit v w \<longleftrightarrow> \<not> False"
  show "v AND NOT (push_bit w 1) \<noteq> 0 \<longleftrightarrow> (\<exists>b. b \<noteq> w \<and> bit v b)"
    using b nonzero_word_bit [of "v AND NOT (push_bit w 1)"] by (metis bit_0_eq bot_apply bot_bool_def)
qed (simp_all add: Let_def)

end
