(* ===== verification/PageBitmap_Spec.thy ===== *)
theory PageBitmap_Spec
  imports PageBitmap_Laws
begin

text \<open>
  A page bitmap refines a finite set of bit numbers: the operations of the bitmap on this set, for a
  bitmap whose words lie between two bounds of the management data.
\<close>

section \<open>The invariant\<close>

definition leaf :: "KPageBitmap \<Rightarrow> nat" where
  "leaf bm = m_used_depths bm - 1"

definition outside :: "nat \<Rightarrow> nat \<Rightarrow> storage \<Rightarrow> storage \<Rightarrow> bool" where
  "outside lo hi mem mem' \<longleftrightarrow> length mem' = length mem \<and> (\<forall>i. i < lo \<or> hi \<le> i \<longrightarrow> mem' ! i = mem ! i)"

definition bitmap_ok :: "nat \<Rightarrow> nat \<Rightarrow> nat \<Rightarrow> storage \<Rightarrow> KPageBitmap \<Rightarrow> nat set \<Rightarrow> bool" where
  "bitmap_ok sz lo hi mem bm F \<longleftrightarrow>
     shape sz lo hi bm \<and> hi \<le> length mem \<and> sz < 2 ^ 64 \<and>
     level bm mem (leaf bm) = F \<and> F \<subseteq> {..<sz} \<and>
     in_sync bm mem (leaf bm) \<and> m_num_bits bm = card F"

lemma bitmap_okD:
  assumes "bitmap_ok sz lo hi mem bm F"
  shows "shape sz lo hi bm" "hi \<le> length mem" "sz < 2 ^ 64" "level bm mem (leaf bm) = F"
    "F \<subseteq> {..<sz}" "in_sync bm mem (leaf bm)" "m_num_bits bm = card F" "0 < m_used_depths bm"
    "finite F" "card F < 2 ^ 64"
proof -
  show sub: "F \<subseteq> {..<sz}" and "sz < 2 ^ 64" "shape sz lo hi bm"
    using assms by (simp_all add: bitmap_ok_def)
  then show "finite F" "0 < m_used_depths bm"
    using finite_subset by (auto simp: shape_def)
  from sub have "card F \<le> sz"
    using card_mono [of "{..<sz}" F] by simp
  with \<open>sz < 2 ^ 64\<close> show "card F < 2 ^ 64" by simp
qed (use assms in \<open>simp_all add: bitmap_ok_def\<close>)

lemma leaf_less: "shape sz lo hi bm \<Longrightarrow> leaf bm < m_used_depths bm"
  and Suc_leaf: "shape sz lo hi bm \<Longrightarrow> Suc (leaf bm) = m_used_depths bm"
  by (simp_all add: leaf_def shape_def)

lemma leaf_eq: "m_used_depths bm - Suc 0 = leaf bm"
  by (simp add: leaf_def)

lemma leaf_fields [simp]:
  "leaf (bm\<lparr>m_num_bits := n\<rparr>) = leaf bm" "leaf (bm\<lparr>bitmap_rng := g\<rparr>) = leaf bm"
  by (simp_all add: leaf_def)

lemma shape_fields [simp]:
  "shape sz lo hi (bm\<lparr>m_num_bits := n\<rparr>) = shape sz lo hi bm"
  "shape sz lo hi (bm\<lparr>bitmap_rng := g\<rparr>) = shape sz lo hi bm"
  by (simp_all add: shape_def)

lemma level_fields [simp]:
  "level (bm\<lparr>m_num_bits := n\<rparr>) = level bm" "level (bm\<lparr>bitmap_rng := g\<rparr>) = level bm"
  by (simp_all add: fun_eq_iff level_def width_def)

lemma in_sync_fields [simp]:
  "in_sync (bm\<lparr>m_num_bits := n\<rparr>) = in_sync bm" "in_sync (bm\<lparr>bitmap_rng := g\<rparr>) = in_sync bm"
  by (simp_all add: fun_eq_iff in_sync_def)

lemma bitmap_ok_rng [simp]: "bitmap_ok sz lo hi mem (bm\<lparr>bitmap_rng := g\<rparr>) F = bitmap_ok sz lo hi mem bm F"
  by (simp add: bitmap_ok_def)

lemma bitmap_ok_frame:
  assumes "bitmap_ok sz lo hi mem bm F" "length mem' = length mem"
    "\<And>i. lo \<le> i \<Longrightarrow> i < hi \<Longrightarrow> mem' ! i = mem ! i"
  shows "bitmap_ok sz lo hi mem' bm F"
proof -
  have "level bm mem' d = level bm mem d" if "d < m_used_depths bm" for d
    using level_cong [OF bitmap_okD(1) [OF assms(1)] that] assms(3) by blast
  then show ?thesis
    using assms(1,2) leaf_less [OF bitmap_okD(1) [OF assms(1)]] by (simp add: bitmap_ok_def in_sync_def)
qed

lemma bitmap_ok_outside:
  assumes "bitmap_ok sz lo hi mem bm F" "outside lo' hi' mem mem'" "hi \<le> lo' \<or> hi' \<le> lo"
  shows "bitmap_ok sz lo hi mem' bm F"
  using assms(2,3) by (intro bitmap_ok_frame [OF assms(1)]) (auto simp: outside_def)

lemma leaf_width:
  assumes "shape sz lo hi bm"
  shows "width bm (leaf bm) = (sz + 63) div 64"
proof -
  have "m_used_depths bm - leaf bm = Suc 0"
    using shapeD(1) [OF assms] by (simp add: leaf_def)
  then show ?thesis
    using shapeD(5) [OF assms leaf_less [OF assms]] by simp
qed

lemma leaf_bound: "shape sz lo hi bm \<Longrightarrow> x < sz \<Longrightarrow> x div 64 < width bm (leaf bm)"
  using leaf_width by fastforce

section \<open>Setting and clearing\<close>

declare SetBit_from.simps [simp del] ClearBit_from.simps [simp del]

lemma bitmap_ok_walked:
  assumes "bitmap_ok sz lo hi mem bm F" "walked lo hi bm (leaf bm) F' mem mem'"
    and "F' \<subseteq> {..<sz}" "n = card F'"
  shows "bitmap_ok sz lo hi mem' (bm\<lparr>m_num_bits := n\<rparr>) F'" "outside lo hi mem mem'"
  using assms walkedD [OF assms(2)] by (auto simp: bitmap_ok_def outside_def)

lemma wrap64_less: "n < 2 ^ 64 \<Longrightarrow> wrap64 n = n"
  by (simp add: wrap64_def)

lemma sub64_less:
  assumes "b \<le> a" "a < 2 ^ 64"
  shows "sub64 a b = a - b"
proof -
  have "a + (2 ^ 64 - b mod 2 ^ 64) = (a - b) + 2 ^ 64"
    using assms by simp
  then show ?thesis
    using assms by (simp only: sub64_def mod_add_self2) simp
qed

lemma SetBit_ok:
  assumes "bitmap_ok sz lo hi mem bm F" "x < sz" "x \<notin> F"
  shows "\<exists>mem'. SetBit x (mem, bm) = Some (mem', bm\<lparr>m_num_bits := card (insert x F)\<rparr>) \<and>
    bitmap_ok sz lo hi mem' (bm\<lparr>m_num_bits := card (insert x F)\<rparr>) (insert x F) \<and> outside lo hi mem mem'"
proof -
  note ok = bitmap_okD [OF assms(1)]
  obtain d where d: "m_used_depths bm = Suc d" "leaf bm = d"
    using ok(8) by (cases "m_used_depths bm") (auto simp: leaf_def)
  obtain mem' where walk: "SetBit_from (Suc d) x bm mem = Some mem'"
    "walked lo hi bm d (edit True x (level bm mem d)) mem mem'"
    using set_walk.walk_ok [OF ok(1,2), of d x] leaf_bound [OF ok(1) assms(2)] ok(4,6) assms(3) d by auto
  then have w: "walked lo hi bm (leaf bm) (insert x F) mem mem'"
    using ok(4) d by (simp add: edit_def)
  have "insert x F \<subseteq> {..<sz}"
    using ok(5) assms(2) by simp
  moreover from this have "card (insert x F) < 2 ^ 64"
    using card_mono [of "{..<sz}" "insert x F"] ok(3) by simp
  then have "wrap64 (card F + 1) = card (insert x F)"
    using assms(3) ok(9) by (simp add: wrap64_less)
  ultimately show ?thesis
    using bitmap_ok_walked [OF assms(1) w] walk(1) d ok(7) by (simp add: SetBit_def)
qed

lemma ClearBit_ok:
  assumes "bitmap_ok sz lo hi mem bm F" "x \<in> F"
  shows "\<exists>mem'. ClearBit x (mem, bm) = Some (mem', bm\<lparr>m_num_bits := card (F - {x})\<rparr>) \<and>
    bitmap_ok sz lo hi mem' (bm\<lparr>m_num_bits := card (F - {x})\<rparr>) (F - {x}) \<and> outside lo hi mem mem'"
proof -
  note ok = bitmap_okD [OF assms(1)]
  obtain d where d: "m_used_depths bm = Suc d" "leaf bm = d"
    using ok(8) by (cases "m_used_depths bm") (auto simp: leaf_def)
  have "x < sz"
    using ok(5) assms(2) by auto
  obtain mem' where walk: "ClearBit_from (Suc d) x bm mem = Some mem'"
    "walked lo hi bm d (edit False x (level bm mem d)) mem mem'"
    using clear_walk.walk_ok [OF ok(1,2), of d x] leaf_bound [OF ok(1) \<open>x < sz\<close>] ok(4,6) assms(2) d by auto
  then have w: "walked lo hi bm (leaf bm) (F - {x}) mem mem'"
    using ok(4) d by (simp add: edit_def)
  have "0 < card F"
    using assms(2) ok(9) by (auto simp: card_gt_0_iff)
  then have "sub64 (card F) 1 = card (F - {x})"
    using assms(2) ok(9,10) by (simp add: sub64_less Suc_le_eq)
  moreover have "F - {x} \<subseteq> {..<sz}"
    using ok(5) by auto
  ultimately show ?thesis
    using bitmap_ok_walked [OF assms(1) w] walk(1) d ok(7) by (simp add: ClearBit_def)
qed


section \<open>Clearing ranges\<close>

lemma walked_store:
  assumes "shape sz lo hi bm" "hi \<le> length mem" "in_sync bm mem (leaf bm)"
    and "i < width bm (leaf bm)" "mem ! (start_of bm (leaf bm) + i) \<noteq> 0" "v \<noteq> 0"
  defines "mem1 \<equiv> mem[start_of bm (leaf bm) + i := v]"
  shows "walked lo hi bm (leaf bm) (level bm mem1 (leaf bm)) mem mem1"
proof -
  let ?d = "leaf bm"
  have d: "?d < m_used_depths bm"
    by (rule leaf_less [OF assms(1)])
  note lv = level_store [OF assms(1,2) d assms(4), of _ v, folded mem1_def]
  have "parents (level bm mem1 ?d) = parents (level bm mem ?d)"
  proof (rule set_eqI)
    fix j
    have nonzero: "i \<in> parents (level bm m ?d) \<longleftrightarrow> m ! (start_of bm ?d + i) \<noteq> 0" for m
      using word_zero_iff [OF assms(4), of m] by (auto simp: mem_parents)
    show "j \<in> parents (level bm mem1 ?d) \<longleftrightarrow> j \<in> parents (level bm mem ?d)"
    proof (cases "j = i")
      case True
      have "mem1 ! (start_of bm ?d + i) = v"
        using shape_cell(2) [OF assms(1) d assms(4)] assms(2) by (simp add: mem1_def)
      then show ?thesis using nonzero True assms(5,6) by simp
    next
      case False
      then show ?thesis by (auto simp: mem_parents lv [OF d])
    qed
  qed
  then have "in_sync bm mem1 ?d"
    using assms(3) d lv by (auto simp: in_sync_def)
  then show ?thesis
    using lv shape_cell [OF assms(1) d assms(4)] by (auto simp: walked_def mem1_def)
qed

lemma walked_clear_word:
  assumes "shape sz lo hi bm" "hi \<le> length mem" "in_sync bm mem (leaf bm)"
    and "i < width bm (leaf bm)" "mem ! (start_of bm (leaf bm) + i) \<noteq> 0"
  defines "mem1 \<equiv> mem[start_of bm (leaf bm) + i := 0]"
  shows "\<exists>mem'. ClearBit_from (leaf bm) i bm mem1 = Some mem' \<and>
    walked lo hi bm (leaf bm) (level bm mem1 (leaf bm)) mem mem'"
proof (cases "leaf bm")
  case 0
  then show ?thesis
    using shape_cell [OF assms(1), of 0 i] assms(4) shapeD(1) [OF assms(1)] Suc_leaf [OF assms(1)]
    by (auto simp: ClearBit_from.simps walked_def in_sync_def mem1_def)
next
  case (Suc d)
  let ?d = "leaf bm"
  have d: "Suc d < m_used_depths bm" "d < m_used_depths bm" "?d < m_used_depths bm"
    using Suc leaf_less [OF assms(1)] by simp_all
  note lv = level_store [OF assms(1,2) d(3) assms(4), of _ 0, folded mem1_def]
  have sync: "level bm mem1 e = parents (level bm mem1 (Suc e))" if "e < d" for e
    using assms(3) lv [of e] lv [of "Suc e"] Suc d that by (simp add: in_sync_def)
  have above: "level bm mem1 d = parents (level bm mem ?d)"
    using assms(3) lv [of d] Suc d by (simp add: in_sync_def)
  have "i \<in> level bm mem1 d"
    using word_zero_iff [OF assms(4), of mem] assms(5) above by (auto simp: mem_parents)
  then obtain mem' where mem': "ClearBit_from (Suc d) i bm mem1 = Some mem'"
    "walked lo hi bm d (edit False i (level bm mem1 d)) mem1 mem'"
    using clear_walk.walk_ok [OF assms(1), of mem1 d i] parent_width [OF assms(1) d(1), of i] assms(2,4) d(2) sync Suc
    by (auto simp: mem1_def in_sync_def)
  have "edit False i (level bm mem1 d) = parents (level bm mem1 ?d)"
    unfolding above lv [OF d(3)] by (auto simp: mem_parents set_eq_iff edit_def)
  then have "walked lo hi bm ?d (level bm mem1 ?d) mem mem'"
    using walkedD [OF mem'(2)] lv shape_cell [OF assms(1) d(3) assms(4)] Suc d
    by (auto simp: walked_def in_sync_def less_Suc_eq mem1_def)
  then show ?thesis
    using mem'(1) Suc by auto
qed

lemma bit_range_mask:
  assumes "s + c \<le> 64"
  shows "bit (push_bit s (push_bit c 1 - 1) :: u64) b \<longleftrightarrow> s \<le> b \<and> b < s + c"
  using assms by (auto simp: bit_push_bit_iff bit_mask_iff simp flip: mask_eq_exp_minus_1)

lemma covers_mask_iff:
  "(v :: u64) AND m = m \<longleftrightarrow> (\<forall>b. bit m b \<longrightarrow> bit v b)"
proof
  assume "v AND m = m"
  then show "\<forall>b. bit m b \<longrightarrow> bit v b" by (metis bit_and_iff)
next
  assume "\<forall>b. bit m b \<longrightarrow> bit v b"
  then show "v AND m = m" by (intro bit_eqI) (auto simp: bit_and_iff)
qed

lemma range_in_word:
  fixes offset count x :: nat
  assumes "offset mod 64 + count \<le> 64"
  shows "x \<in> {offset..<offset + count} \<longleftrightarrow>
    x div 64 = offset div 64 \<and> offset mod 64 \<le> x mod 64 \<and> x mod 64 < offset mod 64 + count"
proof -
  define q r p t where "q = offset div 64" "r = offset mod 64" "p = x div 64" "t = x mod 64"
  then have "offset = 64 * q + r" "x = 64 * p + t" "t < 64"
    by simp_all
  then have "offset \<le> x \<and> x < offset + count \<longleftrightarrow> p = q \<and> r \<le> t \<and> t < r + count"
    using assms unfolding \<open>r = offset mod 64\<close> [symmetric] by (cases p q rule: linorder_cases) auto
  then show ?thesis
    by (simp add: \<open>q = _\<close> \<open>r = _\<close> \<open>p = _\<close> \<open>t = _\<close>)
qed

abbreviation range_bits :: "nat \<Rightarrow> nat \<Rightarrow> u64" where
  "range_bits offset count \<equiv> push_bit (offset mod 64) (push_bit count 1 - 1)"

lemma bit_range_bits:
  assumes "offset mod 64 + count \<le> 64"
  shows "bit (range_bits offset count) b \<longleftrightarrow> 64 * (offset div 64) + b \<in> {offset..<offset + count} \<and> b < 64"
  unfolding bit_range_mask [OF assms] range_in_word [OF assms] using assms by auto

lemma range_bits_covered:
  fixes mem :: storage
  assumes "offset mod 64 + count \<le> 64" "offset div 64 < width bm d"
  defines "v \<equiv> mem ! (start_of bm d + offset div 64)"
  shows "v AND range_bits offset count = range_bits offset count \<longleftrightarrow> {offset..<offset + count} \<subseteq> level bm mem d"
proof -
  let ?R = "{offset..<offset + count}" and ?i = "offset div 64"
  have "v AND range_bits offset count = range_bits offset count \<longleftrightarrow>
      (\<forall>b. 64 * ?i + b \<in> ?R \<and> b < 64 \<longrightarrow> 64 * ?i + b \<in> level bm mem d)"
    unfolding covers_mask_iff bit_range_bits [OF assms(1)] v_def using level_bit [OF assms(2)] by blast
  also have "\<dots> \<longleftrightarrow> ?R \<subseteq> level bm mem d"
  proof
    assume all: "\<forall>b. 64 * ?i + b \<in> ?R \<and> b < 64 \<longrightarrow> 64 * ?i + b \<in> level bm mem d"
    show "?R \<subseteq> level bm mem d"
    proof
      fix x assume x: "x \<in> ?R"
      then have "64 * ?i + x mod 64 = x"
        unfolding range_in_word [OF assms(1)] by (metis mult_div_mod_eq)
      then show "x \<in> level bm mem d"
        using all [rule_format, of "x mod 64"] x by simp
    qed
  qed blast
  finally show ?thesis .
qed

lemma level_clear_range:
  assumes "shape sz lo hi bm" "hi \<le> length mem" "d < m_used_depths bm" "offset div 64 < width bm d"
    and "offset mod 64 + count \<le> 64"
  defines "v \<equiv> mem ! (start_of bm d + offset div 64)"
  shows "level bm (mem[start_of bm d + offset div 64 := v AND NOT (range_bits offset count)]) d =
    level bm mem d - {offset..<offset + count}" (is "?L = _")
proof (rule set_eqI)
  fix x
  let ?R = "{offset..<offset + count}" and ?i = "offset div 64"
  show "x \<in> ?L \<longleftrightarrow> x \<in> level bm mem d - ?R"
  proof (cases "x div 64 = ?i")
    case True
    then have x: "64 * ?i + x mod 64 = x" by (metis mult_div_mod_eq)
    have "bit (v AND NOT (range_bits offset count)) (x mod 64) \<longleftrightarrow> x \<in> level bm mem d - ?R"
      using level_bit [OF assms(4), of "x mod 64" mem] bit_range_bits [OF assms(5), of "x mod 64"] x
        bit_imp_le_length [of v "x mod 64"]
      by (auto simp: bit_and_iff bit_not_iff v_def)
    with True show ?thesis
      by (simp add: level_store [OF assms(1-4,3)])
  next
    case False
    then have "x \<notin> ?R"
      unfolding range_in_word [OF assms(5)] by blast
    with False show ?thesis
      by (simp add: level_store [OF assms(1-4,3)])
  qed
qed

lemma ClearRange_ok:
  assumes "bitmap_ok sz lo hi mem bm F" "0 < count" "count < 64" "offset mod 64 + count \<le> 64" "offset < sz"
  shows "if {offset..<offset + count} \<subseteq> F
    then \<exists>mem'. ClearRange offset count (mem, bm) =
             Some (True, mem', bm\<lparr>m_num_bits := card (F - {offset..<offset + count})\<rparr>) \<and>
           bitmap_ok sz lo hi mem' (bm\<lparr>m_num_bits := card (F - {offset..<offset + count})\<rparr>)
             (F - {offset..<offset + count}) \<and> outside lo hi mem mem'
    else ClearRange offset count (mem, bm) = Some (False, mem, bm)"
proof -
  note ok = bitmap_okD [OF assms(1)] and d = leaf_less [OF bitmap_okD(1) [OF assms(1)]]
  let ?R = "{offset..<offset + count}" and ?d = "leaf bm" and ?i = "offset div 64"
  let ?v = "mem ! (start_of bm ?d + ?i)"
  let ?w = "?v AND NOT (range_bits offset count)"
  let ?mem1 = "mem[start_of bm ?d + ?i := ?w]"
  have i: "?i < width bm ?d"
    by (rule leaf_bound [OF ok(1) assms(5)])
  have bound: "start_of bm ?d + ?i < length mem"
    using shape_cell(2) [OF ok(1) d i] ok(2) by simp
  note fetch = fetch_start [OF ok(1) d]
  note all_set = range_bits_covered [OF assms(4) i, of mem, unfolded ok(4)]
  show ?thesis
  proof (cases "?R \<subseteq> F")
    case False
    then show ?thesis
      using all_set fetch bound ok(8) assms(3) by (simp add: ClearRange_def leaf_eq fetch_def [of mem] Let_def)
  next
    case True
    then have "offset \<in> level bm mem ?d"
      using ok(4) assms(2) by auto
    then have nz: "?v \<noteq> 0"
      using word_zero_iff [OF i, of mem] by blast
    have "\<exists>mem'. (if ?w = 0 then ClearBit_from ?d ?i bm ?mem1 else Some ?mem1) = Some mem' \<and>
        walked lo hi bm ?d (F - ?R) mem mem'"
      using walked_clear_word [OF ok(1,2,6) i nz] walked_store [OF ok(1,2,6) i nz, of ?w]
        level_clear_range [OF ok(1,2) d i assms(4)] ok(4) by (cases "?w = 0") auto
    then obtain mem' where mem': "(if ?w = 0 then ClearBit_from ?d ?i bm ?mem1 else Some ?mem1) = Some mem'"
      "walked lo hi bm ?d (F - ?R) mem mem'" by blast
    have "card (F - ?R) = card F - count" "count \<le> card F"
      using True card_Diff_subset [of ?R F] card_mono [OF ok(9) True] by simp_all
    then have num: "sub64 (m_num_bits bm) count = card (F - ?R)"
      using ok(7,10) by (simp add: sub64_less)
    have "ClearRange offset count (mem, bm) = Some (True, mem', bm\<lparr>m_num_bits := card (F - ?R)\<rparr>)"
      using mem'(1) True all_set fetch bound ok(8) assms(3) num
      by (auto simp: ClearRange_def leaf_eq fetch_def [of mem] store_def Let_def split: if_splits)
    moreover have "F - ?R \<subseteq> {..<sz}"
      using ok(5) by blast
    ultimately show ?thesis
      using True bitmap_ok_walked [OF assms(1) mem'(2)] by auto
  qed
qed

end
