(* ===== verification/PageBitmap_Search.thy ===== *)
theory PageBitmap_Search
  imports PageBitmap_Spec
begin

text \<open>
  The other operations of a page bitmap on its set of bits: the descent that finds a set bit,
  the search for a range, ranges of whole words, and the layout that \<^verbatim>\<open>Initialize\<close> makes.
\<close>

section \<open>Finding a block\<close>

text \<open>\<open>descend\<close>: from a word of a level that has a bit set, the search reaches a bit of the lowest level below it.\<close>

lemma find_free_block_descends:
  assumes sh: "shape sz lo hi bm" and "hi \<le> length mem" "in_sync bm mem (leaf bm)"
    and pick: "\<And>v g. v \<noteq> 0 \<Longrightarrow> fst (pick v g) < 64 \<and> bit v (fst (pick v g))"
    and "d < m_used_depths bm" "x < width bm d" "\<exists>y \<in> level bm mem d. y div 64 = x"
  shows "\<exists>y g'. find_free_block_loop pick mem d x (bm\<lparr>bitmap_rng := g\<rparr>) = Some (Some y, bm\<lparr>bitmap_rng := g'\<rparr>) \<and>
    y \<in> level bm mem (leaf bm)"
  using assms(5-)
proof (induction "leaf bm - d" arbitrary: d x g)
  let ?loop = "find_free_block_loop pick mem"
  have step: "\<exists>b g'. 64 * x + b \<in> level bm mem d \<and> b < 64 \<and>
      ?loop d x (bm\<lparr>bitmap_rng := g\<rparr>) =
        (if d + 1 < m_used_depths bm then ?loop (d + 1) (x * 64 + b) (bm\<lparr>bitmap_rng := g'\<rparr>)
         else Some (Some (x * 64 + b), bm\<lparr>bitmap_rng := g'\<rparr>))"
    if "d < m_used_depths bm" "x < width bm d" "\<exists>y \<in> level bm mem d. y div 64 = x" for d x g
  proof -
    let ?v = "mem ! (start_of bm d + x)"
    have v: "?v \<noteq> 0"
      using word_zero_iff [OF that(2), of mem] that(3) by blast
    have "start_of bm d + x < length mem"
      using shape_cell(2) [OF sh that(1,2)] assms(2) by simp
    then have "?loop d x (bm\<lparr>bitmap_rng := g\<rparr>) =
        (if d + 1 < m_used_depths bm
         then ?loop (d + 1) (x * 64 + fst (pick ?v g)) (bm\<lparr>bitmap_rng := snd (pick ?v g)\<rparr>)
         else Some (Some (x * 64 + fst (pick ?v g)), bm\<lparr>bitmap_rng := snd (pick ?v g)\<rparr>))"
      using v fetch_start [OF sh that(1)]
      by (subst find_free_block_loop.simps) (simp add: fetch_def [of mem] split_beta Let_def)
    then show ?thesis
      using pick [OF v, of g] level_bit [OF that(2), of "fst (pick ?v g)" mem] by blast
  qed
  {
    case (0 d x g)
    then have d: "d = leaf bm" "\<not> d + 1 < m_used_depths bm"
      using Suc_leaf [OF sh] by simp_all
    with step [OF 0(2-4), of g] show ?case
      by (auto simp: mult.commute)
  next
    case (Suc n d x g)
    then have d: "d < leaf bm" "d + 1 < m_used_depths bm"
      using Suc_leaf [OF sh] by simp_all
    obtain b g' where b: "64 * x + b \<in> level bm mem d" "b < 64"
      "?loop d x (bm\<lparr>bitmap_rng := g\<rparr>) = ?loop (d + 1) (x * 64 + b) (bm\<lparr>bitmap_rng := g'\<rparr>)"
      using step [OF Suc(3-5), of g] d(2) by auto
    then have child: "\<exists>y \<in> level bm mem (d + 1). y div 64 = x * 64 + b"
      using in_syncD [OF assms(3) d(1)] by (simp add: mem_parents mult.commute)
    then have "x * 64 + b < width bm (d + 1)"
      by (auto simp: mem_level)
    with Suc(1) [of "d + 1" "x * 64 + b" g'] child d Suc(2) b(3) show ?case
      by simp
  }
qed

lemma level_empty_up:
  assumes "in_sync bm mem n" "level bm mem n = {}" "d \<le> n"
  shows "level bm mem d = {}"
  using assms(3,2)
proof (induction rule: dec_induct)
  case base
  then show ?case by simp
next
  case (step k)
  then show ?case
    using in_syncD [OF assms(1), of k] by (simp add: parents_def)
qed


lemma FindFreeBlock_ok:
  assumes "bitmap_ok sz lo hi mem bm F"
  shows "if F = {} then FindFreeBlock random mem bm = Some (None, bm)
    else \<exists>x g. FindFreeBlock random mem bm = Some (Some x, bm\<lparr>bitmap_rng := g\<rparr>) \<and> x \<in> F"
proof -
  note ok = bitmap_okD [OF assms]
  let ?pick = "if random then SelectRandomBit else (\<lambda>v g. (countr_zero v, g))"
  have pick: "fst (?pick v g) < 64 \<and> bit v (fst (?pick v g))" if "v \<noteq> 0" for v g
    using bit_countr_zero [OF that] SelectRandomBit_selects [OF that] by simp
  have top: "0 < width bm 0" "x div 64 = 0" if "x \<in> level bm mem 0" for x
    using that shapeD(7) [OF ok(1)] by (auto simp: mem_level)
  show ?thesis
  proof (cases "F = {}")
    case True
    then have "level bm mem 0 = {}"
      using level_empty_up [OF ok(6), of 0] ok(4) by simp
    then have "mem ! (start_of bm 0 + 0) = 0"
      using word_zero_iff [of 0 bm 0 mem] shapeD(7) [OF ok(1)] by simp
    moreover have "start_of bm 0 < length mem"
      using shape_cell(2) [OF ok(1,8), of 0] shapeD(7) [OF ok(1)] ok(2) by simp
    ultimately show ?thesis
      using True fetch_start [OF ok(1,8)]
      by (simp add: FindFreeBlock_def find_free_block_loop.simps [of _ mem 0] fetch_def [of mem])
  next
    case False
    have "level bm mem 0 \<noteq> {}"
    proof -
      have "level bm mem d \<noteq> {}" if "d \<le> leaf bm" for d
        using that
      proof (induction rule: inc_induct)
        case base
        then show ?case using False ok(4) by simp
      next
        case (step n)
        then show ?case using in_syncD [OF ok(6), of n] by (simp add: parents_def)
      qed
      then show ?thesis by blast
    qed
    then obtain y where "y \<in> level bm mem 0" by blast
    with top have "\<exists>y \<in> level bm mem 0. y div 64 = 0" "0 < width bm 0" by blast+
    then show ?thesis
      using False find_free_block_descends [OF ok(1,2,6) pick ok(8), where x = 0 and g = "bitmap_rng bm"] ok(4)
      by (simp add: FindFreeBlock_def)
  qed
qed

section \<open>Ranges of whole words\<close>

lemma words_full_ok:
  assumes "at + n \<le> length mem"
  shows "words_full at n mem = Some (\<forall>j < n. mem ! (at + j) = NOT 0)"
  using assms
proof (induction n arbitrary: at)
  case (Suc n)
  have "(\<forall>j < Suc n. mem ! (at + j) = NOT 0) \<longleftrightarrow> mem ! at = NOT 0 \<and> (\<forall>j < n. mem ! (at + 1 + j) = NOT 0)"
    by (auto simp: less_Suc_eq_0_disj)
  then show ?case
    using Suc by (auto simp: fetch_def)
qed simp

lemma clear_words_ok:
  assumes "shape sz lo hi bm" "hi \<le> length mem" "in_sync bm mem (leaf bm)" "i + n \<le> width bm (leaf bm)"
    and "\<And>j. j < n \<Longrightarrow> mem ! (start_of bm (leaf bm) + (i + j)) \<noteq> 0"
  shows "\<exists>mem'. clear_words (leaf bm) (start_of bm (leaf bm)) i n bm mem = Some mem' \<and>
    walked lo hi bm (leaf bm) (level bm mem (leaf bm) - {64 * i..<64 * (i + n)}) mem mem'"
  using assms(2-)
proof (induction n arbitrary: i mem)
  case 0
  then show ?case by (simp add: walked_def)
next
  case (Suc n)
  let ?d = "leaf bm"
  note d = leaf_less [OF assms(1)]
  have i: "i < width bm ?d" and nz: "mem ! (start_of bm ?d + i) \<noteq> 0"
    using Suc.prems(3) Suc.prems(4) [of 0] by simp_all
  let ?mem1 = "mem[start_of bm ?d + i := 0]"
  obtain mem2 where mem2: "ClearBit_from ?d i bm ?mem1 = Some mem2"
    "walked lo hi bm ?d (level bm ?mem1 ?d) mem mem2"
    using walked_clear_word [OF assms(1) Suc.prems(1,2) i nz] by blast
  note w = walkedD [OF mem2(2)]
  have lv: "level bm mem2 ?d = {x \<in> level bm mem ?d. x div 64 \<noteq> i}"
    unfolding w(2) level_store [OF assms(1) Suc.prems(1) d i d] by simp
  have "mem2 ! (start_of bm ?d + (Suc i + j)) \<noteq> 0" if "j < n" for j
  proof -
    have k: "Suc i + j < width bm ?d"
      using that Suc.prems(3) by simp
    have "\<exists>x \<in> level bm mem ?d. x div 64 = Suc i + j"
      using Suc.prems(4) [of "Suc j"] word_zero_iff [OF k, of mem] that by auto
    then show ?thesis
      using word_zero_iff [OF k, of mem2] unfolding lv by force
  qed
  with Suc.IH [of mem2 "Suc i"] Suc.prems w obtain mem' where mem':
    "clear_words ?d (start_of bm ?d) (Suc i) n bm mem2 = Some mem'"
    "walked lo hi bm ?d (level bm mem2 ?d - {64 * Suc i..<64 * (Suc i + n)}) mem2 mem'"
    by auto
  have "x div 64 \<noteq> i \<and> x \<notin> {64 * Suc i..<64 * (Suc i + n)} \<longleftrightarrow> x \<notin> {64 * i..<64 * (i + Suc n)}" for x
  proof -
    have "x div 64 = i \<longleftrightarrow> x \<in> {64 * i..<64 * Suc i}" by auto
    moreover have "{64 * i..<64 * (i + Suc n)} = {64 * i..<64 * Suc i} \<union> {64 * Suc i..<64 * (Suc i + n)}"
      by (subst ivl_disj_un_two(3)) simp_all
    ultimately show ?thesis by blast
  qed
  then have "level bm mem2 ?d - {64 * Suc i..<64 * (Suc i + n)} = level bm mem ?d - {64 * i..<64 * (i + Suc n)}"
    unfolding lv by blast
  moreover have "start_of bm ?d + i < length mem"
    using shape_cell(2) [OF assms(1) d i] Suc.prems(1) by simp
  ultimately have "clear_words ?d (start_of bm ?d) i (Suc n) bm mem = Some mem'"
    and sets: "level bm mem2 ?d - {64 * Suc i..<64 * (Suc i + n)} = level bm mem ?d - {64 * i..<64 * (i + Suc n)}"
    using mem2(1) mem'(1) by (simp_all add: store_def)
  moreover have "walked lo hi bm ?d (level bm mem ?d - {64 * i..<64 * (i + Suc n)}) mem mem'"
    using w walkedD [OF mem'(2)] unfolding sets walked_def by simp
  ultimately show ?case by blast
qed

lemma ClearRange_words_ok:
  assumes "bitmap_ok sz lo hi mem bm F" "64 \<le> count" "count mod 64 = 0" "offset mod 64 = 0" "offset + count \<le> sz"
  shows "if {offset..<offset + count} \<subseteq> F
    then \<exists>mem'. ClearRange offset count (mem, bm) =
             Some (True, mem', bm\<lparr>m_num_bits := card (F - {offset..<offset + count})\<rparr>) \<and>
           bitmap_ok sz lo hi mem' (bm\<lparr>m_num_bits := card (F - {offset..<offset + count})\<rparr>)
             (F - {offset..<offset + count}) \<and> outside lo hi mem mem'
    else ClearRange offset count (mem, bm) = Some (False, mem, bm)"
proof -
  note ok = bitmap_okD [OF assms(1)] and d = leaf_less [OF bitmap_okD(1) [OF assms(1)]]
  define i n where "i = offset div 64" and "n = count div 64"
  then have off: "offset = 64 * i" "count = 64 * n" "0 < n"
    using assms(2-4) by auto
  let ?R = "{offset..<offset + count}" and ?d = "leaf bm"
  have i: "i + n \<le> width bm ?d"
    using assms(5) off by (simp add: leaf_width [OF ok(1)])
  have bound: "start_of bm ?d + i + n \<le> length mem"
  proof -
    have "i + n - 1 < width bm ?d"
      using i off(3) by linarith
    from shape_cell(2) [OF ok(1) d this] show ?thesis
      using ok(2) off(3) by linarith
  qed
  have full: "(\<forall>j < n. mem ! (start_of bm ?d + i + j) = NOT 0) \<longleftrightarrow> ?R \<subseteq> F"
  proof -
    have word: "mem ! (start_of bm ?d + (i + j)) = NOT 0 \<longleftrightarrow> (\<forall>b < 64. 64 * (i + j) + b \<in> F)" if "j < n" for j
      using level_bit [of "i + j" bm ?d _ mem] that i ok(4) by (auto simp: bit_eq_iff bit_not_iff)
    have "?R \<subseteq> F \<longleftrightarrow> (\<forall>j < n. \<forall>b < 64. 64 * (i + j) + b \<in> F)"
    proof
      assume all: "\<forall>j < n. \<forall>b < 64. 64 * (i + j) + b \<in> F"
      show "?R \<subseteq> F"
      proof
        fix x assume "x \<in> ?R"
        then have "i \<le> x div 64" "x div 64 < i + n"
          using off by auto
        then have "64 * (i + (x div 64 - i)) + x mod 64 = x" "x div 64 - i < n"
          by simp_all
        then show "x \<in> F" using all [rule_format, of "x div 64 - i" "x mod 64"] by simp
      qed
    qed (use off in auto)
    with word show ?thesis by (simp add: add.assoc)
  qed
  show ?thesis
  proof (cases "?R \<subseteq> F")
    case False
    then show ?thesis
      using words_full_ok [of "start_of bm ?d + i" n mem] full bound fetch_start [OF ok(1) d] ok(8) assms(2,3)
      by (simp add: ClearRange_def leaf_eq Let_def i_def n_def)
  next
    case True
    then have "mem ! (start_of bm ?d + (i + j)) \<noteq> 0" if "j < n" for j
      using full that by (simp add: add.assoc)
    then obtain mem' where mem': "clear_words ?d (start_of bm ?d) i n bm mem = Some mem'"
      "walked lo hi bm ?d (F - ?R) mem mem'"
      using clear_words_ok [OF ok(1,2,6) i] ok(4) off by (auto simp: distrib_left)
    have "card (F - ?R) = card F - count" "count \<le> card F"
      using True card_Diff_subset [of ?R F] card_mono [OF ok(9) True] by simp_all
    then have num: "sub64 (m_num_bits bm) count = card (F - ?R)"
      using ok(7,10) by (simp add: sub64_less)
    have "ClearRange offset count (mem, bm) = Some (True, mem', bm\<lparr>m_num_bits := card (F - ?R)\<rparr>)"
      using words_full_ok [of "start_of bm ?d + i" n mem] full True bound fetch_start [OF ok(1) d] ok(8) assms(2,3)
        mem'(1) num
      by (simp add: ClearRange_def leaf_eq Let_def i_def n_def)
    moreover have "F - ?R \<subseteq> {..<sz}"
      using ok(5) by blast
    ultimately show ?thesis
      using True bitmap_ok_walked [OF assms(1) mem'(2)] by auto
  qed
qed


section \<open>Finding a range\<close>

text \<open>The ranges the search considers: \<open>count\<close> bits at a multiple of \<open>count\<close> within one word.\<close>

definition slots :: "nat \<Rightarrow> nat set \<Rightarrow> nat set" where
  "slots count F = {r. \<exists>i opt. r = i * 64 + opt * count \<and> opt < 64 div count \<and> {r..<r + count} \<subseteq> F}"

definition found :: "range_search \<Rightarrow> nat set \<Rightarrow> bool" where
  "found s A \<longleftrightarrow> (num_valid_options s = 0 \<longleftrightarrow> A = {}) \<and>
     (case chosen_offset s of None \<Rightarrow> A = {} | Some r \<Rightarrow> r \<in> A)"

lemma try_option_found:
  assumes "found s A"
  shows "found (try_option count m i w opt s)
    (A \<union> (if w AND m = m then {i * 64 + opt * count} else {}))"
  using assms by (auto simp: found_def try_option_def Let_def split: option.splits prod.splits)

lemma slot_valid:
  fixes mem :: storage
  assumes "i < width bm d" "opt < 64 div count" "count < 64"
  defines "r \<equiv> i * 64 + opt * count"
  shows "drop_bit (opt * count) (mem ! (start_of bm d + i)) AND (push_bit count 1 - 1) = push_bit count 1 - 1 \<longleftrightarrow>
    {r..<r + count} \<subseteq> level bm mem d"
proof -
  have fits: "opt * count + count \<le> 64"
  proof -
    have "Suc opt * count \<le> 64 div count * count"
      using assms(2) by (intro mult_right_mono) auto
    also have "\<dots> \<le> 64" by simp
    finally show ?thesis by simp
  qed
  have "bit (push_bit count 1 - 1 :: u64) b \<longleftrightarrow> b < count" for b
    using bit_range_mask [of 0 count b] fits by simp
  then have "drop_bit (opt * count) (mem ! (start_of bm d + i)) AND (push_bit count 1 - 1) = push_bit count 1 - 1 \<longleftrightarrow>
      (\<forall>b < count. bit (mem ! (start_of bm d + i)) (opt * count + b))"
    unfolding covers_mask_iff by (simp add: bit_drop_bit_eq)
  also have "\<dots> \<longleftrightarrow> (\<forall>b < count. r + b \<in> level bm mem d)"
    using level_bit [OF assms(1), of _ mem] fits by (auto simp: r_def add.assoc mult.commute)
  also have "\<dots> \<longleftrightarrow> {r..<r + count} \<subseteq> level bm mem d"
  proof
    assume all: "\<forall>b < count. r + b \<in> level bm mem d"
    show "{r..<r + count} \<subseteq> level bm mem d"
    proof
      fix x assume "x \<in> {r..<r + count}"
      then show "x \<in> level bm mem d" using all [rule_format, of "x - r"] by auto
    qed
  qed auto
  finally show ?thesis .
qed

lemma try_options_found:
  fixes mem :: storage
  assumes "found s A" "i < width bm d" "count < 64" "n \<le> 64 div count"
  defines "R \<equiv> \<lambda>k. {r. \<exists>opt. r = i * 64 + opt * count \<and> k \<le> opt \<and> opt < n \<and> {r..<r + count} \<subseteq> level bm mem d}"
  shows "found (try_options count (push_bit count 1 - 1) i [k..<n]
    (drop_bit (k * count) (mem ! (start_of bm d + i))) s) (A \<union> R k)"
  using assms(1)
proof (induction "n - k" arbitrary: k s A)
  case 0
  then have "R k = {}" "[k..<n] = []"
    by (auto simp: R_def)
  with 0 show ?case by simp
next
  case (Suc m)
  let ?w = "drop_bit (k * count) (mem ! (start_of bm d + i))"
  let ?m = "push_bit count 1 - 1 :: u64"
  let ?r = "i * 64 + k * count"
  have k: "k < n" "[k..<n] = k # [Suc k..<n]"
    using Suc(2) by (simp_all add: upt_conv_Cons)
  have "R k = (if ?w AND ?m = ?m then {?r} else {}) \<union> R (Suc k)"
    unfolding slot_valid [OF assms(2) order.strict_trans2 [OF k(1) assms(4)] assms(3)] R_def
    using k(1) by (auto simp: Suc_le_eq le_less)
  moreover have "drop_bit count ?w = drop_bit (Suc k * count) (mem ! (start_of bm d + i))"
    by (simp add: drop_bit_drop_bit add.commute)
  ultimately show ?case
    using Suc(1) [OF _ try_option_found [OF Suc(3), of count ?m i ?w k], of "Suc k"] Suc(2) k(2)
    by (simp add: Un_assoc)
qed

definition word_slots :: "nat \<Rightarrow> nat set \<Rightarrow> nat \<Rightarrow> nat set" where
  "word_slots count F i =
     {r. \<exists>opt. r = i * 64 + opt * count \<and> 0 \<le> opt \<and> opt < 64 div count \<and> {r..<r + count} \<subseteq> F}"

lemma try_words_found:
  assumes "shape sz lo hi bm" "hi \<le> length mem" "d < m_used_depths bm" "count < 64"
    and "found s A" "n \<le> width bm d"
  shows "\<exists>s'. try_words mem count (push_bit count 1 - 1) (64 div count) (start_of bm d) [k..<n] s = Some s' \<and>
    found s' (A \<union> (\<Union>i \<in> {k..<n}. word_slots count (level bm mem d) i))"
  using assms(5)
proof (induction "n - k" arbitrary: k s A)
  case 0
  then show ?case by simp
next
  case (Suc m)
  have k: "k < n" "k < width bm d" "[k..<n] = k # [Suc k..<n]" "{k..<n} = insert k {Suc k..<n}"
    using Suc(2) assms(6) by (auto simp: upt_conv_Cons)
  have "fetch mem (start_of bm d + k) = Some (mem ! (start_of bm d + k))"
    using shape_cell(2) [OF assms(1,3) k(2)] assms(2) by (simp add: fetch_def)
  moreover have "found (try_options count (push_bit count 1 - 1) k [0..<64 div count] (mem ! (start_of bm d + k)) s)
      (A \<union> word_slots count (level bm mem d) k)" (is "found ?s1 ?A1")
    using try_options_found [OF Suc(3) k(2) assms(4) order.refl, of 0 mem] by (simp add: word_slots_def)
  ultimately show ?case
    using Suc(1) [of "Suc k" ?s1 ?A1] Suc(2) k(3,4) by (auto simp: Un_assoc)
qed

lemma slots_eq:
  assumes "shape sz lo hi bm" "0 < count"
  shows "slots count (level bm mem d) = (\<Union>i \<in> {0..<width bm d}. word_slots count (level bm mem d) i)"
proof -
  have "i < width bm d" if "{r..<r + count} \<subseteq> level bm mem d" "r = i * 64 + opt * count" for i opt r
  proof -
    have "r \<in> level bm mem d"
      using that(1) assms(2) by auto
    then have "r div 64 < width bm d"
      by (simp add: mem_level)
    moreover have "i \<le> r div 64"
      using that(2) by simp
    ultimately show ?thesis by simp
  qed
  then show ?thesis
    unfolding slots_def word_slots_def by fastforce
qed

lemma FindFreeRange_ok:
  assumes "bitmap_ok sz lo hi mem bm F" "0 < count" "count < 64" "0 < sz"
  shows "\<exists>r g. FindFreeRange count mem bm = Some (r, bm\<lparr>bitmap_rng := g\<rparr>) \<and>
    (case r of None \<Rightarrow> slots count F = {} | Some x \<Rightarrow> x \<in> slots count F)"
proof -
  note ok = bitmap_okD [OF assms(1)] and d = leaf_less [OF bitmap_okD(1) [OF assms(1)]]
  let ?d = "leaf bm" and ?s = "\<lparr>num_valid_options = 0, chosen_offset = None, search_rng = bitmap_rng bm\<rparr>"
  have w: "0 < width bm ?d"
    using assms(4) by (simp add: leaf_width [OF ok(1)])
  have ends: "fetch (m_end_storages bm) ?d = Some (start_of bm ?d + width bm ?d)"
    using ok(1) d by (simp add: fetch_def shape_def width_def)
  have "found ?s {}"
    by (simp add: found_def)
  then obtain s' where s': "try_words mem count (push_bit count 1 - 1) (64 div count) (start_of bm ?d) [0..<width bm ?d] ?s = Some s'"
    "found s' ({} \<union> (\<Union>i \<in> {0..<width bm ?d}. word_slots count (level bm mem ?d) i))"
    using try_words_found [OF ok(1,2) d assms(3) _ order.refl, of ?s "{}" 0] by blast
  then have "found s' (slots count F)"
    using slots_eq [OF ok(1) assms(2), of mem ?d] ok(4) by simp
  moreover have "max (64 div count) 1 = 64 div count" "max (width bm ?d) 1 = width bm ?d"
    using assms(2,3) w div_greater_zero_iff [of 64 count] by linarith+
  then have "FindFreeRange count mem bm = Some (chosen_offset s', bm\<lparr>bitmap_rng := search_rng s'\<rparr>)"
    using s'(1) fetch_start [OF ok(1) d] ends ok(8) assms(2,3) w
    by (simp add: FindFreeRange_def leaf_eq Let_def del: push_bit_of_1)
  ultimately show ?thesis
    by (auto simp: found_def split: option.splits)
qed

text \<open>A range of a whole word shifts by 64, which C++ leaves undefined.\<close>

lemma FindFreeRange_word_undefined:
  assumes "bitmap_ok sz lo hi mem bm F" "0 < sz"
  shows "FindFreeRange 64 mem bm = None"
proof -
  note ok = bitmap_okD [OF assms(1)] and d = leaf_less [OF bitmap_okD(1) [OF assms(1)]]
  have "fetch (m_end_storages bm) (leaf bm) = Some (start_of bm (leaf bm) + width bm (leaf bm))"
    using ok(1) d by (simp add: fetch_def shape_def width_def)
  moreover have "0 < width bm (leaf bm)"
    using assms(2) by (simp add: leaf_width [OF ok(1)])
  ultimately show ?thesis
    using fetch_start [OF ok(1) d] ok(8) by (simp add: FindFreeRange_def leaf_eq)
qed

end
