(* ===== verification/PageHeap_Laws.thy ===== *)
theory PageHeap_Laws
  imports PageHeap PageBitmap_Search
begin

text \<open>
  The free blocks of a page heap as sets of addresses, one per block size: which addresses they cover,
  what adding a block and joining a group of blocks change, and the representation of these sets by the
  bitmaps of the heap.
\<close>

section \<open>Sizes of blocks\<close>

definition shift :: "nat \<Rightarrow> nat" where
  "shift i = MemoryBlockPageShifts ! i"

definition next_shift :: "nat \<Rightarrow> nat" where
  "next_shift i = (if i < 6 then shift (Suc i) else 0)"

lemma less7_cases:
  assumes "(i :: nat) < 7"
  obtains "i = 0" | "i = 1" | "i = 2" | "i = 3" | "i = 4" | "i = 5" | "i = 6"
  using assms by linarith

lemma less6_cases:
  assumes "(i :: nat) < 6"
  obtains "i = 0" | "i = 1" | "i = 2" | "i = 3" | "i = 4" | "i = 5"
  using assms by linarith

lemma shift_values [simp]:
  "shift 0 = 12" "shift (Suc 0) = 16" "shift 1 = 16" "shift 2 = 21" "shift 3 = 22" "shift 4 = 25" "shift 5 = 29" "shift 6 = 30"
  by (simp_all add: shift_def MemoryBlockPageShifts_def)

lemma shift_bounds: "i < 7 \<Longrightarrow> 12 \<le> shift i \<and> shift i \<le> 30"
  by (erule less7_cases) simp_all

lemma shift_step: "i < 6 \<Longrightarrow> shift i < shift (Suc i) \<and> shift (Suc i) - shift i \<le> 5"
  by (erule less6_cases) (simp_all add: shift_def MemoryBlockPageShifts_def)

lemma shift_mono: "i \<le> j \<Longrightarrow> j < 7 \<Longrightarrow> shift i \<le> shift j"
proof (induction rule: dec_induct)
  case (step n)
  then show ?case using shift_step [of n] by simp
qed simp

abbreviation bytes :: "nat \<Rightarrow> nat" where
  "bytes i \<equiv> 2 ^ shift i"

definition factor :: "nat \<Rightarrow> nat" where
  "factor i = 2 ^ (shift (Suc i) - shift i)"

lemma bytes_Suc: "i < 6 \<Longrightarrow> bytes (Suc i) = factor i * bytes i"
  using shift_step [of i] by (simp add: factor_def flip: power_add)

lemma bytes_dvd: "i \<le> j \<Longrightarrow> j < 7 \<Longrightarrow> bytes i dvd bytes j"
  by (simp add: le_imp_power_dvd shift_mono)

lemma page_dvd: "i < 7 \<Longrightarrow> PageBytes dvd bytes i"
  using bytes_dvd [of 0 i] by (simp add: PageBytes_def)

lemma factor_dvd_64: "i < 6 \<Longrightarrow> factor i dvd 64"
  by (erule less6_cases) (simp_all add: factor_def shift_def MemoryBlockPageShifts_def)

lemma factor_bounds: "i < 6 \<Longrightarrow> 1 < factor i \<and> factor i < 64"
  by (erule less6_cases) (simp_all add: factor_def shift_def MemoryBlockPageShifts_def)

section \<open>Sets of free blocks\<close>

type_synonym free_blocks = "nat \<Rightarrow> nat set"

definition span :: "nat \<Rightarrow> nat \<Rightarrow> nat set" where
  "span i a = {a..<a + bytes i}"

definition free_space :: "free_blocks \<Rightarrow> nat set" where
  "free_space B = (\<Union>i < 7. \<Union>a \<in> B i. span i a)"

definition separate :: "free_blocks \<Rightarrow> bool" where
  "separate B \<longleftrightarrow> (\<forall>i < 7. \<forall>j < 7. \<forall>a \<in> B i. \<forall>b \<in> B j. (i, a) \<noteq> (j, b) \<longrightarrow> span i a \<inter> span j b = {})"

definition group :: "nat \<Rightarrow> nat \<Rightarrow> nat set" where
  "group i p = (\<lambda>k. p + k * bytes i) ` {..<factor i}"

text \<open>No group of blocks that could be joined is left.\<close>

definition settled :: "free_blocks \<Rightarrow> bool" where
  "settled B \<longleftrightarrow> (\<forall>i < 6. \<forall>p. bytes (Suc i) dvd p \<longrightarrow> \<not> group i p \<subseteq> B i)"

lemma mem_free_space: "x \<in> free_space B \<longleftrightarrow> (\<exists>i a. i < 7 \<and> a \<in> B i \<and> x \<in> span i a)"
  by (auto simp: free_space_def)

lemma separateD:
  "separate B \<Longrightarrow> i < 7 \<Longrightarrow> j < 7 \<Longrightarrow> a \<in> B i \<Longrightarrow> b \<in> B j \<Longrightarrow> x \<in> span i a \<Longrightarrow> x \<in> span j b \<Longrightarrow> i = j \<and> a = b"
  unfolding separate_def by blast

lemma separateI:
  assumes "\<And>i j a b x. i < 7 \<Longrightarrow> j < 7 \<Longrightarrow> a \<in> B i \<Longrightarrow> b \<in> B j \<Longrightarrow> x \<in> span i a \<Longrightarrow> x \<in> span j b \<Longrightarrow> i = j \<and> a = b"
  shows "separate B"
  unfolding separate_def using assms by blast

lemma start_in_span: "a \<in> span i a"
  by (simp add: span_def)

lemma intervals_union: "(\<Union>k < n. {p + k * w..<p + k * w + w}) = {p..<p + n * w}" for p w :: nat
proof (induction n)
  case (Suc n)
  have "{p..<p + n * w} \<union> {p + n * w..<p + n * w + w} = {p..<p + Suc n * w}"
    by (subst ivl_disj_un_two(3)) (simp_all add: algebra_simps)
  with Suc show ?case
    by (simp add: lessThan_Suc Un_commute)
qed simp

lemma group_span: "i < 6 \<Longrightarrow> (\<Union>a \<in> group i p. span i a) = span (Suc i) p"
  using intervals_union [of p "bytes i" "factor i"] by (simp add: group_def span_def bytes_Suc)

lemma add_block:
  assumes "separate B" "i < 7" "span i a \<inter> free_space B = {}"
  defines "B' \<equiv> B(i := insert a (B i))"
  shows "separate B'" "free_space B' = free_space B \<union> span i a" "a \<notin> B i"
proof -
  have out: "x \<notin> span j b" if "x \<in> span i a" "j < 7" "b \<in> B j" for x j b
    using assms(3) that unfolding free_space_def by blast
  show "separate B'"
  proof (rule separateI)
    fix j k b c x
    assume prems: "j < 7" "k < 7" "b \<in> B' j" "c \<in> B' k" "x \<in> span j b" "x \<in> span k c"
    have mem: "b \<in> B j \<or> j = i \<and> b = a" "c \<in> B k \<or> k = i \<and> c = a"
      using prems(3,4) by (auto simp: B'_def split: if_splits)
    then show "j = k \<and> b = c"
      using separateD [OF assms(1) prems(1,2) _ _ prems(5,6)] out prems by blast
  qed
  have "B' j = (if j = i then insert a (B i) else B j)" for j
    by (simp add: B'_def)
  then show "free_space B' = free_space B \<union> span i a"
    using assms(2) by (auto simp: mem_free_space set_eq_iff) metis+
  show "a \<notin> B i"
    using out [OF start_in_span assms(2)] start_in_span by blast
qed

lemma remove_blocks:
  assumes "separate B" "i < 7" "X \<subseteq> B i"
  defines "B' \<equiv> B(i := B i - X)"
  shows "separate B'" "free_space B' = free_space B - (\<Union>a \<in> X. span i a)"
proof -
  have sub: "B' j \<subseteq> B j" for j
    by (auto simp: B'_def)
  show "separate B'"
    by (rule separateI) (meson separateD [OF assms(1)] sub subsetD)
  have "x \<in> free_space B' \<longleftrightarrow> x \<in> free_space B \<and> x \<notin> (\<Union>a \<in> X. span i a)" for x
  proof
    assume "x \<in> free_space B'"
    then obtain j b where b: "j < 7" "b \<in> B' j" "x \<in> span j b"
      by (auto simp: mem_free_space)
    moreover have "b \<in> B j" using b(2) sub by blast
    moreover have "x \<notin> span i a" if "a \<in> X" for a
    proof
      assume "x \<in> span i a"
      then have "i = j \<and> a = b"
        using separateD [OF assms(1,2) b(1)] that assms(3) b(3) \<open>b \<in> B j\<close> by blast
      then show False using b(2) that by (simp add: B'_def)
    qed
    ultimately show "x \<in> free_space B \<and> x \<notin> (\<Union>a \<in> X. span i a)"
      by (auto simp: mem_free_space)
  next
    assume x: "x \<in> free_space B \<and> x \<notin> (\<Union>a \<in> X. span i a)"
    then obtain j b where b: "j < 7" "b \<in> B j" "x \<in> span j b"
      by (auto simp: mem_free_space)
    then have "b \<in> B' j"
      using x by (auto simp: B'_def)
    with b show "x \<in> free_space B'" by (auto simp: mem_free_space)
  qed
  then show "free_space B' = free_space B - (\<Union>a \<in> X. span i a)" by blast
qed

lemma settled_remove: "settled B \<Longrightarrow> settled (B(i := B i - X))"
  unfolding settled_def by (metis Diff_subset fun_upd_apply order_trans)

lemma group_parent:
  assumes "i < 6" "bytes (Suc i) dvd p" "a \<in> group i p"
  shows "p = AlignDown_size a (bytes (Suc i))" "bytes i dvd a"
proof -
  obtain k where k: "a = p + k * bytes i" "k < factor i"
    using assms(3) by (auto simp: group_def)
  then have "k * bytes i < bytes (Suc i)"
    using assms(1) by (simp add: bytes_Suc)
  then have "a mod bytes (Suc i) = k * bytes i"
    using assms(2) k(1) by (auto simp: dvd_def)
  then show "p = AlignDown_size a (bytes (Suc i))"
    using k(1) by (simp add: AlignDown_size_def)
  show "bytes i dvd a"
    using k(1) assms(1,2) bytes_dvd [of i "Suc i"] by (simp add: dvd_trans)
qed

lemma settled_add:
  assumes "settled B" "i < 6 \<Longrightarrow> \<not> group i (AlignDown_size a (bytes (Suc i))) \<subseteq> insert a (B i)"
  shows "settled (B(i := insert a (B i)))"
  unfolding settled_def
proof (intro allI impI notI)
  fix j p
  assume j: "j < 6" "bytes (Suc j) dvd p" and sub: "group j p \<subseteq> (B(i := insert a (B i))) j"
  show False
  proof (cases "j = i \<and> a \<in> group j p")
    case True
    then show False
      using assms(2) j sub group_parent(1) [OF j, of a] by auto
  next
    case False
    then have "group j p \<subseteq> B j"
      using sub by (cases "j = i") auto
    then show False
      using assms(1) j unfolding settled_def by blast
  qed
qed

end
