(* ===== verification/PageHeap_Rep.thy ===== *)
theory PageHeap_Rep
  imports PageHeap_Laws
begin

text \<open>
  The bitmaps of a heap represent its sets of free blocks: what the operations of one block size do
  to them.
\<close>

section \<open>Addresses and bit numbers\<close>

definition grain :: "nat \<Rightarrow> nat" where
  "grain i = (if i < 6 then bytes (Suc i) else bytes i)"

definition base :: "nat \<Rightarrow> nat \<Rightarrow> nat" where
  "base A i = AlignDown_size A (grain i)"

definition addr_of :: "nat \<Rightarrow> nat \<Rightarrow> nat \<Rightarrow> nat" where
  "addr_of A i x = base A i + x * bytes i"

definition limit :: "nat \<Rightarrow> nat \<Rightarrow> nat \<Rightarrow> nat" where
  "limit A sz i = (AlignUp_size (A + sz) (grain i) - base A i) div bytes i"

definition in_heap :: "nat \<Rightarrow> nat \<Rightarrow> nat \<Rightarrow> nat \<Rightarrow> bool" where
  "in_heap A sz i a \<longleftrightarrow> bytes i dvd a \<and> A \<le> a \<and> a + bytes i \<le> A + sz"

lemma bytes_dvd_grain: "i < 7 \<Longrightarrow> bytes i dvd grain i"
  by (simp add: grain_def bytes_dvd)

lemma AlignDown_dvd: "g dvd AlignDown_size v g"
  by (simp add: AlignDown_size_def minus_mod_eq_div_mult)

lemma AlignDown_le: "AlignDown_size v g \<le> v"
  by (simp add: AlignDown_size_def)

lemma AlignUp_dvd: "v + g < 2 ^ 64 \<Longrightarrow> g dvd AlignUp_size v g"
proof -
  assume "v + g < 2 ^ 64"
  moreover have "v div g * g \<le> v" by simp
  ultimately have "v div g * g + g < 2 ^ 64" by linarith
  then show ?thesis by (auto simp: AlignUp_size_def Let_def wrap64_def minus_mod_eq_div_mult)
qed

lemma AlignUp_ge:
  assumes "v + g < 2 ^ 64" "0 < g"
  shows "v \<le> AlignUp_size v g" "AlignUp_size v g < v + g"
proof -
  have "v mod g < g" "v mod g \<le> v" using assms(2) by simp_all
  then show "v \<le> AlignUp_size v g" "AlignUp_size v g < v + g"
    using assms(1) by (auto simp: AlignUp_size_def Let_def wrap64_def)
qed

lemma grain_pos: "0 < grain i"
  by (simp add: grain_def)

lemma bytes_bound: "i < 7 \<Longrightarrow> bytes i \<le> 2 ^ 30"
  by (rule power_increasing) (simp_all add: shift_bounds)

lemma grain_bound: "i < 7 \<Longrightarrow> grain i \<le> 2 ^ 30"
  using bytes_bound [of i] bytes_bound [of "Suc i"] unfolding grain_def by (cases "i < 6") simp_all

lemma base_dvd: "i < 7 \<Longrightarrow> bytes i dvd base A i"
  unfolding base_def using AlignDown_dvd bytes_dvd_grain dvd_trans by blast

lemma addr_of_inj: "addr_of A i x = addr_of A i y \<longleftrightarrow> x = y"
  by (simp add: addr_of_def)

lemma in_heap_offset:
  assumes "in_heap A sz i a" "i < 7" "A + sz + 2 ^ 31 \<le> 2 ^ 64"
  defines "x \<equiv> sub64 a (base A i) div bytes i"
  shows "addr_of A i x = a" "x < limit A sz i"
proof -
  have a: "bytes i dvd a" "A \<le> a" "a + bytes i \<le> A + sz"
    using assms(1) by (simp_all add: in_heap_def)
  have le: "base A i \<le> a"
    using AlignDown_le [of A "grain i"] a(2) by (simp add: base_def)
  then have x: "x = (a - base A i) div bytes i"
    using assms(3) a(3) by (simp add: x_def sub64_less)
  have dvd: "bytes i dvd a - base A i"
    using a(1) base_dvd [OF assms(2)] by (simp add: dvd_diff_nat)
  then have mult: "x * bytes i = a - base A i"
    by (simp add: x)
  then show "addr_of A i x = a"
    using le by (simp add: addr_of_def)
  have room: "A + sz + grain i < 2 ^ 64"
    using grain_bound [OF assms(2)] assms(3) by simp
  have "a + bytes i - base A i \<le> AlignUp_size (A + sz) (grain i) - base A i"
    using AlignUp_ge(1) [OF room grain_pos] a(3) by simp
  then have "(a + bytes i - base A i) div bytes i \<le> limit A sz i"
    unfolding limit_def by (rule div_le_mono)
  moreover have "(a + bytes i - base A i) div bytes i = Suc x"
  proof -
    have "a + bytes i - base A i = Suc x * bytes i"
      using mult le by simp
    then show ?thesis by (simp only: nonzero_mult_div_cancel_right) simp
  qed
  ultimately show "x < limit A sz i" by simp
qed

lemma limit_factor:
  assumes "i < 6" "A + sz + 2 ^ 31 \<le> 2 ^ 64"
  shows "factor i dvd limit A sz i"
proof -
  have "A + sz + grain i < 2 ^ 64"
    using grain_bound [of i] assms by simp
  then have "bytes (Suc i) dvd AlignUp_size (A + sz) (grain i)"
    using AlignUp_dvd assms(1) by (metis grain_def)
  moreover have "bytes (Suc i) dvd base A i"
    using AlignDown_dvd assms(1) by (metis grain_def base_def)
  ultimately have "bytes (Suc i) dvd AlignUp_size (A + sz) (grain i) - base A i"
    by (rule dvd_diff_nat)
  then show ?thesis
    unfolding limit_def using assms(1) by (auto simp: bytes_Suc dvd_def)
qed

lemma addr_of_group:
  assumes "i < 6"
  defines "q \<equiv> \<lambda>x. AlignDown_size x (factor i)"
  shows "AlignDown_size (addr_of A i x) (bytes (Suc i)) = addr_of A i (q x)"
    "group i (addr_of A i (q x)) = addr_of A i ` {q x..<q x + factor i}"
proof -
  have "addr_of A i x mod bytes (Suc i) = (x * bytes i) mod bytes (Suc i)"
    using AlignDown_dvd [of "bytes (Suc i)" A] assms(1) by (auto simp: addr_of_def base_def grain_def dvd_def)
  also have "\<dots> = x mod factor i * bytes i"
    using assms(1) by (simp add: bytes_Suc mult_mod_right mult.commute)
  finally show "AlignDown_size (addr_of A i x) (bytes (Suc i)) = addr_of A i (q x)"
    by (simp add: AlignDown_size_def q_def addr_of_def diff_mult_distrib)
  have "group i (addr_of A i (q x)) = addr_of A i ` (\<lambda>k. q x + k) ` {0..<factor i}"
    by (simp add: group_def image_image addr_of_def algebra_simps atLeast0LessThan)
  then show "group i (addr_of A i (q x)) = addr_of A i ` {q x..<q x + factor i}"
    by (simp add: add.commute)
qed

lemma group_in_word:
  assumes "i < 6"
  shows "AlignDown_size x (factor i) mod 64 + factor i \<le> 64"
proof -
  obtain k where k: "AlignDown_size x (factor i) = factor i * k"
    using AlignDown_dvd [of "factor i" x] by (auto simp: dvd_def)
  obtain m where m: "64 = factor i * m"
    using factor_dvd_64 [OF assms] by (auto simp: dvd_def)
  have "0 < m" using m by (cases m) auto
  then have "k mod m + 1 \<le> m" by (simp add: Suc_le_eq)
  then have "factor i * (k mod m + 1) \<le> 64"
    unfolding m by (rule mult_le_mono2)
  moreover have "AlignDown_size x (factor i) mod 64 = factor i * (k mod m)"
    using k m by (metis mult_mod_right)
  ultimately show ?thesis by simp
qed

section \<open>Representation\<close>

definition bits_of :: "nat \<Rightarrow> nat \<Rightarrow> nat set \<Rightarrow> nat set" where
  "bits_of A i X = {x. addr_of A i x \<in> X}"

definition block_rep :: "nat \<Rightarrow> nat \<Rightarrow> (nat \<Rightarrow> nat) \<Rightarrow> nat \<Rightarrow> storage \<Rightarrow> Block \<Rightarrow> nat set \<Rightarrow> bool" where
  "block_rep A sz lo i mem b X \<longleftrightarrow>
     m_block_shift b = shift i \<and> m_next_block_shift b = next_shift i \<and> block_heap_address b = base A i \<and>
     bitmap_ok (limit A sz i) (lo i) (lo (Suc i)) mem (m_bitmap b) (bits_of A i X) \<and>
     (\<forall>a \<in> X. in_heap A sz i a)"

definition heap_rep :: "nat \<Rightarrow> nat \<Rightarrow> (nat \<Rightarrow> nat) \<Rightarrow> KPageHeap \<Rightarrow> free_blocks \<Rightarrow> bool" where
  "heap_rep A sz lo h B \<longleftrightarrow>
     m_heap_address h = A \<and> m_heap_size h = sz \<and> m_num_blocks h = 7 \<and> length (m_blocks h) = 7 \<and>
     0 < A \<and> A + sz + 2 ^ 31 \<le> 2 ^ 64 \<and> PageBytes dvd A \<and> PageBytes dvd sz \<and>
     (\<forall>i < 7. block_rep A sz lo i (m_management_data h) (m_blocks h ! i) (B i))"

lemma heap_repD:
  assumes "heap_rep A sz lo h B"
  shows "m_heap_address h = A" "m_heap_size h = sz" "m_num_blocks h = 7" "length (m_blocks h) = 7" "0 < A"
    "A + sz + 2 ^ 31 \<le> 2 ^ 64" "PageBytes dvd A" "PageBytes dvd sz"
    "\<And>i. i < 7 \<Longrightarrow> block_rep A sz lo i (m_management_data h) (m_blocks h ! i) (B i)"
  using assms unfolding heap_rep_def by blast+

lemma block_repD:
  assumes "block_rep A sz lo i mem b X"
  shows "m_block_shift b = shift i" "m_next_block_shift b = next_shift i" "block_heap_address b = base A i"
    "bitmap_ok (limit A sz i) (lo i) (lo (Suc i)) mem (m_bitmap b) (bits_of A i X)" "\<And>a. a \<in> X \<Longrightarrow> in_heap A sz i a"
  using assms by (simp_all add: block_rep_def)

lemma heap_rep_block_size: "heap_rep A sz lo h B \<Longrightarrow> i < 7 \<Longrightarrow> Block_GetSize (m_blocks h ! i) = bytes i"
  using heap_repD(9) block_repD(1) by (metis Block_GetSize_def)

lemma heap_rep_in_heap: "heap_rep A sz lo h B \<Longrightarrow> i < 7 \<Longrightarrow> a \<in> B i \<Longrightarrow> in_heap A sz i a"
  using heap_repD(9) block_repD(5) by blast

lemma bitmap_ok_bounds: "bitmap_ok n lo hi mem bm F \<Longrightarrow> lo \<le> hi"
  using shape_cell [of n lo hi bm 0 0] bitmap_okD(1,8) [of n lo hi mem bm F] shapeD(7) [of n lo hi bm] by force

lemma heap_rep_lo_mono:
  assumes "heap_rep A sz lo h B" "i \<le> j" "j \<le> 7"
  shows "lo i \<le> lo j"
  using assms(2,3)
proof (induction rule: dec_induct)
  case (step n)
  then have "lo n \<le> lo (Suc n)"
    using bitmap_ok_bounds [OF block_repD(4) [OF heap_repD(9) [OF assms(1)]], of n] by simp
  with step show ?case by simp
qed simp

lemma heap_rep_update:
  assumes "heap_rep A sz lo h B" "i < 7" "outside (lo i) (lo (Suc i)) (m_management_data h) mem'"
    and "bitmap_ok (limit A sz i) (lo i) (lo (Suc i)) mem' bm (bits_of A i X)" "\<And>a. a \<in> X \<Longrightarrow> in_heap A sz i a"
  shows "heap_rep A sz lo
    (h\<lparr>m_blocks := (m_blocks h)[i := (m_blocks h ! i)\<lparr>m_bitmap := bm\<rparr>], m_management_data := mem'\<rparr>) (B(i := X))"
proof -
  note rep = heap_repD [OF assms(1)]
  have "block_rep A sz lo j mem' ((m_blocks h)[i := (m_blocks h ! i)\<lparr>m_bitmap := bm\<rparr>] ! j) ((B(i := X)) j)"
    if "j < 7" for j
  proof (cases "j = i")
    case True
    then show ?thesis
      using rep(4) rep(9) [OF assms(2)] assms(2,4,5) by (simp add: block_rep_def)
  next
    case False
    have "lo (Suc j) \<le> lo i \<or> lo (Suc i) \<le> lo j"
      using False heap_rep_lo_mono [OF assms(1), of "Suc j" i] heap_rep_lo_mono [OF assms(1), of "Suc i" j] that assms(2)
      by (cases "j < i") auto
    then show ?thesis
      using rep(9) [OF that] bitmap_ok_outside [OF _ assms(3)] False by (auto simp: block_rep_def)
  qed
  then show ?thesis
    using rep by (simp add: heap_rep_def)
qed


section \<open>Pushing and popping a block\<close>

lemma mem_bits_of: "x \<in> bits_of A i X \<longleftrightarrow> addr_of A i x \<in> X"
  by (simp add: bits_of_def)

lemma bits_of_insert: "addr_of A i x = a \<Longrightarrow> bits_of A i (insert a X) = insert x (bits_of A i X)"
  by (auto simp: bits_of_def addr_of_inj)

lemma bits_of_remove: "addr_of A i x = a \<Longrightarrow> bits_of A i (X - {a}) = bits_of A i X - {x}"
  by (auto simp: bits_of_def addr_of_inj)

lemma wrap_addr_of:
  assumes "addr_of A i x < 2 ^ 64"
  shows "wrap64 (base A i + wrap64 (x * 2 ^ shift i)) = addr_of A i x"
  using assms unfolding addr_of_def wrap64_def by simp

text \<open>The blocks that a freed block joins, if they are all free.\<close>

definition joins :: "nat \<Rightarrow> nat \<Rightarrow> nat set \<Rightarrow> bool" where
  "joins i a X \<longleftrightarrow> i < 6 \<and> group i (AlignDown_size a (bytes (Suc i))) \<subseteq> insert a X"

lemma PushBlock_ok:
  assumes "heap_rep A sz lo h B" "i < 7" "in_heap A sz i a" "a \<notin> B i"
  defines "p \<equiv> AlignDown_size a (bytes (Suc i))"
  shows "\<exists>h'. on_block i (PushBlock a) h = Some (if joins i a (B i) then p else 0, h') \<and>
    heap_rep A sz lo h' (B(i := if joins i a (B i) then insert a (B i) - group i p else insert a (B i)))"
proof -
  note rep = heap_repD [OF assms(1)] and blk = block_repD [OF heap_repD(9) [OF assms(1,2)]]
  let ?b = "m_blocks h ! i" and ?mem = "m_management_data h" and ?n = "limit A sz i"
  define x where "x = sub64 a (base A i) div bytes i"
  have x: "addr_of A i x = a" "x < ?n"
    unfolding x_def by (rule in_heap_offset [OF assms(3,2) rep(6)])+
  let ?F = "bits_of A i (B i)" and ?X = "insert a (B i)"
  have valid: "in_heap A sz i c" if "c \<in> ?X" for c
    using that blk(5) assms(3) by blast
  obtain mem1 where set: "SetBit x (?mem, m_bitmap ?b) = Some (mem1, (m_bitmap ?b)\<lparr>m_num_bits := card (insert x ?F)\<rparr>)"
    "bitmap_ok ?n (lo i) (lo (Suc i)) mem1 ((m_bitmap ?b)\<lparr>m_num_bits := card (insert x ?F)\<rparr>) (bits_of A i ?X)"
    "outside (lo i) (lo (Suc i)) ?mem mem1"
    using SetBit_ok [OF blk(4) x(2)] assms(4) x(1) by (auto simp: mem_bits_of bits_of_insert [OF x(1)])
  let ?bm1 = "(m_bitmap ?b)\<lparr>m_num_bits := card (insert x ?F)\<rparr>"
  have fetch: "fetch (m_blocks h) i = Some ?b" "store (m_blocks h) i c = Some ((m_blocks h)[i := c])" for c
    using rep(4) assms(2) by (simp_all add: fetch_def store_def)
  show ?thesis
  proof (cases "i < 6")
    case False
    then have "\<not> joins i a (B i)" "next_shift i = 0"
      by (simp_all add: joins_def next_shift_def)
    then show ?thesis
      using set(1) blk(1-3) fetch heap_rep_update [OF assms(1,2) set(3,2) valid]
      by (simp add: on_block_def PushBlock_def x_def)
  next
    case True
    let ?q = "AlignDown_size x (factor i)"
    have q: "p = addr_of A i ?q" "group i p = addr_of A i ` {?q..<?q + factor i}"
      using addr_of_group(1) [OF True, of A x] addr_of_group(2) [OF True, of A x] x(1) by (simp_all add: p_def)
    have next_sh: "next_shift i = shift (Suc i)" "next_shift i \<noteq> 0" "2 ^ (next_shift i - shift i) = factor i"
      using True shift_step [OF True] by (auto simp: next_shift_def factor_def)
    have "?q < ?n"
      using AlignDown_le [of x "factor i"] x(2) by simp
    note clear = ClearRange_ok [OF set(2) _ _ group_in_word [OF True] this]
    have covered: "{?q..<?q + factor i} \<subseteq> bits_of A i ?X \<longleftrightarrow> joins i a (B i)"
      using True by (auto simp: joins_def p_def [symmetric] bits_of_def q(2))
    show ?thesis
    proof (cases "joins i a (B i)")
      case False
      then show ?thesis
        using clear covered factor_bounds [OF True] set(1) blk(1-3) fetch next_sh
          heap_rep_update [OF assms(1,2) set(3,2) valid]
        by (simp add: on_block_def PushBlock_def x_def Let_def)
    next
      case joined: True
      have bits: "bits_of A i (?X - group i p) = bits_of A i ?X - {?q..<?q + factor i}"
        using q(2) by (auto simp: bits_of_def addr_of_inj)
      obtain mem2 bm2 where clr: "ClearRange ?q (factor i) (mem1, ?bm1) = Some (True, mem2, bm2)"
        "bitmap_ok ?n (lo i) (lo (Suc i)) mem2 bm2 (bits_of A i (?X - group i p))"
        "outside (lo i) (lo (Suc i)) mem1 mem2"
        using clear covered joined factor_bounds [OF True] unfolding bits by auto
      have "outside (lo i) (lo (Suc i)) ?mem mem2"
        using set(3) clr(3) by (simp add: outside_def)
      moreover have "p < 2 ^ 64"
        using AlignDown_le [of a "bytes (Suc i)"] assms(3) rep(6) by (simp add: p_def in_heap_def)
      then have "wrap64 (base A i + wrap64 (?q * 2 ^ shift i)) = p"
        using wrap_addr_of q(1) by simp
      ultimately show ?thesis
        using clr(1) set(1) blk(1-3) fetch next_sh joined valid
          heap_rep_update [OF assms(1,2) _ clr(2)]
        by (simp add: on_block_def PushBlock_def x_def Let_def)
    qed
  qed
qed

end
