(* ===== verification/PageHeap_Free.thy ===== *)
theory PageHeap_Free
  imports PageHeap_Rep
begin

text \<open>
  Freeing: the heap refines the set of its free addresses, and \<^verbatim>\<open>Free\<close> adds the freed addresses to it.
\<close>

section \<open>The invariant\<close>

definition heap_ok :: "nat \<Rightarrow> nat \<Rightarrow> (nat \<Rightarrow> nat) \<Rightarrow> KPageHeap \<Rightarrow> free_blocks \<Rightarrow> bool" where
  "heap_ok A sz lo h B \<longleftrightarrow> heap_rep A sz lo h B \<and> separate B \<and> settled B"

text \<open>\<open>holds A sz lo h M\<close>: the free addresses of the heap \<open>h\<close> are those of \<open>M\<close>.\<close>

definition holds :: "nat \<Rightarrow> nat \<Rightarrow> (nat \<Rightarrow> nat) \<Rightarrow> KPageHeap \<Rightarrow> nat set \<Rightarrow> bool" where
  "holds A sz lo h M \<longleftrightarrow> (\<exists>B. heap_ok A sz lo h B \<and> free_space B = M)"

lemma holdsI: "heap_rep A sz lo h B \<Longrightarrow> separate B \<Longrightarrow> settled B \<Longrightarrow> free_space B = M \<Longrightarrow> holds A sz lo h M"
  by (auto simp: holds_def heap_ok_def)

lemma holdsE:
  assumes "holds A sz lo h M"
  obtains B where "heap_rep A sz lo h B" "separate B" "settled B" "free_space B = M"
  using assms by (auto simp: holds_def heap_ok_def)

lemma holds_facts:
  assumes "holds A sz lo h M"
  shows "m_num_blocks h = 7" "length (m_blocks h) = 7" "0 < A" "A + sz + 2 ^ 31 \<le> 2 ^ 64" "PageBytes dvd A"
    "\<And>i. i < 7 \<Longrightarrow> fetch (m_blocks h) i = Some (m_blocks h ! i)"
    "\<And>i. i < 7 \<Longrightarrow> Block_GetSize (m_blocks h ! i) = bytes i"
  using assms by (auto elim!: holdsE simp: heap_repD fetch_def heap_rep_block_size dest: heap_repD)

lemma in_heap_iff: "in_heap A sz i a \<longleftrightarrow> bytes i dvd a \<and> span i a \<subseteq> {A..<A + sz}"
  by (auto simp: in_heap_def span_def)

lemma mem_own_group:
  assumes "i < 6" "bytes i dvd a"
  shows "a \<in> group i (AlignDown_size a (bytes (Suc i)))"
proof -
  have "bytes i dvd a mod bytes (Suc i)"
    using assms bytes_dvd [of i "Suc i"] by (simp add: dvd_mod)
  then obtain k where k: "a mod bytes (Suc i) = k * bytes i"
    by (auto simp: dvd_def mult.commute)
  have "k < factor i"
  proof -
    have "k * bytes i < factor i * bytes i"
      using k mod_less_divisor [of "bytes (Suc i)" a] unfolding bytes_Suc [OF assms(1), symmetric] by simp
    then show ?thesis by simp
  qed
  then show ?thesis
    unfolding group_def by (intro image_eqI [of _ _ k]) (simp_all add: AlignDown_size_def flip: k)
qed

lemma settled_mono: "settled B \<Longrightarrow> (\<And>i. B' i \<subseteq> B i) \<Longrightarrow> settled B'"
  unfolding settled_def by (meson order_trans)

section \<open>Freeing a block\<close>

lemma joined_group:
  assumes "\<And>c. c \<in> insert a X \<Longrightarrow> in_heap A sz i c" "joins i a X" "0 < A"
  defines "p \<equiv> AlignDown_size a (bytes (Suc i))"
  shows "in_heap A sz (Suc i) p" "p \<noteq> 0" "group i p \<subseteq> insert a X" "a \<in> group i p"
proof -
  have i: "i < 6" and sub: "group i p \<subseteq> insert a X"
    using assms(2) by (simp_all add: joins_def p_def)
  then show "group i p \<subseteq> insert a X" by simp
  have "span i c \<subseteq> {A..<A + sz}" if "c \<in> group i p" for c
    using assms(1) [of c] sub that by (auto simp: in_heap_iff)
  then have "span (Suc i) p \<subseteq> {A..<A + sz}"
    unfolding group_span [OF i, symmetric] by blast
  then show heap: "in_heap A sz (Suc i) p"
    by (simp add: in_heap_iff p_def AlignDown_dvd)
  then show "p \<noteq> 0"
    using assms(3) by (auto simp: in_heap_def)
  show "a \<in> group i p"
    unfolding p_def using mem_own_group [OF i] assms(1) [of a] by (simp add: in_heap_def)
qed

lemma FreeBlock_ok:
  assumes "holds A sz lo h M" "i < 7" "in_heap A sz i a" "span i a \<inter> M = {}"
  shows "\<exists>h'. FreeBlock a i h = Some h' \<and> holds A sz lo h' (M \<union> span i a)"
  using assms
proof (induction "7 - i" arbitrary: i a h M)
  case (Suc n)
  from Suc(3) obtain B where B: "heap_rep A sz lo h B" "separate B" "settled B" "free_space B = M"
    by (rule holdsE)
  note add = add_block [OF B(2) Suc(4), of a, unfolded B(4), OF Suc(6)]
  let ?p = "AlignDown_size a (bytes (Suc i))" and ?X = "insert a (B i)"
  obtain h' where h': "on_block i (PushBlock a) h = Some (if joins i a (B i) then ?p else 0, h')"
    "heap_rep A sz lo h' (B(i := if joins i a (B i) then ?X - group i ?p else ?X))"
    using PushBlock_ok [OF B(1) Suc(4,5) add(3)] by blast
  show ?case
  proof (cases "joins i a (B i)")
    case False
    then have "settled (B(i := ?X))"
      using B(3) by (intro settled_add) (auto simp: joins_def)
    then have "holds A sz lo h' (M \<union> span i a)"
      using h'(2) False add(1,2) by (auto intro!: holdsI)
    then show ?thesis
      using h'(1) False by (subst FreeBlock.simps) simp
  next
    case True
    then have i: "i < 6"
      by (simp add: joins_def)
    have valid: "in_heap A sz i c" if "c \<in> ?X" for c
      using that heap_rep_in_heap [OF B(1) Suc(4)] Suc(5) by blast
    note p = joined_group [OF valid True heap_repD(5) [OF B(1)]]
    let ?B' = "B(i := ?X - group i ?p)"
    have "separate ?B'" "free_space ?B' = M \<union> span i a - span (Suc i) ?p"
      using remove_blocks [OF add(1) Suc(4), of "group i ?p"] p(3) add(2) B(4) group_span [OF i, of ?p] by simp_all
    moreover have "settled ?B'"
      using p(4) by (intro settled_mono [OF B(3)]) auto
    ultimately have "holds A sz lo h' (M \<union> span i a - span (Suc i) ?p)"
      using h'(2) True by (auto intro: holdsI)
    then obtain h'' where h'': "FreeBlock ?p (Suc i) h' = Some h''"
      "holds A sz lo h'' (M \<union> span i a - span (Suc i) ?p \<union> span (Suc i) ?p)"
    proof -
      have "n = 7 - Suc i" "Suc i < 7"
        using Suc(2) i by simp_all
      from Suc(1) [OF this(1) _ this(2) p(1)] show ?thesis
        using \<open>holds A sz lo h' _\<close> that by blast
    qed
    have "span (Suc i) ?p \<subseteq> M \<union> span i a"
      unfolding group_span [OF i, symmetric] B(4) [symmetric] using p(3) Suc(4) by (fastforce simp: mem_free_space)
    then have "M \<union> span i a - span (Suc i) ?p \<union> span (Suc i) ?p = M \<union> span i a"
      by blast
    with h'' show ?thesis
      using h'(1) True p(2) by (subst FreeBlock.simps) simp
  qed
qed simp


section \<open>Runs of blocks\<close>

lemma free_one:
  assumes "holds A sz lo h M" "i < 7" "bytes i dvd x" "{x..<x + bytes i} \<subseteq> {A..<A + sz}" "{x..<x + bytes i} \<inter> M = {}"
  shows "\<exists>h'. FreeBlock x i h = Some h' \<and> holds A sz lo h' (M \<union> {x..<x + bytes i})" "x + bytes i < 2 ^ 64"
proof -
  show "\<exists>h'. FreeBlock x i h = Some h' \<and> holds A sz lo h' (M \<union> {x..<x + bytes i})"
    using FreeBlock_ok [OF assms(1,2), of x] assms(3-) by (simp add: in_heap_iff span_def)
  have "x + bytes i \<le> A + sz"
    using assms(4) by simp
  then show "x + bytes i < 2 ^ 64"
    using holds_facts(4) [OF assms(1)] by simp
qed

lemma interval_split: "x \<le> y \<Longrightarrow> y \<le> z \<Longrightarrow> {x..<z} = {x..<y} \<union> {y..<z}" for x y z :: nat
  by (rule ivl_disj_un_two(3) [symmetric])

lemma free_big_blocks_ok:
  assumes "holds A sz lo h M" "i < 7" "bytes i dvd x"
    and "{x..<x + n * bytes i} \<subseteq> {A..<A + sz}" "{x..<x + n * bytes i} \<inter> M = {}"
  shows "\<exists>h'. free_big_blocks x (x + n * bytes i) (bytes i) i h = Some h' \<and> holds A sz lo h' (M \<union> {x..<x + n * bytes i})"
  using assms(1,3-)
proof (induction n arbitrary: x h M)
  case 0
  then show ?case by (subst free_big_blocks.simps) simp
next
  case (Suc n)
  have split: "{x..<x + Suc n * bytes i} = {x..<x + bytes i} \<union> {x + bytes i..<x + bytes i + n * bytes i}"
    by (subst interval_split [of x "x + bytes i"]) (simp_all add: add.assoc)
  obtain h1 where h1: "FreeBlock x i h = Some h1" "holds A sz lo h1 (M \<union> {x..<x + bytes i})"
    and small: "x + bytes i < 2 ^ 64"
    using free_one [OF Suc.prems(1) assms(2) Suc.prems(2)] Suc.prems(3,4) unfolding split by blast
  have "{x + bytes i..<x + bytes i + n * bytes i} \<inter> (M \<union> {x..<x + bytes i}) = {}"
    using Suc.prems(4) unfolding split by auto
  then obtain h2 where "free_big_blocks (x + bytes i) (x + bytes i + n * bytes i) (bytes i) i h1 = Some h2"
    "holds A sz lo h2 (M \<union> {x..<x + bytes i} \<union> {x + bytes i..<x + bytes i + n * bytes i})"
    using Suc.IH [OF h1(2), of "x + bytes i"] Suc.prems(2,3) unfolding split by auto
  then show ?case
    using h1(1) small unfolding split
    by (subst free_big_blocks.simps) (simp add: wrap64_less Un_assoc add.assoc)
qed

lemma free_before_level_ok:
  assumes "holds A sz lo h M" "i < 7" "bytes i dvd x" "s \<le> x" "x - s < bytes i"
    and "{x..<x + n * bytes i} \<subseteq> {A..<A + sz}" "{x..<x + n * bytes i} \<inter> M = {}" "x + n * bytes i \<le> A + sz"
  shows "\<exists>h'. free_before_level s (x + n * bytes i) (bytes i) i h = Some (x, h') \<and>
    holds A sz lo h' (M \<union> {x..<x + n * bytes i})"
  using assms(1,6-)
proof (induction n arbitrary: h M)
  case 0
  have "s + bytes i < 2 ^ 64"
    using 0(4) assms(4) bytes_bound [OF assms(2)] holds_facts(4) [OF assms(1)] by simp
  moreover have "\<not> s + bytes i \<le> x"
    using assms(4,5) by simp
  ultimately show ?case
    using 0 by (subst free_before_level.simps) (simp add: wrap64_less)
next
  case (Suc n)
  let ?y = "x + n * bytes i"
  have split: "{x..<x + Suc n * bytes i} = {?y..<?y + bytes i} \<union> {x..<?y}"
    by (subst interval_split [of x ?y]) (auto simp: algebra_simps)
  have dvd: "bytes i dvd ?y"
    using assms(3) by simp
  obtain h1 where h1: "FreeBlock ?y i h = Some h1" "holds A sz lo h1 (M \<union> {?y..<?y + bytes i})"
    and small: "?y + bytes i < 2 ^ 64"
    using free_one [OF Suc.prems(1) assms(2) dvd] Suc.prems(2,3) unfolding split by blast
  have "{x..<?y} \<inter> (M \<union> {?y..<?y + bytes i}) = {}" "?y \<le> A + sz" "{x..<?y} \<subseteq> {A..<A + sz}"
    using Suc.prems(2-) unfolding split by auto
  then obtain h2 where h2: "free_before_level s ?y (bytes i) i h1 = Some (x, h2)"
    "holds A sz lo h2 (M \<union> {?y..<?y + bytes i} \<union> {x..<?y})"
    using Suc.IH [OF h1(2)] by auto
  have "sub64 (x + Suc n * bytes i) (bytes i) = ?y" "wrap64 (s + bytes i) \<le> x + Suc n * bytes i"
    using small assms(4) by (simp_all add: sub64_less wrap64_less add.assoc [symmetric] add.commute [of "bytes i"])
  then show ?case
    using h1(1) h2 unfolding split by (subst free_before_level.simps) (simp add: Un_assoc)
qed

lemma free_after_level_ok:
  assumes "holds A sz lo h M" "i < 7" "bytes i dvd x" "r < bytes i" "x + n * bytes i + r \<le> A + sz"
    and "{x..<x + n * bytes i} \<subseteq> {A..<A + sz}" "{x..<x + n * bytes i} \<inter> M = {}"
  shows "\<exists>h'. free_after_level x (x + n * bytes i + r) (bytes i) i h = Some (x + n * bytes i, h') \<and>
    holds A sz lo h' (M \<union> {x..<x + n * bytes i})"
  using assms(1,3,5-)
proof (induction n arbitrary: x h M)
  case 0
  have "x + bytes i < 2 ^ 64"
    using 0(3) bytes_bound [OF assms(2)] holds_facts(4) [OF assms(1)] by simp
  then show ?case
    using assms(4) 0 by (subst free_after_level.simps) (simp add: wrap64_less)
next
  case (Suc n)
  have split: "{x..<x + Suc n * bytes i} = {x..<x + bytes i} \<union> {x + bytes i..<x + bytes i + n * bytes i}"
    by (subst interval_split [of x "x + bytes i"]) (simp_all add: add.assoc)
  obtain h1 where h1: "FreeBlock x i h = Some h1" "holds A sz lo h1 (M \<union> {x..<x + bytes i})"
    and small: "x + bytes i < 2 ^ 64"
    using free_one [OF Suc.prems(1) assms(2) Suc.prems(2)] Suc.prems(4,5) unfolding split by blast
  have "{x + bytes i..<x + bytes i + n * bytes i} \<inter> (M \<union> {x..<x + bytes i}) = {}"
    using Suc.prems(5) unfolding split by auto
  then obtain h2 where h2: "free_after_level (x + bytes i) (x + bytes i + n * bytes i + r) (bytes i) i h1 =
      Some (x + bytes i + n * bytes i, h2)"
    "holds A sz lo h2 (M \<union> {x..<x + bytes i} \<union> {x + bytes i..<x + bytes i + n * bytes i})"
    using Suc.IH [OF h1(2), of "x + bytes i"] Suc.prems(2-4) unfolding split by (auto simp: add.assoc)
  have "wrap64 (x + bytes i) = x + bytes i"
    using small by (rule wrap64_less)
  then show ?case
    using h1(1) h2 unfolding split
    by (subst free_after_level.simps) (simp add: Un_assoc add.assoc)
qed


section \<open>Freeing a range of pages\<close>

lemma multiple_between:
  assumes "g dvd x" "g dvd y" "x \<le> y" "y - x < (g :: nat)"
  shows "x = y"
proof -
  have "g dvd y - x" using assms(1,2) by (simp add: dvd_diff_nat)
  then have "y - x = 0" using assms(4) by (meson dvd_imp_le not_less zero_less_iff_neq_zero)
  then show ?thesis using assms(3) by simp
qed

lemma free_before_ok:
  assumes "holds A sz lo h M" "k < 7" "bytes k dvd e" "PageBytes dvd s" "s \<le> e" "e - s < bytes k"
    and "{s..<e} \<subseteq> {A..<A + sz}" "{s..<e} \<inter> M = {}" "e \<le> A + sz"
  shows "\<exists>h'. free_before k s e h = Some h' \<and> holds A sz lo h' (M \<union> {s..<e})"
  using assms
proof (induction k arbitrary: e h M)
  case 0
  then have "s = e"
    by (intro multiple_between [of "bytes 0"]) (simp_all add: PageBytes_def)
  with 0 show ?case by simp
next
  case (Suc i)
  define n where "n = (e - s) div bytes i"
  define x where "x = e - n * bytes i"
  have "n * bytes i \<le> e - s" "e - s - n * bytes i < bytes i"
    by (simp_all add: n_def minus_div_mult_eq_mod)
  then have x: "s \<le> x" "x - s < bytes i" "e = x + n * bytes i" "x \<le> e"
    using Suc.prems(5) by (simp_all add: x_def)
  have dvd: "bytes i dvd x"
  proof -
    have "bytes i dvd e"
      using dvd_trans [OF bytes_dvd [of i "Suc i"] Suc.prems(3)] Suc.prems(2) by simp
    then show ?thesis unfolding x_def by (rule dvd_diff_nat) simp
  qed
  have split: "{s..<e} = {s..<x} \<union> {x..<e}"
    by (rule interval_split [OF x(1,4)])
  obtain h1 where h1: "free_before_level s e (bytes i) i h = Some (x, h1)" "holds A sz lo h1 (M \<union> {x..<e})"
  proof -
    have "{x..<e} \<subseteq> {A..<A + sz}" "{x..<e} \<inter> M = {}"
      using Suc.prems(7,8) unfolding split by blast+
    then show ?thesis
      using free_before_level_ok [OF Suc.prems(1) _ dvd x(1,2), of n, folded x(3)] Suc.prems(2,9) that by auto
  qed
  have "{s..<x} \<inter> (M \<union> {x..<e}) = {}" "{s..<x} \<subseteq> {A..<A + sz}" "x \<le> A + sz"
    using Suc.prems(7-9) x(4) unfolding split by auto
  then obtain h2 where "free_before i s x h1 = Some h2" "holds A sz lo h2 (M \<union> {x..<e} \<union> {s..<x})"
    using Suc.IH [OF h1(2) _ dvd Suc.prems(4) x(1,2)] Suc.prems(2) by auto
  then show ?case
    using h1(1) holds_facts(6,7) [OF Suc.prems(1), of i] Suc.prems(2) unfolding split by (simp add: Un_ac)
qed

lemma free_after_ok:
  assumes "holds A sz lo h M" "k < 7" "bytes k dvd s" "PageBytes dvd e" "s \<le> e" "e - s < bytes k"
    and "{s..<e} \<subseteq> {A..<A + sz}" "{s..<e} \<inter> M = {}" "e \<le> A + sz"
  shows "\<exists>h'. free_after k s e h = Some h' \<and> holds A sz lo h' (M \<union> {s..<e})"
  using assms
proof (induction k arbitrary: s h M)
  case 0
  then have "s = e"
    by (intro multiple_between [of "bytes 0"]) (simp_all add: PageBytes_def)
  with 0 show ?case by simp
next
  case (Suc i)
  define n r where "n = (e - s) div bytes i" and "r = (e - s) mod bytes i"
  define x where "x = s + n * bytes i"
  have "e - s = n * bytes i + r"
    unfolding n_def r_def by (rule div_mult_mod_eq [symmetric])
  then have x: "x \<le> e" "e - x = r" "e = s + n * bytes i + r" "s \<le> x"
    using Suc.prems(5) by (simp_all add: x_def)
  have r: "r < bytes i"
    by (simp add: r_def)
  have dvd: "bytes i dvd s" "bytes i dvd x"
    using Suc.prems(2,3) bytes_dvd [of i "Suc i"] by (auto simp: x_def dest: dvd_trans)
  have split: "{s..<e} = {s..<x} \<union> {x..<e}"
    by (rule interval_split [OF x(4,1)])
  obtain h1 where h1: "free_after_level s e (bytes i) i h = Some (x, h1)" "holds A sz lo h1 (M \<union> {s..<x})"
  proof -
    have "{s..<x} \<subseteq> {A..<A + sz}" "{s..<x} \<inter> M = {}"
      using Suc.prems(7,8) unfolding split by blast+
    then show ?thesis
      using free_after_level_ok [OF Suc.prems(1) _ dvd(1) r, of n, folded x(3), folded x_def] Suc.prems(2,9) that by auto
  qed
  have "{x..<e} \<inter> (M \<union> {s..<x}) = {}" "{x..<e} \<subseteq> {A..<A + sz}"
    using Suc.prems(7,8) unfolding split by auto
  then obtain h2 where "free_after i x e h1 = Some h2" "holds A sz lo h2 (M \<union> {s..<x} \<union> {x..<e})"
    using Suc.IH [OF h1(2) _ dvd(2) Suc.prems(4) x(1)] Suc.prems(2,9) x(2) r by auto
  then show ?case
    using h1(1) holds_facts(6,7) [OF Suc.prems(1), of i] Suc.prems(2) unfolding split by (simp add: Un_ac)
qed

lemma find_big_ok:
  assumes "holds A sz lo h M" "k < 7" "PageBytes dvd s" "PageBytes dvd e" "s < e"
  shows "\<exists>i. i < 7 \<and> AlignUp_size s (bytes i) < AlignDown_size e (bytes i) \<and>
    find_big (Suc k) s e h = Some (Some (i, AlignUp_size s (bytes i), AlignDown_size e (bytes i)))"
  using assms(2)
proof (induction k)
  case 0
  have "AlignUp_size s (bytes 0) = s" "AlignDown_size e (bytes 0) = e"
    using assms(3,4) by (simp_all add: AlignUp_size_def AlignDown_size_def PageBytes_def)
  then show ?case
    using holds_facts(6,7) [OF assms(1), of 0] assms(5) by (intro exI [of _ 0]) simp
next
  case (Suc k)
  show ?case
  proof (cases "AlignUp_size s (bytes (Suc k)) < AlignDown_size e (bytes (Suc k))")
    case True
    then show ?thesis
      using holds_facts(6,7) [OF assms(1) Suc.prems] Suc.prems by (intro exI [of _ "Suc k"]) (simp add: Let_def)
  next
    case False
    then have "find_big (Suc (Suc k)) s e h = find_big (Suc k) s e h"
      using holds_facts(6,7) [OF assms(1) Suc.prems] by (simp add: Let_def)
    then show ?thesis
      using Suc.IH Suc.prems by simp
  qed
qed

lemma align_inside:
  assumes "v + 2 ^ 31 \<le> 2 ^ 64" "i < 7"
  shows "v \<le> AlignUp_size v (bytes i)" "AlignUp_size v (bytes i) - v < bytes i" "bytes i dvd AlignUp_size v (bytes i)"
    "AlignDown_size v (bytes i) \<le> v" "v - AlignDown_size v (bytes i) < bytes i"
proof -
  have small: "v + bytes i < 2 ^ 64"
    using assms(1) bytes_bound [OF assms(2)] by simp
  from AlignUp_ge [OF this] have "v \<le> AlignUp_size v (bytes i)" "AlignUp_size v (bytes i) < v + bytes i"
    by simp_all
  then show "v \<le> AlignUp_size v (bytes i)" "AlignUp_size v (bytes i) - v < bytes i"
    by linarith+
  show "bytes i dvd AlignUp_size v (bytes i)" "AlignDown_size v (bytes i) \<le> v"
    by (rule AlignUp_dvd [OF small], rule AlignDown_le)
  have "v mod bytes i < bytes i" "v mod bytes i \<le> v" by simp_all
  then show "v - AlignDown_size v (bytes i) < bytes i"
    unfolding AlignDown_size_def by linarith
qed

lemma multiple_steps:
  assumes "g dvd x" "g dvd y" "x \<le> (y :: nat)"
  obtains m where "y = x + m * g"
proof -
  have "g dvd y - x" using assms(1,2) by (simp add: dvd_diff_nat)
  then obtain m where "y - x = m * g" by (metis dvd_def mult.commute)
  then have "y = x + m * g" using assms(3) by linarith
  then show ?thesis by (rule that)
qed

lemma heap_Free_ok:
  assumes "holds A sz lo h M" "PageBytes dvd addr"
    and "{addr..<addr + n * PageBytes} \<subseteq> {A..<A + sz}" "{addr..<addr + n * PageBytes} \<inter> M = {}"
  shows "\<exists>h'. Free addr n h = Some h' \<and> holds A sz lo h' (M \<union> {addr..<addr + n * PageBytes})"
proof (cases "n = 0")
  case True
  then show ?thesis using assms(1) by (simp add: Free_def)
next
  case False
  let ?e = "addr + n * PageBytes"
  have lt: "addr < ?e" and dvd: "PageBytes dvd ?e"
    using False assms(2) by (simp_all add: PageBytes_def)
  then have ends: "A \<le> addr" "?e \<le> A + sz"
    using assms(3) by simp_all
  then have room: "?e + 2 ^ 31 \<le> 2 ^ 64"
    using holds_facts(4) [OF assms(1)] by linarith
  then have wrap: "wrap64 (addr + wrap64 (n * PageBytes)) = ?e"
    by (simp add: wrap64_less)
  obtain i where i: "i < 7" "AlignUp_size addr (bytes i) < AlignDown_size ?e (bytes i)"
    "find_big 7 addr ?e h = Some (Some (i, AlignUp_size addr (bytes i), AlignDown_size ?e (bytes i)))"
    using find_big_ok [OF assms(1), of 6 addr ?e] assms(2) dvd lt by auto
  let ?s = "AlignUp_size addr (bytes i)" and ?t = "AlignDown_size ?e (bytes i)"
  have "addr + 2 ^ 31 \<le> 2 ^ 64"
    using room lt by linarith
  note up = align_inside(1-3) [OF this i(1)] and down = align_inside(4,5) [OF room i(1)] AlignDown_dvd [of "bytes i" ?e]
  obtain m where m: "?t = ?s + m * bytes i"
    using multiple_steps [OF up(3) down(3)] i(2) by auto
  have split: "{addr..<?e} = {addr..<?s} \<union> {?s..<?t} \<union> {?t..<?e}"
    using interval_split [of addr ?s ?e] interval_split [of ?s ?t ?e] up(1) down(1) i(2) by auto
  have parts: "{addr..<?s} \<subseteq> {A..<A + sz}" "{?s..<?t} \<subseteq> {A..<A + sz}" "{?t..<?e} \<subseteq> {A..<A + sz}"
    "{addr..<?s} \<inter> M = {}" "{?s..<?t} \<inter> M = {}" "{?t..<?e} \<inter> M = {}"
    using assms(3,4) unfolding split by blast+
  obtain h1 where h1: "free_big_blocks ?s ?t (bytes i) i h = Some h1" "holds A sz lo h1 (M \<union> {?s..<?t})"
    using free_big_blocks_ok [OF assms(1) i(1) up(3), of m] parts(2,5) unfolding m by blast
  have "{addr..<?s} \<inter> (M \<union> {?s..<?t}) = {}" "?s \<le> A + sz"
    using parts(4) i(2) down(1) ends(2) by auto
  then obtain h2 where h2: "free_before i addr ?s h1 = Some h2" "holds A sz lo h2 (M \<union> {?s..<?t} \<union> {addr..<?s})"
    using free_before_ok [OF h1(2) i(1) up(3) assms(2) up(1,2) parts(1)] by blast
  have "{?t..<?e} \<inter> (M \<union> {?s..<?t} \<union> {addr..<?s}) = {}"
    using parts(6) i(2) by auto
  then obtain h3 where h3: "free_after i ?t ?e h2 = Some h3" "holds A sz lo h3 (M \<union> {?s..<?t} \<union> {addr..<?s} \<union> {?t..<?e})"
    using free_after_ok [OF h2(2) i(1) down(3) dvd down(1,2) parts(3) _ ends(2)] by blast
  have "M \<union> {?s..<?t} \<union> {addr..<?s} \<union> {?t..<?e} = M \<union> {addr..<?e}"
    unfolding split by blast
  moreover have "Free addr n h = Some h3"
    using False wrap i(1,3) h1(1) h2(1) h3(1) holds_facts(1) [OF assms(1)] holds_facts(6,7) [OF assms(1) i(1)]
    by (simp add: Free_def)
  ultimately show ?thesis using h3(2) by auto
qed

end
