(* ===== verification/PageHeap_Alloc.thy ===== *)
theory PageHeap_Alloc
  imports PageHeap_Free
begin

text \<open>
  Allocating: a returned block was free and is free no longer, and an allocation fails only when no block
  of its size is free.
\<close>

section \<open>Popping a block\<close>

lemma bits_of_empty:
  assumes "heap_rep A sz lo h B" "i < 7"
  shows "bits_of A i (B i) = {} \<longleftrightarrow> B i = {}"
proof -
  have "a \<in> addr_of A i ` bits_of A i (B i)" if "a \<in> B i" for a
    using in_heap_offset(1) [OF heap_rep_in_heap [OF assms that] assms(2) heap_repD(6) [OF assms(1)]] that
    by (metis imageI mem_bits_of)
  then show ?thesis by (auto simp: bits_of_def)
qed

lemma PopBlock_ok:
  assumes "heap_rep A sz lo h B" "i < 7"
  shows "if B i = {} then on_block i (PopBlock random) h = Some (0, h)
    else \<exists>a h'. a \<in> B i \<and> on_block i (PopBlock random) h = Some (a, h') \<and> heap_rep A sz lo h' (B(i := B i - {a}))"
proof -
  note rep = heap_repD [OF assms(1)] and blk = block_repD [OF heap_repD(9) [OF assms]]
  let ?b = "m_blocks h ! i" and ?mem = "m_management_data h"
  have fetch: "fetch (m_blocks h) i = Some ?b" "store (m_blocks h) i c = Some ((m_blocks h)[i := c])" for c
    using rep(4) assms(2) by (simp_all add: fetch_def store_def)
  note find = FindFreeBlock_ok [OF blk(4), of random]
  show ?thesis
  proof (cases "B i = {}")
    case True
    then show ?thesis
      using find bits_of_empty [OF assms] fetch by (simp add: on_block_def PopBlock_def)
  next
    case False
    then obtain x g where x: "FindFreeBlock random ?mem (m_bitmap ?b) = Some (Some x, (m_bitmap ?b)\<lparr>bitmap_rng := g\<rparr>)"
      "x \<in> bits_of A i (B i)"
      using find bits_of_empty [OF assms] by auto
    let ?a = "addr_of A i x" and ?bm = "(m_bitmap ?b)\<lparr>bitmap_rng := g\<rparr>"
    have a: "?a \<in> B i"
      using x(2) by (simp add: mem_bits_of)
    then have "?a < 2 ^ 64"
      using heap_rep_in_heap [OF assms a] rep(6) by (simp add: in_heap_def)
    then have wrap: "wrap64 (base A i + wrap64 (x * 2 ^ shift i)) = ?a"
      by (rule wrap_addr_of)
    have "bitmap_ok (limit A sz i) (lo i) (lo (Suc i)) ?mem ?bm (bits_of A i (B i))"
      using blk(4) by simp
    from ClearBit_ok [OF this x(2)] obtain mem' bm' where clr: "ClearBit x (?mem, ?bm) = Some (mem', bm')"
      "bitmap_ok (limit A sz i) (lo i) (lo (Suc i)) mem' bm' (bits_of A i (B i - {?a}))"
      "outside (lo i) (lo (Suc i)) ?mem mem'"
      by (auto simp: bits_of_remove [OF refl])
    have "heap_rep A sz lo (h\<lparr>m_blocks := (m_blocks h)[i := ?b\<lparr>m_bitmap := bm'\<rparr>], m_management_data := mem'\<rparr>)
        (B(i := B i - {?a}))"
      using heap_rep_update [OF assms clr(3,2)] blk(5) by blast
    moreover have "on_block i (PopBlock random) h =
        Some (?a, h\<lparr>m_blocks := (m_blocks h)[i := ?b\<lparr>m_bitmap := bm'\<rparr>], m_management_data := mem'\<rparr>)"
      using x(1) clr(1) blk(1,3) fetch wrap by (simp add: on_block_def PopBlock_def)
    ultimately show ?thesis
      using False a by auto
  qed
qed

text \<open>Taking a block out of the free space.\<close>

lemma take_block:
  assumes "heap_ok A sz lo h B" "i < 7" "B i \<noteq> {}"
  shows "\<exists>a h'. on_block i (PopBlock random) h = Some (a, h') \<and> a \<noteq> 0 \<and> in_heap A sz i a \<and>
    span i a \<subseteq> free_space B \<and> holds A sz lo h' (free_space B - span i a)"
proof -
  have B: "heap_rep A sz lo h B" "separate B" "settled B"
    using assms(1) by (simp_all add: heap_ok_def)
  obtain a h' where a: "a \<in> B i" "on_block i (PopBlock random) h = Some (a, h')" "heap_rep A sz lo h' (B(i := B i - {a}))"
    using PopBlock_ok [OF B(1) assms(2), of random] assms(3) by auto
  have "in_heap A sz i a"
    by (rule heap_rep_in_heap [OF B(1) assms(2) a(1)])
  moreover from this have "a \<noteq> 0"
    using heap_repD(5) [OF B(1)] by (auto simp: in_heap_def)
  moreover have "span i a \<subseteq> free_space B"
    using a(1) assms(2) unfolding free_space_def by blast
  moreover have "holds A sz lo h' (free_space B - span i a)"
    using remove_blocks [OF B(2) assms(2), of "{a}"] a(1) settled_remove [OF B(3)] by (intro holdsI [OF a(3)]) simp_all
  ultimately show ?thesis
    using a(2) by blast
qed

section \<open>Linear search\<close>

lemma give_back:
  assumes "holds A sz lo h (M - {a..<a + t})" "{a..<a + t} \<subseteq> M" "{a..<a + t} \<subseteq> {A..<A + sz}"
    and "PageBytes dvd a" "PageBytes dvd s" "PageBytes dvd t" "s \<le> t"
  shows "\<exists>h'. Free (a + s) ((t - s) div PageBytes) h = Some h' \<and> holds A sz lo h' (M - {a..<a + s})"
proof -
  have len: "(t - s) div PageBytes * PageBytes = t - s"
    using assms(5,6) by (simp add: dvd_diff_nat)
  then have range: "{a + s..<a + s + (t - s) div PageBytes * PageBytes} = {a + s..<a + t}"
    using assms(7) by simp
  have "M - {a..<a + t} \<union> {a + s..<a + t} = M - {a..<a + s}"
    using assms(2,7) by auto
  moreover have "{a + s..<a + t} \<subseteq> {A..<A + sz}" "{a + s..<a + t} \<inter> (M - {a..<a + t}) = {}"
    using assms(3) by auto
  ultimately show ?thesis
    using heap_Free_ok [OF assms(1), of "a + s" "(t - s) div PageBytes"] assms(4,5) unfolding range by simp
qed

lemma linear_search_ok:
  assumes "heap_ok A sz lo h B" "i \<le> j" "j \<le> 7" "i < 7"
  shows "\<exists>addr h'. linear_search (bytes i) [j..<7] h = Some (addr, h') \<and>
    (if \<forall>k \<in> {j..<7}. B k = {} then addr = 0 \<and> h' = h
     else in_heap A sz i addr \<and> addr \<noteq> 0 \<and> span i addr \<subseteq> free_space B \<and> holds A sz lo h' (free_space B - span i addr))"
  using assms(2,3)
proof (induction "7 - j" arbitrary: j)
  case 0
  then show ?case by simp
next
  case (Suc n)
  then have j: "j < 7" "[j..<7] = j # [Suc j..<7]" "{j..<7} = insert j {Suc j..<7}"
    by (auto simp: upt_conv_Cons)
  have rep: "heap_rep A sz lo h B"
    using assms(1) by (simp add: heap_ok_def)
  show ?case
  proof (cases "B j = {}")
    case True
    then have "on_block j (PopBlock False) h = Some (0, h)"
      using PopBlock_ok [OF rep j(1), of False] by simp
    then show ?thesis
      using Suc(1) [of "Suc j"] Suc(2,3) j True by simp
  next
    case False
    then obtain a h' where a: "on_block j (PopBlock False) h = Some (a, h')" "a \<noteq> 0" "in_heap A sz j a"
      "span j a \<subseteq> free_space B" "holds A sz lo h' (free_space B - span j a)"
      using take_block [OF assms(1) j(1)] by blast
    have le: "bytes i \<le> bytes j"
      using shift_mono [OF Suc(3) j(1)] by simp
    have dvd: "PageBytes dvd a" "bytes i dvd a" "A \<le> a" "a + bytes j \<le> A + sz"
      using a(3) page_dvd [OF j(1)] bytes_dvd [OF Suc(3) j(1)] dvd_trans by (auto simp: in_heap_def)
    note facts = holds_facts [OF a(5)]
    have wrap: "wrap64 (a + bytes i) = a + bytes i"
    proof (rule wrap64_less)
      have "a + bytes i \<le> A + sz" using dvd(4) le by linarith
      then show "a + bytes i < 2 ^ 64" using facts(4) by simp
    qed
    have "\<exists>h''. (if bytes j > bytes i then Free (wrap64 (a + bytes i)) ((bytes j - bytes i) div PageBytes) h' else Some h') =
        Some h'' \<and> holds A sz lo h'' (free_space B - span i a)"
    proof (cases "bytes j > bytes i")
      case True
      then show ?thesis
        using give_back [of A sz lo h' "free_space B" a "bytes j" "bytes i"] a(4,5) dvd le page_dvd [OF j(1)]
          page_dvd [OF assms(4)] wrap by (auto simp: span_def)
    next
      case False
      then show ?thesis using a(5) le by (simp add: span_def)
    qed
    then obtain h'' where h'': "(if bytes j > bytes i then Free (wrap64 (a + bytes i)) ((bytes j - bytes i) div PageBytes) h' else Some h') =
        Some h''" "holds A sz lo h'' (free_space B - span i a)" by blast
    have "linear_search (bytes i) [j..<7] h = Some (a, h'')"
      using a(1,2) h''(1) facts(6,7) [OF j(1)] j(2) by (auto simp: Let_def split: if_splits)
    moreover have "in_heap A sz i a"
      using dvd le unfolding in_heap_def by linarith
    moreover have "span i a \<subseteq> span j a"
      using le by (auto simp only: span_def atLeastLessThan_iff)
    then have "span i a \<subseteq> free_space B"
      using a(4) by blast
    ultimately show ?thesis
      using False j(3) a(2) h''(2) by auto
  qed
qed


section \<open>Which blocks are there\<close>

lemma span_nested:
  assumes "i \<le> j" "j < 7" "bytes i dvd p" "bytes j dvd a" "x \<in> span i p" "x \<in> span j a"
  shows "span i p \<subseteq> span j a"
proof -
  obtain q where q: "p = q * bytes i"
    using assms(3) by (metis dvd_def mult.commute)
  have "bytes i dvd a" "bytes i dvd a + bytes j"
    using assms(4) bytes_dvd [OF assms(1,2)] dvd_trans by (auto intro!: dvd_add)
  then obtain c d where c: "a = c * bytes i" "a + bytes j = d * bytes i"
    by (metis dvd_def mult.commute)
  have "q * bytes i \<le> x" "x < q * bytes i + bytes i" "c * bytes i \<le> x" "x < d * bytes i"
    using assms(5,6) unfolding span_def c(2) [symmetric] using q c(1) by simp_all
  then have "c * bytes i < q * bytes i + bytes i" "q * bytes i < d * bytes i"
    by linarith+
  then have "c * bytes i < Suc q * bytes i" "q * bytes i < d * bytes i"
    by simp_all
  then have "c \<le> q" "Suc q \<le> d"
    using mult_less_cancel2 [of c "bytes i" "Suc q"] mult_less_cancel2 [of q "bytes i" d] by simp_all
  then have "c * bytes i \<le> q * bytes i" "Suc q * bytes i \<le> d * bytes i"
    using mult_le_mono1 by blast+
  then show ?thesis
    using q c by (simp add: span_def)
qed

text \<open>In a settled heap an aligned free range lies inside one free block.\<close>

lemma free_range_in_block:
  assumes "settled B" "\<And>j a. j < 7 \<Longrightarrow> a \<in> B j \<Longrightarrow> bytes j dvd a"
    and "i < 7" "bytes i dvd p" "span i p \<subseteq> free_space B"
  shows "\<exists>j a. i \<le> j \<and> j < 7 \<and> a \<in> B j \<and> span i p \<subseteq> span j a"
  using assms(3-)
proof (induction i arbitrary: p)
  case 0
  then obtain j a where "j < 7" "a \<in> B j" "p \<in> span j a"
    using start_in_span [of p 0] unfolding subset_iff mem_free_space by blast
  moreover from this have "span 0 p \<subseteq> span j a"
    using span_nested [OF le0 _ 0(2) assms(2) start_in_span] by blast
  ultimately show ?case by blast
next
  case (Suc i)
  then have i: "i < 6" "i < 7" by simp_all
  have child: "\<exists>j a. i \<le> j \<and> j < 7 \<and> a \<in> B j \<and> span i c \<subseteq> span j a \<and> c \<in> span (Suc i) p" if "c \<in> group i p" for c
  proof -
    have "span i c \<subseteq> span (Suc i) p"
      unfolding group_span [OF i(1), symmetric] using that by blast
    then show ?thesis
      using Suc.IH [OF i(2) group_parent(2) [OF i(1) Suc.prems(2) that]] Suc.prems(3) start_in_span by blast
  qed
  have "\<exists>c \<in> group i p. c \<notin> B i"
    using assms(1) i(1) Suc.prems(2) unfolding settled_def by blast
  then obtain c where c: "c \<in> group i p" "c \<notin> B i" by blast
  then obtain j a where a: "i \<le> j" "j < 7" "a \<in> B j" "span i c \<subseteq> span j a" "c \<in> span (Suc i) p"
    using child by blast
  have "j \<noteq> i"
  proof
    assume "j = i"
    then have "c = a"
      using a(4) by (auto simp: span_def)
    then show False using a(3) c(2) \<open>j = i\<close> by simp
  qed
  then have "span (Suc i) p \<subseteq> span j a"
    using span_nested [OF _ a(2) Suc.prems(2) assms(2) [OF a(2,3)] a(5)] a(1,4) start_in_span [of c i] by auto
  then show ?case using a(1-3) \<open>j \<noteq> i\<close> by (metis Suc_leI le_neq_implies_less)
qed

lemma no_block_iff:
  assumes "heap_ok A sz lo h B" "i < 7"
  shows "(\<forall>k \<in> {i..<7}. B k = {}) \<longleftrightarrow> \<not> (\<exists>p. bytes i dvd p \<and> span i p \<subseteq> free_space B)"
proof -
  have B: "heap_rep A sz lo h B" "settled B" "\<And>j a. j < 7 \<Longrightarrow> a \<in> B j \<Longrightarrow> bytes j dvd a"
    using assms(1) heap_rep_in_heap by (auto simp: heap_ok_def in_heap_def)
  show ?thesis
  proof
    assume "\<forall>k \<in> {i..<7}. B k = {}"
    then show "\<not> (\<exists>p. bytes i dvd p \<and> span i p \<subseteq> free_space B)"
      using free_range_in_block [OF B(2,3) assms(2)] by fastforce
  next
    assume none: "\<not> (\<exists>p. bytes i dvd p \<and> span i p \<subseteq> free_space B)"
    show "\<forall>k \<in> {i..<7}. B k = {}"
    proof (rule ccontr)
      assume "\<not> ?thesis"
      then obtain k a where k: "i \<le> k" "k < 7" "a \<in> B k" by auto
      then have "span k a \<subseteq> free_space B"
        unfolding free_space_def by blast
      moreover have "span i a \<subseteq> span k a"
        using shift_mono [OF k(1,2)] by (auto simp: span_def intro: order.strict_trans2)
      moreover have "bytes i dvd a"
        using B(3) [OF k(2,3)] bytes_dvd [OF k(1,2)] dvd_trans by blast
      ultimately show False using none by blast
    qed
  qed
qed

end
