(* ===== verification/PageHeap_Random.thy ===== *)
theory PageHeap_Random
  imports PageHeap_Alloc
begin

text \<open>
  Allocation at a random place: the choice of a block size by the number of possible places, and of
  a place within the block.
\<close>

section \<open>Alignments\<close>

lemma countr_zero_spec:
  assumes "0 < v" "v < 2 ^ 64"
  defines "z \<equiv> countr_zero (of_nat v)"
  shows "z < 64" "2 ^ z \<le> v" "2 ^ k dvd v \<Longrightarrow> k \<le> z"
proof -
  have v: "unat (of_nat v :: u64) = v"
    using assms(2) by (simp add: unat_of_nat take_bit_nat_eq_self)
  then have "(of_nat v :: u64) \<noteq> 0"
    using assms(1) by (metis unsigned_0 less_numeral_extra(3))
  from bit_countr_zero [OF this] have bit: "bit (of_nat v :: u64) z" and "z < 64"
    by (simp_all add: z_def)
  then show "z < 64" by simp
  have "bit (unat (of_nat v :: u64)) z"
    unfolding bit_unsigned_iff using bit by simp
  then have odd: "odd (v div 2 ^ z)"
    unfolding v by (simp add: bit_iff_odd)
  then have "0 < v div 2 ^ z"
    by (rule odd_pos)
  then show "2 ^ z \<le> v"
    by (simp add: div_greater_zero_iff)
  assume "2 ^ k dvd v"
  then obtain c where c: "v = 2 ^ k * c" by (auto simp: dvd_def)
  show "k \<le> z"
  proof (rule ccontr)
    assume "\<not> k \<le> z"
    then obtain d where d: "k = z + Suc d"
      using less_imp_Suc_add [of z k] by auto
    have "v = 2 ^ z * (2 * (2 ^ d * c))"
      by (simp add: c d power_add)
    then show False using odd by simp
  qed
qed

lemma countr_zero_power: "k < 64 \<Longrightarrow> countr_zero (of_nat (2 ^ k)) = k"
proof -
  assume "k < 64"
  then have lt: "(2 :: nat) ^ k < 2 ^ 64"
    by (rule power_strict_increasing) simp
  have "2 ^ countr_zero (of_nat (2 ^ k)) \<le> (2 :: nat) ^ k" "k \<le> countr_zero (of_nat (2 ^ k))"
    using countr_zero_spec(2) [OF _ lt] countr_zero_spec(3) [OF _ lt, of k] by simp_all
  then show ?thesis by simp
qed

lemma heap_rng_rep [simp]: "heap_rep A sz lo (h\<lparr>heap_rng := g\<rparr>) B = heap_rep A sz lo h B"
  by (simp add: heap_rep_def)

lemma heap_rng_ok [simp]: "heap_ok A sz lo (h\<lparr>heap_rng := g\<rparr>) B = heap_ok A sz lo h B"
  by (simp add: heap_ok_def)

lemma heap_rng_holds [simp]: "holds A sz lo (h\<lparr>heap_rng := g\<rparr>) M = holds A sz lo h M"
  by (simp add: holds_def)

lemma random_below_ok:
  assumes "0 < mx" "mx < 2 ^ 64"
  shows "\<exists>r g. random_below mx h = (r, h\<lparr>heap_rng := g\<rparr>) \<and> r < mx"
proof -
  have mx: "unat (of_nat mx :: u64) = mx"
    using assms(2) by (simp add: unat_of_nat take_bit_nat_eq_self)
  then have "(0 :: u64) < of_nat mx"
    using assms(1) by (simp add: word_less_nat_alt)
  then have "fst (GenerateRandom (of_nat mx) (heap_rng h)) < of_nat mx"
    by (rule GenerateRandom_less)
  then have "unat (fst (GenerateRandom (of_nat mx) (heap_rng h))) < mx"
    using mx by (simp add: word_less_nat_alt)
  then show ?thesis
    by (auto simp: random_below_def split_beta)
qed

section \<open>Counting the places\<close>

text \<open>A request that fits: pages in the size \<open>s\<close> at a multiple of \<open>2 ^ z\<close>, from block size \<open>i\<close> on.\<close>

definition fits :: "nat \<Rightarrow> nat \<Rightarrow> nat \<Rightarrow> bool" where
  "fits i s z \<longleftrightarrow> i < 7 \<and> PageBytes dvd s \<and> 0 < s \<and> s \<le> bytes i \<and> 12 \<le> z \<and> z \<le> shift i"

lemma fitsD:
  assumes "fits i s z"
  shows "i < 7" "PageBytes dvd s" "PageBytes \<le> s" "s \<le> bytes i" "12 \<le> z" "z \<le> shift i" "i \<le> j \<Longrightarrow> j < 7 \<Longrightarrow> fits j s z"
proof -
  show "i < 7" "PageBytes dvd s" "s \<le> bytes i" "12 \<le> z" "z \<le> shift i"
    using assms by (simp_all add: fits_def)
  show "PageBytes \<le> s"
    using assms by (auto simp: fits_def intro: dvd_imp_le)
  assume "i \<le> j" "j < 7"
  from shift_mono [OF this] have "shift i \<le> shift j" "bytes i \<le> bytes j" by simp_all
  then show "fits j s z"
    using assms \<open>j < 7\<close> unfolding fits_def by linarith
qed

lemma page_multiple_pow: "12 \<le> z \<Longrightarrow> PageBytes dvd 2 ^ z"
  using le_imp_power_dvd [of 12 z "2 :: nat"] by (simp add: PageBytes_def)

definition weight :: "nat \<Rightarrow> nat \<Rightarrow> nat \<Rightarrow> KPageHeap \<Rightarrow> nat" where
  "weight s z j h = alignments_of s z (m_blocks h ! j)"

lemma bits_card_bound:
  assumes "heap_rep A sz lo h B" "j < 7"
  shows "card (bits_of A j (B j)) * bytes j \<le> 2 ^ 64"
proof -
  note ok = bitmap_okD [OF block_repD(4) [OF heap_repD(9) [OF assms]]]
  have "card (bits_of A j (B j)) \<le> limit A sz j"
    using card_mono [OF _ ok(5)] by simp
  then have "card (bits_of A j (B j)) * bytes j \<le> limit A sz j * bytes j"
    by (rule mult_le_mono1)
  also have "\<dots> \<le> AlignUp_size (A + sz) (grain j)"
    unfolding limit_def by (metis diff_le_self div_times_less_eq_dividend le_trans)
  also have "\<dots> \<le> 2 ^ 64"
    using AlignUp_ge(2) [OF _ grain_pos, of "A + sz" j] grain_bound [OF assms(2)] heap_repD(6) [OF assms(1)] by simp
  finally show ?thesis .
qed

lemma weight_ok:
  assumes "heap_rep A sz lo h B" "fits j s z"
  shows "weight s z j h \<le> 2 ^ 52" "weight s z j h = 0 \<longleftrightarrow> B j = {}"
proof -
  note f = fitsD(1-6) [OF assms(2)] and blk = block_repD [OF heap_repD(9) [OF assms(1) fitsD(1) [OF assms(2)]]]
  let ?c = "card (bits_of A j (B j))" and ?k = "1 + (bytes j - s) div 2 ^ z"
  have "bytes j < 2 ^ 64"
    using bytes_bound [OF f(1)] by simp
  then have sub: "sub64 (bytes j) s = bytes j - s"
    using f(4) by (intro sub64_less) simp_all
  have "(bytes j - s) div 2 ^ z \<le> (bytes j - PageBytes) div PageBytes"
  proof -
    have "PageBytes \<le> 2 ^ z"
      using power_increasing [OF f(5), of "2 :: nat"] by (simp add: PageBytes_def)
    then have "(bytes j - s) div 2 ^ z \<le> (bytes j - s) div PageBytes"
      by (simp add: PageBytes_def div_le_mono2)
    also have "\<dots> \<le> (bytes j - PageBytes) div PageBytes"
      using f(3) by (intro div_le_mono) simp
    finally show ?thesis .
  qed
  then have "?k * PageBytes \<le> bytes j"
    using page_dvd [OF f(1)] f(3,4) by (auto simp: PageBytes_def dvd_def)
  then have "?k * ?c * PageBytes \<le> bytes j * ?c"
    by (metis mult.assoc mult.commute mult_le_mono1)
  also have "\<dots> \<le> 2 ^ 64"
    using bits_card_bound [OF assms(1) f(1)] by (simp add: mult.commute)
  finally have le: "?k * ?c \<le> 2 ^ 52"
    by (simp add: PageBytes_def)
  have "?k < 2 ^ 64"
    using \<open>?k * PageBytes \<le> bytes j\<close> \<open>bytes j < 2 ^ 64\<close> by (simp add: PageBytes_def)
  then have w: "weight s z j h = ?k * ?c"
    using le blk(1) bitmap_okD(7) [OF blk(4)]
    by (simp add: weight_def alignments_of_def Block_GetSize_def GetNumFreeBlocks_def sub wrap64_less)
  then show "weight s z j h \<le> 2 ^ 52" using le by simp
  have "?c = 0 \<longleftrightarrow> B j = {}"
    using bitmap_okD(9) [OF blk(4)] bits_of_empty [OF assms(1) f(1)] by simp
  then show "weight s z j h = 0 \<longleftrightarrow> B j = {}" using w by auto
qed

lemma count_alignments_ok:
  assumes "heap_rep A sz lo h B" "fits i s z" "i \<le> k" "k \<le> 7" "acc < 4"
  shows "\<exists>mx. count_alignments s z [k..<7] acc h = Some (acc + (\<Sum>j = k..<mx. weight s z j h), mx) \<and> k \<le> mx \<and> mx \<le> 7 \<and>
    (acc + (\<Sum>j = k..<mx. weight s z j h) < 4 \<longrightarrow> mx = 7) \<and> acc + (\<Sum>j = k..<mx. weight s z j h) < 2 ^ 53"
  using assms(3-)
proof (induction "7 - k" arbitrary: k acc)
  case 0
  then show ?case
    using heap_repD(3) [OF assms(1)] by (intro exI [of _ 7]) simp
next
  case (Suc n)
  then have k: "k < 7" "[k..<7] = k # [Suc k..<7]"
    by (simp_all add: upt_conv_Cons)
  let ?w = "weight s z k h"
  have w: "?w \<le> 2 ^ 52"
    by (rule weight_ok(1) [OF assms(1) fitsD(7) [OF assms(2) Suc(3) k(1)]])
  then have "acc + ?w < 2 ^ 53"
    using Suc(5) by simp
  then have step: "count_alignments s z [k..<7] acc h =
      (if acc + ?w \<ge> 4 then Some (acc + ?w, Suc k) else count_alignments s z [Suc k..<7] (acc + ?w) h)"
    using k heap_repD(4) [OF assms(1)]
    by (simp add: fetch_def weight_def wrap64_less MinimumPossibleAlignmentsForRandomAllocation_def)
  show ?case
  proof (cases "acc + ?w \<ge> 4")
    case True
    then show ?thesis
      using step k(1) \<open>acc + ?w < 2 ^ 53\<close> by (intro exI [of _ "Suc k"]) simp
  next
    case False
    then obtain mx where mx: "count_alignments s z [Suc k..<7] (acc + ?w) h =
        Some (acc + ?w + (\<Sum>j = Suc k..<mx. weight s z j h), mx)" "Suc k \<le> mx" "mx \<le> 7"
      "acc + ?w + (\<Sum>j = Suc k..<mx. weight s z j h) < 4 \<longrightarrow> mx = 7"
      "acc + ?w + (\<Sum>j = Suc k..<mx. weight s z j h) < 2 ^ 53"
    proof -
      have "n = 7 - Suc k" using Suc(2) by simp
      from Suc(1) [OF this] show ?thesis
        using Suc(3) k(1) False that by (simp add: not_le) blast
    qed
    moreover have "(\<Sum>j = k..<mx. weight s z j h) = ?w + (\<Sum>j = Suc k..<mx. weight s z j h)"
      using mx(2) by (simp add: sum.atLeast_Suc_lessThan)
    ultimately show ?thesis
      using step False by (intro exI [of _ mx]) (simp add: add.assoc)
  qed
qed

lemma choose_block_ok:
  assumes "heap_rep A sz lo h B" "fits i s z" "i \<le> k" "mx \<le> 7"
    and "acc \<le> rnd" "rnd < acc + (\<Sum>j = k..<mx. weight s z j h)" "acc + (\<Sum>j = k..<mx. weight s z j h) < 2 ^ 53"
  shows "\<exists>j. choose_block rnd s z d [k..<mx] acc h = Some j \<and> k \<le> j \<and> j < mx \<and> B j \<noteq> {}"
  using assms(3-)
proof (induction "mx - k" arbitrary: k acc)
  case 0
  then show ?case by simp
next
  case (Suc n)
  then have k: "k < mx" "k < 7" "[k..<mx] = k # [Suc k..<mx]"
    by (simp_all add: upt_conv_Cons)
  let ?w = "weight s z k h"
  have sum: "(\<Sum>j = k..<mx. weight s z j h) = ?w + (\<Sum>j = Suc k..<mx. weight s z j h)"
    using k(1) by (simp add: sum.atLeast_Suc_lessThan)
  have "wrap64 (acc + ?w) = acc + ?w"
    using Suc(7) unfolding sum by (intro wrap64_less) simp
  then have step: "choose_block rnd s z d [k..<mx] acc h =
      (if rnd < acc + ?w then Some k else choose_block rnd s z d [Suc k..<mx] (acc + ?w) h)"
    using k(2,3) heap_repD(4) [OF assms(1)] by (simp add: fetch_def weight_def)
  show ?case
  proof (cases "rnd < acc + ?w")
    case True
    then have "?w \<noteq> 0"
      using Suc(5) by linarith
    then have "B k \<noteq> {}"
      using weight_ok(2) [OF assms(1) fitsD(7) [OF assms(2) Suc(3) k(2)]] by simp
    then show ?thesis
      using step True k(1) by auto
  next
    case False
    then have "\<exists>j. choose_block rnd s z d [Suc k..<mx] (acc + ?w) h = Some j \<and> Suc k \<le> j \<and> j < mx \<and> B j \<noteq> {}"
      using Suc(1) [of "Suc k" "acc + ?w"] Suc(2-7) unfolding sum by (simp add: add.assoc)
    then show ?thesis
      using step False by auto
  qed
qed

lemma select_index_ok:
  assumes "heap_rep A sz lo h B" "fits i s z"
  shows "\<exists>k g. select_index i s z h = Some (k, h\<lparr>heap_rng := g\<rparr>) \<and> i \<le> k \<and> k < 7 \<and>
    (B k = {} \<longrightarrow> (\<forall>j \<in> {i..<7}. B j = {}))"
proof -
  note i = fitsD(1) [OF assms(2)]
  let ?sum = "\<lambda>mx. \<Sum>j = i..<mx. weight s z j h"
  obtain mx where mx: "count_alignments s z [i..<7] 0 h = Some (?sum mx, mx)" "i \<le> mx" "mx \<le> 7"
    "?sum mx < 4 \<longrightarrow> mx = 7" "?sum mx < 2 ^ 53"
    using count_alignments_ok [OF assms order.refl, of 0] i by auto
  have zero: "weight s z j h = 0 \<longleftrightarrow> B j = {}" if "i \<le> j" "j < 7" for j
    by (rule weight_ok(2) [OF assms(1) fitsD(7) [OF assms(2) that]])
  show ?thesis
  proof (cases "0 < ?sum mx \<and> i + 1 < mx")
    case True
    moreover have "?sum mx < 2 ^ 64"
      using mx(5) by simp
    ultimately obtain r g where r: "random_below (?sum mx) h = (r, h\<lparr>heap_rng := g\<rparr>)" "r < ?sum mx"
      using random_below_ok by blast
    have "weight s z j (h\<lparr>heap_rng := g\<rparr>) = weight s z j h" for j
      by (simp add: weight_def)
    then obtain k where "choose_block r s z i [i..<mx] 0 (h\<lparr>heap_rng := g\<rparr>) = Some k" "i \<le> k" "k < mx" "B k \<noteq> {}"
      using choose_block_ok [of A sz lo "h\<lparr>heap_rng := g\<rparr>" B i s z i mx 0 r i] assms r(2) mx(3,5) by auto
    then show ?thesis
      using mx(1,3) True r(1) heap_repD(3) [OF assms(1)] by (auto simp: select_index_def)
  next
    case False
    have "\<forall>j \<in> {i..<7}. B j = {}" if "B i = {}"
    proof (cases "?sum mx = 0")
      case True
      then have "mx = 7" using mx(4) by simp
      then show ?thesis using True zero by simp
    next
      case pos: False
      then have "mx = i + 1"
        using False mx(2) by (cases "mx = i") auto
      then show ?thesis using that zero [OF order.refl i] pos by simp
    qed
    then show ?thesis
      using mx(1) False heap_repD(3) [OF assms(1)] i
      by (intro exI [of _ i] exI [of _ "heap_rng h"]) (auto simp: select_index_def)
  qed
qed


section \<open>Allocating at a random place\<close>

lemma trim_front:
  assumes "holds A sz lo h (M - {a..<a + t})" "{a..<a + t} \<subseteq> M" "A \<le> a" "a + t \<le> A + sz"
    and "PageBytes dvd a" "PageBytes dvd off" "off \<le> t"
  shows "\<exists>h'. (if off \<noteq> 0 then Free a (off div PageBytes) h else Some h) = Some h' \<and>
    holds A sz lo h' (M - {a + off..<a + t})"
proof (cases "off = 0")
  case True
  then show ?thesis using assms(1) by simp
next
  case False
  have "{a..<a + off} \<subseteq> {A..<A + sz}" "{a..<a + off} \<inter> (M - {a..<a + t}) = {}"
    using assms(3,4,7) by auto
  then have "\<exists>h'. Free a (off div PageBytes) h = Some h' \<and> holds A sz lo h' (M - {a..<a + t} \<union> {a..<a + off})"
    using heap_Free_ok [OF assms(1), of a "off div PageBytes"] assms(5,6) by simp
  moreover have "M - {a..<a + t} \<union> {a..<a + off} = M - {a + off..<a + t}"
    using assms(2,7) by auto
  ultimately show ?thesis using False by simp
qed

lemma trim_block_ok:
  assumes "holds A sz lo h (M - span k a)" "span k a \<subseteq> M" "in_heap A sz k a" "fits k s z" "s < bytes k"
  shows "\<exists>addr h'. trim_block a (bytes k - s) s z h = Some (addr, h') \<and> a \<le> addr \<and> addr + s \<le> a + bytes k \<and>
    2 ^ z dvd addr \<and> holds A sz lo h' (M - {addr..<addr + s})"
proof -
  note f = fitsD(1-6) [OF assms(4)]
  have a: "bytes k dvd a" "A \<le> a" "a + bytes k \<le> A + sz" "a + bytes k < 2 ^ 64"
    using assms(3) holds_facts(4) [OF assms(1)] by (auto simp: in_heap_def)
  have page: "PageBytes dvd a" "PageBytes dvd bytes k" "2 ^ z dvd a"
    using dvd_trans [OF page_dvd [OF f(1)] a(1)] page_dvd [OF f(1)] dvd_trans [OF le_imp_power_dvd [OF f(6)] a(1)]
    by simp_all
  let ?L = "bytes k - s"
  have small: "?L div 2 ^ z \<le> 2 ^ 30" "?L \<le> 2 ^ 30"
    using bytes_bound [OF f(1)] div_le_dividend [of ?L "2 ^ z"] by linarith+
  have mx: "wrap64 (1 + ?L div 2 ^ z) = 1 + ?L div 2 ^ z"
    using small by (intro wrap64_less) simp
  obtain r g where r: "random_below (1 + ?L div 2 ^ z) h = (r, h\<lparr>heap_rng := g\<rparr>)" "r \<le> ?L div 2 ^ z"
    using random_below_ok [of "1 + ?L div 2 ^ z" h] small by auto
  define off where "off = r * 2 ^ z"
  have "off \<le> ?L div 2 ^ z * 2 ^ z"
    using mult_le_mono1 [OF r(2), of "2 ^ z"] by (simp add: off_def)
  then have off: "off \<le> ?L" "PageBytes dvd off" "2 ^ z dvd off"
    using le_trans [OF _ div_times_less_eq_dividend [of ?L "2 ^ z"]] page_multiple_pow [OF f(5)]
    unfolding off_def by (blast, simp_all)
  have ends: "off + s \<le> bytes k" "a + off < 2 ^ 64" "a + off + s < 2 ^ 64" "off \<le> bytes k"
    using off(1) assms(5) a(4) by linarith+
  obtain h1 where h1: "(if off \<noteq> 0 then Free a (off div PageBytes) (h\<lparr>heap_rng := g\<rparr>) else Some (h\<lparr>heap_rng := g\<rparr>)) = Some h1"
    "holds A sz lo h1 (M - {a + off..<a + bytes k})"
    using trim_front [of A sz lo "h\<lparr>heap_rng := g\<rparr>" M a "bytes k" off] assms(1,2) a(2,3) page(1) off(2) ends(4)
    by (auto simp: span_def)
  have "\<exists>h2. (if off \<noteq> ?L then Free (wrap64 (a + off + s)) (sub64 ?L off div PageBytes) h1 else Some h1) = Some h2 \<and>
      holds A sz lo h2 (M - {a + off..<a + off + s})"
  proof (cases "off = ?L")
    case True
    then show ?thesis using h1(2) assms(5) by simp
  next
    case False
    have "sub64 ?L off = bytes k - off - s" "wrap64 (a + off + s) = a + off + s"
      using off(1) small(2) ends(3) by (simp_all add: sub64_less wrap64_less)
    moreover have "a + off + (bytes k - off) = a + bytes k"
      using ends(1) by simp
    moreover have "{a + off..<a + bytes k} \<subseteq> M" "{a + off..<a + bytes k} \<subseteq> {A..<A + sz}"
      using assms(2) a(2,3) by (auto simp: span_def)
    ultimately show ?thesis
      using give_back [of A sz lo h1 M "a + off" "bytes k - off" s] h1(2) page(1,2) off(2) f(2) ends(1) False
      by (simp add: dvd_diff_nat)
  qed
  then obtain h2 where h2: "(if off \<noteq> ?L then Free (wrap64 (a + off + s)) (sub64 ?L off div PageBytes) h1 else Some h1) = Some h2"
    "holds A sz lo h2 (M - {a + off..<a + off + s})" by blast
  have wraps: "wrap64 (r * 2 ^ z) = off" "wrap64 (a + off) = a + off"
    using ends(2) by (simp_all add: off_def [symmetric] wrap64_less)
  have "trim_block a ?L s z h = Some (a + off, h2)"
    unfolding trim_block_def Let_def mx r(1) prod.case wraps h1(1) bind.bind_lunit h2(1) by (rule refl)
  then show ?thesis
    using h2(2) ends(1) page(3) off(3) by auto
qed

lemma AllocateByRandom_ok:
  assumes "heap_ok A sz lo h B" "0 < n" "0 < m" "n * PageBytes \<le> bytes i" "m * PageBytes \<le> bytes i" "i < 7"
  shows "\<exists>addr h'. AllocateByRandom i n m h = Some (addr, h') \<and>
    (if \<forall>k \<in> {i..<7}. B k = {} then addr = 0 \<and> holds A sz lo h' (free_space B)
     else addr \<noteq> 0 \<and> 2 ^ countr_zero (of_nat (m * PageBytes)) dvd addr \<and>
       {addr..<addr + n * PageBytes} \<subseteq> free_space B \<and> holds A sz lo h' (free_space B - {addr..<addr + n * PageBytes}))"
proof -
  let ?s = "n * PageBytes" and ?z = "countr_zero (of_nat (m * PageBytes))"
  have small: "?s < 2 ^ 64" "m * PageBytes < 2 ^ 64"
    using assms(4,5) bytes_bound [OF assms(6)] by simp_all
  have z: "?z < 64" "2 ^ ?z \<le> m * PageBytes" "12 \<le> ?z"
    using countr_zero_spec(1,2) [OF _ small(2)] countr_zero_spec(3) [OF _ small(2), of 12] assms(3)
    by (simp_all add: PageBytes_def)
  have "2 ^ ?z \<le> bytes i"
    using z(2) assms(5) by (rule le_trans)
  then have "?z \<le> shift i"
    by (rule power_le_imp_le_exp [rotated]) simp
  then have fits: "fits i ?s ?z"
    using assms(2,4,6) z(3) unfolding fits_def by (simp add: PageBytes_def)
  have rep: "heap_rep A sz lo h B"
    using assms(1) by (simp add: heap_ok_def)
  obtain k g where k: "select_index i ?s ?z h = Some (k, h\<lparr>heap_rng := g\<rparr>)" "i \<le> k" "k < 7"
    "B k = {} \<longrightarrow> (\<forall>j \<in> {i..<7}. B j = {})"
    using select_index_ok [OF rep fits] by blast
  let ?h = "h\<lparr>heap_rng := g\<rparr>"
  have ok: "heap_ok A sz lo ?h B" using assms(1) by simp
  note fk = fitsD [OF fitsD(7) [OF fits k(2,3)]]
  have start: "AllocateByRandom i n m h = do {
      (addr, h) \<leftarrow> on_block k (PopBlock True) ?h;
      if addr \<noteq> 0
      then do {
        b \<leftarrow> fetch (m_blocks h) k;
        let leftover_size = sub64 (Block_GetSize b) ?s;
        if leftover_size > 0 then trim_block addr leftover_size ?s ?z h else Some (addr, h)
      }
      else Some (0, h)
    }"
    using k(1) z(1) small by (simp add: AllocateByRandom_def wrap64_less Let_def)
  show ?thesis
  proof (cases "B k = {}")
    case True
    then have "on_block k (PopBlock True) ?h = Some (0, ?h)"
      using PopBlock_ok [of A sz lo ?h B k True] rep k(3) by simp
    then show ?thesis
      using start k(4) True ok by (auto simp: holds_def)
  next
    case False
    then obtain a h1 where a: "on_block k (PopBlock True) ?h = Some (a, h1)" "a \<noteq> 0" "in_heap A sz k a"
      "span k a \<subseteq> free_space B" "holds A sz lo h1 (free_space B - span k a)"
      using take_block [OF ok k(3)] by blast
    have "sub64 (bytes k) ?s = bytes k - ?s"
      using fk(4) bytes_bound [OF k(3)] by (intro sub64_less) simp_all
    then have step: "AllocateByRandom i n m h =
        (if ?s < bytes k then trim_block a (bytes k - ?s) ?s ?z h1 else Some (a, h1))"
      using start a(1,2) holds_facts(6,7) [OF a(5) k(3)] by simp
    have "\<exists>addr h'. AllocateByRandom i n m h = Some (addr, h') \<and> a \<le> addr \<and> addr + ?s \<le> a + bytes k \<and>
        2 ^ ?z dvd addr \<and> holds A sz lo h' (free_space B - {addr..<addr + ?s})"
    proof (cases "?s < bytes k")
      case True
      then show ?thesis
        using trim_block_ok [OF a(5,4,3) fitsD(7) [OF fits k(2,3)] True] step by simp
    next
      case False
      then have "?s = bytes k" using fk(4) by simp
      moreover have "2 ^ ?z dvd a"
        using dvd_trans [OF le_imp_power_dvd [OF fk(6), of 2], of a] a(3) unfolding in_heap_def by blast
      ultimately show ?thesis
        using step a(5) by (simp add: span_def)
    qed
    then obtain addr h' where h': "AllocateByRandom i n m h = Some (addr, h')" "a \<le> addr" "addr + ?s \<le> a + bytes k"
      "2 ^ ?z dvd addr" "holds A sz lo h' (free_space B - {addr..<addr + ?s})" by blast
    moreover have "{addr..<addr + ?s} \<subseteq> free_space B"
      using a(4) h'(2,3) by (auto simp: span_def)
    ultimately show ?thesis
      using False k(2,3) a(2) by auto
  qed
qed

end
