(* ===== verification/PageBitmap_Init.thy ===== *)
theory PageBitmap_Init
  imports PageBitmap_Search
begin

text \<open>
  The layout that \<^verbatim>\<open>KPageBitmap::Initialize\<close> makes: the depth it computes gives one word at the top,
  the levels lie one after the other in the management data, and they take the size that
  \<^verbatim>\<open>CalculateManagementOverheadSize\<close> announces.
\<close>

lemma AlignUp_words: "sz < 2 ^ 63 \<Longrightarrow> AlignUp_size sz 64 div 64 = (sz + 63) div 64"
proof -
  assume sz: "sz < 2 ^ 63"
  define q r where "q = sz div 64" and "r = sz mod 64"
  then have eq: "sz = 64 * q + r" "r < 64" by simp_all
  have up: "AlignUp_size sz 64 = (if r = 0 then 64 * q else 64 * q + 64)"
    using sz eq by (simp add: AlignUp_size_def Let_def wrap64_def r_def [symmetric])
  have "(sz + 63) div 64 = (if r = 0 then q else q + 1)"
    using eq by (auto intro!: div_nat_eqI)
  then show ?thesis
    using up by simp
qed

lemma words_at_shift: "words_at sz (Suc k) = words_at ((sz + 63) div 64) k"
  by (induction k) simp_all

lemma words_at_pos: "0 < sz \<Longrightarrow> 0 < words_at sz k"
  by (induction k) auto

lemma words_at_top: "sz \<le> 64 ^ k \<Longrightarrow> words_at sz k \<le> 1"
proof (induction k arbitrary: sz)
  case (Suc k)
  then have "(sz + 63) div 64 \<le> 64 ^ k" by simp
  then show ?case unfolding words_at_shift by (rule Suc.IH)
qed simp

lemma words_at_less: "sz < 2 ^ 63 \<Longrightarrow> words_at sz k < 2 ^ 63"
  by (induction k) auto

lemma required_depth_loop_bounds:
  "\<exists>k. required_depth_loop sz d = d + k \<and> 0 < k \<and> sz < 64 ^ k \<and> (k = 1 \<or> 64 ^ (k - 1) \<le> sz)"
proof (induction sz arbitrary: d rule: less_induct)
  case (less sz)
  show ?case
  proof (cases "sz div 64 = 0")
    case True
    then show ?thesis
      by (intro exI [of _ 1]) (auto simp: required_depth_loop.simps [of sz] div_eq_0_iff)
  next
    case False
    then have "sz div 64 < sz" by simp
    from less.IH [OF this, of "d + 1"]
    obtain k where "required_depth_loop (sz div 64) (d + 1) = d + 1 + k \<and> 0 < k \<and> sz div 64 < 64 ^ k \<and>
      (k = 1 \<or> 64 ^ (k - 1) \<le> sz div 64)" by (rule exE)
    then have k: "required_depth_loop (sz div 64) (d + 1) = d + 1 + k" "0 < k" "sz div 64 < 64 ^ k"
      "k = 1 \<or> 64 ^ (k - 1) \<le> sz div 64" by simp_all
    have "64 ^ k \<le> sz"
    proof (cases "k = 1")
      case True
      then show ?thesis using False by (simp add: div_eq_0_iff)
    next
      case False
      with k(4) have "64 ^ (k - 1) * 64 \<le> sz"
        by (simp add: less_eq_div_iff_mult_less_eq)
      then show ?thesis using k(2) by (cases k) (simp_all add: mult.commute)
    qed
    moreover have "sz < 64 ^ Suc k"
      using k(3) by (simp add: div_less_iff_less_mult mult.commute)
    ultimately show ?thesis
      using k(1,2) False by (intro exI [of _ "Suc k"]) (simp add: required_depth_loop.simps [of sz])
  qed
qed

lemma GetRequiredDepth_bounds:
  "0 < GetRequiredDepth sz" "sz < 64 ^ GetRequiredDepth sz" "sz < 64 ^ n \<Longrightarrow> 0 < n \<Longrightarrow> GetRequiredDepth sz \<le> n"
proof -
  obtain k where k: "GetRequiredDepth sz = k" "0 < k" "sz < 64 ^ k" "k = 1 \<or> 64 ^ (k - 1) \<le> sz"
    using required_depth_loop_bounds [of sz 0] by (auto simp: GetRequiredDepth_def)
  then show "0 < GetRequiredDepth sz" "sz < 64 ^ GetRequiredDepth sz" by simp_all
  assume n: "sz < 64 ^ n" "0 < n"
  show "GetRequiredDepth sz \<le> n"
  proof (cases "k = 1")
    case False
    with k(4) n(1) have "(64 :: nat) ^ (k - 1) < 64 ^ n" by linarith
    then show ?thesis using k(1) by simp
  qed (use k n in simp)
qed

lemma overhead_loop_add: "overhead_loop n sz acc = overhead_loop n sz 0 + acc"
proof (induction n arbitrary: sz acc)
  case (Suc n)
  show ?case
    by (simp add: Let_def Suc [of _ "acc + _"] Suc [of _ "AlignUp_size sz 64 div 64"])
qed simp

text \<open>The entries of the storage arrays that the loop writes, and those it leaves.\<close>

definition laid_out :: "nat \<Rightarrow> nat \<Rightarrow> nat \<Rightarrow> nat \<Rightarrow> KPageBitmap \<Rightarrow> KPageBitmap \<Rightarrow> bool" where
  "laid_out n storage sz hi bm bm' \<longleftrightarrow>
     bm' = bm\<lparr>m_bit_storages := m_bit_storages bm', m_end_storages := m_end_storages bm'\<rparr> \<and>
     length (m_bit_storages bm') = MaxDepth \<and> length (m_end_storages bm') = MaxDepth \<and>
     (\<forall>d < n. m_end_storages bm' ! d = start_of bm' d + words_at sz (n - d)) \<and>
     (\<forall>d. Suc d < n \<longrightarrow> start_of bm' d = m_end_storages bm' ! Suc d) \<and>
     (0 < n \<longrightarrow> start_of bm' (n - 1) = storage \<and> m_end_storages bm' ! 0 = hi) \<and>
     (\<forall>d \<ge> n. start_of bm' d = start_of bm d \<and> m_end_storages bm' ! d = m_end_storages bm ! d)"

lemma initialize_loop_ok:
  assumes "n \<le> MaxDepth" "sz < 2 ^ 63" "length (m_bit_storages bm) = MaxDepth" "length (m_end_storages bm) = MaxDepth"
  shows "\<exists>bm'. initialize_loop n storage sz bm = Some (storage + overhead_loop n sz 0, bm') \<and>
    laid_out n storage sz (storage + overhead_loop n sz 0) bm bm'"
  using assms
proof (induction n arbitrary: storage sz bm)
  case 0
  then show ?case by (simp add: laid_out_def)
next
  case (Suc n)
  let ?w = "(sz + 63) div 64"
  let ?bm = "bm\<lparr>m_bit_storages := (m_bit_storages bm)[n := storage], m_end_storages := (m_end_storages bm)[n := storage + ?w]\<rparr>"
  have over: "overhead_loop (Suc n) sz 0 = ?w + overhead_loop n ?w 0"
    using AlignUp_words [OF Suc.prems(2)] overhead_loop_add [of n ?w ?w] by (simp add: Let_def)
  obtain bm' where bm': "initialize_loop n (storage + ?w) ?w ?bm = Some (storage + ?w + overhead_loop n ?w 0, bm')"
    "laid_out n (storage + ?w) ?w (storage + ?w + overhead_loop n ?w 0) ?bm bm'"
    using Suc.IH [of ?w ?bm "storage + ?w"] Suc.prems words_at_less [OF Suc.prems(2), of 1] by auto
  have "initialize_loop (Suc n) storage sz bm = Some (storage + overhead_loop (Suc n) sz 0, bm')"
    using bm'(1) Suc.prems AlignUp_words [OF Suc.prems(2)] over by (simp add: store_def Let_def add.assoc)
  moreover have "laid_out (Suc n) storage sz (storage + overhead_loop (Suc n) sz 0) bm bm'"
  proof -
    note lay = bm'(2) [unfolded laid_out_def]
    have new: "start_of bm' n = storage" "m_end_storages bm' ! n = storage + ?w"
      using lay Suc.prems by simp_all
    have "m_end_storages bm' ! d = start_of bm' d + words_at sz (Suc n - d)" if "d < Suc n" for d
    proof (cases "d = n")
      case True
      then show ?thesis using new by simp
    next
      case False
      with that have "Suc n - d = Suc (n - d)" "d < n" by simp_all
      then show ?thesis using lay by (simp add: words_at_shift del: words_at.simps)
    qed
    moreover have "start_of bm' d = m_end_storages bm' ! Suc d" if "Suc d < Suc n" for d
    proof (cases "Suc d = n")
      case True
      then show ?thesis using lay new by auto
    qed (use lay that in simp)
    moreover have "m_end_storages bm' ! 0 = storage + overhead_loop (Suc n) sz 0"
      using lay new over by (cases n) auto
    ultimately show ?thesis
      using lay new by (auto simp: laid_out_def)
  qed
  ultimately show ?case by blast
qed

lemma KPageBitmap_Initialize_ok:
  fixes storage :: nat
  assumes "0 < sz" "sz < 64 ^ 4" "length (m_bit_storages bm) = MaxDepth" "length (m_end_storages bm) = MaxDepth"
  defines "hi \<equiv> storage + KPageBitmap_CalculateManagementOverheadSize sz div 8"
  shows "\<exists>bm'. KPageBitmap_Initialize storage sz bm = Some (hi, bm') \<and> bitmap_rng bm' = bitmap_rng bm \<and>
    (hi \<le> length mem \<longrightarrow> (\<forall>i. storage \<le> i \<longrightarrow> i < hi \<longrightarrow> mem ! i = 0) \<longrightarrow> bitmap_ok sz storage hi mem bm' {})"
proof -
  let ?n = "GetRequiredDepth sz"
  let ?bm = "bm\<lparr>m_num_bits := 0, m_used_depths := ?n\<rparr>"
  have hi: "hi = storage + overhead_loop ?n sz 0"
    by (simp add: hi_def KPageBitmap_CalculateManagementOverheadSize_def)
  have n: "0 < ?n" "?n \<le> MaxDepth"
    using GetRequiredDepth_bounds(1,3) [of sz] assms(2) by (simp_all add: MaxDepth_def)
  obtain bm' where bm': "initialize_loop ?n storage sz ?bm = Some (hi, bm')" "laid_out ?n storage sz hi ?bm bm'"
    using initialize_loop_ok [OF n(2), of sz ?bm storage] assms(2-4) unfolding hi by auto
  then have keep: "m_used_depths bm' = ?n" "m_num_bits bm' = 0" "bitmap_rng bm' = bitmap_rng bm"
    unfolding laid_out_def by (metis KPageBitmap.select_convs KPageBitmap.surjective KPageBitmap.update_convs)+
  have "words_at sz ?n = 1"
    using words_at_top [of sz ?n] words_at_pos [OF assms(1), of ?n] GetRequiredDepth_bounds(2) [of sz] by simp
  then have shape: "shape sz storage hi bm'"
    using bm'(2) n keep(1) by (simp add: laid_out_def shape_def)
  have "bitmap_ok sz storage hi mem bm' {}"
    if "hi \<le> length mem" "\<And>i. storage \<le> i \<Longrightarrow> i < hi \<Longrightarrow> mem ! i = 0"
  proof -
    note zero = that
    have "level bm' mem d = {}" if "d < m_used_depths bm'" for d
      using shape_cell [OF shape that] zero(2) by (auto simp: level_def)
    then show ?thesis
      using shape zero(1) assms(2) keep(2) leaf_less [OF shape] by (simp add: bitmap_ok_def in_sync_def parents_def)
  qed
  then show ?thesis
    using bm'(1) keep(3) by (auto simp: KPageBitmap_Initialize_def Let_def)
qed

end
