(* ===== verification/PageHeap_Init.thy ===== *)
theory PageHeap_Init
  imports PageHeap_Free PageBitmap_Init
begin

text \<open>
  Setting up a heap: the management area that \<^verbatim>\<open>CalculateManagementOverheadSize\<close> announces holds the bitmaps of
  all block sizes, and a heap set up in a zeroed area of that size has no free block.
\<close>

section \<open>Sizes of bitmaps\<close>

lemma words_at_mono: "m \<le> n \<Longrightarrow> words_at m k \<le> words_at n k"
  by (induction k) (simp_all add: div_le_mono)

lemma words_at_le: "words_at n k \<le> n"
proof (induction k)
  case (Suc k)
  have "(words_at n k + 63) div 64 \<le> words_at n k" by (cases "words_at n k") simp_all
  with Suc show ?case by simp
qed simp

lemma overhead_loop_sum: "sz < 2 ^ 63 \<Longrightarrow> overhead_loop d sz 0 = (\<Sum>k < d. words_at sz (Suc k))"
proof (induction d arbitrary: sz)
  case (Suc d)
  have "overhead_loop (Suc d) sz 0 = (sz + 63) div 64 + overhead_loop d ((sz + 63) div 64) 0"
    using AlignUp_words [OF Suc.prems] overhead_loop_add [of d "(sz + 63) div 64" "(sz + 63) div 64"] by (simp add: Let_def)
  also have "overhead_loop d ((sz + 63) div 64) 0 = (\<Sum>k < d. words_at sz (Suc (Suc k)))"
  proof -
    have "(sz + 63) div 64 < 2 ^ 63"
      using words_at_less [OF Suc.prems, of 1] by simp
    then show ?thesis
      unfolding words_at_shift [of sz] by (rule Suc.IH)
  qed
  finally show ?case
    by (simp add: sum.lessThan_Suc_shift del: sum.lessThan_Suc)
qed simp

abbreviation overhead :: "nat \<Rightarrow> nat" where
  "overhead \<equiv> KPageBitmap_CalculateManagementOverheadSize"

lemma overhead_mono:
  assumes "m \<le> n" "n < 2 ^ 63"
  shows "overhead m \<le> overhead n"
proof -
  have "GetRequiredDepth m \<le> GetRequiredDepth n"
    using GetRequiredDepth_bounds(3) [of m "GetRequiredDepth n"] GetRequiredDepth_bounds(1,2) [of n] assms(1) by simp
  then have "(\<Sum>k < GetRequiredDepth m. words_at m (Suc k)) \<le> (\<Sum>k < GetRequiredDepth n. words_at n (Suc k))"
    using assms(1) by (intro sum_le_included [where i = "\<lambda>x. x"]) (auto intro: words_at_mono simp del: words_at.simps)
  then show ?thesis
    using assms by (simp add: KPageBitmap_CalculateManagementOverheadSize_def overhead_loop_sum)
qed

lemma overhead_bound:
  assumes "n < 64 ^ 5"
  shows "overhead n \<le> 40 * n"
proof -
  have "overhead_loop (GetRequiredDepth n) n 0 \<le> (\<Sum>k < GetRequiredDepth n. n)"
  proof (subst overhead_loop_sum)
    show "n < 2 ^ 63" using assms by simp
  qed (rule sum_mono, rule words_at_le)
  also have "\<dots> \<le> 5 * n"
    using GetRequiredDepth_bounds(3) [OF assms] by simp
  finally show ?thesis
    by (simp add: KPageBitmap_CalculateManagementOverheadSize_def)
qed

lemma overhead_dvd: "8 dvd overhead n"
  by (simp add: KPageBitmap_CalculateManagementOverheadSize_def)

section \<open>Sizes of the heap\<close>

definition heap_fits :: "nat \<Rightarrow> nat \<Rightarrow> bool" where
  "heap_fits A sz \<longleftrightarrow> 0 < A \<and> 0 < sz \<and> A + sz + 2 ^ 31 \<le> 2 ^ 64 \<and> PageBytes dvd A \<and> PageBytes dvd sz \<and> sz + 2 ^ 19 \<le> 2 ^ 36"

lemma grain_factor: "i < 7 \<Longrightarrow> grain i \<le> 32 * bytes i"
proof (cases "i < 6")
  case True
  then have "factor i \<le> 32"
    by (rule less6_cases) (simp_all add: factor_def shift_def MemoryBlockPageShifts_def)
  then show ?thesis using True by (simp add: grain_def bytes_Suc)
qed (simp add: grain_def)

lemma limit_span:
  assumes "heap_fits A sz" "i < 7"
  shows "limit A sz i * bytes i < sz + 2 * grain i" "0 < limit A sz i" "limit A sz i < 64 ^ 4"
proof -
  have fit: "A + sz + 2 ^ 31 \<le> 2 ^ 64" "0 < sz" "sz + 2 ^ 19 \<le> 2 ^ 36"
    using assms(1) by (simp_all add: heap_fits_def)
  have room: "A + sz + grain i < 2 ^ 64"
    using fit(1) grain_bound [OF assms(2)] by simp
  note up = AlignUp_ge [OF room grain_pos]
  have down: "A < base A i + grain i" "base A i \<le> A"
    unfolding base_def AlignDown_size_def using mod_less_divisor [OF grain_pos, of A i] mod_less_eq_dividend [of A "grain i"]
    by linarith+
  have "bytes i dvd AlignUp_size (A + sz) (grain i) - base A i"
    using AlignUp_dvd [OF room] base_dvd [OF assms(2)] bytes_dvd_grain [OF assms(2)] dvd_trans dvd_diff_nat by blast
  then have eq: "limit A sz i * bytes i = AlignUp_size (A + sz) (grain i) - base A i"
    by (simp add: limit_def)
  then show lt: "limit A sz i * bytes i < sz + 2 * grain i"
    using up(2) down by linarith
  have "0 < limit A sz i * bytes i"
    unfolding eq using up(1) down(2) fit(2) by linarith
  then show "0 < limit A sz i" by simp
  have "limit A sz i * bytes i < sz + 64 * bytes i"
    using lt grain_factor [OF assms(2)] by linarith
  then have "(limit A sz i - 64) * bytes i \<le> sz"
    by (simp add: diff_mult_distrib)
  moreover have "(limit A sz i - 64) * 2 ^ 12 \<le> (limit A sz i - 64) * bytes i"
    using shift_bounds [OF assms(2)] by (intro mult_le_mono2 power_increasing) simp_all
  ultimately have "(limit A sz i - 64) * 2 ^ 12 \<le> sz"
    by (rule order.trans [rotated])
  then show "limit A sz i < 64 ^ 4"
    using fit(3) by simp
qed

lemma announced_enough:
  assumes "heap_fits A sz" "i < 7"
  shows "overhead (limit A sz i) \<le> Block_CalculateManagementOverheadSize sz (shift i) (next_shift i)"
    "Block_CalculateManagementOverheadSize sz (shift i) (next_shift i) \<le> 2 ^ 40"
proof -
  let ?n = "(grain i * 2 + AlignUp_size sz (grain i)) div bytes i"
  have fit: "sz + 2 ^ 19 \<le> 2 ^ 36"
    using assms(1) by (simp add: heap_fits_def)
  note g = grain_bound [OF assms(2)]
  have up: "sz \<le> AlignUp_size sz (grain i)" "AlignUp_size sz (grain i) < sz + grain i"
    using AlignUp_ge [of sz "grain i"] grain_pos fit g by simp_all
  have total: "grain i * 2 + AlignUp_size sz (grain i) < 2 ^ 64"
    using up(2) g fit by simp
  have "next_shift i \<noteq> 0 \<longleftrightarrow> i < 6"
    using shift_bounds [of "Suc i"] by (auto simp: next_shift_def)
  then have eq: "Block_CalculateManagementOverheadSize sz (shift i) (next_shift i) = overhead ?n"
    using wrap64_less [OF total] unfolding Block_CalculateManagementOverheadSize_def Let_def
    by (cases "i < 6") (simp_all only: grain_def next_shift_def if_True if_False simp_thms)
  have "limit A sz i * bytes i \<le> grain i * 2 + AlignUp_size sz (grain i)"
    using limit_span(1) [OF assms] up(1) by linarith
  then have "limit A sz i \<le> ?n"
    by (simp add: less_eq_div_iff_mult_less_eq)
  moreover have small: "?n < 2 ^ 26"
  proof -
    have "grain i * 2 + AlignUp_size sz (grain i) < sz + 96 * bytes i"
      using up(2) grain_factor [OF assms(2)] by linarith
    also have "\<dots> \<le> 2 ^ 26 * bytes i"
      using fit power_increasing [of 12 "shift i" "2 :: nat"] shift_bounds [OF assms(2)] by simp
    finally show ?thesis by (simp add: div_less_iff_less_mult)
  qed
  ultimately show "overhead (limit A sz i) \<le> Block_CalculateManagementOverheadSize sz (shift i) (next_shift i)"
    unfolding eq by (intro overhead_mono) simp_all
  show "Block_CalculateManagementOverheadSize sz (shift i) (next_shift i) \<le> 2 ^ 40"
    unfolding eq using overhead_bound [of ?n] small by simp
qed


section \<open>Initialisation\<close>

definition bitmap_start :: "nat \<Rightarrow> nat \<Rightarrow> nat \<Rightarrow> nat" where
  "bitmap_start A sz i = (\<Sum>j < i. overhead (limit A sz j) div 8)"

lemma bitmap_start_end:
  assumes "heap_fits A sz"
  shows "bitmap_start A sz 7 * 8 \<le> KPageHeap_CalculateManagementOverheadSize sz"
proof -
  let ?over = "\<lambda>i. Block_CalculateManagementOverheadSize sz (shift i) (next_shift i)"
  have "map (\<lambda>i. Block_CalculateManagementOverheadSize sz (MemoryBlockPageShifts ! i)
      (if i \<noteq> length MemoryBlockPageShifts - 1 then MemoryBlockPageShifts ! (i + 1) else 0)) [0..<length MemoryBlockPageShifts]
    = map ?over [0..<7]"
  proof -
    have len: "length MemoryBlockPageShifts = 7"
      by (simp add: MemoryBlockPageShifts_def)
    show ?thesis
      unfolding len by (rule map_cong) (auto simp: shift_def next_shift_def)
  qed
  then have eq: "KPageHeap_CalculateManagementOverheadSize sz = AlignUp_size (\<Sum>i < 7. ?over i) PageBytes"
    unfolding KPageHeap_CalculateManagementOverheadSize_def Let_def
    by (simp only: interv_sum_list_conv_sum_set_nat set_upt atLeast0LessThan)
  have "(\<Sum>i < 7. ?over i) \<le> (\<Sum>i < (7 :: nat). 2 ^ 40)"
    using announced_enough(2) [OF assms] by (intro sum_mono) simp
  then have "(\<Sum>i < 7. ?over i) + PageBytes < 2 ^ 64"
    by (simp add: PageBytes_def)
  then have "(\<Sum>i < 7. ?over i) \<le> AlignUp_size (\<Sum>i < 7. ?over i) PageBytes"
    by (rule AlignUp_ge(1)) (simp add: PageBytes_def)
  moreover have "bitmap_start A sz 7 * 8 = (\<Sum>i < 7. overhead (limit A sz i))"
    unfolding bitmap_start_def sum_distrib_right using overhead_dvd by (simp add: dvd_div_mult_self)
  moreover have "(\<Sum>i < 7. overhead (limit A sz i)) \<le> (\<Sum>i < 7. ?over i)"
    using announced_enough(1) [OF assms] by (intro sum_mono) simp
  ultimately show ?thesis unfolding eq by linarith
qed

definition fresh_block :: "Block \<Rightarrow> bool" where
  "fresh_block b \<longleftrightarrow> length (m_bit_storages (m_bitmap b)) = MaxDepth \<and> length (m_end_storages (m_bitmap b)) = MaxDepth"

lemma Block_Initialize_ok:
  assumes "heap_fits A sz" "i < 7" "fresh_block b"
    and "bitmap_start A sz 7 \<le> length mem" "\<And>k. k < bitmap_start A sz 7 \<Longrightarrow> mem ! k = 0"
  shows "\<exists>b'. Block_Initialize A sz (shift i) (next_shift i) (bitmap_start A sz i) b = Some (bitmap_start A sz (Suc i), b') \<and>
    block_rep A sz (bitmap_start A sz) i mem b' {}"
proof -
  let ?lo = "bitmap_start A sz"
  have fit: "A + sz + 2 ^ 31 \<le> 2 ^ 64"
    using assms(1) by (simp add: heap_fits_def)
  note lim = limit_span [OF assms(1,2)]
  have next_lo: "?lo (Suc i) = ?lo i + overhead (limit A sz i) div 8"
    by (simp add: bitmap_start_def)
  have last: "?lo (Suc i) \<le> ?lo 7"
    unfolding bitmap_start_def using assms(2) by (intro sum_mono2) auto
  obtain bm where bm: "KPageBitmap_Initialize (?lo i) (limit A sz i) (m_bitmap b) = Some (?lo (Suc i), bm)"
    "bitmap_ok (limit A sz i) (?lo i) (?lo (Suc i)) mem bm {}"
    using KPageBitmap_Initialize_ok [OF lim(2,3), of "m_bitmap b" "?lo i" mem] assms(3-5) last
    unfolding next_lo fresh_block_def by auto
  have room: "A + sz + grain i < 2 ^ 64"
    using fit grain_bound [OF assms(2)] by simp
  have "AlignUp_size (A + sz) (grain i) < 2 ^ 64" "base A i \<le> AlignUp_size (A + sz) (grain i)"
    using AlignUp_ge [OF room grain_pos] room AlignDown_le [of A "grain i"] unfolding base_def by linarith+
  then have sub: "sub64 (AlignUp_size (A + sz) (grain i)) (base A i) div bytes i = limit A sz i"
    by (simp add: limit_def sub64_less)
  have "next_shift i \<noteq> 0 \<longleftrightarrow> i < 6"
    using shift_bounds [of "Suc i"] by (auto simp: next_shift_def)
  then have align: "(if next_shift i \<noteq> 0 then 2 ^ next_shift i else 2 ^ shift i) = grain i"
    by (simp add: grain_def next_shift_def)
  have wrap: "wrap64 (A + sz) = A + sz"
    using fit by (intro wrap64_less) simp
  have "Block_Initialize A sz (shift i) (next_shift i) (?lo i) b = Some (?lo (Suc i),
      b\<lparr>m_block_shift := shift i, m_next_block_shift := next_shift i, block_heap_address := base A i,
        m_end_offset := limit A sz i, m_bitmap := bm\<rparr>)"
    unfolding Block_Initialize_def Let_def align wrap base_def [symmetric] sub bm(1) by simp
  then show ?thesis
    using bm(2) by (auto simp: block_rep_def bits_of_def)
qed

lemma setup_bitmaps_ok:
  assumes "heap_fits A sz" "m_heap_address h = A" "m_heap_size h = sz" "length (m_blocks h) = 7" "k \<le> 7"
    and "\<And>i. k \<le> i \<Longrightarrow> i < 7 \<Longrightarrow> fresh_block (m_blocks h ! i)"
    and mem: "bitmap_start A sz 7 \<le> length mem" "\<And>i. i < bitmap_start A sz 7 \<Longrightarrow> mem ! i = 0"
    and "\<And>i. i < k \<Longrightarrow> block_rep A sz (bitmap_start A sz) i mem (m_blocks h ! i) {}"
  shows "\<exists>bs. setup_bitmaps MemoryBlockPageShifts [k..<7] (bitmap_start A sz k) h = Some (bitmap_start A sz 7, h\<lparr>m_blocks := bs\<rparr>) \<and>
    length bs = 7 \<and> (\<forall>i < 7. block_rep A sz (bitmap_start A sz) i mem (bs ! i) {})"
  using assms(2-6,9)
proof (induction "7 - k" arbitrary: k h)
  case 0
  then show ?case by (intro exI [of _ "m_blocks h"]) auto
next
  case (Suc n)
  then have k: "k < 7" "[k..<7] = k # [Suc k..<7]"
    by (simp_all add: upt_conv_Cons)
  obtain b where b: "Block_Initialize A sz (shift k) (next_shift k) (bitmap_start A sz k) (m_blocks h ! k) =
      Some (bitmap_start A sz (Suc k), b)" "block_rep A sz (bitmap_start A sz) k mem b {}"
    using Block_Initialize_ok [OF assms(1) k(1) Suc(7) mem] k(1) by auto
  let ?h = "h\<lparr>m_blocks := (m_blocks h)[k := b]\<rparr>"
  have "fetch MemoryBlockPageShifts k = Some (shift k)"
    "(if k \<noteq> length MemoryBlockPageShifts - 1 then fetch MemoryBlockPageShifts (k + 1) else Some 0) = Some (next_shift k)"
    using k(1) by (auto simp: fetch_def shift_def next_shift_def MemoryBlockPageShifts_def)
  then have step: "setup_bitmaps MemoryBlockPageShifts [k..<7] (bitmap_start A sz k) h =
      setup_bitmaps MemoryBlockPageShifts [Suc k..<7] (bitmap_start A sz (Suc k)) ?h"
    using b(1) k Suc(3-5) by (simp add: fetch_def [of "m_blocks h"] store_def del: One_nat_def)
  have "\<exists>bs. setup_bitmaps MemoryBlockPageShifts [Suc k..<7] (bitmap_start A sz (Suc k)) ?h =
      Some (bitmap_start A sz 7, ?h\<lparr>m_blocks := bs\<rparr>) \<and> length bs = 7 \<and> (\<forall>i < 7. block_rep A sz (bitmap_start A sz) i mem (bs ! i) {})"
  proof (rule Suc(1))
    show "n = 7 - Suc k" using Suc(2) by simp
    show "block_rep A sz (bitmap_start A sz) i mem (m_blocks ?h ! i) {}" if "i < Suc k" for i
      using that Suc(5,8) b(2) k(1) by (cases "i = k") simp_all
  qed (use Suc(3-7) k(1) in \<open>simp_all add: nth_list_update\<close>)
  then show ?case
    using step by simp
qed

lemma KPageHeap_Initialize_ok:
  assumes "heap_fits A sz" "KPageHeap_CalculateManagementOverheadSize sz \<le> management_size" "length seeds = 7"
  shows "\<exists>h. KPageHeap_Initialize A sz management_size (new_KPageHeap seeds seed) = Some h \<and>
    holds A sz (bitmap_start A sz) h {}"
proof -
  let ?mem = "replicate (management_size div 8) (0 :: u64)"
  let ?h = "(new_KPageHeap seeds seed)\<lparr>m_heap_address := A, m_heap_size := sz, m_num_blocks := 7, m_management_data := ?mem\<rparr>"
  have len: "bitmap_start A sz 7 \<le> length ?mem"
    using bitmap_start_end [OF assms(1)] assms(2) by (simp add: less_eq_div_iff_mult_less_eq)
  have fresh: "fresh_block (m_blocks ?h ! i)" if "i < 7" for i
    using that assms(3) by (simp add: new_KPageHeap_def fresh_block_def new_Block_def new_KPageBitmap_def)
  obtain bs where bs: "setup_bitmaps MemoryBlockPageShifts [0..<7] 0 ?h = Some (bitmap_start A sz 7, ?h\<lparr>m_blocks := bs\<rparr>)"
    "length bs = 7" "\<forall>i < 7. block_rep A sz (bitmap_start A sz) i ?mem (bs ! i) {}"
    using setup_bitmaps_ok [OF assms(1), of ?h 0 ?mem] len fresh assms(3)
    by (auto simp: bitmap_start_def new_KPageHeap_def)
  have "length MemoryBlockPageShifts = 7"
    by (simp add: MemoryBlockPageShifts_def)
  then have "KPageHeap_Initialize A sz management_size (new_KPageHeap seeds seed) = Some (?h\<lparr>m_blocks := bs\<rparr>)"
    using bs(1) unfolding KPageHeap_Initialize_def KPageHeap_Initialize_with_def
    by (simp add: resize_def new_KPageHeap_def Let_def)
  moreover have "heap_rep A sz (bitmap_start A sz) (?h\<lparr>m_blocks := bs\<rparr>) (\<lambda>i. {})"
    using assms(1) bs(2,3) by (simp add: heap_rep_def heap_fits_def)
  then have "holds A sz (bitmap_start A sz) (?h\<lparr>m_blocks := bs\<rparr>) {}"
  proof (rule holdsI)
    show "settled (\<lambda>i. {})"
      using factor_bounds by (fastforce simp: settled_def group_def)
  qed (simp_all add: separate_def free_space_def)
  ultimately show ?thesis by blast
qed

end
