(* ===== verification/PageHeap_Properties.thy ===== *)
theory PageHeap_Properties
  imports PageHeap_Random PageHeap_Init
begin

text \<open>
  The page heap as a source of pages: the contract of its operations (locale \<open>page_source\<close>, interpreted
  on the heap), the accounting of its allocations, and the theorems about every sequence of requests.
\<close>

section \<open>Free memory\<close>

lemma blocks_image:
  assumes "heap_rep A sz lo h B" "i < 7"
  shows "B i = addr_of A i ` bits_of A i (B i)"
proof -
  have "a \<in> addr_of A i ` bits_of A i (B i)" if "a \<in> B i" for a
    using in_heap_offset(1) [OF heap_rep_in_heap [OF assms that] assms(2) heap_repD(6) [OF assms(1)]] that
    by (metis imageI mem_bits_of)
  then show ?thesis by (auto simp: bits_of_def)
qed

lemma card_blocks:
  assumes "heap_rep A sz lo h B" "i < 7"
  shows "finite (B i)" "card (B i) = GetNumFreeBlocks (m_blocks h ! i)"
proof -
  note ok = bitmap_okD [OF block_repD(4) [OF heap_repD(9) [OF assms]]]
  have inj: "inj_on (addr_of A i) X" for X
    by (simp add: inj_on_def addr_of_inj)
  show "finite (B i)"
    by (subst blocks_image [OF assms]) (simp add: ok(9))
  have "card (B i) = card (bits_of A i (B i))"
    by (subst blocks_image [OF assms]) (rule card_image [OF inj])
  then show "card (B i) = GetNumFreeBlocks (m_blocks h ! i)"
    using ok(7) by (simp add: GetNumFreeBlocks_def)
qed

lemma card_free_space:
  assumes "heap_rep A sz lo h B" "separate B"
  shows "card (free_space B) = (\<Sum>i < 7. card (B i) * bytes i)" "free_space B \<subseteq> {A..<A + sz}"
proof -
  let ?S = "Sigma {..<7} B"
  have fin: "finite ?S"
    using card_blocks(1) [OF assms(1)] by (intro finite_SigmaI) auto
  have "free_space B = (\<Union>x \<in> ?S. span (fst x) (snd x))"
    unfolding free_space_def by force
  moreover have "card (\<Union>x \<in> ?S. span (fst x) (snd x)) = (\<Sum>x \<in> ?S. card (span (fst x) (snd x)))"
  proof (intro card_UN_disjoint [OF fin] ballI impI)
    fix x y assume "x \<in> ?S" "y \<in> ?S" "x \<noteq> y"
    then show "span (fst x) (snd x) \<inter> span (fst y) (snd y) = {}"
      using assms(2) unfolding separate_def by (metis SigmaE fst_conv lessThan_iff snd_conv)
  qed (simp add: span_def)
  moreover have "(\<Sum>x \<in> ?S. card (span (fst x) (snd x))) = (\<Sum>i < 7. \<Sum>a \<in> B i. bytes i)"
    using card_blocks(1) [OF assms(1)] by (subst sum.Sigma) (auto simp: span_def case_prod_beta)
  ultimately have "card (free_space B) = (\<Sum>i < 7. \<Sum>a \<in> B i. bytes i)"
    by simp
  then show "card (free_space B) = (\<Sum>i < 7. card (B i) * bytes i)"
    by simp
  show "free_space B \<subseteq> {A..<A + sz}"
    using heap_rep_in_heap [OF assms(1)] unfolding in_heap_iff free_space_def by blast
qed

lemma num_free_pages_fold:
  assumes "\<And>i. i < n \<Longrightarrow> i < length bs" "(\<Sum>i < n. Block_GetNumFreePages (bs ! i)) < 2 ^ 64"
  shows "fold (\<lambda>i acc. do { k \<leftarrow> acc; b \<leftarrow> fetch bs i; Some (wrap64 (k + Block_GetNumFreePages b)) }) [0..<n] (Some 0) =
    Some (\<Sum>i < n. Block_GetNumFreePages (bs ! i))"
  using assms
proof (induction n)
  case (Suc n)
  then show ?case by (simp add: fetch_def wrap64_less)
qed simp

lemma GetFreeSize_ok:
  assumes "holds A sz lo h M"
  shows "heap_GetFreeSize h = Some (card M)" "M \<subseteq> {A..<A + sz}"
proof -
  from assms obtain B where B: "heap_rep A sz lo h B" "separate B" "settled B" "free_space B = M"
    by (rule holdsE)
  note card = card_free_space [OF B(1,2), unfolded B(4)]
  show "M \<subseteq> {A..<A + sz}" by (rule card(2))
  have "card M \<le> sz"
    using card_mono [OF _ card(2)] by simp
  then have small: "card M < 2 ^ 64"
    using heap_repD(5,6) [OF B(1)] by simp
  have pages: "Block_GetNumFreePages (m_blocks h ! i) * PageBytes = card (B i) * bytes i" if "i < 7" for i
  proof -
    have "card (B i) * bytes i \<le> card M"
      unfolding card(1) using that by (intro member_le_sum) auto
    moreover have whole: "bytes i div PageBytes * PageBytes = bytes i"
      using page_dvd [OF that] by simp
    then have "card (B i) * (bytes i div PageBytes) \<le> card (B i) * bytes i"
      by (intro mult_le_mono2) simp
    ultimately have "card (B i) * (bytes i div PageBytes) < 2 ^ 64"
      using small by linarith
    then have "Block_GetNumFreePages (m_blocks h ! i) = card (B i) * (bytes i div PageBytes)"
      using card_blocks(2) [OF B(1) that] heap_rep_block_size [OF B(1) that]
      by (simp add: Block_GetNumFreePages_def Block_GetNumPages_def wrap64_less)
    then show ?thesis using whole by simp
  qed
  let ?n = "\<Sum>i < 7. Block_GetNumFreePages (m_blocks h ! i)"
  have total: "?n * PageBytes = card M"
    unfolding card(1) sum_distrib_right using pages by (intro sum.cong) auto
  then have "?n < 2 ^ 64"
    using small by (simp add: PageBytes_def)
  then have "KPageHeap_GetNumFreePages h = Some ?n"
    unfolding KPageHeap_GetNumFreePages_def heap_repD(3) [OF B(1)] using heap_repD(4) [OF B(1)]
    by (intro num_free_pages_fold) simp_all
  then show "heap_GetFreeSize h = Some (card M)"
    using total small by (simp add: heap_GetFreeSize_def wrap64_less)
qed

section \<open>Requests\<close>

datatype request = BlockRequest nat bool | AlignedRequest nat nat

fun allocate :: "request \<Rightarrow> KPageHeap \<Rightarrow> (nat \<times> KPageHeap) option" where
  "allocate (BlockRequest i random) h = AllocateBlock (int i) random h"
| "allocate (AlignedRequest n m) h = AllocateAligned (GetAlignedBlockIndex n m) n m h"

fun valid_request :: "request \<Rightarrow> bool" where
  "valid_request (BlockRequest i random) \<longleftrightarrow> i < 7"
| "valid_request (AlignedRequest n m) \<longleftrightarrow> 0 < n \<and> 0 < m \<and> n \<le> 2 ^ 18 \<and> m \<le> 2 ^ 18"

fun pages_of :: "request \<Rightarrow> nat" where
  "pages_of (BlockRequest i random) = bytes i div PageBytes"
| "pages_of (AlignedRequest n m) = n"

lemma block_pages_pos: "i < 7 \<Longrightarrow> 0 < bytes i div PageBytes"
  using dvd_imp_le [OF page_dvd, of i] by (simp add: div_greater_zero_iff PageBytes_def)

lemma GetAlignedBlockIndex_ok:
  assumes "n \<le> 2 ^ 18" "m \<le> 2 ^ 18"
  shows "\<exists>i. GetAlignedBlockIndex n m = int i \<and> i < 7 \<and> n * PageBytes \<le> bytes i \<and> m * PageBytes \<le> bytes i"
proof -
  let ?P = "\<lambda>i. max n m \<le> 2 ^ (MemoryBlockPageShifts ! i) div PageBytes"
  have last: "?P 6"
    using assms by (simp add: MemoryBlockPageShifts_def PageBytes_def)
  then obtain i where i: "find ?P [0..<7] = Some i"
    by (cases "find ?P [0..<7]") (auto simp: find_None_iff)
  then have fit: "i < 7" "?P i"
    by (auto simp: find_Some_iff)
  then have "n \<le> bytes i div PageBytes" "m \<le> bytes i div PageBytes"
    by (simp_all add: shift_def)
  then have "n * PageBytes \<le> bytes i" "m * PageBytes \<le> bytes i"
    using mult_le_mono1 [of _ "bytes i div PageBytes" PageBytes] dvd_div_mult_self [OF page_dvd [OF fit(1)]] by metis+
  then show ?thesis
    using i fit(1) by (auto simp: GetAlignedBlockIndex_def NumMemoryBlockPageShifts_def)
qed

lemma AllocateBlock_ok:
  assumes "heap_ok A sz lo h B" "i < 7"
  shows "\<exists>addr h'. AllocateBlock (int i) random h = Some (addr, h') \<and>
    (if \<forall>k \<in> {i..<7}. B k = {} then addr = 0 \<and> holds A sz lo h' (free_space B)
     else addr \<noteq> 0 \<and> bytes i dvd addr \<and> span i addr \<subseteq> free_space B \<and> holds A sz lo h' (free_space B - span i addr))"
proof -
  have rep: "heap_rep A sz lo h B"
    using assms(1) by (simp add: heap_ok_def)
  have fetch: "fetch (m_blocks h) i = Some (m_blocks h ! i)"
    using heap_repD(4) [OF rep] assms(2) by (simp add: fetch_def)
  show ?thesis
  proof (cases random)
    case True
    let ?n = "bytes i div PageBytes"
    have n: "?n * PageBytes = bytes i" "0 < ?n"
      using page_dvd [OF assms(2)] block_pages_pos [OF assms(2)] by simp_all
    have zeros: "countr_zero (of_nat (bytes i)) = shift i"
      using shift_bounds [OF assms(2)] by (intro countr_zero_power) simp
    note ran = AllocateByRandom_ok [OF assms(1) n(2,2) _ _ assms(2), unfolded n(1) zeros, OF order.refl order.refl]
    have "AllocateBlock (int i) random h = AllocateByRandom i ?n ?n h"
      using True fetch heap_rep_block_size [OF rep assms(2)] by (simp add: AllocateBlock_def Block_GetNumPages_def Let_def)
    then show ?thesis
      using ran by (simp only: span_def)
  next
    case False
    then show ?thesis
      using linear_search_ok [OF assms(1) order.refl _ assms(2)] assms fetch heap_rep_block_size [OF rep assms(2)]
        heap_repD(3) [OF rep]
      by (auto simp: AllocateBlock_def AllocateByLinearSearch_def holds_def in_heap_def split: if_splits)
  qed
qed

lemma allocate_ok:
  assumes "holds A sz lo h M" "valid_request r"
  shows "\<exists>addr h'. allocate r h = Some (addr, h') \<and>
    (addr = 0 \<and> holds A sz lo h' M \<or>
     addr \<noteq> 0 \<and> PageBytes dvd addr \<and> {addr..<addr + pages_of r * PageBytes} \<subseteq> M \<and>
       holds A sz lo h' (M - {addr..<addr + pages_of r * PageBytes}))"
proof -
  from assms(1) obtain B where B: "heap_ok A sz lo h B" "free_space B = M"
    by (auto simp: holds_def)
  show ?thesis
  proof (cases r)
    case (BlockRequest i random)
    then have i: "i < 7" using assms(2) by simp
    have size: "bytes i div PageBytes * PageBytes = bytes i"
      using page_dvd [OF i] by simp
    have "PageBytes dvd a" if "bytes i dvd a" for a
      using dvd_trans [OF page_dvd [OF i] that] .
    then show ?thesis
      using AllocateBlock_ok [OF B(1) i, of random] size unfolding BlockRequest B(2)
      by (auto simp: span_def split: if_splits)
  next
    case (AlignedRequest n m)
    then have req: "0 < n" "0 < m" "n \<le> 2 ^ 18" "m \<le> 2 ^ 18" using assms(2) by simp_all
    obtain i where i: "GetAlignedBlockIndex n m = int i" "i < 7" "n * PageBytes \<le> bytes i" "m * PageBytes \<le> bytes i"
      using GetAlignedBlockIndex_ok [OF req(3,4)] by blast
    have small: "m * PageBytes < 2 ^ 64"
      using i(4) bytes_bound [OF i(2)] by simp
    have "PageBytes dvd 2 ^ countr_zero (of_nat (m * PageBytes))"
      using countr_zero_spec(3) [OF _ small, of 12] req(2) by (intro page_multiple_pow) (simp add: PageBytes_def)
    then have "PageBytes dvd a" if "2 ^ countr_zero (of_nat (m * PageBytes)) dvd a" for a
      using that dvd_trans by blast
    then show ?thesis
      using AllocateByRandom_ok [OF B(1) req(1,2) i(3,4,2)] i(1) unfolding AlignedRequest B(2)
      by (auto simp: AllocateAligned_def split: if_splits)
  qed
qed

section \<open>The contract of a source of pages\<close>

definition extent :: "nat \<times> nat \<Rightarrow> nat set" where
  "extent p = {fst p..<fst p + snd p * PageBytes}"

text \<open>The books: the live allocations do not overlap, and all else is free.\<close>

definition balanced :: "nat set \<Rightarrow> (nat \<times> nat) set \<Rightarrow> nat set \<Rightarrow> bool" where
  "balanced region L M \<longleftrightarrow> finite L \<and> (\<forall>p \<in> L. extent p \<subseteq> region \<and> PageBytes dvd fst p \<and> 0 < snd p) \<and>
     (\<forall>p \<in> L. \<forall>q \<in> L. p \<noteq> q \<longrightarrow> extent p \<inter> extent q = {}) \<and> M = region - \<Union> (extent ` L)"

lemma balancedD:
  assumes "balanced region L M"
  shows "finite L" "M = region - \<Union> (extent ` L)" "\<And>p. p \<in> L \<Longrightarrow> extent p \<subseteq> region"
    "\<And>p. p \<in> L \<Longrightarrow> PageBytes dvd fst p" "\<And>p q. p \<in> L \<Longrightarrow> q \<in> L \<Longrightarrow> p \<noteq> q \<Longrightarrow> extent p \<inter> extent q = {}"
  using assms unfolding balanced_def by simp_all

locale page_source =
  fixes inv :: "'h \<Rightarrow> nat set \<Rightarrow> bool"
    and region :: "nat set"
    and give :: "nat \<Rightarrow> nat \<Rightarrow> 'h \<Rightarrow> 'h option"
    and get :: "'r \<Rightarrow> 'h \<Rightarrow> (nat \<times> 'h) option"
    and ok :: "'r \<Rightarrow> bool"
    and amount :: "'r \<Rightarrow> nat"
  assumes give_ok: "inv h M \<Longrightarrow> PageBytes dvd a \<Longrightarrow> extent (a, n) \<subseteq> region \<Longrightarrow> extent (a, n) \<inter> M = {} \<Longrightarrow>
      \<exists>h'. give a n h = Some h' \<and> inv h' (M \<union> extent (a, n))"
    and get_ok: "inv h M \<Longrightarrow> ok r \<Longrightarrow> \<exists>a h'. get r h = Some (a, h') \<and>
      (a = 0 \<and> inv h' M \<or> a \<noteq> 0 \<and> PageBytes dvd a \<and> extent (a, amount r) \<subseteq> M \<and> inv h' (M - extent (a, amount r)))"
    and amount_pos: "ok r \<Longrightarrow> 0 < amount r"
begin

lemma get_balanced:
  assumes "inv h M" "balanced region L M" "ok r" "get r h = Some (a, h')" "a \<noteq> 0"
  shows "\<exists>M'. inv h' M' \<and> balanced region (insert (a, amount r) L) M'" "(a, amount r) \<notin> L"
proof -
  have got: "PageBytes dvd a" "extent (a, amount r) \<subseteq> M" "inv h' (M - extent (a, amount r))"
    using get_ok [OF assms(1,3)] assms(4,5) by auto
  have M: "M = region - \<Union> (extent ` L)"
    using assms(2) by (simp add: balanced_def)
  have fresh: "extent (a, amount r) \<inter> extent p = {}" if "p \<in> L" for p
    using got(2) that M by blast
  have "a \<in> extent (a, amount r)"
    using amount_pos [OF assms(3)] by (simp add: extent_def PageBytes_def)
  then show "(a, amount r) \<notin> L"
    using fresh by blast
  have "balanced region (insert (a, amount r) L) (M - extent (a, amount r))"
    using assms(2) got(1,2) M fresh amount_pos [OF assms(3)] unfolding balanced_def by (auto; blast)
  then show "\<exists>M'. inv h' M' \<and> balanced region (insert (a, amount r) L) M'"
    using got(3) by blast
qed

lemma refused_balanced:
  assumes "inv h M" "ok r" "get r h = Some (0, h')"
  shows "inv h' M"
  using get_ok [OF assms(1,2)] assms(3) by auto

lemma give_balanced:
  assumes "inv h M" "balanced region L M" "p \<in> L"
  shows "\<exists>h'. give (fst p) (snd p) h = Some h' \<and> (\<exists>M'. inv h' M' \<and> balanced region (L - {p}) M')"
proof -
  have p: "extent p \<subseteq> region" "PageBytes dvd fst p" "extent p \<inter> M = {}" "M = region - \<Union> (extent ` L)"
    using assms(2,3) by (auto simp: balanced_def)
  have others: "extent p \<inter> \<Union> (extent ` (L - {p})) = {}"
  proof -
    have "extent p \<inter> extent q = {}" if "q \<in> L - {p}" for q
      using balancedD(5) [OF assms(2,3), of q] that by auto
    then show ?thesis by blast
  qed
  have "\<Union> (extent ` L) = extent p \<union> \<Union> (extent ` (L - {p}))"
    using assms(3) by blast
  then have "M \<union> extent p = region - \<Union> (extent ` (L - {p}))"
    using p(1,4) others by auto
  then have "balanced region (L - {p}) (M \<union> extent p)"
    using assms(2) unfolding balanced_def by simp
  then show ?thesis
    using give_ok [OF assms(1) p(2), of "snd p"] p(1,3) by (cases p) auto
qed

end

interpretation kernel_heap: page_source "holds A sz lo" "{A..<A + sz}" Free allocate valid_request pages_of for A sz lo
proof
  show "\<exists>h'. Free a n h = Some h' \<and> holds A sz lo h' (M \<union> extent (a, n))"
    if "holds A sz lo h M" "PageBytes dvd a" "extent (a, n) \<subseteq> {A..<A + sz}" "extent (a, n) \<inter> M = {}" for h M a n
    using heap_Free_ok [OF that(1,2)] that(3,4) by (simp add: extent_def)
  show "\<exists>a h'. allocate r h = Some (a, h') \<and> (a = 0 \<and> holds A sz lo h' M \<or> a \<noteq> 0 \<and> PageBytes dvd a \<and>
      extent (a, pages_of r) \<subseteq> M \<and> holds A sz lo h' (M - extent (a, pages_of r)))"
    if "holds A sz lo h M" "valid_request r" for h M r
    using allocate_ok [OF that] by (simp add: extent_def)
  show "0 < pages_of r" if "valid_request r" for r
    using that block_pages_pos by (cases r) simp_all
qed


section \<open>Runs\<close>

text \<open>
  The heaps that a sequence of requests reaches, with the allocations that are live: a heap is set up in a
  management area of the announced size or more, all its memory is freed once, and then blocks are
  allocated and freed in any order.
\<close>

inductive heap_run :: "nat \<Rightarrow> nat \<Rightarrow> KPageHeap \<Rightarrow> (nat \<times> nat) set \<Rightarrow> bool" for A sz where
  start: "KPageHeap_CalculateManagementOverheadSize sz \<le> management_size \<Longrightarrow> length seeds = 7 \<Longrightarrow>
    KPageHeap_Initialize A sz management_size (new_KPageHeap seeds seed) = Some h \<Longrightarrow>
    Free A (sz div PageBytes) h = Some h' \<Longrightarrow> heap_run A sz h' {}"
| allocated: "heap_run A sz h L \<Longrightarrow> valid_request r \<Longrightarrow> allocate r h = Some (a, h') \<Longrightarrow> a \<noteq> 0 \<Longrightarrow>
    heap_run A sz h' (insert (a, pages_of r) L)"
| refused: "heap_run A sz h L \<Longrightarrow> valid_request r \<Longrightarrow> allocate r h = Some (0, h') \<Longrightarrow> heap_run A sz h' L"
| freed: "heap_run A sz h L \<Longrightarrow> p \<in> L \<Longrightarrow> Free (fst p) (snd p) h = Some h' \<Longrightarrow> heap_run A sz h' (L - {p})"

lemma heap_run_start:
  assumes "heap_fits A sz" "KPageHeap_CalculateManagementOverheadSize sz \<le> management_size" "length seeds = 7"
  shows "\<exists>h h'. KPageHeap_Initialize A sz management_size (new_KPageHeap seeds seed) = Some h \<and>
    Free A (sz div PageBytes) h = Some h' \<and> holds A sz (bitmap_start A sz) h' {A..<A + sz}"
proof -
  have page: "PageBytes dvd A" "sz div PageBytes * PageBytes = sz"
    using assms(1) by (simp_all add: heap_fits_def)
  obtain h where h: "KPageHeap_Initialize A sz management_size (new_KPageHeap seeds seed) = Some h"
    "holds A sz (bitmap_start A sz) h {}"
    using KPageHeap_Initialize_ok [OF assms] by blast
  then show ?thesis
    using heap_Free_ok [OF h(2) page(1), of "sz div PageBytes"] page(2) by auto
qed

lemma heap_run_balanced:
  assumes "heap_run A sz h L" "heap_fits A sz"
  shows "\<exists>M. holds A sz (bitmap_start A sz) h M \<and> balanced {A..<A + sz} L M"
  using assms(1)
proof induction
  case (start management_size seeds seed h h')
  then have "holds A sz (bitmap_start A sz) h' {A..<A + sz}"
    using heap_run_start [OF assms(2) start(1,2), of seed] by auto
  then show ?case by (auto simp: balanced_def)
next
  case (allocated h L r a h')
  then show ?case using kernel_heap.get_balanced(1) by blast
next
  case (refused h L r h')
  then show ?case using kernel_heap.refused_balanced by blast
next
  case (freed h L p h')
  then show ?case using kernel_heap.give_balanced by (metis option.inject)
qed

lemma balanced_card:
  assumes "balanced {A..<A + sz} L M"
  shows "card M = sz - (\<Sum>p \<in> L. snd p * PageBytes)" "(\<Sum>p \<in> L. snd p * PageBytes) \<le> sz"
proof -
  have L: "finite L" "\<Union> (extent ` L) \<subseteq> {A..<A + sz}" "M = {A..<A + sz} - \<Union> (extent ` L)"
    using balancedD [OF assms] by blast+
  have "card (\<Union> (extent ` L)) = (\<Sum>p \<in> L. card (extent p))"
    using balancedD(5) [OF assms] by (intro card_UN_disjoint [OF L(1)]) (simp_all add: extent_def)
  then have used: "card (\<Union> (extent ` L)) = (\<Sum>p \<in> L. snd p * PageBytes)"
    by (simp add: extent_def)
  moreover have "card (\<Union> (extent ` L)) \<le> sz"
    using card_mono [OF _ L(2)] by simp
  moreover have "card M = sz - card (\<Union> (extent ` L))"
    unfolding L(3) using card_Diff_subset [OF finite_subset [OF L(2)] L(2)] by simp
  ultimately show "card M = sz - (\<Sum>p \<in> L. snd p * PageBytes)" "(\<Sum>p \<in> L. snd p * PageBytes) \<le> sz"
    by simp_all
qed

section \<open>A small heap\<close>

text \<open>One mebibyte at the start of the guest's DRAM.\<close>

lemma small_heap_fits: "heap_fits 0x80000000 0x100000"
  by (simp add: heap_fits_def PageBytes_def)

lemma small_heap_run: "\<exists>h. heap_run 0x80000000 0x100000 h {}"
proof -
  obtain h h' where "KPageHeap_Initialize 0x80000000 0x100000 (KPageHeap_CalculateManagementOverheadSize 0x100000)
      (new_KPageHeap (replicate 7 0) 0) = Some h" "Free 0x80000000 (0x100000 div PageBytes) h = Some h'"
    using heap_run_start [OF small_heap_fits order.refl, of "replicate 7 0" 0] by auto
  then show ?thesis
    using heap_run.start [OF order.refl, of "replicate 7 0"] by fastforce
qed

lemma small_heap_page: "\<exists>h a. heap_run 0x80000000 0x100000 h {(a, 1)}"
proof -
  obtain h where h: "heap_run 0x80000000 0x100000 h {}"
    using small_heap_run by blast
  let ?lo = "bitmap_start 0x80000000 0x100000"
  obtain M where "holds 0x80000000 0x100000 ?lo h M" "balanced {0x80000000..<0x80000000 + 0x100000} {} M"
    using heap_run_balanced [OF h small_heap_fits] by blast
  then obtain B where B: "heap_ok 0x80000000 0x100000 ?lo h B" "free_space B = {0x80000000..<0x80000000 + 0x100000}"
    by (auto simp: holds_def balanced_def)
  have "bytes 0 dvd 0x80000000 \<and> span 0 0x80000000 \<subseteq> free_space B"
    unfolding B(2) by (simp add: span_def)
  then obtain a h' where a: "AllocateBlock (int 0) True h = Some (a, h')" "a \<noteq> 0"
    using AllocateBlock_ok [OF B(1), of 0 True] no_block_iff [OF B(1), of 0] by (metis (no_types, lifting) zero_less_numeral)
  then have "heap_run 0x80000000 0x100000 h' (insert (a, pages_of (BlockRequest 0 True)) {})"
    by (intro heap_run.allocated [OF h]) simp_all
  then show ?thesis
    by (auto simp: PageBytes_def)
qed

text \<open>
  C2. In every run of the page heap the live allocations lie inside the heap, do not overlap, and
  start at multiples of the page size; and the heap reports exactly the rest of its memory as free. So
  no request, at whatever random place it is served, hands out memory that is in use, and no
  sequence of splitting and joining blocks loses or duplicates a page.
\<close>

theorem allocations_never_overlap:
  assumes "heap_fits A sz" "heap_run A sz h L"
  shows "(\<forall>p \<in> L. extent p \<subseteq> {A..<A + sz} \<and> PageBytes dvd fst p) \<and>
    (\<forall>p \<in> L. \<forall>q \<in> L. p \<noteq> q \<longrightarrow> extent p \<inter> extent q = {}) \<and>
    heap_GetFreeSize h = Some (sz - (\<Sum>p \<in> L. snd p * PageBytes)) \<and> (\<Sum>p \<in> L. snd p * PageBytes) \<le> sz"
proof -
  obtain M where M: "holds A sz (bitmap_start A sz) h M" "balanced {A..<A + sz} L M"
    using heap_run_balanced [OF assms(2,1)] by blast
  then show ?thesis
    using GetFreeSize_ok(1) [OF M(1)] balanced_card [OF M(2)] by (simp add: balanced_def)
qed

lemma allocations_never_overlap_witness:
  "\<exists>h a. heap_run 0x80000000 0x100000 h {(a, 1)} \<and> extent (a, 1) \<subseteq> {0x80000000..<0x80100000} \<and>
     heap_GetFreeSize h = Some 0xFF000"
proof -
  obtain h a where h: "heap_run 0x80000000 0x100000 h {(a, 1)}"
    using small_heap_page by blast
  show ?thesis
    using allocations_never_overlap [OF small_heap_fits h] h by (intro exI [of _ h] exI [of _ a]) (simp add: PageBytes_def)
qed

text \<open>
  C9. In every run of the page heap every valid request and every freeing of a live allocation
  returns; and a request for a block succeeds, with an aligned block, exactly when some aligned block of that size
  is not touched by a live allocation: joining freed blocks leaves no fragmentation by the heap itself.
\<close>

theorem block_requests_served:
  assumes "heap_fits A sz" "heap_run A sz h L"
  shows "(\<forall>r. valid_request r \<longrightarrow> (\<exists>a h'. allocate r h = Some (a, h'))) \<and>
    (\<forall>p \<in> L. \<exists>h'. Free (fst p) (snd p) h = Some h') \<and>
    (\<forall>i random. i < 7 \<longrightarrow> (\<exists>a h'. AllocateBlock (int i) random h = Some (a, h') \<and>
       (a \<noteq> 0 \<longleftrightarrow> (\<exists>b. bytes i dvd b \<and> span i b \<subseteq> {A..<A + sz} - \<Union> (extent ` L))) \<and>
       (a \<noteq> 0 \<longrightarrow> bytes i dvd a)))"
proof -
  obtain M where M: "holds A sz (bitmap_start A sz) h M" "balanced {A..<A + sz} L M"
    using heap_run_balanced [OF assms(2,1)] by blast
  then obtain B where B: "heap_ok A sz (bitmap_start A sz) h B" "free_space B = M"
    by (auto simp: holds_def)
  have rest: "M = {A..<A + sz} - \<Union> (extent ` L)"
    using M(2) by (simp add: balanced_def)
  have "\<exists>a h'. AllocateBlock (int i) random h = Some (a, h') \<and>
       (a \<noteq> 0 \<longleftrightarrow> (\<exists>b. bytes i dvd b \<and> span i b \<subseteq> M)) \<and> (a \<noteq> 0 \<longrightarrow> bytes i dvd a)" if i7: "i < 7" for i random
  proof -
    obtain a h' where a: "AllocateBlock (int i) random h = Some (a, h')"
      "a = 0 \<longleftrightarrow> (\<forall>k \<in> {i..<7}. B k = {})" "a \<noteq> 0 \<longrightarrow> bytes i dvd a"
      using AllocateBlock_ok [OF B(1) i7, of random] by (metis (no_types, lifting))
    then show ?thesis
      unfolding no_block_iff [OF B(1) i7] B(2) by blast
  qed
  moreover have "\<exists>a h'. allocate r h = Some (a, h')" if "valid_request r" for r
    using allocate_ok [OF M(1) that] by blast
  moreover have "\<exists>h'. Free (fst p) (snd p) h = Some h'" if "p \<in> L" for p
    using kernel_heap.give_balanced [OF M that] by blast
  ultimately show ?thesis unfolding rest by blast
qed


lemma block_requests_served_witness:
  "\<exists>h a h' h''. heap_run 0x80000000 0x100000 h {} \<and> AllocateBlock 1 False h = Some (a, h') \<and> a \<noteq> 0 \<and> 0x10000 dvd a \<and>
     AllocateBlock 4 True h = Some (0, h'')"
proof -
  obtain h where h: "heap_run 0x80000000 0x100000 h {}"
    using small_heap_run by blast
  note served = block_requests_served [OF small_heap_fits h, THEN conjunct2, THEN conjunct2, rule_format]
  have "bytes 1 dvd 0x80000000 \<and> span 1 0x80000000 \<subseteq> {0x80000000..<0x80000000 + 0x100000}"
    by (simp add: span_def)
  then obtain a h' where a: "AllocateBlock (int 1) False h = Some (a, h')" "a \<noteq> 0" "bytes 1 dvd a"
    using served [of 1 False] by (auto simp del: shift_values)
  have "\<not> (\<exists>b. bytes 4 dvd b \<and> span 4 b \<subseteq> {0x80000000..<0x80000000 + 0x100000})"
    by (auto simp: span_def)
  then obtain h'' where "AllocateBlock (int 4) True h = Some (0, h'')"
    using served [of 4 True] by (auto simp del: shift_values)
  with h a show ?thesis by auto
qed

end
