(* ===== verification/DynamicSlab.thy ===== *)
theory DynamicSlab
  imports PageHeap
begin

text \<open>
  The kernel's allocators of small objects: the page manager of \<^verbatim>\<open>core/hle/kernel/k_dynamic_page_manager.h\<close>
  over a page bitmap, the free list of \<^verbatim>\<open>k_slab_heap.h\<close>, and the slab heap of
  \<^verbatim>\<open>k_dynamic_slab_heap.h\<close> that takes further pages from a page manager, which
  \<^verbatim>\<open>k_dynamic_resource_manager.h\<close> passes along.

  The backing memory of a page manager is a vector of 64-bit words, of which the last pages hold
  the bitmap. A pointer into it is the offset in bytes from its start, modulo 2 to the 64; the
  host address of the start is a field, because \<^verbatim>\<open>Free\<close> uses it. What the objects store in
  their pages is outside of the model: the free list, which the code threads through the first word of
  each free object, is the list of its nodes. Atomic counters are plain ones, and a spin lock makes
  each operation one step.
\<close>

datatype Result = ResultSuccess | ResultOutOfResource | ResultOutOfMemory | ResultBusy

section \<open>Pages\<close>

record KDynamicPageManager =
  m_page_bitmap :: KPageBitmap
  page_used :: nat
  page_peak :: nat
  page_count :: nat
  page_address :: nat
  m_aligned_address :: nat
  page_size :: nat
  m_backing_memory :: storage
  backing_base :: nat

definition new_KDynamicPageManager :: "u64 \<Rightarrow> nat \<Rightarrow> KDynamicPageManager" where
  "new_KDynamicPageManager random64 base =
     \<lparr>m_page_bitmap = new_KPageBitmap random64, page_used = 0, page_peak = 0, page_count = 0, page_address = 0,
      m_aligned_address = 0, page_size = 0, m_backing_memory = [], backing_base = base\<rparr>"

text \<open>\<^verbatim>\<open>m_backing_memory.data() + (addr - m_address)\<close>\<close>

definition page_GetPointer :: "KDynamicPageManager \<Rightarrow> nat \<Rightarrow> nat" where
  "page_GetPointer d addr = sub64 addr (page_address d)"

text \<open>\<^verbatim>\<open>std::memset(ptr, 0, n)\<close>, for a pointer and a count that are multiples of eight.\<close>

definition clear_bytes :: "nat \<Rightarrow> nat \<Rightarrow> storage \<Rightarrow> storage option" where
  "clear_bytes ptr n mem =
     (if ptr div 8 + n div 8 \<le> length mem
      then Some (take (ptr div 8) mem @ replicate (n div 8) 0 @ drop (ptr div 8 + n div 8) mem) else None)"

definition on_bitmap :: "(storage \<times> KPageBitmap \<Rightarrow> (storage \<times> KPageBitmap) option) \<Rightarrow> KDynamicPageManager \<Rightarrow> KDynamicPageManager option" where
  "on_bitmap f d =
     do {
       (mem, bm) \<leftarrow> f (m_backing_memory d, m_page_bitmap d);
       Some (d\<lparr>m_backing_memory := mem, m_page_bitmap := bm\<rparr>)
     }"

text \<open>The loop of \<^verbatim>\<open>Initialize\<close> that frees the pages to the bitmap.\<close>

fun free_pages :: "nat list \<Rightarrow> KDynamicPageManager \<Rightarrow> KDynamicPageManager option" where
  "free_pages [] d = Some d"
| "free_pages (i # is) d =
     do {
       mem \<leftarrow> clear_bytes (wrap64 (page_GetPointer d (page_address d) + i * PageBytes)) PageBytes (m_backing_memory d);
       d \<leftarrow> on_bitmap
             (SetBit (sub64 (wrap64 (page_address d + i * PageBytes)) (m_aligned_address d) div PageBytes))
             (d\<lparr>m_backing_memory := mem\<rparr>);
       free_pages is d
     }"

definition page_Initialize :: "nat \<Rightarrow> nat \<Rightarrow> nat \<Rightarrow> KDynamicPageManager \<Rightarrow> (Result \<times> KDynamicPageManager) option" where
  "page_Initialize memory sz align d =
     (if \<not> 0 < sz then Some (ResultOutOfMemory, d)
      else do {
        let d = d\<lparr>m_backing_memory := resize (sz div 8) (m_backing_memory d), page_address := memory,
                  m_aligned_address := AlignDown_size memory align\<rparr>;
        let managed_size = sub64 (wrap64 (memory + sz)) (m_aligned_address d);
        let overhead_size =
              AlignUp_size (KPageBitmap_CalculateManagementOverheadSize (managed_size div PageBytes)) PageBytes;
        if \<not> overhead_size < sz then Some (ResultOutOfMemory, d)
        else do {
          let d = d\<lparr>page_size := AlignDown_size (sz - overhead_size) PageBytes,
                    page_count := AlignDown_size (sz - overhead_size) PageBytes div PageBytes\<rparr>;
          let management_addr = wrap64 (memory + sz - overhead_size);
          let management_ptr = page_GetPointer d management_addr;
          mem \<leftarrow> clear_bytes management_ptr overhead_size (m_backing_memory d);
          let allocatable_region_size = sub64 management_addr (m_aligned_address d);
          (_, bm) \<leftarrow> KPageBitmap_Initialize (management_ptr div 8) (allocatable_region_size div PageBytes)
                      (m_page_bitmap d);
          d \<leftarrow> free_pages [0..<page_count d] (d\<lparr>m_backing_memory := mem, m_page_bitmap := bm\<rparr>);
          Some (ResultSuccess, d)
        }
      })"

definition page_at :: "KDynamicPageManager \<Rightarrow> nat \<Rightarrow> nat" where
  "page_at d offset = wrap64 (page_GetPointer d (m_aligned_address d) + offset * PageBytes)"

text \<open>\<^verbatim>\<open>Allocate()\<close> and \<^verbatim>\<open>Allocate(count)\<close>; a null pointer is \<open>None\<close>.\<close>

definition page_Allocate :: "KDynamicPageManager \<Rightarrow> (nat option \<times> KDynamicPageManager) option" where
  "page_Allocate d =
     do {
       (soffset, bm) \<leftarrow> FindFreeBlock True (m_backing_memory d) (m_page_bitmap d);
       let d = d\<lparr>m_page_bitmap := bm\<rparr>;
       case soffset of
         None \<Rightarrow> Some (None, d)
       | Some offset \<Rightarrow> do {
           d \<leftarrow> on_bitmap (ClearBit offset) d;
           let used = wrap64 (page_used d + 1);
           let d = d\<lparr>page_used := used, page_peak := max (page_peak d) used\<rparr>;
           Some (Some (page_at d offset), d)
         }
     }"

definition page_Allocate_range :: "nat \<Rightarrow> KDynamicPageManager \<Rightarrow> (nat option \<times> KDynamicPageManager) option" where
  "page_Allocate_range count d =
     do {
       (soffset, bm) \<leftarrow> FindFreeRange count (m_backing_memory d) (m_page_bitmap d);
       let d = d\<lparr>m_page_bitmap := bm\<rparr>;
       case soffset of
         None \<Rightarrow> Some (None, d)
       | Some offset \<Rightarrow> do {
           d \<leftarrow> on_bitmap (\<lambda>s. map_option snd (ClearRange offset count s)) d;
           let used = wrap64 (page_used d + count);
           let d = d\<lparr>page_used := used, page_peak := max (page_peak d) used\<rparr>;
           Some (Some (page_at d offset), d)
         }
     }"

text \<open>
  \<^verbatim>\<open>Free\<close> subtracts the guest address of the pool from the host address of the page.
\<close>

definition page_Free :: "nat \<Rightarrow> KDynamicPageManager \<Rightarrow> KDynamicPageManager option" where
  "page_Free pb d =
     do {
       mem \<leftarrow> clear_bytes pb PageBytes (m_backing_memory d);
       let offset = sub64 (wrap64 (backing_base d + pb)) (m_aligned_address d) div PageBytes;
       d \<leftarrow> on_bitmap (SetBit offset) (d\<lparr>m_backing_memory := mem\<rparr>);
       Some (d\<lparr>page_used := sub64 (page_used d) 1\<rparr>)
     }"

section \<open>Objects\<close>

text \<open>\<^verbatim>\<open>KSlabHeapImpl::Allocate\<close> and \<^verbatim>\<open>Free\<close>.\<close>

fun pop_node :: "nat list \<Rightarrow> nat option \<times> nat list" where
  "pop_node [] = (None, [])"
| "pop_node (node # nodes) = (Some node, nodes)"

definition push_node :: "nat \<Rightarrow> nat list \<Rightarrow> nat list" where
  "push_node obj nodes = obj # nodes"

record KDynamicSlabHeap =
  m_head :: "nat list"
  slab_used :: nat
  slab_peak :: nat
  slab_count :: nat
  slab_address :: nat
  slab_size :: nat

definition new_KDynamicSlabHeap :: KDynamicSlabHeap where
  "new_KDynamicSlabHeap =
     \<lparr>m_head = [], slab_used = 0, slab_peak = 0, slab_count = 0, slab_address = 0, slab_size = 0\<rparr>"

text \<open>
  The size of an object, \<^verbatim>\<open>sizeof(T)\<close>, is the argument \<open>T\<close>; \<^verbatim>\<open>allocated + i\<close> is \<open>i\<close> objects behind
  a page. The loop pushes the objects from the index \<open>i\<close> on.
\<close>

definition objects_per_page :: "nat \<Rightarrow> nat" where
  "objects_per_page T = PageBytes div T"

definition push_objects :: "nat \<Rightarrow> nat \<Rightarrow> nat \<Rightarrow> nat list \<Rightarrow> nat list" where
  "push_objects T allocated i nodes =
     fold (\<lambda>j. push_node (wrap64 (allocated + j * T))) [i..<objects_per_page T] nodes"

text \<open>The loop of \<^verbatim>\<open>Initialize\<close>; writing the nodes of a null page is undefined.\<close>

partial_function (option) fill_slab ::
  "nat \<Rightarrow> nat \<Rightarrow> KDynamicPageManager \<Rightarrow> KDynamicSlabHeap \<Rightarrow> (KDynamicPageManager \<times> KDynamicSlabHeap) option" where
  "fill_slab T num_objects d s =
     (if slab_count s < num_objects
      then do {
        (page, d) \<leftarrow> page_Allocate d;
        allocated \<leftarrow> page;
        fill_slab T num_objects d
          (s\<lparr>m_head := push_objects T allocated 0 (m_head s),
             slab_count := wrap64 (slab_count s + objects_per_page T)\<rparr>)
      }
      else Some (d, s))"

declare fill_slab.simps [code]

definition slab_Initialize ::
  "nat \<Rightarrow> nat \<Rightarrow> KDynamicPageManager \<Rightarrow> KDynamicSlabHeap \<Rightarrow> (KDynamicPageManager \<times> KDynamicSlabHeap) option" where
  "slab_Initialize T num_objects d s =
     fill_slab T num_objects d (s\<lparr>slab_address := page_address d, slab_size := page_size d\<rparr>)"

text \<open>\<^verbatim>\<open>Allocate(page_allocator)\<close>; the page allocator may be null.\<close>

definition more_objects ::
  "nat \<Rightarrow> KDynamicPageManager option \<times> KDynamicSlabHeap \<Rightarrow>
     (nat option \<times> KDynamicPageManager option \<times> KDynamicSlabHeap) option" where
  "more_objects T m =
     (case fst m of
        None \<Rightarrow> Some (None, m)
      | Some d \<Rightarrow> do {
          (page, d) \<leftarrow> page_Allocate d;
          case page of
            None \<Rightarrow> Some (None, Some d, snd m)
          | Some allocated \<Rightarrow>
              Some (Some allocated, Some d,
                (snd m)\<lparr>m_head := push_objects T allocated 1 (m_head (snd m)),
                        slab_count := wrap64 (slab_count (snd m) + objects_per_page T)\<rparr>)
        })"

definition slab_Allocate ::
  "nat \<Rightarrow> KDynamicPageManager option \<times> KDynamicSlabHeap \<Rightarrow>
     (nat option \<times> KDynamicPageManager option \<times> KDynamicSlabHeap) option" where
  "slab_Allocate T m =
     do {
       let (node, nodes) = pop_node (m_head (snd m));
       let m = (fst m, (snd m)\<lparr>m_head := nodes\<rparr>);
       (allocated, d, s) \<leftarrow> (if node = None then more_objects T m else Some (node, m));
       if allocated \<noteq> None
       then do {
         let used = wrap64 (slab_used s + 1);
         Some (allocated, d, s\<lparr>slab_used := used, slab_peak := max (slab_peak s) used\<rparr>)
       }
       else Some (None, d, s)
     }"

definition slab_Free :: "nat \<Rightarrow> KDynamicPageManager option \<times> KDynamicSlabHeap \<Rightarrow> KDynamicPageManager option \<times> KDynamicSlabHeap" where
  "slab_Free t m =
     (fst m, (snd m)\<lparr>m_head := push_node t (m_head (snd m)), slab_used := sub64 (slab_used (snd m)) 1\<rparr>)"

end
