(* ===== verification/DynamicSlab_Laws.thy ===== *)
theory DynamicSlab_Laws
  imports DynamicSlab PageHeap_Init
begin

text \<open>
  The page manager hands out the pages of its pool, one or a run at a time, and never the same
  page twice.
\<close>

section \<open>The pool\<close>

definition first_bit :: "KDynamicPageManager \<Rightarrow> nat" where
  "first_bit d = (page_address d - m_aligned_address d) div PageBytes"

definition pool_shape :: "KDynamicPageManager \<Rightarrow> bool" where
  "pool_shape d \<longleftrightarrow> m_aligned_address d \<le> page_address d \<and> PageBytes dvd page_address d - m_aligned_address d \<and>
     page_address d + page_size d < 2 ^ 64 \<and> page_size d < 2 ^ 63 \<and> page_size d = page_count d * PageBytes"

definition page_pool :: "KDynamicPageManager \<Rightarrow> nat set \<Rightarrow> bool" where
  "page_pool d F \<longleftrightarrow> pool_shape d \<and> F \<subseteq> {first_bit d..} \<and> page_used d + card F = page_count d \<and>
     (\<exists>lo hi. page_size d \<le> 8 * lo \<and>
        bitmap_ok (first_bit d + page_count d) lo hi (m_backing_memory d) (m_page_bitmap d) F)"

text \<open>The pages of the pool, by their pointers.\<close>

definition page_ptrs :: "KDynamicPageManager \<Rightarrow> nat set \<Rightarrow> nat set" where
  "page_ptrs d F = page_at d ` F"

definition same_pool :: "KDynamicPageManager \<Rightarrow> KDynamicPageManager \<Rightarrow> bool" where
  "same_pool d d' \<longleftrightarrow> page_address d' = page_address d \<and> m_aligned_address d' = m_aligned_address d \<and>
     page_size d' = page_size d \<and> page_count d' = page_count d \<and> backing_base d' = backing_base d \<and>
     length (m_backing_memory d') = length (m_backing_memory d)"

lemma same_pool_refl [simp]: "same_pool d d"
  by (simp add: same_pool_def)

lemma same_pool_trans: "same_pool d d1 \<Longrightarrow> same_pool d1 d2 \<Longrightarrow> same_pool d d2"
  by (simp add: same_pool_def)

lemma same_poolD:
  assumes "same_pool d d'"
  shows "page_at d' = page_at d" "page_ptrs d' = page_ptrs d" "first_bit d' = first_bit d" "pool_shape d' = pool_shape d"
    "page_address d' = page_address d" "page_count d' = page_count d" "page_size d' = page_size d"
  using assms by (simp_all add: same_pool_def page_at_def page_GetPointer_def page_ptrs_def fun_eq_iff first_bit_def pool_shape_def)

lemma sub64_add: "b \<le> 2 ^ 64 \<Longrightarrow> wrap64 (sub64 a b + c) = (a + c + (2 ^ 64 - b mod 2 ^ 64)) mod 2 ^ 64"
  by (simp add: sub64_def wrap64_def mod_simps algebra_simps)

lemma page_at_eq:
  assumes "pool_shape d" "first_bit d \<le> x" "x < first_bit d + page_count d"
  shows "page_at d x = (x - first_bit d) * PageBytes"
proof -
  let ?k = "page_address d - m_aligned_address d"
  have k: "?k = first_bit d * PageBytes" "m_aligned_address d + ?k = page_address d"
    using assms(1) by (simp_all add: pool_shape_def first_bit_def)
  have bound: "page_address d < 2 ^ 64" "(x - first_bit d) * PageBytes < 2 ^ 63"
  proof -
    have "(x - first_bit d) * PageBytes \<le> page_count d * PageBytes"
      using assms(2,3) by (intro mult_le_mono1) simp
    moreover have "page_address d + page_count d * PageBytes < 2 ^ 64" "page_count d * PageBytes < 2 ^ 63"
      using assms(1) by (simp_all add: pool_shape_def)
    ultimately show "page_address d < 2 ^ 64" "(x - first_bit d) * PageBytes < 2 ^ 63"
      by linarith+
  qed
  have "x * PageBytes = ?k + (x - first_bit d) * PageBytes"
    unfolding k(1) add_mult_distrib [symmetric] using assms(2) by simp
  then have "m_aligned_address d + x * PageBytes + (2 ^ 64 - page_address d) = (x - first_bit d) * PageBytes + 2 ^ 64"
    using k(2) bound(1) by (simp del: diff_is_0_eq)
  then show ?thesis
    using bound by (simp add: page_at_def page_GetPointer_def sub64_add)
qed

lemma page_poolD:
  assumes "page_pool d F"
  shows "pool_shape d" "F \<subseteq> {first_bit d..<first_bit d + page_count d}" "finite F" "page_used d + card F = page_count d"
    "x \<in> F \<Longrightarrow> page_at d x = (x - first_bit d) * PageBytes"
proof -
  obtain lo hi where ok: "bitmap_ok (first_bit d + page_count d) lo hi (m_backing_memory d) (m_page_bitmap d) F"
    using assms by (auto simp: page_pool_def)
  show shape: "pool_shape d" and F: "F \<subseteq> {first_bit d..<first_bit d + page_count d}"
    using assms bitmap_okD(5) [OF ok] by (auto simp: page_pool_def)
  show "finite F" "page_used d + card F = page_count d"
    using assms bitmap_okD(9) [OF ok] by (simp_all add: page_pool_def)
  assume "x \<in> F"
  then show "page_at d x = (x - first_bit d) * PageBytes"
    using F by (intro page_at_eq [OF shape]) auto
qed

lemma page_ptrs_facts:
  assumes "page_pool d F" "p \<in> page_ptrs d F"
  shows "PageBytes dvd p" "p + PageBytes \<le> page_size d"
proof -
  from assms(2) obtain x where x: "x \<in> F" "p = page_at d x"
    by (auto simp: page_ptrs_def)
  have p: "p = (x - first_bit d) * PageBytes"
    using x page_poolD(5) [OF assms(1) x(1)] by simp
  then show "PageBytes dvd p" by simp
  have "x - first_bit d + 1 \<le> page_count d"
    using x(1) page_poolD(2) [OF assms(1)] by (auto simp: subset_iff)
  then have "(x - first_bit d + 1) * PageBytes \<le> page_count d * PageBytes"
    by (rule mult_le_mono1)
  then show "p + PageBytes \<le> page_size d"
    using page_poolD(1) [OF assms(1)] unfolding p by (simp add: pool_shape_def)
qed

lemma page_at_inj:
  assumes "pool_shape d" shows "inj_on (page_at d) {first_bit d..<first_bit d + page_count d}"
proof (rule inj_onI)
  fix x y
  assume "x \<in> {first_bit d..<first_bit d + page_count d}" "y \<in> {first_bit d..<first_bit d + page_count d}"
    and "page_at d x = page_at d y"
  then show "x = y"
    using page_at_eq [OF assms, of x] page_at_eq [OF assms, of y] by (auto simp: PageBytes_def)
qed

lemma page_pool_bounds:
  assumes "page_pool d F" shows "page_count d < 2 ^ 63" "page_used d \<le> page_count d"
proof -
  have "page_count d \<le> page_size d" "page_size d < 2 ^ 63"
    using page_poolD(1) [OF assms] by (simp_all add: pool_shape_def PageBytes_def)
  then show "page_count d < 2 ^ 63"
    by (rule le_less_trans)
  show "page_used d \<le> page_count d"
    using page_poolD(4) [OF assms] by linarith
qed

lemma page_ptrs_remove:
  assumes "page_pool d F" "A \<subseteq> F"
  shows "page_ptrs d (F - A) = page_ptrs d F - page_ptrs d A"
  unfolding page_ptrs_def using page_poolD(2) [OF assms(1)] assms(2)
  by (intro inj_on_image_set_diff [OF page_at_inj [OF page_poolD(1) [OF assms(1)]]]) auto

section \<open>Taking pages\<close>

text \<open>Clearing some of the free bits.\<close>

lemma take_pages:
  assumes pool: "page_pool d F" and "A \<subseteq> F"
    and bits: "\<And>sz lo hi. bitmap_ok sz lo hi (m_backing_memory d) (m_page_bitmap d) F \<Longrightarrow>
      \<exists>mem'. f (m_backing_memory d, (m_page_bitmap d)\<lparr>bitmap_rng := g\<rparr>) =
          Some (mem', (m_page_bitmap d)\<lparr>bitmap_rng := g, m_num_bits := card (F - A)\<rparr>) \<and>
        bitmap_ok sz lo hi mem' ((m_page_bitmap d)\<lparr>m_num_bits := card (F - A)\<rparr>) (F - A) \<and>
        outside lo hi (m_backing_memory d) mem'"
  obtains d' where "on_bitmap f (d\<lparr>m_page_bitmap := (m_page_bitmap d)\<lparr>bitmap_rng := g\<rparr>\<rparr>) = Some d'"
    "page_used d' = page_used d" "page_peak d' = page_peak d" "same_pool d d'"
    "\<And>peak. page_pool (d'\<lparr>page_used := wrap64 (page_used d + card A), page_peak := peak\<rparr>) (F - A)"
proof -
  let ?sz = "first_bit d + page_count d"
  obtain lo hi where ok: "page_size d \<le> 8 * lo" "bitmap_ok ?sz lo hi (m_backing_memory d) (m_page_bitmap d) F"
    using pool by (auto simp: page_pool_def)
  obtain mem' where mem': "f (m_backing_memory d, (m_page_bitmap d)\<lparr>bitmap_rng := g\<rparr>) =
      Some (mem', (m_page_bitmap d)\<lparr>bitmap_rng := g, m_num_bits := card (F - A)\<rparr>)"
    "bitmap_ok ?sz lo hi mem' ((m_page_bitmap d)\<lparr>m_num_bits := card (F - A)\<rparr>) (F - A)"
    "outside lo hi (m_backing_memory d) mem'"
    using bits [OF ok(2)] by blast
  let ?bm = "(m_page_bitmap d)\<lparr>bitmap_rng := g, m_num_bits := card (F - A)\<rparr>"
  let ?d = "d\<lparr>m_backing_memory := mem', m_page_bitmap := ?bm\<rparr>"
  have same: "same_pool d ?d"
    using mem'(3) by (simp add: same_pool_def outside_def)
  have "bitmap_ok ?sz lo hi mem' ?bm (F - A)"
    using mem'(2) by (simp add: bitmap_ok_def)
  moreover have card: "card A + card (F - A) = card F"
    using assms(2) page_poolD(3) [OF pool] by (metis card_Diff_subset card_mono finite_subset le_add_diff_inverse)
  then have "wrap64 (page_used d + card A) + card (F - A) = page_count d"
    using page_poolD(4) [OF pool] page_pool_bounds [OF pool] by (simp add: wrap64_less)
  moreover have "F - A \<subseteq> {first_bit d..}"
    using page_poolD(2) [OF pool] by auto
  ultimately have "page_pool (?d\<lparr>page_used := wrap64 (page_used d + card A), page_peak := peak\<rparr>) (F - A)" for peak
    using same_poolD [OF same] page_poolD(1) [OF pool] ok(1)
    by (auto simp: page_pool_def pool_shape_def first_bit_def)
  then show thesis
    by (intro that [of ?d]) (use mem'(1) same in \<open>simp_all add: on_bitmap_def\<close>)
qed

lemma same_pool_counts: "same_pool d d' \<Longrightarrow> same_pool d (d'\<lparr>page_used := u, page_peak := p\<rparr>)"
  by (simp add: same_pool_def)

lemma same_pool_bitmap [simp]: "same_pool d (d\<lparr>m_page_bitmap := bm\<rparr>)"
  by (simp add: same_pool_def)

lemma page_Allocate_ok:
  assumes "page_pool d F"
  shows "if F = {} then page_Allocate d = Some (None, d)
    else \<exists>x d'. page_Allocate d = Some (Some (page_at d x), d') \<and> x \<in> F \<and> page_pool d' (F - {x}) \<and> same_pool d d'"
proof -
  obtain lo hi where ok: "bitmap_ok (first_bit d + page_count d) lo hi (m_backing_memory d) (m_page_bitmap d) F"
    using assms by (auto simp: page_pool_def)
  show ?thesis
  proof (cases "F = {}")
    case True
    then show ?thesis
      using FindFreeBlock_ok [OF ok, of True] by (simp add: page_Allocate_def)
  next
    case False
    then obtain x g where x: "FindFreeBlock True (m_backing_memory d) (m_page_bitmap d) = Some (Some x, (m_page_bitmap d)\<lparr>bitmap_rng := g\<rparr>)" "x \<in> F"
      using FindFreeBlock_ok [OF ok, of True] by auto
    have bits: "\<exists>mem'. ClearBit x (m_backing_memory d, (m_page_bitmap d)\<lparr>bitmap_rng := g\<rparr>) =
          Some (mem', (m_page_bitmap d)\<lparr>bitmap_rng := g, m_num_bits := card (F - {x})\<rparr>) \<and>
        bitmap_ok sz lo hi mem' ((m_page_bitmap d)\<lparr>m_num_bits := card (F - {x})\<rparr>) (F - {x}) \<and>
        outside lo hi (m_backing_memory d) mem'"
      if "bitmap_ok sz lo hi (m_backing_memory d) (m_page_bitmap d) F" for sz lo hi
      using ClearBit_ok [of sz lo hi "m_backing_memory d" "(m_page_bitmap d)\<lparr>bitmap_rng := g\<rparr>" F x] that x(2)
      by (simp add: bitmap_ok_def)
    obtain d' where d': "on_bitmap (ClearBit x) (d\<lparr>m_page_bitmap := (m_page_bitmap d)\<lparr>bitmap_rng := g\<rparr>\<rparr>) = Some d'"
      "page_used d' = page_used d" "page_peak d' = page_peak d" "same_pool d d'"
      "\<And>peak. page_pool (d'\<lparr>page_used := wrap64 (page_used d + card {x}), page_peak := peak\<rparr>) (F - {x})"
      by (rule take_pages [OF assms, where A = "{x}" and f = "ClearBit x" and g = g]) (use x(2) bits in auto)
    let ?d = "d'\<lparr>page_used := wrap64 (page_used d + 1), page_peak := max (page_peak d) (wrap64 (page_used d + 1))\<rparr>"
    have "page_Allocate d = Some (Some (page_at ?d x), ?d)"
      using x(1) d'(1-3) by (simp add: page_Allocate_def Let_def)
    moreover have "same_pool d ?d"
      by (rule same_pool_counts [OF d'(4)])
    moreover from this have "page_at ?d x = page_at d x"
      by (simp add: same_poolD)
    ultimately show ?thesis
      using False x(2) d'(5) by auto
  qed
qed

text \<open>A run of fewer than 64 pages comes from one word of the bitmap.\<close>

lemma slots_in_word:
  assumes "r \<in> slots count F" "0 < count"
  shows "r mod 64 + count \<le> 64" "{r..<r + count} \<subseteq> F" "r \<in> F"
proof -
  obtain i opt where r: "r = i * 64 + opt * count" "opt < 64 div count" "{r..<r + count} \<subseteq> F"
    using assms(1) by (auto simp: slots_def)
  have "(opt + 1) * count \<le> 64 div count * count"
    using r(2) by (intro mult_le_mono1) simp
  also have "\<dots> \<le> 64" by simp
  finally have "opt * count + count \<le> 64" by simp
  with assms(2) show "r mod 64 + count \<le> 64" by (simp add: r(1))
  show "{r..<r + count} \<subseteq> F" by (rule r(3))
  then show "r \<in> F" using assms(2) by auto
qed

lemma page_Allocate_range_ok:
  assumes "page_pool d F" "0 < count" "count < 64" "0 < page_count d"
  shows "\<exists>r d'. page_Allocate_range count d = Some (map_option (page_at d) r, d') \<and> same_pool d d' \<and>
    (case r of None \<Rightarrow> slots count F = {} \<and> page_pool d' F
     | Some x \<Rightarrow> {x..<x + count} \<subseteq> F \<and> page_pool d' (F - {x..<x + count}))"
proof -
  obtain lo hi where ok: "page_size d \<le> 8 * lo" "bitmap_ok (first_bit d + page_count d) lo hi (m_backing_memory d) (m_page_bitmap d) F"
    using assms(1) by (auto simp: page_pool_def)
  obtain r g where r: "FindFreeRange count (m_backing_memory d) (m_page_bitmap d) = Some (r, (m_page_bitmap d)\<lparr>bitmap_rng := g\<rparr>)"
    "case r of None \<Rightarrow> slots count F = {} | Some x \<Rightarrow> x \<in> slots count F"
    using FindFreeRange_ok [OF ok(2) assms(2,3)] assms(4) by auto
  show ?thesis
  proof (cases r)
    case None
    let ?d = "d\<lparr>m_page_bitmap := (m_page_bitmap d)\<lparr>bitmap_rng := g\<rparr>\<rparr>"
    have "page_pool ?d F"
      using assms(1) ok by (auto simp: page_pool_def pool_shape_def first_bit_def)
    then show ?thesis
      using None r by (intro exI [of _ None] exI [of _ ?d]) (simp add: page_Allocate_range_def)
  next
    case (Some x)
    let ?A = "{x..<x + count}" and ?f = "\<lambda>s. map_option snd (ClearRange x count s)"
    have x: "x mod 64 + count \<le> 64" "?A \<subseteq> F" "x \<in> F"
      using r(2) Some slots_in_word [of x count F] assms(2) by auto
    have bits: "\<exists>mem'. ?f (m_backing_memory d, (m_page_bitmap d)\<lparr>bitmap_rng := g\<rparr>) =
          Some (mem', (m_page_bitmap d)\<lparr>bitmap_rng := g, m_num_bits := card (F - ?A)\<rparr>) \<and>
        bitmap_ok sz lo hi mem' ((m_page_bitmap d)\<lparr>m_num_bits := card (F - ?A)\<rparr>) (F - ?A) \<and>
        outside lo hi (m_backing_memory d) mem'"
      if "bitmap_ok sz lo hi (m_backing_memory d) (m_page_bitmap d) F" for sz lo hi
    proof -
      have "bitmap_ok sz lo hi (m_backing_memory d) ((m_page_bitmap d)\<lparr>bitmap_rng := g\<rparr>) F" "x < sz"
        using that x(3) bitmap_okD(5) [OF that] by auto
      from ClearRange_ok [OF this(1) assms(2,3) x(1) this(2)] x(2) show ?thesis
        by (auto simp: bitmap_ok_def)
    qed
    obtain d' where d': "on_bitmap ?f (d\<lparr>m_page_bitmap := (m_page_bitmap d)\<lparr>bitmap_rng := g\<rparr>\<rparr>) = Some d'"
      "page_used d' = page_used d" "page_peak d' = page_peak d" "same_pool d d'"
      "\<And>peak. page_pool (d'\<lparr>page_used := wrap64 (page_used d + card ?A), page_peak := peak\<rparr>) (F - ?A)"
      by (rule take_pages [OF assms(1) x(2), where f = ?f and g = g]) (use bits in auto)
    let ?d = "d'\<lparr>page_used := wrap64 (page_used d + count), page_peak := max (page_peak d) (wrap64 (page_used d + count))\<rparr>"
    have "page_Allocate_range count d = Some (Some (page_at ?d x), ?d)"
      using r(1) Some d'(1-3) by (simp add: page_Allocate_range_def Let_def)
    moreover have "same_pool d ?d"
      by (rule same_pool_counts [OF d'(4)])
    moreover from this have "page_at ?d x = page_at d x"
      by (simp add: same_poolD)
    ultimately show ?thesis
      using Some x(2) d'(5) by (intro exI [of _ "Some x"] exI [of _ ?d]) simp
  qed
qed

text \<open>The pointers of a run follow each other.\<close>

lemma page_run_ptrs:
  assumes "page_pool d F" "{x..<x + n} \<subseteq> F" "0 < n"
  shows "page_ptrs d {x..<x + n} = (\<lambda>i. page_at d x + i * PageBytes) ` {..<n}"
proof -
  have "page_at d (x + i) = page_at d x + i * PageBytes" if "i < n" for i
  proof -
    have xi: "x + i \<in> F" "x \<in> F" using assms(2,3) that by auto
    have "first_bit d \<le> x" using xi(2) page_poolD(2) [OF assms(1)] by auto
    then have "x + i - first_bit d = (x - first_bit d) + i" by simp
    then show ?thesis
      using page_poolD(5) [OF assms(1) xi(1)] page_poolD(5) [OF assms(1) xi(2)] by (simp only: add_mult_distrib)
  qed
  moreover have "{x..<x + n} = (\<lambda>i. x + i) ` {..<n}"
    by (simp add: lessThan_atLeast0 image_add_atLeastLessThan add.commute)
  ultimately show ?thesis
    by (simp add: page_ptrs_def image_image)
qed

text \<open>A run of 64 pages shifts a word by its width, which is undefined.\<close>

lemma page_Allocate_range_word:
  assumes "page_pool d F" "0 < page_count d"
  shows "page_Allocate_range 64 d = None"
proof -
  obtain lo hi where "bitmap_ok (first_bit d + page_count d) lo hi (m_backing_memory d) (m_page_bitmap d) F"
    using assms(1) by (auto simp: page_pool_def)
  then show ?thesis
    using FindFreeRange_word_undefined assms(2) by (simp add: page_Allocate_range_def)
qed

end
