(* ===== verification/DynamicSlab_Init.thy ===== *)
theory DynamicSlab_Init
  imports DynamicSlab_Laws
begin

text \<open>
  The initialisation of the page manager: it makes all pages below its bitmap free.
\<close>

lemma clear_bytes_ok:
  assumes "ptr div 8 + n div 8 \<le> length mem"
  obtains mem' where "clear_bytes ptr n mem = Some mem'" "length mem' = length mem"
    "\<And>j. ptr div 8 \<le> j \<Longrightarrow> j < ptr div 8 + n div 8 \<Longrightarrow> mem' ! j = 0"
    "\<And>j. j < ptr div 8 \<or> ptr div 8 + n div 8 \<le> j \<Longrightarrow> j < length mem \<Longrightarrow> mem' ! j = mem ! j"
proof -
  let ?p = "ptr div 8" and ?n = "n div 8"
  let ?mem = "take ?p mem @ replicate ?n 0 @ drop (?p + ?n) mem"
  have "clear_bytes ptr n mem = Some ?mem" "length ?mem = length mem"
    using assms by (simp_all add: clear_bytes_def)
  moreover have "?mem ! j = 0" if "?p \<le> j" "j < ?p + ?n" for j
  proof -
    have "j - ?p < ?n" using that by linarith
    then show ?thesis using that assms by (simp add: nth_append)
  qed
  moreover have "?mem ! j = mem ! j" if "j < ?p \<or> ?p + ?n \<le> j" "j < length mem" for j
    using that assms by (auto simp: nth_append)
  ultimately show thesis by (rule that)
qed

lemma page_bit:
  assumes "pool_shape d" "i < page_count d"
  shows "sub64 (wrap64 (page_address d + i * PageBytes)) (m_aligned_address d) div PageBytes = first_bit d + i"
    "wrap64 (page_GetPointer d (page_address d) + i * PageBytes) = i * PageBytes"
proof -
  let ?k = "page_address d - m_aligned_address d"
  have k: "?k = first_bit d * PageBytes" "m_aligned_address d \<le> page_address d"
    using assms(1) by (simp_all add: pool_shape_def first_bit_def)
  have "(i + 1) * PageBytes \<le> page_count d * PageBytes"
    using assms(2) by (intro mult_le_mono1) simp
  then have "page_address d + i * PageBytes < 2 ^ 64"
    using assms(1) by (simp add: pool_shape_def)
  then have small: "page_address d + i * PageBytes < 2 ^ 64" "page_address d < 2 ^ 64" "i * PageBytes < 2 ^ 64"
    by simp_all
  have "sub64 (wrap64 (page_address d + i * PageBytes)) (m_aligned_address d) = ?k + i * PageBytes"
    using small(1) k(2) by (simp add: wrap64_less sub64_less)
  then have "sub64 (wrap64 (page_address d + i * PageBytes)) (m_aligned_address d) = (first_bit d + i) * PageBytes"
    by (simp add: k(1) add_mult_distrib)
  then show "sub64 (wrap64 (page_address d + i * PageBytes)) (m_aligned_address d) div PageBytes = first_bit d + i"
    by (simp add: PageBytes_def)
  show "wrap64 (page_GetPointer d (page_address d) + i * PageBytes) = i * PageBytes"
    using small(2,3) by (simp add: page_GetPointer_def sub64_less wrap64_less)
qed

lemma page_below:
  assumes "i < page_count d" "page_size d = page_count d * PageBytes" "page_size d \<le> 8 * lo"
  shows "i * PageBytes div 8 + PageBytes div 8 \<le> lo"
proof -
  have "(i + 1) * PageBytes \<le> 8 * lo"
    using assms mult_le_mono1 [of "i + 1" "page_count d" PageBytes] by simp
  then show ?thesis by (simp add: PageBytes_def)
qed

lemma free_pages_ok:
  assumes "pool_shape d" "page_size d \<le> 8 * lo" "lo \<le> hi"
    "bitmap_ok (first_bit d + page_count d) lo hi (m_backing_memory d) (m_page_bitmap d) F"
    "distinct is" "set is \<subseteq> {..<page_count d}" "\<And>i. i \<in> set is \<Longrightarrow> first_bit d + i \<notin> F"
  shows "\<exists>d'. free_pages is d = Some d' \<and> same_pool d d' \<and> page_used d' = page_used d \<and> page_peak d' = page_peak d \<and>
    bitmap_ok (first_bit d + page_count d) lo hi (m_backing_memory d') (m_page_bitmap d') (F \<union> (\<lambda>i. first_bit d + i) ` set is)"
  using assms
proof (induction "is" arbitrary: d F)
  case (Cons i "is")
  let ?sz = "first_bit d + page_count d" and ?x = "first_bit d + i"
  have i: "i < page_count d" using Cons.prems(6) by simp
  have below: "i * PageBytes div 8 + PageBytes div 8 \<le> lo"
    using page_below [OF i _ Cons.prems(2)] Cons.prems(1) by (simp add: pool_shape_def)
  have "i * PageBytes div 8 + PageBytes div 8 \<le> length (m_backing_memory d)"
    using below Cons.prems(3) bitmap_okD(2) [OF Cons.prems(4)] by linarith
  then obtain mem where mem: "clear_bytes (i * PageBytes) PageBytes (m_backing_memory d) = Some mem"
    "length mem = length (m_backing_memory d)"
    "\<And>j. j < i * PageBytes div 8 \<or> i * PageBytes div 8 + PageBytes div 8 \<le> j \<Longrightarrow> j < length (m_backing_memory d) \<Longrightarrow>
      mem ! j = m_backing_memory d ! j"
    by (rule clear_bytes_ok) blast
  have "bitmap_ok ?sz lo hi mem (m_page_bitmap d) F"
    using below bitmap_okD(2) [OF Cons.prems(4)] by (intro bitmap_ok_frame [OF Cons.prems(4) mem(2)] mem(3)) auto
  then obtain mem' where mem': "SetBit ?x (mem, m_page_bitmap d) = Some (mem', (m_page_bitmap d)\<lparr>m_num_bits := card (insert ?x F)\<rparr>)"
    "bitmap_ok ?sz lo hi mem' ((m_page_bitmap d)\<lparr>m_num_bits := card (insert ?x F)\<rparr>) (insert ?x F)" "outside lo hi mem mem'"
    using SetBit_ok [of ?sz lo hi mem "m_page_bitmap d" F ?x] i Cons.prems(7) [of i] by auto
  let ?d = "d\<lparr>m_backing_memory := mem', m_page_bitmap := (m_page_bitmap d)\<lparr>m_num_bits := card (insert ?x F)\<rparr>\<rparr>"
  have same: "same_pool d ?d"
    using mem(2) mem'(3) by (simp add: same_pool_def outside_def)
  note eqs = same_poolD [OF same]
  have "free_pages (i # is) d = free_pages is ?d"
    using mem(1) mem'(1) page_bit [OF Cons.prems(1) i] by (simp add: on_bitmap_def)
  moreover have "\<exists>d'. free_pages is ?d = Some d' \<and> same_pool ?d d' \<and> page_used d' = page_used ?d \<and> page_peak d' = page_peak ?d \<and>
    bitmap_ok (first_bit ?d + page_count ?d) lo hi (m_backing_memory d') (m_page_bitmap d') (insert ?x F \<union> (\<lambda>i. first_bit ?d + i) ` set is)"
    using Cons.prems mem'(2) by (intro Cons.IH) (auto simp: eqs)
  ultimately show ?case
    using same_pool_trans [OF same] by (auto simp: eqs)
qed auto

section \<open>The extents\<close>

text \<open>
  The arguments for which the manager is used: whole pages that do not wrap around the address space
  (they may lie in its upper half, where the kernel's are), fewer than 2 to the 24 of them from the
  aligned address on, which is what the four levels of a bitmap cover.
\<close>

definition pool_args :: "nat \<Rightarrow> nat \<Rightarrow> nat \<Rightarrow> bool" where
  "pool_args memory sz align \<longleftrightarrow> PageBytes dvd memory \<and> PageBytes dvd sz \<and> PageBytes dvd align \<and> 0 < sz \<and>
     memory + sz < 2 ^ 64 \<and> memory + sz - AlignDown_size memory align < 2 ^ 36"

definition pool_overhead :: "nat \<Rightarrow> nat \<Rightarrow> nat \<Rightarrow> nat" where
  "pool_overhead memory sz align =
     AlignUp_size (overhead ((memory + sz - AlignDown_size memory align) div PageBytes)) PageBytes"

lemma pool_overhead_facts:
  assumes "pool_args memory sz align"
  defines "managed \<equiv> (memory + sz - AlignDown_size memory align) div PageBytes"
  shows "managed < 64 ^ 4" "PageBytes dvd pool_overhead memory sz align" "overhead managed \<le> pool_overhead memory sz align"
proof -
  have "memory + sz - AlignDown_size memory align < 64 ^ 4 * PageBytes"
    using assms(1) by (simp add: pool_args_def PageBytes_def)
  then show lt: "managed < 64 ^ 4"
    unfolding managed_def by (rule less_mult_imp_div_less)
  then have "overhead managed \<le> 40 * managed"
    by (intro overhead_bound) simp
  then have small: "overhead managed + PageBytes < 2 ^ 64"
    using lt by (simp add: PageBytes_def)
  show "PageBytes dvd pool_overhead memory sz align" "overhead managed \<le> pool_overhead memory sz align"
    unfolding pool_overhead_def using AlignUp_dvd [OF small] AlignUp_ge [OF small]
    by (simp_all add: PageBytes_def managed_def)
qed

lemma pool_extents:
  fixes memory sz align
  defines "ov \<equiv> pool_overhead memory sz align" and "al \<equiv> AlignDown_size memory align"
  assumes args: "pool_args memory sz align" and "ov < sz"
  shows "(sz - ov) div PageBytes * PageBytes = sz - ov" "AlignDown_size (sz - ov) PageBytes = sz - ov"
    "8 * ((sz - ov) div 8) = sz - ov" "(sz - ov) div 8 + ov div 8 = sz div 8"
    "(memory + sz - ov - al) div PageBytes = (memory - al) div PageBytes + (sz - ov) div PageBytes"
    "0 < (sz - ov) div PageBytes" "PageBytes dvd memory - al" "al \<le> memory"
    "overhead ((memory + sz - ov - al) div PageBytes) div 8 \<le> ov div 8"
    "(memory + sz - ov - al) div PageBytes < 64 ^ 4"
proof -
  have dvd: "PageBytes dvd sz" "PageBytes dvd ov" "PageBytes dvd memory" "PageBytes dvd al"
    using args pool_overhead_facts(2) [OF args] dvd_trans [OF _ AlignDown_dvd]
    by (auto simp: pool_args_def ov_def al_def)
  then show rest: "(sz - ov) div PageBytes * PageBytes = sz - ov" "AlignDown_size (sz - ov) PageBytes = sz - ov"
    by (simp_all add: AlignDown_size_def dvd_imp_mod_0)
  have eight: "8 dvd PageBytes" by (simp add: PageBytes_def)
  have eights: "8 dvd sz" "8 dvd ov"
    using dvd_trans [OF eight dvd(1)] dvd_trans [OF eight dvd(2)] .
  then show "8 * ((sz - ov) div 8) = sz - ov" "(sz - ov) div 8 + ov div 8 = sz div 8"
    using assms(4) by (auto elim!: dvdE)
  show le: "al \<le> memory" unfolding al_def by (rule AlignDown_le)
  show mod: "PageBytes dvd memory - al" using dvd(3,4) by simp
  have "memory + sz - ov - al = (memory - al) + (sz - ov)"
    using le assms(4) by simp
  then show "(memory + sz - ov - al) div PageBytes = (memory - al) div PageBytes + (sz - ov) div PageBytes"
    using mod by (simp only: div_plus_div_distrib_dvd_left)
  show "0 < (sz - ov) div PageBytes"
    using rest(1) assms(4) by (metis gr_zeroI mult_0 zero_less_diff less_numeral_extra(3))
  note managed = pool_overhead_facts [OF args, folded al_def]
  have pages: "(memory + sz - ov - al) div PageBytes \<le> (memory + sz - al) div PageBytes"
    by (rule div_le_mono) simp
  then show "(memory + sz - ov - al) div PageBytes < 64 ^ 4"
    using managed(1) by (rule le_less_trans)
  have "overhead ((memory + sz - ov - al) div PageBytes) \<le> ov"
    using overhead_mono [OF pages] managed(1,3) unfolding ov_def by simp
  then show "overhead ((memory + sz - ov - al) div PageBytes) div 8 \<le> ov div 8"
    by (rule div_le_mono)
qed

section \<open>The initial pool\<close>

lemma free_all_pages:
  assumes "pool_shape d" "page_size d \<le> 8 * lo" "lo \<le> hi" "page_used d = 0"
    "bitmap_ok (first_bit d + page_count d) lo hi (m_backing_memory d) (m_page_bitmap d) {}"
  shows "\<exists>d'. free_pages [0..<page_count d] d = Some d' \<and> same_pool d d' \<and> page_used d' = 0 \<and>
    page_pool d' {first_bit d'..<first_bit d' + page_count d'}"
proof -
  let ?all = "{first_bit d..<first_bit d + page_count d}"
  have "(\<lambda>i. first_bit d + i) ` set [0..<page_count d] = ?all"
    by (simp add: image_add_atLeastLessThan add.commute)
  then obtain d' where d': "free_pages [0..<page_count d] d = Some d'" "same_pool d d'" "page_used d' = 0"
    "bitmap_ok (first_bit d + page_count d) lo hi (m_backing_memory d') (m_page_bitmap d') ?all"
    using free_pages_ok [OF assms(1-3,5), of "[0..<page_count d]"] assms(4) by (auto simp: lessThan_atLeast0)
  have "page_pool d' ?all"
    using d'(3,4) assms(1,2) unfolding page_pool_def same_poolD [OF d'(2)] by auto
  then show ?thesis
    using d' by (intro exI [of _ d']) (simp add: same_poolD)
qed

text \<open>The announced size of the bitmap is enough for the pages below it.\<close>

lemma page_Initialize_ok:
  fixes d memory sz align
  defines "ov \<equiv> pool_overhead memory sz align"
  assumes args: "pool_args memory sz align" and new: "page_used d = 0"
    "length (m_bit_storages (m_page_bitmap d)) = MaxDepth" "length (m_end_storages (m_page_bitmap d)) = MaxDepth"
  shows "\<exists>d'. page_Initialize memory sz align d = Some (if ov < sz then ResultSuccess else ResultOutOfMemory, d') \<and>
    (ov < sz \<longrightarrow> page_address d' = memory \<and> backing_base d' = backing_base d \<and> m_aligned_address d' = AlignDown_size memory align \<and>
       page_count d' = (sz - ov) div PageBytes \<and> page_used d' = 0 \<and> page_pool d' {first_bit d'..<first_bit d' + page_count d'})"
proof -
  let ?al = "AlignDown_size memory align" and ?mem0 = "resize (sz div 8) (m_backing_memory d)"
  let ?d1 = "d\<lparr>m_backing_memory := ?mem0, page_address := memory, m_aligned_address := ?al\<rparr>"
  have small: "memory + sz < 2 ^ 64" "0 < sz" "?al \<le> memory"
    using args AlignDown_le by (simp_all add: pool_args_def)
  then have ov_eq: "AlignUp_size (overhead (sub64 (wrap64 (memory + sz)) ?al div PageBytes)) PageBytes = ov"
    by (simp add: wrap64_less sub64_less ov_def pool_overhead_def)
  show ?thesis
  proof (cases "ov < sz")
    case False
    then show ?thesis
      using small(2) by (intro exI [of _ ?d1]) (simp add: page_Initialize_def ov_eq)
  next
    case True
    note ext = pool_extents [OF args, folded ov_def, OF True]
    let ?lo = "(sz - ov) div 8" and ?pages = "(memory + sz - ov - ?al) div PageBytes"
    let ?hi = "?lo + overhead ?pages div 8"
    let ?d2 = "?d1\<lparr>page_size := sz - ov, page_count := (sz - ov) div PageBytes\<rparr>"
    have "length ?mem0 = sz div 8"
      by (auto simp: resize_def min_def)
    then obtain mem where mem: "clear_bytes (sz - ov) ov ?mem0 = Some mem" "length mem = sz div 8"
      "\<And>j. ?lo \<le> j \<Longrightarrow> j < sz div 8 \<Longrightarrow> mem ! j = 0"
      using clear_bytes_ok [of "sz - ov" ov ?mem0] ext(4) by (metis order.refl)
    obtain bm where bm: "KPageBitmap_Initialize ?lo ?pages (m_page_bitmap d) = Some (?hi, bm)" "bitmap_ok ?pages ?lo ?hi mem bm {}"
      using KPageBitmap_Initialize_ok [OF _ ext(10) new(2,3), of ?lo mem] mem(2,3) ext(4-6,9) by auto
    let ?d3 = "?d2\<lparr>m_backing_memory := mem, m_page_bitmap := bm\<rparr>"
    have "sz \<le> memory + sz - ?al" using small(3) by simp
    also have "\<dots> < 2 ^ 36" using args by (simp add: pool_args_def)
    finally have shape: "memory + (sz - ov) < 2 ^ 64" "sz - ov < 2 ^ 63"
      using small(1) by simp_all
    have "pool_shape ?d3" "page_size ?d3 \<le> 8 * ?lo" "?lo \<le> ?hi" "page_used ?d3 = 0"
      "bitmap_ok (first_bit ?d3 + page_count ?d3) ?lo ?hi (m_backing_memory ?d3) (m_page_bitmap ?d3) {}"
      using ext(1,3,5,7,8) shape new(1) bm(2) by (simp_all add: pool_shape_def first_bit_def)
    then obtain d' where d': "free_pages [0..<page_count ?d3] ?d3 = Some d'" "same_pool ?d3 d'" "page_used d' = 0"
      "page_pool d' {first_bit d'..<first_bit d' + page_count d'}"
      using free_all_pages by blast
    have ptr: "sub64 (wrap64 (memory + sz - ov)) memory = sz - ov" "sub64 (wrap64 (memory + sz - ov)) ?al = memory + sz - ov - ?al"
      using small True by (simp_all add: wrap64_less sub64_less)
    have "page_Initialize memory sz align d = Some (ResultSuccess, d')"
      using small(2) True mem(1) bm(1) d'(1) by (simp add: page_Initialize_def ov_eq ext(2) page_GetPointer_def ptr)
    then show ?thesis
      using True d' by (intro exI [of _ d']) (auto simp: same_pool_def)
  qed
qed

end
