(* ===== verification/DynamicSlab_Use.thy ===== *)
theory DynamicSlab_Use
  imports DynamicSlab_Init
begin

text \<open>
  The slab heap over the pool of pages: the objects that are in use and those that are free are
  exactly the objects of the pages the heap has taken. The contract of a source of objects is the
  locale \<open>object_source\<close>.
\<close>

section \<open>Objects of pages\<close>

definition page_objects :: "nat \<Rightarrow> nat \<Rightarrow> nat set" where
  "page_objects T p = (\<lambda>j. p + j * T) ` {..<objects_per_page T}"

definition objects_of :: "nat \<Rightarrow> nat set \<Rightarrow> nat set" where
  "objects_of T ps = (\<Union>p \<in> ps. page_objects T p)"

definition bytes_at :: "nat \<Rightarrow> nat \<Rightarrow> nat set" where
  "bytes_at T a = {a..<a + T}"

lemma objects_fit: "j < objects_per_page T \<Longrightarrow> j * T + T \<le> PageBytes"
proof -
  assume "j < objects_per_page T"
  then have "(j + 1) * T \<le> PageBytes div T * T"
    unfolding objects_per_page_def by (intro mult_le_mono1) simp
  also have "\<dots> \<le> PageBytes" by simp
  finally show ?thesis by simp
qed

lemma objects_of_simps [simp]:
  "objects_of T {} = {}" "objects_of T (insert p ps) = page_objects T p \<union> objects_of T ps"
  by (auto simp: objects_of_def)

lemma object_in_page:
  assumes "a \<in> page_objects T p" shows "bytes_at T a \<subseteq> {p..<p + PageBytes}" "p \<le> a" "a + T \<le> p + PageBytes"
  using assms objects_fit by (fastforce simp: page_objects_def bytes_at_def)+

lemma page_disjoint:
  assumes "PageBytes dvd p" "PageBytes dvd q" "p \<noteq> q"
  shows "{p..<p + PageBytes} \<inter> {q..<q + PageBytes} = {}"
proof -
  obtain i j where ij: "p = PageBytes * i" "q = PageBytes * j"
    using assms(1,2) by (auto elim!: dvdE)
  with assms(3) have "i < j \<or> j < i" by auto
  then show ?thesis
  proof
    assume "i < j"
    then have "PageBytes * (i + 1) \<le> PageBytes * j" by (intro mult_le_mono2) simp
    then show ?thesis by (auto simp: ij)
  next
    assume "j < i"
    then have "PageBytes * (j + 1) \<le> PageBytes * i" by (intro mult_le_mono2) simp
    then show ?thesis by (auto simp: ij)
  qed
qed

lemma objects_apart:
  assumes "\<And>p. p \<in> ps \<Longrightarrow> PageBytes dvd p" "a \<in> objects_of T ps" "b \<in> objects_of T ps" "a \<noteq> b" 
  shows "bytes_at T a \<inter> bytes_at T b = {}"
proof -
  obtain p q where pq: "p \<in> ps" "a \<in> page_objects T p" "q \<in> ps" "b \<in> page_objects T q"
    using assms(2,3) by (auto simp: objects_of_def)
  show ?thesis
  proof (cases "p = q")
    case True
    obtain i j where ij: "a = p + i * T" "b = p + j * T" "i \<noteq> j"
      using pq(2,4) assms(4) True by (auto simp: page_objects_def)
    then have "i < j \<or> j < i" by auto
    then show ?thesis
    proof
      assume "i < j"
      then have "(i + 1) * T \<le> j * T" by (intro mult_le_mono1) simp
      then show ?thesis by (auto simp: ij bytes_at_def)
    next
      assume "j < i"
      then have "(j + 1) * T \<le> i * T" by (intro mult_le_mono1) simp
      then show ?thesis by (auto simp: ij bytes_at_def)
    qed
  next
    case False
    then show ?thesis
      using page_disjoint [OF assms(1) [OF pq(1)] assms(1) [OF pq(3)]] object_in_page(1) [OF pq(2)] object_in_page(1) [OF pq(4)] by blast
  qed
qed

lemma page_objects_disjoint:
  assumes "PageBytes dvd p" "\<And>q. q \<in> ps \<Longrightarrow> PageBytes dvd q" "p \<notin> ps" "0 < T"
  shows "page_objects T p \<inter> objects_of T ps = {}"
proof -
  have "a \<notin> page_objects T q" if "a \<in> page_objects T p" "q \<in> ps" for a q
  proof
    assume "a \<in> page_objects T q"
    then have "a \<in> {q..<q + PageBytes}" "a \<in> {p..<p + PageBytes}"
      using object_in_page [of a T q] object_in_page [of a T p] that(1) assms(4) by auto
    then show False
      using page_disjoint [OF assms(1) assms(2) [OF that(2)]] that(2) assms(3) by blast
  qed
  then show ?thesis by (auto simp: objects_of_def)
qed

lemma card_page_objects: "0 < T \<Longrightarrow> card (page_objects T p) = objects_per_page T"
  unfolding page_objects_def by (subst card_image) (auto simp: inj_on_def)

section \<open>The slab\<close>

text \<open>
  \<open>slab_rep T ps s L\<close>: the heap has taken the pages \<open>ps\<close>, the objects \<open>L\<close> are in use, and its free
  list has the other objects.
\<close>

definition slab_rep :: "nat \<Rightarrow> nat set \<Rightarrow> KDynamicSlabHeap \<Rightarrow> nat set \<Rightarrow> bool" where
  "slab_rep T ps s L \<longleftrightarrow> 0 < T \<and> T \<le> PageBytes \<and> finite ps \<and> (\<forall>p \<in> ps. PageBytes dvd p \<and> p + PageBytes < 2 ^ 63) \<and>
     distinct (m_head s) \<and> set (m_head s) \<inter> L = {} \<and> set (m_head s) \<union> L = objects_of T ps \<and>
     slab_used s = card L \<and> slab_count s = card (objects_of T ps)"

text \<open>The taken pages are pages of the pool, and no free ones.\<close>

definition taken_from :: "KDynamicPageManager \<Rightarrow> nat set \<Rightarrow> nat set \<Rightarrow> bool" where
  "taken_from d F ps \<longleftrightarrow> page_ptrs d F \<inter> ps = {} \<and> (\<forall>p \<in> ps. p + PageBytes \<le> page_size d)"

definition manager_ok :: "nat \<Rightarrow> KDynamicPageManager option \<Rightarrow> nat set \<Rightarrow> nat \<Rightarrow> bool" where
  "manager_ok T d ps n \<longleftrightarrow>
     (case d of None \<Rightarrow> n = 0
      | Some d \<Rightarrow> \<exists>F. page_pool d F \<and> taken_from d F ps \<and> n = objects_per_page T * card F)"

text \<open>The objects in use and the number of objects that can still be had.\<close>

definition slab_ok :: "nat \<Rightarrow> KDynamicPageManager option \<times> KDynamicSlabHeap \<Rightarrow> nat set \<Rightarrow> nat \<Rightarrow> bool" where
  "slab_ok T m L n \<longleftrightarrow>
     (\<exists>ps k. slab_rep T ps (snd m) L \<and> manager_ok T (fst m) ps k \<and> n = length (m_head (snd m)) + k)"

lemma slab_repD:
  assumes "slab_rep T ps s L"
  shows "0 < T" "T \<le> PageBytes" "finite ps" "\<And>p. p \<in> ps \<Longrightarrow> PageBytes dvd p" "\<And>p. p \<in> ps \<Longrightarrow> p + PageBytes < 2 ^ 63"
    "finite L" "L \<subseteq> objects_of T ps" "card (objects_of T ps) < 2 ^ 63" "0 < objects_per_page T" "finite (objects_of T ps)"
proof -
  show "0 < T" "T \<le> PageBytes" and fin: "finite ps" and dvd: "\<And>p. p \<in> ps \<Longrightarrow> PageBytes dvd p"
    and bound: "\<And>p. p \<in> ps \<Longrightarrow> p + PageBytes < 2 ^ 63" and L: "L \<subseteq> objects_of T ps"
    using assms by (auto simp: slab_rep_def)
  show "0 < objects_per_page T"
    using \<open>0 < T\<close> \<open>T \<le> PageBytes\<close> by (simp add: objects_per_page_def div_greater_zero_iff)
  show "finite (objects_of T ps)"
    using fin by (simp add: objects_of_def page_objects_def)
  then show "finite L" using L finite_subset by blast
  have "objects_of T ps \<subseteq> {..<2 ^ 63 - 1}"
  proof
    fix a assume "a \<in> objects_of T ps"
    then obtain p where p: "p \<in> ps" "a \<in> page_objects T p" by (auto simp: objects_of_def)
    then show "a \<in> {..<2 ^ 63 - 1}"
      using bound [OF p(1)] object_in_page(3) [OF p(2)] \<open>0 < T\<close> by simp
  qed
  then have "card (objects_of T ps) \<le> card {..<(2 :: nat) ^ 63 - 1}"
    by (intro card_mono) simp_all
  then show "card (objects_of T ps) < 2 ^ 63" by simp
qed

lemma set_push_objects:
  assumes "allocated + PageBytes < 2 ^ 64"
  shows "push_objects T allocated i nodes = rev (map (\<lambda>j. allocated + j * T) [i..<objects_per_page T]) @ nodes"
proof -
  have "fold (\<lambda>j. push_node (wrap64 (allocated + j * T))) js nodes = rev (map (\<lambda>j. allocated + j * T) js) @ nodes"
    if "set js \<subseteq> {..<objects_per_page T}" for js
    using that
  proof (induction js arbitrary: nodes)
    case (Cons j js)
    have "allocated + j * T < 2 ^ 64"
      using objects_fit [of j T] Cons.prems assms by simp
    then show ?case
      using Cons by (simp add: push_node_def wrap64_less)
  qed simp
  then show ?thesis by (simp add: push_objects_def subset_iff)
qed

text \<open>A page that comes to the heap; its objects from the index \<open>i\<close> on go to the free list.\<close>

lemma slab_rep_page:
  assumes rep: "slab_rep T ps s L" and p: "PageBytes dvd p" "p + PageBytes < 2 ^ 63" "p \<notin> ps"
    and i: "i \<le> objects_per_page T"
  defines "s' \<equiv> s\<lparr>m_head := push_objects T p i (m_head s), slab_count := wrap64 (slab_count s + objects_per_page T)\<rparr>"
  shows "slab_rep T (insert p ps) (s'\<lparr>slab_used := card L + i, slab_peak := peak\<rparr>) (L \<union> (\<lambda>j. p + j * T) ` {..<i})"
    "length (m_head s') = length (m_head s) + (objects_per_page T - i)" "slab_used s' = slab_used s"
proof -
  note r = slab_repD [OF rep] and rep' = rep [unfolded slab_rep_def]
  let ?n = "objects_per_page T" and ?new = "(\<lambda>j. p + j * T) ` {..<i}"
  have head: "m_head s' = rev (map (\<lambda>j. p + j * T) [i..<?n]) @ m_head s"
    using set_push_objects [of p T i "m_head s"] p(2) by (simp add: s'_def)
  then show "length (m_head s') = length (m_head s) + (?n - i)" "slab_used s' = slab_used s"
    by (simp_all add: s'_def)
  have disj: "page_objects T p \<inter> objects_of T ps = {}"
    using r(1,4) p(1,3) by (intro page_objects_disjoint)
  have inj: "inj (\<lambda>j. p + j * T)" using r(1) by (auto simp: inj_def)
  have split: "{..<?n} = {i..<?n} \<union> {..<i}" "{i..<?n} \<inter> {..<i} = {}"
    using i by auto
  have new: "(\<lambda>j. p + j * T) ` {i..<?n} \<union> ?new = page_objects T p" "(\<lambda>j. p + j * T) ` {i..<?n} \<inter> ?new = {}"
    unfolding page_objects_def split(1) image_Un image_Int [OF inj, symmetric] split(2) by simp_all
  have card: "card (L \<union> ?new) = card L + i"
  proof -
    have "?new \<subseteq> page_objects T p" unfolding new(1) [symmetric] by (rule Un_upper2)
    then have "L \<inter> ?new = {}" using disj r(7) by blast
    then show ?thesis
      using r(6) inj by (simp add: card_Un_disjoint card_image inj_on_subset [OF inj])
  qed
  have all: "card (objects_of T (insert p ps)) = card (objects_of T ps) + ?n"
    using disj r(10) card_Un_disjoint [of "page_objects T p" "objects_of T ps"] card_page_objects [OF r(1), of p]
    by (simp add: page_objects_def)
  show "slab_rep T (insert p ps) (s'\<lparr>slab_used := card L + i, slab_peak := peak\<rparr>) (L \<union> ?new)"
    unfolding slab_rep_def
  proof (intro conjI)
    show "distinct (m_head (s'\<lparr>slab_used := card L + i, slab_peak := peak\<rparr>))"
    proof -
      have "(\<lambda>j. p + j * T) ` {i..<?n} \<inter> set (m_head s) = {}"
        using rep' disj new(1) by blast
      then show ?thesis
        using rep' by (simp add: head distinct_map inj_on_subset [OF inj])
    qed
    show "set (m_head (s'\<lparr>slab_used := card L + i, slab_peak := peak\<rparr>)) \<inter> (L \<union> ?new) = {}"
      using rep' disj new r(7) by (simp add: head) blast
    show "set (m_head (s'\<lparr>slab_used := card L + i, slab_peak := peak\<rparr>)) \<union> (L \<union> ?new) = objects_of T (insert p ps)"
      using rep' new(1) by (simp add: head) blast
    show "slab_count (s'\<lparr>slab_used := card L + i, slab_peak := peak\<rparr>) = card (objects_of T (insert p ps))"
    proof -
      have "?n \<le> PageBytes" by (simp add: objects_per_page_def)
      then have "card (objects_of T ps) + ?n < 2 ^ 64" using r(8) by (simp add: PageBytes_def)
      then show ?thesis using rep' all by (simp add: s'_def wrap64_less)
    qed
  qed (use rep' p card in \<open>auto\<close>)
qed

lemma page_ptr_facts:
  assumes "page_pool d F" "x \<in> F"
  shows "PageBytes dvd page_at d x" "page_at d x + PageBytes < 2 ^ 63" "page_at d x \<in> page_ptrs d F"
proof -
  show ptr: "page_at d x \<in> page_ptrs d F" using assms(2) by (simp add: page_ptrs_def)
  have "page_size d < 2 ^ 63" using page_poolD(1) [OF assms(1)] by (simp add: pool_shape_def)
  then show "PageBytes dvd page_at d x" "page_at d x + PageBytes < 2 ^ 63"
    using page_ptrs_facts [OF assms(1) ptr] by simp_all
qed

text \<open>What stays of the pool when a page goes to the heap.\<close>

lemma taken_from_take:
  assumes "page_pool d F" "taken_from d F ps" "x \<in> F" "same_pool d d'"
  shows "taken_from d' (F - {x}) (insert (page_at d x) ps)" "taken_from d' (F - {x}) ps" "page_at d x \<notin> ps"
proof -
  have "page_ptrs d' (F - {x}) = page_ptrs d F - {page_at d x}"
    using page_ptrs_remove [OF assms(1), of "{x}"] assms(3) by (simp add: same_poolD [OF assms(4)] page_ptrs_def)
  moreover have "page_at d x \<in> page_ptrs d F" "page_at d x + PageBytes \<le> page_size d"
    using page_ptr_facts(3) [OF assms(1,3)] page_ptrs_facts(2) [OF assms(1)] by auto
  ultimately show "taken_from d' (F - {x}) (insert (page_at d x) ps)" "taken_from d' (F - {x}) ps" "page_at d x \<notin> ps"
    using assms(2) same_poolD(7) [OF assms(4)] by (auto simp: taken_from_def)
qed

lemma manager_ok_take:
  assumes "page_pool d F" "taken_from d F ps" "x \<in> F" "page_pool d' (F - {x})" "same_pool d d'"
  shows "manager_ok T (Some d') (insert (page_at d x) ps) (objects_per_page T * (card F - 1))"
    "manager_ok T (Some d') ps (objects_per_page T * (card F - 1))"
  using taken_from_take [OF assms(1-3,5)] assms(3,4) by (auto simp: manager_ok_def intro!: exI [of _ "F - {x}"])

lemma slab_used_next:
  assumes "slab_rep T ps s L" shows "wrap64 (slab_used s + 1) = card L + 1"
proof -
  have "card L \<le> card (objects_of T ps)"
    using slab_repD [OF assms] by (intro card_mono)
  then show ?thesis
    using assms slab_repD(8) [OF assms] by (simp add: slab_rep_def wrap64_less)
qed

text \<open>An empty free list is filled up from a page, whose first object is handed out.\<close>

lemma slab_Allocate_page:
  assumes rep: "slab_rep T ps s L" and F: "page_pool d F" "taken_from d F ps" and "F \<noteq> {}" "m_head s = []"
  shows "\<exists>a m'. slab_Allocate T (Some d, s) = Some (Some a, m') \<and> a \<notin> L \<and>
    slab_ok T m' (insert a L) (objects_per_page T * card F - 1)"
proof -
  note r = slab_repD [OF rep]
  obtain x d' where x: "page_Allocate d = Some (Some (page_at d x), d')" "x \<in> F" "page_pool d' (F - {x})" "same_pool d d'"
    using page_Allocate_ok [OF F(1)] assms(4) by auto
  let ?p = "page_at d x" and ?n = "objects_per_page T"
  note p = page_ptr_facts [OF F(1) x(2)]
  have fresh: "?p \<notin> ps" by (rule taken_from_take(3) [OF F x(2,4)])
  let ?s = "s\<lparr>m_head := push_objects T ?p 1 (m_head s), slab_count := wrap64 (slab_count s + ?n)\<rparr>"
  let ?s' = "?s\<lparr>slab_used := card L + 1, slab_peak := max (slab_peak s) (card L + 1)\<rparr>"
  have new: "slab_rep T (insert ?p ps) ?s' (insert ?p L)" "length (m_head ?s) = ?n - 1"
    using slab_rep_page [OF rep p(1,2) fresh, of 1] r(9) assms(5)
    by (simp_all add: Suc_le_eq lessThan_Suc)
  have "?p \<in> page_objects T ?p"
    using r(9) by (force simp: page_objects_def)
  then have "?p \<notin> L"
    using page_objects_disjoint [OF p(1) r(4) fresh r(1)] r(7) by blast
  moreover have "slab_Allocate T (Some d, s) = Some (Some ?p, Some d', ?s')"
    using x(1) slab_used_next [OF rep] assms(5) by (simp add: slab_Allocate_def more_objects_def Let_def)
  moreover have "slab_ok T (Some d', ?s') (insert ?p L) (?n * card F - 1)"
  proof -
    have "0 < card F" using assms(4) page_poolD(3) [OF F(1)] by (simp add: card_gt_0_iff)
    then have "?n * card F - 1 = length (m_head ?s') + ?n * (card F - 1)"
      using new(2) r(9) by (cases "card F") simp_all
    then show ?thesis
      using new(1) manager_ok_take(1) [OF F x(2-4)] unfolding slab_ok_def by auto
  qed
  ultimately show ?thesis by blast
qed

lemma slab_Allocate_ok:
  assumes "slab_ok T m L n"
  shows "if n = 0 then slab_Allocate T m = Some (None, m)
    else \<exists>a m'. slab_Allocate T m = Some (Some a, m') \<and> a \<notin> L \<and> slab_ok T m' (insert a L) (n - 1)"
proof -
  obtain md s where m: "m = (md, s)" by (cases m)
  obtain ps k where rep: "slab_rep T ps s L" "manager_ok T md ps k" "n = length (m_head s) + k"
    using assms by (auto simp: slab_ok_def m)
  note r = slab_repD [OF rep(1)] and rep' = rep(1) [unfolded slab_rep_def]
  show ?thesis
  proof (cases "m_head s")
    case (Cons a nodes)
    let ?s = "s\<lparr>m_head := nodes, slab_used := card L + 1, slab_peak := max (slab_peak s) (card L + 1)\<rparr>"
    have "a \<notin> L" "slab_rep T ps ?s (insert a L)"
      using rep' r(6) Cons by (auto simp: slab_rep_def)
    moreover have "slab_Allocate T m = Some (Some a, md, ?s)"
      using Cons slab_used_next [OF rep(1)] by (simp add: slab_Allocate_def m Let_def)
    ultimately show ?thesis
      using rep(2,3) Cons by (auto simp: slab_ok_def)
  next
    case Nil
    then have head: "s\<lparr>m_head := []\<rparr> = s" by simp
    show ?thesis
    proof (cases md)
      case None
      then show ?thesis
        using rep(2,3) Nil head by (simp add: slab_Allocate_def more_objects_def manager_ok_def m)
    next
      case (Some d)
      then obtain F where F: "page_pool d F" "taken_from d F ps" "n = objects_per_page T * card F"
        using rep(2,3) Nil by (auto simp: manager_ok_def)
      show ?thesis
      proof (cases "F = {}")
        case True
        then show ?thesis
          using page_Allocate_ok [OF F(1)] F(3) Nil Some head by (simp add: slab_Allocate_def more_objects_def m)
      next
        case False
        then have "n \<noteq> 0"
          using page_poolD(3) [OF F(1)] r(9) F(3) by simp
        then show ?thesis
          using slab_Allocate_page [OF rep(1) F(1,2) False Nil] F(3) Some by (simp add: m)
      qed
    qed
  qed
qed

lemma slab_Free_ok:
  assumes "slab_ok T m L n" "a \<in> L"
  shows "slab_ok T (slab_Free a m) (L - {a}) (n + 1)"
proof -
  obtain ps k where rep: "slab_rep T ps (snd m) L" "manager_ok T (fst m) ps k" "n = length (m_head (snd m)) + k"
    using assms by (auto simp: slab_ok_def)
  note r = slab_repD [OF rep(1)] and rep' = rep(1) [unfolded slab_rep_def]
  have "card L \<le> card (objects_of T ps)" "0 < card L"
    using r(6,7,10) assms(2) by (auto intro: card_mono simp: card_gt_0_iff)
  then have "sub64 (card L) 1 = card (L - {a})"
    using assms(2) r(8) by (subst sub64_less) auto
  then have "slab_rep T ps (snd (slab_Free a m)) (L - {a})"
    using rep' assms(2) by (auto simp: slab_rep_def slab_Free_def push_node_def)
  then show ?thesis
    using rep(2,3) unfolding slab_ok_def by (auto simp: slab_Free_def push_node_def)
qed

section \<open>The contract\<close>

text \<open>
  A source of objects of \<open>T\<close> bytes: \<open>has m L n\<close> says that the objects \<open>L\<close> are in use and \<open>n\<close> more can
  be had. An allocation gives a fresh object while there is one, and never fails before.
\<close>

locale object_source =
  fixes has :: "'m \<Rightarrow> nat set \<Rightarrow> nat \<Rightarrow> bool" and alloc :: "'m \<Rightarrow> (nat option \<times> 'm) option"
    and release :: "nat \<Rightarrow> 'm \<Rightarrow> 'm" and T :: nat
  assumes alloc_ok: "has m L n \<Longrightarrow> if n = 0 then alloc m = Some (None, m)
      else \<exists>a m'. alloc m = Some (Some a, m') \<and> a \<notin> L \<and> has m' (insert a L) (n - 1)"
    and release_ok: "has m L n \<Longrightarrow> a \<in> L \<Longrightarrow> has (release a m) (L - {a}) (n + 1)"
    and apart: "has m L n \<Longrightarrow> a \<in> L \<Longrightarrow> b \<in> L \<Longrightarrow> a \<noteq> b \<Longrightarrow> {a..<a + T} \<inter> {b..<b + T} = {}"
begin

text \<open>Releasing all objects of a list.\<close>

lemma release_all:
  "has m L n \<Longrightarrow> distinct as \<Longrightarrow> set as \<subseteq> L \<Longrightarrow> has (fold release as m) (L - set as) (n + length as)"
proof (induction as arbitrary: m L n)
  case (Cons a as)
  have "has (release a m) (L - {a}) (n + 1)"
    using Cons.prems by (intro release_ok) auto
  then have "has (fold release as (release a m)) (L - {a} - set as) (n + 1 + length as)"
    using Cons.prems by (intro Cons.IH) auto
  moreover have "L - {a} - set as = L - set (a # as)" by auto
  ultimately show ?case by simp
qed simp

end

interpretation slab: object_source "slab_ok T" "slab_Allocate T" slab_Free T for T
proof
  show "if n = 0 then slab_Allocate T m = Some (None, m)
      else \<exists>a m'. slab_Allocate T m = Some (Some a, m') \<and> a \<notin> L \<and> slab_ok T m' (insert a L) (n - 1)"
    if "slab_ok T m L n" for m L n
    by (rule slab_Allocate_ok [OF that])
  show "slab_ok T (slab_Free a m) (L - {a}) (n + 1)" if "slab_ok T m L n" "a \<in> L" for m L n a
    by (rule slab_Free_ok [OF that])
  show "{a..<a + T} \<inter> {b..<b + T} = {}" if "slab_ok T m L n" "a \<in> L" "b \<in> L" "a \<noteq> b" for m L n a b
  proof -
    from that(1) obtain ps where rep: "slab_rep T ps (snd m) L" by (auto simp: slab_ok_def)
    note r = slab_repD [OF rep]
    show ?thesis
      using objects_apart [OF r(4), of ps a T b] r(7) that(2-4) by (auto simp: bytes_at_def)
  qed
qed

section \<open>Initialisation\<close>

lemma slab_rep_new: "0 < T \<Longrightarrow> T \<le> PageBytes \<Longrightarrow> slab_rep T {} (new_KDynamicSlabHeap\<lparr>slab_address := a, slab_size := z\<rparr>) {}"
  by (simp add: slab_rep_def new_KDynamicSlabHeap_def)

lemma fill_slab_ok:
  assumes "slab_rep T ps s {}" "page_pool d F" "taken_from d F ps" "num \<le> slab_count s + objects_per_page T * card F"
  shows "\<exists>d' s' ps' F'. fill_slab T num d s = Some (d', s') \<and> slab_rep T ps' s' {} \<and> page_pool d' F' \<and>
    taken_from d' F' ps' \<and> num \<le> slab_count s' \<and> same_pool d d' \<and>
    slab_count s' + objects_per_page T * card F' = slab_count s + objects_per_page T * card F"
  using assms
proof (induction "card F" arbitrary: s d F ps)
  case 0
  then have "\<not> slab_count s < num" by simp
  then show ?case
    using 0 by (intro exI [of _ d] exI [of _ s] exI [of _ ps] exI [of _ F]) (simp add: fill_slab.simps)
next
  case (Suc k)
  show ?case
  proof (cases "slab_count s < num")
    case False
    then show ?thesis
      using Suc.prems by (intro exI [of _ d] exI [of _ s] exI [of _ ps] exI [of _ F]) (simp add: fill_slab.simps)
  next
    case True
    let ?n = "objects_per_page T"
    have "F \<noteq> {}" using Suc.hyps(2) by auto
    then obtain x d1 where x: "page_Allocate d = Some (Some (page_at d x), d1)" "x \<in> F" "page_pool d1 (F - {x})" "same_pool d d1"
      using page_Allocate_ok [OF Suc.prems(2)] by auto
    note p = page_ptr_facts [OF Suc.prems(2) x(2)] and r = slab_repD [OF Suc.prems(1)]
    note taken = taken_from_take [OF Suc.prems(2,3) x(2,4)]
    let ?s = "s\<lparr>m_head := push_objects T (page_at d x) 0 (m_head s), slab_count := wrap64 (slab_count s + ?n)\<rparr>"
    have rep: "slab_rep T (insert (page_at d x) ps) ?s {}"
      using slab_rep_page(1) [OF Suc.prems(1) p(1,2) taken(3), of 0] Suc.prems(1) by (simp add: slab_rep_def)
    have count: "slab_count ?s = slab_count s + ?n"
    proof -
      have "?n \<le> PageBytes" by (simp add: objects_per_page_def)
      then show ?thesis
        using r(8) Suc.prems(1) by (simp add: slab_rep_def wrap64_less PageBytes_def)
    qed
    have card: "card (F - {x}) = k" "card F = Suc k"
      using Suc.hyps(2) x(2) page_poolD(3) [OF Suc.prems(2)] by simp_all
    have "num \<le> slab_count ?s + ?n * card (F - {x})"
      using Suc.prems(4) card count by simp
    then obtain d' s' ps' F' where "fill_slab T num d1 ?s = Some (d', s')" "slab_rep T ps' s' {}" "page_pool d' F'"
      "taken_from d' F' ps'" "num \<le> slab_count s'" "same_pool d1 d'"
      "slab_count s' + ?n * card F' = slab_count ?s + ?n * card (F - {x})"
      using Suc.hyps(1) [OF card(1) [symmetric] rep x(3) taken(1)] by blast
    then show ?thesis
      using True x(1) same_pool_trans [OF x(4)] count card
      by (intro exI [of _ d'] exI [of _ s'] exI [of _ ps'] exI [of _ F']) (simp add: fill_slab.simps [of T num d s])
  qed
qed

lemma slab_Initialize_ok:
  assumes "0 < T" "T \<le> PageBytes" "page_pool d F" "num \<le> objects_per_page T * card F"
  shows "\<exists>d' s'. slab_Initialize T num d new_KDynamicSlabHeap = Some (d', s') \<and>
    slab_ok T (None, s') {} (slab_count s') \<and> num \<le> slab_count s' \<and>
    slab_ok T (Some d', s') {} (objects_per_page T * card F) \<and> same_pool d d'"
proof -
  let ?s = "new_KDynamicSlabHeap\<lparr>slab_address := page_address d, slab_size := page_size d\<rparr>"
  have count: "slab_count ?s = 0" by (simp add: new_KDynamicSlabHeap_def)
  obtain d' s' ps' F' where fill: "fill_slab T num d ?s = Some (d', s')" "slab_rep T ps' s' {}" "page_pool d' F'"
    "taken_from d' F' ps'" "num \<le> slab_count s'" "same_pool d d'" "slab_count s' + objects_per_page T * card F' = objects_per_page T * card F"
    using fill_slab_ok [OF slab_rep_new [OF assms(1,2)] assms(3), of num "page_size d" "page_address d"] assms(4)
    unfolding count by (auto simp: new_KDynamicSlabHeap_def taken_from_def)
  have head: "length (m_head s') = slab_count s'"
    using fill(2) by (simp add: slab_rep_def distinct_card [symmetric])
  have "slab_ok T (None, s') {} (slab_count s')"
    using fill(2) head by (auto simp: slab_ok_def manager_ok_def)
  moreover have "slab_ok T (Some d', s') {} (objects_per_page T * card F)"
    using fill head by (fastforce simp: slab_ok_def manager_ok_def)
  ultimately show ?thesis
    using fill by (auto simp: slab_Initialize_def)
qed

end
