(* ===== verification/DynamicSlab_Properties.thy ===== *)
theory DynamicSlab_Properties
  imports DynamicSlab_Use
begin

text \<open>
  Runs of a slab heap over a pool of pages that it shares with others, and the theorem about its
  objects; and the operation of the page manager that cannot work.
\<close>

section \<open>Runs\<close>

text \<open>The pages and the objects of the pool.\<close>

definition pool_pages :: "nat \<Rightarrow> nat \<Rightarrow> nat \<Rightarrow> nat" where
  "pool_pages memory sz align = (sz - pool_overhead memory sz align) div PageBytes"

text \<open>
  The use of a pool by others: it is set up in \<open>sz\<close> bytes at \<open>memory\<close>, and \<open>k\<close> pages are taken from it.
\<close>

inductive pool_run :: "nat \<Rightarrow> nat \<Rightarrow> nat \<Rightarrow> KDynamicPageManager \<Rightarrow> nat \<Rightarrow> bool" for memory sz align where
  pool_new: "page_Initialize memory sz align (new_KDynamicPageManager seed host) = Some (ResultSuccess, d) \<Longrightarrow>
    pool_run memory sz align d 0"
| pool_taken: "pool_run memory sz align d k \<Longrightarrow> page_Allocate d = Some (Some p, d') \<Longrightarrow>
    pool_run memory sz align d' (k + 1)"

text \<open>
  \<open>slab_run T memory sz align num m L k\<close>: a slab with at least \<open>num\<close> objects of \<open>T\<close> bytes is set up on such a pool,
  with enough pages left for them; then objects are allocated and freed, and others take pages from
  the pool, \<open>k\<close> in all. A resource manager without a page allocator, like the one for the blocks of
  applications, allocates from the same slab and never takes a page for it.
\<close>

inductive slab_run ::
  "nat \<Rightarrow> nat \<Rightarrow> nat \<Rightarrow> nat \<Rightarrow> nat \<Rightarrow> KDynamicPageManager option \<times> KDynamicSlabHeap \<Rightarrow> nat set \<Rightarrow> nat \<Rightarrow> bool"
  for T memory sz align num where
  start: "pool_run memory sz align d k \<Longrightarrow> num \<le> objects_per_page T * (pool_pages memory sz align - k) \<Longrightarrow>
    slab_Initialize T num d new_KDynamicSlabHeap = Some (d', s) \<Longrightarrow> slab_run T memory sz align num (Some d', s) {} k"
| allocated: "slab_run T memory sz align num m L k \<Longrightarrow> slab_Allocate T m = Some (Some a, m') \<Longrightarrow>
    slab_run T memory sz align num m' (insert a L) k"
| refused: "slab_run T memory sz align num m L k \<Longrightarrow> slab_Allocate T m = Some (None, m') \<Longrightarrow>
    slab_run T memory sz align num m' L k"
| allocated_fixed: "slab_run T memory sz align num (d, s) L k \<Longrightarrow> slab_Allocate T (None, s) = Some (Some a, d', s') \<Longrightarrow>
    slab_run T memory sz align num (d, s') (insert a L) k"
| refused_fixed: "slab_run T memory sz align num (d, s) L k \<Longrightarrow> slab_Allocate T (None, s) = Some (None, d', s') \<Longrightarrow>
    slab_run T memory sz align num (d, s') L k"
| freed: "slab_run T memory sz align num m L k \<Longrightarrow> a \<in> L \<Longrightarrow> slab_run T memory sz align num (slab_Free a m) (L - {a}) k"
| page_taken: "slab_run T memory sz align num (Some d, s) L k \<Longrightarrow> page_Allocate d = Some (Some p, d') \<Longrightarrow>
    slab_run T memory sz align num (Some d', s) L (k + 1)"

text \<open>
  What the set-up asks for: an object holds a node of the free list (eight bytes) and fits a page, the
  pool has the extents above, and its bitmap does not use it up.
\<close>

definition slab_fits :: "nat \<Rightarrow> nat \<Rightarrow> nat \<Rightarrow> nat \<Rightarrow> bool" where
  "slab_fits T memory sz align \<longleftrightarrow> 8 \<le> T \<and> T \<le> PageBytes \<and> pool_args memory sz align \<and>
     pool_overhead memory sz align < sz"

definition run_inv :: "nat \<Rightarrow> nat \<Rightarrow> KDynamicPageManager option \<times> KDynamicSlabHeap \<Rightarrow> nat set \<Rightarrow> nat \<Rightarrow> bool" where
  "run_inv T pages m L k \<longleftrightarrow>
     (\<exists>n. slab_ok T m L n \<and> n + card L + objects_per_page T * k = objects_per_page T * pages) \<and>
     (\<exists>d. fst m = Some d \<and> page_count d = pages \<and> page_size d = pages * PageBytes)"

lemma slab_Allocate_pool:
  assumes "slab_Allocate T (Some d, s) = Some (r, m')" "page_pool d F"
  shows "\<exists>d' s'. m' = (Some d', s') \<and> same_pool d d'"
proof (cases "m_head s")
  case Nil
  show ?thesis
  proof (cases "F = {}")
    case True
    then show ?thesis
      using Nil assms(1) page_Allocate_ok [OF assms(2)] by (auto simp: slab_Allocate_def more_objects_def)
  next
    case False
    then obtain x d' where "page_Allocate d = Some (Some (page_at d x), d')" "same_pool d d'"
      using page_Allocate_ok [OF assms(2)] by auto
    then show ?thesis
      using Nil assms(1) by (auto simp: slab_Allocate_def more_objects_def Let_def)
  qed
qed (use assms(1) in \<open>auto simp: slab_Allocate_def Let_def\<close>)

lemma slab_ok_live:
  assumes "slab_ok T m L n" shows "finite L" "slab_used (snd m) = card L"
proof -
  obtain ps where rep: "slab_rep T ps (snd m) L" using assms by (auto simp: slab_ok_def)
  then show "finite L" "slab_used (snd m) = card L"
    using slab_repD(6) [OF rep] by (simp_all add: slab_rep_def)
qed

lemma pool_run_ok:
  assumes "pool_run memory sz align d k" "slab_fits T memory sz align"
  shows "\<exists>F. page_pool d F \<and> card F + k = pool_pages memory sz align \<and> page_count d = pool_pages memory sz align"
  using assms(1)
proof induction
  case (pool_new seed host d)
  have args: "pool_args memory sz align" "pool_overhead memory sz align < sz"
    using assms(2) by (simp_all add: slab_fits_def)
  have new: "page_used (new_KDynamicPageManager seed host) = 0"
    "length (m_bit_storages (m_page_bitmap (new_KDynamicPageManager seed host))) = MaxDepth"
    "length (m_end_storages (m_page_bitmap (new_KDynamicPageManager seed host))) = MaxDepth"
    by (simp_all add: new_KDynamicPageManager_def new_KPageBitmap_def)
  have "page_pool d {first_bit d..<first_bit d + page_count d}" "page_count d = pool_pages memory sz align"
    using page_Initialize_ok [OF args(1) new] args(2) pool_new by (auto simp: pool_pages_def)
  then show ?case by (intro exI [of _ "{first_bit d..<first_bit d + page_count d}"]) simp
next
  case (pool_taken d k p d')
  then obtain F where F: "page_pool d F" "card F + k = pool_pages memory sz align" "page_count d = pool_pages memory sz align"
    by blast
  then have "F \<noteq> {}" using page_Allocate_ok [OF F(1)] pool_taken.hyps(2) by auto
  then obtain x where x: "x \<in> F" "page_pool d' (F - {x})" "same_pool d d'"
    using page_Allocate_ok [OF F(1)] pool_taken.hyps(2) by auto
  have "card (F - {x}) + (k + 1) = pool_pages memory sz align"
    using F(2) x(1) page_poolD(3) [OF F(1)] card_Suc_Diff1 [of F x] by simp
  then show ?case using x(2) F(3) same_poolD(6) [OF x(3)] by auto
qed

lemma run_inv_start:
  assumes fits: "slab_fits T memory sz align" and d: "pool_run memory sz align d k"
    and num: "num \<le> objects_per_page T * (pool_pages memory sz align - k)"
  shows "\<exists>d' s. slab_Initialize T num d new_KDynamicSlabHeap = Some (d', s) \<and>
    run_inv T (pool_pages memory sz align) (Some d', s) {} k"
proof -
  obtain F where F: "page_pool d F" "card F + k = pool_pages memory sz align" "page_count d = pool_pages memory sz align"
    using pool_run_ok [OF d fits] by blast
  then have size: "page_size d = pool_pages memory sz align * PageBytes"
    using page_poolD(1) [OF F(1)] by (simp add: pool_shape_def)
  have "num \<le> objects_per_page T * card F"
    using num F(2) by (metis add_diff_cancel_right')
  moreover have "0 < T" "T \<le> PageBytes" using fits by (simp_all add: slab_fits_def)
  ultimately obtain d1 s where s: "slab_Initialize T num d new_KDynamicSlabHeap = Some (d1, s)"
    "slab_ok T (Some d1, s) {} (objects_per_page T * card F)" "same_pool d d1"
    using slab_Initialize_ok [OF _ _ F(1), of T num] by blast
  have "objects_per_page T * card F + card {} + objects_per_page T * k = objects_per_page T * pool_pages memory sz align"
    by (simp flip: F(2) add: add_mult_distrib2)
  then show ?thesis
    using s size F(3) same_poolD [OF s(3)] unfolding run_inv_def by fastforce
qed

text \<open>Allocating without a page allocator is allocating with one, as long as there is a free object.\<close>

lemma slab_Allocate_fixed:
  "slab_Allocate T (None, s) = Some (Some a, d', s') \<Longrightarrow> slab_Allocate T (d, s) = Some (Some a, d, s')"
  "slab_Allocate T (None, s) = Some (None, d', s') \<Longrightarrow> s' = s"
  by (cases "m_head s"; auto simp: slab_Allocate_def more_objects_def Let_def)+

lemma run_inv_step:
  assumes inv: "run_inv T pages m L k" and a: "slab_Allocate T m = Some (r, m')"
  shows "case r of None \<Rightarrow> run_inv T pages m' L k | Some a \<Rightarrow> run_inv T pages m' (insert a L) k"
proof -
  obtain n d where n: "slab_ok T m L n" "n + card L + objects_per_page T * k = objects_per_page T * pages"
    "fst m = Some d" "page_count d = pages" "page_size d = pages * PageBytes"
    using inv by (auto simp: run_inv_def)
  obtain F where "page_pool d F" using n(1,3) by (auto simp: slab_ok_def manager_ok_def)
  then obtain d' where d': "fst m' = Some d'" "page_count d' = pages" "page_size d' = pages * PageBytes"
    using slab_Allocate_pool [of T d "snd m" r m'] a n(3-5) same_poolD by (metis fst_conv prod.collapse)
  show ?thesis
  proof (cases "n = 0")
    case True
    then show ?thesis using slab.alloc_ok [OF n(1)] a inv by simp
  next
    case False
    then obtain b where "r = Some b" "b \<notin> L" "slab_ok T m' (insert b L) (n - 1)"
      using slab.alloc_ok [OF n(1)] a by auto
    then show ?thesis
      using False n(2) d' slab_ok_live(1) [OF n(1)] by (auto simp: run_inv_def intro!: exI [of _ "n - 1"])
  qed
qed

lemma run_inv_freed:
  assumes "run_inv T pages m L k" "a \<in> L" shows "run_inv T pages (slab_Free a m) (L - {a}) k"
proof -
  obtain n where n: "slab_ok T m L n" "n + card L + objects_per_page T * k = objects_per_page T * pages"
    using assms(1) by (auto simp: run_inv_def)
  have "card L = card (L - {a}) + 1"
    using assms(2) slab_ok_live(1) [OF n(1)] by (metis Suc_eq_plus1 card_Suc_Diff1)
  then have "n + 1 + card (L - {a}) + objects_per_page T * k = objects_per_page T * pages"
    using n(2) by simp
  then show ?thesis
    using slab.release_ok [OF n(1) assms(2)] assms(1) by (auto simp: run_inv_def slab_Free_def)
qed

lemma run_inv_taken:
  assumes "run_inv T pages (Some d, s) L k" "page_Allocate d = Some (Some p, d')"
  shows "run_inv T pages (Some d', s) L (k + 1)"
proof -
  obtain n ps F where n: "n + card L + objects_per_page T * k = objects_per_page T * pages" "slab_rep T ps s L"
    "page_pool d F" "taken_from d F ps" "n = length (m_head s) + objects_per_page T * card F"
    "page_count d = pages" "page_size d = pages * PageBytes"
    using assms(1) by (auto simp: run_inv_def slab_ok_def manager_ok_def)
  have "F \<noteq> {}" using page_Allocate_ok [OF n(3)] assms(2) by auto
  then obtain x where x: "x \<in> F" "page_pool d' (F - {x})" "same_pool d d'"
    using page_Allocate_ok [OF n(3)] assms(2) by auto
  let ?n = "length (m_head s) + objects_per_page T * (card F - 1)"
  have "slab_ok T (Some d', s) L ?n"
    using n(2) manager_ok_take(2) [OF n(3,4) x, of T] by (auto simp: slab_ok_def)
  moreover have "?n + card L + objects_per_page T * (k + 1) = objects_per_page T * pages"
    using n(1,5) \<open>F \<noteq> {}\<close> page_poolD(3) [OF n(3)] by (cases "card F") (auto simp: algebra_simps)
  ultimately show ?thesis
    using n(6,7) same_poolD [OF x(3)] by (auto simp: run_inv_def)
qed

lemma slab_run_inv:
  assumes "slab_run T memory sz align num m L k" "slab_fits T memory sz align"
  shows "run_inv T (pool_pages memory sz align) m L k"
  using assms(1)
proof induction
  case (start d k d' s)
  then show ?case using run_inv_start [OF assms(2) start(1,2)] by auto
next
  case (allocated m L k a m')
  then show ?case using run_inv_step [OF allocated.IH allocated.hyps(2)] by simp
next
  case (refused m L k m')
  then show ?case using run_inv_step [OF refused.IH refused.hyps(2)] by simp
next
  case (allocated_fixed d s L k a d' s')
  then show ?case using run_inv_step [OF allocated_fixed.IH slab_Allocate_fixed(1) [OF allocated_fixed.hyps(2)]] by simp
next
  case (refused_fixed d s L k d' s')
  then show ?case using slab_Allocate_fixed(2) [OF refused_fixed.hyps(2)] by simp
next
  case (freed m L k a)
  show ?case by (rule run_inv_freed [OF freed.IH freed.hyps(2)])
next
  case (page_taken d s L k p d')
  show ?case by (rule run_inv_taken [OF page_taken.IH page_taken.hyps(2)])
qed

lemma run_inv_bytes:
  assumes "run_inv T pages m L k" "a \<in> L" shows "a + T \<le> pages * PageBytes"
proof -
  obtain d ps F where "slab_rep T ps (snd m) L" "taken_from d F ps" "page_size d = pages * PageBytes"
    using assms(1) by (auto simp: run_inv_def slab_ok_def manager_ok_def)
  then obtain p where "p \<in> ps" "a \<in> page_objects T p" "p + PageBytes \<le> pages * PageBytes"
    using slab_repD(7) [of T ps "snd m" L] assms(2) by (fastforce simp: objects_of_def taken_from_def)
  then show ?thesis using object_in_page(3) [of a T p] by simp
qed

section \<open>A small pool\<close>

text \<open>
  Sixteen pages at a kernel address, of which one holds the bitmap, for objects of sixteen bytes;
  others have taken two pages before the slab is set up.
\<close>

abbreviation small_pool :: nat where
  "small_pool \<equiv> 0xFFFFFFA000000000"

lemma small_overhead: "pool_overhead small_pool 0x10000 0x1000 = 0x1000"
  by (simp add: pool_overhead_def AlignDown_size_def AlignUp_size_def PageBytes_def KPageBitmap_CalculateManagementOverheadSize_def
      GetRequiredDepth_def required_depth_loop.simps Let_def wrap64_def)

lemma small_pool_facts: "pool_pages small_pool 0x10000 0x1000 = 15" "objects_per_page 16 = 256"
  by (simp_all add: pool_pages_def small_overhead objects_per_page_def PageBytes_def)

lemma small_slab_fits: "slab_fits 16 small_pool 0x10000 0x1000"
  by (simp add: slab_fits_def pool_args_def small_overhead PageBytes_def AlignDown_size_def)

lemma small_pool_run: "\<exists>d. pool_run small_pool 0x10000 0x1000 d 2"
proof -
  let ?new = "new_KDynamicPageManager 0 0"
  have "page_used ?new = 0" "length (m_bit_storages (m_page_bitmap ?new)) = MaxDepth"
    "length (m_end_storages (m_page_bitmap ?new)) = MaxDepth" "pool_args small_pool 0x10000 0x1000"
    using small_slab_fits by (simp_all add: new_KDynamicPageManager_def new_KPageBitmap_def slab_fits_def)
  then obtain d where d: "page_Initialize small_pool 0x10000 0x1000 ?new = Some (ResultSuccess, d)"
    using page_Initialize_ok [of small_pool "0x10000" "0x1000" ?new] small_overhead by auto
  have more: "\<exists>d'. pool_run small_pool 0x10000 0x1000 d' (k + 1)" if run: "pool_run small_pool 0x10000 0x1000 d k" and k: "k < 15" for d k
  proof -
    obtain F where "page_pool d F" "card F + k = 15"
      using pool_run_ok [OF run small_slab_fits] small_pool_facts(1) by auto
    then obtain p d' where "page_Allocate d = Some (Some p, d')"
      using page_Allocate_ok [of d F] k by (cases "F = {}") auto
    then show ?thesis using pool_run.pool_taken [OF run] by blast
  qed
  from more [OF pool_run.pool_new [OF d]] obtain d1 where "pool_run small_pool 0x10000 0x1000 d1 1" by auto
  from more [OF this] show ?thesis by (simp add: numeral_2_eq_2)
qed

lemma small_slab_run: "\<exists>m. slab_run 16 small_pool 0x10000 0x1000 512 m {} 2"
proof -
  obtain d where d: "pool_run small_pool 0x10000 0x1000 d 2" using small_pool_run by blast
  have "512 \<le> objects_per_page 16 * (pool_pages small_pool 0x10000 0x1000 - 2)" by (simp add: small_pool_facts)
  with run_inv_start [OF small_slab_fits d this] slab_run.start [OF d this] show ?thesis by blast
qed

text \<open>
  C10. A slab heap over a pool of pages that others use as well, at any kernel address: the pool is a
  whole number of pages that does not wrap around the address space, its bitmap (four levels, so
  fewer than 2 to the 24 pages) does not use it up, an object is between a node of the free list
  (eight bytes) and a page, and the pages that others took before leave room for the objects asked
  for. In every such run the objects in use lie in the pool and do not overlap, the heap counts them
  exactly, and an allocation that may take pages always returns: it fails exactly when the objects
  in use and the pages of others make up the whole pool.
\<close>

theorem slab_objects_never_shared:
  assumes "slab_fits T memory sz align" "slab_run T memory sz align num m L k"
  shows "(\<forall>a \<in> L. a + T \<le> pool_pages memory sz align * PageBytes) \<and>
    (\<forall>a \<in> L. \<forall>b \<in> L. a \<noteq> b \<longrightarrow> {a..<a + T} \<inter> {b..<b + T} = {}) \<and> slab_used (snd m) = card L \<and>
    (\<exists>r m'. slab_Allocate T m = Some (r, m') \<and>
       (r = None \<longleftrightarrow> card L + objects_per_page T * k = objects_per_page T * pool_pages memory sz align))"
proof -
  note inv = slab_run_inv [OF assms(2,1)]
  then obtain n where n: "slab_ok T m L n"
    "n + card L + objects_per_page T * k = objects_per_page T * pool_pages memory sz align"
    by (auto simp: run_inv_def)
  have full: "n = 0 \<longleftrightarrow> card L + objects_per_page T * k = objects_per_page T * pool_pages memory sz align"
    using n(2) by linarith
  have "\<exists>r m'. slab_Allocate T m = Some (r, m') \<and> (r = None \<longleftrightarrow> n = 0)"
    using slab.alloc_ok [OF n(1)] by (cases "n = 0") auto
  then show ?thesis
    using run_inv_bytes [OF inv] slab.apart [OF n(1)] slab_ok_live(2) [OF n(1)] unfolding full by blast
qed

lemma slab_objects_never_shared_witness:
  "\<exists>m a. slab_run 16 0xFFFFFFA000000000 0x10000 0x1000 512 m {a} 2 \<and> slab_used (snd m) = 1 \<and> a + 16 \<le> 0xF000"
proof -
  obtain m where m: "slab_run 16 small_pool 0x10000 0x1000 512 m {} 2"
    using small_slab_run by blast
  obtain a m' where a: "slab_Allocate 16 m = Some (Some a, m')"
    using slab_objects_never_shared [OF small_slab_fits m] small_pool_facts by auto
  then have run: "slab_run 16 small_pool 0x10000 0x1000 512 m' {a} 2"
    using slab_run.allocated [OF m] by blast
  then show ?thesis
    using slab_objects_never_shared [OF small_slab_fits run] small_pool_facts
    by (intro exI [of _ m'] exI [of _ a]) (simp add: PageBytes_def)
qed

section \<open>Giving pages back\<close>

text \<open>
  \<^verbatim>\<open>Free\<close> computes the index of a page from its host address and the guest address of the pool. When
  the two address spaces are far apart, as they are, the index lies outside of the bitmap and the
  access is undefined.
\<close>

lemma page_Free_undefined:
  assumes "page_pool d F" "m_aligned_address d + 64 * PageBytes * length (m_backing_memory d) \<le> backing_base d + pb"
    "backing_base d + pb < 2 ^ 64"
  shows "page_Free pb d = None"
proof -
  obtain lo hi where ok: "bitmap_ok (first_bit d + page_count d) lo hi (m_backing_memory d) (m_page_bitmap d) F"
    using assms(1) by (auto simp: page_pool_def)
  let ?x = "sub64 (wrap64 (backing_base d + pb)) (m_aligned_address d) div PageBytes"
  have "sub64 (wrap64 (backing_base d + pb)) (m_aligned_address d) = backing_base d + pb - m_aligned_address d"
    using assms(2,3) by (simp add: wrap64_less sub64_less)
  then have "64 * length (m_backing_memory d) * PageBytes \<le> sub64 (wrap64 (backing_base d + pb)) (m_aligned_address d)"
    using assms(2) by (simp add: algebra_simps)
  then have "64 * length (m_backing_memory d) \<le> ?x"
    by (simp add: PageBytes_def less_eq_div_iff_mult_less_eq)
  then have x: "length (m_backing_memory d) \<le> ?x div 64" by simp
  have "SetBit ?x (mem, m_page_bitmap d) = None" if "length mem = length (m_backing_memory d)" for mem
  proof -
    obtain k where "m_used_depths (m_page_bitmap d) = Suc k"
      using bitmap_okD(8) [OF ok] by (cases "m_used_depths (m_page_bitmap d)") auto
    then show ?thesis
      using x that by (cases "fetch (m_bit_storages (m_page_bitmap d)) k") (simp_all add: SetBit_def fetch_def)
  qed
  moreover have "length mem = length (m_backing_memory d)" if "clear_bytes pb PageBytes (m_backing_memory d) = Some mem" for mem
    using that by (auto simp: clear_bytes_def split: if_splits)
  ultimately show ?thesis
    by (cases "clear_bytes pb PageBytes (m_backing_memory d)") (simp_all add: page_Free_def on_bitmap_def)
qed

end
