(* ===== verification/PageGroup.thy ===== *)
theory PageGroup
  imports DynamicSlab
begin

text \<open>
  Page groups: \<^verbatim>\<open>core/hle/kernel/k_page_group.{h,cpp}\<close>. A group is a singly linked list of block infos,
  each a run of pages, whose nodes come from a slab; the list is modelled by the list of its nodes, from
  \<^verbatim>\<open>m_first_block\<close> to \<^verbatim>\<open>m_last_block\<close>. The operations that count references are with the memory
  manager.
\<close>

section \<open>Block infos\<close>

record KBlockInfo =
  info_node :: nat
  m_page_index :: u32
  info_num_pages :: u32

definition KBlockInfo_Initialize :: "nat \<Rightarrow> nat \<Rightarrow> nat \<Rightarrow> KBlockInfo" where
  "KBlockInfo_Initialize node addr np =
     \<lparr>info_node = node, m_page_index = of_nat (addr div PageBytes), info_num_pages = of_nat np\<rparr>"

definition info_GetAddress :: "KBlockInfo \<Rightarrow> nat" where
  "info_GetAddress b = unat (m_page_index b) * PageBytes"

definition info_GetNumPages :: "KBlockInfo \<Rightarrow> nat" where
  "info_GetNumPages b = unat (info_num_pages b)"

definition info_GetSize :: "KBlockInfo \<Rightarrow> nat" where
  "info_GetSize b = info_GetNumPages b * PageBytes"

text \<open>The sum is one of 32-bit integers.\<close>

definition info_GetEndAddress :: "KBlockInfo \<Rightarrow> nat" where
  "info_GetEndAddress b = unat (m_page_index b + info_num_pages b) * PageBytes"

definition info_GetLastAddress :: "KBlockInfo \<Rightarrow> nat" where
  "info_GetLastAddress b = sub64 (info_GetEndAddress b) 1"

definition info_IsEquivalentTo :: "KBlockInfo \<Rightarrow> KBlockInfo \<Rightarrow> bool" where
  "info_IsEquivalentTo b rhs \<longleftrightarrow> m_page_index b = m_page_index rhs \<and> info_num_pages b = info_num_pages rhs"

definition IsStrictlyBefore :: "nat \<Rightarrow> KBlockInfo \<Rightarrow> bool" where
  "IsStrictlyBefore addr b =
     (if m_page_index b \<noteq> 0 \<and> info_GetEndAddress b = 0 then False else info_GetEndAddress b < addr)"

definition TryConcatenate :: "nat \<Rightarrow> nat \<Rightarrow> KBlockInfo \<Rightarrow> KBlockInfo option" where
  "TryConcatenate addr np b =
     (if addr \<noteq> 0 \<and> addr = info_GetEndAddress b
      then Some (b\<lparr>info_num_pages := info_num_pages b + of_nat np\<rparr>) else None)"

section \<open>Groups\<close>

type_synonym KPageGroup = "KBlockInfo list"

type_synonym KBlockInfoManager = "KDynamicPageManager option \<times> KDynamicSlabHeap"

text \<open>\<^verbatim>\<open>sizeof(KBlockInfo)\<close>\<close>

definition KBlockInfo_size :: nat where
  "KBlockInfo_size = 0x10"

definition Finalize_group :: "KPageGroup \<Rightarrow> KBlockInfoManager \<Rightarrow> KPageGroup \<times> KBlockInfoManager" where
  "Finalize_group pg m = ([], fold (\<lambda>b. slab_Free (info_node b)) pg m)"

definition group_GetNumPages :: "KPageGroup \<Rightarrow> nat" where
  "group_GetNumPages pg = fold (\<lambda>b n. wrap64 (n + info_GetNumPages b)) pg 0"

definition add_new_block :: "nat \<Rightarrow> nat \<Rightarrow> KPageGroup \<Rightarrow> KBlockInfoManager \<Rightarrow> (Result \<times> KPageGroup \<times> KBlockInfoManager) option" where
  "add_new_block addr num_pages pg m =
     do {
       (new_block, m) \<leftarrow> slab_Allocate KBlockInfo_size m;
       case new_block of
         None \<Rightarrow> Some (ResultOutOfResource, pg, m)
       | Some node \<Rightarrow> Some (ResultSuccess, pg @ [KBlockInfo_Initialize node addr num_pages], m)
     }"

definition AddBlock :: "nat \<Rightarrow> nat \<Rightarrow> KPageGroup \<Rightarrow> KBlockInfoManager \<Rightarrow> (Result \<times> KPageGroup \<times> KBlockInfoManager) option" where
  "AddBlock addr num_pages pg m =
     (if num_pages = 0 then Some (ResultSuccess, pg, m)
      else if pg = [] then add_new_block addr num_pages pg m
      else case TryConcatenate addr num_pages (last pg) of
        Some b \<Rightarrow> Some (ResultSuccess, butlast pg @ [b], m)
      | None \<Rightarrow> add_new_block addr num_pages pg m)"

fun group_IsEquivalentTo :: "KPageGroup \<Rightarrow> KPageGroup \<Rightarrow> bool" where
  "group_IsEquivalentTo (l # ls) (r # rs) \<longleftrightarrow> info_IsEquivalentTo l r \<and> group_IsEquivalentTo ls rs"
| "group_IsEquivalentTo ls rs \<longleftrightarrow> ls = [] \<and> rs = []"

end
