(* ===== verification/MemoryManager.thy ===== *)
theory MemoryManager
  imports PageGroup
begin

text \<open>
  The memory manager: \<^verbatim>\<open>core/hle/kernel/k_memory_manager.{h,cpp}\<close>, with the part of the memory layout it reads
  (\<^verbatim>\<open>k_memory_layout.h\<close>, \<^verbatim>\<open>k_memory_region.h\<close>) and the reference-counting operations of page groups.

  A pointer to one of the managers is its index. A region tree is the list of its regions in order. Device
  memory is a function from physical addresses to bytes. Pool locks are left out: each operation
  is one step. A failing soft assertion has no effect; \<^verbatim>\<open>UNREACHABLE\<close>, an access outside of an
  array and a null pointer are \<open>None\<close>.
\<close>

section \<open>The layout\<close>

record KMemoryRegion =
  region_address :: nat
  region_last :: nat
  region_attributes :: nat
  region_type :: u32

definition region_GetEndAddress :: "KMemoryRegion \<Rightarrow> nat" where
  "region_GetEndAddress r = wrap64 (region_last r + 1)"

definition region_GetSize :: "KMemoryRegion \<Rightarrow> nat" where
  "region_GetSize r = sub64 (region_GetEndAddress r) (region_address r)"

definition IsDerivedFrom :: "u32 \<Rightarrow> KMemoryRegion \<Rightarrow> bool" where
  "IsDerivedFrom type_id r \<longleftrightarrow> region_type r OR type_id = region_type r"

text \<open>The attributes \<^verbatim>\<open>LinearMapped | NoUserMap\<close>, with the values the code asserts for the types.\<close>

definition PoolAttributes :: u32 where
  "PoolAttributes = 0xC0000000"

definition DramUserPool :: u32 where
  "DramUserPool = 0x266 OR PoolAttributes"

definition DramApplicationPool :: u32 where
  "DramApplicationPool = 0xE66 OR PoolAttributes"

definition DramAppletPool :: u32 where
  "DramAppletPool = 0x1666 OR PoolAttributes"

definition DramSystemNonSecurePool :: u32 where
  "DramSystemNonSecurePool = 0x1A66 OR PoolAttributes"

definition DramSystemPool :: u32 where
  "DramSystemPool = 0x2666 OR PoolAttributes OR 0x02000000"

record KMemoryLayout =
  m_physical_tree :: "KMemoryRegion list"
  m_physical_linear_tree :: "KMemoryRegion list"
  m_linear_virt_to_phys_diff :: nat

definition tree_Find :: "nat \<Rightarrow> KMemoryRegion list \<Rightarrow> KMemoryRegion option" where
  "tree_Find address tree = find (\<lambda>r. region_address r \<le> address \<and> address \<le> region_last r) tree"

definition GetLinearPhysicalAddress :: "KMemoryLayout \<Rightarrow> nat \<Rightarrow> nat" where
  "GetLinearPhysicalAddress l address = wrap64 (address + m_linear_virt_to_phys_diff l)"

section \<open>State\<close>

text \<open>Pools and directions are the numbers of the enumerations.\<close>

definition Application :: nat where "Application = 0"
definition Applet :: nat where "Applet = 1"
definition SystemPool :: nat where "SystemPool = 2"
definition SystemNonSecure :: nat where "SystemNonSecure = 3"

definition FromFront :: nat where "FromFront = 0"
definition FromBack :: nat where "FromBack = 1"

definition MaxManagerCount :: nat where
  "MaxManagerCount = 10"

record KMemoryManager_Impl =
  m_heap :: KPageHeap
  m_page_reference_counts :: "u16 list"
  m_management_region :: nat
  m_pool :: nat
  m_next :: "nat option"
  m_prev :: "nat option"

record KMemoryManager =
  m_memory_layout :: KMemoryLayout
  m_pool_managers_head :: "nat option list"
  m_pool_managers_tail :: "nat option list"
  m_managers :: "KMemoryManager_Impl list"
  m_num_managers :: nat
  m_optimized_process_ids :: "u64 list"
  m_has_optimized_process :: "bool list"
  device_memory :: "nat \<Rightarrow> u8"

definition new_Impl :: "KPageHeap \<Rightarrow> KMemoryManager_Impl" where
  "new_Impl h =
     \<lparr>m_heap = h, m_page_reference_counts = [], m_management_region = 0, m_pool = 0, m_next = None, m_prev = None\<rparr>"

definition new_KMemoryManager :: "KMemoryLayout \<Rightarrow> KPageHeap list \<Rightarrow> (nat \<Rightarrow> u8) \<Rightarrow> KMemoryManager" where
  "new_KMemoryManager l heaps dev =
     \<lparr>m_memory_layout = l, m_pool_managers_head = replicate MaxManagerCount None,
      m_pool_managers_tail = replicate MaxManagerCount None, m_managers = map new_Impl heaps, m_num_managers = 0,
      m_optimized_process_ids = replicate 4 0, m_has_optimized_process = replicate 4 False, device_memory = dev\<rparr>"

definition EncodeOption :: "nat \<Rightarrow> nat \<Rightarrow> u32" where
  "EncodeOption pool dir = push_bit 4 (of_nat pool) OR of_nat dir"

definition GetPool :: "u32 \<Rightarrow> nat" where
  "GetPool opt = unat (drop_bit 4 (opt AND 0xF0))"

definition GetDirection :: "u32 \<Rightarrow> nat" where
  "GetDirection opt = unat (opt AND 0xF)"

definition DecodeOption :: "u32 \<Rightarrow> nat \<times> nat" where
  "DecodeOption opt = (GetPool opt, GetDirection opt)"

section \<open>Managers\<close>

definition GetManager :: "KMemoryManager \<Rightarrow> nat \<Rightarrow> nat option" where
  "GetManager mm address =
     do {
       r \<leftarrow> tree_Find address (m_physical_linear_tree (m_memory_layout mm));
       if region_attributes r < length (m_managers mm) then Some (region_attributes r) else None
     }"

definition GetFirstManager :: "nat \<Rightarrow> nat \<Rightarrow> KMemoryManager \<Rightarrow> nat option option" where
  "GetFirstManager pool dir mm =
     (if dir = FromBack then fetch (m_pool_managers_tail mm) pool else fetch (m_pool_managers_head mm) pool)"

definition GetNextManager :: "nat \<Rightarrow> nat \<Rightarrow> KMemoryManager \<Rightarrow> nat option option" where
  "GetNextManager i dir mm =
     map_option (\<lambda>m. if dir = FromBack then m_prev m else m_next m) (fetch (m_managers mm) i)"

text \<open>
  A loop over the managers of a pool. The body answers whether to break; the result is the manager it broke at,
  null when it never did.
\<close>

partial_function (option) for_managers ::
  "('s \<Rightarrow> KMemoryManager) \<Rightarrow> (nat \<Rightarrow> 's \<Rightarrow> (bool \<times> 's) option) \<Rightarrow> nat \<Rightarrow> nat option \<Rightarrow> 's \<Rightarrow> (nat option \<times> 's) option" where
  "for_managers mm_of body dir cur s =
     (case cur of
        None \<Rightarrow> Some (None, s)
      | Some i \<Rightarrow> do {
          (stop, s) \<leftarrow> body i s;
          if stop then Some (Some i, s)
          else do {
            next_manager \<leftarrow> GetNextManager i dir (mm_of s);
            for_managers mm_of body dir next_manager s
          }
        })"

declare for_managers.simps [code]

definition on_manager :: "nat \<Rightarrow> (KMemoryManager_Impl \<Rightarrow> ('a \<times> KMemoryManager_Impl) option) \<Rightarrow> KMemoryManager \<Rightarrow> ('a \<times> KMemoryManager) option" where
  "on_manager i f mm =
     do {
       m \<leftarrow> fetch (m_managers mm) i;
       (r, m) \<leftarrow> f m;
       managers \<leftarrow> store (m_managers mm) i m;
       Some (r, mm\<lparr>m_managers := managers\<rparr>)
     }"

definition change_manager :: "nat \<Rightarrow> (KMemoryManager_Impl \<Rightarrow> KMemoryManager_Impl option) \<Rightarrow> KMemoryManager \<Rightarrow> KMemoryManager option" where
  "change_manager i f mm = map_option snd (on_manager i (\<lambda>m. map_option (Pair ()) (f m)) mm)"

definition on_heap :: "(KPageHeap \<Rightarrow> ('a \<times> KPageHeap) option) \<Rightarrow> KMemoryManager_Impl \<Rightarrow> ('a \<times> KMemoryManager_Impl) option" where
  "on_heap f m = map_option (\<lambda>(r, h). (r, m\<lparr>m_heap := h\<rparr>)) (f (m_heap m))"

definition Impl_AllocateBlock :: "int \<Rightarrow> bool \<Rightarrow> KMemoryManager_Impl \<Rightarrow> (nat \<times> KMemoryManager_Impl) option" where
  "Impl_AllocateBlock index random = on_heap (AllocateBlock index random)"

definition Impl_AllocateAligned :: "int \<Rightarrow> nat \<Rightarrow> nat \<Rightarrow> KMemoryManager_Impl \<Rightarrow> (nat \<times> KMemoryManager_Impl) option" where
  "Impl_AllocateAligned index num_pages align_pages = on_heap (AllocateAligned index num_pages align_pages)"

definition Impl_Free :: "nat \<Rightarrow> nat \<Rightarrow> KMemoryManager_Impl \<Rightarrow> KMemoryManager_Impl option" where
  "Impl_Free addr num_pages m = map_option (\<lambda>h. m\<lparr>m_heap := h\<rparr>) (Free addr num_pages (m_heap m))"

section \<open>Reference counts\<close>

text \<open>The loops run over the indices of the pages; \<^verbatim>\<open>++m_page_reference_counts[index]\<close> wraps at 16 bits.\<close>

fun increment_counts :: "nat list \<Rightarrow> u16 list \<Rightarrow> u16 list option" where
  "increment_counts [] counts = Some counts"
| "increment_counts (index # is) counts =
     do {
       c \<leftarrow> fetch counts index;
       counts \<leftarrow> store counts index (c + 1);
       increment_counts is counts
     }"

definition page_indices :: "nat \<Rightarrow> nat \<Rightarrow> KMemoryManager_Impl \<Rightarrow> nat list" where
  "page_indices address num_pages m =
     (let index = GetPageOffset (m_heap m) address in [index..<wrap64 (index + num_pages)])"

definition Impl_OpenFirst :: "nat \<Rightarrow> nat \<Rightarrow> KMemoryManager_Impl \<Rightarrow> KMemoryManager_Impl option" where
  "Impl_OpenFirst address num_pages m =
     map_option (\<lambda>counts. m\<lparr>m_page_reference_counts := counts\<rparr>)
       (increment_counts (page_indices address num_pages m) (m_page_reference_counts m))"

definition Impl_Open :: "nat \<Rightarrow> nat \<Rightarrow> KMemoryManager_Impl \<Rightarrow> KMemoryManager_Impl option" where
  "Impl_Open address num_pages m =
     map_option (\<lambda>counts. m\<lparr>m_page_reference_counts := counts\<rparr>)
       (increment_counts (page_indices address num_pages m) (m_page_reference_counts m))"

definition free_run :: "nat \<Rightarrow> nat \<Rightarrow> KMemoryManager_Impl \<Rightarrow> KMemoryManager_Impl option" where
  "free_run free_start free_count m =
     (if free_count > 0 then Impl_Free (wrap64 (m_heap_address (m_heap m) + free_start * PageBytes)) free_count m
      else Some m)"

fun close_pages :: "nat list \<Rightarrow> nat \<Rightarrow> nat \<Rightarrow> KMemoryManager_Impl \<Rightarrow> KMemoryManager_Impl option" where
  "close_pages [] free_start free_count m = free_run free_start free_count m"
| "close_pages (index # is) free_start free_count m =
     do {
       c \<leftarrow> fetch (m_page_reference_counts m) index;
       counts \<leftarrow> store (m_page_reference_counts m) index (c - 1);
       let m = m\<lparr>m_page_reference_counts := counts\<rparr>;
       if c - 1 = 0
       then if free_count > 0 then close_pages is free_start (free_count + 1) m else close_pages is index 1 m
       else do {
         m \<leftarrow> free_run free_start free_count m;
         close_pages is free_start 0 m
       }
     }"

definition Impl_Close :: "nat \<Rightarrow> nat \<Rightarrow> KMemoryManager_Impl \<Rightarrow> KMemoryManager_Impl option" where
  "Impl_Close address num_pages m = close_pages (page_indices address num_pages m) 0 0 m"

text \<open>
  The loop over the pages of a range, one manager at a time; it does not end when a manager has no pages behind
  the address.
\<close>

partial_function (option) for_chunks ::
  "('s \<Rightarrow> KMemoryManager) \<Rightarrow> (nat \<Rightarrow> nat \<Rightarrow> nat \<Rightarrow> 's \<Rightarrow> 's option) \<Rightarrow> nat \<Rightarrow> nat \<Rightarrow> 's \<Rightarrow> 's option" where
  "for_chunks mm_of op address num_pages s =
     (if num_pages = 0 then Some s
      else do {
        i \<leftarrow> GetManager (mm_of s) address;
        m \<leftarrow> fetch (m_managers (mm_of s)) i;
        let cur_pages = min num_pages (GetPageOffsetToEnd (m_heap m) address);
        s \<leftarrow> op i address cur_pages s;
        for_chunks mm_of op (wrap64 (address + cur_pages * PageBytes)) (num_pages - cur_pages) s
      })"

declare for_chunks.simps [code]

definition mm_Open :: "nat \<Rightarrow> nat \<Rightarrow> KMemoryManager \<Rightarrow> KMemoryManager option" where
  "mm_Open = for_chunks (\<lambda>mm. mm) (\<lambda>i address n. change_manager i (Impl_Open address n))"

definition mm_OpenFirst :: "nat \<Rightarrow> nat \<Rightarrow> KMemoryManager \<Rightarrow> KMemoryManager option" where
  "mm_OpenFirst = for_chunks (\<lambda>mm. mm) (\<lambda>i address n. change_manager i (Impl_OpenFirst address n))"

definition mm_Close :: "nat \<Rightarrow> nat \<Rightarrow> KMemoryManager \<Rightarrow> KMemoryManager option" where
  "mm_Close = for_chunks (\<lambda>mm. mm) (\<lambda>i address n. change_manager i (Impl_Close address n))"

section \<open>The map of optimized memory\<close>

definition load64 :: "(nat \<Rightarrow> u8) \<Rightarrow> nat \<Rightarrow> u64" where
  "load64 dev a = store_le 0 (map (\<lambda>j. dev (a + j)) [0..<8])"

definition store_bytes :: "nat \<Rightarrow> u8 list \<Rightarrow> (nat \<Rightarrow> u8) \<Rightarrow> nat \<Rightarrow> u8" where
  "store_bytes a bs dev = (\<lambda>x. if a \<le> x \<and> x < a + length bs then bs ! (x - a) else dev x)"

text \<open>\<^verbatim>\<open>std::memset\<close>\<close>

definition fill_bytes :: "nat \<Rightarrow> nat \<Rightarrow> u8 \<Rightarrow> (nat \<Rightarrow> u8) \<Rightarrow> nat \<Rightarrow> u8" where
  "fill_bytes a n v dev = (\<lambda>x. if a \<le> x \<and> x < a + n then v else dev x)"

definition CalculateOptimizedProcessOverheadSize :: "nat \<Rightarrow> nat" where
  "CalculateOptimizedProcessOverheadSize region_size = AlignUp_size (region_size div PageBytes) 64 div 64 * 8"

definition optimize_map :: "KMemoryManager \<Rightarrow> KMemoryManager_Impl \<Rightarrow> nat" where
  "optimize_map mm m = GetLinearPhysicalAddress (m_memory_layout mm) (m_management_region m)"

definition change_word :: "(u64 \<Rightarrow> u64) \<Rightarrow> nat \<Rightarrow> (nat \<Rightarrow> u8) \<Rightarrow> nat \<Rightarrow> u8" where
  "change_word f a dev = store_bytes a (le_bytes 8 (f (load64 dev a))) dev"

definition Impl_InitializeOptimizedMemory :: "nat \<Rightarrow> KMemoryManager \<Rightarrow> KMemoryManager option" where
  "Impl_InitializeOptimizedMemory i mm =
     do {
       m \<leftarrow> fetch (m_managers mm) i;
       Some (mm\<lparr>device_memory := fill_bytes (optimize_map mm m)
                  (CalculateOptimizedProcessOverheadSize (m_heap_size (m_heap m))) 0 (device_memory mm)\<rparr>)
     }"

text \<open>
  The pages from \<^verbatim>\<open>offset\<close> to \<^verbatim>\<open>last\<close>; the loop does not end when \<^verbatim>\<open>last\<close> is the greatest
  64-bit number.
\<close>

definition tracked :: "nat \<Rightarrow> nat \<Rightarrow> KMemoryManager_Impl \<Rightarrow> nat list option" where
  "tracked block num_pages m =
     (let offset = GetPageOffset (m_heap m) block; last_offset = sub64 (wrap64 (offset + num_pages)) 1
      in if last_offset = 2 ^ 64 - 1 then None else Some [offset..<Suc last_offset])"

definition TrackUnoptimizedAllocation :: "nat \<Rightarrow> nat \<Rightarrow> nat \<Rightarrow> KMemoryManager \<Rightarrow> KMemoryManager option" where
  "TrackUnoptimizedAllocation i block num_pages mm =
     do {
       m \<leftarrow> fetch (m_managers mm) i;
       offsets \<leftarrow> tracked block num_pages m;
       Some (mm\<lparr>device_memory :=
         fold (\<lambda>offset. change_word (\<lambda>w. w AND NOT (push_bit (offset mod 64) 1)) (optimize_map mm m + 8 * (offset div 64)))
           offsets (device_memory mm)\<rparr>)
     }"

definition TrackOptimizedAllocation :: "nat \<Rightarrow> nat \<Rightarrow> nat \<Rightarrow> KMemoryManager \<Rightarrow> KMemoryManager option" where
  "TrackOptimizedAllocation i block num_pages mm =
     do {
       m \<leftarrow> fetch (m_managers mm) i;
       offsets \<leftarrow> tracked block num_pages m;
       Some (mm\<lparr>device_memory :=
         fold (\<lambda>offset. change_word (\<lambda>w. w OR push_bit (offset mod 64) 1) (optimize_map mm m + 8 * (offset div 64)))
           offsets (device_memory mm)\<rparr>)
     }"

text \<open>One page of \<^verbatim>\<open>ProcessOptimizedAllocation\<close>: it is filled unless it was allocated before.\<close>

definition process_page :: "nat \<Rightarrow> KMemoryManager_Impl \<Rightarrow> u8 \<Rightarrow> nat \<Rightarrow> bool \<times> (nat \<Rightarrow> u8) \<Rightarrow> bool \<times> (nat \<Rightarrow> u8)" where
  "process_page map_address m fill_pattern offset st =
     (if load64 (snd st) (map_address + 8 * (offset div 64)) AND push_bit (offset mod 64) 1 = 0
      then (True, fill_bytes (m_heap_address (m_heap m) + offset * PageBytes) PageBytes fill_pattern (snd st))
      else st)"

definition ProcessOptimizedAllocation :: "nat \<Rightarrow> nat \<Rightarrow> nat \<Rightarrow> u8 \<Rightarrow> KMemoryManager \<Rightarrow> (bool \<times> KMemoryManager) option" where
  "ProcessOptimizedAllocation i block num_pages fill_pattern mm =
     do {
       m \<leftarrow> fetch (m_managers mm) i;
       offsets \<leftarrow> tracked block num_pages m;
       let (any_new, dev) = fold (process_page (optimize_map mm m) m fill_pattern) offsets (False, device_memory mm);
       Some (any_new, mm\<lparr>device_memory := dev\<rparr>)
     }"

definition InitializeOptimizedMemory :: "u64 \<Rightarrow> nat \<Rightarrow> KMemoryManager \<Rightarrow> (Result \<times> KMemoryManager) option" where
  "InitializeOptimizedMemory process_id pool mm =
     do {
       has_optimized \<leftarrow> fetch (m_has_optimized_process mm) pool;
       if has_optimized then Some (ResultBusy, mm)
       else do {
         ids \<leftarrow> store (m_optimized_process_ids mm) pool process_id;
         has \<leftarrow> store (m_has_optimized_process mm) pool True;
         let mm = mm\<lparr>m_optimized_process_ids := ids, m_has_optimized_process := has\<rparr>;
         first \<leftarrow> GetFirstManager pool FromFront mm;
         (_, mm) \<leftarrow> for_managers (\<lambda>mm. mm)
                     (\<lambda>i mm. map_option (Pair False) (Impl_InitializeOptimizedMemory i mm)) FromFront first mm;
         Some (ResultSuccess, mm)
       }
     }"

definition FinalizeOptimizedMemory :: "u64 \<Rightarrow> nat \<Rightarrow> KMemoryManager \<Rightarrow> KMemoryManager option" where
  "FinalizeOptimizedMemory process_id pool mm =
     do {
       has_optimized \<leftarrow> fetch (m_has_optimized_process mm) pool;
       ident \<leftarrow> fetch (m_optimized_process_ids mm) pool;
       if has_optimized \<and> ident = process_id
       then map_option (\<lambda>has. mm\<lparr>m_has_optimized_process := has\<rparr>) (store (m_has_optimized_process mm) pool False)
       else Some mm
     }"

section \<open>Allocating\<close>

text \<open>The search for a manager that has the block; the state carries the allocated block.\<close>

definition try_aligned :: "int \<Rightarrow> nat \<Rightarrow> nat \<Rightarrow> nat \<Rightarrow> nat \<times> KMemoryManager \<Rightarrow> (bool \<times> nat \<times> KMemoryManager) option" where
  "try_aligned heap_index num_pages align_pages i s =
     do {
       (allocated_block, mm) \<leftarrow> on_manager i (Impl_AllocateAligned heap_index num_pages align_pages) (snd s);
       Some (allocated_block \<noteq> 0, allocated_block, mm)
     }"

definition AllocateAndOpenContinuous :: "nat \<Rightarrow> nat \<Rightarrow> u32 \<Rightarrow> KMemoryManager \<Rightarrow> (nat \<times> KMemoryManager) option" where
  "AllocateAndOpenContinuous num_pages align_pages opt mm =
     (if num_pages = 0 then Some (0, mm)
      else do {
        let (pool, dir) = DecodeOption opt;
        let heap_index = GetAlignedBlockIndex num_pages align_pages;
        first \<leftarrow> GetFirstManager pool dir mm;
        (chosen_manager, allocated_block, mm) \<leftarrow>
          for_managers snd (try_aligned heap_index num_pages align_pages) dir first (0, mm);
        if allocated_block = 0 then Some (0, mm)
        else do {
          i \<leftarrow> chosen_manager;
          has_optimized \<leftarrow> fetch (m_has_optimized_process mm) pool;
          mm \<leftarrow> (if has_optimized then TrackUnoptimizedAllocation i allocated_block num_pages mm else Some mm);
          mm \<leftarrow> change_manager i (Impl_OpenFirst allocated_block num_pages) mm;
          Some (allocated_block, mm)
        }
      })"

text \<open>The state of \<^verbatim>\<open>AllocatePageGroupImpl\<close>: the pages still wanted, the group, its nodes and the manager.\<close>

record group_alloc =
  wanted :: nat
  out_group :: KPageGroup
  block_infos :: KBlockInfoManager
  managers :: KMemoryManager

partial_function (option) alloc_blocks ::
  "nat \<Rightarrow> nat \<Rightarrow> bool \<Rightarrow> bool \<Rightarrow> nat \<Rightarrow> group_alloc \<Rightarrow> (Result \<times> group_alloc) option" where
  "alloc_blocks index pages_per_alloc unoptimized random i s =
     (if wanted s \<ge> pages_per_alloc
      then do {
        (allocated_block, mm) \<leftarrow> on_manager i (Impl_AllocateBlock (int index) random) (managers s);
        let s = s\<lparr>managers := mm\<rparr>;
        if allocated_block = 0 then Some (ResultSuccess, s)
        else do {
          (r, pg, infos) \<leftarrow> AddBlock allocated_block pages_per_alloc (out_group s) (block_infos s);
          let s = s\<lparr>out_group := pg, block_infos := infos\<rparr>;
          if r \<noteq> ResultSuccess
          then do {
            mm \<leftarrow> change_manager i (Impl_Free allocated_block pages_per_alloc) (managers s);
            Some (r, s\<lparr>managers := mm\<rparr>)
          }
          else do {
            mm \<leftarrow> (if unoptimized then TrackUnoptimizedAllocation i allocated_block pages_per_alloc (managers s)
                  else Some (managers s));
            alloc_blocks index pages_per_alloc unoptimized random i
              (s\<lparr>managers := mm, wanted := wanted s - pages_per_alloc\<rparr>)
          }
        }
      }
      else Some (ResultSuccess, s))"

declare alloc_blocks.simps [code]

text \<open>The loops over the managers and over the block sizes; an error leaves both.\<close>

definition alloc_over_managers ::
  "nat \<Rightarrow> nat \<Rightarrow> bool \<Rightarrow> bool \<Rightarrow> nat \<Rightarrow> nat \<Rightarrow> group_alloc \<Rightarrow> (Result \<times> group_alloc) option" where
  "alloc_over_managers index pages_per_alloc unoptimized random pool dir s =
     do {
       first \<leftarrow> GetFirstManager pool dir (managers s);
       (_, r, s) \<leftarrow> for_managers (\<lambda>rs. managers (snd rs))
         (\<lambda>i (_, s). map_option (\<lambda>(r, s). (r \<noteq> ResultSuccess, r, s))
                       (alloc_blocks index pages_per_alloc unoptimized random i s)) dir first (ResultSuccess, s);
       Some (r, s)
     }"

text \<open>The first argument is \<^verbatim>\<open>index + 1\<close>.\<close>

fun alloc_over_sizes :: "nat \<Rightarrow> bool \<Rightarrow> bool \<Rightarrow> nat \<Rightarrow> nat \<Rightarrow> group_alloc \<Rightarrow> (Result \<times> group_alloc) option" where
  "alloc_over_sizes 0 unoptimized random pool dir s = Some (ResultSuccess, s)"
| "alloc_over_sizes (Suc index) unoptimized random pool dir s =
     (if wanted s > 0
      then do {
        pages_per_alloc \<leftarrow> GetBlockNumPages index;
        (r, s) \<leftarrow> alloc_over_managers index pages_per_alloc unoptimized random pool dir s;
        if r \<noteq> ResultSuccess then Some (r, s) else alloc_over_sizes index unoptimized random pool dir s
      }
      else Some (ResultSuccess, s))"

text \<open>The guard that frees what was allocated when the function fails.\<close>

fun free_group :: "KPageGroup \<Rightarrow> KMemoryManager \<Rightarrow> KMemoryManager option" where
  "free_group [] mm = Some mm"
| "free_group (b # bs) mm =
     do {
       i \<leftarrow> GetManager mm (info_GetAddress b);
       m \<leftarrow> fetch (m_managers mm) i;
       let node_num_pages = min (info_GetNumPages b)
             (sub64 (heap_GetEndAddress (m_heap m)) (info_GetAddress b) div PageBytes);
       mm \<leftarrow> change_manager i (Impl_Free (info_GetAddress b) node_num_pages) mm;
       free_group bs mm
     }"

definition AllocatePageGroupImpl ::
  "nat \<Rightarrow> nat \<Rightarrow> nat \<Rightarrow> bool \<Rightarrow> bool \<Rightarrow> KPageGroup \<times> KBlockInfoManager \<times> KMemoryManager
     \<Rightarrow> (Result \<times> KPageGroup \<times> KBlockInfoManager \<times> KMemoryManager) option" where
  "AllocatePageGroupImpl num_pages pool dir unoptimized random st =
     (if GetBlockIndex num_pages < 0 then Some (ResultOutOfMemory, st)
      else do {
        let (pg, infos, mm) = st;
        (r, s) \<leftarrow> alloc_over_sizes (nat (GetBlockIndex num_pages) + 1) unoptimized random pool dir
                   \<lparr>wanted = num_pages, out_group = pg, block_infos = infos, managers = mm\<rparr>;
        let r = (if r \<noteq> ResultSuccess then r else if wanted s = 0 then ResultSuccess else ResultOutOfMemory);
        if r \<noteq> ResultSuccess
        then do {
          mm \<leftarrow> free_group (out_group s) (managers s);
          let (pg, infos) = Finalize_group (out_group s) (block_infos s);
          Some (r, pg, infos, mm)
        }
        else Some (r, out_group s, block_infos s, managers s)
      })"

fun open_group_first :: "KPageGroup \<Rightarrow> KMemoryManager \<Rightarrow> KMemoryManager option" where
  "open_group_first [] mm = Some mm"
| "open_group_first (b # bs) mm =
     do {
       mm \<leftarrow> mm_OpenFirst (info_GetAddress b) (info_GetNumPages b) mm;
       open_group_first bs mm
     }"

definition AllocateAndOpen ::
  "nat \<Rightarrow> u32 \<Rightarrow> KPageGroup \<times> KBlockInfoManager \<times> KMemoryManager
     \<Rightarrow> (Result \<times> KPageGroup \<times> KBlockInfoManager \<times> KMemoryManager) option" where
  "AllocateAndOpen num_pages opt st =
     (if num_pages = 0 then Some (ResultSuccess, st)
      else do {
        let (pool, dir) = DecodeOption opt;
        has_optimized \<leftarrow> fetch (m_has_optimized_process (snd (snd st))) pool;
        (r, pg, infos, mm) \<leftarrow> AllocatePageGroupImpl num_pages pool dir has_optimized True st;
        if r \<noteq> ResultSuccess then Some (r, pg, infos, mm)
        else do {
          mm \<leftarrow> open_group_first pg mm;
          Some (ResultSuccess, pg, infos, mm)
        }
      })"

text \<open>
  \<^verbatim>\<open>AllocateForProcess\<close> fills the pages: all of them, or for the optimized process those it did not
  have before. \<^verbatim>\<open>any_new\<close> is the answer of the last manager only, as in the code.
\<close>

definition fill_new_pages :: "u8 \<Rightarrow> nat \<Rightarrow> nat \<Rightarrow> bool \<times> KMemoryManager \<Rightarrow> (bool \<times> KMemoryManager) option" where
  "fill_new_pages fill_pattern =
     for_chunks snd (\<lambda>i address n s. ProcessOptimizedAllocation i address n fill_pattern (snd s))"

fun optimize_group :: "u8 \<Rightarrow> KPageGroup \<Rightarrow> KMemoryManager \<Rightarrow> KMemoryManager option" where
  "optimize_group fill_pattern [] mm = Some mm"
| "optimize_group fill_pattern (b # bs) mm =
     (if info_GetNumPages b = 0 then optimize_group fill_pattern bs mm
      else do {
        (any_new, mm) \<leftarrow> fill_new_pages fill_pattern (info_GetAddress b) (info_GetNumPages b) (False, mm);
        mm \<leftarrow> (if any_new then for_chunks (\<lambda>mm. mm) TrackOptimizedAllocation (info_GetAddress b) (info_GetNumPages b) mm
              else Some mm);
        optimize_group fill_pattern bs mm
      })"

definition clear_group :: "u8 \<Rightarrow> KPageGroup \<Rightarrow> KMemoryManager \<Rightarrow> KMemoryManager" where
  "clear_group fill_pattern pg mm =
     mm\<lparr>device_memory :=
       fold (\<lambda>b. fill_bytes (info_GetAddress b) (info_GetSize b) fill_pattern) pg (device_memory mm)\<rparr>"

definition AllocateForProcess ::
  "nat \<Rightarrow> u32 \<Rightarrow> u64 \<Rightarrow> u8 \<Rightarrow> KPageGroup \<times> KBlockInfoManager \<times> KMemoryManager
     \<Rightarrow> (Result \<times> KPageGroup \<times> KBlockInfoManager \<times> KMemoryManager) option" where
  "AllocateForProcess num_pages opt process_id fill_pattern st =
     do {
       let (pool, dir) = DecodeOption opt;
       has_optimized \<leftarrow> fetch (m_has_optimized_process (snd (snd st))) pool;
       ident \<leftarrow> fetch (m_optimized_process_ids (snd (snd st))) pool;
       let is_optimized = (ident = process_id);
       (r, pg, infos, mm) \<leftarrow> AllocatePageGroupImpl num_pages pool dir (has_optimized \<and> \<not> is_optimized) False st;
       if r \<noteq> ResultSuccess then Some (r, pg, infos, mm)
       else do {
         mm \<leftarrow> (if has_optimized \<and> is_optimized then optimize_group fill_pattern pg mm
               else Some (clear_group fill_pattern pg mm));
         Some (ResultSuccess, pg, infos, mm)
       }
     }"

section \<open>Groups\<close>

fun open_group :: "KPageGroup \<Rightarrow> KMemoryManager \<Rightarrow> KMemoryManager option" where
  "open_group [] mm = Some mm"
| "open_group (b # bs) mm =
     do {
       mm \<leftarrow> mm_Open (info_GetAddress b) (info_GetNumPages b) mm;
       open_group bs mm
     }"

fun close_group :: "KPageGroup \<Rightarrow> KMemoryManager \<Rightarrow> KMemoryManager option" where
  "close_group [] mm = Some mm"
| "close_group (b # bs) mm =
     do {
       mm \<leftarrow> mm_Close (info_GetAddress b) (info_GetNumPages b) mm;
       close_group bs mm
     }"

fun CloseAndReset :: "KPageGroup \<Rightarrow> KBlockInfoManager \<times> KMemoryManager \<Rightarrow> (KPageGroup \<times> KBlockInfoManager \<times> KMemoryManager) option" where
  "CloseAndReset [] st = Some ([], st)"
| "CloseAndReset (b # bs) st =
     do {
       mm \<leftarrow> mm_Close (info_GetAddress b) (info_GetNumPages b) (snd st);
       CloseAndReset bs (slab_Free (info_node b) (fst st), mm)
     }"

section \<open>Initialisation and sizes\<close>

definition GetPoolFromMemoryRegionType :: "u32 \<Rightarrow> nat option" where
  "GetPoolFromMemoryRegionType type_id =
     (if type_id OR DramApplicationPool = type_id then Some Application
      else if type_id OR DramAppletPool = type_id then Some Applet
      else if type_id OR DramSystemPool = type_id then Some SystemPool
      else if type_id OR DramSystemNonSecurePool = type_id then Some SystemNonSecure
      else None)"

definition Impl_CalculateManagementOverheadSize :: "nat \<Rightarrow> nat" where
  "Impl_CalculateManagementOverheadSize region_size =
     (let ref_count_size = region_size div PageBytes * 2;
          optimize_map_size = AlignUp_size (region_size div PageBytes) 64 div 64 * 8;
          manager_meta_size = AlignUp_size (optimize_map_size + ref_count_size) PageBytes;
          page_heap_size = KPageHeap_CalculateManagementOverheadSize region_size
      in manager_meta_size + page_heap_size)"

text \<open>The intended memory size of the board is the argument \<open>intended\<close>.\<close>

definition Impl_Initialize :: "nat \<Rightarrow> nat \<Rightarrow> nat \<Rightarrow> nat \<Rightarrow> nat \<Rightarrow> KMemoryManager_Impl \<Rightarrow> (nat \<times> KMemoryManager_Impl) option" where
  "Impl_Initialize intended address sz management p m =
     do {
       let ref_count_size = sz div PageBytes * 2;
       let optimize_map_size = CalculateOptimizedProcessOverheadSize sz;
       let manager_size = AlignUp_size (optimize_map_size + ref_count_size) PageBytes;
       let page_heap_size = KPageHeap_CalculateManagementOverheadSize sz;
       let total_management_size = manager_size + page_heap_size;
       let n = intended div PageBytes;
       let counts = m_page_reference_counts m;
       let m = m\<lparr>m_pool := p, m_management_region := management,
                 m_page_reference_counts := take n counts @ replicate (n - length counts) 0\<rparr>;
       h \<leftarrow> KPageHeap_Initialize address sz page_heap_size (m_heap m);
       Some (total_management_size, m\<lparr>m_heap := h\<rparr>)
     }"

text \<open>
  The region for the manager with the number \<open>num\<close>: its address, size and pool. The pool is \<^verbatim>\<open>Pool::Count\<close>, that
  is 4, until a region is found.
\<close>

fun locate_region :: "nat \<Rightarrow> KMemoryRegion list \<Rightarrow> nat \<times> nat \<times> nat \<Rightarrow> (nat \<times> nat \<times> nat) option" where
  "locate_region num [] found = Some found"
| "locate_region num (r # rs) found =
     (if \<not> IsDerivedFrom DramUserPool r \<or> region_attributes r \<noteq> num then locate_region num rs found
      else
        (let (address, sz, pool) = found
         in if address = 0
            then do {
              pool \<leftarrow> GetPoolFromMemoryRegionType (region_type r);
              locate_region num rs (region_address r, region_GetSize r, pool)
            }
            else locate_region num rs (address, sub64 (region_GetEndAddress r) address, pool)))"

definition insert_in_pool :: "nat \<Rightarrow> nat \<Rightarrow> KMemoryManager \<Rightarrow> KMemoryManager option" where
  "insert_in_pool i pool mm =
     do {
       tail_manager \<leftarrow> fetch (m_pool_managers_tail mm) pool;
       mm \<leftarrow> (case tail_manager of
               None \<Rightarrow> map_option (\<lambda>hs. mm\<lparr>m_pool_managers_head := hs\<rparr>) (store (m_pool_managers_head mm) pool (Some i))
             | Some t \<Rightarrow> do {
                 mm \<leftarrow> change_manager t (\<lambda>m. Some (m\<lparr>m_next := Some i\<rparr>)) mm;
                 change_manager i (\<lambda>m. Some (m\<lparr>m_prev := Some t\<rparr>)) mm
               });
       map_option (\<lambda>ts. mm\<lparr>m_pool_managers_tail := ts\<rparr>) (store (m_pool_managers_tail mm) pool (Some i))
     }"

text \<open>The loop that creates the managers; the first argument counts the free places.\<close>

fun create_managers :: "nat \<Rightarrow> nat \<Rightarrow> nat \<Rightarrow> KMemoryManager \<Rightarrow> KMemoryManager option" where
  "create_managers 0 intended management_region mm = Some mm"
| "create_managers (Suc n) intended management_region mm =
     do {
       (address, sz, pool) \<leftarrow> locate_region (m_num_managers mm) (m_physical_tree (m_memory_layout mm)) (0, 0, 4);
       if sz = 0 then Some mm
       else do {
         let i = m_num_managers mm;
         (cur_size, mm) \<leftarrow> on_manager i (Impl_Initialize intended address sz management_region pool)
                            (mm\<lparr>m_num_managers := i + 1\<rparr>);
         mm \<leftarrow> insert_in_pool i pool mm;
         create_managers n intended (wrap64 (management_region + cur_size)) mm
       }
     }"

text \<open>Freeing the regions to their heaps, without the initial process binary.\<close>

fun free_regions :: "nat \<Rightarrow> nat \<Rightarrow> KMemoryRegion list \<Rightarrow> nat list \<times> KMemoryManager \<Rightarrow> (nat list \<times> KMemoryManager) option" where
  "free_regions ini_start ini_size [] st = Some st"
| "free_regions ini_start ini_size (r # rs) st =
     (if IsDerivedFrom DramUserPool r
      then do {
        let i = region_attributes r;
        let cur_start = region_address r;
        let cur_last = region_last r;
        let cur_end = region_GetEndAddress r;
        let ini_end = wrap64 (ini_start + ini_size);
        let ini_last = sub64 ini_end 1;
        let (reserved_sizes, mm) = st;
        if cur_start \<le> ini_start \<and> ini_last \<le> cur_last
        then do {
          mm \<leftarrow> (if cur_start \<noteq> ini_start
                then change_manager i (Impl_Free cur_start ((ini_start - cur_start) div PageBytes)) mm else Some mm);
          mm \<leftarrow> change_manager i (Impl_OpenFirst ini_start (ini_size div PageBytes)) mm;
          reserved \<leftarrow> fetch reserved_sizes i;
          reserved_sizes \<leftarrow> store reserved_sizes i (wrap64 (reserved + ini_size));
          mm \<leftarrow> (if ini_last \<noteq> cur_last
                then change_manager i (Impl_Free ini_end (sub64 cur_end ini_end div PageBytes)) mm else Some mm);
          free_regions ini_start ini_size rs (reserved_sizes, mm)
        }
        else do {
          mm \<leftarrow> change_manager i (Impl_Free cur_start (region_GetSize r div PageBytes)) mm;
          free_regions ini_start ini_size rs (reserved_sizes, mm)
        }
      }
      else free_regions ini_start ini_size rs st)"

definition SetInitialUsedHeapSize :: "nat \<Rightarrow> KMemoryManager_Impl \<Rightarrow> KMemoryManager_Impl option" where
  "SetInitialUsedHeapSize reserved_size m = map_option (\<lambda>h. m\<lparr>m_heap := h\<rparr>) (SetInitialUsedSize reserved_size (m_heap m))"

fun set_used_sizes :: "nat list \<Rightarrow> nat list \<Rightarrow> KMemoryManager \<Rightarrow> KMemoryManager option" where
  "set_used_sizes reserved_sizes [] mm = Some mm"
| "set_used_sizes reserved_sizes (i # is) mm =
     do {
       reserved \<leftarrow> fetch reserved_sizes i;
       mm \<leftarrow> change_manager i (SetInitialUsedHeapSize reserved) mm;
       set_used_sizes reserved_sizes is mm
     }"

definition KMemoryManager_Initialize :: "nat \<Rightarrow> nat \<Rightarrow> nat \<Rightarrow> nat \<Rightarrow> KMemoryManager \<Rightarrow> KMemoryManager option" where
  "KMemoryManager_Initialize intended ini_start ini_size management_region mm =
     do {
       mm \<leftarrow> create_managers MaxManagerCount intended management_region (mm\<lparr>m_num_managers := 0\<rparr>);
       (reserved_sizes, mm) \<leftarrow> free_regions ini_start ini_size (m_physical_tree (m_memory_layout mm))
                                (replicate MaxManagerCount 0, mm);
       set_used_sizes reserved_sizes [0..<m_num_managers mm] mm
     }"

fun sum_free_sizes :: "nat list \<Rightarrow> nat \<Rightarrow> KMemoryManager \<Rightarrow> nat option" where
  "sum_free_sizes [] acc mm = Some acc"
| "sum_free_sizes (i # is) acc mm =
     do {
       m \<leftarrow> fetch (m_managers mm) i;
       n \<leftarrow> heap_GetFreeSize (m_heap m);
       sum_free_sizes is (wrap64 (acc + n)) mm
     }"

definition mm_GetFreeSize :: "KMemoryManager \<Rightarrow> nat option" where
  "mm_GetFreeSize mm = sum_free_sizes [0..<m_num_managers mm] 0 mm"

definition pool_GetFreeSize :: "nat \<Rightarrow> KMemoryManager \<Rightarrow> nat option" where
  "pool_GetFreeSize pool mm =
     do {
       first \<leftarrow> GetFirstManager pool FromFront mm;
       (_, total, _) \<leftarrow> for_managers snd
          (\<lambda>i (total, mm). do {
             m \<leftarrow> fetch (m_managers mm) i;
             n \<leftarrow> heap_GetFreeSize (m_heap m);
             Some (False, wrap64 (total + n), mm)
           }) FromFront first (0, mm);
       Some total
     }"

definition mm_GetSize :: "KMemoryManager \<Rightarrow> nat option" where
  "mm_GetSize mm =
     fold (\<lambda>i acc. do { total \<leftarrow> acc; m \<leftarrow> fetch (m_managers mm) i; Some (wrap64 (total + m_heap_size (m_heap m))) })
       [0..<m_num_managers mm] (Some 0)"

definition pool_GetSize :: "nat \<Rightarrow> KMemoryManager \<Rightarrow> nat option" where
  "pool_GetSize pool mm =
     do {
       first \<leftarrow> GetFirstManager pool FromFront mm;
       (_, total, _) \<leftarrow> for_managers snd
          (\<lambda>i (total, mm). do {
             m \<leftarrow> fetch (m_managers mm) i;
             Some (False, wrap64 (total + m_heap_size (m_heap m)), mm)
           }) FromFront first (0, mm);
       Some total
     }"

end
