(* ===== verification/MemoryManager_Laws.thy ===== *)
theory MemoryManager_Laws
  imports MemoryManager PageHeap_Properties DynamicSlab_Use
begin

text \<open>
  The abstract state of the memory manager: the set of free pages and the number of references to
  each page. This theory relates one manager to it.
\<close>

section \<open>Pages\<close>

definition pages :: "nat \<Rightarrow> nat \<Rightarrow> nat set" where
  "pages a n = (\<lambda>k. a + k * PageBytes) ` {..<n}"

definition page_bytes :: "nat set \<Rightarrow> nat set" where
  "page_bytes P = (\<Union>p \<in> P. {p..<p + PageBytes})"

definition aligned_pages :: "nat set \<Rightarrow> bool" where
  "aligned_pages P \<longleftrightarrow> (\<forall>p \<in> P. PageBytes dvd p)"

lemma pages_0 [simp]: "pages a 0 = {}"
  by (simp add: pages_def)

lemma pages_Suc: "pages a (Suc n) = insert (a + n * PageBytes) (pages a n)"
  by (simp add: pages_def lessThan_Suc)

lemma mem_pages: "p \<in> pages a n \<longleftrightarrow> (\<exists>k < n. p = a + k * PageBytes)"
  by (auto simp: pages_def)

lemma finite_pages [simp]: "finite (pages a n)"
  by (simp add: pages_def)

lemma card_pages [simp]: "card (pages a n) = n"
  unfolding pages_def by (subst card_image) (auto simp: inj_on_def PageBytes_def)

lemma pages_add: "pages a (k + n) = pages a k \<union> pages (a + k * PageBytes) n"
proof -
  have "pages (a + k * PageBytes) n = (\<lambda>j. a + j * PageBytes) ` ((+) k ` {..<n})"
    by (auto simp: pages_def image_image algebra_simps)
  also have "(+) k ` {..<n} = {k..<k + n}"
    by (simp add: lessThan_atLeast0 image_add_atLeastLessThan add.commute)
  finally have "pages a k \<union> pages (a + k * PageBytes) n = (\<lambda>j. a + j * PageBytes) ` ({..<k} \<union> {k..<k + n})"
    unfolding image_Un by (simp only: pages_def)
  moreover have "{..<k} \<union> {k..<k + n} = {..<k + n}" by auto
  ultimately show ?thesis by (simp only: pages_def)
qed

lemma pages_disjoint: "pages a k \<inter> pages (a + k * PageBytes) n = {}"
proof -
  have "i * PageBytes \<noteq> k * PageBytes + j * PageBytes" if "i < k" for i j
    using that by (metis PageBytes_def add_mult_distrib less_add_same_cancel1 mult_right_cancel not_add_less1 zero_neq_numeral)
  then show ?thesis by (auto simp: mem_pages)
qed

lemma aligned_pages_pages: "PageBytes dvd a \<Longrightarrow> aligned_pages (pages a n)"
  by (auto simp: aligned_pages_def mem_pages)

lemma aligned_subset: "aligned_pages P \<Longrightarrow> Q \<subseteq> P \<Longrightarrow> aligned_pages Q"
  by (auto simp: aligned_pages_def)

lemma extent_pages: "extent (a, n) = page_bytes (pages a n)"
proof (induction n)
  case (Suc n)
  have "extent (a, Suc n) = extent (a, n) \<union> {a + n * PageBytes..<a + n * PageBytes + PageBytes}"
    by (auto simp: extent_def)
  then show ?case using Suc by (auto simp: pages_Suc page_bytes_def)
qed (simp add: extent_def page_bytes_def)

lemma page_in_bytes: "p \<in> P \<Longrightarrow> p \<in> page_bytes P"
  by (auto simp: page_bytes_def PageBytes_def)

lemma page_bytes_mem:
  assumes "PageBytes dvd p" "aligned_pages P" shows "p \<in> page_bytes P \<longleftrightarrow> p \<in> P"
proof
  assume "p \<in> page_bytes P"
  then obtain q where q: "q \<in> P" "q \<le> p" "p < q + PageBytes" by (auto simp: page_bytes_def)
  then have "PageBytes dvd q" using assms(2) by (simp add: aligned_pages_def)
  then have "p = q"
    using page_disjoint [OF assms(1)] q(2,3) by (fastforce simp: PageBytes_def)
  with q(1) show "p \<in> P" by simp
qed (rule page_in_bytes)

lemma page_bytes_subset:
  assumes "aligned_pages P" "aligned_pages Q" shows "page_bytes P \<subseteq> page_bytes Q \<longleftrightarrow> P \<subseteq> Q"
proof
  assume sub: "page_bytes P \<subseteq> page_bytes Q"
  show "P \<subseteq> Q"
  proof
    fix p assume "p \<in> P"
    then show "p \<in> Q"
      using page_in_bytes [of p P] sub page_bytes_mem [OF _ assms(2), of p] assms(1) by (auto simp: aligned_pages_def)
  qed
qed (auto simp: page_bytes_def)

lemma page_bytes_disjoint:
  assumes "aligned_pages P" "aligned_pages Q" "P \<inter> Q = {}" shows "page_bytes P \<inter> page_bytes Q = {}"
proof -
  have "{p..<p + PageBytes} \<inter> {q..<q + PageBytes} = {}" if "p \<in> P" "q \<in> Q" for p q
    using that assms by (intro page_disjoint) (auto simp: aligned_pages_def)
  then show ?thesis unfolding page_bytes_def by blast
qed

lemma page_bytes_diff:
  assumes "aligned_pages P" "Q \<subseteq> P" shows "page_bytes (P - Q) = page_bytes P - page_bytes Q"
proof -
  have "page_bytes (P - Q) \<inter> page_bytes Q = {}"
    using aligned_subset [OF assms(1)] assms(2) by (intro page_bytes_disjoint) auto
  moreover have "page_bytes P = page_bytes (P - Q) \<union> page_bytes Q"
    using assms(2) by (auto simp: page_bytes_def)
  ultimately show ?thesis by blast
qed

lemma page_bytes_Un: "page_bytes (P \<union> Q) = page_bytes P \<union> page_bytes Q"
  by (auto simp: page_bytes_def)

section \<open>One manager\<close>

type_synonym books = "nat set \<times> (nat \<Rightarrow> nat)"

definition region_pages :: "nat \<times> nat \<Rightarrow> nat set" where
  "region_pages r = pages (fst r) (snd r div PageBytes)"

definition impl_ok :: "nat \<times> nat \<Rightarrow> KMemoryManager_Impl \<Rightarrow> books \<Rightarrow> bool" where
  "impl_ok r m st \<longleftrightarrow>
     (\<exists>lo. holds (fst r) (snd r) lo (m_heap m) (page_bytes (fst st \<inter> region_pages r))) \<and> PageBytes dvd snd r \<and>
     snd r div PageBytes \<le> length (m_page_reference_counts m) \<and>
     (\<forall>k < snd r div PageBytes. unat (m_page_reference_counts m ! k) = snd st (fst r + k * PageBytes))"

definition same_links :: "KMemoryManager_Impl \<Rightarrow> KMemoryManager_Impl \<Rightarrow> bool" where
  "same_links m m' \<longleftrightarrow> m_next m' = m_next m \<and> m_prev m' = m_prev m \<and> m_pool m' = m_pool m \<and>
     m_management_region m' = m_management_region m"

lemma same_links_refl [simp]: "same_links m m"
  by (simp add: same_links_def)

lemma same_links_trans: "same_links m m1 \<Longrightarrow> same_links m1 m2 \<Longrightarrow> same_links m m2"
  by (simp add: same_links_def)

lemma same_links_updates [simp]: "same_links m (m\<lparr>m_heap := h\<rparr>)" "same_links m (m\<lparr>m_page_reference_counts := cs\<rparr>)"
  by (simp_all add: same_links_def)

lemma impl_ok_cong:
  assumes "impl_ok r m st" "fst st \<inter> region_pages r = fst st' \<inter> region_pages r" "\<And>p. p \<in> region_pages r \<Longrightarrow> snd st' p = snd st p"
  shows "impl_ok r m st'"
proof -
  have "snd st' (fst r + k * PageBytes) = snd st (fst r + k * PageBytes)" if "k < snd r div PageBytes" for k
    using that by (intro assms(3)) (auto simp: region_pages_def mem_pages)
  then show ?thesis
    using assms(1,2) by (auto simp: impl_ok_def)
qed

lemma impl_okD:
  assumes "impl_ok r m st"
  shows "PageBytes dvd fst r" "PageBytes dvd snd r" "0 < fst r" "fst r + snd r < 2 ^ 64" "m_heap_address (m_heap m) = fst r"
    "m_heap_size (m_heap m) = snd r" "aligned_pages (region_pages r)" "snd r div PageBytes * PageBytes = snd r"
proof -
  obtain lo where h: "holds (fst r) (snd r) lo (m_heap m) (page_bytes (fst st \<inter> region_pages r))"
    using assms by (auto simp: impl_ok_def)
  show "PageBytes dvd fst r" "0 < fst r" "fst r + snd r < 2 ^ 64"
    using holds_facts(3-5) [OF h] by simp_all
  show "m_heap_address (m_heap m) = fst r" "m_heap_size (m_heap m) = snd r"
    using h by (auto elim!: holdsE simp: heap_repD)
  show dvd: "PageBytes dvd snd r" using assms by (simp add: impl_ok_def)
  then show "snd r div PageBytes * PageBytes = snd r" by simp
  show "aligned_pages (region_pages r)"
    unfolding region_pages_def by (rule aligned_pages_pages) fact
qed

text \<open>The index of a page in the counts.\<close>

lemma in_region:
  assumes "pages a n \<subseteq> region_pages r" "0 < n" "PageBytes dvd fst r" "PageBytes dvd snd r" "fst r + snd r < 2 ^ 64"
  shows "\<exists>k. a = fst r + k * PageBytes \<and> k + n \<le> snd r div PageBytes"
proof -
  have "a \<in> region_pages r"
    using assms(1,2) by (force simp: mem_pages)
  then obtain k where k: "a = fst r + k * PageBytes" "k < snd r div PageBytes"
    by (auto simp: region_pages_def mem_pages)
  have "a + (n - 1) * PageBytes \<in> pages a n"
    unfolding mem_pages by (rule exI [of _ "n - 1"]) (use assms(2) in simp)
  then have "a + (n - 1) * PageBytes \<in> region_pages r"
    using assms(1) by blast
  then obtain j where "a + (n - 1) * PageBytes = fst r + j * PageBytes" "j < snd r div PageBytes"
    by (auto simp: region_pages_def mem_pages)
  then have "(k + (n - 1)) * PageBytes = j * PageBytes" "j < snd r div PageBytes"
    by (simp_all add: k(1) add_mult_distrib)
  then have "k + (n - 1) < snd r div PageBytes" by (simp add: PageBytes_def)
  then show ?thesis using k(1) assms(2) by auto
qed

lemma page_indices_ok:
  assumes "impl_ok r m st" "k + n \<le> snd r div PageBytes"
  shows "page_indices (fst r + k * PageBytes) n m = [k..<k + n]"
    "GetPageOffsetToEnd (m_heap m) (fst r + k * PageBytes) = snd r div PageBytes - k"
    "GetPageOffset (m_heap m) (fst r + k * PageBytes) = k"
proof -
  note ok = impl_okD [OF assms(1)]
  have "(k + n) * PageBytes \<le> snd r"
    using mult_le_mono1 [OF assms(2), of PageBytes] ok(8) by simp
  then have le: "fst r + k * PageBytes < 2 ^ 64" "k * PageBytes \<le> snd r" "k + n < 2 ^ 64"
    using ok(4) by (simp_all add: PageBytes_def)
  show offset: "GetPageOffset (m_heap m) (fst r + k * PageBytes) = k"
    using le ok(5) by (simp add: GetPageOffset_def sub64_less PageBytes_def)
  show "page_indices (fst r + k * PageBytes) n m = [k..<k + n]"
    using le offset by (simp add: page_indices_def wrap64_less Let_def)
  have "sub64 (heap_GetEndAddress (m_heap m)) (fst r + k * PageBytes) = snd r - k * PageBytes"
    using le ok(4,5,6) by (simp add: heap_GetEndAddress_def wrap64_less sub64_less)
  then show "GetPageOffsetToEnd (m_heap m) (fst r + k * PageBytes) = snd r div PageBytes - k"
    using ok(2) by (auto simp: GetPageOffsetToEnd_def PageBytes_def elim!: dvdE)
qed

section \<open>Blocks of one manager\<close>

lemma impl_allocate:
  assumes ok: "impl_ok r m (P, c)" and "valid_request q"
  shows "\<exists>a m'. on_heap (allocate q) m = Some (a, m') \<and> same_links m m' \<and>
    (a = 0 \<and> impl_ok r m' (P, c) \<or>
     a \<noteq> 0 \<and> PageBytes dvd a \<and> pages a (pages_of q) \<subseteq> P \<inter> region_pages r \<and> impl_ok r m' (P - pages a (pages_of q), c))"
proof -
  let ?R = "P \<inter> region_pages r"
  obtain lo where h: "holds (fst r) (snd r) lo (m_heap m) (page_bytes ?R)"
    using ok by (auto simp: impl_ok_def)
  obtain a h' where a: "allocate q (m_heap m) = Some (a, h')" "a = 0 \<and> holds (fst r) (snd r) lo h' (page_bytes ?R) \<or>
      a \<noteq> 0 \<and> PageBytes dvd a \<and> extent (a, pages_of q) \<subseteq> page_bytes ?R \<and>
      holds (fst r) (snd r) lo h' (page_bytes ?R - extent (a, pages_of q))"
    using kernel_heap.get_ok [OF h assms(2)] by blast
  let ?m = "m\<lparr>m_heap := h'\<rparr>" and ?X = "pages a (pages_of q)"
  have al: "aligned_pages ?R" using impl_okD(7) [OF ok] by (rule aligned_subset) simp
  have "a = 0 \<and> impl_ok r ?m (P, c) \<or> a \<noteq> 0 \<and> PageBytes dvd a \<and> ?X \<subseteq> ?R \<and> impl_ok r ?m (P - ?X, c)"
  proof (cases "a = 0")
    case True
    then show ?thesis using a(2) ok by (auto simp: impl_ok_def)
  next
    case False
    then have a': "PageBytes dvd a" "page_bytes ?X \<subseteq> page_bytes ?R" "holds (fst r) (snd r) lo h' (page_bytes ?R - page_bytes ?X)"
      using a(2) by (simp_all add: extent_pages)
    then have sub: "?X \<subseteq> ?R"
      using page_bytes_subset [OF aligned_pages_pages al] by simp
    have "(P - ?X) \<inter> region_pages r = ?R - ?X" by blast
    then have "page_bytes ?R - page_bytes ?X = page_bytes ((P - ?X) \<inter> region_pages r)"
      using page_bytes_diff [OF al sub] by simp
    then show ?thesis
      using False a' sub ok by (auto simp: impl_ok_def)
  qed
  then show ?thesis
    using a(1) by (intro exI [of _ a] exI [of _ ?m]) (simp add: on_heap_def)
qed

lemma impl_free:
  assumes ok: "impl_ok r m (P, c)" and "PageBytes dvd a" "pages a n \<subseteq> region_pages r" "pages a n \<inter> P = {}"
  shows "\<exists>m'. Impl_Free a n m = Some m' \<and> same_links m m' \<and> impl_ok r m' (P \<union> pages a n, c)"
proof -
  let ?R = "P \<inter> region_pages r" and ?X = "pages a n"
  obtain lo where h: "holds (fst r) (snd r) lo (m_heap m) (page_bytes ?R)"
    using ok by (auto simp: impl_ok_def)
  note k = impl_okD [OF ok]
  have al: "aligned_pages ?R" "aligned_pages ?X"
    using k(7) assms(2) by (auto intro: aligned_subset aligned_pages_pages)
  have "page_bytes (region_pages r) = {fst r..<fst r + snd r}"
    using k(8) extent_pages [of "fst r" "snd r div PageBytes"] by (simp add: region_pages_def extent_def)
  then have "extent (a, n) \<subseteq> {fst r..<fst r + snd r}"
    using page_bytes_subset [OF al(2) k(7)] assms(3) by (simp add: extent_pages)
  moreover have "extent (a, n) \<inter> page_bytes ?R = {}"
    unfolding extent_pages using assms(4) by (intro page_bytes_disjoint al) blast
  ultimately obtain h' where h': "Free a n (m_heap m) = Some h'" "holds (fst r) (snd r) lo h' (page_bytes ?R \<union> extent (a, n))"
    using kernel_heap.give_ok [OF h assms(2)] by blast
  have "page_bytes ?R \<union> extent (a, n) = page_bytes ((P \<union> ?X) \<inter> region_pages r)"
    using assms(3) by (simp add: extent_pages page_bytes_Un [symmetric] Int_Un_distrib2 Int_absorb2)
  then show ?thesis
    using h' ok by (auto simp: Impl_Free_def impl_ok_def)
qed

section \<open>References of one manager\<close>

definition bump :: "nat set \<Rightarrow> (nat \<Rightarrow> nat) \<Rightarrow> nat \<Rightarrow> nat" where
  "bump X c = (\<lambda>p. if p \<in> X then c p + 1 else c p)"

definition lower :: "nat set \<Rightarrow> (nat \<Rightarrow> nat) \<Rightarrow> nat \<Rightarrow> nat" where
  "lower X c = (\<lambda>p. if p \<in> X then c p - 1 else c p)"

lemma increment_counts_ok:
  "k + n \<le> length cs \<Longrightarrow> \<exists>cs'. increment_counts [k..<k + n] cs = Some cs' \<and> length cs' = length cs \<and>
    (\<forall>j < length cs. cs' ! j = (if k \<le> j \<and> j < k + n then cs ! j + 1 else cs ! j))"
proof (induction n arbitrary: k cs)
  case (Suc n)
  let ?cs = "cs[k := cs ! k + 1]"
  obtain cs' where "increment_counts [Suc k..<Suc k + n] ?cs = Some cs'" "length cs' = length cs"
    "\<forall>j < length cs. cs' ! j = (if Suc k \<le> j \<and> j < Suc k + n then ?cs ! j + 1 else ?cs ! j)"
    using Suc.IH [of "Suc k" ?cs] Suc.prems by auto
  moreover have "[k..<k + Suc n] = k # [Suc k..<Suc k + n]"
    by (simp add: upt_conv_Cons)
  moreover have "(if Suc k \<le> j \<and> j < Suc k + n then ?cs ! j + 1 else ?cs ! j) =
      (if k \<le> j \<and> j < k + Suc n then cs ! j + 1 else cs ! j)" if "j < length cs" for j
    using that by (cases "j = k") auto
  ultimately show ?case
    using Suc.prems by (simp del: upt_Suc add: fetch_def store_def)
qed simp

text \<open>Membership by index.\<close>

lemma index_in_pages: "A + j * PageBytes \<in> pages (A + k * PageBytes) n \<longleftrightarrow> k \<le> j \<and> j < k + n"
proof -
  have "A + j * PageBytes = A + k * PageBytes + i * PageBytes \<longleftrightarrow> j = k + i" for i
    by (simp only: add.assoc add_mult_distrib [symmetric] add_left_cancel mult_cancel2) (simp add: PageBytes_def)
  then show ?thesis by (auto simp: mem_pages intro: exI [of _ "j - k"])
qed

lemma pages_in_region: "k + n \<le> snd r div PageBytes \<Longrightarrow> pages (fst r + k * PageBytes) n \<subseteq> region_pages r"
  using pages_add [of "fst r" k "snd r div PageBytes - k"] pages_add [of "fst r + k * PageBytes" n "snd r div PageBytes - k - n"]
  by (auto simp: region_pages_def)

lemma pages_first:
  "pages (A + k * PageBytes) (Suc n) = insert (A + k * PageBytes) (pages (A + Suc k * PageBytes) n)"
  "A + k * PageBytes \<notin> pages (A + Suc k * PageBytes) n"
proof -
  have "pages (A + k * PageBytes) (Suc n) = pages (A + k * PageBytes) 1 \<union> pages (A + k * PageBytes + 1 * PageBytes) n"
    using pages_add [of "A + k * PageBytes" 1 n] by simp
  also have "A + k * PageBytes + 1 * PageBytes = A + Suc k * PageBytes" by simp
  finally show "pages (A + k * PageBytes) (Suc n) = insert (A + k * PageBytes) (pages (A + Suc k * PageBytes) n)"
    by (auto simp: pages_Suc)
  show "A + k * PageBytes \<notin> pages (A + Suc k * PageBytes) n"
    using index_in_pages [of A k "Suc k" n] by simp
qed

lemma impl_counts:
  assumes "impl_ok r m (P, c)"
  shows "snd r div PageBytes \<le> length (m_page_reference_counts m)"
    "\<And>j. j < snd r div PageBytes \<Longrightarrow> unat (m_page_reference_counts m ! j) = c (fst r + j * PageBytes)"
  using assms by (simp_all add: impl_ok_def)

lemma impl_ok_counts:
  assumes "impl_ok r m (P, c)" "length cs = length (m_page_reference_counts m)"
    "\<And>j. j < snd r div PageBytes \<Longrightarrow> unat (cs ! j) = d (fst r + j * PageBytes)"
  shows "impl_ok r (m\<lparr>m_page_reference_counts := cs\<rparr>) (P, d)"
  using assms by (simp add: impl_ok_def)

lemma impl_open:
  assumes ok: "impl_ok r m (P, c)" and "0 < n" "pages a n \<subseteq> region_pages r" "\<And>p. p \<in> pages a n \<Longrightarrow> c p < 2 ^ 16 - 1"
  shows "\<exists>m'. Impl_Open a n m = Some m' \<and> Impl_OpenFirst a n m = Some m' \<and> same_links m m' \<and> impl_ok r m' (P, bump (pages a n) c)"
proof -
  note k = impl_okD [OF ok] and counts = impl_counts [OF ok]
  obtain k where a: "a = fst r + k * PageBytes" "k + n \<le> snd r div PageBytes"
    using in_region [OF assms(3,2) k(1,2,4)] by blast
  let ?cs = "m_page_reference_counts m"
  obtain cs' where cs': "increment_counts [k..<k + n] ?cs = Some cs'" "length cs' = length ?cs"
    "\<And>j. j < length ?cs \<Longrightarrow> cs' ! j = (if k \<le> j \<and> j < k + n then ?cs ! j + 1 else ?cs ! j)"
    using increment_counts_ok [of k n ?cs] a(2) counts(1) by auto
  have "unat (cs' ! j) = bump (pages a n) c (fst r + j * PageBytes)" if "j < snd r div PageBytes" for j
  proof (cases "k \<le> j \<and> j < k + n")
    case True
    then have "unat (?cs ! j) < 2 ^ 16 - 1"
      using assms(4) index_in_pages a(1) counts(2) [OF that] by simp
    then have "unat (?cs ! j + 1) = unat (?cs ! j) + 1"
      by (subst unat_add_lem [THEN iffD1]) simp_all
    then show ?thesis
      using True counts cs'(3) [of j] that by (simp add: bump_def a(1) index_in_pages)
  qed (use counts cs'(3) that in \<open>auto simp: bump_def a(1) index_in_pages\<close>)
  then have "impl_ok r (m\<lparr>m_page_reference_counts := cs'\<rparr>) (P, bump (pages a n) c)"
    by (rule impl_ok_counts [OF ok cs'(2)])
  then show ?thesis
    using cs'(1) page_indices_ok(1) [OF ok a(2)] by (simp add: Impl_Open_def Impl_OpenFirst_def a(1))
qed

text \<open>Closing: the pages that lose their last reference are freed, in runs.\<close>

definition last_references :: "nat set \<Rightarrow> (nat \<Rightarrow> nat) \<Rightarrow> nat set" where
  "last_references X c = {p \<in> X. c p = 1}"

lemma free_run_ok:
  assumes ok: "impl_ok r m (P, c)" and "fs + fc \<le> snd r div PageBytes" "pages (fst r + fs * PageBytes) fc \<inter> P = {}"
  shows "\<exists>m'. free_run fs fc m = Some m' \<and> same_links m m' \<and> impl_ok r m' (P \<union> pages (fst r + fs * PageBytes) fc, c)"
proof (cases "fc = 0")
  case True
  then show ?thesis using ok by (simp add: free_run_def)
next
  case False
  note k = impl_okD [OF ok]
  have "(fs + fc) * PageBytes \<le> snd r"
    using mult_le_mono1 [OF assms(2), of PageBytes] k(8) by simp
  then have "wrap64 (m_heap_address (m_heap m) + fs * PageBytes) = fst r + fs * PageBytes"
    using k(4,5) by (simp add: wrap64_less PageBytes_def)
  moreover have "PageBytes dvd fst r + fs * PageBytes" using k(1) by simp
  ultimately show ?thesis
    using False impl_free [OF ok _ pages_in_region [OF assms(2)] assms(3)] by (simp add: free_run_def)
qed

lemma lower_first:
  assumes "p = A + k * PageBytes"
  shows "lower (pages p (Suc n)) c = lower (pages (A + Suc k * PageBytes) n) (c(p := c p - 1))"
    "last_references (pages p (Suc n)) c =
       (if c p = 1 then {p} else {}) \<union> last_references (pages (A + Suc k * PageBytes) n) (c(p := c p - 1))"
proof -
  note X = pages_first(1) [of A k n, folded assms] and p = pages_first(2) [of A k n, folded assms]
  show "lower (pages p (Suc n)) c = lower (pages (A + Suc k * PageBytes) n) (c(p := c p - 1))"
    unfolding X using p by (auto simp: lower_def)
  show "last_references (pages p (Suc n)) c = (if c p = 1 then {p} else {}) \<union> last_references (pages (A + Suc k * PageBytes) n) (c(p := c p - 1))"
    unfolding X using p by (auto simp: last_references_def)
qed

text \<open>One count is lowered.\<close>

lemma lower_count:
  assumes ok: "impl_ok r m (P, c)" and k: "k < snd r div PageBytes" "0 < c (fst r + k * PageBytes)"
  shows "\<exists>x cs. fetch (m_page_reference_counts m) k = Some x \<and> store (m_page_reference_counts m) k (x - 1) = Some cs \<and>
    (x - 1 = 0 \<longleftrightarrow> c (fst r + k * PageBytes) = 1) \<and>
    impl_ok r (m\<lparr>m_page_reference_counts := cs\<rparr>) (P, c(fst r + k * PageBytes := c (fst r + k * PageBytes) - 1))"
proof -
  let ?p = "fst r + k * PageBytes" and ?cs = "m_page_reference_counts m"
  note counts = impl_counts [OF ok]
  have "?cs ! k \<noteq> 0" using k(2) counts(2) [OF k(1)] by (auto simp: unat_gt_0)
  then have lowered: "unat (?cs ! k - 1) = c ?p - 1"
    using counts(2) [OF k(1)] by (simp add: unat_minus_one)
  then have one: "?cs ! k - 1 = 0 \<longleftrightarrow> c ?p = 1"
    using k(2) by (metis One_nat_def Suc_pred diff_self_eq_0 diff_Suc_1 unat_eq_zero)
  have len: "k < length ?cs" using k(1) counts(1) by simp
  have "impl_ok r (m\<lparr>m_page_reference_counts := ?cs[k := ?cs ! k - 1]\<rparr>) (P, c(?p := c ?p - 1))"
  proof (rule impl_ok_counts [OF ok])
    show "unat (?cs[k := ?cs ! k - 1] ! j) = (c(?p := c ?p - 1)) (fst r + j * PageBytes)" if "j < snd r div PageBytes" for j
      using that len lowered counts(2) [OF that] by (cases "j = k") (auto simp: PageBytes_def)
  qed simp
  then show ?thesis using one len by (simp add: fetch_def store_def)
qed

text \<open>The pending run of pages to free: it grows at its end, or is freed and starts anew.\<close>

lemma run_grows:
  assumes "0 < fc \<Longrightarrow> fs + fc = k"
  shows "pages (A + (if 0 < fc then fs else k) * PageBytes) (if 0 < fc then fc + 1 else 1) =
    insert (A + k * PageBytes) (pages (A + fs * PageBytes) fc)"
proof (cases "0 < fc")
  case True
  then have eq: "A + k * PageBytes = A + fs * PageBytes + fc * PageBytes"
    using assms by (simp only: add_mult_distrib [symmetric] add.assoc)
  show ?thesis unfolding eq using True by (simp add: pages_Suc)
qed (auto simp: mem_pages)

lemma run_behind:
  assumes "0 < fc \<Longrightarrow> fs + fc = k"
  shows "pages (A + fs * PageBytes) fc \<inter> pages (A + Suc k * PageBytes) n = {}"
proof (cases "0 < fc")
  case True
  then have eq: "A + fs * PageBytes + fc * PageBytes = A + k * PageBytes"
    using assms by (simp only: add_mult_distrib [symmetric] add.assoc)
  have "pages (A + fs * PageBytes) fc \<inter> pages (A + fs * PageBytes + fc * PageBytes) (Suc n) = {}" by (rule pages_disjoint)
  then show ?thesis unfolding eq pages_first(1) by blast
qed simp

lemma close_step:
  assumes ok: "impl_ok r m (P, c)" and k: "k < snd r div PageBytes" and run: "0 < fc \<Longrightarrow> fs + fc = k" "fs \<le> k"
    "pages (fst r + fs * PageBytes) fc \<inter> P = {}" and p: "0 < c (fst r + k * PageBytes)" "fst r + k * PageBytes \<notin> P"
  shows "\<exists>m1 P1 fs1 fc1. close_pages [k..<k + Suc n] fs fc m = close_pages [Suc k..<Suc k + n] fs1 fc1 m1 \<and> same_links m m1 \<and>
    impl_ok r m1 (P1, c(fst r + k * PageBytes := c (fst r + k * PageBytes) - 1)) \<and> (0 < fc1 \<longrightarrow> fs1 + fc1 = Suc k) \<and> fs1 \<le> Suc k \<and>
    pages (fst r + fs1 * PageBytes) fc1 \<inter> P1 = {} \<and> P1 \<subseteq> P \<union> pages (fst r + fs * PageBytes) fc \<and>
    P1 \<union> pages (fst r + fs1 * PageBytes) fc1 =
      P \<union> pages (fst r + fs * PageBytes) fc \<union> (if c (fst r + k * PageBytes) = 1 then {fst r + k * PageBytes} else {})"
proof -
  let ?p = "fst r + k * PageBytes" and ?Z = "pages (fst r + fs * PageBytes) fc"
  obtain x cs where x: "fetch (m_page_reference_counts m) k = Some x" "store (m_page_reference_counts m) k (x - 1) = Some cs"
    and one: "x - 1 = 0 \<longleftrightarrow> c ?p = 1" and ok': "impl_ok r (m\<lparr>m_page_reference_counts := cs\<rparr>) (P, c(?p := c ?p - 1))"
    using lower_count [OF ok k p(1)] by blast
  let ?m = "m\<lparr>m_page_reference_counts := cs\<rparr>"
  have upt: "[k..<k + Suc n] = k # [Suc k..<Suc k + n]" by (simp add: upt_conv_Cons)
  show ?thesis
  proof (cases "c ?p = 1")
    case True
    let ?fs = "if 0 < fc then fs else k" and ?fc = "if 0 < fc then fc + 1 else 1"
    have "close_pages [k..<k + Suc n] fs fc m = close_pages [Suc k..<Suc k + n] ?fs ?fc ?m"
      unfolding upt using x one True by (simp del: upt_Suc add: Let_def)
    moreover have "?fs + ?fc = Suc k" "?fs \<le> Suc k" using run(1,2) by auto
    moreover note run_grows [OF run(1), of "fst r"]
    ultimately show ?thesis
      using ok' True run(3) p(2) by (intro exI [of _ ?m] exI [of _ P] exI [of _ ?fs] exI [of _ ?fc]) auto
  next
    case False
    have "fs + fc \<le> snd r div PageBytes" using run(1,2) k by (cases "0 < fc") auto
    then obtain m1 where m1: "free_run fs fc ?m = Some m1" "same_links ?m m1" "impl_ok r m1 (P \<union> ?Z, c(?p := c ?p - 1))"
      using free_run_ok [OF ok' _ run(3)] by blast
    have "close_pages [k..<k + Suc n] fs fc m = close_pages [Suc k..<Suc k + n] fs 0 m1"
      unfolding upt using x one False m1(1) by (simp del: upt_Suc add: Let_def)
    moreover have "same_links m m1" using m1(2) by (simp add: same_links_def)
    ultimately show ?thesis
      using m1(3) False run(2) by (intro exI [of _ m1] exI [of _ "P \<union> ?Z"] exI [of _ fs] exI [of _ 0]) simp
  qed
qed

lemma close_pages_ok:
  assumes "impl_ok r m (P, c)" "k + n \<le> snd r div PageBytes" "0 < fc \<Longrightarrow> fs + fc = k" "fs \<le> k"
    "pages (fst r + fs * PageBytes) fc \<inter> P = {}"
    "\<And>p. p \<in> pages (fst r + k * PageBytes) n \<Longrightarrow> 0 < c p \<and> p \<notin> P"
  shows "\<exists>m'. close_pages [k..<k + n] fs fc m = Some m' \<and> same_links m m' \<and>
    impl_ok r m' (P \<union> pages (fst r + fs * PageBytes) fc \<union> last_references (pages (fst r + k * PageBytes) n) c,
      lower (pages (fst r + k * PageBytes) n) c)"
  using assms
proof (induction n arbitrary: m P c k fs fc)
  case 0
  then show ?case using free_run_ok [OF "0.prems"(1), of fs fc] by (cases "fc = 0") (auto simp: lower_def last_references_def free_run_def)
next
  case (Suc n)
  let ?p = "fst r + k * PageBytes" and ?Y = "pages (fst r + Suc k * PageBytes) n" and ?Z = "pages (fst r + fs * PageBytes) fc"
  let ?d = "c(?p := c ?p - 1)"
  note X = pages_first [of "fst r" k n] and lf = lower_first [OF refl, of "fst r" k n c]
  have k: "k < snd r div PageBytes" "Suc k + n \<le> snd r div PageBytes" using Suc.prems(2) by simp_all
  have p: "0 < c ?p" "?p \<notin> P" using Suc.prems(6) by (simp_all add: X(1))
  obtain m1 P1 fs1 fc1 where step: "close_pages [k..<k + Suc n] fs fc m = close_pages [Suc k..<Suc k + n] fs1 fc1 m1" "same_links m m1"
    "impl_ok r m1 (P1, ?d)" "0 < fc1 \<longrightarrow> fs1 + fc1 = Suc k" "fs1 \<le> Suc k" "pages (fst r + fs1 * PageBytes) fc1 \<inter> P1 = {}" "P1 \<subseteq> P \<union> ?Z"
    "P1 \<union> pages (fst r + fs1 * PageBytes) fc1 = P \<union> ?Z \<union> (if c ?p = 1 then {?p} else {})"
    using close_step [OF Suc.prems(1) k(1) Suc.prems(3-5) p] by blast
  have "0 < ?d q \<and> q \<notin> P1" if "q \<in> ?Y" for q
    using Suc.prems(6) [of q] that X step(7) run_behind [OF Suc.prems(3), of "fst r" n] by auto
  then obtain m' where m': "close_pages [Suc k..<Suc k + n] fs1 fc1 m1 = Some m'" "same_links m1 m'"
    "impl_ok r m' (P1 \<union> pages (fst r + fs1 * PageBytes) fc1 \<union> last_references ?Y ?d, lower ?Y ?d)"
    using Suc.IH [OF step(3) k(2)] step(4-6) by blast
  show ?case
    using m'(1,3) step(1) same_links_trans [OF step(2) m'(2)] unfolding step(8) lf by (intro exI [of _ m']) (simp add: Un_assoc)
qed

lemma impl_close:
  assumes ok: "impl_ok r m (P, c)" and "0 < n" "pages a n \<subseteq> region_pages r" "\<And>p. p \<in> pages a n \<Longrightarrow> 0 < c p \<and> p \<notin> P"
  shows "\<exists>m'. Impl_Close a n m = Some m' \<and> same_links m m' \<and>
    impl_ok r m' (P \<union> last_references (pages a n) c, lower (pages a n) c)"
proof -
  note k = impl_okD [OF ok]
  obtain k where a: "a = fst r + k * PageBytes" "k + n \<le> snd r div PageBytes"
    using in_region [OF assms(3,2) k(1,2,4)] by blast
  show ?thesis
    using close_pages_ok [OF ok a(2), of 0 0] assms(4) page_indices_ok(1) [OF ok a(2)] by (simp add: Impl_Close_def a(1))
qed

end
