(* ===== verification/MemoryManager_Rep.thy ===== *)
theory MemoryManager_Rep
  imports MemoryManager_Laws
begin

text \<open>
  All managers together against one set of free pages and one count of references per page: the loops over
  the managers of a pool and over the chunks of a range (locale \<open>chunk_op\<close>, interpreted on
  opening and closing).
\<close>

section \<open>The invariant\<close>

text \<open>The managers of a pool, in the order in which a loop visits them.\<close>

fun chain :: "nat \<Rightarrow> KMemoryManager \<Rightarrow> nat option \<Rightarrow> nat list \<Rightarrow> bool" where
  "chain dir mm cur [] \<longleftrightarrow> cur = None"
| "chain dir mm cur (i # is) \<longleftrightarrow>
     cur = Some i \<and> (\<exists>next_manager. GetNextManager i dir mm = Some next_manager \<and> chain dir mm next_manager is)"

definition frame_ok :: "(nat \<times> nat) list \<Rightarrow> KMemoryManager \<Rightarrow> bool" where
  "frame_ok rs mm \<longleftrightarrow> length rs \<le> length (m_managers mm) \<and> length (m_has_optimized_process mm) = 4 \<and>
     length (m_optimized_process_ids mm) = 4 \<and>
     (\<forall>i < length rs. \<forall>p \<in> region_pages (rs ! i). GetManager mm p = Some i) \<and>
     (\<forall>pool < 4. \<forall>dir. \<exists>first is. GetFirstManager pool dir mm = Some first \<and> chain dir mm first is \<and> set is \<subseteq> {..<length rs})"

definition mm_ok :: "(nat \<times> nat) list \<Rightarrow> KMemoryManager \<Rightarrow> books \<Rightarrow> bool" where
  "mm_ok rs mm st \<longleftrightarrow> frame_ok rs mm \<and> (\<forall>i < length rs. impl_ok (rs ! i) (m_managers mm ! i) st)"

definition all_pages :: "(nat \<times> nat) list \<Rightarrow> nat set" where
  "all_pages rs = (\<Union>r \<in> set rs. region_pages r)"

text \<open>What no operation of a running manager changes.\<close>

definition same_frame :: "KMemoryManager \<Rightarrow> KMemoryManager \<Rightarrow> bool" where
  "same_frame mm mm' \<longleftrightarrow> m_memory_layout mm' = m_memory_layout mm \<and> m_pool_managers_head mm' = m_pool_managers_head mm \<and>
     m_pool_managers_tail mm' = m_pool_managers_tail mm \<and> m_num_managers mm' = m_num_managers mm \<and>
     m_optimized_process_ids mm' = m_optimized_process_ids mm \<and> m_has_optimized_process mm' = m_has_optimized_process mm \<and>
     list_all2 same_links (m_managers mm) (m_managers mm')"

lemma same_frame_refl [simp]: "same_frame mm mm"
  by (simp add: same_frame_def list_all2_refl)

lemma same_frame_trans:
  assumes "same_frame mm mm1" "same_frame mm1 mm2" shows "same_frame mm mm2"
proof -
  have "list_all2 same_links (m_managers mm) (m_managers mm2)"
    using assms by (intro list_all2_trans [OF same_links_trans]) (auto simp: same_frame_def)
  then show ?thesis using assms by (simp add: same_frame_def)
qed

lemma same_frame_device [simp]: "same_frame mm (mm\<lparr>device_memory := dev\<rparr>)"
  by (simp add: same_frame_def list_all2_refl)

lemma same_frame_calls:
  assumes "same_frame mm mm'"
  shows "length (m_managers mm') = length (m_managers mm)" "GetManager mm' p = GetManager mm p"
    "GetFirstManager pool dir mm' = GetFirstManager pool dir mm" "GetNextManager i dir mm' = GetNextManager i dir mm"
    "chain dir mm' cur is = chain dir mm cur is"
proof -
  have links: "list_all2 same_links (m_managers mm) (m_managers mm')" using assms by (simp add: same_frame_def)
  then show len: "length (m_managers mm') = length (m_managers mm)" by (simp add: list_all2_lengthD)
  then show "GetManager mm' p = GetManager mm p" using assms by (simp add: GetManager_def same_frame_def)
  show "GetFirstManager pool dir mm' = GetFirstManager pool dir mm"
    using assms by (simp add: GetFirstManager_def same_frame_def)
  have next_same: "GetNextManager i dir mm' = GetNextManager i dir mm" for i
    using list_all2_nthD [OF links, of i] len by (auto simp: GetNextManager_def fetch_def same_links_def)
  then show "GetNextManager i dir mm' = GetNextManager i dir mm" .
  show "chain dir mm' cur is = chain dir mm cur is"
    by (induction "is" arbitrary: cur) (simp_all add: next_same)
qed

lemma same_frame_ok: "same_frame mm mm' \<Longrightarrow> frame_ok rs mm' = frame_ok rs mm"
  using same_frame_calls [of mm mm'] by (simp add: frame_ok_def same_frame_def)

lemma frame_okD:
  assumes "frame_ok rs mm"
  shows "\<And>i p. i < length rs \<Longrightarrow> p \<in> region_pages (rs ! i) \<Longrightarrow> GetManager mm p = Some i"
    "\<And>pool dir. pool < 4 \<Longrightarrow>
       \<exists>first is. GetFirstManager pool dir mm = Some first \<and> chain dir mm first is \<and> set is \<subseteq> {..<length rs}"
    "\<And>pool. pool < 4 \<Longrightarrow> fetch (m_has_optimized_process mm) pool = Some (m_has_optimized_process mm ! pool)"
  using assms unfolding frame_ok_def fetch_def by (blast, blast, simp)

lemma regions_apart:
  assumes "frame_ok rs mm" "i < length rs" "j < length rs" "p \<in> region_pages (rs ! i)" "p \<in> region_pages (rs ! j)"
  shows "i = j"
  using frame_okD(1) [OF assms(1,2,4)] frame_okD(1) [OF assms(1,3,5)] by simp

lemma mm_okD:
  assumes "mm_ok rs mm st"
  shows "frame_ok rs mm" "\<And>i. i < length rs \<Longrightarrow> impl_ok (rs ! i) (m_managers mm ! i) st"
    "\<And>i. i < length rs \<Longrightarrow> fetch (m_managers mm) i = Some (m_managers mm ! i)"
  using assms by (auto simp: mm_ok_def frame_ok_def fetch_def)

lemma mm_ok_device [simp]: "mm_ok rs (mm\<lparr>device_memory := dev\<rparr>) st = mm_ok rs mm st"
  using same_frame_ok [OF same_frame_device] by (simp add: mm_ok_def)

text \<open>An operation of one manager.\<close>

definition agree_off :: "nat set \<Rightarrow> books \<Rightarrow> books \<Rightarrow> bool" where
  "agree_off X st st' \<longleftrightarrow> (\<forall>p. p \<notin> X \<longrightarrow> (p \<in> fst st' \<longleftrightarrow> p \<in> fst st) \<and> snd st' p = snd st p)"

lemma on_manager_ok:
  assumes "mm_ok rs mm st" "i < length rs" "f (m_managers mm ! i) = Some (x, m')" "same_links (m_managers mm ! i) m'"
    "impl_ok (rs ! i) m' st'" "agree_off (region_pages (rs ! i)) st st'"
  shows "\<exists>mm'. on_manager i f mm = Some (x, mm') \<and> same_frame mm mm' \<and> mm_ok rs mm' st'"
proof -
  note ok = mm_okD [OF assms(1)]
  let ?mm = "mm\<lparr>m_managers := (m_managers mm)[i := m']\<rparr>"
  have i: "i < length (m_managers mm)" using ok(1) assms(2) by (simp add: frame_ok_def)
  have frame: "same_frame mm ?mm"
    using i assms(4) by (auto simp: same_frame_def list_all2_conv_all_nth nth_list_update)
  have "impl_ok (rs ! j) (m_managers ?mm ! j) st'" if j: "j < length rs" for j
  proof (cases "j = i")
    case False
    have off: "p \<notin> region_pages (rs ! i)" if "p \<in> region_pages (rs ! j)" for p
      using regions_apart [OF ok(1) assms(2) j _ that] False by blast
    have "impl_ok (rs ! j) (m_managers mm ! j) st'"
    proof (rule impl_ok_cong [OF ok(2) [OF j]])
      show "fst st \<inter> region_pages (rs ! j) = fst st' \<inter> region_pages (rs ! j)"
        using off assms(6) by (auto simp: agree_off_def)
      show "snd st' p = snd st p" if "p \<in> region_pages (rs ! j)" for p
        using off [OF that] assms(6) by (simp add: agree_off_def)
    qed
    then show ?thesis using False by simp
  qed (use i assms(5) in simp)
  then have "mm_ok rs ?mm st'"
    using same_frame_ok [OF frame, of rs] ok(1) by (simp add: mm_ok_def)
  moreover have "on_manager i f mm = Some (x, ?mm)"
    using i assms(3) by (simp add: on_manager_def fetch_def store_def)
  ultimately show ?thesis using frame by blast
qed

lemma change_manager_ok:
  assumes "mm_ok rs mm st" "i < length rs" "f (m_managers mm ! i) = Some m'" "same_links (m_managers mm ! i) m'"
    "impl_ok (rs ! i) m' st'" "agree_off (region_pages (rs ! i)) st st'"
  shows "\<exists>mm'. change_manager i f mm = Some mm' \<and> same_frame mm mm' \<and> mm_ok rs mm' st'"
  using on_manager_ok [OF assms(1,2) _ assms(4-6), of "\<lambda>m. map_option (Pair ()) (f m)" "()"] assms(3)
  by (auto simp: change_manager_def)

section \<open>The loop over the chunks of a range\<close>

lemma first_chunk:
  assumes "mm_ok rs mm st" "pages a n \<subseteq> all_pages rs" "0 < n"
  shows "\<exists>i cur. i < length rs \<and> GetManager mm a = Some i \<and> fetch (m_managers mm) i = Some (m_managers mm ! i) \<and>
    min n (GetPageOffsetToEnd (m_heap (m_managers mm ! i)) a) = cur \<and> 0 < cur \<and> pages a cur \<subseteq> region_pages (rs ! i) \<and>
    pages a n = pages a cur \<union> pages (a + cur * PageBytes) (n - cur) \<and> wrap64 (a + cur * PageBytes) = a + cur * PageBytes \<and>
    (cur = n \<or> a + cur * PageBytes \<notin> region_pages (rs ! i))"
proof -
  have "a \<in> pages a n" using assms(3) by (force simp: mem_pages)
  then obtain i where i: "i < length rs" "a \<in> region_pages (rs ! i)"
    using assms(2) unfolding all_pages_def by (metis UN_E in_set_conv_nth subsetD)
  then obtain k where k: "a = fst (rs ! i) + k * PageBytes" "k < snd (rs ! i) div PageBytes"
    by (auto simp: region_pages_def mem_pages)
  note ok = mm_okD [OF assms(1)] and impl = impl_okD [OF mm_okD(2) [OF assms(1) i(1)]]
  let ?N = "snd (rs ! i) div PageBytes"
  let ?cur = "min n (?N - k)"
  have cur: "0 < ?cur" "k + ?cur \<le> ?N" "?cur + (n - ?cur) = n" using assms(3) k(2) by auto
  have "(k + ?cur) * PageBytes \<le> snd (rs ! i)"
    using mult_le_mono1 [OF cur(2), of PageBytes] impl(8) by simp
  then have "wrap64 (a + ?cur * PageBytes) = a + ?cur * PageBytes"
    using impl(4) unfolding k(1) add_mult_distrib by (intro wrap64_less) linarith
  moreover have "pages a n = pages a ?cur \<union> pages (a + ?cur * PageBytes) (n - ?cur)"
    using pages_add [of a ?cur "n - ?cur"] cur(3) by simp
  moreover have "pages a ?cur \<subseteq> region_pages (rs ! i)"
    unfolding k(1) by (rule pages_in_region) (rule cur(2))
  moreover have "GetPageOffsetToEnd (m_heap (m_managers mm ! i)) a = ?N - k"
    using page_indices_ok(2) [OF ok(2) [OF i(1)] cur(2)] k(1) by simp
  moreover have "?cur = n \<or> a + ?cur * PageBytes \<notin> region_pages (rs ! i)"
  proof (cases "n \<le> ?N - k")
    case False
    then have "a + ?cur * PageBytes = fst (rs ! i) + ?N * PageBytes"
      using k(2) unfolding k(1) by (simp add: add.assoc flip: add_mult_distrib)
    then show ?thesis by (auto simp: region_pages_def mem_pages)
  qed simp
  ultimately show ?thesis
    using i(1) cur(1) frame_okD(1) [OF ok(1) i] ok(3) [OF i(1)]
    by (intro exI [of _ i] exI [of _ ?cur]) simp
qed

locale chunk_op =
  fixes chunk :: "nat \<Rightarrow> nat \<Rightarrow> KMemoryManager_Impl \<Rightarrow> KMemoryManager_Impl option"
    and effect :: "nat set \<Rightarrow> books \<Rightarrow> books"
    and allowed :: "books \<Rightarrow> nat \<Rightarrow> bool"
  assumes chunk_ok: "impl_ok r m st \<Longrightarrow> 0 < n \<Longrightarrow> pages a n \<subseteq> region_pages r \<Longrightarrow> (\<And>p. p \<in> pages a n \<Longrightarrow> allowed st p) \<Longrightarrow>
      \<exists>m'. chunk a n m = Some m' \<and> same_links m m' \<and> impl_ok r m' (effect (pages a n) st)"
    and effect_none: "effect {} st = st"
    and effect_two: "X \<inter> Y = {} \<Longrightarrow> effect Y (effect X st) = effect (X \<union> Y) st"
    and effect_local: "agree_off X st (effect X st)"
    and allowed_local: "p \<notin> X \<Longrightarrow> allowed (effect X st) p = allowed st p"
begin

lemma chunks_ok:
  assumes "mm_ok rs mm st" "pages a n \<subseteq> all_pages rs" "\<And>p. p \<in> pages a n \<Longrightarrow> allowed st p"
  shows "\<exists>mm'. for_chunks (\<lambda>mm. mm) (\<lambda>i address k. change_manager i (chunk address k)) a n mm = Some mm' \<and>
    same_frame mm mm' \<and> mm_ok rs mm' (effect (pages a n) st)"
  using assms
proof (induction n arbitrary: a mm st rule: less_induct)
  case (less n)
  show ?case
  proof (cases "n = 0")
    case True
    then show ?thesis using less.prems(1) by (simp add: for_chunks.simps effect_none)
  next
    case False
    then obtain i cur where i: "i < length rs" "GetManager mm a = Some i" "fetch (m_managers mm) i = Some (m_managers mm ! i)"
      and cur: "min n (GetPageOffsetToEnd (m_heap (m_managers mm ! i)) a) = cur" "0 < cur" "pages a cur \<subseteq> region_pages (rs ! i)"
      and split: "pages a n = pages a cur \<union> pages (a + cur * PageBytes) (n - cur)"
      and wrap: "wrap64 (a + cur * PageBytes) = a + cur * PageBytes"
      using first_chunk [OF less.prems(1,2)] by blast
    note ok = mm_okD [OF less.prems(1)]
    let ?a = "a + cur * PageBytes"
    have apart: "pages a cur \<inter> pages ?a (n - cur) = {}" by (rule pages_disjoint)
    have may: "allowed st p" if "p \<in> pages a cur" for p
      using that less.prems(3) split by blast
    obtain m' where m': "chunk a cur (m_managers mm ! i) = Some m'" "same_links (m_managers mm ! i) m'"
        "impl_ok (rs ! i) m' (effect (pages a cur) st)"
      using chunk_ok [OF ok(2) [OF i(1)] cur(2,3) may] by blast
    have "agree_off (region_pages (rs ! i)) st (effect (pages a cur) st)"
      using effect_local [of "pages a cur" st] cur(3) by (auto simp: agree_off_def)
    then obtain mm1 where mm1: "change_manager i (chunk a cur) mm = Some mm1" "same_frame mm mm1"
        "mm_ok rs mm1 (effect (pages a cur) st)"
      using change_manager_ok [of rs mm st i "chunk a cur"] less.prems(1) i(1) m' by blast
    have "\<exists>mm'. for_chunks (\<lambda>mm. mm) (\<lambda>i address k. change_manager i (chunk address k)) ?a (n - cur) mm1 = Some mm' \<and>
        same_frame mm1 mm' \<and> mm_ok rs mm' (effect (pages ?a (n - cur)) (effect (pages a cur) st))"
    proof (rule less.IH [OF _ mm1(3)])
      show "pages ?a (n - cur) \<subseteq> all_pages rs" using split less.prems(2) by blast
      show "allowed (effect (pages a cur) st) p" if "p \<in> pages ?a (n - cur)" for p
        using that apart split less.prems(3) by (subst allowed_local) blast+
    qed (use cur(2) False in simp)
    moreover have "effect (pages ?a (n - cur)) (effect (pages a cur) st) = effect (pages a n) st"
      unfolding split by (rule effect_two [OF apart])
    ultimately show ?thesis
      using False mm1 wrap i(2,3) cur(1) same_frame_trans [OF mm1(2)] by (subst for_chunks.simps) (auto simp: Let_def)
  qed
qed

end

text \<open>The effects of opening and closing on the books.\<close>

definition opened :: "nat set \<Rightarrow> books \<Rightarrow> books" where
  "opened X st = (fst st, bump X (snd st))"

definition closed :: "nat set \<Rightarrow> books \<Rightarrow> books" where
  "closed X st = (fst st \<union> last_references X (snd st), lower X (snd st))"

definition openable :: "books \<Rightarrow> nat \<Rightarrow> bool" where
  "openable st p \<longleftrightarrow> snd st p < 2 ^ 16 - 1"

definition closable :: "books \<Rightarrow> nat \<Rightarrow> bool" where
  "closable st p \<longleftrightarrow> 0 < snd st p \<and> p \<notin> fst st"

lemmas books_defs = opened_def closed_def openable_def closable_def bump_def lower_def last_references_def agree_off_def

lemma opened_laws: "opened {} st = st" "X \<inter> Y = {} \<Longrightarrow> opened Y (opened X st) = opened (X \<union> Y) st"
  "agree_off X st (opened X st)" "p \<notin> X \<Longrightarrow> openable (opened X st) p = openable st p"
  by (auto simp: books_defs fun_eq_iff)

lemma closed_laws: "closed {} st = st" "X \<inter> Y = {} \<Longrightarrow> closed Y (closed X st) = closed (X \<union> Y) st"
  "agree_off X st (closed X st)" "p \<notin> X \<Longrightarrow> closable (closed X st) p = closable st p"
  by (auto simp: books_defs fun_eq_iff)

interpretation open_chunk: chunk_op Impl_Open opened openable
proof
  show "\<exists>m'. Impl_Open a n m = Some m' \<and> same_links m m' \<and> impl_ok r m' (opened (pages a n) st)"
    if "impl_ok r m st" "0 < n" "pages a n \<subseteq> region_pages r" "\<And>p. p \<in> pages a n \<Longrightarrow> openable st p" for r m st n a
    using impl_open [OF _ that(2,3), of m "fst st" "snd st"] that(1,4) by (auto simp: opened_def openable_def)
qed (rule opened_laws; assumption)+

interpretation open_first_chunk: chunk_op Impl_OpenFirst opened openable
proof
  show "\<exists>m'. Impl_OpenFirst a n m = Some m' \<and> same_links m m' \<and> impl_ok r m' (opened (pages a n) st)"
    if "impl_ok r m st" "0 < n" "pages a n \<subseteq> region_pages r" "\<And>p. p \<in> pages a n \<Longrightarrow> openable st p" for r m st n a
    using impl_open [OF _ that(2,3), of m "fst st" "snd st"] that(1,4) by (auto simp: opened_def openable_def)
qed (rule opened_laws; assumption)+

interpretation close_chunk: chunk_op Impl_Close closed closable
proof
  show "\<exists>m'. Impl_Close a n m = Some m' \<and> same_links m m' \<and> impl_ok r m' (closed (pages a n) st)"
    if "impl_ok r m st" "0 < n" "pages a n \<subseteq> region_pages r" "\<And>p. p \<in> pages a n \<Longrightarrow> closable st p" for r m st n a
    using impl_close [OF _ that(2,3), of m "fst st" "snd st"] that(1,4) by (auto simp: closed_def closable_def)
qed (rule closed_laws; assumption)+

lemmas mm_Open_ok = open_chunk.chunks_ok [folded mm_Open_def]
lemmas mm_OpenFirst_ok = open_first_chunk.chunks_ok [folded mm_OpenFirst_def]
lemmas mm_Close_ok = close_chunk.chunks_ok [folded mm_Close_def]

end
