(* ===== verification/MemoryManager_Alloc.thy ===== *)
theory MemoryManager_Alloc
  imports MemoryManager_Rep
begin

text \<open>
  Allocation from a pool: the loop over the managers, and the effect of
  \<^verbatim>\<open>AllocateAndOpenContinuous\<close> on the books.
\<close>

section \<open>The loop over the managers of a pool\<close>

text \<open>The invariant may speak of the managers that were visited.\<close>

lemma for_managers_ok:
  assumes "chain dir (mm_of s) cur is" "I V s"
    and step: "\<And>i V s. i \<in> set is \<Longrightarrow> I V s \<Longrightarrow> \<exists>stop s'. body i s = Some (stop, s') \<and> same_frame (mm_of s) (mm_of s') \<and>
      (if stop then J i s' else I (insert i V) s')"
  shows "\<exists>res s'. for_managers mm_of body dir cur s = Some (res, s') \<and> same_frame (mm_of s) (mm_of s') \<and>
    (case res of None \<Rightarrow> I (V \<union> set is) s' | Some i \<Rightarrow> i \<in> set is \<and> J i s')"
  using assms
proof (induction "is" arbitrary: cur s V)
  case Nil
  then show ?case by (simp add: for_managers.simps)
next
  case (Cons i "is")
  obtain stop s1 where s1: "body i s = Some (stop, s1)" "same_frame (mm_of s) (mm_of s1)" "if stop then J i s1 else I (insert i V) s1"
    using Cons.prems(3) [of i V s] Cons.prems(2) by auto
  obtain next_manager where cur: "cur = Some i" "GetNextManager i dir (mm_of s) = Some next_manager" "chain dir (mm_of s) next_manager is"
    using Cons.prems(1) by auto
  show ?case
  proof (cases stop)
    case True
    then show ?thesis using s1 cur by (subst for_managers.simps) simp
  next
    case False
    note calls = same_frame_calls [OF s1(2)]
    obtain res s' where "for_managers mm_of body dir next_manager s1 = Some (res, s')" "same_frame (mm_of s1) (mm_of s')"
      "case res of None \<Rightarrow> I (insert i V \<union> set is) s' | Some j \<Rightarrow> j \<in> set is \<and> J j s'"
      using Cons.IH [of s1 next_manager "insert i V", OF _ _ Cons.prems(3)] cur(3) s1(3) False calls(5) by auto
    then show ?thesis
      using False s1 cur calls(4) same_frame_trans [OF s1(2)]
      by (subst for_managers.simps) (auto split: option.splits)
  qed
qed

section \<open>Tracking\<close>

lemma tracked_ok:
  assumes "impl_ok r m st" "0 < n" "pages a n \<subseteq> region_pages r"
  shows "\<exists>offsets. tracked a n m = Some offsets"
proof -
  note k = impl_okD [OF assms(1)]
  obtain k where a: "a = fst r + k * PageBytes" "k + n \<le> snd r div PageBytes"
    using in_region [OF assms(3,2) k(1,2,4)] by blast
  have "GetPageOffset (m_heap m) a = k"
    using page_indices_ok(3) [OF assms(1) a(2)] a(1) by simp
  moreover have "snd r div PageBytes \<le> snd r" by simp
  then have "k + n < 2 ^ 64" using a(2) k(4) by linarith
  ultimately show ?thesis using assms(2) by (simp add: tracked_def Let_def wrap64_less sub64_less)
qed

lemma TrackUnoptimizedAllocation_ok:
  assumes "mm_ok rs mm st" "i < length rs" "0 < n" "pages a n \<subseteq> region_pages (rs ! i)"
  shows "\<exists>dev. TrackUnoptimizedAllocation i a n mm = Some (mm\<lparr>device_memory := dev\<rparr>)"
  using tracked_ok [OF mm_okD(2) [OF assms(1,2)] assms(3,4)] mm_okD(3) [OF assms(1,2)]
  by (auto simp: TrackUnoptimizedAllocation_def)

lemma track_if_ok:
  assumes "mm_ok rs mm st" "i < length rs" "0 < n" "pages a n \<subseteq> region_pages (rs ! i)"
  shows "\<exists>dev. (if tracks then TrackUnoptimizedAllocation i a n mm else Some mm) = Some (mm\<lparr>device_memory := dev\<rparr>)"
  using TrackUnoptimizedAllocation_ok [OF assms] by (auto intro: exI [of _ "device_memory mm"])

section \<open>Blocks\<close>

text \<open>A block from manager \<open>i\<close>, for either kind of request.\<close>

lemma manager_allocate:
  assumes "mm_ok rs mm (P, c)" "i < length rs" "valid_request q"
  shows "\<exists>a mm'. on_manager i (on_heap (allocate q)) mm = Some (a, mm') \<and> same_frame mm mm' \<and>
    (a = 0 \<and> mm_ok rs mm' (P, c) \<or>
     a \<noteq> 0 \<and> PageBytes dvd a \<and> pages a (pages_of q) \<subseteq> P \<inter> region_pages (rs ! i) \<and> mm_ok rs mm' (P - pages a (pages_of q), c))"
proof -
  obtain a m' where a: "on_heap (allocate q) (m_managers mm ! i) = Some (a, m')" "same_links (m_managers mm ! i) m'"
    "a = 0 \<and> impl_ok (rs ! i) m' (P, c) \<or> a \<noteq> 0 \<and> PageBytes dvd a \<and> pages a (pages_of q) \<subseteq> P \<inter> region_pages (rs ! i) \<and>
       impl_ok (rs ! i) m' (P - pages a (pages_of q), c)"
    using impl_allocate [OF mm_okD(2) [OF assms(1,2)] assms(3)] by blast
  note on = on_manager_ok [of rs mm "(P, c)" i "on_heap (allocate q)" a m', OF assms(1,2) a(1,2)]
  show ?thesis
  proof (cases "a = 0")
    case True
    then show ?thesis using on [of "(P, c)"] a(3) by (auto simp: agree_off_def)
  next
    case False
    then have "agree_off (region_pages (rs ! i)) (P, c) (P - pages a (pages_of q), c)"
      using a(3) by (auto simp: agree_off_def)
    then show ?thesis using on [of "(P - pages a (pages_of q), c)"] a(3) False by auto
  qed
qed

lemma manager_free:
  assumes "mm_ok rs mm (P, c)" "i < length rs" "PageBytes dvd a" "pages a n \<subseteq> region_pages (rs ! i)" "pages a n \<inter> P = {}"
  shows "\<exists>mm'. change_manager i (Impl_Free a n) mm = Some mm' \<and> same_frame mm mm' \<and> mm_ok rs mm' (P \<union> pages a n, c)"
proof -
  obtain m' where m': "Impl_Free a n (m_managers mm ! i) = Some m'" "same_links (m_managers mm ! i) m'"
    "impl_ok (rs ! i) m' (P \<union> pages a n, c)"
    using impl_free [OF mm_okD(2) [OF assms(1,2)] assms(3-5)] by blast
  show ?thesis
    using change_manager_ok [of rs mm "(P, c)" i "Impl_Free a n" m' "(P \<union> pages a n, c)"] assms(1,2,4) m'
    by (auto simp: agree_off_def)
qed

lemma manager_open_first:
  assumes "mm_ok rs mm (P, c)" "i < length rs" "0 < n" "pages a n \<subseteq> region_pages (rs ! i)" "\<And>p. p \<in> pages a n \<Longrightarrow> c p < 2 ^ 16 - 1"
  shows "\<exists>mm'. change_manager i (Impl_OpenFirst a n) mm = Some mm' \<and> same_frame mm mm' \<and> mm_ok rs mm' (P, bump (pages a n) c)"
proof -
  obtain m' where m': "Impl_OpenFirst a n (m_managers mm ! i) = Some m'" "same_links (m_managers mm ! i) m'"
    "impl_ok (rs ! i) m' (P, bump (pages a n) c)"
    using impl_open [OF mm_okD(2) [OF assms(1,2)] assms(3-5)] by blast
  have "agree_off (region_pages (rs ! i)) (P, c) (P, bump (pages a n) c)"
    using assms(4) by (auto simp: agree_off_def bump_def)
  then show ?thesis
    using change_manager_ok [of rs mm "(P, c)" i "Impl_OpenFirst a n" m'] assms(1,2) m' by blast
qed

section \<open>Continuous allocations\<close>

text \<open>The requests the contract covers.\<close>

definition valid_continuous :: "nat \<Rightarrow> nat \<Rightarrow> u32 \<Rightarrow> bool" where
  "valid_continuous n align_pages opt \<longleftrightarrow> 0 < n \<and> n \<le> 2 ^ 18 \<and> 0 < align_pages \<and> align_pages \<le> 2 ^ 18 \<and> GetPool opt < 4"

lemma try_aligned_ok:
  assumes "mm_ok rs mm (P, c)" "i < length rs" "valid_request (AlignedRequest n al)"
  shows "\<exists>a mm'. try_aligned (GetAlignedBlockIndex n al) n al i (b, mm) = Some (a \<noteq> 0, a, mm') \<and> same_frame mm mm' \<and>
    (a = 0 \<and> mm_ok rs mm' (P, c) \<or>
     a \<noteq> 0 \<and> PageBytes dvd a \<and> pages a n \<subseteq> P \<inter> region_pages (rs ! i) \<and> mm_ok rs mm' (P - pages a n, c))"
proof -
  have "Impl_AllocateAligned (GetAlignedBlockIndex n al) n al = on_heap (allocate (AlignedRequest n al))"
    by (rule ext) (simp add: Impl_AllocateAligned_def on_heap_def)
  then show ?thesis
    using manager_allocate [OF assms] by (auto simp: try_aligned_def)
qed

lemma search_aligned_ok:
  assumes ok: "mm_ok rs mm (P, c)" and req: "valid_request (AlignedRequest n al)" and first: "chain dir mm first is" "set is \<subseteq> {..<length rs}"
  shows "\<exists>res a mm1. for_managers snd (try_aligned (GetAlignedBlockIndex n al) n al) dir first (0, mm) = Some (res, a, mm1) \<and> same_frame mm mm1 \<and>
    (case res of None \<Rightarrow> a = 0 \<and> mm_ok rs mm1 (P, c)
     | Some i \<Rightarrow> i < length rs \<and> a \<noteq> 0 \<and> PageBytes dvd a \<and> pages a n \<subseteq> P \<inter> region_pages (rs ! i) \<and> mm_ok rs mm1 (P - pages a n, c))"
proof -
  let ?I = "\<lambda>s. fst s = 0 \<and> mm_ok rs (snd s) (P, c)"
  let ?J = "\<lambda>i s. fst s \<noteq> 0 \<and> PageBytes dvd fst s \<and> pages (fst s) n \<subseteq> P \<inter> region_pages (rs ! i) \<and> mm_ok rs (snd s) (P - pages (fst s) n, c)"
  have "\<exists>res s. for_managers snd (try_aligned (GetAlignedBlockIndex n al) n al) dir first (0, mm) = Some (res, s) \<and>
      same_frame (snd (0 :: nat, mm)) (snd s) \<and> (case res of None \<Rightarrow> ?I s | Some i \<Rightarrow> i \<in> set is \<and> ?J i s)"
  proof (rule for_managers_ok [where I = "\<lambda>_. ?I" and J = ?J and V = "{}"])
    fix i and s :: "nat \<times> KMemoryManager" assume i: "i \<in> set is" and I: "?I s"
    have "i < length rs" using i first(2) by blast
    moreover have "(fst s, snd s) = s" by simp
    ultimately obtain a mm1 where "try_aligned (GetAlignedBlockIndex n al) n al i s = Some (a \<noteq> 0, a, mm1)" "same_frame (snd s) mm1"
      "a = 0 \<and> mm_ok rs mm1 (P, c) \<or> ?J i (a, mm1)"
      using try_aligned_ok [of rs "snd s" P c i n al "fst s"] I req by (metis (no_types, lifting) fst_conv snd_conv)
    then show "\<exists>stop s'. try_aligned (GetAlignedBlockIndex n al) n al i s = Some (stop, s') \<and> same_frame (snd s) (snd s') \<and>
        (if stop then ?J i s' else ?I s')"
      by (intro exI [of _ "a \<noteq> 0"] exI [of _ "(a, mm1)"]) auto
  qed (use first ok in simp_all)
  then show ?thesis using first(2) by (fastforce split: option.splits)
qed

lemma AllocateAndOpenContinuous_ok:
  assumes ok: "mm_ok rs mm (P, c)" and "valid_continuous n al opt" and fresh: "\<And>p. p \<in> P \<Longrightarrow> c p = 0"
  shows "\<exists>a mm'. AllocateAndOpenContinuous n al opt mm = Some (a, mm') \<and> same_frame mm mm' \<and>
    (a = 0 \<and> mm_ok rs mm' (P, c) \<or>
     a \<noteq> 0 \<and> PageBytes dvd a \<and> pages a n \<subseteq> P \<and> pages a n \<subseteq> all_pages rs \<and> mm_ok rs mm' (P - pages a n, bump (pages a n) c))"
proof -
  let ?pool = "GetPool opt" and ?dir = "GetDirection opt"
  have n: "0 < n" "valid_request (AlignedRequest n al)" "?pool < 4"
    using assms(2) by (simp_all add: valid_continuous_def)
  obtain first "is" where first: "GetFirstManager ?pool ?dir mm = Some first" "chain ?dir mm first is" "set is \<subseteq> {..<length rs}"
    using frame_okD(2) [OF mm_okD(1) [OF ok] n(3)] by blast
  obtain res a mm1 where loop: "for_managers snd (try_aligned (GetAlignedBlockIndex n al) n al) ?dir first (0, mm) = Some (res, a, mm1)"
    "same_frame mm mm1" "case res of None \<Rightarrow> a = 0 \<and> mm_ok rs mm1 (P, c)
       | Some i \<Rightarrow> i < length rs \<and> a \<noteq> 0 \<and> PageBytes dvd a \<and> pages a n \<subseteq> P \<inter> region_pages (rs ! i) \<and> mm_ok rs mm1 (P - pages a n, c)"
    using search_aligned_ok [OF ok n(2) first(2,3)] by blast
  show ?thesis
  proof (cases res)
    case None
    then show ?thesis
      using loop first(1) n by (auto simp: AllocateAndOpenContinuous_def DecodeOption_def)
  next
    case (Some i)
    let ?X = "pages a n"
    have i: "i < length rs" "a \<noteq> 0" "PageBytes dvd a" "?X \<subseteq> P" "?X \<subseteq> region_pages (rs ! i)" "mm_ok rs mm1 (P - ?X, c)"
      using loop(3) Some first(3) by auto
    obtain dev where dev: "(if m_has_optimized_process mm1 ! ?pool then TrackUnoptimizedAllocation i a n mm1 else Some mm1) =
        Some (mm1\<lparr>device_memory := dev\<rparr>)"
      using track_if_ok [OF i(6,1) n(1) i(5)] by blast
    let ?mm = "mm1\<lparr>device_memory := dev\<rparr>"
    have ok': "mm_ok rs ?mm (P - ?X, c)" using i(6) by simp
    have "c p < 2 ^ 16 - 1" if "p \<in> ?X" for p using that i(4) fresh [of p] by (simp add: subsetD)
    then obtain mm2 where mm2: "change_manager i (Impl_OpenFirst a n) ?mm = Some mm2" "same_frame ?mm mm2"
        "mm_ok rs mm2 (P - ?X, bump ?X c)"
      using manager_open_first [OF ok' i(1) n(1) i(5)] by blast
    have "fetch (m_has_optimized_process mm1) ?pool = Some (m_has_optimized_process mm1 ! ?pool)"
      using frame_okD(3) [OF mm_okD(1) [OF i(6)] n(3)] .
    then have "AllocateAndOpenContinuous n al opt mm = Some (a, mm2)"
      using n first(1) loop(1) Some i(2) dev mm2(1)
      by (simp add: AllocateAndOpenContinuous_def DecodeOption_def)
    moreover have "?X \<subseteq> all_pages rs"
      using i(1,5) unfolding all_pages_def by (meson UN_upper nth_mem subset_trans)
    moreover have "same_frame mm mm2"
      using same_frame_trans [OF loop(2) same_frame_trans [OF same_frame_device mm2(2)]] .
    ultimately show ?thesis using i(2-4) mm2(3) by blast
  qed
qed

end
