(* ===== verification/PageGroup_Laws.thy ===== *)
theory PageGroup_Laws
  imports MemoryManager_Alloc
begin

text \<open>
  The pages of a page group, and what adding a block and dropping the group do to them and to the slab of
  its nodes.
\<close>

section \<open>Pages of a group\<close>

definition info_pages :: "KBlockInfo \<Rightarrow> nat set" where
  "info_pages b = pages (info_GetAddress b) (info_GetNumPages b)"

definition group_pages :: "KPageGroup \<Rightarrow> nat set" where
  "group_pages pg = (\<Union>b \<in> set pg. info_pages b)"

lemma group_pages_simps [simp]:
  "group_pages [] = {}" "group_pages (b # bs) = info_pages b \<union> group_pages bs" "group_pages (pg @ qg) = group_pages pg \<union> group_pages qg"
  by (auto simp: group_pages_def)

text \<open>Regions whose pages have 32-bit numbers, and the pages of the managers of a pool.\<close>

definition region_fits :: "nat \<times> nat \<Rightarrow> bool" where
  "region_fits r \<longleftrightarrow> PageBytes dvd fst r \<and> PageBytes dvd snd r \<and> fst r + snd r < 2 ^ 44"

definition pool_pages_of :: "(nat \<times> nat) list \<Rightarrow> nat set \<Rightarrow> nat set" where
  "pool_pages_of rs S = (\<Union>i \<in> S. region_pages (rs ! i))"

text \<open>A node lies in the pool; neighbouring blocks of two managers may share one.\<close>

definition info_in :: "(nat \<times> nat) list \<Rightarrow> nat set \<Rightarrow> KBlockInfo \<Rightarrow> bool" where
  "info_in rs S b \<longleftrightarrow> 0 < info_GetNumPages b \<and> unat (m_page_index b) + info_GetNumPages b < 2 ^ 32 \<and>
     info_pages b \<subseteq> pool_pages_of rs S"

text \<open>
  The pages of a node behind the manager of its first page, and those of a group. The undo of a failed
  allocation does not reach them.
\<close>

definition stray_pages :: "(nat \<times> nat) list \<Rightarrow> KBlockInfo \<Rightarrow> nat set" where
  "stray_pages rs b =
     {p \<in> info_pages b. \<forall>r \<in> set rs. info_GetAddress b \<in> region_pages r \<longrightarrow> p \<notin> region_pages r}"

definition strays :: "(nat \<times> nat) list \<Rightarrow> KPageGroup \<Rightarrow> nat set" where
  "strays rs pg = (\<Union>b \<in> set pg. stray_pages rs b)"

lemma strays_simps [simp]:
  "strays rs [] = {}" "strays rs (b # bs) = stray_pages rs b \<union> strays rs bs"
  by (simp_all add: strays_def)

lemma stray_subset: "stray_pages rs b \<subseteq> info_pages b" "strays rs pg \<subseteq> group_pages pg"
  by (auto simp: stray_pages_def strays_def group_pages_def)

text \<open>
  A group whose nodes come from the slab \<open>infos\<close>, in which \<open>L\<close> is in use otherwise and \<open>k\<close> more nodes can be had.
\<close>

definition group_ok :: "(nat \<times> nat) list \<Rightarrow> nat set \<Rightarrow> nat set \<Rightarrow> KPageGroup \<Rightarrow> KBlockInfoManager \<Rightarrow> nat \<Rightarrow> bool" where
  "group_ok rs S L pg infos k \<longleftrightarrow> sorted_wrt (\<lambda>x y. info_pages x \<inter> info_pages y = {}) pg \<and> distinct (map info_node pg) \<and>
     info_node ` set pg \<inter> L = {} \<and> slab_ok KBlockInfo_size infos (L \<union> info_node ` set pg) k \<and> (\<forall>b \<in> set pg. info_in rs S b)"

lemma group_okD:
  assumes "group_ok rs S L pg infos k"
  shows "slab_ok KBlockInfo_size infos (L \<union> info_node ` set pg) k" "info_node ` set pg \<inter> L = {}" "distinct (map info_node pg)"
    "\<And>b. b \<in> set pg \<Longrightarrow> info_in rs S b" "sorted_wrt (\<lambda>x y. info_pages x \<inter> info_pages y = {}) pg"
  using assms by (simp_all add: group_ok_def)

lemma finite_group [simp]: "finite (info_pages b)" "finite (group_pages pg)"
  by (simp_all add: info_pages_def group_pages_def)

lemma card_group_Cons:
  "info_pages b \<inter> group_pages bs = {} \<Longrightarrow> card (group_pages (b # bs)) = info_GetNumPages b + card (group_pages bs)"
  by (simp add: card_Un_disjoint) (simp add: info_pages_def)

lemma sorted_disjoint:
  "sorted_wrt (\<lambda>x y. info_pages x \<inter> info_pages y = {}) (b # bs) \<Longrightarrow> info_pages b \<inter> group_pages bs = {}"
  by (auto simp: group_pages_def)

lemma length_le_pages:
  assumes "sorted_wrt (\<lambda>x y. info_pages x \<inter> info_pages y = {}) pg" "\<And>b. b \<in> set pg \<Longrightarrow> 0 < info_GetNumPages b"
  shows "length pg \<le> card (group_pages pg)"
  using assms
proof (induction pg)
  case (Cons b bs)
  then have "length bs \<le> card (group_pages bs)" "0 < info_GetNumPages b" by simp_all
  then show ?case
    using card_group_Cons [OF sorted_disjoint [OF Cons.prems(1)]] by simp
qed simp

lemma group_length: "group_ok rs S L pg infos k \<Longrightarrow> length pg \<le> card (group_pages pg)"
  using length_le_pages [OF group_okD(5)] group_okD(4) by (metis info_in_def)

section \<open>Nodes\<close>

lemma new_info:
  fixes node :: nat
  assumes "PageBytes dvd a" "a + n * PageBytes < 2 ^ 44"
  defines "b \<equiv> KBlockInfo_Initialize node a n"
  shows "info_GetAddress b = a" "info_GetNumPages b = n" "unat (m_page_index b) + n < 2 ^ 32" "info_node b = node"
    "info_pages b = pages a n"
proof -
  obtain q where q: "a = q * PageBytes" using assms(1) by (metis dvdE mult.commute)
  have "(q + n) * PageBytes < 2 ^ 32 * PageBytes"
    using assms(2) by (simp add: q add_mult_distrib) (simp add: PageBytes_def)
  then have small: "q + n < 2 ^ 32" by simp
  have "a div PageBytes = q" by (simp add: q PageBytes_def)
  then have idx: "unat (m_page_index b) = q" "unat (info_num_pages b) = n"
    using small by (simp_all add: b_def KBlockInfo_Initialize_def unat_of_nat)
  show "info_node b = node" by (simp add: b_def KBlockInfo_Initialize_def)
  show addr: "info_GetAddress b = a" and np: "info_GetNumPages b = n" and "unat (m_page_index b) + n < 2 ^ 32"
    using idx small q by (simp_all add: info_GetAddress_def info_GetNumPages_def)
  show "info_pages b = pages a n" by (simp add: info_pages_def addr np)
qed

lemma longer_info:
  assumes "unat (m_page_index b) + info_GetNumPages b < 2 ^ 32" "a = info_GetEndAddress b" "a + n * PageBytes < 2 ^ 44"
  defines "b' \<equiv> b\<lparr>info_num_pages := info_num_pages b + of_nat n\<rparr>"
  shows "info_GetEndAddress b = info_GetAddress b + info_GetNumPages b * PageBytes"
    "info_GetNumPages b' = info_GetNumPages b + n" "unat (m_page_index b') + info_GetNumPages b' < 2 ^ 32" "info_node b' = info_node b"
    "info_pages b' = info_pages b \<union> pages a n" "info_pages b \<inter> pages a n = {}"
proof -
  let ?q = "unat (m_page_index b)" and ?k = "unat (info_num_pages b)"
  have "unat (m_page_index b + info_num_pages b) = ?q + ?k"
    using assms(1) by (subst unat_add_lem [THEN iffD1]) (simp_all add: info_GetNumPages_def)
  then show eq: "info_GetEndAddress b = info_GetAddress b + info_GetNumPages b * PageBytes"
    by (simp add: info_GetEndAddress_def info_GetAddress_def info_GetNumPages_def add_mult_distrib)
  have "(?q + ?k + n) * PageBytes < 2 ^ 32 * PageBytes"
    using assms(3) unfolding assms(2) eq
    by (simp add: info_GetAddress_def info_GetNumPages_def add_mult_distrib) (simp add: PageBytes_def)
  then have small: "?q + ?k + n < 2 ^ 32" by simp
  then have n: "unat (of_nat n :: u32) = n" by (simp add: unat_of_nat)
  have np: "unat (info_num_pages b + of_nat n) = ?k + n"
    using small n by (subst unat_add_lem [THEN iffD1]) simp_all
  then show np': "info_GetNumPages b' = info_GetNumPages b + n" and "unat (m_page_index b') + info_GetNumPages b' < 2 ^ 32"
    and "info_node b' = info_node b"
    using small by (simp_all add: b'_def info_GetNumPages_def)
  have "info_GetAddress b' = info_GetAddress b" by (simp add: b'_def info_GetAddress_def)
  then show "info_pages b' = info_pages b \<union> pages a n"
    by (simp add: info_pages_def np' pages_add assms(2) eq)
  show "info_pages b \<inter> pages a n = {}" unfolding info_pages_def assms(2) eq by (rule pages_disjoint)
qed

section \<open>Adding a block\<close>

lemma add_new_block_ok:
  assumes "group_ok rs S L pg infos k" "PageBytes dvd a" "a + n * PageBytes < 2 ^ 44" "0 < n"
    "pages a n \<subseteq> pool_pages_of rs S" "pages a n \<inter> group_pages pg = {}"
  shows "\<exists>r pg' infos' k'. add_new_block a n pg infos = Some (r, pg', infos') \<and> group_ok rs S L pg' infos' k' \<and>
    (r = ResultSuccess \<and> group_pages pg' = group_pages pg \<union> pages a n \<and> length pg' + k' = length pg + k \<or>
     r = ResultOutOfResource \<and> pg' = pg \<and> k' = 0 \<and> k = 0)"
proof (cases "k = 0")
  case True
  then show ?thesis
    using slab.alloc_ok [OF group_okD(1) [OF assms(1)]] assms(1) by (auto simp: add_new_block_def)
next
  case False
  note g = group_okD [OF assms(1)]
  obtain node infos' where node: "slab_Allocate KBlockInfo_size infos = Some (Some node, infos')"
    "node \<notin> L \<union> info_node ` set pg" "slab_ok KBlockInfo_size infos' (insert node (L \<union> info_node ` set pg)) (k - 1)"
    using slab.alloc_ok [OF g(1)] False by auto
  let ?b = "KBlockInfo_Initialize node a n"
  note b = new_info [of a n node, OF assms(2,3)]
  have "info_in rs S ?b" using b assms(4,5) by (simp add: info_in_def)
  moreover have "\<forall>x \<in> set pg. info_pages x \<inter> pages a n = {}"
    using assms(6) by (auto simp: group_pages_def)
  ultimately have "group_ok rs S L (pg @ [?b]) infos' (k - 1)"
    using g node(2,3) b(4,5) by (simp add: group_ok_def sorted_wrt_append)
  then show ?thesis
    using node(1) b(5) False by (intro exI [of _ ResultSuccess] exI [of _ "pg @ [?b]"] exI [of _ infos'] exI [of _ "k - 1"])
      (simp add: add_new_block_def)
qed

lemma AddBlock_ok:
  assumes "group_ok rs S L pg infos k" "PageBytes dvd a" "a + n * PageBytes < 2 ^ 44" "0 < n"
    "pages a n \<subseteq> pool_pages_of rs S" "pages a n \<inter> group_pages pg = {}"
  shows "\<exists>r pg' infos' k'. AddBlock a n pg infos = Some (r, pg', infos') \<and> group_ok rs S L pg' infos' k' \<and>
    (r = ResultSuccess \<and> group_pages pg' = group_pages pg \<union> pages a n \<and> length pg' + k' = length pg + k \<or>
     r = ResultOutOfResource \<and> pg' = pg \<and> k' = 0 \<and> k = 0)"
proof (cases "pg \<noteq> [] \<and> a \<noteq> 0 \<and> a = info_GetEndAddress (last pg)")
  case False
  then have "AddBlock a n pg infos = add_new_block a n pg infos"
    using assms(4) by (auto simp: AddBlock_def TryConcatenate_def)
  then show ?thesis using add_new_block_ok [OF assms(1-6)] by simp
next
  case True
  note g = group_okD [OF assms(1)]
  let ?b = "last pg" and ?bs = "butlast pg"
  let ?b' = "?b\<lparr>info_num_pages := info_num_pages ?b + of_nat n\<rparr>"
  have pg: "pg = ?bs @ [?b]" using True by simp
  then have last: "info_in rs S ?b" using True g(4) by simp
  then have b: "0 < info_GetNumPages ?b" "unat (m_page_index ?b) + info_GetNumPages ?b < 2 ^ 32" by (simp_all add: info_in_def)
  have end_address: "a = info_GetEndAddress ?b" using True by simp
  note l = longer_info [OF b(2) end_address assms(3)]
  have "info_in rs S ?b'" using l(2,3,5) b(1) assms(5) last by (simp add: info_in_def)
  moreover have "\<forall>x \<in> set ?bs. info_pages x \<inter> pages a n = {}"
    using assms(6) by (auto simp: group_pages_def dest: in_set_butlastD)
  moreover have "sorted_wrt (\<lambda>x y. info_pages x \<inter> info_pages y = {}) (?bs @ [?b])" "distinct (map info_node (?bs @ [?b]))"
    "info_node ` set (?bs @ [?b]) \<inter> L = {}" "slab_ok KBlockInfo_size infos (L \<union> info_node ` set (?bs @ [?b])) k"
    "\<forall>b \<in> set (?bs @ [?b]). info_in rs S b"
    using g unfolding pg [symmetric] by blast+
  ultimately have ok: "group_ok rs S L (?bs @ [?b']) infos k"
    using l(4,5) by (simp add: group_ok_def sorted_wrt_append Int_Un_distrib)
  have "group_pages pg = group_pages ?bs \<union> info_pages ?b"
    by (subst pg) simp
  then have "group_pages (?bs @ [?b']) = group_pages pg \<union> pages a n"
    using l(5) by auto
  moreover have "length (?bs @ [?b']) = length pg" by (subst (2) pg) simp
  moreover have "AddBlock a n pg infos = Some (ResultSuccess, ?bs @ [?b'], infos)"
    using True assms(4) by (simp add: AddBlock_def TryConcatenate_def)
  ultimately show ?thesis
    using ok by (intro exI [of _ ResultSuccess] exI [of _ "?bs @ [?b']"] exI [of _ infos] exI [of _ k]) simp
qed

lemma Finalize_group_ok:
  assumes "group_ok rs S L pg infos k"
  shows "\<exists>infos'. Finalize_group pg infos = ([], infos') \<and> slab_ok KBlockInfo_size infos' L (k + length pg)"
proof -
  note g = group_okD [OF assms]
  have "slab_ok KBlockInfo_size (fold slab_Free (map info_node pg) infos)
      (L \<union> info_node ` set pg - set (map info_node pg)) (k + length (map info_node pg))"
    by (rule slab.release_all [OF g(1,3)]) auto
  moreover have "L \<union> info_node ` set pg - set (map info_node pg) = L" using g(2) by auto
  ultimately show ?thesis by (simp add: Finalize_group_def fold_map comp_def)
qed

end
