(* ===== verification/MemoryManager_Groups.thy ===== *)
theory MemoryManager_Groups
  imports PageGroup_Laws
begin

text \<open>
  Allocation of page groups: block by block, over the managers of the pool and the block sizes, with all
  of it undone on failure.
\<close>

section \<open>One manager\<close>

lemma no_page_left:
  assumes "mm_ok rs mm (P, c)" "i < length rs" "on_manager i (on_heap (allocate (BlockRequest 0 random))) mm = Some (0, mm')"
  shows "P \<inter> region_pages (rs ! i) = {}"
proof -
  note ok = mm_okD [OF assms(1)]
  let ?m = "m_managers mm ! i" and ?r = "rs ! i" and ?R = "P \<inter> region_pages (rs ! i)"
  obtain lo where "holds (fst ?r) (snd ?r) lo (m_heap ?m) (page_bytes ?R)"
    using ok(2) [OF assms(2)] by (auto simp: impl_ok_def)
  then obtain B where B: "heap_ok (fst ?r) (snd ?r) lo (m_heap ?m) B" "free_space B = page_bytes ?R"
    by (auto simp: holds_def)
  obtain h' where "AllocateBlock (int 0) random (m_heap ?m) = Some (0, h')"
    using assms(3) ok(3) [OF assms(2)]
    by (auto simp: on_manager_def on_heap_def store_def split: Option.bind_splits if_splits)
  then have "\<forall>k \<in> {0..<7}. B k = {}"
    using AllocateBlock_ok [OF B(1), of 0 random] by (auto split: if_splits)
  then have none: "\<not> (\<exists>p. bytes 0 dvd p \<and> span 0 p \<subseteq> page_bytes ?R)"
    using no_block_iff [OF B(1), of 0] B(2) by simp
  have "bytes 0 dvd p \<and> span 0 p \<subseteq> page_bytes ?R" if "p \<in> ?R" for p
    using that impl_okD(7) [OF ok(2) [OF assms(2)]]
    by (auto simp: aligned_pages_def span_def page_bytes_def PageBytes_def)
  with none show ?thesis by blast
qed

section \<open>Blocks for a group\<close>

text \<open>The books while a group of \<open>N\<close> pages is collected, with \<open>K\<close> nodes at hand at the start.\<close>

definition alloc_inv ::
  "(nat \<times> nat) list \<Rightarrow> nat set \<Rightarrow> nat set \<Rightarrow> nat set \<Rightarrow> (nat \<Rightarrow> nat) \<Rightarrow> nat \<Rightarrow> nat \<Rightarrow> group_alloc \<Rightarrow> bool" where
  "alloc_inv rs S L P c N K s \<longleftrightarrow>
     (\<exists>k. group_ok rs S L (out_group s) (block_infos s) k \<and> length (out_group s) + k = K) \<and>
     group_pages (out_group s) \<subseteq> P \<and> wanted s + card (group_pages (out_group s)) = N \<and>
     mm_ok rs (managers s) (P - group_pages (out_group s), c)"

definition pool_setting :: "(nat \<times> nat) list \<Rightarrow> nat set \<Rightarrow> bool" where
  "pool_setting rs S \<longleftrightarrow> S \<subseteq> {..<length rs} \<and> (\<forall>i \<in> S. region_fits (rs ! i))"

text \<open>What is left in the manager when a round for single pages ends.\<close>

definition used_up :: "(nat \<times> nat) list \<Rightarrow> nat set \<Rightarrow> nat set \<Rightarrow> group_alloc \<Rightarrow> bool" where
  "used_up rs P V s \<longleftrightarrow> wanted s = 0 \<or> (\<forall>i \<in> V. (P - group_pages (out_group s)) \<inter> region_pages (rs ! i) = {})"

definition grows :: "group_alloc \<Rightarrow> group_alloc \<Rightarrow> bool" where
  "grows s s' \<longleftrightarrow> group_pages (out_group s) \<subseteq> group_pages (out_group s') \<and> wanted s' \<le> wanted s"

lemma grows_trans: "grows s s1 \<Longrightarrow> grows s1 s2 \<Longrightarrow> grows s s2"
  by (auto simp: grows_def)

lemma grows_used_up: "grows s s' \<Longrightarrow> used_up rs P V s \<Longrightarrow> used_up rs P V s'"
  by (fastforce simp: grows_def used_up_def)

lemma used_up_mono: "used_up rs P V' s \<Longrightarrow> V \<subseteq> V' \<Longrightarrow> used_up rs P V s"
  unfolding used_up_def by blast

lemma used_up_insert: "used_up rs P {i} s \<Longrightarrow> used_up rs P V s \<Longrightarrow> used_up rs P (insert i V) s"
  unfolding used_up_def by blast

lemma block_address:
  assumes "mm_ok rs mm st" "i < length rs" "region_fits (rs ! i)" "0 < n" "pages a n \<subseteq> region_pages (rs ! i)"
  shows "a + n * PageBytes < 2 ^ 44" "\<exists>k. a = fst (rs ! i) + k * PageBytes \<and> k + n \<le> snd (rs ! i) div PageBytes"
proof -
  note k = impl_okD [OF mm_okD(2) [OF assms(1,2)]]
  show ex: "\<exists>k. a = fst (rs ! i) + k * PageBytes \<and> k + n \<le> snd (rs ! i) div PageBytes"
    by (rule in_region [OF assms(5,4) k(1,2,4)])
  then obtain k where a: "a = fst (rs ! i) + k * PageBytes" "k + n \<le> snd (rs ! i) div PageBytes" by blast
  then have "(k + n) * PageBytes \<le> snd (rs ! i)"
    using mult_le_mono1 [OF a(2), of PageBytes] k(8) by simp
  then show "a + n * PageBytes < 2 ^ 44"
    using assms(3) unfolding a(1) region_fits_def add_mult_distrib by linarith
qed

lemma AllocateBlock_request: "Impl_AllocateBlock (int i) random = on_heap (allocate (BlockRequest i random))"
  by (rule ext) (simp add: Impl_AllocateBlock_def on_heap_def)

text \<open>A block goes to the group, or back to its heap when there is no node for it.\<close>

lemma add_to_group:
  assumes inv: "alloc_inv rs S L P c N K s" and set: "pool_setting rs S" and i: "i \<in> S"
    and mm: "mm_ok rs mm (P - group_pages (out_group s) - pages a n, c)"
    and a: "PageBytes dvd a" "pages a n \<subseteq> (P - group_pages (out_group s)) \<inter> region_pages (rs ! i)" "0 < n" "n \<le> wanted s"
  shows "\<exists>r pg infos. AddBlock a n (out_group s) (block_infos s) = Some (r, pg, infos) \<and>
    (r = ResultSuccess \<and>
       (\<forall>dev. alloc_inv rs S L P c N K (s\<lparr>out_group := pg, block_infos := infos, managers := mm\<lparr>device_memory := dev\<rparr>, wanted := wanted s - n\<rparr>)) \<and>
       group_pages pg = group_pages (out_group s) \<union> pages a n \<or>
     r = ResultOutOfResource \<and> K < N \<and> (\<exists>mm'. change_manager i (Impl_Free a n) mm = Some mm' \<and> same_frame mm mm' \<and>
       alloc_inv rs S L P c N K (s\<lparr>out_group := pg, block_infos := infos, managers := mm'\<rparr>) \<and> pg = out_group s))"
proof -
  let ?X = "group_pages (out_group s)" and ?Y = "pages a n"
  obtain k where k: "group_ok rs S L (out_group s) (block_infos s) k" "length (out_group s) + k = K"
    and X: "?X \<subseteq> P" "wanted s + card ?X = N"
    using inv by (auto simp: alloc_inv_def)
  have len: "i < length rs" and fits: "region_fits (rs ! i)"
    using set i by (auto simp: pool_setting_def)
  have Y: "?Y \<subseteq> region_pages (rs ! i)" "?Y \<inter> ?X = {}" "?Y \<subseteq> pool_pages_of rs S" using a(2) i by (auto simp: pool_pages_of_def)
  obtain r pg infos k' where r: "AddBlock a n (out_group s) (block_infos s) = Some (r, pg, infos)" "group_ok rs S L pg infos k'"
    "r = ResultSuccess \<and> group_pages pg = ?X \<union> ?Y \<and> length pg + k' = length (out_group s) + k \<or>
     r = ResultOutOfResource \<and> pg = out_group s \<and> k' = 0 \<and> k = 0"
    using AddBlock_ok [OF k(1) a(1) block_address(1) [OF mm len fits a(3) Y(1)] a(3) Y(3,2)] by blast
  show ?thesis
  proof (cases "r = ResultSuccess")
    case True
    then have pg: "group_pages pg = ?X \<union> ?Y" "length pg + k' = K" using r(3) k(2) by auto
    have "card (?X \<union> ?Y) = card ?X + n" using Y(2) by (subst card_Un_disjoint) auto
    moreover have "P - (?X \<union> ?Y) = P - ?X - ?Y" by auto
    ultimately have "alloc_inv rs S L P c N K
        (s\<lparr>out_group := pg, block_infos := infos, managers := mm\<lparr>device_memory := dev\<rparr>, wanted := wanted s - n\<rparr>)" for dev
      using r(2) pg X a(2,4) mm by (auto simp: alloc_inv_def)
    then show ?thesis using r(1) True pg(1) by blast
  next
    case False
    then have pg: "r = ResultOutOfResource" "pg = out_group s" "k' = 0" "k = 0" using r(3) by auto
    have "K < N"
      using k(2) pg(4) group_length [OF k(1)] X(2) a(3,4) by linarith
    obtain mm' where mm': "change_manager i (Impl_Free a n) mm = Some mm'" "same_frame mm mm'"
      "mm_ok rs mm' (P - ?X - ?Y \<union> ?Y, c)"
      using manager_free [OF mm len a(1) Y(1)] by auto
    moreover have "P - ?X - ?Y \<union> ?Y = P - ?X" using a(2) by auto
    ultimately have "alloc_inv rs S L P c N K (s\<lparr>out_group := pg, block_infos := infos, managers := mm'\<rparr>)"
      using r(2) k(2) X pg by (auto simp: alloc_inv_def)
    then show ?thesis using r(1) pg(1,2) \<open>K < N\<close> mm'(1,2) by blast
  qed
qed

definition alloc_result ::
  "(nat \<times> nat) list \<Rightarrow> nat set \<Rightarrow> nat set \<Rightarrow> nat set \<Rightarrow> (nat \<Rightarrow> nat) \<Rightarrow> nat \<Rightarrow> nat \<Rightarrow> bool \<Rightarrow> nat set \<Rightarrow> group_alloc \<Rightarrow> Result \<Rightarrow> group_alloc \<Rightarrow> bool" where
  "alloc_result rs S L P c N K single V s r s' \<longleftrightarrow> same_frame (managers s) (managers s') \<and> alloc_inv rs S L P c N K s' \<and> grows s s' \<and>
     (r = ResultSuccess \<and> (single \<longrightarrow> used_up rs P V s') \<or> r = ResultOutOfResource \<and> K < N)"

lemma alloc_result_trans:
  assumes "alloc_result rs S L P c N K single' V' s1 r s2" "same_frame (managers s) (managers s1)" "grows s s1"
    "single \<Longrightarrow> single' \<and> V \<subseteq> V'"
  shows "alloc_result rs S L P c N K single V s r s2"
  using assms(1,4) same_frame_trans [OF assms(2)] grows_trans [OF assms(3)] used_up_mono
  unfolding alloc_result_def by blast

text \<open>One round of the loop: it ends, or it goes on with fewer pages to find.\<close>

lemma alloc_blocks_round:
  assumes inv: "alloc_inv rs S L P c N K s" and set: "pool_setting rs S" and i: "i \<in> S" "index < 7"
    and more: "bytes index div PageBytes \<le> wanted s"
  shows "(\<exists>r s'. alloc_blocks index (bytes index div PageBytes) unoptimized random i s = Some (r, s') \<and>
      alloc_result rs S L P c N K (index = 0) {i} s r s') \<or>
    (\<exists>s'. alloc_blocks index (bytes index div PageBytes) unoptimized random i s =
        alloc_blocks index (bytes index div PageBytes) unoptimized random i s' \<and>
      alloc_inv rs S L P c N K s' \<and> same_frame (managers s) (managers s') \<and> grows s s' \<and> wanted s' < wanted s)"
proof -
  let ?n = "bytes index div PageBytes" and ?X = "group_pages (out_group s)"
  note loop = alloc_blocks.simps [of index ?n unoptimized random i s] and simps = AllocateBlock_request Let_def
  have n: "0 < ?n" using block_pages_pos [OF i(2)] .
  have len: "i < length rs" using set i(1) by (auto simp: pool_setting_def)
  have mm: "mm_ok rs (managers s) (P - ?X, c)" using inv by (simp add: alloc_inv_def)
  obtain a mm1 where a: "on_manager i (on_heap (allocate (BlockRequest index random))) (managers s) = Some (a, mm1)"
    "same_frame (managers s) mm1" "a = 0 \<and> mm_ok rs mm1 (P - ?X, c) \<or>
      a \<noteq> 0 \<and> PageBytes dvd a \<and> pages a ?n \<subseteq> (P - ?X) \<inter> region_pages (rs ! i) \<and> mm_ok rs mm1 (P - ?X - pages a ?n, c)"
    using manager_allocate [OF mm len, of "BlockRequest index random"] i(2) by auto
  show ?thesis
  proof (cases "a = 0")
    case True
    have "used_up rs P {i} (s\<lparr>managers := mm1\<rparr>)" if "index = 0"
      using no_page_left [OF mm len] a(1) that True by (simp add: used_up_def)
    then have "alloc_result rs S L P c N K (index = 0) {i} s ResultSuccess (s\<lparr>managers := mm1\<rparr>)"
      using inv a(2,3) True by (simp add: alloc_result_def grows_def alloc_inv_def)
    then show ?thesis using more True a(1) loop by (simp add: simps)
  next
    case False
    then have got: "PageBytes dvd a" "pages a ?n \<subseteq> (P - ?X) \<inter> region_pages (rs ! i)" "mm_ok rs mm1 (P - ?X - pages a ?n, c)"
      using a(3) by auto
    obtain dev where dev: "(if unoptimized then TrackUnoptimizedAllocation i a ?n mm1 else Some mm1) = Some (mm1\<lparr>device_memory := dev\<rparr>)"
      using track_if_ok [OF got(3) len n] got(2) by blast
    let ?next = "\<lambda>pg infos. s\<lparr>out_group := pg, block_infos := infos, managers := mm1\<lparr>device_memory := dev\<rparr>, wanted := wanted s - ?n\<rparr>"
    obtain r pg infos where add: "AddBlock a ?n (out_group s) (block_infos s) = Some (r, pg, infos)"
      "r = ResultSuccess \<and> alloc_inv rs S L P c N K (?next pg infos) \<and> group_pages pg = ?X \<union> pages a ?n \<or>
       r = ResultOutOfResource \<and> K < N \<and> (\<exists>mm'. change_manager i (Impl_Free a ?n) mm1 = Some mm' \<and> same_frame mm1 mm' \<and>
         alloc_inv rs S L P c N K (s\<lparr>out_group := pg, block_infos := infos, managers := mm'\<rparr>) \<and> pg = out_group s)"
      using add_to_group [OF inv set i(1) got(3,1,2) n more] by blast
    show ?thesis
    proof (cases "r = ResultSuccess")
      case True
      have "same_frame (managers s) (managers (?next pg infos))" "grows s (?next pg infos)" "wanted (?next pg infos) < wanted s"
        using same_frame_trans [OF a(2) same_frame_device] add(2) True more n by (auto simp: grows_def)
      moreover have "alloc_blocks index ?n unoptimized random i s = alloc_blocks index ?n unoptimized random i (?next pg infos)"
        using more False a(1) add(1) True dev loop by (simp add: simps cong: if_cong split del: if_split)
      ultimately show ?thesis using add(2) True by blast
    next
      case fail: False
      then obtain mm' where mm': "r = ResultOutOfResource" "K < N" "change_manager i (Impl_Free a ?n) mm1 = Some mm'"
        "same_frame mm1 mm'" "alloc_inv rs S L P c N K (s\<lparr>out_group := pg, block_infos := infos, managers := mm'\<rparr>)" "pg = out_group s"
        using add(2) by blast
      let ?s = "s\<lparr>out_group := pg, block_infos := infos, managers := mm'\<rparr>"
      have "alloc_result rs S L P c N K (index = 0) {i} s r ?s"
        using mm' same_frame_trans [OF a(2) mm'(4)] by (simp add: alloc_result_def grows_def)
      moreover have "alloc_blocks index ?n unoptimized random i s = Some (r, ?s)"
        using more False a(1) add(1) mm'(1,3) loop by (simp add: simps)
      ultimately show ?thesis by blast
    qed
  qed
qed

lemma alloc_blocks_ok:
  assumes "alloc_inv rs S L P c N K s" "pool_setting rs S" "i \<in> S" "index < 7"
  shows "\<exists>r s'. alloc_blocks index (bytes index div PageBytes) unoptimized random i s = Some (r, s') \<and>
    alloc_result rs S L P c N K (index = 0) {i} s r s'"
  using assms(1)
proof (induction "wanted s" arbitrary: s rule: less_induct)
  case (less s)
  let ?n = "bytes index div PageBytes"
  show ?case
  proof (cases "?n \<le> wanted s")
    case False
    then have "used_up rs P {i} s" if "index = 0" using that by (simp add: used_up_def PageBytes_def)
    then have "alloc_result rs S L P c N K (index = 0) {i} s ResultSuccess s"
      using less.prems by (simp add: alloc_result_def grows_def)
    then show ?thesis using False by (subst alloc_blocks.simps) simp
  next
    case True
    consider (ends) "\<exists>r s'. alloc_blocks index ?n unoptimized random i s = Some (r, s') \<and> alloc_result rs S L P c N K (index = 0) {i} s r s'"
      | (again) s1 where "alloc_blocks index ?n unoptimized random i s = alloc_blocks index ?n unoptimized random i s1"
          "alloc_inv rs S L P c N K s1" "same_frame (managers s) (managers s1)" "grows s s1" "wanted s1 < wanted s"
      using alloc_blocks_round [OF less.prems assms(2-4) True] by blast
    then show ?thesis
    proof cases
      case again
      then obtain r s' where "alloc_blocks index ?n unoptimized random i s1 = Some (r, s')" "alloc_result rs S L P c N K (index = 0) {i} s1 r s'"
        using less.hyps [OF again(5,2)] by blast
      then show ?thesis
        using again(1) alloc_result_trans [OF _ again(3,4), of rs S L P c N K "index = 0" "{i}" r s'] by auto
    qed
  qed
qed

section \<open>The managers of the pool and the block sizes\<close>

lemma alloc_over_managers_ok:
  assumes "alloc_inv rs S L P c N K s" "pool_setting rs S" "index < 7"
    "GetFirstManager pool dir (managers s) = Some first" "chain dir (managers s) first is" "set is = S"
  shows "\<exists>r s'. alloc_over_managers index (bytes index div PageBytes) unoptimized random pool dir s = Some (r, s') \<and>
    alloc_result rs S L P c N K (index = 0) S s r s'"
proof -
  let ?n = "bytes index div PageBytes"
  let ?body = "\<lambda>i (_, s). map_option (\<lambda>(r, s). (r \<noteq> ResultSuccess, r, s)) (alloc_blocks index ?n unoptimized random i s)"
  let ?I = "\<lambda>V t. fst t = ResultSuccess \<and> alloc_result rs S L P c N K (index = 0) V s (fst t) (snd t)"
  let ?J = "\<lambda>i :: nat. \<lambda>t. alloc_result rs S L P c N K (index = 0) S s (fst t) (snd t)"
  have "\<exists>res t. for_managers (\<lambda>rs. managers (snd rs)) ?body dir first (ResultSuccess, s) = Some (res, t) \<and>
      same_frame (managers (snd (ResultSuccess, s))) (managers (snd t)) \<and>
      (case res of None \<Rightarrow> ?I ({} \<union> set is) t | Some i \<Rightarrow> i \<in> set is \<and> ?J i t)"
  proof (rule for_managers_ok)
    show "?I {} (ResultSuccess, s)"
      using assms(1) by (simp add: alloc_result_def grows_def used_up_def)
  next
    fix i V and t :: "Result \<times> group_alloc" assume "i \<in> set is" and I: "?I V t"
    then have i: "i \<in> S" using assms(6) by simp
    have t: "alloc_inv rs S L P c N K (snd t)" "same_frame (managers s) (managers (snd t))" "grows s (snd t)"
      "index = 0 \<Longrightarrow> used_up rs P V (snd t)"
      using I by (auto simp: alloc_result_def)
    obtain r s' where s': "alloc_blocks index ?n unoptimized random i (snd t) = Some (r, s')"
      "alloc_result rs S L P c N K (index = 0) {i} (snd t) r s'"
      using alloc_blocks_ok [OF t(1) assms(2) i assms(3)] by blast
    have "used_up rs P (insert i V) s'" if "index = 0" "r = ResultSuccess"
      using that s'(2) grows_used_up [OF _ t(4)] used_up_insert unfolding alloc_result_def by blast
    moreover have "alloc_result rs S L P c N K False {} s r s'"
      by (rule alloc_result_trans [OF s'(2) t(2,3)]) simp
    ultimately have "if r \<noteq> ResultSuccess then ?J i (r, s') else ?I (insert i V) (r, s')"
      by (auto simp: alloc_result_def)
    then show "\<exists>stop t'. ?body i t = Some (stop, t') \<and> same_frame (managers (snd t)) (managers (snd t')) \<and>
        (if stop then ?J i t' else ?I (insert i V) t')"
      using s' by (intro exI [of _ "r \<noteq> ResultSuccess"] exI [of _ "(r, s')"]) (simp add: case_prod_beta alloc_result_def)
  qed (use assms(5) in simp)
  then obtain res r s' where "for_managers (\<lambda>rs. managers (snd rs)) ?body dir first (ResultSuccess, s) = Some (res, r, s')"
    "alloc_result rs S L P c N K (index = 0) S s r s'"
    using assms(6) by (auto split: option.splits)
  then show ?thesis
    using assms(4) by (simp add: alloc_over_managers_def)
qed

lemma block_num_pages: "index < 7 \<Longrightarrow> GetBlockNumPages index = Some (bytes index div PageBytes)"
  by (simp add: GetBlockNumPages_def GetBlockSize_def fetch_def MemoryBlockPageShifts_def shift_def)

lemma alloc_over_sizes_ok:
  assumes "alloc_inv rs S L P c N K s" "pool_setting rs S" "n \<le> 7"
    "GetFirstManager pool dir (managers s) = Some first" "chain dir (managers s) first is" "set is = S"
  shows "\<exists>r s'. alloc_over_sizes n unoptimized random pool dir s = Some (r, s') \<and> alloc_result rs S L P c N K (0 < n) S s r s'"
  using assms
proof (induction n arbitrary: s)
  case 0
  then show ?case by (simp add: alloc_result_def grows_def)
next
  case (Suc index)
  have index: "index < 7" using Suc.prems(3) by simp
  show ?case
  proof (cases "wanted s = 0")
    case True
    then show ?thesis using Suc.prems(1) by (simp add: alloc_result_def grows_def used_up_def)
  next
    case False
    obtain r s1 where s1: "alloc_over_managers index (bytes index div PageBytes) unoptimized random pool dir s = Some (r, s1)"
      "alloc_result rs S L P c N K (index = 0) S s r s1"
      using alloc_over_managers_ok [OF Suc.prems(1,2) index Suc.prems(4-6)] by blast
    show ?thesis
    proof (cases "r = ResultSuccess")
      case False': False
      then have "alloc_result rs S L P c N K (0 < Suc index) S s r s1" using s1(2) by (auto simp: alloc_result_def)
      then show ?thesis using False False' s1(1) block_num_pages [OF index] by simp
    next
      case True
      have frame: "same_frame (managers s) (managers s1)" and inv: "alloc_inv rs S L P c N K s1" and grow: "grows s s1"
        and up: "index = 0 \<Longrightarrow> used_up rs P S s1"
        using s1(2) True by (auto simp: alloc_result_def)
      note calls = same_frame_calls [OF frame]
      obtain r' s' where s': "alloc_over_sizes index unoptimized random pool dir s1 = Some (r', s')"
        "alloc_result rs S L P c N K (0 < index) S s1 r' s'"
        using Suc.IH [OF inv Suc.prems(2)] Suc.prems(3-6) calls by auto
      have "used_up rs P S s'" if "r' = ResultSuccess"
      proof (cases "index = 0")
        case True': True
        then show ?thesis using grows_used_up [OF _ up [OF True']] s'(2) by (auto simp: alloc_result_def)
      next
        case False'': False
        then show ?thesis using s'(2) that by (auto simp: alloc_result_def)
      qed
      then have "alloc_result rs S L P c N K (0 < Suc index) S s r' s'"
        using s'(2) grows_trans [OF grow] same_frame_trans [OF frame] by (auto simp: alloc_result_def)
      then show ?thesis using False True s1(1) s'(1) block_num_pages [OF index] by simp
    qed
  qed
qed

section \<open>Loops over groups\<close>

context chunk_op begin

lemma group_loop_ok:
  assumes "\<And>mm. loop [] mm = Some mm"
    "\<And>b bs mm. loop (b # bs) mm = Option.bind (for_chunks (\<lambda>mm. mm) (\<lambda>i address k. change_manager i (chunk address k))
       (info_GetAddress b) (info_GetNumPages b) mm) (loop bs)"
    "mm_ok rs mm st" "sorted_wrt (\<lambda>x y. info_pages x \<inter> info_pages y = {}) pg" "group_pages pg \<subseteq> all_pages rs"
    "\<And>p. p \<in> group_pages pg \<Longrightarrow> allowed st p"
  shows "\<exists>mm'. loop pg mm = Some mm' \<and> same_frame mm mm' \<and> mm_ok rs mm' (effect (group_pages pg) st)"
  using assms(3-6)
proof (induction pg arbitrary: mm st)
  case Nil
  then show ?case using assms(1) by (simp add: effect_none)
next
  case (Cons b bs)
  have apart: "info_pages b \<inter> group_pages bs = {}" by (rule sorted_disjoint [OF Cons.prems(2)])
  obtain mm1 where mm1: "for_chunks (\<lambda>mm. mm) (\<lambda>i address k. change_manager i (chunk address k))
      (info_GetAddress b) (info_GetNumPages b) mm = Some mm1" "same_frame mm mm1" "mm_ok rs mm1 (effect (info_pages b) st)"
    using chunks_ok [OF Cons.prems(1), of "info_GetAddress b" "info_GetNumPages b"] Cons.prems(3,4) by (auto simp: info_pages_def)
  have "\<exists>mm'. loop bs mm1 = Some mm' \<and> same_frame mm1 mm' \<and> mm_ok rs mm' (effect (group_pages bs) (effect (info_pages b) st))"
  proof (rule Cons.IH [OF mm1(3)])
    show "allowed (effect (info_pages b) st) p" if "p \<in> group_pages bs" for p
      using that apart Cons.prems(4) by (subst allowed_local) auto
  qed (use Cons.prems in auto)
  then show ?case
    using mm1(1) assms(2) same_frame_trans [OF mm1(2)] effect_two [OF apart, of st] by auto
qed

end

lemma open_group_first_ok:
  assumes "mm_ok rs mm st" "sorted_wrt (\<lambda>x y. info_pages x \<inter> info_pages y = {}) pg" "group_pages pg \<subseteq> all_pages rs"
    "\<And>p. p \<in> group_pages pg \<Longrightarrow> openable st p"
  shows "\<exists>mm'. open_group_first pg mm = Some mm' \<and> same_frame mm mm' \<and> mm_ok rs mm' (opened (group_pages pg) st)"
  by (rule open_first_chunk.group_loop_ok [OF _ _ assms]) (simp_all add: mm_OpenFirst_def)

lemma open_group_ok:
  assumes "mm_ok rs mm st" "sorted_wrt (\<lambda>x y. info_pages x \<inter> info_pages y = {}) pg" "group_pages pg \<subseteq> all_pages rs"
    "\<And>p. p \<in> group_pages pg \<Longrightarrow> openable st p"
  shows "\<exists>mm'. open_group pg mm = Some mm' \<and> same_frame mm mm' \<and> mm_ok rs mm' (opened (group_pages pg) st)"
  by (rule open_chunk.group_loop_ok [OF _ _ assms]) (simp_all add: mm_Open_def)

lemma close_group_ok:
  assumes "mm_ok rs mm st" "sorted_wrt (\<lambda>x y. info_pages x \<inter> info_pages y = {}) pg" "group_pages pg \<subseteq> all_pages rs"
    "\<And>p. p \<in> group_pages pg \<Longrightarrow> closable st p"
  shows "\<exists>mm'. close_group pg mm = Some mm' \<and> same_frame mm mm' \<and> mm_ok rs mm' (closed (group_pages pg) st)"
  by (rule close_chunk.group_loop_ok [OF _ _ assms]) (simp_all add: mm_Close_def)

text \<open>\<^verbatim>\<open>CloseAndReset\<close> is \<^verbatim>\<open>Close\<close> and \<^verbatim>\<open>Finalize\<close>.\<close>

lemma CloseAndReset_split:
  "CloseAndReset pg (infos, mm) = map_option (\<lambda>mm'. (fst (Finalize_group pg infos), snd (Finalize_group pg infos), mm')) (close_group pg mm)"
proof (induction pg arbitrary: infos mm)
  case (Cons b bs)
  show ?case
    by (cases "mm_Close (info_GetAddress b) (info_GetNumPages b) mm") (simp_all add: Cons.IH Finalize_group_def)
qed (simp add: Finalize_group_def)

section \<open>Page groups\<close>

text \<open>The undo frees of each node what lies in the manager of its first page.\<close>

lemma first_part:
  assumes "mm_ok rs mm st" "i < length rs" "pages a k \<subseteq> region_pages (rs ! i)" "0 < k"
    "pages a n = pages a k \<union> pages (a + k * PageBytes) (n - k)" "k = n \<or> a + k * PageBytes \<notin> region_pages (rs ! i)"
    "info_GetAddress b = a" "info_GetNumPages b = n"
  shows "info_pages b - stray_pages rs b = pages a k"
proof -
  let ?r = "rs ! i"
  have first: "a \<in> region_pages ?r" using assms(3,4) by (force simp: mem_pages)
  have only: "r = ?r" if r: "r \<in> set rs" "a \<in> region_pages r" for r
    using regions_apart [OF mm_okD(1) [OF assms(1)] assms(2)] r first by (metis in_set_conv_nth)
  have behind: "p \<notin> region_pages ?r" if p: "p \<in> pages (a + k * PageBytes) (n - k)" for p
  proof
    assume q: "p \<in> region_pages ?r"
    obtain j where j: "p = a + (k + j) * PageBytes" "j < n - k" using p by (auto simp: mem_pages algebra_simps)
    obtain x y where x: "a = fst ?r + x * PageBytes" and y: "p = fst ?r + y * PageBytes" "y < snd ?r div PageBytes"
      using first q by (auto simp: region_pages_def mem_pages)
    have "(x + (k + j)) * PageBytes = y * PageBytes" using j(1) y(1) unfolding x by (simp add: algebra_simps)
    then have "x + k < snd ?r div PageBytes" using y(2) by (simp add: PageBytes_def)
    then have "a + k * PageBytes \<in> region_pages ?r"
      unfolding region_pages_def mem_pages x by (intro exI [of _ "x + k"]) (simp add: algebra_simps)
    with assms(6) j(2) show False by auto
  qed
  have "info_pages b = pages a k \<union> pages (a + k * PageBytes) (n - k)"
    using assms(5,7,8) by (simp add: info_pages_def)
  moreover have "stray_pages rs b = {p \<in> info_pages b. p \<notin> region_pages ?r}"
    using only first assms(2,7) by (auto simp: stray_pages_def)
  ultimately show ?thesis using behind assms(3) by auto
qed

lemma free_group_ok:
  assumes "mm_ok rs mm (Q, c)" "sorted_wrt (\<lambda>x y. info_pages x \<inter> info_pages y = {}) pg"
    "\<And>b. b \<in> set pg \<Longrightarrow> info_in rs S b" "group_pages pg \<inter> Q = {}" "pool_setting rs S"
  shows "\<exists>mm'. free_group pg mm = Some mm' \<and> same_frame mm mm' \<and> mm_ok rs mm' (Q \<union> (group_pages pg - strays rs pg), c)"
  using assms(1-4)
proof (induction pg arbitrary: mm Q)
  case (Cons b bs)
  let ?a = "info_GetAddress b" and ?n = "info_GetNumPages b"
  have n: "0 < ?n" and pool: "info_pages b \<subseteq> pool_pages_of rs S" using Cons.prems(3) [of b] by (simp_all add: info_in_def)
  have sub: "pages ?a ?n \<subseteq> all_pages rs"
    using pool assms(5) by (force simp: pool_pages_of_def pool_setting_def all_pages_def info_pages_def)
  obtain i k where i: "i < length rs" "GetManager mm ?a = Some i" "fetch (m_managers mm) i = Some (m_managers mm ! i)"
    and k: "min ?n (GetPageOffsetToEnd (m_heap (m_managers mm ! i)) ?a) = k" "0 < k" "pages ?a k \<subseteq> region_pages (rs ! i)"
    and split: "pages ?a ?n = pages ?a k \<union> pages (?a + k * PageBytes) (?n - k)"
    and edge: "k = ?n \<or> ?a + k * PageBytes \<notin> region_pages (rs ! i)"
    using first_chunk [OF Cons.prems(1) sub n] by blast
  have part: "info_pages b - stray_pages rs b = pages ?a k"
    by (rule first_part [OF Cons.prems(1) i(1) k(3,2) split edge refl refl])
  have disjoint: "pages ?a k \<inter> Q = {}" using Cons.prems(4) part by auto
  have "PageBytes dvd ?a" by (simp add: info_GetAddress_def)
  then obtain mm1 where mm1: "change_manager i (Impl_Free ?a k) mm = Some mm1" "same_frame mm mm1" "mm_ok rs mm1 (Q \<union> pages ?a k, c)"
    using manager_free [OF Cons.prems(1) i(1) _ k(3) disjoint] by blast
  have apart: "info_pages b \<inter> group_pages bs = {}" by (rule sorted_disjoint [OF Cons.prems(2)])
  have "\<exists>mm'. free_group bs mm1 = Some mm' \<and> same_frame mm1 mm' \<and>
      mm_ok rs mm' (Q \<union> pages ?a k \<union> (group_pages bs - strays rs bs), c)"
    using Cons.prems apart part by (intro Cons.IH [OF mm1(3)]) auto
  moreover have "Q \<union> pages ?a k \<union> (group_pages bs - strays rs bs) = Q \<union> (group_pages (b # bs) - strays rs (b # bs))"
    using apart stray_subset(1) [of rs b] stray_subset(2) [of rs bs] part by auto
  moreover have "sub64 (heap_GetEndAddress (m_heap (m_managers mm ! i))) ?a div PageBytes = GetPageOffsetToEnd (m_heap (m_managers mm ! i)) ?a"
    by (simp add: GetPageOffsetToEnd_def)
  ultimately show ?case
    using i(2,3) k(1) mm1(1) same_frame_trans [OF mm1(2)] by (auto simp: Let_def)
qed simp

end
