(* ===== verification/MemoryManager_Contract.thy ===== *)
theory MemoryManager_Contract
  imports MemoryManager_Groups
begin

text \<open>
  The effect of \<^verbatim>\<open>AllocatePageGroupImpl\<close> and \<^verbatim>\<open>AllocateAndOpen\<close> on the books: a group of exactly the
  wanted pages, or none; what a failed request collected goes back to the heaps, but for the pages of a
  node that lie behind the manager of its first page.
\<close>

lemma GetBlockIndex_ok: "0 < N \<Longrightarrow> \<exists>i < 7. GetBlockIndex N = int i"
proof -
  assume "0 < N"
  let ?P = "\<lambda>i. N \<ge> 2 ^ (MemoryBlockPageShifts ! i) div PageBytes"
  have "?P 0" using \<open>0 < N\<close> by (simp add: MemoryBlockPageShifts_def PageBytes_def)
  then obtain i where i: "find ?P (rev [0..<7]) = Some i"
    by (cases "find ?P (rev [0..<7])") (auto simp: find_None_iff)
  then have "i \<in> set (rev [0..<7])" by (metis find_Some_iff nth_mem)
  then show ?thesis using i by (auto simp: GetBlockIndex_def NumMemoryBlockPageShifts_def)
qed

lemma group_in_pool: "group_ok rs S L pg infos k \<Longrightarrow> group_pages pg \<subseteq> pool_pages_of rs S"
  using group_okD(4) by (fastforce simp: group_pages_def info_in_def pool_pages_of_def)

lemma finite_pool: "S \<subseteq> {..<length rs} \<Longrightarrow> finite (pool_pages_of rs S)"
  by (simp add: pool_pages_of_def region_pages_def finite_subset [OF _ finite_lessThan])

lemma pool_in_all: "S \<subseteq> {..<length rs} \<Longrightarrow> pool_pages_of rs S \<subseteq> all_pages rs"
  by (force simp: pool_pages_of_def all_pages_def)

text \<open>
  The group that a request has collected when its loops end, and the pages that its undo does not reach: none
  when no two managers of the pool have neighbouring pages.
\<close>

definition collected :: "nat \<Rightarrow> nat \<Rightarrow> nat \<Rightarrow> bool \<Rightarrow> bool \<Rightarrow> KBlockInfoManager \<Rightarrow> KMemoryManager \<Rightarrow> KPageGroup" where
  "collected N pool dir unoptimized random infos mm =
     (case alloc_over_sizes (nat (GetBlockIndex N) + 1) unoptimized random pool dir
        \<lparr>wanted = N, out_group = [], block_infos = infos, managers = mm\<rparr> of
        None \<Rightarrow> []
      | Some (r, s) \<Rightarrow> out_group s)"

definition open_strays :: "(nat \<times> nat) list \<Rightarrow> nat \<Rightarrow> u32 \<Rightarrow> KBlockInfoManager \<Rightarrow> KMemoryManager \<Rightarrow> nat set" where
  "open_strays rs N opt infos mm =
     strays rs (collected N (GetPool opt) (GetDirection opt) (m_has_optimized_process mm ! GetPool opt) True infos mm)"

definition process_strays ::
  "(nat \<times> nat) list \<Rightarrow> nat \<Rightarrow> u32 \<Rightarrow> u64 \<Rightarrow> KBlockInfoManager \<Rightarrow> KMemoryManager \<Rightarrow> nat set" where
  "process_strays rs N opt process_id infos mm =
     strays rs (collected N (GetPool opt) (GetDirection opt)
       (m_has_optimized_process mm ! GetPool opt \<and> m_optimized_process_ids mm ! GetPool opt \<noteq> process_id) False infos mm)"

definition pages_apart :: "(nat \<times> nat) list \<Rightarrow> nat set \<Rightarrow> bool" where
  "pages_apart rs S \<longleftrightarrow>
     (\<forall>i \<in> S. \<forall>j \<in> S. \<forall>p. p \<in> region_pages (rs ! i) \<and> p + PageBytes \<in> region_pages (rs ! j) \<longrightarrow> i = j)"

lemma apart_no_strays:
  assumes "pages_apart rs S" "S \<subseteq> {..<length rs}" "\<And>b. b \<in> set pg \<Longrightarrow> info_in rs S b"
  shows "strays rs pg = {}"
proof -
  have "stray_pages rs b = {}" if "b \<in> set pg" for b
  proof -
    let ?a = "info_GetAddress b" and ?n = "info_GetNumPages b"
    have n: "0 < ?n" and sub: "pages ?a ?n \<subseteq> pool_pages_of rs S"
      using assms(3) [OF that] by (simp_all add: info_in_def info_pages_def)
    have pool: "?a + j * PageBytes \<in> pool_pages_of rs S" if "j < ?n" for j
      by (rule subsetD [OF sub]) (use that in \<open>auto simp: mem_pages\<close>)
    obtain i where i: "i \<in> S" "?a \<in> region_pages (rs ! i)"
      using pool [OF n] by (auto simp: pool_pages_of_def)
    have "j < ?n \<Longrightarrow> ?a + j * PageBytes \<in> region_pages (rs ! i)" for j
    proof (induction j)
      case (Suc j)
      then obtain i' where i': "i' \<in> S" "?a + Suc j * PageBytes \<in> region_pages (rs ! i')"
        using pool [of "Suc j"] by (auto simp: pool_pages_of_def)
      moreover have "?a + Suc j * PageBytes = ?a + j * PageBytes + PageBytes" by simp
      ultimately have "i = i'" using Suc assms(1) i(1) unfolding pages_apart_def by (metis Suc_lessD)
      then show ?case using i'(2) by simp
    qed (use i(2) in simp)
    then have "info_pages b \<subseteq> region_pages (rs ! i)" by (auto simp: info_pages_def mem_pages)
    moreover have "rs ! i \<in> set rs" using i(1) assms(2) by auto
    ultimately show ?thesis using i(2) by (auto simp: stray_pages_def)
  qed
  then show ?thesis by (simp add: strays_def)
qed

text \<open>What the functions return: a full group, or nothing.\<close>

definition got_group ::
  "(nat \<times> nat) list \<Rightarrow> nat set \<Rightarrow> nat set \<Rightarrow> nat set \<Rightarrow> nat \<Rightarrow> nat \<Rightarrow> KPageGroup \<Rightarrow> KBlockInfoManager \<Rightarrow> bool" where
  "got_group rs S L P N K pg infos \<longleftrightarrow> (\<exists>k. group_ok rs S L pg infos k \<and> length pg + k = K) \<and>
     card (group_pages pg) = N \<and> group_pages pg \<subseteq> P \<inter> pool_pages_of rs S"

definition got_nothing ::
  "(nat \<times> nat) list \<Rightarrow> nat set \<Rightarrow> nat set \<Rightarrow> nat set \<Rightarrow> nat \<Rightarrow> nat \<Rightarrow> nat set \<Rightarrow> Result \<Rightarrow> KPageGroup \<Rightarrow> KBlockInfoManager \<Rightarrow> bool" where
  "got_nothing rs S L P N K X r pg infos \<longleftrightarrow> pg = [] \<and> slab_ok KBlockInfo_size infos L K \<and>
     X \<subseteq> P \<inter> pool_pages_of rs S \<and> (pages_apart rs S \<longrightarrow> X = {}) \<and>
     (r = ResultOutOfMemory \<and> card (P \<inter> pool_pages_of rs S) < N \<or> r = ResultOutOfResource \<and> K < N)"

lemma too_few_pages:
  assumes "alloc_inv rs S L P c N K s" "used_up rs P S s" "wanted s \<noteq> 0" "pool_setting rs S"
  shows "card (P \<inter> pool_pages_of rs S) < N"
proof -
  let ?X = "group_pages (out_group s)"
  have "P \<inter> pool_pages_of rs S \<subseteq> ?X"
    using assms(2,3) by (auto simp: used_up_def pool_pages_of_def)
  then have "card (P \<inter> pool_pages_of rs S) \<le> card ?X" by (intro card_mono) simp_all
  then show ?thesis using assms(1,3) by (simp add: alloc_inv_def)
qed

lemma undo_group:
  assumes "alloc_inv rs S L P c N K s" "pool_setting rs S"
  shows "\<exists>mm' infos'. free_group (out_group s) (managers s) = Some mm' \<and> same_frame (managers s) mm' \<and>
    mm_ok rs mm' (P - strays rs (out_group s), c) \<and> Finalize_group (out_group s) (block_infos s) = ([], infos') \<and> slab_ok KBlockInfo_size infos' L K"
proof -
  obtain k where k: "group_ok rs S L (out_group s) (block_infos s) k" "length (out_group s) + k = K"
    and X: "group_pages (out_group s) \<subseteq> P" "mm_ok rs (managers s) (P - group_pages (out_group s), c)"
    using assms(1) by (auto simp: alloc_inv_def)
  have "P - group_pages (out_group s) \<union> (group_pages (out_group s) - strays rs (out_group s)) = P - strays rs (out_group s)"
    using X(1) stray_subset(2) [of rs "out_group s"] by auto
  then obtain mm' where "free_group (out_group s) (managers s) = Some mm'" "same_frame (managers s) mm'"
    "mm_ok rs mm' (P - strays rs (out_group s), c)"
    using free_group_ok [OF X(2) group_okD(5,4) [OF k(1)] _ assms(2)] by auto
  then show ?thesis using Finalize_group_ok [OF k(1)] k(2) by (auto simp: add.commute)
qed

lemma AllocatePageGroupImpl_ok:
  fixes unoptimized random :: bool
  assumes ok: "mm_ok rs mm (P, c)" and "0 < N" "pool_setting rs S" "slab_ok KBlockInfo_size infos L K"
    "GetFirstManager pool dir mm = Some first" "chain dir mm first is" "set is = S"
  defines "X \<equiv> strays rs (collected N pool dir unoptimized random infos mm)"
  shows "\<exists>r pg infos' mm'. AllocatePageGroupImpl N pool dir unoptimized random ([], infos, mm) = Some (r, pg, infos', mm') \<and>
    same_frame mm mm' \<and> (r = ResultSuccess \<and> got_group rs S L P N K pg infos' \<and> mm_ok rs mm' (P - group_pages pg, c) \<or>
      r \<noteq> ResultSuccess \<and> got_nothing rs S L P N K X r pg infos' \<and> mm_ok rs mm' (P - X, c))"
proof -
  let ?s = "\<lparr>wanted = N, out_group = [], block_infos = infos, managers = mm\<rparr>"
  obtain i where i: "i < 7" "GetBlockIndex N = int i" using GetBlockIndex_ok [OF assms(2)] by blast
  have "alloc_inv rs S L P c N K ?s" using ok assms(4) by (simp add: alloc_inv_def group_ok_def)
  moreover have "i + 1 \<le> 7" using i(1) by simp
  moreover have "GetFirstManager pool dir (managers ?s) = Some first" "chain dir (managers ?s) first is"
    using assms(5,6) by simp_all
  ultimately obtain r s where s: "alloc_over_sizes (i + 1) unoptimized random pool dir ?s = Some (r, s)"
    "alloc_result rs S L P c N K (0 < i + 1) S ?s r s"
    using alloc_over_sizes_ok assms(3,7) by blast
  have res: "same_frame mm (managers s)" "alloc_inv rs S L P c N K s"
    "r = ResultSuccess \<and> used_up rs P S s \<or> r = ResultOutOfResource \<and> K < N"
    using s(2) by (auto simp: alloc_result_def)
  let ?r = "if r \<noteq> ResultSuccess then r else if wanted s = 0 then ResultSuccess else ResultOutOfMemory"
  show ?thesis
  proof (cases "?r = ResultSuccess")
    case True
    then have "r = ResultSuccess" "wanted s = 0" by (auto split: if_splits)
    moreover from this have "got_group rs S L P N K (out_group s) (block_infos s)" "mm_ok rs (managers s) (P - group_pages (out_group s), c)"
      using res(2) group_in_pool unfolding alloc_inv_def got_group_def by (metis add_0 le_inf_iff, blast)
    ultimately show ?thesis using s(1) i res(1)
      by (auto simp: AllocatePageGroupImpl_def Let_def simp del: alloc_over_sizes.simps)
  next
    case False
    have X: "X = strays rs (out_group s)" using s(1) i(2) by (simp add: X_def collected_def del: alloc_over_sizes.simps)
    obtain k where k: "group_ok rs S L (out_group s) (block_infos s) k" "group_pages (out_group s) \<subseteq> P"
      using res(2) by (auto simp: alloc_inv_def)
    have lost: "X \<subseteq> P \<inter> pool_pages_of rs S"
      using stray_subset(2) [of rs "out_group s"] k(2) group_in_pool [OF k(1)] X by blast
    have none: "X = {}" if "pages_apart rs S"
      using apart_no_strays [OF that _ group_okD(4) [OF k(1)]] assms(3) X by (auto simp: pool_setting_def)
    obtain mm' infos' where undo: "free_group (out_group s) (managers s) = Some mm'" "same_frame (managers s) mm'" "mm_ok rs mm' (P - X, c)"
      "Finalize_group (out_group s) (block_infos s) = ([], infos')" "slab_ok KBlockInfo_size infos' L K"
      using undo_group [OF res(2) assms(3)] X by blast
    have "?r = ResultOutOfMemory \<and> card (P \<inter> pool_pages_of rs S) < N \<or> ?r = ResultOutOfResource \<and> K < N"
      using res(3) False too_few_pages [OF res(2) _ _ assms(3)] by (auto split: if_splits)
    then have "got_nothing rs S L P N K X ?r [] infos'" using undo(5) lost none by (auto simp: got_nothing_def)
    moreover have "AllocatePageGroupImpl N pool dir unoptimized random ([], infos, mm) = Some (?r, [], infos', mm')"
      using s(1) i False undo(1,4) by (simp add: AllocatePageGroupImpl_def Let_def del: alloc_over_sizes.simps)
    ultimately show ?thesis using False undo(3) same_frame_trans [OF res(1) undo(2)] by blast
  qed
qed

lemma AllocateAndOpen_ok:
  assumes ok: "mm_ok rs mm (P, c)" and fresh: "\<And>p. p \<in> P \<Longrightarrow> c p = 0" and N: "0 < N" and pool: "GetPool opt < 4"
    and set: "pool_setting rs S" and infos: "slab_ok KBlockInfo_size infos L K"
    and first: "GetFirstManager (GetPool opt) (GetDirection opt) mm = Some first" "chain (GetDirection opt) mm first is" "set is = S"
  defines "X \<equiv> open_strays rs N opt infos mm"
  shows "\<exists>r pg infos' mm'. AllocateAndOpen N opt ([], infos, mm) = Some (r, pg, infos', mm') \<and>
    same_frame mm mm' \<and> (r = ResultSuccess \<and> got_group rs S L P N K pg infos' \<and> mm_ok rs mm' (P - group_pages pg, bump (group_pages pg) c) \<or>
      r \<noteq> ResultSuccess \<and> got_nothing rs S L P N K X r pg infos' \<and> mm_ok rs mm' (P - X, c))"
proof -
  have has: "fetch (m_has_optimized_process mm) (GetPool opt) = Some (m_has_optimized_process mm ! GetPool opt)"
    by (rule frame_okD(3) [OF mm_okD(1) [OF ok] pool])
  obtain r pg infos' mm1 where r: "AllocatePageGroupImpl N (GetPool opt) (GetDirection opt)
      (m_has_optimized_process mm ! GetPool opt) True ([], infos, mm) = Some (r, pg, infos', mm1)"
    "same_frame mm mm1" "r = ResultSuccess \<and> got_group rs S L P N K pg infos' \<and> mm_ok rs mm1 (P - group_pages pg, c) \<or>
      r \<noteq> ResultSuccess \<and> got_nothing rs S L P N K X r pg infos' \<and> mm_ok rs mm1 (P - X, c)"
    using AllocatePageGroupImpl_ok [OF ok N set infos first] unfolding X_def open_strays_def by blast
  show ?thesis
  proof (cases "r = ResultSuccess")
    case True
    then have got: "got_group rs S L P N K pg infos'" "mm_ok rs mm1 (P - group_pages pg, c)" using r(3) by auto
    have "pool_pages_of rs S \<subseteq> all_pages rs" using set by (intro pool_in_all) (simp add: pool_setting_def)
    with got(1) obtain k where pg: "group_ok rs S L pg infos' k" "group_pages pg \<subseteq> P" "group_pages pg \<subseteq> all_pages rs"
      unfolding got_group_def by blast
    have "openable (P - group_pages pg, c) p" if "p \<in> group_pages pg" for p
      using that pg(2) fresh [of p] by (auto simp: openable_def)
    then obtain mm2 where mm2: "open_group_first pg mm1 = Some mm2" "same_frame mm1 mm2"
      "mm_ok rs mm2 (P - group_pages pg, bump (group_pages pg) c)"
      using open_group_first_ok [OF got(2) group_okD(5) [OF pg(1)] pg(3)] by (auto simp: opened_def)
    then show ?thesis
      using True r(1) has N got(1) same_frame_trans [OF r(2) mm2(2)] by (auto simp: AllocateAndOpen_def DecodeOption_def)
  next
    case False
    then show ?thesis using r has N by (auto simp: AllocateAndOpen_def DecodeOption_def)
  qed
qed

end
