(* ===== verification/MemoryManager_Links.thy ===== *)
theory MemoryManager_Links
  imports MemoryManager_Contract
begin

text \<open>
  The list of the managers of a pool: linking a manager appends it, and a loop in either direction visits
  exactly the managers of the list.
\<close>

section \<open>The pool lists\<close>

definition links_of :: "KMemoryManager_Impl list \<Rightarrow> nat list \<Rightarrow> bool" where
  "links_of xs ms \<longleftrightarrow> (\<forall>k < length ms. ms ! k < length xs \<and> m_next (xs ! (ms ! k)) = fetch ms (Suc k) \<and>
     m_prev (xs ! (ms ! k)) = (if k = 0 then None else fetch ms (k - 1)))"

definition linked :: "KMemoryManager \<Rightarrow> nat \<Rightarrow> nat list \<Rightarrow> bool" where
  "linked mm pool ms \<longleftrightarrow> fetch (m_pool_managers_head mm) pool = Some (fetch ms 0) \<and>
     fetch (m_pool_managers_tail mm) pool = Some (if ms = [] then None else Some (last ms)) \<and> distinct ms \<and>
     links_of (m_managers mm) ms"

lemma linkedD:
  assumes "linked mm pool ms" "k < length ms"
  shows "GetNextManager (ms ! k) dir mm = Some (if dir = FromBack then (if k = 0 then None else fetch ms (k - 1)) else fetch ms (Suc k))"
  using assms by (simp add: linked_def links_of_def GetNextManager_def fetch_def)

lemma linked_forward:
  assumes "linked mm pool ms" "dir \<noteq> FromBack"
  shows "chain dir mm (fetch ms k) (drop k ms)"
proof (induction "length ms - k" arbitrary: k)
  case 0
  then show ?case by (simp add: fetch_def)
next
  case (Suc n)
  then have k: "k < length ms" by simp
  then have "drop k ms = ms ! k # drop (Suc k) ms" by (simp add: Cons_nth_drop_Suc)
  then show ?case
    using Suc.hyps(1) [of "Suc k"] Suc.hyps(2) linkedD [OF assms(1) k, of dir] assms(2) k by (simp add: fetch_def)
qed

lemma linked_backward:
  assumes "linked mm pool ms" "k \<le> length ms"
  shows "chain FromBack mm (if k = 0 then None else fetch ms (k - 1)) (rev (take k ms))"
  using assms(2)
proof (induction k)
  case (Suc k)
  then have "rev (take (Suc k) ms) = ms ! k # rev (take k ms)" by (simp add: take_Suc_conv_app_nth)
  then show ?case
    using Suc linkedD [OF assms(1), of k FromBack] by (simp add: fetch_def)
qed simp

lemma linked_chain:
  assumes "linked mm pool ms"
  shows "\<exists>first is. GetFirstManager pool dir mm = Some first \<and> chain dir mm first is \<and> set is = set ms"
proof (cases "dir = FromBack")
  case True
  have "(if ms = [] then None else Some (last ms)) = (if length ms = 0 then None else fetch ms (length ms - 1))"
    by (simp add: fetch_def last_conv_nth)
  then have "chain FromBack mm (if ms = [] then None else Some (last ms)) (rev ms)"
    using linked_backward [OF assms order.refl] by simp
  then show ?thesis
    using True assms unfolding GetFirstManager_def linked_def 
    by (intro exI [of _ "if ms = [] then None else Some (last ms)"] exI [of _ "rev ms"]) simp
next
  case False
  then show ?thesis
    using linked_forward [OF assms False, of 0] assms unfolding GetFirstManager_def linked_def
    by (intro exI [of _ "fetch ms 0"] exI [of _ ms]) simp
qed

lemma change_links:
  assumes "i < length (m_managers mm)"
  shows "change_manager i (\<lambda>m. Some (f m)) mm = Some (mm\<lparr>m_managers := (m_managers mm)[i := f (m_managers mm ! i)]\<rparr>)"
  using assms by (simp add: change_manager_def on_manager_def fetch_def store_def)

text \<open>What \<^verbatim>\<open>Initialize\<close> leaves alone when it links a manager.\<close>

definition link_only :: "KMemoryManager \<Rightarrow> KMemoryManager \<Rightarrow> bool" where
  "link_only mm mm' \<longleftrightarrow> m_memory_layout mm' = m_memory_layout mm \<and> m_num_managers mm' = m_num_managers mm \<and>
     m_has_optimized_process mm' = m_has_optimized_process mm \<and> m_optimized_process_ids mm' = m_optimized_process_ids mm \<and>
     length (m_managers mm') = length (m_managers mm) \<and> (\<forall>i. m_heap (m_managers mm' ! i) = m_heap (m_managers mm ! i) \<and>
       m_page_reference_counts (m_managers mm' ! i) = m_page_reference_counts (m_managers mm ! i))"

lemma fetch_other: "j \<noteq> i \<Longrightarrow> fetch (xs[i := v]) j = fetch xs j"
  by (simp add: fetch_def)

lemma links_of_cong: "links_of xs ms \<Longrightarrow> length ys = length xs \<Longrightarrow> (\<And>i. i \<in> set ms \<Longrightarrow> ys ! i = xs ! i) \<Longrightarrow> links_of ys ms"
  by (simp add: links_of_def)

text \<open>A manager behind the last one.\<close>

definition append_link :: "nat \<Rightarrow> nat \<Rightarrow> KMemoryManager_Impl list \<Rightarrow> KMemoryManager_Impl list" where
  "append_link t i xs = xs[t := (xs ! t)\<lparr>m_next := Some i\<rparr>, i := (xs ! i)\<lparr>m_prev := Some t\<rparr>]"

lemma append_link_facts:
  assumes "t < length xs" "i < length xs" "t \<noteq> i" "m_next (xs ! i) = None"
  shows "length (append_link t i xs) = length xs" "j \<noteq> t \<Longrightarrow> j \<noteq> i \<Longrightarrow> append_link t i xs ! j = xs ! j"
    "m_next (append_link t i xs ! t) = Some i" "m_prev (append_link t i xs ! t) = m_prev (xs ! t)"
    "m_next (append_link t i xs ! i) = None" "m_prev (append_link t i xs ! i) = Some t"
    "m_heap (append_link t i xs ! j) = m_heap (xs ! j)"
    "m_page_reference_counts (append_link t i xs ! j) = m_page_reference_counts (xs ! j)"
  using assms by (auto simp: append_link_def nth_list_update)

lemma links_of_append:
  assumes "links_of xs ms" "distinct ms" "ms \<noteq> []" "i < length xs" "i \<notin> set ms" "m_next (xs ! i) = None"
  shows "links_of (append_link (last ms) i xs) (ms @ [i])"
proof -
  let ?t = "last ms" and ?n = "length ms"
  have n: "0 < ?n" "?t = ms ! (?n - 1)" using assms(3) by (simp_all add: last_conv_nth)
  have t: "?t < length xs" "?t \<noteq> i" using assms(1,3,5) n by (auto simp: links_of_def)
  note app = append_link_facts [OF t(1) assms(4) t(2) assms(6)]
  have "(ms @ [i]) ! k < length xs \<and> m_next (append_link ?t i xs ! ((ms @ [i]) ! k)) = fetch (ms @ [i]) (Suc k) \<and>
      m_prev (append_link ?t i xs ! ((ms @ [i]) ! k)) = (if k = 0 then None else fetch (ms @ [i]) (k - 1))" if "k < length (ms @ [i])" for k
  proof (cases "k < ?n")
    case True
    then have links: "ms ! k < length xs" "m_next (xs ! (ms ! k)) = fetch ms (Suc k)"
      "m_prev (xs ! (ms ! k)) = (if k = 0 then None else fetch ms (k - 1))"
      using assms(1) by (simp_all add: links_of_def)
    have k: "(ms @ [i]) ! k = ms ! k" "ms ! k \<noteq> i" "fetch (ms @ [i]) (k - 1) = fetch ms (k - 1)"
      using True assms(5) by (auto simp: nth_append fetch_def)
    show ?thesis
    proof (cases "k = ?n - 1")
      case True
      then have "ms ! k = ?t" "fetch (ms @ [i]) (Suc k) = Some i" using n by (simp_all add: fetch_def nth_append)
      then show ?thesis using links k app(3,4) by simp
    next
      case False
      then have "ms ! k \<noteq> ?t" "fetch (ms @ [i]) (Suc k) = fetch ms (Suc k)"
        using True n assms(2) by (auto simp: fetch_def nth_append nth_eq_iff_index_eq)
      then show ?thesis using links k app(2) by simp
    qed
  next
    case False
    then have "k = ?n" using that by simp
    then have "(ms @ [i]) ! k = i" "fetch (ms @ [i]) (Suc k) = None" "fetch (ms @ [i]) (k - 1) = Some ?t" "k \<noteq> 0"
      using n by (simp_all add: nth_append fetch_def)
    then show ?thesis using app(5,6) assms(4) by simp
  qed
  then show ?thesis by (simp add: links_of_def app(1))
qed

lemma insert_in_pool_ok:
  assumes "linked mm pool ms" "i < length (m_managers mm)" "i \<notin> set ms" "m_next (m_managers mm ! i) = None"
    "m_prev (m_managers mm ! i) = None" "length (m_pool_managers_head mm) = MaxManagerCount"
    "length (m_pool_managers_tail mm) = MaxManagerCount" "pool < 4"
  shows "\<exists>mm'. insert_in_pool i pool mm = Some mm' \<and> link_only mm mm' \<and> linked mm' pool (ms @ [i]) \<and>
    (\<forall>pool' ms'. pool' \<noteq> pool \<longrightarrow> i \<notin> set ms' \<longrightarrow> set ms' \<inter> set ms = {} \<longrightarrow> linked mm pool' ms' \<longrightarrow> linked mm' pool' ms') \<and>
    (\<forall>j. j \<noteq> i \<longrightarrow> j \<notin> set ms \<longrightarrow> m_managers mm' ! j = m_managers mm ! j) \<and>
    length (m_pool_managers_head mm') = MaxManagerCount \<and> length (m_pool_managers_tail mm') = MaxManagerCount"
proof (cases "ms = []")
  case True
  let ?mm = "mm\<lparr>m_pool_managers_head := (m_pool_managers_head mm)[pool := Some i], m_pool_managers_tail := (m_pool_managers_tail mm)[pool := Some i]\<rparr>"
  have "insert_in_pool i pool mm = Some ?mm"
    using True assms by (simp add: insert_in_pool_def linked_def store_def MaxManagerCount_def)
  moreover have "linked ?mm pool (ms @ [i])"
    using True assms by (simp add: linked_def links_of_def fetch_def MaxManagerCount_def)
  moreover have "linked ?mm pool' ms'" if "pool' \<noteq> pool" "linked mm pool' ms'" for pool' ms'
    using that by (simp add: linked_def fetch_other)
  ultimately show ?thesis using assms(6,7) by (auto simp: link_only_def)
next
  case False
  let ?t = "last ms"
  have l: "links_of (m_managers mm) ms" "distinct ms" using assms(1) by (simp_all add: linked_def)
  have t: "?t \<in> set ms" "?t = ms ! (length ms - 1)" using False by (simp_all add: last_conv_nth)
  then have t': "?t < length (m_managers mm)" "?t \<noteq> i" using l(1) assms(3) False by (auto simp: links_of_def)
  note app = append_link_facts [OF t'(1) assms(2) t'(2) assms(4)]
  let ?ms = "append_link ?t i (m_managers mm)"
  let ?mm = "mm\<lparr>m_managers := ?ms, m_pool_managers_tail := (m_pool_managers_tail mm)[pool := Some i]\<rparr>"
  have "fetch (m_pool_managers_tail mm) pool = Some (Some ?t)" using False assms(1) by (simp add: linked_def)
  then have "insert_in_pool i pool mm = Some ?mm"
    using t' assms(2,7,8) by (simp add: insert_in_pool_def change_links store_def MaxManagerCount_def append_link_def)
  moreover have "link_only mm ?mm" by (simp add: link_only_def app)
  moreover have "linked ?mm pool (ms @ [i])"
    using links_of_append [OF l False assms(2,3,4)] assms(1,3,7,8) False
    by (simp add: linked_def fetch_def nth_append MaxManagerCount_def)
  moreover have "linked ?mm pool' ms'" if "pool' \<noteq> pool" "i \<notin> set ms'" "set ms' \<inter> set ms = {}" "linked mm pool' ms'" for pool' ms'
  proof -
    have same: "?ms ! j = m_managers mm ! j" if "j \<in> set ms'" for j
      using that \<open>i \<notin> set ms'\<close> \<open>set ms' \<inter> set ms = {}\<close> t(1) by (intro app(2)) auto
    have "links_of (m_managers mm) ms'" using \<open>linked mm pool' ms'\<close> by (simp add: linked_def)
    then have "links_of ?ms ms'" by (rule links_of_cong [OF _ app(1) same])
    then show ?thesis using that by (simp add: linked_def fetch_other)
  qed
  moreover have "?ms ! j = m_managers mm ! j" if "j \<noteq> i" "j \<notin> set ms" for j
    using that t(1) by (intro app(2)) auto
  ultimately show ?thesis using assms(6,7) by auto
qed

end
