(* ===== verification/MemoryManager_Init.thy ===== *)
theory MemoryManager_Init
  imports MemoryManager_Links
begin

text \<open>
  Initialisation: from a layout with one region per manager, \<^verbatim>\<open>Initialize\<close> makes the managers,
  links them into their pools and frees all memory but the initial process binary.
\<close>

section \<open>The layout\<close>

definition user_regions :: "KMemoryRegion list \<Rightarrow> KMemoryRegion list" where
  "user_regions tree = filter (IsDerivedFrom DramUserPool) tree"

definition describes :: "(nat \<times> nat) list \<Rightarrow> nat list \<Rightarrow> KMemoryRegion \<Rightarrow> bool" where
  "describes rs ps r \<longleftrightarrow> region_address r = fst (rs ! region_attributes r) \<and>
     region_last r + 1 = fst (rs ! region_attributes r) + snd (rs ! region_attributes r) \<and>
     GetPoolFromMemoryRegionType (region_type r) = Some (ps ! region_attributes r)"

text \<open>
  The managers \<open>0, 1, \<dots>\<close> have the regions \<open>rs\<close> and the pools \<open>ps\<close>; the reference counts have room for each region
  and the linear tree finds the manager of each page.
\<close>

definition layout_ok :: "nat \<Rightarrow> KMemoryLayout \<Rightarrow> (nat \<times> nat) list \<Rightarrow> nat list \<Rightarrow> bool" where
  "layout_ok intended l rs ps \<longleftrightarrow> length rs \<le> MaxManagerCount \<and> (\<forall>i < length rs. ps ! i < 4) \<and>
     (\<forall>r \<in> set rs. heap_fits (fst r) (snd r) \<and> snd r div PageBytes \<le> intended div PageBytes) \<and>
     distinct (map region_attributes (user_regions (m_physical_tree l))) \<and>
     region_attributes ` set (user_regions (m_physical_tree l)) = {..<length rs} \<and>
     (\<forall>r \<in> set (user_regions (m_physical_tree l)). describes rs ps r) \<and>
     (\<forall>i < length rs. \<forall>p \<in> region_pages (rs ! i).
        map_option region_attributes (tree_Find p (m_physical_linear_tree l)) = Some i)"

lemma describes_size:
  assumes "describes rs ps r" "heap_fits (fst (rs ! region_attributes r)) (snd (rs ! region_attributes r))"
  shows "region_GetEndAddress r = fst (rs ! region_attributes r) + snd (rs ! region_attributes r)"
    "region_GetSize r = snd (rs ! region_attributes r)" "region_address r \<noteq> 0"
  using assms by (simp_all add: describes_def heap_fits_def region_GetEndAddress_def region_GetSize_def wrap64_less sub64_less)

lemma locate_none: "num \<notin> region_attributes ` set (user_regions tree) \<Longrightarrow> locate_region num tree res = Some res"
  by (induction tree) (auto simp: user_regions_def split: if_splits)

lemma locate_one:
  assumes "num \<in> region_attributes ` set (user_regions tree)" "distinct (map region_attributes (user_regions tree))"
    "\<forall>r \<in> set (user_regions tree). describes rs ps r" "heap_fits (fst (rs ! num)) (snd (rs ! num))"
  shows "locate_region num tree (0, sz, pool) = Some (fst (rs ! num), snd (rs ! num), ps ! num)"
  using assms(1-3)
proof (induction tree)
  case (Cons r tree)
  show ?case
  proof (cases "IsDerivedFrom DramUserPool r \<and> region_attributes r = num")
    case True
    have d: "describes rs ps r" using Cons.prems(3) True by (simp add: user_regions_def)
    have "num \<notin> region_attributes ` set (user_regions tree)"
      using Cons.prems(2) True by (auto simp: user_regions_def)
    then show ?thesis
      using True d locate_none describes_size [OF d] assms(4) by (simp add: describes_def)
  next
    case False
    then have "num \<in> region_attributes ` set (user_regions tree)"
      using Cons.prems(1) by (auto simp: user_regions_def split: if_splits)
    then show ?thesis
      using False Cons by (auto simp: user_regions_def split: if_splits)
  qed
qed (simp add: user_regions_def)

section \<open>Making the managers\<close>

text \<open>A heap as the constructor leaves it.\<close>

definition fresh_heap :: "KPageHeap \<Rightarrow> bool" where
  "fresh_heap h \<longleftrightarrow> (\<exists>seeds seed. length seeds = 7 \<and> h = new_KPageHeap seeds seed)"

definition no_books :: books where
  "no_books = ({}, \<lambda>_. 0)"

lemma Impl_Initialize_ok:
  assumes "heap_fits A sz" "fresh_heap h" "sz div PageBytes \<le> intended div PageBytes"
  shows "\<exists>n m. Impl_Initialize intended A sz management p (new_Impl h) = Some (n, m) \<and> impl_ok (A, sz) m no_books \<and>
    m_next m = None \<and> m_prev m = None"
proof -
  obtain seeds seed where h: "length seeds = 7" "h = new_KPageHeap seeds seed" using assms(2) by (auto simp: fresh_heap_def)
  obtain h' where h': "KPageHeap_Initialize A sz (KPageHeap_CalculateManagementOverheadSize sz) h = Some h'"
    "holds A sz (bitmap_start A sz) h' {}"
    using KPageHeap_Initialize_ok [OF assms(1) order.refl h(1)] h(2) by blast
  let ?m = "(new_Impl h)\<lparr>m_pool := p, m_management_region := management,
    m_page_reference_counts := replicate (intended div PageBytes) 0, m_heap := h'\<rparr>"
  have "PageBytes dvd sz" using assms(1) by (simp add: heap_fits_def)
  then have "impl_ok (A, sz) ?m no_books"
    using h'(2) assms(3) by (auto simp: impl_ok_def no_books_def page_bytes_def)
  then show ?thesis using h'(1) by (simp add: Impl_Initialize_def new_Impl_def Let_def)
qed

definition pool_list :: "nat list \<Rightarrow> nat \<Rightarrow> nat \<Rightarrow> nat list" where
  "pool_list ps n pool = filter (\<lambda>i. ps ! i = pool) [0..<n]"

definition created :: "KMemoryLayout \<Rightarrow> (nat \<times> nat) list \<Rightarrow> nat list \<Rightarrow> nat \<Rightarrow> KMemoryManager \<Rightarrow> bool" where
  "created l rs ps n mm \<longleftrightarrow> n \<le> length rs \<and> m_num_managers mm = n \<and> m_memory_layout mm = l \<and> length (m_managers mm) = MaxManagerCount \<and>
     length (m_has_optimized_process mm) = 4 \<and> length (m_optimized_process_ids mm) = 4 \<and>
     length (m_pool_managers_head mm) = MaxManagerCount \<and> length (m_pool_managers_tail mm) = MaxManagerCount \<and>
     (\<forall>i < n. impl_ok (rs ! i) (m_managers mm ! i) no_books) \<and>
     (\<forall>i. n \<le> i \<and> i < MaxManagerCount \<longrightarrow> (\<exists>h. fresh_heap h \<and> m_managers mm ! i = new_Impl h)) \<and>
     (\<forall>pool < 4. linked mm pool (pool_list ps n pool))"

lemma pool_list_Suc: "pool_list ps (Suc n) pool = (if ps ! n = pool then pool_list ps n pool @ [n] else pool_list ps n pool)"
  by (simp add: pool_list_def)

lemma set_pool_list [simp]: "set (pool_list ps n pool) = {i. i < n \<and> ps ! i = pool}"
  by (auto simp: pool_list_def)

lemma create_one:
  assumes "created l rs ps n mm" "layout_ok intended l rs ps" "n < length rs"
  shows "\<exists>cur_size mm1 mm2. on_manager n (Impl_Initialize intended (fst (rs ! n)) (snd (rs ! n)) management (ps ! n))
      (mm\<lparr>m_num_managers := n + 1\<rparr>) = Some (cur_size, mm1) \<and> insert_in_pool n (ps ! n) mm1 = Some mm2 \<and> created l rs ps (Suc n) mm2"
proof -
  have c: "length (m_managers mm) = MaxManagerCount" "n < MaxManagerCount" "ps ! n < 4" "rs ! n \<in> set rs"
    using assms by (auto simp: created_def layout_ok_def)
  obtain h where h: "fresh_heap h" "m_managers mm ! n = new_Impl h"
    using assms(1) c(2) by (auto simp: created_def)
  obtain cur_size m where m: "Impl_Initialize intended (fst (rs ! n)) (snd (rs ! n)) management (ps ! n) (new_Impl h) = Some (cur_size, m)"
    "impl_ok (rs ! n) m no_books" "m_next m = None" "m_prev m = None"
    using Impl_Initialize_ok [of "fst (rs ! n)" "snd (rs ! n)" h intended management "ps ! n"] h(1) assms(2) c(4)
    by (auto simp: layout_ok_def)
  let ?mm = "mm\<lparr>m_num_managers := n + 1, m_managers := (m_managers mm)[n := m]\<rparr>"
  have on: "on_manager n (Impl_Initialize intended (fst (rs ! n)) (snd (rs ! n)) management (ps ! n))
      (mm\<lparr>m_num_managers := n + 1\<rparr>) = Some (cur_size, ?mm)"
    using c(1,2) h(2) m(1) by (simp add: on_manager_def fetch_def store_def)
  have keep: "linked ?mm pool (pool_list ps n pool)" if "pool < 4" for pool
  proof -
    have old: "linked mm pool (pool_list ps n pool)" using assms(1) that by (simp add: created_def)
    then have "links_of (m_managers mm) (pool_list ps n pool)" by (simp add: linked_def)
    then have "links_of ((m_managers mm)[n := m]) (pool_list ps n pool)" by (rule links_of_cong) auto
    then show ?thesis using old by (simp add: linked_def)
  qed
  obtain mm2 where mm2: "insert_in_pool n (ps ! n) ?mm = Some mm2" "link_only ?mm mm2" "linked mm2 (ps ! n) (pool_list ps n (ps ! n) @ [n])"
    "\<And>pool' ms'. pool' \<noteq> ps ! n \<Longrightarrow> n \<notin> set ms' \<Longrightarrow> set ms' \<inter> set (pool_list ps n (ps ! n)) = {} \<Longrightarrow> linked ?mm pool' ms' \<Longrightarrow> linked mm2 pool' ms'"
    "\<And>j. j \<noteq> n \<Longrightarrow> j \<notin> set (pool_list ps n (ps ! n)) \<Longrightarrow> m_managers mm2 ! j = m_managers ?mm ! j"
    "length (m_pool_managers_head mm2) = MaxManagerCount" "length (m_pool_managers_tail mm2) = MaxManagerCount"
    using insert_in_pool_ok [OF keep [OF c(3)], of n] c m(3,4) assms(1) by (auto simp: created_def)
  have "linked mm2 pool (pool_list ps (Suc n) pool)" if "pool < 4" for pool
  proof (cases "ps ! n = pool")
    case False
    then have "linked mm2 pool (pool_list ps n pool)" by (intro mm2(4) [OF _ _ _ keep [OF that]]) auto
    then show ?thesis using False by (simp add: pool_list_Suc)
  qed (use mm2(3) in \<open>simp add: pool_list_Suc\<close>)
  moreover have "impl_ok (rs ! i) (m_managers mm2 ! i) no_books" if "i < Suc n" for i
  proof -
    have "impl_ok (rs ! i) (m_managers ?mm ! i) no_books"
      using that assms(1) m(2) c by (cases "i = n") (auto simp: created_def)
    then show ?thesis using mm2(2) by (simp add: impl_ok_def link_only_def)
  qed
  moreover have "m_managers mm2 ! i = m_managers mm ! i" if "Suc n \<le> i" for i
    using mm2(5) [of i] that by simp
  ultimately have "created l rs ps (Suc n) mm2"
    using mm2(2,6,7) assms(1,3) by (auto simp: created_def link_only_def)
  then show ?thesis using on mm2(1) by blast
qed

lemma create_managers_ok:
  assumes "created l rs ps n mm" "layout_ok intended l rs ps" "n + k = MaxManagerCount"
  shows "\<exists>mm'. create_managers k intended management mm = Some mm' \<and> created l rs ps (length rs) mm'"
  using assms(1,3)
proof (induction k arbitrary: n mm management)
  case 0
  then have "n = length rs" using assms(2) by (simp add: created_def layout_ok_def)
  then show ?case using 0 by simp
next
  case (Suc k)
  let ?tree = "m_physical_tree l"
  have l: "m_memory_layout mm = l" "m_num_managers mm = n" "n \<le> length rs" using Suc.prems(1) by (simp_all add: created_def)
  have tree: "region_attributes ` set (user_regions ?tree) = {..<length rs}" "distinct (map region_attributes (user_regions ?tree))"
    "\<forall>r \<in> set (user_regions ?tree). describes rs ps r"
    using assms(2) by (simp_all add: layout_ok_def)
  show ?case
  proof (cases "n < length rs")
    case True
    have fits: "heap_fits (fst (rs ! n)) (snd (rs ! n))" using assms(2) True by (simp add: layout_ok_def)
    obtain cur_size mm1 mm2 where step: "on_manager n (Impl_Initialize intended (fst (rs ! n)) (snd (rs ! n)) management (ps ! n))
      (mm\<lparr>m_num_managers := n + 1\<rparr>) = Some (cur_size, mm1)" "insert_in_pool n (ps ! n) mm1 = Some mm2" "created l rs ps (Suc n) mm2"
      using create_one [OF Suc.prems(1) assms(2) True] by blast
    have "locate_region n ?tree (0, 0, 4) = Some (fst (rs ! n), snd (rs ! n), ps ! n)"
      using True by (intro locate_one [OF _ tree(2,3) fits]) (simp add: tree(1))
    moreover have "snd (rs ! n) \<noteq> 0" using fits by (simp add: heap_fits_def)
    ultimately show ?thesis
      using step l Suc.IH [OF step(3)] Suc.prems(2) by (simp add: Let_def)
  next
    case False
    then have n: "n = length rs" using l(3) by simp
    then have "locate_region n ?tree (0, 0, 4) = Some (0, 0, 4)" by (intro locate_none) (simp add: tree(1))
    then show ?thesis using l Suc.prems(1) n by simp
  qed
qed

lemma new_created:
  assumes "length heaps = MaxManagerCount" "\<forall>h \<in> set heaps. fresh_heap h"
  shows "created l rs ps 0 (new_KMemoryManager l heaps dev)"
  using assms by (auto simp: created_def new_KMemoryManager_def linked_def links_of_def pool_list_def fetch_def MaxManagerCount_def)

section \<open>Freeing the memory\<close>

lemma created_mm_ok:
  assumes "created l rs ps (length rs) mm" "layout_ok intended l rs ps"
  shows "mm_ok rs mm no_books"
    "pool < 4 \<Longrightarrow> \<exists>first is. GetFirstManager pool dir mm = Some first \<and> chain dir mm first is \<and> set is = {i. i < length rs \<and> ps ! i = pool}"
proof -
  show pools: "\<exists>first is. GetFirstManager pool dir mm = Some first \<and> chain dir mm first is \<and> set is = {i. i < length rs \<and> ps ! i = pool}"
    if "pool < 4" for pool dir
    using linked_chain [of mm pool "pool_list ps (length rs) pool" dir] assms(1) that by (auto simp: created_def)
  have "GetManager mm p = Some i" if "i < length rs" "p \<in> region_pages (rs ! i)" for i p
  proof -
    have "map_option region_attributes (tree_Find p (m_physical_linear_tree l)) = Some i"
      using assms(2) that by (simp add: layout_ok_def)
    then show ?thesis
      using assms that(1) by (auto simp: GetManager_def created_def layout_ok_def)
  qed
  moreover have "\<exists>first is. GetFirstManager pool dir mm = Some first \<and> chain dir mm first is \<and> set is \<subseteq> {..<length rs}" if "pool < 4" for pool dir
    using pools [OF that, of dir] by blast
  ultimately show "mm_ok rs mm no_books"
    using assms by (auto simp: mm_ok_def frame_ok_def created_def layout_ok_def)
qed

definition ini_ok :: "(nat \<times> nat) list \<Rightarrow> nat \<Rightarrow> nat \<Rightarrow> bool" where
  "ini_ok rs ini_start ini_size \<longleftrightarrow> PageBytes dvd ini_start \<and> PageBytes dvd ini_size \<and> 0 < ini_size \<and> ini_start + ini_size < 2 ^ 64 \<and>
     (\<forall>r \<in> set rs. fst r \<le> ini_start \<and> ini_start + ini_size \<le> fst r + snd r \<or> ini_start + ini_size \<le> fst r \<or> fst r + snd r \<le> ini_start)"

text \<open>The books when the regions of the managers \<open>D\<close> are done.\<close>

definition freed_books :: "(nat \<times> nat) list \<Rightarrow> nat set \<Rightarrow> nat set \<Rightarrow> books" where
  "freed_books rs ini D = (pool_pages_of rs D - ini, \<lambda>p. if p \<in> pool_pages_of rs D \<inter> ini then 1 else 0)"

lemma free_in_two:
  assumes "mm_ok rs mm (P, c)" "i < length rs" "PageBytes dvd a" "pages a n \<subseteq> region_pages (rs ! i)" "pages a n \<inter> P = {}"
  shows "\<exists>mm'. (if n \<noteq> 0 then change_manager i (Impl_Free a n) mm else Some mm) = Some mm' \<and> same_frame mm mm' \<and>
    mm_ok rs mm' (P \<union> pages a n, c)"
  using manager_free [OF assms] assms(1) by (cases "n = 0") simp_all

text \<open>The region with the initial process binary.\<close>

lemma free_around_ini:
  assumes ok: "mm_ok rs mm (freed_books rs ini D)" and i: "i < length rs" "i \<notin> D" "D \<subseteq> {..<length rs}"
    and ini: "ini = pages (fst (rs ! i) + a * PageBytes) n" "0 < n" and rest: "a + n + b = snd (rs ! i) div PageBytes"
  shows "\<exists>mm1 mm2 mm3. (if a \<noteq> 0 then change_manager i (Impl_Free (fst (rs ! i)) a) mm else Some mm) = Some mm1 \<and>
    change_manager i (Impl_OpenFirst (fst (rs ! i) + a * PageBytes) n) mm1 = Some mm2 \<and>
    (if b \<noteq> 0 then change_manager i (Impl_Free (fst (rs ! i) + (a + n) * PageBytes) b) mm2 else Some mm2) = Some mm3 \<and>
    same_frame mm mm3 \<and> mm_ok rs mm3 (freed_books rs ini (insert i D))"
proof -
  let ?A = "fst (rs ! i)" and ?R = "region_pages (rs ! i)" and ?P = "pool_pages_of rs D"
  let ?X = "pages ?A a" and ?Y = "pages (?A + (a + n) * PageBytes) b"
  have dvd: "PageBytes dvd ?A" by (rule impl_okD(1) [OF mm_okD(2) [OF ok i(1)]])
  have split: "?R = ?X \<union> ini \<union> ?Y" "?X \<inter> ini = {}" "(?X \<union> ini) \<inter> ?Y = {}"
    using pages_add [of ?A "a + n" b] pages_add [of ?A a n] pages_disjoint [of ?A a n] pages_disjoint [of ?A "a + n" b]
    by (simp_all add: region_pages_def ini(1) rest [symmetric])
  have other: "?R \<inter> ?P = {}"
    using regions_apart [OF mm_okD(1) [OF ok] i(1)] i(2,3) by (fastforce simp: pool_pages_of_def)
  have books: "freed_books rs ini D = (?P - ini, \<lambda>p. if p \<in> ?P \<inter> ini then 1 else 0)" by (simp add: freed_books_def)
  let ?c = "\<lambda>p. if p \<in> ?P \<inter> ini then 1 else (0 :: nat)"
  obtain mm1 where mm1: "(if a \<noteq> 0 then change_manager i (Impl_Free ?A a) mm else Some mm) = Some mm1" "same_frame mm mm1"
      "mm_ok rs mm1 (?P - ini \<union> ?X, ?c)"
    using free_in_two [OF ok [unfolded books] i(1) dvd, of a] split other by blast
  have sub: "pages (?A + a * PageBytes) n \<subseteq> ?R" unfolding ini(1) [symmetric] split(1) by blast
  have "?c p < 2 ^ 16 - 1" for p by simp
  then obtain mm2 where mm2: "change_manager i (Impl_OpenFirst (?A + a * PageBytes) n) mm1 = Some mm2" "same_frame mm1 mm2"
      "mm_ok rs mm2 (?P - ini \<union> ?X, bump ini ?c)"
    using manager_open_first [OF mm1(3) i(1) ini(2) sub, folded ini(1)] by blast
  have dvd': "PageBytes dvd ?A + (a + n) * PageBytes" using dvd by simp
  obtain mm3 where mm3: "(if b \<noteq> 0 then change_manager i (Impl_Free (?A + (a + n) * PageBytes) b) mm2 else Some mm2) = Some mm3"
      "same_frame mm2 mm3" "mm_ok rs mm3 (?P - ini \<union> ?X \<union> ?Y, bump ini ?c)"
    using free_in_two [OF mm2(3) i(1) dvd', of b] split other by blast
  have "pool_pages_of rs (insert i D) = ?R \<union> ?P" by (simp add: pool_pages_of_def)
  then have "freed_books rs ini (insert i D) = (?P - ini \<union> ?X \<union> ?Y, bump ini ?c)"
    using split other by (auto simp: freed_books_def bump_def fun_eq_iff)
  then show ?thesis
    using mm1(1) mm2(1) mm3 same_frame_trans [OF mm1(2) same_frame_trans [OF mm2(2) mm3(2)]] by auto
qed

definition ini_pages :: "nat \<Rightarrow> nat \<Rightarrow> nat set" where
  "ini_pages ini_start ini_size = pages ini_start (ini_size div PageBytes)"

lemma ini_inside:
  assumes "ini_ok rs ini_start ini_size" "PageBytes dvd A" "PageBytes dvd sz" "A \<le> ini_start" "ini_start + ini_size \<le> A + sz"
  shows "\<exists>a b. ini_start = A + a * PageBytes \<and> a + ini_size div PageBytes + b = sz div PageBytes \<and> 0 < ini_size div PageBytes \<and>
    (ini_start - A) div PageBytes = a \<and> (A + sz - (ini_start + ini_size)) div PageBytes = b \<and> (A \<noteq> ini_start \<longleftrightarrow> a \<noteq> 0) \<and>
    (ini_start + ini_size - 1 \<noteq> A + sz - 1 \<longleftrightarrow> b \<noteq> 0) \<and> ini_start + ini_size = A + (a + ini_size div PageBytes) * PageBytes"
proof -
  have ini: "PageBytes dvd ini_start" "PageBytes dvd ini_size" "0 < ini_size" using assms(1) by (simp_all add: ini_ok_def)
  obtain x y n z where q: "A = PageBytes * x" "ini_start = PageBytes * y" "ini_size = PageBytes * n" "sz = PageBytes * z"
    using assms(2,3) ini(1,2) by (auto elim!: dvdE)
  have le: "x \<le> y" "y + n \<le> x + z" "0 < n"
    using assms(4,5) ini(3) unfolding q distrib_left [symmetric] by (simp_all add: PageBytes_def)
  let ?a = "y - x" and ?b = "x + z - (y + n)"
  have "ini_start = A + ?a * PageBytes" "?a + ini_size div PageBytes + ?b = sz div PageBytes" "0 < ini_size div PageBytes"
    "(ini_start - A) div PageBytes = ?a" "(A + sz - (ini_start + ini_size)) div PageBytes = ?b"
    "A \<noteq> ini_start \<longleftrightarrow> ?a \<noteq> 0" "ini_start + ini_size - 1 \<noteq> A + sz - 1 \<longleftrightarrow> ?b \<noteq> 0"
    "ini_start + ini_size = A + (?a + ini_size div PageBytes) * PageBytes"
    using le unfolding q PageBytes_def by (simp_all, auto)
  then show ?thesis by blast
qed

lemma ini_outside:
  assumes "ini_ok rs ini_start ini_size" "PageBytes dvd sz" "ini_start + ini_size \<le> A \<or> A + sz \<le> ini_start"
  shows "region_pages (A, sz) \<inter> ini_pages ini_start ini_size = {}"
proof -
  have ini: "ini_size div PageBytes * PageBytes = ini_size" using assms(1) by (simp add: ini_ok_def)
  have size: "sz div PageBytes * PageBytes = sz" using assms(2) by simp
  have "A + j * PageBytes \<noteq> ini_start + k * PageBytes" if "j < sz div PageBytes" "k < ini_size div PageBytes" for j k
  proof -
    have "j * PageBytes < sz" "k * PageBytes < ini_size"
      using that size ini by (metis PageBytes_def mult_less_cancel2 zero_less_numeral)+
    then show ?thesis using assms(3) by linarith
  qed
  then show ?thesis by (auto simp: region_pages_def ini_pages_def mem_pages)
qed

lemma free_plain_region:
  assumes ok: "mm_ok rs mm (freed_books rs ini D)" and i: "i < length rs" "i \<notin> D" "D \<subseteq> {..<length rs}" "region_pages (rs ! i) \<inter> ini = {}"
  shows "\<exists>mm'. change_manager i (Impl_Free (fst (rs ! i)) (snd (rs ! i) div PageBytes)) mm = Some mm' \<and> same_frame mm mm' \<and>
    mm_ok rs mm' (freed_books rs ini (insert i D))"
proof -
  let ?R = "region_pages (rs ! i)" and ?P = "pool_pages_of rs D"
  have other: "?R \<inter> ?P = {}"
    using regions_apart [OF mm_okD(1) [OF ok] i(1)] i(2,3) by (fastforce simp: pool_pages_of_def)
  have dvd: "PageBytes dvd fst (rs ! i)" by (rule impl_okD(1) [OF mm_okD(2) [OF ok i(1)]])
  let ?c = "\<lambda>p. if p \<in> ?P \<inter> ini then 1 else (0 :: nat)"
  have "freed_books rs ini D = (?P - ini, ?c)" by (simp add: freed_books_def)
  then have "\<exists>mm'. change_manager i (Impl_Free (fst (rs ! i)) (snd (rs ! i) div PageBytes)) mm = Some mm' \<and> same_frame mm mm' \<and>
      mm_ok rs mm' (?P - ini \<union> pages (fst (rs ! i)) (snd (rs ! i) div PageBytes), ?c)"
    using ok other by (intro manager_free [OF _ i(1) dvd]) (auto simp: region_pages_def)
  moreover have "freed_books rs ini (insert i D) = (?P - ini \<union> ?R, ?c)"
  proof -
    have "pool_pages_of rs (insert i D) = ?R \<union> ?P" by (simp add: pool_pages_of_def)
    then show ?thesis using i(4) by (auto simp: freed_books_def fun_eq_iff)
  qed
  ultimately show ?thesis by (simp add: region_pages_def)
qed

text \<open>One region, whichever it is.\<close>

lemma free_region_ok:
  assumes ok: "mm_ok rs mm (freed_books rs (ini_pages ini_start ini_size) D)" and D: "D \<subseteq> {..<length rs}" "region_attributes r \<notin> D"
    and r: "IsDerivedFrom DramUserPool r" "describes rs ps r" "region_attributes r < length rs"
    and fits: "heap_fits (fst (rs ! region_attributes r)) (snd (rs ! region_attributes r))"
    and ini: "ini_ok rs ini_start ini_size" and res: "length reserved = MaxManagerCount" "length rs \<le> MaxManagerCount"
  shows "\<exists>reserved' mm'. free_regions ini_start ini_size (r # tree) (reserved, mm) = free_regions ini_start ini_size tree (reserved', mm') \<and>
    length reserved' = MaxManagerCount \<and> same_frame mm mm' \<and>
    mm_ok rs mm' (freed_books rs (ini_pages ini_start ini_size) (insert (region_attributes r) D))"
proof -
  let ?i = "region_attributes r" and ?ini = "ini_pages ini_start ini_size"
  let ?A = "fst (rs ! ?i)" and ?S = "snd (rs ! ?i)"
  have r': "region_address r = ?A" "region_last r = ?A + ?S - 1" "region_GetEndAddress r = ?A + ?S" "region_GetSize r = ?S"
    using r(2) describes_size [OF r(2) fits] by (auto simp: describes_def)
  have page: "PageBytes dvd ?A" "PageBytes dvd ?S" "0 < ?S" "?A + ?S < 2 ^ 64" using fits by (simp_all add: heap_fits_def)
  have pos: "0 < ini_size" "ini_start + ini_size < 2 ^ 64" using ini by (simp_all add: ini_ok_def)
  then have ends: "wrap64 (ini_start + ini_size) = ini_start + ini_size" "sub64 (ini_start + ini_size) 1 = ini_start + ini_size - 1"
    by (simp_all add: wrap64_less sub64_less)
  have i: "?i < length reserved" using r(3) res by simp
  have inside: "?A \<le> ini_start \<and> ini_start + ini_size \<le> ?A + ?S \<longleftrightarrow> ?A \<le> ini_start \<and> ini_start + ini_size - 1 \<le> ?A + ?S - 1"
    using page(3) pos(1) by auto
  show ?thesis
  proof (cases "?A \<le> ini_start \<and> ini_start + ini_size \<le> ?A + ?S")
    case True
    obtain a b where ab: "ini_start = ?A + a * PageBytes" "a + ini_size div PageBytes + b = ?S div PageBytes" "0 < ini_size div PageBytes"
      "(ini_start - ?A) div PageBytes = a" "(?A + ?S - (ini_start + ini_size)) div PageBytes = b" "?A \<noteq> ini_start \<longleftrightarrow> a \<noteq> 0"
      "ini_start + ini_size - 1 \<noteq> ?A + ?S - 1 \<longleftrightarrow> b \<noteq> 0" "ini_start + ini_size = ?A + (a + ini_size div PageBytes) * PageBytes"
      using ini_inside [OF ini page(1,2)] True by blast
    have ini_eq: "?ini = pages (?A + a * PageBytes) (ini_size div PageBytes)" by (simp add: ini_pages_def ab(1) [symmetric])
    obtain mm1 mm2 mm3 where mm: "(if a \<noteq> 0 then change_manager ?i (Impl_Free ?A a) mm else Some mm) = Some mm1"
      "change_manager ?i (Impl_OpenFirst ini_start (ini_size div PageBytes)) mm1 = Some mm2"
      "(if b \<noteq> 0 then change_manager ?i (Impl_Free (ini_start + ini_size) b) mm2 else Some mm2) = Some mm3"
      "same_frame mm mm3" "mm_ok rs mm3 (freed_books rs ?ini (insert ?i D))"
      using free_around_ini [OF ok r(3) D(2,1) ini_eq ab(3,2)] unfolding ab(1) [symmetric] ab(8) [symmetric] by blast
    have "sub64 (?A + ?S) (ini_start + ini_size) = ?A + ?S - (ini_start + ini_size)"
      using True page(4) by (simp add: sub64_less)
    then have "free_regions ini_start ini_size (r # tree) (reserved, mm) =
        free_regions ini_start ini_size tree (reserved[?i := wrap64 (reserved ! ?i + ini_size)], mm3)"
      using True r(1) r' ends mm(1-3) i inside ab(4-7) by (simp add: Let_def fetch_def store_def cong: if_cong split del: if_split)
    moreover have "length (reserved[?i := wrap64 (reserved ! ?i + ini_size)]) = MaxManagerCount" using res(1) by simp
    ultimately show ?thesis using mm(4,5) by blast
  next
    case False
    then have "ini_start + ini_size \<le> ?A \<or> ?A + ?S \<le> ini_start"
      using ini nth_mem [OF r(3)] unfolding ini_ok_def by blast
    then have "region_pages (?A, ?S) \<inter> ?ini = {}" by (rule ini_outside [OF ini page(2)])
    then obtain mm1 where mm1: "change_manager ?i (Impl_Free ?A (?S div PageBytes)) mm = Some mm1" "same_frame mm mm1"
      "mm_ok rs mm1 (freed_books rs ?ini (insert ?i D))"
      using free_plain_region [OF ok r(3) D(2,1)] by auto
    have "free_regions ini_start ini_size (r # tree) (reserved, mm) = free_regions ini_start ini_size tree (reserved, mm1)"
      using False r(1) r' ends mm1(1) inside by (cases "?A \<le> ini_start") (simp_all add: Let_def split del: if_split)
    then show ?thesis using mm1(2,3) res(1) by blast
  qed
qed

lemma free_regions_ok:
  assumes "mm_ok rs mm (freed_books rs (ini_pages ini_start ini_size) D)" "D \<subseteq> {..<length rs}"
    "distinct (map region_attributes (user_regions tree))" "region_attributes ` set (user_regions tree) \<inter> D = {}"
    "region_attributes ` set (user_regions tree) \<subseteq> {..<length rs}" "\<forall>r \<in> set (user_regions tree). describes rs ps r"
    "length reserved = MaxManagerCount" "layout_ok intended l rs ps" "ini_ok rs ini_start ini_size"
  shows "\<exists>reserved' mm'. free_regions ini_start ini_size tree (reserved, mm) = Some (reserved', mm') \<and>
    length reserved' = MaxManagerCount \<and> same_frame mm mm' \<and>
    mm_ok rs mm' (freed_books rs (ini_pages ini_start ini_size) (D \<union> region_attributes ` set (user_regions tree)))"
  using assms(1-7)
proof (induction tree arbitrary: mm D reserved)
  case Nil
  then show ?case by (simp add: user_regions_def)
next
  case (Cons r tree)
  show ?case
  proof (cases "IsDerivedFrom DramUserPool r")
    case False
    then show ?thesis using Cons by (simp add: user_regions_def)
  next
    case True
    let ?i = "region_attributes r" and ?U = "region_attributes ` set (user_regions tree)"
    have user: "user_regions (r # tree) = r # user_regions tree" using True by (simp add: user_regions_def)
    have i: "?i < length rs" "?i \<notin> D" "describes rs ps r" "?i \<notin> ?U"
      using Cons.prems(3-6) by (auto simp: user)
    have lay: "heap_fits (fst (rs ! ?i)) (snd (rs ! ?i))" "length rs \<le> MaxManagerCount"
      using assms(8) i(1) by (simp_all add: layout_ok_def)
    obtain reserved1 mm1 where step: "free_regions ini_start ini_size (r # tree) (reserved, mm) = free_regions ini_start ini_size tree (reserved1, mm1)"
      "length reserved1 = MaxManagerCount" "same_frame mm mm1" "mm_ok rs mm1 (freed_books rs (ini_pages ini_start ini_size) (insert ?i D))"
      using free_region_ok [OF Cons.prems(1,2) i(2) True i(3,1) lay(1) assms(9) Cons.prems(7) lay(2)] by blast
    have "\<exists>reserved' mm'. free_regions ini_start ini_size tree (reserved1, mm1) = Some (reserved', mm') \<and>
        length reserved' = MaxManagerCount \<and> same_frame mm1 mm' \<and>
        mm_ok rs mm' (freed_books rs (ini_pages ini_start ini_size) (insert ?i D \<union> ?U))"
      using Cons.prems i step(2) by (intro Cons.IH [OF step(4)]) (auto simp: user)
    then show ?thesis
      using step(1) same_frame_trans [OF step(3)] by (auto simp: user simp del: free_regions.simps)
  qed
qed

section \<open>Initialize\<close>

lemma set_used_sizes_ok:
  assumes "mm_ok rs mm st" "set is \<subseteq> {..<length rs}" "length reserved = MaxManagerCount" "length rs \<le> MaxManagerCount"
  shows "\<exists>mm'. set_used_sizes reserved is mm = Some mm' \<and> same_frame mm mm' \<and> mm_ok rs mm' st"
  using assms(1,2)
proof (induction "is" arbitrary: mm)
  case (Cons i "is")
  have i: "i < length rs" "i < length reserved" using Cons.prems(2) assms(3,4) by auto
  let ?m = "m_managers mm ! i"
  have ok: "impl_ok (rs ! i) ?m st" by (rule mm_okD(2) [OF Cons.prems(1) i(1)])
  then obtain lo where h: "holds (fst (rs ! i)) (snd (rs ! i)) lo (m_heap ?m) (page_bytes (fst st \<inter> region_pages (rs ! i)))"
    by (auto simp: impl_ok_def)
  let ?h = "\<lambda>n. (m_heap ?m)\<lparr>m_initial_used_size := n\<rparr>"
  have "holds (fst (rs ! i)) (snd (rs ! i)) lo (?h n) (page_bytes (fst st \<inter> region_pages (rs ! i)))" for n
    using h by (simp add: holds_def heap_ok_def heap_rep_def)
  then have "impl_ok (rs ! i) (?m\<lparr>m_heap := ?h n\<rparr>) st" for n
    using ok by (auto simp: impl_ok_def)
  moreover obtain n where "SetInitialUsedHeapSize (reserved ! i) ?m = Some (?m\<lparr>m_heap := ?h n\<rparr>)"
    using GetFreeSize_ok(1) [OF h] by (simp add: SetInitialUsedHeapSize_def SetInitialUsedSize_def)
  ultimately obtain mm1 where mm1: "change_manager i (SetInitialUsedHeapSize (reserved ! i)) mm = Some mm1" "same_frame mm mm1" "mm_ok rs mm1 st"
    using change_manager_ok [of rs mm st i "SetInitialUsedHeapSize (reserved ! i)" "?m\<lparr>m_heap := ?h n\<rparr>" st] Cons.prems(1) i(1)
    by (auto simp: agree_off_def)
  have "\<exists>mm'. set_used_sizes reserved is mm1 = Some mm' \<and> same_frame mm1 mm' \<and> mm_ok rs mm' st"
    using Cons.prems(2) by (intro Cons.IH [OF mm1(3)]) simp
  then show ?case using mm1(1) i(2) same_frame_trans [OF mm1(2)] by (auto simp: fetch_def)
qed simp

text \<open>The managers of each pool.\<close>

definition pools_are :: "(nat \<times> nat) list \<Rightarrow> nat list \<Rightarrow> KMemoryManager \<Rightarrow> bool" where
  "pools_are rs ps mm \<longleftrightarrow> m_num_managers mm = length rs \<and> (\<forall>pool < 4. \<forall>dir. \<exists>first is. GetFirstManager pool dir mm = Some first \<and> chain dir mm first is \<and>
     set is = {i. i < length rs \<and> ps ! i = pool})"

lemma pools_are_same: "same_frame mm mm' \<Longrightarrow> pools_are rs ps mm \<Longrightarrow> pools_are rs ps mm'"
  using same_frame_calls [of mm mm'] by (auto simp: pools_are_def same_frame_def)

lemma freed_none: "freed_books rs ini {} = no_books"
  by (simp add: freed_books_def no_books_def pool_pages_of_def)

lemma pool_pages_all: "pool_pages_of rs {..<length rs} = all_pages rs"
  by (force simp: pool_pages_of_def all_pages_def in_set_conv_nth)

lemma Initialize_ok:
  assumes lay: "layout_ok intended l rs ps" and ini: "ini_ok rs ini_start ini_size"
    and heaps: "length heaps = MaxManagerCount" "\<forall>h \<in> set heaps. fresh_heap h"
  shows "\<exists>mm. KMemoryManager_Initialize intended ini_start ini_size management (new_KMemoryManager l heaps dev) = Some mm \<and>
    mm_ok rs mm (all_pages rs - ini_pages ini_start ini_size, \<lambda>p. if p \<in> all_pages rs \<inter> ini_pages ini_start ini_size then 1 else 0) \<and>
    pools_are rs ps mm"
proof -
  let ?ini = "ini_pages ini_start ini_size" and ?new = "new_KMemoryManager l heaps dev" and ?tree = "m_physical_tree l"
  have "created l rs ps 0 ?new" by (rule new_created [OF heaps])
  then obtain mm1 where mm1: "create_managers MaxManagerCount intended management ?new = Some mm1" "created l rs ps (length rs) mm1"
    using create_managers_ok [OF _ lay, of 0 ?new MaxManagerCount management] by auto
  have num: "?new\<lparr>m_num_managers := 0\<rparr> = ?new" by (simp add: new_KMemoryManager_def)
  note made = created_mm_ok [OF mm1(2) lay]
  have tree: "region_attributes ` set (user_regions ?tree) = {..<length rs}" "distinct (map region_attributes (user_regions ?tree))"
    "\<forall>r \<in> set (user_regions ?tree). describes rs ps r" "length rs \<le> MaxManagerCount"
    using lay by (simp_all add: layout_ok_def)
  obtain reserved mm2 where mm2: "free_regions ini_start ini_size ?tree (replicate MaxManagerCount 0, mm1) = Some (reserved, mm2)"
    "length reserved = MaxManagerCount" "same_frame mm1 mm2" "mm_ok rs mm2 (freed_books rs ?ini {..<length rs})"
    using free_regions_ok [of rs mm1 ini_start ini_size "{}" ?tree ps "replicate MaxManagerCount 0", OF _ _ tree(2) _ _ tree(3) _ lay ini]
      made(1) tree(1) by (auto simp: freed_none)
  have mm2': "m_num_managers mm2 = length rs" using mm1(2) mm2(3) by (simp add: created_def same_frame_def)
  obtain mm3 where mm3: "set_used_sizes reserved [0..<m_num_managers mm2] mm2 = Some mm3" "same_frame mm2 mm3"
    "mm_ok rs mm3 (freed_books rs ?ini {..<length rs})"
    using set_used_sizes_ok [OF mm2(4) _ mm2(2) tree(4), of "[0..<m_num_managers mm2]"] mm2' by (auto simp: lessThan_atLeast0)
  have "pools_are rs ps mm1" using made(2) mm1(2) by (simp add: pools_are_def created_def)
  then have "pools_are rs ps mm3" using pools_are_same mm2(3) mm3(2) by blast
  moreover have "m_memory_layout mm1 = l" using mm1(2) by (simp add: created_def)
  ultimately show ?thesis
    using mm1(1) mm2(1) mm3(1,3) num by (simp add: KMemoryManager_Initialize_def freed_books_def pool_pages_all)
qed

end
