(* ===== verification/MemoryManager_Process.thy ===== *)
theory MemoryManager_Process
  imports MemoryManager_Contract
begin

text \<open>
  \<^verbatim>\<open>AllocateForProcess\<close>: it returns, changes the books like \<^verbatim>\<open>AllocatePageGroupImpl\<close>, and fills the pages of a process that
  is not the optimized one.
\<close>

section \<open>Operations on device memory\<close>

definition device_only :: "KMemoryManager \<Rightarrow> KMemoryManager \<Rightarrow> bool" where
  "device_only mm mm' \<longleftrightarrow> (\<exists>dev. mm' = mm\<lparr>device_memory := dev\<rparr>)"

lemma device_onlyI [intro]: "device_only mm (mm\<lparr>device_memory := dev\<rparr>)"
  by (auto simp: device_only_def)

lemma device_only_refl [simp]: "device_only mm mm"
  unfolding device_only_def by (rule exI [of _ "device_memory mm"]) simp

lemma device_only_trans: "device_only mm mm1 \<Longrightarrow> device_only mm1 mm2 \<Longrightarrow> device_only mm mm2"
  by (auto simp: device_only_def)

lemma device_only_facts:
  "device_only mm mm' \<Longrightarrow> mm_ok rs mm' st = mm_ok rs mm st" "device_only mm mm' \<Longrightarrow> same_frame mm mm'"
  by (auto simp: device_only_def)

lemma device_chunks:
  assumes "mm_ok rs (mm_of s) st" "pages a n \<subseteq> all_pages rs"
    and step: "\<And>i a k s. mm_ok rs (mm_of s) st \<Longrightarrow> i < length rs \<Longrightarrow> 0 < k \<Longrightarrow> pages a k \<subseteq> region_pages (rs ! i) \<Longrightarrow>
      \<exists>s'. chunk i a k s = Some s' \<and> device_only (mm_of s) (mm_of s')"
  shows "\<exists>s'. for_chunks mm_of chunk a n s = Some s' \<and> device_only (mm_of s) (mm_of s')"
  using assms(1,2)
proof (induction n arbitrary: a s rule: less_induct)
  case (less n)
  show ?case
  proof (cases "n = 0")
    case True
    then show ?thesis by (simp add: for_chunks.simps)
  next
    case False
    then obtain i cur where i: "i < length rs" "GetManager (mm_of s) a = Some i" "fetch (m_managers (mm_of s)) i = Some (m_managers (mm_of s) ! i)"
      and cur: "min n (GetPageOffsetToEnd (m_heap (m_managers (mm_of s) ! i)) a) = cur" "0 < cur" "pages a cur \<subseteq> region_pages (rs ! i)"
      and split: "pages a n = pages a cur \<union> pages (a + cur * PageBytes) (n - cur)"
      and wrap: "wrap64 (a + cur * PageBytes) = a + cur * PageBytes"
      using first_chunk [OF less.prems] by blast
    obtain s1 where s1: "chunk i a cur s = Some s1" "device_only (mm_of s) (mm_of s1)"
      using step [OF less.prems(1) i(1) cur(2,3)] by blast
    have "\<exists>s'. for_chunks mm_of chunk (a + cur * PageBytes) (n - cur) s1 = Some s' \<and> device_only (mm_of s1) (mm_of s')"
    proof (rule less.IH)
      show "n - cur < n" using cur(2) False by simp
      show "mm_ok rs (mm_of s1) st" using less.prems(1) device_only_facts(1) [OF s1(2)] by simp
      show "pages (a + cur * PageBytes) (n - cur) \<subseteq> all_pages rs" using split less.prems(2) by blast
    qed
    then show ?thesis
      using False s1 wrap i(2,3) cur(1) device_only_trans [OF s1(2)] by (subst for_chunks.simps) (auto simp: Let_def)
  qed
qed

lemma TrackOptimizedAllocation_ok:
  assumes "mm_ok rs mm st" "i < length rs" "0 < n" "pages a n \<subseteq> region_pages (rs ! i)"
  shows "\<exists>mm'. TrackOptimizedAllocation i a n mm = Some mm' \<and> device_only mm mm'"
  using tracked_ok [OF mm_okD(2) [OF assms(1,2)] assms(3,4)] mm_okD(3) [OF assms(1,2)]
  by (auto simp: TrackOptimizedAllocation_def)

lemma ProcessOptimizedAllocation_ok:
  assumes "mm_ok rs mm st" "i < length rs" "0 < n" "pages a n \<subseteq> region_pages (rs ! i)"
  shows "\<exists>s. ProcessOptimizedAllocation i a n fill_pattern mm = Some s \<and> device_only mm (snd s)"
  using tracked_ok [OF mm_okD(2) [OF assms(1,2)] assms(3,4)] mm_okD(3) [OF assms(1,2)]
  by (auto simp: ProcessOptimizedAllocation_def case_prod_beta)

lemma optimize_group_ok:
  assumes "mm_ok rs mm st" "group_pages pg \<subseteq> all_pages rs"
  shows "\<exists>mm'. optimize_group fill_pattern pg mm = Some mm' \<and> device_only mm mm'"
  using assms
proof (induction pg arbitrary: mm)
  case (Cons b bs)
  let ?a = "info_GetAddress b" and ?n = "info_GetNumPages b"
  have sub: "pages ?a ?n \<subseteq> all_pages rs" "group_pages bs \<subseteq> all_pages rs" using Cons.prems(2) by (auto simp: info_pages_def)
  show ?case
  proof (cases "?n = 0")
    case True
    then show ?thesis using Cons.IH [OF Cons.prems(1) sub(2)] by simp
  next
    case False
    obtain s where s: "fill_new_pages fill_pattern ?a ?n (False, mm) = Some s" "device_only mm (snd s)"
      using device_chunks [of rs snd "(False, mm)" st ?a ?n "\<lambda>i address n s. ProcessOptimizedAllocation i address n fill_pattern (snd s)"]
        Cons.prems(1) sub(1) ProcessOptimizedAllocation_ok by (auto simp: fill_new_pages_def)
    have ok1: "mm_ok rs (snd s) st" using Cons.prems(1) device_only_facts(1) [OF s(2)] by simp
    have "\<exists>mm'. (if fst s then for_chunks (\<lambda>mm. mm) TrackOptimizedAllocation ?a ?n (snd s) else Some (snd s)) = Some mm' \<and> device_only (snd s) mm'"
      using device_chunks [of rs "\<lambda>mm. mm" "snd s" st ?a ?n TrackOptimizedAllocation] ok1 sub(1) TrackOptimizedAllocation_ok by auto
    then obtain mm2 where mm2: "(if fst s then for_chunks (\<lambda>mm. mm) TrackOptimizedAllocation ?a ?n (snd s) else Some (snd s)) = Some mm2"
      "device_only (snd s) mm2" by blast
    have "\<exists>mm'. optimize_group fill_pattern bs mm2 = Some mm' \<and> device_only mm2 mm'"
      using Cons.IH [OF _ sub(2), of mm2] ok1 device_only_facts(1) [OF mm2(2)] by simp
    then show ?thesis
      using False s(1) mm2(1) device_only_trans [OF device_only_trans [OF s(2) mm2(2)]] by (auto simp: case_prod_beta)
  qed
qed simp

section \<open>Filling\<close>

lemma clear_group_bytes:
  "device_memory (clear_group v pg mm) x = (if x \<in> page_bytes (group_pages pg) then v else device_memory mm x)"
proof -
  have "fold (\<lambda>b. fill_bytes (info_GetAddress b) (info_GetSize b) v) pg dev x = (if x \<in> page_bytes (group_pages pg) then v else dev x)" for dev
  proof (induction pg arbitrary: dev)
    case (Cons b bs)
    have "page_bytes (info_pages b) = {info_GetAddress b..<info_GetAddress b + info_GetSize b}"
      by (simp add: info_pages_def extent_pages [symmetric] extent_def info_GetSize_def)
    then show ?case
      by (simp add: Cons.IH page_bytes_Un) (auto simp: fill_bytes_def)
  qed (simp add: page_bytes_def)
  then show ?thesis by (simp add: clear_group_def)
qed

section \<open>AllocateForProcess\<close>

definition is_optimized_process :: "u64 \<Rightarrow> nat \<Rightarrow> KMemoryManager \<Rightarrow> bool" where
  "is_optimized_process process_id pool mm \<longleftrightarrow>
     m_has_optimized_process mm ! pool \<and> m_optimized_process_ids mm ! pool = process_id"

lemma AllocateForProcess_ok:
  fixes process_id :: u64
  assumes ok: "mm_ok rs mm (P, c)" and N: "0 < N" and pool: "GetPool opt < 4"
    and set: "pool_setting rs S" and infos: "slab_ok KBlockInfo_size infos L K"
    and first: "GetFirstManager (GetPool opt) (GetDirection opt) mm = Some first" "chain (GetDirection opt) mm first is" "set is = S"
  defines "X \<equiv> process_strays rs N opt process_id infos mm"
  shows "\<exists>r pg infos' mm'. AllocateForProcess N opt process_id fill_pattern ([], infos, mm) = Some (r, pg, infos', mm') \<and>
    same_frame mm mm' \<and> (r = ResultSuccess \<and> got_group rs S L P N K pg infos' \<and> mm_ok rs mm' (P - group_pages pg, c) \<and>
        (is_optimized_process process_id (GetPool opt) mm \<or> (\<forall>x \<in> page_bytes (group_pages pg). device_memory mm' x = fill_pattern)) \<or>
      r \<noteq> ResultSuccess \<and> got_nothing rs S L P N K X r pg infos' \<and> mm_ok rs mm' (P - X, c))"
proof -
  let ?pool = "GetPool opt"
  let ?has = "m_has_optimized_process mm ! ?pool" and ?is = "m_optimized_process_ids mm ! ?pool = process_id"
  have has: "fetch (m_has_optimized_process mm) ?pool = Some ?has"
    by (rule frame_okD(3) [OF mm_okD(1) [OF ok] pool])
  have ids: "fetch (m_optimized_process_ids mm) ?pool = Some (m_optimized_process_ids mm ! ?pool)"
    using mm_okD(1) [OF ok] pool by (simp add: frame_ok_def fetch_def)
  obtain r pg infos' mm1 where r: "AllocatePageGroupImpl N ?pool (GetDirection opt) (?has \<and> \<not> ?is) False ([], infos, mm) = Some (r, pg, infos', mm1)"
    "same_frame mm mm1" "r = ResultSuccess \<and> got_group rs S L P N K pg infos' \<and> mm_ok rs mm1 (P - group_pages pg, c) \<or>
      r \<noteq> ResultSuccess \<and> got_nothing rs S L P N K X r pg infos' \<and> mm_ok rs mm1 (P - X, c)"
    using AllocatePageGroupImpl_ok [OF ok N set infos first] unfolding X_def process_strays_def by blast
  show ?thesis
  proof (cases "r = ResultSuccess")
    case True
    then have got: "got_group rs S L P N K pg infos'" "mm_ok rs mm1 (P - group_pages pg, c)" using r(3) by auto
    have "pool_pages_of rs S \<subseteq> all_pages rs" using set by (intro pool_in_all) (simp add: pool_setting_def)
    then have sub: "group_pages pg \<subseteq> all_pages rs" using got(1) unfolding got_group_def by blast
    obtain mm2 where mm2: "(if ?has \<and> ?is then optimize_group fill_pattern pg mm1 else Some (clear_group fill_pattern pg mm1)) = Some mm2"
      "device_only mm1 mm2"
      using optimize_group_ok [OF got(2) sub, of fill_pattern] by (cases "?has \<and> ?is") (auto simp: clear_group_def)
    have "is_optimized_process process_id ?pool mm \<or> (\<forall>x \<in> page_bytes (group_pages pg). device_memory mm2 x = fill_pattern)"
      using mm2(1) by (auto simp: is_optimized_process_def clear_group_bytes split: if_splits)
    moreover have "AllocateForProcess N opt process_id fill_pattern ([], infos, mm) = Some (r, pg, infos', mm2)"
      using True has ids r(1) mm2(1)
      by (simp add: AllocateForProcess_def DecodeOption_def Let_def split del: if_split)
    ultimately show ?thesis
      using True got(1) got(2) device_only_facts [OF mm2(2)] same_frame_trans [OF r(2)] by blast
  next
    case False
    then show ?thesis using r has ids by (auto simp: AllocateForProcess_def DecodeOption_def)
  qed
qed

section \<open>The optimized process\<close>

text \<open>The entries of the optimized processes are no part of the books.\<close>

definition optimized_only :: "KMemoryManager \<Rightarrow> KMemoryManager \<Rightarrow> bool" where
  "optimized_only mm mm' \<longleftrightarrow> (\<exists>ids has dev. mm' = mm\<lparr>m_optimized_process_ids := ids, m_has_optimized_process := has, device_memory := dev\<rparr> \<and>
     length ids = length (m_optimized_process_ids mm) \<and> length has = length (m_has_optimized_process mm))"

lemma optimized_calls:
  assumes "optimized_only mm mm'"
  shows "GetManager mm' p = GetManager mm p" "GetFirstManager pool dir mm' = GetFirstManager pool dir mm"
    "GetNextManager i dir mm' = GetNextManager i dir mm" "chain dir mm' cur is = chain dir mm cur is"
proof -
  show "GetManager mm' p = GetManager mm p" "GetFirstManager pool dir mm' = GetFirstManager pool dir mm"
    using assms by (auto simp: optimized_only_def GetManager_def GetFirstManager_def)
  have next_same: "GetNextManager i dir mm' = GetNextManager i dir mm" for i
    using assms by (auto simp: optimized_only_def GetNextManager_def)
  then show "GetNextManager i dir mm' = GetNextManager i dir mm" .
  show "chain dir mm' cur is = chain dir mm cur is"
    by (induction "is" arbitrary: cur) (simp_all add: next_same)
qed

lemma optimized_mm_ok: "optimized_only mm mm' \<Longrightarrow> mm_ok rs mm' st = mm_ok rs mm st"
  using optimized_calls [of mm mm'] by (auto simp: mm_ok_def frame_ok_def optimized_only_def)

lemma InitializeOptimizedMemory_ok:
  assumes ok: "mm_ok rs mm st" and pool: "pool < 4"
  shows "\<exists>r mm'. InitializeOptimizedMemory process_id pool mm = Some (r, mm') \<and> optimized_only mm mm' \<and>
    (if m_has_optimized_process mm ! pool then r = ResultBusy \<and> mm' = mm
     else r = ResultSuccess \<and> is_optimized_process process_id pool mm')"
proof (cases "m_has_optimized_process mm ! pool")
  case True
  have "optimized_only mm mm"
    unfolding optimized_only_def by (intro exI [of _ "m_optimized_process_ids mm"] exI [of _ "m_has_optimized_process mm"] exI [of _ "device_memory mm"]) simp
  then show ?thesis using True frame_okD(3) [OF mm_okD(1) [OF ok] pool] by (simp add: InitializeOptimizedMemory_def)
next
  case False
  have len: "length (m_has_optimized_process mm) = 4" "length (m_optimized_process_ids mm) = 4"
    using mm_okD(1) [OF ok] by (simp_all add: frame_ok_def)
  let ?mm = "mm\<lparr>m_optimized_process_ids := (m_optimized_process_ids mm)[pool := process_id],
    m_has_optimized_process := (m_has_optimized_process mm)[pool := True]\<rparr>"
  have opt: "optimized_only mm ?mm"
    unfolding optimized_only_def by (intro exI [of _ "(m_optimized_process_ids mm)[pool := process_id]"]
      exI [of _ "(m_has_optimized_process mm)[pool := True]"] exI [of _ "device_memory mm"]) simp
  note ok' = ok [folded optimized_mm_ok [OF opt]]
  obtain first "is" where first: "GetFirstManager pool FromFront ?mm = Some first" "chain FromFront ?mm first is" "set is \<subseteq> {..<length rs}"
    using frame_okD(2) [OF mm_okD(1) [OF ok'] pool] by blast
  let ?body = "\<lambda>i mm. map_option (Pair False) (Impl_InitializeOptimizedMemory i mm)"
  have "\<exists>res s. for_managers (\<lambda>mm. mm) ?body FromFront first ?mm = Some (res, s) \<and> same_frame ?mm s \<and>
      (case res of None \<Rightarrow> device_only ?mm s | Some i \<Rightarrow> i \<in> set is \<and> False)"
  proof (rule for_managers_ok [where I = "\<lambda>_. device_only ?mm" and J = "\<lambda>_ _. False" and V = "{}"])
    fix i s assume i: "i \<in> set is" and s: "device_only ?mm s"
    have "fetch (m_managers s) i = Some (m_managers s ! i)"
      using mm_okD(3) [of rs s st i] device_only_facts(1) [OF s] ok' i first(3) by auto
    then show "\<exists>stop s'. ?body i s = Some (stop, s') \<and> same_frame s s' \<and> (if stop then False else device_only ?mm s')"
      using device_only_trans [OF s] by (auto simp: Impl_InitializeOptimizedMemory_def)
  qed (use first(2) in simp_all)
  then obtain dev where dev: "for_managers (\<lambda>mm. mm) ?body FromFront first ?mm = Some (None, ?mm\<lparr>device_memory := dev\<rparr>)"
    by (auto simp: device_only_def split: option.splits)
  have "InitializeOptimizedMemory process_id pool mm = Some (ResultSuccess, ?mm\<lparr>device_memory := dev\<rparr>)"
    using False pool len first(1) dev by (simp add: InitializeOptimizedMemory_def fetch_def store_def)
  moreover have "optimized_only mm (?mm\<lparr>device_memory := dev\<rparr>)"
    unfolding optimized_only_def by (intro exI [of _ "(m_optimized_process_ids mm)[pool := process_id]"]
      exI [of _ "(m_has_optimized_process mm)[pool := True]"] exI [of _ dev]) simp
  moreover have "is_optimized_process process_id pool (?mm\<lparr>device_memory := dev\<rparr>)"
    using pool len by (simp add: is_optimized_process_def)
  ultimately show ?thesis using False by auto
qed

lemma FinalizeOptimizedMemory_ok:
  assumes "mm_ok rs mm st" "pool < 4"
  shows "\<exists>mm'. FinalizeOptimizedMemory process_id pool mm = Some mm' \<and> optimized_only mm mm' \<and> \<not> is_optimized_process process_id pool mm'"
proof -
  let ?mm = "\<lambda>has. mm\<lparr>m_has_optimized_process := has\<rparr>"
  have len: "length (m_has_optimized_process mm) = 4" "length (m_optimized_process_ids mm) = 4"
    using mm_okD(1) [OF assms(1)] by (simp_all add: frame_ok_def)
  have opt: "optimized_only mm (?mm has)" if "length has = 4" for has
    unfolding optimized_only_def using len that
    by (intro exI [of _ "m_optimized_process_ids mm"] exI [of _ has] exI [of _ "device_memory mm"]) simp
  have "optimized_only mm mm" using opt [of "m_has_optimized_process mm"] len by simp
  then show ?thesis
    using opt [of "(m_has_optimized_process mm)[pool := False]"] len assms(2)
    by (auto simp: FinalizeOptimizedMemory_def is_optimized_process_def fetch_def store_def)
qed

end
