(* ===== verification/MemoryManager_Properties.thy ===== *)
theory MemoryManager_Properties
  imports MemoryManager_Init MemoryManager_Process DynamicSlab_Properties
begin

text \<open>
  Every sequence of operations of the memory manager, from its initialisation on, and the theorems about it.
\<close>

section \<open>Runs\<close>

text \<open>
  The layout: one region per manager, the initial process binary inside or outside of it, and page numbers of 32 bits. The
  managers of a pool may have neighbouring pages, as the two halves of the application pool do.
\<close>

definition pool_members :: "(nat \<times> nat) list \<Rightarrow> nat list \<Rightarrow> nat \<Rightarrow> nat set" where
  "pool_members rs ps pool = {i. i < length rs \<and> ps ! i = pool}"

definition memory_setup :: "nat \<Rightarrow> KMemoryLayout \<Rightarrow> (nat \<times> nat) list \<Rightarrow> nat list \<Rightarrow> nat \<Rightarrow> nat \<Rightarrow> bool" where
  "memory_setup intended l rs ps ini_start ini_size \<longleftrightarrow> layout_ok intended l rs ps \<and> ini_ok rs ini_start ini_size \<and>
     (\<forall>r \<in> set rs. region_fits r)"

text \<open>No two managers of a pool have neighbouring pages.\<close>

definition pools_apart :: "(nat \<times> nat) list \<Rightarrow> nat list \<Rightarrow> bool" where
  "pools_apart rs ps \<longleftrightarrow> (\<forall>pool < 4. pages_apart rs (pool_members rs ps pool))"

text \<open>
  The runs, with the page groups in use, the number of references to each page, and the pages that the undo of a failed request
  did not give back. The nodes come from the block-info manager of the system, which takes pages of the shared pool when it needs more, or
  from that of applications, which has no page allocator; others may take pages of the shared pool at any time. A page may be
  opened again while it has references, and as long as its 16-bit count has room; a range may be closed when all its pages have
  references; and the caller of \<^verbatim>\<open>AllocateForProcess\<close> opens the pages.
\<close>

inductive mm_run ::
  "nat \<Rightarrow> KMemoryLayout \<Rightarrow> (nat \<times> nat) list \<Rightarrow> nat \<Rightarrow> nat \<Rightarrow> KMemoryManager \<Rightarrow> KBlockInfoManager \<Rightarrow> KPageGroup list \<Rightarrow> (nat \<Rightarrow> nat) \<Rightarrow> nat set \<Rightarrow> bool"
  for intended l rs ini_start ini_size where
  start: "length heaps = MaxManagerCount \<Longrightarrow> \<forall>h \<in> set heaps. fresh_heap h \<Longrightarrow>
    slab_fits KBlockInfo_size memory sz align \<Longrightarrow> slab_run KBlockInfo_size memory sz align num m {} k \<Longrightarrow>
    infos = m \<or> infos = (None, snd m) \<Longrightarrow>
    KMemoryManager_Initialize intended ini_start ini_size management (new_KMemoryManager l heaps dev) = Some mm \<Longrightarrow>
    mm_run intended l rs ini_start ini_size mm infos [] (\<lambda>p. if p \<in> all_pages rs \<inter> ini_pages ini_start ini_size then 1 else 0) {}"
| continuous: "mm_run intended l rs ini_start ini_size mm infos gs c X \<Longrightarrow> valid_continuous n align_pages opt \<Longrightarrow>
    AllocateAndOpenContinuous n align_pages opt mm = Some (a, mm') \<Longrightarrow>
    mm_run intended l rs ini_start ini_size mm' infos gs (if a = 0 then c else bump (pages a n) c) X"
| allocated: "mm_run intended l rs ini_start ini_size mm infos gs c X \<Longrightarrow> 0 < N \<Longrightarrow> GetPool opt < 4 \<Longrightarrow>
    AllocateAndOpen N opt ([], infos, mm) = Some (ResultSuccess, pg, infos', mm') \<Longrightarrow>
    mm_run intended l rs ini_start ini_size mm' infos' (pg # gs) (bump (group_pages pg) c) X"
| refused: "mm_run intended l rs ini_start ini_size mm infos gs c X \<Longrightarrow> 0 < N \<Longrightarrow> GetPool opt < 4 \<Longrightarrow>
    AllocateAndOpen N opt ([], infos, mm) = Some (r, pg, infos', mm') \<Longrightarrow> r \<noteq> ResultSuccess \<Longrightarrow>
    mm_run intended l rs ini_start ini_size mm' infos' gs c (X \<union> open_strays rs N opt infos mm)"
| process: "mm_run intended l rs ini_start ini_size mm infos gs c X \<Longrightarrow> 0 < N \<Longrightarrow> GetPool opt < 4 \<Longrightarrow>
    AllocateForProcess N opt process_id fill_pattern ([], infos, mm) = Some (ResultSuccess, pg, infos', mm1) \<Longrightarrow>
    open_group_first pg mm1 = Some mm' \<Longrightarrow>
    mm_run intended l rs ini_start ini_size mm' infos' (pg # gs) (bump (group_pages pg) c) X"
| process_refused: "mm_run intended l rs ini_start ini_size mm infos gs c X \<Longrightarrow> 0 < N \<Longrightarrow> GetPool opt < 4 \<Longrightarrow>
    AllocateForProcess N opt process_id fill_pattern ([], infos, mm) = Some (r, pg, infos', mm') \<Longrightarrow> r \<noteq> ResultSuccess \<Longrightarrow>
    mm_run intended l rs ini_start ini_size mm' infos' gs c (X \<union> process_strays rs N opt process_id infos mm)"
| optimized: "mm_run intended l rs ini_start ini_size mm infos gs c X \<Longrightarrow> pool < 4 \<Longrightarrow>
    InitializeOptimizedMemory process_id pool mm = Some (r, mm') \<Longrightarrow> mm_run intended l rs ini_start ini_size mm' infos gs c X"
| not_optimized: "mm_run intended l rs ini_start ini_size mm infos gs c X \<Longrightarrow> pool < 4 \<Longrightarrow>
    FinalizeOptimizedMemory process_id pool mm = Some mm' \<Longrightarrow> mm_run intended l rs ini_start ini_size mm' infos gs c X"
| page_taken: "mm_run intended l rs ini_start ini_size mm (Some d, s) gs c X \<Longrightarrow> page_Allocate d = Some (Some p, d') \<Longrightarrow>
    mm_run intended l rs ini_start ini_size mm (Some d', s) gs c X"
| reopened: "mm_run intended l rs ini_start ini_size mm infos gs c X \<Longrightarrow> pages a n \<subseteq> all_pages rs \<Longrightarrow>
    \<forall>p \<in> pages a n. 0 < c p \<and> c p < 2 ^ 16 - 1 \<Longrightarrow> mm_Open a n mm = Some mm' \<Longrightarrow>
    mm_run intended l rs ini_start ini_size mm' infos gs (bump (pages a n) c) X"
| closed_range: "mm_run intended l rs ini_start ini_size mm infos gs c X \<Longrightarrow> pages a n \<subseteq> all_pages rs \<Longrightarrow>
    \<forall>p \<in> pages a n. 0 < c p \<Longrightarrow> mm_Close a n mm = Some mm' \<Longrightarrow>
    mm_run intended l rs ini_start ini_size mm' infos gs (lower (pages a n) c) X"
| closed_group: "mm_run intended l rs ini_start ini_size mm infos gs c X \<Longrightarrow> pg \<in> set gs \<Longrightarrow>
    \<forall>p \<in> group_pages pg. 0 < c p \<Longrightarrow> CloseAndReset pg (infos, mm) = Some (qg, infos', mm') \<Longrightarrow>
    mm_run intended l rs ini_start ini_size mm' infos' (remove1 pg gs) (lower (group_pages pg) c) X"

section \<open>The invariant of the runs\<close>

definition unused :: "(nat \<times> nat) list \<Rightarrow> (nat \<Rightarrow> nat) \<Rightarrow> nat set" where
  "unused rs c = {p \<in> all_pages rs. c p = 0}"

definition group_live :: "(nat \<times> nat) list \<Rightarrow> KPageGroup \<Rightarrow> bool" where
  "group_live rs pg \<longleftrightarrow> sorted_wrt (\<lambda>x y. info_pages x \<inter> info_pages y = {}) pg \<and> group_pages pg \<subseteq> all_pages rs"

definition groups_ok :: "(nat \<times> nat) list \<Rightarrow> KPageGroup list \<Rightarrow> KBlockInfoManager \<Rightarrow> bool" where
  "groups_ok rs gs infos \<longleftrightarrow> (\<forall>pg \<in> set gs. group_live rs pg) \<and> distinct (map info_node (concat gs)) \<and>
     (\<exists>k. slab_ok KBlockInfo_size infos (info_node ` set (concat gs)) k)"

definition mm_inv :: "(nat \<times> nat) list \<Rightarrow> nat list \<Rightarrow> KMemoryManager \<Rightarrow> KBlockInfoManager \<Rightarrow> KPageGroup list \<Rightarrow> (nat \<Rightarrow> nat) \<Rightarrow> nat set \<Rightarrow> bool" where
  "mm_inv rs ps mm infos gs c X \<longleftrightarrow> mm_ok rs mm (unused rs c - X, c) \<and> X \<subseteq> unused rs c \<and> (pools_apart rs ps \<longrightarrow> X = {}) \<and>
     pools_are rs ps mm \<and> groups_ok rs gs infos"

lemma unused_bump:
  "Y \<subseteq> unused rs c - X \<Longrightarrow> X \<subseteq> unused rs c \<Longrightarrow> unused rs (bump Y c) - X = unused rs c - X - Y \<and> X \<subseteq> unused rs (bump Y c)"
  "\<forall>p \<in> Y. 0 < c p \<Longrightarrow> unused rs (bump Y c) = unused rs c"
  by (auto simp: unused_def bump_def)

lemma unused_lower:
  "Y \<subseteq> all_pages rs \<Longrightarrow> \<forall>p \<in> Y. 0 < c p \<Longrightarrow> unused rs (lower Y c) = unused rs c \<union> last_references Y c"
  "X \<subseteq> unused rs c \<Longrightarrow> unused rs c \<union> last_references Y c - X = (unused rs c - X) \<union> last_references Y c"
  by (auto simp: unused_def lower_def last_references_def)

lemma closable_unused: "0 < c p \<Longrightarrow> closable (unused rs c - X, c) p"
  by (simp add: closable_def unused_def)

lemma pool_of:
  assumes "mm_inv rs ps mm infos gs c X" "memory_setup intended l rs ps ini_start ini_size" "pool < 4"
  shows "pool_setting rs (pool_members rs ps pool)"
    "\<exists>first is. GetFirstManager pool dir mm = Some first \<and> chain dir mm first is \<and> set is = pool_members rs ps pool"
proof -
  have "region_fits (rs ! i)" if "i < length rs" for i
    using assms(2) that by (simp add: memory_setup_def)
  then show "pool_setting rs (pool_members rs ps pool)"
    using assms(2,3) by (auto simp: pool_setting_def memory_setup_def pool_members_def)
  show "\<exists>first is. GetFirstManager pool dir mm = Some first \<and> chain dir mm first is \<and> set is = pool_members rs ps pool"
    using assms(1,3) by (simp add: mm_inv_def pools_are_def pool_members_def)
qed

text \<open>Each operation on a state of the invariant.\<close>

lemma inv_continuous:
  assumes "mm_inv rs ps mm infos gs c X" "valid_continuous n align_pages opt"
  shows "\<exists>a mm'. AllocateAndOpenContinuous n align_pages opt mm = Some (a, mm') \<and> (a \<noteq> 0 \<longrightarrow> pages a n \<subseteq> unused rs c - X) \<and>
    mm_inv rs ps mm' infos gs (if a = 0 then c else bump (pages a n) c) X"
proof -
  let ?P = "unused rs c - X"
  have ok: "mm_ok rs mm (?P, c)" and lost: "X \<subseteq> unused rs c" using assms(1) by (simp_all add: mm_inv_def)
  have fresh: "c p = 0" if "p \<in> ?P" for p using that by (simp add: unused_def)
  obtain a mm' where a: "AllocateAndOpenContinuous n align_pages opt mm = Some (a, mm')" "same_frame mm mm'"
    "a = 0 \<and> mm_ok rs mm' (?P, c) \<or> a \<noteq> 0 \<and> pages a n \<subseteq> ?P \<and> mm_ok rs mm' (?P - pages a n, bump (pages a n) c)"
    using AllocateAndOpenContinuous_ok [OF ok assms(2) fresh] by blast
  then show ?thesis
    using assms(1) pools_are_same [OF a(2)] unused_bump(1) [of "pages a n" rs c X] lost by (auto simp: mm_inv_def)
qed

lemma groups_add:
  assumes "groups_ok rs gs infos" "group_ok rs S (info_node ` set (concat gs)) pg infos' k" "group_pages pg \<subseteq> all_pages rs"
  shows "groups_ok rs (pg # gs) infos'"
proof -
  note g = group_okD [OF assms(2)]
  have "set (map info_node pg) \<inter> set (map info_node (concat gs)) = {}" using g(2) by auto
  moreover have "info_node ` set (concat gs) \<union> info_node ` set pg = info_node ` set (concat (pg # gs))" by auto
  ultimately show ?thesis
    using assms(1,3) g(1,3,5) by (auto simp: groups_ok_def group_live_def)
qed

lemma inv_refused:
  assumes "mm_inv rs ps mm infos gs c X" "pool < 4" "slab_ok KBlockInfo_size infos' (info_node ` set (concat gs)) K" "pools_are rs ps mm'"
    "mm_ok rs mm' (unused rs c - X - Y, c)" "Y \<subseteq> unused rs c" "pages_apart rs (pool_members rs ps pool) \<longrightarrow> Y = {}"
  shows "mm_inv rs ps mm' infos' gs c (X \<union> Y)"
proof -
  have "unused rs c - X - Y = unused rs c - (X \<union> Y)" by auto
  moreover have "groups_ok rs gs infos'" using assms(1,3) by (auto simp: mm_inv_def groups_ok_def)
  ultimately show ?thesis using assms by (auto simp: mm_inv_def pools_apart_def)
qed

lemma inv_group:
  assumes inv: "mm_inv rs ps mm infos gs c X" and set: "memory_setup intended l rs ps ini_start ini_size" and N: "0 < N" and pool: "GetPool opt < 4"
    and K: "slab_ok KBlockInfo_size infos (info_node ` set (concat gs)) K"
  defines "S \<equiv> pool_members rs ps (GetPool opt)" and "Y \<equiv> open_strays rs N opt infos mm"
  defines "R \<equiv> (unused rs c - X) \<inter> pool_pages_of rs S"
  shows "\<exists>r pg infos' mm'. AllocateAndOpen N opt ([], infos, mm) = Some (r, pg, infos', mm') \<and>
    (r = ResultSuccess \<and> card (group_pages pg) = N \<and> group_pages pg \<subseteq> R \<and> mm_inv rs ps mm' infos' (pg # gs) (bump (group_pages pg) c) X \<or>
     r \<noteq> ResultSuccess \<and> pg = [] \<and> mm_inv rs ps mm' infos' gs c (X \<union> Y) \<and> Y \<subseteq> R \<and> (pages_apart rs S \<longrightarrow> Y = {}) \<and>
       slab_used (snd infos') = slab_used (snd infos) \<and> (r = ResultOutOfMemory \<and> card R < N \<or> r = ResultOutOfResource \<and> K < N))"
proof -
  let ?L = "info_node ` set (concat gs)" and ?P = "unused rs c - X"
  have ok: "mm_ok rs mm (?P, c)" and lost: "X \<subseteq> unused rs c" using inv by (simp_all add: mm_inv_def)
  have fresh: "c p = 0" if "p \<in> ?P" for p using that by (simp add: unused_def)
  have groups: "groups_ok rs gs infos" using inv by (simp add: mm_inv_def)
  obtain first "is" where first: "GetFirstManager (GetPool opt) (GetDirection opt) mm = Some first" "chain (GetDirection opt) mm first is" "set is = S"
    using pool_of(2) [OF inv set pool] unfolding S_def by blast
  obtain r pg infos' mm' where r: "AllocateAndOpen N opt ([], infos, mm) = Some (r, pg, infos', mm')" "same_frame mm mm'"
    "r = ResultSuccess \<and> got_group rs S ?L ?P N K pg infos' \<and> mm_ok rs mm' (?P - group_pages pg, bump (group_pages pg) c) \<or>
     r \<noteq> ResultSuccess \<and> got_nothing rs S ?L ?P N K Y r pg infos' \<and> mm_ok rs mm' (?P - Y, c)"
    using AllocateAndOpen_ok [OF ok fresh N pool pool_of(1) [OF inv set pool, folded S_def] K first] unfolding Y_def by blast
  have pools: "pools_are rs ps mm'" using inv pools_are_same [OF r(2)] by (simp add: mm_inv_def)
  show ?thesis
  proof (cases "r = ResultSuccess")
    case True
    then obtain k where pg: "group_ok rs S ?L pg infos' k" "card (group_pages pg) = N" "group_pages pg \<subseteq> R"
      "mm_ok rs mm' (?P - group_pages pg, bump (group_pages pg) c)"
      using r(3) by (auto simp: got_group_def R_def)
    then have "group_pages pg \<subseteq> ?P" "group_pages pg \<subseteq> all_pages rs" by (auto simp: unused_def R_def)
    then have "mm_inv rs ps mm' infos' (pg # gs) (bump (group_pages pg) c) X"
      using groups_add [OF groups pg(1)] pools pg(4) unused_bump(1) [of "group_pages pg" rs c X] lost inv by (simp add: mm_inv_def)
    then show ?thesis using r(1) True pg(2,3) by blast
  next
    case False
    then have none: "pg = []" "slab_ok KBlockInfo_size infos' ?L K" "mm_ok rs mm' (?P - Y, c)" "Y \<subseteq> R" "pages_apart rs S \<longrightarrow> Y = {}"
      "r = ResultOutOfMemory \<and> card R < N \<or> r = ResultOutOfResource \<and> K < N"
      using r(3) by (auto simp: got_nothing_def R_def)
    then have "mm_inv rs ps mm' infos' gs c (X \<union> Y)"
      using inv_refused [OF inv pool none(2) pools none(3)] by (auto simp: S_def R_def)
    moreover have "slab_used (snd infos') = slab_used (snd infos)"
      using slab_ok_live(2) [OF none(2)] slab_ok_live(2) [OF K] by simp
    ultimately show ?thesis using r(1) False none(1,4-6) by blast
  qed
qed

lemma inv_process:
  fixes process_id :: u64
  assumes inv: "mm_inv rs ps mm infos gs c X" and set: "memory_setup intended l rs ps ini_start ini_size" and N: "0 < N" and pool: "GetPool opt < 4"
    and K: "slab_ok KBlockInfo_size infos (info_node ` set (concat gs)) K"
  defines "S \<equiv> pool_members rs ps (GetPool opt)" and "Y \<equiv> process_strays rs N opt process_id infos mm"
  defines "R \<equiv> (unused rs c - X) \<inter> pool_pages_of rs S"
  shows "\<exists>r pg infos' mm1. AllocateForProcess N opt process_id fill_pattern ([], infos, mm) = Some (r, pg, infos', mm1) \<and>
    (r = ResultSuccess \<and> card (group_pages pg) = N \<and> group_pages pg \<subseteq> R \<and>
       (is_optimized_process process_id (GetPool opt) mm \<or> (\<forall>x \<in> page_bytes (group_pages pg). device_memory mm1 x = fill_pattern)) \<and>
       (\<exists>mm'. open_group_first pg mm1 = Some mm' \<and> mm_inv rs ps mm' infos' (pg # gs) (bump (group_pages pg) c) X) \<or>
     r \<noteq> ResultSuccess \<and> pg = [] \<and> mm_inv rs ps mm1 infos' gs c (X \<union> Y) \<and> (r = ResultOutOfMemory \<and> card R < N \<or> r = ResultOutOfResource \<and> K < N))"
proof -
  let ?L = "info_node ` set (concat gs)" and ?P = "unused rs c - X"
  have ok: "mm_ok rs mm (?P, c)" and lost: "X \<subseteq> unused rs c" using inv by (simp_all add: mm_inv_def)
  have groups: "groups_ok rs gs infos" using inv by (simp add: mm_inv_def)
  obtain first "is" where first: "GetFirstManager (GetPool opt) (GetDirection opt) mm = Some first" "chain (GetDirection opt) mm first is" "set is = S"
    using pool_of(2) [OF inv set pool] unfolding S_def by blast
  obtain r pg infos' mm1 where r: "AllocateForProcess N opt process_id fill_pattern ([], infos, mm) = Some (r, pg, infos', mm1)" "same_frame mm mm1"
    "r = ResultSuccess \<and> got_group rs S ?L ?P N K pg infos' \<and> mm_ok rs mm1 (?P - group_pages pg, c) \<and>
       (is_optimized_process process_id (GetPool opt) mm \<or> (\<forall>x \<in> page_bytes (group_pages pg). device_memory mm1 x = fill_pattern)) \<or>
     r \<noteq> ResultSuccess \<and> got_nothing rs S ?L ?P N K Y r pg infos' \<and> mm_ok rs mm1 (?P - Y, c)"
    using AllocateForProcess_ok [OF ok N pool pool_of(1) [OF inv set pool, folded S_def] K first] unfolding Y_def by blast
  have pools: "pools_are rs ps mm1" using inv pools_are_same [OF r(2)] by (simp add: mm_inv_def)
  show ?thesis
  proof (cases "r = ResultSuccess")
    case True
    then obtain k where pg: "group_ok rs S ?L pg infos' k" "card (group_pages pg) = N" "group_pages pg \<subseteq> R"
      "mm_ok rs mm1 (?P - group_pages pg, c)"
      and filled: "is_optimized_process process_id (GetPool opt) mm \<or> (\<forall>x \<in> page_bytes (group_pages pg). device_memory mm1 x = fill_pattern)"
      using r(3) by (auto simp: got_group_def R_def)
    then have sub: "group_pages pg \<subseteq> ?P" and all: "group_pages pg \<subseteq> all_pages rs" by (auto simp: unused_def R_def)
    have "openable (?P - group_pages pg, c) p" if "p \<in> group_pages pg" for p
      using that sub by (auto simp: openable_def unused_def)
    then obtain mm2 where mm2: "open_group_first pg mm1 = Some mm2" "same_frame mm1 mm2"
      "mm_ok rs mm2 (?P - group_pages pg, bump (group_pages pg) c)"
      using open_group_first_ok [OF pg(4) group_okD(5) [OF pg(1)] all] by (auto simp: opened_def)
    then have "mm_inv rs ps mm2 infos' (pg # gs) (bump (group_pages pg) c) X"
      using groups_add [OF groups pg(1) all] pools_are_same [OF mm2(2) pools] sub unused_bump(1) [of "group_pages pg" rs c X] lost inv
      by (simp add: mm_inv_def)
    then show ?thesis using r(1) True pg(2,3) mm2(1) filled by blast
  next
    case False
    then have none: "pg = []" "slab_ok KBlockInfo_size infos' ?L K" "mm_ok rs mm1 (?P - Y, c)" "Y \<subseteq> R" "pages_apart rs S \<longrightarrow> Y = {}"
      "r = ResultOutOfMemory \<and> card R < N \<or> r = ResultOutOfResource \<and> K < N"
      using r(3) by (auto simp: got_nothing_def R_def)
    then have "mm_inv rs ps mm1 infos' gs c (X \<union> Y)"
      using inv_refused [OF inv pool none(2) pools none(3)] by (auto simp: S_def R_def)
    then show ?thesis using r(1) False none(1,6) by blast
  qed
qed

lemma inv_optimized: "mm_inv rs ps mm infos gs c X \<Longrightarrow> optimized_only mm mm' \<Longrightarrow> mm_inv rs ps mm' infos gs c X"
  using optimized_calls [of mm mm'] optimized_mm_ok [of mm mm'] by (auto simp: mm_inv_def pools_are_def optimized_only_def)

lemma inv_open:
  assumes "mm_inv rs ps mm infos gs c X" "pages a n \<subseteq> all_pages rs" "\<forall>p \<in> pages a n. 0 < c p \<and> c p < 2 ^ 16 - 1"
  shows "\<exists>mm'. mm_Open a n mm = Some mm' \<and> mm_inv rs ps mm' infos gs (bump (pages a n) c) X"
proof -
  obtain mm' where mm': "mm_Open a n mm = Some mm'" "same_frame mm mm'" "mm_ok rs mm' (opened (pages a n) (unused rs c - X, c))"
    using mm_Open_ok [of rs mm "(unused rs c - X, c)" a n] assms by (auto simp: mm_inv_def openable_def)
  then show ?thesis
    using assms(1,3) pools_are_same [OF mm'(2)] unused_bump(2) [of "pages a n" c rs] by (simp add: mm_inv_def opened_def)
qed

lemma inv_close:
  assumes "mm_inv rs ps mm infos gs c X" "pages a n \<subseteq> all_pages rs" "\<forall>p \<in> pages a n. 0 < c p"
  shows "\<exists>mm'. mm_Close a n mm = Some mm' \<and> mm_inv rs ps mm' infos gs (lower (pages a n) c) X"
proof -
  obtain mm' where mm': "mm_Close a n mm = Some mm'" "same_frame mm mm'" "mm_ok rs mm' (closed (pages a n) (unused rs c - X, c))"
    using mm_Close_ok [of rs mm "(unused rs c - X, c)" a n] assms closable_unused by (auto simp: mm_inv_def)
  then show ?thesis
    using assms(1) pools_are_same [OF mm'(2)] unused_lower(1) [OF assms(2,3)] unused_lower(2) [of X rs c "pages a n"]
    by (auto simp: mm_inv_def closed_def)
qed

lemma groups_remove:
  assumes "groups_ok rs gs infos" "pg \<in> set gs"
  shows "groups_ok rs (remove1 pg gs) (snd (Finalize_group pg infos))"
proof -
  obtain xs ys where gs: "gs = xs @ pg # ys" "pg \<notin> set xs" using split_list_first [OF assms(2)] by blast
  then have rest: "remove1 pg gs = xs @ ys" by (simp add: remove1_append)
  obtain k where k: "slab_ok KBlockInfo_size infos (info_node ` set (concat gs)) k" and nodes: "distinct (map info_node (concat gs))"
    using assms(1) by (auto simp: groups_ok_def)
  have "slab_ok KBlockInfo_size (fold slab_Free (map info_node pg) infos)
      (info_node ` set (concat gs) - set (map info_node pg)) (k + length (map info_node pg))"
    using nodes by (intro slab.release_all [OF k]) (auto simp: gs(1))
  moreover have "info_node ` set (concat gs) - set (map info_node pg) = info_node ` set (concat (xs @ ys))"
  proof -
    let ?A = "info_node ` set (concat xs)" and ?B = "info_node ` set pg" and ?C = "info_node ` set (concat ys)"
    have apart: "?A \<inter> (?B \<union> ?C) = {}" "?B \<inter> ?C = {}" using nodes by (simp_all add: gs(1))
    have parts: "info_node ` set (concat gs) = ?A \<union> ?B \<union> ?C" "info_node ` set (concat (xs @ ys)) = ?A \<union> ?C"
      by (simp_all add: gs(1) image_Un Un_assoc)
    have "A \<union> B \<union> C - B = A \<union> C" if "A \<inter> (B \<union> C) = {}" "B \<inter> C = {}" for A B C :: "nat set"
      using that by blast
    from this [OF apart] show ?thesis by (simp only: parts set_map)
  qed
  moreover have "fold slab_Free (map info_node pg) infos = snd (Finalize_group pg infos)"
    by (simp add: Finalize_group_def fold_map comp_def)
  ultimately have "\<exists>k. slab_ok KBlockInfo_size (snd (Finalize_group pg infos)) (info_node ` set (concat (xs @ ys))) k"
    by (intro exI) simp
  moreover have "distinct (map info_node (concat (xs @ ys)))"
    using nodes by (simp add: gs(1) Int_Un_distrib)
  moreover have "\<forall>pg \<in> set (xs @ ys). group_live rs pg" using assms(1) by (simp add: groups_ok_def gs(1))
  ultimately show ?thesis unfolding rest groups_ok_def by blast
qed

lemma inv_close_group:
  assumes inv: "mm_inv rs ps mm infos gs c X" and "pg \<in> set gs" "\<forall>p \<in> group_pages pg. 0 < c p"
  shows "\<exists>infos' mm'. CloseAndReset pg (infos, mm) = Some ([], infos', mm') \<and>
    mm_inv rs ps mm' infos' (remove1 pg gs) (lower (group_pages pg) c) X"
proof -
  have groups: "groups_ok rs gs infos" using inv by (simp add: mm_inv_def)
  then have pg: "sorted_wrt (\<lambda>x y. info_pages x \<inter> info_pages y = {}) pg" "group_pages pg \<subseteq> all_pages rs"
    using assms(2) by (auto simp: groups_ok_def group_live_def)
  obtain mm' where mm': "close_group pg mm = Some mm'" "same_frame mm mm'" "mm_ok rs mm' (closed (group_pages pg) (unused rs c - X, c))"
    using close_group_ok [of rs mm "(unused rs c - X, c)" pg] inv pg assms(3) closable_unused by (auto simp: mm_inv_def)
  have "mm_inv rs ps mm' (snd (Finalize_group pg infos)) (remove1 pg gs) (lower (group_pages pg) c) X"
    using inv mm' pools_are_same [OF mm'(2)] unused_lower(1) [OF pg(2) assms(3)] unused_lower(2) [of X rs c "group_pages pg"]
      groups_remove [OF groups assms(2)] by (auto simp: mm_inv_def closed_def)
  moreover have "fst (Finalize_group pg infos) = []" by (simp add: Finalize_group_def)
  ultimately show ?thesis using mm'(1) by (simp add: CloseAndReset_split)
qed

text \<open>The nodes at hand, with a page allocator and without one, and when others take a page of the pool.\<close>

lemma slab_without_pages: "slab_ok T m L n \<Longrightarrow> slab_ok T (None, snd m) L (length (m_head (snd m)))"
  by (auto simp: slab_ok_def manager_ok_def)

lemma slab_page_taken:
  assumes "slab_ok T (Some d, s) L n" "page_Allocate d = Some (Some p, d')"
  shows "\<exists>n'. slab_ok T (Some d', s) L n'"
proof -
  obtain ps F where s: "slab_rep T ps s L" "page_pool d F" "taken_from d F ps"
    using assms(1) by (auto simp: slab_ok_def manager_ok_def)
  have "F \<noteq> {}" using page_Allocate_ok [OF s(2)] assms(2) by auto
  then obtain x where x: "x \<in> F" "page_pool d' (F - {x})" "same_pool d d'"
    using page_Allocate_ok [OF s(2)] assms(2) by auto
  then show ?thesis using s(1) manager_ok_take(2) [OF s(2,3) x, of T] by (auto simp: slab_ok_def)
qed

lemma inv_start:
  assumes "memory_setup intended l rs ps ini_start ini_size" "length heaps = MaxManagerCount" "\<forall>h \<in> set heaps. fresh_heap h"
    "slab_fits KBlockInfo_size memory sz align" "slab_run KBlockInfo_size memory sz align num m {} k" "infos = m \<or> infos = (None, snd m)"
  shows "\<exists>mm. KMemoryManager_Initialize intended ini_start ini_size management (new_KMemoryManager l heaps dev) = Some mm \<and>
    mm_inv rs ps mm infos [] (\<lambda>p. if p \<in> all_pages rs \<inter> ini_pages ini_start ini_size then 1 else 0) {}"
proof -
  let ?c = "\<lambda>p. if p \<in> all_pages rs \<inter> ini_pages ini_start ini_size then 1 else (0 :: nat)"
  obtain n where "slab_ok KBlockInfo_size m {} n"
    using slab_run_inv [OF assms(5,4)] by (auto simp: run_inv_def)
  then have "\<exists>n. slab_ok KBlockInfo_size infos {} n" using assms(6) slab_without_pages by blast
  then have "groups_ok rs [] infos" by (auto simp: groups_ok_def)
  moreover have "unused rs ?c = all_pages rs - ini_pages ini_start ini_size" by (auto simp: unused_def)
  ultimately show ?thesis
    using Initialize_ok [of intended l rs ps ini_start ini_size heaps management dev] assms(1-3) by (auto simp: memory_setup_def mm_inv_def)
qed

lemma mm_run_inv:
  assumes "mm_run intended l rs ini_start ini_size mm infos gs c X" "memory_setup intended l rs ps ini_start ini_size"
  shows "mm_inv rs ps mm infos gs c X"
  using assms(1)
proof induction
  case (start heaps memory sz align num m k infos management dev mm)
  then show ?case using inv_start [OF assms(2) start(1-5), of management dev] by auto
next
  case (continuous mm infos gs c X n align_pages opt a mm')
  then show ?case using inv_continuous [OF continuous.IH continuous.hyps(2)] by auto
next
  case (allocated mm infos gs c X N opt pg infos' mm')
  obtain K where "slab_ok KBlockInfo_size infos (info_node ` set (concat gs)) K" using allocated.IH by (auto simp: mm_inv_def groups_ok_def)
  then show ?case using inv_group [OF allocated.IH assms(2) allocated.hyps(2,3)] allocated.hyps(4) by auto
next
  case (refused mm infos gs c X N opt r pg infos' mm')
  obtain K where "slab_ok KBlockInfo_size infos (info_node ` set (concat gs)) K" using refused.IH by (auto simp: mm_inv_def groups_ok_def)
  then show ?case using inv_group [OF refused.IH assms(2) refused.hyps(2,3)] refused.hyps(4,5) by auto
next
  case (process mm infos gs c X N opt process_id fill_pattern pg infos' mm1 mm')
  obtain K where "slab_ok KBlockInfo_size infos (info_node ` set (concat gs)) K" using process.IH by (auto simp: mm_inv_def groups_ok_def)
  then show ?case using inv_process [OF process.IH assms(2) process.hyps(2,3), of K process_id fill_pattern] process.hyps(4,5) by auto
next
  case (process_refused mm infos gs c X N opt process_id fill_pattern r pg infos' mm')
  obtain K where "slab_ok KBlockInfo_size infos (info_node ` set (concat gs)) K" using process_refused.IH by (auto simp: mm_inv_def groups_ok_def)
  then show ?case using inv_process [OF process_refused.IH assms(2) process_refused.hyps(2,3), of K process_id fill_pattern] process_refused.hyps(4,5) by auto
next
  case (optimized mm infos gs c X pool process_id r mm')
  then have "mm_ok rs mm (unused rs c - X, c)" by (simp add: mm_inv_def)
  from InitializeOptimizedMemory_ok [OF this optimized.hyps(2), of process_id]
  show ?case using inv_optimized [OF optimized.IH] optimized.hyps(3) by auto
next
  case (not_optimized mm infos gs c X pool process_id mm')
  then have "mm_ok rs mm (unused rs c - X, c)" by (simp add: mm_inv_def)
  from FinalizeOptimizedMemory_ok [OF this not_optimized.hyps(2), of process_id]
  show ?case using inv_optimized [OF not_optimized.IH] not_optimized.hyps(3) by auto
next
  case (page_taken mm d s gs c X p d')
  then show ?case using slab_page_taken [OF _ page_taken.hyps(2)] by (auto simp: mm_inv_def groups_ok_def)
next
  case (reopened mm infos gs c X a n mm')
  then show ?case using inv_open [OF reopened.IH reopened.hyps(2,3)] by auto
next
  case (closed_range mm infos gs c X a n mm')
  then show ?case using inv_close [OF closed_range.IH closed_range.hyps(2,3)] by auto
next
  case (closed_group mm infos gs c X pg qg infos' mm')
  then show ?case using inv_close_group [OF closed_group.IH closed_group.hyps(2,3)] by auto
qed

section \<open>Free memory and counts\<close>

lemma card_page_bytes:
  assumes "aligned_pages P" "finite P" shows "card (page_bytes P) = PageBytes * card P"
proof -
  have "card (page_bytes P) = (\<Sum>p \<in> P. card {p..<p + PageBytes})"
    unfolding page_bytes_def using assms page_disjoint by (intro card_UN_disjoint) (auto simp: aligned_pages_def)
  then show ?thesis by simp
qed

lemma manager_free_size:
  assumes "mm_ok rs mm st" "i < length rs"
  shows "heap_GetFreeSize (m_heap (m_managers mm ! i)) = Some (PageBytes * card (fst st \<inter> region_pages (rs ! i)))"
proof -
  note ok = mm_okD(2) [OF assms]
  let ?R = "fst st \<inter> region_pages (rs ! i)"
  obtain lo where "holds (fst (rs ! i)) (snd (rs ! i)) lo (m_heap (m_managers mm ! i)) (page_bytes ?R)"
    using ok by (auto simp: impl_ok_def)
  then have "heap_GetFreeSize (m_heap (m_managers mm ! i)) = Some (card (page_bytes ?R))" by (rule GetFreeSize_ok(1))
  moreover have "aligned_pages ?R" "finite ?R"
    using aligned_subset [OF impl_okD(7) [OF ok], of ?R] by (auto simp: region_pages_def)
  ultimately show ?thesis using card_page_bytes by simp
qed

lemma sum_free_sizes_ok:
  assumes "\<And>i. i \<in> set is \<Longrightarrow> i < length (m_managers mm) \<and> heap_GetFreeSize (m_heap (m_managers mm ! i)) = Some (f i)"
    "acc + sum_list (map f is) < 2 ^ 64"
  shows "sum_free_sizes is acc mm = Some (acc + sum_list (map f is))"
  using assms
proof (induction "is" arbitrary: acc)
  case (Cons i "is")
  have "wrap64 (acc + f i) = acc + f i" using Cons.prems(2) by (simp add: wrap64_less)
  then show ?case
    using Cons.prems(1) [of i] Cons.IH [of "acc + f i"] Cons.prems by (simp add: fetch_def)
qed simp

lemma free_size:
  assumes inv: "mm_inv rs ps mm infos gs c X" and set: "memory_setup intended l rs ps ini_start ini_size"
  shows "mm_GetFreeSize mm = Some (PageBytes * card (unused rs c - X))"
proof -
  let ?P = "unused rs c - X"
  have ok: "mm_ok rs mm (?P, c)" and num: "m_num_managers mm = length rs" using inv by (simp_all add: mm_inv_def pools_are_def)
  let ?f = "\<lambda>i. PageBytes * card (?P \<inter> region_pages (rs ! i))"
  have few: "length rs \<le> 10" using set by (simp add: memory_setup_def layout_ok_def MaxManagerCount_def)
  have size: "?f i \<le> 2 ^ 44" if "i < length rs" for i
  proof -
    have "card (?P \<inter> region_pages (rs ! i)) \<le> card (region_pages (rs ! i))"
      by (intro card_mono) (simp_all add: region_pages_def)
    then have "?f i \<le> snd (rs ! i) div PageBytes * PageBytes" by (simp add: region_pages_def mult.commute)
    also have "\<dots> \<le> 2 ^ 44" using set nth_mem [OF that] by (auto simp: memory_setup_def region_fits_def)
    finally show ?thesis .
  qed
  have "sum ?f {..<length rs} \<le> length rs * 2 ^ 44"
    using sum_bounded_above [of "{..<length rs}" ?f "2 ^ 44"] size by simp
  also have "\<dots> \<le> 10 * 2 ^ 44" by (intro mult_le_mono1 few)
  finally have bound: "sum ?f {..<length rs} < 2 ^ 64" by simp
  have "sum_list (map ?f [0..<length rs]) = sum ?f {..<length rs}"
    by (simp add: interv_sum_list_conv_sum_set_nat lessThan_atLeast0)
  then have "mm_GetFreeSize mm = Some (sum ?f {..<length rs})"
    using sum_free_sizes_ok [of "[0..<length rs]" mm ?f 0] manager_free_size [OF ok] mm_okD(1) [OF ok] bound
    by (simp add: mm_GetFreeSize_def num frame_ok_def)
  also have "sum ?f {..<length rs} = PageBytes * (\<Sum>i < length rs. card (?P \<inter> region_pages (rs ! i)))"
    by (simp add: sum_distrib_left)
  also have "(\<Sum>i < length rs. card (?P \<inter> region_pages (rs ! i))) = card (\<Union>i < length rs. ?P \<inter> region_pages (rs ! i))"
    using regions_apart [OF mm_okD(1) [OF ok]] by (intro card_UN_disjoint [symmetric]) (auto simp: region_pages_def)
  also have "(\<Union>i < length rs. ?P \<inter> region_pages (rs ! i)) = ?P"
    by (auto simp: unused_def pool_pages_all [symmetric] pool_pages_of_def)
  finally show ?thesis .
qed

lemma inv_counts:
  assumes "mm_inv rs ps mm infos gs c X" "i < length rs" "k < snd (rs ! i) div PageBytes"
  shows "unat (m_page_reference_counts (m_managers mm ! i) ! k) = c (fst (rs ! i) + k * PageBytes)"
  using mm_okD(2) [of rs mm "(unused rs c - X, c)" i] assms by (simp add: mm_inv_def impl_ok_def)

section \<open>A machine with four gibibytes\<close>

text \<open>
  The pools of applications and applets in the four-gibibyte mode: \<^verbatim>\<open>SetupPoolPartitionMemoryRegions\<close> puts 3285 MiB at the end of the
  memory, split at its middle into two neighbouring managers of the application pool, and 474 MiB for applets before them. The initial
  process binary is outside of both pools, and the nodes come from a pool of pages at a kernel address.
\<close>

definition nx_region :: "nat \<Rightarrow> nat \<Rightarrow> nat \<Rightarrow> u32 \<Rightarrow> KMemoryRegion" where
  "nx_region i a n t = \<lparr>region_address = a, region_last = a + n - 1, region_attributes = i, region_type = t\<rparr>"

definition nx_layout :: KMemoryLayout where
  "nx_layout =
     (let tree = [nx_region 2 0x95100000 0x1DA00000 DramAppletPool, nx_region 0 0xB2B00000 0x4D500000 DramApplicationPool,
                  nx_region 1 0x100000000 0x80000000 DramApplicationPool]
      in \<lparr>m_physical_tree = tree, m_physical_linear_tree = tree, m_linear_virt_to_phys_diff = 0\<rparr>)"

abbreviation nx_regions :: "(nat \<times> nat) list" where
  "nx_regions \<equiv> [(0xB2B00000, 0x4D500000), (0x100000000, 0x80000000), (0x95100000, 0x1DA00000)]"

abbreviation nx_pools :: "nat list" where
  "nx_pools \<equiv> [0, 0, 1]"

lemma nx_types:
  "IsDerivedFrom DramUserPool (nx_region i a n DramApplicationPool)" "IsDerivedFrom DramUserPool (nx_region i a n DramAppletPool)"
  "GetPoolFromMemoryRegionType DramApplicationPool = Some 0" "GetPoolFromMemoryRegionType DramAppletPool = Some 1"
  by (simp_all add: IsDerivedFrom_def nx_region_def GetPoolFromMemoryRegionType_def Application_def Applet_def
      DramUserPool_def DramApplicationPool_def DramAppletPool_def PoolAttributes_def)

lemma nx_user: "user_regions (m_physical_tree nx_layout) = m_physical_tree nx_layout"
  using nx_types(1,2) by (simp add: user_regions_def nx_layout_def Let_def)

lemma page_range: "p \<in> region_pages (a, n) \<Longrightarrow> a \<le> p \<and> p < a + n"
proof -
  assume "p \<in> region_pages (a, n)"
  then obtain k where k: "k < n div PageBytes" "p = a + k * PageBytes" by (auto simp: region_pages_def mem_pages)
  then have "Suc k * PageBytes \<le> n div PageBytes * PageBytes" by (intro mult_le_mono1) simp
  also have "\<dots> \<le> n" by simp
  finally show ?thesis using k(2) by (simp add: PageBytes_def)
qed

lemma nx_found:
  assumes "i < 3" "p \<in> region_pages (nx_regions ! i)"
  shows "map_option region_attributes (tree_Find p (m_physical_linear_tree nx_layout)) = Some i"
proof -
  have "i = 0 \<or> i = 1 \<or> i = 2" using assms(1) by auto
  then show ?thesis
    using assms(2) page_range [of p "0xB2B00000" "0x4D500000"] page_range [of p "0x100000000" "0x80000000"]
      page_range [of p "0x95100000" "0x1DA00000"]
    by (elim disjE) (auto simp: tree_Find_def nx_layout_def nx_region_def Let_def)
qed

lemma nx_setup: "memory_setup 0x100000000 nx_layout nx_regions nx_pools 0x80000000 0xC00000"
proof -
  have "describes nx_regions nx_pools r" if "r \<in> set (m_physical_tree nx_layout)" for r
    using that nx_types(3,4) by (auto simp: nx_layout_def Let_def describes_def nx_region_def)
  moreover have "region_attributes ` set (m_physical_tree nx_layout) = {..<3}" "distinct (map region_attributes (m_physical_tree nx_layout))"
    by (auto simp: nx_layout_def Let_def nx_region_def)
  moreover have "\<forall>i < length nx_regions. nx_pools ! i < 4" by (simp add: All_less_Suc)
  ultimately have "layout_ok 0x100000000 nx_layout nx_regions nx_pools"
    unfolding layout_ok_def nx_user using nx_found by (simp add: MaxManagerCount_def heap_fits_def PageBytes_def)
  moreover have "ini_ok nx_regions 0x80000000 0xC00000" by (simp add: ini_ok_def PageBytes_def)
  ultimately show ?thesis by (simp add: memory_setup_def region_fits_def PageBytes_def)
qed

lemma nx_members: "pool_members nx_regions nx_pools 0 = {0, 1}"
  by (auto simp: pool_members_def less_Suc_eq)

text \<open>The middle of the memory, and a node across it: its second page is a stray one.\<close>

lemma nx_middle: "0xFFFFF000 \<in> region_pages (nx_regions ! 0)" "0x100000000 \<in> region_pages (nx_regions ! 1)"
  by (auto simp: region_pages_def mem_pages PageBytes_def intro!: exI [of _ "0x4D4FF"] exI [of _ 0])

lemma nx_strays: "strays nx_regions [KBlockInfo_Initialize node 0xFFFFF000 2] = {0x100000000}"
proof -
  have "PageBytes dvd 0xFFFFF000" "0xFFFFF000 + 2 * PageBytes < 2 ^ 44" by (simp_all add: PageBytes_def)
  note info = new_info [OF this, of node]
  have "pages 0xFFFFF000 (Suc (Suc 0)) = {0xFFFFF000, 0x100000000}" by (auto simp: PageBytes_def pages_Suc)
  then have node: "info_GetAddress (KBlockInfo_Initialize node 0xFFFFF000 2) = 0xFFFFF000"
    "info_pages (KBlockInfo_Initialize node 0xFFFFF000 2) = {0xFFFFF000, 0x100000000}"
    using info(1,5) by (simp_all add: eval_nat_numeral(1) numeral_2_eq_2)
  have "0x100000000 \<notin> region_pages (0xB2B00000, 0x4D500000)" "0xFFFFF000 \<notin> region_pages (0x100000000, 0x80000000)"
    "0xFFFFF000 \<notin> region_pages (0x95100000, 0x1DA00000)"
    using page_range by fastforce+
  then show ?thesis using nx_middle by (auto simp: stray_pages_def node)
qed

lemma nx_neighbours: "\<not> pages_apart nx_regions {0, 1}"
proof -
  have "0xFFFFF000 + PageBytes \<in> region_pages (nx_regions ! 1)" using nx_middle(2) by (simp add: PageBytes_def)
  with nx_middle(1) show ?thesis unfolding pages_apart_def by (metis insertI1 insertI2 zero_neq_one)
qed

lemma nx_pages: "all_pages nx_regions = pages 0x95100000 0xEAF00" "pool_pages_of nx_regions {0, 1} = pages 0xB2B00000 0xCD500"
proof -
  show pool: "pool_pages_of nx_regions {0, 1} = pages 0xB2B00000 0xCD500"
    using pages_add [of "0xB2B00000" "0x4D500" "0x80000"] by (simp add: pool_pages_of_def region_pages_def PageBytes_def)
  then show "all_pages nx_regions = pages 0x95100000 0xEAF00"
    using pages_add [of "0x95100000" "0x1DA00" "0xCD500"]
    by (simp add: all_pages_def pool_pages_of_def region_pages_def PageBytes_def Un_ac)
qed

lemma nx_pool:
  "(unused nx_regions (\<lambda>_. 0) - {}) \<inter> pool_pages_of nx_regions (pool_members nx_regions nx_pools 0) = pages 0xB2B00000 0xCD500"
  "pages 0xB2B00000 0xCD500 \<subseteq> all_pages nx_regions"
proof -
  show sub: "pages 0xB2B00000 0xCD500 \<subseteq> all_pages nx_regions"
    using pages_add [of "0x95100000" "0x1DA00" "0xCD500"] unfolding nx_pages by (auto simp: PageBytes_def)
  show "(unused nx_regions (\<lambda>_. 0) - {}) \<inter> pool_pages_of nx_regions (pool_members nx_regions nx_pools 0) = pages 0xB2B00000 0xCD500"
    unfolding nx_members nx_pages(2) using sub by (auto simp: unused_def)
qed

lemma nx_counts: "(\<lambda>p. if p \<in> all_pages nx_regions \<inter> ini_pages 0x80000000 0xC00000 then 1 else 0) = (\<lambda>_. 0 :: nat)"
proof -
  have "p \<ge> 0x95100000" if "p \<in> pages 0x95100000 0xEAF00" for p using that by (auto simp: mem_pages)
  moreover have "p < 0x80C00000" if "p \<in> ini_pages 0x80000000 0xC00000" for p
    using that by (auto simp: ini_pages_def mem_pages PageBytes_def)
  ultimately have "\<not> (p \<in> pages 0x95100000 0xEAF00 \<and> p \<in> ini_pages 0x80000000 0xC00000)" for p by fastforce
  then show ?thesis unfolding nx_pages by (auto simp: fun_eq_iff)
qed

lemma nx_unused [simp]: "unused nx_regions (\<lambda>_. 0) = pages 0x95100000 0xEAF00"
  by (simp add: unused_def nx_pages)

lemma nx_run:
  "\<exists>mm infos K. mm_run 0x100000000 nx_layout nx_regions 0x80000000 0xC00000 mm infos [] (\<lambda>_. 0) {} \<and>
     slab_ok KBlockInfo_size infos {} K \<and> 2 \<le> K"
proof -
  have fits: "slab_fits KBlockInfo_size small_pool 0x10000 0x1000" using small_slab_fits by (simp add: KBlockInfo_size_def)
  obtain infos where infos: "slab_run KBlockInfo_size small_pool 0x10000 0x1000 512 infos {} 2"
    using small_slab_run by (auto simp: KBlockInfo_size_def)
  obtain K where K: "slab_ok KBlockInfo_size infos {} K" "K + 256 * 2 = 256 * 15"
    using slab_run_inv [OF infos fits] small_pool_facts by (auto simp: run_inv_def KBlockInfo_size_def)
  let ?heaps = "replicate MaxManagerCount (new_KPageHeap (replicate 7 0) 0)"
  have heaps: "length ?heaps = MaxManagerCount" "\<forall>h \<in> set ?heaps. fresh_heap h"
    by (auto simp: fresh_heap_def intro!: exI [of _ "replicate 7 0"])
  have "infos = infos \<or> infos = (None, snd infos)" by simp
  note set_up = heaps fits infos this
  obtain mm where mm: "KMemoryManager_Initialize 0x100000000 0x80000000 0xC00000 0 (new_KMemoryManager nx_layout ?heaps (\<lambda>_. 0)) = Some mm"
    using inv_start [OF nx_setup set_up, of 0 "\<lambda>_. 0"] by blast
  have "mm_run 0x100000000 nx_layout nx_regions 0x80000000 0xC00000 mm infos [] (\<lambda>_. 0) {}"
    using mm_run.start [OF set_up mm, of nx_regions] unfolding nx_counts .
  moreover have "2 \<le> K" using K(2) by simp
  ultimately show ?thesis using K(1) by blast
qed

section \<open>The theorems\<close>

text \<open>
  C1. Every run of the memory manager, of any number of managers and pools, neighbouring ones included, on a layout with one region per manager
  (its pages in the linear tree, numbered with 32 bits, and an initial process binary that is inside or outside of each region): both kinds of
  allocation return, for any pool and positive number of pages, the contiguous one for at most 2 to the 18 pages (the largest block) with an
  alignment of at most as many. Neither hands out a page that has a reference, nor one that the undo of a failed request lost; the
  count that is kept for a page is the number of references to it; and the free memory that the manager reports is
  exactly that of the other pages without a reference. Nothing is lost when no two managers of a pool have neighbouring pages.
\<close>

theorem referenced_pages_never_handed_out:
  assumes "memory_setup intended l rs ps ini_start ini_size" "mm_run intended l rs ini_start ini_size mm infos gs c X"
  shows "(\<forall>n align_pages opt. valid_continuous n align_pages opt \<longrightarrow>
      (\<exists>a mm'. AllocateAndOpenContinuous n align_pages opt mm = Some (a, mm') \<and>
         (a \<noteq> 0 \<longrightarrow> (\<forall>p \<in> pages a n. p \<in> all_pages rs \<and> c p = 0 \<and> p \<notin> X)))) \<and>
    (\<forall>N opt. 0 < N \<and> GetPool opt < 4 \<longrightarrow>
      (\<exists>r pg infos' mm'. AllocateAndOpen N opt ([], infos, mm) = Some (r, pg, infos', mm') \<and>
         (\<forall>p \<in> group_pages pg. p \<in> all_pages rs \<and> c p = 0 \<and> p \<notin> X))) \<and>
    (\<forall>i < length rs. \<forall>k < snd (rs ! i) div PageBytes.
      unat (m_page_reference_counts (m_managers mm ! i) ! k) = c (fst (rs ! i) + k * PageBytes)) \<and>
    mm_GetFreeSize mm = Some (PageBytes * card {p \<in> all_pages rs. c p = 0 \<and> p \<notin> X}) \<and>
    ((\<forall>pool < 4. pages_apart rs (pool_members rs ps pool)) \<longrightarrow> X = {})"
proof -
  note inv = mm_run_inv [OF assms(2,1)]
  have "\<exists>a mm'. AllocateAndOpenContinuous n align_pages opt mm = Some (a, mm') \<and>
      (a \<noteq> 0 \<longrightarrow> (\<forall>p \<in> pages a n. p \<in> all_pages rs \<and> c p = 0 \<and> p \<notin> X))"
    if "valid_continuous n align_pages opt" for n align_pages opt
    using inv_continuous [OF inv that] by (auto simp: unused_def)
  moreover have "\<exists>r pg infos' mm'. AllocateAndOpen N opt ([], infos, mm) = Some (r, pg, infos', mm') \<and>
      (\<forall>p \<in> group_pages pg. p \<in> all_pages rs \<and> c p = 0 \<and> p \<notin> X)" if N: "0 < N" "GetPool opt < 4" for N opt
  proof -
    obtain K where "slab_ok KBlockInfo_size infos (info_node ` set (concat gs)) K" using inv by (auto simp: mm_inv_def groups_ok_def)
    from inv_group [OF inv assms(1) N this] obtain r pg infos' mm' where
      "AllocateAndOpen N opt ([], infos, mm) = Some (r, pg, infos', mm')" "group_pages pg \<subseteq> unused rs c - X \<or> pg = []" by blast
    then show ?thesis by (intro exI [of _ r] exI [of _ pg] exI [of _ infos'] exI [of _ mm']) (auto simp: unused_def)
  qed
  moreover have "unused rs c - X = {p \<in> all_pages rs. c p = 0 \<and> p \<notin> X}" by (auto simp: unused_def)
  ultimately show ?thesis
    using inv_counts [OF inv] free_size [OF inv assms(1)] inv by (simp add: mm_inv_def pools_apart_def)
qed

lemma referenced_pages_never_handed_out_witness:
  "\<exists>mm infos a mm'. mm_run 0x100000000 nx_layout nx_regions 0x80000000 0xC00000 mm infos [] (\<lambda>_. 0) {} \<and>
     mm_GetFreeSize mm = Some 0xEAF00000 \<and> AllocateAndOpenContinuous 3 1 0 mm = Some (a, mm')"
proof -
  obtain mm infos where run: "mm_run 0x100000000 nx_layout nx_regions 0x80000000 0xC00000 mm infos [] (\<lambda>_. 0) {}"
    using nx_run by blast
  note facts = referenced_pages_never_handed_out [OF nx_setup run]
  have "mm_GetFreeSize mm = Some 0xEAF00000" using facts by (simp add: nx_pages PageBytes_def)
  moreover have "valid_continuous 3 1 0" by (simp add: valid_continuous_def GetPool_def)
  ultimately show ?thesis using run facts by blast
qed

text \<open>
  C8. In every run of the memory manager, on the layouts of C1, closing a range of pages that all have references returns, across all
  managers it spans; it takes one reference from each page, and frees exactly those pages whose last one it was.
\<close>

theorem Close_frees_last_references:
  assumes "memory_setup intended l rs ps ini_start ini_size" "mm_run intended l rs ini_start ini_size mm infos gs c X"
    "pages a n \<subseteq> all_pages rs" "\<forall>p \<in> pages a n. 0 < c p"
  shows "\<exists>mm'. mm_Close a n mm = Some mm' \<and>
    (\<forall>i < length rs. \<forall>k < snd (rs ! i) div PageBytes. let p = fst (rs ! i) + k * PageBytes
       in unat (m_page_reference_counts (m_managers mm' ! i) ! k) = (if p \<in> pages a n then c p - 1 else c p)) \<and>
    mm_GetFreeSize mm' = Some (PageBytes * (card {p \<in> all_pages rs. c p = 0 \<and> p \<notin> X} + card {p \<in> pages a n. c p = 1}))"
proof -
  note inv = mm_run_inv [OF assms(2,1)]
  obtain mm' where mm': "mm_Close a n mm = Some mm'" "mm_inv rs ps mm' infos gs (lower (pages a n) c) X"
    using inv_close [OF inv assms(3,4)] by blast
  have "X \<subseteq> unused rs c" using inv by (simp add: mm_inv_def)
  then have "unused rs (lower (pages a n) c) - X = (unused rs c - X) \<union> last_references (pages a n) c"
    using unused_lower(1) [OF assms(3,4)] unused_lower(2) by simp
  moreover have "(unused rs c - X) \<inter> last_references (pages a n) c = {}" by (auto simp: unused_def last_references_def)
  moreover have "finite (unused rs c - X)" by (simp add: unused_def all_pages_def region_pages_def)
  ultimately have "card (unused rs (lower (pages a n) c) - X) = card (unused rs c - X) + card (last_references (pages a n) c)"
    by (simp add: card_Un_disjoint last_references_def)
  moreover have "unused rs c - X = {p \<in> all_pages rs. c p = 0 \<and> p \<notin> X}" by (auto simp: unused_def)
  ultimately show ?thesis
    using mm'(1) inv_counts [OF mm'(2)] free_size [OF mm'(2) assms(1)] by (auto simp: last_references_def lower_def Let_def)
qed

text \<open>The witness opens a page of the application pool and closes it again.\<close>

lemma Close_frees_last_references_witness:
  "\<exists>mm infos gs p mm'. mm_run 0x100000000 nx_layout nx_regions 0x80000000 0xC00000 mm infos gs (bump {p} (\<lambda>_. 0)) {} \<and>
     p \<in> all_pages nx_regions \<and> mm_Close p 1 mm = Some mm' \<and> mm_GetFreeSize mm' = Some 0xEAF00000"
proof -
  obtain mm infos K where run: "mm_run 0x100000000 nx_layout nx_regions 0x80000000 0xC00000 mm infos [] (\<lambda>_. 0) {}"
    and K: "slab_ok KBlockInfo_size infos {} K" "2 \<le> K"
    using nx_run by blast
  have pool: "GetPool 0 = 0" by (simp add: GetPool_def)
  obtain pg infos' mm1 where pg: "AllocateAndOpen 1 0 ([], infos, mm) = Some (ResultSuccess, pg, infos', mm1)" "card (group_pages pg) = 1"
    "group_pages pg \<subseteq> pages 0xB2B00000 0xCD500"
    using inv_group [OF mm_run_inv [OF run nx_setup] nx_setup, of 1 0 K] K unfolding pool nx_pool(1) by auto
  obtain p where p: "group_pages pg = {p}" using pg(2) by (rule card_1_singletonE)
  have "p \<in> all_pages nx_regions"
    using pg(3) nx_pool(2) unfolding p by blast
  have run1: "mm_run 0x100000000 nx_layout nx_regions 0x80000000 0xC00000 mm1 infos' [pg] (bump {p} (\<lambda>_. 0)) {}"
    using mm_run.allocated [OF run _ _ pg(1)] by (simp add: pool p)
  have one: "pages p 1 = {p}" by (simp add: pages_Suc)
  have "pages p 1 \<subseteq> all_pages nx_regions" "\<forall>q \<in> pages p 1. 0 < bump {p} (\<lambda>_. 0) q"
    unfolding one using \<open>p \<in> all_pages nx_regions\<close> by (simp_all add: bump_def)
  from Close_frees_last_references [OF nx_setup run1 this] obtain mm' where mm': "mm_Close p 1 mm1 = Some mm'"
    "mm_GetFreeSize mm' = Some (PageBytes * (card {q \<in> all_pages nx_regions. bump {p} (\<lambda>_. 0) q = 0 \<and> q \<notin> {}} +
       card {q \<in> pages p 1. bump {p} (\<lambda>_. 0) q = 1}))" by blast
  have "{q \<in> all_pages nx_regions. bump {p} (\<lambda>_. 0) q = 0 \<and> q \<notin> {}} = all_pages nx_regions - {p}" by (auto simp: bump_def)
  moreover have "{q \<in> pages p 1. bump {p} (\<lambda>_. 0) q = 1} = {p}" unfolding one by (auto simp: bump_def)
  moreover have "card (all_pages nx_regions - {p}) = 0xEAEFF"
    using \<open>p \<in> all_pages nx_regions\<close> by (simp add: nx_pages)
  ultimately have "mm_GetFreeSize mm' = Some 0xEAF00000" using mm'(2) by (simp add: PageBytes_def)
  with run1 \<open>p \<in> all_pages nx_regions\<close> mm'(1) show ?thesis by blast
qed

text \<open>
  C4. In every run of the memory manager, on the layouts of C1, what \<^verbatim>\<open>AllocateAndOpen\<close> does. With success it returns a group of exactly the
  wanted number of distinct pages of the pool, which were free. With failure it returns no page and no node, and all counts are
  as before; when it reports that memory is short, the pool really has fewer free pages than were wanted. The undo is complete
  but for the stray pages of the collected group, those of a node behind the manager of its first page: exactly
  these, which were free pages of the pool, are missing from the free memory afterwards. None are missing when no two managers of
  the pool have neighbouring pages, as in the applet and system pools; the two managers of the application pool have.
\<close>

theorem AllocateAndOpen_all_or_nothing:
  assumes "memory_setup intended l rs ps ini_start ini_size" "mm_run intended l rs ini_start ini_size mm infos gs c X"
    "0 < N" "GetPool opt < 4" "AllocateAndOpen N opt ([], infos, mm) = Some (r, pg, infos', mm')"
  defines "S \<equiv> pool_members rs ps (GetPool opt)"
  defines "R \<equiv> {p \<in> pool_pages_of rs S. c p = 0 \<and> p \<notin> X}"
    and "free \<equiv> card {p \<in> all_pages rs. c p = 0 \<and> p \<notin> X}"
    and "lost \<equiv> strays rs (collected N (GetPool opt) (GetDirection opt) (m_has_optimized_process mm ! GetPool opt) True infos mm)"
  shows "if r = ResultSuccess
    then card (group_pages pg) = N \<and> group_pages pg \<subseteq> R \<and> mm_GetFreeSize mm' = Some (PageBytes * (free - N))
    else pg = [] \<and> slab_used (snd infos') = slab_used (snd infos) \<and>
      (\<forall>i < length rs. \<forall>k < snd (rs ! i) div PageBytes.
         m_page_reference_counts (m_managers mm' ! i) ! k = m_page_reference_counts (m_managers mm ! i) ! k) \<and>
      mm_GetFreeSize mm' = Some (PageBytes * (free - card lost)) \<and> lost \<subseteq> R \<and> (pages_apart rs S \<longrightarrow> lost = {}) \<and>
      (r = ResultOutOfMemory \<and> card R < N \<or> r = ResultOutOfResource)"
proof -
  note inv = mm_run_inv [OF assms(2,1)]
  obtain K where K: "slab_ok KBlockInfo_size infos (info_node ` set (concat gs)) K" using inv by (auto simp: mm_inv_def groups_ok_def)
  have "pool_pages_of rs S \<subseteq> all_pages rs" unfolding S_def by (rule pool_in_all) (auto simp: pool_members_def)
  then have R: "(unused rs c - X) \<inter> pool_pages_of rs S = R" by (auto simp: unused_def R_def)
  have free: "card (unused rs c - X) = free" unfolding free_def by (rule arg_cong [of _ _ card]) (auto simp: unused_def)
  have lost: "open_strays rs N opt infos mm = lost" by (simp add: open_strays_def lost_def)
  have res: "r = ResultSuccess \<and> card (group_pages pg) = N \<and> group_pages pg \<subseteq> R \<and> mm_inv rs ps mm' infos' (pg # gs) (bump (group_pages pg) c) X \<or>
      r \<noteq> ResultSuccess \<and> pg = [] \<and> mm_inv rs ps mm' infos' gs c (X \<union> lost) \<and> lost \<subseteq> R \<and> (pages_apart rs S \<longrightarrow> lost = {}) \<and>
        slab_used (snd infos') = slab_used (snd infos) \<and> (r = ResultOutOfMemory \<and> card R < N \<or> r = ResultOutOfResource \<and> K < N)"
    using inv_group [OF inv assms(1,3,4) K, folded S_def, unfolded R lost] assms(5) by auto
  show ?thesis
  proof (cases "r = ResultSuccess")
    case True
    then have got: "card (group_pages pg) = N" "group_pages pg \<subseteq> R" "mm_inv rs ps mm' infos' (pg # gs) (bump (group_pages pg) c) X"
      using res by auto
    then have "group_pages pg \<subseteq> unused rs c - X" "X \<subseteq> unused rs c" using R inv by (auto simp: mm_inv_def)
    then have "card (unused rs (bump (group_pages pg) c) - X) = free - N"
      using got(1) free unused_bump(1) [of "group_pages pg" rs c X] by (simp add: card_Diff_subset)
    then show ?thesis using True got free_size [OF got(3) assms(1)] by simp
  next
    case False
    then have none: "pg = []" "mm_inv rs ps mm' infos' gs c (X \<union> lost)" "lost \<subseteq> R"
      using res by auto
    have "m_page_reference_counts (m_managers mm' ! i) ! k = m_page_reference_counts (m_managers mm ! i) ! k"
      if "i < length rs" "k < snd (rs ! i) div PageBytes" for i k
      using inv_counts [OF none(2) that] inv_counts [OF inv that] by (simp add: word_unat_eq_iff)
    moreover have "card (unused rs c - (X \<union> lost)) = free - card lost"
    proof -
      have "unused rs c - (X \<union> lost) = (unused rs c - X) - lost" "lost \<subseteq> unused rs c - X" using none(3) R by auto
      moreover have "finite (unused rs c - X)" by (simp add: unused_def all_pages_def region_pages_def)
      ultimately show ?thesis using free by (simp add: card_Diff_subset finite_subset)
    qed
    ultimately show ?thesis using False none res free_size [OF none(2) assms(1)] by auto
  qed
qed

text \<open>
  The witness asks for one page more than the application pool of the four-gibibyte mode has, whose two managers are neighbours.
\<close>

lemma AllocateAndOpen_all_or_nothing_witness:
  "\<exists>mm infos infos' mm'. mm_run 0x100000000 nx_layout nx_regions 0x80000000 0xC00000 mm infos [] (\<lambda>_. 0) {} \<and>
     \<not> pages_apart nx_regions (pool_members nx_regions nx_pools 0) \<and>
     (\<exists>r. AllocateAndOpen 0xCD501 0 ([], infos, mm) = Some (r, [], infos', mm') \<and> r \<noteq> ResultSuccess) \<and>
     mm_GetFreeSize mm' = Some (PageBytes * (0xEAF00 - card (strays nx_regions
       (collected 0xCD501 0 0 (m_has_optimized_process mm ! 0) True infos mm))))"
proof -
  obtain mm infos K where run: "mm_run 0x100000000 nx_layout nx_regions 0x80000000 0xC00000 mm infos [] (\<lambda>_. 0) {}"
    and K: "slab_ok KBlockInfo_size infos {} K"
    using nx_run by blast
  have opt: "GetPool 0 = 0" "GetDirection 0 = 0" by (simp_all add: GetPool_def GetDirection_def)
  obtain r pg infos' mm' where r: "AllocateAndOpen 0xCD501 0 ([], infos, mm) = Some (r, pg, infos', mm')"
    using inv_group [OF mm_run_inv [OF run nx_setup] nx_setup, of "0xCD501" 0 K] K by (auto simp: opt)
  note facts = AllocateAndOpen_all_or_nothing [OF nx_setup run _ _ r, unfolded opt nx_members nx_pages]
  have "r \<noteq> ResultSuccess"
  proof
    assume "r = ResultSuccess"
    then have "card (group_pages pg) = 0xCD501" "group_pages pg \<subseteq> pages 0xB2B00000 0xCD500" using facts by auto
    from card_mono [OF finite_pages this(2)] this(1) show False by simp
  qed
  then have "pg = []" "mm_GetFreeSize mm' = Some (PageBytes * (0xEAF00 - card (strays nx_regions
       (collected 0xCD501 0 0 (m_has_optimized_process mm ! 0) True infos mm))))" using facts by simp_all
  moreover have "\<not> pages_apart nx_regions (pool_members nx_regions nx_pools 0)" unfolding nx_members by (rule nx_neighbours)
  ultimately show ?thesis
    using run r \<open>r \<noteq> ResultSuccess\<close> by (intro exI [of _ mm] exI [of _ infos] exI [of _ infos'] exI [of _ mm'] conjI exI [of _ r]) simp_all
qed

text \<open>
  C12. In every run of the memory manager, on the layouts of C1, \<^verbatim>\<open>AllocateForProcess\<close> returns; with success the group has the wanted number of
  pages, all of them without references before, the caller can open them, and unless the process is the optimized one of the pool
  every byte of them is the fill pattern: a process never sees what another left in its memory. It fails only when the pool has too few
  free pages or the nodes run out.
\<close>

theorem AllocateForProcess_fills:
  assumes "memory_setup intended l rs ps ini_start ini_size" "mm_run intended l rs ini_start ini_size mm infos gs c X"
    "0 < N" "GetPool opt < 4"
  shows "\<exists>r pg infos' mm'. AllocateForProcess N opt process_id fill_pattern ([], infos, mm) = Some (r, pg, infos', mm') \<and>
    (r = ResultSuccess \<longrightarrow> card (group_pages pg) = N \<and> (\<forall>p \<in> group_pages pg. p \<in> all_pages rs \<and> c p = 0 \<and> p \<notin> X) \<and>
       (\<exists>mm''. open_group_first pg mm' = Some mm'') \<and>
       (\<not> (m_has_optimized_process mm ! GetPool opt \<and> m_optimized_process_ids mm ! GetPool opt = process_id) \<longrightarrow>
          (\<forall>p \<in> group_pages pg. \<forall>j < PageBytes. device_memory mm' (p + j) = fill_pattern))) \<and>
    (r \<noteq> ResultSuccess \<longrightarrow> r = ResultOutOfResource \<or>
       r = ResultOutOfMemory \<and> card {p \<in> pool_pages_of rs (pool_members rs ps (GetPool opt)). c p = 0 \<and> p \<notin> X} < N)"
proof -
  note inv = mm_run_inv [OF assms(2,1)]
  let ?Q = "pool_pages_of rs (pool_members rs ps (GetPool opt))"
  obtain K where K: "slab_ok KBlockInfo_size infos (info_node ` set (concat gs)) K" using inv by (auto simp: mm_inv_def groups_ok_def)
  have "?Q \<subseteq> all_pages rs" by (rule pool_in_all) (auto simp: pool_members_def)
  then have R: "(unused rs c - X) \<inter> ?Q = {p \<in> ?Q. c p = 0 \<and> p \<notin> X}" by (auto simp: unused_def)
  obtain r pg infos' mm' where r: "AllocateForProcess N opt process_id fill_pattern ([], infos, mm) = Some (r, pg, infos', mm')"
    "r = ResultSuccess \<and> card (group_pages pg) = N \<and> group_pages pg \<subseteq> unused rs c - X \<and>
       (is_optimized_process process_id (GetPool opt) mm \<or> (\<forall>x \<in> page_bytes (group_pages pg). device_memory mm' x = fill_pattern)) \<and>
       (\<exists>mm''. open_group_first pg mm' = Some mm'') \<or>
     r \<noteq> ResultSuccess \<and> (r = ResultOutOfMemory \<and> card {p \<in> ?Q. c p = 0 \<and> p \<notin> X} < N \<or> r = ResultOutOfResource)"
    using inv_process [OF inv assms(1,3,4) K, of process_id fill_pattern] unfolding R [symmetric] by blast
  have "p + j \<in> page_bytes (group_pages pg)" if "p \<in> group_pages pg" "j < PageBytes" for p j
    using that by (auto simp: page_bytes_def intro!: bexI [of _ p])
  then show ?thesis
    using r by (intro exI [of _ r] exI [of _ pg] exI [of _ infos'] exI [of _ mm']) (auto simp: unused_def is_optimized_process_def)
qed

lemma AllocateForProcess_fills_witness:
  "\<exists>mm infos pg infos' mm'. mm_run 0x100000000 nx_layout nx_regions 0x80000000 0xC00000 mm infos [] (\<lambda>_. 0) {} \<and>
     AllocateForProcess 2 0 1 0xFF ([], infos, mm) = Some (ResultSuccess, pg, infos', mm') \<and> card (group_pages pg) = 2"
proof -
  obtain mm infos K where run: "mm_run 0x100000000 nx_layout nx_regions 0x80000000 0xC00000 mm infos [] (\<lambda>_. 0) {}"
    and K: "slab_ok KBlockInfo_size infos {} K" "2 \<le> K"
    using nx_run by blast
  have pool: "GetPool 0 = 0" by (simp add: GetPool_def)
  have few: "r \<noteq> ResultOutOfResource" if "AllocateForProcess 2 0 1 0xFF ([], infos, mm) = Some (r, pg, infos', mm')" for r pg infos' mm'
    using inv_process [OF mm_run_inv [OF run nx_setup] nx_setup, of 2 0 K 1 "0xFF"] K that by (auto simp: pool)
  have enough: "card {p \<in> pool_pages_of nx_regions (pool_members nx_regions nx_pools (GetPool 0)). (0 :: nat) = 0 \<and> p \<notin> {}} = 0xCD500"
    unfolding pool nx_members nx_pages by simp
  have two: "0 < (2 :: nat)" "GetPool 0 < 4" by (simp_all add: pool)
  from AllocateForProcess_fills [OF nx_setup run two, of 1 "0xFF", unfolded enough] obtain r pg infos' mm' where
    r: "AllocateForProcess 2 0 1 0xFF ([], infos, mm) = Some (r, pg, infos', mm')" "r = ResultSuccess \<longrightarrow> card (group_pages pg) = 2"
    "r \<noteq> ResultSuccess \<longrightarrow> r = ResultOutOfResource \<or> r = ResultOutOfMemory \<and> (0xCD500 :: nat) < 2" by blast
  then have "r = ResultSuccess" using few by auto
  then show ?thesis using run r(1,2) by blast
qed

end
