(* ===== verification/Spec2Isabelle.thy ===== *)
theory Spec2Isabelle
  imports CheatParser Lifecycle_Queue HandleTable_Use BlockManager_Properties Scheduler_Properties
    PageHeap_Properties DynamicSlab_Properties MemoryManager_Properties
begin

text \<open>
  A verification library for the Volt emulator.

  The emulator runs Nintendo Switch programs. The library models parts of its core, the C++ under
  \<^verbatim>\<open>src/src/core\<close> and \<^verbatim>\<open>src/src/common\<close>, definition by definition.

  \<^bold>\<open>The cheat machine\<close> (\<^verbatim>\<open>core/memory/dmnt_cheat_vm.{h,cpp}\<close>, \<^verbatim>\<open>dmnt_cheat_types.h\<close>).
  \<^verbatim>\<open>CheatVm_Types\<close> has the opcode and machine types, \<^verbatim>\<open>CheatVm_Decode\<close> the decoder and the block
  skipper, \<^verbatim>\<open>CheatVm_Log\<close> the opcode logger, \<^verbatim>\<open>CheatVm_Exec\<close> the loader and the executor, one
  definition per opcode. \<^verbatim>\<open>CheatVm_Encoding\<close> has the layout that the decoder reads and the formats that
  its comments document, which differ for loops and for the resume opcode; \<^verbatim>\<open>CheatVm_Blocks\<close> shows what
  the decoder makes of the documented formats and that the skipper respects nesting; \<^verbatim>\<open>CheatVm_Run\<close> shows the machine's
  invariant, termination without loop ends, the fault branch, index bounds and program loading.
  \<^verbatim>\<open>CheatVm_Host\<close> is the contract of the callbacks (locale \<open>vm_host\<close>). \<open>Execute\<close> takes fuel, one unit
  per executed opcode, because a cheat may loop for ever; running out of fuel is \<open>None\<close>, and the
  termination theorem gives the fuel that is enough for programs without loop ends. The invariant
  and the memory safety are stated of \<open>Execute_upto\<close>, the state of a run after any number of rounds,
  so that they also hold of runs that loop for ever or stop at a fault.

  \<^bold>\<open>Guest memory\<close> (\<^verbatim>\<open>common/page_table.{h,cpp}\<close>, \<^verbatim>\<open>core/memory.{h,cpp}\<close>, \<^verbatim>\<open>core/device_memory.h\<close>).
  \<^verbatim>\<open>PageTable\<close> has the tagged page pointers and the table, \<^verbatim>\<open>GuestMemory\<close> mapping, page marks and
  pointer lookup, \<^verbatim>\<open>GuestMemory_Access\<close> the typed accesses and the block walks.
  \<^verbatim>\<open>GuestMemory_Translation\<close> gives the abstract address translation and shows what mapping,
  unmapping and marking do to it; \<^verbatim>\<open>GuestMemory_Blocks\<close>, \<^verbatim>\<open>GuestMemory_Laws\<close> and
  \<^verbatim>\<open>GuestMemory_Values\<close> relate block and typed accesses to guest bytes, and
  \<^verbatim>\<open>GuestMemory_Interface\<close> states this as the locale \<open>guest_memory\<close>, interpreted on the model.
  Host memory is a function from host addresses to bytes; a null dereference is \<open>None\<close>.

  \<^bold>\<open>The cheat engine\<close> (\<^verbatim>\<open>core/memory/cheat_engine.{h,cpp}\<close>). \<^verbatim>\<open>CheatEngine\<close> has the standard callbacks
  over guest memory and the frame callback, and interprets \<open>vm_host\<close> on them, which gives the memory
  safety of cheats; \<^verbatim>\<open>CheatParser\<close> has the text parser, with bounds, a round trip, and the read past
  the end of the text for an unterminated name.

  \<^bold>\<open>The applet lifecycle manager\<close> (\<^verbatim>\<open>core/hle/service/am/lifecycle_manager.{h,cpp}\<close>). \<^verbatim>\<open>Lifecycle\<close> has
  its operations, \<^verbatim>\<open>Lifecycle_Queue\<close> its step relation and the refinement of a queue of pending
  messages (locale \<open>message_queue\<close>). A step may also signal or clear the system event from outside, as
  \<^verbatim>\<open>ILibraryAppletAccessor::PopOutData\<close> does through \<^verbatim>\<open>GetSystemEvent\<close>.

  \<^bold>\<open>Kernel handles\<close> (\<^verbatim>\<open>core/hle/kernel/k_handle_table.{h,cpp}\<close>, \<^verbatim>\<open>k_auto_object.h\<close>,
  \<^verbatim>\<open>common/bit_field.h\<close>). \<^verbatim>\<open>KernelObjects\<close> has reference counts, class tokens and bit fields,
  \<^verbatim>\<open>HandleTable\<close> the table with its free list threaded through the entries, \<^verbatim>\<open>HandleTable_Laws\<close> the
  invariant and the locale \<open>handle_space\<close> (a map from handles with serial numbers), interpreted on the
  table; \<^verbatim>\<open>HandleTable_Use\<close> shows that additions and removals are map updates, that handles are not
  recycled within a period, and that multiple lookups are all or nothing.

  \<^bold>\<open>The memory block manager\<close> (\<^verbatim>\<open>core/hle/kernel/k_memory_block.h\<close>,
  \<^verbatim>\<open>k_memory_block_manager.{h,cpp}\<close>). \<^verbatim>\<open>MemoryBlock\<close> has one block, \<^verbatim>\<open>BlockManager\<close> the manager; the
  red-black tree of the code is the ordered list of its blocks. \<^verbatim>\<open>BlockManager_Laws\<close> has the layout of
  the address space in pages, \<^verbatim>\<open>BlockManager_Update\<close> the update loop and the coalescing pass for any
  change that depends on the properties of a block (locale \<open>block_update\<close>), \<^verbatim>\<open>BlockManager_Spec\<close> the
  invariant and the interpretations for every update of the code, \<^verbatim>\<open>BlockManager_Properties\<close> the
  refinement of a map over pages, the audit, locking, the failing corner case and the search for
  free areas. The loops take fuel, one unit per block and a few more; the theorems show that this is
  enough. The assertions of the code on the pages of a range are hypotheses of the theorems, and a
  range for which an update steps back from the first block is shown to run into a null iterator.
  On an empty tree, where the code steps an end iterator, the audit answers false; no theorem is about
  that case.

  \<^bold>\<open>The ready queue and the scheduler\<close> (\<^verbatim>\<open>core/hle/kernel/k_priority_queue.h\<close>,
  \<^verbatim>\<open>k_affinity_mask.h\<close>, \<^verbatim>\<open>k_scheduler.{h,cpp}\<close>, \<^verbatim>\<open>k_scheduler_lock.h\<close>,
  \<^verbatim>\<open>global_scheduler_context.{h,cpp}\<close> and the parts of \<^verbatim>\<open>k_thread.cpp\<close> that change the state of the
  scheduler). \<^verbatim>\<open>PriorityQueue\<close> has the queues of every core and priority, doubly linked through the
  threads, with their bit sets. \<^verbatim>\<open>PriorityQueue_Laws\<close> has the rings the links form,
  \<^verbatim>\<open>PriorityQueue_Rep\<close> and \<^verbatim>\<open>PriorityQueue_Spec\<close> the edits of one queue, of one table and of both
  tables (locales \<open>ring_edit\<close>, \<open>table_edit\<close>, \<open>seats_edit\<close>, interpreted on the pushes and removals of
  the code), which refine one list of threads per core and priority; \<^verbatim>\<open>PriorityQueue_Use\<close> has the
  getters and the public operations over these lists. \<^verbatim>\<open>Scheduler\<close> has the selection of threads,
  migration, rotation, preemption, the three yields and the scheduler lock; \<^verbatim>\<open>Scheduler_Laws\<close> the
  invariant that the queue holds the runnable threads at the seats their priority and affinity give
  them, \<^verbatim>\<open>Scheduler_Steps\<close>, \<^verbatim>\<open>Scheduler_Update\<close> and \<^verbatim>\<open>Scheduler_Entry\<close> that every operation returns and
  keeps it, \<^verbatim>\<open>Scheduler_Properties\<close> the theorems. The loops over queues are partial functions into
  \<open>option\<close>, and the theorems show that they return. The release of the lock records the mask of the
  cores to reschedule; the context switch itself (fibers, interrupts, dispatch counters) is outside, and
  so are \<^verbatim>\<open>UpdateState\<close>, \<^verbatim>\<open>Continue\<close>, \<^verbatim>\<open>Pin\<close> and \<^verbatim>\<open>Unpin\<close> of \<^verbatim>\<open>KThread\<close>, which reach the scheduler through
  the same events.

  \<^bold>\<open>The page allocator\<close> (\<^verbatim>\<open>core/hle/kernel/k_page_heap.{h,cpp}\<close>, \<^verbatim>\<open>k_page_bitmap.h\<close>,
  \<^verbatim>\<open>common/tiny_mt.h\<close>). \<^verbatim>\<open>RandomBits\<close> has the random number generator and the selection of a random
  bit; the seeds that the code draws from the host are arguments. \<^verbatim>\<open>PageBitmap\<close> has the bitmap of
  up to four layers, \<^verbatim>\<open>PageHeap\<close> the heap with one bitmap for each of its seven block sizes, freeing
  with joining of blocks, the linear and the random allocation. Addresses and sizes are naturals with the wrap at 64 bits
  written out; the management data is one vector of words, a pointer into it an index, and an
  access outside is \<open>None\<close>. \<^verbatim>\<open>PageBitmap_Laws\<close> has the agreement of the layers and the walks
  through them (locale \<open>bit_walk\<close>, interpreted on setting and clearing), \<^verbatim>\<open>PageBitmap_Spec\<close>,
  \<^verbatim>\<open>PageBitmap_Search\<close> and \<^verbatim>\<open>PageBitmap_Init\<close> that the bitmap implements a finite set of indices.
  \<^verbatim>\<open>PageHeap_Laws\<close> and \<^verbatim>\<open>PageHeap_Rep\<close> relate the bitmaps to sets of blocks, \<^verbatim>\<open>PageHeap_Free\<close>,
  \<^verbatim>\<open>PageHeap_Alloc\<close>, \<^verbatim>\<open>PageHeap_Random\<close> and \<^verbatim>\<open>PageHeap_Init\<close> show what every operation does to the free
  space and that its loops return, and \<^verbatim>\<open>PageHeap_Properties\<close> has the contract of an allocator (locale
  \<open>page_source\<close>, interpreted on the heap), the runs of the heap and the theorems about them.

  \<^bold>\<open>Dynamic pages and slabs\<close> (\<^verbatim>\<open>core/hle/kernel/k_dynamic_page_manager.h\<close>, \<^verbatim>\<open>k_dynamic_slab_heap.h\<close>,
  \<^verbatim>\<open>k_slab_heap.h\<close>). \<^verbatim>\<open>DynamicSlab\<close> has a pool of pages over a page bitmap in its own backing memory and the
  slab of equal objects that takes pages from it. \<^verbatim>\<open>DynamicSlab_Laws\<close> and \<^verbatim>\<open>DynamicSlab_Init\<close> show that
  the pool hands out each page once, \<^verbatim>\<open>DynamicSlab_Use\<close> states the contract of a source of objects (locale
  \<open>object_source\<close>) and interprets it on the slab, and \<^verbatim>\<open>DynamicSlab_Properties\<close> has the runs and the
  theorem about them, for pools at any kernel address that do not wrap around. The free list that the
  code threads through the free objects is a list of their offsets, so the theorems ask for objects
  that hold a node.

  \<^bold>\<open>The memory manager\<close> (\<^verbatim>\<open>core/hle/kernel/k_memory_manager.{h,cpp}\<close>, \<^verbatim>\<open>k_page_group.{h,cpp}\<close>, and of
  \<^verbatim>\<open>k_memory_layout.h\<close>, \<^verbatim>\<open>k_memory_region.h\<close> and \<^verbatim>\<open>k_memory_region_type.h\<close> what it reads). It stands on the page heap and on the slab:
  every manager has a heap and 16-bit reference counts, the managers of a pool form a list, and a page group is a
  list of runs of pages whose nodes come from a slab. \<^verbatim>\<open>PageGroup\<close> and \<^verbatim>\<open>MemoryManager\<close> have all operations; a
  pointer to a manager is its index, a region tree the list of its regions, device memory a function from
  addresses to bytes, and the memory size of the board and the place of the initial process binary are arguments. \<^verbatim>\<open>MemoryManager_Laws\<close>
  relates one manager to its books, the set of free pages and the references to each page; \<^verbatim>\<open>MemoryManager_Rep\<close>
  all managers together, with the loops over a range (locale \<open>chunk_op\<close>, interpreted on both ways of opening and
  on closing); \<^verbatim>\<open>MemoryManager_Alloc\<close>, \<^verbatim>\<open>PageGroup_Laws\<close>, \<^verbatim>\<open>MemoryManager_Groups\<close>, \<^verbatim>\<open>MemoryManager_Contract\<close> and
  \<^verbatim>\<open>MemoryManager_Process\<close> have the allocations, \<^verbatim>\<open>MemoryManager_Links\<close> and \<^verbatim>\<open>MemoryManager_Init\<close> the
  initialisation, and \<^verbatim>\<open>MemoryManager_Properties\<close> the runs of the manager and the theorems. The loops over managers, chunks
  and blocks are partial functions into \<open>option\<close>, and the theorems show that they return. The theorems assume that each manager has
  one region; the managers of a pool may be neighbours, as \<^verbatim>\<open>SetupPoolPartitionMemoryRegions\<close> makes the two of the application pool, and
  the witnesses are on its layout for four gibibytes. There the undoing of a failed allocation frees only the
  part of a run that lies in the manager of its first page; the runs keep the set of the pages lost in this way, which
  is empty when no two managers of a pool are neighbours. The page groups of a run take their nodes from one block-info manager, with or
  without a page allocator, and the groups that page tables make for themselves are not in the runs.

  \<^verbatim>\<open>Prelude\<close> holds words, nibbles, little-endian bytes and number formatting. The formatting of a
  number runs at most 20 digit rounds, enough for 64 bits in base ten and sixteen.

  \<^bold>\<open>Not modelled.\<close> The GPU, the recompilers, audio, input, the user interfaces and the file formats
  (device and host I/O or foreign libraries), and the services other than the one above. Of the
  memory, the GPU side of cached pages is recorded as a notification only. Locks and host threads
  are left out: every operation is one atomic step.
\<close>

end
